(* ===== verification/Bdm_Prelude.thy ===== *)
theory Bdm_Prelude
  imports Main "HOL-Library.Word" "HOL-Library.Signed_Division"
begin

text \<open>
  The vocabulary every component shares: the C integer types as words, little- and
  big-endian reads of byte buffers, partial overwrites of a buffer, and runs of disk
  sectors as byte lists. The collection \<open>sector_simps\<close> holds the rewrite rules on sector
  runs, \<open>word_nat\<close> the rules that move unsigned arithmetic without overflow to \<open>nat\<close>.
\<close>

unbundle bit_operations_syntax

section \<open>C types\<close>

type_synonym u8 = "8 word"
type_synonym u16 = "16 word"
type_synonym u32 = "32 word"
type_synonym u64 = "64 word"
type_synonym byte = u8
type_synonym bytes = "byte list"

named_theorems sector_simps \<open>rules on runs of sectors\<close>
named_theorems word_nat \<open>unsigned word arithmetic read as nat\<close>

text \<open>The error numbers of the C library that the sources return (negated).\<close>

abbreviation (input) ENOENT :: int where "ENOENT \<equiv> 2"
abbreviation (input) EIO :: int where "EIO \<equiv> 5"
abbreviation (input) ENXIO :: int where "ENXIO \<equiv> 6"
abbreviation (input) EINVAL :: int where "EINVAL \<equiv> 22"
abbreviation (input) EMFILE :: int where "EMFILE \<equiv> 24"

text \<open>A signed 32-bit variable holds \<open>wrap32\<close> of the value assigned to it.\<close>

definition wrap32 :: "int \<Rightarrow> int" where
  "wrap32 x = signed_take_bit 31 x"

lemma wrap32_id: "- (2 ^ 31) \<le> x \<Longrightarrow> x < 2 ^ 31 \<Longrightarrow> wrap32 x = x"
  unfolding wrap32_def by (rule signed_take_bit_int_eq_self) simp_all

section \<open>Unsigned arithmetic without overflow\<close>

lemma unat_add_lt [word_nat]:
  "unat (a :: 'a::len word) + unat b < 2 ^ LENGTH('a) \<Longrightarrow> unat (a + b) = unat a + unat b"
  by (simp add: unat_word_ariths)

lemma unat_sub_le [word_nat]:
  "(b :: 'a::len word) \<le> a \<Longrightarrow> unat (a - b) = unat a - unat b"
  by (simp add: unat_sub_if_size word_le_nat_alt)

lemma unat_bound: "LENGTH('a) \<le> n \<Longrightarrow> unat (x :: 'a::len word) < 2 ^ n"
proof -
  assume "LENGTH('a) \<le> n"
  then have "(2 :: nat) ^ LENGTH('a) \<le> 2 ^ n" by simp
  moreover have "unat x < 2 ^ LENGTH('a)" by (rule unsigned_less)
  ultimately show ?thesis by (rule less_le_trans [rotated])
qed

lemma unat_ucast_up [word_nat]:
  "LENGTH('a) \<le> LENGTH('b) \<Longrightarrow> unat (ucast (x :: 'a::len word) :: 'b::len word) = unat x"
  by (simp add: unsigned_ucast_eq take_bit_nat_eq_self unat_bound)

lemma unat_ucast_16_64 [word_nat, simp]: "unat (ucast (x :: u16) :: u64) = unat x"
  by (rule unat_ucast_up) simp

lemma unat_ucast_16_32 [word_nat, simp]: "unat (ucast (x :: u16) :: u32) = unat x"
  by (rule unat_ucast_up) simp

lemma unat_ucast_32_64 [word_nat, simp]: "unat (ucast (x :: u32) :: u64) = unat x"
  by (rule unat_ucast_up) simp

lemma unat_lt_u8: "unat (b :: u8) < 256"
  using unat_bound [of 8 b] by simp

text \<open>The low byte of a number.\<close>

lemma unat_byte: "unat (ucast (x :: 'a::len word) :: u8) = unat x mod 256"
  by (simp add: unsigned_ucast_eq take_bit_eq_mod)

lemma unat_lt_u16: "unat (x :: u16) < 65536"
  using unat_bound [of 16 x] by simp

lemma unat_lt_u64: "unat (x :: u64) < 2 ^ 64"
  by (rule unat_bound) simp

lemma unat_max_u64: "unat (- 1 :: u64) = 2 ^ 64 - 1"
  by (simp add: unsigned_minus_1_eq_mask mask_eq_exp_minus_1)

lemma uint_less_unat: "unat (x :: 'a::len word) < numeral k \<Longrightarrow> uint x < numeral k"
  by (metis of_nat_less_iff of_nat_numeral uint_nat)

text \<open>A negative error code is never a count.\<close>

lemma uint_neq_neg [simp]:
  "uint (x :: 'a::len word) \<noteq> - numeral k" "- numeral k \<noteq> uint x" "uint x \<noteq> - 1" "- 1 \<noteq> uint x"
proof -
  have "- numeral k < (0 :: int)" by (rule neg_numeral_less_zero)
  then have "- numeral k < uint x" using uint_ge_0 [of x] by (rule less_le_trans)
  then show "uint x \<noteq> - numeral k" "- numeral k \<noteq> uint x" by simp_all
  show "uint x \<noteq> - 1" "- 1 \<noteq> uint x" using uint_ge_0 [of x] by linarith+
qed

text \<open>Masks, shifts and packed fields.\<close>

lemma unat_and_mask: "unat ((x :: 'a::len word) AND mask n) = unat x mod 2 ^ n"
  by (simp flip: take_bit_eq_mask take_bit_eq_mod add: unsigned_take_bit_eq)

lemma unat_drop_bit: "unat (drop_bit n (x :: 'a::len word)) = unat x div 2 ^ n"
proof -
  have "take_bit LENGTH('a) (unat x) = unat x" by (simp add: take_bit_nat_eq_self unsigned_less)
  then show ?thesis by (simp only: unsigned_drop_bit_eq) (simp add: drop_bit_eq_div)
qed

lemma unat_or_field:
  fixes x y :: u32
  assumes y: "unat y < 2 ^ k" and x: "unat x * 2 ^ k + 2 ^ k \<le> 2 ^ 32"
  shows "unat (push_bit k x OR y) = unat x * 2 ^ k + unat y"
proof -
  have "unat (take_bit k y) = unat y" using y by (simp add: unsigned_take_bit_eq take_bit_nat_eq_self)
  then have ty: "take_bit k y = y" by (rule unsigned_word_eqI)
  have "push_bit k x AND take_bit k y = 0" by (rule bit_eqI) (simp add: bit_simps)
  then have "push_bit k x OR y = push_bit k x + y" unfolding ty by (rule disjunctive_add_eq_or [symmetric])
  moreover have "unat x * 2 ^ k < 2 ^ 32" using x by (rule less_le_trans [rotated]) simp
  then have "unat (push_bit k x) = unat x * 2 ^ k"
    unfolding unsigned_push_bit_eq by (simp add: push_bit_eq_mult take_bit_nat_eq_self)
  moreover have "unat (push_bit k x + y) = unat (push_bit k x) + unat y"
    using calculation(2) x y by (intro unat_add_lt) simp
  ultimately show ?thesis by simp
qed

section \<open>Buffers\<close>

text \<open>A call that fills the front of a buffer with \<open>d\<close> leaves the rest as it was.\<close>

definition overlay :: "bytes \<Rightarrow> bytes \<Rightarrow> bytes" where
  "overlay old d = d @ drop (length d) old"

lemma length_overlay [simp]:
  "length d \<le> length old \<Longrightarrow> length (overlay old d) = length old"
  by (simp add: overlay_def)

lemma take_overlay [simp]: "n \<le> length d \<Longrightarrow> take n (overlay old d) = take n d"
  by (simp add: overlay_def)

lemma take_drop_overlay:
  "k + n \<le> length d \<Longrightarrow> take n (drop k (overlay old d)) = take n (drop k d)"
  by (simp add: overlay_def)

text \<open>Little-endian fields of packed structures, read at a byte offset.\<close>

definition le16 :: "bytes \<Rightarrow> nat \<Rightarrow> u16" where
  "le16 xs o1 = (ucast (xs ! o1) :: u16) OR push_bit 8 (ucast (xs ! (o1 + 1)))"

definition le32 :: "bytes \<Rightarrow> nat \<Rightarrow> u32" where
  "le32 xs o1 = (ucast (le16 xs o1) :: u32) OR push_bit 16 (ucast (le16 xs (o1 + 2)))"

definition le64 :: "bytes \<Rightarrow> nat \<Rightarrow> u64" where
  "le64 xs o1 = (ucast (le32 xs o1) :: u64) OR push_bit 32 (ucast (le32 xs (o1 + 4)))"

definition put_le32 :: "u32 \<Rightarrow> bytes" where
  "put_le32 x = [ucast x, ucast (drop_bit 8 x), ucast (drop_bit 16 x), ucast (drop_bit 24 x)]"

text \<open>Each byte of a little-endian field is determined by its value.\<close>

lemma bit_le32:
  assumes "n < 8"
  shows "bit (le32 xs k) n = bit (xs ! k) n" "bit (le32 xs k) (8 + n) = bit (xs ! (k + 1)) n"
    "bit (le32 xs k) (16 + n) = bit (xs ! (k + 2)) n" "bit (le32 xs k) (24 + n) = bit (xs ! (k + 3)) n"
  using assms by (auto simp: le32_def le16_def bit_simps numeral_3_eq_3 dest: bit_imp_le_length)

lemma le32_inject:
  assumes "le32 xs k = le32 ys k" "j < 4"
  shows "xs ! (k + j) = ys ! (k + j)"
proof (rule bit_word_eqI)
  fix n :: nat assume n: "n < LENGTH(8)"
  then have "n < 8" by simp
  note b = bit_le32 [OF this, of xs k] bit_le32 [OF this, of ys k]
  from assms(2) consider "j = 0" | "j = 1" | "j = 2" | "j = 3" by linarith
  then show "bit (xs ! (k + j)) n = bit (ys ! (k + j)) n"
    using b assms(1) by cases simp_all
qed

lemma le32_put: "le32 (xs @ put_le32 x @ ys) (length xs) = x"
proof (rule bit_word_eqI)
  fix n :: nat assume "n < LENGTH(32)"
  then have n: "n < 32" by simp
  define zs where "zs = xs @ put_le32 x @ ys"
  have z: "zs ! length xs = ucast x" "zs ! (length xs + 1) = ucast (drop_bit 8 x)"
    "zs ! (length xs + 2) = ucast (drop_bit 16 x)" "zs ! (length xs + 3) = ucast (drop_bit 24 x)"
    by (simp_all add: zs_def put_le32_def nth_append numeral_2_eq_2 numeral_3_eq_3)
  have m: "n mod 8 < 8" by simp
  have d: "n = 8 * (n div 8) + n mod 8" by simp
  have "n div 8 < 4" using n by linarith
  then consider "n div 8 = 0" | "n div 8 = 1" | "n div 8 = 2" | "n div 8 = 3" by linarith
  then have "bit (le32 zs (length xs)) n = bit x n"
    using bit_le32 [OF m, of zs "length xs", unfolded z] d m by cases (simp_all add: bit_simps add.commute)
  then show "bit (le32 (xs @ put_le32 x @ ys) (length xs)) n = bit x n" by (simp add: zs_def)
qed

section \<open>Runs of sectors\<close>

text \<open>
  A disk is a function from sector numbers to sector contents. \<open>sectors f a n\<close> is the
  byte string of the \<open>n\<close> sectors from \<open>a\<close>; \<open>upd_sectors f a n sz d\<close> is the disk after
  the string \<open>d\<close> was stored there.
\<close>

definition sectors :: "(nat \<Rightarrow> bytes) \<Rightarrow> nat \<Rightarrow> nat \<Rightarrow> bytes" where
  "sectors f a n = concat (map f [a..<a + n])"

definition upd_sectors :: "(nat \<Rightarrow> bytes) \<Rightarrow> nat \<Rightarrow> nat \<Rightarrow> nat \<Rightarrow> bytes \<Rightarrow> nat \<Rightarrow> bytes" where
  "upd_sectors f a n sz d k =
     (if a \<le> k \<and> k < a + n then take sz (drop ((k - a) * sz) d) else f k)"

lemma sectors_0 [simp, sector_simps]: "sectors f a 0 = []"
  by (simp add: sectors_def)

lemma sectors_Suc: "sectors f a (Suc n) = f a @ sectors f (Suc a) n"
  by (simp add: sectors_def upt_rec)

lemma sectors_add [sector_simps]: "sectors f a (m + n) = sectors f a m @ sectors f (a + m) n"
proof -
  have "[a..<a + (m + n)] = [a..<a + m] @ [a + m..<a + m + n]"
    by (metis add.assoc upt_add_eq_append le_add1)
  then show ?thesis by (simp add: sectors_def)
qed

lemma sectors_cong:
  "(\<And>k. a \<le> k \<Longrightarrow> k < a + n \<Longrightarrow> f k = g k) \<Longrightarrow> sectors f a n = sectors g a n"
  unfolding sectors_def by (rule arg_cong [where f = concat], rule map_cong) auto

lemma length_sectors [sector_simps]:
  "(\<And>k. a \<le> k \<Longrightarrow> k < a + n \<Longrightarrow> length (f k) = sz) \<Longrightarrow> length (sectors f a n) = n * sz"
  by (induction n arbitrary: a) (auto simp: sectors_Suc)

lemma sectors_part:
  assumes len: "\<And>k. length (f k) = sz" and le: "k + m \<le> n"
  shows "take (m * sz) (drop (k * sz) (sectors f a n)) = sectors f (a + k) m"
proof -
  have split: "n = k + (m + (n - k - m))" using le by simp
  have "sectors f a n = sectors f a k @ sectors f (a + k) m @ sectors f (a + k + m) (n - k - m)"
    using split by (metis sectors_add)
  moreover have "length (sectors f a k) = k * sz" "length (sectors f (a + k) m) = m * sz"
    using len by (auto intro: length_sectors)
  ultimately show ?thesis by simp
qed

lemma upd_sectors_outside [simp, sector_simps]:
  "k < a \<or> a + n \<le> k \<Longrightarrow> upd_sectors f a n sz d k = f k"
  by (auto simp: upd_sectors_def)

lemma upd_sectors_0 [simp, sector_simps]: "upd_sectors f a 0 sz d = f"
  by (rule ext) (auto simp: upd_sectors_def)

lemma length_upd_sectors:
  assumes "length d = n * sz" and "\<And>k. length (f k) = sz"
  shows "length (upd_sectors f a n sz d k) = sz"
proof (cases "a \<le> k \<and> k < a + n")
  case True
  then have "Suc (k - a) * sz \<le> n * sz" by (intro mult_right_mono) auto
  then show ?thesis using True assms by (simp add: upd_sectors_def)
qed (use assms in \<open>auto simp: upd_sectors_def\<close>)

lemma chunks_concat:
  "length d = n * sz \<Longrightarrow> concat (map (\<lambda>i. take sz (drop (i * sz) d)) [0..<n]) = d"
proof (induction n arbitrary: d)
  case (Suc n)
  have shift: "map (\<lambda>i. take sz (drop (i * sz) d)) [Suc 0..<Suc n]
      = map (\<lambda>i. take sz (drop (i * sz) (drop sz d))) [0..<n]"
    by (simp only: map_Suc_upt [symmetric] map_map o_def) (simp add: add.commute)
  have "concat (map (\<lambda>i. take sz (drop (i * sz) d)) [0..<Suc n])
      = take sz d @ concat (map (\<lambda>i. take sz (drop (i * sz) d)) [Suc 0..<Suc n])"
    by (simp only: upt_conv_Cons [OF zero_less_Suc] list.map concat.simps mult_0 drop_0)
  also have "\<dots> = take sz d @ drop sz d"
    using Suc.prems Suc.IH [of "drop sz d"] by (simp only: shift) simp
  finally show ?case by simp
qed simp

lemma sectors_upd_same [sector_simps]:
  assumes "length d = n * sz"
  shows "sectors (upd_sectors f a n sz d) a n = d"
proof -
  have "map (upd_sectors f a n sz d) [a..<a + n] = map (\<lambda>i. take sz (drop (i * sz) d)) [0..<n]"
    by (rule nth_equalityI) (auto simp: upd_sectors_def)
  then show ?thesis using chunks_concat [OF assms] by (simp add: sectors_def)
qed

lemma upd_sectors_add:
  assumes "length d1 = m * sz"
  shows "upd_sectors (upd_sectors f a m sz d1) (a + m) n sz d2 = upd_sectors f a (m + n) sz (d1 @ d2)"
proof
  fix k
  consider "k < a" | "a \<le> k" "k < a + m" | "a + m \<le> k" "k < a + m + n" | "a + m + n \<le> k" by linarith
  then show "upd_sectors (upd_sectors f a m sz d1) (a + m) n sz d2 k
      = upd_sectors f a (m + n) sz (d1 @ d2) k"
  proof cases
    case 2
    then have "Suc (k - a) * sz \<le> m * sz" by (intro mult_right_mono) auto
    then have "(k - a) * sz + sz \<le> length d1" using assms by simp
    then show ?thesis using 2 by (simp add: upd_sectors_def)
  next
    case 3
    then have "k - a = m + (k - (a + m))" by simp
    then have "(k - a) * sz = m * sz + (k - (a + m)) * sz"
      by (metis add_mult_distrib)
    then show ?thesis using 3 assms by (simp add: upd_sectors_def)
  qed (auto simp: upd_sectors_def)
qed

lemma sectors_one [simp]: "sectors f a (Suc 0) = f a"
  by (simp add: sectors_Suc)

lemma sectors_of_blocks:
  assumes "\<And>j. j < n \<Longrightarrow> take sz (drop ((k + j) * sz) blk) = f (a + j)"
    and "(k + n) * sz \<le> length blk"
  shows "take (n * sz) (drop (k * sz) blk) = sectors f a n"
  using assms
proof (induction n)
  case (Suc n)
  have le: "(k + n) * sz + sz \<le> length blk" using Suc.prems(2) by simp
  have "take (Suc n * sz) (drop (k * sz) blk)
      = take (n * sz) (drop (k * sz) blk) @ take sz (drop (n * sz) (drop (k * sz) blk))"
    by (metis add.commute mult_Suc take_add)
  also have "take sz (drop (n * sz) (drop (k * sz) blk)) = f (a + n)"
    using Suc.prems(1) [of n] by (simp add: add_mult_distrib add.commute)
  also have "take (n * sz) (drop (k * sz) blk) = sectors f a n"
    using Suc le by (intro Suc.IH) auto
  finally show ?case using sectors_add [of f a n "Suc 0"] by simp
qed simp

lemma sectors_shift:
  assumes "\<And>j. j < n \<Longrightarrow> f (a + j) = g (b + j)"
  shows "sectors f a n = sectors g b n"
proof -
  have "map f [a..<a + n] = map g [b..<b + n]"
    by (rule nth_equalityI) (use assms in auto)
  then show ?thesis by (simp add: sectors_def)
qed

section \<open>Loops over tables\<close>

text \<open>\<open>for (i = 0; ...; ++i) if (P(tab[i])) { ...; break; }\<close>: the first index that matches.\<close>

fun first_index :: "('a \<Rightarrow> bool) \<Rightarrow> 'a list \<Rightarrow> nat option" where
  "first_index P [] = None"
| "first_index P (x # xs) = (if P x then Some 0 else map_option Suc (first_index P xs))"

lemma first_index_None: "first_index P xs = None \<longleftrightarrow> (\<forall>x \<in> set xs. \<not> P x)"
  by (induction xs) auto

lemma first_index_Some:
  "first_index P xs = Some i \<longleftrightarrow> i < length xs \<and> P (xs ! i) \<and> (\<forall>j < i. \<not> P (xs ! j))"
proof (induction xs arbitrary: i)
  case (Cons x xs)
  show ?case by (cases i) (auto simp: Cons.IH less_Suc_eq_0_disj)
qed simp

text \<open>A loop whose body may not return (\<open>None\<close>).\<close>

fun for_each :: "('i \<Rightarrow> 's \<Rightarrow> 's option) \<Rightarrow> 'i list \<Rightarrow> 's \<Rightarrow> 's option" where
  "for_each f [] s = Some s"
| "for_each f (i # is) s = (case f i s of None \<Rightarrow> None | Some s' \<Rightarrow> for_each f is s')"

lemma for_each_rel:
  assumes "for_each f is s = Some s'" "\<And>s. R s s"
    and "\<And>a b c. R a b \<Longrightarrow> R b c \<Longrightarrow> R a c"
    and "\<And>i a b. i \<in> set is \<Longrightarrow> I a \<Longrightarrow> f i a = Some b \<Longrightarrow> R a b \<and> I b" "I s"
  shows "R s s' \<and> I s'"
  using assms(1,4,5)
proof (induction "is" arbitrary: s)
  case (Cons i "is")
  obtain t where t: "f i s = Some t" "for_each f is t = Some s'"
    using Cons.prems(1) by (auto split: option.splits)
  have "R s t \<and> I t" using Cons.prems(2) [of i s t] Cons.prems(3) t(1) by simp
  moreover have "R t s' \<and> I s'"
    by (rule Cons.IH) (use Cons.prems(2) t calculation in \<open>auto\<close>)
  ultimately show ?case using assms(3) by blast
qed (use assms(2) in auto)

lemma for_each_returns:
  assumes "\<And>i a. i \<in> set is \<Longrightarrow> I a \<Longrightarrow> \<exists>b. f i a = Some b \<and> I b" "I s"
  shows "\<exists>s'. for_each f is s = Some s' \<and> I s'"
  using assms
proof (induction "is" arbitrary: s)
  case (Cons i "is")
  obtain t where "f i s = Some t" "I t" using Cons.prems by (meson list.set_intros(1))
  then show ?case using Cons.IH [of t] Cons.prems(1) by (auto intro: list.set_intros(2))
qed simp

text \<open>What each iteration establishes for its index holds at the end if later iterations keep it.\<close>

lemma for_each_all:
  assumes "for_each f is s = Some s'" "\<And>s. R s s" "\<And>a b c. R a b \<Longrightarrow> R b c \<Longrightarrow> R a c"
    and "\<And>i a b. i \<in> set is \<Longrightarrow> I a \<Longrightarrow> f i a = Some b \<Longrightarrow> R a b \<and> I b \<and> P i b"
    and "\<And>i a b. R a b \<Longrightarrow> P i a \<Longrightarrow> P i b" "I s"
  shows "\<forall>i \<in> set is. P i s'"
  using assms(1,4,6)
proof (induction "is" arbitrary: s)
  case (Cons i "is")
  obtain t where t: "f i s = Some t" "for_each f is t = Some s'"
    using Cons.prems(1) by (auto split: option.splits)
  have st: "R s t \<and> I t \<and> P i t" using Cons.prems(2) [of i s t] Cons.prems(3) t(1) by simp
  have step: "\<And>j a b. j \<in> set is \<Longrightarrow> I a \<Longrightarrow> f j a = Some b \<Longrightarrow> R a b \<and> I b"
    using Cons.prems(2) by (meson list.set_intros(2))
  have "R t s' \<and> I s'"
    by (rule for_each_rel [OF t(2) assms(2,3) step]) (use st in \<open>simp_all\<close>)
  then have "P i s'" using assms(5) st by blast
  moreover have "\<forall>j \<in> set is. P j s'"
    by (rule Cons.IH [OF t(2)]) (use Cons.prems(2) st in \<open>auto\<close>)
  ultimately show ?case by simp
qed simp

lemma for_each_append:
  "for_each f (xs @ ys) s = (case for_each f xs s of None \<Rightarrow> None | Some s' \<Rightarrow> for_each f ys s')"
  by (induction xs arbitrary: s) (auto split: option.split)

lemma for_each_idle: "\<forall>i \<in> set is. f i s = Some s \<Longrightarrow> for_each f is s = Some s"
  by (induction "is") auto

text \<open>A loop in which only the iteration \<open>i0\<close> does something.\<close>

lemma for_each_single:
  assumes "i0 < n" "f i0 s = Some s'"
    and "\<And>i. i < n \<Longrightarrow> i \<noteq> i0 \<Longrightarrow> f i s = Some s" "\<And>i. i < n \<Longrightarrow> i \<noteq> i0 \<Longrightarrow> f i s' = Some s'"
  shows "for_each f [0..<n] s = Some s'"
proof -
  have "[0..<n] = [0..<i0] @ i0 # [Suc i0..<n]"
    using assms(1) by (metis upt_conv_Cons upt_add_eq_append le_add_diff_inverse zero_le less_imp_le)
  moreover have "for_each f [0..<i0] s = Some s" using assms(1,3) by (intro for_each_idle) auto
  moreover have "for_each f [Suc i0..<n] s' = Some s'" using assms(4) by (intro for_each_idle) auto
  ultimately show ?thesis using assms(2) by (simp add: for_each_append)
qed

end
