(* ===== verification/Block_Device.thy ===== *)
theory Block_Device
  imports Bdm_Prelude
begin

text \<open>
  The interface every layer of the storage stack offers and uses, \<open>struct block_device\<close>
  of \<open>__bdm_assault/src/bdm/bdm.h\<close>: the descriptive fields as a record, the four function
  pointers as operations on the state \<open>'s\<close> of the layer below. The locale \<open>block_store\<close>
  is the contract of the interface: a disk of sectors that reads observe and writes
  change. The cache, the partitions and the SCSI layer are proved to meet it in their
  own theories; the RAM disk at the end is the reference instance.
\<close>

section \<open>The structure\<close>

record block_device =
  bd_name :: "string option"
  devNr :: u32
  parNr :: u32
  parId :: u8
  sectorSize :: u32
  sectorOffset :: u64
  sectorCount :: u64

text \<open>
  \<open>read\<close> returns the C result, the bytes it stored in the caller's buffer and the new
  state; \<open>write\<close> takes the caller's buffer.
\<close>

record 's bd_ops =
  bd_read :: "'s \<Rightarrow> u64 \<Rightarrow> u16 \<Rightarrow> int \<times> bytes \<times> 's"
  bd_write :: "'s \<Rightarrow> u64 \<Rightarrow> bytes \<Rightarrow> u16 \<Rightarrow> int \<times> 's"
  bd_flush :: "'s \<Rightarrow> 's"
  bd_stop :: "'s \<Rightarrow> int \<times> 's"

section \<open>The contract\<close>

locale block_store =
  fixes ops :: "'s bd_ops"
    and inv :: "'s \<Rightarrow> bool"
    and disk :: "'s \<Rightarrow> nat \<Rightarrow> bytes"
    and ssz :: nat
    and nsec :: nat
  assumes disk_len: "inv s \<Longrightarrow> length (disk s k) = ssz"
    and read_keeps: "inv s \<Longrightarrow> unat a + unat c \<le> nsec \<Longrightarrow> bd_read ops s a c = (r, d, s') \<Longrightarrow>
           inv s' \<and> disk s' = disk s"
    and read_bound: "inv s \<Longrightarrow> unat a + unat c \<le> nsec \<Longrightarrow> bd_read ops s a c = (r, d, s') \<Longrightarrow>
           length d \<le> unat c * ssz"
    and read_data: "inv s \<Longrightarrow> unat a + unat c \<le> nsec \<Longrightarrow>
           bd_read ops s a c = (int (unat c), d, s') \<Longrightarrow> d = sectors (disk s) (unat a) (unat c)"
    and write_inv: "inv s \<Longrightarrow> unat a + unat c \<le> nsec \<Longrightarrow> length d = unat c * ssz \<Longrightarrow>
           bd_write ops s a d c = (r, s') \<Longrightarrow> inv s'"
    and write_frame: "inv s \<Longrightarrow> unat a + unat c \<le> nsec \<Longrightarrow> length d = unat c * ssz \<Longrightarrow>
           bd_write ops s a d c = (r, s') \<Longrightarrow> k < unat a \<or> unat a + unat c \<le> k \<Longrightarrow>
           disk s' k = disk s k"
    and write_data: "inv s \<Longrightarrow> unat a + unat c \<le> nsec \<Longrightarrow> length d = unat c * ssz \<Longrightarrow>
           bd_write ops s a d c = (int (unat c), s') \<Longrightarrow>
           disk s' = upd_sectors (disk s) (unat a) (unat c) ssz d"
begin

text \<open>What a client gets from the contract: a successful write is read back, and it does
  not disturb sectors outside the written run.\<close>

lemma read_after_write:
  assumes "inv s" "unat a + unat c \<le> nsec" "length d = unat c * ssz"
    and "bd_write ops s a d c = (int (unat c), s1)"
    and "bd_read ops s1 a c = (int (unat c), d', s2)"
  shows "d' = d"
proof -
  have "inv s1" using assms write_inv by blast
  then have "d' = sectors (disk s1) (unat a) (unat c)" using assms read_data by blast
  moreover have "disk s1 = upd_sectors (disk s) (unat a) (unat c) ssz d" using assms write_data by blast
  ultimately show ?thesis using assms(3) by (simp add: sectors_upd_same)
qed

lemma read_disjoint_write:
  assumes "inv s" "unat a + unat c \<le> nsec" "length d = unat c * ssz"
    and "bd_write ops s a d c = (r, s1)"
    and "unat a' + unat c' \<le> nsec" "unat a' + unat c' \<le> unat a \<or> unat a + unat c \<le> unat a'"
    and "bd_read ops s1 a' c' = (int (unat c'), d', s2)"
  shows "d' = sectors (disk s) (unat a') (unat c')"
proof -
  have "inv s1" using assms write_inv by blast
  then have "d' = sectors (disk s1) (unat a') (unat c')" using assms read_data by blast
  also have "\<dots> = sectors (disk s) (unat a') (unat c')"
    using assms by (intro sectors_cong write_frame [OF assms(1-4)]) auto
  finally show ?thesis .
qed

end

text \<open>A device whose requests in range never fail.\<close>

locale reliable_store = block_store +
  assumes read_succeeds: "inv s \<Longrightarrow> unat a + unat c \<le> nsec \<Longrightarrow>
            \<exists>d s'. bd_read ops s a c = (int (unat c), d, s')"
    and write_succeeds: "inv s \<Longrightarrow> unat a + unat c \<le> nsec \<Longrightarrow> length d = unat c * ssz \<Longrightarrow>
            \<exists>s'. bd_write ops s a d c = (int (unat c), s')"
begin

lemma read_exact:
  assumes "inv s" "unat a + unat c \<le> nsec"
  shows "\<exists>s'. bd_read ops s a c = (int (unat c), sectors (disk s) (unat a) (unat c), s')
           \<and> inv s' \<and> disk s' = disk s"
  using read_succeeds [OF assms] read_data [OF assms] read_keeps [OF assms] by blast

lemma write_exact:
  assumes "inv s" "unat a + unat c \<le> nsec" "length d = unat c * ssz"
  shows "\<exists>s'. bd_write ops s a d c = (int (unat c), s') \<and> inv s'
           \<and> disk s' = upd_sectors (disk s) (unat a) (unat c) ssz d"
  using write_succeeds [OF assms] write_data [OF assms] write_inv [OF assms] by blast

end

section \<open>The reference instance: a disk in memory\<close>

definition ram_ops :: "nat \<Rightarrow> nat \<Rightarrow> (nat \<Rightarrow> bytes) bd_ops" where
  "ram_ops sz n = \<lparr>
     bd_read = (\<lambda>f a c. if unat a + unat c \<le> n
       then (int (unat c), sectors f (unat a) (unat c), f) else (- EIO, [], f)),
     bd_write = (\<lambda>f a d c. if unat a + unat c \<le> n
       then (int (unat c), upd_sectors f (unat a) (unat c) sz d) else (- EIO, f)),
     bd_flush = (\<lambda>f. f),
     bd_stop = (\<lambda>f. (0, f))\<rparr>"

definition ram_inv :: "nat \<Rightarrow> (nat \<Rightarrow> bytes) \<Rightarrow> bool" where
  "ram_inv sz f \<longleftrightarrow> (\<forall>k. length (f k) = sz)"

lemma ram_reliable: "reliable_store (ram_ops sz n) (ram_inv sz) id sz n"
  by unfold_locales
     (auto simp: ram_ops_def ram_inv_def length_sectors length_upd_sectors split: if_splits)

text \<open>A disk of empty (zero) sectors of 512 bytes, for concrete instances.\<close>

definition zero_disk :: "nat \<Rightarrow> nat \<Rightarrow> bytes" where
  "zero_disk sz k = replicate sz 0"

lemma ram_inv_zero_disk [simp]: "ram_inv sz (zero_disk sz)"
  by (simp add: ram_inv_def zero_disk_def)

interpretation ram512: reliable_store "ram_ops 512 n" "ram_inv 512" id 512 n for n
  by (rule ram_reliable)

end
