(* ===== verification/Bd_Defrag.thy ===== *)
theory Bd_Defrag
  imports Block_Device
begin

text \<open>
  \<open>libbdm/src/bd_defrag.c\<close>: sector I/O on a file given as a list of fragments of a block
  device. \<open>struct bd_fragment\<close> is declared outside the repository; the model keeps the two
  fields the code reads, as the 64-bit values they are converted to in its expressions.
  Shown: both loops terminate for every argument (each round moves at least one sector),
  a read returns the file's sectors in order across fragment borders, a write changes
  exactly the file's sectors, and both fail on a request past the end of the file.
\<close>

section \<open>Definitions\<close>

record bd_fragment =
  f_sector :: u64
  f_count :: u64

text \<open>The inner loop: the fragment that contains \<open>sector_start\<close>, with its offset in the
  file; \<open>None\<close> when \<open>i\<close> reaches \<open>fragcount\<close>.\<close>

fun frag_locate :: "bd_fragment list \<Rightarrow> u64 \<Rightarrow> u64 \<Rightarrow> (u64 \<times> bd_fragment) option" where
  "frag_locate [] sector_start off = None"
| "frag_locate (f # fs) sector_start off =
     (if off \<le> sector_start \<and> off + f_count f > sector_start then Some (off, f)
      else frag_locate fs sector_start (off + f_count f))"

text \<open>The clipped length of one round, with the conversion to \<open>u16\<close>.\<close>

definition frag_clip :: "u64 \<Rightarrow> bd_fragment \<Rightarrow> u64 \<Rightarrow> u16 \<Rightarrow> u16" where
  "frag_clip off f sector_start count_left =
     (if sector_start + ucast count_left > off + f_count f
      then ucast ((off + f_count f) - sector_start) else count_left)"

lemma frag_locate_Some:
  "frag_locate fs s off = Some (o', f) \<Longrightarrow> o' \<le> s \<and> s < o' + f_count f"
  by (induction fs s off rule: frag_locate.induct) (auto split: if_splits)

text \<open>Every round makes progress and stays within what is left.\<close>

lemma frag_clip_bounds:
  assumes "off \<le> s" "s < off + f_count f" "0 < n"
  shows "0 < frag_clip off f s n" "frag_clip off f s n \<le> n"
proof -
  let ?e = "off + f_count f"
  have d: "unat (?e - s) = unat ?e - unat s" using assms(2) by (simp add: unat_sub_le order_less_imp_le)
  have pos: "0 < unat (?e - s)" using assms(2) d by (simp add: word_less_nat_alt)
  have "0 < frag_clip off f s n \<and> frag_clip off f s n \<le> n"
  proof (cases "s + ucast n > ?e")
    case True
    have "unat (s + ucast n) \<le> unat s + unat n"
      by (metis unat_ucast_16_64 add_le_mono1 mod_less_eq_dividend unat_word_ariths(1))
    then have "unat (?e - s) < unat n" using True d assms(2) by (auto simp: word_less_nat_alt)
    moreover from this have "unat (?e - s) < 2 ^ 16" using unat_lt_u16 [of n] by simp
    ultimately have "unat (ucast (?e - s) :: u16) = unat (?e - s)"
      by (simp add: unsigned_ucast_eq take_bit_nat_eq_self)
    then show ?thesis
      using True pos \<open>unat (?e - s) < unat n\<close> by (simp add: frag_clip_def word_less_nat_alt word_le_nat_alt)
  qed (use assms in \<open>simp add: frag_clip_def\<close>)
  then show "0 < frag_clip off f s n" "frag_clip off f s n \<le> n" by auto
qed

lemma frag_round_less:
  assumes "frag_locate fs s 0 = Some (off, f)" "n \<noteq> 0"
  shows "unat (n - frag_clip off f s n) < unat n"
  using frag_clip_bounds [of off s f n] frag_locate_Some [OF assms(1)] assms(2)
  by (simp add: unat_sub_le word_less_nat_alt word_neq_0_conv)

text \<open>The outer loops. The buffer the rounds fill is returned as the bytes stored so far.\<close>

function defrag_read_loop :: "'s bd_ops \<Rightarrow> bd_fragment list \<Rightarrow> 's \<Rightarrow> u64 \<Rightarrow> u16 \<Rightarrow>
    bytes \<Rightarrow> bool \<times> bytes \<times> 's" where
  "defrag_read_loop ops fs s sector_start count_left buf =
     (if count_left = 0 then (True, buf, s)
      else case frag_locate fs sector_start 0 of
          None \<Rightarrow> (False, buf, s)
        | Some (off, f) \<Rightarrow>
            (let n = frag_clip off f sector_start count_left;
                 (r, d, s') = bd_read ops s (f_sector f + (sector_start - off)) n
             in if r \<noteq> int (unat n) then (False, buf @ d, s')
                else defrag_read_loop ops fs s' (sector_start + ucast n) (count_left - n) (buf @ d)))"
  by pat_completeness auto
termination
  by (relation "measure (\<lambda>(ops, fs, s, start, left, buf). unat left)") (auto simp: frag_round_less)

function defrag_write_loop :: "'s bd_ops \<Rightarrow> nat \<Rightarrow> bd_fragment list \<Rightarrow> 's \<Rightarrow> u64 \<Rightarrow> u16 \<Rightarrow>
    bytes \<Rightarrow> bool \<times> 's" where
  "defrag_write_loop ops ssz fs s sector_start count_left buffer =
     (if count_left = 0 then (True, s)
      else case frag_locate fs sector_start 0 of
          None \<Rightarrow> (False, s)
        | Some (off, f) \<Rightarrow>
            (let n = frag_clip off f sector_start count_left;
                 (r, s') = bd_write ops s (f_sector f + (sector_start - off)) (take (unat n * ssz) buffer) n
             in if r \<noteq> int (unat n) then (False, s')
                else defrag_write_loop ops ssz fs s' (sector_start + ucast n) (count_left - n)
                       (drop (unat n * ssz) buffer)))"
  by pat_completeness auto
termination
  by (relation "measure (\<lambda>(ops, ssz, fs, s, start, left, buf). unat left)") (auto simp: frag_round_less)

declare defrag_read_loop.simps [simp del] defrag_write_loop.simps [simp del]

definition bd_defrag_read :: "'s bd_ops \<Rightarrow> bd_fragment list \<Rightarrow> 's \<Rightarrow> u64 \<Rightarrow> u16 \<Rightarrow>
    int \<times> bytes \<times> 's" where
  "bd_defrag_read ops fs s sector count =
     (let (ok, d, s') = defrag_read_loop ops fs s sector count []
      in (if ok then int (unat count) else - 1, d, s'))"

definition bd_defrag_write :: "'s bd_ops \<Rightarrow> block_device \<Rightarrow> bd_fragment list \<Rightarrow> 's \<Rightarrow> u64 \<Rightarrow>
    bytes \<Rightarrow> u16 \<Rightarrow> int \<times> 's" where
  "bd_defrag_write ops bd fs s sector buffer count =
     (let (ok, s') = defrag_write_loop ops (unat (sectorSize bd)) fs s sector count buffer
      in (if ok then int (unat count) else - 1, s'))"

section \<open>The file a fragment list describes\<close>

text \<open>The device sector of sector \<open>k\<close> of the file, and the file's contents.\<close>

fun frag_lba :: "bd_fragment list \<Rightarrow> nat \<Rightarrow> nat option" where
  "frag_lba [] k = None"
| "frag_lba (f # fs) k =
     (if k < unat (f_count f) then Some (unat (f_sector f) + k) else frag_lba fs (k - unat (f_count f)))"

definition file_sec :: "bd_fragment list \<Rightarrow> (nat \<Rightarrow> bytes) \<Rightarrow> nat \<Rightarrow> bytes" where
  "file_sec fs dsk k = (case frag_lba fs k of None \<Rightarrow> [] | Some a \<Rightarrow> dsk a)"

fun file_size :: "bd_fragment list \<Rightarrow> nat" where
  "file_size [] = 0"
| "file_size (f # fs) = unat (f_count f) + file_size fs"

text \<open>Fragments inside a device of \<open>nsec\<close> sectors, and a file whose size leaves room for
  one more request below \<open>2^64\<close>.\<close>

definition frags_ok :: "nat \<Rightarrow> bd_fragment list \<Rightarrow> bool" where
  "frags_ok nsec fs \<longleftrightarrow> (\<forall>f\<in>set fs. unat (f_sector f) + unat (f_count f) \<le> nsec)
     \<and> file_size fs + 65536 \<le> 2 ^ 64 \<and> nsec \<le> 2 ^ 64"

definition frags_disjoint :: "bd_fragment list \<Rightarrow> bool" where
  "frags_disjoint fs \<longleftrightarrow> inj_on (frag_lba fs) {..<file_size fs}"

lemma frag_lba_None: "frag_lba fs k = None \<longleftrightarrow> file_size fs \<le> k"
  by (induction fs k rule: frag_lba.induct) auto

lemma frag_locate_spec:
  assumes "unat off \<le> unat s" "unat off + file_size fs < 2 ^ 64"
  shows "case frag_locate fs s off of
      None \<Rightarrow> unat off + file_size fs \<le> unat s
    | Some (o', f) \<Rightarrow> f \<in> set fs \<and> unat off \<le> unat o' \<and> unat o' \<le> unat s \<and>
        unat s < unat o' + unat (f_count f) \<and> unat o' + unat (f_count f) \<le> unat off + file_size fs \<and>
        (\<forall>k < unat (f_count f). frag_lba fs (unat o' - unat off + k) = Some (unat (f_sector f) + k))"
  using assms
proof (induction fs s off rule: frag_locate.induct)
  case (2 f fs s off)
  have e: "unat (off + f_count f) = unat off + unat (f_count f)"
    using "2.prems" by (intro unat_add_lt) simp
  show ?case
  proof (cases "off \<le> s \<and> off + f_count f > s")
    case True
    then show ?thesis using e "2.prems" by (auto simp: word_le_nat_alt word_less_nat_alt)
  next
    case False
    then have le: "unat off + unat (f_count f) \<le> unat s"
      using e "2.prems" by (auto simp: word_le_nat_alt word_less_nat_alt)
    have IH: "case frag_locate fs s (off + f_count f) of
        None \<Rightarrow> unat (off + f_count f) + file_size fs \<le> unat s
      | Some (o', g) \<Rightarrow> g \<in> set fs \<and> unat (off + f_count f) \<le> unat o' \<and> unat o' \<le> unat s \<and>
          unat s < unat o' + unat (f_count g) \<and>
          unat o' + unat (f_count g) \<le> unat (off + f_count f) + file_size fs \<and>
          (\<forall>k < unat (f_count g).
             frag_lba fs (unat o' - unat (off + f_count f) + k) = Some (unat (f_sector g) + k))"
      using "2.IH" False "2.prems" e le by simp
    have lba: "frag_lba (f # fs) (m - unat off + k) = frag_lba fs (m - (unat off + unat (f_count f)) + k)"
      if "unat off + unat (f_count f) \<le> m" for m k
    proof -
      have "\<not> m - unat off + k < unat (f_count f)"
        "m - unat off + k - unat (f_count f) = m - (unat off + unat (f_count f)) + k"
        using that by linarith+
      then show ?thesis by (simp only: frag_lba.simps if_False)
    qed
    show ?thesis using IH False e le lba by (auto split: option.splits prod.splits)
  qed
qed simp

lemma frag_locate_0:
  assumes ok: "frags_ok nsec fs" and loc: "frag_locate fs s 0 = Some (off, f)"
  shows "f \<in> set fs" "unat off \<le> unat s" "unat s < unat off + unat (f_count f)"
    "unat off + unat (f_count f) \<le> file_size fs"
    "\<And>k. k < unat (f_count f) \<Longrightarrow> frag_lba fs (unat off + k) = Some (unat (f_sector f) + k)"
    "unat (off + f_count f) = unat off + unat (f_count f)"
proof -
  have lt: "file_size fs < 2 ^ 64" using ok by (simp add: frags_ok_def)
  have spec: "case frag_locate fs s 0 of None \<Rightarrow> file_size fs \<le> unat s
    | Some (o', f) \<Rightarrow> f \<in> set fs \<and> unat o' \<le> unat s \<and> unat s < unat o' + unat (f_count f) \<and>
        unat o' + unat (f_count f) \<le> file_size fs \<and>
        (\<forall>k < unat (f_count f). frag_lba fs (unat o' + k) = Some (unat (f_sector f) + k))"
    using frag_locate_spec [of 0 s fs] lt by (auto split: option.splits)
  show "f \<in> set fs" "unat off \<le> unat s" "unat s < unat off + unat (f_count f)"
    and le: "unat off + unat (f_count f) \<le> file_size fs"
    and "\<And>k. k < unat (f_count f) \<Longrightarrow> frag_lba fs (unat off + k) = Some (unat (f_sector f) + k)"
    using spec loc by auto
  show "unat (off + f_count f) = unat off + unat (f_count f)"
    using le lt by (intro unat_add_lt) simp
qed

lemma frag_locate_0_None:
  assumes "frags_ok nsec fs"
  shows "frag_locate fs s 0 = None \<longleftrightarrow> file_size fs \<le> unat s"
  using frag_locate_spec [of 0 s fs] assms
  by (auto simp: frags_ok_def split: option.splits)

text \<open>One round: which device sectors it moves, and that they are the file's next ones.\<close>

lemma frag_round:
  assumes ok: "frags_ok nsec fs" and loc: "frag_locate fs s 0 = Some (off, f)" and pos: "n \<noteq> 0"
    and m: "m = frag_clip off f s n" and a: "a = f_sector f + (s - off)"
  shows "unat a + unat m \<le> nsec" "unat s + unat m \<le> file_size fs" "unat m \<le> unat n" "0 < unat m"
    "\<And>j. j < unat m \<Longrightarrow> frag_lba fs (unat s + j) = Some (unat a + j)"
    "unat (s + ucast m) = unat s + unat m" "unat (n - m) = unat n - unat m"
proof -
  note l = frag_locate_0 [OF ok loc]
  have dom: "unat (f_sector f) + unat (f_count f) \<le> nsec" "nsec \<le> 2 ^ 64"
    "file_size fs + 65536 \<le> 2 ^ 64" using ok l(1) by (auto simp: frags_ok_def)
  have so: "unat (s - off) = unat s - unat off" using l by (simp add: unat_sub_le word_le_nat_alt)
  have ua: "unat a = unat (f_sector f) + (unat s - unat off)"
    unfolding a using so l dom by (subst unat_add_lt) auto
  have sn: "unat (s + ucast n) = unat s + unat n"
    using l dom unat_lt_u16 [of n] by (subst unat_add_lt) auto
  have mb: "0 < m" "m \<le> n"
    using frag_clip_bounds [of off s f n] frag_locate_Some [OF loc] pos unfolding m
    by (auto simp: word_neq_0_conv)
  then show le: "unat m \<le> unat n" and gt: "0 < unat m"
    by (simp_all add: word_le_nat_alt word_less_nat_alt)
  have fit: "unat s + unat m \<le> unat off + unat (f_count f)"
  proof (cases "s + ucast n > off + f_count f")
    case True
    have "unat m \<le> unat (off + f_count f - s)"
      using True by (simp add: m frag_clip_def unsigned_ucast_eq take_bit_nat_less_eq_self)
    also have "\<dots> = unat off + unat (f_count f) - unat s"
      using l(3,6) by (simp add: unat_sub_le word_le_nat_alt)
    finally show ?thesis using l(3) by simp
  next
    case False
    then show ?thesis using sn l(6) by (simp add: m frag_clip_def word_less_nat_alt)
  qed
  show "unat a + unat m \<le> nsec" using ua fit l dom by auto
  show sm: "unat s + unat m \<le> file_size fs" using fit l by simp
  show "unat (s + ucast m) = unat s + unat m" using sm dom by (subst unat_add_lt) auto
  show "unat (n - m) = unat n - unat m" using mb by (simp add: unat_sub_le)
  fix j assume "j < unat m"
  then show "frag_lba fs (unat s + j) = Some (unat a + j)"
    using l(5) [of "unat s - unat off + j"] fit l(2) ua by auto
qed

text \<open>A run of file sectors stored at consecutive device sectors: a device sector of no
  file sector of the request is not in the run, and with disjoint fragments a later file
  sector is not in it either.\<close>

lemma run_outside:
  assumes run: "\<And>j. j < m \<Longrightarrow> frag_lba fs (a + j) = Some (b + j)" and le: "m \<le> n"
    and x: "\<forall>k. a \<le> k \<and> k < a + n \<longrightarrow> frag_lba fs k \<noteq> Some x"
  shows "x < b \<or> b + m \<le> x"
proof (rule ccontr)
  assume "\<not> ?thesis"
  then have lt: "x - b < m" "b \<le> x" by auto
  then have "frag_lba fs (a + (x - b)) = Some x" using run [of "x - b"] by simp
  moreover have "a \<le> a + (x - b) \<and> a + (x - b) < a + n" using lt le by linarith
  ultimately show False using x by blast
qed

lemma run_distinct:
  assumes disj: "frags_disjoint fs" and run: "\<And>j. j < m \<Longrightarrow> frag_lba fs (a + j) = Some (b + j)"
    and fit: "a + m \<le> file_size fs" and j: "j < m"
  shows "\<forall>k. a + m \<le> k \<and> k < c \<longrightarrow> frag_lba fs k \<noteq> Some (b + j)"
proof (intro allI impI notI)
  fix k assume k: "a + m \<le> k \<and> k < c" and eq: "frag_lba fs k = Some (b + j)"
  have "k < file_size fs" using eq frag_lba_None [of fs k] by auto
  moreover have "frag_lba fs k = frag_lba fs (a + j)" using eq run [OF j] by simp
  ultimately have "k = a + j" using disj fit j by (auto simp: frags_disjoint_def dest: inj_onD)
  then show False using k j by simp
qed

section \<open>Correctness of the loops\<close>

context block_store
begin

lemma defrag_read_loop:
  assumes "inv s" "frags_ok nsec fs" "defrag_read_loop ops fs s a n buf = (ok, d, s')"
  shows "inv s' \<and> disk s' = disk s \<and>
    (ok \<longrightarrow> (n \<noteq> 0 \<longrightarrow> unat a + unat n \<le> file_size fs) \<and>
           d = buf @ sectors (file_sec fs (disk s)) (unat a) (unat n))"
  using assms
proof (induction "unat n" arbitrary: s a n buf rule: less_induct)
  case less
  show ?case
  proof (cases "n = 0 \<or> frag_locate fs a 0 = None")
    case True
    then show ?thesis using less.prems by (subst (asm) defrag_read_loop.simps) (auto split: if_splits)
  next
    case False
    then obtain off f where loc: "frag_locate fs a 0 = Some (off, f)" and n: "n \<noteq> 0" by auto
    define m where "m = frag_clip off f a n"
    define b where "b = f_sector f + (a - off)"
    note rnd = frag_round [OF less.prems(2) loc n m_def b_def]
    obtain r e s1 where rd: "bd_read ops s b m = (r, e, s1)" by (metis prod_cases3)
    have k: "inv s1" "disk s1 = disk s" using read_keeps [OF less.prems(1) rnd(1) rd] by auto
    have step: "(if r \<noteq> int (unat m) then (False, buf @ e, s1)
        else defrag_read_loop ops fs s1 (a + ucast m) (n - m) (buf @ e)) = (ok, d, s')"
      using less.prems(3) loc n rd
      by (subst (asm) defrag_read_loop.simps) (simp add: m_def b_def Let_def split: if_splits)
    show ?thesis
    proof (cases "r = int (unat m)")
      case False
      then show ?thesis using step k by auto
    next
      case True
      have e: "e = sectors (disk s) (unat b) (unat m)" using read_data [OF less.prems(1) rnd(1)] rd True by simp
      have "e = sectors (file_sec fs (disk s)) (unat a) (unat m)"
        unfolding e by (rule sectors_shift) (simp add: file_sec_def rnd(5))
      moreover have "unat (n - m) < unat n" using rnd(3,4,7) by simp
      then have "inv s' \<and> disk s' = disk s1 \<and>
          (ok \<longrightarrow> (n - m \<noteq> 0 \<longrightarrow> unat (a + ucast m) + unat (n - m) \<le> file_size fs) \<and>
            d = (buf @ e) @ sectors (file_sec fs (disk s1)) (unat (a + ucast m)) (unat (n - m)))"
        using step True by (intro less.hyps [OF _ k(1) less.prems(2)]) auto
      moreover have "unat n = unat m" if "n - m = 0" using that rnd(3,7) by simp
      ultimately show ?thesis
        using k rnd(2,3,6,7) sectors_add [of "file_sec fs (disk s)" "unat a" "unat m" "unat n - unat m"]
        by auto
    qed
  qed
qed

lemma defrag_write_loop:
  assumes "inv s" "frags_ok nsec fs" "frags_disjoint fs" "length buf = unat n * ssz"
    "defrag_write_loop ops ssz fs s a n buf = (ok, s')"
  shows "inv s' \<and>
    (\<forall>x. (\<forall>k. unat a \<le> k \<and> k < unat a + unat n \<longrightarrow> frag_lba fs k \<noteq> Some x) \<longrightarrow> disk s' x = disk s x) \<and>
    (ok \<longrightarrow> (n \<noteq> 0 \<longrightarrow> unat a + unat n \<le> file_size fs) \<and>
           sectors (file_sec fs (disk s')) (unat a) (unat n) = buf)"
  using assms
proof (induction "unat n" arbitrary: s a n buf rule: less_induct)
  case less
  show ?case
  proof (cases "n = 0 \<or> frag_locate fs a 0 = None")
    case True
    then show ?thesis using less.prems by (subst (asm) defrag_write_loop.simps) (auto split: if_splits)
  next
    case False
    then obtain off f where loc: "frag_locate fs a 0 = Some (off, f)" and n: "n \<noteq> 0" by auto
    define m where "m = frag_clip off f a n"
    define b where "b = f_sector f + (a - off)"
    note rnd = frag_round [OF less.prems(2) loc n m_def b_def]
    let ?b1 = "take (unat m * ssz) buf" and ?b2 = "drop (unat m * ssz) buf"
    obtain r s1 where wr: "bd_write ops s b ?b1 m = (r, s1)" by (metis surj_pair)
    have l1: "length ?b1 = unat m * ssz" "length ?b2 = unat (n - m) * ssz"
      using less.prems(4) rnd(3,7) by (auto simp: diff_mult_distrib)
    note w = write_inv [OF less.prems(1) rnd(1) l1(1) wr] write_frame [OF less.prems(1) rnd(1) l1(1) wr]
    have fr1: "disk s1 x = disk s x"
      if "\<forall>k. unat a \<le> k \<and> k < unat a + unat n \<longrightarrow> frag_lba fs k \<noteq> Some x" for x
      using w(2) run_outside [OF rnd(5,3) that] by blast
    have step: "(if r \<noteq> int (unat m) then (False, s1)
        else defrag_write_loop ops ssz fs s1 (a + ucast m) (n - m) ?b2) = (ok, s')"
      using less.prems(5) loc n wr
      by (subst (asm) defrag_write_loop.simps) (simp add: m_def b_def Let_def split: if_splits)
    show ?thesis
    proof (cases "r = int (unat m)")
      case False
      then show ?thesis using step w(1) fr1 by auto
    next
      case True
      have d1: "disk s1 = upd_sectors (disk s) (unat b) (unat m) ssz ?b1"
        using write_data [OF less.prems(1) rnd(1) l1(1)] wr True by simp
      have IH: "inv s' \<and> (\<forall>x. (\<forall>k. unat a + unat m \<le> k \<and> k < unat a + unat n \<longrightarrow>
            frag_lba fs k \<noteq> Some x) \<longrightarrow> disk s' x = disk s1 x) \<and>
          (ok \<longrightarrow> (n - m \<noteq> 0 \<longrightarrow> unat a + unat n \<le> file_size fs) \<and>
             sectors (file_sec fs (disk s')) (unat a + unat m) (unat n - unat m) = ?b2)"
        using less.hyps [OF _ w(1) less.prems(2,3) l1(2), of "a + ucast m"] step True rnd by auto
      have first: "disk s' (unat b + j) = disk s1 (unat b + j)" if ok and j: "j < unat m" for j
        using IH run_distinct [OF less.prems(3) rnd(5,2) j] by blast
      have "sectors (file_sec fs (disk s')) (unat a) (unat m) = ?b1" if ok
      proof -
        have "sectors (file_sec fs (disk s')) (unat a) (unat m) = sectors (disk s1) (unat b) (unat m)"
          by (rule sectors_shift) (simp add: file_sec_def rnd(5) first [OF that])
        then show ?thesis using d1 l1(1) by (simp add: sectors_upd_same)
      qed
      moreover have "unat n = unat m" if "n - m = 0" using that rnd(3,7) by simp
      moreover have "disk s' x = disk s x"
        if "\<forall>k. unat a \<le> k \<and> k < unat a + unat n \<longrightarrow> frag_lba fs k \<noteq> Some x" for x
        using that fr1 [OF that] IH by auto
      ultimately show ?thesis
        using IH rnd(2,3) sectors_add [of "file_sec fs (disk s')" "unat a" "unat m" "unat n - unat m"]
        by auto
    qed
  qed
qed

lemma defrag_read:
  assumes "inv s" "frags_ok nsec fs" "bd_defrag_read ops fs s a n = (r, d, s')"
  shows "inv s' \<and> disk s' = disk s \<and>
    (r = int (unat n) \<longrightarrow> (n \<noteq> 0 \<longrightarrow> unat a + unat n \<le> file_size fs) \<and>
       d = sectors (file_sec fs (disk s)) (unat a) (unat n)) \<and> (r = int (unat n) \<or> r = - 1)"
  using assms defrag_read_loop [OF assms(1,2), of a n "[]"]
  by (auto simp: bd_defrag_read_def split: prod.splits if_splits)

lemma defrag_write:
  assumes "inv s" "frags_ok nsec fs" "frags_disjoint fs" "ssz = unat (sectorSize bd)"
    "length buf = unat n * ssz" "bd_defrag_write ops bd fs s a buf n = (r, s')"
  shows "inv s' \<and>
    (\<forall>x. (\<forall>k. unat a \<le> k \<and> k < unat a + unat n \<longrightarrow> frag_lba fs k \<noteq> Some x) \<longrightarrow> disk s' x = disk s x) \<and>
    (r = int (unat n) \<longrightarrow> (n \<noteq> 0 \<longrightarrow> unat a + unat n \<le> file_size fs) \<and>
       sectors (file_sec fs (disk s')) (unat a) (unat n) = buf) \<and> (r = int (unat n) \<or> r = - 1)"
  using assms(6) defrag_write_loop [OF assms(1,2,3,5), of a]
  by (auto simp: bd_defrag_write_def assms(4) [symmetric] split: prod.splits if_splits)

end

context reliable_store
begin

lemma defrag_read_loop_succeeds:
  assumes "inv s" "frags_ok nsec fs" "unat a + unat n \<le> file_size fs"
  shows "fst (defrag_read_loop ops fs s a n buf)"
  using assms
proof (induction "unat n" arbitrary: s a n buf rule: less_induct)
  case less
  show ?case
  proof (cases "n = 0")
    case False
    then have "0 < unat n" by (simp add: unat_gt_0)
    then have "frag_locate fs a 0 \<noteq> None"
      using frag_locate_0_None [OF less.prems(2), of a] less.prems(3) by auto
    then obtain off f where loc: "frag_locate fs a 0 = Some (off, f)" by auto
    define m where "m = frag_clip off f a n"
    define b where "b = f_sector f + (a - off)"
    note rnd = frag_round [OF less.prems(2) loc False m_def b_def]
    obtain d s1 where rd: "bd_read ops s b m = (int (unat m), d, s1)"
      using read_succeeds [OF less.prems(1) rnd(1)] by auto
    have k: "inv s1" using read_keeps [OF less.prems(1) rnd(1) rd] by auto
    have "fst (defrag_read_loop ops fs s1 (a + ucast m) (n - m) (buf @ d))"
      using rnd less.prems(3) by (intro less.hyps [OF _ k less.prems(2)]) auto
    then show ?thesis using loc False rd
      by (subst defrag_read_loop.simps) (simp add: m_def b_def Let_def)
  qed (subst defrag_read_loop.simps, simp)
qed

end

section \<open>Properties\<close>

text \<open>C24. Reading through a fragment list returns the file: on any device that meets the
  block-device contract, \<open>bd_defrag_read\<close> returns \<open>count\<close> or \<open>-1\<close>; if it returns \<open>count\<close>
  the request lies inside the file and the buffer holds the file's sectors in order, each
  taken from the device sector its fragment places it at, across any number of fragment
  borders. The disk is not changed.\<close>

theorem defrag_read_correct:
  assumes "block_store ops ok dsk ssz nsec" "ok s" "frags_ok nsec fs"
    and "bd_defrag_read ops fs s a n = (r, d, s')"
  shows "ok s' \<and> dsk s' = dsk s \<and>
    (r = int (unat n) \<longrightarrow> (n \<noteq> 0 \<longrightarrow> unat a + unat n \<le> file_size fs) \<and>
       d = sectors (file_sec fs (dsk s)) (unat a) (unat n)) \<and> (r = int (unat n) \<or> r = - 1)"
  by (rule block_store.defrag_read [OF assms])

text \<open>A file of two fragments on the sample device of 100 sectors: sectors 10, 11, 12 and 40, 41.\<close>

definition sample_frags :: "bd_fragment list" where
  "sample_frags = [\<lparr>f_sector = 10, f_count = 3\<rparr>, \<lparr>f_sector = 40, f_count = 2\<rparr>]"

lemma sample_frags_ok: "frags_ok 100 sample_frags" "frags_disjoint sample_frags" "file_size sample_frags = 5"
  by (auto simp: frags_ok_def sample_frags_def frags_disjoint_def inj_on_def split: if_splits)

lemma sample_frags_lba: "frag_lba sample_frags 2 = Some 12" "frag_lba sample_frags 3 = Some 40"
  by (simp_all add: sample_frags_def)

theorem defrag_read_correct_witness:
  "let (r, d, s') = bd_defrag_read (ram_ops 512 100) sample_frags (zero_disk 512) 2 2
   in ram_inv 512 s' \<and> s' = zero_disk 512 \<and> r = 2 \<and> d = zero_disk 512 12 @ zero_disk 512 40"
proof -
  obtain r d s' where e: "bd_defrag_read (ram_ops 512 100) sample_frags (zero_disk 512) 2 2 = (r, d, s')"
    by (metis prod_cases3)
  have ok: "fst (defrag_read_loop (ram_ops 512 100) sample_frags (zero_disk 512) 2 2 [])"
    by (rule ram512.defrag_read_loop_succeeds) (simp_all add: sample_frags_ok)
  then have "r = 2" using e by (simp add: bd_defrag_read_def split: prod.splits)
  moreover have "sectors (file_sec sample_frags (zero_disk 512)) 2 2 = zero_disk 512 12 @ zero_disk 512 40"
    by (simp add: numeral_2_eq_2 sectors_Suc file_sec_def sample_frags_lba [unfolded numeral_2_eq_2 numeral_3_eq_3])
  ultimately show ?thesis
    using defrag_read_correct [OF ram512.block_store_axioms _ sample_frags_ok(1) e] by (simp add: e)
qed

text \<open>C25. Writing through a fragment list and reading it back is a round trip, and nothing else
  changes: if the fragments do not overlap and \<open>bd_defrag_write\<close> returns \<open>count\<close>, a
  following \<open>bd_defrag_read\<close> of the same sectors that succeeds returns the written bytes,
  and every device sector that holds none of the written file sectors is as before (also
  when the write fails half-way).\<close>

theorem defrag_write_read:
  assumes "block_store ops ok dsk (unat (sectorSize bd)) nsec" "ok s" "frags_ok nsec fs" "frags_disjoint fs"
    and "length buf = unat n * unat (sectorSize bd)" "bd_defrag_write ops bd fs s a buf n = (r, s1)"
    and "bd_defrag_read ops fs s1 a n = (int (unat n), d, s2)"
  shows "(r = int (unat n) \<longrightarrow> d = buf) \<and>
    (\<forall>x. (\<forall>k. unat a \<le> k \<and> k < unat a + unat n \<longrightarrow> frag_lba fs k \<noteq> Some x) \<longrightarrow> dsk s1 x = dsk s x)"
  using block_store.defrag_write [OF assms(1-4) refl assms(5,6)]
    block_store.defrag_read [OF assms(1) _ assms(3,7)] by auto

definition sample_bd100 :: block_device where
  "sample_bd100 = \<lparr>bd_name = Some ''usb'', devNr = 0, parNr = 0, parId = 0, sectorSize = 512,
                   sectorOffset = 0, sectorCount = 100\<rparr>"

theorem defrag_write_read_witness:
  "\<exists>r s1 d s2.
     bd_defrag_write (ram_ops 512 100) sample_bd100 sample_frags (zero_disk 512) 2 (replicate 1024 7) 2 = (r, s1) \<and>
     bd_defrag_read (ram_ops 512 100) sample_frags s1 2 2 = (2, d, s2) \<and>
     (r = 2 \<longrightarrow> d = replicate 1024 7) \<and> s1 0 = zero_disk 512 0"
proof -
  obtain r s1 where w: "bd_defrag_write (ram_ops 512 100) sample_bd100 sample_frags (zero_disk 512) 2
      (replicate 1024 7) 2 = (r, s1)" by (metis surj_pair)
  have len: "length (replicate 1024 7 :: bytes) = unat (2 :: u16) * 512" by simp
  have sz: "512 = unat (sectorSize sample_bd100)" by (simp add: sample_bd100_def)
  have inv: "ram_inv 512 s1"
    using ram512.defrag_write [OF ram_inv_zero_disk sample_frags_ok(1,2) sz len w] by (rule conjunct1)
  obtain d s2 where rd: "bd_defrag_read (ram_ops 512 100) sample_frags s1 2 2 = (2, d, s2)"
    using ram512.defrag_read_loop_succeeds [OF inv sample_frags_ok(1), of 2 2 "[]"] sample_frags_ok(3)
    by (cases "defrag_read_loop (ram_ops 512 100) sample_frags s1 2 2 []") (simp add: bd_defrag_read_def)
  have "(r = 2 \<longrightarrow> d = replicate 1024 7) \<and>
    (\<forall>x. (\<forall>k. 2 \<le> k \<and> k < 4 \<longrightarrow> frag_lba sample_frags k \<noteq> Some x) \<longrightarrow> s1 x = zero_disk 512 x)"
  proof -
    have "bd_defrag_read (ram_ops 512 100) sample_frags s1 2 2 = (int (unat (2 :: u16)), d, s2)"
      using rd by simp
    from defrag_write_read [OF ram512.block_store_axioms [unfolded sz] ram_inv_zero_disk [unfolded sz]
        sample_frags_ok(1,2) len [unfolded sz] w [unfolded sz] this [unfolded sz]]
    show ?thesis by (simp flip: sz)
  qed
  moreover have "\<forall>k. frag_lba sample_frags k \<noteq> Some 0" by (simp add: sample_frags_def)
  ultimately show ?thesis using w rd by auto
qed

text \<open>A request inside the file succeeds on a device that does not fail: \<open>bd_defrag_read\<close>
  terminates with \<open>count\<close> and the file's bytes, however the request falls on fragment borders;
  and a non-empty request that reaches past the end of the file always fails with \<open>-1\<close>.\<close>

theorem defrag_read_total:
  assumes "reliable_store ops ok dsk ssz nsec" "ok s" "frags_ok nsec fs" "n \<noteq> 0"
  shows "if unat a + unat n \<le> file_size fs
    then \<exists>s'. bd_defrag_read ops fs s a n =
           (int (unat n), sectors (file_sec fs (dsk s)) (unat a) (unat n), s')
    else fst (bd_defrag_read ops fs s a n) = - 1"
proof -
  have bs: "block_store ops ok dsk ssz nsec" using assms(1) by (rule reliable_store.axioms)
  obtain r d s' where e: "bd_defrag_read ops fs s a n = (r, d, s')" by (metis prod_cases3)
  note c = block_store.defrag_read [OF bs assms(2,3) e]
  have "r = int (unat n)" if "unat a + unat n \<le> file_size fs"
    using reliable_store.defrag_read_loop_succeeds [OF assms(1-3) that, of "[]"] e
    by (simp add: bd_defrag_read_def split: prod.splits)
  then show ?thesis using c e assms(4) by auto
qed

theorem defrag_read_total_witness:
  "\<exists>s'. bd_defrag_read (ram_ops 512 100) sample_frags (zero_disk 512) 2 2 =
     (2, sectors (file_sec sample_frags (zero_disk 512)) 2 2, s')"
  using defrag_read_total [OF ram512.reliable_store_axioms _ sample_frags_ok(1), of "zero_disk 512" 2 2]
  by (simp add: sample_frags_ok)

end
