(* ===== verification/Bd_Cache.thy ===== *)
theory Bd_Cache
  imports Block_Device
begin

text \<open>
  \<open>libbdm/src/bd_cache.c\<close>: the 128 KiB read cache that \<open>bdm_connect_bd\<close> puts in front of
  every whole device. The state of the cached device is the pair of \<open>struct bd_cache\<close> and
  the state of the device below. Shown: the cache invariant (a valid block holds the
  device's sectors), that every operation keeps it, that the cached device meets the
  contract \<open>block_store\<close> of the device below with the same disk (so no read is ever
  stale), which block is evicted, and what a failed fill leaves behind.
\<close>

section \<open>Definitions\<close>

abbreviation (input) SECTORS_PER_BLOCK :: nat where "SECTORS_PER_BLOCK \<equiv> 8"
abbreviation (input) BLOCK_COUNT :: nat where "BLOCK_COUNT \<equiv> 32"
abbreviation (input) BLOCK_WEIGHT_FACTOR :: int where "BLOCK_WEIGHT_FACTOR \<equiv> 256"

abbreviation (input) NO_SECTOR :: u64 where "NO_SECTOR \<equiv> 0xffffffffffffffff"

record bd_cache =
  c_weight :: "int list"
  c_sector :: "u64 list"
  c_cache :: "bytes list"

definition bdc_overlaps :: "u64 \<Rightarrow> u64 \<Rightarrow> u16 \<Rightarrow> bool" where
  "bdc_overlaps csector sector count \<longleftrightarrow>
     sector < csector + 8 \<and> sector + ucast count > csector"

definition bdc_contains :: "u64 \<Rightarrow> u64 \<Rightarrow> u16 \<Rightarrow> bool" where
  "bdc_contains csector sector count \<longleftrightarrow>
     sector \<ge> csector \<and> sector + ucast count \<le> csector + 8"

definition bdc_invalidate :: "bd_cache \<Rightarrow> u64 \<Rightarrow> u16 \<Rightarrow> bd_cache" where
  "bdc_invalidate c sector count =
     c\<lparr>c_sector := map (\<lambda>cs. if bdc_overlaps cs sector count then NO_SECTOR else cs) (c_sector c)\<rparr>"

text \<open>
  The aging loop over the weights from block \<open>i\<close> on, with the lowest aged weight seen so
  far and its block: \<open>SECTORS_PER_BLOCK * BLOCK_WEIGHT_FACTOR / BLOCK_COUNT = 64\<close>, and C's
  division of the signed weight truncates.
\<close>

fun bdc_age :: "int list \<Rightarrow> nat \<Rightarrow> int \<Rightarrow> nat \<Rightarrow> int list \<times> nat" where
  "bdc_age [] i best_weight best = ([], best)"
| "bdc_age (w # ws) i best_weight best =
     (let w' = wrap32 (w - (64 + w sdiv 32));
          (best_weight', best') = (if w' < best_weight then (w', i) else (best_weight, best));
          (ws', b) = bdc_age ws (Suc i) best_weight' best'
      in (w' # ws', b))"

text \<open>The first block that holds the whole request.\<close>

definition bdc_lookup :: "bd_cache \<Rightarrow> u64 \<Rightarrow> u16 \<Rightarrow> nat option" where
  "bdc_lookup c sector count =
     find (\<lambda>i. bdc_contains (c_sector c ! i) sector count) [0..<BLOCK_COUNT]"

text \<open>The hit branch: the weight of the block grows (from at least 0), the request is
  copied out of the block.\<close>

definition bdc_hit :: "bd_cache \<Rightarrow> nat \<Rightarrow> u64 \<Rightarrow> u16 \<Rightarrow> bytes \<times> bd_cache" where
  "bdc_hit c i sector count =
     (let w = (if c_weight c ! i < 0 then 0 else c_weight c ! i);
          off = unat ((sector - c_sector c ! i) * 512)
      in (take (unat count * 512) (drop off (c_cache c ! i)),
          c\<lparr>c_weight := (c_weight c)[i := wrap32 (w + int (unat count) * BLOCK_WEIGHT_FACTOR)]\<rparr>))"

text \<open>The miss branch: age, choose the block, invalidate it, fill it with at most eight
  sectors and never past the end of the device, then copy out of it.\<close>

definition bdc_miss :: "'s bd_ops \<Rightarrow> block_device \<Rightarrow> bd_cache \<Rightarrow> 's \<Rightarrow> u64 \<Rightarrow> u16 \<Rightarrow>
    int \<times> bytes \<times> bd_cache \<times> 's" where
  "bdc_miss ops bd c s sector count =
     (let (ws, best) = bdc_age (c_weight c) 0 0x7fffffff 0;
          n = (if 8 > sectorCount bd - sector then ucast (sectorCount bd - sector) else 8 :: u16);
          (r, d, s') = bd_read ops s sector n;
          c1 = c\<lparr>c_weight := ws, c_sector := (c_sector c)[best := NO_SECTOR],
                 c_cache := (c_cache c)[best := overlay (c_cache c ! best) d]\<rparr>
      in if r \<noteq> int (unat n) then (if r < 0 then r else - EIO, [], c1, s')
         else (int (unat count),
               take (unat count * 512) (c_cache c1 ! best),
               c1\<lparr>c_sector := (c_sector c1)[best := sector],
                  c_weight := (c_weight c1)[best := int (unat count) * BLOCK_WEIGHT_FACTOR]\<rparr>, s'))"

definition bdc_read :: "'s bd_ops \<Rightarrow> block_device \<Rightarrow> bd_cache \<times> 's \<Rightarrow> u64 \<Rightarrow> u16 \<Rightarrow>
    int \<times> bytes \<times> bd_cache \<times> 's" where
  "bdc_read ops bd cs sector count =
     (let (c, s) = cs in
      if count = 0 then (0, [], c, s)
      else if sector \<ge> sectorCount bd \<or> ucast count > sectorCount bd - sector then (- EIO, [], c, s)
      else if sectorSize bd \<noteq> 512 \<or> count \<ge> 8 then
        (let (r, d, s') = bd_read ops s sector count in (r, d, c, s'))
      else case bdc_lookup c sector count of
          Some i \<Rightarrow> (let (d, c') = bdc_hit c i sector count in (int (unat count), d, c', s))
        | None \<Rightarrow> bdc_miss ops bd c s sector count)"

definition bdc_write :: "'s bd_ops \<Rightarrow> bd_cache \<times> 's \<Rightarrow> u64 \<Rightarrow> bytes \<Rightarrow> u16 \<Rightarrow>
    int \<times> bd_cache \<times> 's" where
  "bdc_write ops cs sector buffer count =
     (let (c, s) = cs; (r, s') = bd_write ops s sector buffer count
      in (r, bdc_invalidate c sector count, s'))"

definition bdc_flush :: "'s bd_ops \<Rightarrow> bd_cache \<times> 's \<Rightarrow> bd_cache \<times> 's" where
  "bdc_flush ops cs = (fst cs, bd_flush ops (snd cs))"

definition bdc_stop :: "'s bd_ops \<Rightarrow> bd_cache \<times> 's \<Rightarrow> int \<times> bd_cache \<times> 's" where
  "bdc_stop ops cs = (let (r, s') = bd_stop ops (snd cs) in (r, fst cs, s'))"

definition bdc_ops :: "'s bd_ops \<Rightarrow> block_device \<Rightarrow> (bd_cache \<times> 's) bd_ops" where
  "bdc_ops ops bd = \<lparr>bd_read = bdc_read ops bd, bd_write = bdc_write ops,
                     bd_flush = bdc_flush ops, bd_stop = bdc_stop ops\<rparr>"

text \<open>
  \<open>bd_cache_create\<close>: \<open>cbd_mem\<close> tells whether the first call of \<open>AllocSysMemory\<close>
  succeeds; \<open>c_mem\<close> is \<open>None\<close> if the second one fails and else what the block array of
  the new \<open>struct bd_cache\<close> held before. The events are the calls of the allocator.
\<close>

datatype mem_event = Alloc_cbd | Alloc_c | Free_c | Free_cbd

definition bd_cache_create :: "bool \<Rightarrow> bytes list option \<Rightarrow> block_device option \<Rightarrow>
    mem_event list \<times> (block_device \<times> bd_cache) option" where
  "bd_cache_create cbd_mem c_mem bd =
     (let allocs = (if cbd_mem then [Alloc_cbd] else []) @ (if c_mem \<noteq> None then [Alloc_c] else [])
      in if bd = None \<or> \<not> cbd_mem \<or> c_mem = None then
           (allocs @ (if c_mem \<noteq> None then [Free_c] else []) @ (if cbd_mem then [Free_cbd] else []), None)
         else
           (allocs, Some
             (\<lparr>bd_name = bd_name (the bd), devNr = devNr (the bd), parNr = parNr (the bd),
               parId = parId (the bd), sectorSize = sectorSize (the bd),
               sectorOffset = sectorOffset (the bd), sectorCount = sectorCount (the bd)\<rparr>,
              \<lparr>c_weight = replicate BLOCK_COUNT 0, c_sector = replicate BLOCK_COUNT NO_SECTOR,
               c_cache = the c_mem\<rparr>)))"

definition bd_cache_destroy :: "(block_device \<times> bd_cache) option \<Rightarrow> mem_event list" where
  "bd_cache_destroy cbd = (if cbd = None then [] else [Free_c, Free_cbd])"

section \<open>The invariant\<close>

text \<open>Block \<open>i\<close> agrees with the disk on every sector it covers that the device has.\<close>

definition block_ok :: "(nat \<Rightarrow> bytes) \<Rightarrow> nat \<Rightarrow> u64 \<Rightarrow> bytes \<Rightarrow> bool" where
  "block_ok dsk nsec cs blk \<longleftrightarrow>
     cs = NO_SECTOR \<or>
     (unat cs < nsec \<and>
      (\<forall>k < 8. unat cs + k < nsec \<longrightarrow> take 512 (drop (k * 512) blk) = dsk (unat cs + k)))"

definition cache_inv :: "block_device \<Rightarrow> (nat \<Rightarrow> bytes) \<Rightarrow> bd_cache \<Rightarrow> bool" where
  "cache_inv bd dsk c \<longleftrightarrow>
     length (c_weight c) = 32 \<and> length (c_sector c) = 32 \<and> length (c_cache c) = 32 \<and>
     (\<forall>i < 32. length (c_cache c ! i) = 4096) \<and>
     (sectorSize bd = 512 \<longrightarrow>
       (\<forall>i < 32. block_ok dsk (unat (sectorCount bd)) (c_sector c ! i) (c_cache c ! i)))"

lemma cache_invI:
  assumes "length (c_weight c) = 32" "length (c_sector c) = 32" "length (c_cache c) = 32"
    and "\<And>i. i < 32 \<Longrightarrow> length (c_cache c ! i) = 4096"
    and "\<And>i. sectorSize bd = 512 \<Longrightarrow> i < 32 \<Longrightarrow>
           block_ok dsk (unat (sectorCount bd)) (c_sector c ! i) (c_cache c ! i)"
  shows "cache_inv bd dsk c"
  using assms by (simp add: cache_inv_def)

lemma block_ok_none [simp]: "block_ok dsk n NO_SECTOR blk"
  by (simp add: block_ok_def)

lemma cache_create_inv:
  assumes "bd_cache_create m (Some junk) (Some bd) = (n, Some (cbd, c))"
    and "length junk = 32" "\<And>i. i < 32 \<Longrightarrow> length (junk ! i) = 4096"
  shows "cache_inv cbd dsk c" "cbd = bd"
  using assms by (auto simp: bd_cache_create_def cache_inv_def split: if_splits)

section \<open>The two interval tests\<close>

lemma unat_add8:
  assumes "unat (cs :: u64) + 8 < 2 ^ 64"
  shows "unat (cs + 8) = unat cs + 8"
  using assms by (subst unat_add_lt) simp_all

lemma unat_add_count:
  assumes "unat (s :: u64) + unat (n :: u16) < 2 ^ 64"
  shows "unat (s + ucast n) = unat s + unat n"
  using assms by (subst unat_add_lt) simp_all

lemma contains_iff:
  assumes "unat cs + 8 < 2 ^ 64" "unat s + unat n < 2 ^ 64"
  shows "bdc_contains cs s n \<longleftrightarrow> unat cs \<le> unat s \<and> unat s + unat n \<le> unat cs + 8"
  using assms by (simp add: bdc_contains_def word_le_nat_alt unat_add8 unat_add_count)

lemma overlaps_iff:
  assumes "unat cs + 8 < 2 ^ 64" "unat s + unat n < 2 ^ 64"
  shows "bdc_overlaps cs s n \<longleftrightarrow> unat s < unat cs + 8 \<and> unat cs < unat s + unat n"
  using assms by (simp add: bdc_overlaps_def word_less_nat_alt unat_add8 unat_add_count)

lemma contains_none:
  assumes "unat s + unat n < 2 ^ 64 - 1"
  shows "\<not> bdc_contains NO_SECTOR s n"
  using assms by (simp add: bdc_contains_def word_le_nat_alt)

lemma contains_block:
  assumes ok: "block_ok dsk n cs blk" and fits: "n + 8 \<le> 2 ^ 64"
    and range: "unat s + unat c \<le> n" and hit: "bdc_contains cs s c"
  shows "cs \<noteq> NO_SECTOR" "unat cs < n" "unat cs \<le> unat s" "unat s + unat c \<le> unat cs + 8"
proof -
  show ne: "cs \<noteq> NO_SECTOR" using contains_none [of s c] range fits hit by auto
  then show lt: "unat cs < n" using ok by (simp add: block_ok_def)
  then show "unat cs \<le> unat s" "unat s + unat c \<le> unat cs + 8"
    using contains_iff [of cs s c] range fits hit by auto
qed

section \<open>Eviction\<close>

definition aged :: "int \<Rightarrow> int" where
  "aged w = wrap32 (w - (64 + w sdiv 32))"

lemma aged_le: "aged w \<le> 0x7fffffff"
  using signed_take_bit_int_less_exp [of 31 "w - (64 + w sdiv 32)"] by (simp add: aged_def wrap32_def)

lemma bdc_age_weights: "fst (bdc_age ws i bw b) = map aged ws"
  by (induction ws i bw b rule: bdc_age.induct) (auto simp: aged_def Let_def split: prod.splits if_splits)

text \<open>The block the loop reports: the old best if no aged weight is lower, else the first
  of the blocks with the lowest aged weight.\<close>

definition evicts :: "int list \<Rightarrow> nat \<Rightarrow> bool" where
  "evicts ws j \<longleftrightarrow> j < length ws \<and> (\<forall>k<length ws. aged (ws ! j) \<le> aged (ws ! k))
                  \<and> (\<forall>k<j. aged (ws ! j) < aged (ws ! k))"

lemma evicts_Cons_0: "evicts (w # ws) 0 \<longleftrightarrow> (\<forall>k<length ws. aged w \<le> aged (ws ! k))"
  by (auto simp: evicts_def less_Suc_eq_0_disj)

lemma evicts_Cons_Suc: "evicts (w # ws) (Suc j) \<longleftrightarrow> evicts ws j \<and> aged (ws ! j) < aged w"
  by (auto simp: evicts_def less_Suc_eq_0_disj)

lemma bdc_age_best:
  "snd (bdc_age ws i bw b) = b \<and> (\<forall>k<length ws. bw \<le> aged (ws ! k)) \<or>
   (\<exists>j. snd (bdc_age ws i bw b) = i + j \<and> evicts ws j \<and> aged (ws ! j) < bw)"
proof (induction ws arbitrary: i bw b)
  case (Cons w ws)
  show ?case
  proof (cases "aged w < bw")
    case True
    then have snd_eq: "snd (bdc_age (w # ws) i bw b) = snd (bdc_age ws (Suc i) (aged w) i)"
      by (simp add: aged_def Let_def split: prod.splits)
    from Cons.IH [of "Suc i" "aged w" i] show ?thesis
    proof
      assume "snd (bdc_age ws (Suc i) (aged w) i) = i \<and> (\<forall>k<length ws. aged w \<le> aged (ws ! k))"
      then have "snd (bdc_age (w # ws) i bw b) = i + 0 \<and> evicts (w # ws) 0 \<and> aged ((w # ws) ! 0) < bw"
        using snd_eq True by (simp add: evicts_Cons_0)
      then show ?thesis by blast
    next
      assume "\<exists>j. snd (bdc_age ws (Suc i) (aged w) i) = Suc i + j \<and> evicts ws j \<and> aged (ws ! j) < aged w"
      then obtain j where "snd (bdc_age (w # ws) i bw b) = i + Suc j" "evicts (w # ws) (Suc j)"
          "aged ((w # ws) ! Suc j) < bw"
        using snd_eq True by (auto simp: evicts_Cons_Suc)
      then show ?thesis by blast
    qed
  next
    case False
    then have snd_eq: "snd (bdc_age (w # ws) i bw b) = snd (bdc_age ws (Suc i) bw b)"
      by (simp add: aged_def Let_def split: prod.splits)
    from Cons.IH [of "Suc i" bw b] show ?thesis
    proof
      assume "snd (bdc_age ws (Suc i) bw b) = b \<and> (\<forall>k<length ws. bw \<le> aged (ws ! k))"
      then show ?thesis using snd_eq False by (auto simp: less_Suc_eq_0_disj)
    next
      assume "\<exists>j. snd (bdc_age ws (Suc i) bw b) = Suc i + j \<and> evicts ws j \<and> aged (ws ! j) < bw"
      then obtain j where "snd (bdc_age (w # ws) i bw b) = i + Suc j" "evicts (w # ws) (Suc j)"
          "aged ((w # ws) ! Suc j) < bw"
        using snd_eq False by (auto simp: evicts_Cons_Suc)
      then show ?thesis by blast
    qed
  qed
qed simp

lemma victim_evicts:
  assumes "ws \<noteq> []"
  shows "evicts ws (snd (bdc_age ws 0 0x7fffffff 0))"
proof -
  have full: "evicts ws 0" if "\<forall>k<length ws. 0x7fffffff \<le> aged (ws ! k)"
    using that assms aged_le by (auto simp: evicts_def intro: order_trans)
  show ?thesis using bdc_age_best [of ws 0 "0x7fffffff" 0] full by auto
qed

section \<open>Hits\<close>

lemma hit_offset:
  assumes "unat cs \<le> unat (s :: u64)" "unat s \<le> unat cs + 8"
  shows "unat ((s - cs) * 512) = (unat s - unat cs) * 512"
proof -
  have "unat (s - cs) = unat s - unat cs" using assms by (simp add: unat_sub_le word_le_nat_alt)
  moreover have "unat ((s - cs) * 512) = (unat (s - cs) * 512) mod 2 ^ 64"
    by (subst unat_word_ariths(2)) simp
  ultimately show ?thesis using assms by simp
qed

lemma hit_data:
  assumes ok: "block_ok dsk n cs blk" and len: "length blk = 4096"
    and fits: "n + 8 \<le> 2 ^ 64" and range: "unat s + unat c \<le> n" and hit: "bdc_contains cs s c"
  shows "take (unat c * 512) (drop (unat ((s - cs) * 512)) blk) = sectors dsk (unat s) (unat c)"
proof -
  note b = contains_block [OF ok fits range hit]
  have "take (unat c * 512) (drop ((unat s - unat cs) * 512) blk) = sectors dsk (unat s) (unat c)"
  proof (rule sectors_of_blocks)
    fix j assume "j < unat c"
    then show "take 512 (drop ((unat s - unat cs + j) * 512) blk) = dsk (unat s + j)"
      using b ok range by (auto simp: block_ok_def dest!: spec [of _ "unat s - unat cs + j"])
  qed (use b len in auto)
  then show ?thesis using b by (subst hit_offset) auto
qed

lemma lookup_Some:
  assumes "bdc_lookup c s n = Some i"
  shows "i < 32" "bdc_contains (c_sector c ! i) s n"
  using assms unfolding bdc_lookup_def
  by (auto simp: find_Some_iff)

section \<open>Misses\<close>

definition fill_count :: "block_device \<Rightarrow> u64 \<Rightarrow> u16" where
  "fill_count bd s = (if 8 > sectorCount bd - s then ucast (sectorCount bd - s) else 8)"

lemma unat_fill_count:
  assumes "unat s \<le> unat (sectorCount bd)"
  shows "unat (fill_count bd s) = min 8 (unat (sectorCount bd) - unat s)"
proof -
  have d: "unat (sectorCount bd - s) = unat (sectorCount bd) - unat s"
    using assms by (simp add: unat_sub_le word_le_nat_alt)
  show ?thesis
  proof (cases "8 > sectorCount bd - s")
    case True
    then have "unat (sectorCount bd - s) < 8" by (simp add: word_less_nat_alt)
    then have "unat (ucast (sectorCount bd - s) :: u16) = unat (sectorCount bd - s)"
      by (simp add: unsigned_ucast_eq take_bit_nat_eq_self)
    then show ?thesis using True d \<open>unat (sectorCount bd - s) < 8\<close> by (simp add: fill_count_def)
  next
    case False
    then show ?thesis using d by (simp add: fill_count_def word_less_nat_alt)
  qed
qed

lemma filled_block_ok:
  assumes len: "\<And>k. length (dsk k) = 512" and blk: "length blk = 4096"
    and s: "unat s < unat (sectorCount bd)"
  shows "block_ok dsk (unat (sectorCount bd)) s
           (overlay blk (sectors dsk (unat s) (unat (fill_count bd s))))"
proof -
  let ?n = "unat (fill_count bd s)"
  have n: "?n = min 8 (unat (sectorCount bd) - unat s)" using s by (simp add: unat_fill_count)
  have l: "length (sectors dsk (unat s) ?n) = ?n * 512" using len by (rule length_sectors)
  have "take 512 (drop (k * 512) (overlay blk (sectors dsk (unat s) ?n))) = dsk (unat s + k)"
    if "k < ?n" for k
  proof -
    have "k * 512 + 512 \<le> ?n * 512" using that by simp
    then have "take 512 (drop (k * 512) (overlay blk (sectors dsk (unat s) ?n)))
        = take (1 * 512) (drop (k * 512) (sectors dsk (unat s) ?n))"
      using l by (simp add: take_drop_overlay)
    also have "\<dots> = sectors dsk (unat s + k) 1" using len that by (intro sectors_part) auto
    finally show ?thesis by simp
  qed
  then show ?thesis using s n by (auto simp: block_ok_def)
qed

section \<open>The cached device is the device\<close>

lemma cache_inv_frame:
  assumes inv: "cache_inv bd dsk c" and fits: "unat (sectorCount bd) + 8 \<le> 2 ^ 64"
    and range: "unat s + unat n \<le> unat (sectorCount bd)"
    and same: "\<And>k. k < unat s \<or> unat s + unat n \<le> k \<Longrightarrow> dsk' k = dsk k"
  shows "cache_inv bd dsk' (bdc_invalidate c s n)"
proof (rule cache_invI)
  fix i assume sz: "sectorSize bd = 512" and i: "i < (32 :: nat)"
  let ?cs = "c_sector c ! i"
  have ok: "block_ok dsk (unat (sectorCount bd)) ?cs (c_cache c ! i)"
    using inv sz i by (simp add: cache_inv_def)
  have nth: "c_sector (bdc_invalidate c s n) ! i = (if bdc_overlaps ?cs s n then NO_SECTOR else ?cs)"
    using inv i by (simp add: bdc_invalidate_def cache_inv_def)
  have "block_ok dsk' (unat (sectorCount bd)) ?cs (c_cache c ! i)" if "\<not> bdc_overlaps ?cs s n"
  proof (cases "?cs = NO_SECTOR")
    case False
    with ok have lt: "unat ?cs < unat (sectorCount bd)" by (simp add: block_ok_def)
    then have "\<not> (unat s < unat ?cs + 8 \<and> unat ?cs < unat s + unat n)"
      using that overlaps_iff [of ?cs s n] fits range by auto
    then have "dsk' (unat ?cs + k) = dsk (unat ?cs + k)" if "k < 8" for k
      using that same by auto
    then show ?thesis using ok by (simp add: block_ok_def)
  qed simp
  then show "block_ok dsk' (unat (sectorCount bd)) (c_sector (bdc_invalidate c s n) ! i)
      (c_cache (bdc_invalidate c s n) ! i)"
    using nth by (simp add: bdc_invalidate_def)
qed (use inv in \<open>simp_all add: cache_inv_def bdc_invalidate_def\<close>)

lemma cache_inv_weight:
  "cache_inv bd dsk (c\<lparr>c_weight := ws\<rparr>) \<longleftrightarrow>
     length ws = 32 \<and> cache_inv bd dsk (c\<lparr>c_weight := replicate 32 0\<rparr>)"
  by (auto simp: cache_inv_def)

lemma cache_inv_set_block:
  assumes "cache_inv bd dsk c" "length ws = 32" "length blk = 4096" "i < 32"
    and "sectorSize bd = 512 \<Longrightarrow> block_ok dsk (unat (sectorCount bd)) cs blk"
  shows "cache_inv bd dsk (c\<lparr>c_weight := ws, c_sector := (c_sector c)[i := cs],
                            c_cache := (c_cache c)[i := blk]\<rparr>)"
  using assms by (auto simp: cache_inv_def nth_list_update)

text \<open>The state of the cached device: the invariant of the device below and of the cache.\<close>

definition cached_inv :: "('s \<Rightarrow> bool) \<Rightarrow> ('s \<Rightarrow> nat \<Rightarrow> bytes) \<Rightarrow> block_device \<Rightarrow>
    bd_cache \<times> 's \<Rightarrow> bool" where
  "cached_inv ok dsk bd cs \<longleftrightarrow> ok (snd cs) \<and> cache_inv bd (dsk (snd cs)) (fst cs)"

context block_store
begin

lemma cached_hit:
  assumes ci: "cached_inv inv disk bd (c, s)" and sz: "sectorSize bd = 512"
    and fits: "unat (sectorCount bd) + 8 \<le> 2 ^ 64"
    and range: "unat a + unat n \<le> unat (sectorCount bd)"
    and hit: "bdc_lookup c a n = Some i" and h: "bdc_hit c i a n = (d, c')"
  shows "cached_inv inv disk bd (c', s) \<and> d = sectors (disk s) (unat a) (unat n)"
proof -
  have i: "i < 32" and con: "bdc_contains (c_sector c ! i) a n" using lookup_Some [OF hit] by auto
  have ok: "block_ok (disk s) (unat (sectorCount bd)) (c_sector c ! i) (c_cache c ! i)"
    and len: "length (c_cache c ! i) = 4096"
    using ci sz i by (auto simp: cached_inv_def cache_inv_def)
  have "d = sectors (disk s) (unat a) (unat n)"
    using h hit_data [OF ok len fits range con] by (simp add: bdc_hit_def Let_def)
  moreover have "cached_inv inv disk bd (c', s)"
    using ci h by (auto simp: cached_inv_def cache_inv_def bdc_hit_def Let_def)
  ultimately show ?thesis by simp
qed

lemma cached_miss:
  assumes ci: "cached_inv inv disk bd (c, s)" and sz: "sectorSize bd = 512" and ssz: "ssz = 512"
    and ns: "nsec = unat (sectorCount bd)"
    and range: "unat a + unat n \<le> nsec" and n: "0 < n" "n < 8"
    and m: "bdc_miss ops bd c s a n = (r, d, c', s')"
  shows "cached_inv inv disk bd (c', s') \<and> disk s' = disk s \<and> length d \<le> unat n * 512 \<and>
    (r = int (unat n) \<longrightarrow> d = sectors (disk s) (unat a) (unat n))"
proof -
  obtain ws best where age: "bdc_age (c_weight c) 0 0x7fffffff 0 = (ws, best)" by force
  obtain rr dd s1 where rd: "bd_read ops s a (fill_count bd a) = (rr, dd, s1)"
    by (cases "bd_read ops s a (fill_count bd a)") auto
  let ?n = "unat (fill_count bd a)"
  have lt: "unat a < nsec" using range n by (simp add: word_less_nat_alt)
  have cnt: "?n = min 8 (nsec - unat a)" using lt ns by (simp add: unat_fill_count)
  have inv: "inv s" "cache_inv bd (disk s) c" using ci by (auto simp: cached_inv_def)
  have fr: "unat a + ?n \<le> nsec" using cnt lt by simp
  have keeps: "inv s1" "disk s1 = disk s" and ld: "length dd \<le> ?n * 512"
    using read_keeps [OF inv(1) fr rd] read_bound [OF inv(1) fr rd] ssz by auto
  have wl: "length ws = 32" using age bdc_age_weights [of "c_weight c" 0 "0x7fffffff" 0] inv(2)
    by (simp add: cache_inv_def)
  have best: "best < 32"
    using victim_evicts [of "c_weight c"] age inv(2) by (fastforce simp: evicts_def cache_inv_def)
  let ?blk = "overlay (c_cache c ! best) dd"
  have bl: "length ?blk = 4096" "length (c_cache c ! best) = 4096" "length (c_cache c) = 32"
    using inv(2) best ld cnt by (auto simp: cache_inv_def)
  let ?c1 = "c\<lparr>c_weight := ws, c_sector := (c_sector c)[best := NO_SECTOR],
                 c_cache := (c_cache c)[best := ?blk]\<rparr>"
  have c1: "cache_inv bd (disk s) ?c1"
    using cache_inv_set_block [OF inv(2) wl bl(1) best, of NO_SECTOR] by simp
  have m_eq: "bdc_miss ops bd c s a n =
     (if rr \<noteq> int ?n then (if rr < 0 then rr else - EIO, [], ?c1, s1)
      else (int (unat n), take (unat n * 512) ?blk,
            ?c1\<lparr>c_sector := (c_sector ?c1)[best := a],
               c_weight := (c_weight ?c1)[best := int (unat n) * BLOCK_WEIGHT_FACTOR]\<rparr>, s1))"
    using age rd best bl(3) by (simp add: bdc_miss_def fill_count_def [symmetric] Let_def)
  show ?thesis
  proof (cases "rr = int ?n")
    case False
    then have "r \<noteq> int (unat n)" "d = []" "c' = ?c1" "s' = s1"
      using m m_eq by (auto split: if_splits)
    then show ?thesis using keeps c1 by (auto simp: cached_inv_def)
  next
    case True
    have dd: "dd = sectors (disk s) (unat a) ?n" using read_data [OF inv(1) fr] rd True by simp
    have ok: "block_ok (disk s) (unat (sectorCount bd)) a ?blk"
      using filled_block_ok [of "disk s" "c_cache c ! best" a bd] dd disk_len [OF inv(1)] ssz bl(2) lt ns
      by auto
    have nn: "unat n \<le> ?n" using cnt range n by (auto simp: word_less_nat_alt)
    then have "take (unat n * 512) ?blk = take (unat n * 512) (drop (0 * 512) dd)"
      using dd disk_len [OF inv(1)] ssz by (simp add: length_sectors)
    also have "\<dots> = sectors (disk s) (unat a + 0) (unat n)"
      unfolding dd using disk_len [OF inv(1)] ssz nn by (intro sectors_part) auto
    finally have tk: "take (unat n * 512) ?blk = sectors (disk s) (unat a) (unat n)" by simp
    have res: "r = int (unat n)" "d = take (unat n * 512) ?blk" "s' = s1"
      "c' = ?c1\<lparr>c_sector := (c_sector ?c1)[best := a],
               c_weight := (c_weight ?c1)[best := int (unat n) * BLOCK_WEIGHT_FACTOR]\<rparr>"
      using m m_eq True by auto
    have c': "c' = c\<lparr>c_weight := ws[best := int (unat n) * BLOCK_WEIGHT_FACTOR],
        c_sector := (c_sector c)[best := a], c_cache := (c_cache c)[best := ?blk]\<rparr>"
      unfolding res(4) by simp
    have "cache_inv bd (disk s) c'"
      unfolding c' using wl by (intro cache_inv_set_block [OF inv(2) _ bl(1) best ok]) simp
    then show ?thesis using keeps tk res disk_len [OF inv(1)] ssz
      by (auto simp: cached_inv_def length_sectors)
  qed
qed

lemma cached_read:
  assumes ci: "cached_inv inv disk bd cs" and ssz: "ssz = unat (sectorSize bd)"
    and ns: "nsec = unat (sectorCount bd)" and fits: "nsec + 8 \<le> 2 ^ 64"
    and range: "unat a + unat n \<le> nsec" and m: "bdc_read ops bd cs a n = (r, d, cs')"
  shows "cached_inv inv disk bd cs' \<and> disk (snd cs') = disk (snd cs) \<and> length d \<le> unat n * ssz \<and>
    (r = int (unat n) \<longrightarrow> d = sectors (disk (snd cs)) (unat a) (unat n))"
proof -
  obtain c s where cs: "cs = (c, s)" by force
  have i: "inv s" using ci cs by (simp add: cached_inv_def)
  consider (zero) "n = 0" | (edge) "n \<noteq> 0" "sectorCount bd \<le> a \<or> ucast n > sectorCount bd - a"
    | (direct) "n \<noteq> 0" "\<not> (sectorCount bd \<le> a \<or> ucast n > sectorCount bd - a)"
        "sectorSize bd \<noteq> 512 \<or> 8 \<le> n"
    | (cached) "n \<noteq> 0" "\<not> (sectorCount bd \<le> a \<or> ucast n > sectorCount bd - a)"
        "sectorSize bd = 512" "n < 8"
    by force
  then show ?thesis
  proof cases
    case zero
    then show ?thesis using m ci cs by (simp add: bdc_read_def)
  next
    case edge
    then show ?thesis using m ci cs by (auto simp: bdc_read_def)
  next
    case direct
    obtain d' s' where rd: "bd_read ops s a n = (r, d, s')" "cs' = (c, s')"
      using m cs direct by (auto simp: bdc_read_def split: prod.splits)
    then show ?thesis
      using read_keeps [OF i range rd(1)] read_bound [OF i range rd(1)] read_data [OF i range] ci cs
      by (auto simp: cached_inv_def)
  next
    case cached
    have z: "ssz = 512" using ssz cached by simp
    have pos: "0 < n" using cached(1) by (simp add: word_neq_0_conv)
    have small: "\<not> 8 \<le> n" using cached(4) by simp
    show ?thesis
    proof (cases "bdc_lookup c a n")
      case None
      then have "bdc_miss ops bd c s a n = (r, d, fst cs', snd cs')"
        using m cs cached(1-3) small by (simp add: bdc_read_def)
      from cached_miss [OF ci [unfolded cs] cached(3) z ns range pos cached(4) this]
      show ?thesis using z cs by simp
    next
      case (Some i)
      obtain dd c' where h: "bdc_hit c i a n = (dd, c')" by force
      then have "r = int (unat n)" "d = dd" "cs' = (c', s)"
        using m cs cached(1-3) small Some by (auto simp: bdc_read_def)
      then show ?thesis
        using cached_hit [OF ci [unfolded cs] cached(3) _ _ Some h] fits range ns z cs disk_len [OF i]
        by (simp add: length_sectors)
    qed
  qed
qed

lemma cached_write:
  assumes ci: "cached_inv inv disk bd cs" and ssz: "ssz = unat (sectorSize bd)"
    and ns: "nsec = unat (sectorCount bd)" and fits: "nsec + 8 \<le> 2 ^ 64"
    and range: "unat a + unat n \<le> nsec" and len: "length d = unat n * ssz"
    and m: "bdc_write ops cs a d n = (r, cs')"
  shows "cached_inv inv disk bd cs' \<and>
    (\<forall>k. k < unat a \<or> unat a + unat n \<le> k \<longrightarrow> disk (snd cs') k = disk (snd cs) k) \<and>
    (r = int (unat n) \<longrightarrow> disk (snd cs') = upd_sectors (disk (snd cs)) (unat a) (unat n) ssz d)"
proof -
  obtain c s where cs: "cs = (c, s)" by force
  have i: "inv s" "cache_inv bd (disk s) c" using ci cs by (simp_all add: cached_inv_def)
  obtain s' where w: "bd_write ops s a d n = (r, s')" "cs' = (bdc_invalidate c a n, s')"
    using m cs by (auto simp: bdc_write_def split: prod.splits)
  note frame = write_frame [OF i(1) range len w(1)]
  have "cache_inv bd (disk s') (bdc_invalidate c a n)"
    using cache_inv_frame [OF i(2)] fits range ns frame by auto
  then show ?thesis
    using write_inv [OF i(1) range len w(1)] write_data [OF i(1) range len] frame w cs
    by (auto simp: cached_inv_def)
qed

lemma cached_store:
  assumes "ssz = unat (sectorSize bd)" "nsec = unat (sectorCount bd)" "nsec + 8 \<le> 2 ^ 64"
  shows "block_store (bdc_ops ops bd) (cached_inv inv disk bd) (\<lambda>cs. disk (snd cs)) ssz nsec"
proof unfold_locales
  note rd = cached_read [OF _ assms] and wr = cached_write [OF _ assms]
  show "length (disk (snd cs) k) = ssz" if "cached_inv inv disk bd cs" for cs k
    using that disk_len by (simp add: cached_inv_def)
  show "cached_inv inv disk bd cs' \<and> disk (snd cs') = disk (snd cs)"
    if "cached_inv inv disk bd cs" "unat a + unat c \<le> nsec"
      "bd_read (bdc_ops ops bd) cs a c = (r, d, cs')" for cs a c r d cs'
    using rd [OF that(1,2)] that(3) by (simp add: bdc_ops_def)
  show "length d \<le> unat c * ssz"
    if "cached_inv inv disk bd cs" "unat a + unat c \<le> nsec"
      "bd_read (bdc_ops ops bd) cs a c = (r, d, cs')" for cs a c r d cs'
    using rd [OF that(1,2)] that(3) by (simp add: bdc_ops_def)
  show "d = sectors (disk (snd cs)) (unat a) (unat c)"
    if "cached_inv inv disk bd cs" "unat a + unat c \<le> nsec"
      "bd_read (bdc_ops ops bd) cs a c = (int (unat c), d, cs')" for cs a c d cs'
    using rd [OF that(1,2)] that(3) by (simp add: bdc_ops_def)
  show "cached_inv inv disk bd cs'"
    if "cached_inv inv disk bd cs" "unat a + unat c \<le> nsec" "length d = unat c * ssz"
      "bd_write (bdc_ops ops bd) cs a d c = (r, cs')" for cs a c d r cs'
    using wr [OF that(1,2,3)] that(4) by (simp add: bdc_ops_def)
  show "disk (snd cs') k = disk (snd cs) k"
    if "cached_inv inv disk bd cs" "unat a + unat c \<le> nsec" "length d = unat c * ssz"
      "bd_write (bdc_ops ops bd) cs a d c = (r, cs')" "k < unat a \<or> unat a + unat c \<le> k"
    for cs a c d r cs' k
    using wr [OF that(1,2,3)] that(4,5) by (auto simp: bdc_ops_def)
  show "disk (snd cs') = upd_sectors (disk (snd cs)) (unat a) (unat c) ssz d"
    if "cached_inv inv disk bd cs" "unat a + unat c \<le> nsec" "length d = unat c * ssz"
      "bd_write (bdc_ops ops bd) cs a d c = (int (unat c), cs')" for cs a c d cs'
    using wr [OF that(1,2,3)] that(4) by (simp add: bdc_ops_def)
qed

end

context reliable_store
begin

lemma cached_read_succeeds:
  assumes ci: "cached_inv inv disk bd cs" and ns: "nsec = unat (sectorCount bd)"
    and range: "unat a + unat n \<le> nsec"
  shows "\<exists>d cs'. bdc_read ops bd cs a n = (int (unat n), d, cs')"
proof -
  obtain c s where cs: "cs = (c, s)" by force
  have i: "inv s" using ci cs by (simp add: cached_inv_def)
  show ?thesis
  proof (cases "n = 0")
    case False
    then have lt: "unat a < nsec" using range unat_gt_0 [of n] by linarith
    then have le: "a < sectorCount bd" "\<not> ucast n > sectorCount bd - a"
      using ns range by (simp_all add: word_less_nat_alt unat_sub_le word_le_nat_alt)
    have fr: "unat a + unat (fill_count bd a) \<le> nsec" using lt ns by (simp add: unat_fill_count)
    obtain d1 s1 where d1: "bd_read ops s a n = (int (unat n), d1, s1)"
      using read_succeeds [OF i range] by blast
    obtain d2 s2 where d2: "bd_read ops s a (fill_count bd a) = (int (unat (fill_count bd a)), d2, s2)"
      using read_succeeds [OF i fr] by blast
    show ?thesis using cs False le d1 d2
      by (auto simp: bdc_read_def bdc_miss_def fill_count_def [symmetric] Let_def not_le
               split: option.splits prod.splits)
  qed (simp add: bdc_read_def cs)
qed

lemma cached_reliable:
  assumes "ssz = unat (sectorSize bd)" "nsec = unat (sectorCount bd)" "nsec + 8 \<le> 2 ^ 64"
  shows "reliable_store (bdc_ops ops bd) (cached_inv inv disk bd) (\<lambda>cs. disk (snd cs)) ssz nsec"
proof (intro_locales)
  show "block_store (bdc_ops ops bd) (cached_inv inv disk bd) (\<lambda>cs. disk (snd cs)) ssz nsec"
    by (rule cached_store [OF assms])
  show "reliable_store_axioms (bdc_ops ops bd) (cached_inv inv disk bd) ssz nsec"
  proof
    fix cs and a :: u64 and c :: u16 and d :: bytes
    assume ci: "cached_inv inv disk bd cs" and range: "unat a + unat c \<le> nsec"
    show "\<exists>d cs'. bd_read (bdc_ops ops bd) cs a c = (int (unat c), d, cs')"
      using cached_read_succeeds [OF ci assms(2) range] by (simp add: bdc_ops_def)
    show "\<exists>cs'. bd_write (bdc_ops ops bd) cs a d c = (int (unat c), cs')" if "length d = unat c * ssz"
      using write_succeeds [OF _ range that, of "snd cs"] ci
      by (cases cs) (auto simp: bdc_ops_def bdc_write_def cached_inv_def)
  qed
qed

end

section \<open>Properties\<close>

text \<open>The whole disk of a device of \<open>n\<close> sectors of 512 bytes, for the concrete instances.\<close>

definition sample_bd :: block_device where
  "sample_bd = \<lparr>bd_name = Some ''usb'', devNr = 0, parNr = 0, parId = 0, sectorSize = 512,
                sectorOffset = 0, sectorCount = 1000\<rparr>"

interpretation cached512: reliable_store "bdc_ops (ram_ops 512 1000) sample_bd"
    "cached_inv (ram_inv 512) id sample_bd" "\<lambda>cs. id (snd cs)" 512 1000
  by (rule ram512.cached_reliable) (simp_all add: sample_bd_def)

text \<open>C6. The cached device keeps the contract of the device below it, with the same disk:
  for every device that meets \<open>block_store\<close> (reads observe its sectors, writes change
  exactly the sectors written), the device made by \<open>bd_cache_create\<close> meets it too, in
  every state whose cache satisfies the invariant. In particular no cached read is ever
  stale, whatever was written through the cache before, and a write through it reaches
  the same sectors of the device.\<close>

theorem cache_refines_device:
  assumes "block_store ops ok dsk (unat (sectorSize bd)) (unat (sectorCount bd))"
    and "unat (sectorCount bd) + 8 \<le> 2 ^ 64"
  shows "block_store (bdc_ops ops bd) (cached_inv ok dsk bd) (\<lambda>cs. dsk (snd cs))
           (unat (sectorSize bd)) (unat (sectorCount bd))"
  by (rule block_store.cached_store [OF assms(1) refl refl assms(2)])

theorem cache_refines_device_witness:
  "block_store (bdc_ops (ram_ops 512 1000) sample_bd) (cached_inv (ram_inv 512) id sample_bd)
     (\<lambda>cs. id (snd cs)) (unat (sectorSize sample_bd)) (unat (sectorCount sample_bd))"
  by (rule cache_refines_device) (simp_all add: sample_bd_def ram512.block_store_axioms)

text \<open>What a cache miss does to the cache: exactly one block is refilled, the first of
  those with the lowest weight after aging; every other block keeps its sector number and
  its data. If the fill fails or is short, the call returns an error, hands out no data,
  and the chosen block is left invalid, so its old contents can never be taken for the
  result of this or a later read.\<close>

theorem cache_miss_effect:
  assumes "length (c_weight c) = 32" "length (c_sector c) = 32" "length (c_cache c) = 32"
    and "bdc_miss ops bd c s sector count = (r, d, c', s')"
  shows "\<exists>best. evicts (c_weight c) best \<and>
    (\<forall>i<32. i \<noteq> best \<longrightarrow> c_sector c' ! i = c_sector c ! i \<and> c_cache c' ! i = c_cache c ! i) \<and>
    (if fst (bd_read ops s sector (fill_count bd sector)) = int (unat (fill_count bd sector))
     then r = int (unat count) \<and> c_sector c' ! best = sector
     else r < 0 \<and> d = [] \<and> c_sector c' ! best = NO_SECTOR)"
proof -
  obtain ws best where age: "bdc_age (c_weight c) 0 0x7fffffff 0 = (ws, best)" by force
  have ev: "evicts (c_weight c) best"
    using victim_evicts [of "c_weight c"] age assms(1) by fastforce
  then have "best < 32" using assms(1) by (simp add: evicts_def)
  then show ?thesis
    using assms age ev by (intro exI [of _ best])
      (auto simp: bdc_miss_def fill_count_def [symmetric] Let_def split: prod.splits if_splits)
qed

definition empty_cache :: bd_cache where
  "empty_cache = \<lparr>c_weight = replicate 32 0, c_sector = replicate 32 NO_SECTOR,
                  c_cache = replicate 32 (replicate 4096 0)\<rparr>"

theorem cache_miss_effect_witness:
  "let (r, d, c', s') = bdc_miss (ram_ops 512 1000) sample_bd empty_cache (zero_disk 512) 998 1
   in \<exists>best. evicts (c_weight empty_cache) best \<and>
       (\<forall>i<32. i \<noteq> best \<longrightarrow> c_sector c' ! i = c_sector empty_cache ! i
                         \<and> c_cache c' ! i = c_cache empty_cache ! i) \<and>
       r = 1 \<and> c_sector c' ! best = 998"
proof -
  let ?m = "bdc_miss (ram_ops 512 1000) sample_bd empty_cache (zero_disk 512) 998 1"
  obtain r d c' s' where m: "?m = (r, d, c', s')" by (cases ?m) auto
  have fc: "fill_count sample_bd 998 = 2" by (simp add: fill_count_def sample_bd_def)
  show ?thesis
    unfolding m using cache_miss_effect [OF _ _ _ m] by (simp add: fc empty_cache_def ram_ops_def)
qed

definition frees_all :: "mem_event list \<Rightarrow> bool" where
  "frees_all ev \<longleftrightarrow> count_list ev Alloc_cbd = count_list ev Free_cbd
                 \<and> count_list ev Alloc_c = count_list ev Free_c"

text \<open>Creating a cached device never leaks memory: when \<open>bd_cache_create\<close> returns \<open>NULL\<close>,
  each block it allocated is freed again, and when it succeeds \<open>bd_cache_destroy\<close> frees
  exactly the two blocks it allocated.\<close>

theorem cache_create_no_leak:
  "let (ev, res) = bd_cache_create cbd_mem c_mem bd in frees_all (ev @ bd_cache_destroy res)"
  by (auto simp: bd_cache_create_def bd_cache_destroy_def frees_all_def Let_def)

end
