(* ===== verification/Bdm.thy ===== *)
theory Bdm
  imports Bd_Cache
begin

text \<open>
  \<open>__bdm_assault/src/bdm/bdm_bdm.c\<close>: the block-device manager. Its static tables, the
  partition driver's table (same module), the allocator's view of the caches and the two
  event flags are one record. A \<open>struct block_device *\<close> is a \<open>bdref\<close>: a device of a driver,
  an entry of \<open>g_part_bd\<close>, or a cache made by \<open>bd_cache_create\<close>; \<open>bd_of\<close> is the memory they
  point to. File systems are called through the parameters \<open>fs_conn\<close> and \<open>fs_disc\<close>; since a
  file system may call back into \<open>bdm_disconnect_bd\<close>, disconnecting returns an option,
  \<open>None\<close> standing for a call that does not come back.

  Shown: the table invariant (occupied slots, caches owned by exactly one slot), what each
  operation does to the table, the ata-only filter, the mount pass and the unwinding of a
  failed \<open>bdm_init\<close>.
\<close>

section \<open>State\<close>

datatype bdref = DevBd nat | PartBd nat | CacheBd nat

datatype fsref = MbrFs | GptFs | ModFs nat

record bdm_mounts =
  m_bd :: "bdref option"
  m_cbd :: "bdref option"
  m_fs :: "fsref option"

abbreviation (input) MAX_CONNECTIONS :: nat where "MAX_CONNECTIONS \<equiv> 20"
abbreviation (input) BDM_EVENT_CB_MOUNT :: u32 where "BDM_EVENT_CB_MOUNT \<equiv> 0x01"
abbreviation (input) BDM_EVENT_CB_UMOUNT :: u32 where "BDM_EVENT_CB_UMOUNT \<equiv> 0x02"
abbreviation (input) BDM_EVENT_MOUNT :: u32 where "BDM_EVENT_MOUNT \<equiv> 0x04"
abbreviation (input) BDM_EVENT_FILTER :: u32 where "BDM_EVENT_FILTER \<equiv> 0x08"

text \<open>\<open>cache_mem\<close>: the results of the allocations to come; \<open>caches\<close>: the caches that exist;
  \<open>cb_log\<close>: the calls of the registered callback; \<open>world\<close>: the state of the file-system
  modules and of the drivers.\<close>

record 'w bdm =
  g_mount :: "bdm_mounts list"
  g_fs :: "fsref option list"
  g_cb :: "nat option"
  bdm_event :: int
  bdm_filter_event :: int
  bdm_thread_id :: int
  g_ata_only :: bool
  event_bits :: u32
  filter_bits :: u32
  g_part :: "bdref option list"
  bd_of :: "bdref \<Rightarrow> block_device"
  cache_mem :: "bool list"
  caches :: "nat list"
  next_cache :: nat
  cb_log :: "(nat \<times> int) list"
  world :: 'w

type_synonym 'w fs_connector = "fsref \<Rightarrow> bdref \<Rightarrow> 'w bdm \<Rightarrow> int \<times> 'w bdm"
type_synonym 'w fs_disconnector = "fsref \<Rightarrow> bdref \<Rightarrow> 'w bdm \<Rightarrow> 'w bdm option"

section \<open>Operations\<close>

definition no_mount :: bdm_mounts where
  "no_mount = \<lparr>m_bd = None, m_cbd = None, m_fs = None\<rparr>"

definition set_mount :: "nat \<Rightarrow> bdm_mounts \<Rightarrow> 'w bdm \<Rightarrow> 'w bdm" where
  "set_mount i m st = st\<lparr>g_mount := (g_mount st)[i := m]\<rparr>"

text \<open>\<open>SetEventFlag(bdm_event, b)\<close> has no effect while the flag does not exist.\<close>

definition set_event :: "u32 \<Rightarrow> 'w bdm \<Rightarrow> 'w bdm" where
  "set_event b st = (if bdm_event st < 0 then st else st\<lparr>event_bits := event_bits st OR b\<rparr>)"

definition not_ata :: "block_device \<Rightarrow> bool" where
  "not_ata bd \<longleftrightarrow> (case bd_name bd of None \<Rightarrow> False | Some n \<Rightarrow> n \<noteq> ''ata'')"

text \<open>The device a file system sees: the cache of the slot if it has one.\<close>

definition mount_handle :: "bdm_mounts \<Rightarrow> bdref" where
  "mount_handle m = (case m_cbd m of Some c \<Rightarrow> c | None \<Rightarrow> the (m_bd m))"

definition bdm_RegisterCallback :: "nat option \<Rightarrow> 'w bdm \<Rightarrow> 'w bdm" where
  "bdm_RegisterCallback cb st =
     (let st1 = st\<lparr>g_cb := cb\<rparr>
      in if cb = None then st1
         else if \<exists>m \<in> set (g_mount st1). m_bd m \<noteq> None \<and> m_fs m \<noteq> None
              then set_event BDM_EVENT_CB_MOUNT st1 else st1)"

text \<open>\<open>bdm_set_ata_only\<close> up to the point where it waits for the thread (\<open>True\<close>) or returns
  at once, and its return once the filter event is set.\<close>

definition bdm_set_ata_only :: "bool \<Rightarrow> 'w bdm \<Rightarrow> bool \<times> 'w bdm" where
  "bdm_set_ata_only enable st =
     (let st1 = st\<lparr>g_ata_only := enable\<rparr>
      in if bdm_event st1 < 0 \<or> bdm_filter_event st1 < 0 then (False, st1)
         else (True, set_event BDM_EVENT_FILTER st1))"

definition bdm_set_ata_only_resume :: "'w bdm \<Rightarrow> 'w bdm option" where
  "bdm_set_ata_only_resume st =
     (if filter_bits st AND 1 = 0 then None else Some (st\<lparr>filter_bits := 0\<rparr>))"

text \<open>The manager's calls of \<open>bd_cache_create\<close> and \<open>bd_cache_destroy\<close>.\<close>

definition new_cache :: "bdref \<Rightarrow> 'w bdm \<Rightarrow> bdref option \<times> 'w bdm" where
  "new_cache b st =
     (let ok = (cache_mem st \<noteq> [] \<and> hd (cache_mem st)); st1 = st\<lparr>cache_mem := tl (cache_mem st)\<rparr>
      in case snd (bd_cache_create ok (Some []) (Some (bd_of st b))) of
           None \<Rightarrow> (None, st1)
         | Some (cbd, _) \<Rightarrow>
             (Some (CacheBd (next_cache st)),
              st1\<lparr>caches := next_cache st # caches st, next_cache := Suc (next_cache st),
                  bd_of := (bd_of st)(CacheBd (next_cache st) := cbd)\<rparr>))"

definition drop_cache :: "bdref \<Rightarrow> 'w bdm \<Rightarrow> 'w bdm" where
  "drop_cache c st = (case c of CacheBd n \<Rightarrow> st\<lparr>caches := remove1 n (caches st)\<rparr> | _ \<Rightarrow> st)"

definition bdm_connect_bd :: "bdref \<Rightarrow> 'w bdm \<Rightarrow> 'w bdm" where
  "bdm_connect_bd b st =
     (if g_ata_only st \<and> not_ata (bd_of st b) then st
      else case first_index (\<lambda>m. m_bd m = None) (g_mount st) of
             None \<Rightarrow> st
           | Some i \<Rightarrow>
               let m = (g_mount st ! i)\<lparr>m_bd := Some b\<rparr>; st1 = set_mount i m st;
                   (c, st2) = (if parNr (bd_of st b) = 0 then new_cache b st1 else (None, st1))
               in set_event BDM_EVENT_MOUNT (set_mount i (m\<lparr>m_cbd := c\<rparr>) st2))"

text \<open>One iteration of the loop of \<open>bdm_disconnect_bd\<close>.\<close>

definition bdm_disconnect_slot :: "'w fs_disconnector \<Rightarrow> bdref \<Rightarrow> nat \<Rightarrow> 'w bdm \<Rightarrow> 'w bdm option" where
  "bdm_disconnect_slot fs_disc b i st =
     (let m = g_mount st ! i
      in if m_bd m \<noteq> Some b then Some st
         else case (case m_fs m of
                      None \<Rightarrow> Some st
                    | Some f \<Rightarrow> map_option (\<lambda>s. set_mount i ((g_mount s ! i)\<lparr>m_fs := None\<rparr>) s)
                                 (fs_disc f (mount_handle m) st)) of
                None \<Rightarrow> None
              | Some st1 \<Rightarrow>
                  let st2 = (case m_cbd (g_mount st1 ! i) of
                               None \<Rightarrow> st1
                             | Some c \<Rightarrow> set_mount i ((g_mount st1 ! i)\<lparr>m_cbd := None\<rparr>) (drop_cache c st1));
                      st3 = set_mount i ((g_mount st2 ! i)\<lparr>m_bd := None\<rparr>) st2
                  in Some (if g_cb st3 \<noteq> None then set_event BDM_EVENT_CB_UMOUNT st3 else st3))"

definition bdm_disconnect_bd :: "'w fs_disconnector \<Rightarrow> bdref \<Rightarrow> 'w bdm \<Rightarrow> 'w bdm option" where
  "bdm_disconnect_bd fs_disc b = for_each (bdm_disconnect_slot fs_disc b) [0..<MAX_CONNECTIONS]"

definition bdm_connect_fs :: "fsref \<Rightarrow> 'w bdm \<Rightarrow> 'w bdm" where
  "bdm_connect_fs f st =
     set_event BDM_EVENT_MOUNT
       (case first_index (\<lambda>x. x = None) (g_fs st) of
          None \<Rightarrow> st | Some i \<Rightarrow> st\<lparr>g_fs := (g_fs st)[i := Some f]\<rparr>)"

definition bdm_disconnect_fs :: "fsref \<Rightarrow> 'w bdm \<Rightarrow> 'w bdm" where
  "bdm_disconnect_fs f st =
     (let hit = (\<lambda>m. m_fs m = Some f);
          st1 = st\<lparr>g_mount := map (\<lambda>m. if hit m then m\<lparr>m_fs := None\<rparr> else m) (g_mount st)\<rparr>;
          st2 = (if (\<exists>m \<in> set (g_mount st). hit m) \<and> g_cb st \<noteq> None
                 then set_event BDM_EVENT_CB_UMOUNT st1 else st1)
      in case first_index (\<lambda>x. x = Some f) (g_fs st2) of
           None \<Rightarrow> st2 | Some i \<Rightarrow> st2\<lparr>g_fs := (g_fs st2)[i := None]\<rparr>)"

definition bdm_get_bd :: "nat \<Rightarrow> 'w bdm \<Rightarrow> bdref option list" where
  "bdm_get_bd count st = map m_bd (take count (g_mount st))"

text \<open>\<open>bdm_try_mount\<close> on slot \<open>k\<close>: the file systems in table order until one accepts.\<close>

fun bdm_try_fs :: "'w fs_connector \<Rightarrow> nat \<Rightarrow> nat list \<Rightarrow> 'w bdm \<Rightarrow> 'w bdm" where
  "bdm_try_fs fs_conn k [] st = st"
| "bdm_try_fs fs_conn k (i # is) st =
     (case g_fs st ! i of
        None \<Rightarrow> bdm_try_fs fs_conn k is st
      | Some f \<Rightarrow>
          let (r, st1) = fs_conn f (mount_handle (g_mount st ! k)) st
          in if r = 0
             then let st2 = set_mount k ((g_mount st1 ! k)\<lparr>m_fs := g_fs st1 ! i\<rparr>) st1
                  in if g_cb st2 \<noteq> None then set_event BDM_EVENT_CB_MOUNT st2 else st2
             else bdm_try_fs fs_conn k is st1)"

definition bdm_try_mount :: "'w fs_connector \<Rightarrow> nat \<Rightarrow> 'w bdm \<Rightarrow> 'w bdm" where
  "bdm_try_mount fs_conn k st = bdm_try_fs fs_conn k [0..<MAX_CONNECTIONS] st"

text \<open>The three parts of an iteration of \<open>bdm_thread\<close> after \<open>WaitEventFlag\<close> returned \<open>bits\<close>.\<close>

definition bdm_filter_slot :: "'w fs_disconnector \<Rightarrow> nat \<Rightarrow> 'w bdm \<Rightarrow> 'w bdm option" where
  "bdm_filter_slot fs_disc i st =
     (case m_bd (g_mount st ! i) of
        None \<Rightarrow> Some st
      | Some b \<Rightarrow> if not_ata (bd_of st b) then bdm_disconnect_bd fs_disc b st else Some st)"

definition bdm_thread_filter :: "'w fs_disconnector \<Rightarrow> 'w bdm \<Rightarrow> 'w bdm option" where
  "bdm_thread_filter fs_disc st =
     map_option (\<lambda>s. s\<lparr>filter_bits := filter_bits s OR 1\<rparr>)
       (if g_ata_only st then for_each (bdm_filter_slot fs_disc) [0..<MAX_CONNECTIONS] st else Some st)"

definition bdm_mount_slot :: "'w fs_connector \<Rightarrow> nat \<Rightarrow> 'w bdm \<Rightarrow> 'w bdm" where
  "bdm_mount_slot fs_conn i st =
     (if m_bd (g_mount st ! i) \<noteq> None \<and> m_fs (g_mount st ! i) = None
      then bdm_try_mount fs_conn i st else st)"

definition bdm_thread_mount :: "'w fs_connector \<Rightarrow> 'w bdm \<Rightarrow> 'w bdm" where
  "bdm_thread_mount fs_conn st = foldl (\<lambda>s i. bdm_mount_slot fs_conn i s) st [0..<MAX_CONNECTIONS]"

definition bdm_call_cb :: "int \<Rightarrow> 'w bdm \<Rightarrow> 'w bdm" where
  "bdm_call_cb ev st = (case g_cb st of None \<Rightarrow> st | Some cb \<Rightarrow> st\<lparr>cb_log := cb_log st @ [(cb, ev)]\<rparr>)"

definition bdm_thread_body :: "'w fs_connector \<Rightarrow> 'w fs_disconnector \<Rightarrow> u32 \<Rightarrow> 'w bdm \<Rightarrow> 'w bdm option" where
  "bdm_thread_body fs_conn fs_disc bits st =
     map_option (\<lambda>st1.
       let st2 = (if bits AND BDM_EVENT_MOUNT \<noteq> 0 then bdm_thread_mount fs_conn st1 else st1);
           st3 = (if bits AND BDM_EVENT_CB_MOUNT \<noteq> 0 then bdm_call_cb 1 st2 else st2)
       in if bits AND BDM_EVENT_CB_UMOUNT \<noteq> 0 then bdm_call_cb 0 st3 else st3)
     (if bits AND BDM_EVENT_FILTER \<noteq> 0 then bdm_thread_filter fs_disc st else Some st)"

text \<open>\<open>WaitEventFlag(..., WEF_OR | WEF_CLEAR, ...)\<close>: with no bit set the thread keeps waiting;
  otherwise the bits are returned and cleared and the body runs.\<close>

definition bdm_thread :: "'w fs_connector \<Rightarrow> 'w fs_disconnector \<Rightarrow> 'w bdm \<Rightarrow> 'w bdm option" where
  "bdm_thread fs_conn fs_disc st =
     (if event_bits st AND 0x0f = 0 then Some st
      else bdm_thread_body fs_conn fs_disc (event_bits st) (st\<lparr>event_bits := 0\<rparr>))"

text \<open>\<open>bdm_init\<close>. The kernel calls return what the arguments say; the events are the
  successful creations and the deletions.\<close>

datatype kobj_event = Created int | Deleted int

definition bdm_init :: "int \<Rightarrow> int \<Rightarrow> int \<Rightarrow> int \<Rightarrow> 'w bdm \<Rightarrow> int \<times> kobj_event list \<times> 'w bdm" where
  "bdm_init ev1 ev2 th start st =
     (let st0 = st\<lparr>g_mount := replicate MAX_CONNECTIONS no_mount, g_fs := replicate MAX_CONNECTIONS None,
                   bdm_event := ev1, event_bits := 0\<rparr>
      in if ev1 < 0 then (ev1, [], st0)
         else let st1 = st0\<lparr>bdm_filter_event := ev2, filter_bits := 0\<rparr>
         in if ev2 < 0 then (ev2, [Created ev1, Deleted ev1], st1)
         else let st2 = st1\<lparr>bdm_thread_id := th\<rparr>
         in if th < 0 then (th, [Created ev1, Created ev2, Deleted ev2, Deleted ev1], st2)
         else if start < 0
              then (start, [Created ev1, Created ev2, Created th, Deleted th, Deleted ev2, Deleted ev1], st2)
              else (0, [Created ev1, Created ev2, Created th], st2))"

section \<open>The table invariant\<close>

text \<open>A free slot has no cache and no file system; every cache belongs to exactly one slot and
  every cache in a slot exists; a mounted partition device is in use.\<close>

definition slot_ok :: "bdm_mounts \<Rightarrow> bool" where
  "slot_ok m \<longleftrightarrow> (m_bd m = None \<longrightarrow> m_cbd m = None \<and> m_fs m = None)"

definition tables_ok :: "'w bdm \<Rightarrow> bool" where
  "tables_ok st \<longleftrightarrow> length (g_mount st) = 20 \<and> length (g_fs st) = 20 \<and> (\<forall>i < 20. slot_ok (g_mount st ! i))"

definition caches_ok :: "'w bdm \<Rightarrow> bool" where
  "caches_ok st \<longleftrightarrow> distinct (caches st) \<and> (\<forall>n \<in> set (caches st). n < next_cache st)
     \<and> (\<forall>i < 20. \<forall>c. m_cbd (g_mount st ! i) = Some c \<longrightarrow> (\<exists>n \<in> set (caches st). c = CacheBd n))
     \<and> (\<forall>i < 20. \<forall>j < 20. m_cbd (g_mount st ! i) = m_cbd (g_mount st ! j)
          \<and> m_cbd (g_mount st ! i) \<noteq> None \<longrightarrow> i = j)
     \<and> (\<forall>n \<in> set (caches st). \<exists>i < 20. m_cbd (g_mount st ! i) = Some (CacheBd n))"

definition connectable :: "'w bdm \<Rightarrow> bdref \<Rightarrow> bool" where
  "connectable st b \<longleftrightarrow> (case b of DevBd _ \<Rightarrow> True | PartBd p \<Rightarrow> p < 10 \<and> g_part st ! p \<noteq> None | CacheBd _ \<Rightarrow> False)"

lemma connectable_cong: "g_part st' = g_part st \<Longrightarrow> connectable st' b = connectable st b"
  by (simp add: connectable_def cong: bdref.case_cong)

definition parts_ok :: "'w bdm \<Rightarrow> bool" where
  "parts_ok st \<longleftrightarrow> length (g_part st) = 10 \<and>
     (\<forall>i < 20. \<forall>b. m_bd (g_mount st ! i) = Some b \<longrightarrow> connectable st b)"

definition bdm_wf :: "'w bdm \<Rightarrow> bool" where
  "bdm_wf st \<longleftrightarrow> tables_ok st \<and> caches_ok st \<and> parts_ok st"

text \<open>The invariant only looks at the devices and caches of the slots, the caches that exist
  and the partition entries in use.\<close>

lemma bdm_wf_cong:
  assumes wf: "bdm_wf st" and tab: "tables_ok st'"
    and g: "\<And>j. j < 20 \<Longrightarrow> m_cbd (g_mount st' ! j) = m_cbd (g_mount st ! j)"
      "\<And>j. j < 20 \<Longrightarrow> m_bd (g_mount st' ! j) = m_bd (g_mount st ! j)"
    and same: "caches st' = caches st" "next_cache st' = next_cache st" "g_part st' = g_part st"
  shows "bdm_wf st'"
proof -
  have co: "caches_ok st" and po: "parts_ok st" using wf by (simp_all add: bdm_wf_def)
  note co' = co [unfolded caches_ok_def]
  have inj: "i < 20 \<Longrightarrow> j < 20 \<Longrightarrow> m_cbd (g_mount st ! i) = m_cbd (g_mount st ! j) \<Longrightarrow>
      m_cbd (g_mount st ! i) \<noteq> None \<Longrightarrow> i = j" for i j using co' by blast
  have uniq: "i = j" if "i < 20" "j < 20" "m_cbd (g_mount st' ! i) = m_cbd (g_mount st' ! j)"
      "m_cbd (g_mount st' ! i) \<noteq> None" for i j
    by (rule inj) (use that g(1) [of i] g(1) [of j] in simp_all)
  have own: "i < 20 \<Longrightarrow> m_cbd (g_mount st ! i) = Some c \<Longrightarrow> \<exists>n \<in> set (caches st). c = CacheBd n" for i c
    using co' by blast
  have onto: "n \<in> set (caches st) \<Longrightarrow> \<exists>i < 20. m_cbd (g_mount st ! i) = Some (CacheBd n)" for n
    using co' by blast
  have "\<exists>n \<in> set (caches st'). c = CacheBd n" if "i < 20" "m_cbd (g_mount st' ! i) = Some c" for i c
    using own [of i c] that g(1) [of i] same(1) by simp
  moreover have "\<exists>i < 20. m_cbd (g_mount st' ! i) = Some (CacheBd n)" if n: "n \<in> set (caches st')" for n
  proof -
    obtain i where i: "i < 20" "m_cbd (g_mount st ! i) = Some (CacheBd n)" using onto [of n] same(1) n by auto
    then show ?thesis using g(1) [of i] by (intro exI [of _ i]) simp
  qed
  moreover have "distinct (caches st) \<and> (\<forall>n \<in> set (caches st). n < next_cache st)" using co' by blast
  then have "distinct (caches st')" "\<forall>n \<in> set (caches st'). n < next_cache st'"
    using same(1,2) by simp_all
  ultimately have "caches_ok st'" unfolding caches_ok_def using uniq by blast
  moreover have "parts_ok st'"
    using po g(2) same(3) by (auto simp: parts_ok_def connectable_cong [OF same(3)])
  ultimately show ?thesis using tab by (simp add: bdm_wf_def)
qed

text \<open>How disconnecting may change the state: slots are cleared, only those of devices in \<open>F\<close>,
  and partition entries are released.\<close>

definition slot_shrinks :: "bdref set \<Rightarrow> bdm_mounts \<Rightarrow> bdm_mounts \<Rightarrow> bool" where
  "slot_shrinks F m m' \<longleftrightarrow> m' = m \<or> (m' = no_mount \<and> (\<exists>b \<in> F. m_bd m = Some b))"

definition filter_pending :: "'w bdm \<Rightarrow> bool" where
  "filter_pending st \<longleftrightarrow> event_bits st AND BDM_EVENT_FILTER \<noteq> 0"

definition shrinks :: "bdref set \<Rightarrow> 'w bdm \<Rightarrow> 'w bdm \<Rightarrow> bool" where
  "shrinks F st st' \<longleftrightarrow>
     (\<forall>i < 20. slot_shrinks F (g_mount st ! i) (g_mount st' ! i))
     \<and> (\<forall>p < 10. g_part st' ! p = g_part st ! p \<or> g_part st' ! p = None)
     \<and> g_fs st' = g_fs st \<and> g_cb st' = g_cb st \<and> g_ata_only st' = g_ata_only st
     \<and> bdm_event st' = bdm_event st \<and> bdm_filter_event st' = bdm_filter_event st
     \<and> bd_of st' = bd_of st \<and> (filter_pending st \<longrightarrow> filter_pending st')"

lemma m_bd_no_mount [simp]: "m_bd no_mount = None" "m_cbd no_mount = None" "m_fs no_mount = None"
  by (simp_all add: no_mount_def)

lemma slot_ok_no_mount [simp]: "slot_ok no_mount"
  by (simp add: slot_ok_def)

lemma slot_shrinks_refl [simp]: "slot_shrinks F m m"
  by (simp add: slot_shrinks_def)

lemma slot_shrinks_trans: "slot_shrinks F a b \<Longrightarrow> slot_shrinks F b c \<Longrightarrow> slot_shrinks F a c"
  by (auto simp: slot_shrinks_def)

lemma shrinks_refl [simp]: "shrinks F st st"
  by (simp add: shrinks_def)

lemma slot_shrinks_mono: "F \<subseteq> G \<Longrightarrow> slot_shrinks F a b \<Longrightarrow> slot_shrinks G a b"
  by (auto simp: slot_shrinks_def)

lemma shrinks_mono: "F \<subseteq> G \<Longrightarrow> shrinks F a b \<Longrightarrow> shrinks G a b"
  by (simp add: shrinks_def slot_shrinks_mono)

lemma shrinks_trans:
  assumes "shrinks F a b" "shrinks F b c"
  shows "shrinks F a c"
proof -
  have "\<forall>i < 20. slot_shrinks F (g_mount a ! i) (g_mount c ! i)"
    using assms slot_shrinks_trans unfolding shrinks_def by blast
  moreover have "\<forall>p < 10. g_part c ! p = g_part a ! p \<or> g_part c ! p = None"
  proof (intro allI impI)
    fix p :: nat assume "p < 10"
    then have "g_part b ! p = g_part a ! p \<or> g_part b ! p = None" "g_part c ! p = g_part b ! p \<or> g_part c ! p = None"
      using assms by (simp_all add: shrinks_def)
    then show "g_part c ! p = g_part a ! p \<or> g_part c ! p = None" by auto
  qed
  ultimately show ?thesis using assms by (simp add: shrinks_def)
qed

lemma shrinks_slot: "shrinks F a b \<Longrightarrow> i < 20 \<Longrightarrow> m_bd (g_mount b ! i) = Some x \<Longrightarrow>
    g_mount b ! i = g_mount a ! i"
  by (auto simp: shrinks_def slot_shrinks_def)

lemma set_event_fields [simp]:
  "g_mount (set_event b st) = g_mount st" "g_fs (set_event b st) = g_fs st"
  "g_cb (set_event b st) = g_cb st" "g_ata_only (set_event b st) = g_ata_only st"
  "g_part (set_event b st) = g_part st" "bd_of (set_event b st) = bd_of st"
  "caches (set_event b st) = caches st" "next_cache (set_event b st) = next_cache st"
  "bdm_event (set_event b st) = bdm_event st" "bdm_filter_event (set_event b st) = bdm_filter_event st"
  "filter_bits (set_event b st) = filter_bits st" "world (set_event b st) = world st"
  by (simp_all add: set_event_def)

lemma set_mount_fields [simp]:
  "g_mount (set_mount i m st) = (g_mount st)[i := m]" "g_fs (set_mount i m st) = g_fs st"
  "g_cb (set_mount i m st) = g_cb st" "g_ata_only (set_mount i m st) = g_ata_only st"
  "g_part (set_mount i m st) = g_part st" "bd_of (set_mount i m st) = bd_of st"
  "caches (set_mount i m st) = caches st" "next_cache (set_mount i m st) = next_cache st"
  "cache_mem (set_mount i m st) = cache_mem st"
  "bdm_event (set_mount i m st) = bdm_event st" "bdm_filter_event (set_mount i m st) = bdm_filter_event st"
  by (simp_all add: set_mount_def)

lemma drop_cache_fields [simp]:
  "g_mount (drop_cache c st) = g_mount st" "g_fs (drop_cache c st) = g_fs st"
  "g_cb (drop_cache c st) = g_cb st" "g_ata_only (drop_cache c st) = g_ata_only st"
  "g_part (drop_cache c st) = g_part st" "bd_of (drop_cache c st) = bd_of st"
  "next_cache (drop_cache c st) = next_cache st"
  "bdm_event (drop_cache c st) = bdm_event st" "bdm_filter_event (drop_cache c st) = bdm_filter_event st"
  by (simp_all add: drop_cache_def split: bdref.split)

lemma bdm_wf_set_event [simp]: "bdm_wf (set_event b st) = bdm_wf st"
  by (simp add: bdm_wf_def tables_ok_def caches_ok_def parts_ok_def connectable_cong [of "set_event b st" st])

lemma filter_pending_bit: "filter_pending st \<longleftrightarrow> bit (event_bits st) 3"
  using and_exp_eq_0_iff_not_bit [of "event_bits st" 3] by (simp add: filter_pending_def)

lemma filter_pending_set [simp]:
  "filter_pending (set_mount i m st) = filter_pending st"
  "filter_pending (drop_cache c st) = filter_pending st"
  "filter_pending st \<Longrightarrow> filter_pending (set_event b st)"
  by (simp_all add: filter_pending_bit set_mount_def drop_cache_def set_event_def bit_simps split: bdref.split)

lemma shrinks_set_event [simp]: "shrinks F st st' \<Longrightarrow> shrinks F st (set_event b st')"
  by (simp add: shrinks_def)

subsection \<open>Clearing a slot\<close>

definition clear_slot :: "nat \<Rightarrow> 'w bdm \<Rightarrow> 'w bdm" where
  "clear_slot i st =
     set_mount i no_mount (case m_cbd (g_mount st ! i) of None \<Rightarrow> st | Some c \<Rightarrow> drop_cache c st)"

lemma clear_slot_fields [simp]:
  "g_mount (clear_slot i st) = (g_mount st)[i := no_mount]" "g_fs (clear_slot i st) = g_fs st"
  "g_cb (clear_slot i st) = g_cb st" "g_ata_only (clear_slot i st) = g_ata_only st"
  "g_part (clear_slot i st) = g_part st" "bd_of (clear_slot i st) = bd_of st"
  "next_cache (clear_slot i st) = next_cache st"
  "bdm_event (clear_slot i st) = bdm_event st" "bdm_filter_event (clear_slot i st) = bdm_filter_event st"
  "filter_pending (clear_slot i st) = filter_pending st"
  by (simp_all add: clear_slot_def split: option.split)

lemma set_mount_twice [simp]: "set_mount i m (set_mount i m' st) = set_mount i m st"
  by (simp add: set_mount_def)

lemma drop_cache_set_mount [simp]: "drop_cache c (set_mount i m st) = set_mount i m (drop_cache c st)"
  by (simp add: drop_cache_def set_mount_def split: bdref.split)

lemma mount_cleared:
  "m_fs m = None \<Longrightarrow> m\<lparr>m_cbd := None, m_bd := None\<rparr> = no_mount"
  "m_fs m = None \<Longrightarrow> m_cbd m = None \<Longrightarrow> m\<lparr>m_bd := None\<rparr> = no_mount"
  "m\<lparr>m_fs := None, m_cbd := None, m_bd := None\<rparr> = no_mount"
  "m_cbd m = None \<Longrightarrow> m\<lparr>m_fs := None, m_bd := None\<rparr> = no_mount"
  by (cases m; simp add: no_mount_def)+

text \<open>An iteration that finds the device calls the slot's file system, if any, and clears
  the slot of the state that call left.\<close>

lemma disconnect_slot_cases:
  assumes "bdm_disconnect_slot fs_disc b i st = Some st'" "i < length (g_mount st)"
    and "\<And>f s. m_fs (g_mount st ! i) = Some f \<Longrightarrow> fs_disc f (mount_handle (g_mount st ! i)) st = Some s \<Longrightarrow>
           i < length (g_mount s)"
  shows "(m_bd (g_mount st ! i) \<noteq> Some b \<and> st' = st)
       \<or> (m_bd (g_mount st ! i) = Some b \<and> (\<exists>s. (case m_fs (g_mount st ! i) of None \<Rightarrow> s = st
              | Some f \<Rightarrow> fs_disc f (mount_handle (g_mount st ! i)) st = Some s)
            \<and> st' = (if g_cb s \<noteq> None then set_event BDM_EVENT_CB_UMOUNT (clear_slot i s) else clear_slot i s)))"
proof (cases "m_bd (g_mount st ! i) = Some b")
  case False
  then show ?thesis using assms(1) by (simp add: bdm_disconnect_slot_def)
next
  case True
  show ?thesis
  proof (cases "m_fs (g_mount st ! i)")
    case None
    show ?thesis using assms(1,2) True None
      by (auto simp: bdm_disconnect_slot_def clear_slot_def mount_cleared split: option.splits)
  next
    case (Some f)
    then obtain s where s: "fs_disc f (mount_handle (g_mount st ! i)) st = Some s"
      using assms(1) True by (auto simp: bdm_disconnect_slot_def split: option.splits)
    show ?thesis using assms True Some s
      by (auto simp: bdm_disconnect_slot_def clear_slot_def mount_cleared split: option.splits)
  qed
qed

lemma disconnect_slot_returns:
  assumes "\<And>f. m_bd (g_mount st ! i) = Some b \<Longrightarrow> m_fs (g_mount st ! i) = Some f \<Longrightarrow>
      \<exists>s. fs_disc f (mount_handle (g_mount st ! i)) st = Some s"
  shows "\<exists>st'. bdm_disconnect_slot fs_disc b i st = Some st'"
  using assms by (cases "m_fs (g_mount st ! i)") (auto simp: bdm_disconnect_slot_def Let_def)

lemma caches_clear:
  assumes "bdm_wf st" "i < 20"
  shows "caches_ok (clear_slot i st)"
proof -
  have co: "caches_ok st" and len: "length (g_mount st) = 20"
    using assms(1) by (simp_all add: bdm_wf_def tables_ok_def)
  note co' = co [unfolded caches_ok_def]
  let ?g = "g_mount st"
  have g: "\<And>j. g_mount (clear_slot i st) ! j = (if j = i then no_mount else ?g ! j)"
    using len assms(2) by (simp add: nth_list_update)
  have cs: "set (caches (clear_slot i st)) = {n \<in> set (caches st). m_cbd (?g ! i) \<noteq> Some (CacheBd n)}"
    and dist: "distinct (caches (clear_slot i st))"
    using co' assms(2) by (auto simp: clear_slot_def drop_cache_def split: option.split bdref.split)
  have 1: "\<forall>j < 20. \<forall>c. m_cbd (g_mount (clear_slot i st) ! j) = Some c \<longrightarrow>
      (\<exists>n \<in> set (caches (clear_slot i st)). c = CacheBd n)"
  proof (intro allI impI)
    fix j c assume j: "j < 20" "m_cbd (g_mount (clear_slot i st) ! j) = Some c"
    then have ji: "j \<noteq> i" "m_cbd (?g ! j) = Some c" by (auto simp: g simp del: clear_slot_fields split: if_splits)
    then obtain n where "n \<in> set (caches st)" "c = CacheBd n" using co' j by blast
    moreover have "m_cbd (?g ! i) \<noteq> Some c" using co' ji j(1) assms(2) by (metis option.distinct(1))
    ultimately show "\<exists>n \<in> set (caches (clear_slot i st)). c = CacheBd n" by (auto simp: cs)
  qed
  have 2: "\<forall>j < 20. \<forall>k < 20. m_cbd (g_mount (clear_slot i st) ! j) = m_cbd (g_mount (clear_slot i st) ! k)
      \<and> m_cbd (g_mount (clear_slot i st) ! j) \<noteq> None \<longrightarrow> j = k"
  proof (intro allI impI, elim conjE)
    fix j k assume j: "j < 20" "k < 20"
      and eq: "m_cbd (g_mount (clear_slot i st) ! j) = m_cbd (g_mount (clear_slot i st) ! k)"
        "m_cbd (g_mount (clear_slot i st) ! j) \<noteq> None"
    have "j \<noteq> i" "k \<noteq> i" using eq by (auto simp: g simp del: clear_slot_fields)
    then have "m_cbd (?g ! j) = m_cbd (?g ! k) \<and> m_cbd (?g ! j) \<noteq> None"
      using eq by (simp add: g del: clear_slot_fields)
    then show "j = k" using co' j by blast
  qed
  have 3: "\<forall>n \<in> set (caches (clear_slot i st)). \<exists>j < 20. m_cbd (g_mount (clear_slot i st) ! j) = Some (CacheBd n)"
  proof
    fix n assume n: "n \<in> set (caches (clear_slot i st))"
    then obtain j where j: "j < 20" "m_cbd (?g ! j) = Some (CacheBd n)" using co' unfolding cs by blast
    moreover have "j \<noteq> i" using n j(2) unfolding cs by auto
    ultimately have "m_cbd (g_mount (clear_slot i st) ! j) = Some (CacheBd n)"
      by (simp add: g del: clear_slot_fields)
    then show "\<exists>j < 20. m_cbd (g_mount (clear_slot i st) ! j) = Some (CacheBd n)" using j(1) by blast
  qed
  have 4: "\<forall>n \<in> set (caches (clear_slot i st)). n < next_cache (clear_slot i st)"
    using co' unfolding cs by simp
  show ?thesis unfolding caches_ok_def using 1 2 3 4 dist by blast
qed

lemma wf_clear:
  assumes "bdm_wf st" "i < 20"
  shows "bdm_wf (clear_slot i st)"
  using assms caches_clear [OF assms]
  by (auto simp: bdm_wf_def tables_ok_def parts_ok_def nth_list_update connectable_cong [of "clear_slot i st" st])

lemma shrinks_clear:
  assumes "length (g_mount st) = 20" "i < 20" "m_bd (g_mount st ! i) = Some b \<or> g_mount st ! i = no_mount"
  shows "shrinks {b} st (clear_slot i st)"
  using assms by (auto simp: shrinks_def slot_shrinks_def nth_list_update)

subsection \<open>Connecting\<close>

text \<open>How connecting may change the state: occupied slots and the devices in them stay, a slot
  that becomes occupied has no file system yet and respects the ata-only mode.\<close>

definition slot_grows :: "'w bdm \<Rightarrow> 'w bdm \<Rightarrow> nat \<Rightarrow> bool" where
  "slot_grows st st' i \<longleftrightarrow>
     (case m_bd (g_mount st ! i) of
        Some b \<Rightarrow> g_mount st' ! i = g_mount st ! i \<and> bd_of st' b = bd_of st b
      | None \<Rightarrow> m_fs (g_mount st' ! i) = None \<and>
          (\<forall>b. m_bd (g_mount st' ! i) = Some b \<longrightarrow> g_ata_only st \<longrightarrow> \<not> not_ata (bd_of st' b)))"

definition grows :: "'w bdm \<Rightarrow> 'w bdm \<Rightarrow> bool" where
  "grows st st' \<longleftrightarrow> (\<forall>i < 20. slot_grows st st' i) \<and> g_fs st' = g_fs st \<and> g_cb st' = g_cb st
     \<and> g_ata_only st' = g_ata_only st \<and> bdm_event st' = bdm_event st
     \<and> bdm_filter_event st' = bdm_filter_event st"

lemma slot_grows_set_event [simp]: "slot_grows st (set_event b st') i = slot_grows st st' i"
  by (simp add: slot_grows_def cong: option.case_cong)

lemma grows_set_event [simp]: "grows st (set_event b st') = grows st st'"
  by (simp add: grows_def)

lemma grows_refl: "bdm_wf st \<Longrightarrow> grows st st"
  by (auto simp: grows_def slot_grows_def bdm_wf_def tables_ok_def slot_ok_def split: option.split)

lemma slot_grows_trans:
  assumes "slot_grows a b i" "slot_grows b c i" "g_ata_only b = g_ata_only a"
  shows "slot_grows a c i"
  using assms by (auto simp: slot_grows_def split: option.splits)

lemma grows_trans: "grows a b \<Longrightarrow> grows b c \<Longrightarrow> grows a c"
  by (simp add: grows_def) (metis slot_grows_trans)

lemma bd_copy: "\<lparr>bd_name = bd_name bd, devNr = devNr bd, parNr = parNr bd, parId = parId bd,
    sectorSize = sectorSize bd, sectorOffset = sectorOffset bd, sectorCount = sectorCount bd\<rparr> = bd"
  by (cases bd) simp

lemma new_cache_cases:
  assumes "new_cache b st = (c, st')"
  shows "(c = None \<and> st' = st\<lparr>cache_mem := tl (cache_mem st)\<rparr>)
       \<or> (c = Some (CacheBd (next_cache st)) \<and>
          st' = st\<lparr>cache_mem := tl (cache_mem st), caches := next_cache st # caches st,
                   next_cache := Suc (next_cache st),
                   bd_of := (bd_of st)(CacheBd (next_cache st) := bd_of st b)\<rparr>)"
  using assms by (auto simp: new_cache_def bd_cache_create_def Let_def bd_copy split: option.splits if_splits)

text \<open>The table after a connection: the first free slot, if there is one and the device passes
  the filter.\<close>

lemma connect_bd_cases:
  obtains "bdm_connect_bd b st = st"
      "(g_ata_only st \<and> not_ata (bd_of st b)) \<or> (\<forall>m \<in> set (g_mount st). m_bd m \<noteq> None)"
  | i c st2 where "i < length (g_mount st)" "m_bd (g_mount st ! i) = None"
      "\<forall>j < i. m_bd (g_mount st ! j) \<noteq> None" "\<not> (g_ata_only st \<and> not_ata (bd_of st b))"
      "(c, st2) = (if parNr (bd_of st b) = 0 then new_cache b st else (None, st))"
      "bdm_connect_bd b st = set_event BDM_EVENT_MOUNT
         (set_mount i ((g_mount st ! i)\<lparr>m_bd := Some b, m_cbd := c\<rparr>) st2)"
proof (cases "g_ata_only st \<and> not_ata (bd_of st b)")
  case True
  then show ?thesis using that(1) by (simp add: bdm_connect_bd_def)
next
  case ok: False
  show ?thesis
  proof (cases "first_index (\<lambda>m. m_bd m = None) (g_mount st)")
    case None
    then have "bdm_connect_bd b st = st" using ok by (auto simp: bdm_connect_bd_def)
    then show ?thesis using None that(1) unfolding first_index_None by blast
  next
    case (Some i)
    obtain c st2 where n: "(c, st2) = (if parNr (bd_of st b) = 0 then new_cache b st else (None, st))"
      by (metis surj_pair)
    have swap: "new_cache b (set_mount i m st) = (fst (new_cache b st), set_mount i m (snd (new_cache b st)))" for m
      by (simp add: new_cache_def bd_cache_create_def set_mount_def Let_def split: option.split)
    have "bdm_connect_bd b st = set_event BDM_EVENT_MOUNT
         (set_mount i ((g_mount st ! i)\<lparr>m_bd := Some b, m_cbd := c\<rparr>) st2)"
      using ok Some n by (cases "new_cache b st") (auto simp: bdm_connect_bd_def Let_def swap split: if_splits)
    then show ?thesis using that(2) Some n ok unfolding first_index_Some by blast
  qed
qed

lemma connect_bd_filter_pending:
  assumes "filter_pending st"
  shows "filter_pending (bdm_connect_bd b st)"
proof (rule connect_bd_cases [of b st])
  fix i c st2
  assume "(c, st2) = (if parNr (bd_of st b) = 0 then new_cache b st else (None, st))"
    and eq: "bdm_connect_bd b st = set_event BDM_EVENT_MOUNT
         (set_mount i ((g_mount st ! i)\<lparr>m_bd := Some b, m_cbd := c\<rparr>) st2)"
  then have "event_bits st2 = event_bits st" using new_cache_cases [of b st c st2] by (auto split: if_splits)
  then show ?thesis using assms unfolding eq by (simp add: filter_pending_def [of st2] filter_pending_def [of st])
qed (use assms in simp)

lemma caches_occupy:
  assumes "bdm_wf st" "i < 20" "m_bd (g_mount st ! i) = None" "g_mount st' = (g_mount st)[i := m]"
    and "(m_cbd m = None \<and> caches st' = caches st \<and> next_cache st' = next_cache st)
       \<or> (m_cbd m = Some (CacheBd (next_cache st)) \<and> caches st' = next_cache st # caches st
          \<and> next_cache st' = Suc (next_cache st))"
  shows "caches_ok st'"
proof -
  have co: "caches_ok st" and len: "length (g_mount st) = 20"
    and old: "m_cbd (g_mount st ! i) = None"
    using assms(1-3) by (auto simp: bdm_wf_def tables_ok_def slot_ok_def)
  note co' = co [unfolded caches_ok_def]
  let ?g = "g_mount st"
  have g: "\<And>j. g_mount st' ! j = (if j = i then m else ?g ! j)"
    using len assms(2,4) by (simp add: nth_list_update)
  have fresh: "next_cache st \<notin> set (caches st)" using co' by blast
  have own: "\<And>j n. j < 20 \<Longrightarrow> m_cbd (?g ! j) = Some (CacheBd n) \<Longrightarrow> n \<in> set (caches st)"
    using co' by blast
  have 1: "distinct (caches st')" "\<forall>n \<in> set (caches st'). n < next_cache st'"
    using co' assms(5) fresh by (auto simp: less_Suc_eq)
  have 2: "\<forall>j < 20. \<forall>c. m_cbd (g_mount st' ! j) = Some c \<longrightarrow> (\<exists>n \<in> set (caches st'). c = CacheBd n)"
    using co' assms(5) unfolding g by (auto split: if_splits)
  have 3: "\<forall>n \<in> set (caches st'). \<exists>j < 20. m_cbd (g_mount st' ! j) = Some (CacheBd n)"
  proof
    fix n assume n: "n \<in> set (caches st')"
    show "\<exists>j < 20. m_cbd (g_mount st' ! j) = Some (CacheBd n)"
    proof (cases "n \<in> set (caches st)")
      case True
      then obtain j where "j < 20" "m_cbd (?g ! j) = Some (CacheBd n)" using co' by blast
      moreover have "j \<noteq> i" using calculation old by auto
      ultimately show ?thesis unfolding g by auto
    next
      case False
      then show ?thesis using n assms(2,5) unfolding g by auto
    qed
  qed
  have 4: "\<forall>j < 20. \<forall>k < 20. m_cbd (g_mount st' ! j) = m_cbd (g_mount st' ! k)
      \<and> m_cbd (g_mount st' ! j) \<noteq> None \<longrightarrow> j = k"
  proof (intro allI impI, elim conjE)
    fix j k assume j: "j < 20" "k < 20" and eq: "m_cbd (g_mount st' ! j) = m_cbd (g_mount st' ! k)"
      and nn: "m_cbd (g_mount st' ! j) \<noteq> None"
    have ne: "l \<noteq> i \<Longrightarrow> l < 20 \<Longrightarrow> m_cbd m \<noteq> None \<Longrightarrow> m_cbd (?g ! l) \<noteq> m_cbd m" for l
      using assms(5) own [of l "next_cache st"] fresh by auto
    show "j = k"
    proof (cases "j = i \<or> k = i")
      case True
      then show ?thesis using ne [of j] ne [of k] j eq nn unfolding g by (metis (full_types))
    next
      case False
      then have "m_cbd (?g ! j) = m_cbd (?g ! k) \<and> m_cbd (?g ! j) \<noteq> None" using eq nn unfolding g by simp
      then show ?thesis using co' j by blast
    qed
  qed
  show ?thesis unfolding caches_ok_def using 1 2 3 4 by blast
qed

lemma connect_bd_wf:
  assumes "bdm_wf st" "connectable st b"
  shows "bdm_wf (bdm_connect_bd b st) \<and> grows st (bdm_connect_bd b st)
       \<and> g_part (bdm_connect_bd b st) = g_part st"
proof (rule connect_bd_cases [of b st])
  fix i c st2
  assume i: "i < length (g_mount st)" "m_bd (g_mount st ! i) = None"
    and flt: "\<not> (g_ata_only st \<and> not_ata (bd_of st b))"
    and c: "(c, st2) = (if parNr (bd_of st b) = 0 then new_cache b st else (None, st))"
    and eq: "bdm_connect_bd b st = set_event BDM_EVENT_MOUNT
         (set_mount i ((g_mount st ! i)\<lparr>m_bd := Some b, m_cbd := c\<rparr>) st2)"
  let ?m = "(g_mount st ! i)\<lparr>m_bd := Some b, m_cbd := c\<rparr>"
  let ?st = "set_mount i ?m st2"
  have len: "length (g_mount st) = 20" "length (g_fs st) = 20" "\<forall>j < 20. slot_ok (g_mount st ! j)"
    and pok: "parts_ok st" and cok: "caches_ok st"
    using assms(1) by (auto simp: bdm_wf_def tables_ok_def)
  have fs: "m_fs (g_mount st ! i) = None" "m_cbd (g_mount st ! i) = None"
    using i len by (auto simp: slot_ok_def)
  have two: "(c = None \<and> caches st2 = caches st \<and> next_cache st2 = next_cache st \<and> bd_of st2 = bd_of st)
      \<or> (c = Some (CacheBd (next_cache st)) \<and> caches st2 = next_cache st # caches st
         \<and> next_cache st2 = Suc (next_cache st)
         \<and> bd_of st2 = (bd_of st)(CacheBd (next_cache st) := bd_of st b))"
    and same: "g_mount st2 = g_mount st" "g_fs st2 = g_fs st" "g_cb st2 = g_cb st" "g_part st2 = g_part st"
      "g_ata_only st2 = g_ata_only st" "bdm_event st2 = bdm_event st" "bdm_filter_event st2 = bdm_filter_event st"
    using c new_cache_cases [of b st c st2] by (auto split: if_splits)
  have dev: "connectable st x \<Longrightarrow> bd_of st2 x = bd_of st x" for x
    using two by (auto simp: connectable_def)
  have "caches_ok ?st" using two i len by (intro caches_occupy [OF assms(1)]) (auto simp: same)
  moreover have "tables_ok ?st"
    using len i by (auto simp: tables_ok_def same nth_list_update slot_ok_def)
  moreover have "parts_ok ?st"
    using pok assms(2) len i
    by (auto simp: parts_ok_def same nth_list_update connectable_cong [of ?st st])
  moreover have "slot_grows st ?st j" if "j < 20" for j
    using that pok flt fs i len dev dev [OF assms(2)]
    by (cases "j = i") (auto simp: slot_grows_def same nth_list_update parts_ok_def slot_ok_def split: option.split)
  ultimately have "bdm_wf ?st \<and> grows st ?st" by (simp add: bdm_wf_def grows_def same)
  then show ?thesis unfolding eq by (simp add: same)
qed (use assms grows_refl in \<open>auto\<close>)

text \<open>The effect of the thread on the table: slots keep their device and cache, a mounted
  slot keeps its file system.\<close>

definition slot_is_ata :: "'w bdm \<Rightarrow> nat \<Rightarrow> bool" where
  "slot_is_ata st i \<longleftrightarrow> (\<forall>b. m_bd (g_mount st ! i) = Some b \<longrightarrow> \<not> not_ata (bd_of st b))"

definition slot_advances :: "'w bdm \<Rightarrow> 'w bdm \<Rightarrow> nat \<Rightarrow> bool" where
  "slot_advances st st' i \<longleftrightarrow>
     (case m_bd (g_mount st ! i) of
        Some b \<Rightarrow> m_bd (g_mount st' ! i) = Some b \<and> m_cbd (g_mount st' ! i) = m_cbd (g_mount st ! i)
          \<and> (m_fs (g_mount st ! i) \<noteq> None \<longrightarrow> m_fs (g_mount st' ! i) = m_fs (g_mount st ! i))
          \<and> bd_of st' b = bd_of st b
      | None \<Rightarrow> (\<forall>b. m_bd (g_mount st' ! i) = Some b \<longrightarrow> g_ata_only st \<longrightarrow> \<not> not_ata (bd_of st' b)))"

definition advances :: "'w bdm \<Rightarrow> 'w bdm \<Rightarrow> bool" where
  "advances st st' \<longleftrightarrow> (\<forall>i < 20. slot_advances st st' i) \<and> g_fs st' = g_fs st \<and> g_cb st' = g_cb st
     \<and> g_ata_only st' = g_ata_only st \<and> bdm_event st' = bdm_event st
     \<and> bdm_filter_event st' = bdm_filter_event st"

lemma advances_refl [simp]: "advances st st"
  by (auto simp: advances_def slot_advances_def split: option.split)

lemma slot_advances_trans:
  assumes "slot_advances a b i" "slot_advances b c i" "g_ata_only b = g_ata_only a"
  shows "slot_advances a c i"
  using assms by (auto simp: slot_advances_def split: option.splits)

lemma advances_trans: "advances a b \<Longrightarrow> advances b c \<Longrightarrow> advances a c"
  by (simp add: advances_def) (metis slot_advances_trans)

lemma grows_advances: "grows st st' \<Longrightarrow> advances st st'"
  by (auto simp: grows_def advances_def slot_grows_def slot_advances_def split: option.splits)

lemma advances_slot:
  assumes "advances a b" "k < 20" "m_bd (g_mount a ! k) = Some x"
  shows "m_bd (g_mount b ! k) = Some x" "m_cbd (g_mount b ! k) = m_cbd (g_mount a ! k)"
    "m_fs (g_mount b ! k) = None \<Longrightarrow> m_fs (g_mount a ! k) = None" "bd_of b x = bd_of a x"
proof -
  have "slot_advances a b k" using assms by (simp add: advances_def)
  then show "m_bd (g_mount b ! k) = Some x" "m_cbd (g_mount b ! k) = m_cbd (g_mount a ! k)"
    "m_fs (g_mount b ! k) = None \<Longrightarrow> m_fs (g_mount a ! k) = None" "bd_of b x = bd_of a x"
    using assms(3) by (auto simp: slot_advances_def)
qed

lemma advances_set_event [simp]: "advances st (set_event b st') = advances st st'"
  by (simp add: advances_def slot_advances_def cong: option.case_cong)

lemma advances_set_fs:
  assumes "grows st s" "k < 20" "length (g_mount s) = 20" "m_bd (g_mount st ! k) \<noteq> None" "m_fs (g_mount st ! k) = None"
  shows "advances st (set_mount k ((g_mount s ! k)\<lparr>m_fs := f\<rparr>) s)"
  using assms
  by (auto simp: grows_def advances_def slot_grows_def slot_advances_def nth_list_update split: option.splits)

lemma wf_set_fs:
  assumes "bdm_wf st" "k < 20" "m_bd (g_mount st ! k) \<noteq> None"
  shows "bdm_wf (set_mount k ((g_mount st ! k)\<lparr>m_fs := f\<rparr>) st)"
proof (rule bdm_wf_cong [OF assms(1)])
  show "tables_ok (set_mount k ((g_mount st ! k)\<lparr>m_fs := f\<rparr>) st)"
    using assms by (auto simp: bdm_wf_def tables_ok_def nth_list_update slot_ok_def)
qed (use assms in \<open>auto simp: bdm_wf_def tables_ok_def nth_list_update\<close>)

section \<open>The manager as a transition system\<close>

text \<open>The calls the other modules make and the iterations of the thread, in any order. A driver
  fills in a \<open>struct block_device\<close> only while it is not connected.\<close>

inductive bdm_step :: "'w fs_connector \<Rightarrow> 'w fs_disconnector \<Rightarrow> 'w bdm \<Rightarrow> 'w bdm \<Rightarrow> bool"
  for fs_conn fs_disc where
  describe: "\<forall>m \<in> set (g_mount st). m_bd m \<noteq> Some (DevBd n) \<Longrightarrow>
     bdm_step fs_conn fs_disc st (st\<lparr>bd_of := (bd_of st)(DevBd n := d)\<rparr>)"
| connect: "bdm_step fs_conn fs_disc st (bdm_connect_bd (DevBd n) st)"
| disconnect: "bdm_disconnect_bd fs_disc (DevBd n) st = Some st' \<Longrightarrow> bdm_step fs_conn fs_disc st st'"
| connect_fs: "bdm_step fs_conn fs_disc st (bdm_connect_fs f st)"
| disconnect_fs: "bdm_step fs_conn fs_disc st (bdm_disconnect_fs f st)"
| callback: "bdm_step fs_conn fs_disc st (bdm_RegisterCallback cb st)"
| ata_only: "bdm_step fs_conn fs_disc st (snd (bdm_set_ata_only e st))"
| resume: "bdm_set_ata_only_resume st = Some st' \<Longrightarrow> bdm_step fs_conn fs_disc st st'"
| thread: "bdm_thread fs_conn fs_disc st = Some st' \<Longrightarrow> bdm_step fs_conn fs_disc st st'"

inductive_cases bdm_stepE: "bdm_step fs_conn fs_disc st st'"

text \<open>The state after a successful \<open>bdm_init\<close>, and the ata-only promise: in that mode every
  connected device is an \<open>ata\<close> device or the filter is still to run.\<close>

definition bdm_started :: "'w bdm \<Rightarrow> bool" where
  "bdm_started st \<longleftrightarrow> 0 \<le> bdm_event st \<and> 0 \<le> bdm_filter_event st"

definition ata_promise :: "'w bdm \<Rightarrow> bool" where
  "ata_promise st \<longleftrightarrow> (g_ata_only st \<longrightarrow> filter_pending st \<or> (\<forall>i < 20. slot_is_ata st i))"

text \<open>Operations that leave the devices of the slots alone.\<close>

definition quiet :: "'w bdm \<Rightarrow> 'w bdm \<Rightarrow> bool" where
  "quiet st st' \<longleftrightarrow> (\<forall>i < 20. m_bd (g_mount st' ! i) = m_bd (g_mount st ! i)) \<and> bd_of st' = bd_of st
     \<and> g_ata_only st' = g_ata_only st \<and> bdm_event st' = bdm_event st
     \<and> bdm_filter_event st' = bdm_filter_event st \<and> (filter_pending st \<longrightarrow> filter_pending st')"

lemma quiet_promise: "quiet st st' \<Longrightarrow> bdm_started st \<Longrightarrow> ata_promise st \<Longrightarrow> bdm_started st' \<and> ata_promise st'"
  by (auto simp: quiet_def bdm_started_def ata_promise_def slot_is_ata_def)

text \<open>Changes of fields the invariant does not look at.\<close>

lemma wf_irrelevant [simp]:
  "bdm_wf (st\<lparr>event_bits := x\<rparr>) = bdm_wf st" "bdm_wf (st\<lparr>filter_bits := x\<rparr>) = bdm_wf st"
  "bdm_wf (st\<lparr>g_ata_only := e\<rparr>) = bdm_wf st" "bdm_wf (st\<lparr>g_cb := cb\<rparr>) = bdm_wf st"
  "bdm_wf (st\<lparr>cb_log := l\<rparr>) = bdm_wf st" "bdm_wf (st\<lparr>bd_of := d\<rparr>) = bdm_wf st"
  by (simp_all add: bdm_wf_def tables_ok_def caches_ok_def parts_ok_def connectable_def cong: bdref.case_cong)

lemma wf_set_g_fs:
  assumes "bdm_wf st" "length xs = 20"
  shows "bdm_wf (st\<lparr>g_fs := xs\<rparr>)"
  by (rule bdm_wf_cong [OF assms(1)]) (use assms in \<open>auto simp: bdm_wf_def tables_ok_def\<close>)

lemma wf_connect_fs: "bdm_wf st \<Longrightarrow> bdm_wf (bdm_connect_fs f st)"
  by (auto simp: bdm_connect_fs_def bdm_wf_def [of st] tables_ok_def [of st] intro!: wf_set_g_fs split: option.split)

lemma quiet_connect_fs: "quiet st (bdm_connect_fs f st)"
  by (auto simp: quiet_def bdm_connect_fs_def filter_pending_bit set_event_def bit_simps split: option.split)

lemma wf_disconnect_fs:
  assumes "bdm_wf st"
  shows "bdm_wf (bdm_disconnect_fs f st)"
proof -
  define s where "s = st\<lparr>g_mount := map (\<lambda>m. if m_fs m = Some f then m\<lparr>m_fs := None\<rparr> else m) (g_mount st)\<rparr>"
  have ws: "bdm_wf s"
    by (rule bdm_wf_cong [OF assms]) (use assms in \<open>auto simp: s_def bdm_wf_def tables_ok_def slot_ok_def\<close>)
  then have "length (g_fs s) = 20" by (simp add: bdm_wf_def tables_ok_def)
  then show ?thesis using ws
    by (auto simp: bdm_disconnect_fs_def Let_def s_def [symmetric] intro!: wf_set_g_fs split: option.split)
qed

section \<open>The file-system interface\<close>

text \<open>What the manager relies on when it calls a file system. \<open>disconnect_bd\<close> may release
  partitions and clear the slots of devices in \<open>fam st h\<close>, the devices made on top of \<open>h\<close>;
  \<open>connect_bd\<close> may connect new devices.\<close>

locale file_systems =
  fixes fs_conn :: "'w fs_connector"
    and fs_disc :: "'w fs_disconnector"
    and fam :: "'w bdm \<Rightarrow> bdref \<Rightarrow> bdref set"
  assumes disc_ok: "bdm_wf st \<Longrightarrow> fs_disc f h st = Some st' \<Longrightarrow> bdm_wf st' \<and> shrinks (fam st h) st st'"
    and fam_mono: "shrinks F st st' \<Longrightarrow> bdm_wf st \<Longrightarrow> bdm_wf st' \<Longrightarrow> fam st' h \<subseteq> fam st h"
    and conn_ok: "bdm_wf st \<Longrightarrow> fs_conn f h st = (r, st') \<Longrightarrow> bdm_wf st' \<and> grows st st'"
begin

text \<open>A device and everything made on top of it.\<close>

definition family :: "'w bdm \<Rightarrow> bdref \<Rightarrow> bdref set" where
  "family st b = insert b (\<Union>i \<in> {i. i < 20 \<and> m_bd (g_mount st ! i) = Some b}. fam st (mount_handle (g_mount st ! i)))"

lemma family_mono:
  assumes "shrinks F st st'" "bdm_wf st" "bdm_wf st'"
  shows "family st' b \<subseteq> family st b"
proof
  fix x assume "x \<in> family st' b"
  then consider "x = b" | i where "i < 20" "m_bd (g_mount st' ! i) = Some b" "x \<in> fam st' (mount_handle (g_mount st' ! i))"
    unfolding family_def by auto
  then show "x \<in> family st b"
  proof cases
    case 2
    then have "g_mount st' ! i = g_mount st ! i" using assms(1) shrinks_slot by blast
    then show ?thesis using 2 fam_mono [OF assms] unfolding family_def by auto
  qed (simp add: family_def)
qed

lemma disconnect_slot_ok:
  assumes wf: "bdm_wf st" and i: "i < 20" and run: "bdm_disconnect_slot fs_disc b i st = Some st'"
  shows "bdm_wf st' \<and> shrinks (family st b) st st' \<and> m_bd (g_mount st' ! i) \<noteq> Some b"
proof -
  have len: "length (g_mount st) = 20" using wf by (simp add: bdm_wf_def tables_ok_def)
  have lens: "\<And>f h s. fs_disc f h st = Some s \<Longrightarrow> length (g_mount s) = 20"
    using disc_ok [OF wf] by (simp add: bdm_wf_def tables_ok_def)
  have ex: "m_bd (g_mount st ! i) \<noteq> Some b \<and> st' = st \<or>
      (m_bd (g_mount st ! i) = Some b \<and> (\<exists>s. (case m_fs (g_mount st ! i) of None \<Rightarrow> s = st
          | Some f \<Rightarrow> fs_disc f (mount_handle (g_mount st ! i)) st = Some s)
        \<and> st' = (if g_cb s \<noteq> None then set_event BDM_EVENT_CB_UMOUNT (clear_slot i s) else clear_slot i s)))"
    by (rule disconnect_slot_cases [OF run]) (use len lens i in auto)
  then show ?thesis
  proof (elim disjE conjE exE)
    fix s assume hit: "m_bd (g_mount st ! i) = Some b"
      and s: "case m_fs (g_mount st ! i) of None \<Rightarrow> s = st
          | Some f \<Rightarrow> fs_disc f (mount_handle (g_mount st ! i)) st = Some s"
      and st': "st' = (if g_cb s \<noteq> None then set_event BDM_EVENT_CB_UMOUNT (clear_slot i s) else clear_slot i s)"
    have sub: "fam st (mount_handle (g_mount st ! i)) \<subseteq> family st b" "{b} \<subseteq> family st b"
      using hit i by (auto simp: family_def)
    have one: "bdm_wf s \<and> shrinks (family st b) st s"
      using s disc_ok [OF wf] wf sub(1) by (auto split: option.splits intro: shrinks_mono)
    then have lens: "length (g_mount s) = 20" by (simp add: bdm_wf_def tables_ok_def)
    have "m_bd (g_mount s ! i) = Some b \<or> g_mount s ! i = no_mount"
      using one hit i unfolding shrinks_def slot_shrinks_def by auto
    then have "shrinks {b} s (clear_slot i s)" using shrinks_clear lens i by blast
    then have "shrinks (family st b) st (clear_slot i s)"
      using one sub(2) by (blast intro: shrinks_mono shrinks_trans)
    then show ?thesis using st' one wf_clear [of s i] i lens by simp
  qed (use wf in simp)
qed

lemma disconnect_bd_ok:
  assumes wf: "bdm_wf st" and run: "bdm_disconnect_bd fs_disc b st = Some st'"
  shows "bdm_wf st' \<and> shrinks (family st b) st st' \<and> (\<forall>i < 20. m_bd (g_mount st' ! i) \<noteq> Some b)"
proof -
  let ?R = "shrinks (family st b)" and ?I = "\<lambda>s. bdm_wf s \<and> family s b \<subseteq> family st b"
  note run' = run [unfolded bdm_disconnect_bd_def]
  have step: "?R x y \<and> ?I y \<and> m_bd (g_mount y ! i) \<noteq> Some b"
    if "i \<in> set [0..<20]" "?I x" "bdm_disconnect_slot fs_disc b i x = Some y" for i x y
    using disconnect_slot_ok [of x i b y] that family_mono [of "family x b" x y b] shrinks_mono
    by (auto 0 3)
  have keep: "m_bd (g_mount y ! i) \<noteq> Some b \<or> 20 \<le> i" if "?R x y" "m_bd (g_mount x ! i) \<noteq> Some b \<or> 20 \<le> i" for i x y
    using that shrinks_slot [of "family st b" x y i b] by (metis linorder_not_le)
  have "?R st st' \<and> ?I st'"
    by (rule for_each_rel [OF run', of ?R ?I]) (use shrinks_trans step wf in \<open>blast+\<close> | simp)+
  moreover have "\<forall>i \<in> set [0..<20]. m_bd (g_mount st' ! i) \<noteq> Some b \<or> 20 \<le> i"
    by (rule for_each_all [OF run', of ?R ?I "\<lambda>i s. m_bd (g_mount s ! i) \<noteq> Some b \<or> 20 \<le> i"])
       (use shrinks_trans step keep wf in \<open>blast+\<close> | simp)+
  ultimately show ?thesis by auto
qed

text \<open>Disconnecting returns if every call of a file system it may make does.\<close>

lemma disconnect_bd_returns:
  assumes "bdm_wf st" "P st" and closed: "\<And>F a b. P a \<Longrightarrow> shrinks F a b \<Longrightarrow> P b"
    and ret: "\<And>s j f. bdm_wf s \<Longrightarrow> P s \<Longrightarrow> j < 20 \<Longrightarrow> m_bd (g_mount s ! j) = Some b \<Longrightarrow>
      m_fs (g_mount s ! j) = Some f \<Longrightarrow> \<exists>s'. fs_disc f (mount_handle (g_mount s ! j)) s = Some s'"
  shows "\<exists>st'. bdm_disconnect_bd fs_disc b st = Some st'"
proof -
  have "\<exists>y. bdm_disconnect_slot fs_disc b i x = Some y \<and> bdm_wf y \<and> P y"
    if "i \<in> set [0..<20]" "bdm_wf x \<and> P x" for i x
  proof -
    have "\<exists>y. bdm_disconnect_slot fs_disc b i x = Some y"
      by (rule disconnect_slot_returns) (use ret [of x i] that in auto)
    then show ?thesis using disconnect_slot_ok [of x i b] that closed by (metis atLeastLessThan_iff set_upt)
  qed
  then have "\<exists>st'. for_each (bdm_disconnect_slot fs_disc b) [0..<20] st = Some st' \<and> bdm_wf st' \<and> P st'"
    using assms(1,2) by (intro for_each_returns) auto
  then show ?thesis by (auto simp: bdm_disconnect_bd_def)
qed

subsection \<open>The filter pass\<close>

lemma filter_slot_ok:
  assumes "bdm_wf st" "i < 20" "bdm_filter_slot fs_disc i st = Some st'"
  shows "bdm_wf st' \<and> shrinks UNIV st st' \<and> slot_is_ata st' i"
proof (cases "m_bd (g_mount st ! i)")
  case None
  then show ?thesis using assms by (simp add: bdm_filter_slot_def slot_is_ata_def)
next
  case (Some b)
  show ?thesis
  proof (cases "not_ata (bd_of st b)")
    case True
    then have "bdm_disconnect_bd fs_disc b st = Some st'" using assms Some by (simp add: bdm_filter_slot_def)
    then have d: "bdm_wf st'" "shrinks (family st b) st st'" "m_bd (g_mount st' ! i) \<noteq> Some b"
      using disconnect_bd_ok [OF assms(1)] assms(2) by auto
    then have "m_bd (g_mount st' ! i) = None"
      using shrinks_slot [OF d(2) assms(2)] Some by (metis not_Some_eq)
    then show ?thesis using d shrinks_mono [OF subset_UNIV d(2)] by (simp add: slot_is_ata_def)
  qed (use assms Some in \<open>simp add: bdm_filter_slot_def slot_is_ata_def\<close>)
qed

lemma thread_filter_ok:
  assumes wf: "bdm_wf st" and run: "bdm_thread_filter fs_disc st = Some st'"
  shows "bdm_wf st' \<and> shrinks UNIV st st' \<and> (g_ata_only st \<longrightarrow> (\<forall>i < 20. slot_is_ata st' i))
       \<and> filter_bits st' AND 1 = 1"
proof -
  obtain s where s: "st' = s\<lparr>filter_bits := filter_bits s OR 1\<rparr>"
    "(if g_ata_only st then for_each (bdm_filter_slot fs_disc) [0..<20] st else Some st) = Some s"
    using run by (auto simp: bdm_thread_filter_def)
  have bit: "(x OR 1) AND 1 = (1 :: u32)" for x by (rule bit_word_eqI) (auto simp: bit_simps)
  have eqs: "bdm_wf st' = bdm_wf s" "shrinks UNIV st st' = shrinks UNIV st s" "slot_is_ata st' i = slot_is_ata s i" for i
    by (simp_all add: s(1) bdm_wf_def tables_ok_def caches_ok_def parts_ok_def shrinks_def slot_is_ata_def filter_pending_def
        connectable_cong [of "s\<lparr>filter_bits := filter_bits s OR 1\<rparr>" s])
  show ?thesis
  proof (cases "g_ata_only st")
    case True
    then have run: "for_each (bdm_filter_slot fs_disc) [0..<20] st = Some s" using s(2) by simp
    have keep: "slot_is_ata y i \<or> 20 \<le> i" if "shrinks UNIV x y" "slot_is_ata x i \<or> 20 \<le> i" for i x y
      using that shrinks_slot [of UNIV x y i] by (auto simp: slot_is_ata_def shrinks_def)
    have "shrinks UNIV st s \<and> bdm_wf s"
      by (rule for_each_rel [OF run, of "shrinks UNIV" bdm_wf])
         (use shrinks_trans filter_slot_ok wf in \<open>(auto; fail) | blast\<close>)+
    moreover have "\<forall>i \<in> set [0..<20]. slot_is_ata s i \<or> 20 \<le> i"
      by (rule for_each_all [OF run, of "shrinks UNIV" bdm_wf "\<lambda>i s. slot_is_ata s i \<or> 20 \<le> i"])
         (use shrinks_trans filter_slot_ok keep wf in \<open>(auto; fail) | blast\<close>)+
    ultimately show ?thesis using eqs bit s(1) by auto
  qed (use s wf eqs bit in auto)
qed

subsection \<open>The mount pass\<close>

lemma try_fs_ok:
  assumes "bdm_wf st" "k < 20" "m_bd (g_mount st ! k) = Some b" "m_fs (g_mount st ! k) = None"
    and "\<forall>i \<in> set is. i < 20"
  shows "bdm_wf (bdm_try_fs fs_conn k is st) \<and> advances st (bdm_try_fs fs_conn k is st)
    \<and> (case m_fs (g_mount (bdm_try_fs fs_conn k is st) ! k) of
         Some f \<Rightarrow> (\<exists>i \<in> set is. g_fs st ! i = Some f)
           \<and> (\<exists>s. grows st s \<and> fst (fs_conn f (mount_handle (g_mount st ! k)) s) = 0)
       | None \<Rightarrow> \<forall>i \<in> set is. \<forall>f. g_fs st ! i = Some f \<longrightarrow>
           (\<exists>s. grows st s \<and> fst (fs_conn f (mount_handle (g_mount st ! k)) s) \<noteq> 0))"
  using assms
proof (induction "is" arbitrary: st)
  case Nil
  then show ?case by (simp add: advances_refl)
next
  case (Cons i "is")
  show ?case
  proof (cases "g_fs st ! i")
    case None
    then show ?thesis using Cons.IH [OF Cons.prems(1-4)] Cons.prems(5) by (auto split: option.splits)
  next
    case (Some f)
    let ?h = "mount_handle (g_mount st ! k)"
    obtain r s where c: "fs_conn f ?h st = (r, s)" by fastforce
    have s: "bdm_wf s" "grows st s" using conn_ok [OF Cons.prems(1) c] by auto
    have k: "g_mount s ! k = g_mount st ! k" and fs: "g_fs s = g_fs st"
      using s(2) Cons.prems(2,3) by (auto simp: grows_def slot_grows_def split: option.splits)
    show ?thesis
    proof (cases "r = 0")
      case True
      let ?s = "set_mount k ((g_mount s ! k)\<lparr>m_fs := g_fs s ! i\<rparr>) s"
      have len: "length (g_mount s) = 20" using s(1) by (simp add: bdm_wf_def tables_ok_def)
      have w: "bdm_wf ?s" using wf_set_fs [OF s(1) Cons.prems(2)] k Cons.prems(3) by simp
      have a: "advances st ?s" using advances_set_fs [OF s(2) Cons.prems(2) len] k Cons.prems(3,4) by simp
      have res: "bdm_try_fs fs_conn k (i # is) st = (if g_cb s \<noteq> None then set_event 1 ?s else ?s)"
        using Some c True by simp
      have m: "m_fs (g_mount ?s ! k) = Some f" using len Cons.prems(2) fs Some by simp
      show ?thesis unfolding res using w a m Some c True grows_refl [OF Cons.prems(1)]
        by (auto simp del: set_mount_fields(1) intro!: exI [of _ st])
    next
      case False
      have res: "bdm_try_fs fs_conn k (i # is) st = bdm_try_fs fs_conn k is s" using Some c False by simp
      have ih: "bdm_wf (bdm_try_fs fs_conn k is s) \<and> advances s (bdm_try_fs fs_conn k is s)
        \<and> (case m_fs (g_mount (bdm_try_fs fs_conn k is s) ! k) of
         Some f \<Rightarrow> (\<exists>i \<in> set is. g_fs st ! i = Some f) \<and> (\<exists>s'. grows s s' \<and> fst (fs_conn f ?h s') = 0)
       | None \<Rightarrow> \<forall>i \<in> set is. \<forall>f. g_fs st ! i = Some f \<longrightarrow> (\<exists>s'. grows s s' \<and> fst (fs_conn f ?h s') \<noteq> 0))"
        using Cons.IH [OF s(1) Cons.prems(2), unfolded k fs, OF Cons.prems(3,4)] Cons.prems(5) by simp
      have "\<exists>s. grows st s \<and> fst (fs_conn f ?h s) \<noteq> 0"
        using False c grows_refl [OF Cons.prems(1)] by (intro exI [of _ st]) simp
      moreover have lift: "\<And>Q. \<exists>s'. grows s s' \<and> Q s' \<Longrightarrow> \<exists>s'. grows st s' \<and> Q s'"
        using grows_trans [OF s(2)] by blast
      moreover have "advances st (bdm_try_fs fs_conn k is s)"
        using ih advances_trans [OF grows_advances [OF s(2)]] by blast
      ultimately show ?thesis unfolding res using ih Some
        by (cases "m_fs (g_mount (bdm_try_fs fs_conn k is s) ! k)") auto
    qed
  qed
qed

lemma mount_slot_ok:
  assumes "bdm_wf st" "k < 20"
  shows "bdm_wf (bdm_mount_slot fs_conn k st) \<and> advances st (bdm_mount_slot fs_conn k st)
    \<and> (\<forall>b f. m_bd (g_mount st ! k) = Some b \<longrightarrow> m_fs (g_mount (bdm_mount_slot fs_conn k st) ! k) = None \<longrightarrow>
         Some f \<in> set (g_fs st) \<longrightarrow> (\<exists>s. advances st s \<and> fst (fs_conn f (mount_handle (g_mount st ! k)) s) \<noteq> 0))"
proof (cases "m_bd (g_mount st ! k) \<noteq> None \<and> m_fs (g_mount st ! k) = None")
  case True
  then obtain b where b: "m_bd (g_mount st ! k) = Some b" by auto
  have len: "length (g_fs st) = 20" using assms(1) by (simp add: bdm_wf_def tables_ok_def)
  have eq: "bdm_mount_slot fs_conn k st = bdm_try_fs fs_conn k [0..<20] st"
    using True by (simp add: bdm_mount_slot_def bdm_try_mount_def)
  have t: "bdm_wf (bdm_try_fs fs_conn k [0..<20] st)" "advances st (bdm_try_fs fs_conn k [0..<20] st)"
    "m_fs (g_mount (bdm_try_fs fs_conn k [0..<20] st) ! k) = None \<Longrightarrow> i < 20 \<Longrightarrow> g_fs st ! i = Some f \<Longrightarrow>
       \<exists>s. grows st s \<and> fst (fs_conn f (mount_handle (g_mount st ! k)) s) \<noteq> 0" for i f
    using try_fs_ok [OF assms b, of "[0..<20]"] True by (auto split: option.splits)
  show ?thesis unfolding eq using t(1,2) t(3) grows_advances len by (metis in_set_conv_nth)
qed (use assms in \<open>auto simp: bdm_mount_slot_def\<close>)

lemma thread_mount_prefix:
  assumes "bdm_wf st" "\<forall>i \<in> set is. i < 20"
  shows "bdm_wf (foldl (\<lambda>s i. bdm_mount_slot fs_conn i s) st is)
       \<and> advances st (foldl (\<lambda>s i. bdm_mount_slot fs_conn i s) st is)"
  using assms
proof (induction "is" arbitrary: st)
  case (Cons i "is")
  then show ?case using mount_slot_ok [OF Cons.prems(1), of i] Cons.IH [of "bdm_mount_slot fs_conn i st"]
    by (auto intro: advances_trans)
qed simp

lemma thread_mount_ok:
  assumes "bdm_wf st"
  shows "bdm_wf (bdm_thread_mount fs_conn st) \<and> advances st (bdm_thread_mount fs_conn st)"
  unfolding bdm_thread_mount_def using thread_mount_prefix [OF assms] by simp

text \<open>After a mount pass a device that was connected before it is mounted, or every registered
  file system has refused it during the pass.\<close>

lemma thread_mount_complete:
  assumes wf: "bdm_wf st" and k: "k < 20" "m_bd (g_mount st ! k) = Some b"
    and un: "m_fs (g_mount (bdm_thread_mount fs_conn st) ! k) = None" and f: "Some f \<in> set (g_fs st)"
  shows "\<exists>s. advances st s \<and> fst (fs_conn f (mount_handle (g_mount st ! k)) s) \<noteq> 0"
proof -
  let ?run = "foldl (\<lambda>s i. bdm_mount_slot fs_conn i s)"
  define s1 where "s1 = ?run st [0..<k]"
  define s2 where "s2 = bdm_mount_slot fs_conn k s1"
  have "[0..<20] = [0..<k] @ k # [Suc k..<20]" using k(1) by (metis upt_conv_Cons upt_add_eq_append le_add_diff_inverse zero_le less_imp_le)
  then have run: "bdm_thread_mount fs_conn st = ?run s2 [Suc k..<20]"
    by (simp add: bdm_thread_mount_def s1_def s2_def)
  have 1: "bdm_wf s1" "advances st s1" using thread_mount_prefix [OF wf, of "[0..<k]"] k(1) by (auto simp: s1_def)
  have b1: "m_bd (g_mount s1 ! k) = Some b" "mount_handle (g_mount s1 ! k) = mount_handle (g_mount st ! k)"
    "g_fs s1 = g_fs st"
    using advances_slot [OF 1(2) k] 1(2) k(2) by (auto simp: advances_def mount_handle_def split: option.split)
  have 2: "bdm_wf s2" "advances s1 s2" using mount_slot_ok [OF 1(1) k(1)] by (simp_all add: s2_def)
  have b2: "m_bd (g_mount s2 ! k) = Some b" using advances_slot(1) [OF 2(2) k(1) b1(1)] .
  have "advances s2 (bdm_thread_mount fs_conn st)"
    unfolding run using thread_mount_prefix [OF 2(1), of "[Suc k..<20]"] by auto
  then have "m_fs (g_mount s2 ! k) = None" using advances_slot(3) [OF _ k(1) b2] un by blast
  then obtain s where "advances s1 s" "fst (fs_conn f (mount_handle (g_mount s1 ! k)) s) \<noteq> 0"
    using mount_slot_ok [OF 1(1) k(1)] b1 f unfolding s2_def [symmetric] by metis
  then show ?thesis using 1(2) b1(2) advances_trans by metis
qed

subsection \<open>Preservation\<close>

lemma call_cb_fields [simp]:
  "bdm_wf (bdm_call_cb ev st) = bdm_wf st" "slot_is_ata (bdm_call_cb ev st) i = slot_is_ata st i"
  "g_ata_only (bdm_call_cb ev st) = g_ata_only st" "filter_pending (bdm_call_cb ev st) = filter_pending st"
  "bdm_event (bdm_call_cb ev st) = bdm_event st" "bdm_filter_event (bdm_call_cb ev st) = bdm_filter_event st"
  by (simp_all add: bdm_call_cb_def slot_is_ata_def filter_pending_def split: option.split)

lemma advances_ata:
  assumes "advances st st'" "i < 20" "g_ata_only st" "slot_is_ata st i"
  shows "slot_is_ata st' i"
proof -
  have "slot_advances st st' i" using assms(1,2) by (simp add: advances_def)
  then show ?thesis using assms(3,4) by (auto simp: slot_advances_def slot_is_ata_def split: option.splits)
qed

lemma shrinks_ata: "shrinks F st st' \<Longrightarrow> i < 20 \<Longrightarrow> slot_is_ata st i \<Longrightarrow> slot_is_ata st' i"
  using shrinks_slot [of F st st' i] by (auto simp: slot_is_ata_def shrinks_def)

text \<open>An iteration of the thread keeps the tables; if the filter bit is among the bits it
  received, or the promise held without it, all devices are ata afterwards.\<close>

lemma thread_body_ok:
  assumes wf: "bdm_wf st" and run: "bdm_thread_body fs_conn fs_disc bits st = Some st'"
  shows "bdm_wf st' \<and> g_ata_only st' = g_ata_only st \<and> bdm_event st' = bdm_event st
    \<and> bdm_filter_event st' = bdm_filter_event st
    \<and> (g_ata_only st \<longrightarrow> bits AND BDM_EVENT_FILTER \<noteq> 0 \<or> (\<forall>i < 20. slot_is_ata st i) \<longrightarrow>
        (\<forall>i < 20. slot_is_ata st' i))"
proof -
  obtain s1 where s1: "(if bits AND 8 \<noteq> 0 then bdm_thread_filter fs_disc st else Some st) = Some s1"
    using run by (auto simp: bdm_thread_body_def)
  define s2 where "s2 = (if bits AND 4 \<noteq> 0 then bdm_thread_mount fs_conn s1 else s1)"
  define s3 where "s3 = (if bits AND 1 \<noteq> 0 then bdm_call_cb 1 s2 else s2)"
  have st': "st' = (if bits AND 2 \<noteq> 0 then bdm_call_cb 0 s3 else s3)"
    using run s1 by (auto simp: bdm_thread_body_def s2_def s3_def Let_def)
  have 1: "bdm_wf s1 \<and> shrinks UNIV st s1 \<and> (g_ata_only st \<and> bits AND 8 \<noteq> 0 \<longrightarrow> (\<forall>i < 20. slot_is_ata s1 i))"
    using s1 wf thread_filter_ok [OF wf] by (auto split: if_splits)
  have 2: "bdm_wf s2 \<and> advances s1 s2" using 1 thread_mount_ok by (simp add: s2_def)
  have same: "g_ata_only s1 = g_ata_only st" "g_ata_only s2 = g_ata_only st" "bdm_event s2 = bdm_event st"
    "bdm_filter_event s2 = bdm_filter_event st" using 1 2 by (simp_all add: shrinks_def advances_def)
  have "g_ata_only st \<longrightarrow> bits AND 8 \<noteq> 0 \<or> (\<forall>i < 20. slot_is_ata st i) \<longrightarrow> (\<forall>i < 20. slot_is_ata s2 i)"
    using 1 2 same(1) advances_ata shrinks_ata by blast
  then show ?thesis using 2 same by (simp add: st' s3_def)
qed

lemma thread_ok:
  assumes "bdm_wf st" "bdm_thread fs_conn fs_disc st = Some st'"
  shows "bdm_wf st' \<and> (bdm_started st \<longrightarrow> bdm_started st') \<and> (ata_promise st \<longrightarrow> ata_promise st')"
proof (cases "event_bits st AND 0x0f = 0")
  case False
  then have run: "bdm_thread_body fs_conn fs_disc (event_bits st) (st\<lparr>event_bits := 0\<rparr>) = Some st'"
    using assms(2) by (simp add: bdm_thread_def)
  have "slot_is_ata (st\<lparr>event_bits := 0\<rparr>) i = slot_is_ata st i" for i by (simp add: slot_is_ata_def)
  then show ?thesis using thread_body_ok [OF _ run] assms(1)
    by (auto simp: bdm_started_def ata_promise_def filter_pending_def)
qed (use assms in \<open>simp add: bdm_thread_def\<close>)

lemma step_ok:
  assumes "bdm_step fs_conn fs_disc st st'" "bdm_wf st" "bdm_started st" "ata_promise st"
  shows "bdm_wf st' \<and> bdm_started st' \<and> ata_promise st'"
  using assms(1)
proof (cases rule: bdm_step.cases)
  case (describe n d)
  have "length (g_mount st) = 20" using assms(2) by (simp add: bdm_wf_def tables_ok_def)
  then have "slot_is_ata st' i" if "i < 20" "slot_is_ata st i" for i
    using that describe by (auto simp: slot_is_ata_def)
  then show ?thesis using assms(2-4) describe
    by (auto simp: bdm_started_def ata_promise_def filter_pending_def)
next
  case (connect n)
  have "connectable st (DevBd n)" by (simp add: connectable_def)
  note c = connect_bd_wf [OF assms(2) this]
  then have g: "grows st st'" using connect by simp
  have "slot_is_ata st' i" if "i < 20" "g_ata_only st" "slot_is_ata st i" for i
    using advances_ata [OF grows_advances [OF g]] that by blast
  then show ?thesis using c g connect connect_bd_filter_pending assms(3,4)
    by (auto simp: bdm_started_def ata_promise_def grows_def)
next
  case (disconnect n)
  then have d: "bdm_wf st'" "shrinks (family st (DevBd n)) st st'" using disconnect_bd_ok [OF assms(2)] by auto
  have "slot_is_ata st' i" if "i < 20" "slot_is_ata st i" for i using shrinks_ata [OF d(2)] that by blast
  then show ?thesis using d assms(3,4) by (auto simp: bdm_started_def ata_promise_def shrinks_def)
next
  case (thread)
  then show ?thesis using thread_ok [OF assms(2)] assms(3,4) by blast
next
  case (ata_only e)
  then show ?thesis using assms(2-4)
    by (auto simp: bdm_set_ata_only_def Let_def bdm_started_def ata_promise_def set_event_def filter_pending_bit bit_simps)
next
  case (connect_fs f)
  show ?thesis using quiet_promise [OF quiet_connect_fs assms(3,4)] wf_connect_fs [OF assms(2)] connect_fs by blast
next
  case (disconnect_fs f)
  have "length (g_mount st) = 20" using assms(2) by (simp add: bdm_wf_def tables_ok_def)
  then have "quiet st st'" using disconnect_fs
    by (auto simp: quiet_def bdm_disconnect_fs_def Let_def filter_pending_bit set_event_def bit_simps split: option.split)
  then show ?thesis using quiet_promise [OF _ assms(3,4)] wf_disconnect_fs [OF assms(2)] disconnect_fs by blast
next
  case (callback cb)
  have "quiet st st'" using callback
    by (auto simp: quiet_def bdm_RegisterCallback_def Let_def filter_pending_bit set_event_def bit_simps)
  moreover have "bdm_wf st'" using callback assms(2) by (auto simp: bdm_RegisterCallback_def Let_def)
  ultimately show ?thesis using quiet_promise [OF _ assms(3,4)] by blast
next
  case resume
  then have "quiet st st'" "bdm_wf st'" using assms(2)
    by (auto simp: quiet_def bdm_set_ata_only_resume_def filter_pending_def split: if_splits)
  then show ?thesis using quiet_promise [OF _ assms(3,4)] by blast
qed

text \<open>Every reachable state of a started manager keeps the invariant and the ata-only promise.\<close>

lemma reachable_ok:
  assumes "(bdm_step fs_conn fs_disc)\<^sup>*\<^sup>* st st'" "bdm_wf st" "bdm_started st" "ata_promise st"
  shows "bdm_wf st' \<and> bdm_started st' \<and> ata_promise st'"
  using assms by (induction rule: rtranclp_induct) (use step_ok in \<open>blast+\<close>)

end

section \<open>Properties\<close>

text \<open>Connecting a device. It is refused only by the ata-only filter or because all 20 slots
  are taken, and then nothing changes; otherwise it takes the first free slot with no file system,
  no other slot changes, a whole disk gets a cache exactly when memory allows, a partition never
  does, and the mount event is raised.\<close>

theorem connect_bd_effect:
  assumes "bdm_wf st" "0 \<le> bdm_event st"
  shows "(bdm_connect_bd b st = st \<and>
           ((g_ata_only st \<and> not_ata (bd_of st b)) \<or> (\<forall>m \<in> set (g_mount st). m_bd m \<noteq> None)))
    \<or> (\<exists>i c. i < 20 \<and> m_bd (g_mount st ! i) = None \<and> (\<forall>j < i. m_bd (g_mount st ! j) \<noteq> None)
         \<and> g_mount (bdm_connect_bd b st) = (g_mount st)[i := \<lparr>m_bd = Some b, m_cbd = c, m_fs = None\<rparr>]
         \<and> (c \<noteq> None \<longleftrightarrow> parNr (bd_of st b) = 0 \<and> cache_mem st \<noteq> [] \<and> hd (cache_mem st))
         \<and> event_bits (bdm_connect_bd b st) AND BDM_EVENT_MOUNT \<noteq> 0)"
proof (rule connect_bd_cases [of b st])
  fix i c st2
  assume i: "i < length (g_mount st)" "m_bd (g_mount st ! i) = None" "\<forall>j < i. m_bd (g_mount st ! j) \<noteq> None"
    and c: "(c, st2) = (if parNr (bd_of st b) = 0 then new_cache b st else (None, st))"
    and eq: "bdm_connect_bd b st = set_event BDM_EVENT_MOUNT
         (set_mount i ((g_mount st ! i)\<lparr>m_bd := Some b, m_cbd := c\<rparr>) st2)"
  have len: "length (g_mount st) = 20" "m_fs (g_mount st ! i) = None"
    using assms(1) i by (auto simp: bdm_wf_def tables_ok_def slot_ok_def)
  have same: "g_mount st2 = g_mount st" "bdm_event st2 = bdm_event st"
    using c new_cache_cases [of b st c st2] by (auto split: if_splits)
  have cc: "c \<noteq> None \<longleftrightarrow> parNr (bd_of st b) = 0 \<and> cache_mem st \<noteq> [] \<and> hd (cache_mem st)"
    using c by (auto simp: new_cache_def bd_cache_create_def Let_def split: if_splits)
  have m: "(g_mount st ! i)\<lparr>m_bd := Some b, m_cbd := c\<rparr> = \<lparr>m_bd = Some b, m_cbd = c, m_fs = None\<rparr>"
    using len(2) by simp
  have ev: "(x OR 4) AND 4 \<noteq> (0 :: u32)" for x
    using and_exp_eq_0_iff_not_bit [of "x OR 4" 2] by (simp add: bit_simps)
  show ?thesis
    using i len cc assms(2) ev unfolding eq m
    by (intro disjI2 exI [of _ i] exI [of _ c]) (simp add: same set_event_def set_mount_def)
qed blast

definition small_bdm :: "unit bdm" where
  "small_bdm = \<lparr>g_mount = replicate 20 no_mount, g_fs = replicate 20 None, g_cb = None, bdm_event = 1,
     bdm_filter_event = 2, bdm_thread_id = 3, g_ata_only = True, event_bits = 0, filter_bits = 0,
     g_part = replicate 10 None,
     bd_of = (\<lambda>b. \<lparr>bd_name = Some ''usb'', devNr = 0, parNr = 0, parId = 0, sectorSize = 512,
                  sectorOffset = 0, sectorCount = 1000\<rparr>),
     cache_mem = [], caches = [], next_cache = 0, cb_log = [], world = ()\<rparr>"

theorem connect_bd_effect_witness: "bdm_connect_bd (DevBd 0) small_bdm = small_bdm"
proof -
  have "bdm_wf small_bdm"
    by (simp add: small_bdm_def bdm_wf_def tables_ok_def caches_ok_def parts_ok_def)
  moreover have "0 \<le> bdm_event small_bdm" by (simp add: small_bdm_def)
  ultimately show ?thesis
    using connect_bd_effect [of small_bdm "DevBd 0"] by (simp add: small_bdm_def bdm_connect_bd_def not_ata_def)
qed

text \<open>C29. \<open>bdm_init\<close> either succeeds, with its two event flags and its thread created and empty
  tables, or returns the error of the call that failed with every kernel object it created
  deleted again, in reverse order.\<close>

theorem bdm_init_unwinds:
  "bdm_init ev1 ev2 th start st = (r, evs, st') \<Longrightarrow>
     (r = 0 \<and> evs = [Created ev1, Created ev2, Created th] \<and> bdm_event st' = ev1 \<and> bdm_filter_event st' = ev2
        \<and> bdm_thread_id st' = th \<and> g_mount st' = replicate 20 no_mount \<and> g_fs st' = replicate 20 None)
   \<or> (r < 0 \<and> (\<exists>xs. evs = map Created xs @ map Deleted (rev xs)))"
proof -
  assume "bdm_init ev1 ev2 th start st = (r, evs, st')"
  then consider "r < 0" "evs = []" | "r < 0" "evs = [Created ev1, Deleted ev1]"
    | "r < 0" "evs = [Created ev1, Created ev2, Deleted ev2, Deleted ev1]"
    | "r < 0" "evs = [Created ev1, Created ev2, Created th, Deleted th, Deleted ev2, Deleted ev1]"
    | "r = 0 \<and> evs = [Created ev1, Created ev2, Created th] \<and> bdm_event st' = ev1 \<and> bdm_filter_event st' = ev2
        \<and> bdm_thread_id st' = th \<and> g_mount st' = replicate 20 no_mount \<and> g_fs st' = replicate 20 None"
    by (auto simp: bdm_init_def Let_def split: if_splits)
  then show ?thesis
  proof cases
    case 1 then show ?thesis by (intro disjI2 conjI exI [of _ "[]"]) simp_all
  next
    case 2 then show ?thesis by (intro disjI2 conjI exI [of _ "[ev1]"]) simp_all
  next
    case 3 then show ?thesis by (intro disjI2 conjI exI [of _ "[ev1, ev2]"]) simp_all
  next
    case 4 then show ?thesis by (intro disjI2 conjI exI [of _ "[ev1, ev2, th]"]) simp_all
  qed blast
qed

theorem bdm_init_unwinds_witness:
  "\<exists>r evs st'. bdm_init 1 2 (- 400) 0 small_bdm = (r, evs, st') \<and> r = - 400
     \<and> (\<exists>xs. evs = map Created xs @ map Deleted (rev xs))"
proof -
  obtain r evs st' where run: "bdm_init 1 2 (- 400) 0 small_bdm = (r, evs, st')" by (cases rule: prod_cases3)
  then have "r = - 400" by (auto simp: bdm_init_def Let_def)
  then show ?thesis using run bdm_init_unwinds [OF run] by auto
qed

end
