(* ===== verification/Part_Driver.thy ===== *)
theory Part_Driver
  imports Bdm
begin

text \<open>
  The partition driver of \<open>__bdm_assault/src/bdm\<close> (\<open>bdm_part_driver.c\<close>, \<open>bdm_part_driver_mbr.c\<close>,
  \<open>bdm_part_driver_gpt.c\<close>): it registers two "file systems" with the manager that, when offered a
  disk, connect one block device per partition. Shown: a partition device is a block store on
  its window of the disk, the table scanners connect exactly the usable entries, the driver
  meets the manager's \<open>file_systems\<close> interface, and disconnecting a disk returns and removes it
  with all its partitions and nothing else.
\<close>

section \<open>Partition devices\<close>

abbreviation (input) MAX_PARTITIONS :: nat where "MAX_PARTITIONS \<equiv> 10"

text \<open>\<open>part_read\<close> and its siblings on the operations of \<open>part->bd\<close>; \<open>None\<close> is a NULL \<open>part->bd\<close>.\<close>

definition part_read :: "'s bd_ops option \<Rightarrow> block_device \<Rightarrow> 's \<Rightarrow> u64 \<Rightarrow> u16 \<Rightarrow> int \<times> bytes \<times> 's" where
  "part_read parent bd s sector count =
     (case parent of None \<Rightarrow> (- 1, [], s) | Some ops \<Rightarrow> bd_read ops s (sector + sectorOffset bd) count)"

definition part_write :: "'s bd_ops option \<Rightarrow> block_device \<Rightarrow> 's \<Rightarrow> u64 \<Rightarrow> bytes \<Rightarrow> u16 \<Rightarrow> int \<times> 's" where
  "part_write parent bd s sector buffer count =
     (case parent of None \<Rightarrow> (- 1, s) | Some ops \<Rightarrow> bd_write ops s (sector + sectorOffset bd) buffer count)"

definition part_flush :: "'s bd_ops option \<Rightarrow> 's \<Rightarrow> 's" where
  "part_flush parent s = (case parent of None \<Rightarrow> s | Some ops \<Rightarrow> bd_flush ops s)"

definition part_stop :: "'s bd_ops option \<Rightarrow> 's \<Rightarrow> int \<times> 's" where
  "part_stop parent s = (case parent of None \<Rightarrow> (- 1, s) | Some ops \<Rightarrow> bd_stop ops s)"

definition part_ops :: "'s bd_ops option \<Rightarrow> block_device \<Rightarrow> 's bd_ops" where
  "part_ops parent bd = \<lparr>bd_read = part_read parent bd, bd_write = part_write parent bd,
     bd_flush = part_flush parent, bd_stop = part_stop parent\<rparr>"

section \<open>The driver\<close>

definition GetNextFreePartitionIndex :: "'w bdm \<Rightarrow> nat option" where
  "GetNextFreePartitionIndex st = first_index (\<lambda>p. p = None) (g_part st)"

definition part_disconnect :: "(bdref \<Rightarrow> 'w bdm \<Rightarrow> 'w bdm option) \<Rightarrow> bdref \<Rightarrow> 'w bdm \<Rightarrow> 'w bdm option" where
  "part_disconnect disc h =
     for_each (\<lambda>i s. if g_part s ! i = Some h
                     then map_option (\<lambda>s'. s'\<lparr>g_part := (g_part s')[i := None]\<rparr>) (disc (PartBd i) s)
                     else Some s) [0..<MAX_PARTITIONS]"

definition part_init :: "'w bdm \<Rightarrow> 'w bdm" where
  "part_init st = bdm_connect_fs GptFs (bdm_connect_fs MbrFs (st\<lparr>g_part := replicate MAX_PARTITIONS None\<rparr>))"

text \<open>The environment of the scanners: \<open>bd->read\<close> of one sector and \<open>AllocSysMemory\<close>, which
  returns the previous contents of the block, both on the state of the rest of the system.\<close>

record 'w part_env =
  pe_read :: "bdref \<Rightarrow> u64 \<Rightarrow> 'w \<Rightarrow> int \<times> bytes \<times> 'w"
  pe_alloc :: "u32 \<Rightarrow> 'w \<Rightarrow> bytes option \<times> 'w"

text \<open>What both scanners do with a partition: fill \<open>g_part[p]\<close> and \<open>g_part_bd[p]\<close> and connect it.\<close>

record part_desc =
  pd_parNr :: u32
  pd_parId :: u8
  pd_offset :: u64
  pd_count :: u64

definition part_create :: "bdref \<Rightarrow> part_desc \<Rightarrow> nat \<Rightarrow> 'w bdm \<Rightarrow> 'w bdm" where
  "part_create h d p st =
     (let bd = bd_of st h;
          pbd = \<lparr>bd_name = bd_name bd, devNr = devNr bd, parNr = pd_parNr d, parId = pd_parId d,
                 sectorSize = sectorSize bd, sectorOffset = sectorOffset bd + pd_offset d,
                 sectorCount = pd_count d\<rparr>
      in bdm_connect_bd (PartBd p)
           (st\<lparr>g_part := (g_part st)[p := Some h], bd_of := (bd_of st)(PartBd p := pbd)\<rparr>))"

definition part_add :: "bdref \<Rightarrow> part_desc \<Rightarrow> nat \<times> 'w bdm \<Rightarrow> nat \<times> 'w bdm" where
  "part_add h d ms =
     (case GetNextFreePartitionIndex (snd ms) of
        None \<Rightarrow> ms
      | Some p \<Rightarrow> (Suc (fst ms), part_create h d p (snd ms)))"

definition sector_size_ok :: "block_device \<Rightarrow> bool" where
  "sector_size_ok bd \<longleftrightarrow> \<not> (sectorSize bd < 512 \<or> sectorSize bd > 4096
     \<or> sectorSize bd AND (sectorSize bd - 1) \<noteq> 0)"

subsection \<open>MBR\<close>

text \<open>Fields of \<open>master_boot_record\<close> (offsets of \<open>mbr_types.h\<close>).\<close>

definition mbr_boot_signature :: "bytes \<Rightarrow> u16" where "mbr_boot_signature b = le16 b 0x1fe"
definition mbr_partition_type :: "bytes \<Rightarrow> nat \<Rightarrow> u8" where "mbr_partition_type b i = b ! (0x1be + 16 * i + 4)"
definition mbr_first_lba :: "bytes \<Rightarrow> nat \<Rightarrow> u32" where "mbr_first_lba b i = le32 b (0x1be + 16 * i + 8)"
definition mbr_sector_count :: "bytes \<Rightarrow> nat \<Rightarrow> u32" where "mbr_sector_count b i = le32 b (0x1be + 16 * i + 12)"

definition mbr_desc :: "bytes \<Rightarrow> nat \<Rightarrow> part_desc" where
  "mbr_desc b i = \<lparr>pd_parNr = of_nat (i + 1), pd_parId = mbr_partition_type b i,
     pd_offset = ucast (mbr_first_lba b i), pd_count = ucast (mbr_sector_count b i)\<rparr>"

definition mbr_entry :: "bdref \<Rightarrow> bytes \<Rightarrow> nat \<times> 'w bdm \<Rightarrow> nat \<Rightarrow> nat \<times> 'w bdm" where
  "mbr_entry h b ms i = (if mbr_sector_count b i = 0 then ms else part_add h (mbr_desc b i) ms)"

definition part_connect_mbr :: "'w part_env \<Rightarrow> bdref \<Rightarrow> 'w bdm \<Rightarrow> int \<times> 'w bdm" where
  "part_connect_mbr env h st =
     (let bd = bd_of st h
      in if sectorOffset bd \<noteq> 0 then (- 1, st)
         else if \<not> sector_size_ok bd then (- 1, st)
         else case pe_alloc env (sectorSize bd) (world st) of
           (None, w1) \<Rightarrow> (- 1, st\<lparr>world := w1\<rparr>)
         | (Some junk, w1) \<Rightarrow>
             let (ret, d, w2) = pe_read env h 0 w1; st2 = st\<lparr>world := w2\<rparr>; b = overlay junk d
             in if ret \<noteq> 1 then (- 1, st2)
                else if mbr_boot_signature b \<noteq> 0xaa55 then (- 1, st2)
                else if mbr_partition_type b 0 = 0xee then (- 1, st2)
                else let (mountCount, st3) = foldl (mbr_entry h b) (0, st2) [0..<4]
                     in (if mountCount > 0 then 0 else - 1, st3))"

subsection \<open>GPT\<close>

definition EFI_PARTITION_SIGNATURE :: bytes where
  "EFI_PARTITION_SIGNATURE = [0x45, 0x46, 0x49, 0x20, 0x50, 0x41, 0x52, 0x54]"
definition MS_RESERVED_PARTITION_GUID :: bytes where
  "MS_RESERVED_PARTITION_GUID = [0x16, 0xE3, 0xC9, 0xE3, 0x5C, 0x0B, 0xB8, 0x4D, 0x81, 0x7D, 0xF9, 0x2D, 0xF0, 0x02, 0x15, 0xAE]"
definition EFI_SYSTEM_PARTITION :: bytes where
  "EFI_SYSTEM_PARTITION = [0x28, 0x73, 0x2A, 0xC1, 0x1F, 0xF8, 0xD2, 0x11, 0xBA, 0x4B, 0x00, 0xA0, 0xC9, 0x3E, 0xC9, 0x3B]"

text \<open>Fields of \<open>gpt_partition_table_header\<close> and \<open>gpt_partition_table_entry\<close> (\<open>gpt_types.h\<close>).\<close>

record gpt_header =
  gh_signature :: bytes
  gh_first_lba :: u64
  gh_last_lba :: u64
  gh_partition_table_lba :: u64
  gh_partition_count :: u32

definition gpt_header_of :: "bytes \<Rightarrow> gpt_header" where
  "gpt_header_of b = \<lparr>gh_signature = take 8 b, gh_first_lba = le64 b 0x28, gh_last_lba = le64 b 0x30,
     gh_partition_table_lba = le64 b 0x48, gh_partition_count = le32 b 0x50\<rparr>"

record gpt_entry =
  ge_type_guid :: bytes
  ge_first_lba :: u64
  ge_last_lba :: u64
  ge_attribute_flags :: u64
  ge_name :: "u16 list"

definition gpt_entry_of :: "bytes \<Rightarrow> nat \<Rightarrow> gpt_entry" where
  "gpt_entry_of b x = \<lparr>ge_type_guid = take 16 (drop (128 * x) b), ge_first_lba = le64 b (128 * x + 0x20),
     ge_last_lba = le64 b (128 * x + 0x28), ge_attribute_flags = le64 b (128 * x + 0x30),
     ge_name = map (\<lambda>k. le16 b (128 * x + 0x38 + 2 * k)) [0..<36]\<rparr>"

definition GetGPTPartitionNameAscii :: "gpt_entry \<Rightarrow> bytes" where
  "GetGPTPartitionNameAscii e = map ucast (ge_name e)"

text \<open>The tests of the inner loop, in its order: empty entry, out of the usable range, ignored
  types, ignored by attribute.\<close>

definition gpt_usable :: "gpt_header \<Rightarrow> gpt_entry \<Rightarrow> bool" where
  "gpt_usable ph e \<longleftrightarrow> ge_type_guid e \<noteq> replicate 16 0
     \<and> \<not> (ge_first_lba e < gh_first_lba ph \<or> ge_last_lba e > gh_last_lba ph)
     \<and> \<not> (ge_type_guid e = MS_RESERVED_PARTITION_GUID \<or> ge_type_guid e = EFI_SYSTEM_PARTITION)
     \<and> ge_attribute_flags e AND 0x2 = 0"

definition gpt_desc :: "gpt_entry \<Rightarrow> nat \<Rightarrow> part_desc" where
  "gpt_desc e i = \<lparr>pd_parNr = of_nat (i + 1), pd_parId = 0, pd_offset = ge_first_lba e,
     pd_count = ge_last_lba e - ge_first_lba e + 1\<rparr>"

definition gpt_add_entry :: "bdref \<Rightarrow> gpt_header \<Rightarrow> bytes \<Rightarrow> nat \<Rightarrow> nat \<times> 'w bdm \<Rightarrow> nat \<Rightarrow> nat \<times> 'w bdm" where
  "gpt_add_entry h ph b i ms x =
     (let e = gpt_entry_of b x in if gpt_usable ph e then part_add h (gpt_desc e (i + x)) ms else ms)"

text \<open>The outer loop, one table sector per iteration: \<open>i\<close> is a multiple of \<open>entriesPerSector\<close> at
  its head, so a new sector is read every time. \<open>None\<close> in the result is the return after a
  failed read. The C variable \<open>i\<close> is an \<open>int\<close>: the model is exact for tables of at most 2^31
  entries. \<open>eps\<close> is at least 4 when the loop runs; the test for 0 only makes it total.\<close>

function gpt_loop :: "'w part_env \<Rightarrow> bdref \<Rightarrow> gpt_header \<Rightarrow> nat \<Rightarrow> bytes \<Rightarrow> nat \<Rightarrow> nat \<times> 'w bdm \<Rightarrow>
    bool \<times> nat \<times> 'w bdm" where
  "gpt_loop env h ph eps buf i ms =
     (if eps = 0 \<or> unat (gh_partition_count ph) \<le> i then (True, ms)
      else let (ret, d, w) = pe_read env h (gh_partition_table_lba ph + of_nat (i div eps)) (world (snd ms));
               st1 = (snd ms)\<lparr>world := w\<rparr>; buf' = overlay buf d
           in if ret \<noteq> 1 then (False, fst ms, st1)
              else gpt_loop env h ph eps buf' (i + eps)
                     (foldl (gpt_add_entry h ph buf' i) (fst ms, st1) [0..<eps]))"
  by pat_completeness auto
termination by (relation "measure (\<lambda>(env, h, ph, eps, buf, i, ms). unat (gh_partition_count ph) - i)") auto

declare gpt_loop.simps [simp del]

definition part_connect_gpt :: "'w part_env \<Rightarrow> bdref \<Rightarrow> 'w bdm \<Rightarrow> int \<times> 'w bdm" where
  "part_connect_gpt env h st =
     (let bd = bd_of st h
      in if sectorOffset bd \<noteq> 0 then (- 1, st)
         else if \<not> sector_size_ok bd then (- 1, st)
         else case pe_alloc env (sectorSize bd * 2) (world st) of
           (None, w1) \<Rightarrow> (- 1, st\<lparr>world := w1\<rparr>)
         | (Some junk, w1) \<Rightarrow>
             let (ret, d, w2) = pe_read env h 1 w1; st2 = st\<lparr>world := w2\<rparr>;
                 ph = gpt_header_of (overlay junk d); eps = unat (sectorSize bd) div 128
             in if ret \<noteq> 1 then (- 1, st2)
                else if gh_signature ph \<noteq> EFI_PARTITION_SIGNATURE then (- 1, st2)
                else let (ok, mountCount, st3) =
                           gpt_loop env h ph eps (drop (unat (sectorSize bd)) junk) 0 (0, st2)
                     in if \<not> ok then (- 1, st3)
                        else (if mountCount > 0 then 0 else - 1, st3))"

section \<open>The file systems of the module\<close>

text \<open>\<open>fs->connect_bd\<close> and \<open>fs->disconnect_bd\<close>. The functions of other file-system modules are
  \<open>mod_conn\<close> and \<open>mod_disc\<close>; they act on the rest of the system. \<open>part_disconnect\<close> and
  \<open>bdm_disconnect_bd\<close> call each other; the first argument bounds the nesting.\<close>

type_synonym 'w mod_connector = "nat \<Rightarrow> bdref \<Rightarrow> block_device \<Rightarrow> 'w \<Rightarrow> int \<times> 'w"
type_synonym 'w mod_disconnector = "nat \<Rightarrow> bdref \<Rightarrow> block_device \<Rightarrow> 'w \<Rightarrow> 'w"

definition fs_connect :: "'w part_env \<Rightarrow> 'w mod_connector \<Rightarrow> 'w fs_connector" where
  "fs_connect env mod_conn f h st =
     (case f of
        MbrFs \<Rightarrow> part_connect_mbr env h st
      | GptFs \<Rightarrow> part_connect_gpt env h st
      | ModFs k \<Rightarrow> let (r, w) = mod_conn k h (bd_of st h) (world st) in (r, st\<lparr>world := w\<rparr>))"

fun fs_disconnect :: "nat \<Rightarrow> 'w mod_disconnector \<Rightarrow> 'w fs_disconnector" where
  "fs_disconnect 0 mod_disc f h st = None"
| "fs_disconnect (Suc n) mod_disc f h st =
     (case f of
        ModFs k \<Rightarrow> Some (st\<lparr>world := mod_disc k h (bd_of st h) (world st)\<rparr>)
      | _ \<Rightarrow> part_disconnect (bdm_disconnect_bd (fs_disconnect n mod_disc)) h st)"

section \<open>A partition is a block store\<close>

lemma upd_sectors_shift:
  "upd_sectors f (a + q) n sz d (k + q) = upd_sectors (\<lambda>k. f (k + q)) a n sz d k"
  by (auto simp: upd_sectors_def)

context block_store
begin

lemma part_store:
  assumes fit: "unat (sectorOffset bd) + unat (sectorCount bd) \<le> nsec" and big: "nsec < 2 ^ 64"
  shows "block_store (part_ops (Some ops) bd) inv (\<lambda>s k. disk s (k + unat (sectorOffset bd))) ssz
           (unat (sectorCount bd))"
proof -
  let ?o = "unat (sectorOffset bd)" and ?n = "unat (sectorCount bd)"
  have addr: "unat (a + sectorOffset bd) = unat a + ?o" "unat (a + sectorOffset bd) + unat c \<le> nsec"
    if "unat a + unat c \<le> ?n" for a :: u64 and c :: u16
    using that fit big by (simp_all add: unat_add_lt)
  show ?thesis
  proof
    fix s k assume "inv s" then show "length (disk s (k + ?o)) = ssz" by (rule disk_len)
  next
    fix s and a :: u64 and c :: u16 and r d s'
    assume A: "inv s" "unat a + unat c \<le> ?n" "bd_read (part_ops (Some ops) bd) s a c = (r, d, s')"
    then have "bd_read ops s (a + sectorOffset bd) c = (r, d, s')" by (simp add: part_ops_def part_read_def)
    with A addr show "inv s' \<and> (\<lambda>k. disk s' (k + ?o)) = (\<lambda>k. disk s (k + ?o))" "length d \<le> unat c * ssz"
      using read_keeps read_bound by metis+
  next
    fix s and a :: u64 and c :: u16 and d s'
    assume A: "inv s" "unat a + unat c \<le> ?n" "bd_read (part_ops (Some ops) bd) s a c = (int (unat c), d, s')"
    then have "bd_read ops s (a + sectorOffset bd) c = (int (unat c), d, s')"
      by (simp add: part_ops_def part_read_def)
    then have "d = sectors (disk s) (unat a + ?o) (unat c)" using A addr read_data by metis
    also have "\<dots> = sectors (\<lambda>k. disk s (k + ?o)) (unat a) (unat c)"
      by (rule sectors_shift) (simp add: ac_simps)
    finally show "d = sectors (\<lambda>k. disk s (k + ?o)) (unat a) (unat c)" .
  next
    fix s and a :: u64 and c :: u16 and r d s' k
    assume A: "inv s" "unat a + unat c \<le> ?n" "length d = unat c * ssz"
      and "bd_write (part_ops (Some ops) bd) s a d c = (r, s')"
    then have w: "bd_write ops s (a + sectorOffset bd) d c = (r, s')" by (simp add: part_ops_def part_write_def)
    show "inv s'" using write_inv [OF A(1) addr(2) [OF A(2)] A(3) w] .
    assume "k < unat a \<or> unat a + unat c \<le> k"
    then show "disk s' (k + ?o) = disk s (k + ?o)"
      using write_frame [OF A(1) addr(2) [OF A(2)] A(3) w] addr(1) [OF A(2)] by auto
  next
    fix s and a :: u64 and c :: u16 and d s'
    assume A: "inv s" "unat a + unat c \<le> ?n" "length d = unat c * ssz"
      and "bd_write (part_ops (Some ops) bd) s a d c = (int (unat c), s')"
    then have w: "bd_write ops s (a + sectorOffset bd) d c = (int (unat c), s')"
      by (simp add: part_ops_def part_write_def)
    then show "(\<lambda>k. disk s' (k + ?o)) = upd_sectors (\<lambda>k. disk s (k + ?o)) (unat a) (unat c) ssz d"
      using write_data [OF A(1) addr(2) [OF A(2)] A(3) w] addr(1) [OF A(2)]
      by (intro ext) (simp add: upd_sectors_shift)
  qed
qed

end

section \<open>The scanners keep the manager's tables\<close>

text \<open>What a call of \<open>connect_bd\<close> may do.\<close>

definition conn_fine :: "'w bdm \<Rightarrow> 'w bdm \<Rightarrow> bool" where
  "conn_fine st st' \<longleftrightarrow> bdm_wf st' \<and> grows st st'"

lemma conn_fine_refl: "bdm_wf st \<Longrightarrow> conn_fine st st"
  by (simp add: conn_fine_def grows_refl)

lemma conn_fine_trans: "conn_fine a b \<Longrightarrow> conn_fine b c \<Longrightarrow> conn_fine a c"
  by (auto simp: conn_fine_def intro: grows_trans)

lemma wf_world [simp]: "bdm_wf (st\<lparr>world := w\<rparr>) = bdm_wf st"
  by (simp add: bdm_wf_def tables_ok_def caches_ok_def parts_ok_def connectable_def cong: bdref.case_cong)

lemma conn_fine_world [simp]: "conn_fine st (st'\<lparr>world := w\<rparr>) = conn_fine st st'"
proof -
  have "grows st (st'\<lparr>world := w\<rparr>) = grows st st'"
    by (simp add: grows_def slot_grows_def cong: option.case_cong)
  then show ?thesis by (simp add: conn_fine_def)
qed

lemma conn_fine_create:
  assumes "bdm_wf st" "GetNextFreePartitionIndex st = Some p"
  shows "conn_fine st (part_create h d p st)"
proof -
  have p: "p < 10" "g_part st ! p = None" and len: "length (g_part st) = 10"
    using assms by (auto simp: GetNextFreePartitionIndex_def first_index_Some bdm_wf_def parts_ok_def)
  obtain pbd where eq: "part_create h d p st
      = bdm_connect_bd (PartBd p) (st\<lparr>g_part := (g_part st)[p := Some h], bd_of := (bd_of st)(PartBd p := pbd)\<rparr>)"
    by (simp add: part_create_def Let_def)
  let ?st = "st\<lparr>g_part := (g_part st)[p := Some h], bd_of := (bd_of st)(PartBd p := pbd)\<rparr>"
  have keep: "connectable st b \<Longrightarrow> connectable ?st b \<and> b \<noteq> PartBd p" for b
    using p len by (cases b) (auto simp: connectable_def nth_list_update)
  have mounted: "i < 20 \<Longrightarrow> m_bd (g_mount st ! i) = Some b \<Longrightarrow> connectable st b" for i b
    using assms(1) by (simp add: bdm_wf_def parts_ok_def)
  have "caches_ok ?st = caches_ok st" "tables_ok ?st = tables_ok st"
    by (simp_all add: caches_ok_def tables_ok_def)
  then have "caches_ok ?st" "tables_ok ?st" using assms(1) by (simp_all add: bdm_wf_def)
  moreover have "parts_ok ?st" using len keep mounted by (auto simp: parts_ok_def)
  ultimately have wf: "bdm_wf ?st" by (simp add: bdm_wf_def)
  have "slot_grows st ?st i" if "i < 20" for i
    using grows_refl [OF assms(1)] mounted [OF that] keep that
    by (auto simp: grows_def slot_grows_def split: option.splits)
  then have "grows st ?st" by (simp add: grows_def)
  moreover have "connectable ?st (PartBd p)" using p len by (simp add: connectable_def)
  ultimately show ?thesis unfolding eq conn_fine_def
    using connect_bd_wf [OF wf] grows_trans by blast
qed

lemma conn_fine_add: "bdm_wf (snd ms) \<Longrightarrow> conn_fine (snd ms) (snd (part_add h d ms))"
  by (auto simp: part_add_def conn_fine_refl conn_fine_create split: option.split)

lemma conn_fine_foldl:
  assumes "\<And>ms x. bdm_wf (snd ms) \<Longrightarrow> conn_fine (snd ms) (snd (f ms x))" "bdm_wf (snd ms)"
  shows "conn_fine (snd ms) (snd (foldl f ms xs))"
  using assms(2)
proof (induction xs arbitrary: ms)
  case (Cons x xs)
  have "conn_fine (snd ms) (snd (f ms x))" using assms(1) Cons.prems .
  moreover have "bdm_wf (snd (f ms x))" using calculation by (simp add: conn_fine_def)
  ultimately show ?case using Cons.IH [of "f ms x"] by (auto intro: conn_fine_trans)
qed (simp add: conn_fine_refl)

lemma conn_fine_mbr:
  assumes "bdm_wf st"
  shows "conn_fine st (snd (part_connect_mbr env h st))"
proof -
  have "bdm_wf (snd ms) \<Longrightarrow> conn_fine (snd ms) (snd (mbr_entry h b ms i))" for b ms i
    by (simp add: mbr_entry_def conn_fine_refl conn_fine_add)
  moreover have w: "conn_fine st (st\<lparr>world := w\<rparr>)" "bdm_wf (st\<lparr>world := w\<rparr>)" for w
    using conn_fine_refl [OF assms] assms by simp_all
  ultimately have loop: "conn_fine st (snd (foldl (mbr_entry h b) (0, st\<lparr>world := w\<rparr>) [0..<4]))" for b w
    using conn_fine_foldl [of "mbr_entry h b" "(0, st\<lparr>world := w\<rparr>)" "[0..<4]"]
    by (metis conn_fine_trans snd_conv)
  show ?thesis using loop conn_fine_refl [OF assms]
    by (simp add: part_connect_mbr_def Let_def split: prod.split option.split) (metis loop snd_conv)
qed

lemma conn_fine_gpt_loop:
  assumes "bdm_wf (snd ms)"
  shows "conn_fine (snd ms) (snd (snd (gpt_loop env h ph eps buf i ms)))"
  using assms
proof (induction env h ph eps buf i ms rule: gpt_loop.induct)
  case (1 env h ph eps buf i ms)
  show ?case
  proof (cases "eps = 0 \<or> unat (gh_partition_count ph) \<le> i")
    case True
    then show ?thesis using 1 by (simp add: gpt_loop.simps conn_fine_refl)
  next
    case run: False
    obtain ret d w where rd: "pe_read env h (gh_partition_table_lba ph + of_nat (i div eps)) (world (snd ms)) = (ret, d, w)"
      by (cases rule: prod_cases3)
    let ?b = "overlay buf d" and ?st = "(snd ms)\<lparr>world := w\<rparr>"
    let ?ms = "foldl (gpt_add_entry h ph ?b i) (fst ms, ?st) [0..<eps]"
    have st: "conn_fine (snd ms) ?st" "bdm_wf ?st" using 1(2) conn_fine_refl by simp_all
    have add: "bdm_wf (snd m) \<Longrightarrow> conn_fine (snd m) (snd (gpt_add_entry h ph ?b i m x))" for m x
      by (simp add: gpt_add_entry_def Let_def conn_fine_refl conn_fine_add)
    have fold: "conn_fine ?st (snd ?ms)"
      using conn_fine_foldl [OF add, where ms = "(fst ms, ?st)" and xs = "[0..<eps]"] st(2) by simp
    show ?thesis
    proof (cases "ret = 1")
      case True
      have "conn_fine (snd ?ms) (snd (snd (gpt_loop env h ph eps ?b (i + eps) ?ms)))"
        by (rule "1.IH" [OF run rd [symmetric] refl refl refl]) (use True fold in \<open>simp_all add: conn_fine_def\<close>)
      moreover have "gpt_loop env h ph eps buf i ms = gpt_loop env h ph eps ?b (i + eps) ?ms"
        using run rd True by (subst gpt_loop.simps) (simp add: Let_def)
      ultimately show ?thesis using st(1) fold by (metis conn_fine_trans)
    next
      case False
      then have "gpt_loop env h ph eps buf i ms = (False, fst ms, ?st)"
        using run rd by (subst gpt_loop.simps) (simp add: Let_def)
      then show ?thesis using st(1) by simp
    qed
  qed
qed

lemma conn_fine_gpt:
  assumes "bdm_wf st"
  shows "conn_fine st (snd (part_connect_gpt env h st))"
proof -
  have w: "conn_fine st (st\<lparr>world := w\<rparr>)" "bdm_wf (st\<lparr>world := w\<rparr>)" for w
    using conn_fine_refl [OF assms] assms by simp_all
  then have loop: "conn_fine st (snd (snd (gpt_loop env h ph eps b 0 (0, st\<lparr>world := w\<rparr>))))" for ph eps b w
    using conn_fine_gpt_loop [of "(0, st\<lparr>world := w\<rparr>)" env h ph eps b 0] by (metis conn_fine_trans snd_conv)
  have "conn_fine st s" if "gpt_loop env h ph eps b 0 (0, st\<lparr>world := w\<rparr>) = (q, c, s)" for ph eps b w q c s
    using loop [of ph eps b w] that by simp
  then show ?thesis using conn_fine_refl [OF assms]
    by (auto simp: part_connect_gpt_def Let_def split: prod.split option.split)
qed

lemma fs_connect_ok:
  assumes "bdm_wf st" "fs_connect env mod_conn f h st = (r, st')"
  shows "bdm_wf st' \<and> grows st st'"
proof -
  have "conn_fine st st'"
    using assms conn_fine_mbr [OF assms(1), of env h] conn_fine_gpt [OF assms(1), of env h] conn_fine_refl [OF assms(1)]
    by (auto simp: fs_connect_def Let_def split: fsref.splits prod.splits)
  then show ?thesis by (simp add: conn_fine_def)
qed

section \<open>Disconnecting\<close>

text \<open>The partition devices made, directly or through other partitions, on the device \<open>h\<close>.\<close>

inductive_set descendants :: "'w bdm \<Rightarrow> bdref \<Rightarrow> bdref set" for st h where
  child: "p < 10 \<Longrightarrow> g_part st ! p = Some h \<Longrightarrow> PartBd p \<in> descendants st h"
| deeper: "PartBd p \<in> descendants st h \<Longrightarrow> i < 20 \<Longrightarrow> m_bd (g_mount st ! i) = Some (PartBd p) \<Longrightarrow>
     q < 10 \<Longrightarrow> g_part st ! q = Some (mount_handle (g_mount st ! i)) \<Longrightarrow> PartBd q \<in> descendants st h"

lemma descendants_mono:
  assumes "shrinks F st st'"
  shows "descendants st' h \<subseteq> descendants st h"
proof
  fix x assume "x \<in> descendants st' h"
  then show "x \<in> descendants st h"
  proof (induction rule: descendants.induct)
    case (child p)
    then show ?case using assms descendants.child [of p st h] by (auto simp: shrinks_def)
  next
    case (deeper p i q)
    have "g_mount st' ! i = g_mount st ! i" using shrinks_slot [OF assms deeper.hyps(2,3)] .
    moreover have "g_part st' ! q = g_part st ! q" using assms deeper.hyps(4,5) by (auto simp: shrinks_def)
    ultimately show ?case using deeper descendants.deeper [of p st h i q] by simp
  qed
qed

lemma descendants_below:
  assumes "PartBd p \<in> descendants st h" "i < 20" "m_bd (g_mount st ! i) = Some (PartBd p)"
  shows "descendants st (mount_handle (g_mount st ! i)) \<subseteq> descendants st h"
proof
  fix x assume "x \<in> descendants st (mount_handle (g_mount st ! i))"
  then show "x \<in> descendants st h"
    by (induction rule: descendants.induct) (use assms in \<open>auto intro: descendants.deeper\<close>)
qed

lemma release_ok:
  assumes "bdm_wf st" "p < 10" "\<forall>i < 20. m_bd (g_mount st ! i) \<noteq> Some (PartBd p)"
  shows "bdm_wf (st\<lparr>g_part := (g_part st)[p := None]\<rparr>) \<and> shrinks F st (st\<lparr>g_part := (g_part st)[p := None]\<rparr>)"
proof -
  let ?st = "st\<lparr>g_part := (g_part st)[p := None]\<rparr>"
  have "caches_ok ?st = caches_ok st" "tables_ok ?st = tables_ok st"
    by (simp_all add: caches_ok_def tables_ok_def)
  moreover have len: "length (g_part st) = 10" using assms(1) by (simp add: bdm_wf_def parts_ok_def)
  have "connectable ?st b" if "connectable st b" "b \<noteq> PartBd p" for b
    using that len assms(2) by (cases b) (auto simp: connectable_def nth_list_update)
  then have "parts_ok ?st" using assms len by (auto simp: bdm_wf_def parts_ok_def)
  ultimately show ?thesis using assms(1,2) len
    by (auto simp: bdm_wf_def shrinks_def filter_pending_def nth_list_update)
qed

lemma part_step_ok:
  assumes fs: "file_systems conn disc descendants" and i: "i < 10" and wf: "bdm_wf a"
    and body: "(if g_part a ! i = Some h then map_option (\<lambda>s'. s'\<lparr>g_part := (g_part s')[i := None]\<rparr>)
        (bdm_disconnect_bd disc (PartBd i) a) else Some a) = Some b"
  shows "bdm_wf b \<and> shrinks (descendants a h) a b \<and> g_part b ! i \<noteq> Some h"
proof (cases "g_part a ! i = Some h")
  case True
  then obtain c where c: "bdm_disconnect_bd disc (PartBd i) a = Some c"
    "b = c\<lparr>g_part := (g_part c)[i := None]\<rparr>" using body by auto
  have d: "bdm_wf c" "shrinks (file_systems.family descendants a (PartBd i)) a c"
    "\<forall>j < 20. m_bd (g_mount c ! j) \<noteq> Some (PartBd i)"
    using file_systems.disconnect_bd_ok [OF fs wf c(1)] by auto
  have "PartBd i \<in> descendants a h" using True i by (auto intro: descendants.child)
  then have "file_systems.family descendants a (PartBd i) \<subseteq> descendants a h"
    using descendants_below [of i a h] unfolding file_systems.family_def [OF fs] by blast
  then have ac: "shrinks (descendants a h) a c" using d(2) shrinks_mono by blast
  have cb: "bdm_wf b" "shrinks (descendants a h) c b" using release_ok [OF d(1) i d(3)] unfolding c(2) by auto
  have "g_part b ! i \<noteq> Some h" using d(1) i unfolding c(2) by (simp add: bdm_wf_def parts_ok_def)
  then show ?thesis using cb(1) shrinks_trans [OF ac cb(2)] by blast
qed (use body wf in auto)

lemma part_disconnect_ok:
  assumes fs: "file_systems conn disc descendants" and wf: "bdm_wf st"
    and run: "part_disconnect (bdm_disconnect_bd disc) h st = Some st'"
  shows "bdm_wf st' \<and> shrinks (descendants st h) st st' \<and> (\<forall>p < 10. g_part st' ! p \<noteq> Some h)"
proof -
  let ?R = "shrinks (descendants st h)" and ?I = "\<lambda>s. bdm_wf s \<and> descendants s h \<subseteq> descendants st h"
  let ?P = "\<lambda>p s. p < 10 \<longrightarrow> g_part s ! p \<noteq> Some h"
  note run' = run [unfolded part_disconnect_def]
  have step: "?R a b \<and> ?I b \<and> ?P i b" if i: "i \<in> set [0..<10]" and I: "?I a"
    and body: "(if g_part a ! i = Some h then map_option (\<lambda>s'. s'\<lparr>g_part := (g_part s')[i := None]\<rparr>)
        (bdm_disconnect_bd disc (PartBd i) a) else Some a) = Some b" for i a b
  proof -
    have ab: "bdm_wf b" "shrinks (descendants a h) a b" "g_part b ! i \<noteq> Some h"
      using part_step_ok [OF fs _ _ body] i I by auto
    then show ?thesis using I shrinks_mono [of _ _ a b] descendants_mono [OF ab(2), of h] by blast
  qed
  have keep: "?P i b" if "?R a b" "?P i a" for i a b using that by (auto simp: shrinks_def)
  have "?R st st' \<and> ?I st'"
    by (rule for_each_rel [OF run', of ?R ?I]) (use shrinks_trans step wf in \<open>blast+\<close> | simp)+
  moreover have "\<forall>i \<in> set [0..<10]. ?P i st'"
    by (rule for_each_all [OF run', of ?R ?I ?P]) (use shrinks_trans step keep wf in \<open>blast+\<close> | simp)+
  ultimately show ?thesis by auto
qed

lemma file_systems_part: "file_systems (fs_connect env mod_conn) (fs_disconnect n mod_disc) descendants"
proof (induction n)
  case 0
  show ?case by unfold_locales (simp, use descendants_mono in blast, use fs_connect_ok in blast)
next
  case (Suc n)
  show ?case
  proof
    fix f h and st st' :: "'a bdm"
    assume wf: "bdm_wf st" and run: "fs_disconnect (Suc n) mod_disc f h st = Some st'"
    show "bdm_wf st' \<and> shrinks (descendants st h) st st'"
    proof (cases f)
      case (ModFs k)
      then show ?thesis using run wf by (auto simp: shrinks_def filter_pending_def)
    qed (use part_disconnect_ok [OF Suc wf] run in simp_all)
  qed (use descendants_mono in blast, use fs_connect_ok in blast)
qed

interpretation bdm_fs: file_systems "fs_connect env mod_conn" "fs_disconnect n mod_disc" descendants
  for env mod_conn n mod_disc
  by (rule file_systems_part)

subsection \<open>Disconnecting returns\<close>

text \<open>At most \<open>n\<close> levels of partitions below \<open>h\<close>. A disk whose partitions are not partitioned
  again has one.\<close>

fun nested :: "nat \<Rightarrow> 'w bdm \<Rightarrow> bdref \<Rightarrow> bool" where
  "nested 0 st h \<longleftrightarrow> (\<forall>p < 10. g_part st ! p \<noteq> Some h)"
| "nested (Suc n) st h \<longleftrightarrow> (\<forall>p < 10. g_part st ! p = Some h \<longrightarrow>
     (\<forall>i < 20. m_bd (g_mount st ! i) = Some (PartBd p) \<longrightarrow> nested n st (mount_handle (g_mount st ! i))))"

lemma nested_shrinks: "shrinks F st st' \<Longrightarrow> nested n st h \<Longrightarrow> nested n st' h"
proof (induction n arbitrary: h)
  case 0
  then show ?case by (auto simp: shrinks_def)
next
  case (Suc n)
  show ?case unfolding nested.simps
  proof (intro allI impI)
    fix p i assume p: "p < 10" "g_part st' ! p = Some h" and i: "i < 20" "m_bd (g_mount st' ! i) = Some (PartBd p)"
    have "g_part st ! p = Some h" using p Suc.prems(1) by (auto simp: shrinks_def)
    moreover have "g_mount st' ! i = g_mount st ! i" using shrinks_slot [OF Suc.prems(1) i] .
    ultimately show "nested n st' (mount_handle (g_mount st' ! i))"
      using Suc p(1) i by simp
  qed
qed

lemma fs_disconnect_returns:
  "bdm_wf st \<Longrightarrow> nested n st h \<Longrightarrow> \<exists>st'. fs_disconnect (Suc n) mod_disc f h st = Some st'"
proof (induction n arbitrary: f h st)
  case 0
  have "for_each g is st = Some st" if "\<forall>i \<in> set is. g i st = Some st" for g :: "nat \<Rightarrow> 'a bdm \<Rightarrow> 'a bdm option" and "is"
    using that by (induction "is") auto
  then show ?case using 0 by (cases f) (auto simp: part_disconnect_def)
next
  case (Suc n)
  let ?d = "bdm_disconnect_bd (fs_disconnect (Suc n) mod_disc)"
  let ?I = "\<lambda>s. bdm_wf s \<and> nested (Suc n) s h"
  let ?g = "\<lambda>i s. if g_part s ! i = Some h
    then map_option (\<lambda>s'. s'\<lparr>g_part := (g_part s')[i := None]\<rparr>) (?d (PartBd i) s) else Some s"
  have "\<exists>b. ?g i a = Some b \<and> ?I b" if i: "i \<in> set [0..<10]" and I: "?I a" for i a
  proof (cases "g_part a ! i = Some h")
    case True
    let ?P = "\<lambda>s. \<forall>j < 20. m_bd (g_mount s ! j) = Some (PartBd i) \<longrightarrow> nested n s (mount_handle (g_mount s ! j))"
    have "?P a" using I True i by auto
    moreover have "?P y" if "?P x" "shrinks F x y" for F x y
      using that nested_shrinks shrinks_slot [OF that(2)] by metis
    moreover have "\<exists>s'. fs_disconnect (Suc n) mod_disc f (mount_handle (g_mount s ! j)) s = Some s'"
      if "bdm_wf s" "?P s" "j < 20" "m_bd (g_mount s ! j) = Some (PartBd i)" for s j f
      using Suc.IH that by blast
    ultimately obtain c where c: "?d (PartBd i) a = Some c"
      using file_systems.disconnect_bd_returns [OF file_systems_part, of a ?P "PartBd i" "Suc n" mod_disc] I by blast
    have d: "bdm_wf c" "shrinks (file_systems.family descendants a (PartBd i)) a c"
        "\<forall>j < 20. m_bd (g_mount c ! j) \<noteq> Some (PartBd i)"
      using file_systems.disconnect_bd_ok [OF file_systems_part _ c] I by auto
    have "bdm_wf (c\<lparr>g_part := (g_part c)[i := None]\<rparr>) \<and> shrinks UNIV c (c\<lparr>g_part := (g_part c)[i := None]\<rparr>)"
      using release_ok [OF d(1) _ d(3)] i by auto
    then have "?I (c\<lparr>g_part := (g_part c)[i := None]\<rparr>)"
      using I nested_shrinks [OF d(2)] nested_shrinks by blast
    then show ?thesis using True c by (simp del: nested.simps)
  qed (use I in auto)
  then have "\<exists>st'. for_each ?g [0..<10] st = Some st' \<and> ?I st'"
    using Suc.prems by (intro for_each_returns) auto
  then show ?case by (cases f) (auto simp: part_disconnect_def)
qed

text \<open>The depth is only fuel: a larger one gives the same result.\<close>

lemma for_each_mono:
  assumes "\<And>i s s'. f i s = Some s' \<Longrightarrow> g i s = Some s'" "for_each f is st = Some st'"
  shows "for_each g is st = Some st'"
  using assms(2) by (induction "is" arbitrary: st) (auto simp: assms(1) split: option.splits)

lemma disconnect_bd_mono:
  assumes "\<And>f h s s'. d f h s = Some s' \<Longrightarrow> e f h s = Some s'" "bdm_disconnect_bd d b st = Some st'"
  shows "bdm_disconnect_bd e b st = Some st'"
proof -
  have "bdm_disconnect_slot e b i s = Some s'" if "bdm_disconnect_slot d b i s = Some s'" for i s s'
    using that assms(1) by (auto simp: bdm_disconnect_slot_def Let_def split: option.splits if_splits)
  from for_each_mono [OF this] show ?thesis using assms(2) by (simp add: bdm_disconnect_bd_def)
qed

lemma part_disconnect_mono:
  assumes "\<And>b s s'. d b s = Some s' \<Longrightarrow> e b s = Some s'" "part_disconnect d h st = Some st'"
  shows "part_disconnect e h st = Some st'"
  using assms(2) unfolding part_disconnect_def by (rule for_each_mono [rotated]) (auto simp: assms(1) split: if_splits)

lemma fs_disconnect_depth:
  assumes "fs_disconnect n mod_disc f h st = Some st'" "n \<le> m"
  shows "fs_disconnect m mod_disc f h st = Some st'"
proof -
  have "fs_disconnect k mod_disc f h st = Some st' \<Longrightarrow> fs_disconnect (Suc k) mod_disc f h st = Some st'" for k f h st st'
  proof (induction k arbitrary: f h st st')
    case (Suc k)
    have "part_disconnect (bdm_disconnect_bd (fs_disconnect (Suc k) mod_disc)) h st = Some st'"
      if "part_disconnect (bdm_disconnect_bd (fs_disconnect k mod_disc)) h st = Some st'"
      by (rule part_disconnect_mono [OF _ that]) (rule disconnect_bd_mono [OF Suc.IH])
    then show ?case using Suc.prems by (cases f) auto
  qed simp
  then have "fs_disconnect (n + k) mod_disc f h st = Some st'" for k using assms(1) by (induction k) simp_all
  then show ?thesis using assms(2) by (metis le_add_diff_inverse)
qed

section \<open>What the scanners connect\<close>

definition free_parts :: "'w bdm \<Rightarrow> nat list" where
  "free_parts st = filter (\<lambda>p. g_part st ! p = None) [0..<length (g_part st)]"

text \<open>The device of a partition on the disk \<open>bd\<close>.\<close>

definition part_bd :: "block_device \<Rightarrow> part_desc \<Rightarrow> block_device" where
  "part_bd bd d = \<lparr>bd_name = bd_name bd, devNr = devNr bd, parNr = pd_parNr d, parId = pd_parId d,
     sectorSize = sectorSize bd, sectorOffset = sectorOffset bd + pd_offset d, sectorCount = pd_count d\<rparr>"

lemma first_index_filter:
  "first_index P xs = (case filter (\<lambda>i. P (xs ! i)) [0..<length xs] of [] \<Rightarrow> None | i # _ \<Rightarrow> Some i)"
proof (cases "first_index P xs")
  case None
  then show ?thesis using first_index_None [of P xs] by (auto simp: filter_empty_conv split: list.split)
next
  case (Some i)
  then have i: "i < length xs" "P (xs ! i)" "\<forall>j < i. \<not> P (xs ! j)" by (auto simp: first_index_Some)
  have "[0..<length xs] = [0..<i] @ i # [Suc i..<length xs]"
    using i(1) by (metis upt_conv_Cons upt_add_eq_append le_add_diff_inverse zero_le less_imp_le)
  then show ?thesis using Some i by (simp add: filter_empty_conv)
qed

lemma next_free: "GetNextFreePartitionIndex st = (case free_parts st of [] \<Rightarrow> None | p # _ \<Rightarrow> Some p)"
  by (simp add: GetNextFreePartitionIndex_def free_parts_def first_index_filter)

lemma free_after:
  assumes "free_parts st = p # ps"
  shows "free_parts (st\<lparr>g_part := (g_part st)[p := Some h]\<rparr>) = ps"
proof -
  have "distinct (free_parts st)" by (simp add: free_parts_def)
  then have np: "p \<notin> set ps" using assms by simp
  have "p \<in> set (free_parts st)" using assms by simp
  then have pl: "p < length (g_part st)" by (simp add: free_parts_def)
  have "filter (\<lambda>q. (g_part st)[p := Some h] ! q = None) [0..<length (g_part st)]
      = filter (\<lambda>q. q \<noteq> p) (free_parts st)"
    unfolding free_parts_def filter_filter
    by (rule filter_cong) (use pl in \<open>auto simp: nth_list_update\<close>)
  also have "\<dots> = ps" using assms np by (auto simp: filter_id_conv)
  finally show ?thesis by (simp add: free_parts_def)
qed

lemma connect_part_fields:
  assumes "parNr (bd_of st b) \<noteq> 0"
  shows "g_part (bdm_connect_bd b st) = g_part st" "bd_of (bdm_connect_bd b st) = bd_of st"
    "world (bdm_connect_bd b st) = world st"
  using assms by (auto simp: bdm_connect_bd_def Let_def set_mount_def split: option.split)

lemma part_create_fields:
  assumes "pd_parNr d \<noteq> 0"
  shows "g_part (part_create h d p st) = (g_part st)[p := Some h]"
    "bd_of (part_create h d p st) = (bd_of st)(PartBd p := part_bd (bd_of st h) d)"
    "world (part_create h d p st) = world st"
  using connect_part_fields [of "st\<lparr>g_part := (g_part st)[p := Some h],
      bd_of := (bd_of st)(PartBd p := part_bd (bd_of st h) d)\<rparr>" "PartBd p"] assms
  by (simp_all add: part_create_def part_bd_def Let_def)

definition add_parts :: "bdref \<Rightarrow> part_desc list \<Rightarrow> nat \<times> 'w bdm \<Rightarrow> nat \<times> 'w bdm" where
  "add_parts h ds ms = foldl (\<lambda>m d. part_add h d m) ms ds"

lemma add_parts_spec:
  assumes "\<forall>d \<in> set ds. pd_parNr d \<noteq> 0" "\<forall>p \<in> set (free_parts st). h \<noteq> PartBd p"
    and "add_parts h ds (c, st) = (c', st')"
  shows "c' = c + min (length ds) (length (free_parts st))
    \<and> (\<forall>j < min (length ds) (length (free_parts st)).
         g_part st' ! (free_parts st ! j) = Some h
         \<and> bd_of st' (PartBd (free_parts st ! j)) = part_bd (bd_of st h) (ds ! j))
    \<and> (\<forall>p. p \<notin> set (free_parts st) \<longrightarrow> g_part st' ! p = g_part st ! p \<and> bd_of st' (PartBd p) = bd_of st (PartBd p))
    \<and> bd_of st' h = bd_of st h"
  using assms
proof (induction ds arbitrary: c st)
  case Nil
  then show ?case by (simp add: add_parts_def)
next
  case (Cons d ds)
  show ?case
  proof (cases "free_parts st")
    case Nil
    have "foldl (\<lambda>m d. part_add h d m) (c, st) xs = (c, st)" for xs
      by (induction xs) (simp_all add: part_add_def next_free Nil)
    then have "(c', st') = (c, st)" using Cons.prems(3) by (simp only: add_parts_def)
    then show ?thesis using Nil by simp
  next
    case (Cons p ps)
    let ?s = "part_create h d p st"
    have d0: "pd_parNr d \<noteq> 0" using Cons.prems(1) by simp
    note f = part_create_fields [OF d0, of h p st]
    have run: "add_parts h ds (Suc c, ?s) = (c', st')"
      using Cons.prems(3) Cons by (simp add: add_parts_def part_add_def next_free)
    have fr: "free_parts ?s = ps" using free_after [OF Cons, of h] f(1) by (simp add: free_parts_def)
    have p: "p < length (g_part st)" "p \<notin> set ps" "h \<noteq> PartBd p"
    proof -
      have "distinct (free_parts st)" by (simp add: free_parts_def)
      then show "p \<notin> set ps" using Cons by simp
      have "p \<in> set (free_parts st)" using Cons by simp
      then show "p < length (g_part st)" "h \<noteq> PartBd p"
        using Cons.prems(2) by (simp add: free_parts_def, blast)
    qed
    have sub: "\<forall>q \<in> set (free_parts ?s). h \<noteq> PartBd q" using Cons.prems(2) Cons fr by simp
    have ih: "c' = Suc c + min (length ds) (length ps)"
      "\<forall>j < min (length ds) (length ps). g_part st' ! (ps ! j) = Some h
         \<and> bd_of st' (PartBd (ps ! j)) = part_bd (bd_of st h) (ds ! j)"
      "\<forall>q. q \<notin> set ps \<longrightarrow> g_part st' ! q = (g_part st)[p := Some h] ! q
         \<and> bd_of st' (PartBd q) = ((bd_of st)(PartBd p := part_bd (bd_of st h) d)) (PartBd q)"
      "bd_of st' h = bd_of st h"
      using Cons.IH [OF _ sub run] Cons.prems(1) p(3) unfolding fr f by simp_all
    have "\<forall>j < min (length (d # ds)) (length (free_parts st)).
         g_part st' ! (free_parts st ! j) = Some h
         \<and> bd_of st' (PartBd (free_parts st ! j)) = part_bd (bd_of st h) ((d # ds) ! j)"
      using ih(2,3) p unfolding Cons by (auto simp: nth_Cons split: nat.split)
    then show ?thesis using ih p unfolding Cons by (auto simp: nth_list_update)
  qed
qed

text \<open>The slots the partitions are connected in: the free ones, in order, unless the manager filters the disk out.\<close>

definition free_slots :: "'w bdm \<Rightarrow> nat list" where
  "free_slots st = filter (\<lambda>i. m_bd (g_mount st ! i) = None) [0..<length (g_mount st)]"

definition blocked :: "'w bdm \<Rightarrow> bdref \<Rightarrow> bool" where
  "blocked st h \<longleftrightarrow> g_ata_only st \<and> not_ata (bd_of st h)"

definition slot_of :: "nat \<Rightarrow> bdm_mounts \<Rightarrow> bdm_mounts" where
  "slot_of p m = m\<lparr>m_bd := Some (PartBd p), m_cbd := None\<rparr>"

lemma part_create_mounts:
  assumes "pd_parNr d \<noteq> 0" "h \<noteq> PartBd p"
  shows "g_mount (part_create h d p st) = (case free_slots st of [] \<Rightarrow> g_mount st
      | i # _ \<Rightarrow> if blocked st h then g_mount st else (g_mount st)[i := slot_of p (g_mount st ! i)])"
    "blocked (part_create h d p st) h = blocked st h" "bdm_event (part_create h d p st) = bdm_event st"
    "bit (event_bits st) 2 \<Longrightarrow> bit (event_bits (part_create h d p st)) 2"
    "free_slots st \<noteq> [] \<Longrightarrow> \<not> blocked st h \<Longrightarrow> 0 \<le> bdm_event st \<Longrightarrow> bit (event_bits (part_create h d p st)) 2"
proof -
  let ?st = "st\<lparr>g_part := (g_part st)[p := Some h], bd_of := (bd_of st)(PartBd p := part_bd (bd_of st h) d)\<rparr>"
  have pc: "part_create h d p st = bdm_connect_bd (PartBd p) ?st" by (simp add: part_create_def part_bd_def Let_def)
  have nz: "parNr (bd_of ?st (PartBd p)) \<noteq> 0" using assms(1) by (simp add: part_bd_def)
  have na: "not_ata (part_bd (bd_of st h) d) = not_ata (bd_of st h)" by (simp add: not_ata_def part_bd_def)
  have fi: "first_index (\<lambda>m. m_bd m = None) (g_mount st) = (case free_slots st of [] \<Rightarrow> None | i # _ \<Rightarrow> Some i)"
    by (simp add: first_index_filter free_slots_def)
  have four: "bit (4 :: u32) n \<longleftrightarrow> n = 2" for n using bit_exp_iff [where 'a = u32, of 2 n] by auto
  show "g_mount (part_create h d p st) = (case free_slots st of [] \<Rightarrow> g_mount st
      | i # _ \<Rightarrow> if blocked st h then g_mount st else (g_mount st)[i := slot_of p (g_mount st ! i)])"
    "blocked (part_create h d p st) h = blocked st h" "bdm_event (part_create h d p st) = bdm_event st"
    "bit (event_bits st) 2 \<Longrightarrow> bit (event_bits (part_create h d p st)) 2"
    "free_slots st \<noteq> [] \<Longrightarrow> \<not> blocked st h \<Longrightarrow> 0 \<le> bdm_event st \<Longrightarrow> bit (event_bits (part_create h d p st)) 2"
    using nz na assms(2) unfolding pc bdm_connect_bd_def
    by (auto simp: fi blocked_def slot_of_def set_mount_def set_event_def bit_or_iff four Let_def split: list.split)
qed

lemma free_slots_after:
  assumes "free_slots st = i # is" "g_mount st' = (g_mount st)[i := slot_of p (g_mount st ! i)]"
  shows "free_slots st' = is \<and> i < length (g_mount st) \<and> i \<notin> set is"
proof -
  have "distinct (free_slots st)" by (simp add: free_slots_def)
  moreover have "i \<in> set (free_slots st)" using assms(1) by simp
  ultimately have i: "i \<notin> set is" "i < length (g_mount st)" using assms(1) by (simp, simp add: free_slots_def)
  have "free_slots st' = filter (\<lambda>k. k \<noteq> i) (free_slots st)"
    unfolding free_slots_def filter_filter assms(2)
    by (simp, rule filter_cong) (use i in \<open>auto simp: nth_list_update slot_of_def\<close>)
  then show ?thesis using i assms(1) by (auto simp: filter_id_conv)
qed

text \<open>What the mount table is after \<open>n\<close> partitions, the ones of \<open>ps\<close>, were connected.\<close>

definition slots_filled :: "bool \<Rightarrow> nat list \<Rightarrow> nat \<Rightarrow> 'w bdm \<Rightarrow> 'w bdm \<Rightarrow> bool" where
  "slots_filled b ps n st st' \<longleftrightarrow>
     (\<forall>j < length (free_slots st). g_mount st' ! (free_slots st ! j)
        = (if j < n \<and> \<not> b then slot_of (ps ! j) (g_mount st ! (free_slots st ! j)) else g_mount st ! (free_slots st ! j)))
     \<and> (\<forall>i. i \<notin> set (free_slots st) \<longrightarrow> g_mount st' ! i = g_mount st ! i)"

lemma slots_filled_step:
  assumes s: "free_slots st = i # is" "g_mount s1 = (g_mount st)[i := slot_of p (g_mount st ! i)]"
    and f: "slots_filled False ps n s1 st'"
  shows "slots_filled False (p # ps) (Suc n) st st'"
proof -
  note a = free_slots_after [OF s]
  have m: "g_mount s1 ! k = (if k = i then slot_of p (g_mount st ! i) else g_mount st ! k)" for k
    using a by (simp add: s(2) nth_list_update)
  have f1: "g_mount st' ! (is ! j) = (if j < n then slot_of (ps ! j) (g_mount s1 ! (is ! j)) else g_mount s1 ! (is ! j))"
    if "j < length is" for j using f that a by (simp add: slots_filled_def)
  have f2: "g_mount st' ! k = g_mount s1 ! k" if "k \<notin> set is" for k using f that a by (simp add: slots_filled_def)
  have ne: "is ! j \<noteq> i" if "j < length is" for j using a that by auto
  show ?thesis unfolding slots_filled_def s(1)
    using f1 f2 a ne by (auto simp: m nth_Cons split: nat.split)
qed

lemma add_parts_mounts:
  assumes "\<forall>d \<in> set ds. pd_parNr d \<noteq> 0" "\<forall>p \<in> set (free_parts st). h \<noteq> PartBd p"
    and "add_parts h ds (c, st) = (c', st')" "n = min (length ds) (length (free_parts st))"
  shows "slots_filled (blocked st h) (free_parts st) n st st'
    \<and> (bit (event_bits st) 2 \<or> 0 < n \<and> free_slots st \<noteq> [] \<and> \<not> blocked st h \<and> 0 \<le> bdm_event st \<longrightarrow> bit (event_bits st') 2)"
  using assms
proof (induction ds arbitrary: c st n)
  case Nil
  then show ?case by (auto simp: add_parts_def slots_filled_def)
next
  case (Cons d ds)
  show ?case
  proof (cases "free_parts st")
    case Nil
    have "foldl (\<lambda>m d. part_add h d m) (c, st) xs = (c, st)" for xs
      by (induction xs) (simp_all add: part_add_def next_free Nil)
    then have "(c', st') = (c, st)" using Cons.prems(3) by (simp only: add_parts_def)
    then show ?thesis using Nil Cons.prems(4) by (auto simp: slots_filled_def)
  next
    case (Cons p ps)
    let ?s = "part_create h d p st"
    have d0: "pd_parNr d \<noteq> 0" and hp: "h \<noteq> PartBd p" using Cons.prems(1,2) Cons by simp_all
    note m = part_create_mounts [OF d0 hp, of st]
    have run: "add_parts h ds (Suc c, ?s) = (c', st')"
      using Cons.prems(3) Cons by (simp add: add_parts_def part_add_def next_free)
    have fr: "free_parts ?s = ps" using free_after [OF Cons, of h] part_create_fields(1) [OF d0, of h p st] by (simp add: free_parts_def)
    have n: "n = Suc (min (length ds) (length ps))" using Cons.prems(4) Cons by simp
    have ih: "slots_filled (blocked st h) ps (min (length ds) (length ps)) ?s st'"
      "bit (event_bits ?s) 2 \<longrightarrow> bit (event_bits st') 2"
      using Cons.IH [OF _ _ run refl] Cons.prems(1,2) fr m(2) Cons by auto
    have ev: "bit (event_bits st) 2 \<or> 0 < n \<and> free_slots st \<noteq> [] \<and> \<not> blocked st h \<and> 0 \<le> bdm_event st \<longrightarrow> bit (event_bits st') 2"
      using ih(2) m(4,5) by blast
    have "slots_filled (blocked st h) (p # ps) n st st'"
    proof (cases "free_slots st = [] \<or> blocked st h")
      case True
      then have "g_mount ?s = g_mount st" using m(1) by (auto split: list.split)
      then show ?thesis using ih(1) True by (auto simp: slots_filled_def free_slots_def)
    next
      case False
      then obtain i "is" where i: "free_slots st = i # is" by (cases "free_slots st") auto
      then have "g_mount ?s = (g_mount st)[i := slot_of p (g_mount st ! i)]" using m(1) False by simp
      from slots_filled_step [OF i this] show ?thesis using ih(1) False n by simp
    qed
    then show ?thesis using ev Cons by simp
  qed
qed

lemma four_bit: "(x :: u32) AND 4 \<noteq> 0 \<longleftrightarrow> bit x 2"
  using and_exp_eq_0_iff_not_bit [of x 2] by simp

lemma add_parts_connected:
  assumes "\<forall>d \<in> set ds. pd_parNr d \<noteq> 0" "\<forall>p \<in> set (free_parts st). h \<noteq> PartBd p"
    and "add_parts h ds (c, st) = (c', st')" "n = min (length ds) (length (free_parts st))"
  shows "\<forall>j < length (free_slots st). g_mount st' ! (free_slots st ! j)
        = (if j < n \<and> \<not> blocked st h then (g_mount st ! (free_slots st ! j))\<lparr>m_bd := Some (PartBd (free_parts st ! j)), m_cbd := None\<rparr>
           else g_mount st ! (free_slots st ! j))"
    "\<forall>i. i \<notin> set (free_slots st) \<longrightarrow> g_mount st' ! i = g_mount st ! i"
    "0 < n \<and> free_slots st \<noteq> [] \<and> \<not> blocked st h \<and> 0 \<le> bdm_event st \<longrightarrow> event_bits st' AND BDM_EVENT_MOUNT \<noteq> 0"
  using add_parts_mounts [OF assms] by (auto simp: slots_filled_def slot_of_def four_bit)

lemma free_world [simp]: "free_parts (st\<lparr>world := w\<rparr>) = free_parts st" "free_slots (st\<lparr>world := w\<rparr>) = free_slots st"
  "blocked (st\<lparr>world := w\<rparr>) h = blocked st h"
  by (simp_all add: free_parts_def free_slots_def blocked_def)

text \<open>The rest of the system is not touched by connecting a partition.\<close>

lemma connect_bd_world:
  "bdm_connect_bd b (st\<lparr>world := w\<rparr>) = (bdm_connect_bd b st)\<lparr>world := w\<rparr>" "world (bdm_connect_bd b st) = world st"
  by (auto simp: bdm_connect_bd_def new_cache_def set_mount_def set_event_def Let_def split: option.split prod.split)

lemma add_parts_world:
  "add_parts h ds (c, st\<lparr>world := w\<rparr>) = (fst (add_parts h ds (c, st)), (snd (add_parts h ds (c, st)))\<lparr>world := w\<rparr>)"
proof (induction ds arbitrary: c st)
  case (Cons d ds)
  have swap: "st\<lparr>world := w, g_part := a, bd_of := b\<rparr> = st\<lparr>g_part := a, bd_of := b, world := w\<rparr>" for a b by simp
  have pc: "part_create h d p (st\<lparr>world := w\<rparr>) = (part_create h d p st)\<lparr>world := w\<rparr>" for p
    by (simp add: part_create_def Let_def swap connect_bd_world(1))
  have "GetNextFreePartitionIndex (st\<lparr>world := w\<rparr>) = GetNextFreePartitionIndex st" by (simp add: GetNextFreePartitionIndex_def)
  then have "part_add h d (c, st\<lparr>world := w\<rparr>) = (fst (part_add h d (c, st)), (snd (part_add h d (c, st)))\<lparr>world := w\<rparr>)"
    by (simp add: part_add_def pc split: option.split)
  then show ?case using Cons.IH [of "fst (part_add h d (c, st))" "snd (part_add h d (c, st))"] by (simp add: add_parts_def)
qed (simp add: add_parts_def)

lemma of_nat_u32_nz: "0 < k \<Longrightarrow> k < 2 ^ 32 \<Longrightarrow> (of_nat k :: u32) \<noteq> 0"
  by (auto simp: word_of_nat_eq_0_iff dest: nat_dvd_not_less)

subsection \<open>MBR\<close>

lemma mbr_fold:
  "foldl (mbr_entry h b) ms is
   = add_parts h (map (mbr_desc b) (filter (\<lambda>i. mbr_sector_count b i \<noteq> 0) is)) ms"
  by (induction "is" arbitrary: ms) (simp_all add: add_parts_def mbr_entry_def)

subsection \<open>GPT\<close>

definition gpt_descs :: "gpt_header \<Rightarrow> nat \<Rightarrow> (nat \<Rightarrow> bytes) \<Rightarrow> nat \<Rightarrow> part_desc list" where
  "gpt_descs ph eps tbl j =
     map (\<lambda>x. gpt_desc (gpt_entry_of (tbl j) x) (j * eps + x))
       (filter (\<lambda>x. gpt_usable ph (gpt_entry_of (tbl j) x)) [0..<eps])"

lemma gpt_fold:
  "foldl (gpt_add_entry h ph b i) ms xs
   = add_parts h (map (\<lambda>x. gpt_desc (gpt_entry_of b x) (i + x))
       (filter (\<lambda>x. gpt_usable ph (gpt_entry_of b x)) xs)) ms"
  by (induction xs arbitrary: ms) (simp_all add: add_parts_def gpt_add_entry_def Let_def)

lemma less_ceil: "0 < e \<Longrightarrow> k < (c + e - 1) div e \<longleftrightarrow> k * e < (c :: nat)"
  by (simp only: Suc_le_eq [symmetric] less_eq_div_iff_mult_less_eq) auto

text \<open>The loop visits every sector of the table in order, whether or not entries before it are
  empty, up to the sector of the last entry.\<close>

lemma gpt_loop_eq:
  assumes eps: "0 < eps" and N: "N = (unat (gh_partition_count ph) + eps - 1) div eps"
    and rd: "\<And>j. j * eps < unat (gh_partition_count ph) \<Longrightarrow>
          pe_read env h (gh_partition_table_lba ph + of_nat j) (ws j) = (1, tbl j, ws (Suc j))"
    and len: "\<And>j. length (tbl j) = L" "length buf = L" and w: "world st = ws k" "k \<le> N"
  shows "gpt_loop env h ph eps buf (k * eps) (c, st)
    = (True, add_parts h (concat (map (gpt_descs ph eps tbl) [k..<N])) (c, st\<lparr>world := ws N\<rparr>))"
  using len(2) w
proof (induction "N - k" arbitrary: k buf c st)
  case 0
  then have "\<not> k < N" and k: "k = N" by simp_all
  then have "unat (gh_partition_count ph) \<le> k * eps" using less_ceil [OF eps, of k "unat (gh_partition_count ph)"] by (simp add: N)
  then show ?case using 0 by (subst gpt_loop.simps) (simp add: add_parts_def)
next
  case (Suc m)
  have k: "k < N" "k * eps < unat (gh_partition_count ph)"
    using Suc(2) less_ceil [OF eps, of k "unat (gh_partition_count ph)"] unfolding N by linarith+
  have ov: "overlay buf (tbl k) = tbl k" using Suc.prems(1) len(1) by (simp add: overlay_def)
  define st1 where "st1 = st\<lparr>world := ws (Suc k)\<rparr>"
  obtain c2 st2 where f: "foldl (gpt_add_entry h ph (tbl k) (k * eps)) (c, st1) [0..<eps] = (c2, st2)" by fastforce
  then have a: "add_parts h (gpt_descs ph eps tbl k) (c, st1) = (c2, st2)" by (simp add: gpt_fold gpt_descs_def)
  then have w2: "world st2 = ws (Suc k)" using add_parts_world [where h = h and c = c and st = st and w = "ws (Suc k)"] by (auto simp: st1_def)
  have "gpt_loop env h ph eps buf (k * eps) (c, st) = gpt_loop env h ph eps (tbl k) (Suc k * eps) (c2, st2)"
    using k(2) eps rd [OF k(2)] ov Suc.prems(2) f by (subst gpt_loop.simps) (simp add: Let_def add.commute st1_def)
  also have "\<dots> = (True, add_parts h (concat (map (gpt_descs ph eps tbl) [Suc k..<N])) (c2, st2\<lparr>world := ws N\<rparr>))"
    by (rule Suc.hyps(1)) (use Suc(2) len w2 k in auto)
  also have "(c2, st2\<lparr>world := ws N\<rparr>) = add_parts h (gpt_descs ph eps tbl k) (c, st\<lparr>world := ws N\<rparr>)"
    using a add_parts_world [where h = h and ds = "gpt_descs ph eps tbl k" and c = c and st = st1 and w = "ws N"] by (simp add: st1_def)
  also have "add_parts h (concat (map (gpt_descs ph eps tbl) [Suc k..<N])) (add_parts h (gpt_descs ph eps tbl k) (c, st\<lparr>world := ws N\<rparr>))
      = add_parts h (concat (map (gpt_descs ph eps tbl) [k..<N])) (c, st\<lparr>world := ws N\<rparr>)"
    using k(1) by (simp add: upt_conv_Cons add_parts_def)
  finally show ?case .
qed

text \<open>The window of a usable entry that is not inverted lies in the usable area of the header.\<close>

lemma gpt_window:
  assumes "gpt_usable ph e" "ge_first_lba e \<le> ge_last_lba e" "gh_last_lba ph < 0xffffffffffffffff"
  shows "unat (pd_offset (gpt_desc e i)) + unat (pd_count (gpt_desc e i)) = unat (ge_last_lba e) + 1"
    "unat (gh_first_lba ph) \<le> unat (pd_offset (gpt_desc e i))"
    "unat (pd_offset (gpt_desc e i)) + unat (pd_count (gpt_desc e i)) \<le> unat (gh_last_lba ph) + 1"
proof -
  have le: "unat (ge_first_lba e) \<le> unat (ge_last_lba e)" "unat (gh_first_lba ph) \<le> unat (ge_first_lba e)"
    "unat (ge_last_lba e) \<le> unat (gh_last_lba ph)"
    using assms(1,2) by (auto simp: gpt_usable_def word_le_nat_alt not_less)
  have lt: "unat (gh_last_lba ph) < 2 ^ 64 - 1"
    using assms(3) by (simp add: word_less_nat_alt)
  have "unat (ge_last_lba e - ge_first_lba e) = unat (ge_last_lba e) - unat (ge_first_lba e)"
    using assms(2) by (rule unat_sub_le)
  then have "unat (ge_last_lba e - ge_first_lba e + 1) = unat (ge_last_lba e) - unat (ge_first_lba e) + 1"
    using lt le by (subst unat_add_lt) simp_all
  then show "unat (pd_offset (gpt_desc e i)) + unat (pd_count (gpt_desc e i)) = unat (ge_last_lba e) + 1"
    "unat (gh_first_lba ph) \<le> unat (pd_offset (gpt_desc e i))"
    "unat (pd_offset (gpt_desc e i)) + unat (pd_count (gpt_desc e i)) \<le> unat (gh_last_lba ph) + 1"
    using le by (simp_all add: gpt_desc_def)
qed

section \<open>A concrete system\<close>

text \<open>The module's memory before start-up, with two disks described, and the module started.\<close>

definition cold_bdm :: "unit bdm" where
  "cold_bdm = \<lparr>g_mount = [], g_fs = [], g_cb = None, bdm_event = - 1, bdm_filter_event = - 1,
     bdm_thread_id = - 1, g_ata_only = False, event_bits = 0, filter_bits = 0,
     g_part = replicate 10 None,
     bd_of = (\<lambda>b. if b = DevBd 0 then \<lparr>bd_name = Some ''usb'', devNr = 0, parNr = 0, parId = 0, sectorSize = 512,
                  sectorOffset = 0, sectorCount = 1000\<rparr>
                else \<lparr>bd_name = Some ''ata'', devNr = 0, parNr = 0, parId = 0, sectorSize = 512,
                  sectorOffset = 0, sectorCount = 2000\<rparr>),
     cache_mem = [True, True], caches = [], next_cache = 0, cb_log = [], world = ()\<rparr>"

definition booted_bdm :: "unit bdm" where
  "booted_bdm = part_init (snd (snd (bdm_init 1 2 3 0 cold_bdm)))"

definition one_disk_bdm :: "unit bdm" where
  "one_disk_bdm = bdm_connect_bd (DevBd 0) booted_bdm"

lemma init_ok:
  assumes "bdm_init ev1 ev2 th start st0 = (0, evs, st)" "caches st0 = []" "\<not> g_ata_only st0"
  shows "bdm_wf (part_init st) \<and> bdm_started (part_init st) \<and> ata_promise (part_init st)"
proof -
  let ?s = "st\<lparr>g_part := replicate 10 None\<rparr>"
  have s: "g_mount st = replicate 20 no_mount" "g_fs st = replicate 20 None" "caches st = []"
    "0 \<le> bdm_event st" "0 \<le> bdm_filter_event st" "\<not> g_ata_only st"
    using assms by (auto simp: bdm_init_def Let_def split: if_splits)
  have "bdm_wf ?s" by (simp add: bdm_wf_def tables_ok_def caches_ok_def parts_ok_def s)
  then have "bdm_wf (part_init st)" by (simp add: part_init_def wf_connect_fs)
  moreover have "bdm_event (part_init st) = bdm_event st" "bdm_filter_event (part_init st) = bdm_filter_event st"
    "g_ata_only (part_init st) = g_ata_only st"
    by (auto simp: part_init_def bdm_connect_fs_def split: option.split)
  ultimately show ?thesis using s by (simp add: bdm_started_def ata_promise_def)
qed

lemma cold_init: "\<exists>evs. bdm_init 1 2 3 0 cold_bdm = (0, evs, snd (snd (bdm_init 1 2 3 0 cold_bdm)))"
  by (simp add: bdm_init_def Let_def)

lemma booted_ok: "bdm_wf booted_bdm" "bdm_started booted_bdm"
  using cold_init init_ok [of 1 2 3 0 cold_bdm _ "snd (snd (bdm_init 1 2 3 0 cold_bdm))"]
  by (auto simp: booted_bdm_def cold_bdm_def)

lemma booted_fields: "g_mount booted_bdm = replicate 20 no_mount" "g_part booted_bdm = replicate 10 None"
  "bd_of booted_bdm = bd_of cold_bdm" "\<not> g_ata_only booted_bdm" "cache_mem booted_bdm = [True, True]"
  "next_cache booted_bdm = 0"
  by (simp_all add: booted_bdm_def part_init_def bdm_connect_fs_def bdm_init_def cold_bdm_def Let_def set_event_def
      split: option.split)

lemma one_disk_ok: "bdm_wf one_disk_bdm"
  using connect_bd_wf [OF booted_ok(1), of "DevBd 0"] by (simp add: one_disk_bdm_def connectable_def)

lemma one_disk_fields:
  "g_mount one_disk_bdm = \<lparr>m_bd = Some (DevBd 0), m_cbd = Some (CacheBd 0), m_fs = None\<rparr> # replicate 19 no_mount"
  "g_part one_disk_bdm = replicate 10 None"
proof -
  have 20: "replicate 20 no_mount = no_mount # replicate 19 no_mount" by (simp flip: replicate_Suc)
  have fi: "first_index (\<lambda>m. m_bd m = None) (g_mount booted_bdm) = Some 0"
    by (simp add: booted_fields 20 del: replicate.simps)
  have bd: "parNr (bd_of booted_bdm (DevBd 0)) = 0" by (simp add: booted_fields cold_bdm_def)
  have upd: "no_mount\<lparr>m_bd := b, m_cbd := c\<rparr> = \<lparr>m_bd = b, m_cbd = c, m_fs = None\<rparr>" for b c
    by (simp add: no_mount_def)
  show "g_mount one_disk_bdm = \<lparr>m_bd = Some (DevBd 0), m_cbd = Some (CacheBd 0), m_fs = None\<rparr> # replicate 19 no_mount"
    using fi bd unfolding one_disk_bdm_def bdm_connect_bd_def
    by (simp add: booted_fields new_cache_def bd_cache_create_def Let_def upd)
       (simp add: 20)
  show "g_part one_disk_bdm = replicate 10 None"
    using fi bd unfolding one_disk_bdm_def bdm_connect_bd_def
    by (simp add: booted_fields new_cache_def bd_cache_create_def Let_def)
qed

section \<open>Properties\<close>

text \<open>C7. Every state the manager can reach from a successful \<open>bdm_init\<close> and \<open>part_init\<close>, by any
  sequence of calls of drivers and file systems and of thread iterations, keeps the tables
  well formed: free slots are empty, every cache belongs to exactly one slot and every slot's
  cache exists, mounted partition devices are in use. In ata-only mode every connected device
  is an ata device unless the filter pass is still pending.\<close>

theorem bdm_reachable_invariant:
  assumes "bdm_init ev1 ev2 th start st0 = (0, evs, st1)" "caches st0 = []" "\<not> g_ata_only st0"
    and "(bdm_step (fs_connect env mod_conn) (fs_disconnect n mod_disc))\<^sup>*\<^sup>* (part_init st1) st"
  shows "bdm_wf st \<and> ata_promise st"
  using bdm_fs.reachable_ok [OF assms(4)] init_ok [OF assms(1-3)] by blast

theorem bdm_reachable_invariant_witness: "bdm_wf one_disk_bdm \<and> ata_promise one_disk_bdm"
proof -
  obtain evs where "bdm_init 1 2 3 0 cold_bdm = (0, evs, snd (snd (bdm_init 1 2 3 0 cold_bdm)))"
    using cold_init by blast
  moreover have "caches cold_bdm = []" "\<not> g_ata_only cold_bdm" by (simp_all add: cold_bdm_def)
  moreover have "(bdm_step (fs_connect env mod_conn) (fs_disconnect 1 mod_disc))\<^sup>*\<^sup>*
      (part_init (snd (snd (bdm_init 1 2 3 0 cold_bdm)))) one_disk_bdm" for env mod_conn mod_disc
    unfolding one_disk_bdm_def booted_bdm_def by (rule r_into_rtranclp) (rule bdm_step.connect)
  ultimately show ?thesis by (rule bdm_reachable_invariant)
qed


lemma filter_returns:
  assumes "bdm_wf st" "\<forall>h. nested n st h"
  shows "\<exists>st'. bdm_thread_filter (fs_disconnect (Suc n) mod_disc) st = Some st'"
proof -
  note fs = file_systems_part [of undefined undefined "Suc n" mod_disc]
  let ?P = "\<lambda>s. \<forall>h. nested n s h"
  have "\<exists>y. bdm_filter_slot (fs_disconnect (Suc n) mod_disc) i x = Some y \<and> bdm_wf y \<and> ?P y"
    if i: "i \<in> set [0..<20]" and x: "bdm_wf x \<and> ?P x" for i x
  proof -
    have "\<exists>z. bdm_disconnect_bd (fs_disconnect (Suc n) mod_disc) b x = Some z" for b
      by (rule file_systems.disconnect_bd_returns [OF fs, of x ?P])
         (use x nested_shrinks fs_disconnect_returns in \<open>blast+\<close>)
    then have "\<exists>y. bdm_filter_slot (fs_disconnect (Suc n) mod_disc) i x = Some y"
      unfolding bdm_filter_slot_def by (cases "m_bd (g_mount x ! i)") auto
    then obtain y where y: "bdm_filter_slot (fs_disconnect (Suc n) mod_disc) i x = Some y" ..
    have "bdm_wf y \<and> shrinks UNIV x y" using file_systems.filter_slot_ok [OF fs _ _ y] x i by auto
    then show ?thesis using y x nested_shrinks by blast
  qed
  then have "\<exists>st'. for_each (bdm_filter_slot (fs_disconnect (Suc n) mod_disc)) [0..<20] st = Some st'
      \<and> bdm_wf st' \<and> ?P st'"
    using assms by (intro for_each_returns) auto
  then show ?thesis by (auto simp: bdm_thread_filter_def)
qed

text \<open>The ata-only filter. When the thread handles the filter request in ata-only mode the pass
  returns, every device left in the tables is an ata device or has no name, the tables stay
  well formed, and the caller of \<open>bdm_set_ata_only\<close> is woken.\<close>

theorem ata_filter_pass:
  assumes "bdm_wf st" "g_ata_only st" "\<forall>h. nested n st h"
  shows "\<exists>st' st''. bdm_thread_filter (fs_disconnect (Suc n) mod_disc) st = Some st' \<and> bdm_wf st'
    \<and> (\<forall>i < 20. \<forall>b. m_bd (g_mount st' ! i) = Some b \<longrightarrow> bd_name (bd_of st' b) \<in> {None, Some ''ata''})
    \<and> bdm_set_ata_only_resume st' = Some st''"
proof -
  obtain st' where run: "bdm_thread_filter (fs_disconnect (Suc n) mod_disc) st = Some st'"
    using filter_returns [OF assms(1,3)] by blast
  then have "bdm_wf st'" "\<forall>i < 20. slot_is_ata st' i" "filter_bits st' AND 1 = 1"
    using bdm_fs.thread_filter_ok [OF assms(1) run] assms(2) by auto
  moreover have "not_ata d \<or> bd_name d \<in> {None, Some ''ata''}" for d
    by (cases "bd_name d") (auto simp: not_ata_def)
  ultimately show ?thesis using run by (auto simp: bdm_set_ata_only_resume_def slot_is_ata_def)
qed

theorem ata_filter_pass_witness:
  "\<exists>st' st''. bdm_thread_filter (fs_disconnect 2 (\<lambda>k h d w. w)) (one_disk_bdm\<lparr>g_ata_only := True\<rparr>) = Some st'
     \<and> bdm_wf st' \<and> (\<forall>i < 20. \<forall>b. m_bd (g_mount st' ! i) = Some b \<longrightarrow> bd_name (bd_of st' b) \<in> {None, Some ''ata''})
     \<and> bdm_set_ata_only_resume st' = Some st''"
proof -
  have "nested 1 (one_disk_bdm\<lparr>g_ata_only := True\<rparr>) h" for h by (simp add: one_disk_fields)
  then show ?thesis
    using ata_filter_pass [of "one_disk_bdm\<lparr>g_ata_only := True\<rparr>" 1 "\<lambda>k h d w. w"] one_disk_ok
    by (simp only: wf_irrelevant numeral_2_eq_2 One_nat_def) simp
qed

text \<open>The mount pass keeps the tables well formed and every mounted slot mounted; a device
  that was connected before the pass is left unmounted only if every registered file system
  refused it during the pass.\<close>

theorem mount_pass_complete:
  assumes "bdm_wf st" "k < 20" "m_bd (g_mount st ! k) = Some b"
    and "m_fs (g_mount (bdm_thread_mount (fs_connect env mod_conn) st) ! k) = None" "Some f \<in> set (g_fs st)"
  shows "m_fs (g_mount st ! k) = None
    \<and> bdm_wf (bdm_thread_mount (fs_connect env mod_conn) st)
    \<and> (\<exists>s. advances st s \<and> fst (fs_connect env mod_conn f (mount_handle (g_mount st ! k)) s) \<noteq> 0)"
proof -
  have adv: "bdm_wf (bdm_thread_mount (fs_connect env mod_conn) st)"
    "advances st (bdm_thread_mount (fs_connect env mod_conn) st)"
    using bdm_fs.thread_mount_ok [OF assms(1)] by auto
  then show ?thesis
    using advances_slot(3) [OF adv(2) assms(2,3,4)] bdm_fs.thread_mount_complete [OF assms] by blast
qed

text \<open>An environment without memory: both scanners refuse every disk.\<close>

definition no_mem_env :: "unit part_env" where
  "no_mem_env = \<lparr>pe_read = (\<lambda>h a w. (- 5, [], w)), pe_alloc = (\<lambda>n w. (None, w))\<rparr>"

lemma no_mem_refuses: "fs_connect no_mem_env (\<lambda>k h d w. (- 1, w)) f h st = (- 1, st)"
  by (cases f) (simp_all add: fs_connect_def part_connect_mbr_def part_connect_gpt_def no_mem_env_def Let_def)

lemma no_mem_pass: "bdm_thread_mount (fs_connect no_mem_env (\<lambda>k h d w. (- 1, w))) st = st"
proof -
  have "bdm_try_fs (fs_connect no_mem_env (\<lambda>k h d w. (- 1, w))) k is st = st" for k "is"
    by (induction "is") (simp_all add: no_mem_refuses split: option.split)
  then have "bdm_mount_slot (fs_connect no_mem_env (\<lambda>k h d w. (- 1, w))) i st = st" for i
    by (simp add: bdm_mount_slot_def bdm_try_mount_def)
  then have "foldl (\<lambda>s i. bdm_mount_slot (fs_connect no_mem_env (\<lambda>k h d w. (- 1, w))) i s) st is = st" for "is"
    by (induction "is") simp_all
  then show ?thesis by (simp only: bdm_thread_mount_def)
qed

lemma one_disk_g_fs: "g_fs one_disk_bdm = (replicate 20 None)[0 := Some MbrFs, 1 := Some GptFs]" "g_cb one_disk_bdm = None"
proof -
  have "g_fs one_disk_bdm = g_fs booted_bdm" "g_cb one_disk_bdm = g_cb booted_bdm"
    using connect_bd_wf [OF booted_ok(1), of "DevBd 0"] by (simp_all add: one_disk_bdm_def connectable_def grows_def)
  moreover have "g_fs booted_bdm = (replicate 20 None)[0 := Some MbrFs, 1 := Some GptFs]" "g_cb booted_bdm = None"
    by (simp_all add: booted_bdm_def part_init_def bdm_connect_fs_def bdm_init_def cold_bdm_def Let_def set_event_def numeral_eq_Suc)
  ultimately show "g_fs one_disk_bdm = (replicate 20 None)[0 := Some MbrFs, 1 := Some GptFs]" "g_cb one_disk_bdm = None" by simp_all
qed

lemma one_disk_fs: "Some MbrFs \<in> set (g_fs one_disk_bdm)"
  by (simp add: one_disk_g_fs set_conv_nth) (auto intro: exI [of _ 0])

theorem mount_pass_complete_witness:
  "\<exists>s. advances one_disk_bdm s \<and>
     fst (fs_connect no_mem_env (\<lambda>k h d w. (- 1, w)) MbrFs (mount_handle (g_mount one_disk_bdm ! 0)) s) \<noteq> 0"
  using mount_pass_complete [OF one_disk_ok, of 0 "DevBd 0" no_mem_env "\<lambda>k h d w. (- 1, w)" MbrFs] one_disk_fs
  by (simp add: no_mem_pass one_disk_fields)

text \<open>A partition device shows exactly its window of the disk: for every parent that meets the
  block-device contract and has the window, the partition meets it on the sectors from
  \<open>sectorOffset\<close>, so its reads see and its writes change no sector outside the partition.\<close>

theorem part_is_block_store:
  assumes "block_store ops ok dsk ssz nsec"
    and "unat (sectorOffset bd) + unat (sectorCount bd) \<le> nsec" "nsec < 2 ^ 64"
  shows "block_store (part_ops (Some ops) bd) ok (\<lambda>s k. dsk s (k + unat (sectorOffset bd))) ssz
           (unat (sectorCount bd))"
  using block_store.part_store [OF assms(1,2,3)] .

theorem part_is_block_store_witness:
  "block_store (part_ops (Some (ram_ops 512 1000))
       \<lparr>bd_name = None, devNr = 0, parNr = 1, parId = 12, sectorSize = 512, sectorOffset = 63, sectorCount = 900\<rparr>)
     (ram_inv 512) (\<lambda>s k. id s (k + 63)) 512 900"
  using part_is_block_store [OF ram512.block_store_axioms [of 1000],
      of "\<lparr>bd_name = None, devNr = 0, parNr = 1, parId = 12, sectorSize = 512, sectorOffset = 63, sectorCount = 900\<rparr>"]
  by simp

text \<open>C27. The MBR scanner. On a readable whole disk with a valid, non-protective boot sector every
  entry with a non-zero sector count gets the next free partition entry, in table order, with
  the entry's start and length, and its device is connected to the manager: it is put, without a cache, into the next free
  slot of the mount table and the mount event is set, unless the manager is in ata-only mode and the disk is no ata device.
  Entries beyond the free partition entries are dropped; all other partition entries and slots
  are untouched; the result is 0 exactly if a partition entry was filled.\<close>

theorem mbr_scan_correct:
  assumes "sectorOffset (bd_of st h) = 0" "sector_size_ok (bd_of st h)"
    and "pe_alloc env (sectorSize (bd_of st h)) (world st) = (Some junk, w1)" "pe_read env h 0 w1 = (1, d, w2)"
    and "b = overlay junk d" "mbr_boot_signature b = 0xaa55" "mbr_partition_type b 0 \<noteq> 0xee"
    and "\<forall>p \<in> set (free_parts st). h \<noteq> PartBd p"
    and "used = filter (\<lambda>i. mbr_sector_count b i \<noteq> 0) [0..<4]"
    and "n = min (length used) (length (free_parts st))"
  shows "\<exists>st'. part_connect_mbr env h st = (if n > 0 then 0 else - 1, st')
    \<and> (\<forall>j < n. g_part st' ! (free_parts st ! j) = Some h
         \<and> bd_of st' (PartBd (free_parts st ! j)) = part_bd (bd_of st h) (mbr_desc b (used ! j)))
    \<and> (\<forall>p. p \<notin> set (free_parts st) \<longrightarrow> g_part st' ! p = g_part st ! p
         \<and> bd_of st' (PartBd p) = bd_of st (PartBd p))
    \<and> (\<forall>j < length (free_slots st). g_mount st' ! (free_slots st ! j)
         = (if j < n \<and> \<not> blocked st h
            then (g_mount st ! (free_slots st ! j))\<lparr>m_bd := Some (PartBd (free_parts st ! j)), m_cbd := None\<rparr>
            else g_mount st ! (free_slots st ! j)))
    \<and> (\<forall>i. i \<notin> set (free_slots st) \<longrightarrow> g_mount st' ! i = g_mount st ! i)
    \<and> (0 < n \<and> free_slots st \<noteq> [] \<and> \<not> blocked st h \<and> 0 \<le> bdm_event st \<longrightarrow> event_bits st' AND BDM_EVENT_MOUNT \<noteq> 0)"
proof -
  let ?st = "st\<lparr>world := w2\<rparr>" and ?ds = "map (mbr_desc b) used"
  obtain c st' where run: "add_parts h ?ds (0, ?st) = (c, st')" by fastforce
  have "pd_parNr (mbr_desc b i) \<noteq> 0" if "i < 4" for i
    using that of_nat_u32_nz [of "i + 1"] by (simp add: mbr_desc_def)
  then have nz: "\<forall>d \<in> set ?ds. pd_parNr d \<noteq> 0" using assms(9) by auto
  have "foldl (mbr_entry h b) (0, ?st) [0..<4] = (c, st')" unfolding mbr_fold assms(9) [symmetric] by (rule run)
  then have "part_connect_mbr env h st = (if c > 0 then 0 else - 1, st')"
    using assms(1-4,6,7) assms(5) by (simp add: part_connect_mbr_def Let_def)
  moreover have "h \<noteq> PartBd p" if "p \<in> set (free_parts ?st)" for p using that assms(8) by simp
  ultimately show ?thesis
    using add_parts_spec [OF nz _ run] add_parts_connected [OF nz _ run refl] by (simp add: assms(10))
qed

text \<open>A boot sector with one FAT32 partition of 900 sectors at sector 63.\<close>

definition demo_mbr :: bytes where
  "demo_mbr = map (\<lambda>k. if k = 0x1c2 then 0x0c else if k = 0x1c6 then 63 else if k = 0x1ca then 0x84
     else if k = 0x1cb then 3 else if k = 0x1fe then 0x55 else if k = 0x1ff then 0xaa else 0) [0..<512]"

definition demo_env :: "unit part_env" where
  "demo_env = \<lparr>pe_read = (\<lambda>h a w. (1, demo_mbr, w)), pe_alloc = (\<lambda>n w. (Some [], w))\<rparr>"

lemma demo_mbr_nth: "k < 512 \<Longrightarrow> demo_mbr ! k =
    (if k = 0x1c2 then 0x0c else if k = 0x1c6 then 63 else if k = 0x1ca then 0x84
     else if k = 0x1cb then 3 else if k = 0x1fe then 0x55 else if k = 0x1ff then 0xaa else 0)"
  unfolding demo_mbr_def by (subst nth_map) (auto simp del: upt_rec_numeral)

lemma demo_mbr_used: "filter (\<lambda>i. mbr_sector_count demo_mbr i \<noteq> 0) [0..<4] = [0]"
  by (simp add: mbr_sector_count_def le32_def le16_def demo_mbr_nth upt_rec)

lemma one_disk_free: "free_slots one_disk_bdm = [1..<20]" "\<not> blocked one_disk_bdm h"
proof -
  have "free_slots one_disk_bdm = filter (\<lambda>i. i \<noteq> 0) (0 # [1..<20])"
    unfolding free_slots_def by (rule filter_cong) (auto simp: one_disk_fields nth_Cons' upt_rec [of 0])
  then show "free_slots one_disk_bdm = [1..<20]" by (simp add: filter_id_conv del: upt_rec_numeral)
  have "g_ata_only one_disk_bdm = g_ata_only booted_bdm"
    using connect_bd_wf [OF booted_ok(1), of "DevBd 0"] by (simp add: one_disk_bdm_def connectable_def grows_def)
  then show "\<not> blocked one_disk_bdm h" by (simp add: blocked_def booted_fields)
qed

theorem mbr_scan_correct_witness:
  "\<exists>st'. part_connect_mbr demo_env (DevBd 0) one_disk_bdm = (0, st') \<and> g_part st' ! 0 = Some (DevBd 0)
    \<and> m_bd (g_mount st' ! 1) = Some (PartBd 0)
    \<and> sectorOffset (bd_of st' (PartBd 0)) = 63 \<and> sectorCount (bd_of st' (PartBd 0)) = 900"
proof -
  have bd: "bd_of one_disk_bdm (DevBd 0) = bd_of cold_bdm (DevBd 0)"
    by (simp add: one_disk_bdm_def bdm_connect_bd_def new_cache_def bd_cache_create_def Let_def booted_fields
        split: option.split)
  have fr: "free_parts one_disk_bdm = [0..<10]" by (simp add: free_parts_def one_disk_fields filter_id_conv)
  have ov: "overlay [] demo_mbr = demo_mbr" by (simp add: overlay_def)
  have "\<exists>st'. part_connect_mbr demo_env (DevBd 0) one_disk_bdm = (if 1 > (0 :: nat) then 0 else - 1, st')
    \<and> (\<forall>j < 1. g_part st' ! (free_parts one_disk_bdm ! j) = Some (DevBd 0)
         \<and> bd_of st' (PartBd (free_parts one_disk_bdm ! j))
           = part_bd (bd_of one_disk_bdm (DevBd 0)) (mbr_desc demo_mbr ([0] ! j)))
    \<and> (\<forall>p. p \<notin> set (free_parts one_disk_bdm) \<longrightarrow> g_part st' ! p = g_part one_disk_bdm ! p
         \<and> bd_of st' (PartBd p) = bd_of one_disk_bdm (PartBd p))
    \<and> (\<forall>j < length (free_slots one_disk_bdm). g_mount st' ! (free_slots one_disk_bdm ! j)
         = (if j < 1 \<and> \<not> blocked one_disk_bdm (DevBd 0)
            then (g_mount one_disk_bdm ! (free_slots one_disk_bdm ! j))\<lparr>m_bd := Some (PartBd (free_parts one_disk_bdm ! j)), m_cbd := None\<rparr>
            else g_mount one_disk_bdm ! (free_slots one_disk_bdm ! j)))
    \<and> (\<forall>i. i \<notin> set (free_slots one_disk_bdm) \<longrightarrow> g_mount st' ! i = g_mount one_disk_bdm ! i)
    \<and> (0 < (1 :: nat) \<and> free_slots one_disk_bdm \<noteq> [] \<and> \<not> blocked one_disk_bdm (DevBd 0) \<and> 0 \<le> bdm_event one_disk_bdm
        \<longrightarrow> event_bits st' AND BDM_EVENT_MOUNT \<noteq> 0)"
    by (rule mbr_scan_correct [where junk = "[]" and d = demo_mbr and ?w1.0 = "()" and ?w2.0 = "()"])
       (simp_all add: bd fr ov demo_mbr_used demo_env_def cold_bdm_def sector_size_ok_def mbr_boot_signature_def
        mbr_partition_type_def le16_def demo_mbr_nth)
  then show ?thesis
    by (auto simp: fr bd one_disk_free part_bd_def mbr_desc_def mbr_first_lba_def mbr_sector_count_def le32_def le16_def
        demo_mbr_nth cold_bdm_def)
qed







text \<open>C28. The GPT scanner. On a readable disk with the GPT signature every usable entry of the table
  (not empty, inside the header's range, not an ignored type or attribute) gets the next free
  partition entry, in table order and however sparse the table is, with the entry's start and
  inclusive length, and its device is connected to the manager: it is put, without a cache, into the next free slot of the
  mount table and the mount event is set, unless the manager is in ata-only mode and the disk is no ata device. The
  result is 0 exactly if a partition entry was filled. All entries of the last
  table sector count, also those past \<open>partition_count\<close>. \<open>ws\<close> are the states the rest of the system goes through while
  the table is read.\<close>

theorem gpt_scan_correct:
  assumes "sectorOffset (bd_of st h) = 0" "sector_size_ok (bd_of st h)"
    and "pe_alloc env (sectorSize (bd_of st h) * 2) (world st) = (Some junk, w1)"
    and "length junk = 2 * unat (sectorSize (bd_of st h))" "pe_read env h 1 w1 = (1, d, w2)"
    and "ph = gpt_header_of (overlay junk d)" "gh_signature ph = EFI_PARTITION_SIGNATURE"
    and "eps = unat (sectorSize (bd_of st h)) div 128" "unat (gh_partition_count ph) < 2 ^ 31"
    and "ws 0 = w2" "\<forall>j. j * eps < unat (gh_partition_count ph) \<longrightarrow>
          pe_read env h (gh_partition_table_lba ph + of_nat j) (ws j) = (1, tbl j, ws (Suc j))"
    and "\<forall>j. length (tbl j) = unat (sectorSize (bd_of st h))"
    and "\<forall>p \<in> set (free_parts st). h \<noteq> PartBd p"
    and "ds = concat (map (gpt_descs ph eps tbl) [0..<(unat (gh_partition_count ph) + eps - 1) div eps])"
    and "n = min (length ds) (length (free_parts st))"
  shows "\<exists>st'. part_connect_gpt env h st = (if n > 0 then 0 else - 1, st')
    \<and> (\<forall>j < n. g_part st' ! (free_parts st ! j) = Some h
         \<and> bd_of st' (PartBd (free_parts st ! j)) = part_bd (bd_of st h) (ds ! j))
    \<and> (\<forall>p. p \<notin> set (free_parts st) \<longrightarrow> g_part st' ! p = g_part st ! p
         \<and> bd_of st' (PartBd p) = bd_of st (PartBd p))
    \<and> (\<forall>j < length (free_slots st). g_mount st' ! (free_slots st ! j)
         = (if j < n \<and> \<not> blocked st h
            then (g_mount st ! (free_slots st ! j))\<lparr>m_bd := Some (PartBd (free_parts st ! j)), m_cbd := None\<rparr>
            else g_mount st ! (free_slots st ! j)))
    \<and> (\<forall>i. i \<notin> set (free_slots st) \<longrightarrow> g_mount st' ! i = g_mount st ! i)
    \<and> (0 < n \<and> free_slots st \<noteq> [] \<and> \<not> blocked st h \<and> 0 \<le> bdm_event st \<longrightarrow> event_bits st' AND BDM_EVENT_MOUNT \<noteq> 0)"
proof -
  let ?N = "(unat (gh_partition_count ph) + eps - 1) div eps"
  let ?st = "st\<lparr>world := ws ?N\<rparr>" and ?ss = "unat (sectorSize (bd_of st h))"
  have ss: "512 \<le> ?ss" "?ss \<le> 4096"
    using assms(2) by (simp_all add: sector_size_ok_def not_less word_le_nat_alt)
  then have eps: "0 < eps" "eps \<le> 32" using assms(8) by (auto simp: div_le_mono)
  obtain c st' where run: "add_parts h ds (0, ?st) = (c, st')" by fastforce
  have nz: "\<forall>d \<in> set ds. pd_parNr d \<noteq> 0"
  proof
    fix e assume "e \<in> set ds"
    then obtain j x where e: "e = gpt_desc (gpt_entry_of (tbl j) x) (j * eps + x)" "x < eps"
      and j: "j < (unat (gh_partition_count ph) + eps - 1) div eps"
      unfolding assms(14) by (auto simp: gpt_descs_def)
    have "j * eps + x + 1 < 2 ^ 32" using j less_ceil [OF eps(1), of j] e(2) eps(2) assms(9) by simp
    then show "pd_parNr e \<noteq> 0" using of_nat_u32_nz [of "j * eps + x + 1"] by (simp add: e gpt_desc_def)
  qed
  have "gpt_loop env h ph eps (drop ?ss junk) (0 * eps) (0, st\<lparr>world := w2\<rparr>) = (True, add_parts h ds (0, st\<lparr>world := w2, world := ws ?N\<rparr>))"
    unfolding assms(14) by (rule gpt_loop_eq [where L = ?ss and N = ?N, OF eps(1) refl]) (use assms(4,10-12) in auto)
  then have "gpt_loop env h ph eps (drop ?ss junk) 0 (0, st\<lparr>world := w2\<rparr>) = (True, c, st')" using run by simp
  then have "part_connect_gpt env h st = (if c > 0 then 0 else - 1, st')"
    using assms(1-3,5,7) unfolding assms(6,8) by (simp add: part_connect_gpt_def Let_def)
  moreover have "h \<noteq> PartBd p" if "p \<in> set (free_parts ?st)" for p using that assms(13) by simp
  ultimately show ?thesis
    using add_parts_spec [OF nz _ run] add_parts_connected [OF nz _ run refl] by (simp add: assms(15))
qed

text \<open>A GPT disk whose second entry is a partition of sectors 40 to 100.\<close>

definition demo_gpt_header :: bytes where
  "demo_gpt_header = EFI_PARTITION_SIGNATURE @ map (\<lambda>k. if k = 0x20 then 34 else if k = 0x28 then 0xe7
     else if k = 0x29 then 3 else if k = 0x40 then 2 else if k = 0x48 then 4 else 0) [0..<504]"

definition demo_gpt_table :: bytes where
  "demo_gpt_table = map (\<lambda>k. if k = 128 then 0xa2 else if k = 0xa0 then 40 else if k = 0xa8 then 100 else 0) [0..<512]"

definition demo_gpt_env :: "unit part_env" where
  "demo_gpt_env = \<lparr>pe_read = (\<lambda>h a w. (1, if a = 1 then demo_gpt_header else demo_gpt_table, w)),
     pe_alloc = (\<lambda>n w. (Some (replicate (unat n) 0), w))\<rparr>"

lemma demo_gpt_lengths: "length demo_gpt_header = 512" "length demo_gpt_table = 512"
  by (simp_all add: demo_gpt_header_def demo_gpt_table_def EFI_PARTITION_SIGNATURE_def del: upt_rec_numeral)

lemma demo_gpt_table_nth: "k < 512 \<Longrightarrow> demo_gpt_table ! k =
    (if k = 128 then 0xa2 else if k = 0xa0 then 40 else if k = 0xa8 then 100 else 0)"
  unfolding demo_gpt_table_def by (subst nth_map) (auto simp del: upt_rec_numeral)

lemma demo_gpt_header_nth: "8 \<le> k \<Longrightarrow> k < 512 \<Longrightarrow> demo_gpt_header ! k =
    (if k = 0x28 then 34 else if k = 0x30 then 0xe7 else if k = 0x31 then 3 else if k = 0x48 then 2
     else if k = 0x50 then 4 else 0)"
  unfolding demo_gpt_header_def
  by (subst nth_append, subst nth_map) (auto simp: EFI_PARTITION_SIGNATURE_def simp del: upt_rec_numeral)

lemma demo_gpt_header_fields: "gpt_header_of demo_gpt_header = \<lparr>gh_signature = EFI_PARTITION_SIGNATURE,
    gh_first_lba = 34, gh_last_lba = 999, gh_partition_table_lba = 2, gh_partition_count = 4\<rparr>"
proof -
  have "take 8 demo_gpt_header = EFI_PARTITION_SIGNATURE"
    by (simp add: demo_gpt_header_def EFI_PARTITION_SIGNATURE_def del: upt_rec_numeral)
  then show ?thesis
    by (simp add: gpt_header_of_def le64_def le32_def le16_def demo_gpt_header_nth)
qed

lemma demo_gpt_guid: "x < 4 \<Longrightarrow> x \<noteq> 1 \<Longrightarrow> take 16 (drop (128 * x) demo_gpt_table) = replicate 16 0"
  by (rule nth_equalityI) (auto simp: demo_gpt_lengths demo_gpt_table_nth)

lemma demo_gpt_guid1: "take 16 (drop 128 demo_gpt_table) ! 0 = 0xa2" "take 16 (drop 128 demo_gpt_table) ! 1 = 0"
  by (simp_all add: demo_gpt_lengths demo_gpt_table_nth)

lemma demo_gpt_descs:
  "gpt_descs (gpt_header_of demo_gpt_header) 4 (\<lambda>j. demo_gpt_table) 0
   = [\<lparr>pd_parNr = 2, pd_parId = 0, pd_offset = 40, pd_count = 61\<rparr>]"
proof -
  have differ: "g ! 0 \<noteq> 0xa2 \<Longrightarrow> take 16 (drop 128 demo_gpt_table) \<noteq> g" for g
    using demo_gpt_guid1 by metis
  have g1: "take 16 (drop 128 demo_gpt_table) \<noteq> replicate 16 0"
    "take 16 (drop 128 demo_gpt_table) \<noteq> MS_RESERVED_PARTITION_GUID"
    "take 16 (drop 128 demo_gpt_table) \<noteq> EFI_SYSTEM_PARTITION"
    by (rule differ, simp add: MS_RESERVED_PARTITION_GUID_def EFI_SYSTEM_PARTITION_def)+
  have no: "\<not> gpt_usable ph (gpt_entry_of demo_gpt_table x)" if "x < 4" "x \<noteq> 1" for ph x
    using demo_gpt_guid [OF that] by (simp add: gpt_usable_def gpt_entry_of_def)
  have yes: "gpt_usable (gpt_header_of demo_gpt_header) (gpt_entry_of demo_gpt_table 1)"
    using g1 by (simp add: gpt_usable_def gpt_entry_of_def demo_gpt_header_fields le64_def le32_def le16_def
        demo_gpt_table_nth)
  have "filter (\<lambda>x. gpt_usable (gpt_header_of demo_gpt_header) (gpt_entry_of demo_gpt_table x)) [0, 1, 2, 3] = [1]"
    using no [of 0] no [of 2] no [of 3] yes by simp
  moreover have "[0..<4] = [0, 1, 2, 3 :: nat]" by (simp add: upt_rec)
  ultimately show ?thesis
    by (simp add: gpt_descs_def gpt_desc_def gpt_entry_of_def le64_def le32_def le16_def demo_gpt_table_nth)
qed

theorem gpt_scan_correct_witness:
  "\<exists>st'. part_connect_gpt demo_gpt_env (DevBd 0) one_disk_bdm = (0, st') \<and> g_part st' ! 0 = Some (DevBd 0)
    \<and> m_bd (g_mount st' ! 1) = Some (PartBd 0)
    \<and> sectorOffset (bd_of st' (PartBd 0)) = 40 \<and> sectorCount (bd_of st' (PartBd 0)) = 61"
proof -
  let ?d = "\<lparr>pd_parNr = 2, pd_parId = 0, pd_offset = 40, pd_count = 61\<rparr>"
  have bd: "bd_of one_disk_bdm (DevBd 0) = bd_of cold_bdm (DevBd 0)"
    by (simp add: one_disk_bdm_def bdm_connect_bd_def new_cache_def bd_cache_create_def Let_def booted_fields
        split: option.split)
  have ss: "sectorSize (bd_of cold_bdm (DevBd 0)) = 512" "sectorOffset (bd_of cold_bdm (DevBd 0)) = 0"
    by (simp_all add: cold_bdm_def)
  have fr: "free_parts one_disk_bdm = [0..<10]" by (simp add: free_parts_def one_disk_fields filter_id_conv)
  have ph: "gpt_header_of demo_gpt_header = gpt_header_of (overlay (replicate 1024 0) demo_gpt_header)"
    by (simp add: gpt_header_of_def overlay_def le64_def le32_def le16_def nth_append demo_gpt_lengths del: replicate.simps)
  have "\<exists>st'. part_connect_gpt demo_gpt_env (DevBd 0) one_disk_bdm = (if 1 > (0 :: nat) then 0 else - 1, st')
    \<and> (\<forall>j < 1. g_part st' ! (free_parts one_disk_bdm ! j) = Some (DevBd 0)
         \<and> bd_of st' (PartBd (free_parts one_disk_bdm ! j)) = part_bd (bd_of one_disk_bdm (DevBd 0)) ([?d] ! j))
    \<and> (\<forall>p. p \<notin> set (free_parts one_disk_bdm) \<longrightarrow> g_part st' ! p = g_part one_disk_bdm ! p
         \<and> bd_of st' (PartBd p) = bd_of one_disk_bdm (PartBd p))
    \<and> (\<forall>j < length (free_slots one_disk_bdm). g_mount st' ! (free_slots one_disk_bdm ! j)
         = (if j < 1 \<and> \<not> blocked one_disk_bdm (DevBd 0)
            then (g_mount one_disk_bdm ! (free_slots one_disk_bdm ! j))\<lparr>m_bd := Some (PartBd (free_parts one_disk_bdm ! j)), m_cbd := None\<rparr>
            else g_mount one_disk_bdm ! (free_slots one_disk_bdm ! j)))
    \<and> (\<forall>i. i \<notin> set (free_slots one_disk_bdm) \<longrightarrow> g_mount st' ! i = g_mount one_disk_bdm ! i)
    \<and> (0 < (1 :: nat) \<and> free_slots one_disk_bdm \<noteq> [] \<and> \<not> blocked one_disk_bdm (DevBd 0) \<and> 0 \<le> bdm_event one_disk_bdm
        \<longrightarrow> event_bits st' AND BDM_EVENT_MOUNT \<noteq> 0)"
  proof (rule gpt_scan_correct [where junk = "replicate 1024 0" and d = demo_gpt_header and ?w1.0 = "()" and ?w2.0 = "()"
        and eps = 4 and tbl = "\<lambda>j. demo_gpt_table" and ws = "\<lambda>j. ()" and ph = "gpt_header_of demo_gpt_header"])
    show "\<forall>j. j * 4 < unat (gh_partition_count (gpt_header_of demo_gpt_header)) \<longrightarrow>
      pe_read demo_gpt_env (DevBd 0) (gh_partition_table_lba (gpt_header_of demo_gpt_header) + of_nat j) ()
        = (1, demo_gpt_table, ())"
      by (auto simp: demo_gpt_header_fields demo_gpt_env_def)
    show "[?d] = concat (map (gpt_descs (gpt_header_of demo_gpt_header) 4 (\<lambda>j. demo_gpt_table))
        [0..<(unat (gh_partition_count (gpt_header_of demo_gpt_header)) + 4 - 1) div 4])"
      using demo_gpt_descs by (simp add: demo_gpt_header_fields)
  qed (simp_all add: ph [symmetric] bd ss fr sector_size_ok_def demo_gpt_header_fields demo_gpt_lengths demo_gpt_env_def)
  then show ?thesis by (auto simp: fr bd part_bd_def ss one_disk_free)
qed

text \<open>The window of a usable GPT entry whose last sector is not before its first lies inside
  the usable area the header declares and is not empty.\<close>

theorem gpt_window_in_range:
  assumes "gpt_usable ph e" "ge_first_lba e \<le> ge_last_lba e" "gh_last_lba ph < 0xffffffffffffffff"
  shows "unat (gh_first_lba ph) \<le> unat (pd_offset (gpt_desc e i))
    \<and> unat (pd_offset (gpt_desc e i)) + unat (pd_count (gpt_desc e i)) \<le> unat (gh_last_lba ph) + 1
    \<and> 0 < unat (pd_count (gpt_desc e i))"
  using gpt_window [OF assms, of i] assms(2) by (simp add: gpt_desc_def word_le_nat_alt)

theorem gpt_window_in_range_witness:
  "34 \<le> unat (pd_offset (gpt_desc (gpt_entry_of demo_gpt_table 1) 1))
   \<and> unat (pd_offset (gpt_desc (gpt_entry_of demo_gpt_table 1) 1))
     + unat (pd_count (gpt_desc (gpt_entry_of demo_gpt_table 1) 1)) \<le> 1000"
proof -
  have "gpt_usable (gpt_header_of demo_gpt_header) (gpt_entry_of demo_gpt_table 1)"
  proof -
    have "gpt_descs (gpt_header_of demo_gpt_header) 4 (\<lambda>j. demo_gpt_table) 0 \<noteq> []" by (simp add: demo_gpt_descs)
    then obtain x where x: "x < 4" "gpt_usable (gpt_header_of demo_gpt_header) (gpt_entry_of demo_gpt_table x)"
      by (auto simp: gpt_descs_def filter_empty_conv)
    then have "x = 1" using demo_gpt_guid [of x] by (auto simp: gpt_usable_def gpt_entry_of_def)
    then show ?thesis using x by simp
  qed
  then show ?thesis
    using gpt_window_in_range [of "gpt_header_of demo_gpt_header" "gpt_entry_of demo_gpt_table 1" 1]
    by (simp add: demo_gpt_header_fields gpt_entry_of_def le64_def le32_def le16_def demo_gpt_table_nth)
qed

text \<open>The scanner does not test \<open>first_lba\<close> against \<open>last_lba\<close>: the length of an inverted entry
  wraps around 2^64.\<close>

lemma gpt_inverted_wraps:
  "\<exists>ph e. gpt_usable ph e \<and> ge_last_lba e < ge_first_lba e \<and> pd_count (gpt_desc e 0) = 0xffffffffffffffff"
proof (intro exI conjI)
  let ?ph = "\<lparr>gh_signature = EFI_PARTITION_SIGNATURE, gh_first_lba = 34, gh_last_lba = 999,
    gh_partition_table_lba = 2, gh_partition_count = 4\<rparr>"
  let ?e = "\<lparr>ge_type_guid = [1], ge_first_lba = 42, ge_last_lba = 40, ge_attribute_flags = 0, ge_name = []\<rparr>"
  have "length [1 :: u8] \<noteq> length (replicate 16 (0 :: u8))" by simp
  then have "[1 :: u8] \<noteq> replicate 16 0" by metis
  then show "gpt_usable ?ph ?e" by (simp add: gpt_usable_def MS_RESERVED_PARTITION_GUID_def EFI_SYSTEM_PARTITION_def)
  show "ge_last_lba ?e < ge_first_lba ?e" by simp
  show "pd_count (gpt_desc ?e 0) = 0xffffffffffffffff" by (simp add: gpt_desc_def)
qed

end
