(* ===== verification/Scsi.thy ===== *)
theory Scsi
  imports Block_Device
begin

text \<open>
  \<open>__usbd_bd_assault/src/usbmass_bd/usbmass_bd_scsi.c\<close>: the SCSI block layer between the
  block-device manager and the mass-storage transport. \<open>struct scsi_interface\<close> is a record
  of operations on the transport's state \<open>'u\<close>. The locale \<open>scsi_target\<close> states what the
  SCSI block commands READ/WRITE (10) and (16) do on a disk (the commands' standard, and the
  only thing assumed of the device). Shown: the command blocks decode to exactly the
  requested sectors, the read and write loops terminate and make a \<open>block_store\<close> of any
  such target, each chunk is retried at most 16 times, and the capacity logic.
\<close>

section \<open>Definitions\<close>

record 'u scsi_interface =
  scsi_name :: string
  max_sectors :: u32
  get_max_lun :: "'u \<Rightarrow> int \<times> 'u"
  queue_cmd :: "'u \<Rightarrow> bytes \<Rightarrow> u32 \<Rightarrow> bytes \<Rightarrow> u32 \<Rightarrow> bool \<Rightarrow> int \<times> bytes \<times> 'u"

abbreviation (input) SCSI_MAX_RETRIES :: nat where "SCSI_MAX_RETRIES \<equiv> 16"
abbreviation (input) NUM_DEVICES :: nat where "NUM_DEVICES \<equiv> 2"

text \<open>Big-endian reads (\<open>getBI32\<close>, \<open>getBI64\<close>) at an offset.\<close>

definition getBI32 :: "bytes \<Rightarrow> nat \<Rightarrow> u32" where
  "getBI32 b k = push_bit 24 (ucast (b ! k)) OR push_bit 16 (ucast (b ! (k + 1)))
               OR push_bit 8 (ucast (b ! (k + 2))) OR ucast (b ! (k + 3))"

definition getBI64 :: "bytes \<Rightarrow> nat \<Rightarrow> u64" where
  "getBI64 b k = push_bit 32 (ucast (getBI32 b k)) OR ucast (getBI32 b (k + 4))"

definition scsi_cmd :: "'u scsi_interface \<Rightarrow> 'u \<Rightarrow> u8 \<Rightarrow> u32 \<Rightarrow> u8 \<Rightarrow> int \<times> bytes \<times> 'u" where
  "scsi_cmd scsi u cmd buf_size cmd_size =
     queue_cmd scsi u [cmd, 0, 0, 0, cmd_size, 0, 0, 0, 0, 0, 0, 0] 12 [] buf_size False"

definition scsi_cmd_test_unit_ready :: "'u scsi_interface \<Rightarrow> 'u \<Rightarrow> int \<times> bytes \<times> 'u" where
  "scsi_cmd_test_unit_ready scsi u = scsi_cmd scsi u 0x00 0 0"

definition scsi_cmd_request_sense :: "'u scsi_interface \<Rightarrow> 'u \<Rightarrow> u8 \<Rightarrow> int \<times> bytes \<times> 'u" where
  "scsi_cmd_request_sense scsi u n = scsi_cmd scsi u 0x03 (ucast n) n"

definition scsi_cmd_inquiry :: "'u scsi_interface \<Rightarrow> 'u \<Rightarrow> u8 \<Rightarrow> int \<times> bytes \<times> 'u" where
  "scsi_cmd_inquiry scsi u n = scsi_cmd scsi u 0x12 (ucast n) n"

definition scsi_cmd_start_stop_unit :: "'u scsi_interface \<Rightarrow> 'u \<Rightarrow> u8 \<Rightarrow> int \<times> bytes \<times> 'u" where
  "scsi_cmd_start_stop_unit scsi u param = scsi_cmd scsi u 0x1b 0 param"

definition scsi_cmd_read_capacity :: "'u scsi_interface \<Rightarrow> 'u \<Rightarrow> u8 \<Rightarrow> int \<times> bytes \<times> 'u" where
  "scsi_cmd_read_capacity scsi u n = scsi_cmd scsi u 0x25 (ucast n) 0"

definition scsi_cmd_read_capacity16 :: "'u scsi_interface \<Rightarrow> 'u \<Rightarrow> u32 \<Rightarrow> int \<times> bytes \<times> 'u" where
  "scsi_cmd_read_capacity16 scsi u n =
     queue_cmd scsi u
       [0x9e, 0x10, 0, 0, 0, 0, 0, 0, 0, 0,
        ucast (drop_bit 24 n), ucast (drop_bit 16 n), ucast (drop_bit 8 n), ucast n, 0, 0]
       16 [] n False"

text \<open>The command block of \<open>scsi_cmd_rw_sector\<close> and its length: READ/WRITE (16) when the
  device has more than 2^32 sectors or the address needs more than 32 bits.\<close>

definition rw_cdb16 :: "u64 \<Rightarrow> u16 \<Rightarrow> bool \<Rightarrow> bytes" where
  "rw_cdb16 lba n write =
     [if write then 0x8a else 0x88, 0,
      ucast (drop_bit 56 lba), ucast (drop_bit 48 lba), ucast (drop_bit 40 lba), ucast (drop_bit 32 lba),
      ucast (drop_bit 24 lba), ucast (drop_bit 16 lba), ucast (drop_bit 8 lba), ucast lba,
      ucast (drop_bit 24 (ucast n :: u32)), ucast (drop_bit 16 (ucast n :: u32)),
      ucast (drop_bit 8 (ucast n :: u32)), ucast n, 0, 0]"

definition rw_cdb10 :: "u64 \<Rightarrow> u16 \<Rightarrow> bool \<Rightarrow> bytes" where
  "rw_cdb10 lba n write =
     [if write then 0x2a else 0x28, 0,
      ucast (drop_bit 24 lba), ucast (drop_bit 16 lba), ucast (drop_bit 8 lba), ucast lba,
      0, ucast (drop_bit 8 n), ucast n, 0, 0, 0, 0, 0, 0, 0]"

definition rw_cdb :: "block_device \<Rightarrow> u64 \<Rightarrow> u16 \<Rightarrow> bool \<Rightarrow> bytes \<times> u32" where
  "rw_cdb bd lba n write =
     (if sectorCount bd > 0x100000000 \<or> lba > 0xffffffff
      then (rw_cdb16 lba n write, 16) else (rw_cdb10 lba n write, 12))"

definition scsi_cmd_rw_sector :: "'u scsi_interface \<Rightarrow> block_device \<Rightarrow> 'u \<Rightarrow> u64 \<Rightarrow> bytes \<Rightarrow> u16 \<Rightarrow>
    bool \<Rightarrow> int \<times> bytes \<times> 'u" where
  "scsi_cmd_rw_sector scsi bd u lba buffer n write =
     (let (comData, cmd_len) = rw_cdb bd lba n write
      in queue_cmd scsi u comData cmd_len buffer (sectorSize bd * ucast n) write)"

text \<open>The retry loop: \<open>Some\<close> of the bytes stored on success. \<open>cur\<close> is what the attempts so
  far have left in the buffer.\<close>

fun scsi_try_rw :: "nat \<Rightarrow> 'u scsi_interface \<Rightarrow> block_device \<Rightarrow> 'u \<Rightarrow> u64 \<Rightarrow> bytes \<Rightarrow> u16 \<Rightarrow> bool \<Rightarrow>
    bytes \<Rightarrow> bool \<times> bytes \<times> 'u" where
  "scsi_try_rw 0 scsi bd u lba buffer n write cur = (False, cur, u)"
| "scsi_try_rw (Suc retries) scsi bd u lba buffer n write cur =
     (let (r, d, u') = scsi_cmd_rw_sector scsi bd u lba buffer n write
      in if r = 0 then (True, overlay cur d, u')
         else scsi_try_rw retries scsi bd u' lba buffer n write (overlay cur d))"

definition chunk_count :: "'u scsi_interface \<Rightarrow> u16 \<Rightarrow> u16" where
  "chunk_count scsi remaining =
     (if ucast remaining > max_sectors scsi then ucast (max_sectors scsi) else remaining)"

text \<open>The transfer loops. They do not return if \<open>max_sectors\<close> is 0 (\<open>None\<close>).\<close>

partial_function (option) scsi_read_loop :: "'u scsi_interface \<Rightarrow> block_device \<Rightarrow> 'u \<Rightarrow> u64 \<Rightarrow> u16 \<Rightarrow>
    bytes \<Rightarrow> (bool \<times> bytes \<times> 'u) option" where
  "scsi_read_loop scsi bd u sector remaining buf =
     (if remaining = 0 then Some (True, buf, u)
      else let sc = chunk_count scsi remaining;
               (ok, d, u') = scsi_try_rw SCSI_MAX_RETRIES scsi bd u sector [] sc False []
           in if \<not> ok then Some (False, buf @ d, u')
              else scsi_read_loop scsi bd u' (sector + ucast sc) (remaining - sc) (buf @ d))"

partial_function (option) scsi_write_loop :: "'u scsi_interface \<Rightarrow> block_device \<Rightarrow> 'u \<Rightarrow> u64 \<Rightarrow> u16 \<Rightarrow>
    bytes \<Rightarrow> (bool \<times> 'u) option" where
  "scsi_write_loop scsi bd u sector remaining buffer =
     (if remaining = 0 then Some (True, u)
      else let sc = chunk_count scsi remaining; len = unat (ucast sc * sectorSize bd);
               (ok, d, u') = scsi_try_rw SCSI_MAX_RETRIES scsi bd u sector (take len buffer) sc True []
           in if \<not> ok then Some (False, u')
              else scsi_write_loop scsi bd u' (sector + ucast sc) (remaining - sc) (drop len buffer))"

definition scsi_read :: "'u scsi_interface \<Rightarrow> block_device \<Rightarrow> 'u \<Rightarrow> u64 \<Rightarrow> u16 \<Rightarrow>
    (int \<times> bytes \<times> 'u) option" where
  "scsi_read scsi bd u sector count =
     map_option (\<lambda>(ok, d, u'). (if ok then int (unat count) else - EIO, d, u'))
       (scsi_read_loop scsi bd u sector count [])"

definition scsi_write :: "'u scsi_interface \<Rightarrow> block_device \<Rightarrow> 'u \<Rightarrow> u64 \<Rightarrow> bytes \<Rightarrow> u16 \<Rightarrow>
    (int \<times> 'u) option" where
  "scsi_write scsi bd u sector buffer count =
     map_option (\<lambda>(ok, u'). (if ok then int (unat count) else - EIO, u'))
       (scsi_write_loop scsi bd u sector count buffer)"

definition scsi_flush :: "'u \<Rightarrow> 'u" where
  "scsi_flush u = u"

definition scsi_stop :: "'u scsi_interface \<Rightarrow> 'u \<Rightarrow> int \<times> 'u" where
  "scsi_stop scsi u = (let (stat, d, u') = scsi_cmd_start_stop_unit scsi u 0 in (stat, u'))"

text \<open>The function pointers \<open>scsi_init\<close> stores. \<open>scsi_read_returns\<close> below shows that
  \<open>the\<close> is applied to a returned value whenever \<open>max_sectors\<close> is positive.\<close>

definition scsi_bd_ops :: "'u scsi_interface \<Rightarrow> block_device \<Rightarrow> 'u bd_ops" where
  "scsi_bd_ops scsi bd = \<lparr>bd_read = (\<lambda>u a c. the (scsi_read scsi bd u a c)),
     bd_write = (\<lambda>u a d c. the (scsi_write scsi bd u a d c)),
     bd_flush = scsi_flush, bd_stop = scsi_stop scsi\<rparr>"

subsection \<open>Warm-up and the device table\<close>

text \<open>The wait loop of \<open>scsi_warmup\<close>. \<open>sd\<close> is the stack buffer the sense data lands in; it is
  never cleared, so its initial contents are an argument. \<open>Some (True, \<dots>)\<close>: the unit is ready;
  \<open>Some (False, \<dots>)\<close>: START UNIT failed and warm-up returns -1; \<open>None\<close>: the unit is never
  ready and the loop does not end.\<close>

definition sense_needs_start :: "bytes \<Rightarrow> bool" where
  "sense_needs_start sd \<longleftrightarrow> sd ! 0 = 0x70 \<and> sd ! 2 \<noteq> 0x00
     \<and> sd ! 2 = 0x02 \<and> sd ! 12 = 0x04 \<and> sd ! 13 = 0x02"

partial_function (option) scsi_wait_ready :: "'u scsi_interface \<Rightarrow> 'u \<Rightarrow> bytes \<Rightarrow> (bool \<times> 'u) option" where
  "scsi_wait_ready scsi u sd =
     (let (stat, _, u1) = scsi_cmd_test_unit_ready scsi u
      in if stat = 0 then Some (True, u1)
         else let (_, d, u2) = scsi_cmd_request_sense scsi u1 18; sd' = overlay sd d
              in if sense_needs_start sd'
                 then let (stat2, _, u3) = scsi_cmd_start_stop_unit scsi u2 1
                      in if stat2 \<noteq> 0 then Some (False, u3) else scsi_wait_ready scsi u3 sd'
                 else scsi_wait_ready scsi u2 sd')"

text \<open>The capacity part: READ CAPACITY (10), and (16) when the former saturates. \<open>rcd0\<close> is the
  uninitialised stack buffer of the first.\<close>

definition scsi_capacity :: "'u scsi_interface \<Rightarrow> block_device \<Rightarrow> 'u \<Rightarrow> bytes \<Rightarrow> int \<times> block_device \<times> 'u" where
  "scsi_capacity scsi bd u rcd0 =
     (let (stat, d, u1) = scsi_cmd_read_capacity scsi u 8
      in if stat \<noteq> 0 then (- 1, bd, u1)
         else let rcd = overlay rcd0 d;
                  bd1 = bd\<lparr>sectorSize := getBI32 rcd 4, sectorOffset := 0\<rparr>;
                  last_lba32 = getBI32 rcd 0
              in if last_lba32 = 0xffffffff
                 then let (stat2, d2, u2) = scsi_cmd_read_capacity16 scsi u1 32
                      in if stat2 \<noteq> 0 then (0, bd1\<lparr>sectorCount := 0xffffffff + 1\<rparr>, u2)
                         else let rcd16 = overlay (replicate 32 0) d2
                              in (0, bd1\<lparr>sectorSize := getBI32 rcd16 8,
                                         sectorCount := getBI64 rcd16 0 + 1\<rparr>, u2)
                 else (0, bd1\<lparr>sectorCount := ucast last_lba32 + 1\<rparr>, u1))"

definition scsi_warmup :: "'u scsi_interface \<Rightarrow> block_device \<Rightarrow> 'u \<Rightarrow> bytes \<Rightarrow> bytes \<Rightarrow>
    (int \<times> block_device \<times> 'u) option" where
  "scsi_warmup scsi bd u sd0 rcd0 =
     (let (_, u1) = get_max_lun scsi u;
          (stat, _, u2) = scsi_cmd_inquiry scsi u1 36
      in if stat < 0 then Some (- 1, bd, u2)
         else case scsi_wait_ready scsi u2 sd0 of
                None \<Rightarrow> None
              | Some (ready, u3) \<Rightarrow>
                  Some (if ready then scsi_capacity scsi bd u3 rcd0 else (- 1, bd, u3)))"

text \<open>\<open>g_scsi_bd\<close>: the block devices with their \<open>priv\<close> pointer, here the number of the
  connected interface.\<close>

record scsi_slot =
  slot_bd :: block_device
  slot_priv :: "nat option"

text \<open>\<open>scsi_connect\<close> returns the new table and the slot handed to \<open>bdm_connect_bd\<close>, if any;
  \<open>scsi_disconnect\<close> the slot handed to \<open>bdm_disconnect_bd\<close> before its \<open>priv\<close> is cleared.\<close>

fun scsi_connect_from :: "nat \<Rightarrow> nat \<Rightarrow> 'u scsi_interface \<Rightarrow> bytes \<Rightarrow> bytes \<Rightarrow> scsi_slot list \<Rightarrow> 'u \<Rightarrow>
    (scsi_slot list \<times> nat option \<times> 'u) option" where
  "scsi_connect_from i idn scsi sd0 rcd0 [] u = Some ([], None, u)"
| "scsi_connect_from i idn scsi sd0 rcd0 (x # xs) u =
     (if slot_priv x = None
      then case scsi_warmup scsi ((slot_bd x)\<lparr>bd_name := Some (scsi_name scsi)\<rparr>) u sd0 rcd0 of
             None \<Rightarrow> None
           | Some (r, bd', u') \<Rightarrow>
               (if r \<noteq> 0 then Some (\<lparr>slot_bd = bd', slot_priv = None\<rparr> # xs, None, u')
                else Some (\<lparr>slot_bd = bd', slot_priv = Some idn\<rparr> # xs, Some i, u'))
      else map_option (\<lambda>(xs', r, u'). (x # xs', r, u'))
             (scsi_connect_from (Suc i) idn scsi sd0 rcd0 xs u))"

definition scsi_connect :: "nat \<Rightarrow> 'u scsi_interface \<Rightarrow> bytes \<Rightarrow> bytes \<Rightarrow> scsi_slot list \<Rightarrow> 'u \<Rightarrow>
    (scsi_slot list \<times> nat option \<times> 'u) option" where
  "scsi_connect = scsi_connect_from 0"

fun scsi_disconnect_from :: "nat \<Rightarrow> nat \<Rightarrow> scsi_slot list \<Rightarrow> scsi_slot list \<times> nat option" where
  "scsi_disconnect_from i idn [] = ([], None)"
| "scsi_disconnect_from i idn (x # xs) =
     (if slot_priv x = Some idn then (x\<lparr>slot_priv := None\<rparr> # xs, Some i)
      else let (xs', r) = scsi_disconnect_from (Suc i) idn xs in (x # xs', r))"

definition scsi_disconnect :: "nat \<Rightarrow> scsi_slot list \<Rightarrow> scsi_slot list \<times> nat option" where
  "scsi_disconnect = scsi_disconnect_from 0"

definition scsi_init :: "scsi_slot list \<Rightarrow> int \<times> scsi_slot list" where
  "scsi_init g = (0, map (\<lambda>i. \<lparr>slot_bd = (slot_bd (g ! i))\<lparr>devNr := of_nat i, parNr := 0, parId := 0\<rparr>,
                              slot_priv = None\<rparr>) [0..<NUM_DEVICES])"

section \<open>Command blocks\<close>

text \<open>How a SCSI target reads the block commands: operation, first sector, sector count.\<close>

definition be_nat :: "bytes \<Rightarrow> nat" where
  "be_nat bs = foldl (\<lambda>n b. 256 * n + unat b) 0 bs"

definition decode_rw :: "bytes \<Rightarrow> (bool \<times> nat \<times> nat) option" where
  "decode_rw cdb =
     (if cdb ! 0 = 0x28 \<or> cdb ! 0 = 0x2a
      then Some (cdb ! 0 = 0x2a, be_nat (take 4 (drop 2 cdb)), be_nat (take 2 (drop 7 cdb)))
      else if cdb ! 0 = 0x88 \<or> cdb ! 0 = 0x8a
      then Some (cdb ! 0 = 0x8a, be_nat (take 8 (drop 2 cdb)), be_nat (take 4 (drop 10 cdb)))
      else None)"

text \<open>The transport passes on the first \<open>cl\<close> bytes of the command block, so these must hold the command.\<close>

definition cdb_fits :: "bytes \<Rightarrow> u32 \<Rightarrow> bool" where
  "cdb_fits cdb cl \<longleftrightarrow> length cdb = 16 \<and> (cl = 16 \<or> cl = 12 \<and> (cdb ! 0 = 0x28 \<or> cdb ! 0 = 0x2a))"

lemma rw_cdb_fits: "rw_cdb bd lba n write = (cdb, cl) \<Longrightarrow> cdb_fits cdb cl"
  by (auto simp: rw_cdb_def rw_cdb16_def rw_cdb10_def cdb_fits_def split: if_splits)

lemma unat_drop: "unat (drop_bit k (x :: 'a::len word)) = unat x div 2 ^ k"
proof -
  have "take_bit LENGTH('a) (unat x) = unat x" by (simp add: take_bit_nat_eq_self unsigned_less)
  then show ?thesis by (simp only: unsigned_drop_bit_eq) (simp add: drop_bit_eq_div)
qed

lemma unat_low: "unat (ucast (x :: 'a::len word) :: u8) = unat x mod 256"
  by (simp add: unsigned_ucast_eq take_bit_eq_mod)

lemma be_step: "256 * (x div 2 ^ (k + 8)) + x div 2 ^ k mod 256 = (x :: nat) div 2 ^ k"
proof -
  have "x div 2 ^ (k + 8) = x div 2 ^ k div 256" by (simp add: power_add div_mult2_eq)
  then show ?thesis by simp
qed

lemma be_nat_lba64:
  "be_nat [ucast (drop_bit 56 (x :: u64)), ucast (drop_bit 48 x), ucast (drop_bit 40 x),
     ucast (drop_bit 32 x), ucast (drop_bit 24 x), ucast (drop_bit 16 x), ucast (drop_bit 8 x), ucast x]
   = unat x"
proof -
  have "unat x div 2 ^ 56 mod 256 = unat x div 2 ^ 56" using unat_lt_u64 [of x] by simp
  then show ?thesis
    using be_step [of "unat x" 48] be_step [of "unat x" 40] be_step [of "unat x" 32]
      be_step [of "unat x" 24] be_step [of "unat x" 16] be_step [of "unat x" 8] be_step [of "unat x" 0]
    by (simp add: be_nat_def unat_low unat_drop)
qed

lemma be_nat_lba32:
  assumes "(x :: u64) \<le> 0xffffffff"
  shows "be_nat [ucast (drop_bit 24 x), ucast (drop_bit 16 x), ucast (drop_bit 8 x), ucast x] = unat x"
proof -
  have "unat x \<le> 0xffffffff" using assms by (simp add: word_le_nat_alt)
  then have "unat x div 2 ^ 24 mod 256 = unat x div 2 ^ 24" by simp
  then show ?thesis
    using be_step [of "unat x" 16] be_step [of "unat x" 8] be_step [of "unat x" 0]
    by (simp add: be_nat_def unat_low unat_drop)
qed

lemma be_nat_count:
  "be_nat [ucast (drop_bit 24 (ucast n :: u32)), ucast (drop_bit 16 (ucast n :: u32)),
     ucast (drop_bit 8 (ucast n :: u32)), ucast (n :: u16)] = unat n"
  "be_nat [ucast (drop_bit 8 n), ucast n] = unat n"
proof -
  have lt: "unat n < 65536" by (rule unat_lt_u16)
  then have z: "unat n div 2 ^ 8 mod 256 = unat n div 2 ^ 8" "unat n div 16777216 mod 256 = 0"
    "unat n div 65536 mod 256 = 0" by simp_all
  show "be_nat [ucast (drop_bit 24 (ucast n :: u32)), ucast (drop_bit 16 (ucast n :: u32)),
     ucast (drop_bit 8 (ucast n :: u32)), ucast n] = unat n"
    using z be_step [of "unat n" 0] by (simp add: be_nat_def unat_low unat_drop)
  show "be_nat [ucast (drop_bit 8 n), ucast n] = unat n"
    using z be_step [of "unat n" 0] by (simp add: be_nat_def unat_low unat_drop)
qed

lemma decode_rw_cdb: "decode_rw (fst (rw_cdb bd lba n write)) = Some (write, unat lba, unat n)"
proof (cases "sectorCount bd > 0x100000000 \<or> lba > 0xffffffff")
  case True
  then show ?thesis
    by (simp add: rw_cdb_def rw_cdb16_def decode_rw_def be_nat_lba64 be_nat_count)
next
  case False
  then have "lba \<le> 0xffffffff" by (simp add: not_less)
  then show ?thesis using False
    by (simp add: rw_cdb_def rw_cdb10_def decode_rw_def be_nat_lba32 be_nat_count)
qed

section \<open>Termination of the transfer loops\<close>

lemma chunk_count_range:
  assumes "remaining \<noteq> 0" "0 < max_sectors scsi"
  shows "0 < unat (chunk_count scsi remaining) \<and> chunk_count scsi remaining \<le> remaining"
proof (cases "ucast remaining > max_sectors scsi")
  case True
  then have lt: "unat (max_sectors scsi) < unat remaining" by (simp add: word_less_nat_alt)
  then have "unat (max_sectors scsi) < 65536" using unat_lt_u16 [of remaining] by linarith
  then have "unat (ucast (max_sectors scsi) :: u16) = unat (max_sectors scsi)"
    by (simp add: unsigned_ucast_eq take_bit_nat_eq_self)
  then show ?thesis using True lt assms(2)
    by (simp add: chunk_count_def word_le_nat_alt word_less_nat_alt)
next
  case False
  then show ?thesis using assms(1) by (simp add: chunk_count_def unat_gt_0)
qed

lemma remaining_decreases:
  assumes "remaining \<noteq> 0" "0 < max_sectors scsi"
  shows "unat (remaining - chunk_count scsi remaining) = unat remaining - unat (chunk_count scsi remaining)"
    "unat (remaining - chunk_count scsi remaining) < unat remaining"
    "unat (chunk_count scsi remaining) \<le> unat remaining"
  using chunk_count_range [OF assms] by (auto simp: unat_sub_le word_le_nat_alt)

lemma scsi_read_loop_returns:
  assumes "0 < max_sectors scsi"
  shows "\<exists>y. scsi_read_loop scsi bd u sector remaining buf = Some y"
proof (induction "unat remaining" arbitrary: u sector remaining buf rule: less_induct)
  case less
  show ?case
  proof (cases "remaining = 0")
    case False
    show ?thesis using less remaining_decreases(2) [OF False assms]
      by (subst scsi_read_loop.simps) (auto simp: Let_def split: prod.split)
  qed (auto simp: scsi_read_loop.simps [of scsi bd u sector 0] intro: exI [of _ True])
qed

lemma scsi_write_loop_returns:
  assumes "0 < max_sectors scsi"
  shows "\<exists>y. scsi_write_loop scsi bd u sector remaining buffer = Some y"
proof (induction "unat remaining" arbitrary: u sector remaining buffer rule: less_induct)
  case less
  show ?case
  proof (cases "remaining = 0")
    case False
    show ?thesis using less remaining_decreases(2) [OF False assms]
      by (subst scsi_write_loop.simps) (auto simp: Let_def split: prod.split)
  qed (auto simp: scsi_write_loop.simps [of scsi bd u sector 0] intro: exI [of _ True])
qed

section \<open>The block layer over a SCSI disk\<close>

text \<open>What READ and WRITE (10/16) do on a disk with \<open>nsec\<close> sectors: a read stores at most the
  requested bytes and changes nothing; if it reports success it stored the addressed sectors.
  A write changes only addressed sectors, and all of them if it reports success.\<close>

locale scsi_target =
  fixes scsi :: "'u scsi_interface"
    and bd :: block_device
    and ok :: "'u \<Rightarrow> bool"
    and disk :: "'u \<Rightarrow> nat \<Rightarrow> bytes"
    and ssz :: nat
    and nsec :: nat
  assumes ssz_def: "ssz = unat (sectorSize bd)"
    and ssz_bound: "ssz * 65535 < 2 ^ 32"
    and nsec_bound: "nsec < 2 ^ 64"
    and max_sectors_pos: "0 < max_sectors scsi"
    and target_len: "ok u \<Longrightarrow> length (disk u k) = ssz"
    and target_read: "ok u \<Longrightarrow> decode_rw cdb = Some (False, a, n) \<Longrightarrow> cdb_fits cdb cl \<Longrightarrow> a + n \<le> nsec \<Longrightarrow>
          unat len = n * ssz \<Longrightarrow> queue_cmd scsi u cdb cl b len False = (r, d, u') \<Longrightarrow>
          ok u' \<and> disk u' = disk u \<and> length d \<le> n * ssz \<and> (r = 0 \<longrightarrow> d = sectors (disk u) a n)"
    and target_write: "ok u \<Longrightarrow> decode_rw cdb = Some (True, a, n) \<Longrightarrow> cdb_fits cdb cl \<Longrightarrow> a + n \<le> nsec \<Longrightarrow>
          unat len = n * ssz \<Longrightarrow> length b = n * ssz \<Longrightarrow>
          queue_cmd scsi u cdb cl b len True = (r, d, u') \<Longrightarrow>
          ok u' \<and> (\<forall>k. k < a \<or> a + n \<le> k \<longrightarrow> disk u' k = disk u k)
          \<and> (r = 0 \<longrightarrow> disk u' = upd_sectors (disk u) a n ssz b)"
begin

lemma transfer_len: "unat (sectorSize bd * ucast (n :: u16)) = unat n * ssz"
proof -
  have "ssz * unat n \<le> ssz * 65535" using unat_lt_u16 [of n] by (intro mult_left_mono) auto
  then have "ssz * unat n < 2 ^ 32" using ssz_bound by linarith
  then show ?thesis unfolding ssz_def by (simp add: unat_word_ariths mult.commute)
qed

lemma rw_read:
  assumes "ok u" "unat a + unat n \<le> nsec" "scsi_cmd_rw_sector scsi bd u a b n False = (r, d, u')"
  shows "ok u' \<and> disk u' = disk u \<and> length d \<le> unat n * ssz
         \<and> (r = 0 \<longrightarrow> d = sectors (disk u) (unat a) (unat n))"
proof -
  obtain cdb cl where c: "rw_cdb bd a n False = (cdb, cl)" by fastforce
  have "decode_rw cdb = Some (False, unat a, unat n)" using decode_rw_cdb [of bd a n False] c by simp
  moreover have "queue_cmd scsi u cdb cl b (sectorSize bd * ucast n) False = (r, d, u')"
    using assms(3) c by (simp add: scsi_cmd_rw_sector_def)
  ultimately show ?thesis using target_read [OF assms(1) _ rw_cdb_fits [OF c] assms(2) transfer_len] by blast
qed

lemma rw_write:
  assumes "ok u" "unat a + unat n \<le> nsec" "length b = unat n * ssz"
    and "scsi_cmd_rw_sector scsi bd u a b n True = (r, d, u')"
  shows "ok u' \<and> (\<forall>k. k < unat a \<or> unat a + unat n \<le> k \<longrightarrow> disk u' k = disk u k)
         \<and> (r = 0 \<longrightarrow> disk u' = upd_sectors (disk u) (unat a) (unat n) ssz b)"
proof -
  obtain cdb cl where c: "rw_cdb bd a n True = (cdb, cl)" by fastforce
  have "decode_rw cdb = Some (True, unat a, unat n)" using decode_rw_cdb [of bd a n True] c by simp
  moreover have "queue_cmd scsi u cdb cl b (sectorSize bd * ucast n) True = (r, d, u')"
    using assms(4) c by (simp add: scsi_cmd_rw_sector_def)
  ultimately show ?thesis using target_write [OF assms(1) _ rw_cdb_fits [OF c] assms(2) transfer_len assms(3)] by blast
qed

lemma try_read:
  assumes "unat a + unat n \<le> nsec"
  shows "ok u \<Longrightarrow> length cur \<le> unat n * ssz \<Longrightarrow>
         scsi_try_rw k scsi bd u a b n False cur = (r, d, u') \<Longrightarrow>
         ok u' \<and> disk u' = disk u \<and> length d \<le> unat n * ssz
         \<and> (r \<longrightarrow> d = sectors (disk u) (unat a) (unat n))"
proof (induction k arbitrary: u cur)
  case (Suc k)
  obtain r1 d1 u1 where c: "scsi_cmd_rw_sector scsi bd u a b n False = (r1, d1, u1)" by (cases rule: prod_cases3)
  note one = rw_read [OF Suc.prems(1) assms c]
  have "length (sectors (disk u) (unat a) (unat n)) = unat n * ssz"
    using Suc.prems(1) target_len by (intro length_sectors)
  then show ?case using Suc.prems c one Suc.IH [of u1 "overlay cur d1"]
    by (cases "r1 = 0") (auto simp: overlay_def)
qed auto

lemma try_write:
  assumes "unat a + unat n \<le> nsec" "length b = unat n * ssz"
  shows "ok u \<Longrightarrow> scsi_try_rw k scsi bd u a b n True cur = (r, d, u') \<Longrightarrow>
         ok u' \<and> (\<forall>j. j < unat a \<or> unat a + unat n \<le> j \<longrightarrow> disk u' j = disk u j)
         \<and> (r \<longrightarrow> disk u' = upd_sectors (disk u) (unat a) (unat n) ssz b)"
proof (induction k arbitrary: u cur)
  case (Suc k)
  obtain r1 d1 u1 where c: "scsi_cmd_rw_sector scsi bd u a b n True = (r1, d1, u1)" by (cases rule: prod_cases3)
  note one = rw_write [OF Suc.prems(1) assms c]
  show ?case
  proof (cases "r1 = 0")
    case False
    have IH: "ok u' \<and> (\<forall>j. j < unat a \<or> unat a + unat n \<le> j \<longrightarrow> disk u' j = disk u1 j)
         \<and> (r \<longrightarrow> disk u' = upd_sectors (disk u1) (unat a) (unat n) ssz b)"
      using Suc.IH [of u1 "overlay cur d1"] Suc.prems c one False by simp
    have "upd_sectors (disk u1) (unat a) (unat n) ssz b = upd_sectors (disk u) (unat a) (unat n) ssz b"
      using one by (intro ext) (auto simp: upd_sectors_def)
    then show ?thesis using IH one by auto
  qed (use Suc.prems c one in auto)
qed auto

lemma read_loop:
  assumes "ok u" "unat a + unat m \<le> nsec" "scsi_read_loop scsi bd u a m buf = Some (r, d, u')"
  shows "ok u' \<and> disk u' = disk u \<and> (\<exists>d'. d = buf @ d' \<and> length d' \<le> unat m * ssz
         \<and> (r \<longrightarrow> d' = sectors (disk u) (unat a) (unat m)))"
  using assms
proof (induction "unat m" arbitrary: u a m buf rule: less_induct)
  case less
  show ?case
  proof (cases "m = 0")
    case False
    define sc where "sc = chunk_count scsi m"
    note sc = remaining_decreases [OF False max_sectors_pos, folded sc_def]
    obtain r1 d1 u1 where c: "scsi_try_rw 16 scsi bd u a [] sc False [] = (r1, d1, u1)"
      by (cases rule: prod_cases3)
    have t: "ok u1 \<and> disk u1 = disk u \<and> length d1 \<le> unat sc * ssz
         \<and> (r1 \<longrightarrow> d1 = sectors (disk u) (unat a) (unat sc))"
      using try_read [OF _ less.prems(1) _ c] less.prems(2) sc(3) by simp
    have mono: "unat sc * ssz \<le> unat m * ssz" using sc(3) by simp
    show ?thesis
    proof (cases r1)
      case True
      have "scsi_read_loop scsi bd u1 (a + ucast sc) (m - sc) (buf @ d1) = Some (r, d, u')"
        using less.prems(3) False c True sc_def by (subst (asm) scsi_read_loop.simps) (simp add: Let_def)
      moreover have a: "unat (a + ucast sc) = unat a + unat sc"
        using less.prems(2) sc(3) nsec_bound by (simp add: unat_add_lt)
      moreover have "unat a + unat sc + unat (m - sc) \<le> nsec" using sc less.prems(2) by simp
      ultimately obtain d2 where ih: "ok u'" "disk u' = disk u" "d = (buf @ d1) @ d2"
          "length d2 \<le> unat (m - sc) * ssz"
          "r \<longrightarrow> d2 = sectors (disk u) (unat a + unat sc) (unat (m - sc))"
        using less.hyps [OF sc(2), of u1 "a + ucast sc" "buf @ d1"] t by auto
      have m: "unat m = unat sc + unat (m - sc)" using sc by simp
      have "length (d1 @ d2) \<le> unat m * ssz" unfolding m using t ih(4) by (simp add: add_mult_distrib)
      moreover have "r \<longrightarrow> d1 @ d2 = sectors (disk u) (unat a) (unat m)"
        unfolding m using t True ih(5) by (simp add: sectors_add)
      ultimately show ?thesis using ih by auto
    next
      case r1: False
      have "\<not> r \<and> d = buf @ d1 \<and> u' = u1"
        using less.prems(3) False c r1 sc_def by (subst (asm) scsi_read_loop.simps) (simp add: Let_def)
      then show ?thesis using t mono by (auto intro: order_trans)
    qed
  qed (use less.prems in \<open>simp add: scsi_read_loop.simps\<close>)
qed

lemma write_loop:
  assumes "ok u" "unat a + unat m \<le> nsec" "length b = unat m * ssz"
    and "scsi_write_loop scsi bd u a m b = Some (r, u')"
  shows "ok u' \<and> (\<forall>j. j < unat a \<or> unat a + unat m \<le> j \<longrightarrow> disk u' j = disk u j)
         \<and> (r \<longrightarrow> disk u' = upd_sectors (disk u) (unat a) (unat m) ssz b)"
  using assms
proof (induction "unat m" arbitrary: u a m b rule: less_induct)
  case less
  show ?case
  proof (cases "m = 0")
    case False
    define sc where "sc = chunk_count scsi m"
    note sc = remaining_decreases [OF False max_sectors_pos, folded sc_def]
    have len: "unat (ucast sc * sectorSize bd) = unat sc * ssz" by (metis mult.commute transfer_len)
    have m: "unat m = unat sc + unat (m - sc)" using sc by simp
    obtain r1 d1 u1 where c: "scsi_try_rw 16 scsi bd u a (take (unat sc * ssz) b) sc True [] = (r1, d1, u1)"
      by (cases rule: prod_cases3)
    have lsc: "length (take (unat sc * ssz) b) = unat sc * ssz"
      using less.prems(3) sc(3) by (auto simp: min_def)
    then have t: "ok u1 \<and> (\<forall>j. j < unat a \<or> unat a + unat sc \<le> j \<longrightarrow> disk u1 j = disk u j)
         \<and> (r1 \<longrightarrow> disk u1 = upd_sectors (disk u) (unat a) (unat sc) ssz (take (unat sc * ssz) b))"
      using try_write [OF _ _ less.prems(1) c] less.prems(2) sc(3) by simp
    show ?thesis
    proof (cases r1)
      case True
      have "scsi_write_loop scsi bd u1 (a + ucast sc) (m - sc) (drop (unat sc * ssz) b) = Some (r, u')"
        using less.prems(4) False c True sc_def len
        by (subst (asm) scsi_write_loop.simps) (simp add: Let_def)
      moreover have "unat (a + ucast sc) = unat a + unat sc"
        using less.prems(2) sc(3) nsec_bound by (simp add: unat_add_lt)
      moreover have "length (drop (unat sc * ssz) b) = unat (m - sc) * ssz"
        using less.prems(3) m by (simp add: add_mult_distrib)
      ultimately have ih: "ok u' \<and> (\<forall>j. j < unat a + unat sc \<or> unat a + unat m \<le> j \<longrightarrow> disk u' j = disk u1 j)
          \<and> (r \<longrightarrow> disk u' = upd_sectors (disk u1) (unat a + unat sc) (unat (m - sc)) ssz (drop (unat sc * ssz) b))"
        using less.hyps [OF sc(2), of u1 "a + ucast sc" "drop (unat sc * ssz) b"] t less.prems(2) m by simp
      have "upd_sectors (disk u1) (unat a + unat sc) (unat (m - sc)) ssz (drop (unat sc * ssz) b)
          = upd_sectors (disk u) (unat a) (unat m) ssz b"
        using upd_sectors_add [OF lsc, of "disk u" "unat a" "unat (m - sc)" "drop (unat sc * ssz) b"]
          t True m by simp
      then show ?thesis using ih t m by auto
    next
      case r1: False
      have "\<not> r \<and> u' = u1"
        using less.prems(4) False c r1 sc_def len
        by (subst (asm) scsi_write_loop.simps) (simp add: Let_def)
      then show ?thesis using t sc(3) by auto
    qed
  qed (use less.prems in \<open>simp add: scsi_write_loop.simps\<close>)
qed

lemma scsi_store: "block_store (scsi_bd_ops scsi bd) ok disk ssz nsec"
proof
  fix u k assume "ok u" then show "length (disk u k) = ssz" by (rule target_len)
next
  fix u :: 'u and a :: u64 and c :: u16 and r d u'
  assume A: "ok u" "unat a + unat c \<le> nsec" and "bd_read (scsi_bd_ops scsi bd) u a c = (r, d, u')"
  then have "the (scsi_read scsi bd u a c) = (r, d, u')" by (simp add: scsi_bd_ops_def)
  then obtain q where "scsi_read_loop scsi bd u a c [] = Some (q, d, u')"
    using scsi_read_loop_returns [OF max_sectors_pos, of bd u a c "[]"] by (auto simp: scsi_read_def)
  from read_loop [OF A this] show "ok u' \<and> disk u' = disk u" "length d \<le> unat c * ssz" by auto
next
  fix u :: 'u and a :: u64 and c :: u16 and d u'
  assume A: "ok u" "unat a + unat c \<le> nsec"
    and "bd_read (scsi_bd_ops scsi bd) u a c = (int (unat c), d, u')"
  then have "the (scsi_read scsi bd u a c) = (int (unat c), d, u')" by (simp add: scsi_bd_ops_def)
  then have "scsi_read_loop scsi bd u a c [] = Some (True, d, u')"
    using scsi_read_loop_returns [OF max_sectors_pos, of bd u a c "[]"]
    by (auto simp: scsi_read_def split: if_splits)
  from read_loop [OF A this] show "d = sectors (disk u) (unat a) (unat c)" by auto
next
  fix u :: 'u and a :: u64 and c :: u16 and r d u' and k
  assume A: "ok u" "unat a + unat c \<le> nsec" "length d = unat c * ssz"
    and "bd_write (scsi_bd_ops scsi bd) u a d c = (r, u')"
  then have "the (scsi_write scsi bd u a d c) = (r, u')" by (simp add: scsi_bd_ops_def)
  then obtain q where "scsi_write_loop scsi bd u a c d = Some (q, u')"
    using scsi_write_loop_returns [OF max_sectors_pos, of bd u a c d] by (auto simp: scsi_write_def)
  from write_loop [OF A this]
  show "ok u'" and "k < unat a \<or> unat a + unat c \<le> k \<Longrightarrow> disk u' k = disk u k" by auto
next
  fix u :: 'u and a :: u64 and c :: u16 and d u'
  assume A: "ok u" "unat a + unat c \<le> nsec" "length d = unat c * ssz"
    and "bd_write (scsi_bd_ops scsi bd) u a d c = (int (unat c), u')"
  then have "the (scsi_write scsi bd u a d c) = (int (unat c), u')" by (simp add: scsi_bd_ops_def)
  then have "scsi_write_loop scsi bd u a c d = Some (True, u')"
    using scsi_write_loop_returns [OF max_sectors_pos, of bd u a c d]
    by (auto simp: scsi_write_def split: if_splits)
  from write_loop [OF A this] show "disk u' = upd_sectors (disk u) (unat a) (unat c) ssz d" by auto
qed

end

section \<open>An instance: a flaky disk in memory\<close>

text \<open>The state is the number of commands that still fail and the contents; a failed write
  leaves the disk alone.\<close>

definition flaky_cmd :: "nat \<Rightarrow> nat \<Rightarrow> nat \<times> (nat \<Rightarrow> bytes) \<Rightarrow> bytes \<Rightarrow> bytes \<Rightarrow>
    int \<times> bytes \<times> (nat \<times> (nat \<Rightarrow> bytes))" where
  "flaky_cmd sz n u cdb b =
     (case u of (k, f) \<Rightarrow>
        if 0 < k then (- 1, [], (k - 1, f))
        else case decode_rw cdb of
               None \<Rightarrow> (0, [], (0, f))
             | Some (wr, a, c) \<Rightarrow>
                 if n < a + c then (- 1, [], (0, f))
                 else if wr then (0, [], (0, upd_sectors f a c sz b))
                 else (0, sectors f a c, (0, f)))"

definition flaky_scsi :: "nat \<Rightarrow> nat \<Rightarrow> (nat \<times> (nat \<Rightarrow> bytes)) scsi_interface" where
  "flaky_scsi sz n = \<lparr>scsi_name = ''usb'', max_sectors = 8, get_max_lun = (\<lambda>u. (0, u)),
     queue_cmd = (\<lambda>u cdb cl b len wr. flaky_cmd sz n u cdb b)\<rparr>"

definition disk_bd :: "u64 \<Rightarrow> block_device" where
  "disk_bd n = \<lparr>bd_name = Some ''usb'', devNr = 0, parNr = 0, parId = 0, sectorSize = 512,
     sectorOffset = 0, sectorCount = n\<rparr>"

lemma flaky_target:
  "scsi_target (flaky_scsi 512 100) (disk_bd 100) (\<lambda>u. ram_inv 512 (snd u)) snd 512 100"
proof
  fix u :: "nat \<times> (nat \<Rightarrow> bytes)" and cdb a n len cl b r d u'
  assume "ram_inv 512 (snd u)" "decode_rw cdb = Some (False, a, n)" "a + n \<le> 100"
    "queue_cmd (flaky_scsi 512 100) u cdb cl b len False = (r, d, u')"
  then show "ram_inv 512 (snd u') \<and> snd u' = snd u \<and> length d \<le> n * 512 \<and>
      (r = 0 \<longrightarrow> d = sectors (snd u) a n)"
    by (cases u) (auto simp: flaky_scsi_def flaky_cmd_def ram_inv_def length_sectors split: if_splits)
next
  fix u :: "nat \<times> (nat \<Rightarrow> bytes)" and cdb a n len cl b r d u'
  assume "ram_inv 512 (snd u)" "decode_rw cdb = Some (True, a, n)" "a + n \<le> 100" "length b = n * 512"
    "queue_cmd (flaky_scsi 512 100) u cdb cl b len True = (r, d, u')"
  then show "ram_inv 512 (snd u') \<and> (\<forall>k. k < a \<or> a + n \<le> k \<longrightarrow> snd u' k = snd u k) \<and>
      (r = 0 \<longrightarrow> snd u' = upd_sectors (snd u) a n 512 b)"
    by (cases u) (auto simp: flaky_scsi_def flaky_cmd_def ram_inv_def length_upd_sectors split: if_splits)
qed (auto simp: flaky_scsi_def disk_bd_def ram_inv_def)

interpretation flaky: scsi_target "flaky_scsi 512 100" "disk_bd 100" "\<lambda>u. ram_inv 512 (snd u)" snd 512 100
  by (rule flaky_target)

section \<open>Capacity and device table\<close>

text \<open>Big-endian fields as a target sends them.\<close>

definition putBI32 :: "u32 \<Rightarrow> bytes" where
  "putBI32 x = [ucast (drop_bit 24 x), ucast (drop_bit 16 x), ucast (drop_bit 8 x), ucast x]"

definition putBI64 :: "u64 \<Rightarrow> bytes" where
  "putBI64 x = putBI32 (ucast (drop_bit 32 x)) @ putBI32 (ucast x)"

lemma length_putBI [simp]: "length (putBI32 x) = 4" "length (putBI64 y) = 8"
  by (simp_all add: putBI32_def putBI64_def)

lemma getBI32_put: "getBI32 (p @ putBI32 x @ q) (length p) = x"
proof (rule bit_word_eqI)
  fix n assume "n < LENGTH(32)"
  then consider "n < 8" | "8 \<le> n" "n < 16" | "16 \<le> n" "n < 24" | "24 \<le> n" "n < 32" by fastforce
  then show "bit (getBI32 (p @ putBI32 x @ q) (length p)) n = bit x n"
    by cases (auto simp: getBI32_def putBI32_def nth_append bit_simps)
qed

lemma getBI64_put: "getBI64 (p @ putBI64 x @ q) (length p) = x"
proof -
  have "getBI32 (p @ putBI64 x @ q) (length p) = ucast (drop_bit 32 x)"
    using getBI32_put [of p _ "putBI32 (ucast x) @ q"] by (simp add: putBI64_def)
  moreover have "getBI32 (p @ putBI64 x @ q) (length p + 4) = ucast x"
    using getBI32_put [of "p @ putBI32 (ucast (drop_bit 32 x))" "ucast x" q] by (simp add: putBI64_def)
  ultimately show ?thesis unfolding getBI64_def
    by (intro bit_word_eqI) (auto simp: bit_simps)
qed

lemma scsi_connect_from_full:
  "(\<forall>x \<in> set g. slot_priv x \<noteq> None) \<Longrightarrow> scsi_connect_from i idn scsi sd0 rcd0 g u = Some (g, None, u)"
  by (induction g arbitrary: i) auto

lemma scsi_connect_from_free:
  assumes "\<forall>x \<in> set pre. slot_priv x \<noteq> None" "slot_priv x = None"
    and "scsi_warmup scsi ((slot_bd x)\<lparr>bd_name := Some (scsi_name scsi)\<rparr>) u sd0 rcd0 = Some (r, bd', u')"
  shows "scsi_connect_from i idn scsi sd0 rcd0 (pre @ x # post) u =
     Some (pre @ \<lparr>slot_bd = bd', slot_priv = (if r = 0 then Some idn else None)\<rparr> # post,
           (if r = 0 then Some (i + length pre) else None), u')"
  using assms by (induction pre arbitrary: i) auto

lemma scsi_disconnect_from_hit:
  assumes "\<forall>x \<in> set pre. slot_priv x \<noteq> Some idn" "slot_priv x = Some idn"
  shows "scsi_disconnect_from i idn (pre @ x # post)
       = (pre @ x\<lparr>slot_priv := None\<rparr> # post, Some (i + length pre))"
  using assms by (induction pre arbitrary: i) auto

section \<open>Properties\<close>

text \<open>The SCSI layer implements the block-device contract on every target that obeys
  READ/WRITE (10/16): a read that reports success stored exactly the addressed sectors, a
  write that reports success stored exactly the caller's bytes, whatever the chunking by
  \<open>max_sectors\<close> and the retries did, and no other sector changes even on failure.\<close>

theorem scsi_is_block_store:
  "scsi_target scsi bd ok disk ssz nsec \<Longrightarrow> block_store (scsi_bd_ops scsi bd) ok disk ssz nsec"
  by (rule scsi_target.scsi_store)

theorem scsi_is_block_store_witness:
  "block_store (scsi_bd_ops (flaky_scsi 512 100) (disk_bd 100)) (\<lambda>u. ram_inv 512 (snd u)) snd 512 100"
  by (rule scsi_is_block_store [OF flaky_target])

text \<open>With a positive \<open>max_sectors\<close> both transfers return, for any transport behaviour, and
  their result is the sector count or -EIO.\<close>

theorem scsi_transfers_return:
  assumes "0 < max_sectors scsi"
  shows "(\<exists>r d u'. scsi_read scsi bd u sector count = Some (r, d, u') \<and> (r = int (unat count) \<or> r = - EIO))
       \<and> (\<exists>r u'. scsi_write scsi bd u sector buffer count = Some (r, u') \<and> (r = int (unat count) \<or> r = - EIO))"
proof -
  obtain a d u1 where "scsi_read_loop scsi bd u sector count [] = Some (a, d, u1)"
    using scsi_read_loop_returns [OF assms, of bd u sector count "[]"] by auto
  moreover obtain b u2 where "scsi_write_loop scsi bd u sector count buffer = Some (b, u2)"
    using scsi_write_loop_returns [OF assms, of bd u sector count buffer] by auto
  ultimately show ?thesis by (auto simp: scsi_read_def scsi_write_def)
qed

theorem scsi_transfers_return_witness:
  "\<exists>r d u'. scsi_read (flaky_scsi 512 100) (disk_bd 100) (16, zero_disk 512) 3 1 = Some (r, d, u')
     \<and> (r = 1 \<or> r = - EIO)"
  using scsi_transfers_return [of "flaky_scsi 512 100" "disk_bd 100" "(16, zero_disk 512)" 3 1 "[]"]
  by (simp add: flaky_scsi_def)

text \<open>The size of the disk. For a target whose last sector is \<open>last_lba\<close> (READ CAPACITY (10)
  saturates at 2^32 - 1, as the standard says), warm-up computes \<open>last_lba\<close> + 1 sectors of the
  reported size; when READ CAPACITY (16) is needed and fails, 2^32 sectors.\<close>

theorem scsi_capacity_correct:
  assumes rc10: "scsi_cmd_read_capacity scsi u 8 =
      (0, putBI32 (if last_lba < 0xffffffff then ucast last_lba else 0xffffffff) @ putBI32 blk, u1)"
    and rc16: "scsi_cmd_read_capacity16 scsi u1 32 =
      (stat16, (if stat16 = 0 then putBI64 last_lba @ putBI32 blk @ replicate 20 0 else d16), u2)"
  shows "\<exists>bd' u'. scsi_capacity scsi bd u rcd0 = (0, bd', u') \<and> sectorSize bd' = blk
      \<and> sectorOffset bd' = 0
      \<and> sectorCount bd' = (if last_lba < 0xffffffff \<or> stat16 = 0 then last_lba + 1 else 2 ^ 32)"
proof -
  let ?l = "if last_lba < 0xffffffff then ucast last_lba else 0xffffffff"
  let ?rcd = "overlay rcd0 (putBI32 ?l @ putBI32 blk)"
  have f: "getBI32 ?rcd 0 = ?l" "getBI32 ?rcd 4 = blk"
    using getBI32_put [of "[]" ?l "putBI32 blk @ drop 8 rcd0"]
      getBI32_put [of "putBI32 ?l" blk "drop 8 rcd0"] by (simp_all add: overlay_def)
  let ?rcd16 = "overlay (replicate 32 0) (putBI64 last_lba @ putBI32 blk @ replicate 20 0)"
  have g: "getBI64 ?rcd16 0 = last_lba" "getBI32 ?rcd16 8 = blk"
    using getBI64_put [of "[]" last_lba "putBI32 blk @ replicate 20 0"]
      getBI32_put [of "putBI64 last_lba" blk "replicate 20 0"]
    by (simp_all add: overlay_def)
  show ?thesis
  proof (cases "last_lba < 0xffffffff")
    case True
    then have n: "unat last_lba < 0xffffffff" by (simp add: word_less_nat_alt)
    have un: "unat (ucast last_lba :: u32) = unat last_lba"
      using n by (simp add: unsigned_ucast_eq take_bit_nat_eq_self)
    then have "(ucast last_lba :: u32) \<noteq> 0xffffffff" using n by auto
    moreover have "ucast (ucast last_lba :: u32) = last_lba"
      using un by (metis unat_ucast_32_64 word_unat_eq_iff)
    ultimately show ?thesis using True rc10 f by (simp add: scsi_capacity_def Let_def)
  next
    case False
    then show ?thesis using rc10 rc16 f g
      by (cases "stat16 = 0") (simp_all add: scsi_capacity_def Let_def)
  qed
qed

text \<open>A 3 TiB disk, as a target that answers both capacity commands.\<close>

definition big_scsi :: "u64 \<Rightarrow> unit scsi_interface" where
  "big_scsi n = \<lparr>scsi_name = ''usb'', max_sectors = 8, get_max_lun = (\<lambda>u. (0, u)),
     queue_cmd = (\<lambda>u cdb cl b len wr.
       (0, if cdb ! 0 = 0x25 then putBI32 (if n < 0xffffffff then ucast n else 0xffffffff) @ putBI32 512
           else if cdb ! 0 = 0x9e then putBI64 n @ putBI32 512 @ replicate 20 0 else [], u))\<rparr>"

theorem scsi_capacity_correct_witness:
  "\<exists>bd' u'. scsi_capacity (big_scsi 0x17fffffff) (disk_bd 0) () (replicate 8 0) = (0, bd', u')
     \<and> sectorSize bd' = 512 \<and> sectorOffset bd' = 0 \<and> sectorCount bd' = 0x180000000"
  using scsi_capacity_correct [of "big_scsi 0x17fffffff" "()" "0x17fffffff" 512 "()" 0 "[]" "()"
      "disk_bd 0" "replicate 8 0"]
  by (simp add: big_scsi_def scsi_cmd_read_capacity_def scsi_cmd_def scsi_cmd_read_capacity16_def)

text \<open>The device table. A device that warms up occupies the first free entry, keeps every
  other entry, is announced to the manager under that entry, and disconnecting it announces
  the same entry and makes it free again; with no free entry nothing changes.\<close>

theorem scsi_connect_disconnect:
  assumes "\<forall>x \<in> set pre. slot_priv x \<noteq> None \<and> slot_priv x \<noteq> Some idn" "slot_priv x = None"
    and "scsi_warmup scsi ((slot_bd x)\<lparr>bd_name := Some (scsi_name scsi)\<rparr>) u sd0 rcd0 = Some (0, bd', u')"
    and "\<forall>y \<in> set g. slot_priv y \<noteq> None"
  shows "scsi_connect idn scsi sd0 rcd0 (pre @ x # post) u
           = Some (pre @ \<lparr>slot_bd = bd', slot_priv = Some idn\<rparr> # post, Some (length pre), u')
       \<and> scsi_disconnect idn (pre @ \<lparr>slot_bd = bd', slot_priv = Some idn\<rparr> # post)
           = (pre @ \<lparr>slot_bd = bd', slot_priv = None\<rparr> # post, Some (length pre))
       \<and> scsi_connect idn scsi sd0 rcd0 g u = Some (g, None, u)"
  using assms scsi_connect_from_free [of pre x scsi u sd0 rcd0 0 bd' u' 0 idn post]
    scsi_disconnect_from_hit [of pre idn "\<lparr>slot_bd = bd', slot_priv = Some idn\<rparr>" 0 post]
    scsi_connect_from_full [of g 0 idn scsi sd0 rcd0 u]
  by (simp add: scsi_connect_def scsi_disconnect_def)

lemma big_warmup:
  "scsi_warmup (big_scsi 99) (disk_bd 0) () (replicate 18 0) (replicate 8 0) = Some (0, disk_bd 100, ())"
  by (simp add: scsi_warmup_def big_scsi_def scsi_cmd_inquiry_def scsi_cmd_def scsi_wait_ready.simps
      scsi_cmd_test_unit_ready_def scsi_capacity_def scsi_cmd_read_capacity_def disk_bd_def
      getBI32_def putBI32_def overlay_def)

theorem scsi_connect_disconnect_witness:
  "scsi_connect 7 (big_scsi 99) (replicate 18 0) (replicate 8 0)
      [\<lparr>slot_bd = disk_bd 5, slot_priv = Some 3\<rparr>, \<lparr>slot_bd = disk_bd 0, slot_priv = None\<rparr>] ()
    = Some ([\<lparr>slot_bd = disk_bd 5, slot_priv = Some 3\<rparr>, \<lparr>slot_bd = disk_bd 100, slot_priv = Some 7\<rparr>],
            Some 1, ())"
  using scsi_connect_disconnect [of "[\<lparr>slot_bd = disk_bd 5, slot_priv = Some 3\<rparr>]" 7
      "\<lparr>slot_bd = disk_bd 0, slot_priv = None\<rparr>" "big_scsi 99" "()" "replicate 18 0" "replicate 8 0"
      "disk_bd 100" "()" "[]" "[]"] big_warmup
  by (simp add: disk_bd_def big_scsi_def)

end
