(* ===== verification/Usb_Bulk.thy ===== *)
theory Usb_Bulk
  imports Scsi
begin

text \<open>
  The bulk-only transport of \<open>__usbd_bd_assault/src/usbmass_bd/usbmass_bd_usb_mass.c\<close>: command blocks,
  data phases in pieces of 4096 bytes, status handling with reset recovery, and \<open>usb_queue_cmd\<close>, the
  function the SCSI layer calls. The host stack is the parameter \<open>'u usb_host\<close>: each transfer returns the
  result of queueing it and what its callback reports (a queued transfer always completes, at the
  latest when the device is unplugged). The locale \<open>bulk_target\<close> states what the USB mass-storage
  bulk-only protocol demands of a disk, as laws on its protocol phase. Shown: data phases end, the
  bytes of the transfer are those of the phase, the transport leaves the device out of any
  unfinished write or marks it offline, and it is a \<open>scsi_target\<close>.
\<close>

section \<open>Definitions\<close>

abbreviation (input) USB_RC_OK :: int where "USB_RC_OK \<equiv> 0"
abbreviation (input) CBW_TAG :: u32 where "CBW_TAG \<equiv> 0x43425355"
abbreviation (input) CSW_TAG :: u32 where "CSW_TAG \<equiv> 0x53425355"
abbreviation (input) USB_BLOCK_SIZE :: u32 where "USB_BLOCK_SIZE \<equiv> 4096"
abbreviation (input) USBMASS_DEV_STAT_CONN :: u8 where "USBMASS_DEV_STAT_CONN \<equiv> 0x01"
abbreviation (input) USBMASS_DEV_STAT_CONF :: u8 where "USBMASS_DEV_STAT_CONF \<equiv> 0x02"
abbreviation (input) USBMASS_DEV_STAT_ERR :: u8 where "USBMASS_DEV_STAT_ERR \<equiv> 0x80"

record mass_dev =
  controlEp :: int
  bulkEpI :: int
  bulkEpO :: int
  devId :: int
  configId :: u8
  status :: u8
  interfaceNumber :: u8
  interfaceAlt :: u8
  ioSema :: int

text \<open>A control transfer takes the setup packet (request type, request, value, index, length). Transfers
  return the result of queueing and, if that is \<open>USB_RC_OK\<close>, the callback's result code and the bytes
  moved; \<open>bulk_in\<close> returns the bytes stored in the buffer, \<open>bulk_out\<close> the number taken.\<close>

record 'u usb_host =
  control_transfer :: "int \<Rightarrow> u8 \<Rightarrow> u8 \<Rightarrow> int \<Rightarrow> int \<Rightarrow> u16 \<Rightarrow> 'u \<Rightarrow> int \<times> int \<times> bytes \<times> 'u"
  bulk_out :: "int \<Rightarrow> bytes \<Rightarrow> 'u \<Rightarrow> int \<times> int \<times> nat \<times> 'u"
  bulk_in :: "int \<Rightarrow> nat \<Rightarrow> 'u \<Rightarrow> int \<times> int \<times> bytes \<times> 'u"

record cbw_packet =
  cbw_signature :: u32
  cbw_tag :: u32
  dataTransferLength :: u32
  cbw_flags :: u8
  cbw_lun :: u8
  comLength :: u8
  comData :: bytes

record csw_packet =
  csw_signature :: u32
  csw_tag :: u32
  dataResidue :: u32
  csw_status :: u8

text \<open>The packets as the bytes of the C structures.\<close>

definition cbw_bytes :: "cbw_packet \<Rightarrow> bytes" where
  "cbw_bytes c = put_le32 (cbw_signature c) @ put_le32 (cbw_tag c) @ put_le32 (dataTransferLength c)
     @ [cbw_flags c, cbw_lun c, comLength c] @ comData c"

definition csw_bytes :: "csw_packet \<Rightarrow> bytes" where
  "csw_bytes c = put_le32 (csw_signature c) @ put_le32 (csw_tag c) @ put_le32 (dataResidue c) @ [csw_status c]"

definition csw_of :: "bytes \<Rightarrow> csw_packet" where
  "csw_of b = \<lparr>csw_signature = le32 b 0, csw_tag = le32 b 4, dataResidue = le32 b 8, csw_status = b ! 12\<rparr>"

text \<open>\<open>ret\<close> after the pattern \<open>if (ret == USB_RC_OK) { WaitSema(...); ret = cb_data.returnCode; }\<close>.\<close>

definition waited :: "int \<Rightarrow> int \<Rightarrow> int" where
  "waited ret returnCode = (if ret = USB_RC_OK then returnCode else ret)"

definition usb_set_configuration :: "'u usb_host \<Rightarrow> mass_dev \<Rightarrow> int \<Rightarrow> 'u \<Rightarrow> int \<times> 'u" where
  "usb_set_configuration host dev configNumber u =
     (let (ret, res, _, u') = control_transfer host (controlEp dev) 0x00 0x09 configNumber 0 0 u in (waited ret res, u'))"

definition usb_set_interface :: "'u usb_host \<Rightarrow> mass_dev \<Rightarrow> int \<Rightarrow> int \<Rightarrow> 'u \<Rightarrow> int \<times> 'u" where
  "usb_set_interface host dev interface altSetting u =
     (let (ret, res, _, u') = control_transfer host (controlEp dev) 0x01 0x0b altSetting interface 0 u in (waited ret res, u'))"

text \<open>As in the code, the index of the request is the pipe number of the endpoint.\<close>

definition usb_bulk_clear_halt :: "'u usb_host \<Rightarrow> mass_dev \<Rightarrow> bool \<Rightarrow> 'u \<Rightarrow> int \<times> 'u" where
  "usb_bulk_clear_halt host dev is_in u =
     (let (ret, res, _, u') = control_transfer host (controlEp dev) 0x02 0x01 0 (if is_in then bulkEpI dev else bulkEpO dev) 0 u
      in (waited ret res, u'))"

definition usb_bulk_reset :: "'u usb_host \<Rightarrow> mass_dev \<Rightarrow> u8 \<Rightarrow> 'u \<Rightarrow> mass_dev \<times> 'u" where
  "usb_bulk_reset host dev mode u =
     (let (ret, res, _, u1) = control_transfer host (controlEp dev) 0x21 0xFF 0 (int (unat (interfaceNumber dev))) 0 u;
          r1 = waited ret res;
          (r2, u2) = (if r1 = USB_RC_OK \<and> mode AND 1 \<noteq> 0 then usb_bulk_clear_halt host dev True u1 else (r1, u1));
          (r3, u3) = (if r2 = USB_RC_OK \<and> mode AND 2 \<noteq> 0 then usb_bulk_clear_halt host dev False u2 else (r2, u2))
      in (if r3 \<noteq> USB_RC_OK then dev\<lparr>status := status dev OR USBMASS_DEV_STAT_ERR\<rparr> else dev, u3))"

text \<open>The status packet is read into a structure that already holds the expected values.\<close>

definition usb_bulk_status :: "'u usb_host \<Rightarrow> mass_dev \<Rightarrow> u32 \<Rightarrow> 'u \<Rightarrow> int \<times> csw_packet \<times> 'u" where
  "usb_bulk_status host dev tag u =
     (let csw = \<lparr>csw_signature = CSW_TAG, csw_tag = tag, dataResidue = 0, csw_status = 0\<rparr>;
          (ret, res, d, u') = bulk_in host (bulkEpI dev) 13 u
      in (waited ret res, if ret = USB_RC_OK then csw_of (overlay (csw_bytes csw) d) else csw, u'))"

definition usb_bulk_manage_status :: "'u usb_host \<Rightarrow> mass_dev \<Rightarrow> u32 \<Rightarrow> 'u \<Rightarrow> int \<times> mass_dev \<times> 'u" where
  "usb_bulk_manage_status host dev tag u =
     (let (ret1, csw1, u1) = usb_bulk_status host dev tag u;
          (ret, csw, u2) = (if ret1 \<noteq> USB_RC_OK
                            then let (_, v) = usb_bulk_clear_halt host dev True u1 in usb_bulk_status host dev tag v
                            else (ret1, csw1, u1));
          (dev', u3) = (if ret \<noteq> USB_RC_OK \<or> csw_signature csw \<noteq> CSW_TAG \<or> csw_tag csw \<noteq> tag \<or> csw_status csw = 2
                        then usb_bulk_reset host dev 3 u2 else (dev, u2))
      in (if ret = USB_RC_OK \<and> csw_signature csw = CSW_TAG \<and> csw_tag csw = tag then uint (csw_status csw) else - 1, dev', u3))"

text \<open>\<open>max_lun\<close> is a \<open>char\<close>, signed on this target; \<open>m0\<close> is its value before the transfer.\<close>

definition usb_bulk_get_max_lun :: "'u usb_host \<Rightarrow> u8 \<Rightarrow> mass_dev \<Rightarrow> 'u \<Rightarrow> int \<times> 'u" where
  "usb_bulk_get_max_lun host m0 dev u =
     (let (ret, res, d, u1) = control_transfer host (controlEp dev) 0xA1 0xFE 0 (int (unat (interfaceNumber dev))) 1 u;
          r = waited ret res
      in if r = USB_RC_OK then (sint (hd (overlay [m0] d)), u1)
         else let (_, u2) = usb_bulk_clear_halt host dev True u1; (_, u3) = usb_bulk_clear_halt host dev False u2
              in (- r, u3))"

definition usb_bulk_command :: "'u usb_host \<Rightarrow> mass_dev \<Rightarrow> cbw_packet \<Rightarrow> 'u \<Rightarrow> int \<times> mass_dev \<times> 'u" where
  "usb_bulk_command host dev packet u =
     (if status dev AND USBMASS_DEV_STAT_ERR \<noteq> 0 then (- 1, dev, u)
      else let (ret, res, _, u1) = bulk_out host (bulkEpO dev) (cbw_bytes packet) u;
               r = waited ret res
           in if r \<noteq> USB_RC_OK then let (dev', u2) = usb_bulk_reset host dev 3 u1 in (r, dev', u2)
              else (r, dev, u1))"

text \<open>\<open>perform_bulk_transfer\<close> and its callback \<open>usb_transfer_callback\<close>, which queues the next piece: the
  result, the bytes in the buffer and the host. They do not end if the device keeps moving no bytes
  (\<open>None\<close>).\<close>

definition piece_len :: "u32 \<Rightarrow> nat" where
  "piece_len remaining = unat (if remaining > USB_BLOCK_SIZE then USB_BLOCK_SIZE else remaining)"

partial_function (option) bulk_in_loop :: "'u usb_host \<Rightarrow> int \<Rightarrow> u32 \<Rightarrow> bytes \<Rightarrow> 'u \<Rightarrow> (int \<times> bytes \<times> 'u) option" where
  "bulk_in_loop host pipe remaining buf u =
     (let (ret, res, d, u') = bulk_in host pipe (piece_len remaining) u
      in if ret \<noteq> USB_RC_OK then Some (ret, buf, u')
         else if res \<noteq> USB_RC_OK then Some (res, buf @ d, u')
         else let remaining' = remaining - of_nat (length d)
              in if remaining' > 0 then bulk_in_loop host pipe remaining' (buf @ d) u'
                 else Some (res, buf @ d, u'))"

partial_function (option) bulk_out_loop :: "'u usb_host \<Rightarrow> int \<Rightarrow> u32 \<Rightarrow> bytes \<Rightarrow> 'u \<Rightarrow> (int \<times> 'u) option" where
  "bulk_out_loop host pipe remaining buf u =
     (let (ret, res, n, u') = bulk_out host pipe (take (piece_len remaining) buf) u
      in if ret \<noteq> USB_RC_OK then Some (ret, u')
         else if res \<noteq> USB_RC_OK then Some (res, u')
         else let remaining' = remaining - of_nat n
              in if remaining' > 0 then bulk_out_loop host pipe remaining' (drop n buf) u'
                 else Some (res, u'))"

definition usb_bulk_transfer :: "'u usb_host \<Rightarrow> mass_dev \<Rightarrow> bool \<Rightarrow> bytes \<Rightarrow> u32 \<Rightarrow> 'u \<Rightarrow> (int \<times> bytes \<times> 'u) option" where
  "usb_bulk_transfer host dev is_in buffer transferSize u =
     map_option (\<lambda>(ret, d, u1).
         if ret \<noteq> USB_RC_OK then let (_, u2) = usb_bulk_clear_halt host dev is_in u1 in (ret, d, u2) else (ret, d, u1))
       (if is_in then bulk_in_loop host (bulkEpI dev) transferSize [] u
        else map_option (\<lambda>(ret, u'). (ret, [], u')) (bulk_out_loop host (bulkEpO dev) transferSize buffer u))"

text \<open>The state of the transport: the device entry, the static tag counter, the command bytes the static
  packet still holds from the last command, and the host with the device behind it.\<close>

record 'u usb_transport =
  tp_dev :: mass_dev
  tp_tag :: u32
  tp_comData :: bytes
  tp_host :: 'u

definition make_cbw :: "'u usb_transport \<Rightarrow> bytes \<Rightarrow> u32 \<Rightarrow> u32 \<Rightarrow> bool \<Rightarrow> cbw_packet" where
  "make_cbw st cmd cmd_len data_len data_wr =
     \<lparr>cbw_signature = CBW_TAG, cbw_tag = tp_tag st, dataTransferLength = data_len,
      cbw_flags = (if data_wr then 0 else 0x80), cbw_lun = 0, comLength = ucast cmd_len,
      comData = overlay (tp_comData st) (take (unat cmd_len) cmd)\<rparr>"

definition usb_queue_cmd :: "'u usb_host \<Rightarrow> 'u usb_transport \<Rightarrow> bytes \<Rightarrow> u32 \<Rightarrow> bytes \<Rightarrow> u32 \<Rightarrow> bool \<Rightarrow>
    (int \<times> bytes \<times> 'u usb_transport) option" where
  "usb_queue_cmd host st0 cmd cmd_len data data_len data_wr =
     (let st = st0\<lparr>tp_tag := tp_tag st0 + 1\<rparr>;
          cbw = make_cbw st cmd cmd_len data_len data_wr;
          (r, dev1, u1) = usb_bulk_command host (tp_dev st) cbw (tp_host st);
          st1 = st\<lparr>tp_dev := dev1, tp_comData := comData cbw, tp_host := u1\<rparr>
      in if r \<noteq> USB_RC_OK then Some (- EIO, [], st1)
         else case (if data_len > 0 then usb_bulk_transfer host dev1 (\<not> data_wr) data data_len u1 else Some (USB_RC_OK, [], u1)) of
                None \<Rightarrow> None
              | Some (rcode, d, u2) \<Rightarrow>
                  let (result, dev2, u3) = usb_bulk_manage_status host dev1 (tp_tag st) u2
                  in Some (if rcode \<noteq> USB_RC_OK then - EIO else result, d, st1\<lparr>tp_dev := dev2, tp_host := u3\<rparr>))"

text \<open>The SCSI interface \<open>usb_mass_init\<close> sets up for a device entry; \<open>usb_queue_cmd_returns\<close> shows
  when \<open>the\<close> is applied to a returned value.\<close>

definition usb_scsi :: "'u usb_host \<Rightarrow> u8 \<Rightarrow> 'u usb_transport scsi_interface" where
  "usb_scsi host m0 = \<lparr>scsi_name = ''usb'', max_sectors = 128,
     get_max_lun = (\<lambda>st. let (r, u) = usb_bulk_get_max_lun host m0 (tp_dev st) (tp_host st) in (r, st\<lparr>tp_host := u\<rparr>)),
     queue_cmd = (\<lambda>st cmd cl data len wr. the (usb_queue_cmd host st cmd cl data len wr))\<rparr>"

section \<open>The protocol's contract\<close>

text \<open>Where the device is in a command: it will send data, it takes data for a run of sectors, it will report
  success for the tag, or it will not.\<close>

datatype phase = Idle | DataIn u32 bytes | DataOut u32 nat nat bytes | Status u32 | Failed u32

fun writing :: "phase \<Rightarrow> nat set" where
  "writing (DataOut t a n got) = {a..<a + n}"
| "writing p = {}"

definition rw_cbw :: "cbw_packet \<Rightarrow> bool \<Rightarrow> nat \<Rightarrow> nat \<Rightarrow> nat \<Rightarrow> bool" where
  "rw_cbw c wr a n len \<longleftrightarrow> cbw_signature c = CBW_TAG \<and> cbw_lun c = 0 \<and> length (comData c) = 16
     \<and> decode_rw (comData c) = Some (wr, a, n) \<and> unat (dataTransferLength c) = len
     \<and> cbw_flags c = (if wr then 0 else 0x80)"

text \<open>The lengths of the pieces of a data phase.\<close>

lemma piece_len_le: "piece_len rem \<le> unat rem" "rem \<noteq> 0 \<Longrightarrow> 0 < piece_len rem"
  by (auto simp: piece_len_def word_less_nat_alt unat_gt_0)

lemma unat_rest: "k \<le> unat (rem :: u32) \<Longrightarrow> unat (rem - of_nat k) = unat rem - k"
  using unat_bound [of 32 rem] by (subst unat_sub_le) (simp_all add: word_le_nat_alt unat_of_nat)

lemma piece_dvd:
  assumes "512 dvd unat rem" "rem \<noteq> 0"
  shows "piece_len rem \<noteq> 31" "512 dvd unat rem - piece_len rem"
proof -
  have "512 dvd piece_len rem" using assms(1) by (simp add: piece_len_def)
  then show "512 dvd unat rem - piece_len rem" using assms(1) by (rule dvd_diff_nat [rotated])
  show "piece_len rem \<noteq> 31" using \<open>512 dvd piece_len rem\<close> by auto
qed

text \<open>The command bytes after the copy decode to the same command, whatever the packet held before.\<close>

lemma decode_overlay:
  assumes "cdb_fits cdb cl" "length old = 16"
  shows "decode_rw (overlay old (take (unat cl) cdb)) = decode_rw cdb" "length (overlay old (take (unat cl) cdb)) = 16"
proof -
  have len: "length cdb = 16" and c: "cl = 16 \<or> cl = 12 \<and> (cdb ! 0 = 0x28 \<or> cdb ! 0 = 0x2a)"
    using assms(1) by (simp_all add: cdb_fits_def)
  let ?c = "take 12 cdb @ drop 12 old"
  have "?c ! 0 = cdb ! 0" "take 4 (drop 2 ?c) = take 4 (drop 2 cdb)" "take 2 (drop 7 ?c) = take 2 (drop 7 cdb)"
    using len by (simp_all add: nth_append drop_take take_append)
  then show "decode_rw (overlay old (take (unat cl) cdb)) = decode_rw cdb" "length (overlay old (take (unat cl) cdb)) = 16"
    using c len assms(2) by (auto simp: decode_rw_def overlay_def)
qed

locale bulk_target =
  fixes host :: "'u usb_host" and ctl epI epO iface :: int
    and dok :: "'u \<Rightarrow> bool" and disk :: "'u \<Rightarrow> nat \<Rightarrow> bytes" and phase :: "'u \<Rightarrow> phase"
    and ssz nsec :: nat
  assumes ssz_pos: "0 < ssz" "512 dvd ssz"
    and disk_len: "dok u \<Longrightarrow> length (disk u k) = ssz"
    and command_read: "dok u \<Longrightarrow> writing (phase u) = {} \<Longrightarrow> rw_cbw c False a n (n * ssz) \<Longrightarrow> a + n \<le> nsec \<Longrightarrow>
          bulk_out host epO (cbw_bytes c) u = (ret, res, k, u') \<Longrightarrow>
          dok u' \<and> disk u' = disk u \<and> writing (phase u') = {} \<and> (ret = 0 \<and> res = 0 \<longrightarrow>
            phase u' = DataIn (cbw_tag c) (sectors (disk u) a n) \<or> phase u' = Failed (cbw_tag c))"
    and command_write: "dok u \<Longrightarrow> writing (phase u) = {} \<Longrightarrow> rw_cbw c True a n (n * ssz) \<Longrightarrow> a + n \<le> nsec \<Longrightarrow>
          bulk_out host epO (cbw_bytes c) u = (ret, res, k, u') \<Longrightarrow>
          dok u' \<and> disk u' = disk u \<and> writing (phase u') \<subseteq> {a..<a + n} \<and> (ret = 0 \<and> res = 0 \<longrightarrow>
            phase u' = DataOut (cbw_tag c) a n [] \<or> phase u' = Failed (cbw_tag c))"
    and in_frame: "dok u \<Longrightarrow> bulk_in host epI len u = (ret, res, x, u') \<Longrightarrow>
          dok u' \<and> length x \<le> len \<and> (\<forall>k. k \<notin> writing (phase u) \<longrightarrow> disk u' k = disk u k) \<and> writing (phase u') \<subseteq> writing (phase u)"
    and in_data: "dok u \<Longrightarrow> phase u = DataIn t d \<Longrightarrow> d \<noteq> [] \<Longrightarrow> 0 < len \<Longrightarrow> bulk_in host epI len u = (0, 0, x, u') \<Longrightarrow>
          x \<noteq> [] \<and> length x \<le> length d \<and> x = take (length x) d
          \<and> phase u' = (if length x = length d then Status t else DataIn t (drop (length x) d))"
    and in_writing: "dok u \<Longrightarrow> writing (phase u) \<noteq> {} \<Longrightarrow> bulk_in host epI len u \<noteq> (0, 0, x, u')"
    and in_failed: "dok u \<Longrightarrow> phase u = Failed t \<Longrightarrow> 0 < len \<Longrightarrow> bulk_in host epI len u = (ret, res, x, u') \<Longrightarrow>
          phase u' = Failed t \<and> (ret = 0 \<and> res = 0 \<longrightarrow> x \<noteq> [] \<and> (len = 13 \<longrightarrow> length x = 13
            \<and> \<not> (le32 x 0 = CSW_TAG \<and> le32 x 4 = t \<and> x ! 12 = 0)))"
    and out_data: "dok u \<Longrightarrow> phase u = DataOut t a n got \<Longrightarrow> x \<noteq> [] \<Longrightarrow> length got + length x \<le> n * ssz \<Longrightarrow>
          bulk_out host epO x u = (ret, res, k, u') \<Longrightarrow>
          dok u' \<and> (\<forall>j. j \<notin> {a..<a + n} \<longrightarrow> disk u' j = disk u j) \<and> writing (phase u') \<subseteq> {a..<a + n}
          \<and> (ret = 0 \<and> res = 0 \<longrightarrow> k = length x \<and> (phase u' = Failed t
              \<or> (if length got + k < n * ssz then phase u' = DataOut t a n (got @ x)
                 else phase u' = Status t \<and> disk u' = upd_sectors (disk u) a n ssz (got @ x))))"
    and out_failed: "dok u \<Longrightarrow> phase u = Failed t \<Longrightarrow> x \<noteq> [] \<Longrightarrow> length x \<noteq> 31 \<Longrightarrow>
          bulk_out host epO x u = (ret, res, k, u') \<Longrightarrow>
          dok u' \<and> disk u' = disk u \<and> phase u' = Failed t \<and> (ret = 0 \<and> res = 0 \<longrightarrow> k = length x)"
    and control: "dok u \<Longrightarrow> control_transfer host ctl rt rq v i l u = (ret, res, d, u') \<Longrightarrow>
          dok u' \<and> (\<forall>k. k \<notin> writing (phase u) \<longrightarrow> disk u' k = disk u k) \<and> writing (phase u') \<subseteq> writing (phase u)
          \<and> (rq \<noteq> 0xFF \<longrightarrow> (\<forall>t. phase u = Failed t \<longrightarrow> phase u' = Failed t))"
    and reset: "dok u \<Longrightarrow> control_transfer host ctl 0x21 0xFF 0 iface 0 u = (0, 0, d, u') \<Longrightarrow> writing (phase u') = {}"
begin

text \<open>What a step on the device may change while a write is unfinished.\<close>

definition frame :: "nat set \<Rightarrow> 'u \<Rightarrow> 'u \<Rightarrow> bool" where
  "frame W u u' \<longleftrightarrow> dok u' \<and> (\<forall>k. k \<notin> W \<longrightarrow> disk u' k = disk u k) \<and> writing (phase u') \<subseteq> W"

lemma frame_trans: "frame W u v \<Longrightarrow> frame W v w \<Longrightarrow> frame W u w"
  by (simp add: frame_def)

lemma frame_mono: "frame W u v \<Longrightarrow> W \<subseteq> W' \<Longrightarrow> frame W' u v"
  by (auto simp: frame_def)

lemma frame_empty: "frame {} u v \<Longrightarrow> disk v = disk u"
  by (auto simp: frame_def)

lemma in_step:
  assumes "dok u" "writing (phase u) \<subseteq> W" "bulk_in host epI len u = (ret, res, x, u')"
  shows "frame W u u'" "length x \<le> len"
  using in_frame [OF assms(1,3)] assms(2) by (auto simp: frame_def)

lemma control_step:
  assumes "dok u" "writing (phase u) \<subseteq> W" "control_transfer host ctl rt rq v i l u = (ret, res, d, u')"
  shows "frame W u u'"
  using control [OF assms(1,3)] assms(2) by (auto simp: frame_def)

text \<open>The device entry of this target.\<close>

definition our_dev :: "mass_dev \<Rightarrow> bool" where
  "our_dev dev \<longleftrightarrow> controlEp dev = ctl \<and> bulkEpI dev = epI \<and> bulkEpO dev = epO \<and> int (unat (interfaceNumber dev)) = iface"

lemma our_dev_status [simp]: "our_dev (dev\<lparr>status := x\<rparr>) = our_dev dev"
  by (simp add: our_dev_def)

lemma clear_halt_step:
  assumes "our_dev dev" "dok u" "writing (phase u) \<subseteq> W" "usb_bulk_clear_halt host dev is_in u = (r, u')"
  shows "frame W u u'" "phase u = Failed t \<Longrightarrow> phase u' = Failed t"
proof -
  obtain ret res d v where c: "control_transfer host ctl 0x02 0x01 0 (if is_in then bulkEpI dev else bulkEpO dev) 0 u = (ret, res, d, v)"
    by (metis prod_cases4)
  then have "v = u'" using assms(1,4) by (auto simp: usb_bulk_clear_halt_def our_dev_def)
  then show "frame W u u'" "phase u = Failed t \<Longrightarrow> phase u' = Failed t"
    using control_step [OF assms(2,3) c] control [OF assms(2) c] by auto
qed

definition offline :: "mass_dev \<Rightarrow> bool" where
  "offline dev \<longleftrightarrow> status dev AND USBMASS_DEV_STAT_ERR \<noteq> 0"

lemma offline_err [simp]: "offline (dev\<lparr>status := x OR USBMASS_DEV_STAT_ERR\<rparr>)"
proof -
  have "(x OR 0x80) AND 0x80 = (0x80 :: u8)" by (rule bit_word_eqI) (auto simp: bit_simps)
  then show ?thesis by (simp add: offline_def)
qed

text \<open>Reset recovery leaves no unfinished write, or the device is offline.\<close>

lemma reset_recovery:
  assumes "our_dev dev" "dok u" "writing (phase u) \<subseteq> W" "usb_bulk_reset host dev 3 u = (dev', u')"
  shows "frame W u u' \<and> our_dev dev' \<and> (offline dev' \<or> writing (phase u') = {})"
proof -
  obtain ret res d u1 where c: "control_transfer host ctl 0x21 0xFF 0 iface 0 u = (ret, res, d, u1)" by (metis prod_cases4)
  obtain r2 u2 where h2: "usb_bulk_clear_halt host dev True u1 = (r2, u2)" by (metis surj_pair)
  obtain r3 u3 where h3: "usb_bulk_clear_halt host dev False u2 = (r3, u3)" by (metis surj_pair)
  have f1: "frame W u u1" by (rule control_step [OF assms(2,3) c])
  then have f2: "frame W u u2" using clear_halt_step(1) [OF assms(1) _ _ h2, of W] by (auto simp: frame_def)
  then have f3: "frame W u u3" using clear_halt_step(1) [OF assms(1) _ _ h3, of W] by (auto simp: frame_def)
  have idle: "writing (phase u3) = {}" if "ret = 0" "res = 0"
  proof -
    have w1: "writing (phase u1) = {}" using reset [OF assms(2)] c that by blast
    then have "frame {} u1 u2" using clear_halt_step(1) [OF assms(1) _ _ h2, of "{}"] f1 by (auto simp: frame_def)
    then have "frame {} u2 u3" using clear_halt_step(1) [OF assms(1) _ _ h3, of "{}"] by (auto simp: frame_def)
    then show ?thesis by (simp add: frame_def)
  qed
  have m: "(3 :: u8) AND 1 \<noteq> 0" "(3 :: u8) AND 2 \<noteq> 0" by simp_all
  have run: "usb_bulk_reset host dev 3 u =
     (if waited ret res \<noteq> 0 then (dev\<lparr>status := status dev OR USBMASS_DEV_STAT_ERR\<rparr>, u1)
      else if r2 \<noteq> 0 then (dev\<lparr>status := status dev OR USBMASS_DEV_STAT_ERR\<rparr>, u2)
      else if r3 \<noteq> 0 then (dev\<lparr>status := status dev OR USBMASS_DEV_STAT_ERR\<rparr>, u3) else (dev, u3))"
    using c h2 h3 assms(1) m by (simp add: usb_bulk_reset_def our_dev_def)
  show ?thesis
  proof (cases "waited ret res = 0 \<and> r2 = 0 \<and> r3 = 0")
    case True
    then have "dev' = dev" "u' = u3" "ret = 0" "res = 0" using run assms(4) by (auto simp: waited_def split: if_splits)
    then show ?thesis using idle f3 assms(1) by simp
  next
    case False
    then have "dev' = dev\<lparr>status := status dev OR USBMASS_DEV_STAT_ERR\<rparr>" "u' \<in> {u1, u2, u3}"
      using run assms(4) by (auto split: if_splits)
    then show ?thesis using f1 f2 f3 assms(1) by auto
  qed
qed

lemma status_step:
  assumes "our_dev dev" "dok u" "writing (phase u) \<subseteq> W" "usb_bulk_status host dev tag u = (ret, csw, u')"
  shows "frame W u u'" "ret = 0 \<Longrightarrow> writing (phase u') = {}"
    "phase u = Failed tag \<Longrightarrow> phase u' = Failed tag
       \<and> \<not> (ret = 0 \<and> csw_signature csw = CSW_TAG \<and> csw_tag csw = tag \<and> csw_status csw = 0)"
proof -
  let ?c0 = "\<lparr>csw_signature = CSW_TAG, csw_tag = tag, dataResidue = 0, csw_status = 0\<rparr>"
  obtain a b d v where q: "bulk_in host epI 13 u = (a, b, d, v)" by (metis prod_cases4)
  have e: "ret = waited a b" "v = u'" "a = 0 \<Longrightarrow> csw = csw_of (overlay (csw_bytes ?c0) d)"
    using q assms(1,4) by (auto simp: usb_bulk_status_def our_dev_def Let_def)
  show "frame W u u'" using in_step [OF assms(2,3) q] e(2) by simp
  show "writing (phase u') = {}" if "ret = 0"
  proof -
    have "a = 0" "b = 0" using that e(1) by (auto simp: waited_def split: if_splits)
    then have "writing (phase u) = {}" using in_writing [OF assms(2), of 13 d v] q by blast
    then show ?thesis using in_step(1) [OF assms(2) _ q, of "{}"] e(2) by (simp add: frame_def)
  qed
  assume f: "phase u = Failed tag"
  note fl = in_failed [OF assms(2) f _ q]
  have "\<not> (le32 d 0 = CSW_TAG \<and> le32 d 4 = tag \<and> d ! 12 = 0)" "csw = csw_of d" if "ret = 0"
  proof -
    have z: "a = 0" "b = 0" using that e(1) by (auto simp: waited_def split: if_splits)
    then show "\<not> (le32 d 0 = CSW_TAG \<and> le32 d 4 = tag \<and> d ! 12 = 0)" using fl by simp
    have "length d = 13" using fl z by simp
    then have "overlay (csw_bytes ?c0) d = d" by (simp add: overlay_def csw_bytes_def put_le32_def)
    then show "csw = csw_of d" using e(3) z by simp
  qed
  then show "phase u' = Failed tag \<and> \<not> (ret = 0 \<and> csw_signature csw = CSW_TAG \<and> csw_tag csw = tag \<and> csw_status csw = 0)"
    using fl e(2) by (auto simp: csw_of_def)
qed

lemma manage_status:
  assumes "our_dev dev" "dok u" "writing (phase u) \<subseteq> W" "usb_bulk_manage_status host dev tag u = (r, dev', u')"
  shows "frame W u u' \<and> our_dev dev' \<and> (offline dev' \<or> writing (phase u') = {}) \<and> (phase u = Failed tag \<longrightarrow> r \<noteq> 0)"
proof -
  obtain ret1 csw1 u1 where s1: "usb_bulk_status host dev tag u = (ret1, csw1, u1)" by (metis prod_cases3)
  obtain rh v where h: "usb_bulk_clear_halt host dev True u1 = (rh, v)" by (metis surj_pair)
  obtain ret2 csw2 u2 where s2: "usb_bulk_status host dev tag v = (ret2, csw2, u2)" by (metis prod_cases3)
  define ret csw w where rcw: "ret = (if ret1 \<noteq> 0 then ret2 else ret1)" "csw = (if ret1 \<noteq> 0 then csw2 else csw1)"
    "w = (if ret1 \<noteq> 0 then u2 else u1)"
  note st1 = status_step [OF assms(1-3) s1]
  have fv: "frame W u v" "phase u = Failed tag \<Longrightarrow> phase v = Failed tag"
    using clear_halt_step [OF assms(1) _ _ h, of W] st1 by (auto simp: frame_def)
  note st2 = status_step [OF assms(1) _ _ s2, of W]
  have fw: "frame W u w" using st1(1) st2(1) fv by (auto simp: rcw frame_def)
  have ww: "ret = 0 \<Longrightarrow> writing (phase w) = {}" using st1(2) st2(2) fv by (auto simp: rcw frame_def split: if_splits)
  have ng: "phase u = Failed tag \<Longrightarrow> \<not> (ret = 0 \<and> csw_signature csw = CSW_TAG \<and> csw_tag csw = tag \<and> csw_status csw = 0)"
    using st1(3) st2(3) fv by (auto simp: rcw frame_def split: if_splits)
  define bad where "bad \<longleftrightarrow> ret \<noteq> 0 \<or> csw_signature csw \<noteq> CSW_TAG \<or> csw_tag csw \<noteq> tag \<or> csw_status csw = 2"
  obtain devr ur where rr: "usb_bulk_reset host dev 3 w = (devr, ur)" by (metis surj_pair)
  have run: "r = (if ret = 0 \<and> csw_signature csw = CSW_TAG \<and> csw_tag csw = tag then uint (csw_status csw) else - 1)"
    "(dev', u') = (if bad then (devr, ur) else (dev, w))"
    using assms(4) s1 h s2 rr by (auto simp: usb_bulk_manage_status_def bad_def rcw split: if_splits)
  have "frame W u u' \<and> our_dev dev' \<and> (offline dev' \<or> writing (phase u') = {})"
  proof (cases bad)
    case True
    then show ?thesis using reset_recovery [OF assms(1) _ _ rr, of W] fw run(2) frame_trans by (auto simp: frame_def)
  next
    case False
    then show ?thesis using fw ww run(2) assms(1) by (auto simp: bad_def)
  qed
  moreover have "phase u = Failed tag \<longrightarrow> r \<noteq> 0" using ng run(1) by (auto simp: unsigned_eq_0_iff)
  ultimately show ?thesis by blast
qed

subsection \<open>Data phases\<close>

lemma in_loop_failed:
  assumes "dok u" "phase u = Failed t" "rem \<noteq> 0"
  shows "\<exists>r x u'. bulk_in_loop host epI rem buf u = Some (r, buf @ x, u') \<and> length x \<le> unat rem
    \<and> dok u' \<and> disk u' = disk u \<and> phase u' = Failed t"
  using assms
proof (induction "unat rem" arbitrary: rem buf u rule: less_induct)
  case less
  obtain a b d v where q: "bulk_in host epI (piece_len rem) u = (a, b, d, v)" by (metis prod_cases4)
  have lp: "0 < piece_len rem" "piece_len rem \<le> unat rem" using piece_len_le less.prems(3) by auto
  have "writing (phase u) \<subseteq> {}" using less.prems(2) by simp
  note fr = in_step [OF less.prems(1) this q]
  have fr: "frame {} u v" "length d \<le> unat rem" using fr(1) le_trans [OF fr(2) lp(2)] .
  have fl: "phase v = Failed t" "a = 0 \<Longrightarrow> b = 0 \<Longrightarrow> d \<noteq> []" using in_failed [OF less.prems(1,2) lp(1) q] by auto
  have st: "dok v" "disk v = disk u" using fr(1) frame_empty [OF fr(1)] by (simp_all add: frame_def)
  have u: "unat (rem - of_nat (length d)) = unat rem - length d" using fr(2) by (rule unat_rest)
  show ?case
  proof (cases "a = 0 \<and> b = 0 \<and> rem - of_nat (length d) \<noteq> 0")
    case True
    then have "unat (rem - of_nat (length d)) < unat rem" using u fl(2) fr(2) lp by (cases d) auto
    from less.hyps [OF this st(1) fl(1), of "buf @ d"] obtain r x u' where
      "bulk_in_loop host epI (rem - of_nat (length d)) (buf @ d) v = Some (r, (buf @ d) @ x, u')"
      "length x \<le> unat rem - length d" "dok u'" "disk u' = disk v" "phase u' = Failed t" using True u by auto
    then show ?thesis using q True st fr(2)
      by (intro exI [of _ r] exI [of _ "d @ x"] exI [of _ u']) (subst bulk_in_loop.simps, simp add: word_gt_0)
  next
    case False
    then show ?thesis using q st fl(1) fr(2)
      by (subst bulk_in_loop.simps) (cases "a = 0", auto simp: word_gt_0)
  qed
qed

lemma in_loop_data:
  assumes "dok u" "phase u = DataIn t d" "length d = unat rem" "rem \<noteq> 0"
  shows "\<exists>r x u'. bulk_in_loop host epI rem buf u = Some (r, buf @ x, u') \<and> length x \<le> unat rem
    \<and> dok u' \<and> disk u' = disk u \<and> writing (phase u') = {} \<and> (r = 0 \<longrightarrow> x = d)"
  using assms
proof (induction "unat rem" arbitrary: rem buf u d rule: less_induct)
  case less
  obtain a b x v where q: "bulk_in host epI (piece_len rem) u = (a, b, x, v)" by (metis prod_cases4)
  have lp: "0 < piece_len rem" "piece_len rem \<le> unat rem" using piece_len_le less.prems(4) by auto
  have "writing (phase u) \<subseteq> {}" using less.prems(2) by simp
  note fr = in_step [OF less.prems(1) this q]
  have fr: "frame {} u v" "length x \<le> unat rem" using fr(1) le_trans [OF fr(2) lp(2)] .
  have st: "dok v" "disk v = disk u" "writing (phase v) = {}" using fr(1) frame_empty [OF fr(1)] by (simp_all add: frame_def)
  have ne: "d \<noteq> []" using less.prems(3,4) by (auto simp: unsigned_eq_0_iff)
  have dt: "x \<noteq> []" "length x \<le> length d" "x = take (length x) d"
    "phase v = (if length x = length d then Status t else DataIn t (drop (length x) d))" if "a = 0" "b = 0"
    using in_data [OF less.prems(1,2) ne lp(1)] q that by auto
  have u: "unat (rem - of_nat (length x)) = unat rem - length x" using fr(2) by (rule unat_rest)
  show ?case
  proof (cases "a = 0 \<and> b = 0 \<and> rem - of_nat (length x) \<noteq> 0")
    case True
    then have lt: "length x < length d" using u less.prems(3) by (metis diff_is_0_eq not_le unat_eq_zero unat_gt_0 less_irrefl)
    then have ph: "phase v = DataIn t (drop (length x) d)" using dt True by simp
    have "unat (rem - of_nat (length x)) < unat rem" using u dt(1) True lp by (cases x) auto
    from less.hyps [OF this st(1) ph, of "buf @ x"] obtain r y u' where
      "bulk_in_loop host epI (rem - of_nat (length x)) (buf @ x) v = Some (r, (buf @ x) @ y, u')"
      "length y \<le> unat rem - length x" "dok u'" "disk u' = disk v" "writing (phase u') = {}" "r = 0 \<longrightarrow> y = drop (length x) d"
      using True u less.prems(3) by auto
    moreover have "x @ drop (length x) d = d" using dt(3) True by (metis append_take_drop_id)
    ultimately show ?thesis using q True st fr(2)
      by (intro exI [of _ r] exI [of _ "x @ y"] exI [of _ u']) (subst bulk_in_loop.simps, auto simp: word_gt_0)
  next
    case False
    have "x = d" if "a = 0" "b = 0"
    proof -
      have "unat rem - length x = 0" using False that u by simp
      then show ?thesis using dt(2,3) that less.prems(3) by simp
    qed
    then show ?thesis using False q st fr(2)
      by (subst bulk_in_loop.simps) (cases "a = 0", auto simp: word_gt_0)
  qed
qed

lemma out_loop_failed:
  assumes "dok u" "phase u = Failed t" "rem \<noteq> 0" "length buf = unat rem" "512 dvd unat rem"
  shows "\<exists>r u'. bulk_out_loop host epO rem buf u = Some (r, u') \<and> dok u' \<and> disk u' = disk u \<and> phase u' = Failed t"
  using assms
proof (induction "unat rem" arbitrary: rem buf u rule: less_induct)
  case less
  let ?x = "take (piece_len rem) buf"
  obtain a b k v where q: "bulk_out host epO ?x u = (a, b, k, v)" by (metis prod_cases4)
  have lx: "length ?x = piece_len rem" "0 < piece_len rem" using piece_len_le [of rem] less.prems(3,4) by simp_all
  then have "?x \<noteq> []" "length ?x \<noteq> 31" using piece_dvd [OF less.prems(5,3)] by auto
  note fl = out_failed [OF less.prems(1,2) this q]
  have k: "0 < k" "k \<le> unat rem" "512 dvd unat rem - k" if "a = 0" "b = 0"
    using fl that lx piece_len_le [of rem] piece_dvd [OF less.prems(5,3)] by auto
  show ?case
  proof (cases "a = 0 \<and> b = 0 \<and> rem - of_nat k \<noteq> 0")
    case True
    then have u: "unat (rem - of_nat k) = unat rem - k" using k by (intro unat_rest) simp
    then have "unat (rem - of_nat k) < unat rem" using k True by simp
    moreover have "length (drop k buf) = unat (rem - of_nat k)" using u less.prems(4) by simp
    moreover have "512 dvd unat (rem - of_nat k)" using u k True by simp
    ultimately obtain r u' where "bulk_out_loop host epO (rem - of_nat k) (drop k buf) v = Some (r, u')"
      "dok u'" "disk u' = disk v" "phase u' = Failed t" using less.hyps fl True by blast
    then show ?thesis using q True fl by (subst bulk_out_loop.simps) (simp add: word_gt_0)
  next
    case False
    then show ?thesis using q fl by (subst bulk_out_loop.simps) (cases "a = 0", auto simp: word_gt_0)
  qed
qed

lemma upd_frame: "frame {a..<a + n} u v \<Longrightarrow> upd_sectors (disk v) a n sz d = upd_sectors (disk u) a n sz d"
  by (auto simp: frame_def upd_sectors_def)

lemma out_loop_data:
  assumes "dok u" "phase u = DataOut t a n got" "rem \<noteq> 0" "length buf = unat rem" "length got + length buf = n * ssz" "512 dvd unat rem"
  shows "\<exists>r u'. bulk_out_loop host epO rem buf u = Some (r, u') \<and> frame {a..<a + n} u u'
    \<and> (r = 0 \<longrightarrow> phase u' = Failed t \<or> phase u' = Status t \<and> disk u' = upd_sectors (disk u) a n ssz (got @ buf))"
  using assms
proof (induction "unat rem" arbitrary: rem buf u got rule: less_induct)
  case less
  let ?x = "take (piece_len rem) buf" and ?W = "{a..<a + n}"
  obtain p b k v where q: "bulk_out host epO ?x u = (p, b, k, v)" by (metis prod_cases4)
  have lx: "length ?x = piece_len rem" "0 < piece_len rem" "piece_len rem \<le> unat rem"
    using piece_len_le [of rem] less.prems(3,4) by simp_all
  have x: "?x \<noteq> []" "length got + length ?x \<le> n * ssz" using lx less.prems(4,5) by auto
  note out = out_data [OF less.prems(1,2) x q]
  have od: "frame ?W u v" "p = 0 \<Longrightarrow> b = 0 \<Longrightarrow> k = length ?x \<and> (phase v = Failed t
      \<or> (if length got + k < n * ssz then phase v = DataOut t a n (got @ ?x)
         else phase v = Status t \<and> disk v = upd_sectors (disk u) a n ssz (got @ ?x)))"
    using out unfolding frame_def by blast+
  have dv: "dok v" using od(1) by (simp add: frame_def)
  show ?case
  proof (cases "p = 0 \<and> b = 0")
    case True
    have k: "0 < k" "k \<le> unat rem" "?x = take k buf" "512 dvd unat rem - k"
      using od(2) True lx piece_dvd [OF less.prems(6,3)] by auto
    have u: "unat (rem - of_nat k) = unat rem - k" using k(2) by (rule unat_rest)
    have l: "length (drop k buf) = unat (rem - of_nat k)" "512 dvd unat (rem - of_nat k)" using u less.prems(4) k(4) by simp_all
    show ?thesis
    proof (cases "rem - of_nat k = 0")
      case last: True
      then have "?x = buf" "\<not> length got + k < n * ssz" using u less.prems(4,5) k by simp_all
      then have "phase v = Failed t \<or> phase v = Status t \<and> disk v = upd_sectors (disk u) a n ssz (got @ buf)"
        using od(2) True by auto
      moreover have "bulk_out_loop host epO rem buf u = Some (0, v)" using q True last by (subst bulk_out_loop.simps) simp
      ultimately show ?thesis using od(1) by blast
    next
      case more: False
      then have lt: "unat (rem - of_nat k) < unat rem" "length got + k < n * ssz"
        using u k less.prems(4,5) unat_gt_0 [of "rem - of_nat k"] by simp_all
      have run: "bulk_out_loop host epO rem buf u = bulk_out_loop host epO (rem - of_nat k) (drop k buf) v"
        using q True more by (subst bulk_out_loop.simps) (simp add: word_gt_0)
      have "phase v = Failed t \<or> phase v = DataOut t a n (got @ ?x)" using od(2) True unfolding if_P [OF lt(2)] by blast
      then consider "phase v = Failed t" | "phase v = DataOut t a n (got @ take k buf)" unfolding k(3) by blast
      then show ?thesis
      proof cases
        case 1
        then obtain r u' where "bulk_out_loop host epO (rem - of_nat k) (drop k buf) v = Some (r, u')"
          "dok u'" "disk u' = disk v" "phase u' = Failed t" using out_loop_failed [OF dv _ more l(1,2)] by blast
        then show ?thesis using run od(1) by (auto simp: frame_def)
      next
        case 2
        have "length (got @ take k buf) + length (drop k buf) = n * ssz" using less.prems(4,5) k(2) by simp
        from less.hyps [OF lt(1) dv 2 more l(1) this l(2)] obtain r u' where
          "bulk_out_loop host epO (rem - of_nat k) (drop k buf) v = Some (r, u')" "frame ?W v u'"
          "r = 0 \<longrightarrow> phase u' = Failed t \<or> phase u' = Status t \<and> disk u' = upd_sectors (disk v) a n ssz ((got @ take k buf) @ drop k buf)"
          by blast
        then show ?thesis using run frame_trans [OF od(1)] upd_frame [OF od(1)] by auto
      qed
    qed
  next
    case False
    then have "\<exists>r. bulk_out_loop host epO rem buf u = Some (r, v) \<and> r \<noteq> 0" using q by (subst bulk_out_loop.simps) auto
    then show ?thesis using od(1) by blast
  qed
qed

subsection \<open>Commands\<close>

definition tp_ok :: "'u usb_transport \<Rightarrow> bool" where
  "tp_ok st \<longleftrightarrow> our_dev (tp_dev st) \<and> dok (tp_host st) \<and> length (tp_comData st) = 16
     \<and> (offline (tp_dev st) \<or> writing (phase (tp_host st)) = {})"

lemma transfer_in:
  assumes "our_dev dev" "dok u" "len \<noteq> 0" "phase u = Failed t \<or> phase u = DataIn t d \<and> length d = unat len"
  shows "\<exists>rc x u'. usb_bulk_transfer host dev True b len u = Some (rc, x, u') \<and> length x \<le> unat len \<and> frame {} u u'
    \<and> (if phase u = Failed t then phase u' = Failed t else rc = 0 \<longrightarrow> x = d)"
proof -
  obtain rc x v where l: "bulk_in_loop host epI len [] u = Some (rc, x, v)" "length x \<le> unat len" "frame {} u v"
    "if phase u = Failed t then phase v = Failed t else rc = 0 \<longrightarrow> x = d"
  proof (cases "phase u = Failed t")
    case True
    then show ?thesis using in_loop_failed [OF assms(2) True assms(3), of "[]"] that by (auto simp: frame_def)
  next
    case False
    then show ?thesis using in_loop_data [OF assms(2) _ _ assms(3), of t d "[]"] assms(4) that by (auto simp: frame_def)
  qed
  obtain h w where c: "usb_bulk_clear_halt host dev True v = (h, w)" by (metis surj_pair)
  have "frame {} v w" "phase v = Failed t \<Longrightarrow> phase w = Failed t"
    using clear_halt_step [OF assms(1) _ _ c, of "{}"] l(3) by (auto simp: frame_def)
  then show ?thesis using l c assms(1) frame_trans [OF l(3)] by (auto simp: usb_bulk_transfer_def our_dev_def)
qed

lemma transfer_out:
  assumes "our_dev dev" "dok u" "len \<noteq> 0" "length b = unat len" "unat len = n * ssz"
    "phase u = Failed t \<or> phase u = DataOut t a n []"
  shows "\<exists>rc x u'. usb_bulk_transfer host dev False b len u = Some (rc, x, u') \<and> frame {a..<a + n} u u'
    \<and> (rc = 0 \<longrightarrow> phase u' = Failed t \<or> phase u' = Status t \<and> disk u' = upd_sectors (disk u) a n ssz b)"
proof -
  obtain rc v where l: "bulk_out_loop host epO len b u = Some (rc, v)" "frame {a..<a + n} u v"
    "rc = 0 \<longrightarrow> phase v = Failed t \<or> phase v = Status t \<and> disk v = upd_sectors (disk u) a n ssz b"
  proof (cases "phase u = Failed t")
    case True
    then show ?thesis using out_loop_failed [OF assms(2) True assms(3,4)] assms(5) ssz_pos that by (auto simp: frame_def)
  next
    case False
    then show ?thesis using out_loop_data [OF assms(2) _ assms(3,4), of t a n "[]"] assms(4-6) ssz_pos that by auto
  qed
  obtain h w where c: "usb_bulk_clear_halt host dev False v = (h, w)" by (metis surj_pair)
  have "frame {a..<a + n} v w" using clear_halt_step(1) [OF assms(1) _ _ c, of "{a..<a + n}"] l(2) by (simp add: frame_def)
  then show ?thesis using l c assms(1) frame_trans [OF l(2)] by (auto simp: usb_bulk_transfer_def our_dev_def)
qed

text \<open>Sending the command block to a device that is not offline.\<close>

lemma command_step:
  assumes "our_dev dev" "\<not> offline dev" "bulk_out host epO (cbw_bytes c) u = (ret, res, k, v)" "frame W u v"
    "usb_bulk_command host dev c u = (r, dev', u')"
  shows "our_dev dev' \<and> frame W u u' \<and> (r = 0 \<longrightarrow> ret = 0 \<and> res = 0 \<and> dev' = dev \<and> u' = v)
    \<and> (r \<noteq> 0 \<longrightarrow> offline dev' \<or> writing (phase u') = {})"
proof (cases "waited ret res = 0")
  case True
  then have "r = 0" "dev' = dev" "u' = v" "ret = 0" "res = 0"
    using assms by (auto simp: usb_bulk_command_def offline_def our_dev_def waited_def split: if_splits)
  then show ?thesis using assms by simp
next
  case False
  obtain devr ur where rr: "usb_bulk_reset host dev 3 v = (devr, ur)" by (metis surj_pair)
  have "r = waited ret res" "dev' = devr" "u' = ur"
    using assms False rr by (auto simp: usb_bulk_command_def offline_def our_dev_def split: if_splits)
  moreover have "frame W v ur \<and> our_dev devr \<and> (offline devr \<or> writing (phase ur) = {})"
    using reset_recovery [OF assms(1) _ _ rr, of W] assms(4) by (simp add: frame_def)
  ultimately show ?thesis using False frame_trans [OF assms(4)] by auto
qed

text \<open>The whole command: \<open>W\<close> are the sectors it may change, \<open>Q\<close> what its data phase establishes unless the device
  reports failure.\<close>

lemma queue_step:
  fixes st :: "'u usb_transport" and cdb :: bytes and cl len :: u32 and wr :: bool
  defines "st1 \<equiv> st\<lparr>tp_tag := tp_tag st + 1\<rparr>"
  defines "c \<equiv> make_cbw st1 cdb cl len wr"
  assumes ok: "tp_ok st" and fits: "cdb_fits cdb cl"
    and sent: "\<And>ret res k v. writing (phase (tp_host st)) = {} \<Longrightarrow> bulk_out host epO (cbw_bytes c) (tp_host st) = (ret, res, k, v) \<Longrightarrow>
      frame W (tp_host st) v \<and> (ret = 0 \<and> res = 0 \<longrightarrow>
        (\<exists>rc x u. (if len > 0 then usb_bulk_transfer host (tp_dev st) (\<not> wr) b len v else Some (0, [], v)) = Some (rc, x, u)
          \<and> length x \<le> unat len \<and> frame W v u \<and> (rc = 0 \<longrightarrow> phase u = Failed (cbw_tag c) \<or> writing (phase u) = {} \<and> Q x (disk u))))"
  shows "\<exists>r d st'. usb_queue_cmd host st cdb cl b len wr = Some (r, d, st') \<and> tp_ok st' \<and> length d \<le> unat len
    \<and> (\<forall>k. k \<notin> W \<longrightarrow> disk (tp_host st') k = disk (tp_host st) k) \<and> (r = 0 \<longrightarrow> Q d (disk (tp_host st')))"
proof -
  let ?dev = "tp_dev st" and ?u = "tp_host st" and ?t = "cbw_tag c"
  have o: "our_dev ?dev" "dok ?u" "length (comData c) = 16" "offline ?dev \<or> writing (phase ?u) = {}"
    using ok decode_overlay(2) [OF fits] by (simp_all add: tp_ok_def c_def make_cbw_def st1_def)
  have t: "?t = tp_tag st1" and p: "tp_dev st1 = ?dev" "tp_host st1 = ?u" by (simp_all add: c_def make_cbw_def st1_def)
  obtain r dev1 u1 where cmd: "usb_bulk_command host ?dev c ?u = (r, dev1, u1)" by (metis prod_cases3)
  define st2 where "st2 = st1\<lparr>tp_dev := dev1, tp_comData := comData c, tp_host := u1\<rparr>"
  have run: "usb_queue_cmd host st cdb cl b len wr = (if r \<noteq> 0 then Some (- EIO, [], st2)
      else case (if len > 0 then usb_bulk_transfer host dev1 (\<not> wr) b len u1 else Some (0, [], u1)) of
             None \<Rightarrow> None
           | Some (rcode, d, u2) \<Rightarrow>
               (case usb_bulk_manage_status host dev1 ?t u2 of (result, dev2, u3) \<Rightarrow>
                Some (if rcode \<noteq> 0 then - EIO else result, d, st2\<lparr>tp_dev := dev2, tp_host := u3\<rparr>)))"
    unfolding usb_queue_cmd_def Let_def st1_def [symmetric] c_def [symmetric] t p cmd prod.case st2_def [symmetric] ..
  have tok: "tp_ok (st2\<lparr>tp_dev := dev', tp_host := u'\<rparr>)"
    if "our_dev dev'" "frame W ?u u'" "offline dev' \<or> writing (phase u') = {}" for dev' u'
    using that o(3) by (simp add: tp_ok_def st2_def st1_def frame_def)
  have st2: "st2 = st2\<lparr>tp_dev := dev1, tp_host := u1\<rparr>" by (simp add: st2_def)
  show ?thesis
  proof (cases "offline ?dev")
    case True
    then have "r = - 1" "dev1 = ?dev" "u1 = ?u" using cmd by (auto simp: usb_bulk_command_def offline_def)
    then show ?thesis using run o True by (auto simp: tp_ok_def st2_def st1_def)
  next
    case False
    then have w: "writing (phase ?u) = {}" using o(4) by blast
    obtain ret res k v where bo: "bulk_out host epO (cbw_bytes c) ?u = (ret, res, k, v)" by (metis prod_cases4)
    note s = sent [OF w bo]
    note cs = command_step [OF o(1) False bo conjunct1 [OF s] cmd]
    show ?thesis
    proof (cases "r = 0")
      case False
      have "tp_ok st2" by (subst st2, rule tok) (use cs False in auto)
      moreover have "\<forall>k. k \<notin> W \<longrightarrow> disk u1 k = disk ?u k" using cs by (simp add: frame_def)
      ultimately show ?thesis using run False by (simp add: st2_def)
    next
      case True
      then have e: "dev1 = ?dev" "u1 = v" "ret = 0" "res = 0" using cs by simp_all
      then obtain rc x u2 where tr: "(if len > 0 then usb_bulk_transfer host dev1 (\<not> wr) b len u1 else Some (0, [], u1)) = Some (rc, x, u2)"
        "length x \<le> unat len" "frame W v u2" "rc = 0 \<longrightarrow> phase u2 = Failed ?t \<or> writing (phase u2) = {} \<and> Q x (disk u2)"
        using s by auto
      have f2: "frame W ?u u2" using s tr(3) frame_trans by blast
      obtain q dev2 u3 where ms: "usb_bulk_manage_status host dev1 ?t u2 = (q, dev2, u3)" by (metis prod_cases3)
      have d2: "our_dev dev1" "dok u2" "writing (phase u2) \<subseteq> W" using e(1) o(1) f2 by (simp_all add: frame_def)
      note m = manage_status [OF d2 ms]
      have f3: "frame W ?u u3" using m f2 frame_trans by blast
      have q: "Q x (disk u3)" if "(if rc \<noteq> 0 then - EIO else q) = 0"
      proof -
        have "rc = 0" "q = 0" using that by (auto split: if_splits)
        then have "writing (phase u2) = {}" "Q x (disk u2)" using tr(4) m by auto
        moreover have "frame {} u2 u3" using manage_status [OF d2(1,2) _ ms, of "{}"] \<open>writing (phase u2) = {}\<close> by blast
        ultimately show ?thesis using frame_empty by metis
      qed
      have "tp_ok (st2\<lparr>tp_dev := dev2, tp_host := u3\<rparr>)" by (rule tok) (use m f3 in auto)
      then show ?thesis using run True tr(1,2) ms f3 q by (simp add: frame_def)
    qed
  qed
qed

lemma rw_make_cbw:
  assumes "tp_ok st" "decode_rw cdb = Some (wr, a, n)" "cdb_fits cdb cl" "unat len = m"
  shows "rw_cbw (make_cbw (st\<lparr>tp_tag := t\<rparr>) cdb cl len wr) wr a n m"
  using decode_overlay [OF assms(3)] assms by (simp add: rw_cbw_def make_cbw_def tp_ok_def)

lemma queue_read:
  assumes "tp_ok st" "decode_rw cdb = Some (False, a, n)" "cdb_fits cdb cl" "a + n \<le> nsec" "unat len = n * ssz"
  shows "\<exists>r d st'. usb_queue_cmd host st cdb cl b len False = Some (r, d, st') \<and> tp_ok st' \<and> length d \<le> n * ssz
    \<and> disk (tp_host st') = disk (tp_host st) \<and> (r = 0 \<longrightarrow> d = sectors (disk (tp_host st)) a n)"
proof -
  let ?S = "sectors (disk (tp_host st)) a n" and ?c = "make_cbw (st\<lparr>tp_tag := tp_tag st + 1\<rparr>) cdb cl len False"
  have o: "our_dev (tp_dev st)" "dok (tp_host st)" using assms(1) by (simp_all add: tp_ok_def)
  have ls: "length ?S = unat len" using assms(5) disk_len [OF o(2)] by (simp add: length_sectors)
  have "\<exists>r d st'. usb_queue_cmd host st cdb cl b len False = Some (r, d, st') \<and> tp_ok st' \<and> length d \<le> unat len
    \<and> (\<forall>k. k \<notin> {} \<longrightarrow> disk (tp_host st') k = disk (tp_host st) k) \<and> (r = 0 \<longrightarrow> d = ?S)"
  proof (rule queue_step [OF assms(1,3)])
    fix ret res k v
    assume w: "writing (phase (tp_host st)) = {}" and bo: "bulk_out host epO (cbw_bytes ?c) (tp_host st) = (ret, res, k, v)"
    note cr = command_read [OF o(2) w rw_make_cbw [OF assms(1-3,5)] assms(4) bo]
    have "\<exists>rc x u. (if len > 0 then usb_bulk_transfer host (tp_dev st) (\<not> False) b len v else Some (0, [], v)) = Some (rc, x, u)
          \<and> length x \<le> unat len \<and> frame {} v u \<and> (rc = 0 \<longrightarrow> phase u = Failed (cbw_tag ?c) \<or> writing (phase u) = {} \<and> x = ?S)"
      if "ret = 0" "res = 0"
    proof (cases "len = 0")
      case True
      then show ?thesis using cr that ls by (auto simp: frame_def)
    next
      case False
      have "phase v = Failed (cbw_tag ?c) \<or> phase v = DataIn (cbw_tag ?c) ?S \<and> length ?S = unat len" using cr that ls by blast
      from transfer_in [OF o(1) _ False this, of b] obtain rc x u where
        "usb_bulk_transfer host (tp_dev st) True b len v = Some (rc, x, u)" "length x \<le> unat len" "frame {} v u"
        "if phase v = Failed (cbw_tag ?c) then phase u = Failed (cbw_tag ?c) else rc = 0 \<longrightarrow> x = ?S" using cr by blast
      then show ?thesis using False by (auto simp: word_gt_0 frame_def split: if_splits)
    qed
    then show "frame {} (tp_host st) v \<and> (ret = 0 \<and> res = 0 \<longrightarrow>
        (\<exists>rc x u. (if len > 0 then usb_bulk_transfer host (tp_dev st) (\<not> False) b len v else Some (0, [], v)) = Some (rc, x, u)
          \<and> length x \<le> unat len \<and> frame {} v u \<and> (rc = 0 \<longrightarrow> phase u = Failed (cbw_tag ?c) \<or> writing (phase u) = {} \<and> x = ?S)))"
      using cr by (simp add: frame_def)
  qed
  then obtain r d st' where q: "usb_queue_cmd host st cdb cl b len False = Some (r, d, st')" "tp_ok st'" "length d \<le> unat len"
    "\<forall>k. disk (tp_host st') k = disk (tp_host st) k" "r = 0 \<longrightarrow> d = ?S" by auto
  then have "disk (tp_host st') = disk (tp_host st)" by (intro ext) simp
  then show ?thesis using q assms(5) by auto
qed

lemma queue_write:
  assumes "tp_ok st" "decode_rw cdb = Some (True, a, n)" "cdb_fits cdb cl" "a + n \<le> nsec" "unat len = n * ssz" "length b = n * ssz"
  shows "\<exists>r d st'. usb_queue_cmd host st cdb cl b len True = Some (r, d, st') \<and> tp_ok st'
    \<and> (\<forall>k. k < a \<or> a + n \<le> k \<longrightarrow> disk (tp_host st') k = disk (tp_host st) k)
    \<and> (r = 0 \<longrightarrow> disk (tp_host st') = upd_sectors (disk (tp_host st)) a n ssz b)"
proof -
  let ?D = "upd_sectors (disk (tp_host st)) a n ssz b" and ?W = "{a..<a + n}"
    and ?c = "make_cbw (st\<lparr>tp_tag := tp_tag st + 1\<rparr>) cdb cl len True"
  have o: "our_dev (tp_dev st)" "dok (tp_host st)" using assms(1) by (simp_all add: tp_ok_def)
  have "\<exists>r d st'. usb_queue_cmd host st cdb cl b len True = Some (r, d, st') \<and> tp_ok st' \<and> length d \<le> unat len
    \<and> (\<forall>k. k \<notin> ?W \<longrightarrow> disk (tp_host st') k = disk (tp_host st) k) \<and> (r = 0 \<longrightarrow> disk (tp_host st') = ?D)"
  proof (rule queue_step [OF assms(1,3)])
    fix ret res k v
    assume w: "writing (phase (tp_host st)) = {}" and bo: "bulk_out host epO (cbw_bytes ?c) (tp_host st) = (ret, res, k, v)"
    note cw = command_write [OF o(2) w rw_make_cbw [OF assms(1-3,5)] assms(4) bo]
    have "\<exists>rc x u. (if len > 0 then usb_bulk_transfer host (tp_dev st) (\<not> True) b len v else Some (0, [], v)) = Some (rc, x, u)
          \<and> length x \<le> unat len \<and> frame ?W v u \<and> (rc = 0 \<longrightarrow> phase u = Failed (cbw_tag ?c) \<or> writing (phase u) = {} \<and> disk u = ?D)"
      if "ret = 0" "res = 0"
    proof (cases "len = 0")
      case True
      then have "n = 0" using assms(5) ssz_pos by simp
      then have "?D = disk v" using cw by (auto simp: upd_sectors_def)
      then show ?thesis using cw that True \<open>n = 0\<close> by (auto simp: frame_def)
    next
      case False
      have "phase v = Failed (cbw_tag ?c) \<or> phase v = DataOut (cbw_tag ?c) a n []" using cw that by blast
      from transfer_out [OF o(1) _ False _ assms(5) this, of b] obtain rc x u where
        "usb_bulk_transfer host (tp_dev st) False b len v = Some (rc, x, u)" "frame ?W v u"
        "rc = 0 \<longrightarrow> phase u = Failed (cbw_tag ?c) \<or> phase u = Status (cbw_tag ?c) \<and> disk u = upd_sectors (disk v) a n ssz b"
        using cw assms(5,6) by auto
      moreover have "x = []" using calculation(1) by (auto simp: usb_bulk_transfer_def Let_def split: if_splits prod.splits)
      ultimately show ?thesis using False cw by (auto simp: word_gt_0)
    qed
    then show "frame ?W (tp_host st) v \<and> (ret = 0 \<and> res = 0 \<longrightarrow>
        (\<exists>rc x u. (if len > 0 then usb_bulk_transfer host (tp_dev st) (\<not> True) b len v else Some (0, [], v)) = Some (rc, x, u)
          \<and> length x \<le> unat len \<and> frame ?W v u \<and> (rc = 0 \<longrightarrow> phase u = Failed (cbw_tag ?c) \<or> writing (phase u) = {} \<and> disk u = ?D)))"
      using cw by (simp add: frame_def)
  qed
  then show ?thesis by fastforce
qed

lemma usb_scsi_target:
  assumes "ssz = unat (sectorSize bd)" "ssz * 65535 < 2 ^ 32" "nsec < 2 ^ 64"
  shows "scsi_target (usb_scsi host m0) bd tp_ok (\<lambda>st. disk (tp_host st)) ssz nsec"
proof
  fix u :: "'u usb_transport" and cdb a n cl len b r d u'
  assume *: "tp_ok u" "decode_rw cdb = Some (False, a, n)" "cdb_fits cdb cl" "a + n \<le> nsec" "unat len = n * ssz"
    and q: "queue_cmd (usb_scsi host m0) u cdb cl b len False = (r, d, u')"
  from queue_read [OF *, of b] q show "tp_ok u' \<and> disk (tp_host u') = disk (tp_host u) \<and> length d \<le> n * ssz
      \<and> (r = 0 \<longrightarrow> d = sectors (disk (tp_host u)) a n)" by (auto simp: usb_scsi_def)
next
  fix u :: "'u usb_transport" and cdb a n cl len b r d u'
  assume *: "tp_ok u" "decode_rw cdb = Some (True, a, n)" "cdb_fits cdb cl" "a + n \<le> nsec" "unat len = n * ssz" "length b = n * ssz"
    and q: "queue_cmd (usb_scsi host m0) u cdb cl b len True = (r, d, u')"
  from queue_write [OF *] q show "tp_ok u' \<and> (\<forall>k. k < a \<or> a + n \<le> k \<longrightarrow> disk (tp_host u') k = disk (tp_host u) k)
      \<and> (r = 0 \<longrightarrow> disk (tp_host u') = upd_sectors (disk (tp_host u)) a n ssz b)" by (auto simp: usb_scsi_def)
qed (use assms disk_len in \<open>simp_all add: usb_scsi_def tp_ok_def\<close>)

end

text \<open>A target whose sectors fit the SCSI layer's 32-bit lengths: there the transport is a SCSI target.\<close>

locale usb_disk = bulk_target +
  fixes bd :: block_device and m0 :: u8
  assumes disk_ssz: "ssz = unat (sectorSize bd)" "ssz * 65535 < 2 ^ 32" "nsec < 2 ^ 64"

sublocale usb_disk \<subseteq> usb: scsi_target "usb_scsi host m0" bd tp_ok "\<lambda>st. disk (tp_host st)" ssz nsec
  by (rule usb_scsi_target [OF disk_ssz])

section \<open>Packets\<close>

definition cbw_of :: "bytes \<Rightarrow> cbw_packet" where
  "cbw_of b = \<lparr>cbw_signature = le32 b 0, cbw_tag = le32 b 4, dataTransferLength = le32 b 8,
     cbw_flags = b ! 12, cbw_lun = b ! 13, comLength = b ! 14, comData = drop 15 b\<rparr>"

lemma length_put_le32 [simp]: "length (put_le32 x) = 4"
  by (simp add: put_le32_def)

lemma le32_put_at:
  "le32 (put_le32 x @ r) 0 = x" "le32 (put_le32 x @ put_le32 y @ r) 4 = y" "le32 (put_le32 x @ put_le32 y @ put_le32 z @ r) 8 = z"
  using le32_put [of "[]" x r] le32_put [of "put_le32 x" y r] le32_put [of "put_le32 x @ put_le32 y" z r] by simp_all

lemma cbw_of_bytes: "cbw_of (cbw_bytes c) = c" "length (cbw_bytes c) = 15 + length (comData c)"
  by (simp_all add: cbw_of_def cbw_bytes_def le32_put_at nth_append)

lemma csw_of_bytes: "csw_of (csw_bytes c) = c" "length (csw_bytes c) = 13"
  by (simp_all add: csw_of_def csw_bytes_def le32_put_at nth_append)

section \<open>A memory stick\<close>

text \<open>A bulk-only device over a disk in memory, for concrete instances.\<close>

record stick =
  sk_phase :: phase
  sk_disk :: "nat \<Rightarrow> bytes"

definition stick_command :: "nat \<Rightarrow> cbw_packet \<Rightarrow> stick \<Rightarrow> stick" where
  "stick_command nsec c u =
     (case decode_rw (comData c) of
        None \<Rightarrow> u\<lparr>sk_phase := Status (cbw_tag c)\<rparr>
      | Some (wr, a, n) \<Rightarrow>
          if nsec < a + n \<or> unat (dataTransferLength c) \<noteq> n * 512 then u\<lparr>sk_phase := Failed (cbw_tag c)\<rparr>
          else if wr then u\<lparr>sk_phase := DataOut (cbw_tag c) a n []\<rparr>
          else u\<lparr>sk_phase := DataIn (cbw_tag c) (sectors (sk_disk u) a n)\<rparr>)"

definition stick_out :: "nat \<Rightarrow> bytes \<Rightarrow> stick \<Rightarrow> int \<times> int \<times> nat \<times> stick" where
  "stick_out nsec x u =
     (if length x = 31 \<and> le32 x 0 = CBW_TAG \<and> writing (sk_phase u) = {} then (0, 0, 31, stick_command nsec (cbw_of x) u)
      else case sk_phase u of
             DataOut t a n got \<Rightarrow>
               (0, 0, length x,
                if length got + length x < n * 512 then u\<lparr>sk_phase := DataOut t a n (got @ x)\<rparr>
                else u\<lparr>sk_phase := Status t, sk_disk := upd_sectors (sk_disk u) a n 512 (got @ x)\<rparr>)
           | Failed t \<Rightarrow> (0, 0, length x, u)
           | _ \<Rightarrow> (0, 4, 0, u))"

definition stick_in :: "nat \<Rightarrow> stick \<Rightarrow> int \<times> int \<times> bytes \<times> stick" where
  "stick_in len u =
     (case sk_phase u of
        DataIn t d \<Rightarrow> (0, 0, take len d, u\<lparr>sk_phase := (if length d \<le> len then Status t else DataIn t (drop len d))\<rparr>)
      | Status t \<Rightarrow> (0, 0, take len (csw_bytes \<lparr>csw_signature = CSW_TAG, csw_tag = t, dataResidue = 0, csw_status = 0\<rparr>), u\<lparr>sk_phase := Idle\<rparr>)
      | Failed t \<Rightarrow> (0, 0, if len = 13 then csw_bytes \<lparr>csw_signature = CSW_TAG, csw_tag = t, dataResidue = 0, csw_status = 1\<rparr>
                         else replicate len 0, u)
      | _ \<Rightarrow> (0, 4, [], u))"

definition stick_host :: "nat \<Rightarrow> stick usb_host" where
  "stick_host nsec = \<lparr>control_transfer = (\<lambda>ep rt rq v i l u. (0, 0, [], if rq = 0xFF then u\<lparr>sk_phase := Idle\<rparr> else u)),
     bulk_out = (\<lambda>ep x u. stick_out nsec x u), bulk_in = (\<lambda>ep len u. stick_in len u)\<rparr>"

lemma stick_command_rw:
  assumes "rw_cbw c wr a n (n * 512)" "a + n \<le> nsec" "writing (sk_phase u) = {}"
  shows "stick_out nsec (cbw_bytes c) u = (0, 0, 31, if wr then u\<lparr>sk_phase := DataOut (cbw_tag c) a n []\<rparr>
      else u\<lparr>sk_phase := DataIn (cbw_tag c) (sectors (sk_disk u) a n)\<rparr>)"
proof -
  have "length (cbw_bytes c) = 31" "le32 (cbw_bytes c) 0 = CBW_TAG"
    using assms(1) by (simp_all add: rw_cbw_def cbw_of_bytes(2)) (simp add: cbw_bytes_def le32_put_at)
  then show ?thesis using assms by (simp add: stick_out_def cbw_of_bytes(1) stick_command_def rw_cbw_def)
qed

lemma stick_target: "bulk_target (stick_host nsec) 1 2 3 0 (\<lambda>u. ram_inv 512 (sk_disk u)) sk_disk sk_phase 512 nsec"
proof
  fix u :: stick and k assume "ram_inv 512 (sk_disk u)"
  then show "length (sk_disk u k) = 512" by (simp add: ram_inv_def)
next
  fix u :: stick and c a n ret res k u'
  assume "ram_inv 512 (sk_disk u)" "writing (sk_phase u) = {}" "rw_cbw c False a n (n * 512)" "a + n \<le> nsec"
    "bulk_out (stick_host nsec) 3 (cbw_bytes c) u = (ret, res, k, u')"
  then show "ram_inv 512 (sk_disk u') \<and> sk_disk u' = sk_disk u \<and> writing (sk_phase u') = {} \<and> (ret = 0 \<and> res = 0 \<longrightarrow>
      sk_phase u' = DataIn (cbw_tag c) (sectors (sk_disk u) a n) \<or> sk_phase u' = Failed (cbw_tag c))"
    using stick_command_rw [of c False a n nsec u] by (auto simp: stick_host_def)
next
  fix u :: stick and c a n ret res k u'
  assume "ram_inv 512 (sk_disk u)" "writing (sk_phase u) = {}" "rw_cbw c True a n (n * 512)" "a + n \<le> nsec"
    "bulk_out (stick_host nsec) 3 (cbw_bytes c) u = (ret, res, k, u')"
  then show "ram_inv 512 (sk_disk u') \<and> sk_disk u' = sk_disk u \<and> writing (sk_phase u') \<subseteq> {a..<a + n} \<and> (ret = 0 \<and> res = 0 \<longrightarrow>
      sk_phase u' = DataOut (cbw_tag c) a n [] \<or> sk_phase u' = Failed (cbw_tag c))"
    using stick_command_rw [of c True a n nsec u] by (auto simp: stick_host_def)
next
  fix u :: stick and len ret res x u'
  assume "ram_inv 512 (sk_disk u)" "bulk_in (stick_host nsec) 2 len u = (ret, res, x, u')"
  then show "ram_inv 512 (sk_disk u') \<and> length x \<le> len \<and> (\<forall>k. k \<notin> writing (sk_phase u) \<longrightarrow> sk_disk u' k = sk_disk u k)
      \<and> writing (sk_phase u') \<subseteq> writing (sk_phase u)"
    by (auto simp: stick_host_def stick_in_def csw_of_bytes split: phase.splits if_splits)
next
  fix u :: stick and t d len x u'
  assume "sk_phase u = DataIn t d" "d \<noteq> []" "0 < len" "bulk_in (stick_host nsec) 2 len u = (0, 0, x, u')"
  then show "x \<noteq> [] \<and> length x \<le> length d \<and> x = take (length x) d
      \<and> sk_phase u' = (if length x = length d then Status t else DataIn t (drop (length x) d))"
    by (cases "length d \<le> len") (auto simp: stick_host_def stick_in_def)
next
  fix u :: stick and len x u'
  assume "writing (sk_phase u) \<noteq> {}"
  then show "bulk_in (stick_host nsec) 2 len u \<noteq> (0, 0, x, u')" by (cases "sk_phase u") (auto simp: stick_host_def stick_in_def)
next
  fix u :: stick and t len ret res x u'
  assume "sk_phase u = Failed t" "0 < len" "bulk_in (stick_host nsec) 2 len u = (ret, res, x, u')"
  then show "sk_phase u' = Failed t \<and> (ret = 0 \<and> res = 0 \<longrightarrow> x \<noteq> [] \<and> (len = 13 \<longrightarrow> length x = 13
      \<and> \<not> (le32 x 0 = CSW_TAG \<and> le32 x 4 = t \<and> x ! 12 = 0)))"
    by (auto simp: stick_host_def stick_in_def csw_bytes_def nth_append split: if_splits)
next
  fix u :: stick and t a n got x ret res k u'
  assume "ram_inv 512 (sk_disk u)" "sk_phase u = DataOut t a n got" "x \<noteq> []" "length got + length x \<le> n * 512"
    "bulk_out (stick_host nsec) 3 x u = (ret, res, k, u')"
  moreover have "writing (sk_phase u) \<noteq> {}" using calculation(2-4) by (cases n) auto
  ultimately show "ram_inv 512 (sk_disk u') \<and> (\<forall>j. j \<notin> {a..<a + n} \<longrightarrow> sk_disk u' j = sk_disk u j) \<and> writing (sk_phase u') \<subseteq> {a..<a + n}
      \<and> (ret = 0 \<and> res = 0 \<longrightarrow> k = length x \<and> (sk_phase u' = Failed t
          \<or> (if length got + k < n * 512 then sk_phase u' = DataOut t a n (got @ x)
             else sk_phase u' = Status t \<and> sk_disk u' = upd_sectors (sk_disk u) a n 512 (got @ x))))"
    by (auto simp: stick_host_def stick_out_def ram_inv_def length_upd_sectors upd_sectors_def split: if_splits)
next
  fix u :: stick and t x ret res k u'
  assume "ram_inv 512 (sk_disk u)" "sk_phase u = Failed t" "length x \<noteq> 31" "bulk_out (stick_host nsec) 3 x u = (ret, res, k, u')"
  then show "ram_inv 512 (sk_disk u') \<and> sk_disk u' = sk_disk u \<and> sk_phase u' = Failed t \<and> (ret = 0 \<and> res = 0 \<longrightarrow> k = length x)"
    by (auto simp: stick_host_def stick_out_def)
qed (auto simp: stick_host_def split: if_splits)

definition stick_bd :: "u64 \<Rightarrow> block_device" where
  "stick_bd n = \<lparr>bd_name = Some ''usb'', devNr = 0, parNr = 0, parId = 0, sectorSize = 512, sectorOffset = 0, sectorCount = n\<rparr>"

interpretation stick: usb_disk "stick_host 100" 1 2 3 0 "\<lambda>u. ram_inv 512 (sk_disk u)" sk_disk sk_phase 512 100 "stick_bd 100" 0
  by (intro usb_disk.intro stick_target usb_disk_axioms.intro) (simp_all add: stick_bd_def)

section \<open>Properties\<close>

text \<open>C8. USB mass storage meets the block-device contract: over every device that follows the bulk-only
  protocol, the transport with the SCSI layer on top is a block store. A read or write that reports
  success moved exactly the addressed sectors, whatever the packet sizes, stalls, failed transfers,
  reset recoveries and retries; a failed write changes addressed sectors only; and after every
  command the device is out of any unfinished write, or marked offline.\<close>

theorem usb_disk_is_block_store:
  assumes "bulk_target host ctl epI epO iface dok disk phase ssz nsec"
    and "ssz = unat (sectorSize bd)" "ssz * 65535 < 2 ^ 32" "nsec < 2 ^ 64"
  shows "block_store (scsi_bd_ops (usb_scsi host m0) bd)
     (\<lambda>st. controlEp (tp_dev st) = ctl \<and> bulkEpI (tp_dev st) = epI \<and> bulkEpO (tp_dev st) = epO
        \<and> int (unat (interfaceNumber (tp_dev st))) = iface \<and> dok (tp_host st) \<and> length (tp_comData st) = 16
        \<and> (status (tp_dev st) AND USBMASS_DEV_STAT_ERR \<noteq> 0 \<or> writing (phase (tp_host st)) = {}))
     (\<lambda>st. disk (tp_host st)) ssz nsec"
proof -
  have "block_store (scsi_bd_ops (usb_scsi host m0) bd) (bulk_target.tp_ok ctl epI epO iface dok phase) (\<lambda>st. disk (tp_host st)) ssz nsec"
    by (rule scsi_target.scsi_store [OF bulk_target.usb_scsi_target [OF assms]])
  then show ?thesis
    unfolding bulk_target.tp_ok_def [OF assms(1)] bulk_target.our_dev_def [OF assms(1)] bulk_target.offline_def [OF assms(1)]
    by (simp add: conj_assoc)
qed

theorem usb_disk_is_block_store_witness:
  "block_store (scsi_bd_ops (usb_scsi (stick_host 100) 0) (stick_bd 100))
     (\<lambda>st. controlEp (tp_dev st) = 1 \<and> bulkEpI (tp_dev st) = 2 \<and> bulkEpO (tp_dev st) = 3
        \<and> int (unat (interfaceNumber (tp_dev st))) = 0 \<and> ram_inv 512 (sk_disk (tp_host st)) \<and> length (tp_comData st) = 16
        \<and> (status (tp_dev st) AND USBMASS_DEV_STAT_ERR \<noteq> 0 \<or> writing (sk_phase (tp_host st)) = {}))
     (\<lambda>st. sk_disk (tp_host st)) 512 100"
  by (rule usb_disk_is_block_store [OF stick_target]) (simp_all add: stick_bd_def)

text \<open>C32. Every READ or WRITE command returns, over every device that follows the protocol: the data phase
  cannot loop although its pieces are re-queued from the completion callback. A device that is offline is
  not touched and the command fails with -EIO; a command that reports success moved all its data.\<close>

theorem usb_command_returns:
  assumes "bulk_target host ctl epI epO iface dok disk phase ssz nsec"
    and "controlEp (tp_dev st) = ctl" "bulkEpI (tp_dev st) = epI" "bulkEpO (tp_dev st) = epO"
    and "int (unat (interfaceNumber (tp_dev st))) = iface" "dok (tp_host st)" "length (tp_comData st) = 16"
    and "status (tp_dev st) AND USBMASS_DEV_STAT_ERR \<noteq> 0 \<or> writing (phase (tp_host st)) = {}"
    and "decode_rw cdb = Some (wr, a, n)" "cdb_fits cdb cl" "a + n \<le> nsec" "unat len = n * ssz" "wr \<longrightarrow> length b = n * ssz"
  shows "\<exists>r d st'. usb_queue_cmd host st cdb cl b len wr = Some (r, d, st')
     \<and> (status (tp_dev st) AND USBMASS_DEV_STAT_ERR \<noteq> 0 \<longrightarrow> r = - EIO \<and> tp_host st' = tp_host st)
     \<and> (r = 0 \<longrightarrow> (if wr then disk (tp_host st') = upd_sectors (disk (tp_host st)) a n ssz b
                   else d = sectors (disk (tp_host st)) a n \<and> disk (tp_host st') = disk (tp_host st)))"
proof -
  have ok: "bulk_target.tp_ok ctl epI epO iface dok phase st"
    using assms(2-8) by (simp add: bulk_target.tp_ok_def [OF assms(1)] bulk_target.our_dev_def [OF assms(1)] bulk_target.offline_def [OF assms(1)])
  have off: "usb_queue_cmd host st cdb cl b len wr = Some (r, d, st') \<Longrightarrow> r = - EIO \<and> tp_host st' = tp_host st"
    if "status (tp_dev st) AND USBMASS_DEV_STAT_ERR \<noteq> 0" for r d st'
    using that by (auto simp: usb_queue_cmd_def usb_bulk_command_def Let_def)
  show ?thesis
  proof (cases wr)
    case True
    then show ?thesis using bulk_target.queue_write [OF assms(1) ok, of cdb a n cl len b] assms(9-13) off by fastforce
  next
    case False
    then show ?thesis using bulk_target.queue_read [OF assms(1) ok, of cdb a n cl len b] assms(9-12) off by fastforce
  qed
qed

definition demo_tp :: "stick usb_transport" where
  "demo_tp = \<lparr>tp_dev = \<lparr>controlEp = 1, bulkEpI = 2, bulkEpO = 3, devId = 5, configId = 1, status = 3, interfaceNumber = 0,
       interfaceAlt = 0, ioSema = 9\<rparr>, tp_tag = 41, tp_comData = replicate 16 0,
     tp_host = \<lparr>sk_phase = Idle, sk_disk = zero_disk 512\<rparr>\<rparr>"

lemma demo_tp_sel: "controlEp (tp_dev demo_tp) = 1" "bulkEpI (tp_dev demo_tp) = 2" "bulkEpO (tp_dev demo_tp) = 3"
  "int (unat (interfaceNumber (tp_dev demo_tp))) = 0" "ram_inv 512 (sk_disk (tp_host demo_tp))" "length (tp_comData demo_tp) = 16"
  "writing (sk_phase (tp_host demo_tp)) = {}" "sk_disk (tp_host demo_tp) = zero_disk 512"
  by (simp_all add: demo_tp_def)

theorem usb_command_returns_witness:
  "\<exists>r d st'. usb_queue_cmd (stick_host 100) demo_tp (rw_cdb10 7 2 False) 12 [] 1024 False = Some (r, d, st')
     \<and> (r = 0 \<longrightarrow> d = sectors (zero_disk 512) 7 2)"
proof -
  have d: "decode_rw (rw_cdb10 7 2 False) = Some (False, 7, 2)" "cdb_fits (rw_cdb10 7 2 False) 12"
    by (simp_all add: rw_cdb10_def decode_rw_def be_nat_def cdb_fits_def)
  have w: "status (tp_dev demo_tp) AND USBMASS_DEV_STAT_ERR \<noteq> 0 \<or> writing (sk_phase (tp_host demo_tp)) = {}"
    using demo_tp_sel(7) by blast
  from usb_command_returns [OF stick_target demo_tp_sel(1-6) w d, of 100 1024 "[]"]
  show ?thesis unfolding demo_tp_sel(8) by fastforce
qed

text \<open>The packets on the wire: the 31 bytes sent for a command block decode to the command that was built, with
  the tag of this command, and the status structure read back is the one whose bytes arrived.\<close>

theorem packets_roundtrip:
  assumes "cdb_fits cdb cl" "length (tp_comData st) = 16"
  shows "length (cbw_bytes (make_cbw st cdb cl len wr)) = 31
     \<and> cbw_of (cbw_bytes (make_cbw st cdb cl len wr)) = make_cbw st cdb cl len wr
     \<and> cbw_tag (cbw_of (cbw_bytes (make_cbw st cdb cl len wr))) = tp_tag st
     \<and> decode_rw (comData (cbw_of (cbw_bytes (make_cbw st cdb cl len wr)))) = decode_rw cdb
     \<and> csw_of (overlay old (csw_bytes csw)) = csw"
proof -
  have "csw_of (csw_bytes csw @ drop 13 old) = csw"
    using csw_of_bytes(1) [of csw] by (simp add: csw_of_def csw_bytes_def le32_put_at nth_append)
  moreover have "length (comData (make_cbw st cdb cl len wr)) = 16" using assms decode_overlay by (simp add: make_cbw_def)
  ultimately show ?thesis using decode_overlay [OF assms] by (simp add: cbw_of_bytes overlay_def csw_of_bytes(2) make_cbw_def)
qed

theorem packets_roundtrip_witness:
  "decode_rw (comData (cbw_of (cbw_bytes (make_cbw demo_tp (rw_cdb10 7 2 False) 12 1024 False)))) = Some (False, 7, 2)"
proof -
  have d: "decode_rw (rw_cdb10 7 2 False) = Some (False, 7, 2)" "cdb_fits (rw_cdb10 7 2 False) 12"
    by (simp_all add: rw_cdb10_def decode_rw_def be_nat_def cdb_fits_def)
  show ?thesis using packets_roundtrip [OF d(2) demo_tp_sel(6), of 1024 False] unfolding d(1) by blast
qed

end
