(* ===== verification/Usb_Mass.thy ===== *)
theory Usb_Mass
  imports Usb_Bulk "HOL-Library.Monad_Syntax"
begin

text \<open>
  The device side of \<open>__usbd_bd_assault/src/usbmass_bd/usbmass_bd_usb_mass.c\<close> (probe, connect,
  disconnect, the update thread and initialisation) with the descriptor scan of
  \<open>usbd/usbd_hcd.c\<close> it relies on. A device's descriptors are the bytes of its static descriptor buffer, read
  at offsets; \<open>None\<close> is a read outside that buffer. Pipes and semaphores come from the
  environment; the state keeps which are open, so that the lemmas can say that none is closed
  twice, shared or lost. The update thread's steps are separate, so that connects and disconnects on the
  USB thread can fall between them.
\<close>

section \<open>Descriptors\<close>

text \<open>The static descriptor buffer of a device and the number of bytes filled.\<close>

record usb_desc =
  dd_buf :: bytes
  dd_end :: nat

definition rd8 :: "usb_desc \<Rightarrow> nat \<Rightarrow> u8 option" where
  "rd8 d k = (if k < length (dd_buf d) then Some (dd_buf d ! k) else None)"

text \<open>The loop of \<open>doGetDeviceStaticDescriptor\<close> from offset \<open>k\<close>; \<open>Some None\<close> is the null pointer.\<close>

function scan_from :: "usb_desc \<Rightarrow> u8 \<Rightarrow> nat \<Rightarrow> nat option option" where
  "scan_from d type k =
     (if dd_end d \<le> k then Some None
      else do {
        bLength \<leftarrow> rd8 d k;
        if bLength < 2 then Some None
        else do {
          bDescriptorType \<leftarrow> rd8 d (k + 1);
          if bDescriptorType = type then Some (Some k) else scan_from d type (k + unat bLength)
        }
      })"
  by pat_completeness auto
termination
proof (relation "measure (\<lambda>(d, type, k). dd_end d - k)")
  fix d :: usb_desc and type k bLength bDescriptorType
  assume "\<not> dd_end d \<le> k" "\<not> bLength < (2 :: u8)"
  then show "((d, type, k + unat bLength), d, type, k) \<in> measure (\<lambda>(d, type, k). dd_end d - k)"
    by (simp add: word_less_nat_alt)
qed simp

declare scan_from.simps [simp del]

definition doGetDeviceStaticDescriptor :: "(int \<Rightarrow> usb_desc option) \<Rightarrow> int \<Rightarrow> nat option \<Rightarrow> u8 \<Rightarrow> nat option option" where
  "doGetDeviceStaticDescriptor devs dId data type =
     (case devs dId of
        None \<Rightarrow> Some None
      | Some d \<Rightarrow> do {
          start \<leftarrow> (case data of None \<Rightarrow> Some 0 | Some k \<Rightarrow> map_option (\<lambda>l. k + unat l) (rd8 d k));
          if type = 0 then Some (Some start) else scan_from d type start
        })"

section \<open>State and environment\<close>

text \<open>\<open>in_use\<close> and \<open>sema_use\<close> read the open endpoint pipes and the semaphores off the world. \<open>stack\<close> is what the
  stack buffers of \<open>usb_bulk_get_max_lun\<close> and \<open>scsi_warmup\<close> hold before they are filled.\<close>

record 'u mass_env =
  me_host :: "'u usb_host"
  open_pipe :: "bool \<Rightarrow> int \<Rightarrow> nat option \<Rightarrow> 'u \<Rightarrow> int \<times> 'u"
  close_pipe :: "int \<Rightarrow> 'u \<Rightarrow> 'u"
  create_sema :: "'u \<Rightarrow> int \<times> 'u"
  delete_sema :: "int \<Rightarrow> 'u \<Rightarrow> 'u"
  delay_thread :: "'u \<Rightarrow> 'u"
  usb_devs :: "'u \<Rightarrow> int \<Rightarrow> usb_desc option"
  in_use :: "'u \<Rightarrow> int set"
  sema_use :: "'u \<Rightarrow> int set"
  stack :: "u8 \<times> bytes \<times> bytes"

text \<open>\<open>update_signal\<close> is the count of \<open>usb_mass_update_sema\<close>; \<open>new_devs\<close> the entries the update thread has
  still to configure; \<open>bdm_log\<close> the devices handed to the block-device manager (\<open>True\<close>) and taken back.\<close>

record 'u mass_state =
  g_mass_device :: "mass_dev list"
  update_signal :: bool
  new_devs :: "nat list"
  cmd_tag :: u32
  cmd_data :: bytes
  g_scsi_bd :: "scsi_slot list"
  bdm_log :: "(bool \<times> nat) list"
  mhost :: 'u

definition set_dev :: "nat \<Rightarrow> mass_dev \<Rightarrow> 'u mass_state \<Rightarrow> 'u mass_state" where
  "set_dev i d s = s\<lparr>g_mass_device := (g_mass_device s)[i := d]\<rparr>"

section \<open>Operations\<close>

definition usb_mass_findDevice :: "int \<Rightarrow> bool \<Rightarrow> 'u mass_state \<Rightarrow> nat option" where
  "usb_mass_findDevice dId create s =
     first_index (\<lambda>d. devId d = dId \<or> create \<and> devId d = - 1) (g_mass_device s)"

text \<open>Endpoint, interface and configuration descriptors at offset \<open>k\<close>.\<close>

definition usb_bulk_probeEndpoint :: "'u mass_env \<Rightarrow> usb_desc \<Rightarrow> int \<Rightarrow> nat \<Rightarrow> mass_dev \<times> 'u \<Rightarrow> (mass_dev \<times> 'u) option" where
  "usb_bulk_probeEndpoint env d dId k = (\<lambda>(dev, u). do {
     addr \<leftarrow> rd8 d (k + 2);
     attr \<leftarrow> rd8 d (k + 3);
     if attr = 2
     then Some (if addr AND 0x80 = 0 \<and> bulkEpO dev < 0
                then let (p, u') = open_pipe env True dId (Some k) u in (dev\<lparr>bulkEpO := p\<rparr>, u')
                else if addr AND 0x80 = 0x80 \<and> bulkEpI dev < 0
                then let (p, u') = open_pipe env False dId (Some k) u in (dev\<lparr>bulkEpI := p\<rparr>, u')
                else (dev, u))
     else Some (dev, u)
   })"

text \<open>The rest of the endpoint loop: \<open>n\<close> further endpoints after the one at \<open>k\<close>.\<close>

fun probe_endpoints :: "'u mass_env \<Rightarrow> usb_desc \<Rightarrow> int \<Rightarrow> nat \<Rightarrow> nat \<Rightarrow> mass_dev \<times> 'u \<Rightarrow> (mass_dev \<times> 'u) option" where
  "probe_endpoints env d dId 0 k x = Some x"
| "probe_endpoints env d dId (Suc n) k x = do {
     bLength \<leftarrow> rd8 d k;
     y \<leftarrow> usb_bulk_probeEndpoint env d dId (k + unat bLength) x;
     probe_endpoints env d dId n (k + unat bLength) y
   }"

definition usb_mass_probe :: "'u mass_env \<Rightarrow> int \<Rightarrow> 'u mass_state \<Rightarrow> bool option" where
  "usb_mass_probe env dId s =
     (if (case usb_mass_findDevice dId False s of
            None \<Rightarrow> False | Some i \<Rightarrow> status (g_mass_device s ! i) AND USBMASS_DEV_STAT_CONN \<noteq> 0)
      then Some False
      else let devs = usb_devs env (mhost s) in do {
        device \<leftarrow> doGetDeviceStaticDescriptor devs dId None 1;
        case (device, devs dId) of
          (Some dv, Some d) \<Rightarrow> do {
            bNumConfigurations \<leftarrow> rd8 d (dv + 17);
            if bNumConfigurations < 1 then Some False
            else do {
              config \<leftarrow> doGetDeviceStaticDescriptor devs dId (Some dv) 2;
              case config of
                None \<Rightarrow> Some False
              | Some c \<Rightarrow> do {
                  bNumInterfaces \<leftarrow> rd8 d (c + 4);
                  lo \<leftarrow> rd8 d (c + 2);
                  hi \<leftarrow> rd8 d (c + 3);
                  if bNumInterfaces < 1 \<or> unat lo + 256 * unat hi < 19 then Some False
                  else do {
                    bLength \<leftarrow> rd8 d c;
                    let intf = c + unat bLength;
                    numEp \<leftarrow> rd8 d (intf + 4);
                    class \<leftarrow> rd8 d (intf + 5);
                    subclass \<leftarrow> rd8 d (intf + 6);
                    protocol \<leftarrow> rd8 d (intf + 7);
                    Some (\<not> (class \<noteq> 0x08 \<or> (subclass \<noteq> 0x06 \<and> subclass \<noteq> 0x05) \<or> protocol \<noteq> 0x50 \<or> numEp < 2))
                  }
                }
            }
          }
        | _ \<Rightarrow> Some False
      })"

definition usb_mass_release :: "'u mass_env \<Rightarrow> mass_dev \<Rightarrow> 'u \<Rightarrow> mass_dev \<times> 'u" where
  "usb_mass_release env dev u =
     (let u1 = (if bulkEpI dev \<ge> 0 then close_pipe env (bulkEpI dev) u else u);
          u2 = (if bulkEpO dev \<ge> 0 then close_pipe env (bulkEpO dev) u1 else u1)
      in (dev\<lparr>bulkEpI := - 1, bulkEpO := - 1, controlEp := - 1, status := 0\<rparr>, u2))"

text \<open>The part of \<open>usb_mass_connect\<close> that reads the descriptors and opens the pipes, on the entry with cleared
  endpoints: the entry with the interface fields and pipes, and \<open>bConfigurationValue\<close>. It ends without a value where
  the code follows a null pointer or leaves the descriptor buffer.\<close>

definition open_endpoints :: "'u mass_env \<Rightarrow> int \<Rightarrow> mass_dev \<Rightarrow> 'u \<Rightarrow> (mass_dev \<times> u8 \<times> 'u) option" where
  "open_endpoints env dId dev u = do {
     let (ctl, u1) = open_pipe env False dId None u;
     let dev1 = dev\<lparr>controlEp := ctl\<rparr>;
     let devs = usb_devs env u1;
     d \<leftarrow> devs dId;
     device \<leftarrow> doGetDeviceStaticDescriptor devs dId None 1;
     config \<leftarrow> doGetDeviceStaticDescriptor devs dId device 2;
     c \<leftarrow> config;
     bLength \<leftarrow> rd8 d c;
     let intf = c + unat bLength;
     num \<leftarrow> rd8 d (intf + 2);
     alt \<leftarrow> rd8 d (intf + 3);
     epCount \<leftarrow> rd8 d (intf + 4);
     endpoint \<leftarrow> doGetDeviceStaticDescriptor devs dId None 5;
     e \<leftarrow> endpoint;
     x \<leftarrow> usb_bulk_probeEndpoint env d dId e (dev1\<lparr>interfaceNumber := num, interfaceAlt := alt\<rparr>, u1);
     (dev2, u2) \<leftarrow> probe_endpoints env d dId (unat epCount - 1) e x;
     conf \<leftarrow> rd8 d (c + 5);
     Some (dev2, conf, u2)
   }"

definition usb_mass_connect :: "'u mass_env \<Rightarrow> int \<Rightarrow> 'u mass_state \<Rightarrow> (int \<times> 'u mass_state) option" where
  "usb_mass_connect env dId s =
     (case usb_mass_findDevice dId True s of
        None \<Rightarrow> Some (1, s)
      | Some i \<Rightarrow>
          let dev = g_mass_device s ! i
          in if devId dev \<noteq> - 1 then Some (1, s)
             else do {
               (dev1, conf, u1) \<leftarrow> open_endpoints env dId (dev\<lparr>status := 0, bulkEpI := - 1, bulkEpO := - 1\<rparr>) (mhost s);
               if bulkEpI dev1 < 0 \<or> bulkEpO dev1 < 0
               then let (dev2, u2) = usb_mass_release env dev1 u1 in Some (- 1, (set_dev i dev2 s)\<lparr>mhost := u2\<rparr>)
               else let (sema, u2) = create_sema env u1; dev2 = dev1\<lparr>ioSema := sema\<rparr>
                    in if sema < 0 then Some (- 1, (set_dev i dev2 s)\<lparr>mhost := u2\<rparr>)
                       else Some (0, (set_dev i (dev2\<lparr>configId := conf, status := USBMASS_DEV_STAT_CONN, devId := dId\<rparr>) s)
                                     \<lparr>mhost := u2, update_signal := True\<rparr>)
             })"

text \<open>\<open>scsi_disconnect\<close> looks for the entry of this device in the SCSI table and takes it back from the manager.\<close>

definition mass_scsi_disconnect :: "nat \<Rightarrow> 'u mass_state \<Rightarrow> 'u mass_state" where
  "mass_scsi_disconnect i s =
     (let (tab, slot) = scsi_disconnect i (g_scsi_bd s)
      in s\<lparr>g_scsi_bd := tab, bdm_log := bdm_log s @ (case slot of None \<Rightarrow> [] | Some k \<Rightarrow> [(False, k)])\<rparr>)"

definition usb_mass_disconnect :: "'u mass_env \<Rightarrow> int \<Rightarrow> 'u mass_state \<Rightarrow> int \<times> 'u mass_state" where
  "usb_mass_disconnect env dId s =
     (case usb_mass_findDevice dId False s of
        None \<Rightarrow> (0, s)
      | Some i \<Rightarrow>
          let dev = g_mass_device s ! i
          in if status dev AND USBMASS_DEV_STAT_CONN \<noteq> 0
             then let (dev1, u1) = usb_mass_release env dev (mhost s);
                      s1 = (set_dev i (dev1\<lparr>devId := - 1\<rparr>) s)\<lparr>mhost := delete_sema env (ioSema dev) u1\<rparr>
                  in (0, mass_scsi_disconnect i s1)
             else (0, s))"

text \<open>The update thread: \<open>WaitSema\<close> returned and the new entries are collected; then each is configured.\<close>

definition update_collect :: "'u mass_state \<Rightarrow> 'u mass_state" where
  "update_collect s =
     s\<lparr>update_signal := False,
       new_devs := filter (\<lambda>i. let dev = g_mass_device s ! i in devId dev \<noteq> - 1 \<and> status dev AND USBMASS_DEV_STAT_CONN \<noteq> 0
                                \<and> status dev AND USBMASS_DEV_STAT_CONF = 0) [0..<NUM_DEVICES]\<rparr>"

definition mass_scsi_connect :: "'u mass_env \<Rightarrow> nat \<Rightarrow> 'u mass_state \<Rightarrow> 'u mass_state option" where
  "mass_scsi_connect env i s =
     (let (m0, sd0, rcd0) = stack env;
          tp = \<lparr>tp_dev = g_mass_device s ! i, tp_tag = cmd_tag s, tp_comData = cmd_data s, tp_host = mhost s\<rparr>
      in map_option (\<lambda>(tab, slot, tp').
           (set_dev i (tp_dev tp') s)\<lparr>cmd_tag := tp_tag tp', cmd_data := tp_comData tp', mhost := tp_host tp', g_scsi_bd := tab,
             bdm_log := bdm_log s @ (case slot of None \<Rightarrow> [] | Some k \<Rightarrow> [(True, k)])\<rparr>)
         (scsi_connect i (usb_scsi (me_host env) m0) sd0 rcd0 (g_scsi_bd s) tp))"

definition update_device :: "'u mass_env \<Rightarrow> nat \<Rightarrow> 'u mass_state \<Rightarrow> 'u mass_state option" where
  "update_device env i s =
     (let dev = g_mass_device s ! i;
          (ret, u1) = usb_set_configuration (me_host env) dev (int (unat (configId dev))) (mhost s)
      in if ret \<noteq> USB_RC_OK
         then let (dev', u2) = usb_mass_release env dev u1 in Some ((set_dev i dev' s)\<lparr>mhost := u2\<rparr>)
         else let (ret2, u2) = usb_set_interface (me_host env) dev (int (unat (interfaceNumber dev))) (int (unat (interfaceAlt dev))) u1
              in if ret2 \<noteq> USB_RC_OK \<and> ret2 \<noteq> 4
                 then let (dev', u3) = usb_mass_release env dev u2 in Some ((set_dev i dev' s)\<lparr>mhost := u3\<rparr>)
                 else let (_, u3) = (if ret2 = 4 then usb_bulk_clear_halt (me_host env) dev True u2 else (0, u2));
                          (_, u4) = (if ret2 = 4 then usb_bulk_clear_halt (me_host env) dev False u3 else (0, u3));
                          s1 = (set_dev i (dev\<lparr>status := status dev OR USBMASS_DEV_STAT_CONF\<rparr>) s)\<lparr>mhost := u4\<rparr>
                      in map_option (\<lambda>s2. s2\<lparr>mhost := delay_thread env (mhost s2)\<rparr>) (mass_scsi_connect env i s1))"


section \<open>What the USB stack and the kernel promise\<close>

definition same_res :: "'u mass_env \<Rightarrow> 'u \<Rightarrow> 'u \<Rightarrow> bool" where
  "same_res env u u' \<longleftrightarrow> in_use env u' = in_use env u \<and> sema_use env u' = sema_use env u"

text \<open>Transfers open and close nothing; on the pipe number -1 they are refused; a successful bulk transfer
  moves at least one byte and at most those asked for. Opening an endpoint gives a pipe that was not open;
  the default pipe of a device is open from the start. The kernel has semaphores left.\<close>

definition mass_laws :: "'u mass_env \<Rightarrow> bool" where
  "mass_laws env \<longleftrightarrow>
     (\<forall>p rt rq v i l u ret res d u'. control_transfer (me_host env) p rt rq v i l u = (ret, res, d, u') \<longrightarrow>
        same_res env u u' \<and> (p < 0 \<longrightarrow> ret \<noteq> 0))
   \<and> (\<forall>p x u ret res k u'. bulk_out (me_host env) p x u = (ret, res, k, u') \<longrightarrow> same_res env u u')
   \<and> (\<forall>p len u ret res x u'. bulk_in (me_host env) p len u = (ret, res, x, u') \<longrightarrow>
        same_res env u u' \<and> (ret = 0 \<and> res = 0 \<and> 0 < len \<longrightarrow> x \<noteq> [] \<and> length x \<le> len))
   \<and> (\<forall>a i u p u'. open_pipe env a i None u = (p, u') \<longrightarrow> same_res env u u')
   \<and> (\<forall>a i k u p u'. open_pipe env a i (Some k) u = (p, u') \<longrightarrow> sema_use env u' = sema_use env u
        \<and> (if p < 0 then in_use env u' = in_use env u else p \<notin> in_use env u \<and> in_use env u' = insert p (in_use env u)))
   \<and> (\<forall>p u. in_use env (close_pipe env p u) = in_use env u - {p} \<and> sema_use env (close_pipe env p u) = sema_use env u)
   \<and> (\<forall>u r u'. create_sema env u = (r, u') \<longrightarrow>
        0 \<le> r \<and> r \<notin> sema_use env u \<and> sema_use env u' = insert r (sema_use env u) \<and> in_use env u' = in_use env u)
   \<and> (\<forall>r u. sema_use env (delete_sema env r u) = sema_use env u - {r} \<and> in_use env (delete_sema env r u) = in_use env u)
   \<and> (\<forall>u. same_res env u (delay_thread env u))"

lemma same_res_refl [simp]: "same_res env u u"
  by (simp add: same_res_def)


lemma lawsD:
  assumes "mass_laws env"
  shows "control_transfer (me_host env) p rt rq v i l u = (ret, res, d, u') \<Longrightarrow> same_res env u u' \<and> (p < 0 \<longrightarrow> ret \<noteq> 0)"
    "bulk_out (me_host env) p x u = (ret, res, k, u') \<Longrightarrow> same_res env u u'"
    "bulk_in (me_host env) p len u = (ret, res, y, u') \<Longrightarrow> same_res env u u' \<and> (ret = 0 \<and> res = 0 \<and> 0 < len \<longrightarrow> y \<noteq> [] \<and> length y \<le> len)"
    "open_pipe env a j None u = (q, u') \<Longrightarrow> same_res env u u'"
    "open_pipe env a j (Some m) u = (q, u') \<Longrightarrow> sema_use env u' = sema_use env u
        \<and> (if q < 0 then in_use env u' = in_use env u else q \<notin> in_use env u \<and> in_use env u' = insert q (in_use env u))"
    "in_use env (close_pipe env q u) = in_use env u - {q}" "sema_use env (close_pipe env q u) = sema_use env u"
    "create_sema env u = (r, u') \<Longrightarrow> 0 \<le> r \<and> r \<notin> sema_use env u \<and> sema_use env u' = insert r (sema_use env u) \<and> in_use env u' = in_use env u"
    "sema_use env (delete_sema env r u) = sema_use env u - {r}" "in_use env (delete_sema env r u) = in_use env u"
    "same_res env u (delay_thread env u)"
proof -
  note L = assms [unfolded mass_laws_def]
  note L2 = L [THEN conjunct2] and L3 = L [THEN conjunct2, THEN conjunct2]
  note L5 = L3 [THEN conjunct2, THEN conjunct2]
  note L7 = L5 [THEN conjunct2, THEN conjunct2]
  show "control_transfer (me_host env) p rt rq v i l u = (ret, res, d, u') \<Longrightarrow> same_res env u u' \<and> (p < 0 \<longrightarrow> ret \<noteq> 0)"
    by (rule L [THEN conjunct1, rule_format])
  show "bulk_out (me_host env) p x u = (ret, res, k, u') \<Longrightarrow> same_res env u u'" by (rule L2 [THEN conjunct1, rule_format])
  show "bulk_in (me_host env) p len u = (ret, res, y, u') \<Longrightarrow> same_res env u u' \<and> (ret = 0 \<and> res = 0 \<and> 0 < len \<longrightarrow> y \<noteq> [] \<and> length y \<le> len)"
    by (rule L3 [THEN conjunct1, rule_format])
  show "open_pipe env a j None u = (q, u') \<Longrightarrow> same_res env u u'" by (rule L3 [THEN conjunct2, THEN conjunct1, rule_format])
  show "open_pipe env a j (Some m) u = (q, u') \<Longrightarrow> sema_use env u' = sema_use env u
        \<and> (if q < 0 then in_use env u' = in_use env u else q \<notin> in_use env u \<and> in_use env u' = insert q (in_use env u))"
    by (rule L5 [THEN conjunct1, rule_format])
  show "in_use env (close_pipe env q u) = in_use env u - {q}" "sema_use env (close_pipe env q u) = sema_use env u"
    using L5 [THEN conjunct2, THEN conjunct1, rule_format, of q u] by simp_all
  show "create_sema env u = (r, u') \<Longrightarrow> 0 \<le> r \<and> r \<notin> sema_use env u \<and> sema_use env u' = insert r (sema_use env u) \<and> in_use env u' = in_use env u"
    by (rule L7 [THEN conjunct1, rule_format])
  show "sema_use env (delete_sema env r u) = sema_use env u - {r}" "in_use env (delete_sema env r u) = in_use env u"
    using L7 [THEN conjunct2, THEN conjunct1, rule_format, of r u] by simp_all
  show "same_res env u (delay_thread env u)" using L7 [THEN conjunct2, THEN conjunct2] by blast
qed

section \<open>Commands keep the resources\<close>

text \<open>The transport changes a device entry only by marking it offline.\<close>

definition dev_rel :: "mass_dev \<Rightarrow> mass_dev \<Rightarrow> bool" where
  "dev_rel d d' \<longleftrightarrow> d' = d \<or> d' = d\<lparr>status := status d OR USBMASS_DEV_STAT_ERR\<rparr>"

lemma dev_rel_refl [simp]: "dev_rel d d"
  by (simp add: dev_rel_def)









section \<open>Warm-up keeps the resources\<close>






section \<open>The device table\<close>

definition connected :: "mass_dev \<Rightarrow> bool" where
  "connected d \<longleftrightarrow> status d AND USBMASS_DEV_STAT_CONN \<noteq> 0"

definition own_pipes :: "mass_dev \<Rightarrow> int set" where
  "own_pipes d = {p \<in> {bulkEpI d, bulkEpO d}. 0 \<le> p}"


text \<open>An entry without pipes: transfers on it are refused.\<close>

definition dead_slot :: "mass_dev \<Rightarrow> bool" where
  "dead_slot d \<longleftrightarrow> controlEp d < 0 \<and> bulkEpI d < 0 \<and> bulkEpO d < 0"


lemma release_use:
  assumes "mass_laws env" "usb_mass_release env dev u = (dev', u')"
  shows "in_use env u' = in_use env u - own_pipes dev" "sema_use env u' = sema_use env u"
    "dead_slot dev'" "\<not> connected dev'" "devId dev' = devId dev" "own_pipes dev' = {}"
proof -
  show "in_use env u' = in_use env u - own_pipes dev" "sema_use env u' = sema_use env u"
    using assms(2) by (cases "0 \<le> bulkEpI dev"; cases "0 \<le> bulkEpO dev";
      auto simp: usb_mass_release_def Let_def own_pipes_def lawsD(6,7) [OF assms(1)])+
qed (use assms(2) in \<open>auto simp: usb_mass_release_def Let_def own_pipes_def dead_slot_def connected_def\<close>)



section \<open>Opening the endpoints\<close>

text \<open>What the endpoint loop has opened so far, all of it new.\<close>

definition opened :: "'u mass_env \<Rightarrow> 'u \<Rightarrow> mass_dev \<Rightarrow> mass_dev \<times> 'u \<Rightarrow> bool" where
  "opened env u0 dev0 = (\<lambda>(dev, u). in_use env u = in_use env u0 \<union> own_pipes dev \<and> own_pipes dev \<inter> in_use env u0 = {}
     \<and> (0 \<le> bulkEpI dev \<longrightarrow> bulkEpI dev \<noteq> bulkEpO dev) \<and> sema_use env u = sema_use env u0
     \<and> devId dev = devId dev0 \<and> status dev = status dev0)"

lemma probe_endpoint_opened:
  assumes "mass_laws env" "opened env u0 dev0 (dev, u)" "usb_bulk_probeEndpoint env d dId k (dev, u) = Some x"
  shows "opened env u0 dev0 x"
proof -
  obtain p u1 where o1: "open_pipe env True dId (Some k) u = (p, u1)" by (metis surj_pair)
  obtain q u2 where o2: "open_pipe env False dId (Some k) u = (q, u2)" by (metis surj_pair)
  have "x = (dev, u) \<or> bulkEpO dev < 0 \<and> x = (dev\<lparr>bulkEpO := p\<rparr>, u1) \<or> bulkEpI dev < 0 \<and> x = (dev\<lparr>bulkEpI := q\<rparr>, u2)"
    using assms(3) o1 o2 by (auto simp: usb_bulk_probeEndpoint_def split: bind_splits if_splits)
  then show ?thesis
    using assms(2) lawsD(5) [OF assms(1) o1] lawsD(5) [OF assms(1) o2]
    by (auto simp: opened_def own_pipes_def split: if_splits)
qed

lemma probe_endpoints_opened:
  assumes "mass_laws env"
  shows "opened env u0 dev0 x \<Longrightarrow> probe_endpoints env d dId n k x = Some y \<Longrightarrow> opened env u0 dev0 y"
proof (induction n arbitrary: k x)
  case (Suc n)
  then show ?case using probe_endpoint_opened [OF assms] by (cases x) (fastforce split: bind_splits)
qed simp

lemma open_endpoints_opened:
  assumes "mass_laws env" "bulkEpI dev < 0" "bulkEpO dev < 0" "open_endpoints env dId dev u = Some (dev', conf, u')"
  shows "opened env u dev (dev', u')"
proof -
  obtain ctl u1 where c: "open_pipe env False dId None u = (ctl, u1)" by (metis surj_pair)
  note s = lawsD(4) [OF assms(1) c]
  obtain d num alt e x n where x: "usb_bulk_probeEndpoint env d dId e (dev\<lparr>controlEp := ctl, interfaceNumber := num, interfaceAlt := alt\<rparr>, u1) = Some x"
    "probe_endpoints env d dId n e x = Some (dev', u')"
    using assms(4) c unfolding open_endpoints_def by (auto simp: Let_def split: bind_splits)
  have "opened env u dev (dev\<lparr>controlEp := ctl, interfaceNumber := num, interfaceAlt := alt\<rparr>, u1)"
    using s assms(2,3) by (auto simp: opened_def own_pipes_def same_res_def)
  then show ?thesis using probe_endpoint_opened [OF assms(1) _ x(1)] probe_endpoints_opened [OF assms(1) _ x(2)] by blast
qed

section \<open>The steps keep the invariant\<close>


text \<open>The cases of a connect into the free entry \<open>i\<close>.\<close>

lemma connect_cases:
  assumes "mass_laws env" "usb_mass_connect env dId s = Some (r, s')"
  shows "r = 1 \<and> s' = s
    \<or> (\<exists>i dev u. r = - 1 \<and> usb_mass_findDevice dId True s = Some i \<and> devId (g_mass_device s ! i) = - 1
         \<and> s' = (set_dev i dev s)\<lparr>mhost := u\<rparr> \<and> same_res env (mhost s) u \<and> dead_slot dev \<and> \<not> connected dev \<and> devId dev = - 1)
    \<or> (\<exists>i dev u. r = 0 \<and> usb_mass_findDevice dId True s = Some i \<and> devId (g_mass_device s ! i) = - 1
         \<and> s' = (set_dev i dev s)\<lparr>mhost := u, update_signal := True\<rparr> \<and> connected dev \<and> devId dev = dId
         \<and> 0 \<le> bulkEpI dev \<and> 0 \<le> bulkEpO dev \<and> bulkEpI dev \<noteq> bulkEpO dev
         \<and> own_pipes dev \<inter> in_use env (mhost s) = {} \<and> in_use env u = in_use env (mhost s) \<union> own_pipes dev
         \<and> ioSema dev \<notin> sema_use env (mhost s) \<and> sema_use env u = insert (ioSema dev) (sema_use env (mhost s)))"
proof (cases "\<exists>i. usb_mass_findDevice dId True s = Some i \<and> devId (g_mass_device s ! i) = - 1")
  case False
  then show ?thesis using assms(2) by (auto simp: usb_mass_connect_def split: option.splits)
next
  case True
  then obtain i where i: "usb_mass_findDevice dId True s = Some i" "devId (g_mass_device s ! i) = - 1" by blast
  let ?dev = "(g_mass_device s ! i)\<lparr>status := 0, bulkEpI := - 1, bulkEpO := - 1\<rparr>"
  obtain dev1 conf u1 where o: "open_endpoints env dId ?dev (mhost s) = Some (dev1, conf, u1)"
    using assms(2) i by (auto simp: usb_mass_connect_def split: bind_splits)
  have op: "opened env (mhost s) ?dev (dev1, u1)" by (rule open_endpoints_opened [OF assms(1) _ _ o]) simp_all
  show ?thesis
  proof (cases "bulkEpI dev1 < 0 \<or> bulkEpO dev1 < 0")
    case True
    obtain dev2 u2 where rl: "usb_mass_release env dev1 u1 = (dev2, u2)" by (metis surj_pair)
    note u = release_use [OF assms(1) rl]
    have "r = - 1" "s' = (set_dev i dev2 s)\<lparr>mhost := u2\<rparr>" using assms(2) i o True rl by (auto simp: usb_mass_connect_def)
    moreover have "same_res env (mhost s) u2" using op u by (auto simp: opened_def same_res_def)
    moreover have "devId dev2 = - 1" using op u(5) i(2) by (simp add: opened_def)
    ultimately show ?thesis using i u(3,4) by blast
  next
    case False
    obtain sema u2 where cs: "create_sema env u1 = (sema, u2)" by (metis surj_pair)
    note l = lawsD(8) [OF assms(1) cs]
    define dev where "dev = dev1\<lparr>ioSema := sema, configId := conf, status := USBMASS_DEV_STAT_CONN, devId := dId\<rparr>"
    have "r = 0" "s' = (set_dev i dev s)\<lparr>mhost := u2, update_signal := True\<rparr>"
      using assms(2) i o False cs l by (auto simp: usb_mass_connect_def dev_def)
    moreover have "connected dev" "devId dev = dId" "0 \<le> bulkEpI dev" "0 \<le> bulkEpO dev" "bulkEpI dev \<noteq> bulkEpO dev"
      "own_pipes dev = own_pipes dev1" "ioSema dev = sema"
      using False op by (auto simp: dev_def connected_def opened_def own_pipes_def)
    moreover have "own_pipes dev1 \<inter> in_use env (mhost s) = {}" "in_use env u2 = in_use env (mhost s) \<union> own_pipes dev1"
      "sema \<notin> sema_use env (mhost s)" "sema_use env u2 = insert sema (sema_use env (mhost s))"
      using op l by (simp_all add: opened_def)
    ultimately show ?thesis using i by (metis (no_types, lifting))
  qed
qed



lemma scsi_disconnect_sel [simp]:
  "g_mass_device (mass_scsi_disconnect i s) = g_mass_device s" "mhost (mass_scsi_disconnect i s) = mhost s"
  "new_devs (mass_scsi_disconnect i s) = new_devs s" "update_signal (mass_scsi_disconnect i s) = update_signal s"
  by (simp_all add: mass_scsi_disconnect_def split: prod.splits)








section \<open>The driver as a transition system\<close>

text \<open>The USB thread connects and disconnects devices, the update thread wakes up and configures the entries it
  collected, and other drivers open and close pipes and semaphores of their own. A configuration is one step:
  the USB thread is not scheduled inside it.\<close>

inductive mass_step :: "'u mass_env \<Rightarrow> 'u mass_state \<Rightarrow> 'u mass_state \<Rightarrow> bool" for env where
  connect: "dId \<noteq> - 1 \<Longrightarrow> usb_mass_connect env dId s = Some (r, s') \<Longrightarrow> mass_step env s s'"
| disconnect: "usb_mass_disconnect env dId s = (r, s') \<Longrightarrow> mass_step env s s'"
| wake: "update_signal s \<Longrightarrow> new_devs s = [] \<Longrightarrow> mass_step env s (update_collect s)"
| configure: "new_devs s = i # js \<Longrightarrow> update_device env i s = Some s' \<Longrightarrow> mass_step env s (s'\<lparr>new_devs := js\<rparr>)"
| other: "(\<And>i. i < 2 \<Longrightarrow> connected (g_mass_device s ! i) \<Longrightarrow>
            own_pipes (g_mass_device s ! i) \<subseteq> in_use env u \<and> ioSema (g_mass_device s ! i) \<in> sema_use env u) \<Longrightarrow>
          mass_step env s (s\<lparr>mhost := u\<rparr>)"

inductive_cases mass_stepE: "mass_step env s s'"




section \<open>A concrete driver environment\<close>

text \<open>Pipes and semaphores are numbered from 1; transfers on an open pipe number succeed.\<close>

record kernel =
  k_pipes :: "int list"
  k_semas :: "int list"

definition fresh :: "int list \<Rightarrow> int" where
  "fresh xs = 1 + fold max xs 0"

lemma fold_max_ge: "(\<forall>x \<in> set xs. x \<le> fold max xs a) \<and> a \<le> fold max xs (a :: int)"
proof (induction xs arbitrary: a)
  case (Cons y ys)
  show ?case using Cons.IH [of "max y a"] by simp
qed simp

lemma fresh_new: "fresh xs \<notin> set xs" "0 \<le> fresh xs"
  using fold_max_ge [of xs 0] by (auto simp: fresh_def)

definition kernel_host :: "kernel usb_host" where
  "kernel_host = \<lparr>control_transfer = (\<lambda>p rt rq v i l u. (if p < 0 then - 1 else 0, 0, replicate (unat l) 0, u)),
     bulk_out = (\<lambda>p x u. (0, 0, length x, u)), bulk_in = (\<lambda>p len u. (0, 0, replicate len 0, u))\<rparr>"

text \<open>Device, configuration, interface (mass storage, transparent SCSI, bulk only) and two endpoint descriptors.\<close>

definition stick_desc :: usb_desc where
  "stick_desc = \<lparr>dd_buf = [18, 1, 0, 2, 0, 0, 0, 64, 0, 0, 0, 0, 0, 0, 0, 0, 0, 1]
      @ [9, 2, 32, 0, 1, 1, 0, 0x80, 50] @ [9, 4, 0, 0, 2, 8, 6, 0x50, 0]
      @ [7, 5, 0x81, 2, 64, 0, 0] @ [7, 5, 0x02, 2, 64, 0, 0], dd_end = 50\<rparr>"

definition kernel_env :: "kernel mass_env" where
  "kernel_env = \<lparr>me_host = kernel_host,
     open_pipe = (\<lambda>a i k u. case k of None \<Rightarrow> (100, u) | Some _ \<Rightarrow> (fresh (k_pipes u), u\<lparr>k_pipes := fresh (k_pipes u) # k_pipes u\<rparr>)),
     close_pipe = (\<lambda>p u. u\<lparr>k_pipes := removeAll p (k_pipes u)\<rparr>),
     create_sema = (\<lambda>u. (fresh (k_semas u), u\<lparr>k_semas := fresh (k_semas u) # k_semas u\<rparr>)),
     delete_sema = (\<lambda>r u. u\<lparr>k_semas := removeAll r (k_semas u)\<rparr>),
     delay_thread = (\<lambda>u. u), usb_devs = (\<lambda>u i. if i = 5 then Some stick_desc else None),
     in_use = (\<lambda>u. set (k_pipes u)), sema_use = (\<lambda>u. set (k_semas u)),
     stack = (0, replicate 18 0, replicate 8 0)\<rparr>"

lemma kernel_laws: "mass_laws kernel_env"
  unfolding mass_laws_def
  by (intro conjI allI impI)
    (auto simp: kernel_env_def kernel_host_def same_res_def fresh_new not_less [symmetric] leD [OF fresh_new(2)] split: if_splits option.splits)

definition blank_dev :: mass_dev where
  "blank_dev = \<lparr>controlEp = 0, bulkEpI = 0, bulkEpO = 0, devId = 0, configId = 0, status = 0, interfaceNumber = 0, interfaceAlt = 0, ioSema = 0\<rparr>"

definition boot_state :: "kernel mass_state" where
  "boot_state = \<lparr>g_mass_device = [blank_dev, blank_dev], update_signal = False, new_devs = [], cmd_tag = 0, cmd_data = replicate 16 0,
     g_scsi_bd = [], bdm_log = [], mhost = \<lparr>k_pipes = [7], k_semas = [3]\<rparr>\<rparr>"

definition init_state :: "kernel mass_state" where
  "init_state = boot_state\<lparr>g_mass_device := [blank_dev\<lparr>devId := - 1\<rparr>, blank_dev\<lparr>devId := - 1\<rparr>]\<rparr>"

definition plugged_state :: "kernel mass_state" where
  "plugged_state = init_state\<lparr>g_mass_device := [\<lparr>controlEp = 100, bulkEpI = 8, bulkEpO = 9, devId = 5, configId = 1, status = 1,
       interfaceNumber = 0, interfaceAlt = 0, ioSema = 4\<rparr>, blank_dev\<lparr>devId := - 1\<rparr>],
     update_signal := True, mhost := \<lparr>k_pipes = [9, 8, 7], k_semas = [4, 3]\<rparr>\<rparr>"


lemma stick_probed: "usb_mass_probe kernel_env 5 init_state = Some True"
  by code_simp

lemma stick_plugged: "usb_mass_connect kernel_env 5 init_state = Some (0, plugged_state)"
  by code_simp

section \<open>Properties\<close>



text \<open>C33. While the kernel has semaphores left (\<open>mass_laws\<close>) and for descriptors that stay inside their buffer (otherwise the code
  leaves it and the model has no value), a device is connected without a leak: an attempt that fails leaves the same pipes and
  semaphores in use as before; one that succeeds wakes the update thread, and disconnecting the device then gives back exactly the pipes
  and the semaphore it took and frees the table entry.\<close>

theorem mass_connect_no_leak:
  assumes "mass_laws env" "usb_mass_connect env dId s = Some (r, s')"
  shows "(r = 1 \<longrightarrow> s' = s)
     \<and> (r \<noteq> 0 \<longrightarrow> in_use env (mhost s') = in_use env (mhost s) \<and> sema_use env (mhost s') = sema_use env (mhost s))
     \<and> (r = 0 \<longrightarrow> update_signal s' \<and> (\<exists>i s2. usb_mass_findDevice dId False s' = Some i \<and> devId (g_mass_device s ! i) = - 1
          \<and> usb_mass_disconnect env dId s' = (0, s2) \<and> in_use env (mhost s2) = in_use env (mhost s)
          \<and> sema_use env (mhost s2) = sema_use env (mhost s) \<and> devId (g_mass_device s2 ! i) = - 1))"
  using connect_cases [OF assms]
proof (elim disjE exE conjE)
  fix i dev u
  assume k: "r = 0" "usb_mass_findDevice dId True s = Some i" "devId (g_mass_device s ! i) = - 1"
    "s' = (set_dev i dev s)\<lparr>mhost := u, update_signal := True\<rparr>" "connected dev" "devId dev = dId"
    "0 \<le> bulkEpI dev" "0 \<le> bulkEpO dev" "own_pipes dev \<inter> in_use env (mhost s) = {}" "in_use env u = in_use env (mhost s) \<union> own_pipes dev"
    "ioSema dev \<notin> sema_use env (mhost s)" "sema_use env u = insert (ioSema dev) (sema_use env (mhost s))"
  have il: "i < length (g_mass_device s)" using k(2) by (simp add: usb_mass_findDevice_def first_index_Some)
  have f: "usb_mass_findDevice dId False s' = Some i"
    using k(2,4,6) unfolding usb_mass_findDevice_def first_index_Some by (auto simp: set_dev_def)
  have nth: "g_mass_device s' ! i = dev" using k(4) il by (simp add: set_dev_def)
  obtain dev1 u1 where rl: "usb_mass_release env dev u = (dev1, u1)" by (metis surj_pair)
  note q = release_use [OF assms(1) rl]
  have "usb_mass_disconnect env dId s' = (0, mass_scsi_disconnect i ((set_dev i (dev1\<lparr>devId := - 1\<rparr>) s')\<lparr>mhost := delete_sema env (ioSema dev) u1\<rparr>))"
    (is "_ = (0, ?s2)") using f nth rl k(4,5) by (simp add: usb_mass_disconnect_def connected_def)
  moreover have "in_use env (mhost ?s2) = in_use env (mhost s)" "sema_use env (mhost ?s2) = sema_use env (mhost s)"
    using q(1,2) k(9-12) lawsD(9,10) [OF assms(1)] by auto
  moreover have "devId (g_mass_device ?s2 ! i) = - 1" using il k(4) by (simp add: set_dev_def)
  ultimately show ?thesis using k(1,3,4) f by simp
qed (simp_all add: same_res_def)

theorem mass_connect_no_leak_witness:
  "\<exists>s2. usb_mass_connect kernel_env 5 init_state = Some (0, plugged_state) \<and> usb_mass_disconnect kernel_env 5 plugged_state = (0, s2)
     \<and> set (k_pipes (mhost s2)) = {7} \<and> set (k_semas (mhost s2)) = {3}"
proof -
  have i: "in_use kernel_env u = set (k_pipes u)" "sema_use kernel_env u = set (k_semas u)" for u by (simp_all add: kernel_env_def)
  have m: "mhost init_state = \<lparr>k_pipes = [7], k_semas = [3]\<rparr>" by (simp add: init_state_def boot_state_def)
  show ?thesis using mass_connect_no_leak [OF kernel_laws stick_plugged] stick_plugged unfolding i m by auto
qed

end
