(* ===== verification/Sd_Codec.thy ===== *)
theory Sd_Codec
  imports Bdm_Prelude
begin

text \<open>
  The pure routines of the SD card driver in \<open>__mx4sio_assault/src\<close>: the two variants of CRC-7
  (\<open>spi_sdcard_crc7.c\<close>), CRC-16 (\<open>crc16.c\<close>), and the bit reversal of bytes and of sector buffers (\<open>mx4sio.c\<close>), which the
  driver needs because the port shifts the least significant bit first while the card sends the most significant one
  first. Each routine is proved equal to the bit-serial definition of the standard.
\<close>

section \<open>Additive functions on words\<close>

text \<open>Two functions that distribute over exclusive or agree if they agree on the single-bit words.\<close>

lemma xor_additive_eq:
  fixes f g :: "'a::len word \<Rightarrow> 'b::len word"
  assumes f: "\<And>x y. f (x XOR y) = f x XOR f y" and g: "\<And>x y. g (x XOR y) = g x XOR g y"
    and basis: "\<forall>i \<in> set [0..<len]. f (push_bit i 1) = g (push_bit i 1)" and len: "len = LENGTH('a)"
  shows "f x = g x"
proof -
  have zero: "f 0 = 0" "g 0 = 0" using f [of 0 0] g [of 0 0] by simp_all
  have "f (take_bit n x) = g (take_bit n x)" if "n \<le> LENGTH('a)" for n
    using that
  proof (induction n)
    case (Suc n)
    have "take_bit (Suc n) x = take_bit n x XOR (if bit x n then push_bit n 1 else 0)"
      by (rule bit_word_eqI) (auto simp: bit_simps less_Suc_eq)
    then show ?case using Suc basis len zero by (simp add: f g)
  qed (use zero in simp)
  from this [of "LENGTH('a)"] show ?thesis by simp
qed

text \<open>Checks of the single-bit words, one by one.\<close>

lemma all_8: "(\<forall>i \<in> set [0..<8]. P i) \<longleftrightarrow> P 0 \<and> P 1 \<and> P 2 \<and> P 3 \<and> P 4 \<and> P 5 \<and> P 6 \<and> P 7"
  by (simp add: upt_rec eval_nat_numeral del: set_upt)

lemma all_15: "(\<forall>i \<in> set [0..<15]. P i) \<longleftrightarrow> P 0 \<and> P 1 \<and> P 2 \<and> P 3 \<and> P 4 \<and> P 5 \<and> P 6 \<and> P 7 \<and> P 8 \<and> P 9 \<and> P 10 \<and> P 11 \<and> P 12 \<and> P 13 \<and> P 14"
  by (simp add: upt_rec eval_nat_numeral del: set_upt)

lemma all_32: "(\<forall>i \<in> set [0..<32]. P i) \<longleftrightarrow> P 0 \<and> P 1 \<and> P 2 \<and> P 3 \<and> P 4 \<and> P 5 \<and> P 6 \<and> P 7 \<and> P 8 \<and> P 9 \<and> P 10 \<and> P 11 \<and> P 12 \<and> P 13 \<and> P 14 \<and> P 15 \<and> P 16 \<and> P 17 \<and> P 18 \<and> P 19 \<and> P 20 \<and> P 21 \<and> P 22 \<and> P 23 \<and> P 24 \<and> P 25 \<and> P 26 \<and> P 27 \<and> P 28 \<and> P 29 \<and> P 30 \<and> P 31"
  by (simp add: upt_rec eval_nat_numeral del: set_upt)

lemma all_16_32: "(\<forall>i \<in> set [16..<32]. P i) \<longleftrightarrow> P 16 \<and> P 17 \<and> P 18 \<and> P 19 \<and> P 20 \<and> P 21 \<and> P 22 \<and> P 23 \<and> P 24 \<and> P 25 \<and> P 26 \<and> P 27 \<and> P 28 \<and> P 29 \<and> P 30 \<and> P 31"
  by (simp add: upt_rec eval_nat_numeral del: set_upt)

lemma funpow_7_8: "(f ^^ 7) x = f (f (f (f (f (f (f x))))))" "(f ^^ 8) x = f (f (f (f (f (f (f (f x)))))))"
  by (simp_all add: eval_nat_numeral)

text \<open>The table of an additive function is spanned by its values on the single bits, the highest bit first.\<close>

fun xor_span :: "'a::len word list \<Rightarrow> 'a word list" where
  "xor_span [] = [0]"
| "xor_span (v # vs) = xor_span vs @ map ((XOR) v) (xor_span vs)"

lemma of_nat_high_bit:
  assumes "i < 2 ^ n" "n < LENGTH('a)"
  shows "(of_nat (2 ^ n + i) :: 'a::len word) = push_bit n 1 XOR of_nat i"
proof -
  have "\<not> bit i k" if "n \<le> k" for k
    using assms(1) that by (metis bit_take_bit_iff leD take_bit_nat_eq_self)
  then have "push_bit n 1 XOR of_nat i = (push_bit n 1 OR of_nat i :: 'a word)"
    by (intro bit_word_eqI) (auto simp: bit_simps)
  also have "\<dots> = push_bit n 1 + of_nat i"
    using \<open>\<And>k. n \<le> k \<Longrightarrow> \<not> bit i k\<close>
    by (intro disjunctive_add [symmetric]) (auto simp: bit_simps)
  finally show ?thesis by (simp add: push_bit_eq_mult)
qed

lemma table_of_additive:
  fixes f :: "'a::len word \<Rightarrow> 'b::len word"
  assumes f: "\<And>x y. f (x XOR y) = f x XOR f y" and "n \<le> LENGTH('a)"
  shows "map (\<lambda>i. f (of_nat i)) [0..<2 ^ n] = xor_span (map (\<lambda>k. f (push_bit k 1)) (rev [0..<n]))"
  using assms(2)
proof (induction n)
  case 0
  then show ?case using f [of 0 0] by simp
next
  case (Suc n)
  have "[0..<2 ^ Suc n] = [0..<2 ^ n] @ map ((+) (2 ^ n)) [0..<2 ^ n]"
    by (rule nth_equalityI) (auto simp: nth_append)
  moreover have "map (\<lambda>i. f (of_nat (2 ^ n + i))) [0..<2 ^ n]
      = map ((XOR) (f (push_bit n 1))) (map (\<lambda>i. f (of_nat i)) [0..<2 ^ n])"
    using Suc.prems by (auto simp: of_nat_high_bit f simp del: of_nat_add)
  ultimately show ?case using Suc by (simp del: of_nat_add upt_Suc add: comp_def upt_Suc_append)
qed

lemma table_lookup:
  fixes f :: "u8 \<Rightarrow> 'b::len word"
  assumes "\<And>x y. f (x XOR y) = f x XOR f y"
    and "t = xor_span [f 0x80, f 0x40, f 0x20, f 0x10, f 8, f 4, f 2, f 1]"
  shows "t ! unat x = f x" "t = map (\<lambda>i. f (of_nat i)) [0..<256]"
proof -
  have r: "rev [0..<8] = [7, 6, 5, 4, 3, 2, 1, 0 :: nat]" by (simp add: upt_rec)
  show t: "t = map (\<lambda>i. f (of_nat i)) [0..<256]"
    using table_of_additive [of f 8] assms by (simp add: r push_bit_eq_mult)
  have "unat x < 256" using unat_bound [of 8 x] by simp
  then show "t ! unat x = f x" by (simp add: t)
qed

section \<open>CRC-7 of command packets\<close>

text \<open>The table of \<open>spi_sdcard_crc7.c\<close>, the one that is compiled.\<close>

definition crc7_table :: "u8 list" where
  "crc7_table = [
     0x00, 0x09, 0x12, 0x1B, 0x24, 0x2D, 0x36, 0x3F, 0x48, 0x41, 0x5A, 0x53, 0x6C, 0x65, 0x7E, 0x77,
     0x19, 0x10, 0x0B, 0x02, 0x3D, 0x34, 0x2F, 0x26, 0x51, 0x58, 0x43, 0x4A, 0x75, 0x7C, 0x67, 0x6E,
     0x32, 0x3B, 0x20, 0x29, 0x16, 0x1F, 0x04, 0x0D, 0x7A, 0x73, 0x68, 0x61, 0x5E, 0x57, 0x4C, 0x45,
     0x2B, 0x22, 0x39, 0x30, 0x0F, 0x06, 0x1D, 0x14, 0x63, 0x6A, 0x71, 0x78, 0x47, 0x4E, 0x55, 0x5C,
     0x64, 0x6D, 0x76, 0x7F, 0x40, 0x49, 0x52, 0x5B, 0x2C, 0x25, 0x3E, 0x37, 0x08, 0x01, 0x1A, 0x13,
     0x7D, 0x74, 0x6F, 0x66, 0x59, 0x50, 0x4B, 0x42, 0x35, 0x3C, 0x27, 0x2E, 0x11, 0x18, 0x03, 0x0A,
     0x56, 0x5F, 0x44, 0x4D, 0x72, 0x7B, 0x60, 0x69, 0x1E, 0x17, 0x0C, 0x05, 0x3A, 0x33, 0x28, 0x21,
     0x4F, 0x46, 0x5D, 0x54, 0x6B, 0x62, 0x79, 0x70, 0x07, 0x0E, 0x15, 0x1C, 0x23, 0x2A, 0x31, 0x38,
     0x41, 0x48, 0x53, 0x5A, 0x65, 0x6C, 0x77, 0x7E, 0x09, 0x00, 0x1B, 0x12, 0x2D, 0x24, 0x3F, 0x36,
     0x58, 0x51, 0x4A, 0x43, 0x7C, 0x75, 0x6E, 0x67, 0x10, 0x19, 0x02, 0x0B, 0x34, 0x3D, 0x26, 0x2F,
     0x73, 0x7A, 0x61, 0x68, 0x57, 0x5E, 0x45, 0x4C, 0x3B, 0x32, 0x29, 0x20, 0x1F, 0x16, 0x0D, 0x04,
     0x6A, 0x63, 0x78, 0x71, 0x4E, 0x47, 0x5C, 0x55, 0x22, 0x2B, 0x30, 0x39, 0x06, 0x0F, 0x14, 0x1D,
     0x25, 0x2C, 0x37, 0x3E, 0x01, 0x08, 0x13, 0x1A, 0x6D, 0x64, 0x7F, 0x76, 0x49, 0x40, 0x5B, 0x52,
     0x3C, 0x35, 0x2E, 0x27, 0x18, 0x11, 0x0A, 0x03, 0x74, 0x7D, 0x66, 0x6F, 0x50, 0x59, 0x42, 0x4B,
     0x17, 0x1E, 0x05, 0x0C, 0x33, 0x3A, 0x21, 0x28, 0x5F, 0x56, 0x4D, 0x44, 0x7B, 0x72, 0x69, 0x60,
     0x0E, 0x07, 0x1C, 0x15, 0x2A, 0x23, 0x38, 0x31, 0x46, 0x4F, 0x54, 0x5D, 0x62, 0x6B, 0x70, 0x79]"

text \<open>\<open>crc7_generate_table\<close>, one item: the inner loop runs seven times.\<close>

definition crc7_poly :: u8 where "crc7_poly = 0x89"

definition table_shift :: "u8 \<Rightarrow> u8" where
  "table_shift t = (let t = push_bit 1 t in if t AND 0x80 \<noteq> 0 then t XOR crc7_poly else t)"

definition table_item :: "u8 \<Rightarrow> u8" where
  "table_item i = (table_shift ^^ 7) (if i AND 0x80 \<noteq> 0 then i XOR crc7_poly else i)"

definition crc7_generate_table :: "u8 list" where
  "crc7_generate_table = map (\<lambda>i. table_item (of_nat i)) [0..<256]"

text \<open>The index \<open>(init_crc << 1) ^ message_byte\<close> is an \<open>int\<close>: it is inside the table only for 7-bit values.\<close>

definition crc7_index :: "u8 \<Rightarrow> u8 \<Rightarrow> nat" where
  "crc7_index init_crc message_byte = (2 * unat init_crc) XOR unat message_byte"

definition crc7_get_item :: "u8 \<Rightarrow> u8 \<Rightarrow> u8" where
  "crc7_get_item init_crc message_byte = crc7_table ! crc7_index init_crc message_byte"

definition crc7 :: "bytes \<Rightarrow> u8" where
  "crc7 message = foldl crc7_get_item 0 message"

text \<open>The variant selected by \<open>SD_CRC7_MODE_RUNTIME\<close>.\<close>

definition runtime_shift :: "u8 \<Rightarrow> u8" where
  "runtime_shift crc = (if crc AND 0x80 \<noteq> 0 then push_bit 1 crc XOR push_bit 1 crc7_poly else push_bit 1 crc)"

definition runtime_byte :: "u8 \<Rightarrow> u8 \<Rightarrow> u8" where
  "runtime_byte crc b = (runtime_shift ^^ 8) (crc XOR b)"

definition crc7_runtime :: "bytes \<Rightarrow> u8" where
  "crc7_runtime message = drop_bit 1 (foldl runtime_byte 0 message)"

section \<open>CRC-16 of data blocks\<close>

text \<open>\<open>crc16\<close>: the loop body on one little-endian half-word, on a 32-bit accumulator whose upper half is never read.\<close>

definition crc16_swap :: "u16 \<Rightarrow> u32" where
  "crc16_swap w = (push_bit 8 (ucast w) AND 0xFF00) OR (drop_bit 8 (ucast w) AND 0xFF)"

definition crc16_step :: "u32 \<Rightarrow> u32 \<Rightarrow> u32" where
  "crc16_step poly di =
     (let p = poly;
          p = p XOR (drop_bit 4 (p XOR di) AND 0x0F00);
          p = p XOR (drop_bit 4 (p XOR di) AND 0x00F0);
          p = p XOR (drop_bit 11 (p XOR di) AND 0x001F);
          p = p XOR (drop_bit 4 (p XOR di) AND 0x000F);
          p = p XOR di
      in p XOR push_bit 5 p XOR push_bit 12 p)"

fun crc16_loop :: "u32 \<Rightarrow> bytes \<Rightarrow> u32" where
  "crc16_loop poly (b0 # b1 # bs) = crc16_loop (crc16_step poly (crc16_swap (le16 [b0, b1] 0))) bs"
| "crc16_loop poly bs = poly"

definition crc16 :: "bytes \<Rightarrow> u16" where
  "crc16 buf = ucast (crc16_loop 0 buf)"

section \<open>Bit reversal\<close>

definition reverse_byte_LUT8 :: "u8 list" where
  "reverse_byte_LUT8 = [
     0x00, 0x80, 0x40, 0xc0, 0x20, 0xa0, 0x60, 0xe0, 0x10, 0x90, 0x50, 0xd0, 0x30, 0xb0, 0x70, 0xf0,
     0x08, 0x88, 0x48, 0xc8, 0x28, 0xa8, 0x68, 0xe8, 0x18, 0x98, 0x58, 0xd8, 0x38, 0xb8, 0x78, 0xf8,
     0x04, 0x84, 0x44, 0xc4, 0x24, 0xa4, 0x64, 0xe4, 0x14, 0x94, 0x54, 0xd4, 0x34, 0xb4, 0x74, 0xf4,
     0x0c, 0x8c, 0x4c, 0xcc, 0x2c, 0xac, 0x6c, 0xec, 0x1c, 0x9c, 0x5c, 0xdc, 0x3c, 0xbc, 0x7c, 0xfc,
     0x02, 0x82, 0x42, 0xc2, 0x22, 0xa2, 0x62, 0xe2, 0x12, 0x92, 0x52, 0xd2, 0x32, 0xb2, 0x72, 0xf2,
     0x0a, 0x8a, 0x4a, 0xca, 0x2a, 0xaa, 0x6a, 0xea, 0x1a, 0x9a, 0x5a, 0xda, 0x3a, 0xba, 0x7a, 0xfa,
     0x06, 0x86, 0x46, 0xc6, 0x26, 0xa6, 0x66, 0xe6, 0x16, 0x96, 0x56, 0xd6, 0x36, 0xb6, 0x76, 0xf6,
     0x0e, 0x8e, 0x4e, 0xce, 0x2e, 0xae, 0x6e, 0xee, 0x1e, 0x9e, 0x5e, 0xde, 0x3e, 0xbe, 0x7e, 0xfe,
     0x01, 0x81, 0x41, 0xc1, 0x21, 0xa1, 0x61, 0xe1, 0x11, 0x91, 0x51, 0xd1, 0x31, 0xb1, 0x71, 0xf1,
     0x09, 0x89, 0x49, 0xc9, 0x29, 0xa9, 0x69, 0xe9, 0x19, 0x99, 0x59, 0xd9, 0x39, 0xb9, 0x79, 0xf9,
     0x05, 0x85, 0x45, 0xc5, 0x25, 0xa5, 0x65, 0xe5, 0x15, 0x95, 0x55, 0xd5, 0x35, 0xb5, 0x75, 0xf5,
     0x0d, 0x8d, 0x4d, 0xcd, 0x2d, 0xad, 0x6d, 0xed, 0x1d, 0x9d, 0x5d, 0xdd, 0x3d, 0xbd, 0x7d, 0xfd,
     0x03, 0x83, 0x43, 0xc3, 0x23, 0xa3, 0x63, 0xe3, 0x13, 0x93, 0x53, 0xd3, 0x33, 0xb3, 0x73, 0xf3,
     0x0b, 0x8b, 0x4b, 0xcb, 0x2b, 0xab, 0x6b, 0xeb, 0x1b, 0x9b, 0x5b, 0xdb, 0x3b, 0xbb, 0x7b, 0xfb,
     0x07, 0x87, 0x47, 0xc7, 0x27, 0xa7, 0x67, 0xe7, 0x17, 0x97, 0x57, 0xd7, 0x37, 0xb7, 0x77, 0xf7,
     0x0f, 0x8f, 0x4f, 0xcf, 0x2f, 0xaf, 0x6f, 0xef, 0x1f, 0x9f, 0x5f, 0xdf, 0x3f, 0xbf, 0x7f, 0xff]"

definition reverse_byte :: "u8 \<Rightarrow> u8" where
  "reverse_byte b = reverse_byte_LUT8 ! unat b"

text \<open>The body of the loop of \<open>reverse_buffer\<close> on one 32-bit word.\<close>

definition reverse_word :: "u32 \<Rightarrow> u32" where
  "reverse_word n =
     (let n = drop_bit 4 (n AND 0xF0F0F0F0) OR push_bit 4 (n AND 0x0F0F0F0F);
          n = drop_bit 2 (n AND 0xCCCCCCCC) OR push_bit 2 (n AND 0x33333333)
      in drop_bit 1 (n AND 0xAAAAAAAA) OR push_bit 1 (n AND 0x55555555))"

text \<open>\<open>buffer[i]\<close> of a \<open>uint32_t *\<close>: four bytes, little endian.\<close>

fun reverse_buffer :: "bytes \<Rightarrow> nat \<Rightarrow> bytes" where
  "reverse_buffer buffer 0 = buffer"
| "reverse_buffer buffer (Suc count) =
     put_le32 (reverse_word (le32 buffer 0)) @ reverse_buffer (drop 4 buffer) count"


section \<open>The standards, bit by bit\<close>

text \<open>The bits of a byte in the order they are sent, most significant first.\<close>

definition byte_bits :: "u8 \<Rightarrow> bool list" where
  "byte_bits b = map (bit b) [7, 6, 5, 4, 3, 2, 1, 0]"

text \<open>The shift registers of the SD specification: \<open>x^7 + x^3 + 1\<close> on 7 bits, \<open>x^16 + x^12 + x^5 + 1\<close> on 16 bits.\<close>

definition lfsr7 :: "u8 \<Rightarrow> bool \<Rightarrow> u8" where
  "lfsr7 r b = (push_bit 1 r AND 0x7F) XOR (if bit r 6 \<noteq> b then 0x09 else 0)"

definition lfsr16 :: "u16 \<Rightarrow> bool \<Rightarrow> u16" where
  "lfsr16 r b = push_bit 1 r XOR (if bit r 15 \<noteq> b then 0x1021 else 0)"

definition spec_crc7 :: "bytes \<Rightarrow> u8" where
  "spec_crc7 msg = foldl lfsr7 0 (concat (map byte_bits msg))"

definition spec_crc16 :: "bytes \<Rightarrow> u16" where
  "spec_crc16 msg = foldl lfsr16 0 (concat (map byte_bits msg))"

section \<open>CRC-7\<close>

lemma lfsr7_xor: "lfsr7 (r XOR r') (b = (\<not> b')) = lfsr7 r b XOR lfsr7 r' b'"
  by (rule bit_word_eqI) (auto simp: lfsr7_def bit_simps)

definition lfsr7_byte :: "u8 \<Rightarrow> u8 \<Rightarrow> u8" where
  "lfsr7_byte r b = foldl lfsr7 r (byte_bits b)"

lemma lfsr7_byte_xor: "lfsr7_byte (r XOR r') (b XOR b') = lfsr7_byte r b XOR lfsr7_byte r' b'"
  by (simp add: lfsr7_byte_def byte_bits_def bit_xor_iff lfsr7_xor)

lemma lfsr7_byte_add: "lfsr7_byte 0 (b XOR b') = lfsr7_byte 0 b XOR lfsr7_byte 0 b'"
  using lfsr7_byte_xor [of 0 0 b b'] by simp

lemma basis7: "map (lfsr7_byte 0) [0x80, 0x40, 0x20, 0x10, 8, 4, 2, 1] = [0x41, 0x64, 0x32, 0x19, 0x48, 0x24, 0x12, 0x09]"
  by (simp add: lfsr7_byte_def byte_bits_def lfsr7_def)

lemma table_span: "crc7_table = xor_span [0x41, 0x64, 0x32, 0x19, 0x48, 0x24, 0x12, 0x09]"
  by (simp add: crc7_table_def)


lemma crc7_table_lookup: "crc7_table ! unat x = lfsr7_byte 0 x"
  and crc7_table_map: "crc7_table = map (\<lambda>i. lfsr7_byte 0 (of_nat i)) [0..<256]"
  using table_lookup [of "lfsr7_byte 0" crc7_table, OF lfsr7_byte_add] basis7 table_span by simp_all

lemma and_80: "(x :: u8) AND 0x80 = 0 \<longleftrightarrow> \<not> bit x 7"
  using bit_iff_and_push_bit_not_eq_0 [of x 7] by simp

lemma cond_xor:
  fixes x y p :: "'a::len word"
  shows "(if bit (x XOR y) k then (x XOR y) XOR p else x XOR y)
      = (if bit x k then x XOR p else x) XOR (if bit y k then y XOR p else y)"
  by (rule bit_word_eqI) (auto simp: bit_simps)

lemma funpow_xor:
  fixes f :: "'a::len word \<Rightarrow> 'a word"
  assumes "\<And>x y. f (x XOR y) = f x XOR f y"
  shows "(f ^^ n) (x XOR y) = (f ^^ n) x XOR (f ^^ n) y"
  by (induction n) (auto simp: assms)

lemma table_item_xor: "table_item (x XOR y) = table_item x XOR table_item y"
proof -
  have "table_shift (x XOR y) = table_shift x XOR table_shift y" for x y
    by (simp add: table_shift_def Let_def and_80 push_bit_xor cond_xor)
  then show ?thesis by (simp add: table_item_def and_80 cond_xor funpow_xor)
qed

lemma runtime_shift_xor: "runtime_shift (x XOR y) = runtime_shift x XOR runtime_shift y"
  unfolding runtime_shift_def and_80 by (rule bit_word_eqI) (auto simp: bit_simps)

lemma table_item_lfsr: "table_item x = lfsr7_byte 0 x"
proof (rule xor_additive_eq [where len = 8, OF table_item_xor lfsr7_byte_add])
  show "\<forall>i \<in> set [0..<8]. table_item (push_bit i 1) = lfsr7_byte 0 (push_bit i 1)"
    by (simp only: all_8) (simp add: table_item_def table_shift_def crc7_poly_def Let_def funpow_7_8 lfsr7_byte_def byte_bits_def lfsr7_def)
qed simp

lemma runtime_lfsr: "(runtime_shift ^^ 8) x = push_bit 1 (lfsr7_byte 0 x)"
proof (rule xor_additive_eq [where len = 8, OF funpow_xor [OF runtime_shift_xor]])
  show "\<forall>i \<in> set [0..<8]. (runtime_shift ^^ 8) (push_bit i 1) = push_bit 1 (lfsr7_byte 0 (push_bit i 1))"
    by (simp only: all_8) (simp add: runtime_shift_def crc7_poly_def lfsr7_byte_def byte_bits_def lfsr7_def funpow_7_8)
qed (simp_all add: lfsr7_byte_add push_bit_xor)

lemma lfsr7_shift_in: "lfsr7_byte r b = lfsr7_byte 0 (push_bit 1 r XOR b)"
proof -
  have "lfsr7_byte r 0 = lfsr7_byte 0 (push_bit 1 r)"
  proof (rule xor_additive_eq [where len = 8 and f = "\<lambda>r. lfsr7_byte r 0"])
    show "\<forall>i \<in> set [0..<8]. lfsr7_byte (push_bit i 1) 0 = lfsr7_byte 0 (push_bit 1 (push_bit i 1))"
      by (simp only: all_8) (simp add: lfsr7_byte_def byte_bits_def lfsr7_def)
    show "lfsr7_byte (x XOR y) 0 = lfsr7_byte x 0 XOR lfsr7_byte y 0" for x y
      using lfsr7_byte_xor [of x y 0 0] by simp
  qed (simp_all add: lfsr7_byte_add push_bit_xor)
  then show ?thesis using lfsr7_byte_xor [of r 0 0 b] by (simp add: lfsr7_byte_add)
qed

lemma lfsr7_no_bit7: "\<not> bit (lfsr7 r b) 7"
  by (simp add: lfsr7_def bit_simps)

lemma lfsr7_byte_no_bit7: "\<not> bit (lfsr7_byte r b) 7"
  by (simp add: lfsr7_byte_def byte_bits_def lfsr7_no_bit7)

lemma crc7_index_eq: "\<not> bit r 7 \<Longrightarrow> crc7_index r b = unat (push_bit 1 r XOR b)"
proof -
  assume "\<not> bit r 7"
  then have "bit r n \<Longrightarrow> n < 7" for n using bit_imp_le_length [of r n] by (cases "n = 7") auto
  then have "r = take_bit 7 r" by (intro bit_word_eqI) (auto simp: bit_take_bit_iff)
  then have "unat r = take_bit 7 (unat r)" by (metis unsigned_take_bit_eq)
  then have "unat r < 128" using take_bit_nat_less_exp [of 7 "unat r"] by simp
  then have "unat (push_bit 1 r) = 2 * unat r"
    using unsigned_push_bit_eq [of 1 r, where ?'a = nat] by (simp add: take_bit_nat_eq_self push_bit_eq_mult)
  then show ?thesis by (simp add: crc7_index_def unsigned_xor_eq)
qed

lemma get_item_lfsr: "\<not> bit r 7 \<Longrightarrow> crc7_get_item r b = lfsr7_byte r b"
  by (simp add: crc7_get_item_def crc7_index_eq crc7_table_lookup lfsr7_shift_in [of r b])

lemma spec_crc7_fold: "spec_crc7 msg = foldl lfsr7_byte 0 msg"
proof -
  have "foldl lfsr7 r (concat (map byte_bits msg)) = foldl lfsr7_byte r msg" for r
    by (induction msg arbitrary: r) (simp_all add: lfsr7_byte_def)
  then show ?thesis by (simp add: spec_crc7_def)
qed

lemma crc7_folds:
  "\<not> bit r 7 \<Longrightarrow> foldl crc7_get_item r msg = foldl lfsr7_byte r msg \<and> \<not> bit (foldl lfsr7_byte r msg) 7
     \<and> foldl runtime_byte (push_bit 1 r) msg = push_bit 1 (foldl lfsr7_byte r msg)"
proof (induction msg arbitrary: r)
  case (Cons b msg)
  have "runtime_byte (push_bit 1 r) b = push_bit 1 (lfsr7_byte r b)"
    by (simp add: runtime_byte_def runtime_lfsr lfsr7_shift_in [of r b])
  then show ?case using Cons by (simp add: get_item_lfsr lfsr7_byte_no_bit7)
qed simp


section \<open>CRC-16\<close>

text \<open>The register without input, and the register with a word already mixed in.\<close>

abbreviation lfsr16_free :: "u16 \<Rightarrow> u16" where "lfsr16_free r \<equiv> lfsr16 r False"

definition lfsr16_word :: "u16 \<Rightarrow> u16 \<Rightarrow> u16" where
  "lfsr16_word r w = foldl lfsr16 r (map (bit w) (rev [0..<16]))"

lemma lfsr16_mix: "lfsr16_free (r XOR w) = lfsr16 r (bit w 15) XOR push_bit 1 w"
  by (rule bit_word_eqI) (auto simp: lfsr16_def bit_simps)

lemma lfsr16_mix_bits:
  "n \<le> 16 \<Longrightarrow> (lfsr16_free ^^ n) (r XOR w) = foldl lfsr16 r (map (bit w) (rev [16 - n..<16])) XOR push_bit n w"
proof (induction n)
  case (Suc n)
  have "16 - n = Suc (15 - n)" "16 - Suc n = 15 - n" using Suc.prems by simp_all
  then have "[16 - Suc n..<16] = (15 - n) # [16 - n..<16]" using upt_conv_Cons [of "15 - n" 16] by simp
  moreover have "bit (push_bit n w) 15 = bit w (15 - n)" using Suc.prems by (simp add: bit_simps)
  ultimately show ?case using Suc by (simp add: lfsr16_mix)
qed simp

lemma lfsr16_word_mix: "lfsr16_word r w = (lfsr16_free ^^ 16) (r XOR w)"
proof -
  have "push_bit 16 w = 0" by (rule bit_word_eqI) (auto simp: bit_simps)
  then show ?thesis using lfsr16_mix_bits [of 16 r w] by (simp add: lfsr16_word_def)
qed

lemma lfsr16_free_xor: "lfsr16_free (x XOR y) = lfsr16_free x XOR lfsr16_free y"
  by (rule bit_word_eqI) (auto simp: lfsr16_def bit_simps)

lemma lfsr16_basis: "(lfsr16_free ^^ 16) 1 = 0x1021"
  and lfsr16_basis_Suc: "i < 15 \<Longrightarrow> (lfsr16_free ^^ 16) (push_bit (Suc i) 1) = lfsr16_free ((lfsr16_free ^^ 16) (push_bit i 1))"
proof -
  have step: "lfsr16_free (push_bit i 1) = push_bit (Suc i) 1" if "i < 15" for i
    using that by (intro bit_word_eqI) (auto simp: lfsr16_def bit_simps simp del: push_bit_Suc push_bit_of_1)
  show "(lfsr16_free ^^ 16) (push_bit (Suc i) 1) = lfsr16_free ((lfsr16_free ^^ 16) (push_bit i 1))" if "i < 15"
    by (simp only: step [OF that, symmetric] funpow_swap1 [of lfsr16_free])
  have "(lfsr16_free ^^ i) 1 = push_bit i 1" if "i \<le> 15" for i
    using that by (induction i) (simp_all add: step del: push_bit_of_1)
  from this [of 15] have "(lfsr16_free ^^ 15) 1 = 0x8000" by simp
  then have "(lfsr16_free ^^ Suc 15) 1 = lfsr16_free 0x8000" by (simp only: funpow.simps comp_apply)
  also have "\<dots> = 0x1021" by (simp add: lfsr16_def)
  finally show "(lfsr16_free ^^ 16) 1 = 0x1021" by simp
qed

text \<open>The loop body reads the accumulator and the data only through their exclusive or.\<close>

definition crc16_fold :: "nat \<Rightarrow> u32 \<Rightarrow> u32 \<Rightarrow> u32" where
  "crc16_fold n m q = q XOR (drop_bit n q AND m)"

definition crc16_spread :: "u32 \<Rightarrow> u32" where
  "crc16_spread q = q XOR push_bit 5 q XOR push_bit 12 q"

definition crc16_mix :: "u32 \<Rightarrow> u32" where
  "crc16_mix q = crc16_spread (crc16_fold 4 0xF (crc16_fold 11 0x1F (crc16_fold 4 0xF0 (crc16_fold 4 0xF00 q))))"

lemma crc16_step_mix: "crc16_step p d = crc16_mix (p XOR d)"
  by (simp add: crc16_step_def crc16_mix_def crc16_fold_def crc16_spread_def Let_def xor.assoc xor.left_commute xor.commute)

lemma crc16_fold_xor: "crc16_fold n m (x XOR y) = crc16_fold n m x XOR crc16_fold n m y"
  unfolding crc16_fold_def by (rule bit_word_eqI) (auto simp: bit_simps)

lemma crc16_spread_xor: "crc16_spread (x XOR y) = crc16_spread x XOR crc16_spread y"
  unfolding crc16_spread_def by (rule bit_word_eqI) (auto simp: bit_simps)

lemma crc16_mix_xor: "crc16_mix (x XOR y) = crc16_mix x XOR crc16_mix y"
  by (simp add: crc16_mix_def crc16_fold_xor crc16_spread_xor)

lemma ucast_xor: "(ucast (x XOR y :: 'a::len word) :: 'b::len word) = ucast x XOR ucast y"
  by (rule bit_word_eqI) (auto simp: bit_simps)

lemma mix_basis_Suc:
  "\<forall>i \<in> set [0..<15]. ucast (crc16_mix (push_bit (Suc i) 1)) = lfsr16_free (ucast (crc16_mix (push_bit i 1)))"
  by (simp only: all_15) (simp add: crc16_mix_def crc16_fold_def crc16_spread_def lfsr16_def)

lemma mix_basis_high: "\<forall>i \<in> set [16..<32]. ucast (crc16_mix (push_bit i 1)) = (0 :: u16)"
  by (simp only: all_16_32) (simp add: crc16_mix_def crc16_fold_def crc16_spread_def)

lemma mix_lfsr: "ucast (crc16_mix q) = (lfsr16_free ^^ 16) (ucast q)"
proof (rule xor_additive_eq [where len = 32 and x = q and f = "\<lambda>q. ucast (crc16_mix q)" and g = "\<lambda>q. (lfsr16_free ^^ 16) (ucast q)"])
  have "(ucast (crc16_mix (push_bit i 1)) :: u16) = (lfsr16_free ^^ 16) (ucast (push_bit i 1 :: u32))" if "i < 32" for i
  proof (cases "i < 16")
    case True
    then have "ucast (crc16_mix (push_bit i 1)) = (lfsr16_free ^^ 16) (push_bit i 1)"
    proof (induction i)
      case 0
      have "ucast (crc16_mix 1) = (0x1021 :: u16)"
        by (simp add: crc16_mix_def crc16_fold_def crc16_spread_def)
      then show ?case using lfsr16_basis by simp
    next
      case (Suc i)
      then have "i \<in> set [0..<15]" by (auto simp only: set_upt atLeastLessThan_iff)
      then show ?case using Suc mix_basis_Suc lfsr16_basis_Suc [of i] by (simp del: push_bit_Suc push_bit_of_1 funpow.simps)
    qed
    moreover have "ucast (push_bit i 1 :: u32) = (push_bit i 1 :: u16)"
      by (rule bit_word_eqI) (auto simp: bit_simps)
    ultimately show ?thesis by simp
  next
    case False
    then have "i \<in> set [16..<32]" using that by (auto simp only: set_upt atLeastLessThan_iff)
    with mix_basis_high have "ucast (crc16_mix (push_bit i 1)) = (0 :: u16)" by blast
    moreover have "ucast (push_bit i 1 :: u32) = (0 :: u16)"
      using False by (intro bit_word_eqI) (auto simp: bit_simps)
    moreover have "(lfsr16_free ^^ n) 0 = 0" for n by (induction n) (simp_all add: lfsr16_def)
    ultimately show ?thesis by simp
  qed
  then show "\<forall>i \<in> set [0..<32]. (ucast (crc16_mix (push_bit i 1)) :: u16) = (lfsr16_free ^^ 16) (ucast (push_bit i 1 :: u32))"
    by (intro ballI) (simp only: set_upt atLeastLessThan_iff)
  show "(ucast (crc16_mix (x XOR y)) :: u16) = ucast (crc16_mix x) XOR ucast (crc16_mix y)" for x y
    by (simp only: crc16_mix_xor ucast_xor)
  show "(lfsr16_free ^^ 16) (ucast (x XOR y)) = (lfsr16_free ^^ 16) (ucast x) XOR (lfsr16_free ^^ 16) (ucast y)" for x y :: u32
    by (simp only: ucast_xor funpow_xor [of lfsr16_free, OF lfsr16_free_xor])
qed simp

lemma swap_bytes: "ucast (crc16_swap (le16 [b0, b1] 0)) = (push_bit 8 (ucast b0) OR ucast b1 :: u16)"
proof (rule bit_word_eqI)
  fix n :: nat assume "n < LENGTH(16)"
  then have "n < 16" by simp
  moreover have "crc16_swap w = (push_bit 8 (ucast w) AND push_bit 8 (mask 8)) OR (drop_bit 8 (ucast w) AND mask 8)" for w
    by (simp add: crc16_swap_def mask_eq_exp_minus_1)
  ultimately show "bit (ucast (crc16_swap (le16 [b0, b1] 0)) :: u16) n = bit (push_bit 8 (ucast b0) OR ucast b1 :: u16) n"
    by (auto simp: le16_def bit_simps not_le dest: bit_imp_le_length)
qed

lemma lfsr16_two_bytes:
  "foldl lfsr16 r (byte_bits b0 @ byte_bits b1) = lfsr16_word r (push_bit 8 (ucast b0) OR ucast b1)"
proof -
  have "rev [0..<16] = [15, 14, 13, 12, 11, 10, 9, 8, 7, 6, 5, 4, 3, 2, 1, 0 :: nat]"
    by (simp add: upt_rec eval_nat_numeral)
  moreover have "\<not> bit (b :: u8) n" if "8 \<le> n" for b n using bit_imp_le_length [of b n] that by auto
  ultimately have "byte_bits b0 @ byte_bits b1 = map (bit (push_bit 8 (ucast b0) OR ucast b1 :: u16)) (rev [0..<16])"
    by (simp add: byte_bits_def bit_or_iff bit_push_bit_iff bit_ucast_iff)
  then show ?thesis by (simp add: lfsr16_word_def)
qed

lemma crc16_loop_spec:
  "ucast (crc16_loop poly buf)
     = foldl lfsr16 (ucast poly) (concat (map byte_bits (take (2 * (length buf div 2)) buf)))"
proof (induction poly buf rule: crc16_loop.induct)
  case (1 poly b0 b1 bs)
  have "ucast (crc16_step poly (crc16_swap (le16 [b0, b1] 0)))
      = foldl lfsr16 (ucast poly) (byte_bits b0 @ byte_bits b1)"
    by (simp only: crc16_step_mix mix_lfsr ucast_xor swap_bytes lfsr16_two_bytes lfsr16_word_mix)
  then show ?case using 1 by simp
qed simp_all

section \<open>Bit reversal\<close>

lemma word_reverse_xor: "word_reverse (x XOR y) = word_reverse x XOR word_reverse (y :: 'a::len word)"
  by (rule bit_word_eqI) (auto simp: bit_simps)

lemma reverse_span: "reverse_byte_LUT8 = xor_span [1, 2, 4, 8, 0x10, 0x20, 0x40, 0x80]"
  by (simp add: reverse_byte_LUT8_def)

lemma word_reverse_basis:
  "map word_reverse [0x80, 0x40, 0x20, 0x10, 8, 4, 2, 1 :: u8] = [1, 2, 4, 8, 0x10, 0x20, 0x40, 0x80]"
  by (simp add: word_reverse_def upt_rec eval_nat_numeral)

lemma reverse_byte_eq [simp]: "reverse_byte b = word_reverse b"
  using table_lookup(1) [of word_reverse reverse_byte_LUT8, OF word_reverse_xor] reverse_span word_reverse_basis
  by (simp add: reverse_byte_def)

text \<open>The word routine reverses each of its four bytes in place.\<close>

lemma put_le32_le32: "put_le32 (le32 [a, b, c, d] 0) = [a, b, c, d]"
proof -
  have high: "\<not> bit (x :: u8) n" if "8 \<le> n" for x n using bit_imp_le_length [of x n] that by auto
  note bits = bit_le32 [of _ "[a, b, c, d]" 0]
  have "ucast (le32 [a, b, c, d] 0) = a" "ucast (drop_bit 8 (le32 [a, b, c, d] 0)) = b"
    "ucast (drop_bit 16 (le32 [a, b, c, d] 0)) = c" "ucast (drop_bit 24 (le32 [a, b, c, d] 0)) = d"
    by (rule bit_word_eqI; simp add: bit_ucast_iff bit_drop_bit_eq bits)+
  then show ?thesis by (simp add: put_le32_def)
qed

lemma reverse_word_lanes: "reverse_word n = le32 (map word_reverse (put_le32 n)) 0"
proof (rule bit_word_eqI)
  have "\<forall>p \<in> set [0..<32]. bit (reverse_word n) p = bit (le32 (map word_reverse (put_le32 n)) 0) p"
    by (simp only: all_32) (simp add: reverse_word_def Let_def le32_def le16_def put_le32_def bit_simps del: push_bit_Suc)
  then show "bit (reverse_word n) p = bit (le32 (map word_reverse (put_le32 n)) 0) p" if "p < LENGTH(32)" for p
    using that by (simp only: set_upt atLeastLessThan_iff) simp
qed

lemma reverse_four: "put_le32 (reverse_word (le32 (a # b # c # d # bs) 0)) = map reverse_byte [a, b, c, d]"
proof -
  have "le32 (a # b # c # d # bs) 0 = le32 [a, b, c, d] 0" by (simp add: le32_def le16_def)
  then show ?thesis by (simp add: reverse_word_lanes put_le32_le32)
qed

lemma reverse_buffer_eq:
  "4 * count \<le> length buffer \<Longrightarrow> reverse_buffer buffer count = map reverse_byte (take (4 * count) buffer) @ drop (4 * count) buffer"
proof (induction buffer count rule: reverse_buffer.induct)
  case (2 buffer count)
  then obtain a b c d bs where "buffer = a # b # c # d # bs"
    by (auto simp: Suc_le_length_iff eval_nat_numeral)
  moreover have "4 * Suc count = Suc (Suc (Suc (Suc (4 * count))))" by simp
  ultimately show ?case using 2 by (simp add: reverse_four del: mult_Suc_right)
qed simp

lemma reverse_buffer_all: "length buffer = 4 * count \<Longrightarrow> reverse_buffer buffer count = map reverse_byte buffer"
  by (simp add: reverse_buffer_eq)

section \<open>Properties\<close>

text \<open>C36. The CRC-7 of a command packet is the one of the SD specification (the shift register of \<open>x^7 + x^3 + 1\<close>
  over the bits, most significant first), computed by the table that is compiled and by the run-time variant alike;
  the table is the one \<open>crc7_generate_table\<close> builds, and no lookup leaves it.\<close>

theorem crc7_correct:
  "crc7 message = spec_crc7 message \<and> crc7_runtime message = spec_crc7 message
   \<and> crc7_generate_table = crc7_table \<and> crc7_index (crc7 message) b < length crc7_table"
proof -
  define r where "r = foldl lfsr7_byte 0 message"
  have r: "foldl crc7_get_item 0 message = r" "\<not> bit r 7" "foldl runtime_byte 0 message = push_bit 1 r"
    using crc7_folds [of 0 message] by (simp_all add: r_def)
  have "drop_bit 1 (push_bit 1 r) = r"
  proof (rule bit_word_eqI)
    show "bit (drop_bit 1 (push_bit 1 r)) n = bit r n" if "n < LENGTH(8)" for n
      using r(2) that by (cases "n = 7") (auto simp: bit_simps simp del: push_bit_Suc drop_bit_Suc)
  qed
  then have "crc7_runtime message = r" using r(3) by (simp only: crc7_runtime_def)
  moreover have "crc7_generate_table = crc7_table"
    using crc7_table_map by (simp add: crc7_generate_table_def table_item_lfsr)
  moreover have "length crc7_table = 256" by (simp add: crc7_table_def)
  moreover have "crc7_index r b < 256" using crc7_index_eq [OF r(2), of b] unat_bound [of 8 "push_bit 1 r XOR b"] by simp
  ultimately show ?thesis using r(1) by (simp add: crc7_def spec_crc7_fold r_def)
qed

text \<open>The CRC-16 of a data block is the one of the SD specification (the shift register of \<open>x^16 + x^12 + x^5 + 1\<close>
  over the bits of the bytes in order), although the routine works on byte-swapped half-words and lets the upper half of
  its accumulator fill with stray bits; an odd last byte is not covered.\<close>

theorem crc16_correct:
  "crc16 buf = spec_crc16 (take (2 * (length buf div 2)) buf)"
  using crc16_loop_spec [of 0 buf] by (simp add: crc16_def spec_crc16_def)

text \<open>Reversing a buffer word by word reverses the bits of each of its bytes and moves no byte, agrees with the
  byte table, and undoes itself: the driver reverses the caller's buffer before a write and restores it afterwards.\<close>

theorem reverse_buffer_involution:
  assumes "length buffer = 4 * count"
  shows "reverse_buffer buffer count = map reverse_byte buffer
       \<and> (\<forall>i < length buffer. \<forall>k < 8. bit (reverse_buffer buffer count ! i) k = bit (buffer ! i) (7 - k))
       \<and> reverse_buffer (reverse_buffer buffer count) count = buffer"
  using assms by (auto simp: reverse_buffer_all bit_word_reverse_iff comp_def)

theorem reverse_buffer_involution_witness:
  "reverse_buffer [0x01, 0xFE, 0x80, 0x12] 1 = [0x80, 0x7F, 0x01, 0x48]
   \<and> reverse_buffer [0x80, 0x7F, 0x01, 0x48] 1 = [0x01, 0xFE, 0x80, 0x12]"
proof -
  have "reverse_buffer [0x01, 0xFE, 0x80, 0x12] 1 = [0x80, 0x7F, 0x01, 0x48]"
    by (simp add: reverse_word_def Let_def le32_def le16_def put_le32_def)
  then show ?thesis using reverse_buffer_involution [of "[0x01, 0xFE, 0x80, 0x12]" 1] by simp
qed

end
