(* ===== verification/Sd_Bus.thy ===== *)
theory Sd_Bus
  imports Sd_Codec Block_Device
begin

text \<open>
  The byte level of the SD card driver: the transfers of the SIO2 port (\<open>mx4sio.c\<close>) and the commands built from them
  (\<open>spisd_send_cmd\<close>, \<open>spisd_send_cmd_recv_data\<close>, \<open>spisd_read_register\<close> of \<open>spi_sdcard_driver.c\<close>). The port's registers
  and the card behind them are a parameter; the locale \<open>sd_card\<close> states what the SD specification promises of a card in
  SPI mode as a phase machine over the bytes on the wire.
\<close>

section \<open>The port\<close>

text \<open>
  The hardware: \<open>sio_exec\<close> resets the port (\<open>ctrl = 0x0bc\<close>), loads the queue and the transmit FIFO and starts execution;
  \<open>sio_exec_dma\<close> does the same for a queue served by the DMA channel (with the memory to send, if any); \<open>sio_dma_data\<close> is
  what the channel has stored in memory when its completion interrupt is raised; \<open>sio_irqs\<close> says how many completion
  interrupts are taken before the thread's next access. Bytes in the FIFOs and in memory are as the port shifts them, least
  significant bit first.
\<close>

record 'h sio2_port =
  sio_port_ctrl :: "nat \<Rightarrow> u32 \<Rightarrow> u32 \<Rightarrow> 'h \<Rightarrow> 'h"
  sio_exec :: "u32 list \<Rightarrow> bytes \<Rightarrow> 'h \<Rightarrow> 'h"
  sio_stat6c :: "'h \<Rightarrow> u32 \<times> 'h"
  sio_data_in :: "'h \<Rightarrow> u8 \<times> 'h"
  sio_exec_dma :: "u32 list \<Rightarrow> bytes option \<Rightarrow> 'h \<Rightarrow> 'h"
  sio_dma_data :: "'h \<Rightarrow> bytes \<times> 'h"
  sio_irqs :: "'h \<Rightarrow> nat \<times> 'h"
  sio_lock :: "'h \<Rightarrow> 'h"
  sio_unlock :: "'h \<Rightarrow> 'h"

abbreviation SPISD_RESULT_OK :: u8 where "SPISD_RESULT_OK \<equiv> 0"
abbreviation SPISD_RESULT_ERROR :: u8 where "SPISD_RESULT_ERROR \<equiv> 1"
abbreviation SPISD_RESULT_TIMEOUT :: u8 where "SPISD_RESULT_TIMEOUT \<equiv> 3"

text \<open>The descriptor of one queue entry (the \<open>TR_CTRL\<close> macros of \<open>sio2regs.h\<close>): port 3, normal transfer, second baud
  divider, DMA flags and the two sizes.\<close>

definition tr_ctrl :: "u32 \<Rightarrow> u32 \<Rightarrow> u32 \<Rightarrow> u32 \<Rightarrow> u32" where
  "tr_ctrl txdma rxdma txsz rxsz =
     (3 AND 0x3) OR push_bit 4 (txdma AND 1) OR push_bit 5 (rxdma AND 1) OR push_bit 6 1
       OR push_bit 8 (txsz AND 0x1FF) OR push_bit 18 (rxsz AND 0x1FF) OR push_bit 30 1"

text \<open>\<open>mx_sio2_wait_transfer_complete\<close>: poll until the idle bit is set, at most \<open>SIO2_STAT_TIMEOUT\<close> more times.\<close>

fun wait_transfer_complete :: "'h sio2_port \<Rightarrow> nat \<Rightarrow> 'h \<Rightarrow> bool \<times> 'h" where
  "wait_transfer_complete port timeout h =
     (case sio_stat6c port h of (s, h') \<Rightarrow>
        if bit s 12 then (True, h')
        else case timeout of 0 \<Rightarrow> (False, h') | Suc t \<Rightarrow> wait_transfer_complete port t h')"

definition mx_sio2_wait_transfer_complete :: "'h sio2_port \<Rightarrow> 'h \<Rightarrow> bool \<times> 'h" where
  "mx_sio2_wait_transfer_complete port h = wait_transfer_complete port 0x100000 h"

fun data_in_n :: "'h sio2_port \<Rightarrow> nat \<Rightarrow> 'h \<Rightarrow> bytes \<times> 'h" where
  "data_in_n port 0 h = ([], h)"
| "data_in_n port (Suc n) h =
     (case sio_data_in port h of (b, h') \<Rightarrow> case data_in_n port n h' of (bs, h'') \<Rightarrow> (b # bs, h''))"

text \<open>The block every programmed transfer repeats: one descriptor, start, wait, empty the receive FIFO.\<close>

definition pio_transfer :: "'h sio2_port \<Rightarrow> bytes \<Rightarrow> nat \<Rightarrow> 'h \<Rightarrow> bytes option \<times> 'h" where
  "pio_transfer port tx rxsz h =
     (case mx_sio2_wait_transfer_complete port
             (sio_exec port [tr_ctrl 0 0 (of_nat (length tx)) (of_nat rxsz), 0] tx h) of (ok, h') \<Rightarrow>
        if ok then case data_in_n port rxsz h' of (bs, h'') \<Rightarrow> (Some bs, h'') else (None, h'))"

definition mx_sio2_write_byte :: "'h sio2_port \<Rightarrow> u8 \<Rightarrow> 'h \<Rightarrow> u8 \<times> 'h" where
  "mx_sio2_write_byte port byte h =
     (case pio_transfer port [reverse_byte byte] 1 h of
        (None, h') \<Rightarrow> (0xFF, h') | (Some bs, h') \<Rightarrow> (reverse_byte (bs ! 0), h'))"

definition mx_sio2_write_dummy :: "'h sio2_port \<Rightarrow> 'h \<Rightarrow> u8 \<times> 'h" where
  "mx_sio2_write_dummy port h =
     (case pio_transfer port [0xFF] 1 h of
        (None, h') \<Rightarrow> (0xFF, h') | (Some bs, h') \<Rightarrow> (reverse_byte (bs ! 0), h'))"

text \<open>The three polling loops; the counter is the number of bytes still to be read.\<close>

fun wait_equal_loop :: "'h sio2_port \<Rightarrow> u8 \<Rightarrow> u8 \<Rightarrow> nat \<Rightarrow> 'h \<Rightarrow> u8 \<times> 'h" where
  "wait_equal_loop port exp_byte in_byte count h =
     (if count > 0 \<and> in_byte \<noteq> exp_byte
      then case pio_transfer port [] 1 h of
             (None, h') \<Rightarrow> (SPISD_RESULT_TIMEOUT, h')
           | (Some bs, h') \<Rightarrow> wait_equal_loop port exp_byte (bs ! 0) (count - 1) h'
      else (if exp_byte \<noteq> in_byte then SPISD_RESULT_ERROR else SPISD_RESULT_OK, h))"

definition mx_sio2_wait_equal :: "'h sio2_port \<Rightarrow> u8 \<Rightarrow> nat \<Rightarrow> 'h \<Rightarrow> u8 \<times> 'h" where
  "mx_sio2_wait_equal port value count h = wait_equal_loop port (reverse_byte value) 0 count h"

fun wait_not_equal_loop :: "'h sio2_port \<Rightarrow> u8 \<Rightarrow> u8 \<Rightarrow> nat \<Rightarrow> 'h \<Rightarrow> u8 \<times> 'h" where
  "wait_not_equal_loop port exp_byte in_byte count h =
     (if count > 0 \<and> in_byte = exp_byte
      then case pio_transfer port [] 1 h of
             (None, h') \<Rightarrow> (0xFF, h')
           | (Some bs, h') \<Rightarrow> wait_not_equal_loop port exp_byte (bs ! 0) (count - 1) h'
      else (reverse_byte in_byte, h))"

definition mx_sio2_wait_not_equal :: "'h sio2_port \<Rightarrow> u8 \<Rightarrow> nat \<Rightarrow> 'h \<Rightarrow> u8 \<times> 'h" where
  "mx_sio2_wait_not_equal port value count h =
     wait_not_equal_loop port (reverse_byte value) (reverse_byte value) count h"

fun wait_masked_loop :: "'h sio2_port \<Rightarrow> u8 \<Rightarrow> u8 \<Rightarrow> u8 \<Rightarrow> nat \<Rightarrow> 'h \<Rightarrow> u8 \<times> 'h" where
  "wait_masked_loop port exp_byte rev_mask in_byte count h =
     (if count > 0 \<and> in_byte \<noteq> exp_byte
      then case pio_transfer port [] 1 h of
             (None, h') \<Rightarrow> (0xFF, h')
           | (Some bs, h') \<Rightarrow> wait_masked_loop port exp_byte rev_mask ((bs ! 0) AND rev_mask) (count - 1) h'
      else (reverse_byte in_byte, h))"

definition mx_sio2_wait_equal_masked :: "'h sio2_port \<Rightarrow> u8 \<Rightarrow> u8 \<Rightarrow> nat \<Rightarrow> 'h \<Rightarrow> u8 \<times> 'h" where
  "mx_sio2_wait_equal_masked port value msk count h =
     wait_masked_loop port (reverse_byte value) (reverse_byte msk) 0 count h"

text \<open>\<open>mx_sio2_rx_pio\<close> and \<open>mx_sio2_tx_pio\<close>: pieces of at most 256 bytes. The receive loop returns what it stored.\<close>

declare wait_transfer_complete.simps [simp del] wait_equal_loop.simps [simp del]
  wait_not_equal_loop.simps [simp del] wait_masked_loop.simps [simp del]

function mx_sio2_rx_pio :: "'h sio2_port \<Rightarrow> nat \<Rightarrow> 'h \<Rightarrow> u8 \<times> bytes \<times> 'h" where
  "mx_sio2_rx_pio port sz h =
     (if sz > 0 then
        let transfer_size = (if sz > 256 then 256 else sz) in
        case pio_transfer port [] transfer_size h of
          (None, h') \<Rightarrow> (SPISD_RESULT_TIMEOUT, [], h')
        | (Some bs, h') \<Rightarrow>
            (case mx_sio2_rx_pio port (sz - transfer_size) h' of (r, rest, h'') \<Rightarrow> (r, map reverse_byte bs @ rest, h''))
      else (SPISD_RESULT_OK, [], h))"
  by pat_completeness auto
termination by (relation "measure (\<lambda>(_, sz, _). sz)") (auto split: if_splits)

function mx_sio2_tx_pio :: "'h sio2_port \<Rightarrow> bytes \<Rightarrow> 'h \<Rightarrow> u8 \<times> 'h" where
  "mx_sio2_tx_pio port buffer h =
     (if length buffer > 0 then
        let transfer_size = (if length buffer > 256 then 256 else length buffer) in
        case pio_transfer port (map reverse_byte (take transfer_size buffer)) 0 h of
          (None, h') \<Rightarrow> (SPISD_RESULT_TIMEOUT, h')
        | (Some bs, h') \<Rightarrow> mx_sio2_tx_pio port (drop transfer_size buffer) h'
      else (SPISD_RESULT_OK, h))"
  by pat_completeness auto
termination by (relation "measure (\<lambda>(_, buffer, _). length buffer)") (auto split: if_splits)

declare mx_sio2_rx_pio.simps [simp del] mx_sio2_tx_pio.simps [simp del]

section \<open>Commands\<close>

abbreviation CMD0 :: u8 where "CMD0 \<equiv> 0x40"
abbreviation CMD1 :: u8 where "CMD1 \<equiv> 0x41"
abbreviation CMD8 :: u8 where "CMD8 \<equiv> 0x48"
abbreviation CMD9 :: u8 where "CMD9 \<equiv> 0x49"
abbreviation CMD10 :: u8 where "CMD10 \<equiv> 0x4A"
abbreviation CMD12 :: u8 where "CMD12 \<equiv> 0x4C"
abbreviation CMD13 :: u8 where "CMD13 \<equiv> 0x4D"
abbreviation CMD16 :: u8 where "CMD16 \<equiv> 0x50"
abbreviation CMD18 :: u8 where "CMD18 \<equiv> 0x52"
abbreviation ACMD23 :: u8 where "ACMD23 \<equiv> 0x57"
abbreviation CMD25 :: u8 where "CMD25 \<equiv> 0x59"
abbreviation ACMD41 :: u8 where "ACMD41 \<equiv> 0x69"
abbreviation CMD55 :: u8 where "CMD55 \<equiv> 0x77"
abbreviation CMD58 :: u8 where "CMD58 \<equiv> 0x7A"
abbreviation CMD59 :: u8 where "CMD59 \<equiv> 0x7B"

definition cmd_packet :: "u8 \<Rightarrow> u32 \<Rightarrow> bytes" where
  "cmd_packet cmd arg =
     (let packet = [cmd, ucast (drop_bit 24 arg), ucast (drop_bit 16 arg), ucast (drop_bit 8 arg), ucast arg]
      in packet @ [push_bit 1 (crc7 packet) OR 1])"

definition dummy_if :: "'h sio2_port \<Rightarrow> bool \<Rightarrow> 'h \<Rightarrow> 'h" where
  "dummy_if port c h = (if c then snd (mx_sio2_write_dummy port h) else h)"

definition spisd_send_cmd :: "'h sio2_port \<Rightarrow> u8 \<Rightarrow> u32 \<Rightarrow> 'h \<Rightarrow> u8 \<times> 'h" where
  "spisd_send_cmd port cmd arg h =
     (let h = dummy_if port (cmd \<noteq> CMD12 \<and> cmd \<noteq> CMD0) h;
          (r, h) = mx_sio2_tx_pio port (cmd_packet cmd arg) h
      in if r \<noteq> SPISD_RESULT_OK then (0xFF, h)
         else let h = dummy_if port (cmd = CMD12) h;
                  (response, h) = mx_sio2_wait_not_equal port 0xFF 100 h;
                  h = dummy_if port (cmd \<noteq> CMD9 \<and> cmd \<noteq> CMD10 \<and> cmd \<noteq> CMD13 \<and> cmd \<noteq> CMD18 \<and> cmd \<noteq> CMD25) h
              in (response, h))"

text \<open>Returns the response, the bytes stored in \<open>data\<close> and the new state.\<close>

definition spisd_send_cmd_recv_data :: "'h sio2_port \<Rightarrow> u8 \<Rightarrow> u32 \<Rightarrow> nat \<Rightarrow> 'h \<Rightarrow> u8 \<times> bytes \<times> 'h" where
  "spisd_send_cmd_recv_data port cmd arg sz h =
     (let (_, h) = mx_sio2_write_dummy port h;
          (r, h) = mx_sio2_tx_pio port (cmd_packet cmd arg) h
      in if r \<noteq> SPISD_RESULT_OK then (0xFF, [], h)
         else let (response, h) = mx_sio2_wait_not_equal port 0xFF 100 h;
                  (response, data, h) =
                    (if response \<noteq> 0xFF
                     then case mx_sio2_rx_pio port sz h of (r, d, h) \<Rightarrow>
                            (if r \<noteq> SPISD_RESULT_OK then 0xFF else response, d, h)
                     else (response, [], h));
                  (_, h) = mx_sio2_write_dummy port h
              in (response, data, h))"

definition spisd_read_register :: "'h sio2_port \<Rightarrow> nat \<Rightarrow> 'h \<Rightarrow> u8 \<times> bytes \<times> 'h" where
  "spisd_read_register port len h =
     (let (results, h) = mx_sio2_wait_equal port 0xFE 2000 h
      in if results = SPISD_RESULT_OK then mx_sio2_rx_pio port len h else (results, [], h))"

definition spisd_read_status_register :: "'h sio2_port \<Rightarrow> 'h \<Rightarrow> u16 \<times> 'h" where
  "spisd_read_status_register port h =
     (let (r1, h) = spisd_send_cmd port CMD13 0 h;
          (r2, h) = mx_sio2_write_dummy port h;
          (_, h) = mx_sio2_write_dummy port h
      in (push_bit 8 (ucast r1) OR ucast r2, h))"

section \<open>The card\<close>

text \<open>
  What the SD specification says of a card in SPI mode, as far as the driver relies on it. \<open>Ready\<close>: the card waits for a
  command and transfers no user data. After a command a response is due (\<open>ResetPend\<close> after CMD0, \<open>StopStuff\<close> and
  \<open>StopPend\<close> after CMD12, \<open>IfCmd\<close> after CMD8, \<open>OcrCmd\<close> and \<open>OcrData\<close> after CMD58). A block read goes from \<open>ReadCmd\<close>
  through \<open>ReadTok\<close> (token awaited) and \<open>ReadBlk\<close> (data follows) to the next token; a block write from \<open>WriteCmd\<close> through
  \<open>WriteRdy\<close> (token awaited), \<open>WriteBlk\<close> (data awaited), the two CRC bytes and the data response to \<open>WriteBusy\<close>, or to
  \<open>WriteRej\<close> when the card rejected the data. \<open>ReadDma\<close> and \<open>WriteDma\<close> are the same with the DMA channel at work.
  \<open>Lost\<close>: nothing is known of the alignment.
\<close>

datatype sd_phase =
  Ready | ResetPend | StopStuff | StopPend | IfCmd nat | OcrCmd | OcrData
  | ReadCmd nat | ReadTok nat | ReadBlk nat | ReadDma nat
  | WriteCmd nat | WriteRdy nat | WriteBlk nat | WriteDma nat bytes | WriteCrc nat bytes nat | WriteResp nat bytes nat
  | WriteBusy nat nat | WriteRej | Refused | Lost

text \<open>One byte clocked out (\<open>t\<close>) and in (\<open>b\<close>). The card's timing limits in bytes: the gap before a response, before a data
  response, and the time it stays busy.\<close>

record sd_times =
  gap_cmd :: nat
  gap_data :: nat
  gap_busy :: nat

fun sd_clock :: "sd_times \<Rightarrow> sd_phase \<Rightarrow> u8 \<Rightarrow> u8 \<Rightarrow> sd_phase" where
  "sd_clock tm Ready t b = Ready"
| "sd_clock tm ResetPend t b = (if b = 0xFF then ResetPend else if b = 1 then Ready else Lost)"
| "sd_clock tm StopStuff t b = StopPend"
| "sd_clock tm StopPend t b = (if b = 0xFF then StopPend else if b = 0 then Ready else Lost)"
| "sd_clock tm (IfCmd n) t b = (if b = 0xFF then IfCmd (n - 1) else Ready)"
| "sd_clock tm OcrCmd t b = (if b = 0xFF then OcrCmd else OcrData)"
| "sd_clock tm OcrData t b = Ready"
| "sd_clock tm (ReadCmd a) t b = (if b = 0xFF then ReadCmd a else if b = 0 then ReadTok a else Lost)"
| "sd_clock tm (ReadTok a) t b = (if b = 0xFE then ReadBlk a else ReadTok a)"
| "sd_clock tm (WriteCmd a) t b = (if b = 0xFF then WriteCmd a else if b = 0 then WriteRdy a else Lost)"
| "sd_clock tm (WriteRdy a) t b = (if t = 0xFC then WriteBlk a else if t = 0xFD then Ready else WriteRdy a)"
| "sd_clock tm (WriteCrc a d n) t b = (if n \<le> 1 then WriteResp a d (gap_data tm) else WriteCrc a d (n - 1))"
| "sd_clock tm (WriteResp a d n) t b =
     (if b AND 0x1F = 5 then WriteBusy (Suc a) (gap_busy tm) else if b = 0xFF then WriteResp a d (n - 1) else WriteRej)"
| "sd_clock tm (WriteBusy a n) t b = (if b = 0xFF then WriteRdy a else WriteBusy a (n - 1))"
| "sd_clock tm WriteRej t b = (if t = 0xFD then Ready else WriteRej)"
| "sd_clock tm Refused t b = (if b = 0xFF then Refused else Lost)"
| "sd_clock tm _ t b = Lost"

text \<open>What the card may send: an answer to CMD8 is not delayed beyond the allowed gap and only byte-addressed cards refuse
  it, the operation conditions tell the addressing, one data response per block comes in time, the busy signal ends, and a
  block command that was not taken is not answered with 0.\<close>

fun sd_may :: "bool \<Rightarrow> sd_phase \<Rightarrow> u8 \<Rightarrow> bool" where
  "sd_may hc (IfCmd n) b = (if b = 0xFF then n > 0 else \<not> (bit b 2 \<and> hc))"
| "sd_may hc OcrData b = (bit b 6 = hc)"
| "sd_may hc (WriteBusy a n) b = (n > 0 \<or> b = 0xFF)"
| "sd_may hc (WriteResp a d n) b = (n > 0 \<or> b \<noteq> 0xFF)"
| "sd_may hc WriteRej b = (b AND 0x1F \<noteq> 5)"
| "sd_may hc Refused b = (b \<noteq> 0)"
| "sd_may hc _ b = True"

text \<open>Accepting a block (data response 5) stores it.\<close>

fun sd_commit :: "sd_phase \<Rightarrow> u8 \<Rightarrow> (nat \<Rightarrow> bytes) \<Rightarrow> nat \<Rightarrow> bytes" where
  "sd_commit (WriteResp a d n) b dk = (if b AND 0x1F = 5 then dk(a := d) else dk)"
| "sd_commit _ b dk = dk"

fun sd_bytes :: "bool \<Rightarrow> sd_times \<Rightarrow> sd_phase \<times> (nat \<Rightarrow> bytes) \<Rightarrow> (u8 \<times> u8) list \<Rightarrow> (sd_phase \<times> (nat \<Rightarrow> bytes)) option" where
  "sd_bytes hc tm c [] = Some c"
| "sd_bytes hc tm (ph, dk) ((t, b) # ps) =
     (if sd_may hc ph b then sd_bytes hc tm (sd_clock tm ph t b, sd_commit ph b dk) ps else None)"

text \<open>A command packet is taken when its check sum is right; the argument of the block commands is a block number on
  high-capacity cards (\<open>hc\<close>) and a byte address on others.\<close>

definition sd_address :: "bool \<Rightarrow> u32 \<Rightarrow> nat" where
  "sd_address hc arg = (if hc then unat arg else unat arg div 512)"

definition packet_arg :: "bytes \<Rightarrow> u32" where
  "packet_arg pkt = push_bit 24 (ucast (pkt ! 1)) OR push_bit 16 (ucast (pkt ! 2)) OR push_bit 8 (ucast (pkt ! 3)) OR ucast (pkt ! 4)"

definition packet_ok :: "bytes \<Rightarrow> bool" where
  "packet_ok pkt \<longleftrightarrow> length pkt = 6 \<and> pkt ! 5 = push_bit 1 (spec_crc7 (take 5 pkt)) OR 1"

definition sd_packet :: "bool \<Rightarrow> sd_times \<Rightarrow> sd_phase \<Rightarrow> bytes \<Rightarrow> sd_phase" where
  "sd_packet hc tm ph pkt =
     (if \<not> packet_ok pkt then Lost
      else if pkt ! 0 = CMD0 then ResetPend
      else if pkt ! 0 = CMD12 then
        (case ph of ReadTok _ \<Rightarrow> StopStuff | ReadBlk _ \<Rightarrow> StopStuff | Ready \<Rightarrow> Ready | _ \<Rightarrow> Lost)
      else if ph \<noteq> Ready then (if pkt ! 0 = CMD18 \<or> pkt ! 0 = CMD25 then Refused else Lost)
      else if pkt ! 0 = CMD8 then IfCmd (gap_cmd tm)
      else if pkt ! 0 = CMD58 then OcrCmd
      else if pkt ! 0 = CMD18 then ReadCmd (sd_address hc (packet_arg pkt))
      else if pkt ! 0 = CMD25 then WriteCmd (sd_address hc (packet_arg pkt))
      else Ready)"

text \<open>Stopping the DMA channel in the middle of a block loses the alignment.\<close>

definition sd_stop :: "sd_phase \<Rightarrow> sd_phase" where
  "sd_stop ph = (case ph of ReadDma _ \<Rightarrow> Lost | WriteDma _ _ \<Rightarrow> Lost | _ \<Rightarrow> ph)"

definition rx_queue :: "u32 list" where
  "rx_queue = [tr_ctrl 0 1 0 0x100, tr_ctrl 0 1 0 0x100, tr_ctrl 0 0 0 3, 0]"

definition tx_queue :: "u32 list" where
  "tx_queue = [tr_ctrl 1 0 0x100 0, tr_ctrl 1 0 0x100 0, 0, 0]"

text \<open>Outside the two phases in which a data response is due nothing is stored.\<close>

definition safe :: "sd_phase \<Rightarrow> bool" where
  "safe ph \<longleftrightarrow> (case ph of WriteCrc _ _ _ \<Rightarrow> False | WriteResp _ _ _ \<Rightarrow> False | _ \<Rightarrow> True)"

lemma safe_clock: "safe ph \<Longrightarrow> safe (sd_clock tm ph t b) \<and> sd_commit ph b dk = dk"
  by (cases ph) (auto simp: safe_def)

lemma safe_packet: "safe (sd_packet hc tm ph pkt)"
  by (simp add: sd_packet_def safe_def split: sd_phase.split)

lemma safe_bytes: "sd_bytes hc tm (ph, dk) ps = Some (ph', dk') \<Longrightarrow> safe ph \<Longrightarrow> safe ph' \<and> dk' = dk"
  by (induction ps arbitrary: ph) (auto simp: safe_clock split: if_splits)

lemma ready_bytes: "sd_bytes hc tm (Ready, dk) ps = Some (ph', dk') \<Longrightarrow> ph' = Ready \<and> dk' = dk"
  by (induction ps) (auto split: if_splits)

lemma sd_bytes_append:
  "sd_bytes hc tm c (ps @ qs) = (case sd_bytes hc tm c ps of None \<Rightarrow> None | Some c' \<Rightarrow> sd_bytes hc tm c' qs)"
  by (induction hc tm c ps rule: sd_bytes.induct) auto

text \<open>The packets the driver builds.\<close>

lemma crc7_spec: "crc7 message = spec_crc7 message"
  using crc7_folds [of 0 message] by (simp add: crc7_def spec_crc7_fold)

lemma arg_bytes:
  "push_bit 24 (ucast (ucast (drop_bit 24 arg) :: u8)) OR push_bit 16 (ucast (ucast (drop_bit 16 arg) :: u8))
     OR push_bit 8 (ucast (ucast (drop_bit 8 arg) :: u8)) OR ucast (ucast arg :: u8) = (arg :: u32)"
proof (rule bit_word_eqI)
  fix n :: nat assume "n < LENGTH(32)"
  then consider "n < 8" | "8 \<le> n" "n < 16" | "16 \<le> n" "n < 24" | "24 \<le> n" "n < 32" by fastforce
  then show "bit (push_bit 24 (ucast (ucast (drop_bit 24 arg) :: u8)) OR push_bit 16 (ucast (ucast (drop_bit 16 arg) :: u8))
     OR push_bit 8 (ucast (ucast (drop_bit 8 arg) :: u8)) OR ucast (ucast arg :: u8) :: u32) n = bit arg n"
    by cases (auto simp: bit_simps less_diff_conv2)
qed

lemma cmd_packet_facts:
  "length (cmd_packet c arg) = 6" "packet_ok (cmd_packet c arg)" "cmd_packet c arg ! 0 = c" "packet_arg (cmd_packet c arg) = arg"
  by (simp_all add: cmd_packet_def Let_def packet_ok_def packet_arg_def crc7_spec arg_bytes)

lemma sd_packet_cmd:
  "sd_packet hc tm ph (cmd_packet c arg) =
     (if c = CMD0 then ResetPend
      else if c = CMD12 then (case ph of ReadTok _ \<Rightarrow> StopStuff | ReadBlk _ \<Rightarrow> StopStuff | Ready \<Rightarrow> Ready | _ \<Rightarrow> Lost)
      else if ph \<noteq> Ready then (if c = CMD18 \<or> c = CMD25 then Refused else Lost)
      else if c = CMD8 then IfCmd (gap_cmd tm)
      else if c = CMD58 then OcrCmd
      else if c = CMD18 then ReadCmd (sd_address hc arg)
      else if c = CMD25 then WriteCmd (sd_address hc arg)
      else Ready)"
  by (simp add: sd_packet_def cmd_packet_facts)

text \<open>
  The contract. The port is the bus master, so a programmed transfer always completes; whether the interrupt of a DMA
  transfer ever comes, and whether the transfer has then completed, is left open. A block that is being sent may be
  damaged on the card until it is accepted; no other block is touched. After the CRC of a block the card keeps the line
  high for at least one byte before the next token.
\<close>

locale sd_card =
  fixes port :: "'h sio2_port" and phase :: "'h \<Rightarrow> sd_phase" and disk :: "'h \<Rightarrow> nat \<Rightarrow> bytes"
    and hc :: bool and tm :: sd_times
  assumes limits: "gap_cmd tm < 100" "gap_data tm < 10" "gap_busy tm < 0x80000"
    and block_len: "length (disk h k) = 512"
    and pio_byte: "pio_transfer port [t] 1 h = (r, h') \<Longrightarrow>
      \<exists>b. r = Some [b] \<and> sd_bytes hc tm (phase h, disk h) [(reverse_byte t, reverse_byte b)] = Some (phase h', disk h')"
    and pio_recv: "n \<le> 256 \<Longrightarrow> pio_transfer port [] n h = (r, h') \<Longrightarrow>
      \<exists>bs. r = Some bs \<and> length bs = n
         \<and> sd_bytes hc tm (phase h, disk h) (map (\<lambda>b. (0xFF, reverse_byte b)) bs) = Some (phase h', disk h')"
    and pio_send: "length tx = 6 \<Longrightarrow> pio_transfer port tx 0 h = (r, h') \<Longrightarrow>
      r = Some [] \<and> phase h' = sd_packet hc tm (phase h) (map reverse_byte tx) \<and> disk h' = disk h"
    and port_ctrl: "phase (sio_port_ctrl port i c1 c2 h) = phase h" "disk (sio_port_ctrl port i c1 c2 h) = disk h"
    and lock: "phase (sio_lock port h) = phase h" "disk (sio_lock port h) = disk h"
    and unlock: "phase (sio_unlock port h) = sd_stop (phase h)" "disk (sio_unlock port h) = disk h"
    and irqs: "sio_irqs port h = (k, h') \<Longrightarrow> phase h' = phase h \<and> disk h' = disk h"
    and dma_rx: "phase h = ReadBlk a \<Longrightarrow> phase (sio_exec_dma port rx_queue None h) = ReadDma a
      \<and> disk (sio_exec_dma port rx_queue None h) = disk h"
    and dma_rx_done: "phase h = ReadDma a \<Longrightarrow> sio_dma_data port h = (d, h1) \<Longrightarrow>
      mx_sio2_wait_transfer_complete port h1 = (ok, h2) \<Longrightarrow> data_in_n port 3 h2 = (bs, h3) \<Longrightarrow>
      d = map reverse_byte (disk h a) \<and> disk h2 = disk h
        \<and> (if ok then bs ! 2 = 0xFF \<and> phase h3 = ReadTok (Suc a) \<and> disk h3 = disk h else phase h2 = Lost)"
    and dma_tx: "phase h = WriteBlk a \<Longrightarrow> length d = 512 \<Longrightarrow>
      phase (sio_exec_dma port tx_queue (Some d) h) = WriteDma a (map reverse_byte d)
        \<and> (\<forall>k. k \<noteq> a \<longrightarrow> disk (sio_exec_dma port tx_queue (Some d) h) k = disk h k)"
    and dma_tx_done: "phase h = WriteDma a d \<Longrightarrow> sio_dma_data port h = (d', h1) \<Longrightarrow>
      mx_sio2_wait_transfer_complete port h1 = (ok, h2) \<Longrightarrow>
      phase h2 = (if ok then WriteCrc a d 2 else Lost) \<and> disk h2 = disk h"
begin

abbreviation bus :: "'h \<Rightarrow> sd_phase \<times> (nat \<Rightarrow> bytes)" where "bus h \<equiv> (phase h, disk h)"

abbreviation reads :: "bytes \<Rightarrow> (u8 \<times> u8) list" where "reads bs \<equiv> map (\<lambda>b. (0xFF, b)) bs"

text \<open>The receive loops read some bytes and say what the last one was.\<close>

lemma wait_equal_reads:
  "wait_equal_loop port e i n h = (r, h') \<Longrightarrow>
   \<exists>bs. length bs \<le> n \<and> sd_bytes hc tm (bus h) (reads (map reverse_byte bs)) = Some (bus h')
     \<and> e \<notin> set (butlast (i # bs)) \<and> r = (if last (i # bs) = e then 0 else 1) \<and> (r = 1 \<longrightarrow> length bs = n)"
proof (induction n arbitrary: i h)
  case 0
  then show ?case by (intro exI [of _ "[]"]) (auto simp: wait_equal_loop.simps [of _ _ _ 0])
next
  case (Suc n)
  show ?case
  proof (cases "i = e")
    case True
    then show ?thesis using Suc.prems
      by (intro exI [of _ "[]"]) (auto simp: wait_equal_loop.simps [of _ _ _ "Suc n"])
  next
    case False
    obtain q h1 where q: "pio_transfer port [] 1 h = (q, h1)" by fastforce
    obtain bs1 where bs1: "q = Some bs1" "length bs1 = 1"
      "sd_bytes hc tm (bus h) (map (\<lambda>b. (0xFF, reverse_byte b)) bs1) = Some (bus h1)"
      using pio_recv [OF _ q] by auto
    then obtain b where b: "bs1 = [b]" by (cases bs1) auto
    have "wait_equal_loop port e b n h1 = (r, h')"
      using Suc.prems False q bs1 b by (subst (asm) wait_equal_loop.simps) simp
    then obtain bs where bs: "length bs \<le> n" "sd_bytes hc tm (bus h1) (reads (map reverse_byte bs)) = Some (bus h')"
      "e \<notin> set (butlast (b # bs))" "r = (if last (b # bs) = e then 0 else 1)" "r = 1 \<longrightarrow> length bs = n"
      using Suc.IH by blast
    show ?thesis
    proof (intro exI [of _ "b # bs"] conjI)
      show "sd_bytes hc tm (bus h) (reads (map reverse_byte (b # bs))) = Some (bus h')"
        using bs1(3) bs(2) b by (auto split: if_splits)
      show "e \<notin> set (butlast (i # b # bs))" using bs(3) False by auto
    qed (use bs in auto)
  qed
qed

lemma wait_not_equal_reads:
  "wait_not_equal_loop port e i n h = (r, h') \<Longrightarrow>
   \<exists>bs. length bs \<le> n \<and> sd_bytes hc tm (bus h) (reads (map reverse_byte bs)) = Some (bus h')
     \<and> (\<forall>b \<in> set (butlast (i # bs)). b = e) \<and> r = reverse_byte (last (i # bs)) \<and> (last (i # bs) = e \<longrightarrow> length bs = n)"
proof (induction n arbitrary: i h)
  case 0
  then show ?case by (intro exI [of _ "[]"]) (auto simp: wait_not_equal_loop.simps [of _ _ _ 0])
next
  case (Suc n)
  show ?case
  proof (cases "i = e")
    case False
    then show ?thesis using Suc.prems
      by (intro exI [of _ "[]"]) (auto simp: wait_not_equal_loop.simps [of _ _ _ "Suc n"])
  next
    case True
    obtain q h1 where q: "pio_transfer port [] 1 h = (q, h1)" by fastforce
    obtain bs1 where bs1: "q = Some bs1" "length bs1 = 1"
      "sd_bytes hc tm (bus h) (map (\<lambda>b. (0xFF, reverse_byte b)) bs1) = Some (bus h1)"
      using pio_recv [OF _ q] by auto
    then obtain b where b: "bs1 = [b]" by (cases bs1) auto
    have "wait_not_equal_loop port e b n h1 = (r, h')"
      using Suc.prems True q bs1 b by (subst (asm) wait_not_equal_loop.simps) simp
    then obtain bs where bs: "length bs \<le> n" "sd_bytes hc tm (bus h1) (reads (map reverse_byte bs)) = Some (bus h')"
      "\<forall>b \<in> set (butlast (b # bs)). b = e" "r = reverse_byte (last (b # bs))" "last (b # bs) = e \<longrightarrow> length bs = n"
      using Suc.IH by blast
    show ?thesis
    proof (intro exI [of _ "b # bs"] conjI)
      show "sd_bytes hc tm (bus h) (reads (map reverse_byte (b # bs))) = Some (bus h')"
        using bs1(3) bs(2) b by (auto split: if_splits)
      show "\<forall>x \<in> set (butlast (i # b # bs)). x = e" using bs(3) True by auto
    qed (use bs in auto)
  qed
qed

lemma byte_step:
  assumes "mx_sio2_write_byte port t h = (b, h')"
  shows "sd_may hc (phase h) b \<and> phase h' = sd_clock tm (phase h) t b \<and> disk h' = sd_commit (phase h) b (disk h)"
proof -
  obtain r h1 where r: "pio_transfer port [reverse_byte t] 1 h = (r, h1)" by fastforce
  show ?thesis using pio_byte [OF r] r assms by (auto simp: mx_sio2_write_byte_def split: if_splits)
qed

lemma dummy_step:
  assumes "mx_sio2_write_dummy port h = (b, h')"
  shows "sd_may hc (phase h) b \<and> phase h' = sd_clock tm (phase h) 0xFF b \<and> disk h' = sd_commit (phase h) b (disk h)"
proof -
  have ff: "word_reverse (0xFF :: u8) = 0xFF" by (simp add: word_reverse_def upt_rec eval_nat_numeral)
  obtain r h1 where r: "pio_transfer port [0xFF] 1 h = (r, h1)" by fastforce
  show ?thesis using pio_byte [OF r] r assms by (auto simp: mx_sio2_write_dummy_def ff split: if_splits)
qed

lemma packet_step:
  assumes "mx_sio2_tx_pio port (cmd_packet c arg) h = (r, h')"
  shows "r = 0 \<and> phase h' = sd_packet hc tm (phase h) (cmd_packet c arg) \<and> disk h' = disk h"
proof -
  let ?tx = "map reverse_byte (cmd_packet c arg)"
  obtain q h1 where q: "pio_transfer port ?tx 0 h = (q, h1)" by fastforce
  have "q = Some []" "phase h1 = sd_packet hc tm (phase h) (cmd_packet c arg)" "disk h1 = disk h"
    using pio_send [OF _ q] by (simp_all add: cmd_packet_facts comp_def)
  moreover have "mx_sio2_tx_pio port [] h1 = (0, h1)" by (simp add: mx_sio2_tx_pio.simps)
  ultimately show ?thesis using assms q
    by (subst (asm) mx_sio2_tx_pio.simps) (simp add: cmd_packet_facts)
qed

lemma rx_step:
  assumes "mx_sio2_rx_pio port n h = (r, d, h')" "n \<le> 256"
  shows "r = 0 \<and> length d = n \<and> sd_bytes hc tm (bus h) (reads d) = Some (bus h')"
proof (cases "n = 0")
  case True
  then show ?thesis using assms by (simp add: mx_sio2_rx_pio.simps)
next
  case False
  obtain q h1 where q: "pio_transfer port [] n h = (q, h1)" by fastforce
  obtain bs where bs: "q = Some bs" "length bs = n"
      "sd_bytes hc tm (bus h) (map (\<lambda>b. (0xFF, reverse_byte b)) bs) = Some (bus h1)"
    using pio_recv [OF assms(2) q] by blast
  have "mx_sio2_rx_pio port 0 h1 = (0, [], h1)" by (simp add: mx_sio2_rx_pio.simps)
  then have "(r, d, h') = (0, map reverse_byte bs, h1)"
    using assms q bs False by (subst (asm) mx_sio2_rx_pio.simps) simp
  then show ?thesis using bs by (simp add: comp_def)
qed

text \<open>A response is the first byte that is not idle.\<close>

lemma response_step:
  assumes "mx_sio2_wait_not_equal port 0xFF n h = (b, h')"
  shows "\<exists>k \<le> n. sd_bytes hc tm (bus h) (reads (replicate k 0xFF @ (if b = 0xFF then [] else [b]))) = Some (bus h')
           \<and> (b = 0xFF \<longrightarrow> k = n)"
proof -
  have ff: "word_reverse (0xFF :: u8) = 0xFF" by (simp add: word_reverse_def upt_rec eval_nat_numeral)
  obtain bs where bs: "length bs \<le> n" "sd_bytes hc tm (bus h) (reads (map reverse_byte bs)) = Some (bus h')"
    "\<forall>x \<in> set (butlast (0xFF # bs)). x = 0xFF" "b = reverse_byte (last (0xFF # bs))" "last (0xFF # bs) = 0xFF \<longrightarrow> length bs = n"
    using wait_not_equal_reads [of "0xFF" "0xFF" n h b h'] assms by (auto simp: mx_sio2_wait_not_equal_def ff)
  show ?thesis
  proof (cases "bs = []")
    case True
    then show ?thesis using bs ff by (intro exI [of _ 0]) auto
  next
    case False
    then have split: "bs = butlast bs @ [last bs]" by simp
    have "butlast bs = replicate (length bs - 1) 0xFF"
      using bs(3) False by (intro replicate_eqI) auto
    then have maps: "map reverse_byte bs = replicate (length bs - 1) 0xFF @ [b]"
      using bs(4) False ff by (subst split) (simp add: last_ConsR)
    show ?thesis
    proof (cases "b = 0xFF")
      case True
      then have "last bs = 0xFF" using bs(4) False ff by (metis last_ConsR word_rev_gal reverse_byte_eq)
      moreover have "replicate (length bs - 1) 0xFF @ [b] = replicate (length bs) (0xFF :: u8)"
        using True False by (cases bs) (simp_all add: replicate_append_same)
      ultimately show ?thesis using bs maps True False by (intro exI [of _ "length bs"]) auto
    next
      case nf: False
      show ?thesis using bs maps nf by (intro exI [of _ "length bs - 1"]) auto
    qed
  qed
qed

text \<open>Leading idle bytes keep a pending response pending.\<close>

lemma idle_bytes:
  assumes "sd_bytes hc tm (ph, dk) (reads (replicate k 0xFF @ bs)) = Some c"
    and "ph \<in> {ResetPend, StopPend, OcrCmd} \<or> (\<exists>a. ph = ReadCmd a) \<or> (\<exists>a. ph = WriteCmd a)"
  shows "sd_bytes hc tm (ph, dk) (reads bs) = Some c"
  using assms by (induction k) (auto split: if_splits)

lemma idle_bytes_if:
  assumes "sd_bytes hc tm (IfCmd n, dk) (reads (replicate k 0xFF @ bs)) = Some c"
  shows "k \<le> n \<and> sd_bytes hc tm (IfCmd (n - k), dk) (reads bs) = Some c"
  using assms
proof (induction k arbitrary: n)
  case (Suc k)
  then have "n > 0" "sd_bytes hc tm (IfCmd (n - 1), dk) (reads (replicate k 0xFF @ bs)) = Some c"
    by (auto split: if_splits)
  then show ?case using Suc.IH [of "n - 1"] by auto
qed simp

lemma pending_response:
  assumes "mx_sio2_wait_not_equal port 0xFF n h = (b, h')"
    and "phase h \<in> {ResetPend, StopPend, OcrCmd} \<or> (\<exists>a. phase h = ReadCmd a) \<or> (\<exists>a. phase h = WriteCmd a)"
  shows "disk h' = disk h \<and> phase h' = (if b = 0xFF then phase h else sd_clock tm (phase h) 0xFF b)"
proof -
  have "safe (phase h)" using assms(2) by (auto simp: safe_def)
  then show ?thesis
    using response_step [OF assms(1)] idle_bytes [OF _ assms(2)] by (fastforce simp: safe_clock split: if_splits)
qed

lemma safe_response:
  assumes "mx_sio2_wait_not_equal port 0xFF n h = (b, h')" "safe (phase h)"
  shows "safe (phase h') \<and> disk h' = disk h \<and> (phase h = Ready \<longrightarrow> phase h' = Ready)"
  using response_step [OF assms(1)] safe_bytes [OF _ assms(2)] ready_bytes by metis

lemma safe_wait_equal:
  assumes "mx_sio2_wait_equal port v n h = (r, h')" "safe (phase h)"
  shows "safe (phase h') \<and> disk h' = disk h \<and> (phase h = Ready \<longrightarrow> phase h' = Ready) \<and> (r = 0 \<or> r = 1)"
proof -
  obtain bs where "sd_bytes hc tm (bus h) (reads bs) = Some (bus h')" "r = 0 \<or> r = 1"
    using wait_equal_reads [OF assms(1) [unfolded mx_sio2_wait_equal_def]] by metis
  then show ?thesis using safe_bytes [OF _ assms(2)] ready_bytes by metis
qed

lemma safe_dummy:
  assumes "mx_sio2_write_dummy port h = (b, h')" "safe (phase h)"
  shows "safe (phase h') \<and> disk h' = disk h \<and> (phase h = Ready \<longrightarrow> phase h' = Ready)"
  using dummy_step [OF assms(1)] safe_clock [OF assms(2)] by auto

lemma safe_dummy_if:
  assumes "safe (phase h)"
  shows "safe (phase (dummy_if port c h)) \<and> disk (dummy_if port c h) = disk h \<and> (phase h = Ready \<longrightarrow> phase (dummy_if port c h) = Ready)"
proof -
  obtain b h' where "mx_sio2_write_dummy port h = (b, h')" by fastforce
  then show ?thesis using safe_dummy [of h b h'] assms by (simp add: dummy_if_def)
qed

lemma send_cmd_cases:
  assumes "spisd_send_cmd port c arg h = (r, h')"
  shows "\<exists>h1 h2 h3 h4. h1 = dummy_if port (c \<noteq> CMD12 \<and> c \<noteq> CMD0) h
    \<and> phase h2 = sd_packet hc tm (phase h1) (cmd_packet c arg) \<and> disk h2 = disk h1
    \<and> h3 = dummy_if port (c = CMD12) h2 \<and> mx_sio2_wait_not_equal port 0xFF 100 h3 = (r, h4)
    \<and> h' = dummy_if port (c \<noteq> CMD9 \<and> c \<noteq> CMD10 \<and> c \<noteq> CMD13 \<and> c \<noteq> CMD18 \<and> c \<noteq> CMD25) h4"
proof -
  define h1 where "h1 = dummy_if port (c \<noteq> CMD12 \<and> c \<noteq> CMD0) h"
  obtain q h2 where q: "mx_sio2_tx_pio port (cmd_packet c arg) h1 = (q, h2)" by fastforce
  note p = packet_step [OF q]
  define h3 where "h3 = dummy_if port (c = CMD12) h2"
  obtain b h4 where b: "mx_sio2_wait_not_equal port 0xFF 100 h3 = (b, h4)" by fastforce
  have "(r, h') = (b, dummy_if port (c \<noteq> CMD9 \<and> c \<noteq> CMD10 \<and> c \<noteq> CMD13 \<and> c \<noteq> CMD18 \<and> c \<noteq> CMD25) h4)"
    using assms p q b by (simp add: spisd_send_cmd_def Let_def flip: h1_def h3_def)
  then show ?thesis using p b h1_def h3_def by auto
qed

lemma send_cmd_safe:
  assumes "spisd_send_cmd port c arg h = (r, h')" "safe (phase h)"
  shows "safe (phase h') \<and> disk h' = disk h
    \<and> (phase h = Ready \<longrightarrow> c \<notin> {CMD0, CMD8, CMD18, CMD25, CMD58} \<longrightarrow> phase h' = Ready)"
proof -
  obtain h1 h2 h3 h4 where
    d: "h1 = dummy_if port (c \<noteq> CMD12 \<and> c \<noteq> CMD0) h"
    "phase h2 = sd_packet hc tm (phase h1) (cmd_packet c arg)" "disk h2 = disk h1"
    "h3 = dummy_if port (c = CMD12) h2" "mx_sio2_wait_not_equal port 0xFF 100 h3 = (r, h4)"
    "h' = dummy_if port (c \<noteq> CMD9 \<and> c \<noteq> CMD10 \<and> c \<noteq> CMD13 \<and> c \<noteq> CMD18 \<and> c \<noteq> CMD25) h4"
    using send_cmd_cases [OF assms(1)] by blast
  note s1 = safe_dummy_if [OF assms(2), of "c \<noteq> CMD12 \<and> c \<noteq> CMD0", folded d(1)]
  have s2: "safe (phase h2)" using d(2) safe_packet by metis
  note s3 = safe_dummy_if [OF s2, of "c = CMD12", folded d(4)]
  note s4 = safe_response [OF d(5) s3 [THEN conjunct1]]
  note s5 = safe_dummy_if [OF s4 [THEN conjunct1], of "c \<noteq> CMD9 \<and> c \<noteq> CMD10 \<and> c \<noteq> CMD13 \<and> c \<noteq> CMD18 \<and> c \<noteq> CMD25", folded d(6)]
  have "phase h = Ready \<Longrightarrow> c \<notin> {CMD0, CMD8, CMD18, CMD25, CMD58} \<Longrightarrow> phase h2 = Ready"
    using s1 d(2) by (simp add: sd_packet_cmd)
  then show ?thesis using s1 s3 s4 s5 d(3) by auto
qed

text \<open>The commands whose outcome matters.\<close>

lemma send_reset:
  assumes "spisd_send_cmd port CMD0 arg h = (r, h')" "safe (phase h)" "r = 1"
  shows "phase h' = Ready"
proof -
  obtain h2 h4 where
    d: "phase h2 = sd_packet hc tm (phase h) (cmd_packet CMD0 arg)"
    "mx_sio2_wait_not_equal port 0xFF 100 h2 = (r, h4)" "h' = dummy_if port True h4"
    using send_cmd_cases [OF assms(1)] by (auto simp: dummy_if_def)
  have "phase h2 = ResetPend" using d(1) by (simp add: sd_packet_cmd)
  then have "phase h4 = Ready" using pending_response [OF d(2)] assms(3) by simp
  then show ?thesis using safe_dummy_if [of h4 True] d(3) by (simp add: safe_def)
qed

lemma send_stop:
  assumes "spisd_send_cmd port CMD12 arg h = (r, h')" "phase h = ReadTok a \<or> phase h = ReadBlk a" "r = 0"
  shows "phase h' = Ready"
proof -
  obtain h2 h3 h4 where
    d: "phase h2 = sd_packet hc tm (phase h) (cmd_packet CMD12 arg)" "h3 = dummy_if port True h2"
    "mx_sio2_wait_not_equal port 0xFF 100 h3 = (r, h4)" "h' = dummy_if port True h4"
    using send_cmd_cases [OF assms(1)] by (auto simp: dummy_if_def)
  have "phase h2 = StopStuff" using d(1) assms(2) by (auto simp: sd_packet_cmd)
  moreover obtain b x where "mx_sio2_write_dummy port h2 = (b, x)" by fastforce
  ultimately have "phase h3 = StopPend" using dummy_step [of h2 b x] d(2) by (simp add: dummy_if_def)
  then have "phase h4 = Ready" using pending_response [OF d(3)] assms(3) by simp
  then show ?thesis using safe_dummy_if [of h4 True] d(4) by (simp add: safe_def)
qed

lemma refused_response:
  assumes "mx_sio2_wait_not_equal port 0xFF n h = (b, h')" "phase h = Refused"
  shows "b \<noteq> 0"
proof -
  obtain k where k: "sd_bytes hc tm (Refused, disk h) (reads (replicate k 0xFF @ (if b = 0xFF then [] else [b]))) = Some (bus h')"
    using response_step [OF assms(1)] assms(2) by auto
  have "sd_bytes hc tm (Refused, disk h) (reads (replicate k 0xFF @ bs)) = Some c \<Longrightarrow>
      sd_bytes hc tm (Refused, disk h) (reads bs) = Some c" for k bs c
    by (induction k) auto
  from this [OF k] show ?thesis by (auto split: if_splits)
qed

text \<open>A block command answered with 0 was taken.\<close>

lemma send_transfer:
  assumes "spisd_send_cmd port c arg h = (r, h')" "safe (phase h)" "r = 0" "c = CMD18 \<or> c = CMD25"
  shows "phase h' = (if c = CMD18 then ReadTok (sd_address hc arg) else WriteRdy (sd_address hc arg))"
proof -
  obtain h1 h2 where
    d: "h1 = dummy_if port True h" "phase h2 = sd_packet hc tm (phase h1) (cmd_packet c arg)"
    "mx_sio2_wait_not_equal port 0xFF 100 h2 = (r, h')"
    using send_cmd_cases [OF assms(1)] assms(4) by (auto simp: dummy_if_def)
  have "phase h2 \<noteq> Refused" using refused_response [OF d(3)] assms(3) by blast
  then have "phase h1 = Ready" using d(2) assms(4) by (auto simp: sd_packet_cmd split: if_splits)
  then have "phase h2 = (if c = CMD18 then ReadCmd (sd_address hc arg) else WriteCmd (sd_address hc arg))"
    using d(2) assms(4) by (auto simp: sd_packet_cmd)
  then show ?thesis using pending_response [OF d(3)] assms(3) by (simp split: if_splits)
qed

lemma recv_data_cases:
  assumes "spisd_send_cmd_recv_data port c arg n h = (r, d, h')" "phase h = Ready" "n \<le> 256"
  shows "\<exists>h2 h3 h4. phase h2 = sd_packet hc tm Ready (cmd_packet c arg) \<and> disk h2 = disk h
    \<and> mx_sio2_wait_not_equal port 0xFF 100 h2 = (r, h3)
    \<and> (if r = 0xFF then d = [] \<and> h4 = h3 else length d = n \<and> sd_bytes hc tm (bus h3) (reads d) = Some (bus h4))
    \<and> (\<exists>x. mx_sio2_write_dummy port h4 = (x, h'))"
proof -
  obtain x h1 where x: "mx_sio2_write_dummy port h = (x, h1)" by fastforce
  have h1: "phase h1 = Ready" "disk h1 = disk h" using safe_dummy [OF x] assms(2) by (simp_all add: safe_def)
  obtain q h2 where q: "mx_sio2_tx_pio port (cmd_packet c arg) h1 = (q, h2)" by fastforce
  note p = packet_step [OF q]
  obtain b h3 where b: "mx_sio2_wait_not_equal port 0xFF 100 h2 = (b, h3)" by fastforce
  obtain s d' h4' where rx: "mx_sio2_rx_pio port n h3 = (s, d', h4')" by (metis prod_cases3)
  note rx' = rx_step [OF rx assms(3)]
  define h4 where "h4 = (if b = 0xFF then h3 else h4')"
  obtain y h5 where y: "mx_sio2_write_dummy port h4 = (y, h5)" by fastforce
  have "(r, d, h') = (b, if b = 0xFF then [] else d', h5)"
    using assms(1) x q p b rx rx' y by (simp add: spisd_send_cmd_recv_data_def Let_def h4_def split: if_splits)
  then show ?thesis using p h1 b rx' y by (intro exI [of _ h2] exI [of _ h3] exI [of _ h4]) (auto simp: h4_def)
qed

text \<open>CMD8 is always answered, and refused only by byte-addressed cards.\<close>

lemma recv_if_cond:
  assumes "spisd_send_cmd_recv_data port CMD8 arg n h = (r, d, h')" "phase h = Ready" "n \<le> 256"
  shows "phase h' = Ready \<and> disk h' = disk h \<and> r \<noteq> 0xFF \<and> length d = n \<and> (bit r 2 \<longrightarrow> \<not> hc)"
proof -
  obtain h2 h3 h4 where
    d: "phase h2 = sd_packet hc tm Ready (cmd_packet CMD8 arg)" "disk h2 = disk h"
    "mx_sio2_wait_not_equal port 0xFF 100 h2 = (r, h3)"
    "if r = 0xFF then d = [] \<and> h4 = h3 else length d = n \<and> sd_bytes hc tm (bus h3) (reads d) = Some (bus h4)"
    "\<exists>x. mx_sio2_write_dummy port h4 = (x, h')"
    using recv_data_cases [OF assms] by blast
  have h2: "phase h2 = IfCmd (gap_cmd tm)" using d(1) by (simp add: sd_packet_cmd)
  obtain k where k: "k \<le> 100" "r = 0xFF \<longrightarrow> k = 100"
    "sd_bytes hc tm (IfCmd (gap_cmd tm), disk h2) (reads (replicate k 0xFF @ (if r = 0xFF then [] else [r]))) = Some (bus h3)"
    using response_step [OF d(3)] h2 by auto
  note i = idle_bytes_if [OF k(3)]
  have nf: "r \<noteq> 0xFF" using k(2) i limits(1) by auto
  then have h3: "phase h3 = Ready" "disk h3 = disk h2" "bit r 2 \<longrightarrow> \<not> hc" using i by (auto split: if_splits)
  have "phase h4 = Ready" "disk h4 = disk h3" using d(4) nf h3(1) ready_bytes [of hc tm "disk h3" "reads d"] by auto
  then show ?thesis using safe_dummy [of h4 _ h'] d h3 nf by (auto simp: safe_def)
qed

lemma recv_ocr:
  assumes "spisd_send_cmd_recv_data port CMD58 arg n h = (r, d, h')" "phase h = Ready" "n \<le> 256" "n > 0"
  shows "disk h' = disk h \<and> safe (phase h') \<and> (r \<noteq> 0xFF \<longrightarrow> phase h' = Ready \<and> length d = n \<and> bit (d ! 0) 6 = hc)"
proof -
  obtain h2 h3 h4 where
    d: "phase h2 = sd_packet hc tm Ready (cmd_packet CMD58 arg)" "disk h2 = disk h"
    "mx_sio2_wait_not_equal port 0xFF 100 h2 = (r, h3)"
    "if r = 0xFF then d = [] \<and> h4 = h3 else length d = n \<and> sd_bytes hc tm (bus h3) (reads d) = Some (bus h4)"
    "\<exists>x. mx_sio2_write_dummy port h4 = (x, h')"
    using recv_data_cases [OF assms(1-3)] by blast
  have h2: "phase h2 = OcrCmd" using d(1) by (simp add: sd_packet_cmd)
  then have h3: "disk h3 = disk h2" "phase h3 = (if r = 0xFF then OcrCmd else OcrData)" using pending_response [OF d(3)] by auto
  show ?thesis
  proof (cases "r = 0xFF")
    case True
    then show ?thesis using d h3 safe_dummy [of h4 _ h'] by (auto simp: safe_def)
  next
    case False
    then obtain x ds where x: "d = x # ds" using d(4) assms(4) by (cases d) auto
    have "bit x 6 = hc" "sd_bytes hc tm (Ready, disk h3) (reads ds) = Some (bus h4)"
      using d(4) h3(2) False x by (auto split: if_splits)
    moreover from this(2) have "phase h4 = Ready" "disk h4 = disk h3" using ready_bytes by blast+
    ultimately show ?thesis using d h3 x False safe_dummy [of h4 _ h'] by (auto simp: safe_def)
  qed
qed

text \<open>Waiting for a token that ends a phase.\<close>

lemma rev_consts: "word_reverse (0xFF :: u8) = 0xFF" "word_reverse (0xFE :: u8) = 0x7F" "word_reverse (5 :: u8) = 0xA0"
    "word_reverse (0x1F :: u8) = 0xF8" "word_reverse (0 :: u8) = 0"
  by (simp_all add: word_reverse_def upt_rec eval_nat_numeral)

lemma wait_token:
  assumes "mx_sio2_wait_equal port 0xFE n h = (r, h')" "phase h = ReadTok a"
  shows "disk h' = disk h \<and> (if r = 0 then phase h' = ReadBlk a else phase h' = ReadTok a)"
proof -
  obtain bs where bs: "sd_bytes hc tm (bus h) (reads (map reverse_byte bs)) = Some (bus h')"
    "0x7F \<notin> set (butlast (0 # bs))" "r = (if last (0 # bs) = 0x7F then 0 else 1)"
    using wait_equal_reads [OF assms(1) [unfolded mx_sio2_wait_equal_def]] by (auto simp: rev_consts)
  have stay: "sd_bytes hc tm (ReadTok a, dk) (reads (map reverse_byte bs) @ qs) = sd_bytes hc tm (ReadTok a, dk) qs"
    if "0x7F \<notin> set bs" for bs dk qs
    using that
  proof (induction bs)
    case (Cons b bs)
    have "word_reverse b \<noteq> 0xFE"
    proof
      assume "word_reverse b = 0xFE"
      then have "b = word_reverse 0xFE" by (metis word_rev_rev)
      then show False using Cons.prems by (simp add: rev_consts)
    qed
    then show ?case using Cons by simp
  qed simp
  show ?thesis
  proof (cases "last (0 # bs) = 0x7F")
    case True
    then have ne: "bs \<noteq> []" by auto
    then have eq: "bs = butlast bs @ [0x7F]" using True by (metis append_butlast_last_id last_ConsR)
    have rev: "word_reverse (0x7F :: u8) = 0xFE" by (metis rev_consts(2) word_rev_rev)
    have "reads (map reverse_byte bs) = reads (map reverse_byte (butlast bs)) @ [(0xFF, 0xFE)]"
      by (subst eq) (simp add: rev)
    moreover have "0x7F \<notin> set (butlast bs)" using bs(2) ne by auto
    ultimately have "sd_bytes hc tm (ReadTok a, disk h) (reads (map reverse_byte bs)) = Some (ReadBlk a, disk h)"
      using stay [of "butlast bs" "disk h" "[(0xFF, 0xFE)]"] by simp
    then show ?thesis using bs assms(2) True by simp
  next
    case False
    then have "0x7F \<notin> set bs" using bs(2) by (cases bs rule: rev_cases) (auto split: if_splits)
    from stay [OF this, of "disk h" "[]"] show ?thesis using bs assms(2) False by simp
  qed
qed

text \<open>One byte of a receive loop.\<close>

lemma recv_one:
  assumes "pio_transfer port [] 1 h = (r, h')"
  shows "\<exists>b. r = Some [b] \<and> sd_may hc (phase h) (reverse_byte b) \<and> phase h' = sd_clock tm (phase h) 0xFF (reverse_byte b)
    \<and> disk h' = sd_commit (phase h) (reverse_byte b) (disk h)"
proof -
  obtain bs where bs: "r = Some bs" "length bs = 1"
      "sd_bytes hc tm (bus h) (map (\<lambda>b. (0xFF, reverse_byte b)) bs) = Some (bus h')"
    using pio_recv [OF _ assms] by auto
  then obtain b where "bs = [b]" by (cases bs) auto
  then show ?thesis using bs by (auto split: if_splits)
qed

lemma masked_token: "(b :: u8) AND 0xF8 = 0xA0 \<longleftrightarrow> word_reverse b AND 0x1F = 5"
proof -
  have "word_reverse (b AND 0xF8) = word_reverse b AND word_reverse 0xF8"
    by (rule bit_word_eqI) (auto simp: bit_simps)
  moreover have "word_reverse (0xF8 :: u8) = 0x1F" by (metis rev_consts(4) word_rev_rev)
  moreover have "word_reverse (0xA0 :: u8) = 5" by (metis rev_consts(3) word_rev_rev)
  ultimately show ?thesis by (metis word_rev_rev)
qed

lemma masked_rejected:
  "wait_masked_loop port 0xA0 0xF8 i n h = (r, h') \<Longrightarrow> phase h = WriteRej \<Longrightarrow> i \<noteq> 0xA0 \<Longrightarrow>
     r \<noteq> 5 \<and> phase h' = WriteRej \<and> disk h' = disk h"
proof (induction n arbitrary: i h)
  case 0
  then show ?case using word_rev_gal [of i 5] by (auto simp: wait_masked_loop.simps [of _ _ _ _ 0] rev_consts)
next
  case (Suc n)
  obtain q h1 where q: "pio_transfer port [] 1 h = (q, h1)" by fastforce
  from recv_one [OF q] Suc.prems(2) obtain b where b: "q = Some [b]" "word_reverse b AND 0x1F \<noteq> 5"
    "phase h1 = WriteRej" "disk h1 = disk h" by auto
  have "wait_masked_loop port 0xA0 0xF8 (b AND 0xF8) n h1 = (r, h')"
    using Suc.prems q b(1) by (subst (asm) wait_masked_loop.simps) simp
  then show ?case using Suc.IH [of "b AND 0xF8" h1] b masked_token [of b] by simp
qed

lemma masked_response:
  "wait_masked_loop port 0xA0 0xF8 i n h = (r, h') \<Longrightarrow> phase h = WriteResp a d m \<Longrightarrow> m < n \<Longrightarrow> i \<noteq> 0xA0 \<Longrightarrow>
     (if r = 5 then phase h' = WriteBusy (Suc a) (gap_busy tm) \<and> disk h' = (disk h)(a := d)
      else phase h' = WriteRej \<and> disk h' = disk h)"
proof (induction n arbitrary: i h m)
  case (Suc n)
  obtain q h1 where q: "pio_transfer port [] 1 h = (q, h1)" by fastforce
  from recv_one [OF q] obtain b where b: "q = Some [b]" "sd_may hc (phase h) (word_reverse b)"
    "phase h1 = sd_clock tm (phase h) 0xFF (word_reverse b)" "disk h1 = sd_commit (phase h) (word_reverse b) (disk h)" by auto
  have loop: "wait_masked_loop port 0xA0 0xF8 (b AND 0xF8) n h1 = (r, h')"
    using Suc.prems q b(1) by (subst (asm) wait_masked_loop.simps) simp
  show ?case
  proof (cases "word_reverse b AND 0x1F = 5")
    case True
    then have "(r, h') = (5, h1)" using loop masked_token [of b] word_rev_gal [OF rev_consts(3)]
      by (subst (asm) wait_masked_loop.simps) simp
    then show ?thesis using b True Suc.prems(2) by simp
  next
    case False
    note nt = False masked_token [of b]
    show ?thesis
    proof (cases "word_reverse b = 0xFF")
      case True
      then have "m > 0" "phase h1 = WriteResp a d (m - 1)" "disk h1 = disk h"
        using b Suc.prems(2) False by auto
      then show ?thesis using Suc.IH [OF loop, of "m - 1"] Suc.prems(3) nt by simp
    next
      case f: False
      then have "phase h1 = WriteRej" "disk h1 = disk h" using b Suc.prems(2) False by auto
      then show ?thesis using masked_rejected [OF loop] nt by auto
    qed
  qed
qed simp

lemma busy_ends:
  "wait_equal_loop port 0xFF i n h = (r, h') \<Longrightarrow> phase h = WriteBusy a m \<Longrightarrow> m < n \<Longrightarrow> i \<noteq> 0xFF \<Longrightarrow>
     r = 0 \<and> phase h' = WriteRdy a \<and> disk h' = disk h"
proof (induction n arbitrary: i h m)
  case (Suc n)
  obtain q h1 where q: "pio_transfer port [] 1 h = (q, h1)" by fastforce
  from recv_one [OF q] obtain b where b: "q = Some [b]" "sd_may hc (phase h) (word_reverse b)"
    "phase h1 = sd_clock tm (phase h) 0xFF (word_reverse b)" "disk h1 = sd_commit (phase h) (word_reverse b) (disk h)" by auto
  have loop: "wait_equal_loop port 0xFF b n h1 = (r, h')"
    using Suc.prems q b(1) by (subst (asm) wait_equal_loop.simps) simp
  show ?case
  proof (cases "b = 0xFF")
    case True
    then have "(r, h') = (0, h1)" using loop by (subst (asm) wait_equal_loop.simps) simp
    then show ?thesis using b True Suc.prems(2) by (simp add: rev_consts)
  next
    case False
    then have "word_reverse b \<noteq> 0xFF" using rev_consts(1) by (metis word_rev_rev)
    then have "m > 0" "phase h1 = WriteBusy a (m - 1)" "disk h1 = disk h" using b Suc.prems(2) by auto
    then show ?thesis using Suc.IH [OF loop, of "m - 1"] Suc.prems(3) False by simp
  qed
qed simp

lemma rejected_bytes: "sd_bytes hc tm (WriteRej, dk) (reads bs) = Some (ph', dk') \<Longrightarrow> ph' = WriteRej \<and> dk' = dk"
  by (induction bs) (auto split: if_splits)

lemma rejected_wait:
  assumes "mx_sio2_wait_equal port v n h = (r, h')" "phase h = WriteRej"
  shows "phase h' = WriteRej \<and> disk h' = disk h"
proof -
  obtain bs where "sd_bytes hc tm (bus h) (reads bs) = Some (bus h')"
    using wait_equal_reads [OF assms(1) [unfolded mx_sio2_wait_equal_def]] by metis
  then show ?thesis using rejected_bytes assms(2) by metis
qed

end

end
