(* ===== verification/Sd_Card.thy ===== *)
theory Sd_Card
  imports Sd_Bus
begin

text \<open>
  Bringing an SD card up: \<open>spisd_init_card\<close>, \<open>spisd_get_card_info\<close> and \<open>spisd_recover\<close> of \<open>spi_sdcard_driver.c\<close>, with the
  card register structures of \<open>spi_sdcard_driver.h\<close>, and \<open>mx_sio2_set_baud\<close> of \<open>mx4sio.c\<close>. A card that follows
  the contract of \<open>Sd_Bus\<close> is addressed correctly after every successful initialisation, and recovery always returns.
\<close>

section \<open>State\<close>

datatype card_type = CARD_TYPE_MMC | CARD_TYPE_SDV1 | CARD_TYPE_SDV2 | CARD_TYPE_SDV2HC

record spisd_cid =
  ManufacturerID :: u8
  OEM_AppliID :: u16
  ProdName1 :: u32
  ProdName2 :: u8
  ProdRev :: u8
  ProdSN :: u32
  Reserved1 :: u8
  ManufactDate :: u16
  CID_CRC :: u8

text \<open>The globals \<open>sdcard\<close>, \<open>bd\<close> and the transfer descriptor of the port (\<open>td_baud\<close> is the divider it was built with).\<close>

record 'h spisd =
  sd_hw :: 'h
  sd_csd :: bytes
  sd_cid :: spisd_cid
  sd_type :: card_type
  sd_baud :: u8
  sd_initialized :: u8
  sd_used :: u8
  sd_bd :: block_device
  td_baud :: u8

abbreviation SIO2_BAUD_DIV_SLOW :: u8 where "SIO2_BAUD_DIV_SLOW \<equiv> 0x78"
abbreviation SIO2_BAUD_DIV_FAST :: u8 where "SIO2_BAUD_DIV_FAST \<equiv> 2"
abbreviation SIO2_BAUD_DIV_MEDIUM :: u8 where "SIO2_BAUD_DIV_MEDIUM \<equiv> 4"
abbreviation SIO2_BAUD_DIV_COMPAT :: u8 where "SIO2_BAUD_DIV_COMPAT \<equiv> 8"

section \<open>The port's control words\<close>

definition port_ctrl1 :: "u8 \<Rightarrow> nat \<Rightarrow> u32" where
  "port_ctrl1 baud i = (if i = 3
     then (0x5 AND 0xFF) OR (push_bit 8 0x5 AND 0xFF00) OR (push_bit 16 0x78 AND 0xFF0000) OR (push_bit 24 (ucast baud) AND 0xFF000000)
     else 0)"

definition port_ctrl2 :: "nat \<Rightarrow> u32" where
  "port_ctrl2 i = (if i = 3 then 0x12C AND 0xFFFF else 0)"

definition mx_sio2_init_ports :: "'h sio2_port \<Rightarrow> u8 \<Rightarrow> 'h \<Rightarrow> 'h" where
  "mx_sio2_init_ports port baud h = foldl (\<lambda>h i. sio_port_ctrl port i (port_ctrl1 baud i) (port_ctrl2 i) h) h [0..<4]"

definition mx_sio2_set_baud :: "'h sio2_port \<Rightarrow> u8 \<Rightarrow> 'h spisd \<Rightarrow> 'h spisd" where
  "mx_sio2_set_baud port baud st = st\<lparr>td_baud := baud, sd_hw := mx_sio2_init_ports port baud (sd_hw st)\<rparr>"

section \<open>Initialisation\<close>

text \<open>The CMD0 loop: \<open>do { ... timeout--; } while (response != 1 && timeout > 0)\<close>.\<close>

fun reset_loop :: "'h sio2_port \<Rightarrow> nat \<Rightarrow> 'h \<Rightarrow> u8 \<times> 'h" where
  "reset_loop port timeout h =
     (case spisd_send_cmd port CMD0 0 h of (response, h') \<Rightarrow>
        if response \<noteq> 1 \<and> timeout - 1 > 0 then reset_loop port (timeout - 1) h' else (response, h'))"

text \<open>The CMD55 / ACMD41 pairs; \<open>None\<close> is the early return after a wrong answer to CMD55.\<close>

fun op_cond_loop :: "'h sio2_port \<Rightarrow> u32 \<Rightarrow> nat \<Rightarrow> u8 \<Rightarrow> 'h \<Rightarrow> u8 option \<times> 'h" where
  "op_cond_loop port arg 0 response h = (Some response, h)"
| "op_cond_loop port arg (Suc n) response h =
     (case spisd_send_cmd port CMD55 0 h of (response, h1) \<Rightarrow>
        if response \<noteq> 1 then (None, h1)
        else case spisd_send_cmd port ACMD41 arg h1 of (response, h2) \<Rightarrow>
          if response = 0 then (Some response, h2) else op_cond_loop port arg n response h2)"

fun cmd1_loop :: "'h sio2_port \<Rightarrow> nat \<Rightarrow> u8 \<Rightarrow> 'h \<Rightarrow> u8 \<times> 'h" where
  "cmd1_loop port 0 response h = (response, h)"
| "cmd1_loop port (Suc n) response h =
     (case spisd_send_cmd port CMD1 0 h of (response, h1) \<Rightarrow>
        if response = 0 then (response, h1) else cmd1_loop port n response h1)"

fun dummies :: "'h sio2_port \<Rightarrow> nat \<Rightarrow> 'h \<Rightarrow> 'h" where
  "dummies port 0 h = h"
| "dummies port (Suc n) h = dummies port n (snd (mx_sio2_write_dummy port h))"

declare reset_loop.simps [simp del] op_cond_loop.simps [simp del] cmd1_loop.simps [simp del]

text \<open>The branch of a card that accepted CMD8.\<close>

definition init_v2 :: "'h sio2_port \<Rightarrow> bytes \<Rightarrow> 'h spisd \<Rightarrow> u8 \<times> 'h spisd" where
  "init_v2 port buffer st =
     (if buffer ! 2 = 0x01 \<and> buffer ! 3 = 0xAA then
        case op_cond_loop port 0x40000000 0xFFF 1 (sd_hw st) of
          (None, h) \<Rightarrow> (SPISD_RESULT_TIMEOUT, st\<lparr>sd_hw := h\<rparr>)
        | (Some response, h) \<Rightarrow>
            if response \<noteq> 0 then (SPISD_RESULT_TIMEOUT, st\<lparr>sd_hw := h\<rparr>)
            else case spisd_send_cmd_recv_data port CMD58 0 6 h of (response, buffer, h) \<Rightarrow>
              if response \<noteq> 0 then (SPISD_RESULT_TIMEOUT, st\<lparr>sd_hw := h\<rparr>)
              else (SPISD_RESULT_OK, mx_sio2_set_baud port (sd_baud st)
                     (st\<lparr>sd_hw := h, sd_type := (if buffer ! 0 AND 0x40 \<noteq> 0 then CARD_TYPE_SDV2HC else CARD_TYPE_SDV2)\<rparr>))
      else (SPISD_RESULT_ERROR, st))"

text \<open>The branch of a card that refused it: SD version 1, or MMC when it does not answer ACMD41.\<close>

definition init_v1_type :: "'h sio2_port \<Rightarrow> u8 \<Rightarrow> 'h \<Rightarrow> card_type option \<times> 'h" where
  "init_v1_type port response h =
     (if response \<noteq> 0 then
        case cmd1_loop port 0xFFF response h of (response, h) \<Rightarrow>
          if response \<noteq> 0 then (None, h) else (Some CARD_TYPE_MMC, h)
      else (Some CARD_TYPE_SDV1, h))"

definition init_v1 :: "'h sio2_port \<Rightarrow> u8 \<Rightarrow> 'h spisd \<Rightarrow> u8 \<times> 'h spisd" where
  "init_v1 port response st =
     (let h = snd (mx_sio2_write_dummy port (sd_hw st)) in
      case op_cond_loop port 0 0xFFF response h of
        (None, h) \<Rightarrow> (SPISD_RESULT_TIMEOUT, st\<lparr>sd_hw := h\<rparr>)
      | (Some response, h) \<Rightarrow>
          case init_v1_type port response h of
            (None, h) \<Rightarrow> (SPISD_RESULT_TIMEOUT, st\<lparr>sd_hw := h\<rparr>)
          | (Some ty, h) \<Rightarrow>
              let st = st\<lparr>sd_type := ty\<rparr> in
              case spisd_send_cmd port CMD59 0 h of (response, h) \<Rightarrow>
                if response \<noteq> 0 then (SPISD_RESULT_TIMEOUT, st\<lparr>sd_hw := h\<rparr>)
                else case spisd_send_cmd port CMD16 512 h of (response, h) \<Rightarrow>
                  if response \<noteq> 0 then (SPISD_RESULT_TIMEOUT, st\<lparr>sd_hw := h\<rparr>)
                  else (SPISD_RESULT_OK, mx_sio2_set_baud port (sd_baud st) (st\<lparr>sd_hw := h\<rparr>)))"

definition init_start :: "'h sio2_port \<Rightarrow> 'h spisd \<Rightarrow> 'h spisd" where
  "init_start port st =
     (let st = (if sd_baud st = 0 then st\<lparr>sd_baud := SIO2_BAUD_DIV_FAST\<rparr> else st);
          st = mx_sio2_set_baud port SIO2_BAUD_DIV_SLOW st
      in st\<lparr>sd_hw := dummies port 16 (sd_hw st)\<rparr>)"

definition spisd_init_card :: "'h sio2_port \<Rightarrow> 'h spisd \<Rightarrow> u8 \<times> 'h spisd" where
  "spisd_init_card port st =
     (let st = init_start port st in
      case reset_loop port 50 (sd_hw st) of (response, h) \<Rightarrow>
        if response \<noteq> 1 then (SPISD_RESULT_TIMEOUT, st\<lparr>sd_hw := h\<rparr>)
        else case spisd_send_cmd_recv_data port CMD8 0x1AA 6 h of (response, buffer, h) \<Rightarrow>
          let st = st\<lparr>sd_hw := h\<rparr> in
          if response = 1 then init_v2 port buffer st
          else if response AND 4 \<noteq> 0 then init_v1 port response st
          else (SPISD_RESULT_ERROR, st))"

section \<open>Card information\<close>

text \<open>The fields of the packed bit-field structures \<open>t_csdVer1\<close> and \<open>t_csdVer2\<close>, which are allocated from the least
  significant bit of each byte.\<close>

definition csd_structure :: "bytes \<Rightarrow> u8" where "csd_structure csd = drop_bit 6 (csd ! 0)"

definition v1_read_bl_len :: "bytes \<Rightarrow> u32" where "v1_read_bl_len csd = ucast (csd ! 5 AND 0xF)"
definition v1_c_sizeHi :: "bytes \<Rightarrow> u32" where "v1_c_sizeHi csd = ucast (csd ! 6 AND 3)"
definition v1_c_sizeMd :: "bytes \<Rightarrow> u32" where "v1_c_sizeMd csd = ucast (csd ! 7)"
definition v1_c_sizeLo :: "bytes \<Rightarrow> u32" where "v1_c_sizeLo csd = ucast (csd ! 8 AND 3)"
definition v1_c_size_multHi :: "bytes \<Rightarrow> u32" where "v1_c_size_multHi csd = ucast (csd ! 9 AND 3)"
definition v1_c_size_multLo :: "bytes \<Rightarrow> u32" where "v1_c_size_multLo csd = ucast (csd ! 10 AND 1)"
definition v2_c_sizeHi :: "bytes \<Rightarrow> u32" where "v2_c_sizeHi csd = ucast (csd ! 7 AND 0x3F)"
definition v2_c_sizeMd :: "bytes \<Rightarrow> u32" where "v2_c_sizeMd csd = ucast (csd ! 8)"
definition v2_c_sizeLo :: "bytes \<Rightarrow> u32" where "v2_c_sizeLo csd = ucast (csd ! 9)"

definition csd_sectors_v1 :: "bytes \<Rightarrow> u64" where
  "csd_sectors_v1 csd =
     (let c_size_mult = push_bit 1 (v1_c_size_multHi csd) OR v1_c_size_multLo csd;
          c_size = push_bit 10 (v1_c_sizeHi csd) OR push_bit 2 (v1_c_sizeMd csd) OR v1_c_sizeLo csd;
          blockNr = push_bit (unat (c_size_mult + 2)) (ucast c_size + 1);
          blockLen = push_bit (unat (v1_read_bl_len csd)) 1;
          capacity = blockNr * blockLen
      in capacity div 512)"

definition csd_sectors_v2 :: "bytes \<Rightarrow> u64" where
  "csd_sectors_v2 csd =
     (let c_size = push_bit 16 (v2_c_sizeHi csd) OR push_bit 8 (v2_c_sizeMd csd) OR v2_c_sizeLo csd
      in (ucast c_size + 1) * 1024)"

definition cid_of :: "bytes \<Rightarrow> spisd_cid" where
  "cid_of reg = \<lparr>
     ManufacturerID = reg ! 0,
     OEM_AppliID = push_bit 8 (ucast (reg ! 1)) OR ucast (reg ! 2),
     ProdName1 = push_bit 24 (ucast (reg ! 3)) OR push_bit 16 (ucast (reg ! 4)) OR push_bit 8 (ucast (reg ! 5)) OR ucast (reg ! 6),
     ProdName2 = reg ! 7,
     ProdRev = reg ! 8,
     ProdSN = push_bit 24 (ucast (reg ! 9)) OR push_bit 16 (ucast (reg ! 10)) OR push_bit 8 (ucast (reg ! 11)) OR ucast (reg ! 12),
     Reserved1 = drop_bit 4 (reg ! 13 AND 0xF0),
     ManufactDate = push_bit 8 (ucast (reg ! 13 AND 0x0F)) OR ucast (reg ! 14),
     CID_CRC = drop_bit 1 (reg ! 15 AND 0xFE)\<rparr>"

definition set_count :: "u64 \<Rightarrow> 'h spisd \<Rightarrow> 'h spisd" where
  "set_count n st = st\<lparr>sd_bd := (sd_bd st)\<lparr>sectorCount := n\<rparr>\<rparr>"

text \<open>The capacity from the stored CSD.\<close>

definition csd_capacity :: "'h spisd \<Rightarrow> u8 \<times> 'h spisd" where
  "csd_capacity st =
     (if csd_structure (sd_csd st) \<noteq> 0 \<and> csd_structure (sd_csd st) \<noteq> 1 then (SPISD_RESULT_ERROR, st)
      else let st = set_count (if csd_structure (sd_csd st) = 0 then csd_sectors_v1 (sd_csd st) else csd_sectors_v2 (sd_csd st)) st
           in (if sectorCount (sd_bd st) = 0 then SPISD_RESULT_ERROR else SPISD_RESULT_OK, st))"

text \<open>One register: the command, the register after its token, and the dummy write.\<close>

definition spisd_get_card_info :: "'h sio2_port \<Rightarrow> 'h spisd \<Rightarrow> u8 \<times> 'h spisd" where
  "spisd_get_card_info port st =
     (let st = set_count 0 st in
      case spisd_send_cmd port CMD9 0 (sd_hw st) of (result, h) \<Rightarrow>
      if result \<noteq> 0 then (result, st\<lparr>sd_hw := h\<rparr>)
      else case spisd_read_register port 18 h of (result, reg_data, h) \<Rightarrow>
      let h = snd (mx_sio2_write_dummy port h) in
      if result \<noteq> 0 then (SPISD_RESULT_ERROR, st\<lparr>sd_hw := h\<rparr>)
      else let st = st\<lparr>sd_csd := take 16 reg_data\<rparr> in
      case spisd_send_cmd port CMD10 0 h of (result, h) \<Rightarrow>
      if result \<noteq> 0 then (SPISD_RESULT_ERROR, st\<lparr>sd_hw := h\<rparr>)
      else case spisd_read_register port 18 h of (result, reg_data, h) \<Rightarrow>
      let h = snd (mx_sio2_write_dummy port h) in
      if result \<noteq> 0 then (SPISD_RESULT_ERROR, st\<lparr>sd_hw := h\<rparr>)
      else csd_capacity (st\<lparr>sd_hw := h, sd_cid := cid_of reg_data\<rparr>))"

section \<open>Recovery\<close>

fun flush_loop :: "'h sio2_port \<Rightarrow> nat \<Rightarrow> 'h \<Rightarrow> bool \<times> 'h" where
  "flush_loop port 0 h = (True, h)"
| "flush_loop port (Suc n) h =
     (case mx_sio2_rx_pio port 4 h of (r, d, h') \<Rightarrow> if r \<noteq> SPISD_RESULT_OK then (False, h') else flush_loop port n h')"

definition lower_baud :: "u8 \<Rightarrow> u8" where
  "lower_baud b = (if b = SIO2_BAUD_DIV_FAST then SIO2_BAUD_DIV_MEDIUM else SIO2_BAUD_DIV_COMPAT)"

text \<open>What a call may change: never the current divider, once it is set.\<close>

lemma set_baud_sel [simp]:
  "sd_baud (mx_sio2_set_baud port b st) = sd_baud st" "sd_type (mx_sio2_set_baud port b st) = sd_type st"
  "sd_initialized (mx_sio2_set_baud port b st) = sd_initialized st" "sd_used (mx_sio2_set_baud port b st) = sd_used st"
  "sd_bd (mx_sio2_set_baud port b st) = sd_bd st" "sd_csd (mx_sio2_set_baud port b st) = sd_csd st"
  "sd_hw (mx_sio2_set_baud port b st) = mx_sio2_init_ports port b (sd_hw st)"
  by (simp_all add: mx_sio2_set_baud_def)

lemma init_baud: "sd_baud st \<noteq> 0 \<Longrightarrow> spisd_init_card port st = (r, st') \<Longrightarrow> sd_baud st' = sd_baud st"
  by (auto simp: spisd_init_card_def init_start_def init_v2_def init_v1_def Let_def split: prod.splits option.splits if_splits)

lemma set_count_sel [simp]:
  "sd_baud (set_count n st) = sd_baud st" "sd_type (set_count n st) = sd_type st" "sd_hw (set_count n st) = sd_hw st"
  "sd_initialized (set_count n st) = sd_initialized st" "sd_used (set_count n st) = sd_used st" "sd_csd (set_count n st) = sd_csd st"
  by (simp_all add: set_count_def)

lemma info_baud: "spisd_get_card_info port st = (r, st') \<Longrightarrow> sd_baud st' = sd_baud st"
  by (auto simp: spisd_get_card_info_def csd_capacity_def Let_def split: prod.splits if_splits)

function spisd_recover :: "'h sio2_port \<Rightarrow> 'h spisd \<Rightarrow> u8 \<times> 'h spisd" where
  "spisd_recover port st =
     (let st = st\<lparr>sd_baud := lower_baud (sd_baud st)\<rparr> in
      case flush_loop port 64 (sd_hw st) of (ok, h) \<Rightarrow>
      if \<not> ok then (SPISD_RESULT_ERROR, st\<lparr>sd_hw := h\<rparr>)
      else case spisd_init_card port (st\<lparr>sd_hw := h\<rparr>) of (r, st) \<Rightarrow>
      if r \<noteq> SPISD_RESULT_OK then (SPISD_RESULT_ERROR, st)
      else case spisd_get_card_info port st of (r, st) \<Rightarrow>
      if r = SPISD_RESULT_OK then (SPISD_RESULT_OK, st)
      else if sd_baud st = SIO2_BAUD_DIV_COMPAT then (SPISD_RESULT_ERROR, st)
      else spisd_recover port st)"
  by pat_completeness auto

text \<open>The loop runs at most twice: from the fast divider over the medium one to the compatible one.\<close>

termination
proof (relation "measure (\<lambda>(port, st). if sd_baud st = SIO2_BAUD_DIV_FAST then 1 else 0)")
qed (auto simp: lower_baud_def dest!: info_baud [OF sym] init_baud [OF _ sym, rotated] split: if_splits)

declare spisd_recover.simps [simp del]

section \<open>The capacity in the register\<close>

text \<open>The CSD is a 128-bit number sent from its top byte; its fields are bit ranges of that number.\<close>

definition reg_num :: "bytes \<Rightarrow> nat" where
  "reg_num reg = foldl (\<lambda>n b. n * 256 + unat b) 0 reg"

definition reg_field :: "bytes \<Rightarrow> nat \<Rightarrow> nat \<Rightarrow> nat" where
  "reg_field reg hi lo = reg_num reg div 2 ^ lo mod 2 ^ (hi + 1 - lo)"

lemma reg_num_byte: "reg_num (xs @ [b]) = reg_num xs * 256 + unat b"
  by (simp add: reg_num_def)

lemma reg_num_append: "reg_num (xs @ ys) = reg_num xs * 256 ^ length ys + reg_num ys"
proof (induction ys rule: rev_induct)
  case (snoc y ys)
  have "reg_num (xs @ ys @ [y]) = reg_num (xs @ ys) * 256 + unat y" using reg_num_byte [of "xs @ ys" y] by simp
  then show ?case using snoc by (simp add: reg_num_byte add_mult_distrib)
qed (simp add: reg_num_def)

lemma reg_num_less: "reg_num xs < 256 ^ length xs"
proof (induction xs rule: rev_induct)
  case (snoc x xs)
  have "unat x < 256" using unat_bound [of 8 x] by simp
  moreover have "Suc (reg_num xs) \<le> 256 ^ length xs" using snoc by simp
  then have "Suc (reg_num xs) * 256 \<le> 256 ^ length xs * 256" by (rule mult_right_mono) simp
  ultimately show ?case by (simp add: reg_num_byte)
qed (simp add: reg_num_def)

text \<open>A field that ends inside byte \<open>k\<close> of 16: the bytes after it do not matter.\<close>

lemma reg_field_prefix:
  assumes "length reg = 16" "k < 16" "lo = 8 * (15 - k) + j" "j < 8"
  shows "reg_field reg hi lo = reg_num (take (Suc k) reg) div 2 ^ j mod 2 ^ (hi + 1 - lo)"
proof -
  have "reg_num reg = reg_num (take (Suc k) reg) * 256 ^ (15 - k) + reg_num (drop (Suc k) reg)"
    using reg_num_append [of "take (Suc k) reg" "drop (Suc k) reg"] assms(1,2) by simp
  moreover have "reg_num (drop (Suc k) reg) < 256 ^ (15 - k)"
    using reg_num_less [of "drop (Suc k) reg"] assms(1,2) by simp
  ultimately have "reg_num reg div 256 ^ (15 - k) = reg_num (take (Suc k) reg)" by simp
  moreover have "(2 :: nat) ^ lo = 256 ^ (15 - k) * 2 ^ j"
    using assms(3) by (simp add: power_add power_mult)
  ultimately show ?thesis by (simp add: reg_field_def div_mult2_eq)
qed

lemma take_bytes:
  assumes "k < length reg"
  shows "reg_num (take (Suc k) reg) = reg_num (take k reg) * 256 + unat (reg ! k)"
  using reg_num_byte [of "take k reg" "reg ! k"] assms by (simp add: take_Suc_conv_app_nth)

text \<open>The sector count the specification prescribes.\<close>

definition spec_sectors :: "bytes \<Rightarrow> nat" where
  "spec_sectors csd =
     (if reg_field csd 127 126 = 0
      then (reg_field csd 73 62 + 1) * 2 ^ (reg_field csd 49 47 + 2) * 2 ^ reg_field csd 83 80 div 512
      else (reg_field csd 69 48 + 1) * 1024)"

lemma unat_masked:
  "unat (b AND 0x3F :: u8) = unat b mod 64" "unat (b AND 3 :: u8) = unat b mod 4"
  "unat (b AND 0xF :: u8) = unat b mod 16" "unat (b AND 1 :: u8) = unat b mod 2"
  using unat_and_mask [of b 6] unat_and_mask [of b 2] unat_and_mask [of b 4] unat_and_mask [of b 1]
  by (simp_all add: mask_eq_exp_minus_1)

text \<open>Bit ranges that begin or end inside a byte.\<close>

lemma mod_high: "x < m \<Longrightarrow> (q * m + x) mod m = (x :: nat)"
  by simp

lemma range_69_48:
  fixes r b y z :: nat
  assumes "y < 256" "z < 256"
  shows "(((r * 256 + b) * 256 + y) * 256 + z) mod 4194304 = b mod 64 * 65536 + (y * 256 + z)"
proof -
  obtain q x where q: "b = q * 64 + x" "x < 64" by (metis div_mult_mod_eq mod_less_divisor zero_less_numeral)
  have "((r * 256 + b) * 256 + y) * 256 + z = (r * 4 + q) * 4194304 + (x * 65536 + (y * 256 + z))"
    by (simp add: q algebra_simps)
  moreover have "x * 65536 + (y * 256 + z) < 4194304" using assms q(2) by linarith
  ultimately show ?thesis using q by (simp only: mod_high)
qed

lemma range_73_62:
  fixes r b6 b7 b8 :: nat
  assumes "b7 < 256" "b8 < 256"
  shows "(((r * 256 + b6) * 256 + b7) * 256 + b8) div 64 mod 4096 = b6 mod 4 * 1024 + (b7 * 4 + b8 div 64)"
proof -
  obtain q x where q: "b6 = q * 4 + x" "x < 4" by (metis div_mult_mod_eq mod_less_divisor zero_less_numeral)
  obtain k y where k: "b8 = k * 64 + y" "y < 64" by (metis div_mult_mod_eq mod_less_divisor zero_less_numeral)
  have "((r * 256 + b6) * 256 + b7) * 256 + b8 = ((r * 64 + q) * 4096 + (x * 1024 + (b7 * 4 + k))) * 64 + y"
    by (simp add: q k algebra_simps)
  then have "(((r * 256 + b6) * 256 + b7) * 256 + b8) div 64 = (r * 64 + q) * 4096 + (x * 1024 + (b7 * 4 + k))"
    using k(2) by simp
  moreover have "x * 1024 + (b7 * 4 + k) < 4096" using assms q(2) k by linarith
  ultimately show ?thesis using q k by (simp only: mod_high)
qed

lemma range_49_47:
  fixes r b9 b10 :: nat
  assumes "b10 < 256"
  shows "((r * 256 + b9) * 256 + b10) div 128 mod 8 = b9 mod 4 * 2 + b10 div 128"
proof -
  obtain q x where q: "b9 = q * 4 + x" "x < 4" by (metis div_mult_mod_eq mod_less_divisor zero_less_numeral)
  obtain k y where k: "b10 = k * 128 + y" "y < 128" by (metis div_mult_mod_eq mod_less_divisor zero_less_numeral)
  have "(r * 256 + b9) * 256 + b10 = ((r * 64 + q) * 8 + (x * 2 + k)) * 128 + y"
    by (simp add: q k algebra_simps)
  then have "((r * 256 + b9) * 256 + b10) div 128 = (r * 64 + q) * 8 + (x * 2 + k)"
    using k(2) by simp
  moreover have "x * 2 + k < 8" using assms q(2) k by linarith
  ultimately show ?thesis using q k by (simp only: mod_high)
qed

lemma range_83_80: "((r :: nat) * 256 + b) mod 16 = b mod 16"
proof -
  have "r * 256 + b = b + (r * 16) * 16" by simp
  then show ?thesis by (simp only: mod_mult_self1)
qed

lemma v2_fields:
  assumes "length csd = 16"
  shows "unat (push_bit 16 (v2_c_sizeHi csd) OR push_bit 8 (v2_c_sizeMd csd) OR v2_c_sizeLo csd :: u32) = reg_field csd 69 48"
proof -
  define x y z where "x = unat (csd ! 7) mod 64" and "y = unat (csd ! 8)" and "z = unat (csd ! 9)"
  have lt: "x < 64" "y < 256" "z < 256" using unat_lt_u8 by (simp_all add: x_def y_def z_def)
  have u: "unat (v2_c_sizeHi csd) = x" "unat (v2_c_sizeMd csd) = y" "unat (v2_c_sizeLo csd) = z"
    by (simp_all add: v2_c_sizeHi_def v2_c_sizeMd_def v2_c_sizeLo_def unat_ucast_up unat_masked x_def y_def z_def)
  have "unat (push_bit 8 (v2_c_sizeMd csd) OR v2_c_sizeLo csd) = y * 256 + z"
    using unat_or_field [of "v2_c_sizeLo csd" 8 "v2_c_sizeMd csd"] u lt by simp
  then have "unat (push_bit 16 (v2_c_sizeHi csd) OR (push_bit 8 (v2_c_sizeMd csd) OR v2_c_sizeLo csd)) = x * 65536 + (y * 256 + z)"
    using unat_or_field [of "push_bit 8 (v2_c_sizeMd csd) OR v2_c_sizeLo csd" 16 "v2_c_sizeHi csd"] u lt by simp
  moreover have "reg_field csd 69 48 = reg_num (take 10 csd) mod 4194304"
    using reg_field_prefix [of csd 9 48 0 69] assms by simp
  moreover have "reg_num (take 10 csd) = ((reg_num (take 7 csd) * 256 + unat (csd ! 7)) * 256 + y) * 256 + z"
    using take_bytes [of 9 csd] take_bytes [of 8 csd] take_bytes [of 7 csd] assms by (simp add: y_def z_def)
  moreover have "\<dots> mod 4194304 = x * 65536 + (y * 256 + z)" using range_69_48 [OF lt(2,3)] by (simp add: x_def)
  ultimately show ?thesis by (simp add: or.assoc)
qed

lemma csd_structure_field: "length csd = 16 \<Longrightarrow> reg_field csd 127 126 = unat (csd_structure csd)"
  using reg_field_prefix [of csd 0 126 6 127] take_bytes [of 0 csd] unat_lt_u8 [of "csd ! 0"]
  by (simp add: csd_structure_def unat_drop_bit reg_num_def)

text \<open>Version 1: what the code computes, and what the register says.\<close>

lemma v1_code:
  defines "code csd \<equiv> ((unat (csd ! 6) mod 4 * 1024 + (unat (csd ! 7) * 4 + unat (csd ! 8) mod 4)) + 1)
      * 2 ^ (unat (csd ! 9) mod 4 * 2 + unat (csd ! 10) mod 2 + 2) * 2 ^ (unat (csd ! 5) mod 16)"
  shows "unat (csd_sectors_v1 csd) = code csd div 512"
proof -
  define hi md lo mh ml bl where "hi = unat (csd ! 6) mod 4" and "md = unat (csd ! 7)" and "lo = unat (csd ! 8) mod 4"
    and "mh = unat (csd ! 9) mod 4" and "ml = unat (csd ! 10) mod 2" and "bl = unat (csd ! 5) mod 16"
  note ds = hi_def md_def lo_def mh_def ml_def bl_def
  have lt: "hi < 4" "md < 256" "lo < 4" "mh < 4" "ml < 2" "bl < 16" using unat_lt_u8 by (simp_all add: ds)
  have u: "unat (v1_c_sizeHi csd) = hi" "unat (v1_c_sizeMd csd) = md" "unat (v1_c_sizeLo csd) = lo"
    "unat (v1_c_size_multHi csd) = mh" "unat (v1_c_size_multLo csd) = ml" "unat (v1_read_bl_len csd) = bl"
    by (simp_all add: v1_c_sizeHi_def v1_c_sizeMd_def v1_c_sizeLo_def v1_c_size_multHi_def v1_c_size_multLo_def
      v1_read_bl_len_def unat_ucast_up unat_masked ds)
  define c_size where "c_size = push_bit 10 (v1_c_sizeHi csd) OR push_bit 2 (v1_c_sizeMd csd) OR v1_c_sizeLo csd"
  define mult where "mult = push_bit 1 (v1_c_size_multHi csd) OR v1_c_size_multLo csd"
  have "unat (push_bit 2 (v1_c_sizeMd csd) OR v1_c_sizeLo csd) = md * 4 + lo"
    using unat_or_field [of "v1_c_sizeLo csd" 2 "v1_c_sizeMd csd"] u lt by simp
  then have c: "unat c_size = hi * 1024 + (md * 4 + lo)"
    using unat_or_field [of "push_bit 2 (v1_c_sizeMd csd) OR v1_c_sizeLo csd" 10 "v1_c_sizeHi csd"] u lt
    by (simp add: c_size_def or.assoc)
  have "unat mult = mh * 2 + ml"
    using unat_or_field [of "v1_c_size_multLo csd" 1 "v1_c_size_multHi csd"] u lt by (simp add: mult_def)
  then have m: "unat (mult + 2) = mh * 2 + ml + 2" using lt by (subst unat_add_lt) simp_all
  define n where "n = hi * 1024 + (md * 4 + lo) + 1"
  define e where "e = mh * 2 + ml + 2"
  have n: "n \<le> 4096" "e \<le> 9" using lt by (simp_all add: n_def e_def)
  have w: "unat (push_bit e (x :: u64)) = unat x * 2 ^ e" if "unat x * 2 ^ e < 2 ^ 64" for x e
    using that by (simp only: unsigned_push_bit_eq) (simp add: push_bit_eq_mult take_bit_nat_eq_self)
  have pe: "(2 :: nat) ^ e \<le> 2 ^ 9" "(2 :: nat) ^ bl \<le> 2 ^ 15"
    using n(2) lt(6) by (auto intro: power_increasing simp del: power_numeral)
  have ne: "n * 2 ^ e \<le> 4096 * 2 ^ 9" using n pe(1) by (intro mult_mono) simp_all
  have neb: "n * 2 ^ e * 2 ^ bl \<le> 4096 * 2 ^ 9 * 2 ^ 15" by (rule mult_le_mono [OF ne pe(2)])
  have un: "unat (ucast c_size + 1 :: u64) = n"
    using c lt by (subst unat_add_lt) (simp_all add: n_def)
  have b1: "unat (push_bit e (ucast c_size + 1 :: u64)) = n * 2 ^ e" using w [of "ucast c_size + 1" e] un ne by simp
  have b2: "unat (push_bit bl 1 :: u64) = 2 ^ bl" using w [of 1 bl] pe(2) by simp
  have prod: "unat (push_bit e (ucast c_size + 1) * push_bit bl 1 :: u64) = n * 2 ^ e * 2 ^ bl"
    using neb b1 b2 by (simp add: unat_word_ariths(2) del: push_bit_of_1)
  have "csd_sectors_v1 csd = push_bit (unat (mult + 2)) (ucast c_size + 1) * push_bit (unat (v1_read_bl_len csd)) 1 div 512"
    by (simp only: csd_sectors_v1_def Let_def c_size_def mult_def)
  then have "csd_sectors_v1 csd = (push_bit e (ucast c_size + 1) * push_bit bl 1) div 512"
    by (simp only: m u(6) e_def)
  then have "unat (csd_sectors_v1 csd) = n * 2 ^ e * 2 ^ bl div 512"
    using prod by (simp only: unat_div) simp
  then show ?thesis by (simp add: code_def n_def e_def ds)
qed

lemma v1_field_size:
  assumes "length csd = 16"
  shows "reg_field csd 73 62 = unat (csd ! 6) mod 4 * 1024 + (unat (csd ! 7) * 4 + unat (csd ! 8) div 64)"
proof -
  define r b6 b7 b8 where "r = reg_num (take 6 csd)" and "b6 = unat (csd ! 6)" and "b7 = unat (csd ! 7)" and "b8 = unat (csd ! 8)"
  have lt: "b7 < 256" "b8 < 256" using unat_lt_u8 by (simp_all add: b7_def b8_def)
  have "reg_num (take 9 csd) = ((r * 256 + b6) * 256 + b7) * 256 + b8"
    using take_bytes [of 8 csd] take_bytes [of 7 csd] take_bytes [of 6 csd] assms by (simp add: r_def b6_def b7_def b8_def)
  then have "reg_num (take 9 csd) div 64 mod 4096 = b6 mod 4 * 1024 + (b7 * 4 + b8 div 64)"
    using range_73_62 [OF lt] by simp
  then show ?thesis using reg_field_prefix [of csd 8 62 6 73] assms by (simp add: b6_def b7_def b8_def)
qed

lemma v1_field_mult:
  assumes "length csd = 16"
  shows "reg_field csd 49 47 = unat (csd ! 9) mod 4 * 2 + unat (csd ! 10) div 128"
proof -
  define r b9 b10 where "r = reg_num (take 9 csd)" and "b9 = unat (csd ! 9)" and "b10 = unat (csd ! 10)"
  have lt: "b10 < 256" using unat_lt_u8 by (simp add: b10_def)
  have "reg_num (take 11 csd) = (r * 256 + b9) * 256 + b10"
    using take_bytes [of 10 csd] take_bytes [of 9 csd] assms by (simp add: r_def b9_def b10_def)
  then have "reg_num (take 11 csd) div 128 mod 8 = b9 mod 4 * 2 + b10 div 128"
    using range_49_47 [OF lt] by simp
  then show ?thesis using reg_field_prefix [of csd 10 47 7 49] assms by (simp add: b9_def b10_def)
qed

lemma v1_field_len:
  assumes "length csd = 16"
  shows "reg_field csd 83 80 = unat (csd ! 5) mod 16"
proof -
  have "reg_num (take 6 csd) = reg_num (take 5 csd) * 256 + unat (csd ! 5)" using take_bytes [of 5 csd] assms by simp
  then show ?thesis using reg_field_prefix [of csd 5 80 0 83] assms range_83_80 by simp
qed

text \<open>The bits the code reads for the lowest bits of both fields.\<close>

definition v1_bits_agree :: "bytes \<Rightarrow> bool" where
  "v1_bits_agree csd \<longleftrightarrow> csd ! 8 AND 3 = drop_bit 6 (csd ! 8) \<and> csd ! 10 AND 1 = drop_bit 7 (csd ! 10)"

section \<open>Under the contract of the card\<close>

context sd_card
begin

text \<open>The driver knows how the card is addressed, and the card is ready for a command.\<close>

definition type_ok :: "'h spisd \<Rightarrow> bool" where
  "type_ok st \<longleftrightarrow> (sd_type st = CARD_TYPE_SDV2HC \<longleftrightarrow> hc)"

definition sd_ready :: "'h spisd \<Rightarrow> bool" where
  "sd_ready st \<longleftrightarrow> phase (sd_hw st) = Ready \<and> type_ok st"

text \<open>\<open>h'\<close> follows from \<open>h\<close> by transfers that store nothing.\<close>

definition keeps :: "'h \<Rightarrow> 'h \<Rightarrow> bool" where
  "keeps h h' \<longleftrightarrow> safe (phase h) \<longrightarrow> safe (phase h') \<and> disk h' = disk h"

lemma keeps_refl [simp]: "keeps h h"
  by (simp add: keeps_def)

lemma keeps_trans: "keeps a b \<Longrightarrow> keeps b c \<Longrightarrow> keeps a c"
  by (simp add: keeps_def)

lemma keeps_ports: "keeps h (mx_sio2_init_ports port b h) \<and> phase (mx_sio2_init_ports port b h) = phase h
    \<and> disk (mx_sio2_init_ports port b h) = disk h"
  by (simp add: keeps_def mx_sio2_init_ports_def upt_rec port_ctrl)

lemma keeps_send: "spisd_send_cmd port c arg h = (r, h') \<Longrightarrow> keeps h h'"
  unfolding keeps_def using send_cmd_safe by blast

lemma keeps_dummy: "keeps h (snd (mx_sio2_write_dummy port h))"
  unfolding keeps_def using safe_dummy [of h] by (metis prod.collapse)

lemma ready_dummy: "phase h = Ready \<Longrightarrow> phase (snd (mx_sio2_write_dummy port h)) = Ready"
  using safe_dummy [of h "fst (mx_sio2_write_dummy port h)"] by (simp add: safe_def)

lemma keeps_dummies: "keeps h (dummies port n h)"
  by (induction n arbitrary: h) (auto intro: keeps_trans keeps_dummy)

lemma reset_loop_ok:
  "reset_loop port n h = (r, h') \<Longrightarrow> safe (phase h) \<Longrightarrow> keeps h h' \<and> (r = 1 \<longrightarrow> phase h' = Ready)"
proof (induction n arbitrary: h)
  case 0
  then show ?case using send_reset keeps_send by (auto simp: reset_loop.simps [of _ 0] split: prod.splits)
next
  case (Suc n)
  obtain r1 h1 where c: "spisd_send_cmd port CMD0 0 h = (r1, h1)" by fastforce
  note k = keeps_send [OF c]
  then have s1: "safe (phase h1)" using Suc.prems(2) by (simp add: keeps_def)
  show ?case
  proof (cases "r1 \<noteq> 1 \<and> n > 0")
    case True
    then have "reset_loop port n h1 = (r, h')" using Suc.prems(1) c by (simp add: reset_loop.simps [of _ "Suc n"])
    then show ?thesis using Suc.IH s1 k keeps_trans by blast
  next
    case False
    then have "(r, h') = (r1, h1)" using Suc.prems(1) c by (auto simp: reset_loop.simps [of _ "Suc n"])
    then show ?thesis using k send_reset [OF c Suc.prems(2)] by simp
  qed
qed

text \<open>Any other command leaves a ready card ready.\<close>

lemma send_ready:
  assumes "spisd_send_cmd port c arg h = (r, h')" "phase h = Ready" "c \<notin> {CMD0, CMD8, CMD18, CMD25, CMD58}"
  shows "phase h' = Ready \<and> keeps h h'"
  using send_cmd_safe [OF assms(1)] assms(2,3) by (simp add: safe_def keeps_def)

lemma op_cond_ready:
  "op_cond_loop port arg n r h = (q, h') \<Longrightarrow> phase h = Ready \<Longrightarrow> phase h' = Ready \<and> keeps h h'"
proof (induction n arbitrary: r h)
  case (Suc n)
  obtain r1 h1 where 1: "spisd_send_cmd port CMD55 0 h = (r1, h1)" by fastforce
  obtain r2 h2 where 2: "spisd_send_cmd port ACMD41 arg h1 = (r2, h2)" by fastforce
  note a = send_ready [OF 1 Suc.prems(2), simplified]
  note b = send_ready [OF 2 a [THEN conjunct1], simplified]
  show ?case using Suc.prems(1) a b 1 2 Suc.IH [of r2 h2]
    by (auto simp: op_cond_loop.simps intro: keeps_trans split: if_splits)
qed (simp add: op_cond_loop.simps)

lemma cmd1_ready:
  "cmd1_loop port n r h = (q, h') \<Longrightarrow> phase h = Ready \<Longrightarrow> phase h' = Ready \<and> keeps h h'"
proof (induction n arbitrary: r h)
  case (Suc n)
  obtain r1 h1 where 1: "spisd_send_cmd port CMD1 0 h = (r1, h1)" by fastforce
  note a = send_ready [OF 1 Suc.prems(2), simplified]
  show ?case using Suc.prems(1) a 1 Suc.IH [of r1 h1] by (auto simp: cmd1_loop.simps intro: keeps_trans split: if_splits)
qed (simp add: cmd1_loop.simps)

lemma and_40: "(x :: u8) AND 0x40 = 0 \<longleftrightarrow> \<not> bit x 6"
  using bit_iff_and_push_bit_not_eq_0 [of x 6] by simp

lemma and_4: "(x :: u8) AND 4 = 0 \<longleftrightarrow> \<not> bit x 2"
  using bit_iff_and_push_bit_not_eq_0 [of x 2] by simp

lemma init_v2_ok:
  assumes "init_v2 port buffer st = (r, st')" "phase (sd_hw st) = Ready"
  shows "keeps (sd_hw st) (sd_hw st') \<and> (r = 0 \<longrightarrow> sd_ready st') \<and> (type_ok st \<longrightarrow> type_ok st')"
proof (cases "buffer ! 2 = 1 \<and> buffer ! 3 = 0xAA")
  case False
  then show ?thesis using assms by (auto simp: init_v2_def)
next
  case True
  obtain q h1 where q: "op_cond_loop port 0x40000000 0xFFF 1 (sd_hw st) = (q, h1)" by fastforce
  note a = op_cond_ready [OF q assms(2)]
  obtain r2 d h2 where b: "spisd_send_cmd_recv_data port CMD58 0 6 h1 = (r2, d, h2)" by (metis prod_cases3)
  note o = recv_ocr [OF b a [THEN conjunct1], simplified]
  have "keeps h1 h2" using o by (simp add: keeps_def)
  then have k: "keeps (sd_hw st) h2" using a keeps_trans by blast
  show ?thesis
    using assms(1) True q b a o k keeps_ports [of h2] keeps_trans [OF k]
    by (auto simp: init_v2_def sd_ready_def type_ok_def and_40 split: option.splits if_splits)
qed

lemma init_v1_ok:
  assumes "init_v1 port response st = (r, st')" "phase (sd_hw st) = Ready" "\<not> hc"
  shows "keeps (sd_hw st) (sd_hw st') \<and> (r = 0 \<longrightarrow> sd_ready st') \<and> (type_ok st \<longrightarrow> type_ok st')"
proof -
  define h0 where "h0 = snd (mx_sio2_write_dummy port (sd_hw st))"
  have h0: "phase h0 = Ready" "keeps (sd_hw st) h0" using ready_dummy [OF assms(2)] keeps_dummy by (simp_all add: h0_def)
  obtain q h1 where q: "op_cond_loop port 0 0xFFF response h0 = (q, h1)" by fastforce
  note a = op_cond_ready [OF q h0(1)]
  have k1: "keeps (sd_hw st) h1" using keeps_trans [OF h0(2)] a by blast
  show ?thesis
  proof (cases q)
    case None
    then show ?thesis using assms(1) q k1 by (auto simp: init_v1_def Let_def type_ok_def simp flip: h0_def)
  next
    case (Some response1)
    obtain ty h2 where t: "init_v1_type port response1 h1 = (ty, h2)" by fastforce
    have t2: "phase h2 = Ready \<and> keeps h1 h2" "ty \<noteq> Some CARD_TYPE_SDV2HC"
      using t a cmd1_ready [of "0xFFF" response1 h1] by (auto simp: init_v1_type_def split: if_splits prod.splits)
    have k2: "keeps (sd_hw st) h2" using keeps_trans [OF k1] t2 by blast
    obtain r3 h3 where c3: "spisd_send_cmd port CMD59 0 h2 = (r3, h3)" by fastforce
    note a3 = send_ready [OF c3 t2(1) [THEN conjunct1], simplified]
    obtain r4 h4 where c4: "spisd_send_cmd port CMD16 512 h3 = (r4, h4)" by fastforce
    note a4 = send_ready [OF c4 a3 [THEN conjunct1], simplified]
    have k3: "keeps (sd_hw st) h3" using keeps_trans [OF k2] a3 by blast
    have k4: "keeps (sd_hw st) h4" using keeps_trans [OF k3] a4 by blast
    have k5: "keeps (sd_hw st) (mx_sio2_init_ports port b h4)" for b using keeps_trans [OF k4] keeps_ports by blast
    have rd: "ty = Some t \<Longrightarrow> sd_ready (mx_sio2_set_baud port b (st\<lparr>sd_type := t, sd_hw := h4\<rparr>))" for t b
      unfolding sd_ready_def type_ok_def using assms(3) a4 t2(2) keeps_ports [of h4 b] by simp
    have ty: "ty = Some t \<Longrightarrow> type_ok (x\<lparr>sd_type := t, sd_hw := h\<rparr>)" for t h and x :: "'h spisd"
      unfolding type_ok_def using assms(3) t2(2) by simp
    have hw: "type_ok (x\<lparr>sd_hw := h\<rparr>) = type_ok x" "sd_ready x \<Longrightarrow> type_ok x" for h and x :: "'h spisd"
      by (simp_all add: type_ok_def sd_ready_def)
    show ?thesis
      using assms(1) Some q t c3 c4 k2 k3 k4 k5 rd ty hw
      by (auto simp: init_v1_def Let_def simp flip: h0_def split: option.splits if_splits)
  qed
qed

lemma init_card_ok:
  assumes "spisd_init_card port st = (r, st')" "safe (phase (sd_hw st))"
  shows "keeps (sd_hw st) (sd_hw st') \<and> (r = 0 \<longrightarrow> sd_ready st') \<and> (type_ok st \<longrightarrow> type_ok st')"
proof -
  define s0 where "s0 = init_start port st"
  have t0: "type_ok (s0\<lparr>sd_hw := h\<rparr>) = type_ok st" for h by (simp add: s0_def init_start_def Let_def type_ok_def)
  have k0: "keeps (sd_hw st) (sd_hw s0)"
    using keeps_trans [OF keeps_ports [THEN conjunct1] keeps_dummies] by (simp add: s0_def init_start_def Let_def)
  then have s0: "safe (phase (sd_hw s0))" using assms(2) by (simp add: keeps_def)
  obtain r1 h1 where c1: "reset_loop port 50 (sd_hw s0) = (r1, h1)" by fastforce
  note a1 = reset_loop_ok [OF c1 s0]
  have k1: "keeps (sd_hw st) h1" using keeps_trans [OF k0] a1 by blast
  show ?thesis
  proof (cases "r1 = 1")
    case False
    then show ?thesis using assms(1) c1 k1 t0 by (auto simp: spisd_init_card_def Let_def simp flip: s0_def)
  next
    case True
    obtain r2 buf h2 where c2: "spisd_send_cmd_recv_data port CMD8 0x1AA 6 h1 = (r2, buf, h2)" by (metis prod_cases3)
    have a2: "phase h2 = Ready" "disk h2 = disk h1" "bit r2 2 \<longrightarrow> \<not> hc"
      using recv_if_cond [OF c2] a1 True by simp_all
    have k2: "keeps (sd_hw st) h2" using k1 a1 a2 True by (simp add: keeps_def safe_def)
    let ?s = "s0\<lparr>sd_hw := h2\<rparr>"
    consider "r2 = 1" "init_v2 port buf ?s = (r, st')" | "bit r2 2" "init_v1 port r2 ?s = (r, st')"
      | "r \<noteq> 0" "st' = ?s"
      using assms(1) c1 c2 True
      by (auto simp: spisd_init_card_def Let_def and_4 simp flip: s0_def split: if_splits)
    then show ?thesis
      using k2 keeps_trans [OF k2] init_v2_ok [of buf ?s r st'] init_v1_ok [of r2 ?s r st'] a2 t0 by cases auto
  qed
qed

lemma read_register_ready:
  assumes "spisd_read_register port n h = (r, d, h')" "phase h = Ready" "n \<le> 256"
  shows "phase h' = Ready \<and> keeps h h' \<and> (r = 0 \<longrightarrow> length d = n)"
proof -
  obtain q h1 where q: "mx_sio2_wait_equal port 0xFE 2000 h = (q, h1)" by fastforce
  have w: "phase h1 = Ready" "disk h1 = disk h" "q = 0 \<or> q = 1"
    using safe_wait_equal [OF q] assms(2) by (simp_all add: safe_def)
  show ?thesis
  proof (cases "q = 0")
    case True
    then have rx: "mx_sio2_rx_pio port n h1 = (r, d, h')" using assms(1) q by (simp add: spisd_read_register_def)
    note x = rx_step [OF rx assms(3)]
    then have "phase h' = Ready" "disk h' = disk h1" using w(1) ready_bytes by metis+
    then show ?thesis using x w by (simp add: keeps_def safe_def)
  next
    case False
    then show ?thesis using assms q w by (simp add: spisd_read_register_def keeps_def safe_def)
  qed
qed

lemma get_card_info_ok:
  assumes "spisd_get_card_info port st = (r, st')" "phase (sd_hw st) = Ready"
  shows "keeps (sd_hw st) (sd_hw st') \<and> phase (sd_hw st') = Ready \<and> sd_type st' = sd_type st"
proof -
  let ?h = "sd_hw st"
  have step: "phase h' = Ready \<and> keeps ?h h'" if "phase h = Ready" "keeps ?h h" "phase h' = Ready \<and> keeps h h'" for h h'
    using that keeps_trans by blast
  obtain r1 h1 where c1: "spisd_send_cmd port CMD9 0 ?h = (r1, h1)" by fastforce
  note a1 = step [OF assms(2) keeps_refl send_ready [OF c1 assms(2), simplified]]
  obtain r2 d2 h2 where c2: "spisd_read_register port 18 h1 = (r2, d2, h2)" by (metis prod_cases3)
  have a2: "phase h2 = Ready \<and> keeps ?h h2"
    using step [of h1 h2] a1 read_register_ready [OF c2] by simp
  define h3 where "h3 = snd (mx_sio2_write_dummy port h2)"
  have a3: "phase h3 = Ready \<and> keeps ?h h3"
    using step [of h2 h3] a2 ready_dummy keeps_dummy by (simp add: h3_def)
  obtain r4 h4 where c4: "spisd_send_cmd port CMD10 0 h3 = (r4, h4)" by fastforce
  have a4: "phase h4 = Ready \<and> keeps ?h h4"
    using step [of h3 h4] a3 send_ready [OF c4] by simp
  obtain r5 d5 h5 where c5: "spisd_read_register port 18 h4 = (r5, d5, h5)" by (metis prod_cases3)
  have a5: "phase h5 = Ready \<and> keeps ?h h5"
    using step [of h4 h5] a4 read_register_ready [OF c5] by simp
  define h6 where "h6 = snd (mx_sio2_write_dummy port h5)"
  have a6: "phase h6 = Ready \<and> keeps ?h h6"
    using step [of h5 h6] a5 ready_dummy keeps_dummy by (simp add: h6_def)
  show ?thesis
    using assms(1) c1 c2 c4 c5 a1 a3 a4 a6
    by (auto simp: spisd_get_card_info_def csd_capacity_def Let_def simp flip: h3_def h6_def split: if_splits)
qed

lemma flush_keeps: "flush_loop port n h = (ok, h') \<Longrightarrow> keeps h h'"
proof (induction n arbitrary: h)
  case (Suc n)
  obtain r d h1 where c: "mx_sio2_rx_pio port 4 h = (r, d, h1)" by (metis prod_cases3)
  have "sd_bytes hc tm (bus h) (reads d) = Some (bus h1)" using rx_step [OF c] by simp
  then have "keeps h h1" using safe_bytes by (simp add: keeps_def)
  then show ?case using Suc c by (auto intro: keeps_trans split: if_splits)
qed simp

lemma recover_ok:
  "spisd_recover port st = (r, st') \<Longrightarrow> safe (phase (sd_hw st)) \<Longrightarrow>
     safe (phase (sd_hw st')) \<and> disk (sd_hw st') = disk (sd_hw st) \<and> (r = 0 \<longrightarrow> sd_ready st') \<and> (type_ok st \<longrightarrow> type_ok st')"
proof (induction "if sd_baud st = 2 then 1 else 0 :: nat" arbitrary: st rule: less_induct)
  case less
  define s1 where "s1 = st\<lparr>sd_baud := lower_baud (sd_baud st)\<rparr>"
  obtain ok h1 where f: "flush_loop port 64 (sd_hw s1) = (ok, h1)" by fastforce
  have h1: "safe (phase h1)" "disk h1 = disk (sd_hw st)"
    using flush_keeps [OF f] less.prems(2) by (simp_all add: keeps_def s1_def)
  obtain r2 s2 where i: "spisd_init_card port (s1\<lparr>sd_hw := h1\<rparr>) = (r2, s2)" by fastforce
  have s2: "safe (phase (sd_hw s2))" "disk (sd_hw s2) = disk (sd_hw st)" "r2 = 0 \<longrightarrow> sd_ready s2" "type_ok st \<longrightarrow> type_ok s2"
    using init_card_ok [OF i] h1 by (simp_all add: keeps_def s1_def type_ok_def)
  have b2: "sd_baud s2 = lower_baud (sd_baud st)" using init_baud [OF _ i] by (simp add: s1_def lower_baud_def)
  obtain r3 s3 where g: "spisd_get_card_info port s2 = (r3, s3)" by fastforce
  have s3: "safe (phase (sd_hw s3)) \<and> disk (sd_hw s3) = disk (sd_hw st) \<and> sd_ready s3" if "r2 = 0"
    using get_card_info_ok [OF g] s2 that by (simp add: keeps_def sd_ready_def type_ok_def safe_def)
  have b3: "sd_baud s3 = lower_baud (sd_baud st)" using info_baud [OF g] b2 by simp
  have unf: "spisd_recover port st = (if \<not> ok then (1, s1\<lparr>sd_hw := h1\<rparr>) else if r2 \<noteq> 0 then (1, s2)
      else if r3 = 0 then (0, s3) else if sd_baud s3 = 8 then (1, s3) else spisd_recover port s3)"
    using f i g by (subst spisd_recover.simps) (simp add: s1_def Let_def)
  show ?case
  proof (cases "ok \<and> r2 = 0 \<and> r3 \<noteq> 0 \<and> sd_baud s3 \<noteq> 8")
    case True
    then have "sd_baud st = 2" "sd_baud s3 = 4" using b3 by (auto simp: lower_baud_def split: if_splits)
    then show ?thesis using less.hyps [of s3] less.prems unf True s3 by (simp add: sd_ready_def)
  next
    case False
    moreover have "type_ok (s1\<lparr>sd_hw := h\<rparr>) = type_ok st" for h by (simp add: s1_def type_ok_def)
    moreover have "sd_ready x \<Longrightarrow> type_ok x" for x by (simp add: sd_ready_def)
    ultimately show ?thesis using less.prems(1) unf h1 s2 s3 by (auto split: if_splits)
  qed
qed

end

section \<open>Properties\<close>

text \<open>C37. The sector count taken from the CSD register is the one the SD specification defines on the bit ranges of the
  128-bit register: always for version 2 cards (where it is between 1024 and 2^32), and for version 1 cards whenever the
  bits the structure names for the two lowest bits of \<open>C_SIZE\<close> and the lowest bit of \<open>C_SIZE_MULT\<close> hold the same values as
  the bits of the specification. (They are declared at the wrong end of their bytes: \<open>csd_v1_misread\<close> is a register that
  is read wrongly.)\<close>

theorem csd_sectors_correct:
  assumes "length csd = 16"
  shows "reg_field csd 127 126 = unat (csd_structure csd)
    \<and> (csd_structure csd = 1 \<longrightarrow> unat (csd_sectors_v2 csd) = spec_sectors csd \<and> 1024 \<le> spec_sectors csd \<and> spec_sectors csd \<le> 2 ^ 32)
    \<and> (csd_structure csd = 0 \<and> v1_bits_agree csd \<longrightarrow> unat (csd_sectors_v1 csd) = spec_sectors csd)"
proof (intro conjI impI)
  show f: "reg_field csd 127 126 = unat (csd_structure csd)" by (rule csd_structure_field [OF assms])
  let ?c = "reg_field csd 69 48"
  have c: "?c < 2 ^ 22" by (simp add: reg_field_def)
  have "unat (csd_sectors_v2 csd) = (?c + 1) * 1024"
  proof -
    define c_size where "c_size = push_bit 16 (v2_c_sizeHi csd) OR push_bit 8 (v2_c_sizeMd csd) OR v2_c_sizeLo csd"
    have "unat c_size = ?c" using v2_fields [OF assms] by (simp add: c_size_def)
    then have "unat (ucast c_size + 1 :: u64) = ?c + 1" using c by (subst unat_add_lt) simp_all
    then have "unat ((ucast c_size + 1 :: u64) * 1024) = (?c + 1) * 1024"
      using c by (simp only: unat_word_ariths(2)) simp
    then show ?thesis by (simp add: csd_sectors_v2_def flip: c_size_def)
  qed
  moreover have "spec_sectors csd = (?c + 1) * 1024" if "csd_structure csd = 1" using f that by (simp add: spec_sectors_def)
  ultimately show "unat (csd_sectors_v2 csd) = spec_sectors csd" "1024 \<le> spec_sectors csd" "spec_sectors csd \<le> 2 ^ 32"
    if "csd_structure csd = 1" using c that by simp_all
next
  assume a: "csd_structure csd = 0 \<and> v1_bits_agree csd"
  then have "unat (csd ! 8) mod 4 = unat (csd ! 8) div 64" "unat (csd ! 10) mod 2 = unat (csd ! 10) div 128"
    using unat_masked(2) [of "csd ! 8"] unat_masked(4) [of "csd ! 10"] unat_drop_bit [of 6 "csd ! 8"] unat_drop_bit [of 7 "csd ! 10"]
    by (simp_all add: v1_bits_agree_def)
  then show "unat (csd_sectors_v1 csd) = spec_sectors csd"
    using a csd_structure_field [OF assms]
    by (simp add: v1_code spec_sectors_def v1_field_size [OF assms] v1_field_mult [OF assms] v1_field_len [OF assms])
qed

theorem csd_sectors_correct_witness:
  "unat (csd_sectors_v2 [0x40, 0x0E, 0, 0x32, 0x5B, 0x59, 0, 0, 0x3B, 0x37, 0x7F, 0x80, 0x0A, 0x40, 0x40, 0x01]) = 15523840
   \<and> spec_sectors [0x40, 0x0E, 0, 0x32, 0x5B, 0x59, 0, 0, 0x3B, 0x37, 0x7F, 0x80, 0x0A, 0x40, 0x40, 0x01] = 15523840
   \<and> unat (csd_sectors_v1 [0, 0x26, 0, 0x32, 0x5F, 0x59, 0x83, 0xC8, 0xBE, 0xFB, 0xCF, 0xFF, 0x92, 0x40, 0x40, 0x01])
     = spec_sectors [0, 0x26, 0, 0x32, 0x5F, 0x59, 0x83, 0xC8, 0xBE, 0xFB, 0xCF, 0xFF, 0x92, 0x40, 0x40, 0x01]"
proof -
  let ?v2 = "[0x40, 0x0E, 0, 0x32, 0x5B, 0x59, 0, 0, 0x3B, 0x37, 0x7F, 0x80, 0x0A, 0x40, 0x40, 0x01] :: bytes"
  let ?v1 = "[0, 0x26, 0, 0x32, 0x5F, 0x59, 0x83, 0xC8, 0xBE, 0xFB, 0xCF, 0xFF, 0x92, 0x40, 0x40, 0x01] :: bytes"
  have "csd_structure ?v2 = 1" by (simp add: csd_structure_def)
  moreover have "unat (csd_sectors_v2 ?v2) = 15523840"
    by (simp add: csd_sectors_v2_def v2_c_sizeHi_def v2_c_sizeMd_def v2_c_sizeLo_def)
  ultimately have "spec_sectors ?v2 = 15523840" using csd_sectors_correct [of ?v2] by simp
  moreover have "csd_structure ?v1 = 0" "v1_bits_agree ?v1" by (simp_all add: csd_structure_def v1_bits_agree_def)
  then have "unat (csd_sectors_v1 ?v1) = spec_sectors ?v1" using csd_sectors_correct [of ?v1] by simp
  ultimately show ?thesis using \<open>unat (csd_sectors_v2 ?v2) = 15523840\<close> by blast
qed

text \<open>A version 1 register whose capacity is read wrongly: 16 sectors, of which the code finds 4.\<close>

lemma csd_v1_misread:
  "csd_structure [0, 0, 0, 0, 0, 9, 0, 0, 0xC0, 0, 0, 0, 0, 0, 0, 0] = 0
   \<and> unat (csd_sectors_v1 [0, 0, 0, 0, 0, 9, 0, 0, 0xC0, 0, 0, 0, 0, 0, 0, 0]) = 4
   \<and> spec_sectors [0, 0, 0, 0, 0, 9, 0, 0, 0xC0, 0, 0, 0, 0, 0, 0, 0] = 16"
  by (simp add: csd_structure_def v1_code spec_sectors_def csd_structure_field v1_field_size v1_field_mult v1_field_len)

end
