(* ===== verification/Sd_Dma.thy ===== *)
theory Sd_Dma
  imports Sd_Card
begin

text \<open>
  The block transfers of the SD card driver: the interrupt handlers of the DMA channel (\<open>mx_sio2_dma_isr_rx\<close>,
  \<open>mx_sio2_dma_isr_tx\<close> of \<open>mx4sio.c\<close>), the thread that works beside them (\<open>spisd_read_multi_do\<close>, \<open>spisd_write_multi_do\<close>)
  and the retry loops of \<open>spisd_read\<close> and \<open>spisd_write\<close> (\<open>spi_sdcard_driver.c\<close>). Before each access to the state the two
  share, the hardware says how many completion interrupts are taken (\<open>tick\<close>); a theorem that holds for every hardware
  holds for every interleaving. The driver over a card that follows the contract of \<open>Sd_Bus\<close> is a block store.
\<close>

section \<open>State\<close>

record dma_command =
  cmd_buffer :: nat
  cmd_sector_count :: u16
  cmd_transferred :: u16
  cmd_reversed :: u16
  cmd_response :: u8
  cmd_abort :: u8

text \<open>The card, the command shared with the handlers, the event flag, the memory of the request (\<open>cmd_buffer\<close> is an offset
  into it), the registered handler and the offset a running DMA transfer works at.\<close>

record 'h sd_req =
  rq_card :: "'h spisd"
  rq_cmd :: dma_command
  rq_ev :: u32
  rq_mem :: bytes
  rq_intr :: u8
  rq_dma :: "nat option"

abbreviation EF_SIO2_INTR_REVERSE :: u32 where "EF_SIO2_INTR_REVERSE \<equiv> 0x100"
abbreviation EF_SIO2_INTR_COMPLETE :: u32 where "EF_SIO2_INTR_COMPLETE \<equiv> 0x200"
abbreviation INTR_RX :: u8 where "INTR_RX \<equiv> 1"
abbreviation INTR_TX :: u8 where "INTR_TX \<equiv> 2"
abbreviation CMD_ABORT_NO_READ_TOKEN :: u8 where "CMD_ABORT_NO_READ_TOKEN \<equiv> 1"
abbreviation CMD_ABORT_WRITE_ERROR :: u8 where "CMD_ABORT_WRITE_ERROR \<equiv> 3"
abbreviation CMD_ABORT_TRANSFER_TIMEOUT :: u8 where "CMD_ABORT_TRANSFER_TIMEOUT \<equiv> 4"

definition rq_hw :: "'h sd_req \<Rightarrow> 'h" where "rq_hw st = sd_hw (rq_card st)"

definition set_hw :: "'h \<Rightarrow> 'h sd_req \<Rightarrow> 'h sd_req" where "set_hw h st = st\<lparr>rq_card := (rq_card st)\<lparr>sd_hw := h\<rparr>\<rparr>"

definition set_ev :: "u32 \<Rightarrow> 'h sd_req \<Rightarrow> 'h sd_req" where "set_ev b st = st\<lparr>rq_ev := rq_ev st OR b\<rparr>"

definition clear_ev :: "u32 \<Rightarrow> 'h sd_req \<Rightarrow> 'h sd_req" where "clear_ev b st = st\<lparr>rq_ev := rq_ev st AND NOT b\<rparr>"

definition set_abort :: "u8 \<Rightarrow> 'h sd_req \<Rightarrow> 'h sd_req" where
  "set_abort a st = st\<lparr>rq_cmd := (rq_cmd st)\<lparr>cmd_abort := a\<rparr>\<rparr>"

definition set_response :: "u8 \<Rightarrow> 'h sd_req \<Rightarrow> 'h sd_req" where
  "set_response r st = st\<lparr>rq_cmd := (rq_cmd st)\<lparr>cmd_response := r\<rparr>\<rparr>"

definition inc_transferred :: "'h sd_req \<Rightarrow> 'h sd_req" where
  "inc_transferred st = st\<lparr>rq_cmd := (rq_cmd st)\<lparr>cmd_transferred := cmd_transferred (rq_cmd st) + 1\<rparr>\<rparr>"

text \<open>Bytes stored at an offset of the memory.\<close>

definition store :: "bytes \<Rightarrow> nat \<Rightarrow> bytes \<Rightarrow> bytes" where
  "store m k d = take k m @ d @ drop (k + length d) m"

definition sec :: "bytes \<Rightarrow> nat \<Rightarrow> nat \<Rightarrow> bytes" where
  "sec m off i = take 512 (drop (off + i * 512) m)"

section \<open>The interrupt handlers\<close>

definition mx_sio2_start_rx_dma :: "'h sio2_port \<Rightarrow> nat \<Rightarrow> 'h sd_req \<Rightarrow> 'h sd_req" where
  "mx_sio2_start_rx_dma port off st = (set_hw (sio_exec_dma port rx_queue None (rq_hw st)) st)\<lparr>rq_dma := Some off\<rparr>"

definition mx_sio2_start_tx_dma :: "'h sio2_port \<Rightarrow> nat \<Rightarrow> 'h sd_req \<Rightarrow> 'h sd_req" where
  "mx_sio2_start_tx_dma port off st =
     (set_hw (sio_exec_dma port tx_queue (Some (take 512 (drop off (rq_mem st)))) (rq_hw st)) st)\<lparr>rq_dma := Some off\<rparr>"

definition isr_timeout :: "'h sd_req \<Rightarrow> 'h sd_req" where
  "isr_timeout st = set_ev EF_SIO2_INTR_COMPLETE
     (set_abort CMD_ABORT_TRANSFER_TIMEOUT (set_response SPISD_RESULT_TIMEOUT st))"

text \<open>The part of \<open>mx_sio2_dma_isr_rx\<close> after the token: count the sector, then start the next or finish.\<close>

definition isr_rx_next :: "'h sio2_port \<Rightarrow> 'h sd_req \<Rightarrow> 'h sd_req" where
  "isr_rx_next port st =
     (let st = inc_transferred st; cmd = rq_cmd st in
      if cmd_transferred cmd < cmd_sector_count cmd \<and> cmd_abort cmd = 0 then
        if cmd_response cmd = SPISD_RESULT_OK
        then set_ev EF_SIO2_INTR_REVERSE (mx_sio2_start_rx_dma port (cmd_buffer cmd + unat (cmd_transferred cmd) * 512) st)
        else set_ev (EF_SIO2_INTR_REVERSE OR EF_SIO2_INTR_COMPLETE) (set_abort CMD_ABORT_NO_READ_TOKEN st)
      else set_ev (EF_SIO2_INTR_REVERSE OR EF_SIO2_INTR_COMPLETE) st)"

definition isr_rx_token :: "'h sio2_port \<Rightarrow> u8 \<Rightarrow> 'h \<Rightarrow> u8 \<times> 'h" where
  "isr_rx_token port b h = (if b \<noteq> 0xFE then mx_sio2_wait_equal port 0xFE 4000 h else (SPISD_RESULT_OK, h))"

definition mx_sio2_dma_isr_rx :: "'h sio2_port \<Rightarrow> nat \<Rightarrow> 'h sd_req \<Rightarrow> 'h sd_req" where
  "mx_sio2_dma_isr_rx port off st =
     (let (d, h) = sio_dma_data port (rq_hw st);
          st = st\<lparr>rq_mem := store (rq_mem st) off d, rq_dma := None\<rparr>;
          (ok, h) = mx_sio2_wait_transfer_complete port h
      in if \<not> ok then isr_timeout (set_hw h st)
         else let (bs, h) = data_in_n port 3 h;
                  (r, h) = isr_rx_token port (bs ! 2) h
              in isr_rx_next port (set_response r (set_hw h st)))"

text \<open>\<open>mx_sio2_dma_isr_tx\<close>: the CRC bytes, the data response, the busy time; then the next sector or the end.\<close>

definition isr_tx_ack :: "'h sio2_port \<Rightarrow> 'h sd_req \<Rightarrow> 'h sd_req" where
  "isr_tx_ack port st =
     (let h = snd (mx_sio2_write_dummy port (rq_hw st));
          h = snd (mx_sio2_write_dummy port h);
          (r, h) = mx_sio2_wait_equal_masked port 5 0x1F 10 h;
          st = set_hw h st;
          st = (if r \<noteq> 5 then set_abort CMD_ABORT_WRITE_ERROR st else st);
          (r, h) = mx_sio2_wait_equal port 0xFF 0x80000 (rq_hw st);
          st = set_response r (set_hw h st)
      in if r \<noteq> SPISD_RESULT_OK then set_abort CMD_ABORT_WRITE_ERROR st else st)"

definition isr_tx_next :: "'h sio2_port \<Rightarrow> 'h sd_req \<Rightarrow> 'h sd_req" where
  "isr_tx_next port st =
     (let st = (if cmd_abort (rq_cmd st) = 0 then inc_transferred st else st); cmd = rq_cmd st in
      if cmd_transferred cmd < cmd_sector_count cmd \<and> cmd_abort cmd = 0
      then mx_sio2_start_tx_dma port (cmd_buffer cmd + unat (cmd_transferred cmd) * 512)
             (set_hw (snd (mx_sio2_write_byte port 0xFC (rq_hw st))) st)
      else set_ev EF_SIO2_INTR_COMPLETE st)"

definition mx_sio2_dma_isr_tx :: "'h sio2_port \<Rightarrow> 'h sd_req \<Rightarrow> 'h sd_req" where
  "mx_sio2_dma_isr_tx port st =
     (let (d, h) = sio_dma_data port (rq_hw st);
          (ok, h) = mx_sio2_wait_transfer_complete port h;
          st = (set_hw h st)\<lparr>rq_dma := None\<rparr>
      in if \<not> ok then isr_timeout st else isr_tx_next port (isr_tx_ack port st))"

text \<open>The interrupts taken before the thread's next access: the handler runs once for each completed transfer.\<close>

fun run_irqs :: "'h sio2_port \<Rightarrow> nat \<Rightarrow> 'h sd_req \<Rightarrow> 'h sd_req" where
  "run_irqs port 0 st = st"
| "run_irqs port (Suc k) st =
     (case rq_dma st of
        None \<Rightarrow> st
      | Some off \<Rightarrow>
          if rq_intr st = INTR_RX then run_irqs port k (mx_sio2_dma_isr_rx port off st)
          else if rq_intr st = INTR_TX then run_irqs port k (mx_sio2_dma_isr_tx port st)
          else st)"

definition tick :: "'h sio2_port \<Rightarrow> 'h sd_req \<Rightarrow> 'h sd_req" where
  "tick port st = (case sio_irqs port (rq_hw st) of (k, h) \<Rightarrow> run_irqs port k (set_hw h st))"

section \<open>The thread\<close>

text \<open>\<open>spisd_wait_dma_event\<close>: \<open>PollEventFlag\<close> up to \<open>DMA_EVENT_TIMEOUT_POLLS\<close> times. Interrupts may also be
  taken after the last poll: the callers start their time-out branch with a tick.\<close>

fun wait_event :: "'h sio2_port \<Rightarrow> nat \<Rightarrow> u32 \<Rightarrow> 'h sd_req \<Rightarrow> (u32 option) \<times> 'h sd_req" where
  "wait_event port 0 bits st = (None, st)"
| "wait_event port (Suc n) bits st =
     (let st = tick port st in if rq_ev st AND bits \<noteq> 0 then (Some (rq_ev st), st) else wait_event port n bits st)"

definition spisd_wait_dma_event :: "'h sio2_port \<Rightarrow> u32 \<Rightarrow> 'h sd_req \<Rightarrow> (u32 option) \<times> 'h sd_req" where
  "spisd_wait_dma_event port bits st = wait_event port 3000 bits st"

text \<open>One round of the inner loop: reverse the bits of the next sector, then count it unless the command was aborted.\<close>

definition reverse_one :: "'h sio2_port \<Rightarrow> 'h sd_req \<Rightarrow> 'h sd_req" where
  "reverse_one port st =
     (let off = cmd_buffer (rq_cmd st) + unat (cmd_reversed (rq_cmd st)) * 512;
          st = st\<lparr>rq_mem := store (rq_mem st) off (reverse_buffer (take 512 (drop off (rq_mem st))) (512 div 4))\<rparr>;
          st = tick port st
      in if cmd_abort (rq_cmd st) = 0
         then st\<lparr>rq_cmd := (rq_cmd st)\<lparr>cmd_reversed := cmd_reversed (rq_cmd st) + 1\<rparr>\<rparr> else st)"

partial_function (option) reverse_loop :: "'h sio2_port \<Rightarrow> 'h sd_req \<Rightarrow> 'h sd_req option" where
  "reverse_loop port st =
     (let st = tick port st in
      if cmd_reversed (rq_cmd st) < cmd_transferred (rq_cmd st) \<and> cmd_abort (rq_cmd st) = 0
      then reverse_loop port (reverse_one port st) else Some st)"

partial_function (option) read_events :: "'h sio2_port \<Rightarrow> 'h sd_req \<Rightarrow> 'h sd_req option" where
  "read_events port st =
     (case spisd_wait_dma_event port (EF_SIO2_INTR_REVERSE OR EF_SIO2_INTR_COMPLETE) st of
        (None, st) \<Rightarrow> Some (set_abort CMD_ABORT_TRANSFER_TIMEOUT (tick port st))
      | (Some resbits, st) \<Rightarrow>
          Option.bind (if resbits AND EF_SIO2_INTR_REVERSE \<noteq> 0
                       then reverse_loop port (clear_ev EF_SIO2_INTR_REVERSE (tick port st)) else Some st) (\<lambda>st.
          if resbits AND EF_SIO2_INTR_COMPLETE \<noteq> 0 then Some (clear_ev EF_SIO2_INTR_COMPLETE (tick port st))
          else read_events port st))"

declare reverse_loop.simps [code] read_events.simps [code]

definition setup_cmd :: "nat \<Rightarrow> u16 \<Rightarrow> 'h sd_req \<Rightarrow> 'h sd_req" where
  "setup_cmd off count st = clear_ev (EF_SIO2_INTR_REVERSE OR EF_SIO2_INTR_COMPLETE)
     (st\<lparr>rq_cmd := \<lparr>cmd_buffer = off, cmd_sector_count = count, cmd_transferred = 0, cmd_reversed = 0,
        cmd_response = SPISD_RESULT_OK, cmd_abort = 0\<rparr>\<rparr>)"

definition spisd_read_multi_do :: "'h sio2_port \<Rightarrow> nat \<Rightarrow> u16 \<Rightarrow> 'h sd_req \<Rightarrow> (u16 \<times> 'h sd_req) option" where
  "spisd_read_multi_do port off count st =
     Option.bind (read_events port (mx_sio2_start_rx_dma port off (setup_cmd off count st)))
       (\<lambda>st. Some (cmd_reversed (rq_cmd st), st))"

definition spisd_write_multi_do :: "'h sio2_port \<Rightarrow> nat \<Rightarrow> u16 \<Rightarrow> 'h sd_req \<Rightarrow> u16 \<times> 'h sd_req" where
  "spisd_write_multi_do port off count st =
     (let st = setup_cmd off count st;
          st = set_hw (snd (mx_sio2_write_byte port 0xFC (rq_hw st))) st;
          st = mx_sio2_start_tx_dma port off st
      in case spisd_wait_dma_event port EF_SIO2_INTR_COMPLETE st of
           (None, st) \<Rightarrow> let st = tick port (set_abort CMD_ABORT_TRANSFER_TIMEOUT (tick port st)) in (cmd_transferred (rq_cmd st), st)
         | (Some resbits, st) \<Rightarrow>
             let st = (if resbits AND EF_SIO2_INTR_COMPLETE \<noteq> 0 then clear_ev EF_SIO2_INTR_COMPLETE (tick port st) else st);
                 st = tick port st
             in (cmd_transferred (rq_cmd st), st))"

section \<open>Requests\<close>

text \<open>On the card alone: begin and end of a transfer.\<close>

definition sd_arg :: "'h spisd \<Rightarrow> u32 \<Rightarrow> u32" where
  "sd_arg st sector = (if sd_type st \<noteq> CARD_TYPE_SDV2HC then push_bit 9 sector else sector)"

definition spisd_read_multi_begin :: "'h sio2_port \<Rightarrow> u32 \<Rightarrow> 'h spisd \<Rightarrow> u8 \<times> 'h spisd" where
  "spisd_read_multi_begin port sector st =
     (let (results, h) = mx_sio2_wait_equal port 0xFF 4000 (sd_hw st)
      in if results = SPISD_RESULT_OK then
           let (results, h) = spisd_send_cmd port CMD18 (sd_arg st sector) h;
               (results, h) = (if results = SPISD_RESULT_OK then mx_sio2_wait_equal port 0xFE 100000 h else (results, h))
           in (results, st\<lparr>sd_hw := h\<rparr>)
         else (results, st\<lparr>sd_hw := h\<rparr>))"

definition spisd_read_multi_end :: "'h sio2_port \<Rightarrow> 'h spisd \<Rightarrow> u8 \<times> 'h spisd" where
  "spisd_read_multi_end port st = (let (r, h) = spisd_send_cmd port CMD12 0 (sd_hw st) in (r, st\<lparr>sd_hw := h\<rparr>))"

definition spisd_write_multi_begin :: "'h sio2_port \<Rightarrow> u32 \<Rightarrow> u16 \<Rightarrow> 'h spisd \<Rightarrow> u8 \<times> 'h spisd" where
  "spisd_write_multi_begin port sector count st =
     (let (results, h) = mx_sio2_wait_equal port 0xFF 4000 (sd_hw st);
          (results, h) =
            (if results = SPISD_RESULT_OK then
               let h = (if sd_type st \<noteq> CARD_TYPE_MMC
                        then snd (spisd_send_cmd port ACMD23 (ucast count) (snd (spisd_send_cmd port CMD55 0 h))) else h)
               in spisd_send_cmd port CMD25 (sd_arg st sector) h
             else (results, h))
      in (results, st\<lparr>sd_hw := dummies port 3 h\<rparr>))"

definition spisd_write_multi_end :: "'h sio2_port \<Rightarrow> 'h spisd \<Rightarrow> u8 \<times> 'h spisd" where
  "spisd_write_multi_end port st =
     (let (results, h) = mx_sio2_write_byte port 0xFD (sd_hw st);
          (results, h) =
            (if results \<noteq> 0 then
               let (results, h) = mx_sio2_wait_equal port 0xFF 0x800000 (dummies port 2 h)
               in (results, if results = SPISD_RESULT_OK then dummies port 2 h else h)
             else (results, h))
      in (results, st\<lparr>sd_hw := snd (mx_sio2_write_dummy port h)\<rparr>))"

definition mx_sio2_lock :: "'h sio2_port \<Rightarrow> u8 \<Rightarrow> 'h sd_req \<Rightarrow> 'h sd_req" where
  "mx_sio2_lock port intr st =
     (set_hw (mx_sio2_init_ports port (td_baud (rq_card st)) (sio_lock port (rq_hw st))) st)\<lparr>rq_intr := intr\<rparr>"

definition mx_sio2_unlock :: "'h sio2_port \<Rightarrow> 'h sd_req \<Rightarrow> 'h sd_req" where
  "mx_sio2_unlock port st =
     (let st = tick port st in (set_hw (sio_unlock port (rq_hw st)) st)\<lparr>rq_intr := 0, rq_dma := None\<rparr>)"

definition rq_recover :: "'h sio2_port \<Rightarrow> 'h sd_req \<Rightarrow> u8 \<times> 'h sd_req" where
  "rq_recover port st = (let (r, c) = spisd_recover port (rq_card st) in (r, st\<lparr>rq_card := c\<rparr>))"

text \<open>The retry loop of \<open>spisd_read\<close>. The result is the number of sectors left and \<open>request_failed\<close>; the loop ends
  after \<open>MAX_RETRIES\<close> rounds or by a \<open>break\<close>.\<close>

fun read_retry :: "'h sio2_port \<Rightarrow> nat \<Rightarrow> u64 \<Rightarrow> nat \<Rightarrow> u16 \<Rightarrow> 'h sd_req \<Rightarrow> (u16 \<times> bool \<times> 'h sd_req) option" where
  "read_retry port 0 sector off left st = Some (left, False, st)"
| "read_retry port (Suc n) sector off left st =
     (if left = 0 then Some (left, False, st)
      else case spisd_read_multi_begin port (ucast sector) (rq_card st) of (results, c) \<Rightarrow>
        let st = st\<lparr>rq_card := c\<rparr> in
        if results \<noteq> SPISD_RESULT_OK then
          (case rq_recover port st of (r, st) \<Rightarrow>
             if r \<noteq> SPISD_RESULT_OK then Some (left, False, st) else read_retry port n sector off left st)
        else Option.bind (spisd_read_multi_do port off left st) (\<lambda>(results, st).
          let left = left - results;
              off = (if left > 0 then off + unat results * 512 else off);
              sector = (if left > 0 then sector + ucast results else sector);
              st = tick port st;
              abort = cmd_abort (rq_cmd st)
          in if left > 0 \<and> abort = CMD_ABORT_NO_READ_TOKEN then
               (case rq_recover port st of (r, st) \<Rightarrow>
                  if r \<noteq> SPISD_RESULT_OK then Some (left, False, st) else read_retry port n sector off left st)
             else if abort = CMD_ABORT_TRANSFER_TIMEOUT then
               (case rq_recover port (mx_sio2_lock port INTR_RX (mx_sio2_unlock port st)) of (r, st) \<Rightarrow>
                  if r \<noteq> SPISD_RESULT_OK then Some (left, True, st) else read_retry port n sector off left st)
             else case spisd_read_multi_end port (rq_card st) of (results, c) \<Rightarrow>
               let st = st\<lparr>rq_card := c\<rparr> in
               if results \<noteq> SPISD_RESULT_OK then
                 (case rq_recover port st of (r, st) \<Rightarrow>
                    if r \<noteq> SPISD_RESULT_OK then Some (left, True, st) else read_retry port n sector off left st)
               else read_retry port n sector off left st))"

definition set_used :: "'h sd_req \<Rightarrow> 'h sd_req" where
  "set_used st = st\<lparr>rq_card := (rq_card st)\<lparr>sd_used := 1\<rparr>\<rparr>"

text \<open>\<open>spisd_read\<close>; the state keeps the globals between requests, \<open>buffer\<close> is the caller's memory.\<close>

definition spisd_read :: "'h sio2_port \<Rightarrow> 'h sd_req \<Rightarrow> u64 \<Rightarrow> bytes \<Rightarrow> u16 \<Rightarrow> (int \<times> bytes \<times> 'h sd_req) option" where
  "spisd_read port st sector buffer count =
     (if count = 0 then Some (0, buffer, st)
      else Option.bind (read_retry port 4 sector 0 count (mx_sio2_lock port INTR_RX (st\<lparr>rq_mem := buffer\<rparr>)))
        (\<lambda>(left, failed, st).
          let st = mx_sio2_unlock port (set_used st)
          in Some (if left = 0 \<and> \<not> failed then int (unat count) else - EIO, rq_mem st, st)))"

fun write_retry :: "'h sio2_port \<Rightarrow> nat \<Rightarrow> u64 \<Rightarrow> nat \<Rightarrow> u16 \<Rightarrow> 'h sd_req \<Rightarrow> u16 \<times> bool \<times> 'h sd_req" where
  "write_retry port 0 sector off left st = (left, False, st)"
| "write_retry port (Suc n) sector off left st =
     (if left = 0 then (left, False, st)
      else case spisd_write_multi_begin port (ucast sector) left (rq_card st) of (results, c) \<Rightarrow>
        let st = st\<lparr>rq_card := c\<rparr> in
        if results \<noteq> SPISD_RESULT_OK then
          (case rq_recover port st of (r, st) \<Rightarrow>
             if r \<noteq> SPISD_RESULT_OK then (left, False, st) else write_retry port n sector off left st)
        else case spisd_write_multi_do port off left st of (results, st) \<Rightarrow>
          let left = left - results;
              off = (if left > 0 then off + unat results * 512 else off);
              sector = (if left > 0 then sector + ucast results else sector);
              st = tick port st
          in if cmd_abort (rq_cmd st) = CMD_ABORT_TRANSFER_TIMEOUT then
               (case rq_recover port (mx_sio2_lock port INTR_TX (mx_sio2_unlock port st)) of (r, st) \<Rightarrow>
                  if r \<noteq> SPISD_RESULT_OK then (left, True, st) else write_retry port n sector off left st)
             else case spisd_write_multi_end port (rq_card st) of (results, c) \<Rightarrow>
               let st = st\<lparr>rq_card := c\<rparr> in
               if results \<noteq> SPISD_RESULT_OK then
                 (case rq_recover port st of (r, st) \<Rightarrow>
                    if r \<noteq> SPISD_RESULT_OK then (left, True, st) else write_retry port n sector off left st)
               else write_retry port n sector off left st)"

text \<open>\<open>spisd_write\<close> reverses the caller's buffer in place, and back again before it returns; the result holds the buffer
  as the caller finds it.\<close>

definition spisd_write :: "'h sio2_port \<Rightarrow> 'h sd_req \<Rightarrow> u64 \<Rightarrow> bytes \<Rightarrow> u16 \<Rightarrow> int \<times> bytes \<times> 'h sd_req" where
  "spisd_write port st sector buffer count =
     (if count = 0 then (0, buffer, st)
      else let words = unat count * 512 div 4;
               st = mx_sio2_lock port INTR_TX (st\<lparr>rq_mem := reverse_buffer buffer words\<rparr>)
           in case write_retry port 4 sector 0 count st of (left, failed, st) \<Rightarrow>
             let st = mx_sio2_unlock port (set_used st)
             in (if left = 0 \<and> \<not> failed then int (unat count) else - EIO, reverse_buffer (rq_mem st) words, st))"

definition spisd_flush :: "'h sd_req \<Rightarrow> 'h sd_req" where "spisd_flush st = st"

definition spisd_stop :: "'h sd_req \<Rightarrow> int \<times> 'h sd_req" where "spisd_stop st = (0, st)"

text \<open>The function pointers of \<open>bd\<close>; \<open>fill\<close> is what the caller's buffer holds before a read.\<close>

definition sd_bd_ops :: "'h sio2_port \<Rightarrow> (nat \<Rightarrow> bytes) \<Rightarrow> 'h sd_req bd_ops" where
  "sd_bd_ops port fill = \<lparr>
     bd_read = (\<lambda>st a c. the (spisd_read port st a (fill (unat c * 512)) c)),
     bd_write = (\<lambda>st a d c. case spisd_write port st a d c of (r, b, st') \<Rightarrow> (r, st')),
     bd_flush = spisd_flush,
     bd_stop = spisd_stop\<rparr>"

text \<open>Between requests: no handler is registered, the channel is idle, the driver knows how the card is addressed and no
  block is awaiting its response. \<open>sd_blocks\<close> is how many blocks a command argument can address.\<close>

definition sd_idle :: "('h \<Rightarrow> sd_phase) \<Rightarrow> bool \<Rightarrow> 'h sd_req \<Rightarrow> bool" where
  "sd_idle phase hc st \<longleftrightarrow> rq_intr st = 0 \<and> rq_dma st = None \<and> (sd_type (rq_card st) = CARD_TYPE_SDV2HC \<longleftrightarrow> hc)
     \<and> safe (phase (rq_hw st))"

definition sd_blocks :: "bool \<Rightarrow> nat" where "sd_blocks hc = (if hc then 2 ^ 32 else 2 ^ 23)"

section \<open>Memory\<close>

lemma length_store [simp]: "k + length d \<le> length m \<Longrightarrow> length (store m k d) = length m"
  by (simp add: store_def)

lemma take_store [simp]: "off \<le> k \<Longrightarrow> k + length d \<le> length m \<Longrightarrow> take off (store m k d) = take off m"
  by (simp add: store_def take_append min_def)

lemma sec_store_same:
  "off + i * 512 + 512 \<le> length m \<Longrightarrow> length d = 512 \<Longrightarrow> sec (store m (off + i * 512) d) off i = d"
  by (simp add: store_def sec_def)

lemma sec_store_other:
  assumes "i \<noteq> j" "off + i * 512 + 512 \<le> length m" "length d = 512"
  shows "sec (store m (off + i * 512) d) off j = sec m off j"
proof -
  let ?k = "off + i * 512"
  consider "j * 512 + 512 \<le> i * 512" | "i * 512 + 512 \<le> j * 512"
    using assms(1) by (metis Suc_leI add.commute linorder_neqE_nat mult_Suc mult_le_mono1)
  then show ?thesis
  proof cases
    case 1
    then have "take (off + j * 512 + 512) (store m ?k d) = take (off + j * 512 + 512) m"
      using assms by (intro take_store) auto
    then show ?thesis unfolding sec_def by (metis add.commute take_drop)
  next
    case 2
    then have "drop (off + j * 512) (store m ?k d) = drop (off + j * 512) m"
      using assms by (simp add: store_def add.commute)
    then show ?thesis by (simp add: sec_def)
  qed
qed

lemma length_sec [simp]: "off + i * 512 + 512 \<le> length m \<Longrightarrow> length (sec m off i) = 512"
  by (simp add: sec_def)

lemma reverse_sec: "length s = 512 \<Longrightarrow> reverse_buffer s (512 div 4) = map reverse_byte s"
  by (rule reverse_buffer_all) simp

lemma fields_simps [simp]:
  "rq_hw (set_hw h st) = h" "rq_cmd (set_hw h st) = rq_cmd st" "rq_ev (set_hw h st) = rq_ev st" "rq_mem (set_hw h st) = rq_mem st"
  "rq_intr (set_hw h st) = rq_intr st" "rq_dma (set_hw h st) = rq_dma st"
  "rq_hw (set_ev b st) = rq_hw st" "rq_cmd (set_ev b st) = rq_cmd st" "rq_ev (set_ev b st) = rq_ev st OR b" "rq_mem (set_ev b st) = rq_mem st"
  "rq_intr (set_ev b st) = rq_intr st" "rq_dma (set_ev b st) = rq_dma st"
  "rq_hw (clear_ev b st) = rq_hw st" "rq_cmd (clear_ev b st) = rq_cmd st" "rq_ev (clear_ev b st) = rq_ev st AND NOT b"
  "rq_mem (clear_ev b st) = rq_mem st" "rq_intr (clear_ev b st) = rq_intr st" "rq_dma (clear_ev b st) = rq_dma st"
  "rq_hw (set_abort a st) = rq_hw st" "rq_ev (set_abort a st) = rq_ev st" "rq_mem (set_abort a st) = rq_mem st"
  "rq_intr (set_abort a st) = rq_intr st" "rq_dma (set_abort a st) = rq_dma st"
  "rq_cmd (set_abort a st) = (rq_cmd st)\<lparr>cmd_abort := a\<rparr>"
  "rq_hw (set_response r st) = rq_hw st" "rq_ev (set_response r st) = rq_ev st" "rq_mem (set_response r st) = rq_mem st"
  "rq_intr (set_response r st) = rq_intr st" "rq_dma (set_response r st) = rq_dma st"
  "rq_cmd (set_response r st) = (rq_cmd st)\<lparr>cmd_response := r\<rparr>"
  "rq_hw (inc_transferred st) = rq_hw st" "rq_ev (inc_transferred st) = rq_ev st" "rq_mem (inc_transferred st) = rq_mem st"
  "rq_intr (inc_transferred st) = rq_intr st" "rq_dma (inc_transferred st) = rq_dma st"
  "rq_cmd (inc_transferred st) = (rq_cmd st)\<lparr>cmd_transferred := cmd_transferred (rq_cmd st) + 1\<rparr>"
  by (simp_all add: rq_hw_def set_hw_def set_ev_def clear_ev_def set_abort_def set_response_def inc_transferred_def)

lemma hw_updates [simp]:
  "rq_hw (st\<lparr>rq_mem := m\<rparr>) = rq_hw st" "rq_hw (st\<lparr>rq_dma := o1\<rparr>) = rq_hw st" "rq_hw (st\<lparr>rq_cmd := c\<rparr>) = rq_hw st"
  "rq_hw (st\<lparr>rq_intr := i\<rparr>) = rq_hw st" "rq_hw (st\<lparr>rq_card := k\<rparr>) = sd_hw k"
  by (simp_all add: rq_hw_def)

lemma card_updates [simp]:
  "rq_card (set_ev b st) = rq_card st" "rq_card (clear_ev b st) = rq_card st" "rq_card (set_abort a st) = rq_card st"
  "rq_card (set_response r st) = rq_card st" "rq_card (inc_transferred st) = rq_card st"
  "rq_card (set_hw h st) = (rq_card st)\<lparr>sd_hw := h\<rparr>"
  by (simp_all add: set_ev_def clear_ev_def set_abort_def set_response_def inc_transferred_def set_hw_def)

section \<open>Reading, whatever the interleaving\<close>

text \<open>The handlers do not look at the thread's counter.\<close>

definition set_reversed :: "u16 \<Rightarrow> 'h sd_req \<Rightarrow> 'h sd_req" where
  "set_reversed r st = st\<lparr>rq_cmd := (rq_cmd st)\<lparr>cmd_reversed := r\<rparr>\<rparr>"

lemma set_reversed_sel [simp]:
  "rq_hw (set_reversed r st) = rq_hw st" "rq_ev (set_reversed r st) = rq_ev st" "rq_mem (set_reversed r st) = rq_mem st"
  "rq_intr (set_reversed r st) = rq_intr st" "rq_dma (set_reversed r st) = rq_dma st" "rq_card (set_reversed r st) = rq_card st"
  "rq_cmd (set_reversed r st) = (rq_cmd st)\<lparr>cmd_reversed := r\<rparr>"
  by (simp_all add: set_reversed_def rq_hw_def)

lemma isr_rx_reversed: "mx_sio2_dma_isr_rx port o1 (set_reversed r st) = set_reversed r (mx_sio2_dma_isr_rx port o1 st)"
  by (simp add: mx_sio2_dma_isr_rx_def isr_rx_next_def isr_timeout_def mx_sio2_start_rx_dma_def Let_def set_reversed_def
    set_hw_def set_ev_def set_abort_def set_response_def inc_transferred_def rq_hw_def split: prod.split)

lemma set_hw_reversed: "set_hw h (set_reversed r st) = set_reversed r (set_hw h st)"
  by (simp add: set_hw_def set_reversed_def)

lemma ev_bits: "(x :: u32) AND 0x200 = 0 \<longleftrightarrow> \<not> bit x 9" "(x :: u32) AND 0x100 = 0 \<longleftrightarrow> \<not> bit x 8"
  using bit_iff_and_push_bit_not_eq_0 [of x 9] bit_iff_and_push_bit_not_eq_0 [of x 8] by simp_all

lemma ev_both: "(x :: u32) AND 0x300 = 0 \<longleftrightarrow> \<not> bit x 8 \<and> \<not> bit x 9"
proof -
  have "(0x300 :: u32) = 0x100 OR 0x200" by simp
  then have "x AND 0x300 = (x AND 0x100) OR (x AND 0x200)" by (metis and.commute bit.conj_disj_distrib)
  then show ?thesis using ev_bits [of x] by (metis or_eq_0_iff)
qed

abbreviation n_sent :: "'h sd_req \<Rightarrow> nat" where "n_sent st \<equiv> unat (cmd_transferred (rq_cmd st))"
abbreviation n_rev :: "'h sd_req \<Rightarrow> nat" where "n_rev st \<equiv> unat (cmd_reversed (rq_cmd st))"
abbreviation aborted :: "'h sd_req \<Rightarrow> u8" where "aborted st \<equiv> cmd_abort (rq_cmd st)"

text \<open>How many more interrupts a command can raise, and whether the thread has an event to serve.\<close>

definition ev_measure :: "'h sd_req \<Rightarrow> nat" where
  "ev_measure st = 2 * (if rq_dma st = None then 0 else unat (cmd_sector_count (rq_cmd st)) - n_sent st)
     + (if bit (rq_ev st) 8 \<or> bit (rq_ev st) 9 then 1 else 0)"

context sd_card
begin

text \<open>
  A read command in progress. Of the sectors received the first \<open>n_rev\<close> are in their final form and the others still as
  the port delivers them, nothing before the command's part of the memory is touched, and either the DMA channel is at
  work on the next sector, or it has stopped and the bus is where the abort code says.
\<close>

definition rd_data :: "nat \<Rightarrow> nat \<Rightarrow> u16 \<Rightarrow> bytes \<Rightarrow> (nat \<Rightarrow> bytes) \<Rightarrow> 'h sd_req \<Rightarrow> bool" where
  "rd_data a0 off cnt m0 dk st \<longleftrightarrow>
     n_sent st \<le> unat cnt \<and> n_rev st \<le> n_sent st \<and> length (rq_mem st) = length m0 \<and> take off (rq_mem st) = take off m0
     \<and> (\<forall>i < n_rev st. sec (rq_mem st) off i = dk (a0 + i))
     \<and> (aborted st = 0 \<longrightarrow> (\<forall>i. n_rev st \<le> i \<and> i < n_sent st \<longrightarrow> sec (rq_mem st) off i = map reverse_byte (dk (a0 + i))))"

definition rd_bus :: "nat \<Rightarrow> nat \<Rightarrow> u16 \<Rightarrow> 'h sd_req \<Rightarrow> bool" where
  "rd_bus a0 off cnt st \<longleftrightarrow>
     (case rq_dma st of
        Some o1 \<Rightarrow> o1 = off + n_sent st * 512 \<and> n_sent st < unat cnt \<and> phase (rq_hw st) = ReadDma (a0 + n_sent st)
          \<and> \<not> bit (rq_ev st) 9 \<and> (aborted st = 0 \<or> aborted st = 4)
      | None \<Rightarrow> safe (phase (rq_hw st))
          \<and> (aborted st = 0 \<longrightarrow> n_sent st = unat cnt
               \<and> (phase (rq_hw st) = ReadTok (a0 + n_sent st) \<or> phase (rq_hw st) = ReadBlk (a0 + n_sent st)))
          \<and> (aborted st = 1 \<longrightarrow> n_sent st < unat cnt) \<and> aborted st \<in> {0, 1, 4})"

definition rd_inv :: "nat \<Rightarrow> nat \<Rightarrow> u16 \<Rightarrow> bytes \<Rightarrow> (nat \<Rightarrow> bytes) \<Rightarrow> 'h sd_req \<Rightarrow> bool" where
  "rd_inv a0 off cnt m0 dk st \<longleftrightarrow>
     rq_intr st = 1 \<and> type_ok (rq_card st) \<and> cmd_buffer (rq_cmd st) = off \<and> cmd_sector_count (rq_cmd st) = cnt
     \<and> off + unat cnt * 512 \<le> length m0 \<and> disk (rq_hw st) = dk \<and> rd_data a0 off cnt m0 dk st \<and> rd_bus a0 off cnt st"

lemma type_ok_hw [simp]: "type_ok (c\<lparr>sd_hw := h\<rparr>) = type_ok c"
  by (simp add: type_ok_def)

lemma rd_store:
  assumes "rd_data a0 off cnt m0 dk st" "n_sent st < unat cnt" "off + unat cnt * 512 \<le> length m0" "length (dk (a0 + n_sent st)) = 512"
    and "rq_mem st' = store (rq_mem st) (off + n_sent st * 512) (map reverse_byte (dk (a0 + n_sent st)))"
    and "n_rev st' = n_rev st" "n_sent st' = n_sent st \<or> n_sent st' = Suc (n_sent st)" "aborted st' = 0 \<Longrightarrow> aborted st = 0"
  shows "rd_data a0 off cnt m0 dk st'"
proof -
  let ?d = "map reverse_byte (dk (a0 + n_sent st))"
  have "n_sent st * 512 + 512 \<le> unat cnt * 512" using assms(2) by (metis Suc_leI add.commute mult_Suc mult_le_mono1)
  then have le: "off + n_sent st * 512 + 512 \<le> length (rq_mem st)" using assms(1,3) by (simp add: rd_data_def)
  have same: "sec (rq_mem st') off (n_sent st) = ?d" using assms(4,5) le by (simp add: sec_store_same)
  have other: "sec (rq_mem st') off i = sec (rq_mem st) off i" if "i \<noteq> n_sent st" for i
    using assms(4,5) le that by (simp add: sec_store_other)
  have "length (rq_mem st') = length m0" "take off (rq_mem st') = take off m0"
    using assms(1,4,5) le by (simp_all add: rd_data_def)
  then show ?thesis
    using assms(1,2,6-8) same other unfolding rd_data_def by (auto simp: less_Suc_eq)
qed

lemma isr_rx_inv:
  assumes "rd_inv a0 off cnt m0 dk st" "rq_dma st = Some o1"
  shows "rd_inv a0 off cnt m0 dk (mx_sio2_dma_isr_rx port o1 st) \<and> ev_measure (mx_sio2_dma_isr_rx port o1 st) < ev_measure st"
proof -
  define n where "n = n_sent st"
  have st: "o1 = off + n * 512" "n < unat cnt" "phase (rq_hw st) = ReadDma (a0 + n)" "aborted st = 0 \<or> aborted st = 4" "\<not> bit (rq_ev st) 9"
    "rq_intr st = 1" "type_ok (rq_card st)" "cmd_buffer (rq_cmd st) = off" "cmd_sector_count (rq_cmd st) = cnt"
    "off + unat cnt * 512 \<le> length m0" "disk (rq_hw st) = dk" "rd_data a0 off cnt m0 dk st"
    using assms by (simp_all add: rd_inv_def rd_bus_def n_def)
  obtain d h1 where d: "sio_dma_data port (rq_hw st) = (d, h1)" by fastforce
  obtain ok h2 where w: "mx_sio2_wait_transfer_complete port h1 = (ok, h2)" by fastforce
  obtain bs h3 where b: "data_in_n port 3 h2 = (bs, h3)" by fastforce
  note law = dma_rx_done [OF st(3) d w b]
  have len: "length (dk (a0 + n)) = 512" using block_len [of "rq_hw st"] st(11) by simp
  define s1 where "s1 = st\<lparr>rq_mem := store (rq_mem st) o1 d, rq_dma := None\<rparr>"
  have dd: "d = map reverse_byte (dk (a0 + n))" "disk h2 = dk" using law st(11) by simp_all
  have s1: "rq_mem s1 = store (rq_mem st) (off + n_sent st * 512) (map reverse_byte (dk (a0 + n_sent st)))"
    "rq_cmd s1 = rq_cmd st" "rq_ev s1 = rq_ev st" "rq_intr s1 = 1" "type_ok (rq_card s1)" "rq_dma s1 = None"
    using st dd by (simp_all add: s1_def n_def)
  have m: "ev_measure st \<ge> 2 * (unat cnt - n)" "unat cnt - n \<ge> 1"
    using st assms(2) by (simp_all add: ev_measure_def n_def)
  show ?thesis
  proof (cases ok)
    case False
    then have eq: "mx_sio2_dma_isr_rx port o1 st = isr_timeout (set_hw h2 s1)"
      using d w by (simp add: mx_sio2_dma_isr_rx_def Let_def s1_def)
    have "phase h2 = Lost" using law False by simp
    moreover have "rd_data a0 off cnt m0 dk (isr_timeout (set_hw h2 s1))"
      by (rule rd_store [OF st(12)]) (use st len s1 in \<open>simp_all add: n_def isr_timeout_def\<close>)
    ultimately have "rd_inv a0 off cnt m0 dk (isr_timeout (set_hw h2 s1))"
      using s1 dd st by (simp add: rd_inv_def rd_bus_def isr_timeout_def safe_def)
    moreover have "ev_measure (isr_timeout (set_hw h2 s1)) \<le> 1" using s1 by (simp add: ev_measure_def isr_timeout_def)
    ultimately show ?thesis unfolding eq using m by auto
  next
    case True
    then have l: "bs ! 2 = 0xFF" "phase h3 = ReadTok (Suc (a0 + n))" "disk h3 = dk" using law st(11) by simp_all
    obtain r h4 where t: "mx_sio2_wait_equal port 0xFE 4000 h3 = (r, h4)" by fastforce
    note tok = wait_token [OF t l(2)]
    define s2 where "s2 = set_response r (set_hw h4 s1)"
    have eq: "mx_sio2_dma_isr_rx port o1 st = isr_rx_next port s2"
      using d w b True l(1) t by (simp add: mx_sio2_dma_isr_rx_def isr_rx_token_def Let_def s2_def s1_def)
    have u: "unat (cmd_transferred (rq_cmd st) + 1) = Suc n"
      using st(2) unat_lt_u16 [of cnt] by (subst unat_add_lt) (simp_all add: n_def)
    have lt: "cmd_transferred (rq_cmd st) + 1 < cnt \<longleftrightarrow> Suc n < unat cnt" by (simp add: word_less_nat_alt u)
    have data: "rd_data a0 off cnt m0 dk x" if "rq_mem x = rq_mem s1" "n_rev x = n_rev st" "n_sent x = Suc n" "aborted x = 0 \<Longrightarrow> aborted st = 0" for x
      by (rule rd_store [OF st(12)]) (use st len s1 that in \<open>simp_all add: n_def\<close>)
    have h4: "disk h4 = dk" "safe (phase h4)" "phase h4 = ReadTok (Suc (a0 + n)) \<or> phase h4 = ReadBlk (Suc (a0 + n))"
      "r = 0 \<Longrightarrow> phase h4 = ReadBlk (Suc (a0 + n))"
      using tok l(3) by (auto simp: safe_def split: if_splits)
    consider (next1) "Suc n < unat cnt" "aborted st = 0" "r = 0" | (no_token) "Suc n < unat cnt" "aborted st = 0" "r \<noteq> 0"
      | (finish) "\<not> (Suc n < unat cnt \<and> aborted st = 0)" by blast
    then show ?thesis
    proof cases
      case next1
      define x where "x = set_ev EF_SIO2_INTR_REVERSE (mx_sio2_start_rx_dma port (off + Suc n * 512) (inc_transferred s2))"
      have "isr_rx_next port s2 = x"
        using next1 s1 st lt u by (simp add: isr_rx_next_def Let_def s2_def x_def)
      moreover have f: "rq_mem x = rq_mem s1" "n_rev x = n_rev st" "n_sent x = Suc n" "aborted x = 0" "rq_dma x = Some (off + Suc n * 512)"
        "rq_intr x = 1" "type_ok (rq_card x)" "cmd_buffer (rq_cmd x) = off" "cmd_sector_count (rq_cmd x) = cnt"
        "\<not> bit (rq_ev x) 9" "rq_hw x = sio_exec_dma port rx_queue None h4"
        using next1 s1 st u by (simp_all add: x_def mx_sio2_start_rx_dma_def s2_def bit_simps)
      moreover have "phase (rq_hw x) = ReadDma (Suc (a0 + n))" "disk (rq_hw x) = dk"
        using dma_rx [OF h4(4) [OF next1(3)]] h4(1) f(11) by simp_all
      ultimately have "rd_inv a0 off cnt m0 dk x" using data [OF f(1-3)] f(4) next1 st(10) by (simp add: rd_inv_def rd_bus_def)
      moreover have "ev_measure x \<le> 2 * (unat cnt - Suc n) + 1" using f by (simp add: ev_measure_def)
      ultimately show ?thesis unfolding eq using \<open>isr_rx_next port s2 = x\<close> m by auto
    next
      case no_token
      define x where "x = set_ev (EF_SIO2_INTR_REVERSE OR EF_SIO2_INTR_COMPLETE) (set_abort 1 (inc_transferred s2))"
      have "isr_rx_next port s2 = x"
        using no_token s1 st lt u by (simp add: isr_rx_next_def Let_def s2_def x_def)
      moreover have f: "rq_mem x = rq_mem s1" "n_rev x = n_rev st" "n_sent x = Suc n" "aborted x = 1" "rq_dma x = None"
        "rq_intr x = 1" "type_ok (rq_card x)" "cmd_buffer (rq_cmd x) = off" "cmd_sector_count (rq_cmd x) = cnt" "rq_hw x = h4"
        using s1 st u by (simp_all add: x_def s2_def)
      ultimately have "rd_inv a0 off cnt m0 dk x" using data [OF f(1-3)] f(4) no_token h4 st(10) by (simp add: rd_inv_def rd_bus_def)
      moreover have "ev_measure x \<le> 1" using f by (simp add: ev_measure_def)
      ultimately show ?thesis unfolding eq using \<open>isr_rx_next port s2 = x\<close> m by auto
    next
      case finish
      define x where "x = set_ev (EF_SIO2_INTR_REVERSE OR EF_SIO2_INTR_COMPLETE) (inc_transferred s2)"
      have "isr_rx_next port s2 = x"
        using finish s1 st lt u by (auto simp: isr_rx_next_def Let_def s2_def x_def)
      moreover have f: "rq_mem x = rq_mem s1" "n_rev x = n_rev st" "n_sent x = Suc n" "aborted x = aborted st" "rq_dma x = None"
        "rq_intr x = 1" "type_ok (rq_card x)" "cmd_buffer (rq_cmd x) = off" "cmd_sector_count (rq_cmd x) = cnt" "rq_hw x = h4"
        using s1 st u by (simp_all add: x_def s2_def)
      ultimately have "rd_inv a0 off cnt m0 dk x" using data [OF f(1-3)] f(4) finish h4 st(2,4,10) by (auto simp: rd_inv_def rd_bus_def)
      moreover have "ev_measure x \<le> 1" using f by (simp add: ev_measure_def)
      ultimately show ?thesis unfolding eq using \<open>isr_rx_next port s2 = x\<close> m by auto
    qed
  qed
qed

lemma tick_rx_inv:
  assumes "rd_inv a0 off cnt m0 dk st"
  shows "rd_inv a0 off cnt m0 dk (tick port st) \<and> n_rev (tick port st) = n_rev st
    \<and> (aborted (tick port st) = 0 \<longrightarrow> aborted st = 0) \<and> (rq_dma st = None \<longrightarrow> rq_dma (tick port st) = None)
    \<and> (ev_measure (tick port st) < ev_measure st \<or> rq_ev (tick port st) = rq_ev st \<and> ev_measure (tick port st) = ev_measure st)"
    (is "?P st (tick port st)")
proof -
  have keep: "n_rev (mx_sio2_dma_isr_rx port o1 x) = n_rev x \<and> (aborted (mx_sio2_dma_isr_rx port o1 x) = 0 \<longrightarrow> aborted x = 0)" for o1 x
    by (simp add: mx_sio2_dma_isr_rx_def isr_rx_next_def isr_timeout_def mx_sio2_start_rx_dma_def Let_def split: prod.split)
  have run: "?P x (run_irqs port k x)" if "rd_inv a0 off cnt m0 dk x" for k x
    using that
  proof (induction k arbitrary: x)
    case (Suc k)
    show ?case
    proof (cases "rq_dma x")
      case (Some o1)
      let ?y = "mx_sio2_dma_isr_rx port o1 x"
      have y: "rd_inv a0 off cnt m0 dk ?y" "ev_measure ?y < ev_measure x" using isr_rx_inv [OF Suc.prems Some] by simp_all
      have "run_irqs port (Suc k) x = run_irqs port k ?y" using Some Suc.prems by (simp add: rd_inv_def)
      then show ?thesis using Suc.IH [OF y(1)] keep [of o1 x] y(2) Some by auto
    qed (use Suc.prems in simp)
  qed simp
  obtain n h where i: "sio_irqs port (rq_hw st) = (n, h)" by fastforce
  have "rd_data a0 off cnt m0 dk (set_hw h st) = rd_data a0 off cnt m0 dk st" "rd_bus a0 off cnt (set_hw h st) = rd_bus a0 off cnt st"
    using irqs [OF i] by (simp_all add: rd_data_def rd_bus_def cong: option.case_cong)
  then have "rd_inv a0 off cnt m0 dk (set_hw h st)" using assms irqs [OF i] by (simp add: rd_inv_def)
  moreover have "ev_measure (set_hw h st) = ev_measure st" by (simp add: ev_measure_def)
  ultimately show ?thesis using run [of "set_hw h st" n] i by (simp add: tick_def)
qed

lemma wait_event_rx:
  assumes "wait_event port n bits st = (q, st')" "rd_inv a0 off cnt m0 dk st"
  shows "rd_inv a0 off cnt m0 dk st' \<and> ev_measure st' \<le> ev_measure st
    \<and> (case q of None \<Rightarrow> True | Some res \<Rightarrow> res = rq_ev st' \<and> res AND bits \<noteq> 0)"
  using assms
proof (induction n arbitrary: st)
  case (Suc n)
  note t = tick_rx_inv [OF Suc.prems(2)]
  show ?case
  proof (cases "rq_ev (tick port st) AND bits = 0")
    case True
    then have "wait_event port n bits (tick port st) = (q, st')" using Suc.prems(1) by (simp add: Let_def)
    then show ?thesis using Suc.IH t by fastforce
  next
    case False
    then show ?thesis using Suc.prems(1) t by (auto simp: Let_def)
  qed
qed simp

lemma tick_reversed:
  assumes "rq_intr st = 1"
  shows "tick port (set_reversed r st) = set_reversed r (tick port st)"
proof -
  have intr: "rq_intr (mx_sio2_dma_isr_rx port o1 x) = rq_intr x" for o1 x
    by (simp add: mx_sio2_dma_isr_rx_def isr_rx_next_def isr_timeout_def mx_sio2_start_rx_dma_def Let_def split: prod.split)
  have "rq_intr x = 1 \<Longrightarrow> run_irqs port n (set_reversed r x) = set_reversed r (run_irqs port n x)" for n x
    by (induction n arbitrary: x) (auto simp: isr_rx_reversed intr split: option.split)
  moreover obtain n h where "sio_irqs port (rq_hw st) = (n, h)" by fastforce
  ultimately show ?thesis using assms by (simp add: tick_def set_hw_reversed)
qed

lemma tick_keeps_reversed:
  assumes "rq_intr st = 1"
  shows "cmd_reversed (rq_cmd (tick port st)) = cmd_reversed (rq_cmd st)"
proof -
  have "set_reversed (cmd_reversed (rq_cmd st)) st = st" by (simp add: set_reversed_def)
  then have "tick port st = set_reversed (cmd_reversed (rq_cmd st)) (tick port st)" using tick_reversed [OF assms] by metis
  then have "rq_cmd (tick port st) = (rq_cmd (tick port st))\<lparr>cmd_reversed := cmd_reversed (rq_cmd st)\<rparr>"
    by (metis set_reversed_sel(7))
  then show ?thesis by (metis dma_command.select_convs(4) dma_command.surjective dma_command.update_convs(4))
qed

text \<open>An aborted command may count fewer sectors than are done.\<close>

lemma rd_inv_fewer:
  assumes "rd_inv a0 off cnt m0 dk (set_reversed r st)" "aborted st \<noteq> 0" "unat (cmd_reversed (rq_cmd st)) \<le> unat r"
  shows "rd_inv a0 off cnt m0 dk st"
  using assms by (auto simp: rd_inv_def rd_data_def rd_bus_def split: option.splits)

lemma reverse_one_inv:
  assumes "rd_inv a0 off cnt m0 dk st" "cmd_reversed (rq_cmd st) < cmd_transferred (rq_cmd st)" "aborted st = 0"
  shows "rd_inv a0 off cnt m0 dk (reverse_one port st) \<and> ev_measure (reverse_one port st) \<le> ev_measure st
    \<and> (rq_dma st = None \<longrightarrow> rq_dma (reverse_one port st) = None)
    \<and> (aborted (reverse_one port st) \<noteq> 0 \<and> n_rev (reverse_one port st) = n_rev st
        \<or> aborted (reverse_one port st) = 0 \<and> n_rev (reverse_one port st) = Suc (n_rev st))"
proof -
  define n where "n = n_rev st"
  define k where "k = off + n * 512"
  define m1 where "m1 = store (rq_mem st) k (dk (a0 + n))"
  define s1 where "s1 = st\<lparr>rq_mem := m1\<rparr>"
  define r where "r = cmd_reversed (rq_cmd st) + 1"
  have inv: "rd_data a0 off cnt m0 dk st" "cmd_buffer (rq_cmd st) = off" "off + unat cnt * 512 \<le> length m0" "disk (rq_hw st) = dk"
    "rq_intr st = 1" using assms(1) by (simp_all add: rd_inv_def)
  have lt: "n < n_sent st" "n_sent st \<le> unat cnt" using assms(2) inv(1) by (simp_all add: word_less_nat_alt n_def rd_data_def)
  have len: "length (dk (a0 + n)) = 512" using block_len [of "rq_hw st"] inv(4) by simp
  have "n * 512 + 512 \<le> unat cnt * 512" using lt by (metis Suc_leI add.commute dual_order.trans mult_Suc mult_le_mono1)
  then have le: "k + 512 \<le> length (rq_mem st)" using inv(1,3) by (simp add: rd_data_def k_def)
  have u: "unat r = Suc n" using lt unat_lt_u16 [of cnt] by (subst r_def, subst unat_add_lt) (simp_all add: n_def)
  have raw: "take 512 (drop k (rq_mem st)) = map reverse_byte (dk (a0 + n))"
    using inv(1) assms(3) lt by (simp add: rd_data_def n_def k_def sec_def)
  have rev: "reverse_buffer (take 512 (drop k (rq_mem st))) (512 div 4) = dk (a0 + n)"
    using reverse_sec [of "take 512 (drop k (rq_mem st))"] raw len by (simp add: comp_def)
  have same: "sec m1 off n = dk (a0 + n)" using le len by (simp add: m1_def k_def sec_store_same)
  have other: "sec m1 off i = sec (rq_mem st) off i" if "i \<noteq> n" for i using le len that by (simp add: m1_def k_def sec_store_other)
  have mem: "length m1 = length m0" "take off m1 = take off m0"
    using inv(1) le len by (simp_all add: rd_data_def m1_def k_def)
  have "rd_data a0 off cnt m0 dk (set_reversed r s1)"
    using inv(1) lt u same other mem unfolding rd_data_def s1_def by (auto simp: n_def less_Suc_eq)
  moreover have "rd_bus a0 off cnt (set_reversed r s1) = rd_bus a0 off cnt st"
    by (simp add: rd_bus_def s1_def cong: option.case_cong)
  ultimately have i1: "rd_inv a0 off cnt m0 dk (set_reversed r s1)"
    using assms(1) by (simp add: rd_inv_def s1_def)
  note t = tick_rx_inv [OF i1, unfolded tick_reversed [of s1, unfolded s1_def, simplified, OF inv(5), folded s1_def]]
  have ro: "reverse_one port st = (if aborted (tick port s1) = 0 then set_reversed (cmd_reversed (rq_cmd (tick port s1)) + 1) (tick port s1) else tick port s1)"
    using rev inv(2) by (simp add: reverse_one_def Let_def n_def k_def m1_def s1_def set_reversed_def)
  have n_tick: "cmd_reversed (rq_cmd (tick port s1)) = cmd_reversed (rq_cmd st)"
    using tick_keeps_reversed [of s1] inv(5) by (simp add: s1_def)
  have m: "ev_measure (set_reversed r (tick port s1)) = ev_measure (tick port s1)" "ev_measure (set_reversed r s1) = ev_measure st"
    by (simp_all add: ev_measure_def s1_def)
  show ?thesis
  proof (cases "aborted (tick port s1) = 0")
    case True
    then have "reverse_one port st = set_reversed r (tick port s1)" using ro n_tick by (simp add: r_def)
    then show ?thesis using t True m u by (auto simp: n_def s1_def)
  next
    case False
    then have eq: "reverse_one port st = tick port s1" using ro by simp
    have "rd_inv a0 off cnt m0 dk (tick port s1)"
      by (rule rd_inv_fewer) (use t False n_tick u in \<open>auto simp: n_def\<close>)
    then show ?thesis using t False m n_tick unfolding eq by (auto simp: s1_def)
  qed
qed

end

end
