(* ===== verification/Sd_Read.thy ===== *)
theory Sd_Read
  imports Sd_Dma
begin

text \<open>
  Reading from the SD card under the contract of the card: the event loop of \<open>spisd_read_multi_do\<close> beside the receive handler,
  one attempt of a request with its begin and end, and the retry loop of \<open>spisd_read\<close>. The invariant of a command in
  progress is kept by every interrupt and every step of the thread, so the lemmas hold for every interleaving.
\<close>

section \<open>The event loop\<close>

lemma aborts_stay: "aborted st \<noteq> 0 \<Longrightarrow> aborted (mx_sio2_dma_isr_rx port o1 st) \<noteq> 0"
  by (simp add: mx_sio2_dma_isr_rx_def isr_rx_next_def isr_timeout_def mx_sio2_start_rx_dma_def Let_def split: prod.split)

lemma isr_rx_signals: "aborted (mx_sio2_dma_isr_rx port o1 st) = 0 \<Longrightarrow> bit (rq_ev (mx_sio2_dma_isr_rx port o1 st)) 8"
  by (auto simp: mx_sio2_dma_isr_rx_def isr_rx_next_def isr_timeout_def mx_sio2_start_rx_dma_def Let_def bit_simps split: prod.splits if_splits)

lemma isr_rx_intr: "rq_intr (mx_sio2_dma_isr_rx port o1 st) = rq_intr st"
  by (simp add: mx_sio2_dma_isr_rx_def isr_rx_next_def isr_timeout_def mx_sio2_start_rx_dma_def Let_def split: prod.split)

text \<open>What the handlers keep, a tick keeps.\<close>

lemma run_irqs_rule:
  assumes "I st" and "\<And>x o1. I x \<Longrightarrow> rq_dma x = Some o1 \<Longrightarrow> rq_intr x = INTR_RX \<Longrightarrow> I (mx_sio2_dma_isr_rx port o1 x)"
    and "\<And>x o1. I x \<Longrightarrow> rq_dma x = Some o1 \<Longrightarrow> rq_intr x = INTR_TX \<Longrightarrow> I (mx_sio2_dma_isr_tx port x)"
  shows "I (run_irqs port n st)"
  using assms(1) by (induction n arbitrary: st) (auto simp: assms(2,3) split: option.split)

lemma tick_rule:
  assumes "I st" and "\<And>h n. sio_irqs port (rq_hw st) = (n, h) \<Longrightarrow> I (set_hw h st)"
    and "\<And>x o1. I x \<Longrightarrow> rq_dma x = Some o1 \<Longrightarrow> rq_intr x = INTR_RX \<Longrightarrow> I (mx_sio2_dma_isr_rx port o1 x)"
    and "\<And>x o1. I x \<Longrightarrow> rq_dma x = Some o1 \<Longrightarrow> rq_intr x = INTR_TX \<Longrightarrow> I (mx_sio2_dma_isr_tx port x)"
  shows "I (tick port st)"
proof -
  obtain n h where i: "sio_irqs port (rq_hw st) = (n, h)" by fastforce
  have "I (run_irqs port n (set_hw h st))" by (rule run_irqs_rule) (use assms i in auto)
  then show ?thesis using i by (simp add: tick_def)
qed

text \<open>No wake-up is lost: unless the event is set or the command aborted, all received sectors are reversed.\<close>

definition served :: "'h sd_req \<Rightarrow> bool" where
  "served st \<longleftrightarrow> (aborted st = 0 \<and> \<not> bit (rq_ev st) 8 \<longrightarrow> cmd_reversed (rq_cmd st) = cmd_transferred (rq_cmd st))"

lemma isr_rx_served: "served (mx_sio2_dma_isr_rx port o1 st)"
  using isr_rx_signals by (fastforce simp: served_def)

lemma tick_served: "served st \<Longrightarrow> rq_intr st = 1 \<Longrightarrow> served (tick port st) \<and> rq_intr (tick port st) = 1"
  by (rule tick_rule [where I = "\<lambda>x. served x \<and> rq_intr x = 1"]) (simp_all add: isr_rx_served isr_rx_intr, simp add: served_def)

lemma tick_idle: "rq_dma st = None \<Longrightarrow> \<exists>h. tick port st = set_hw h st"
proof -
  assume a: "rq_dma st = None"
  obtain n h where i: "sio_irqs port (rq_hw st) = (n, h)" by fastforce
  show ?thesis using a i by (cases n) (auto simp: tick_def)
qed

lemma not_bits: "\<not> bit (x AND - 257 :: u32) 8" "bit (x AND - 257 :: u32) 9 \<longleftrightarrow> bit x 9"
  "bit (x AND - 513 :: u32) 8 \<longleftrightarrow> bit x 8" "\<not> bit (x AND - 513 :: u32) 9"
proof -
  have "(- 257 :: u32) = NOT (push_bit 8 1)" "(- 513 :: u32) = NOT (push_bit 9 1)" by simp_all
  then show "\<not> bit (x AND - 257) 8" "bit (x AND - 257) 9 \<longleftrightarrow> bit x 9"
      "bit (x AND - 513) 8 \<longleftrightarrow> bit x 8" "\<not> bit (x AND - 513) 9"
    by (simp_all only: bit_and_iff bit_not_iff_eq bit_push_bit_iff bit_1_iff) simp_all
qed

text \<open>A completion is not lost, whatever the card does: while the thread works, a channel that has stopped has left its
  completion event, and a command aborted by the handler carries the fault in its response.\<close>

definition signalled :: "'h sd_req \<Rightarrow> bool" where
  "signalled st \<longleftrightarrow> rq_intr st = 1 \<and> (rq_dma st = None \<longrightarrow> bit (rq_ev st) 9)
     \<and> (aborted st \<noteq> 0 \<longrightarrow> rq_dma st = None \<and> cmd_response (rq_cmd st) \<noteq> 0)"

lemma isr_rx_signalled:
  assumes "signalled st" "rq_dma st = Some o1"
  shows "signalled (mx_sio2_dma_isr_rx port o1 st)"
  using assms by (simp add: signalled_def mx_sio2_dma_isr_rx_def isr_rx_next_def isr_timeout_def mx_sio2_start_rx_dma_def Let_def bit_simps
      split: prod.split)

lemma tick_signalled: "signalled st \<Longrightarrow> signalled (tick port st)"
  by (rule tick_rule) (simp_all add: isr_rx_signalled, simp_all add: signalled_def)

lemma reverse_one_signalled: "signalled st \<Longrightarrow> signalled (reverse_one port st)"
proof -
  assume "signalled st"
  then have "signalled (tick port (st\<lparr>rq_mem := m\<rparr>))" for m by (intro tick_signalled) (simp add: signalled_def)
  then show ?thesis by (simp add: reverse_one_def Let_def signalled_def)
qed

lemma reverse_loop_signalled:
  assumes "reverse_loop port st = Some st'" "signalled st"
  shows "signalled st'"
proof -
  have "signalled st \<longrightarrow> signalled st'"
    by (rule reverse_loop.raw_induct [where P = "\<lambda>p s s'. signalled s \<longrightarrow> signalled s'", OF _ assms(1)])
      (auto simp: Let_def tick_signalled reverse_one_signalled split: if_splits)
  then show ?thesis using assms(2) by simp
qed

lemma wait_event_signalled:
  "wait_event port n bits st = (q, st') \<Longrightarrow> signalled st \<Longrightarrow>
     signalled st' \<and> (case q of None \<Rightarrow> True | Some res \<Rightarrow> res = rq_ev st' \<and> res AND bits \<noteq> 0)"
proof (induction n arbitrary: st)
  case (Suc n)
  note t = tick_signalled [OF Suc.prems(2), of port]
  show ?case
  proof (cases "rq_ev (tick port st) AND bits = 0")
    case True
    then have "wait_event port n bits (tick port st) = (q, st')" using Suc.prems(1) by (simp add: Let_def)
    from Suc.IH [OF this t] show ?thesis .
  next
    case False
    then show ?thesis using Suc.prems(1) t by (auto simp: Let_def)
  qed
qed simp

lemma isr_rx_event:
  assumes "signalled st" "rq_dma st = Some o1"
  shows "bit (rq_ev (mx_sio2_dma_isr_rx port o1 st)) 8 \<or> bit (rq_ev (mx_sio2_dma_isr_rx port o1 st)) 9"
  using isr_rx_signals [of port o1 st] isr_rx_signalled [OF assms, of port] by (auto simp: signalled_def)

lemma run_irqs_events: "bit (rq_ev st) b \<Longrightarrow> rq_intr st = 1 \<Longrightarrow> bit (rq_ev (run_irqs port n st)) b"
  by (induction n arbitrary: st)
    (auto simp: mx_sio2_dma_isr_rx_def isr_rx_next_def isr_timeout_def mx_sio2_start_rx_dma_def Let_def bit_simps split: option.split prod.split)

lemma poll_now: "rq_ev (tick port st) AND bits \<noteq> 0 \<Longrightarrow> 0 < n \<Longrightarrow> wait_event port n bits st = (Some (rq_ev (tick port st)), tick port st)"
  by (cases n) (simp_all add: Let_def)

text \<open>An interrupt that is served before the poll is seen by it.\<close>

lemma prompt_poll:
  assumes "signalled st" "0 < fst (sio_irqs port (rq_hw st))"
  shows "bit (rq_ev (tick port st)) 8 \<or> bit (rq_ev (tick port st)) 9"
proof (cases "rq_dma st")
  case None
  then show ?thesis using tick_idle [OF None, of port] assms(1) by (auto simp: signalled_def)
next
  case (Some o1)
  obtain n h where i: "sio_irqs port (rq_hw st) = (n, h)" by fastforce
  then obtain k where k: "n = Suc k" using assms(2) by (cases n) auto
  let ?s = "mx_sio2_dma_isr_rx port o1 (set_hw h st)"
  have s: "signalled (set_hw h st)" "rq_dma (set_hw h st) = Some o1" using assms(1) Some by (simp_all add: signalled_def)
  have "tick port st = run_irqs port k ?s" using i k s by (simp add: tick_def signalled_def)
  moreover have "rq_intr ?s = 1" using s(1) by (simp add: isr_rx_intr signalled_def)
  ultimately show ?thesis using isr_rx_event [OF s, of port] run_irqs_events [of ?s _ port k] by auto
qed

text \<open>How the event loop can end with an aborted command although the handler saw no fault: only by the time-out of a transfer
  that was running at the last poll, and not at all when the interrupts are served before each access.\<close>

definition gave_up :: "'h sd_req \<Rightarrow> bool" where
  "gave_up st \<longleftrightarrow> aborted st = 4 \<and> (rq_dma st = None \<longrightarrow> bit (rq_ev st) 9)"

lemma read_events_signalled:
  assumes "read_events port st = Some st'" "signalled st"
  shows "(aborted st' \<noteq> 0 \<and> cmd_response (rq_cmd st') = 0 \<longrightarrow> gave_up st')
    \<and> ((\<forall>h. 0 < fst (sio_irqs port h)) \<longrightarrow> cmd_response (rq_cmd st') = 0 \<longrightarrow> aborted st' = 0)"
    (is "?Q port st'")
proof (rule read_events.raw_induct [where P = "\<lambda>p s s'. signalled s \<longrightarrow> ?Q p s'", OF _ assms(1), THEN mp, OF _ assms(2)], rule impI)
  fix f p s s'
  assume 1: "\<And>p s s'. f p s = Some s' \<Longrightarrow> signalled s \<longrightarrow> ?Q p s'"
    "(case spisd_wait_dma_event p (EF_SIO2_INTR_REVERSE OR EF_SIO2_INTR_COMPLETE) s of
        (None, st) \<Rightarrow> Some (set_abort CMD_ABORT_TRANSFER_TIMEOUT (tick p st))
      | (Some resbits, st) \<Rightarrow>
          Option.bind (if resbits AND EF_SIO2_INTR_REVERSE \<noteq> 0
                       then reverse_loop p (clear_ev EF_SIO2_INTR_REVERSE (tick p st)) else Some st) (\<lambda>st.
          if resbits AND EF_SIO2_INTR_COMPLETE \<noteq> 0 then Some (clear_ev EF_SIO2_INTR_COMPLETE (tick p st))
          else f p st)) = Some s'" "signalled s"
  obtain q s1 where w: "spisd_wait_dma_event p (EF_SIO2_INTR_REVERSE OR EF_SIO2_INTR_COMPLETE) s = (q, s1)" by fastforce
  note i1 = wait_event_signalled [OF w [unfolded spisd_wait_dma_event_def] 1(3)]
  show "?Q p s'"
  proof (cases q)
    case None
    then have s': "s' = set_abort 4 (tick p s1)" using 1(2) w by simp
    have "gave_up s'" using tick_signalled [OF i1 [THEN conjunct1], of p] by (simp add: s' gave_up_def signalled_def)
    moreover have "\<not> (\<forall>h. 0 < fst (sio_irqs p h))"
    proof
      assume "\<forall>h. 0 < fst (sio_irqs p h)"
      then have b: "bit (rq_ev (tick p s)) 8 \<or> bit (rq_ev (tick p s)) 9" using prompt_poll [OF 1(3)] by blast
      then have "rq_ev (tick p s) AND (EF_SIO2_INTR_REVERSE OR EF_SIO2_INTR_COMPLETE) \<noteq> 0" by (simp add: ev_both)
      from poll_now [OF this, of 3000] show False using w None by (simp add: spisd_wait_dma_event_def)
    qed
    ultimately show ?thesis by blast
  next
    case (Some res)
    then have res: "res = rq_ev s1" "bit res 8 \<or> bit res 9" using i1 by (auto simp: ev_both)
    define s2 where "s2 = clear_ev EF_SIO2_INTR_REVERSE (tick p s1)"
    have i2: "signalled s2" using tick_signalled [OF i1 [THEN conjunct1], of p] by (simp add: s2_def signalled_def not_bits)
    obtain x where x: "(if bit res 8 then reverse_loop p s2 else Some s1) = Some x"
        "(if bit res 9 then Some (clear_ev EF_SIO2_INTR_COMPLETE (tick p x)) else f p x) = Some s'"
      using 1(2) w Some by (auto simp: ev_bits bind_eq_Some_conv simp flip: s2_def split: if_splits)
    have i3: "signalled x" using x(1) reverse_loop_signalled [OF _ i2] i1 by (auto split: if_splits)
    show ?thesis
    proof (cases "bit res 9")
      case True
      then have "s' = clear_ev EF_SIO2_INTR_COMPLETE (tick p x)" using x(2) by simp
      then show ?thesis using tick_signalled [OF i3, of p] by (auto simp: signalled_def)
    next
      case False
      then show ?thesis using x(2) 1(1) [of p x s'] i3 by simp
    qed
  qed
qed

context sd_card
begin

lemma tick_aborts_rx:
  assumes "aborted st \<noteq> 0" "rq_intr st = 1"
  shows "aborted (tick port st) \<noteq> 0"
proof -
  have "aborted (tick port st) \<noteq> 0 \<and> rq_intr (tick port st) = 1"
    by (rule tick_rule [where I = "\<lambda>x. aborted x \<noteq> 0 \<and> rq_intr x = 1"]) (use assms in \<open>simp_all add: isr_rx_intr aborts_stay\<close>)
  then show ?thesis by simp
qed

lemma wait_event_served:
  "wait_event port n bits st = (q, st') \<Longrightarrow> served st \<Longrightarrow> rq_intr st = 1 \<Longrightarrow> served st' \<and> rq_intr st' = 1"
  by (induction n arbitrary: st) (auto simp: Let_def tick_served split: if_splits)

lemma reverse_loop_ok:
  "rd_inv a0 off cnt m0 dk st \<Longrightarrow>
     \<exists>st'. reverse_loop port st = Some st' \<and> rd_inv a0 off cnt m0 dk st' \<and> ev_measure st' \<le> ev_measure st
       \<and> (rq_dma st = None \<longrightarrow> rq_dma st' = None \<and> rq_ev st' = rq_ev st)
       \<and> (aborted st' = 0 \<longrightarrow> cmd_reversed (rq_cmd st') = cmd_transferred (rq_cmd st'))"
proof (induction "2 * (unat cnt - n_rev st) + (if aborted st = 0 then 1 else 0)" arbitrary: st rule: less_induct)
  case less
  let ?t = "tick port st"
  note t = tick_rx_inv [OF less.prems]
  have t0: "rq_dma st = None \<Longrightarrow> rq_ev ?t = rq_ev st" using tick_idle [of st port] by auto
  have le: "n_rev ?t \<le> n_sent ?t" "n_sent ?t \<le> unat cnt" using t by (simp_all add: rd_inv_def rd_data_def)
  show ?case
  proof (cases "cmd_reversed (rq_cmd ?t) < cmd_transferred (rq_cmd ?t) \<and> aborted ?t = 0")
    case False
    have "reverse_loop port st = Some ?t" using False by (subst reverse_loop.simps) (auto simp: Let_def)
    moreover have "aborted ?t = 0 \<longrightarrow> cmd_reversed (rq_cmd ?t) = cmd_transferred (rq_cmd ?t)"
      using False le by (auto simp: word_less_nat_alt word_unat_eq_iff)
    ultimately show ?thesis using t t0 by fastforce
  next
    case True
    let ?u = "reverse_one port ?t"
    note u = reverse_one_inv [OF t [THEN conjunct1] True [THEN conjunct1] True [THEN conjunct2]]
    have u0: "rq_ev ?u = rq_ev ?t" if "rq_dma ?t = None"
    proof -
      have "rq_ev (tick port (?t\<lparr>rq_mem := m\<rparr>)) = rq_ev ?t" for m
        using tick_idle [of "?t\<lparr>rq_mem := m\<rparr>" port] that by auto
      then show ?thesis by (simp add: reverse_one_def Let_def)
    qed
    have "n_rev ?t < unat cnt" using True le by (simp add: word_less_nat_alt)
    then have "2 * (unat cnt - n_rev ?u) + (if aborted ?u = 0 then 1 else 0)
        < 2 * (unat cnt - n_rev st) + (if aborted st = 0 then 1 else 0 :: nat)"
      using u t True by auto
    from less.hyps [OF this u [THEN conjunct1]] obtain st' where
      r: "reverse_loop port ?u = Some st'" "rd_inv a0 off cnt m0 dk st'" "ev_measure st' \<le> ev_measure ?u"
        "rq_dma ?u = None \<longrightarrow> rq_dma st' = None \<and> rq_ev st' = rq_ev ?u"
        "aborted st' = 0 \<longrightarrow> cmd_reversed (rq_cmd st') = cmd_transferred (rq_cmd st')" by (elim exE conjE) (rule that)
    have "reverse_loop port st = Some st'" using True r(1) by (subst reverse_loop.simps) (simp add: Let_def)
    moreover have "ev_measure st' \<le> ev_measure st" using r(3) u t by linarith
    moreover have "rq_dma st = None \<longrightarrow> rq_dma st' = None \<and> rq_ev st' = rq_ev st" using r(4) u u0 t t0 by simp
    ultimately show ?thesis using r(2,5) by (intro exI [of _ st']) simp
  qed
qed

lemma rd_clear:
  assumes "rd_inv a0 off cnt m0 dk st"
  shows "rd_inv a0 off cnt m0 dk (clear_ev b st)"
  using assms by (auto simp: rd_inv_def rd_data_def rd_bus_def bit_simps split: option.splits)

lemma rd_abort:
  assumes "rd_inv a0 off cnt m0 dk st"
  shows "rd_inv a0 off cnt m0 dk (set_abort 4 st)"
  using assms by (auto simp: rd_inv_def rd_data_def rd_bus_def safe_def split: option.splits)

text \<open>The event loop ends, and either everything was received or the command is marked as aborted.\<close>

lemma read_events_ok:
  "rd_inv a0 off cnt m0 dk st \<Longrightarrow> served st \<Longrightarrow>
     \<exists>st'. read_events port st = Some st' \<and> rd_inv a0 off cnt m0 dk st' \<and> (aborted st' \<noteq> 4 \<longrightarrow> rq_dma st' = None)
       \<and> (aborted st' = 0 \<longrightarrow> n_rev st' = unat cnt)"
proof (induction "ev_measure st" arbitrary: st rule: less_induct)
  case less
  obtain q s1 where w: "spisd_wait_dma_event port (EF_SIO2_INTR_REVERSE OR EF_SIO2_INTR_COMPLETE) st = (q, s1)" by fastforce
  note i1 = wait_event_rx [OF w [unfolded spisd_wait_dma_event_def] less.prems(1)]
  have v1: "served s1"
    using wait_event_served [OF w [unfolded spisd_wait_dma_event_def] less.prems(2)] less.prems(1) by (simp add: rd_inv_def)
  show ?case
  proof (cases q)
    case None
    then have "read_events port st = Some (set_abort 4 (tick port s1))" using w by (subst read_events.simps) simp
    then show ?thesis using rd_abort tick_rx_inv i1 by simp
  next
    case (Some res)
    then have res: "res = rq_ev s1" "bit res 8 \<or> bit res 9" using i1 by (auto simp: ev_both)
    have fin: "bit res 9 \<Longrightarrow> rq_dma s1 = None" using i1 res by (auto simp: rd_inv_def rd_bus_def split: option.splits)
    define s2 where "s2 = clear_ev EF_SIO2_INTR_REVERSE (tick port s1)"
    note t1 = tick_rx_inv [OF i1 [THEN conjunct1]]
    have i2: "rd_inv a0 off cnt m0 dk s2" using t1 rd_clear by (simp add: s2_def)
    obtain s3 where r: "reverse_loop port s2 = Some s3" "rd_inv a0 off cnt m0 dk s3" "ev_measure s3 \<le> ev_measure s2"
       "rq_dma s2 = None \<longrightarrow> rq_dma s3 = None \<and> rq_ev s3 = rq_ev s2"
       "aborted s3 = 0 \<longrightarrow> cmd_reversed (rq_cmd s3) = cmd_transferred (rq_cmd s3)"
      using reverse_loop_ok [OF i2] by (elim exE conjE) (rule that)
    define x where "x = (if bit res 8 then s3 else s1)"
    have unf: "read_events port st = (if bit res 9 then Some (clear_ev EF_SIO2_INTR_COMPLETE (tick port x)) else read_events port x)"
      using w Some r(1) by (subst read_events.simps) (simp add: ev_bits x_def flip: s2_def)
    show ?thesis
    proof (cases "bit res 9")
      case True
      then have d: "rq_dma x = None" "rd_inv a0 off cnt m0 dk x" using fin r t1 i1 by (auto simp: x_def s2_def)
      moreover have "n_rev x = n_sent x" if "aborted x = 0"
        using that r(5) v1 res by (auto simp: x_def served_def)
      ultimately have "n_rev x = unat cnt" if "aborted x = 0" using that by (simp add: rd_inv_def rd_bus_def)
      moreover obtain h where "tick port x = set_hw h x" using tick_idle d(1) by blast
      moreover have "rd_inv a0 off cnt m0 dk (clear_ev 0x200 (tick port x))" using tick_rx_inv [OF d(2)] rd_clear by blast
      ultimately show ?thesis using True unf d by simp
    next
      case False
      then have b: "bit res 8" "x = s3" using res by (auto simp: x_def)
      have "ev_measure s2 < ev_measure s1"
      proof (cases "ev_measure (tick port s1) < ev_measure s1")
        case True
        moreover have "ev_measure s2 \<le> ev_measure (tick port s1)" by (simp add: s2_def ev_measure_def not_bits)
        ultimately show ?thesis by simp
      next
        case f: False
        then show ?thesis using t1 b res False by (auto simp: s2_def ev_measure_def not_bits)
      qed
      then have "ev_measure x < ev_measure st" using r(3) i1 b by simp
      moreover have "served x" using r(5) b by (simp add: served_def)
      ultimately show ?thesis using less.hyps [of x] r(2) b False unf by simp
    qed
  qed
qed

section \<open>One attempt\<close>

lemma arg_address:
  assumes "type_ok c" "unat s < sd_blocks hc"
  shows "sd_address hc (sd_arg c (ucast s)) = unat (s :: u64)"
proof -
  have "unat s < 2 ^ 32" using assms(2) by (simp add: sd_blocks_def split: if_splits)
  then have u: "unat (ucast s :: u32) = unat s" by (simp add: unsigned_ucast_eq take_bit_nat_eq_self)
  have ty: "sd_type c = CARD_TYPE_SDV2HC \<longleftrightarrow> hc" using assms(1) by (simp add: type_ok_def)
  show ?thesis
  proof (cases hc)
    case True
    then show ?thesis using ty u by (simp add: sd_arg_def sd_address_def)
  next
    case False
    then have "unat (push_bit 9 (ucast s :: u32)) = unat s * 512"
      using assms(2) [unfolded sd_blocks_def] u by (simp add: push_bit_eq_mult unat_word_ariths(2))
    then show ?thesis using ty False by (simp add: sd_arg_def sd_address_def)
  qed
qed

lemma read_begin_ok:
  assumes "spisd_read_multi_begin port s c = (r, c')" "safe (phase (sd_hw c))"
  shows "safe (phase (sd_hw c')) \<and> disk (sd_hw c') = disk (sd_hw c) \<and> sd_type c' = sd_type c
    \<and> (r = 0 \<longrightarrow> phase (sd_hw c') = ReadBlk (sd_address hc (sd_arg c s)))"
proof -
  obtain r1 h1 where 1: "mx_sio2_wait_equal port 0xFF 4000 (sd_hw c) = (r1, h1)" by fastforce
  note a1 = safe_wait_equal [OF 1 assms(2)]
  obtain r2 h2 where 2: "spisd_send_cmd port CMD18 (sd_arg c s) h1 = (r2, h2)" by fastforce
  note a2 = send_cmd_safe [OF 2 a1 [THEN conjunct1]]
  have t: "phase h2 = ReadTok (sd_address hc (sd_arg c s))" if "r2 = 0"
    using send_transfer [OF 2 a1 [THEN conjunct1] that] by simp
  obtain r3 h3 where 3: "mx_sio2_wait_equal port 0xFE 100000 h2 = (r3, h3)" by fastforce
  note a3 = wait_token [OF 3]
  have s3: "safe (phase h3)" "disk h3 = disk h2" using safe_wait_equal [OF 3] a2 by simp_all
  show ?thesis
    using assms 1 2 3 a1 a2 a3 t s3
    by (cases "r1 = 0"; cases "r2 = 0") (auto simp: spisd_read_multi_begin_def Let_def)
qed

text \<open>The state between the attempts of a request.\<close>

definition rq_ok :: "u8 \<Rightarrow> (nat \<Rightarrow> bytes) \<Rightarrow> 'h sd_req \<Rightarrow> bool" where
  "rq_ok intr dk st \<longleftrightarrow> rq_intr st = intr \<and> rq_dma st = None \<and> type_ok (rq_card st) \<and> safe (phase (rq_hw st)) \<and> disk (rq_hw st) = dk"

lemma rq_ok_idle: "rq_ok 0 dk st \<longleftrightarrow> sd_idle phase hc st \<and> disk (rq_hw st) = dk"
  by (auto simp: rq_ok_def sd_idle_def type_ok_def)

lemma recover_step:
  assumes "rq_recover port st = (r, st')" "rq_ok i dk st"
  shows "rq_ok i dk st' \<and> rq_mem st' = rq_mem st"
proof -
  obtain c where c: "spisd_recover port (rq_card st) = (r, c)" "st' = st\<lparr>rq_card := c\<rparr>"
    using assms(1) by (auto simp: rq_recover_def Let_def split: prod.splits)
  show ?thesis using recover_ok [OF c(1)] assms(2) c(2) by (simp add: rq_ok_def rq_hw_def)
qed

lemma safe_stop: "safe ph \<Longrightarrow> safe (sd_stop ph)"
  by (simp add: safe_def sd_stop_def split: sd_phase.splits)

text \<open>Stopping the channel, whatever it is doing, and taking the port again.\<close>

lemma lock_ok:
  assumes "safe (phase (rq_hw st))" "disk (rq_hw st) = dk" "type_ok (rq_card st)" "rq_dma st = None"
  shows "rq_ok i dk (mx_sio2_lock port i st) \<and> rq_mem (mx_sio2_lock port i st) = rq_mem st"
  using assms keeps_ports [of "sio_lock port (rq_hw st)" "td_baud (rq_card st)"] lock
  by (simp add: mx_sio2_lock_def rq_ok_def)

lemma unlock_ok:
  assumes "safe (phase (rq_hw (tick port st)))" "disk (rq_hw (tick port st)) = dk" "type_ok (rq_card (tick port st))"
  shows "rq_ok 0 dk (mx_sio2_unlock port st) \<and> rq_mem (mx_sio2_unlock port st) = rq_mem (tick port st)"
  using assms unlock safe_stop by (simp add: mx_sio2_unlock_def Let_def rq_ok_def)

lemma rq_ok_lock: "rq_ok j dk st \<Longrightarrow> rq_ok i dk (mx_sio2_lock port i st) \<and> rq_mem (mx_sio2_lock port i st) = rq_mem st"
  by (rule lock_ok) (simp_all add: rq_ok_def)

lemma rq_ok_tick: "rq_ok i dk st \<Longrightarrow> rq_ok i dk (tick port st) \<and> rq_mem (tick port st) = rq_mem st"
proof -
  assume a: "rq_ok i dk st"
  obtain n h where i: "sio_irqs port (rq_hw st) = (n, h)" by fastforce
  have "tick port st = set_hw h st" using a i by (cases n) (auto simp: tick_def rq_ok_def)
  then show ?thesis using a irqs [OF i] by (simp add: rq_ok_def)
qed

lemma rq_ok_unlock: "rq_ok i dk st \<Longrightarrow> rq_ok 0 dk (mx_sio2_unlock port st) \<and> rq_mem (mx_sio2_unlock port st) = rq_mem st"
  using rq_ok_tick unlock_ok [of st dk] by (simp add: rq_ok_def)

section \<open>Reading\<close>

lemma read_do_ok:
  assumes "rq_ok 1 dk st" "phase (rq_hw st) = ReadBlk a0" "off + unat cnt * 512 \<le> length (rq_mem st)" "cnt \<noteq> 0"
  shows "\<exists>st'. spisd_read_multi_do port off cnt st = Some (cmd_reversed (rq_cmd st'), st') \<and> rd_inv a0 off cnt (rq_mem st) dk st'
    \<and> (aborted st' \<noteq> 4 \<longrightarrow> rq_dma st' = None) \<and> (aborted st' = 0 \<longrightarrow> n_rev st' = unat cnt)"
proof -
  define s1 where "s1 = mx_sio2_start_rx_dma port off (setup_cmd off cnt st)"
  have f: "rq_mem s1 = rq_mem st" "rq_intr s1 = 1" "type_ok (rq_card s1)" "rq_dma s1 = Some off" "n_sent s1 = 0" "n_rev s1 = 0"
    "aborted s1 = 0" "cmd_buffer (rq_cmd s1) = off" "cmd_sector_count (rq_cmd s1) = cnt" "rq_hw s1 = sio_exec_dma port rx_queue None (rq_hw st)"
    "\<not> bit (rq_ev s1) 9" "\<not> bit (rq_ev s1) 8" "cmd_reversed (rq_cmd s1) = cmd_transferred (rq_cmd s1)"
    using assms(1) by (simp_all add: s1_def mx_sio2_start_rx_dma_def setup_cmd_def rq_ok_def bit_simps)
  have "unat cnt > 0" using assms(4) by (simp add: unat_gt_0)
  then have "rd_inv a0 off cnt (rq_mem st) dk s1"
    using f dma_rx [OF assms(2)] assms(1,3) by (simp add: rd_inv_def rd_data_def rd_bus_def rq_ok_def)
  note ok = read_events_ok [OF this]
  have "served s1" using f by (simp add: served_def)
  from ok [OF this] obtain s2 where s2: "read_events port s1 = Some s2" "rd_inv a0 off cnt (rq_mem st) dk s2"
      "aborted s2 \<noteq> 4 \<longrightarrow> rq_dma s2 = None" "aborted s2 = 0 \<longrightarrow> n_rev s2 = unat cnt"
    by (elim exE conjE) (rule that)
  then show ?thesis by (intro exI [of _ s2]) (simp add: spisd_read_multi_do_def flip: s1_def)
qed

text \<open>The memory after some sectors are done.\<close>

lemma take_secs:
  assumes "\<And>i. i < n \<Longrightarrow> sec m off i = f (a + i)" "off + n * 512 \<le> length m"
  shows "take (n * 512) (drop off m) = sectors f a n"
  using assms
proof (induction n arbitrary: off a)
  case (Suc n)
  have "sec m (off + 512) i = f (Suc a + i)" if "i < n" for i
    using Suc.prems(1) [of "Suc i"] that by (simp add: sec_def add.assoc)
  then have "take (n * 512) (drop (off + 512) m) = sectors f (Suc a) n"
    using Suc.IH [of "off + 512" "Suc a"] Suc.prems(2) by simp
  moreover have "take 512 (drop off m) = f a" using Suc.prems(1) [of 0] by (simp add: sec_def)
  moreover have "take (Suc n * 512) (drop off m) = take 512 (drop off m) @ take (n * 512) (drop (off + 512) m)"
    by (simp add: take_add add.commute)
  ultimately show ?case by (simp add: sectors_Suc)
qed simp

lemma rd_progress:
  assumes "rd_inv (a + n) (n * 512) cnt m0 dk st" "take (n * 512) m0 = sectors dk a n"
  shows "take ((n + n_rev st) * 512) (rq_mem st) = sectors dk a (n + n_rev st) \<and> length (rq_mem st) = length m0 \<and> n_rev st \<le> unat cnt"
proof -
  have d: "take (n * 512) (rq_mem st) = take (n * 512) m0" "length (rq_mem st) = length m0" "n_rev st \<le> unat cnt"
    "n * 512 + unat cnt * 512 \<le> length m0" "\<And>i. i < n_rev st \<Longrightarrow> sec (rq_mem st) (n * 512) i = dk (a + n + i)"
    using assms(1) by (simp_all add: rd_inv_def rd_data_def)
  then have "take (n_rev st * 512) (drop (n * 512) (rq_mem st)) = sectors dk (a + n) (n_rev st)"
    by (intro take_secs) auto
  then show ?thesis using d assms(2) by (simp add: distrib_right take_add sectors_add)
qed

lemma rd_inv_safe: "rd_inv a0 off cnt m0 dk st \<Longrightarrow> safe (phase (rq_hw st)) \<and> disk (rq_hw st) = dk \<and> type_ok (rq_card st) \<and> rq_intr st = 1"
  by (auto simp: rd_inv_def rd_bus_def safe_def split: option.splits)

lemma rd_leave: "rd_inv a0 off cnt m0 dk st \<Longrightarrow> rq_dma st = None \<Longrightarrow> rq_ok 1 dk st"
  using rd_inv_safe [of a0 off cnt m0 dk st] by (simp add: rq_ok_def)

lemma rd_relock:
  assumes "rd_inv a0 off cnt m0 dk st"
  shows "rq_ok i dk (mx_sio2_lock port i (mx_sio2_unlock port st))
    \<and> rq_mem (mx_sio2_lock port i (mx_sio2_unlock port st)) = rq_mem (tick port st)"
proof -
  have "rd_inv a0 off cnt m0 dk (tick port st)" by (rule tick_rx_inv [OF assms, THEN conjunct1])
  then have "rq_ok 0 dk (mx_sio2_unlock port st) \<and> rq_mem (mx_sio2_unlock port st) = rq_mem (tick port st)"
    using unlock_ok [of st dk] rd_inv_safe [of a0 off cnt m0 dk "tick port st"] by simp
  then show ?thesis using rq_ok_lock [of 0 dk "mx_sio2_unlock port st" i] by simp
qed

lemma read_attempt:
  assumes "rq_ok 1 dk st" "phase (rq_hw st) = ReadBlk a0" "off + unat left * 512 \<le> length (rq_mem st)" "left \<noteq> 0"
  shows "\<exists>res st'. spisd_read_multi_do port off left st = Some (res, st') \<and> rd_inv a0 off left (rq_mem st) dk (tick port st')
    \<and> unat res = n_rev (tick port st') \<and> (aborted (tick port st') \<noteq> 4 \<longrightarrow> rq_dma (tick port st') = None)"
proof -
  from read_do_ok [OF assms] obtain x where
    x: "spisd_read_multi_do port off left st = Some (cmd_reversed (rq_cmd x), x)" "rd_inv a0 off left (rq_mem st) dk x"
       "aborted x \<noteq> 4 \<longrightarrow> rq_dma x = None" "aborted x = 0 \<longrightarrow> n_rev x = unat left"
    by (elim exE conjE) (rule that)
  note t = tick_rx_inv [OF x(2)]
  have "rq_dma (tick port x) = None" if "aborted (tick port x) \<noteq> 4"
  proof (cases "aborted x = 4")
    case False
    then show ?thesis using x(3) t by blast
  next
    case True
    then have "aborted (tick port x) \<noteq> 0" using tick_aborts_rx [of x] x(2) by (simp add: rd_inv_def)
    then show ?thesis using that t by (auto simp: rd_inv_def rd_bus_def split: option.splits)
  qed
  then show ?thesis using x(1) t by (intro exI [of _ "cmd_reversed (rq_cmd x)"] exI [of _ x]) simp
qed

text \<open>A read request in progress: the first \<open>n\<close> of \<open>cnt\<close> sectors are in memory.\<close>

definition rd_prog :: "nat \<Rightarrow> nat \<Rightarrow> nat \<Rightarrow> (nat \<Rightarrow> bytes) \<Rightarrow> nat \<Rightarrow> bytes \<Rightarrow> bool" where
  "rd_prog L a cnt dk n m \<longleftrightarrow> length m = L \<and> cnt * 512 \<le> L \<and> take (n * 512) m = sectors dk a n"

lemma rd_prog_step:
  assumes "rd_inv (a + n) (n * 512) left m0 dk x" "rd_prog L a cnt dk n m0" "n_rev x = r"
  shows "rd_prog L a cnt dk (n + r) (rq_mem x) \<and> r \<le> unat left"
  using rd_progress [OF assms(1)] assms(2,3) by (simp add: rd_prog_def)

lemma read_end_ok:
  assumes "spisd_read_multi_end port c = (r, c')" "safe (phase (sd_hw c))"
  shows "safe (phase (sd_hw c')) \<and> disk (sd_hw c') = disk (sd_hw c) \<and> sd_type c' = sd_type c"
proof -
  obtain h where h: "spisd_send_cmd port CMD12 0 (sd_hw c) = (r, h)" "c' = c\<lparr>sd_hw := h\<rparr>"
    using assms(1) by (auto simp: spisd_read_multi_end_def Let_def split: prod.splits)
  show ?thesis using send_cmd_safe [OF h(1) assms(2)] h(2) by simp
qed

lemma read_retry_ok:
  assumes "rq_ok 1 dk st" "rd_prog L a cnt dk n (rq_mem st)" "n + unat left = cnt" "a + cnt \<le> sd_blocks hc"
    "left \<noteq> 0 \<Longrightarrow> off = n * 512 \<and> unat sector = a + n"
  shows "\<exists>left' f st' n'. read_retry port k sector off left st = Some (left', f, st') \<and> rq_ok 1 dk st'
    \<and> rd_prog L a cnt dk n' (rq_mem st') \<and> n' + unat left' = cnt"
  using assms(1-3,5)
proof (induction k arbitrary: sector off left st n)
  case 0
  then show ?case by auto
next
  case (Suc k)
  let ?Q = "\<lambda>q. \<exists>left' f st' n'. q = Some (left', f, st') \<and> rq_ok 1 dk st' \<and> rd_prog L a cnt dk n' (rq_mem st') \<and> n' + unat left' = cnt"
  have rec: "?Q (case rq_recover port y of (r, y') \<Rightarrow> if r \<noteq> 0 then Some (lf, f, y') else read_retry port k sc o2 lf y')"
    if y: "rq_ok 1 dk y" "rd_prog L a cnt dk n' (rq_mem y)" "n' + unat lf = cnt" "lf \<noteq> 0 \<Longrightarrow> o2 = n' * 512 \<and> unat sc = a + n'" for y n' lf sc o2 f
  proof -
    obtain r y' where r: "rq_recover port y = (r, y')" by fastforce
    have y': "rq_ok 1 dk y'" "rq_mem y' = rq_mem y" using recover_step [OF r y(1)] by simp_all
    then have "?Q (read_retry port k sc o2 lf y')" using Suc.IH [of y' n' lf o2 sc] y by simp
    then show ?thesis using r y' y by auto
  qed
  show ?case
  proof (cases "left = 0")
    case True
    then show ?thesis using Suc.prems by auto
  next
    case False
    then have pos: "off = n * 512" "unat sector = a + n" using Suc.prems(4) by simp_all
    have len: "off + unat left * 512 \<le> length (rq_mem st)" using Suc.prems(2,3) pos by (simp add: rd_prog_def flip: distrib_right)
    have "unat left > 0" using False by (simp add: unat_gt_0)
    then have lim: "unat sector < sd_blocks hc" using assms(4) pos Suc.prems(3) by simp
    obtain r c where b: "spisd_read_multi_begin port (ucast sector) (rq_card st) = (r, c)" by fastforce
    define s1 where "s1 = st\<lparr>rq_card := c\<rparr>"
    have c: "safe (phase (sd_hw c))" "disk (sd_hw c) = dk" "type_ok c" "r = 0 \<longrightarrow> phase (sd_hw c) = ReadBlk (a + n)"
      using read_begin_ok [OF b] Suc.prems(1) arg_address [OF _ lim] pos by (simp_all add: rq_ok_def rq_hw_def type_ok_def)
    have s1: "rq_ok 1 dk s1" "rq_mem s1 = rq_mem st" using c Suc.prems(1) by (simp_all add: s1_def rq_ok_def)
    show ?thesis
    proof (cases "r = 0")
      case rn: False
      have "?Q (case rq_recover port s1 of (r, y') \<Rightarrow> if r \<noteq> 0 then Some (left, False, y') else read_retry port k sector off left y')"
        by (rule rec) (use Suc.prems s1 in auto)
      then show ?thesis using False b rn by (simp add: s1_def)
    next
      case True
      have ph: "phase (rq_hw s1) = ReadBlk (a + n)" using c True by (simp add: s1_def)
      have len1: "off + unat left * 512 \<le> length (rq_mem s1)" using len s1(2) by simp
      from read_attempt [OF s1(1) ph len1 False] obtain res y where at: "spisd_read_multi_do port off left s1 = Some (res, y)"
          "rd_inv (a + n) off left (rq_mem s1) dk (tick port y)" "unat res = n_rev (tick port y)"
          "aborted (tick port y) \<noteq> 4 \<longrightarrow> rq_dma (tick port y) = None"
        by (elim exE conjE) (rule that)
      define x where "x = tick port y"
      note at' = at(2,3,4) [folded x_def]
      have px: "rd_prog L a cnt dk (n + unat res) (rq_mem x)" "unat res \<le> unat left"
        using rd_prog_step [of a n left "rq_mem s1" dk x L cnt "unat res"] at' Suc.prems(2) pos s1(2) by simp_all
      define lf sc o2 where d: "lf = left - res" "sc = (if lf > 0 then sector + ucast res else sector)" "o2 = (if lf > 0 then off + unat res * 512 else off)"
      have lf: "n + unat res + unat lf = cnt" using px(2) Suc.prems(3) by (simp add: d(1) unat_sub word_le_nat_alt)
      have "unat (sector + ucast res) = unat sector + unat res"
        using pos px(2) Suc.prems(3) assms(4) by (subst unat_add_lt) (simp_all add: sd_blocks_def split: if_splits)
      then have adv: "lf \<noteq> 0 \<Longrightarrow> o2 = (n + unat res) * 512 \<and> unat sc = a + (n + unat res)"
        using pos by (simp add: d word_gt_0 distrib_right)
      define z where "z = mx_sio2_lock port INTR_RX (mx_sio2_unlock port x)"
      obtain r2 c2 where e: "spisd_read_multi_end port (rq_card x) = (r2, c2)" by fastforce
      define w where "w = x\<lparr>rq_card := c2\<rparr>"
      have unf: "read_retry port (Suc k) sector off left st =
          (if lf > 0 \<and> aborted x = 1
           then (case rq_recover port x of (r, y') \<Rightarrow> if r \<noteq> 0 then Some (lf, False, y') else read_retry port k sc o2 lf y')
           else if aborted x = 4
           then (case rq_recover port z of (r, y') \<Rightarrow> if r \<noteq> 0 then Some (lf, True, y') else read_retry port k sc o2 lf y')
           else if r2 \<noteq> 0
           then (case rq_recover port w of (r, y') \<Rightarrow> if r \<noteq> 0 then Some (lf, True, y') else read_retry port k sc o2 lf y')
           else read_retry port k sc o2 lf w)"
        using False b True at(1) [unfolded s1_def] e [unfolded x_def] by (simp add: Let_def d x_def z_def w_def split: prod.split)
      have x_ok: "rq_ok 1 dk x" if "aborted x \<noteq> 4" using rd_leave [OF at'(1)] at'(3) that by simp
      have z_ok: "rq_ok 1 dk z" "rd_prog L a cnt dk (n + unat res) (rq_mem z)"
      proof -
        have "rd_inv (a + n) (n * 512) left (rq_mem st) dk (tick port x)" "n_rev (tick port x) = unat res"
          using tick_rx_inv [OF at'(1)] at'(2) pos(1) s1(2) by simp_all
        then show "rq_ok 1 dk z" "rd_prog L a cnt dk (n + unat res) (rq_mem z)"
          using rd_relock [OF at'(1), of 1] rd_prog_step [OF _ Suc.prems(2)] by (simp_all add: z_def)
      qed
      have w_ok: "rq_ok 1 dk w" "rq_mem w = rq_mem x" if "aborted x \<noteq> 4"
        using read_end_ok [OF e] x_ok [OF that] by (simp_all add: w_def rq_ok_def rq_hw_def type_ok_def)
      note lf' = lf [unfolded add.assoc [symmetric]]
      consider "lf > 0" "aborted x = 1" | "aborted x = 4" | "aborted x \<noteq> 4" "\<not> (lf > 0 \<and> aborted x = 1)" by auto
      then show ?thesis
      proof cases
        case 1
        have "?Q (case rq_recover port x of (r, y') \<Rightarrow> if r \<noteq> 0 then Some (lf, False, y') else read_retry port k sc o2 lf y')"
          by (rule rec [OF x_ok px(1) lf adv]) (use 1 in simp_all)
        then show ?thesis using unf 1 by simp
      next
        case 2
        have "?Q (case rq_recover port z of (r, y') \<Rightarrow> if r \<noteq> 0 then Some (lf, True, y') else read_retry port k sc o2 lf y')"
          by (rule rec [OF z_ok lf adv]) simp_all
        then show ?thesis using unf 2 by simp
      next
        case 3
        have "?Q (case rq_recover port w of (r, y') \<Rightarrow> if r \<noteq> 0 then Some (lf, True, y') else read_retry port k sc o2 lf y')"
          by (rule rec [OF w_ok(1) _ lf adv]) (use 3 w_ok(2) px in simp_all)
        moreover have "?Q (read_retry port k sc o2 lf w)"
          by (rule Suc.IH [OF w_ok(1) _ lf adv]) (use 3 w_ok(2) px in simp_all)
        ultimately show ?thesis using unf 3 by (cases "r2 = 0") auto
      qed
    qed
  qed
qed

lemma rq_ok_updates [simp]: "rq_ok i dk (st\<lparr>rq_mem := m\<rparr>) = rq_ok i dk st" "rq_ok i dk (set_used st) = rq_ok i dk st"
  by (simp_all add: rq_ok_def set_used_def rq_hw_def type_ok_def)

lemma set_used_mem [simp]: "rq_mem (set_used st) = rq_mem st"
  by (simp add: set_used_def)

text \<open>\<open>spisd_read\<close> always returns; when it reports success the buffer holds the sectors.\<close>

lemma spisd_read_ok:
  assumes "rq_ok 0 dk st" "unat a + unat c \<le> sd_blocks hc" "length buf = unat c * 512"
  shows "\<exists>r d st'. spisd_read port st a buf c = Some (r, d, st') \<and> rq_ok 0 dk st' \<and> length d = unat c * 512
    \<and> (r = int (unat c) \<and> d = sectors dk (unat a) (unat c) \<or> r = - EIO \<and> c \<noteq> 0)"
proof (cases "c = 0")
  case True
  then show ?thesis using assms by (simp add: spisd_read_def)
next
  case False
  define s0 where "s0 = mx_sio2_lock port INTR_RX (st\<lparr>rq_mem := buf\<rparr>)"
  have s0: "rq_ok 1 dk s0" "rq_mem s0 = buf" using rq_ok_lock [of 0 dk "st\<lparr>rq_mem := buf\<rparr>" 1] assms(1) by (simp_all add: s0_def)
  have "\<exists>left' f st' n'. read_retry port 4 a 0 c s0 = Some (left', f, st') \<and> rq_ok 1 dk st'
      \<and> rd_prog (unat c * 512) (unat a) (unat c) dk n' (rq_mem st') \<and> n' + unat left' = unat c"
    by (rule read_retry_ok [where n = 0]) (use s0 assms in \<open>simp_all add: rd_prog_def\<close>)
  then obtain left f s1 n' where
    r: "read_retry port 4 a 0 c s0 = Some (left, f, s1)" "rq_ok 1 dk s1"
       "rd_prog (unat c * 512) (unat a) (unat c) dk n' (rq_mem s1)" "n' + unat left = unat c"
    by (elim exE conjE) (rule that)
  define s2 where "s2 = mx_sio2_unlock port (set_used s1)"
  have s2: "rq_ok 0 dk s2" "rq_mem s2 = rq_mem s1" using rq_ok_unlock [of 1 dk "set_used s1"] r(2) by (simp_all add: s2_def)
  have eq: "spisd_read port st a buf c = Some (if left = 0 \<and> \<not> f then int (unat c) else - EIO, rq_mem s2, s2)"
    using False r(1) by (simp add: spisd_read_def Let_def s0_def s2_def)
  have "rq_mem s2 = sectors dk (unat a) (unat c)" if "left = 0" using that r(3,4) s2(2) by (auto simp: rd_prog_def)
  then show ?thesis using eq s2 r(3) False by (auto simp: rd_prog_def)
qed

end

end
