(* ===== verification/Sd_Write.thy ===== *)
theory Sd_Write
  imports Sd_Read
begin

text \<open>
  Writing to the SD card: the handler of the transmit channel, \<open>spisd_write_multi_begin\<close>, \<open>spisd_write_multi_do\<close>,
  \<open>spisd_write_multi_end\<close> and the retry loop of \<open>spisd_write\<close>, under the contract of the card; then the two halves
  together: the driver's block device is a block store.
\<close>

lemma isr_tx_intr: "rq_intr (mx_sio2_dma_isr_tx port st) = rq_intr st"
  by (simp add: mx_sio2_dma_isr_tx_def isr_tx_next_def isr_tx_ack_def isr_timeout_def mx_sio2_start_tx_dma_def Let_def split: prod.split)

context sd_card
begin

text \<open>A write command in progress: memory is not touched, the first \<open>n_sent\<close> blocks are on the card, nothing outside the
  command's range has changed, and the channel works on the next block or has stopped where the abort code says.\<close>

definition wr_data :: "nat \<Rightarrow> nat \<Rightarrow> u16 \<Rightarrow> bytes \<Rightarrow> (nat \<Rightarrow> bytes) \<Rightarrow> 'h sd_req \<Rightarrow> bool" where
  "wr_data a0 off cnt m dk st \<longleftrightarrow> n_sent st \<le> unat cnt \<and> rq_mem st = m
     \<and> (\<forall>i < n_sent st. disk (rq_hw st) (a0 + i) = map reverse_byte (sec m off i))
     \<and> (\<forall>k. k < a0 \<or> a0 + unat cnt \<le> k \<longrightarrow> disk (rq_hw st) k = dk k)"

definition wr_bus :: "nat \<Rightarrow> nat \<Rightarrow> u16 \<Rightarrow> bytes \<Rightarrow> 'h sd_req \<Rightarrow> bool" where
  "wr_bus a0 off cnt m st \<longleftrightarrow>
     (case rq_dma st of
        Some o1 \<Rightarrow> n_sent st < unat cnt \<and> phase (rq_hw st) = WriteDma (a0 + n_sent st) (map reverse_byte (sec m off (n_sent st)))
          \<and> \<not> bit (rq_ev st) 9 \<and> (aborted st = 0 \<or> aborted st = 4)
      | None \<Rightarrow> safe (phase (rq_hw st)))"

definition wr_inv :: "nat \<Rightarrow> nat \<Rightarrow> u16 \<Rightarrow> bytes \<Rightarrow> (nat \<Rightarrow> bytes) \<Rightarrow> 'h sd_req \<Rightarrow> bool" where
  "wr_inv a0 off cnt m dk st \<longleftrightarrow>
     rq_intr st = 2 \<and> type_ok (rq_card st) \<and> cmd_buffer (rq_cmd st) = off \<and> cmd_sector_count (rq_cmd st) = cnt
     \<and> off + unat cnt * 512 \<le> length m \<and> wr_data a0 off cnt m dk st \<and> wr_bus a0 off cnt m st"

text \<open>After the block: its check sum, the response, and the busy time.\<close>

lemma tx_ack_ok:
  assumes "phase (rq_hw st) = WriteCrc a d 2" "aborted st \<noteq> 3"
  shows "\<exists>h r ab. isr_tx_ack port st = (set_hw h st)\<lparr>rq_cmd := (rq_cmd st)\<lparr>cmd_response := r, cmd_abort := ab\<rparr>\<rparr>
    \<and> (ab = 3 \<and> phase h = WriteRej \<and> disk h = disk (rq_hw st)
       \<or> ab = aborted st \<and> phase h = WriteRdy (Suc a) \<and> disk h = (disk (rq_hw st))(a := d))"
proof -
  obtain b1 h1 where 1: "mx_sio2_write_dummy port (rq_hw st) = (b1, h1)" by fastforce
  obtain b2 h2 where 2: "mx_sio2_write_dummy port h1 = (b2, h2)" by fastforce
  have h2: "phase h2 = WriteResp a d (gap_data tm)" "disk h2 = disk (rq_hw st)"
    using dummy_step [OF 1] dummy_step [OF 2] assms(1) by simp_all
  obtain r3 h3 where 3: "mx_sio2_wait_equal_masked port 5 0x1F 10 h2 = (r3, h3)" by fastforce
  have m: "if r3 = 5 then phase h3 = WriteBusy (Suc a) (gap_busy tm) \<and> disk h3 = (disk h2)(a := d)
      else phase h3 = WriteRej \<and> disk h3 = disk h2"
    by (rule masked_response [OF _ h2(1) limits(2), of 0]) (use 3 in \<open>simp_all add: mx_sio2_wait_equal_masked_def rev_consts\<close>)
  obtain r4 h4 where 4: "mx_sio2_wait_equal port 0xFF 0x80000 h3 = (r4, h4)" by fastforce
  have busy: "r4 = 0 \<and> phase h4 = WriteRdy (Suc a) \<and> disk h4 = disk h3" if "r3 = 5"
    by (rule busy_ends [of 0 "0x80000" h3, OF _ _ limits(3)]) (use 4 that m in \<open>simp_all add: mx_sio2_wait_equal_def rev_consts\<close>)
  show ?thesis
  proof (cases "r3 = 5")
    case True
    then have "isr_tx_ack port st = (set_hw h4 st)\<lparr>rq_cmd := (rq_cmd st)\<lparr>cmd_response := r4, cmd_abort := aborted st\<rparr>\<rparr>"
      using 1 2 3 4 busy by (simp add: isr_tx_ack_def Let_def set_response_def set_abort_def set_hw_def rq_hw_def)
    then show ?thesis using True busy m h2 by (intro exI [of _ h4] exI [of _ r4] exI [of _ "aborted st"]) simp
  next
    case False
    then have "isr_tx_ack port st = (set_hw h4 st)\<lparr>rq_cmd := (rq_cmd st)\<lparr>cmd_response := r4, cmd_abort := 3\<rparr>\<rparr>"
      using 1 2 3 4 by (simp add: isr_tx_ack_def Let_def set_response_def set_abort_def set_hw_def rq_hw_def)
    moreover have "phase h4 = WriteRej \<and> disk h4 = disk h3" using rejected_wait [OF 4] m False by simp
    ultimately show ?thesis using m False h2 by (intro exI [of _ h4] exI [of _ r4] exI [of _ 3]) simp
  qed
qed

text \<open>The token and the start of the next block.\<close>

lemma tx_start_ok:
  assumes "phase (rq_hw st) = WriteRdy a" "k + 512 \<le> length (rq_mem st)"
  shows "\<exists>h. mx_sio2_start_tx_dma port k (set_hw (snd (mx_sio2_write_byte port 0xFC (rq_hw st))) st) = (set_hw h st)\<lparr>rq_dma := Some k\<rparr>
    \<and> phase h = WriteDma a (map reverse_byte (take 512 (drop k (rq_mem st)))) \<and> (\<forall>i. i \<noteq> a \<longrightarrow> disk h i = disk (rq_hw st) i)"
proof -
  obtain b h1 where 1: "mx_sio2_write_byte port 0xFC (rq_hw st) = (b, h1)" by fastforce
  have h1: "phase h1 = WriteBlk a" "disk h1 = disk (rq_hw st)" using byte_step [OF 1] assms(1) by simp_all
  have "length (take 512 (drop k (rq_mem st))) = 512" using assms(2) by simp
  note d = dma_tx [OF h1(1) this]
  show ?thesis using 1 d h1(2) by (auto simp: mx_sio2_start_tx_dma_def set_hw_def rq_hw_def)
qed

lemma isr_tx_inv:
  assumes "wr_inv a0 off cnt m dk st" "rq_dma st = Some o1"
  shows "wr_inv a0 off cnt m dk (mx_sio2_dma_isr_tx port st) \<and> (aborted st \<noteq> 0 \<longrightarrow> aborted (mx_sio2_dma_isr_tx port st) \<noteq> 0)
    \<and> n_sent st \<le> n_sent (mx_sio2_dma_isr_tx port st)"
proof -
  define n where "n = n_sent st"
  let ?d = "map reverse_byte (sec m off n)"
  have st: "n < unat cnt" "phase (rq_hw st) = WriteDma (a0 + n) ?d" "aborted st = 0 \<or> aborted st = 4" "\<not> bit (rq_ev st) 9"
    "rq_intr st = 2" "type_ok (rq_card st)" "cmd_buffer (rq_cmd st) = off" "cmd_sector_count (rq_cmd st) = cnt"
    "off + unat cnt * 512 \<le> length m" "rq_mem st = m" "\<And>i. i < n \<Longrightarrow> disk (rq_hw st) (a0 + i) = map reverse_byte (sec m off i)"
    "\<And>k. k < a0 \<or> a0 + unat cnt \<le> k \<Longrightarrow> disk (rq_hw st) k = dk k"
    using assms by (auto simp: wr_inv_def wr_data_def wr_bus_def n_def)
  obtain d h1 where d: "sio_dma_data port (rq_hw st) = (d, h1)" by fastforce
  obtain ok h2 where w: "mx_sio2_wait_transfer_complete port h1 = (ok, h2)" by fastforce
  have h2: "phase h2 = (if ok then WriteCrc (a0 + n) ?d 2 else Lost)" "disk h2 = disk (rq_hw st)"
    using dma_tx_done [OF st(2) d w] by simp_all
  define s1 where "s1 = (set_hw h2 st)\<lparr>rq_dma := None\<rparr>"
  show ?thesis
  proof (cases ok)
    case False
    then have "mx_sio2_dma_isr_tx port st = isr_timeout s1" using d w by (simp add: mx_sio2_dma_isr_tx_def s1_def)
    then show ?thesis using st h2 False
      by (simp add: wr_inv_def wr_data_def wr_bus_def isr_timeout_def s1_def n_def safe_def)
  next
    case True
    then have eq: "mx_sio2_dma_isr_tx port st = isr_tx_next port (isr_tx_ack port s1)" using d w by (simp add: mx_sio2_dma_isr_tx_def s1_def)
    have "phase (rq_hw s1) = WriteCrc (a0 + n) ?d 2" "aborted s1 \<noteq> 3" using st(3) h2 True by (auto simp: s1_def)
    from tx_ack_ok [OF this] obtain h r ab where
      k: "isr_tx_ack port s1 = (set_hw h s1)\<lparr>rq_cmd := (rq_cmd s1)\<lparr>cmd_response := r, cmd_abort := ab\<rparr>\<rparr>"
      "ab = 3 \<and> phase h = WriteRej \<and> disk h = disk (rq_hw st)
       \<or> ab = aborted st \<and> phase h = WriteRdy (Suc (a0 + n)) \<and> disk h = (disk (rq_hw st))(a0 + n := ?d)"
      using h2(2) by (auto simp: s1_def)
    define s2 where "s2 = isr_tx_ack port s1"
    have s2: "rq_mem s2 = m" "rq_intr s2 = 2" "rq_dma s2 = None" "type_ok (rq_card s2)" "cmd_buffer (rq_cmd s2) = off"
      "cmd_sector_count (rq_cmd s2) = cnt" "rq_hw s2 = h" "cmd_transferred (rq_cmd s2) = cmd_transferred (rq_cmd st)" "aborted s2 = ab"
      "rq_ev s2 = rq_ev st"
      using st k(1) by (simp_all add: s2_def s1_def)
    have frame: "disk h i = dk i" if "i < a0 \<or> a0 + unat cnt \<le> i" for i
      using k(2) st(12) [OF that] that st(1) by auto
    have old: "disk h (a0 + i) = map reverse_byte (sec m off i)" if "i < n" for i
      using k(2) st(11) [OF that] that by auto
    have u: "unat (cmd_transferred (rq_cmd st) + 1) = Suc n"
      using st(1) unat_lt_u16 [of cnt] by (subst unat_add_lt) (simp_all add: n_def)
    have lt: "cmd_transferred (rq_cmd st) + 1 < cnt \<longleftrightarrow> Suc n < unat cnt" by (simp add: word_less_nat_alt u)
    have safe_h: "safe (phase h)" using k(2) by (auto simp: safe_def)
    have stop: "wr_inv a0 off cnt m dk (set_ev 0x200 s2)"
      using s2 st frame old safe_h by (auto simp: wr_inv_def wr_data_def wr_bus_def n_def)
    consider (stop) "ab \<noteq> 0" | (acc) "ab = 0" "aborted st = 0" "phase h = WriteRdy (Suc (a0 + n))" "disk h (a0 + n) = ?d"
      using k(2) by (cases "ab = 0") auto
    then show ?thesis
    proof cases
      case stop
      then have "isr_tx_next port s2 = set_ev 0x200 s2" using s2 by (simp add: isr_tx_next_def Let_def)
      then show ?thesis using \<open>wr_inv a0 off cnt m dk (set_ev 0x200 s2)\<close> s2 stop by (simp add: eq flip: s2_def)
    next
      case acc
      define s3 where "s3 = inc_transferred s2"
      have s3: "rq_mem s3 = m" "rq_intr s3 = 2" "rq_dma s3 = None" "type_ok (rq_card s3)" "cmd_buffer (rq_cmd s3) = off"
        "cmd_sector_count (rq_cmd s3) = cnt" "rq_hw s3 = h" "n_sent s3 = Suc n" "aborted s3 = 0" "rq_ev s3 = rq_ev st"
        "cmd_transferred (rq_cmd s3) = cmd_transferred (rq_cmd st) + 1"
        using s2 acc u by (simp_all add: s3_def)
      have new: "disk h (a0 + i) = map reverse_byte (sec m off i)" if "i < Suc n" for i
        using old [of i] acc(4) that by (cases "i = n") auto
      show ?thesis
      proof (cases "Suc n < unat cnt")
        case False
        then have "isr_tx_next port s2 = set_ev 0x200 s3" using s2 acc lt u by (simp add: isr_tx_next_def Let_def s3_def)
        moreover have "wr_inv a0 off cnt m dk (set_ev 0x200 s3)"
          using s3 st frame new safe_h by (auto simp: wr_inv_def wr_data_def wr_bus_def)
        ultimately show ?thesis using acc s3(8) n_def by (simp add: eq flip: s2_def)
      next
        case True
        have "Suc n * 512 + 512 \<le> unat cnt * 512" using True by (metis Suc_leI add.commute mult_Suc mult_le_mono1)
        then have len: "off + Suc n * 512 + 512 \<le> length (rq_mem s3)" using st(9) s3(1) by simp
        have ph: "phase (rq_hw s3) = WriteRdy (Suc (a0 + n))" using acc(3) s3(7) by simp
        from tx_start_ok [OF ph len] obtain h4 where
          t: "mx_sio2_start_tx_dma port (off + Suc n * 512) (set_hw (snd (mx_sio2_write_byte port 0xFC (rq_hw s3))) s3) =
              (set_hw h4 s3)\<lparr>rq_dma := Some (off + Suc n * 512)\<rparr>"
          "phase h4 = WriteDma (Suc (a0 + n)) (map reverse_byte (sec m off (Suc n)))" "\<And>i. i \<noteq> Suc (a0 + n) \<Longrightarrow> disk h4 i = disk h i"
          using s3 by (auto simp: sec_def)
        have "isr_tx_next port s2 = (set_hw h4 s3)\<lparr>rq_dma := Some (off + Suc n * 512)\<rparr>"
          using s2 acc lt u True t(1) by (simp add: isr_tx_next_def Let_def s3_def)
        moreover have "wr_inv a0 off cnt m dk ((set_hw h4 s3)\<lparr>rq_dma := Some (off + Suc n * 512)\<rparr>)"
          using s3 st t(2,3) frame new True by (auto simp: wr_inv_def wr_data_def wr_bus_def)
        ultimately show ?thesis using acc s3(8) n_def by (simp add: eq flip: s2_def)
      qed
    qed
  qed
qed

lemma tick_tx_inv:
  assumes "wr_inv a0 off cnt m dk st"
  shows "wr_inv a0 off cnt m dk (tick port st) \<and> (aborted st \<noteq> 0 \<longrightarrow> aborted (tick port st) \<noteq> 0) \<and> n_sent st \<le> n_sent (tick port st)"
proof (rule tick_rule [where I = "\<lambda>x. wr_inv a0 off cnt m dk x \<and> (aborted st \<noteq> 0 \<longrightarrow> aborted x \<noteq> 0) \<and> n_sent st \<le> n_sent x"])
  fix h k assume "sio_irqs port (rq_hw st) = (k, h)"
  note i = irqs [OF this]
  have "wr_data a0 off cnt m dk (set_hw h st) = wr_data a0 off cnt m dk st" "wr_bus a0 off cnt m (set_hw h st) = wr_bus a0 off cnt m st"
    using i by (simp_all add: wr_data_def wr_bus_def cong: option.case_cong)
  then show "wr_inv a0 off cnt m dk (set_hw h st) \<and> (aborted st \<noteq> 0 \<longrightarrow> aborted (set_hw h st) \<noteq> 0) \<and> n_sent st \<le> n_sent (set_hw h st)"
    using assms by (simp add: wr_inv_def)
next
  fix x o1 assume x: "wr_inv a0 off cnt m dk x \<and> (aborted st \<noteq> 0 \<longrightarrow> aborted x \<noteq> 0) \<and> n_sent st \<le> n_sent x" "rq_dma x = Some o1"
  show "wr_inv a0 off cnt m dk (mx_sio2_dma_isr_tx port x) \<and> (aborted st \<noteq> 0 \<longrightarrow> aborted (mx_sio2_dma_isr_tx port x) \<noteq> 0)
      \<and> n_sent st \<le> n_sent (mx_sio2_dma_isr_tx port x)"
    using isr_tx_inv [OF x(1) [THEN conjunct1] x(2)] x(1) by auto
qed (use assms in \<open>auto simp: wr_inv_def\<close>)

lemma wait_event_tx:
  assumes "wait_event port n bits st = (q, st')" "wr_inv a0 off cnt m dk st"
  shows "wr_inv a0 off cnt m dk st' \<and> (case q of None \<Rightarrow> True | Some res \<Rightarrow> res = rq_ev st' \<and> res AND bits \<noteq> 0)"
  using assms
proof (induction n arbitrary: st)
  case (Suc n)
  note t = tick_tx_inv [OF Suc.prems(2), THEN conjunct1]
  show ?case
  proof (cases "rq_ev (tick port st) AND bits = 0")
    case True
    then have "wait_event port n bits (tick port st) = (q, st')" using Suc.prems(1) by (simp add: Let_def)
    then show ?thesis using Suc.IH t by blast
  next
    case False
    then show ?thesis using Suc.prems(1) t by (auto simp: Let_def)
  qed
qed simp

lemma wr_event_updates:
  assumes "wr_inv a0 off cnt m dk st"
  shows "wr_inv a0 off cnt m dk (clear_ev b st)" "wr_inv a0 off cnt m dk (set_abort 4 st)"
  using assms by (auto simp: wr_inv_def wr_data_def wr_bus_def bit_simps split: option.splits)

lemma wr_dma_abort: "wr_inv a0 off cnt m dk st \<Longrightarrow> aborted st \<noteq> 0 \<Longrightarrow> aborted st \<noteq> 4 \<Longrightarrow> rq_dma st = None"
  by (auto simp: wr_inv_def wr_bus_def split: option.splits)

lemma write_do_ok:
  assumes "rq_ok 2 dk st" "phase (rq_hw st) = WriteRdy a0" "off + unat cnt * 512 \<le> length (rq_mem st)" "cnt \<noteq> 0"
  shows "\<exists>st'. spisd_write_multi_do port off cnt st = (cmd_transferred (rq_cmd st'), st') \<and> wr_inv a0 off cnt (rq_mem st) dk st'
    \<and> (aborted st' \<noteq> 4 \<longrightarrow> rq_dma st' = None)"
proof -
  define s0 where "s0 = setup_cmd off cnt st"
  define s1 where "s1 = mx_sio2_start_tx_dma port off (set_hw (snd (mx_sio2_write_byte port 0xFC (rq_hw s0))) s0)"
  have pos: "unat cnt > 0" using assms(4) by (simp add: unat_gt_0)
  have f: "rq_mem s0 = rq_mem st" "rq_intr s0 = 2" "type_ok (rq_card s0)" "n_sent s0 = 0" "rq_hw s0 = rq_hw st"
    "aborted s0 = 0" "cmd_buffer (rq_cmd s0) = off" "cmd_sector_count (rq_cmd s0) = cnt" "\<not> bit (rq_ev s0) 9"
    using assms(1) by (simp_all add: s0_def setup_cmd_def rq_ok_def bit_simps)
  have "off + 512 \<le> length (rq_mem s0)" "phase (rq_hw s0) = WriteRdy a0" using assms(2,3) pos f by simp_all
  from tx_start_ok [OF this(2,1)] obtain h where
    h: "s1 = (set_hw h s0)\<lparr>rq_dma := Some off\<rparr>" "phase h = WriteDma a0 (map reverse_byte (sec (rq_mem st) off 0))"
      "\<And>i. i \<noteq> a0 \<Longrightarrow> disk h i = disk (rq_hw st) i"
    using f by (auto simp: s1_def sec_def)
  have i1: "wr_inv a0 off cnt (rq_mem st) dk s1"
    using f h pos assms(1,3) by (auto simp: wr_inv_def wr_data_def wr_bus_def rq_ok_def)
  obtain q s2 where w: "spisd_wait_dma_event port EF_SIO2_INTR_COMPLETE s1 = (q, s2)" by fastforce
  note i2 = wait_event_tx [OF w [unfolded spisd_wait_dma_event_def] i1]
  show ?thesis
  proof (cases q)
    case None
    define x where "x = tick port (set_abort 4 (tick port s2))"
    have "spisd_write_multi_do port off cnt st = (cmd_transferred (rq_cmd x), x)"
      using w None by (simp add: spisd_write_multi_do_def Let_def x_def flip: s0_def s1_def)
    moreover have x: "wr_inv a0 off cnt (rq_mem st) dk x" "aborted x \<noteq> 0"
      using tick_tx_inv [OF wr_event_updates(2) [OF tick_tx_inv [OF i2 [THEN conjunct1], THEN conjunct1]]] by (simp_all add: x_def)
    ultimately show ?thesis using wr_dma_abort [OF x] by blast
  next
    case (Some res)
    then have b: "bit (rq_ev s2) 9" "res AND 0x200 \<noteq> 0" using i2 by (auto simp: ev_bits)
    then have d: "rq_dma s2 = None" using i2 by (auto simp: wr_inv_def wr_bus_def split: option.splits)
    define x where "x = tick port (clear_ev 0x200 (tick port s2))"
    have "spisd_write_multi_do port off cnt st = (cmd_transferred (rq_cmd x), x)"
      using w Some b by (simp add: spisd_write_multi_do_def Let_def x_def flip: s0_def s1_def)
    moreover have "wr_inv a0 off cnt (rq_mem st) dk (clear_ev 0x200 (tick port s2))"
      using wr_event_updates(1) tick_tx_inv i2 by blast
    then have "wr_inv a0 off cnt (rq_mem st) dk x" using tick_tx_inv by (simp add: x_def)
    moreover have "rq_dma x = None"
    proof -
      have "rq_dma (tick port s2) = None" using tick_idle [OF d, of port] d by auto
      then show ?thesis using tick_idle [of "clear_ev 0x200 (tick port s2)" port] by (auto simp: x_def)
    qed
    ultimately show ?thesis by blast
  qed
qed

lemma dummies_wr: "phase h = WriteRdy a \<Longrightarrow> phase (dummies port n h) = WriteRdy a"
proof (induction n arbitrary: h)
  case (Suc n)
  obtain b h' where "mx_sio2_write_dummy port h = (b, h')" by fastforce
  then show ?case using dummy_step [of h b h'] Suc by simp
qed simp

lemma write_begin_ok:
  assumes "spisd_write_multi_begin port s cnt c = (r, c')" "safe (phase (sd_hw c))"
  shows "safe (phase (sd_hw c')) \<and> disk (sd_hw c') = disk (sd_hw c) \<and> sd_type c' = sd_type c
    \<and> (r = 0 \<longrightarrow> phase (sd_hw c') = WriteRdy (sd_address hc (sd_arg c s)))"
proof -
  obtain r1 h1 where 1: "mx_sio2_wait_equal port 0xFF 4000 (sd_hw c) = (r1, h1)" by fastforce
  note a1 = safe_wait_equal [OF 1 assms(2)]
  obtain r2 h2 where 2: "spisd_send_cmd port CMD55 0 h1 = (r2, h2)" by fastforce
  note a2 = send_cmd_safe [OF 2 a1 [THEN conjunct1]]
  obtain r3 h3 where 3: "spisd_send_cmd port ACMD23 (ucast cnt) h2 = (r3, h3)" by fastforce
  note a3 = send_cmd_safe [OF 3 a2 [THEN conjunct1]]
  define h4 where "h4 = (if sd_type c \<noteq> CARD_TYPE_MMC then h3 else h1)"
  have h4: "safe (phase h4)" "disk h4 = disk (sd_hw c)" using a1 a2 a3 by (simp_all add: h4_def)
  obtain r5 h5 where 5: "spisd_send_cmd port CMD25 (sd_arg c s) h4 = (r5, h5)" by fastforce
  note a5 = send_cmd_safe [OF 5 h4(1)]
  have t: "phase h5 = WriteRdy (sd_address hc (sd_arg c s))" if "r5 = 0" using send_transfer [OF 5 h4(1) that] by simp
  define h6 where "h6 = (if r1 = 0 then h5 else h1)"
  have "(r, c') = (if r1 = 0 then r5 else r1, c\<lparr>sd_hw := dummies port 3 h6\<rparr>)"
    using assms(1) 1 2 3 5 by (cases "sd_type c = CARD_TYPE_MMC") (auto simp: spisd_write_multi_begin_def Let_def h4_def h6_def)
  moreover have "keeps h6 (dummies port 3 h6)" by (rule keeps_dummies)
  ultimately show ?thesis using a1 a5 h4 t dummies_wr [of h6 _ 3] by (auto simp: keeps_def h6_def split: if_splits)
qed

lemma write_end_ok:
  assumes "spisd_write_multi_end port c = (r, c')" "safe (phase (sd_hw c))"
  shows "safe (phase (sd_hw c')) \<and> disk (sd_hw c') = disk (sd_hw c) \<and> sd_type c' = sd_type c"
proof -
  obtain b h1 where 1: "mx_sio2_write_byte port 0xFD (sd_hw c) = (b, h1)" by fastforce
  have k1: "keeps (sd_hw c) h1" using byte_step [OF 1] safe_clock [OF assms(2)] by (simp add: keeps_def)
  obtain r2 h2 where 2: "mx_sio2_wait_equal port 0xFF 0x800000 (dummies port 2 h1) = (r2, h2)" by fastforce
  have k2: "keeps (sd_hw c) h2"
    using keeps_trans [OF k1 keeps_dummies [of h1 2]] safe_wait_equal [OF 2] by (simp add: keeps_def)
  define h3 where "h3 = (if b \<noteq> 0 then if r2 = 0 then dummies port 2 h2 else h2 else h1)"
  have k3: "keeps (sd_hw c) h3" using k1 k2 keeps_trans [OF k2 keeps_dummies] by (simp add: h3_def)
  have "c' = c\<lparr>sd_hw := snd (mx_sio2_write_dummy port h3)\<rparr>"
    using assms(1) 1 2 by (auto simp: spisd_write_multi_end_def Let_def h3_def split: if_splits)
  then show ?thesis using keeps_trans [OF k3 keeps_dummy] assms(2) by (simp add: keeps_def)
qed

section \<open>The request\<close>

text \<open>A write request in progress: the first \<open>n\<close> of \<open>cnt\<close> blocks are on the card, and nothing outside the request changed.\<close>

definition wr_prog :: "nat \<Rightarrow> nat \<Rightarrow> bytes \<Rightarrow> (nat \<Rightarrow> bytes) \<Rightarrow> nat \<Rightarrow> (nat \<Rightarrow> bytes) \<Rightarrow> bool" where
  "wr_prog a cnt m dk n d \<longleftrightarrow> cnt * 512 \<le> length m \<and> (\<forall>i < n. d (a + i) = map reverse_byte (sec m 0 i))
     \<and> (\<forall>k. k < a \<or> a + cnt \<le> k \<longrightarrow> d k = dk k)"

lemma wr_prog_step:
  assumes "wr_inv (a + n) (n * 512) left m d x" "wr_prog a cnt m dk n d" "n + unat left = cnt" "r \<le> n_sent x"
  shows "wr_prog a cnt m dk (n + r) (disk (rq_hw x))"
proof -
  have x: "\<And>i. i < n_sent x \<Longrightarrow> disk (rq_hw x) (a + n + i) = map reverse_byte (sec m (n * 512) i)"
    "\<And>k. k < a + n \<or> a + n + unat left \<le> k \<Longrightarrow> disk (rq_hw x) k = d k"
    using assms(1) by (auto simp: wr_inv_def wr_data_def)
  have "disk (rq_hw x) (a + i) = map reverse_byte (sec m 0 i)" if "i < n + r" for i
  proof (cases "i < n")
    case True
    then show ?thesis using x(2) [of "a + i"] assms(2) by (simp add: wr_prog_def)
  next
    case False
    then have "sec m (n * 512) (i - n) = sec m 0 i" by (simp add: sec_def flip: distrib_right)
    then show ?thesis using x(1) [of "i - n"] False that assms(4) by simp
  qed
  moreover have "disk (rq_hw x) k = dk k" if "k < a \<or> a + cnt \<le> k" for k
    using x(2) [of k] that assms(2,3) by (auto simp: wr_prog_def)
  ultimately show ?thesis using assms(2) by (simp add: wr_prog_def)
qed

lemma wr_inv_safe: "wr_inv a0 off cnt m dk st \<Longrightarrow> safe (phase (rq_hw st)) \<and> type_ok (rq_card st) \<and> rq_intr st = 2 \<and> rq_mem st = m
    \<and> n_sent st \<le> unat cnt"
  by (auto simp: wr_inv_def wr_bus_def wr_data_def safe_def split: option.splits)

lemma wr_leave: "wr_inv a0 off cnt m dk st \<Longrightarrow> rq_dma st = None \<Longrightarrow> rq_ok 2 (disk (rq_hw st)) st"
  using wr_inv_safe [of a0 off cnt m dk st] by (simp add: rq_ok_def)

lemma wr_relock:
  assumes "wr_inv a0 off cnt m dk st"
  shows "rq_ok i (disk (rq_hw (tick port st))) (mx_sio2_lock port i (mx_sio2_unlock port st))
    \<and> rq_mem (mx_sio2_lock port i (mx_sio2_unlock port st)) = m"
proof -
  have "wr_inv a0 off cnt m dk (tick port st)" by (rule tick_tx_inv [OF assms, THEN conjunct1])
  then have "rq_ok 0 (disk (rq_hw (tick port st))) (mx_sio2_unlock port st) \<and> rq_mem (mx_sio2_unlock port st) = m"
    using unlock_ok [of st "disk (rq_hw (tick port st))"] wr_inv_safe [of a0 off cnt m dk "tick port st"] by simp
  then show ?thesis using rq_ok_lock [of 0 "disk (rq_hw (tick port st))" "mx_sio2_unlock port st" i] by simp
qed

lemma write_attempt:
  assumes "rq_ok 2 d st" "phase (rq_hw st) = WriteRdy a0" "off + unat left * 512 \<le> length (rq_mem st)" "left \<noteq> 0"
  shows "\<exists>res st'. spisd_write_multi_do port off left st = (res, st') \<and> wr_inv a0 off left (rq_mem st) d (tick port st')
    \<and> unat res \<le> n_sent (tick port st') \<and> (aborted (tick port st') \<noteq> 4 \<longrightarrow> rq_dma (tick port st') = None)"
proof -
  from write_do_ok [OF assms] obtain x where
    x: "spisd_write_multi_do port off left st = (cmd_transferred (rq_cmd x), x)" "wr_inv a0 off left (rq_mem st) d x"
       "aborted x \<noteq> 4 \<longrightarrow> rq_dma x = None"
    by (elim exE conjE) (rule that)
  note t = tick_tx_inv [OF x(2)]
  have "rq_dma (tick port x) = None" if "aborted (tick port x) \<noteq> 4"
  proof (cases "aborted x = 4")
    case False
    then show ?thesis using x(3) tick_idle [of x port] by auto
  next
    case True
    then show ?thesis using wr_dma_abort [OF t [THEN conjunct1]] t that by simp
  qed
  then show ?thesis using x(1) t by (intro exI [of _ "cmd_transferred (rq_cmd x)"] exI [of _ x]) simp
qed

lemma write_retry_ok:
  assumes "rq_ok 2 d st" "rq_mem st = m" "wr_prog a cnt m dk n d" "n + unat left = cnt" "a + cnt \<le> sd_blocks hc"
    "left \<noteq> 0 \<Longrightarrow> off = n * 512 \<and> unat sector = a + n"
  shows "\<exists>left' f st' n' d'. write_retry port k sector off left st = (left', f, st') \<and> rq_ok 2 d' st' \<and> rq_mem st' = m
    \<and> wr_prog a cnt m dk n' d' \<and> n' + unat left' = cnt"
  using assms(1-4,6)
proof (induction k arbitrary: sector off left st n d)
  case 0
  then show ?case by auto
next
  case (Suc k)
  let ?Q = "\<lambda>q. \<exists>left' f st' n' d'. q = (left', f, st') \<and> rq_ok 2 d' st' \<and> rq_mem st' = m \<and> wr_prog a cnt m dk n' d' \<and> n' + unat left' = cnt"
  have rec: "?Q (case rq_recover port y of (r, y') \<Rightarrow> if r \<noteq> 0 then (lf, f, y') else write_retry port k sc o2 lf y')"
    if y: "rq_ok 2 e y" "rq_mem y = m" "wr_prog a cnt m dk n' e" "n' + unat lf = cnt" "lf \<noteq> 0 \<Longrightarrow> o2 = n' * 512 \<and> unat sc = a + n'"
    for y n' lf sc o2 f e
  proof -
    obtain r y' where r: "rq_recover port y = (r, y')" by fastforce
    have y': "rq_ok 2 e y'" "rq_mem y' = m" using recover_step [OF r y(1)] y(2) by simp_all
    then have "?Q (write_retry port k sc o2 lf y')" using Suc.IH [of e y' n' lf o2 sc] y by simp
    then show ?thesis using r y' y by auto
  qed
  show ?case
  proof (cases "left = 0")
    case True
    then show ?thesis using Suc.prems by auto
  next
    case False
    then have pos: "off = n * 512" "unat sector = a + n" using Suc.prems(5) by simp_all
    have "unat left > 0" using False by (simp add: unat_gt_0)
    then have lim: "unat sector < sd_blocks hc" using assms(5) pos Suc.prems(4) by simp
    obtain r c where b: "spisd_write_multi_begin port (ucast sector) left (rq_card st) = (r, c)" by fastforce
    define s1 where "s1 = st\<lparr>rq_card := c\<rparr>"
    have c: "safe (phase (sd_hw c))" "disk (sd_hw c) = d" "type_ok c" "r = 0 \<longrightarrow> phase (sd_hw c) = WriteRdy (a + n)"
      using write_begin_ok [OF b] Suc.prems(1) arg_address [OF _ lim] pos by (simp_all add: rq_ok_def rq_hw_def type_ok_def)
    have s1: "rq_ok 2 d s1" "rq_mem s1 = m" using c Suc.prems(1,2) by (simp_all add: s1_def rq_ok_def)
    have len: "off + unat left * 512 \<le> length (rq_mem s1)" using Suc.prems(3,4) s1(2) pos by (simp add: wr_prog_def flip: distrib_right)
    show ?thesis
    proof (cases "r = 0")
      case rn: False
      have "?Q (case rq_recover port s1 of (r, y') \<Rightarrow> if r \<noteq> 0 then (left, False, y') else write_retry port k sector off left y')"
        by (rule rec) (use Suc.prems s1 in auto)
      then show ?thesis using False b rn by (simp add: s1_def)
    next
      case True
      have ph: "phase (rq_hw s1) = WriteRdy (a + n)" using c True by (simp add: s1_def)
      from write_attempt [OF s1(1) ph len False] obtain res y where at: "spisd_write_multi_do port off left s1 = (res, y)"
          "wr_inv (a + n) off left (rq_mem s1) d (tick port y)" "unat res \<le> n_sent (tick port y)"
          "aborted (tick port y) \<noteq> 4 \<longrightarrow> rq_dma (tick port y) = None"
        by (elim exE conjE) (rule that)
      define x where "x = tick port y"
      note at' = at(2,3,4) [folded x_def]
      have inv: "wr_inv (a + n) (n * 512) left m d x" using at'(1) pos s1(2) by simp
      have px: "wr_prog a cnt m dk (n + unat res) (disk (rq_hw x))" "unat res \<le> unat left"
        using wr_prog_step [OF inv Suc.prems(3,4)] wr_inv_safe [OF inv] at' by simp_all
      define lf sc o2 where d: "lf = left - res" "sc = (if lf > 0 then sector + ucast res else sector)" "o2 = (if lf > 0 then off + unat res * 512 else off)"
      have lf: "n + unat res + unat lf = cnt" using px(2) Suc.prems(4) by (simp add: d(1) unat_sub word_le_nat_alt)
      have "unat (sector + ucast res) = unat sector + unat res"
        using pos px(2) Suc.prems(4) assms(5) by (subst unat_add_lt) (simp_all add: sd_blocks_def split: if_splits)
      then have adv: "lf \<noteq> 0 \<Longrightarrow> o2 = (n + unat res) * 512 \<and> unat sc = a + (n + unat res)"
        using pos by (simp add: d word_gt_0 distrib_right)
      define z where "z = mx_sio2_lock port INTR_TX (mx_sio2_unlock port x)"
      obtain r2 c2 where e: "spisd_write_multi_end port (rq_card x) = (r2, c2)" by fastforce
      define w where "w = x\<lparr>rq_card := c2\<rparr>"
      have unf: "write_retry port (Suc k) sector off left st =
          (if aborted x = 4
           then (case rq_recover port z of (r, y') \<Rightarrow> if r \<noteq> 0 then (lf, True, y') else write_retry port k sc o2 lf y')
           else if r2 \<noteq> 0
           then (case rq_recover port w of (r, y') \<Rightarrow> if r \<noteq> 0 then (lf, True, y') else write_retry port k sc o2 lf y')
           else write_retry port k sc o2 lf w)"
        using False b True at(1) [unfolded s1_def] e [unfolded x_def] by (simp add: Let_def d x_def z_def w_def split: prod.split)
      have z_ok: "rq_ok 2 (disk (rq_hw (tick port x))) z" "rq_mem z = m" "wr_prog a cnt m dk (n + unat res) (disk (rq_hw (tick port x)))"
      proof -
        have t: "wr_inv (a + n) (n * 512) left m d (tick port x)" "unat res \<le> n_sent (tick port x)"
          using tick_tx_inv [OF inv] at'(2) by simp_all
        show "rq_ok 2 (disk (rq_hw (tick port x))) z" "rq_mem z = m" using wr_relock [OF inv, of 2] by (simp_all add: z_def)
        show "wr_prog a cnt m dk (n + unat res) (disk (rq_hw (tick port x)))" by (rule wr_prog_step [OF t(1) Suc.prems(3,4) t(2)])
      qed
      show ?thesis
      proof (cases "aborted x = 4")
        case True
        have "?Q (case rq_recover port z of (r, y') \<Rightarrow> if r \<noteq> 0 then (lf, True, y') else write_retry port k sc o2 lf y')"
          by (rule rec [OF z_ok lf adv]) simp_all
        then show ?thesis using unf True by simp
      next
        case na: False
        then have "rq_ok 2 (disk (rq_hw x)) x" using wr_leave [OF inv] at'(3) by simp
        then have w_ok: "rq_ok 2 (disk (rq_hw x)) w" "rq_mem w = m"
          using write_end_ok [OF e] wr_inv_safe [OF inv] by (simp_all add: w_def rq_ok_def rq_hw_def type_ok_def)
        have "?Q (case rq_recover port w of (r, y') \<Rightarrow> if r \<noteq> 0 then (lf, True, y') else write_retry port k sc o2 lf y')"
          by (rule rec [OF w_ok px(1) lf adv]) simp_all
        moreover have "?Q (write_retry port k sc o2 lf w)"
          by (rule Suc.IH [OF w_ok px(1) lf adv]) simp_all
        ultimately show ?thesis using unf na by (cases "r2 = 0") auto
      qed
    qed
  qed
qed

text \<open>\<open>spisd_write\<close> returns the caller's buffer as it was; when it reports success the blocks are on the card, and in every
  case only blocks of the request changed.\<close>

lemma sec_map: "sec (map g m) off i = map g (sec m off i)"
  by (simp add: sec_def take_map drop_map)

lemma spisd_write_ok:
  assumes "rq_ok 0 dk st" "unat a + unat c \<le> sd_blocks hc" "length buf = unat c * 512"
  shows "\<exists>r d' st'. spisd_write port st a buf c = (r, buf, st') \<and> rq_ok 0 d' st'
    \<and> (\<forall>k. k < unat a \<or> unat a + unat c \<le> k \<longrightarrow> d' k = dk k)
    \<and> (r = int (unat c) \<and> d' = upd_sectors dk (unat a) (unat c) 512 buf \<or> r = - EIO \<and> c \<noteq> 0)"
proof (cases "c = 0")
  case True
  then show ?thesis using assms(1) by (auto simp: spisd_write_def)
next
  case False
  define wds where "wds = unat c * 512 div 4"
  define m where "m = map reverse_byte buf"
  have rev: "reverse_buffer buf wds = m" "reverse_buffer m wds = buf"
    using assms(3) reverse_buffer_all [of buf wds] reverse_buffer_all [of m wds] by (simp_all add: wds_def m_def comp_def)
  define s0 where "s0 = mx_sio2_lock port INTR_TX (st\<lparr>rq_mem := m\<rparr>)"
  have s0: "rq_ok 2 dk s0" "rq_mem s0 = m" using rq_ok_lock [of 0 dk "st\<lparr>rq_mem := m\<rparr>" 2] assms(1) by (simp_all add: s0_def)
  have "\<exists>left' f st' n' d'. write_retry port 4 a 0 c s0 = (left', f, st') \<and> rq_ok 2 d' st' \<and> rq_mem st' = m
    \<and> wr_prog (unat a) (unat c) m dk n' d' \<and> n' + unat left' = unat c"
    by (rule write_retry_ok [where n = 0 and d = dk]) (use s0 assms in \<open>simp_all add: wr_prog_def m_def\<close>)
  then obtain left f s1 n' d' where
    r: "write_retry port 4 a 0 c s0 = (left, f, s1)" "rq_ok 2 d' s1" "rq_mem s1 = m"
       "wr_prog (unat a) (unat c) m dk n' d'" "n' + unat left = unat c"
    by (elim exE conjE) (rule that)
  define s2 where "s2 = mx_sio2_unlock port (set_used s1)"
  have s2: "rq_ok 0 d' s2" "rq_mem s2 = m" using rq_ok_unlock [of 2 d' "set_used s1"] r(2,3) by (simp_all add: s2_def)
  have eq: "spisd_write port st a buf c = (if left = 0 \<and> \<not> f then int (unat c) else - EIO, buf, s2)"
    using False r(1) s2(2) rev by (simp add: spisd_write_def Let_def flip: wds_def s0_def s2_def)
  have "d' = upd_sectors dk (unat a) (unat c) 512 buf" if "left = 0"
  proof
    fix k
    show "d' k = upd_sectors dk (unat a) (unat c) 512 buf k"
    proof (cases "unat a \<le> k \<and> k < unat a + unat c")
      case True
      moreover have "\<And>i. i < unat c \<Longrightarrow> d' (unat a + i) = map reverse_byte (sec m 0 i)"
        using r(4,5) that by (simp add: wr_prog_def)
      from this [of "k - unat a"] have "d' k = map reverse_byte (sec m 0 (k - unat a))" using True by (simp add: less_diff_conv2)
      ultimately show ?thesis by (simp add: m_def sec_map comp_def) (simp add: upd_sectors_def sec_def)
    next
      case False
      then show ?thesis using r(4) by (auto simp: wr_prog_def)
    qed
  qed
  then show ?thesis using eq s2(1) r(4) False by (auto simp: wr_prog_def)
qed

text \<open>The driver's block device is a block store.\<close>

lemma sd_block_store:
  assumes "n \<le> sd_blocks hc" "\<And>k. length (fill k) = k"
  shows "block_store (sd_bd_ops port fill) (sd_idle phase hc) (\<lambda>st. disk (rq_hw st)) 512 n"
proof -
  have idle: "sd_idle phase hc = (\<lambda>st. rq_ok 0 (disk (rq_hw st)) st)" by (simp add: rq_ok_idle fun_eq_iff)
  have rd: "rq_ok 0 (disk (rq_hw s)) s' \<and> length d = unat c * 512 \<and> (r = int (unat c) \<longrightarrow> d = sectors (disk (rq_hw s)) (unat a) (unat c))"
    if "rq_ok 0 (disk (rq_hw s)) s" "unat a + unat c \<le> n" "bd_read (sd_bd_ops port fill) s a c = (r, d, s')" for s s' a c r d
  proof -
    have "unat a + unat c \<le> sd_blocks hc" using that(2) assms(1) by simp
    from spisd_read_ok [OF that(1) this, of "fill (unat c * 512)"] assms(2) show ?thesis
      using that(3) by (auto simp: sd_bd_ops_def)
  qed
  have wr: "(\<exists>d'. rq_ok 0 d' s' \<and> (\<forall>k. k < unat a \<or> unat a + unat c \<le> k \<longrightarrow> d' k = disk (rq_hw s) k)
      \<and> (r = int (unat c) \<longrightarrow> d' = upd_sectors (disk (rq_hw s)) (unat a) (unat c) 512 d))"
    if "rq_ok 0 (disk (rq_hw s)) s" "unat a + unat c \<le> n" "length d = unat c * 512" "bd_write (sd_bd_ops port fill) s a d c = (r, s')" for s s' a c r d
  proof -
    have "unat a + unat c \<le> sd_blocks hc" using that(2) assms(1) by simp
    from spisd_write_ok [OF that(1) this that(3)] show ?thesis
      using that(4) by (auto simp: sd_bd_ops_def)
  qed
  have dk: "rq_ok 0 d' s \<Longrightarrow> disk (rq_hw s) = d'" for d' s by (simp add: rq_ok_def)
  show ?thesis
    unfolding idle
  proof (unfold_locales, goal_cases)
    case (1 s k) show ?case by (rule block_len)
  next
    case (2 s a c r d s') then show ?case using rd [of s a c r d s'] dk by (metis (no_types))
  next
    case (3 s a c r d s') then show ?case using rd [of s a c r d s'] by simp
  next
    case (4 s a c d s') then show ?case using rd [of s a c "int (unat c)" d s'] by simp
  next
    case (5 s a c d r s') then show ?case using wr [of s a c d r s'] dk by metis
  next
    case (6 s a c d r s' k) then show ?case using wr [of s a c d r s'] dk by metis
  next
    case (7 s a c d s') then show ?case using wr [of s a c d "int (unat c)" s'] dk by metis
  qed
qed

end

end
