(* ===== verification/Sd_Detect.thy ===== *)
theory Sd_Detect
  imports Sd_Write
begin

text \<open>
  Card detection and module stop (\<open>sd_detect\<close>, \<open>module_stop\<close> of \<open>mx4sio.c\<close>). The calls of the block device manager are
  returned as notices in order; the device handed over is \<open>sd_bd\<close> with the operations of \<open>sd_bd_ops\<close>.
\<close>

datatype sd_notice = bdm_connect_bd_sd | bdm_disconnect_bd_sd

definition set_card :: "'h spisd \<Rightarrow> 'h sd_req \<Rightarrow> 'h sd_req" where "set_card c st = st\<lparr>rq_card := c\<rparr>"

text \<open>The branch of a card that is not initialised.\<close>

definition sd_detect_new :: "'h sio2_port \<Rightarrow> 'h spisd \<Rightarrow> sd_notice list \<times> 'h spisd" where
  "sd_detect_new port c =
     (case spisd_init_card port c of (r, c) \<Rightarrow>
        if r = SPISD_RESULT_OK then
          case spisd_get_card_info port c of (results, c) \<Rightarrow>
          case (if results \<noteq> SPISD_RESULT_OK then spisd_recover port c else (results, c)) of (results, c) \<Rightarrow>
            if results = SPISD_RESULT_OK then ([bdm_connect_bd_sd], c\<lparr>sd_initialized := 1\<rparr>) else ([], c)
        else ([], c))"

text \<open>The branch of a card in use: ask for its status, and give it up when it cannot be recovered.\<close>

definition sd_detect_used :: "'h sio2_port \<Rightarrow> 'h spisd \<Rightarrow> sd_notice list \<times> 'h spisd" where
  "sd_detect_used port c =
     (case spisd_read_status_register port (sd_hw c) of (results, h) \<Rightarrow>
        let c = c\<lparr>sd_hw := h\<rparr> in
        if results \<noteq> 0 then
          case spisd_recover port c of (results, c) \<Rightarrow>
            if sd_initialized c = 1 \<and> results \<noteq> SPISD_RESULT_OK then ([bdm_disconnect_bd_sd], c\<lparr>sd_initialized := 0\<rparr>) else ([], c)
        else ([], c))"

definition sd_detect :: "'h sio2_port \<Rightarrow> 'h sd_req \<Rightarrow> sd_notice list \<times> 'h sd_req" where
  "sd_detect port st =
     (let st = mx_sio2_lock port 0 st;
          (ev, c) = (if sd_initialized (rq_card st) = 0 then sd_detect_new port (rq_card st) else sd_detect_used port (rq_card st))
      in (ev, mx_sio2_unlock port (set_card c st)))"

definition module_stop :: "'h sio2_port \<Rightarrow> 'h sd_req \<Rightarrow> sd_notice list \<times> 'h sd_req" where
  "module_stop port st =
     (if sd_initialized (rq_card st) \<noteq> 0
      then let st = mx_sio2_lock port 0 st
           in ([bdm_disconnect_bd_sd], mx_sio2_unlock port (set_card ((rq_card st)\<lparr>sd_initialized := 0\<rparr>) st))
      else ([], st))"

section \<open>What the steps keep\<close>

lemma init_initialized: "spisd_init_card port st = (r, st') \<Longrightarrow> sd_initialized st' = sd_initialized st"
  by (auto simp: spisd_init_card_def init_start_def init_v2_def init_v1_def Let_def split: prod.splits option.splits if_splits)

lemma info_initialized:
  "spisd_get_card_info port st = (r, st') \<Longrightarrow> sd_initialized st' = sd_initialized st \<and> (r = 0 \<longrightarrow> sectorCount (sd_bd st') \<noteq> 0)"
  by (auto simp: spisd_get_card_info_def csd_capacity_def Let_def split: prod.splits if_splits)

lemma recover_initialized:
  "spisd_recover port st = (r, st') \<Longrightarrow> sd_initialized st' = sd_initialized st \<and> (r = 0 \<longrightarrow> sectorCount (sd_bd st') \<noteq> 0)"
proof (induction port st rule: spisd_recover.induct)
  case (1 port st)
  define s1 where "s1 = st\<lparr>sd_baud := lower_baud (sd_baud st)\<rparr>"
  obtain ok h where f: "flush_loop port 64 (sd_hw s1) = (ok, h)" by fastforce
  obtain r2 s2 where i: "spisd_init_card port (s1\<lparr>sd_hw := h\<rparr>) = (r2, s2)" by fastforce
  obtain r3 s3 where g: "spisd_get_card_info port s2 = (r3, s3)" by fastforce
  note a = init_initialized [OF i] info_initialized [OF g]
  have unf: "spisd_recover port st = (if \<not> ok then (1, s1\<lparr>sd_hw := h\<rparr>) else if r2 \<noteq> 0 then (1, s2)
      else if r3 = 0 then (0, s3) else if sd_baud s3 = 8 then (1, s3) else spisd_recover port s3)"
    using f i g by (subst spisd_recover.simps) (simp add: s1_def Let_def)
  show ?case
  proof (cases "ok \<and> r2 = 0 \<and> r3 \<noteq> 0 \<and> sd_baud s3 \<noteq> 8")
    case True
    then have "sd_initialized st' = sd_initialized s3 \<and> (r = 0 \<longrightarrow> sectorCount (sd_bd st') \<noteq> 0)"
      using "1.IH" [of s1 ok h] f i g "1.prems" unf by (auto simp: s1_def)
    then show ?thesis using a by (simp add: s1_def)
  next
    case False
    then show ?thesis using "1.prems" unf a by (auto simp: s1_def split: if_splits)
  qed
qed

context sd_card
begin

lemma status_keeps: "spisd_read_status_register port h = (v, h') \<Longrightarrow> keeps h h'"
proof -
  assume a: "spisd_read_status_register port h = (v, h')"
  obtain r1 h1 where 1: "spisd_send_cmd port CMD13 0 h = (r1, h1)" by fastforce
  obtain r2 h2 where 2: "mx_sio2_write_dummy port h1 = (r2, h2)" by fastforce
  have "h' = snd (mx_sio2_write_dummy port h2)" using a 1 2 by (auto simp: spisd_read_status_register_def Let_def split: prod.splits)
  then show ?thesis using keeps_trans [OF keeps_send [OF 1]] keeps_dummy [of h1] keeps_dummy [of h2] keeps_trans 2 by (metis snd_conv)
qed

lemma detect_new_ok:
  assumes "sd_detect_new port c = (ev, c')" "safe (phase (sd_hw c))" "sd_initialized c = 0"
  shows "safe (phase (sd_hw c')) \<and> disk (sd_hw c') = disk (sd_hw c)
    \<and> (ev = [] \<and> sd_initialized c' = 0
       \<or> ev = [bdm_connect_bd_sd] \<and> sd_initialized c' = 1 \<and> type_ok c' \<and> sectorCount (sd_bd c') \<noteq> 0)"
proof -
  obtain r1 c1 where 1: "spisd_init_card port c = (r1, c1)" by fastforce
  have a1: "safe (phase (sd_hw c1))" "disk (sd_hw c1) = disk (sd_hw c)" "r1 = 0 \<Longrightarrow> phase (sd_hw c1) = Ready \<and> type_ok c1" "sd_initialized c1 = 0"
    using init_card_ok [OF 1 assms(2)] init_initialized [OF 1] assms(2,3) by (auto simp: keeps_def sd_ready_def)
  obtain r2 c2 where 2: "spisd_get_card_info port c1 = (r2, c2)" by fastforce
  have a2: "safe (phase (sd_hw c2))" "disk (sd_hw c2) = disk (sd_hw c)" "type_ok c2" "sd_initialized c2 = 0" if "r1 = 0"
    using get_card_info_ok [OF 2] info_initialized [OF 2] a1 that by (auto simp: keeps_def type_ok_def safe_def)
  obtain r3 c3 where 3: "(if r2 \<noteq> 0 then spisd_recover port c2 else (r2, c2)) = (r3, c3)" by fastforce
  have a3: "safe (phase (sd_hw c3))" "disk (sd_hw c3) = disk (sd_hw c)" "type_ok c3" "sd_initialized c3 = 0"
      "r3 = 0 \<Longrightarrow> sectorCount (sd_bd c3) \<noteq> 0" if "r1 = 0"
    using a2 [OF that] 3 recover_ok [of c2 r3 c3] recover_initialized [of port c2 r3 c3] info_initialized [OF 2]
    by (auto split: if_splits)
  have "(ev, c') = (if r1 = 0 then if r3 = 0 then ([bdm_connect_bd_sd], c3\<lparr>sd_initialized := 1\<rparr>) else ([], c3) else ([], c1))"
    using assms(1) 1 2 3 by (cases "r1 = 0"; cases "r2 = 0") (auto simp: sd_detect_new_def)
  then show ?thesis using a1 a3 by (auto simp: type_ok_def split: if_splits)
qed

lemma detect_used_ok:
  assumes "sd_detect_used port c = (ev, c')" "safe (phase (sd_hw c))" "sd_initialized c = 1" "type_ok c"
  shows "safe (phase (sd_hw c')) \<and> disk (sd_hw c') = disk (sd_hw c) \<and> type_ok c'
    \<and> (ev = [] \<and> sd_initialized c' = 1 \<or> ev = [bdm_disconnect_bd_sd] \<and> sd_initialized c' = 0)"
proof -
  obtain v h where 1: "spisd_read_status_register port (sd_hw c) = (v, h)" by fastforce
  define c1 where "c1 = c\<lparr>sd_hw := h\<rparr>"
  have c1: "safe (phase (sd_hw c1))" "disk (sd_hw c1) = disk (sd_hw c)" "type_ok c1" "sd_initialized c1 = 1"
    using status_keeps [OF 1] assms(2-4) by (simp_all add: keeps_def c1_def)
  obtain r2 c2 where 2: "spisd_recover port c1 = (r2, c2)" by fastforce
  have c2: "safe (phase (sd_hw c2))" "disk (sd_hw c2) = disk (sd_hw c)" "type_ok c2" "sd_initialized c2 = 1"
    using recover_ok [OF 2 c1(1)] recover_initialized [OF 2] c1 by auto
  have "(ev, c') = (if v \<noteq> 0 then if r2 \<noteq> 0 then ([bdm_disconnect_bd_sd], c2\<lparr>sd_initialized := 0\<rparr>) else ([], c2) else ([], c1))"
    using assms(1) 1 2 c2(4) by (cases "v = 0"; cases "r2 = 0") (auto simp: sd_detect_used_def Let_def c1_def)
  then show ?thesis using c1 c2 by (auto simp: type_ok_def split: if_splits)
qed

lemma lock_state:
  "sd_initialized (rq_card (mx_sio2_lock port i st)) = sd_initialized (rq_card st)" "sd_type (rq_card (mx_sio2_lock port i st)) = sd_type (rq_card st)"
  "phase (rq_hw (mx_sio2_lock port i st)) = phase (rq_hw st)" "disk (rq_hw (mx_sio2_lock port i st)) = disk (rq_hw st)"
  "rq_dma (mx_sio2_lock port i st) = rq_dma st"
  using keeps_ports [of "sio_lock port (rq_hw st)" "td_baud (rq_card st)"] lock by (simp_all add: mx_sio2_lock_def)

lemma unlock_idle:
  assumes "rq_dma st = None" "safe (phase (rq_hw st))"
  shows "rq_intr (mx_sio2_unlock port st) = 0 \<and> rq_dma (mx_sio2_unlock port st) = None \<and> safe (phase (rq_hw (mx_sio2_unlock port st)))
    \<and> disk (rq_hw (mx_sio2_unlock port st)) = disk (rq_hw st)
    \<and> (\<exists>h. rq_card (mx_sio2_unlock port st) = (rq_card st)\<lparr>sd_hw := h\<rparr>)"
proof -
  obtain n h where i: "sio_irqs port (rq_hw st) = (n, h)" by fastforce
  then have t: "tick port st = set_hw h st" using assms(1) by (cases n) (auto simp: tick_def)
  show ?thesis using assms irqs [OF i] unlock safe_stop [of "phase (rq_hw st)"] by (auto simp: mx_sio2_unlock_def t Let_def)
qed

lemma set_card_sel [simp]:
  "rq_dma (set_card c st) = rq_dma st" "rq_hw (set_card c st) = sd_hw c" "rq_card (set_card c st) = c"
  by (simp_all add: set_card_def rq_hw_def)

lemma detect_ok:
  assumes "sd_detect port st = (ev, st')" "safe (phase (rq_hw st))" "rq_dma st = None"
    "sd_initialized (rq_card st) = 0 \<or> sd_initialized (rq_card st) = 1 \<and> type_ok (rq_card st)"
  shows "rq_intr st' = 0 \<and> rq_dma st' = None \<and> safe (phase (rq_hw st')) \<and> disk (rq_hw st') = disk (rq_hw st)
    \<and> (sd_initialized (rq_card st') = 0 \<or> sd_initialized (rq_card st') = 1 \<and> type_ok (rq_card st'))
    \<and> ev = (if sd_initialized (rq_card st') = sd_initialized (rq_card st) then []
            else if sd_initialized (rq_card st') = 1 then [bdm_connect_bd_sd] else [bdm_disconnect_bd_sd])
    \<and> (ev = [bdm_connect_bd_sd] \<longrightarrow> sectorCount (sd_bd (rq_card st')) \<noteq> 0)"
proof -
  define s0 where "s0 = mx_sio2_lock port 0 st"
  note l = lock_state [of 0 st, folded s0_def]
  have h0: "phase (sd_hw (rq_card s0)) = phase (rq_hw st)" "disk (sd_hw (rq_card s0)) = disk (rq_hw st)" using l by (simp_all add: rq_hw_def)
  obtain e c where d: "(if sd_initialized (rq_card s0) = 0 then sd_detect_new port (rq_card s0) else sd_detect_used port (rq_card s0)) = (e, c)"
    by fastforce
  have st': "ev = e" "st' = mx_sio2_unlock port (set_card c s0)"
    using assms(1) d by (auto simp: sd_detect_def Let_def simp flip: s0_def split: prod.splits)
  have c: "safe (phase (sd_hw c)) \<and> disk (sd_hw c) = disk (rq_hw st)
      \<and> (sd_initialized c = 0 \<or> sd_initialized c = 1 \<and> type_ok c)
      \<and> e = (if sd_initialized c = sd_initialized (rq_card st) then []
              else if sd_initialized c = 1 then [bdm_connect_bd_sd] else [bdm_disconnect_bd_sd])
      \<and> (e = [bdm_connect_bd_sd] \<longrightarrow> sectorCount (sd_bd c) \<noteq> 0)"
  proof (cases "sd_initialized (rq_card st) = 0")
    case True
    then have "sd_detect_new port (rq_card s0) = (e, c)" using d l by simp
    from detect_new_ok [OF this] show ?thesis using True h0 assms(2) l by auto
  next
    case False
    then have i: "sd_initialized (rq_card s0) = 1" "type_ok (rq_card s0)" using assms(4) l by (auto simp: type_ok_def)
    then have "sd_detect_used port (rq_card s0) = (e, c)" using d by simp
    from detect_used_ok [OF this _ i] show ?thesis using False i h0 assms(2) l by auto
  qed
  have "rq_dma (set_card c s0) = None" "safe (phase (rq_hw (set_card c s0)))" using l assms(3) c by simp_all
  note u = unlock_idle [OF this, folded st'(2)]
  then show ?thesis using c st'(1) by (auto simp: type_ok_def)
qed

end

end
