(* ===== verification/Sd_Return.thy ===== *)
theory Sd_Return
  imports Sd_Read
begin

text \<open>
  \<open>spisd_read\<close> returns whatever the port and the card do: the two loops without a counter of their own, the event loop and
  the loop over the received sectors, end for every hardware and every interleaving of the interrupts.
\<close>

section \<open>A read command, without any assumption on the hardware\<close>

definition rx_cmd :: "u16 \<Rightarrow> 'h sd_req \<Rightarrow> bool" where
  "rx_cmd cnt st \<longleftrightarrow> rq_intr st = 1 \<and> cmd_sector_count (rq_cmd st) = cnt \<and> n_rev st \<le> n_sent st \<and> n_sent st \<le> unat cnt
     \<and> (rq_dma st \<noteq> None \<longrightarrow> n_sent st < unat cnt)"

lemma rx_cmd_eq: "rx_cmd cnt st \<Longrightarrow> rq_intr st' = rq_intr st \<Longrightarrow> rq_cmd st' = rq_cmd st \<Longrightarrow> rq_dma st' = rq_dma st \<Longrightarrow> rx_cmd cnt st'"
  by (simp add: rx_cmd_def)

lemma isr_next_cmd:
  assumes "rx_cmd cnt st" "rq_dma st = None" "n_sent st < unat cnt"
  shows "rx_cmd cnt (isr_rx_next port st) \<and> n_rev (isr_rx_next port st) = n_rev st \<and> (aborted (isr_rx_next port st) = 0 \<longrightarrow> aborted st = 0)
    \<and> ev_measure (isr_rx_next port st) < 2 * (unat cnt - n_sent st) \<and> n_sent st \<le> n_sent (isr_rx_next port st)"
proof -
  have u: "unat (cmd_transferred (rq_cmd st) + 1) = Suc (n_sent st)"
    using assms(3) unat_lt_u16 [of cnt] by (subst unat_add_lt) simp_all
  then have lt: "cmd_transferred (rq_cmd st) + 1 < cnt \<longleftrightarrow> Suc (n_sent st) < unat cnt" by (simp add: word_less_nat_alt)
  have c: "cmd_sector_count (rq_cmd st) = cnt" "n_rev st \<le> n_sent st" "rq_intr st = 1" using assms(1) by (simp_all add: rx_cmd_def)
  consider "Suc (n_sent st) < unat cnt" "aborted st = 0" "cmd_response (rq_cmd st) = 0"
    | "Suc (n_sent st) < unat cnt" "aborted st = 0" "cmd_response (rq_cmd st) \<noteq> 0" | "\<not> (Suc (n_sent st) < unat cnt \<and> aborted st = 0)" by blast
  then show ?thesis
  proof cases
    case 1
    then show ?thesis using c u lt by (auto simp: isr_rx_next_def Let_def rx_cmd_def ev_measure_def mx_sio2_start_rx_dma_def)
  next
    case 2
    then show ?thesis using c u lt assms(2) by (auto simp: isr_rx_next_def Let_def rx_cmd_def ev_measure_def)
  next
    case 3
    then show ?thesis using c u lt assms(2,3) by (auto simp: isr_rx_next_def Let_def rx_cmd_def ev_measure_def)
  qed
qed

lemma isr_rx_cmd:
  assumes "rx_cmd cnt st" "rq_dma st = Some o1"
  shows "rx_cmd cnt (mx_sio2_dma_isr_rx port o1 st) \<and> n_rev (mx_sio2_dma_isr_rx port o1 st) = n_rev st
    \<and> (aborted (mx_sio2_dma_isr_rx port o1 st) = 0 \<longrightarrow> aborted st = 0) \<and> ev_measure (mx_sio2_dma_isr_rx port o1 st) < ev_measure st
    \<and> n_sent st \<le> n_sent (mx_sio2_dma_isr_rx port o1 st)"
proof -
  obtain d h1 where d: "sio_dma_data port (rq_hw st) = (d, h1)" by fastforce
  obtain ok h2 where w: "mx_sio2_wait_transfer_complete port h1 = (ok, h2)" by fastforce
  obtain bs h3 where b: "data_in_n port 3 h2 = (bs, h3)" by fastforce
  obtain r h4 where t: "isr_rx_token port (bs ! 2) h3 = (r, h4)" by fastforce
  define s1 where "s1 = st\<lparr>rq_mem := store (rq_mem st) o1 d, rq_dma := None\<rparr>"
  define s2 where "s2 = set_response r (set_hw h4 s1)"
  have lt: "n_sent st < unat cnt" "cmd_sector_count (rq_cmd st) = cnt" using assms by (auto simp: rx_cmd_def)
  have m: "2 * (unat cnt - n_sent st) \<le> ev_measure st" using assms(2) lt by (simp add: ev_measure_def)
  show ?thesis
  proof (cases ok)
    case False
    then have "mx_sio2_dma_isr_rx port o1 st = isr_timeout (set_hw h2 s1)"
      using d w by (simp add: mx_sio2_dma_isr_rx_def Let_def s1_def)
    moreover have "ev_measure (isr_timeout (set_hw h2 s1)) \<le> 1" by (simp add: ev_measure_def isr_timeout_def s1_def)
    ultimately show ?thesis using assms m lt by (simp add: rx_cmd_def isr_timeout_def s1_def)
  next
    case True
    then have eq: "mx_sio2_dma_isr_rx port o1 st = isr_rx_next port s2"
      using d w b t by (simp add: mx_sio2_dma_isr_rx_def Let_def s1_def s2_def)
    have "rx_cmd cnt s2" "rq_dma s2 = None" "n_sent s2 = n_sent st" "n_rev s2 = n_rev st" "aborted s2 = aborted st"
      using assms by (simp_all add: rx_cmd_def s1_def s2_def)
    then show ?thesis using isr_next_cmd [of cnt s2 port] eq lt m by auto
  qed
qed

lemma tick_rx_cmd:
  assumes "rx_cmd cnt st"
  shows "rx_cmd cnt (tick port st) \<and> n_rev (tick port st) = n_rev st \<and> (aborted (tick port st) = 0 \<longrightarrow> aborted st = 0)
    \<and> n_sent st \<le> n_sent (tick port st)
    \<and> (ev_measure (tick port st) < ev_measure st \<or> rq_ev (tick port st) = rq_ev st \<and> ev_measure (tick port st) = ev_measure st)"
    (is "?P st (tick port st)")
proof -
  have run: "?P x (run_irqs port k x)" if "rx_cmd cnt x" for k x
    using that
  proof (induction k arbitrary: x)
    case (Suc k)
    show ?case
    proof (cases "rq_dma x")
      case (Some o1)
      let ?y = "mx_sio2_dma_isr_rx port o1 x"
      note y = isr_rx_cmd [OF Suc.prems Some, of port]
      have "run_irqs port (Suc k) x = run_irqs port k ?y" using Some Suc.prems by (simp add: rx_cmd_def)
      then show ?thesis using Suc.IH [of ?y] y by auto
    qed (use Suc.prems in simp)
  qed simp
  obtain n h where i: "sio_irqs port (rq_hw st) = (n, h)" by fastforce
  have "rx_cmd cnt (set_hw h st)" "ev_measure (set_hw h st) = ev_measure st" using assms by (simp_all add: rx_cmd_def ev_measure_def)
  then show ?thesis using run [of "set_hw h st" n] i by (simp add: tick_def)
qed

lemma wait_event_cmd:
  "wait_event port n bits st = (q, st') \<Longrightarrow> rx_cmd cnt st \<Longrightarrow>
     rx_cmd cnt st' \<and> ev_measure st' \<le> ev_measure st \<and> (case q of None \<Rightarrow> True | Some res \<Rightarrow> res = rq_ev st' \<and> res AND bits \<noteq> 0)"
proof (induction n arbitrary: st)
  case (Suc n)
  note t = tick_rx_cmd [OF Suc.prems(2), of port]
  show ?case
  proof (cases "rq_ev (tick port st) AND bits = 0")
    case True
    then have "wait_event port n bits (tick port st) = (q, st')" using Suc.prems(1) by (simp add: Let_def)
    from Suc.IH [OF this] show ?thesis using t by auto
  next
    case False
    then show ?thesis using Suc.prems(1) t by (auto simp: Let_def)
  qed
qed simp

lemma reverse_one_cmd:
  assumes "rx_cmd cnt st" "n_rev st < n_sent st"
  shows "rx_cmd cnt (reverse_one port st) \<and> ev_measure (reverse_one port st) \<le> ev_measure st
    \<and> (aborted (reverse_one port st) \<noteq> 0 \<and> n_rev (reverse_one port st) = n_rev st
        \<or> aborted (reverse_one port st) = 0 \<and> n_rev (reverse_one port st) = Suc (n_rev st))"
proof -
  define k where "k = cmd_buffer (rq_cmd st) + n_rev st * 512"
  define s1 where "s1 = st\<lparr>rq_mem := store (rq_mem st) k (reverse_buffer (take 512 (drop k (rq_mem st))) (512 div 4))\<rparr>"
  have "rx_cmd cnt s1" "ev_measure s1 = ev_measure st" "n_rev s1 = n_rev st" "n_sent s1 = n_sent st"
    using assms(1) by (simp_all add: rx_cmd_def s1_def ev_measure_def)
  then have t: "rx_cmd cnt (tick port s1)" "n_rev (tick port s1) = n_rev st" "n_sent st \<le> n_sent (tick port s1)" "ev_measure (tick port s1) \<le> ev_measure st"
    using tick_rx_cmd [of cnt s1 port] by auto
  have ro: "reverse_one port st =
      (if aborted (tick port s1) = 0 then set_reversed (cmd_reversed (rq_cmd (tick port s1)) + 1) (tick port s1) else tick port s1)"
    by (simp add: reverse_one_def Let_def k_def s1_def set_reversed_def)
  have u: "unat (cmd_reversed (rq_cmd (tick port s1)) + 1) = Suc (n_rev st)"
    using t assms(2) unat_lt_u16 [of cnt] by (subst unat_add_lt) (auto simp: rx_cmd_def)
  show ?thesis
    unfolding ro using t assms(2) u by (auto simp: rx_cmd_def ev_measure_def)
qed

lemma reverse_loop_returns:
  "rx_cmd cnt st \<Longrightarrow> \<exists>st'. reverse_loop port st = Some st' \<and> rx_cmd cnt st' \<and> ev_measure st' \<le> ev_measure st"
proof (induction "2 * (unat cnt - n_rev st) + (if aborted st = 0 then 1 else 0)" arbitrary: st rule: less_induct)
  case less
  let ?t = "tick port st"
  note t = tick_rx_cmd [OF less.prems, of port]
  show ?case
  proof (cases "cmd_reversed (rq_cmd ?t) < cmd_transferred (rq_cmd ?t) \<and> aborted ?t = 0")
    case False
    then have "reverse_loop port st = Some ?t" by (subst reverse_loop.simps) (auto simp: Let_def)
    then show ?thesis using t by auto
  next
    case True
    let ?u = "reverse_one port ?t"
    have lt: "n_rev ?t < n_sent ?t" using True by (simp add: word_less_nat_alt)
    note u = reverse_one_cmd [OF t [THEN conjunct1] lt, of port]
    have "n_rev ?t < unat cnt" using lt t by (simp add: rx_cmd_def)
    then have "2 * (unat cnt - n_rev ?u) + (if aborted ?u = 0 then 1 else 0)
        < 2 * (unat cnt - n_rev st) + (if aborted st = 0 then 1 else 0 :: nat)"
      using u t True by auto
    from less.hyps [OF this u [THEN conjunct1]] show ?thesis
      using True u t by (subst reverse_loop.simps) (auto simp: Let_def)
  qed
qed

lemma read_events_returns:
  "rx_cmd cnt st \<Longrightarrow> \<exists>st'. read_events port st = Some st' \<and> rq_intr st' = 1"
proof (induction "ev_measure st" arbitrary: st rule: less_induct)
  case less
  obtain q s1 where w: "spisd_wait_dma_event port (EF_SIO2_INTR_REVERSE OR EF_SIO2_INTR_COMPLETE) st = (q, s1)" by fastforce
  note i1 = wait_event_cmd [OF w [unfolded spisd_wait_dma_event_def] less.prems]
  show ?case
  proof (cases q)
    case None
    then show ?thesis using w tick_rx_cmd [OF i1 [THEN conjunct1], of port] by (subst read_events.simps) (simp add: rx_cmd_def)
  next
    case (Some res)
    then have res: "res = rq_ev s1" "bit res 8 \<or> bit res 9" using i1 by (auto simp: ev_both)
    define s2 where "s2 = clear_ev EF_SIO2_INTR_REVERSE (tick port s1)"
    note t1 = tick_rx_cmd [OF i1 [THEN conjunct1], of port]
    have "rx_cmd cnt s2" using t1 by (simp add: s2_def rx_cmd_def)
    from reverse_loop_returns [OF this, of port] obtain s3 where
      r: "reverse_loop port s2 = Some s3" "rx_cmd cnt s3" "ev_measure s3 \<le> ev_measure s2" by blast
    define x where "x = (if bit res 8 then s3 else s1)"
    have x: "rx_cmd cnt x" using r i1 by (simp add: x_def)
    have unf: "read_events port st = (if bit res 9 then Some (clear_ev EF_SIO2_INTR_COMPLETE (tick port x)) else read_events port x)"
      using w Some r(1) by (subst read_events.simps) (simp add: ev_bits x_def flip: s2_def)
    show ?thesis
    proof (cases "bit res 9")
      case True
      then show ?thesis using unf tick_rx_cmd [OF x, of port] by (simp add: rx_cmd_def)
    next
      case False
      then have b: "bit res 8" "x = s3" using res by (auto simp: x_def)
      have "ev_measure s2 < ev_measure s1"
        using t1 b res False by (auto simp: s2_def ev_measure_def not_bits split: if_splits)
      then have "ev_measure x < ev_measure st" using r(3) i1 b by simp
      then show ?thesis using less.hyps [of x] x False unf by simp
    qed
  qed
qed

section \<open>The request\<close>

lemma read_do_returns:
  assumes "rq_intr st = 1" "cnt \<noteq> 0"
  shows "\<exists>res st'. spisd_read_multi_do port off cnt st = Some (res, st') \<and> rq_intr st' = 1"
proof -
  define s1 where "s1 = mx_sio2_start_rx_dma port off (setup_cmd off cnt st)"
  have "unat cnt > 0" using assms(2) by (simp add: unat_gt_0)
  then have "rx_cmd cnt s1" using assms(1) by (simp add: s1_def mx_sio2_start_rx_dma_def setup_cmd_def rx_cmd_def)
  from read_events_returns [OF this, of port] show ?thesis by (auto simp: spisd_read_multi_do_def simp flip: s1_def)
qed

lemma tick_intr: "rq_intr (tick port st) = rq_intr st"
proof (rule tick_rule [where I = "\<lambda>x. rq_intr x = rq_intr st"])
  fix x :: "'a sd_req" and o1 assume "rq_intr x = rq_intr st"
  then show "rq_intr (mx_sio2_dma_isr_rx port o1 x) = rq_intr st" by (simp add: isr_rx_intr)
next
  fix x :: "'a sd_req" assume "rq_intr x = rq_intr st"
  then show "rq_intr (mx_sio2_dma_isr_tx port x) = rq_intr st"
    by (simp add: mx_sio2_dma_isr_tx_def isr_tx_next_def isr_tx_ack_def isr_timeout_def mx_sio2_start_tx_dma_def Let_def split: prod.split)
qed simp_all

lemma read_retry_returns:
  "rq_intr st = 1 \<Longrightarrow> \<exists>left' f st'. read_retry port k sector off left st = Some (left', f, st')"
proof (induction k arbitrary: sector off left st)
  case (Suc k)
  let ?Q = "\<lambda>q. \<exists>left' f st'. q = Some (left', f, st')"
  have rec: "?Q (case rq_recover port y of (r, y') \<Rightarrow> if r \<noteq> 0 then Some (lf, f, y') else read_retry port k sc o2 lf y')"
    if "rq_intr y = 1" for y lf sc o2 f
  proof -
    obtain r c where r: "spisd_recover port (rq_card y) = (r, c)" by fastforce
    show ?thesis using r Suc.IH [of "y\<lparr>rq_card := c\<rparr>" sc o2 lf] that by (simp add: rq_recover_def)
  qed
  show ?case
  proof (cases "left = 0")
    case False
    obtain r c where b: "spisd_read_multi_begin port (ucast sector) (rq_card st) = (r, c)" by fastforce
    define s1 where "s1 = st\<lparr>rq_card := c\<rparr>"
    have s1: "rq_intr s1 = 1" using Suc.prems by (simp add: s1_def)
    show ?thesis
    proof (cases "r = 0")
      case rn: False
      then show ?thesis using rec [OF s1, of left False sector off] False b by (simp add: s1_def)
    next
      case True
      from read_do_returns [OF s1 False, of port off] obtain res y where
        at: "spisd_read_multi_do port off left s1 = Some (res, y)" "rq_intr y = 1" by blast
      define x where "x = tick port y"
      have x: "rq_intr x = 1" using at(2) by (simp add: x_def tick_intr)
      obtain r2 c2 where e: "spisd_read_multi_end port (rq_card x) = (r2, c2)" by fastforce
      define lf sc o2 where d: "lf = left - res" "sc = (if lf > 0 then sector + ucast res else sector)" "o2 = (if lf > 0 then off + unat res * 512 else off)"
      define z where "z = mx_sio2_lock port INTR_RX (mx_sio2_unlock port x)"
      have z: "rq_intr z = 1" by (simp add: z_def mx_sio2_lock_def)
      have w: "rq_intr (x\<lparr>rq_card := c2\<rparr>) = 1" using x by simp
      have unf: "read_retry port (Suc k) sector off left st =
          (if lf > 0 \<and> aborted x = 1
           then (case rq_recover port x of (r, y') \<Rightarrow> if r \<noteq> 0 then Some (lf, False, y') else read_retry port k sc o2 lf y')
           else if aborted x = 4
           then (case rq_recover port z of (r, y') \<Rightarrow> if r \<noteq> 0 then Some (lf, True, y') else read_retry port k sc o2 lf y')
           else if r2 \<noteq> 0
           then (case rq_recover port (x\<lparr>rq_card := c2\<rparr>) of (r, y') \<Rightarrow> if r \<noteq> 0 then Some (lf, True, y') else read_retry port k sc o2 lf y')
           else read_retry port k sc o2 lf (x\<lparr>rq_card := c2\<rparr>))"
        using False b True at(1) [unfolded s1_def] e [unfolded x_def] by (simp add: Let_def d x_def z_def split: prod.split)
      show ?thesis
        unfolding unf using rec [OF x, of lf False sc o2] rec [OF z, of lf True sc o2] rec [OF w, of lf True sc o2] Suc.IH [OF w, of sc o2 lf] by presburger
    qed
  qed auto
qed auto

lemma read_request_returns:
  "\<exists>r d st'. spisd_read port st sector buffer count = Some (r, d, st') \<and> (r = int (unat count) \<or> r = - EIO)"
proof (cases "count = 0")
  case False
  obtain left f s1 where "read_retry port 4 sector 0 count (mx_sio2_lock port INTR_RX (st\<lparr>rq_mem := buffer\<rparr>)) = Some (left, f, s1)"
    using read_retry_returns [of "mx_sio2_lock port INTR_RX (st\<lparr>rq_mem := buffer\<rparr>)" port 4 sector 0 count] by (auto simp: mx_sio2_lock_def)
  then show ?thesis using False by (auto simp: spisd_read_def Let_def)
qed (simp add: spisd_read_def)

lemma write_request_result:
  "spisd_write port st sector buffer count = (r, b, st') \<Longrightarrow> r = int (unat count) \<or> r = - EIO"
  by (auto simp: spisd_write_def Let_def split: if_splits prod.splits)

section \<open>Properties\<close>

text \<open>C17. \<open>spisd_read\<close> returns for every port, every card and every interleaving of the interrupts, with the sector count or
  \<open>-EIO\<close>: its event loop and its reversal loop, which have no counter of their own, always end. A transfer that hangs is
  given up after the polls of \<open>spisd_wait_dma_event\<close>.\<close>

theorem spisd_read_returns:
  "\<exists>r d st'. spisd_read port st sector buffer count = Some (r, d, st') \<and> (r = int (unat count) \<or> r = - EIO)"
  by (rule read_request_returns)

end
