(* ===== verification/Sd_Sim.thy ===== *)
theory Sd_Sim
  imports Sd_Detect Sd_Return
begin

text \<open>
  A simulated SD card behind the SIO2 port that follows the contract of \<open>Sd_Bus\<close>: it decodes the port's queue, clocks the
  phase machine byte by byte, answers the commands of the initialisation from a script and keeps the blocks. The driver
  runs on it, and the properties of the SD card driver are stated here for every port that follows the contract.
\<close>

section \<open>The simulated card\<close>

text \<open>\<open>sm_out\<close> is what a ready card is going to send, \<open>sm_fifo\<close> the receive FIFO of the port.\<close>

record sim_card =
  sm_phase :: sd_phase
  sm_disk :: "nat \<Rightarrow> bytes"
  sm_out :: bytes
  sm_fifo :: bytes

definition pad_block :: "bytes \<Rightarrow> bytes" where
  "pad_block d = take 512 (d @ replicate 512 0)"

fun pad_phase :: "sd_phase \<Rightarrow> sd_phase" where
  "pad_phase (WriteDma a d) = WriteDma a (pad_block d)"
| "pad_phase (WriteCrc a d n) = WriteCrc a (pad_block d) n"
| "pad_phase (WriteResp a d n) = WriteResp a (pad_block d) n"
| "pad_phase ph = ph"

definition sim_phase :: "sim_card \<Rightarrow> sd_phase" where "sim_phase h = pad_phase (sm_phase h)"

definition sim_disk :: "sim_card \<Rightarrow> nat \<Rightarrow> bytes" where "sim_disk h k = pad_block (sm_disk h k)"

definition sim_times :: sd_times where "sim_times = \<lparr>gap_cmd = 8, gap_data = 8, gap_busy = 64\<rparr>"

fun sim_reply :: "bool \<Rightarrow> sd_phase \<Rightarrow> bytes \<Rightarrow> u8" where
  "sim_reply hc Ready out = (case out of [] \<Rightarrow> 0xFF | b # _ \<Rightarrow> b)"
| "sim_reply hc ResetPend out = 1"
| "sim_reply hc StopPend out = 0"
| "sim_reply hc (IfCmd n) out = 1"
| "sim_reply hc OcrCmd out = 0"
| "sim_reply hc OcrData out = (if hc then 0xC0 else 0x80)"
| "sim_reply hc (ReadCmd a) out = 0"
| "sim_reply hc (ReadTok a) out = 0xFE"
| "sim_reply hc (WriteCmd a) out = 0"
| "sim_reply hc (WriteResp a d n) out = 0xE5"
| "sim_reply hc Refused out = 4"
| "sim_reply hc _ out = 0xFF"

text \<open>One byte on the wire, bit-reversed as the port shifts it.\<close>

definition sim_step :: "bool \<Rightarrow> u8 \<Rightarrow> sim_card \<Rightarrow> u8 \<times> sim_card" where
  "sim_step hc t h =
     (let ph = sim_phase h; b = sim_reply hc ph (sm_out h)
      in (reverse_byte b, h\<lparr>sm_phase := sd_clock sim_times ph (reverse_byte t) b, sm_disk := sd_commit ph b (sim_disk h),
            sm_out := (if ph = Ready then tl (sm_out h) else sm_out h)\<rparr>))"

fun sim_steps :: "bool \<Rightarrow> bytes \<Rightarrow> sim_card \<Rightarrow> bytes \<times> sim_card" where
  "sim_steps hc [] h = ([], h)"
| "sim_steps hc (t # ts) h = (case sim_step hc t h of (b, h1) \<Rightarrow> case sim_steps hc ts h1 of (bs, h2) \<Rightarrow> (b # bs, h2))"

text \<open>The bytes after the response of a command in the ready phase: a gap, the response, and a register after its token.\<close>

definition sim_script :: "bytes \<Rightarrow> u8 \<Rightarrow> bytes" where
  "sim_script csd c =
     (if c = CMD8 then [0, 0, 1, 0xAA, 0xFF, 0xFF]
      else if c = CMD9 then [0xFF, 0, 0xFF, 0xFE] @ csd @ [0, 0]
      else if c = CMD10 then [0xFF, 0, 0xFF, 0xFE] @ replicate 16 0x11 @ [0, 0]
      else if c = CMD55 then [0xFF, 1]
      else if c = CMD58 then [0xFF, 0x80, 0, 0, 0xFF]
      else [0xFF, 0])"

definition sim_exec :: "bool \<Rightarrow> bytes \<Rightarrow> u32 list \<Rightarrow> bytes \<Rightarrow> sim_card \<Rightarrow> sim_card" where
  "sim_exec hc csd queue tx h =
     (let rxsz = unat (drop_bit 18 (queue ! 0) AND 0x1FF) in
      if length tx = 6
      then let pkt = map reverse_byte tx
           in h\<lparr>sm_phase := sd_packet hc sim_times (sim_phase h) pkt, sm_out := sim_script csd (pkt ! 0), sm_fifo := []\<rparr>
      else case sim_steps hc (tx @ replicate (rxsz - length tx) 0xFF) h of (bs, h1) \<Rightarrow> h1\<lparr>sm_fifo := take rxsz bs\<rparr>)"

definition sim_exec_dma :: "u32 list \<Rightarrow> bytes option \<Rightarrow> sim_card \<Rightarrow> sim_card" where
  "sim_exec_dma queue d h =
     (case (sim_phase h, d) of
        (ReadBlk a, None) \<Rightarrow> h\<lparr>sm_phase := ReadDma a\<rparr>
      | (WriteBlk a, Some d) \<Rightarrow> h\<lparr>sm_phase := WriteDma a (map reverse_byte d)\<rparr>
      | _ \<Rightarrow> h\<lparr>sm_phase := Lost\<rparr>)"

definition sim_dma_data :: "sim_card \<Rightarrow> bytes \<times> sim_card" where
  "sim_dma_data h =
     (case sim_phase h of
        ReadDma a \<Rightarrow> (map reverse_byte (sim_disk h a), h\<lparr>sm_phase := ReadTok (Suc a), sm_fifo := [0xFF, 0xFF, 0xFF]\<rparr>)
      | WriteDma a d \<Rightarrow> ([], h\<lparr>sm_phase := WriteCrc a d 2\<rparr>)
      | _ \<Rightarrow> ([], h))"

definition sim_port :: "bool \<Rightarrow> bytes \<Rightarrow> sim_card sio2_port" where
  "sim_port hc csd = \<lparr>
     sio_port_ctrl = (\<lambda>i c1 c2 h. h),
     sio_exec = sim_exec hc csd,
     sio_stat6c = (\<lambda>h. (0x1000, h)),
     sio_data_in = (\<lambda>h. case sm_fifo h of [] \<Rightarrow> (0, h) | b # bs \<Rightarrow> (b, h\<lparr>sm_fifo := bs\<rparr>)),
     sio_exec_dma = sim_exec_dma,
     sio_dma_data = sim_dma_data,
     sio_irqs = (\<lambda>h. (1, h)),
     sio_lock = (\<lambda>h. h),
     sio_unlock = (\<lambda>h. h\<lparr>sm_phase := sd_stop (sim_phase h)\<rparr>)\<rparr>"

lemma pad_block_length [simp]: "length (pad_block d) = 512"
  by (simp add: pad_block_def)

lemma pad_block_id [simp]: "length d = 512 \<Longrightarrow> pad_block d = d"
  by (simp add: pad_block_def)

lemma pad_pad [simp]: "pad_phase (pad_phase ph) = pad_phase ph"
  by (cases ph) simp_all

lemma pad_clock: "pad_phase (sd_clock tm (pad_phase ph) t b) = sd_clock tm (pad_phase ph) t b"
  by (cases ph) auto

lemma pad_packet: "pad_phase (sd_packet hc tm ph pkt) = sd_packet hc tm ph pkt"
  by (simp add: sd_packet_def split: sd_phase.split)

lemma pad_stop: "pad_phase (sd_stop (pad_phase ph)) = sd_stop (pad_phase ph)"
  by (cases ph) (simp_all add: sd_stop_def)

lemma pad_dma: "pad_phase ph = WriteDma a d \<Longrightarrow> pad_block d = d"
  by (cases ph) auto

lemma sim_updates [simp]:
  "sim_phase (h\<lparr>sm_fifo := f\<rparr>) = sim_phase h" "sim_disk (h\<lparr>sm_fifo := f\<rparr>) = sim_disk h"
  "sim_phase (h\<lparr>sm_out := out\<rparr>) = sim_phase h" "sim_disk (h\<lparr>sm_out := out\<rparr>) = sim_disk h"
  "sim_disk (h\<lparr>sm_phase := ph\<rparr>) = sim_disk h" "sim_phase (h\<lparr>sm_phase := ph\<rparr>) = pad_phase ph"
  by (auto simp: sim_phase_def sim_disk_def)

lemma sim_reply_may: "sd_may hc ph (sim_reply hc ph out)"
  by (cases ph) simp_all

lemma sim_step_bytes:
  assumes "sim_step hc t h = (b, h')"
  shows "sd_bytes hc sim_times (sim_phase h, sim_disk h) [(reverse_byte t, reverse_byte b)] = Some (sim_phase h', sim_disk h')"
proof -
  define ph b0 where d: "ph = sim_phase h" "b0 = sim_reply hc ph (sm_out h)"
  have b: "reverse_byte b = b0" "sim_phase h' = pad_phase (sd_clock sim_times ph (reverse_byte t) b0)"
    "sm_disk h' = sd_commit ph b0 (sim_disk h)"
    using assms by (auto simp: sim_step_def Let_def d sim_phase_def)
  have "pad_block (sd_commit ph b0 (sim_disk h) k) = sd_commit ph b0 (sim_disk h) k" for k
    by (cases "sm_phase h") (auto simp: d sim_phase_def sim_disk_def)
  then have "sim_disk h' = sd_commit ph b0 (sim_disk h)" by (auto simp: sim_disk_def b(3))
  moreover have "sim_phase h' = sd_clock sim_times ph (reverse_byte t) b0" using b(2) pad_clock by (simp add: d sim_phase_def)
  ultimately show ?thesis using b(1) sim_reply_may [of hc ph "sm_out h"] by (simp add: d)
qed

lemma sim_steps_bytes:
  "sim_steps hc ts h = (bs, h') \<Longrightarrow> length bs = length ts
     \<and> sd_bytes hc sim_times (sim_phase h, sim_disk h) (zip (map reverse_byte ts) (map reverse_byte bs)) = Some (sim_phase h', sim_disk h')"
proof (induction ts arbitrary: h bs)
  case (Cons t ts)
  obtain b h1 where s: "sim_step hc t h = (b, h1)" by fastforce
  obtain bs' where bs: "sim_steps hc ts h1 = (bs', h')" "bs = b # bs'" using Cons.prems s by (auto split: prod.splits)
  note sim_step_bytes [OF s]
  moreover note Cons.IH [OF bs(1)]
  ultimately show ?case using bs(2) by (auto split: if_splits)
qed simp

lemma rx_size:
  assumes "n \<le> 256"
  shows "unat (drop_bit 18 (tr_ctrl 0 0 a (of_nat n)) AND 0x1FF) = n"
proof -
  have m: "(0x1FF :: u32) = mask 9" by (simp add: mask_eq_exp_minus_1)
  have three: "bit (3 :: u32) k \<longleftrightarrow> k < 2" for k
  proof -
    have "(3 :: u32) = mask 2" by (simp add: mask_eq_exp_minus_1)
    then show ?thesis by (simp only: bit_mask_iff) auto
  qed
  have no: "\<not> bit (4096 :: u32) k" if "k < 9" for k
    using that bit_exp_iff [where 'a = u32, of 12 k] by simp
  have no_int: "\<not> bit (4096 :: int) k" if "k < 9" for k
    using that bit_exp_iff [where 'a = int, of 12 k] by simp
  have "drop_bit 18 (tr_ctrl 0 0 a (of_nat n)) AND mask 9 = (of_nat n AND mask 9 :: u32)"
    by (rule bit_word_eqI) (auto simp: tr_ctrl_def m three no no_int bit_simps)
  then show ?thesis using assms unat_and_mask [of "of_nat n :: u32" 9] by (simp only: m) (simp add: unat_of_nat take_bit_nat_eq_self)
qed

lemma sim_port_sel [simp]:
  "sio_port_ctrl (sim_port hc csd) i c1 c2 h = h" "sio_exec (sim_port hc csd) = sim_exec hc csd"
  "sio_stat6c (sim_port hc csd) h = (0x1000, h)"
  "sio_data_in (sim_port hc csd) h = (case sm_fifo h of [] \<Rightarrow> (0, h) | b # bs \<Rightarrow> (b, h\<lparr>sm_fifo := bs\<rparr>))"
  "sio_exec_dma (sim_port hc csd) = sim_exec_dma" "sio_dma_data (sim_port hc csd) = sim_dma_data"
  "sio_irqs (sim_port hc csd) h = (1, h)" "sio_lock (sim_port hc csd) h = h"
  "sio_unlock (sim_port hc csd) h = h\<lparr>sm_phase := sd_stop (sim_phase h)\<rparr>"
  by (simp_all add: sim_port_def)

lemma rev_ff: "word_reverse (0xFF :: u8) = 0xFF"
  by (simp add: word_reverse_def upt_rec eval_nat_numeral)

lemma sim_ready: "mx_sio2_wait_transfer_complete (sim_port hc csd) h = (True, h)"
  by (simp add: mx_sio2_wait_transfer_complete_def wait_transfer_complete.simps bit_simps)

lemma sim_data_in:
  "data_in_n (sim_port hc csd) (length bs) (h\<lparr>sm_fifo := bs\<rparr>) = (bs, h\<lparr>sm_fifo := []\<rparr>)"
  by (induction bs arbitrary: h) simp_all

lemma sim_pio:
  assumes "length tx \<noteq> 6" "length tx \<le> n" "n \<le> 256" "sim_steps hc (tx @ replicate (n - length tx) 0xFF) h = (bs, h1)"
  shows "pio_transfer (sim_port hc csd) tx n h = (Some bs, h1\<lparr>sm_fifo := []\<rparr>)"
proof -
  have "length bs = n" using sim_steps_bytes [OF assms(4)] assms(2) by simp
  moreover have "sio_exec (sim_port hc csd) [tr_ctrl 0 0 (of_nat (length tx)) (of_nat n), 0] tx h = h1\<lparr>sm_fifo := bs\<rparr>"
    using assms(1,4) calculation by (simp add: sim_exec_def Let_def rx_size [OF assms(3)])
  ultimately show ?thesis using sim_data_in [of hc csd bs h1] by (simp add: pio_transfer_def sim_ready)
qed

interpretation sim: sd_card "sim_port hc csd" sim_phase sim_disk hc sim_times
proof (unfold_locales, goal_cases)
  case (5 t h r h')
  obtain b h1 where s: "sim_step hc t h = (b, h1)" by fastforce
  then have "pio_transfer (sim_port hc csd) [t] 1 h = (Some [b], h1\<lparr>sm_fifo := []\<rparr>)" by (intro sim_pio) simp_all
  then have "r = Some [b]" "h' = h1\<lparr>sm_fifo := []\<rparr>" using 5 by simp_all
  then show ?case using sim_step_bytes [OF s] by (intro exI [of _ b] conjI) simp_all
next
  case (6 n h r h')
  obtain bs h1 where s: "sim_steps hc (replicate n 0xFF) h = (bs, h1)" by fastforce
  then have p: "pio_transfer (sim_port hc csd) [] n h = (Some bs, h1\<lparr>sm_fifo := []\<rparr>)" using 6 by (intro sim_pio) simp_all
  have "zip (map reverse_byte (replicate n 0xFF)) (map reverse_byte bs) = map (\<lambda>b. (0xFF, reverse_byte b)) bs" if "length bs = n"
    using that by (intro nth_equalityI) (simp_all add: rev_ff)
  moreover have "r = Some bs" "h' = h1\<lparr>sm_fifo := []\<rparr>" using 6 p by simp_all
  ultimately show ?case using sim_steps_bytes [OF s] by (intro exI [of _ bs] conjI) simp_all
next
  case (7 tx h r h')
  then show ?case by (auto simp: pio_transfer_def sim_ready sim_exec_def Let_def pad_packet)
next
  case (14 h k h')
  then show ?case by simp
next
  case (15 h a)
  then show ?case by (simp add: sim_exec_dma_def)
next
  case (16 h a d h1 ok h2 bs h3)
  then show ?case by (auto simp: sim_ready) (auto simp: sim_dma_data_def eval_nat_numeral)
next
  case (17 h a d)
  then show ?case by (simp add: sim_exec_dma_def)
next
  case (18 h a d d' h1 ok h2)
  then show ?case by (auto simp: sim_ready) (auto simp: sim_dma_data_def sim_phase_def pad_dma)
qed (simp_all add: sim_times_def sim_disk_def sim_phase_def pad_stop)

section \<open>A card to run the driver on\<close>

definition demo_csd :: bytes where
  "demo_csd = [0x40, 0x0E, 0, 0x32, 0x5B, 0x59, 0, 0, 0x3B, 0x37, 0x7F, 0x80, 0x0A, 0x40, 0x40, 0x01]"

definition demo_sim :: "sd_phase \<Rightarrow> sim_card" where
  "demo_sim ph = \<lparr>sm_phase = ph, sm_disk = (\<lambda>k. replicate 512 (of_nat k)), sm_out = [], sm_fifo = []\<rparr>"

definition demo_card :: "sd_phase \<Rightarrow> sim_card spisd" where
  "demo_card ph = \<lparr>sd_hw = demo_sim ph, sd_csd = demo_csd, sd_cid = cid_of (replicate 16 0), sd_type = CARD_TYPE_SDV2HC, sd_baud = 2,
     sd_initialized = 1, sd_used = 0,
     sd_bd = \<lparr>bd_name = Some ''sdc'', devNr = 1, parNr = 0, parId = 0, sectorSize = 512, sectorOffset = 0, sectorCount = 15523840\<rparr>,
     td_baud = 2\<rparr>"

definition demo_req :: "u8 \<Rightarrow> sd_phase \<Rightarrow> sim_card sd_req" where
  "demo_req intr ph = \<lparr>rq_card = demo_card ph,
     rq_cmd = \<lparr>cmd_buffer = 0, cmd_sector_count = 0, cmd_transferred = 0, cmd_reversed = 0, cmd_response = 0, cmd_abort = 0\<rparr>,
     rq_ev = 0, rq_mem = replicate 1024 0, rq_intr = intr, rq_dma = None\<rparr>"

abbreviation demo_port :: "sim_card sio2_port" where "demo_port \<equiv> sim_port True demo_csd"

lemma demo_sel [simp]:
  "sim_phase (rq_hw (demo_req intr ph)) = pad_phase ph" "rq_dma (demo_req intr ph) = None" "rq_intr (demo_req intr ph) = intr"
  "sd_type (rq_card (demo_req intr ph)) = CARD_TYPE_SDV2HC" "rq_mem (demo_req intr ph) = replicate 1024 0"
  "sim_disk (rq_hw (demo_req intr ph)) k = replicate 512 (of_nat k)" "sd_initialized (rq_card (demo_req intr ph)) = 1"
  by (simp_all add: demo_req_def demo_card_def demo_sim_def rq_hw_def sim_phase_def sim_disk_def)

lemma demo_idle: "sd_idle sim_phase True (demo_req 0 Ready)"
  by (simp add: sd_idle_def safe_def)

section \<open>Properties\<close>

text \<open>C4. The block device of the SD card driver meets the contract of a block device, on every card that follows the SD
  specification in SPI mode and under every interleaving of the thread with the completion interrupts: what a
  successful read returns is on the card, a successful write stores exactly its data, a failed one touches no block outside
  its request, and the driver is idle again after each. That includes the retries, the recovery after a missing
  token, a transfer that times out while the channel is still running, and the address unit of the card type.\<close>

theorem sd_is_block_store:
  assumes "sd_card port phase disk hc tm" "n \<le> sd_blocks hc" "\<forall>k. length (fill k) = k"
  shows "block_store (sd_bd_ops port fill) (sd_idle phase hc) (\<lambda>st. disk (rq_hw st)) 512 n"
  using sd_card.sd_block_store [OF assms(1,2)] assms(3) by blast

theorem sd_is_block_store_witness:
  "block_store (sd_bd_ops demo_port (\<lambda>k. replicate k 0)) (sd_idle sim_phase True) (\<lambda>st. sim_disk (rq_hw st)) 512 15523840
   \<and> sd_idle sim_phase True (demo_req 0 Ready)"
proof -
  have "sd_card demo_port sim_phase sim_disk True sim_times" by (rule sim.sd_card_axioms)
  then show ?thesis using sd_is_block_store [of demo_port sim_phase sim_disk True sim_times 15523840 "\<lambda>k. replicate k 0"] demo_idle
    by (simp add: sd_blocks_def)
qed

text \<open>C19. \<open>spisd_write\<close> gives the caller's buffer back as it was, although it sends it bit-reversed in place: on every
  path, after success the blocks hold the buffer, and after failure only blocks of the request may differ.\<close>

theorem spisd_write_effect:
  assumes "sd_card port phase disk hc tm" "sd_idle phase hc st" "unat a + unat c \<le> sd_blocks hc" "length buf = unat c * 512"
    and "spisd_write port st a buf c = (r, buf', st')"
  shows "buf' = buf \<and> sd_idle phase hc st' \<and> (r = int (unat c) \<or> r = - EIO)
    \<and> (r = int (unat c) \<longrightarrow> disk (rq_hw st') = upd_sectors (disk (rq_hw st)) (unat a) (unat c) 512 buf)
    \<and> (\<forall>k. k < unat a \<or> unat a + unat c \<le> k \<longrightarrow> disk (rq_hw st') k = disk (rq_hw st) k)"
proof -
  have "sd_card.rq_ok phase disk hc 0 (disk (rq_hw st)) st" using assms(2) by (simp add: sd_card.rq_ok_idle [OF assms(1)])
  from sd_card.spisd_write_ok [OF assms(1) this assms(3,4)] assms(5) show ?thesis
    by (auto simp: sd_card.rq_ok_idle [OF assms(1)])
qed

theorem spisd_write_effect_witness:
  "\<exists>r st'. spisd_write demo_port (demo_req 0 Ready) 5 (replicate 1024 7) 2 = (r, replicate 1024 7, st') \<and> sim_disk (rq_hw st') 4 = replicate 512 4"
proof -
  obtain r b st' where w: "spisd_write demo_port (demo_req 0 Ready) 5 (replicate 1024 7) 2 = (r, b, st')" by (metis prod_cases3)
  have "sd_card demo_port sim_phase sim_disk True sim_times" by (rule sim.sd_card_axioms)
  from spisd_write_effect [OF this demo_idle _ _ w] w show ?thesis by (simp add: sd_blocks_def)
qed

text \<open>C11. No completion event is lost: the thread of \<open>spisd_read_multi_do\<close> clears the event flag after it was polled, so an
  interrupt in between clears its own event with it. Still every sector the call counts is in memory in its final form, and
  unless the command is marked as aborted the call counts all of them. A command in which the handler saw no fault (the
  response is still \<open>SPISD_RESULT_OK\<close>) is aborted only by the time-out of the thread, and then the channel is still
  running or its completion event is still set (it came after the last poll): the thread never times out on a
  transfer whose completion it has missed. If the interrupts are served before each access, such a command is not
  aborted at all, and all its sectors are counted.\<close>

theorem read_event_not_lost:
  assumes "sd_card port phase disk hc tm" "rq_intr st = INTR_RX" "rq_dma st = None" "sd_type (rq_card st) = CARD_TYPE_SDV2HC \<longleftrightarrow> hc"
    "phase (rq_hw st) = ReadBlk a" "off + unat cnt * 512 \<le> length (rq_mem st)" "cnt \<noteq> 0"
  shows "\<exists>res st'. spisd_read_multi_do port off cnt st = Some (res, st') \<and> unat res \<le> unat cnt
    \<and> (\<forall>i < unat res. sec (rq_mem st') off i = disk (rq_hw st) (a + i))
    \<and> take off (rq_mem st') = take off (rq_mem st) \<and> (cmd_abort (rq_cmd st') = 0 \<longrightarrow> res = cnt)
    \<and> (cmd_abort (rq_cmd st') \<noteq> 0 \<and> cmd_response (rq_cmd st') = SPISD_RESULT_OK \<longrightarrow>
         cmd_abort (rq_cmd st') = CMD_ABORT_TRANSFER_TIMEOUT
         \<and> (rq_dma st' \<noteq> None \<or> rq_ev st' AND EF_SIO2_INTR_COMPLETE \<noteq> 0))
    \<and> ((\<forall>h. 0 < fst (sio_irqs port h)) \<and> cmd_response (rq_cmd st') = SPISD_RESULT_OK \<longrightarrow>
         cmd_abort (rq_cmd st') = 0 \<and> res = cnt)"
proof -
  have "sd_card.rq_ok phase disk hc INTR_RX (disk (rq_hw st)) st"
    using assms(2-5) by (simp add: sd_card.rq_ok_def [OF assms(1)] sd_card.type_ok_def [OF assms(1)] safe_def)
  from sd_card.read_do_ok [OF assms(1) this assms(5-7)] obtain st' where
    s: "spisd_read_multi_do port off cnt st = Some (cmd_reversed (rq_cmd st'), st')"
      "sd_card.rd_inv phase disk hc a off cnt (rq_mem st) (disk (rq_hw st)) st'" "aborted st' = 0 \<longrightarrow> n_rev st' = unat cnt"
    by (elim exE conjE) (rule that)
  have "sd_card.rd_data a off cnt (rq_mem st) (disk (rq_hw st)) st'" using s(2) by (simp add: sd_card.rd_inv_def [OF assms(1)])
  then have d: "n_rev st' \<le> unat cnt" "\<forall>i < n_rev st'. sec (rq_mem st') off i = disk (rq_hw st) (a + i)" "take off (rq_mem st') = take off (rq_mem st)"
    by (simp_all add: sd_card.rd_data_def [OF assms(1)])
  have c: "aborted st' = 0 \<longrightarrow> cmd_reversed (rq_cmd st') = cnt" using s(3) by (simp add: word_unat_eq_iff)
  have "signalled (mx_sio2_start_rx_dma port off (setup_cmd off cnt st))"
    using assms(2) by (simp add: signalled_def setup_cmd_def mx_sio2_start_rx_dma_def)
  moreover have "read_events port (mx_sio2_start_rx_dma port off (setup_cmd off cnt st)) = Some st'"
    using s(1) by (auto simp: spisd_read_multi_do_def bind_eq_Some_conv)
  ultimately have e: "aborted st' \<noteq> 0 \<and> cmd_response (rq_cmd st') = 0 \<longrightarrow> gave_up st'"
    "(\<forall>h. 0 < fst (sio_irqs port h)) \<and> cmd_response (rq_cmd st') = 0 \<longrightarrow> aborted st' = 0"
    using read_events_signalled by blast+
  show ?thesis using s(1) d c e by (intro exI [of _ "cmd_reversed (rq_cmd st')"] exI [of _ st']) (auto simp: gave_up_def ev_bits)
qed

theorem read_event_not_lost_witness:
  "\<exists>res st'. spisd_read_multi_do demo_port 0 2 (demo_req 1 (ReadBlk 3)) = Some (res, st')
     \<and> (cmd_abort (rq_cmd st') = 0 \<longrightarrow> res = 2 \<and> sec (rq_mem st') 0 1 = replicate 512 4)
     \<and> (cmd_response (rq_cmd st') = SPISD_RESULT_OK \<longrightarrow> cmd_abort (rq_cmd st') = 0 \<and> res = 2)"
proof -
  have "sd_card demo_port sim_phase sim_disk True sim_times" by (rule sim.sd_card_axioms)
  from read_event_not_lost [OF this, of "demo_req 1 (ReadBlk 3)" 3 0 2] obtain res st' where
    "spisd_read_multi_do demo_port 0 2 (demo_req 1 (ReadBlk 3)) = Some (res, st')"
    "\<forall>i < unat res. sec (rq_mem st') 0 i = replicate 512 (of_nat (3 + i))" "cmd_abort (rq_cmd st') = 0 \<longrightarrow> res = 2"
    "cmd_response (rq_cmd st') = SPISD_RESULT_OK \<longrightarrow> cmd_abort (rq_cmd st') = 0 \<and> res = 2" by auto
  then show ?thesis by (intro exI [of _ res] exI [of _ st']) auto
qed

text \<open>C35. A card that \<open>spisd_init_card\<close> accepts is addressed in its own unit and awaits a command, whatever went before on
  the bus, and initialising or recovering a card changes no block of it.\<close>

theorem init_card_addresses:
  assumes "sd_card port phase disk hc tm" "safe (phase (sd_hw c))" "spisd_init_card port c = (r, c')"
  shows "safe (phase (sd_hw c')) \<and> disk (sd_hw c') = disk (sd_hw c)
    \<and> (r = SPISD_RESULT_OK \<longrightarrow> phase (sd_hw c') = Ready \<and> (sd_type c' = CARD_TYPE_SDV2HC \<longleftrightarrow> hc))"
  using sd_card.init_card_ok [OF assms(1,3,2)] assms(2)
  by (simp add: sd_card.keeps_def [OF assms(1)] sd_card.sd_ready_def [OF assms(1)] sd_card.type_ok_def [OF assms(1)])

theorem init_card_addresses_witness:
  "\<exists>r c'. spisd_init_card demo_port (demo_card Lost) = (r, c') \<and> (r = SPISD_RESULT_OK \<longrightarrow> sd_type c' = CARD_TYPE_SDV2HC)"
proof -
  obtain r c' where i: "spisd_init_card demo_port (demo_card Lost) = (r, c')" by fastforce
  have "sd_card demo_port sim_phase sim_disk True sim_times" by (rule sim.sd_card_axioms)
  from init_card_addresses [OF this _ i] i show ?thesis by (simp add: demo_card_def demo_sim_def sim_phase_def safe_def)
qed

text \<open>C22. What the block device manager is told follows \<open>sdcard.initialized\<close>: \<open>sd_detect\<close> connects the device only when it was
  not connected and disconnects it only when it was, so the notices alternate over any sequence of calls; a device that is
  connected is idle, addressed correctly and has a capacity, and no block changes.\<close>

theorem sd_detect_notices:
  assumes "sd_card port phase disk hc tm" "sd_detect port st = (ev, st')" "safe (phase (rq_hw st))" "rq_dma st = None"
    "sd_initialized (rq_card st) = 0 \<or> sd_initialized (rq_card st) = 1 \<and> sd_idle phase hc st"
  shows "(sd_initialized (rq_card st') = 0 \<or> sd_initialized (rq_card st') = 1 \<and> sd_idle phase hc st')
    \<and> safe (phase (rq_hw st')) \<and> rq_dma st' = None \<and> disk (rq_hw st') = disk (rq_hw st)
    \<and> ev = (if sd_initialized (rq_card st') = sd_initialized (rq_card st) then []
            else if sd_initialized (rq_card st') = 1 then [bdm_connect_bd_sd] else [bdm_disconnect_bd_sd])
    \<and> (ev = [bdm_connect_bd_sd] \<longrightarrow> sectorCount (sd_bd (rq_card st')) \<noteq> 0)"
proof -
  have "sd_initialized (rq_card st) = 0 \<or> sd_initialized (rq_card st) = 1 \<and> sd_card.type_ok hc (rq_card st)"
    using assms(5) by (auto simp: sd_idle_def sd_card.type_ok_def [OF assms(1)])
  from sd_card.detect_ok [OF assms(1-4) this] show ?thesis
    by (auto simp: sd_idle_def sd_card.type_ok_def [OF assms(1)])
qed

theorem sd_detect_notices_witness:
  "\<exists>ev st'. sd_detect demo_port (demo_req 0 Ready) = (ev, st') \<and> ev \<in> {[], [bdm_disconnect_bd_sd]}"
proof -
  obtain ev st' where d: "sd_detect demo_port (demo_req 0 Ready) = (ev, st')" by fastforce
  have "sd_card demo_port sim_phase sim_disk True sim_times" by (rule sim.sd_card_axioms)
  from sd_detect_notices [OF this d] demo_idle d show ?thesis by (auto simp: safe_def)
qed

end
