(* ===== verification/Ata_Command.thy ===== *)
theory Ata_Command
  imports Block_Device
begin

text \<open>
  The command engine of the ATA driver (\<open>__bdmhdd_assault/src/ps2atad.c\<close>) and what it uses of the DEV9 driver
  (\<open>ps2dev9.c\<close>): the registers of the drive and of the SPEED chip, the busy waits, \<open>sceAtaExecCmd\<close> with its command tables,
  programmed and DMA data transfer, \<open>sceAtaWaitResult\<close> and the commands without data. The build options are those of the
  \<open>Makefile\<close>: \<open>ATA_USE_DEV9\<close>, \<open>ATA_ENABLE_BDM\<close> and \<open>ATA_GAMESTAR_WORKAROUND\<close> on, the others off.
\<close>

section \<open>The hardware\<close>

text \<open>The registers of \<open>ata_hwport\<close>. \<open>R_feature\<close> reads as the error register, \<open>R_command\<close> as the status register (reading it
  acknowledges the interrupt), \<open>R_control\<close> as the alternate status.\<close>

datatype ata_reg = R_data | R_feature | R_nsector | R_sector | R_lcyl | R_hcyl | R_select | R_command | R_control

abbreviation (input) R_error :: ata_reg where "R_error \<equiv> R_feature"
abbreviation (input) R_status :: ata_reg where "R_status \<equiv> R_command"

text \<open>The registers of the SPEED chip the two drivers use; \<open>SPD_R_DBUF\<close> is the one written as \<open>0x38\<close> in the source
  (the number of 512-byte blocks the DMA buffer can move), \<open>SPD_R_20\<close> the one written as \<open>0x20\<close>.\<close>

datatype spd_reg = SPD_R_REV_1 | SPD_R_REV_3 | SPD_R_REV_8 | SPD_R_20 | SPD_R_DMA_CTRL | SPD_R_INTR_STAT | SPD_R_INTR_MASK
  | SPD_R_PIO_DIR | SPD_R_PIO_DATA | SPD_R_XFR_CTRL | SPD_R_DBUF | SPD_R_IF_CTRL | SPD_R_PIO_MODE | SPD_R_UDMA_MODE

text \<open>The interrupts that reach the driver: the drive or the DMA buffer (\<open>ata_intr_cb(0)\<close>), a changed card
  (\<open>ata_intr_cb(1)\<close>) and the alarm of the running command.\<close>

datatype ata_irq = Irq_ata | Irq_card | Irq_alarm

text \<open>
  The hardware and the kernel services are a parameter. \<open>k_wait\<close> blocks the thread and returns the interrupts taken since the
  last wait, in order; \<open>k_set_alarm\<close> and \<open>k_sema\<close> return the result of \<open>SetAlarm\<close> and of \<open>WaitSema\<close> on the DMA lock;
  \<open>dma_in\<close> and \<open>dma_out\<close> program the DMA channel with a block count register and spin until the transfer is over. The last
  fields are constants of SDK headers that are not part of the repository.
\<close>

record 'h ata_port =
  ata_in :: "ata_reg \<Rightarrow> 'h \<Rightarrow> u16 \<times> 'h"
  ata_out :: "ata_reg \<Rightarrow> u16 \<Rightarrow> 'h \<Rightarrow> 'h"
  spd_in :: "spd_reg \<Rightarrow> 'h \<Rightarrow> u16 \<times> 'h"
  spd_out :: "spd_reg \<Rightarrow> u16 \<Rightarrow> 'h \<Rightarrow> 'h"
  k_delay :: "nat \<Rightarrow> 'h \<Rightarrow> 'h"
  k_wait :: "'h \<Rightarrow> ata_irq list \<times> 'h"
  k_set_alarm :: "bool \<Rightarrow> 'h \<Rightarrow> int \<times> 'h"
  k_cancel_alarm :: "'h \<Rightarrow> 'h"
  k_sema :: "'h \<Rightarrow> int \<times> 'h"
  k_signal :: "'h \<Rightarrow> 'h"
  dma_in :: "u32 \<Rightarrow> 'h \<Rightarrow> bytes \<times> 'h"
  dma_out :: "u32 \<Rightarrow> bytes \<Rightarrow> 'h \<Rightarrow> 'h"
  sce_codes :: "u8 list"
  SPD_INTR_ATA0 :: u16
  SPD_INTR_ATA :: u16
  SPD_IF_ATA_RESET :: u16
  SPD_IF_DMA_ENABLE :: u16
  SPD_CAPS_ATA :: u16
  SPD_CAPS_DVR :: u16

section \<open>The state of the driver\<close>

record ata_devinfo =
  di_exists :: bool
  has_packet :: nat
  total_sectors :: u32
  security_status :: u32
  di_lba48 :: bool
  total_sectors_lba48 :: u32

definition no_device :: ata_devinfo where
  "no_device = \<lparr>di_exists = False, has_packet = 0, total_sectors = 0, security_status = 0, di_lba48 = False, total_sectors_lba48 = 0\<rparr>"

record ata_cmd_state =
  cs_type :: u8
  cs_buf :: nat
  cs_blkcount :: u32
  cs_dir :: u16

text \<open>The static variables of the driver beside the hardware and the memory its buffers are in.\<close>

record 'h ata =
  at_hw :: 'h
  at_mem :: "nat \<Rightarrow> u8"
  at_evflg :: u32
  at_cmd :: ata_cmd_state
  at_devinfo :: "ata_devinfo list"
  at_dvrp :: bool
  at_gamestar :: bool
  dev9_has_dvr_capability :: bool

abbreviation (input) ATA_EV_TIMEOUT :: u32 where "ATA_EV_TIMEOUT \<equiv> 1"
abbreviation (input) ATA_EV_COMPLETE :: u32 where "ATA_EV_COMPLETE \<equiv> 2"
abbreviation (input) ATA_RES_ERR_NOTREADY :: int where "ATA_RES_ERR_NOTREADY \<equiv> - 501"
abbreviation (input) ATA_RES_ERR_TIMEOUT :: int where "ATA_RES_ERR_TIMEOUT \<equiv> - 502"
abbreviation (input) ATA_RES_ERR_IO :: int where "ATA_RES_ERR_IO \<equiv> - 503"
abbreviation (input) ATA_RES_ERR_NODATA :: int where "ATA_RES_ERR_NODATA \<equiv> - 504"
abbreviation (input) ATA_RES_ERR_NODEV :: int where "ATA_RES_ERR_NODEV \<equiv> - 505"
abbreviation (input) ATA_RES_ERR_CMD :: int where "ATA_RES_ERR_CMD \<equiv> - 506"
abbreviation (input) ATA_RES_ERR_ICRC :: int where "ATA_RES_ERR_ICRC \<equiv> - 510"

text \<open>Bytes at an address.\<close>

definition load_mem :: "(nat \<Rightarrow> u8) \<Rightarrow> nat \<Rightarrow> nat \<Rightarrow> bytes" where
  "load_mem m a n = map (\<lambda>i. m (a + i)) [0..<n]"

definition store_mem :: "(nat \<Rightarrow> u8) \<Rightarrow> nat \<Rightarrow> bytes \<Rightarrow> nat \<Rightarrow> u8" where
  "store_mem m a d i = (if a \<le> i \<and> i < a + length d then d ! (i - a) else m i)"

definition load_u16 :: "(nat \<Rightarrow> u8) \<Rightarrow> nat \<Rightarrow> u16" where
  "load_u16 m a = ucast (m a) OR push_bit 8 (ucast (m (a + 1)))"

definition set_ahw :: "'h \<Rightarrow> 'h ata \<Rightarrow> 'h ata" where "set_ahw h st = st\<lparr>at_hw := h\<rparr>"

section \<open>Services of the DEV9 driver\<close>

definition SpdIntrEnable :: "'h ata_port \<Rightarrow> u16 \<Rightarrow> 'h \<Rightarrow> 'h" where
  "SpdIntrEnable port m h = (case spd_in port SPD_R_INTR_MASK h of (v, h) \<Rightarrow> spd_out port SPD_R_INTR_MASK (v OR m) h)"

definition SpdIntrDisable :: "'h ata_port \<Rightarrow> u16 \<Rightarrow> 'h \<Rightarrow> 'h" where
  "SpdIntrDisable port m h = (case spd_in port SPD_R_INTR_MASK h of (v, h) \<Rightarrow> spd_out port SPD_R_INTR_MASK (v AND NOT m) h)"

definition SpdSetLED :: "'h ata_port \<Rightarrow> bool \<Rightarrow> bool \<Rightarrow> 'h \<Rightarrow> 'h" where
  "SpdSetLED port dvr ctl h =
     (if dvr then
        case spd_in port SPD_R_PIO_DIR h of (d, h) \<Rightarrow>
        case spd_in port SPD_R_PIO_DATA (spd_out port SPD_R_PIO_DIR (d OR 1) h) of (v, h) \<Rightarrow>
          spd_out port SPD_R_PIO_DATA ((v AND 0xE) OR (if ctl then 0 else 1)) h
      else spd_out port SPD_R_PIO_DATA (if ctl then 0 else 1) h)"

text \<open>The callbacks around a transfer (\<open>ata_pre_dma_cb\<close>, \<open>ata_post_dma_cb\<close>); they are registered unless the adaptor needs
  the GameStar workaround.\<close>

definition ata_pre_dma_cb :: "'h ata_port \<Rightarrow> 'h \<Rightarrow> 'h" where
  "ata_pre_dma_cb port h = (case spd_in port SPD_R_XFR_CTRL h of (v, h) \<Rightarrow> spd_out port SPD_R_XFR_CTRL (v OR 0x80) h)"

definition ata_post_dma_cb :: "'h ata_port \<Rightarrow> 'h \<Rightarrow> 'h" where
  "ata_post_dma_cb port h = (case spd_in port SPD_R_XFR_CTRL h of (v, h) \<Rightarrow> spd_out port SPD_R_XFR_CTRL (v AND NOT 0x80) h)"

definition dma_chan :: "'h ata_port \<Rightarrow> u32 \<Rightarrow> nat \<Rightarrow> u16 \<Rightarrow> nat \<Rightarrow> (nat \<Rightarrow> u8) \<Rightarrow> 'h \<Rightarrow> (nat \<Rightarrow> u8) \<times> 'h" where
  "dma_chan port bcr buf dir nbytes mem h =
     (if dir AND 1 = 1 then (mem, dma_out port bcr (load_mem mem buf nbytes) h)
      else case dma_in port bcr h of (d, h) \<Rightarrow> (store_mem mem buf d, h))"

text \<open>\<open>SpdDmaTransfer\<close> for device 0: the number of bytes the channel moves is what the block count register says,
  \<open>bcr_bytes\<close>.\<close>

definition bcr_bytes :: "u32 \<Rightarrow> nat" where
  "bcr_bytes bcr = unat (drop_bit 16 bcr) * (unat (bcr AND 0xFFFF) * 4)"

definition SpdDmaTransfer :: "'h ata_port \<Rightarrow> nat \<Rightarrow> u32 \<Rightarrow> u16 \<Rightarrow> 'h ata \<Rightarrow> int \<times> 'h ata" where
  "SpdDmaTransfer port buf bcr dir st =
     (case k_sema port (at_hw st) of (res, h) \<Rightarrow>
        if res < 0 then (res, set_ahw h st) else
        case spd_in port SPD_R_REV_1 h of (spdrev, h) \<Rightarrow>
        let h = spd_out port SPD_R_DMA_CTRL (if spdrev < 17 then 0x04 else 0x06) h;
            h = (if at_gamestar st then h else ata_pre_dma_cb port h);
            (mem, h) = dma_chan port bcr buf dir (bcr_bytes bcr) (at_mem st) h;
            h = (if at_gamestar st then h else ata_post_dma_cb port h)
        in (0, (set_ahw (k_signal port h) st)\<lparr>at_mem := mem\<rparr>))"

section \<open>Interrupts and the event flag\<close>

definition ata_intr_cb :: "'h ata_port \<Rightarrow> bool \<Rightarrow> 'h ata \<Rightarrow> 'h ata" where
  "ata_intr_cb port flag st =
     (if flag then st\<lparr>at_devinfo := [no_device, no_device]\<rparr>
      else (set_ahw (SpdIntrDisable port (SPD_INTR_ATA port) (at_hw st)) st)\<lparr>at_evflg := at_evflg st OR ATA_EV_COMPLETE\<rparr>)"

definition ata_alarm_cb :: "'h ata \<Rightarrow> 'h ata" where
  "ata_alarm_cb st = st\<lparr>at_evflg := at_evflg st OR ATA_EV_TIMEOUT\<rparr>"

definition run_irq :: "'h ata_port \<Rightarrow> ata_irq \<Rightarrow> 'h ata \<Rightarrow> 'h ata" where
  "run_irq port q st = (case q of Irq_ata \<Rightarrow> ata_intr_cb port False st | Irq_card \<Rightarrow> ata_intr_cb port True st | Irq_alarm \<Rightarrow> ata_alarm_cb st)"

text \<open>\<open>WaitEventFlag\<close> for either bit, clearing the flag; a wait that no interrupt ends does not return (None).\<close>

definition wait_ev :: "'h ata_port \<Rightarrow> 'h ata \<Rightarrow> (u32 \<times> 'h ata) option" where
  "wait_ev port st =
     (case k_wait port (at_hw st) of (qs, h) \<Rightarrow>
      let st = fold (run_irq port) qs (set_ahw h st) in
      if at_evflg st AND (ATA_EV_TIMEOUT OR ATA_EV_COMPLETE) = 0 then None else Some (at_evflg st, st\<lparr>at_evflg := 0\<rparr>))"

section \<open>Waiting and selecting\<close>

definition sceAtaGetError :: "'h ata_port \<Rightarrow> 'h \<Rightarrow> u16 \<times> 'h" where
  "sceAtaGetError port h = (case ata_in port R_error h of (v, h) \<Rightarrow> (v AND 0xFF, h))"

text \<open>\<open>gen_ata_wait_busy\<close>: 80 polls, with longer and longer delays; the counter is the number of polls left.\<close>

definition busy_delay :: "nat \<Rightarrow> nat" where
  "busy_delay didx = (if didx = 1 then 100 else if didx = 2 then 1000 else if didx = 3 then 10000 else if didx = 4 then 100000 else 1000000)"

fun wait_busy_loop :: "'h ata_port \<Rightarrow> u16 \<Rightarrow> nat \<Rightarrow> 'h \<Rightarrow> int \<times> 'h" where
  "wait_busy_loop port bits 0 h = (ATA_RES_ERR_TIMEOUT, h)"
| "wait_busy_loop port bits (Suc n) h =
     (case ata_in port R_control h of (v, h) \<Rightarrow>
        if v AND bits = 0 then (0, h)
        else let didx = (79 - n) div 10 in
             wait_busy_loop port bits n (if didx = 0 then h else k_delay port (busy_delay didx) h))"

definition gen_ata_wait_busy :: "'h ata_port \<Rightarrow> u16 \<Rightarrow> 'h \<Rightarrow> int \<times> 'h" where
  "gen_ata_wait_busy port bits h = wait_busy_loop port bits 80 h"

definition ata_wait_busy :: "'h ata_port \<Rightarrow> 'h \<Rightarrow> int \<times> 'h" where
  "ata_wait_busy port = gen_ata_wait_busy port 0x80"

definition ata_wait_bus_busy :: "'h ata_port \<Rightarrow> 'h \<Rightarrow> int \<times> 'h" where
  "ata_wait_bus_busy port = gen_ata_wait_busy port 0x88"

definition ata_device_select :: "'h ata_port \<Rightarrow> u16 \<Rightarrow> 'h \<Rightarrow> int \<times> 'h" where
  "ata_device_select port device h =
     (case ata_wait_bus_busy port h of (res, h) \<Rightarrow>
        if res < 0 then (res, h) else
        case ata_in port R_select h of (s, h) \<Rightarrow>
        if drop_bit 4 s AND 1 = device then (0, h) else
        let h = ata_out port R_select (push_bit 4 (device AND 1)) h;
            h = snd (ata_in port R_control h);
            h = snd (ata_in port R_control h)
        in ata_wait_bus_busy port h)"

section \<open>Commands\<close>

abbreviation (input) ATA_C_DEVICE_RESET :: u16 where "ATA_C_DEVICE_RESET \<equiv> 0x08"
abbreviation (input) ATA_C_READ_DMA_EXT :: u16 where "ATA_C_READ_DMA_EXT \<equiv> 0x25"
abbreviation (input) ATA_C_WRITE_DMA_EXT :: u16 where "ATA_C_WRITE_DMA_EXT \<equiv> 0x35"
abbreviation (input) ATA_C_SCE_SECURITY_CONTROL :: u16 where "ATA_C_SCE_SECURITY_CONTROL \<equiv> 0x8E"
abbreviation (input) ATA_C_EXECUTE_DEVICE_DIAGNOSTIC :: u16 where "ATA_C_EXECUTE_DEVICE_DIAGNOSTIC \<equiv> 0x90"
abbreviation (input) ATA_C_INITIALIZE_DEVICE_PARAMETERS :: u16 where "ATA_C_INITIALIZE_DEVICE_PARAMETERS \<equiv> 0x91"
abbreviation (input) ATA_C_PACKET :: u16 where "ATA_C_PACKET \<equiv> 0xA0"
abbreviation (input) ATA_C_IDENTIFY_PACKET_DEVICE :: u16 where "ATA_C_IDENTIFY_PACKET_DEVICE \<equiv> 0xA1"
abbreviation (input) ATA_C_SMART :: u16 where "ATA_C_SMART \<equiv> 0xB0"
abbreviation (input) ATA_C_READ_DMA :: u16 where "ATA_C_READ_DMA \<equiv> 0xC8"
abbreviation (input) ATA_C_WRITE_DMA :: u16 where "ATA_C_WRITE_DMA \<equiv> 0xCA"
abbreviation (input) ATA_C_STANDBY_IMMEDIATE :: u16 where "ATA_C_STANDBY_IMMEDIATE \<equiv> 0xE0"
abbreviation (input) ATA_C_IDLE_IMMEDIATE :: u16 where "ATA_C_IDLE_IMMEDIATE \<equiv> 0xE1"
abbreviation (input) ATA_C_IDLE :: u16 where "ATA_C_IDLE \<equiv> 0xE3"
abbreviation (input) ATA_C_FLUSH_CACHE :: u16 where "ATA_C_FLUSH_CACHE \<equiv> 0xE7"
abbreviation (input) ATA_C_FLUSH_CACHE_EXT :: u16 where "ATA_C_FLUSH_CACHE_EXT \<equiv> 0xEA"
abbreviation (input) ATA_C_IDENTIFY_DEVICE :: u16 where "ATA_C_IDENTIFY_DEVICE \<equiv> 0xEC"
abbreviation (input) ATA_C_SET_FEATURES :: u16 where "ATA_C_SET_FEATURES \<equiv> 0xEF"

text \<open>The command table, in the order of the source, with the codes of the ATA standard. The low bits of the type are the
  protocol (1: no data, 2: data in, 3: data out, 4: DMA, 5: reset, 6: diagnostic, 7: sub-command, 8: long write), bit 7 marks
  the commands whose registers are 16 bits wide.\<close>

definition ata_cmd_table :: "(u8 \<times> u8) list" where
  "ata_cmd_table =
     [(0x00, 1), (0x03, 1), (0x08, 5), (0x20, 2), (0x24, 0x82), (0x25, 0x84), (0x27, 0x81), (0x29, 0x82),
      (0x30, 3), (0x32, 8), (0x34, 0x83), (0x35, 0x84), (0x37, 0x81), (0x38, 3), (0x39, 0x83), (0x40, 1), (0x42, 0x81),
      (0x70, 1), (0x87, 2), (0x8E, 7), (0x90, 6), (0x91, 1), (0x92, 3), (0xA1, 2), (0xB0, 7), (0xC0, 1), (0xC4, 2),
      (0xC5, 3), (0xC6, 1), (0xC8, 4), (0xCA, 4), (0xCD, 3), (0xDA, 1), (0xDE, 1), (0xDF, 1), (0xE0, 1), (0xE1, 1),
      (0xE2, 1), (0xE3, 1), (0xE4, 2), (0xE5, 1), (0xE6, 1), (0xE7, 1), (0xE8, 3), (0xEA, 1), (0xEC, 2), (0xED, 1),
      (0xEF, 1), (0xF1, 3), (0xF2, 3), (0xF3, 1), (0xF4, 3), (0xF5, 1), (0xF6, 3), (0xF8, 1), (0xF9, 1)]"

definition sec_ctrl_cmd_table :: "'h ata_port \<Rightarrow> (u8 \<times> u8) list" where
  "sec_ctrl_cmd_table port = zip (sce_codes port) [2, 1, 1, 1, 3, 3, 3, 2]"

definition smart_cmd_table :: "(u8 \<times> u8) list" where
  "smart_cmd_table = [(0xD0, 2), (0xD2, 1), (0xD3, 1), (0xD4, 1), (0xD5, 2), (0xD6, 3), (0xD8, 1), (0xD9, 1), (0xDA, 1)]"

definition cmd_type :: "'h ata_port \<Rightarrow> u16 \<Rightarrow> u16 \<Rightarrow> u8" where
  "cmd_type port feature command =
     (let (tab, searchcmd) =
        (if command = ATA_C_SCE_SECURITY_CONTROL then (sec_ctrl_cmd_table port, ucast feature)
         else if command = ATA_C_SMART then (smart_cmd_table, ucast feature)
         else (ata_cmd_table, ucast command))
      in case map_of tab searchcmd of None \<Rightarrow> 0 | Some t \<Rightarrow> t)"

text \<open>The register writes at the end of \<open>sceAtaExecCmd\<close>.\<close>

definition send_task_file :: "'h ata_port \<Rightarrow> u8 \<Rightarrow> bool \<Rightarrow> u16 \<Rightarrow> u16 \<Rightarrow> u16 \<Rightarrow> u16 \<Rightarrow> u16 \<Rightarrow> u16 \<Rightarrow> u16 \<Rightarrow> 'h \<Rightarrow> 'h" where
  "send_task_file port typ using_timeout feature nsector sector lcyl hcyl select command h =
     (let h = ata_out port R_control (if using_timeout then 0 else 2) h;
          h = (if typ AND 0x80 \<noteq> 0 then
                 let h = ata_out port R_feature (drop_bit 8 feature AND 0xFF) h;
                     h = ata_out port R_nsector (drop_bit 8 nsector AND 0xFF) h;
                     h = ata_out port R_sector (drop_bit 8 sector AND 0xFF) h;
                     h = ata_out port R_lcyl (drop_bit 8 lcyl AND 0xFF) h
                 in ata_out port R_hcyl (drop_bit 8 hcyl AND 0xFF) h
               else h);
          h = ata_out port R_feature (feature AND 0xFF) h;
          h = ata_out port R_nsector (nsector AND 0xFF) h;
          h = ata_out port R_sector (sector AND 0xFF) h;
          h = ata_out port R_lcyl (lcyl AND 0xFF) h;
          h = ata_out port R_hcyl (hcyl AND 0xFF) h;
          h = ata_out port R_select ((select OR 0x40) AND 0xFF) h
      in ata_out port R_command (command AND 0xFF) h)"

text \<open>The commands that are sent to a drive that is not ready.\<close>

definition needs_no_ready :: "u16 \<Rightarrow> bool" where
  "needs_no_ready command \<longleftrightarrow>
     command \<in> {ATA_C_DEVICE_RESET, ATA_C_EXECUTE_DEVICE_DIAGNOSTIC, ATA_C_INITIALIZE_DEVICE_PARAMETERS, ATA_C_PACKET,
                ATA_C_IDENTIFY_PACKET_DEVICE}"

text \<open>The timeout, the interrupt and the registers: \<open>sceAtaExecCmd\<close> from the check of the ready bit on.\<close>

definition exec_start :: "'h ata_port \<Rightarrow> u8 \<Rightarrow> u16 \<Rightarrow> u16 \<Rightarrow> u16 \<Rightarrow> u16 \<Rightarrow> u16 \<Rightarrow> u16 \<Rightarrow> u16 \<Rightarrow> 'h ata \<Rightarrow> int \<times> 'h ata" where
  "exec_start port typ feature nsector sector lcyl hcyl select command st =
     (let p = typ AND 0x7F;
          using_timeout = (p = 1 \<or> p = 6 \<or> p = 4);
          st = (if p = 4
                then st\<lparr>at_cmd := (at_cmd st)\<lparr>cs_dir := if command \<noteq> ATA_C_READ_DMA \<and> command \<noteq> ATA_C_READ_DMA_EXT then 1 else 0\<rparr>\<rparr>
                else st);
          erase = (command = ATA_C_SCE_SECURITY_CONTROL \<and> feature = ucast (sce_codes port ! 2));
          (res, h) = (if using_timeout then k_set_alarm port erase (at_hw st) else (0, at_hw st))
      in if res < 0 then (res, set_ahw h st)
         else let h = (if p = 1 then SpdIntrEnable port (SPD_INTR_ATA0 port) h else h);
                  h = send_task_file port typ using_timeout feature nsector sector lcyl hcyl select command h
              in (0, set_ahw (SpdSetLED port (dev9_has_dvr_capability st) True h) st))"

definition sceAtaExecCmd ::
  "'h ata_port \<Rightarrow> nat \<Rightarrow> u32 \<Rightarrow> u16 \<Rightarrow> u16 \<Rightarrow> u16 \<Rightarrow> u16 \<Rightarrow> u16 \<Rightarrow> u16 \<Rightarrow> u16 \<Rightarrow> 'h ata \<Rightarrow> int \<times> 'h ata" where
  "sceAtaExecCmd port buf blkcount feature nsector sector lcyl hcyl select command st =
     (let device = drop_bit 4 select AND 1;
          st = st\<lparr>at_evflg := 0\<rparr>
      in if \<not> di_exists (at_devinfo st ! unat device) then (ATA_RES_ERR_NODEV, st) else
      case ata_device_select port device (at_hw st) of (res, h) \<Rightarrow>
      if res \<noteq> 0 then (res, set_ahw h st) else
      let typ = cmd_type port feature command;
          st = (set_ahw h st)\<lparr>at_cmd := (at_cmd st)\<lparr>cs_type := typ AND 0x7F\<rparr>\<rparr>
      in if typ AND 0x7F = 0 then (ATA_RES_ERR_CMD, st) else
      let st = st\<lparr>at_cmd := (at_cmd st)\<lparr>cs_buf := buf, cs_blkcount := blkcount\<rparr>\<rparr>;
          (ctl, h) = ata_in port R_control (at_hw st);
          st = set_ahw h st
      in if ctl AND 0x40 = 0 \<and> \<not> needs_no_ready command then (ATA_RES_ERR_NOTREADY, st)
         else exec_start port typ feature nsector sector lcyl hcyl select command st)"

section \<open>Data\<close>

fun pio_out16 :: "'h ata_port \<Rightarrow> nat \<Rightarrow> 'h ata \<Rightarrow> 'h ata" where
  "pio_out16 port 0 st = st"
| "pio_out16 port (Suc n) st =
     (let b = cs_buf (at_cmd st) in
      pio_out16 port n ((set_ahw (ata_out port R_data (load_u16 (at_mem st) b) (at_hw st)) st)\<lparr>at_cmd := (at_cmd st)\<lparr>cs_buf := b + 2\<rparr>\<rparr>))"

fun pio_out8 :: "'h ata_port \<Rightarrow> nat \<Rightarrow> 'h ata \<Rightarrow> 'h ata" where
  "pio_out8 port 0 st = st"
| "pio_out8 port (Suc n) st =
     (let b = cs_buf (at_cmd st) in
      pio_out8 port n ((set_ahw (ata_out port R_data (ucast (at_mem st b)) (at_hw st)) st)\<lparr>at_cmd := (at_cmd st)\<lparr>cs_buf := b + 1\<rparr>\<rparr>))"

fun pio_in16 :: "'h ata_port \<Rightarrow> nat \<Rightarrow> 'h ata \<Rightarrow> 'h ata" where
  "pio_in16 port 0 st = st"
| "pio_in16 port (Suc n) st =
     (let b = cs_buf (at_cmd st); (v, h) = ata_in port R_data (at_hw st) in
      pio_in16 port n ((set_ahw h st)\<lparr>at_mem := store_mem (at_mem st) b [ucast v, ucast (drop_bit 8 v)],
                                      at_cmd := (at_cmd st)\<lparr>cs_buf := b + 2\<rparr>\<rparr>))"

definition ata_pio_transfer :: "'h ata_port \<Rightarrow> 'h ata \<Rightarrow> int \<times> 'h ata" where
  "ata_pio_transfer port st =
     (case ata_in port R_status (at_hw st) of (v, h) \<Rightarrow>
      let status = v AND 0xFF; typ = cs_type (at_cmd st) in
      if status AND 0x01 \<noteq> 0 then (ATA_RES_ERR_IO, set_ahw (snd (sceAtaGetError port h)) st)
      else if status AND 0x08 = 0 then (ATA_RES_ERR_NODATA, set_ahw h st)
      else let st = set_ahw h st in
        (0, if typ = 3 \<or> typ = 8 then (if typ = 8 then pio_out8 port 4 (pio_out16 port 256 st) else pio_out16 port 256 st)
            else if typ = 2 then pio_in16 port 256 st else st))"

text \<open>The loop of \<open>sceAtaWaitResult\<close> over the programmed blocks; the counter is \<open>blkcount\<close>.\<close>

fun pio_loop :: "'h ata_port \<Rightarrow> nat \<Rightarrow> 'h ata \<Rightarrow> int \<times> 'h ata" where
  "pio_loop port n st =
     (let st = st\<lparr>at_cmd := (at_cmd st)\<lparr>cs_blkcount := of_nat n - 1\<rparr>\<rparr> in
      case n of 0 \<Rightarrow> (0, st)
      | Suc n \<Rightarrow>
          (case ata_pio_transfer port st of (res, st) \<Rightarrow>
             if res < 0 then (res, st) else
             case ata_wait_busy port (at_hw st) of (res, h) \<Rightarrow>
             if res < 0 then (res, set_ahw h st) else pio_loop port n (set_ahw h st)))"

declare pio_loop.simps [simp del]

text \<open>\<open>ata_dma_complete\<close>: the first polls of the DMA buffer, then a wait; None when no interrupt and no data ever come.\<close>

fun poll_dbuf :: "'h ata_port \<Rightarrow> nat \<Rightarrow> 'h \<Rightarrow> u16 \<times> 'h" where
  "poll_dbuf port 0 h = (0, h)"
| "poll_dbuf port (Suc n) h =
     (case spd_in port SPD_R_DBUF h of (v, h) \<Rightarrow> if v AND 0x1F \<noteq> 0 then (v AND 0x1F, h) else poll_dbuf port n h)"

definition dma_error :: "'h ata_port \<Rightarrow> 'h \<Rightarrow> int \<times> 'h" where
  "dma_error port h =
     (let h = snd (ata_in port R_status h);
          h = snd (sceAtaGetError port h);
          (e, h) = sceAtaGetError port h
      in (if e AND 0x80 \<noteq> 0 then ATA_RES_ERR_ICRC else ATA_RES_ERR_IO, h))"

datatype 'h dma_next = Transfer u16 "'h ata" | Again "'h ata" | Stop int "'h ata"

text \<open>One round up to the label \<open>next_transfer\<close>: transfer the given number of blocks, start over, or return.\<close>

definition dma_round :: "'h ata_port \<Rightarrow> 'h ata \<Rightarrow> 'h dma_next option" where
  "dma_round port st =
     (case poll_dbuf port 20 (at_hw st) of (dma_stat, h) \<Rightarrow>
        if dma_stat \<noteq> 0 then Some (Transfer dma_stat (set_ahw h st)) else
        case wait_ev port (set_ahw (SpdIntrEnable port (SPD_INTR_ATA port) h) st) of
          None \<Rightarrow> None
        | Some (bits, st) \<Rightarrow>
            if bits AND ATA_EV_TIMEOUT \<noteq> 0 then Some (Stop ATA_RES_ERR_TIMEOUT st) else
            case spd_in port SPD_R_INTR_STAT (at_hw st) of (v, h) \<Rightarrow>
            if v AND 0x02 = 0 then
              case ata_in port R_control h of (c, h) \<Rightarrow>
                if c AND 0x01 \<noteq> 0 then case dma_error port h of (res, h) \<Rightarrow> Some (Stop res (set_ahw h st))
                else Some (Again (set_ahw h st))
            else case spd_in port SPD_R_DBUF h of (v, h) \<Rightarrow> Some (Transfer (v AND 0x1F) (set_ahw h st)))"

partial_function (option) ata_dma_complete :: "'h ata_port \<Rightarrow> nat \<Rightarrow> u32 \<Rightarrow> u16 \<Rightarrow> 'h ata \<Rightarrow> (int \<times> 'h ata) option" where
  "ata_dma_complete port buf blkcount dir st =
     (if blkcount = 0 then Some (0, st) else
      case dma_round port st of
        None \<Rightarrow> None
      | Some (Stop res st) \<Rightarrow> Some (res, st)
      | Some (Again st) \<Rightarrow> ata_dma_complete port buf blkcount dir st
      | Some (Transfer dma_stat st) \<Rightarrow>
          (let count = (if blkcount < ucast dma_stat then blkcount else ucast dma_stat);
               nbytes = count * 512;
               (res, st) = SpdDmaTransfer port buf (push_bit 9 nbytes OR 32) dir st
           in if res < 0 then Some (res, st)
              else ata_dma_complete port (buf + unat nbytes) (blkcount - count) dir st))"

declare ata_dma_complete.simps [code]

section \<open>Waiting for the result\<close>

fun poll_intr :: "'h ata_port \<Rightarrow> nat \<Rightarrow> 'h \<Rightarrow> bool \<times> 'h" where
  "poll_intr port 0 h = (False, h)"
| "poll_intr port (Suc n) h =
     (case spd_in port SPD_R_INTR_STAT h of (v, h) \<Rightarrow> if v AND 0x01 \<noteq> 0 then (True, h) else poll_intr port n h)"

definition dma_end :: "'h ata_port \<Rightarrow> 'h ata \<Rightarrow> (int \<times> 'h ata) option" where
  "dma_end port st =
     (case poll_intr port 100 (at_hw st) of (stat, h) \<Rightarrow>
        if stat then Some (0, set_ahw h st) else
        case wait_ev port (set_ahw (SpdIntrEnable port (SPD_INTR_ATA0 port) h) st) of
          None \<Rightarrow> None
        | Some (bits, st) \<Rightarrow>
            if bits AND ATA_EV_TIMEOUT \<noteq> 0 then
              (let h = snd (spd_in port SPD_R_DBUF (at_hw st));
                   h = snd (spd_in port SPD_R_INTR_STAT h);
                   h = snd (spd_in port SPD_R_INTR_MASK h)
               in Some (ATA_RES_ERR_TIMEOUT, set_ahw h st))
            else Some (0, st))"

text \<open>The check of the status register after the data.\<close>

definition wait_status :: "'h ata_port \<Rightarrow> 'h \<Rightarrow> int \<times> 'h" where
  "wait_status port h =
     (let (s, h) = ata_in port R_status h;
          (res, h) = (if s AND 0x80 \<noteq> 0 then ata_wait_busy port h else (0, h));
          (stat, h) = ata_in port R_status h
      in if stat AND 0x01 \<noteq> 0 then
           let h = snd (sceAtaGetError port h); (e, h) = sceAtaGetError port h
           in (if e AND 0x80 \<noteq> 0 then ATA_RES_ERR_ICRC else ATA_RES_ERR_IO, h)
         else (res, h))"

text \<open>The label \<open>finish\<close>.\<close>

definition wait_finish :: "'h ata_port \<Rightarrow> int \<times> 'h ata \<Rightarrow> int \<times> 'h ata" where
  "wait_finish port r =
     (case r of (res, st) \<Rightarrow> (res, set_ahw (SpdSetLED port (dev9_has_dvr_capability st) False (k_cancel_alarm port (at_hw st))) st))"

definition wait_dma :: "'h ata_port \<Rightarrow> 'h ata \<Rightarrow> (int \<times> 'h ata) option" where
  "wait_dma port st =
     (case ata_dma_complete port (cs_buf (at_cmd st)) (cs_blkcount (at_cmd st)) (cs_dir (at_cmd st)) st of
        None \<Rightarrow> None
      | Some (res, st) \<Rightarrow> if res < 0 then Some (res, st) else dma_end port st)"

definition wait_pio :: "'h ata_port \<Rightarrow> 'h ata \<Rightarrow> int \<times> 'h ata" where
  "wait_pio port st =
     (let h = snd (ata_in port R_control (at_hw st)); (res, h) = ata_wait_busy port h; st = set_ahw h st
      in if res < 0 then (res, st) else pio_loop port (unat (cs_blkcount (at_cmd st))) st)"

definition wait_checked :: "'h ata_port \<Rightarrow> int \<times> 'h ata \<Rightarrow> int \<times> 'h ata" where
  "wait_checked port r =
     (case r of (res, st) \<Rightarrow>
        wait_finish port (if res \<noteq> 0 then (res, st) else case wait_status port (at_hw st) of (res, h) \<Rightarrow> (res, set_ahw h st)))"

definition sceAtaWaitResult :: "'h ata_port \<Rightarrow> 'h ata \<Rightarrow> (int \<times> 'h ata) option" where
  "sceAtaWaitResult port st =
     (let typ = cs_type (at_cmd st) in
      if typ = 1 \<or> typ = 6 then
        (case wait_ev port st of
           None \<Rightarrow> None
         | Some (bits, st) \<Rightarrow>
             if bits AND ATA_EV_TIMEOUT \<noteq> 0 then Some (ATA_RES_ERR_TIMEOUT, st) else Some (wait_checked port (0, st)))
      else if typ = 4 then (case wait_dma port st of None \<Rightarrow> None | Some r \<Rightarrow> Some (wait_checked port r))
      else Some (wait_checked port (wait_pio port st)))"

section \<open>Commands without data, resets\<close>

text \<open>The shape every such function has: execute, and wait when that succeeded.\<close>

definition exec_wait :: "'h ata_port \<Rightarrow> nat \<Rightarrow> u16 \<Rightarrow> u16 \<Rightarrow> u16 \<Rightarrow> u16 \<Rightarrow> u16 \<Rightarrow> u16 \<Rightarrow> 'h ata \<Rightarrow> (int \<times> 'h ata) option" where
  "exec_wait port buf feature nsector lcyl hcyl device command st =
     (case sceAtaExecCmd port buf 1 feature nsector 0 lcyl hcyl (push_bit 4 device) command st of (res, st) \<Rightarrow>
        if res \<noteq> 0 then Some (res, st) else sceAtaWaitResult port st)"

definition sceAtaFlushCache :: "'h ata_port \<Rightarrow> u16 \<Rightarrow> 'h ata \<Rightarrow> (int \<times> 'h ata) option" where
  "sceAtaFlushCache port device st =
     exec_wait port 0 0 0 0 0 device
       (if di_lba48 (at_devinfo st ! unat device) \<and> \<not> at_dvrp st then ATA_C_FLUSH_CACHE_EXT else ATA_C_FLUSH_CACHE) st"

definition sceAtaIdle :: "'h ata_port \<Rightarrow> u16 \<Rightarrow> u16 \<Rightarrow> 'h ata \<Rightarrow> (int \<times> 'h ata) option" where
  "sceAtaIdle port device period = exec_wait port 0 0 (period AND 0xFF) 0 0 device ATA_C_IDLE"

definition ata_device_identify :: "'h ata_port \<Rightarrow> u16 \<Rightarrow> nat \<Rightarrow> 'h ata \<Rightarrow> (int \<times> 'h ata) option" where
  "ata_device_identify port device info = exec_wait port info 0 0 0 0 device ATA_C_IDENTIFY_DEVICE"

definition ata_device_pkt_identify :: "'h ata_port \<Rightarrow> u16 \<Rightarrow> nat \<Rightarrow> 'h ata \<Rightarrow> (int \<times> 'h ata) option" where
  "ata_device_pkt_identify port device info = exec_wait port info 0 0 0 0 device ATA_C_IDENTIFY_PACKET_DEVICE"

definition ata_device_smart_enable :: "'h ata_port \<Rightarrow> u16 \<Rightarrow> 'h ata \<Rightarrow> (int \<times> 'h ata) option" where
  "ata_device_smart_enable port device = exec_wait port 0 0xD8 0 0x4F 0xC2 device ATA_C_SMART"

definition sceAtaIdleImmediate :: "'h ata_port \<Rightarrow> u16 \<Rightarrow> 'h ata \<Rightarrow> (int \<times> 'h ata) option" where
  "sceAtaIdleImmediate port device = exec_wait port 0 0 0 0 0 device ATA_C_IDLE_IMMEDIATE"

definition ata_device_standby_immediate :: "'h ata_port \<Rightarrow> u16 \<Rightarrow> 'h ata \<Rightarrow> (int \<times> 'h ata) option" where
  "ata_device_standby_immediate port device = exec_wait port 0 0 0 0 0 device ATA_C_STANDBY_IMMEDIATE"

definition sceAtaSmartSaveAttr :: "'h ata_port \<Rightarrow> u16 \<Rightarrow> 'h ata \<Rightarrow> (int \<times> 'h ata) option" where
  "sceAtaSmartSaveAttr port device = exec_wait port 0 0xD3 0 0x4F 0xC2 device ATA_C_SMART"

definition sceAtaSmartReturnStatus :: "'h ata_port \<Rightarrow> u16 \<Rightarrow> 'h ata \<Rightarrow> (int \<times> 'h ata) option" where
  "sceAtaSmartReturnStatus port device st =
     (case exec_wait port 0 0xDA 0 0x4F 0xC2 device ATA_C_SMART st of
        None \<Rightarrow> None
      | Some (res, st) \<Rightarrow>
          if res \<noteq> 0 then Some (res, st) else
          case ata_in port R_lcyl (at_hw st) of (l, h) \<Rightarrow>
          if l AND 0xFF \<noteq> 0x4F then Some (1, set_ahw h st) else
          case ata_in port R_hcyl h of (c, h) \<Rightarrow>
          if c AND 0xFF \<noteq> 0xC2 then Some (1, set_ahw h st) else Some (0, set_ahw h st))"

definition sceAtaGetSceId :: "'h ata_port \<Rightarrow> u16 \<Rightarrow> nat \<Rightarrow> 'h ata \<Rightarrow> (int \<times> 'h ata) option" where
  "sceAtaGetSceId port device data = exec_wait port data (ucast (sce_codes port ! 0)) 0 0 0 device ATA_C_SCE_SECURITY_CONTROL"

definition ata_bus_reset :: "'h ata_port \<Rightarrow> 'h \<Rightarrow> int \<times> 'h" where
  "ata_bus_reset port h =
     (let h = k_delay port 100 (spd_out port SPD_R_IF_CTRL (SPD_IF_ATA_RESET port) h);
          h = spd_out port SPD_R_IF_CTRL 0 h;
          h = k_delay port 3000 (spd_out port SPD_R_IF_CTRL 0x48 h)
      in ata_wait_busy port h)"

definition sceAtaSoftReset :: "'h ata_port \<Rightarrow> 'h \<Rightarrow> int \<times> 'h" where
  "sceAtaSoftReset port h =
     (case ata_in port R_control h of (v, h) \<Rightarrow>
        if v AND 0x80 \<noteq> 0 then (ATA_RES_ERR_NOTREADY, h)
        else let h = k_delay port 100 (ata_out port R_control 6 h);
                 h = k_delay port 3000 (ata_out port R_control 2 h)
             in ata_wait_busy port h)"

text \<open>The timing registers of the transfer modes.\<close>

definition ata_pio_mode :: "'h ata_port \<Rightarrow> 'h \<Rightarrow> 'h" where
  "ata_pio_mode port h = spd_out port SPD_R_PIO_MODE 0x92 h"

definition ata_ultra_dma_mode :: "'h ata_port \<Rightarrow> nat \<Rightarrow> 'h \<Rightarrow> 'h" where
  "ata_ultra_dma_mode port mode h =
     (let v = (if mode = 1 then 0x85 else if mode = 2 then 0x63 else if mode = 3 then 0x62 else if mode = 4 then 0x61 else 0xA7);
          h = spd_out port SPD_R_UDMA_MODE v h;
          (c, h) = spd_in port SPD_R_IF_CTRL h
      in spd_out port SPD_R_IF_CTRL (c OR 0x49) h)"

abbreviation (input) ATA_XFER_MODE_PIO :: u16 where "ATA_XFER_MODE_PIO \<equiv> 0x08"
abbreviation (input) ATA_XFER_MODE_UDMA :: u16 where "ATA_XFER_MODE_UDMA \<equiv> 0x40"

definition ata_device_set_transfer_mode :: "'h ata_port \<Rightarrow> u16 \<Rightarrow> u16 \<Rightarrow> nat \<Rightarrow> 'h ata \<Rightarrow> (int \<times> 'h ata) option" where
  "ata_device_set_transfer_mode port device typ mode st =
     (case exec_wait port 0 3 ((typ OR of_nat mode) AND 0xFF) 0 0 device ATA_C_SET_FEATURES st of
        None \<Rightarrow> None
      | Some (res, st) \<Rightarrow>
          if res \<noteq> 0 then Some (res, st)
          else Some (0, set_ahw (if typ = ATA_XFER_MODE_UDMA then ata_ultra_dma_mode port mode (at_hw st)
                                 else if typ = ATA_XFER_MODE_PIO then ata_pio_mode port (at_hw st) else at_hw st) st))"

definition ata_set_dir :: "'h ata_port \<Rightarrow> bool \<Rightarrow> u16 \<Rightarrow> 'h \<Rightarrow> 'h" where
  "ata_set_dir port gamestar dir h =
     (let h = spd_out port SPD_R_DBUF 3 h;
          (v, h) = spd_in port SPD_R_IF_CTRL h;
          h = spd_out port SPD_R_IF_CTRL ((v AND 1) OR (if dir = 1 then 0x4C else 0x4E)) h
      in spd_out port SPD_R_XFR_CTRL (dir OR (if gamestar then 0x86 else 0x6)) h)"

end
