(* ===== verification/Ata_Io.thy ===== *)
theory Ata_Io
  imports Ata_Command
begin

text \<open>
  Sector transfers of the ATA driver (\<open>ata_device_sector_io64\<close>, \<open>ata_device_sector_io64_bdm_2\<close> of \<open>ps2atad.c\<close>): the split of
  a request into commands of 28- or 48-bit addresses, the three attempts for a transfer with a CRC error, and the four
  operations of the block device. Their loops are proved to agree on disks of 512-byte sectors.
\<close>

section \<open>One command\<close>

record io_regs =
  io_len :: u16
  io_sector :: u16
  io_lcyl :: u16
  io_hcyl :: u16
  io_select :: u16
  io_command :: u16

definition use_lba48 :: "'h ata \<Rightarrow> u16 \<Rightarrow> u64 \<Rightarrow> bool" where
  "use_lba48 st device lba =
     (let di = at_devinfo st ! unat device in di_lba48 di \<and> (if at_dvrp st then lba \<ge> ucast (total_sectors di) else True))"

text \<open>The length is a 16-bit variable: 65536 sectors are stored as 0.\<close>

definition io_setup :: "bool \<Rightarrow> u16 \<Rightarrow> u64 \<Rightarrow> u32 \<Rightarrow> u16 \<Rightarrow> io_regs" where
  "io_setup ext device lba nsectors dir =
     (if ext then
        \<lparr>io_len = ucast (if nsectors > 65536 then 65536 else nsectors),
         io_sector = ucast ((drop_bit 16 lba AND 0xFF00) OR (lba AND 0xFF)),
         io_lcyl = ucast ((drop_bit 24 lba AND 0xFF00) OR (drop_bit 8 lba AND 0xFF)),
         io_hcyl = ucast ((drop_bit 32 lba AND 0xFF00) OR (drop_bit 16 lba AND 0xFF)),
         io_select = push_bit 4 device,
         io_command = (if dir = 1 then ATA_C_WRITE_DMA_EXT else ATA_C_READ_DMA_EXT)\<rparr>
      else
        \<lparr>io_len = ucast (if nsectors > 256 then 256 else nsectors),
         io_sector = ucast (lba AND 0xFF),
         io_lcyl = ucast (drop_bit 8 lba AND 0xFF),
         io_hcyl = ucast (drop_bit 16 lba AND 0xFF),
         io_select = push_bit 4 device OR ucast (drop_bit 24 lba AND 0xF),
         io_command = (if dir = 1 then ATA_C_WRITE_DMA else ATA_C_READ_DMA)\<rparr>)"

section \<open>The two transfer functions\<close>

abbreviation (input) ATA_DIR_READ :: u16 where "ATA_DIR_READ \<equiv> 0"
abbreviation (input) ATA_DIR_WRITE :: u16 where "ATA_DIR_WRITE \<equiv> 1"

text \<open>\<open>ata_device_sector_io64\<close>: one attempt, and \<open>for (retries = 3; retries > 0; retries--)\<close>, in which only a CRC error is tried
  again.\<close>

definition io64_try :: "'h ata_port \<Rightarrow> nat \<Rightarrow> u16 \<Rightarrow> io_regs \<Rightarrow> 'h ata \<Rightarrow> (bool \<times> int \<times> 'h ata) option" where
  "io64_try port buf dir r st =
     (let st = (if at_gamestar st then set_ahw (ata_set_dir port True dir (at_hw st)) st else st);
          (res, st) = sceAtaExecCmd port buf (ucast (io_len r)) 0 (io_len r) (io_sector r) (io_lcyl r) (io_hcyl r) (io_select r)
                        (io_command r) st
      in if res \<noteq> 0 then Some (False, res, st) else
      let st = (if \<not> at_gamestar st then set_ahw (ata_set_dir port False dir (at_hw st)) st else st)
      in case sceAtaWaitResult port st of
           None \<Rightarrow> None
         | Some (res, st) \<Rightarrow>
             (case spd_in port SPD_R_IF_CTRL (at_hw st) of (v, h) \<Rightarrow>
                Some (res = ATA_RES_ERR_ICRC, res, set_ahw (spd_out port SPD_R_IF_CTRL (v AND NOT (SPD_IF_DMA_ENABLE port)) h) st)))"

fun io64_retry :: "'h ata_port \<Rightarrow> nat \<Rightarrow> u16 \<Rightarrow> io_regs \<Rightarrow> nat \<Rightarrow> int \<Rightarrow> 'h ata \<Rightarrow> (int \<times> 'h ata) option" where
  "io64_retry port buf dir r 0 res st = Some (res, st)"
| "io64_retry port buf dir r (Suc retries) res st =
     (case io64_try port buf dir r st of
        None \<Rightarrow> None
      | Some (again, res, st) \<Rightarrow> if again then io64_retry port buf dir r retries res st else Some (res, st))"

text \<open>The loop over the commands; None when it does not end.\<close>

partial_function (option) io64_loop :: "'h ata_port \<Rightarrow> u16 \<Rightarrow> u16 \<Rightarrow> nat \<Rightarrow> u64 \<Rightarrow> u32 \<Rightarrow> 'h ata \<Rightarrow> (int \<times> 'h ata) option" where
  "io64_loop port device dir buf lba nsectors st =
     (if nsectors = 0 then Some (0, st) else
      let r = io_setup (use_lba48 st device lba) device lba nsectors dir; len = io_len r in
      case io64_retry port buf dir r 3 0 st of
        None \<Rightarrow> None
      | Some (res, st) \<Rightarrow>
          if res \<noteq> 0 then Some (res, st)
          else io64_loop port device dir (buf + unat len * 512) (lba + ucast len) (nsectors - ucast len) st)"

declare io64_loop.simps [code]

definition ata_device_sector_io64 :: "'h ata_port \<Rightarrow> u16 \<Rightarrow> nat \<Rightarrow> u64 \<Rightarrow> u32 \<Rightarrow> u16 \<Rightarrow> 'h ata \<Rightarrow> (int \<times> 'h ata) option" where
  "ata_device_sector_io64 port device buf lba nsectors dir st = io64_loop port device dir buf lba nsectors st"

definition sceAtaDmaTransfer :: "'h ata_port \<Rightarrow> u16 \<Rightarrow> nat \<Rightarrow> u32 \<Rightarrow> u32 \<Rightarrow> u16 \<Rightarrow> 'h ata \<Rightarrow> (int \<times> 'h ata) option" where
  "sceAtaDmaTransfer port device buf lba nsectors dir st = ata_device_sector_io64 port device buf (ucast lba) nsectors dir st"

text \<open>\<open>ata_device_sector_io64_bdm_2\<close>, the function for larger sectors, has register values, attempts and a loop of its own. ATA
  counts logical sectors and the DMA channel blocks of 512 bytes: \<open>per\<close> is \<open>dma_blkcount_per_sector\<close>.\<close>

definition bdm2_setup :: "bool \<Rightarrow> u16 \<Rightarrow> u64 \<Rightarrow> u32 \<Rightarrow> u16 \<Rightarrow> io_regs" where
  "bdm2_setup ext device lba nsectors dir =
     (if ext then
        \<lparr>io_len = ucast (if nsectors > 65536 then 65536 else nsectors),
         io_sector = ucast ((drop_bit 16 lba AND 0xFF00) OR (lba AND 0xFF)),
         io_lcyl = ucast ((drop_bit 24 lba AND 0xFF00) OR (drop_bit 8 lba AND 0xFF)),
         io_hcyl = ucast ((drop_bit 32 lba AND 0xFF00) OR (drop_bit 16 lba AND 0xFF)),
         io_select = push_bit 4 device,
         io_command = (if dir = ATA_DIR_WRITE then ATA_C_WRITE_DMA_EXT else ATA_C_READ_DMA_EXT)\<rparr>
      else
        \<lparr>io_len = ucast (if nsectors > 256 then 256 else nsectors),
         io_sector = ucast (lba AND 0xFF),
         io_lcyl = ucast (drop_bit 8 lba AND 0xFF),
         io_hcyl = ucast (drop_bit 16 lba AND 0xFF),
         io_select = push_bit 4 device OR ucast (drop_bit 24 lba AND 0xF),
         io_command = (if dir = ATA_DIR_WRITE then ATA_C_WRITE_DMA else ATA_C_READ_DMA)\<rparr>)"

definition bdm2_try :: "'h ata_port \<Rightarrow> nat \<Rightarrow> u16 \<Rightarrow> io_regs \<Rightarrow> u32 \<Rightarrow> 'h ata \<Rightarrow> (bool \<times> int \<times> 'h ata) option" where
  "bdm2_try port buf dir r per st =
     (let st = (if at_gamestar st then set_ahw (ata_set_dir port True dir (at_hw st)) st else st);
          (res, st) = sceAtaExecCmd port buf (ucast (io_len r)) 0 (io_len r) (io_sector r) (io_lcyl r) (io_hcyl r) (io_select r)
                        (io_command r) st
      in if res \<noteq> 0 then Some (False, res, st) else
      let st = st\<lparr>at_cmd := (at_cmd st)\<lparr>cs_blkcount := ucast (io_len r) * per\<rparr>\<rparr>;
          st = (if \<not> at_gamestar st then set_ahw (ata_set_dir port False dir (at_hw st)) st else st)
      in case sceAtaWaitResult port st of
           None \<Rightarrow> None
         | Some (res, st) \<Rightarrow>
             (case spd_in port SPD_R_IF_CTRL (at_hw st) of (v, h) \<Rightarrow>
                Some (res = ATA_RES_ERR_ICRC, res, set_ahw (spd_out port SPD_R_IF_CTRL (v AND NOT (SPD_IF_DMA_ENABLE port)) h) st)))"

fun bdm2_retry :: "'h ata_port \<Rightarrow> nat \<Rightarrow> u16 \<Rightarrow> io_regs \<Rightarrow> u32 \<Rightarrow> nat \<Rightarrow> int \<Rightarrow> 'h ata \<Rightarrow> (int \<times> 'h ata) option" where
  "bdm2_retry port buf dir r per 0 res st = Some (res, st)"
| "bdm2_retry port buf dir r per (Suc retries) res st =
     (case bdm2_try port buf dir r per st of
        None \<Rightarrow> None
      | Some (again, res, st) \<Rightarrow> if again then bdm2_retry port buf dir r per retries res st else Some (res, st))"

partial_function (option) bdm2_loop ::
  "'h ata_port \<Rightarrow> u16 \<Rightarrow> u32 \<Rightarrow> u32 \<Rightarrow> u16 \<Rightarrow> nat \<Rightarrow> u64 \<Rightarrow> u32 \<Rightarrow> 'h ata \<Rightarrow> (int \<times> 'h ata) option" where
  "bdm2_loop port device per sector_size dir buf lba nsectors st =
     (if nsectors = 0 then Some (0, st) else
      let r = bdm2_setup (use_lba48 st device lba) device lba nsectors dir; len = io_len r in
      case bdm2_retry port buf dir r per 3 0 st of
        None \<Rightarrow> None
      | Some (res, st) \<Rightarrow>
          if res \<noteq> 0 then Some (res, st)
          else bdm2_loop port device per sector_size dir (buf + unat len * unat sector_size) (lba + ucast len)
                 (nsectors - ucast len) st)"

declare bdm2_loop.simps [code]

definition ata_device_sector_io64_bdm_2 ::
  "'h ata_port \<Rightarrow> u16 \<Rightarrow> nat \<Rightarrow> u64 \<Rightarrow> u32 \<Rightarrow> u16 \<Rightarrow> u32 \<Rightarrow> 'h ata \<Rightarrow> (int \<times> 'h ata) option" where
  "ata_device_sector_io64_bdm_2 port device buf lba nsectors dir sector_size st =
     (let dma_blkcount_per_sector = sector_size div 512 in
      if dma_blkcount_per_sector = 0 then Some (ATA_RES_ERR_IO, st)
      else bdm2_loop port device dma_blkcount_per_sector sector_size dir buf lba nsectors st)"

definition ata_bd_io_common_2 :: "'h ata_port \<Rightarrow> block_device \<Rightarrow> u64 \<Rightarrow> nat \<Rightarrow> u16 \<Rightarrow> u16 \<Rightarrow> 'h ata \<Rightarrow> (int \<times> 'h ata) option" where
  "ata_bd_io_common_2 port bd sector buf count dir st =
     (if sectorSize bd \<noteq> 512
      then ata_device_sector_io64_bdm_2 port (ucast (devNr bd)) buf sector (ucast count) dir (sectorSize bd) st
      else ata_device_sector_io64 port (ucast (devNr bd)) buf sector (ucast count) dir st)"

section \<open>The block device\<close>

definition bd_result :: "u16 \<Rightarrow> (int \<times> 'h ata) option \<Rightarrow> (int \<times> 'h ata) option" where
  "bd_result count r = map_option (\<lambda>(res, st). (if res \<noteq> 0 then - EIO else int (unat count), st)) r"

definition ata_bd_read :: "'h ata_port \<Rightarrow> block_device \<Rightarrow> u64 \<Rightarrow> nat \<Rightarrow> u16 \<Rightarrow> 'h ata \<Rightarrow> (int \<times> 'h ata) option" where
  "ata_bd_read port bd sector buf count st = bd_result count (ata_bd_io_common_2 port bd sector buf count ATA_DIR_READ st)"

definition ata_bd_write :: "'h ata_port \<Rightarrow> block_device \<Rightarrow> u64 \<Rightarrow> nat \<Rightarrow> u16 \<Rightarrow> 'h ata \<Rightarrow> (int \<times> 'h ata) option" where
  "ata_bd_write port bd sector buf count st = bd_result count (ata_bd_io_common_2 port bd sector buf count ATA_DIR_WRITE st)"

definition ata_bd_flush :: "'h ata_port \<Rightarrow> block_device \<Rightarrow> 'h ata \<Rightarrow> 'h ata option" where
  "ata_bd_flush port bd st = map_option snd (sceAtaFlushCache port (ucast (devNr bd)) st)"

definition ata_bd_stop :: "'h ata_port \<Rightarrow> block_device \<Rightarrow> 'h ata \<Rightarrow> (int \<times> 'h ata) option" where
  "ata_bd_stop port bd st = map_option (\<lambda>(_, st). (0, st)) (ata_device_standby_immediate port (ucast (devNr bd)) st)"

text \<open>The operations as the layers above see them, the caller's buffer at address \<open>buf\<close>. A call that does not return leaves
  the state as it was and reports an error; the calls are proved to return.\<close>

definition ata_bd_ops :: "'h ata_port \<Rightarrow> block_device \<Rightarrow> nat \<Rightarrow> 'h ata bd_ops" where
  "ata_bd_ops port bd buf = \<lparr>
     bd_read = (\<lambda>st a c. case ata_bd_read port bd a buf c st of
        None \<Rightarrow> (- EIO, [], st) | Some (r, st') \<Rightarrow> (r, load_mem (at_mem st') buf (unat c * unat (sectorSize bd)), st')),
     bd_write = (\<lambda>st a d c. case ata_bd_write port bd a buf c (st\<lparr>at_mem := store_mem (at_mem st) buf d\<rparr>) of
        None \<Rightarrow> (- EIO, st) | Some (r, st') \<Rightarrow> (r, st')),
     bd_flush = (\<lambda>st. case ata_bd_flush port bd st of None \<Rightarrow> st | Some st' \<Rightarrow> st'),
     bd_stop = (\<lambda>st. case ata_bd_stop port bd st of None \<Rightarrow> (- EIO, st) | Some r \<Rightarrow> r)\<rparr>"

lemma bd_result_Some: "bd_result count (Some (res, st)) = Some (if res \<noteq> 0 then - EIO else int (unat count), st)"
  by (simp add: bd_result_def)

section \<open>The two functions agree\<close>

text \<open>What \<open>sceAtaExecCmd\<close> leaves in the command state when it succeeds.\<close>

lemma exec_start_blkcount:
  "exec_start port typ feature nsector sector lcyl hcyl select command st = (res, st') \<Longrightarrow>
     cs_blkcount (at_cmd st') = cs_blkcount (at_cmd st) \<and> cs_buf (at_cmd st') = cs_buf (at_cmd st) \<and> cs_type (at_cmd st') = cs_type (at_cmd st)"
  by (auto simp: exec_start_def Let_def set_ahw_def split: prod.splits if_splits)

lemma exec_cmd_state:
  assumes "sceAtaExecCmd port buf blkcount feature nsector sector lcyl hcyl select command st = (0, st')"
  shows "cs_blkcount (at_cmd st') = blkcount" "cs_buf (at_cmd st') = buf"
    "cs_type (at_cmd st') = cmd_type port feature command AND 0x7F" "cs_type (at_cmd st') \<noteq> 0"
  using assms by (auto simp: sceAtaExecCmd_def Let_def set_ahw_def split: prod.splits if_splits dest!: exec_start_blkcount)

lemma bdm2_setup_io: "bdm2_setup ext device lba nsectors dir = io_setup ext device lba nsectors dir"
  by (simp add: bdm2_setup_def io_setup_def)

lemma bdm2_try_one: "bdm2_try port buf dir r 1 st = io64_try port buf dir r st"
proof -
  have *: "st'\<lparr>at_cmd := (at_cmd st')\<lparr>cs_blkcount := ucast (io_len r)\<rparr>\<rparr> = st'"
    if "sceAtaExecCmd port buf (ucast (io_len r)) 0 (io_len r) (io_sector r) (io_lcyl r) (io_hcyl r) (io_select r)
          (io_command r) s = (0, st')" for s st'
    using exec_cmd_state(1) [OF that] by (cases st', cases "at_cmd st'") auto
  show ?thesis by (auto simp: io64_try_def bdm2_try_def Let_def * split: prod.splits)
qed

lemma bdm2_retry_one: "bdm2_retry port buf dir r 1 n res st = io64_retry port buf dir r n res st"
proof (induction n arbitrary: res st)
  case (Suc n)
  show ?case by (simp only: io64_retry.simps bdm2_retry.simps Suc.IH bdm2_try_one)
qed simp

lemma io64_is_bdm2:
  assumes "io64_loop port device dir buf lba n st = Some x"
  shows "bdm2_loop port device 1 512 dir buf lba n st = Some x"
  by (rule io64_loop.raw_induct [where P = "\<lambda>port device dir buf lba n st x. bdm2_loop port device 1 512 dir buf lba n st = Some x", OF _ assms])
    (subst bdm2_loop.simps, auto simp: Let_def bdm2_retry_one bdm2_setup_io split: if_splits option.splits prod.splits)

lemma bdm2_is_io64:
  assumes "bdm2_loop port device per sz dir buf lba n st = Some x" "per = 1" "sz = 512"
  shows "io64_loop port device dir buf lba n st = Some x"
proof -
  have "per = 1 \<and> sz = 512 \<longrightarrow> io64_loop port device dir buf lba n st = Some x"
    by (rule bdm2_loop.raw_induct [where P = "\<lambda>port device per sz dir buf lba n st x. per = 1 \<and> sz = 512 \<longrightarrow> io64_loop port device dir buf lba n st = Some x", OF _ assms(1)])
      (intro impI, subst io64_loop.simps, auto simp: Let_def bdm2_retry_one bdm2_setup_io split: if_splits option.splits prod.splits)
  then show ?thesis using assms(2,3) by simp
qed

text \<open>C39. On disks of 512-byte sectors the transfer function with the general sector size is the classic one: whatever
  the hardware does, both issue the same register accesses, return the same result and leave the same memory and state, and
  one fails to return exactly when the other does.\<close>

theorem sector_io_variants_agree:
  "ata_device_sector_io64_bdm_2 port device buf lba nsectors dir 512 st = ata_device_sector_io64 port device buf lba nsectors dir st"
proof -
  have "bdm2_loop port device 1 512 dir buf lba nsectors st = io64_loop port device dir buf lba nsectors st"
    using io64_is_bdm2 [of port device dir buf lba nsectors st] bdm2_is_io64 [of port device 1 512 dir buf lba nsectors st]
    by (metis option.exhaust)
  then show ?thesis by (simp add: ata_device_sector_io64_bdm_2_def ata_device_sector_io64_def)
qed

section \<open>A common form of the two loops\<close>

text \<open>For the proofs about both functions at once: \<open>io_loop\<close> is the loop of the first for \<open>per = None\<close> and of the second for
  \<open>Some\<close>; the lemmas below show that it is.\<close>

definition io_try :: "'h ata_port \<Rightarrow> nat \<Rightarrow> u16 \<Rightarrow> io_regs \<Rightarrow> u32 option \<Rightarrow> 'h ata \<Rightarrow> (bool \<times> int \<times> 'h ata) option" where
  "io_try port buf dir r blocks st =
     (let st = (if at_gamestar st then set_ahw (ata_set_dir port True dir (at_hw st)) st else st);
          (res, st) = sceAtaExecCmd port buf (ucast (io_len r)) 0 (io_len r) (io_sector r) (io_lcyl r) (io_hcyl r) (io_select r)
                        (io_command r) st
      in if res \<noteq> 0 then Some (False, res, st) else
      let st = (case blocks of None \<Rightarrow> st | Some b \<Rightarrow> st\<lparr>at_cmd := (at_cmd st)\<lparr>cs_blkcount := b\<rparr>\<rparr>);
          st = (if \<not> at_gamestar st then set_ahw (ata_set_dir port False dir (at_hw st)) st else st)
      in case sceAtaWaitResult port st of
           None \<Rightarrow> None
         | Some (res, st) \<Rightarrow>
             (case spd_in port SPD_R_IF_CTRL (at_hw st) of (v, h) \<Rightarrow>
                Some (res = ATA_RES_ERR_ICRC, res, set_ahw (spd_out port SPD_R_IF_CTRL (v AND NOT (SPD_IF_DMA_ENABLE port)) h) st)))"

fun io_retry :: "'h ata_port \<Rightarrow> nat \<Rightarrow> u16 \<Rightarrow> io_regs \<Rightarrow> u32 option \<Rightarrow> nat \<Rightarrow> int \<Rightarrow> 'h ata \<Rightarrow> (int \<times> 'h ata) option" where
  "io_retry port buf dir r blocks 0 res st = Some (res, st)"
| "io_retry port buf dir r blocks (Suc n) res st =
     (case io_try port buf dir r blocks st of
        None \<Rightarrow> None
      | Some (again, res, st) \<Rightarrow> if again then io_retry port buf dir r blocks n res st else Some (res, st))"

definition io_blocks :: "u32 option \<Rightarrow> u16 \<Rightarrow> u32 option" where
  "io_blocks per len = (case per of None \<Rightarrow> None | Some p \<Rightarrow> Some (ucast len * p))"

partial_function (option) io_loop ::
  "'h ata_port \<Rightarrow> u16 \<Rightarrow> u32 option \<Rightarrow> u32 \<Rightarrow> u16 \<Rightarrow> nat \<Rightarrow> u64 \<Rightarrow> u32 \<Rightarrow> 'h ata \<Rightarrow> (int \<times> 'h ata) option" where
  "io_loop port device per ssz dir buf lba nsectors st =
     (if nsectors = 0 then Some (0, st) else
      let r = io_setup (use_lba48 st device lba) device lba nsectors dir in
      case io_retry port buf dir r (io_blocks per (io_len r)) 3 0 st of
        None \<Rightarrow> None
      | Some (res, st) \<Rightarrow>
          if res \<noteq> 0 then Some (res, st)
          else io_loop port device per ssz dir (buf + unat (io_len r) * unat ssz) (lba + ucast (io_len r))
                 (nsectors - ucast (io_len r)) st)"

declare io_loop.simps [code]

lemma io_try_forms: "io64_try port buf dir r st = io_try port buf dir r None st"
  "bdm2_try port buf dir r per st = io_try port buf dir r (Some (ucast (io_len r) * per)) st"
  unfolding io64_try_def bdm2_try_def io_try_def Let_def option.case by (rule refl)+

lemma io_retry_forms: "io64_retry port buf dir r n res st = io_retry port buf dir r None n res st"
  "bdm2_retry port buf dir r per n res st = io_retry port buf dir r (Some (ucast (io_len r) * per)) n res st"
proof (induction n arbitrary: res st)
  case (Suc n)
  case 1
  show ?case by (simp only: io64_retry.simps io_retry.simps io_try_forms Suc.IH)
  case 2
  show ?case by (simp only: bdm2_retry.simps io_retry.simps io_try_forms Suc.IH)
qed simp_all

lemma io64_loop_form:
  assumes "io_loop port device per ssz dir buf lba n st = Some x"
  shows "per = None \<and> ssz = 512 \<longrightarrow> io64_loop port device dir buf lba n st = Some x"
  by (rule io_loop.raw_induct [where P = "\<lambda>port device per ssz dir buf lba n st x. per = None \<and> ssz = 512 \<longrightarrow> io64_loop port device dir buf lba n st = Some x", OF _ assms])
    (intro impI, subst io64_loop.simps, auto simp: Let_def io_retry_forms io_blocks_def split: if_splits option.splits prod.splits)

lemma bdm2_loop_form:
  assumes "io_loop port device p ssz dir buf lba n st = Some x"
  shows "p = Some per \<longrightarrow> bdm2_loop port device per ssz dir buf lba n st = Some x"
  by (rule io_loop.raw_induct [where P = "\<lambda>port device p ssz dir buf lba n st x. p = Some per \<longrightarrow> bdm2_loop port device per ssz dir buf lba n st = Some x", OF _ assms])
    (intro impI, subst bdm2_loop.simps, auto simp: Let_def io_retry_forms io_blocks_def bdm2_setup_io split: if_splits option.splits prod.splits)

end
