(* ===== verification/Ata_Task.thy ===== *)
theory Ata_Task
  imports Ata_Io
begin

text \<open>
  The task file of an ATA drive, as the standard reads the address registers of 28- and 48-bit commands, and the proof that
  the registers \<open>sceAtaExecCmd\<close> writes for the values of the transfer loop stand for the request.
\<close>

section \<open>The task file\<close>

text \<open>Each address register keeps the last two bytes written to it, as 48-bit commands need them.\<close>

record task_file =
  tf_nsector :: "u8 \<times> u8"
  tf_sector :: "u8 \<times> u8"
  tf_lcyl :: "u8 \<times> u8"
  tf_hcyl :: "u8 \<times> u8"
  tf_select :: u8

definition put_reg :: "ata_reg \<Rightarrow> u16 \<Rightarrow> task_file \<Rightarrow> task_file" where
  "put_reg r v tf = (case r of
       R_nsector \<Rightarrow> tf\<lparr>tf_nsector := (ucast v, fst (tf_nsector tf))\<rparr>
     | R_sector \<Rightarrow> tf\<lparr>tf_sector := (ucast v, fst (tf_sector tf))\<rparr>
     | R_lcyl \<Rightarrow> tf\<lparr>tf_lcyl := (ucast v, fst (tf_lcyl tf))\<rparr>
     | R_hcyl \<Rightarrow> tf\<lparr>tf_hcyl := (ucast v, fst (tf_hcyl tf))\<rparr>
     | R_select \<Rightarrow> tf\<lparr>tf_select := ucast v\<rparr>
     | _ \<Rightarrow> tf)"

definition tf_lba28 :: "task_file \<Rightarrow> nat" where
  "tf_lba28 tf = unat (fst (tf_sector tf)) + unat (fst (tf_lcyl tf)) * 2 ^ 8 + unat (fst (tf_hcyl tf)) * 2 ^ 16
     + unat (tf_select tf AND 0xF) * 2 ^ 24"

definition tf_lba48 :: "task_file \<Rightarrow> nat" where
  "tf_lba48 tf = unat (fst (tf_sector tf)) + unat (fst (tf_lcyl tf)) * 2 ^ 8 + unat (fst (tf_hcyl tf)) * 2 ^ 16
     + unat (snd (tf_sector tf)) * 2 ^ 24 + unat (snd (tf_lcyl tf)) * 2 ^ 32 + unat (snd (tf_hcyl tf)) * 2 ^ 40"

definition tf_count28 :: "task_file \<Rightarrow> nat" where
  "tf_count28 tf = (let n = unat (fst (tf_nsector tf)) in if n = 0 then 256 else n)"

definition tf_count48 :: "task_file \<Rightarrow> nat" where
  "tf_count48 tf = (let n = unat (fst (tf_nsector tf)) + unat (snd (tf_nsector tf)) * 2 ^ 8 in if n = 0 then 65536 else n)"

text \<open>The DMA commands: direction (true for a write), first sector, number of sectors. An address is linear only with bit 6
  of the select register set.\<close>

definition tf_request :: "u16 \<Rightarrow> task_file \<Rightarrow> (bool \<times> nat \<times> nat) option" where
  "tf_request c tf =
     (if tf_select tf AND 0x40 = 0 then None
      else if c = ATA_C_READ_DMA then Some (False, tf_lba28 tf, tf_count28 tf)
      else if c = ATA_C_WRITE_DMA then Some (True, tf_lba28 tf, tf_count28 tf)
      else if c = ATA_C_READ_DMA_EXT then Some (False, tf_lba48 tf, tf_count48 tf)
      else if c = ATA_C_WRITE_DMA_EXT then Some (True, tf_lba48 tf, tf_count48 tf)
      else None)"

section \<open>A request in the task file\<close>

text \<open>The register writes of \<open>send_task_file\<close> before the command register.\<close>

definition task_regs :: "bool \<Rightarrow> bool \<Rightarrow> io_regs \<Rightarrow> (ata_reg \<times> u16) list" where
  "task_regs ext tm r =
     [(R_control, if tm then 0 else 2)] @
     (if ext then [(R_feature, 0), (R_nsector, drop_bit 8 (io_len r) AND 0xFF), (R_sector, drop_bit 8 (io_sector r) AND 0xFF),
                   (R_lcyl, drop_bit 8 (io_lcyl r) AND 0xFF), (R_hcyl, drop_bit 8 (io_hcyl r) AND 0xFF)] else []) @
     [(R_feature, 0), (R_nsector, io_len r AND 0xFF), (R_sector, io_sector r AND 0xFF), (R_lcyl, io_lcyl r AND 0xFF),
      (R_hcyl, io_hcyl r AND 0xFF), (R_select, (io_select r OR 0x40) AND 0xFF)]"

definition put_regs :: "(ata_reg \<times> u16) list \<Rightarrow> task_file \<Rightarrow> task_file" where
  "put_regs rvs = fold (\<lambda>(r, v). put_reg r v) rvs"

lemma send_task_file_regs:
  "send_task_file port typ tm 0 (io_len r) (io_sector r) (io_lcyl r) (io_hcyl r) (io_select r) c h =
     ata_out port R_command (c AND 0xFF) (fold (\<lambda>(r, v). ata_out port r v) (task_regs (typ AND 0x80 \<noteq> 0) tm r) h)"
  by (simp add: send_task_file_def task_regs_def Let_def)

text \<open>The bytes of the address the registers get.\<close>

lemma and_masks:
  fixes x :: "'a::len word" and y :: u64
  shows "x AND 0xFF = take_bit 8 x" "x AND 0xF = take_bit 4 x" "y AND 0xFF00 = push_bit 8 (take_bit 8 (drop_bit 8 y))"
proof -
  show "x AND 0xFF = take_bit 8 x" "x AND 0xF = take_bit 4 x" by (simp_all add: take_bit_eq_mask mask_eq_exp_minus_1)
  have "y AND push_bit k (mask m) = push_bit k (take_bit m (drop_bit k y))" for k m
    by (rule bit_word_eqI) (auto simp: bit_simps)
  from this [of 8 8] show "y AND 0xFF00 = push_bit 8 (take_bit 8 (drop_bit 8 y))" by (simp add: mask_eq_exp_minus_1)
qed

lemma reg_bytes:
  fixes lba :: u64 and n :: u16
  shows "(ucast ((ucast ((drop_bit 16 lba AND 0xFF00) OR (lba AND 0xFF)) :: u16) AND 0xFF) :: u8) = ucast lba"
    "(ucast (drop_bit 8 (ucast ((drop_bit 16 lba AND 0xFF00) OR (lba AND 0xFF)) :: u16) AND 0xFF) :: u8) = ucast (drop_bit 24 lba)"
    "(ucast ((ucast ((drop_bit 24 lba AND 0xFF00) OR (drop_bit 8 lba AND 0xFF)) :: u16) AND 0xFF) :: u8) = ucast (drop_bit 8 lba)"
    "(ucast (drop_bit 8 (ucast ((drop_bit 24 lba AND 0xFF00) OR (drop_bit 8 lba AND 0xFF)) :: u16) AND 0xFF) :: u8) = ucast (drop_bit 32 lba)"
    "(ucast ((ucast ((drop_bit 32 lba AND 0xFF00) OR (drop_bit 16 lba AND 0xFF)) :: u16) AND 0xFF) :: u8) = ucast (drop_bit 16 lba)"
    "(ucast (drop_bit 8 (ucast ((drop_bit 32 lba AND 0xFF00) OR (drop_bit 16 lba AND 0xFF)) :: u16) AND 0xFF) :: u8) = ucast (drop_bit 40 lba)"
    "(ucast ((ucast (lba AND 0xFF) :: u16) AND 0xFF) :: u8) = ucast lba"
    "(ucast ((ucast (drop_bit 8 lba AND 0xFF) :: u16) AND 0xFF) :: u8) = ucast (drop_bit 8 lba)"
    "(ucast ((ucast (drop_bit 16 lba AND 0xFF) :: u16) AND 0xFF) :: u8) = ucast (drop_bit 16 lba)"
    "(ucast (n AND 0xFF) :: u8) = ucast n" "(ucast (drop_bit 8 n AND 0xFF) :: u8) = ucast (drop_bit 8 n)"
  unfolding and_masks by (rule bit_word_eqI; simp add: bit_simps)+

lemma bytes_sum:
  fixes x :: nat
  shows "x mod 256 + x div 2 ^ 8 mod 256 * 2 ^ 8 + x div 2 ^ 16 mod 256 * 2 ^ 16 = x mod 2 ^ 24"
    "x mod 2 ^ 24 + x div 2 ^ 24 mod 256 * 2 ^ 24 + x div 2 ^ 32 mod 256 * 2 ^ 32 + x div 2 ^ 40 mod 256 * 2 ^ 40 = x mod 2 ^ 48"
    "x mod 2 ^ 24 + x div 2 ^ 24 mod 16 * 2 ^ 24 = x mod 2 ^ 28"
    "x mod 256 + x div 2 ^ 8 mod 256 * 2 ^ 8 = x mod 65536"
proof -
  have s: "x mod 2 ^ k + x div 2 ^ k mod m * 2 ^ k = x mod (2 ^ k * m)" for k m :: nat
    by (simp only: mod_mult2_eq) (simp only: ac_simps)
  have e: "x mod 256 + x div 2 ^ 8 mod 256 * 2 ^ 8 = x mod 2 ^ 16" "x mod 2 ^ 16 + x div 2 ^ 16 mod 256 * 2 ^ 16 = x mod 2 ^ 24"
    "x mod 2 ^ 24 + x div 2 ^ 24 mod 256 * 2 ^ 24 = x mod 2 ^ 32" "x mod 2 ^ 32 + x div 2 ^ 32 mod 256 * 2 ^ 32 = x mod 2 ^ 40"
    "x mod 2 ^ 40 + x div 2 ^ 40 mod 256 * 2 ^ 40 = x mod 2 ^ 48"
    using s [of 8 256] s [of 16 256] s [of 24 256] s [of 32 256] s [of 40 256] by simp_all
  show "x mod 256 + x div 2 ^ 8 mod 256 * 2 ^ 8 + x div 2 ^ 16 mod 256 * 2 ^ 16 = x mod 2 ^ 24" by (simp only: e)
  show "x mod 2 ^ 24 + x div 2 ^ 24 mod 256 * 2 ^ 24 + x div 2 ^ 32 mod 256 * 2 ^ 32 + x div 2 ^ 40 mod 256 * 2 ^ 40 = x mod 2 ^ 48"
    by (simp only: e)
  show "x mod 2 ^ 24 + x div 2 ^ 24 mod 16 * 2 ^ 24 = x mod 2 ^ 28" using s [of 24 16] by simp
  show "x mod 256 + x div 2 ^ 8 mod 256 * 2 ^ 8 = x mod 65536" using e(1) by simp
qed

lemma select_bits:
  fixes device :: u16 and x :: u64
  assumes "device < 2"
  shows "drop_bit 4 (ucast (ucast ((push_bit 4 device OR ucast (x AND 0xF) OR 0x40) AND 0xFF :: u16) :: u8)) AND 1 = device"
    "ucast ((push_bit 4 device OR ucast (x AND 0xF) OR 0x40) AND 0xFF :: u16) AND 0x40 \<noteq> (0 :: u8)"
    "unat (ucast ((push_bit 4 device OR ucast (x AND 0xF) OR 0x40) AND 0xFF :: u16) AND 0xF :: u8) = unat x mod 16"
proof -
  have "unat device < 2" using assms by (simp add: word_less_nat_alt)
  then have d: "device = 0 \<or> device = 1" by (metis less_2_cases unat_eq_zero unat_1 unsigned_word_eqI One_nat_def)
  have t: "ucast ((push_bit 4 device OR ucast (x AND 0xF) OR 0x40) AND 0xFF :: u16) = (push_bit 4 (ucast device) OR ucast (take_bit 4 x) OR 0x40 :: u8)"
    unfolding and_masks by (rule bit_word_eqI) (auto simp: bit_simps)
  show "ucast ((push_bit 4 device OR ucast (x AND 0xF) OR 0x40) AND 0xFF :: u16) AND 0x40 \<noteq> (0 :: u8)"
    unfolding t by (simp add: word_bw_comms bit_eq_iff, rule exI [of _ 6]) (simp add: bit_simps)
  show "unat (ucast ((push_bit 4 device OR ucast (x AND 0xF) OR 0x40) AND 0xFF :: u16) AND 0xF :: u8) = unat x mod 16"
  proof -
    have "(push_bit 4 (ucast device) OR ucast (take_bit 4 x) OR 0x40 :: u8) AND 0xF = ucast (take_bit 4 x)"
      unfolding and_masks by (rule bit_word_eqI) (auto simp: bit_simps)
    then show ?thesis unfolding t by (simp only: unsigned_ucast_eq unsigned_take_bit_eq take_bit_take_bit) (simp add: take_bit_eq_mod)
  qed
  show "drop_bit 4 (ucast (ucast ((push_bit 4 device OR ucast (x AND 0xF) OR 0x40) AND 0xFF :: u16) :: u8)) AND 1 = device"
    unfolding t by (rule bit_word_eqI) (use d in \<open>auto simp: bit_simps\<close>)
qed

lemma cmd_type_dma:
  "cmd_type port 0 (io_command (io_setup ext device lba n dir)) = (if ext then 0x84 else 4)"
  by (simp add: cmd_type_def io_setup_def ata_cmd_table_def)

lemma put_task_regs:
  "tf_sector (put_regs (task_regs ext tm r) tf) = (ucast (io_sector r AND 0xFF), if ext then ucast (drop_bit 8 (io_sector r) AND 0xFF) else fst (tf_sector tf))"
  "tf_lcyl (put_regs (task_regs ext tm r) tf) = (ucast (io_lcyl r AND 0xFF), if ext then ucast (drop_bit 8 (io_lcyl r) AND 0xFF) else fst (tf_lcyl tf))"
  "tf_hcyl (put_regs (task_regs ext tm r) tf) = (ucast (io_hcyl r AND 0xFF), if ext then ucast (drop_bit 8 (io_hcyl r) AND 0xFF) else fst (tf_hcyl tf))"
  "tf_nsector (put_regs (task_regs ext tm r) tf) = (ucast (io_len r AND 0xFF), if ext then ucast (drop_bit 8 (io_len r) AND 0xFF) else fst (tf_nsector tf))"
  "tf_select (put_regs (task_regs ext tm r) tf) = ucast ((io_select r OR 0x40) AND 0xFF)"
  by (simp_all add: put_regs_def task_regs_def put_reg_def)

lemma io_len_ext: "unat (io_len (io_setup True device lba n dir)) = (if n < 65536 then unat n else 0)"
proof (cases "n < 65536")
  case True
  then have "unat n < 65536" by (simp add: word_less_nat_alt)
  then show ?thesis using True by (auto simp: io_setup_def unsigned_ucast_eq take_bit_nat_eq_self)
qed (auto simp: io_setup_def)

lemma io_len_28: "unat (io_len (io_setup False device lba n dir)) = unat (min n 256)"
proof -
  have "unat (min n 256) \<le> 256" by (simp add: min_def word_le_nat_alt)
  then have "unat (ucast (min n 256) :: u16) = unat (min n 256)" by (simp add: unsigned_ucast_eq take_bit_nat_eq_self)
  moreover have "(if n > 256 then 256 else n) = min n 256" by (auto simp: min_def)
  ultimately show ?thesis by (simp add: io_setup_def)
qed

definition io_count :: "bool \<Rightarrow> u32 \<Rightarrow> nat" where
  "io_count ext n = min (unat n) (if ext then 65536 else 256)"

lemma io_setup_select:
  assumes "device < 2"
  shows "drop_bit 4 (ucast (tf_select (put_regs (task_regs ext tm (io_setup ext device lba n dir)) tf))) AND 1 = device"
    "tf_select (put_regs (task_regs ext tm (io_setup ext device lba n dir)) tf) AND 0x40 \<noteq> 0"
    "unat (tf_select (put_regs (task_regs False tm (io_setup False device lba n dir)) tf) AND 0xF) = unat lba div 2 ^ 24 mod 16"
  using select_bits [OF assms, of 0] select_bits [OF assms, of "drop_bit 24 lba"]
  by (simp_all add: put_task_regs io_setup_def unat_drop_bit or.assoc)

lemma io_select_dev:
  assumes "device < 2"
  shows "drop_bit 4 (io_select (io_setup ext device lba n dir)) AND 1 = device"
proof -
  have "unat device < 2" using assms by (simp add: word_less_nat_alt)
  then have "device = 0 \<or> device = 1" by (metis less_2_cases unat_eq_zero unat_1 unsigned_word_eqI One_nat_def)
  then show ?thesis
    by (intro bit_word_eqI) (auto simp: io_setup_def and_masks bit_simps)
qed

lemma task_lba28:
  assumes "device < 2" "unat lba < 2 ^ 28"
  shows "tf_lba28 (put_regs (task_regs False tm (io_setup False device lba n dir)) tf) = unat lba"
proof -
  have "tf_lba28 (put_regs (task_regs False tm (io_setup False device lba n dir)) tf)
      = unat lba mod 256 + unat lba div 2 ^ 8 mod 256 * 2 ^ 8 + unat lba div 2 ^ 16 mod 256 * 2 ^ 16 + unat lba div 2 ^ 24 mod 16 * 2 ^ 24"
    unfolding tf_lba28_def io_setup_select(3) [OF assms(1)] put_task_regs(1-3)
    by (simp add: io_setup_def reg_bytes(7-9) unat_byte unat_drop_bit)
  also have "\<dots> = unat lba mod 2 ^ 28" by (simp only: bytes_sum(1-3))
  finally show ?thesis using assms(2) by simp
qed

lemma task_lba48:
  assumes "unat lba < 2 ^ 48"
  shows "tf_lba48 (put_regs (task_regs True tm (io_setup True device lba n dir)) tf) = unat lba"
proof -
  have "tf_lba48 (put_regs (task_regs True tm (io_setup True device lba n dir)) tf)
      = unat lba mod 256 + unat lba div 2 ^ 8 mod 256 * 2 ^ 8 + unat lba div 2 ^ 16 mod 256 * 2 ^ 16 + unat lba div 2 ^ 24 mod 256 * 2 ^ 24
        + unat lba div 2 ^ 32 mod 256 * 2 ^ 32 + unat lba div 2 ^ 40 mod 256 * 2 ^ 40"
    unfolding tf_lba48_def put_task_regs(1-3)
    by (simp add: io_setup_def reg_bytes(1-6) unat_byte unat_drop_bit)
  also have "\<dots> = unat lba mod 2 ^ 48" by (simp only: bytes_sum(1-3))
  finally show ?thesis using assms by simp
qed

lemma task_count28: "0 < n \<Longrightarrow> tf_count28 (put_regs (task_regs False tm (io_setup False device lba n dir)) tf) = io_count False n"
proof -
  assume "0 < n"
  have "unat (fst (tf_nsector (put_regs (task_regs False tm (io_setup False device lba n dir)) tf))) = unat (min n 256) mod 256"
    unfolding put_task_regs(4) by (simp add: reg_bytes(10) unat_byte io_len_28)
  moreover have "unat (min n 256) = min (unat n) 256" by (simp add: min_def word_le_nat_alt)
  moreover have "0 < unat n" using \<open>0 < n\<close> by (simp add: word_less_nat_alt)
  ultimately show ?thesis by (auto simp: tf_count28_def io_count_def min_def Let_def le_less)
qed

lemma task_count48: "0 < n \<Longrightarrow> tf_count48 (put_regs (task_regs True tm (io_setup True device lba n dir)) tf) = io_count True n"
proof -
  assume "0 < n"
  define l where "l = unat (io_len (io_setup True device lba n dir))"
  have "unat (fst (tf_nsector (put_regs (task_regs True tm (io_setup True device lba n dir)) tf))) = l mod 256"
    "unat (snd (tf_nsector (put_regs (task_regs True tm (io_setup True device lba n dir)) tf))) = l div 2 ^ 8 mod 256"
    unfolding put_task_regs(4) l_def by (simp_all add: reg_bytes(10,11) unat_byte unat_drop_bit)
  moreover have "l < 65536" unfolding l_def by (rule unat_lt_u16)
  then have "l mod 256 + l div 2 ^ 8 mod 256 * 2 ^ 8 = l" by (simp only: bytes_sum) simp
  ultimately have "tf_count48 (put_regs (task_regs True tm (io_setup True device lba n dir)) tf) = (if l = 0 then 65536 else l)"
    by (simp add: tf_count48_def Let_def)
  moreover have "0 < unat n" using \<open>0 < n\<close> by (simp add: word_less_nat_alt)
  ultimately show ?thesis by (auto simp: l_def io_len_ext io_count_def min_def word_less_nat_alt)
qed

lemma request_decoded:
  assumes "device < 2" "dir = 0 \<or> dir = 1" "0 < n" "unat lba < (if ext then 2 ^ 48 else 2 ^ 28)"
  shows "tf_request (io_command (io_setup ext device lba n dir)) (put_regs (task_regs ext tm (io_setup ext device lba n dir)) tf)
      = Some (dir = 1, unat lba, io_count ext n)"
  using assms(2,4) io_setup_select(2) [OF assms(1)] task_lba28 [OF assms(1)] task_lba48 task_count28 [OF assms(3)] task_count48 [OF assms(3)]
  by (cases ext) (auto simp: tf_request_def, simp_all add: io_setup_def)

text \<open>C23. The task file of a request: whatever the registers held before, the byte writes of \<open>sceAtaExecCmd\<close> for the values that
  the transfer loop computes are decoded by a drive, by the rules of the ATA standard for 28- and 48-bit commands, as exactly the
  direction, first sector, number of sectors and device asked for; also at the lengths 256 and 65536, which are sent as 0.\<close>

theorem task_file_roundtrip:
  assumes "device < 2" "dir = 0 \<or> dir = 1" "0 < n" "unat lba < (if ext then 2 ^ 48 else 2 ^ 28)"
    and "r = io_setup ext device lba n dir"
  shows "\<exists>regs. (\<forall>port h. send_task_file (port :: 'h ata_port) (cmd_type port 0 (io_command r)) tm 0 (io_len r) (io_sector r) (io_lcyl r) (io_hcyl r)
             (io_select r) (io_command r) h = ata_out port R_command (io_command r) (fold (\<lambda>(r, v). ata_out port r v) regs h))
      \<and> tf_request (io_command r) (put_regs regs tf) = Some (dir = 1, unat lba, io_count ext n)
      \<and> drop_bit 4 (ucast (tf_select (put_regs regs tf))) AND 1 = device"
proof (intro exI [of _ "task_regs ext tm r"] conjI allI)
  fix port :: "'h ata_port" and h :: 'h
  have "io_command r AND 0xFF = io_command r" by (simp add: assms(5) io_setup_def)
  moreover have "(cmd_type port 0 (io_command r) AND 0x80 \<noteq> 0) = ext" by (simp add: assms(5) cmd_type_dma)
  ultimately show "send_task_file port (cmd_type port 0 (io_command r)) tm 0 (io_len r) (io_sector r) (io_lcyl r) (io_hcyl r)
      (io_select r) (io_command r) h = ata_out port R_command (io_command r) (fold (\<lambda>(r, v). ata_out port r v) (task_regs ext tm r) h)"
    by (simp only: send_task_file_regs)
next
  show "tf_request (io_command r) (put_regs (task_regs ext tm r) tf) = Some (dir = 1, unat lba, io_count ext n)"
    unfolding assms(5) by (rule request_decoded [OF assms(1-4)])
next
  show "drop_bit 4 (ucast (tf_select (put_regs (task_regs ext tm r) tf))) AND 1 = device"
    unfolding assms(5) by (rule io_setup_select(1) [OF assms(1)])
qed

end
