(* ===== verification/Ata_Drive.thy ===== *)
theory Ata_Drive
  imports Ata_Task
begin

text \<open>
  The contract of an ATA drive behind the SPEED chip, and the ATA driver as a block store over it. The contract speaks about
  an observation of the hardware: the task file, the transfer in progress, the DMA buffer, the alarm and the drive's blocks of
  512 bytes. \<open>later\<close> is what may change by itself between two accesses of the driver.
\<close>

section \<open>What is observed\<close>

text \<open>
  \<open>ob_xfer\<close> is the last DMA command accepted and the number of 512-byte blocks moved for it; \<open>ob_idle\<close> says that no command
  is in progress, \<open>ob_bad\<close> that something went wrong with this one; \<open>ob_avail\<close> is the number of blocks the DMA buffer can
  move, \<open>ob_pat\<close> a bound on the interrupts that come before the alarm; \<open>ob_ifc\<close> and \<open>ob_xfr\<close> are two registers of the chip.
\<close>

record ata_obs =
  ob_tf :: task_file
  ob_xfer :: "(bool \<times> nat \<times> nat \<times> nat) option"
  ob_idle :: bool
  ob_bad :: bool
  ob_armed :: bool
  ob_avail :: nat
  ob_pat :: nat
  ob_ifc :: u16
  ob_xfr :: u16
  ob_blk :: "nat \<Rightarrow> bytes"

definition later :: "ata_obs \<Rightarrow> ata_obs \<Rightarrow> bool" where
  "later u v \<longleftrightarrow> ob_tf v = ob_tf u \<and> ob_xfer v = ob_xfer u \<and> ob_ifc v = ob_ifc u \<and> ob_xfr v = ob_xfr u \<and> ob_blk v = ob_blk u
     \<and> (ob_idle u \<longrightarrow> ob_idle v) \<and> (ob_bad u \<longrightarrow> ob_bad v) \<and> (ob_armed u \<longrightarrow> ob_armed v)
     \<and> ob_avail u \<le> ob_avail v \<and> ob_pat v \<le> ob_pat u"

lemma later_refl [simp]: "later u u"
  by (simp add: later_def)

lemma later_trans [trans]: "later u v \<Longrightarrow> later v w \<Longrightarrow> later u w"
  by (auto simp: later_def)

lemma later_tf: "later u v \<Longrightarrow> later (u\<lparr>ob_tf := t\<rparr>) (v\<lparr>ob_tf := t\<rparr>)"
  by (auto simp: later_def)

definition moved_all :: "nat \<Rightarrow> ata_obs \<Rightarrow> bool" where
  "moved_all bps u \<longleftrightarrow> (\<exists>w a n. ob_xfer u = Some (w, a, n, n * bps))"

text \<open>The DMA path is set up for a direction.\<close>

definition path_set :: "bool \<Rightarrow> ata_obs \<Rightarrow> bool" where
  "path_set w u \<longleftrightarrow> (if w then ob_ifc u AND 0x4E = 0x4C \<and> ob_xfr u AND 0x87 = 0x87
                        else ob_ifc u AND 0x4E = 0x4E \<and> ob_xfr u AND 0x87 = 0x86)"

section \<open>The contract\<close>

locale ata_drive =
  fixes port :: "'h ata_port" and obs :: "'h \<Rightarrow> ata_obs" and dev :: u16 and lba48 :: bool and bps nsec :: nat
  assumes in_later: "ata_in port r h = (v, h') \<Longrightarrow> later (obs h) (obs h')"
    and in_ready: "ata_in port R_control h = (v, h') \<Longrightarrow> v AND 0x88 = 0 \<Longrightarrow> ob_idle (obs h')"
    and in_rest: "ata_in port r h = (v, h') \<Longrightarrow> r = R_control \<or> r = R_status \<Longrightarrow> v AND 0x80 = 0 \<Longrightarrow> moved_all bps (obs h) \<Longrightarrow> ob_idle (obs h')"
    and in_good: "ata_in port R_status h = (v, h') \<Longrightarrow> ob_idle (obs h) \<Longrightarrow> v AND 0x01 = 0 \<Longrightarrow> \<not> ob_bad (obs h')"
    and out_reg: "r \<noteq> R_command \<Longrightarrow> r \<noteq> R_data \<Longrightarrow> r = R_control \<longrightarrow> v AND 0x04 = 0 \<Longrightarrow>
           later ((obs h)\<lparr>ob_tf := put_reg r v (ob_tf (obs h))\<rparr>) (obs (ata_out port r v h))"
    and out_cmd: "ob_idle (obs h) \<Longrightarrow> tf_request c (ob_tf (obs h)) = Some (w, a, n) \<Longrightarrow> a + n \<le> nsec \<Longrightarrow>
           drop_bit 4 (ucast (tf_select (ob_tf (obs h)))) AND 1 = dev \<Longrightarrow>
           c = ATA_C_READ_DMA_EXT \<or> c = ATA_C_WRITE_DMA_EXT \<longrightarrow> lba48 \<Longrightarrow>
           c = ATA_C_READ_DMA \<or> c = ATA_C_WRITE_DMA \<longrightarrow> a + n \<le> 2 ^ 28 \<Longrightarrow>
           later ((obs h)\<lparr>ob_xfer := Some (w, a, n, 0), ob_idle := False, ob_bad := False, ob_avail := 0\<rparr>) (obs (ata_out port R_command c h))"
    and spd_in_later: "spd_in port s h = (v, h') \<Longrightarrow> later (obs h) (obs h')"
    and spd_in_ifc: "spd_in port SPD_R_IF_CTRL h = (v, h') \<Longrightarrow> v = ob_ifc (obs h)"
    and spd_in_xfr: "spd_in port SPD_R_XFR_CTRL h = (v, h') \<Longrightarrow> v = ob_xfr (obs h)"
    and spd_in_dbuf: "spd_in port SPD_R_DBUF h = (v, h') \<Longrightarrow> unat (v AND 0x1F) \<le> ob_avail (obs h')"
    and spd_out_ifc: "later ((obs h)\<lparr>ob_ifc := v\<rparr>) (obs (spd_out port SPD_R_IF_CTRL v h))"
    and spd_out_xfr: "later ((obs h)\<lparr>ob_xfr := v\<rparr>) (obs (spd_out port SPD_R_XFR_CTRL v h))"
    and spd_out_dbuf: "later ((obs h)\<lparr>ob_avail := 0\<rparr>) (obs (spd_out port SPD_R_DBUF v h))"
    and spd_out_other: "s \<in> {SPD_R_INTR_MASK, SPD_R_DMA_CTRL, SPD_R_PIO_DIR, SPD_R_PIO_DATA} \<Longrightarrow> later (obs h) (obs (spd_out port s v h))"
    and delay_later: "later (obs h) (obs (k_delay port t h))"
    and signal_later: "later (obs h) (obs (k_signal port h))"
    and sema_later: "k_sema port h = (res, h') \<Longrightarrow> later (obs h) (obs h')"
    and alarm_set: "k_set_alarm port e h = (res, h') \<Longrightarrow> later ((obs h)\<lparr>ob_armed := (0 \<le> res), ob_pat := ob_pat (obs h')\<rparr>) (obs h')"
    and alarm_cancel: "later ((obs h)\<lparr>ob_armed := False\<rparr>) (obs (k_cancel_alarm port h))"
    and wait_later: "k_wait port h = (qs, h') \<Longrightarrow> later ((obs h)\<lparr>ob_armed := (ob_armed (obs h) \<and> Irq_alarm \<notin> set qs)\<rparr>) (obs h')"
    and wait_ends: "k_wait port h = (qs, h') \<Longrightarrow> ob_armed (obs h) \<Longrightarrow> Irq_ata \<in> set qs \<or> Irq_alarm \<in> set qs"
    and wait_patience: "k_wait port h = (qs, h') \<Longrightarrow> ob_armed (obs h) \<Longrightarrow> Irq_alarm \<notin> set qs \<Longrightarrow> ob_pat (obs h') < ob_pat (obs h)"
    and dma_in_law: "dma_in port bcr h = (d, h') \<Longrightarrow> ob_xfer (obs h) = Some (False, a, n, p) \<Longrightarrow> path_set False (obs h) \<Longrightarrow>
           bcr_bytes bcr = k * 512 \<Longrightarrow> k \<le> ob_avail (obs h) \<Longrightarrow> p + k \<le> n * bps \<Longrightarrow>
           length d = k * 512 \<and> later ((obs h)\<lparr>ob_xfer := Some (False, a, n, p + k), ob_avail := 0\<rparr>) (obs h')
             \<and> (\<not> ob_bad (obs h') \<longrightarrow> d = sectors (ob_blk (obs h)) (a * bps + p) k)"
    and dma_out_law: "ob_xfer (obs h) = Some (True, a, n, p) \<Longrightarrow> path_set True (obs h) \<Longrightarrow> bcr_bytes bcr = k * 512 \<Longrightarrow> length d = k * 512 \<Longrightarrow>
           k \<le> ob_avail (obs h) \<Longrightarrow> p + k \<le> n * bps \<Longrightarrow>
           \<exists>b. later ((obs h)\<lparr>ob_xfer := Some (True, a, n, p + k), ob_avail := 0, ob_blk := b\<rparr>) (obs (dma_out port bcr d h))
             \<and> (\<forall>j. j < a * bps \<or> (a + n) * bps \<le> j \<longrightarrow> b j = ob_blk (obs h) j)
             \<and> (\<not> ob_bad (obs (dma_out port bcr d h)) \<longrightarrow> b = upd_sectors (ob_blk (obs h)) (a * bps + p) k 512 d)"
    and blk_length: "length (ob_blk (obs h) j) = 512"
    and bps_pos: "0 < bps"
    and nsec_bound: "nsec \<le> 2 ^ 48"
    and dev_bit: "dev < 2"
begin

section \<open>Accesses that leave the transfer alone\<close>

lemma snd_in_later: "later (obs h) (obs (snd (ata_in port r h)))"
  using in_later [of r h "fst (ata_in port r h)" "snd (ata_in port r h)"] by simp

lemma snd_spd_in_later: "later (obs h) (obs (snd (spd_in port s h)))"
  using spd_in_later [of s h "fst (spd_in port s h)" "snd (spd_in port s h)"] by simp

lemma SpdIntrEnable_later: "later (obs h) (obs (SpdIntrEnable port m h))"
  by (auto simp: SpdIntrEnable_def split: prod.split intro: later_trans [OF spd_in_later spd_out_other])

lemma SpdIntrDisable_later: "later (obs h) (obs (SpdIntrDisable port m h))"
  by (auto simp: SpdIntrDisable_def split: prod.split intro: later_trans [OF spd_in_later spd_out_other])

lemma SpdSetLED_later: "later (obs h) (obs (SpdSetLED port dvr ctl h))"
  by (auto simp: SpdSetLED_def spd_out_other split: prod.split
      intro: later_trans [OF spd_in_later later_trans [OF spd_out_other later_trans [OF spd_in_later spd_out_other]]])

lemma get_error_later: "sceAtaGetError port h = (e, h') \<Longrightarrow> later (obs h) (obs h')"
  by (auto simp: sceAtaGetError_def split: prod.splits intro: in_later)

lemma wait_busy_loop_later: "wait_busy_loop port bits n h = (r, h') \<Longrightarrow> later (obs h) (obs h') \<and> (r = 0 \<or> r = ATA_RES_ERR_TIMEOUT)"
proof (induction n arbitrary: h)
  case (Suc n)
  obtain v h1 where i: "ata_in port R_control h = (v, h1)" by (cases "ata_in port R_control h") auto
  show ?case
  proof (cases "v AND bits = 0")
    case True
    then show ?thesis using Suc.prems i in_later [OF i] by simp
  next
    case False
    define h2 where "h2 = (if (79 - n) div 10 = 0 then h1 else k_delay port (busy_delay ((79 - n) div 10)) h1)"
    have "wait_busy_loop port bits n h2 = (r, h')" using Suc.prems i False by (simp add: Let_def h2_def)
    then have "later (obs h2) (obs h') \<and> (r = 0 \<or> r = ATA_RES_ERR_TIMEOUT)" by (rule Suc.IH)
    moreover have "later (obs h1) (obs h2)" by (simp add: h2_def delay_later)
    ultimately show ?thesis using in_later [OF i] by (blast intro: later_trans)
  qed
qed simp

lemma wait_busy_loop_zero:
  assumes "wait_busy_loop port bits n h = (0, h')"
  shows "\<exists>h1 v. later (obs h) (obs h1) \<and> ata_in port R_control h1 = (v, h') \<and> v AND bits = 0"
  using assms
proof (induction n arbitrary: h)
  case (Suc n)
  obtain v h1 where i: "ata_in port R_control h = (v, h1)" by (cases "ata_in port R_control h") auto
  show ?case
  proof (cases "v AND bits = 0")
    case True
    then show ?thesis using Suc.prems i by (intro exI [of _ h] exI [of _ v]) simp
  next
    case False
    define h2 where "h2 = (if (79 - n) div 10 = 0 then h1 else k_delay port (busy_delay ((79 - n) div 10)) h1)"
    have "wait_busy_loop port bits n h2 = (0, h')" using Suc.prems i False by (simp add: Let_def h2_def)
    from Suc.IH [OF this] obtain h3 v' where "later (obs h2) (obs h3)" "ata_in port R_control h3 = (v', h')" "v' AND bits = 0" by blast
    moreover have "later (obs h) (obs h2)" using in_later [OF i] by (rule later_trans) (simp add: h2_def delay_later)
    ultimately show ?thesis by (blast intro: later_trans)
  qed
qed simp

lemma bus_busy_later: "ata_wait_bus_busy port h = (r, h') \<Longrightarrow> later (obs h) (obs h') \<and> (r = 0 \<or> r = ATA_RES_ERR_TIMEOUT)"
  unfolding ata_wait_bus_busy_def gen_ata_wait_busy_def by (rule wait_busy_loop_later)

lemma bus_busy_idle: "ata_wait_bus_busy port h = (0, h') \<Longrightarrow> ob_idle (obs h')"
  unfolding ata_wait_bus_busy_def gen_ata_wait_busy_def by (drule wait_busy_loop_zero) (elim exE conjE, rule in_ready)

lemma wait_busy_later: "ata_wait_busy port h = (r, h') \<Longrightarrow> later (obs h) (obs h') \<and> (r = 0 \<or> r = ATA_RES_ERR_TIMEOUT)"
  unfolding ata_wait_busy_def gen_ata_wait_busy_def by (rule wait_busy_loop_later)

lemma moved_all_later: "later u v \<Longrightarrow> moved_all bps v = moved_all bps u"
  by (simp add: later_def moved_all_def)

lemma wait_busy_idle: "ata_wait_busy port h = (0, h') \<Longrightarrow> moved_all bps (obs h) \<Longrightarrow> ob_idle (obs h')"
  unfolding ata_wait_busy_def gen_ata_wait_busy_def
  by (drule wait_busy_loop_zero, elim exE conjE, erule in_rest) (auto simp: moved_all_later)

lemma device_select_later:
  assumes "ata_device_select port d h = (r, h')"
  shows "(\<exists>t. later ((obs h)\<lparr>ob_tf := t\<rparr>) (obs h')) \<and> r \<le> 0 \<and> (r = 0 \<longrightarrow> ob_idle (obs h'))"
proof -
  obtain r1 h1 where w: "ata_wait_bus_busy port h = (r1, h1)" by (cases "ata_wait_bus_busy port h") auto
  have id: "\<exists>t. later ((obs h)\<lparr>ob_tf := t\<rparr>) (obs k)" if "later (obs h) (obs k)" for k
    using later_tf [OF that, of "ob_tf (obs k)"] by (intro exI [of _ "ob_tf (obs k)"]) simp
  note l1 = bus_busy_later [OF w]
  show ?thesis
  proof (cases "r1 < 0")
    case True
    then show ?thesis using assms w l1 id [of h1] by (auto simp: ata_device_select_def)
  next
    case False
    then have r1: "r1 = 0" using l1 by auto
    obtain s h2 where i: "ata_in port R_select h1 = (s, h2)" by (cases "ata_in port R_select h1") auto
    have l2: "later (obs h) (obs h2)" using l1 in_later [OF i] later_trans by blast
    have idle2: "ob_idle (obs h2)" using bus_busy_idle w r1 in_later [OF i] by (auto simp: later_def)
    show ?thesis
    proof (cases "drop_bit 4 s AND 1 = d")
      case True
      then show ?thesis using assms w r1 i id [OF l2] idle2 by (auto simp: ata_device_select_def)
    next
      case False
      define h3 where "h3 = ata_out port R_select (push_bit 4 (d AND 1)) h2"
      define h4 where "h4 = snd (ata_in port R_control (snd (ata_in port R_control h3)))"
      have e: "ata_wait_bus_busy port h4 = (r, h')"
        using assms w r1 i False by (simp add: ata_device_select_def h3_def h4_def Let_def)
      have "later ((obs h2)\<lparr>ob_tf := put_reg R_select (push_bit 4 (d AND 1)) (ob_tf (obs h2))\<rparr>) (obs h3)"
        unfolding h3_def by (rule out_reg) auto
      then obtain t where "later ((obs h2)\<lparr>ob_tf := t\<rparr>) (obs h3)" by blast
      then have "later ((obs h)\<lparr>ob_tf := t\<rparr>) (obs h3)" using later_tf [OF l2] later_trans by blast
      then have "later ((obs h)\<lparr>ob_tf := t\<rparr>) (obs h4)" unfolding h4_def by (blast intro: later_trans snd_in_later)
      then have "later ((obs h)\<lparr>ob_tf := t\<rparr>) (obs h')" using bus_busy_later [OF e] later_trans by blast
      moreover have "r \<le> 0" using bus_busy_later [OF e] by auto
      moreover have "r = 0 \<longrightarrow> ob_idle (obs h')" using bus_busy_idle e by blast
      ultimately show ?thesis by blast
    qed
  qed
qed

section \<open>Issuing a transfer\<close>

lemma fold_out_later:
  "\<forall>(r, v) \<in> set rvs. r \<noteq> R_command \<and> r \<noteq> R_data \<and> (r = R_control \<longrightarrow> v AND 0x04 = 0) \<Longrightarrow>
     later ((obs h)\<lparr>ob_tf := put_regs rvs (ob_tf (obs h))\<rparr>) (obs (fold (\<lambda>(r, v). ata_out port r v) rvs h))"
proof (induction rvs arbitrary: h)
  case (Cons rv rvs)
  obtain r v where rv: "rv = (r, v)" by (cases rv)
  let ?h = "ata_out port r v h"
  have 1: "later ((obs h)\<lparr>ob_tf := put_reg r v (ob_tf (obs h))\<rparr>) (obs ?h)"
    using Cons.prems by (intro out_reg) (auto simp: rv)
  then have tf: "ob_tf (obs ?h) = put_reg r v (ob_tf (obs h))" by (simp add: later_def)
  have "later ((obs ?h)\<lparr>ob_tf := put_regs rvs (ob_tf (obs ?h))\<rparr>) (obs (fold (\<lambda>(r, v). ata_out port r v) rvs ?h))"
    using Cons.prems by (intro Cons.IH) auto
  moreover have "later ((obs h)\<lparr>ob_tf := put_regs rvs (ob_tf (obs ?h))\<rparr>) ((obs ?h)\<lparr>ob_tf := put_regs rvs (ob_tf (obs ?h))\<rparr>)"
    using later_tf [OF 1] by simp
  ultimately show ?case unfolding rv by (simp add: put_regs_def tf later_trans)
qed (simp add: put_regs_def)

lemma task_regs_ok: "\<forall>(r, v) \<in> set (task_regs ext tm q). r \<noteq> R_command \<and> r \<noteq> R_data \<and> (r = R_control \<longrightarrow> v AND 0x04 = 0)"
  by (auto simp: task_regs_def)

lemma send_request:
  assumes "ob_idle (obs h)" "ext \<longrightarrow> lba48" "dir = 0 \<or> dir = 1" "0 < n" "unat lba < (if ext then 2 ^ 48 else 2 ^ 28)"
    and "unat lba + io_count ext n \<le> nsec" "\<not> ext \<longrightarrow> unat lba + io_count ext n \<le> 2 ^ 28" and r: "r = io_setup ext dev lba n dir"
    and h': "h' = send_task_file port (cmd_type port 0 (io_command r)) tm 0 (io_len r) (io_sector r) (io_lcyl r) (io_hcyl r) (io_select r) (io_command r) h"
  shows "later ((obs h)\<lparr>ob_tf := ob_tf (obs h'), ob_xfer := Some (dir = 1, unat lba, io_count ext n, 0), ob_idle := False, ob_bad := False, ob_avail := 0\<rparr>) (obs h')"
proof -
  have ty: "(cmd_type port 0 (io_command r) AND 0x80 \<noteq> 0) = ext" by (simp add: r cmd_type_dma)
  have c: "io_command r AND 0xFF = io_command r" by (simp add: r io_setup_def)
  define tf where "tf = put_regs (task_regs ext tm r) (ob_tf (obs h))"
  define k where "k = fold (\<lambda>(r, v). ata_out port r v) (task_regs ext tm r) h"
  have h'k: "h' = ata_out port R_command (io_command r) k" unfolding h' send_task_file_regs ty c k_def ..
  have l: "later ((obs h)\<lparr>ob_tf := tf\<rparr>) (obs k)" unfolding tf_def k_def by (rule fold_out_later) (rule task_regs_ok)
  then have tfk: "ob_tf (obs k) = tf" and idle: "ob_idle (obs k)" using assms(1) by (auto simp: later_def)
  have req: "tf_request (io_command r) tf = Some (dir = 1, unat lba, io_count ext n)"
    unfolding tf_def r by (rule request_decoded [OF dev_bit assms(3,4,5)])
  have sel: "drop_bit 4 (ucast (tf_select tf)) AND 1 = dev" unfolding tf_def r by (rule io_setup_select(1) [OF dev_bit])
  have ext: "io_command r = ATA_C_READ_DMA_EXT \<or> io_command r = ATA_C_WRITE_DMA_EXT \<longrightarrow> lba48"
    using assms(2) by (auto simp: r io_setup_def split: if_splits)
  have lim: "io_command r = ATA_C_READ_DMA \<or> io_command r = ATA_C_WRITE_DMA \<longrightarrow> unat lba + io_count ext n \<le> 2 ^ 28"
    using assms(7) by (auto simp: r io_setup_def split: if_splits)
  have "later ((obs k)\<lparr>ob_xfer := Some (dir = 1, unat lba, io_count ext n, 0), ob_idle := False, ob_bad := False, ob_avail := 0\<rparr>) (obs h')"
    unfolding h'k using out_cmd [OF idle] tfk req sel ext lim assms(6) by simp
  then show ?thesis using l by (auto simp: later_def)
qed

text \<open>What the driver keeps through every access: its configuration; the table of devices is at most cleared.\<close>

definition same_cfg :: "'h ata \<Rightarrow> 'h ata \<Rightarrow> bool" where
  "same_cfg st st' \<longleftrightarrow> at_dvrp st' = at_dvrp st \<and> at_gamestar st' = at_gamestar st
     \<and> (at_devinfo st' = at_devinfo st \<or> at_devinfo st' = [no_device, no_device])"

lemma same_cfg_refl [simp]: "same_cfg st st"
  by (simp add: same_cfg_def)

lemma same_cfg_trans: "same_cfg st st1 \<Longrightarrow> same_cfg st1 st2 \<Longrightarrow> same_cfg st st2"
  by (auto simp: same_cfg_def)

lemma same_cfg_hw [simp]: "same_cfg st (set_ahw h st') = same_cfg st st'" "same_cfg st (st'\<lparr>at_evflg := v\<rparr>) = same_cfg st st'"
  by (simp_all add: same_cfg_def set_ahw_def)

lemma exec_dma:
  assumes "ext \<longrightarrow> lba48" "dir = 0 \<or> dir = 1" "0 < n" "unat lba < (if ext then 2 ^ 48 else 2 ^ 28)"
    and "unat lba + io_count ext n \<le> nsec" "\<not> ext \<longrightarrow> unat lba + io_count ext n \<le> 2 ^ 28" and r: "r = io_setup ext dev lba n dir"
    and e: "sceAtaExecCmd port buf (ucast (io_len r)) 0 (io_len r) (io_sector r) (io_lcyl r) (io_hcyl r) (io_select r) (io_command r) st = (res, st')"
  shows "at_mem st' = at_mem st \<and> same_cfg st st' \<and> ob_blk (obs (at_hw st')) = ob_blk (obs (at_hw st))
      \<and> ob_ifc (obs (at_hw st')) = ob_ifc (obs (at_hw st)) \<and> ob_xfr (obs (at_hw st')) = ob_xfr (obs (at_hw st))
      \<and> (res = 0 \<longrightarrow> ob_xfer (obs (at_hw st')) = Some (dir = 1, unat lba, io_count ext n, 0) \<and> ob_armed (obs (at_hw st'))
           \<and> at_evflg st' = 0 \<and> cs_dir (at_cmd st') = dir \<and> cs_type (at_cmd st') = 4
           \<and> cs_blkcount (at_cmd st') = ucast (io_len r) \<and> cs_buf (at_cmd st') = buf)"
proof -
  obtain r1 h1 where s: "ata_device_select port (drop_bit 4 (io_select r) AND 1) (at_hw st) = (r1, h1)"
    by (cases "ata_device_select port (drop_bit 4 (io_select r) AND 1) (at_hw st)") auto
  obtain t where sel: "later ((obs (at_hw st))\<lparr>ob_tf := t\<rparr>) (obs h1)" "r1 = 0 \<longrightarrow> ob_idle (obs h1)"
    using device_select_later [OF s] by blast
  obtain c h2 where i: "ata_in port R_control h1 = (c, h2)" by (cases "ata_in port R_control h1") auto
  obtain r3 h3 where a: "k_set_alarm port False h2 = (r3, h3)" by (cases "k_set_alarm port False h2") auto
  have ty: "cmd_type port 0 (io_command r) = (if ext then 0x84 else 4)" by (simp add: r cmd_type_dma)
  define p :: u8 where "p = cmd_type port 0 (io_command r) AND 0x7F"
  have p: "p = 4" by (simp add: p_def ty)
  have c: "io_command r \<noteq> ATA_C_SCE_SECURITY_CONTROL" "\<not> needs_no_ready (io_command r)"
    by (auto simp: r io_setup_def needs_no_ready_def)
  have d: "(if io_command r \<noteq> ATA_C_READ_DMA \<and> io_command r \<noteq> ATA_C_READ_DMA_EXT then 1 else 0) = dir"
    using assms(2) by (auto simp: r io_setup_def)
  define h4 where "h4 = send_task_file port (cmd_type port 0 (io_command r)) True 0 (io_len r) (io_sector r) (io_lcyl r) (io_hcyl r) (io_select r) (io_command r) h3"
  note l = sel in_later [OF i] alarm_set [OF a]
  define X where "X = st\<lparr>at_evflg := 0, at_cmd := (at_cmd st)\<lparr>cs_type := 4, cs_buf := buf, cs_blkcount := ucast (io_len r)\<rparr>\<rparr>"
  define Y where "Y = X\<lparr>at_cmd := (at_cmd X)\<lparr>cs_dir := dir\<rparr>\<rparr>"
  have "(res, st') = (ATA_RES_ERR_NODEV, st\<lparr>at_evflg := 0\<rparr>) \<or> r1 \<noteq> 0 \<and> (res, st') = (r1, set_ahw h1 (st\<lparr>at_evflg := 0\<rparr>))
      \<or> (res, st') = (ATA_RES_ERR_NOTREADY, set_ahw h2 X) \<or> r3 < 0 \<and> (res, st') = (r3, set_ahw h3 Y)
      \<or> r1 = 0 \<and> 0 \<le> r3 \<and> (res, st') = (0, set_ahw (SpdSetLED port (dev9_has_dvr_capability st) True h4) Y)"
    using e s i a p c d by (auto simp: sceAtaExecCmd_def exec_start_def Let_def set_ahw_def h4_def p_def X_def Y_def split: if_splits)
  then show ?thesis
  proof (elim disjE conjE)
    assume z: "r1 = 0" "0 \<le> r3" "(res, st') = (0, set_ahw (SpdSetLED port (dev9_has_dvr_capability st) True h4) Y)"
    have "ob_idle (obs h3)" using l z(1) by (auto simp: later_def)
    from send_request [OF this assms(1-6) r h4_def] SpdSetLED_later [of h4 "dev9_has_dvr_capability st" True]
    show ?thesis using l z by (auto simp: later_def X_def Y_def set_ahw_def same_cfg_def)
  qed (use l in \<open>auto simp: later_def X_def Y_def set_ahw_def same_cfg_def\<close>)
qed

end

end
