(* ===== verification/Ata_Wait.thy ===== *)
theory Ata_Wait
  imports Ata_Drive
begin

text \<open>
  The transfer of a DMA command over a drive that follows the contract: \<open>ata_dma_complete\<close> moves the blocks and returns, and
  when \<open>sceAtaWaitResult\<close> reports success they are the drive's.
\<close>

lemma length_load_mem [simp]: "length (load_mem m a n) = n"
  by (simp add: load_mem_def)

lemma load_mem_add: "load_mem m a (j + k) = load_mem m a j @ load_mem m (a + j) k"
  by (rule nth_equalityI) (auto simp: load_mem_def nth_append)

lemma load_store_same [simp]: "n = length d \<Longrightarrow> load_mem (store_mem m a d) a n = d"
  by (rule nth_equalityI) (auto simp: load_mem_def store_mem_def)

lemma load_mem_cong: "(\<And>i. a \<le> i \<Longrightarrow> i < a + n \<Longrightarrow> m i = m' i) \<Longrightarrow> load_mem m a n = load_mem m' a n"
  by (simp add: load_mem_def)

lemma store_mem_outside [simp]: "i < a \<or> a + length d \<le> i \<Longrightarrow> store_mem m a d i = m i"
  by (auto simp: store_mem_def)

lemma bcr_blocks: "unat c \<le> 31 \<Longrightarrow> bcr_bytes (push_bit 9 (c * 512) OR 32) = unat c * 512"
proof -
  assume a: "unat c \<le> 31"
  then have "unat (take_bit 5 c) = unat c" by (simp add: unsigned_take_bit_eq take_bit_nat_eq_self)
  then have c: "take_bit 5 c = c" by (rule unsigned_word_eqI)
  have e: "push_bit 9 (c * 512) OR 32 = push_bit 9 (push_bit 9 c) OR push_bit 5 1" by (simp add: push_bit_eq_mult)
  have hi: "drop_bit 16 (push_bit 9 (push_bit 9 (take_bit 5 y)) OR push_bit 5 1) = (push_bit 2 (take_bit 5 y) :: u32)" for y
    by (rule bit_word_eqI) (auto simp: bit_simps)
  have lo: "take_bit 16 (push_bit 9 (push_bit 9 (take_bit 5 y)) OR push_bit 5 1) = (push_bit 5 1 :: u32)" for y
    by (rule bit_word_eqI) (auto simp: bit_simps)
  have m: "x AND 0xFFFF = take_bit 16 x" for x :: u32 by (simp add: take_bit_eq_mask mask_eq_exp_minus_1)
  have "unat (push_bit 2 c) = unat c * 4" using a by (simp add: push_bit_eq_mult unat_word_ariths)
  then show ?thesis unfolding bcr_bytes_def e m hi [of c, unfolded c] lo [of c, unfolded c] by simp
qed

lemma bit_two: "bit (2 :: u32) n \<longleftrightarrow> n = 1"
proof -
  have "(2 :: u32) = push_bit 1 1" by simp
  then show ?thesis by (simp only: bit_push_bit_iff) (auto simp: bit_1_iff)
qed

context ata_drive
begin

section \<open>Waiting for an interrupt\<close>

definition calm :: "'h ata \<Rightarrow> 'h ata \<Rightarrow> bool" where
  "calm st st' \<longleftrightarrow> at_mem st' = at_mem st \<and> at_cmd st' = at_cmd st \<and> at_evflg st' = at_evflg st \<and> same_cfg st st'
     \<and> later ((obs (at_hw st))\<lparr>ob_armed := False\<rparr>) (obs (at_hw st'))"

lemma later_unarmed: "later u v \<Longrightarrow> later (u\<lparr>ob_armed := False\<rparr>) v"
  by (simp add: later_def)

lemma calm_hw: "later (obs (at_hw st)) (obs h) \<Longrightarrow> calm st (set_ahw h st)"
  by (simp add: calm_def set_ahw_def same_cfg_def later_unarmed)

lemma calm_trans: "calm st st1 \<Longrightarrow> calm st1 st2 \<Longrightarrow> calm st st2"
  unfolding calm_def by (auto simp: later_def intro: same_cfg_trans)

lemma fold_irq:
  assumes "st' = fold (run_irq port) qs st"
  shows "at_mem st' = at_mem st \<and> at_cmd st' = at_cmd st \<and> same_cfg st st' \<and> later (obs (at_hw st)) (obs (at_hw st'))"
    and "bit (at_evflg st') n = (bit (at_evflg st) n \<or> Irq_alarm \<in> set qs \<and> n = 0 \<or> Irq_ata \<in> set qs \<and> n = 1)"
proof -
  have "at_mem st' = at_mem st \<and> at_cmd st' = at_cmd st \<and> same_cfg st st' \<and> later (obs (at_hw st)) (obs (at_hw st'))
      \<and> bit (at_evflg st') n = (bit (at_evflg st) n \<or> Irq_alarm \<in> set qs \<and> n = 0 \<or> Irq_ata \<in> set qs \<and> n = 1)"
    using assms
  proof (induction qs arbitrary: st)
    case (Cons q qs)
    let ?s = "run_irq port q st"
    have s: "at_mem ?s = at_mem st \<and> at_cmd ?s = at_cmd st \<and> same_cfg st ?s \<and> later (obs (at_hw st)) (obs (at_hw ?s))"
      by (cases q) (simp_all add: run_irq_def ata_intr_cb_def ata_alarm_cb_def set_ahw_def same_cfg_def SpdIntrDisable_later)
    have ev: "bit (at_evflg ?s) n = (bit (at_evflg st) n \<or> q = Irq_alarm \<and> n = 0 \<or> q = Irq_ata \<and> n = 1)"
    proof -
      have "at_evflg ?s = at_evflg st OR (if q = Irq_alarm then ATA_EV_TIMEOUT else if q = Irq_ata then ATA_EV_COMPLETE else 0)"
        by (cases q) (simp_all add: run_irq_def ata_intr_cb_def ata_alarm_cb_def set_ahw_def)
      then show ?thesis by (simp only: bit_or_iff bit_two bit_1_iff bit_0_eq bot_apply if_distrib [of "\<lambda>x. bit x n"]) auto
    qed
    have "st' = fold (run_irq port) qs ?s" using Cons.prems by simp
    note ih = Cons.IH [OF this]
    have "bit (at_evflg st') n = (bit (at_evflg st) n \<or> Irq_alarm \<in> set (q # qs) \<and> n = 0 \<or> Irq_ata \<in> set (q # qs) \<and> n = 1)"
      using ih ev by (cases q) auto
    then show ?case using ih s same_cfg_trans [of st ?s st'] later_trans [of "obs (at_hw st)" "obs (at_hw ?s)"] by simp
  qed simp
  then show "at_mem st' = at_mem st \<and> at_cmd st' = at_cmd st \<and> same_cfg st st' \<and> later (obs (at_hw st)) (obs (at_hw st'))"
    and "bit (at_evflg st') n = (bit (at_evflg st) n \<or> Irq_alarm \<in> set qs \<and> n = 0 \<or> Irq_ata \<in> set qs \<and> n = 1)"
    by blast+
qed

lemma wait_ev_armed:
  assumes "ob_armed (obs (at_hw st))" "at_evflg st = 0"
  obtains bits st' where "wait_ev port st = Some (bits, st')" "calm st st'"
    "bits AND ATA_EV_TIMEOUT = 0 \<Longrightarrow> ob_armed (obs (at_hw st')) \<and> ob_pat (obs (at_hw st')) < ob_pat (obs (at_hw st))"
proof -
  obtain qs h where w: "k_wait port (at_hw st) = (qs, h)" by (cases "k_wait port (at_hw st)") auto
  define s where "s = fold (run_irq port) qs (set_ahw h st)"
  note f = fold_irq [OF s_def]
  have sel: "at_mem (set_ahw h st) = at_mem st" "at_cmd (set_ahw h st) = at_cmd st" "at_hw (set_ahw h st) = h" "at_evflg (set_ahw h st) = 0"
    using assms(2) by (simp_all add: set_ahw_def)
  have ev: "at_evflg s = (if Irq_alarm \<in> set qs then ATA_EV_TIMEOUT else 0) OR (if Irq_ata \<in> set qs then ATA_EV_COMPLETE else 0)"
    by (rule bit_word_eqI, simp only: f(2) sel bit_or_iff bit_two bit_1_iff bit_0_eq bot_apply if_distrib [of "\<lambda>x. bit x _"]) auto
  note l = wait_later [OF w]
  have c: "calm st (s\<lparr>at_evflg := 0\<rparr>)"
  proof -
    have "same_cfg st s" using f(1) by (auto simp: same_cfg_def set_ahw_def)
    moreover have "later ((obs (at_hw st))\<lparr>ob_armed := False\<rparr>) (obs (at_hw s))"
      using later_trans [OF l f(1) [THEN conjunct2, THEN conjunct2, THEN conjunct2, unfolded sel]] by (simp add: later_def)
    ultimately show ?thesis using f(1) sel assms(2) by (simp add: calm_def)
  qed
  have "Irq_ata \<in> set qs \<or> Irq_alarm \<in> set qs" by (rule wait_ends [OF w assms(1)])
  then have nz: "at_evflg s AND 3 \<noteq> 0" by (auto simp: ev)
  have a: "ob_armed (obs (at_hw s)) \<and> ob_pat (obs (at_hw s)) < ob_pat (obs (at_hw st))" if "at_evflg s AND ATA_EV_TIMEOUT = 0"
  proof -
    have "Irq_alarm \<notin> set qs" using that by (auto simp: ev split: if_splits)
    then show ?thesis using wait_patience [OF w assms(1)] l f(1) sel assms(1) by (auto simp: later_def)
  qed
  show ?thesis
    by (rule that [of "at_evflg s" "s\<lparr>at_evflg := 0\<rparr>"]) (use nz c a in \<open>simp_all add: wait_ev_def w s_def [symmetric] Let_def\<close>)
qed

section \<open>One DMA transfer\<close>

text \<open>The state while blocks move: \<open>p\<close> of them have, between the buffer at \<open>buf\<close> and the sectors from \<open>a\<close>. \<open>m0\<close> and \<open>b0\<close> are
  the memory and the drive's blocks at the start.\<close>

definition frame :: "bool \<Rightarrow> nat \<Rightarrow> nat \<Rightarrow> nat \<Rightarrow> (nat \<Rightarrow> u8) \<Rightarrow> (nat \<Rightarrow> bytes) \<Rightarrow> (nat \<Rightarrow> u8) \<Rightarrow> (nat \<Rightarrow> bytes) \<Rightarrow> bool" where
  "frame w a n buf m0 b0 m b \<longleftrightarrow>
     (if w then m = m0 \<and> (\<forall>j. j < a * bps \<or> (a + n) * bps \<le> j \<longrightarrow> b j = b0 j)
      else b = b0 \<and> (\<forall>i. i < buf \<or> buf + n * bps * 512 \<le> i \<longrightarrow> m i = m0 i))"

definition moved :: "bool \<Rightarrow> nat \<Rightarrow> nat \<Rightarrow> nat \<Rightarrow> (nat \<Rightarrow> u8) \<Rightarrow> (nat \<Rightarrow> bytes) \<Rightarrow> (nat \<Rightarrow> u8) \<Rightarrow> (nat \<Rightarrow> bytes) \<Rightarrow> bool" where
  "moved w a p buf m0 b0 m b \<longleftrightarrow>
     (if w then b = upd_sectors b0 (a * bps) p 512 (load_mem m0 buf (p * 512))
      else load_mem m buf (p * 512) = sectors b0 (a * bps) p)"

definition moving :: "bool \<Rightarrow> nat \<Rightarrow> nat \<Rightarrow> nat \<Rightarrow> (nat \<Rightarrow> u8) \<Rightarrow> (nat \<Rightarrow> bytes) \<Rightarrow> nat \<Rightarrow> 'h ata \<Rightarrow> bool" where
  "moving w a n buf m0 b0 p st \<longleftrightarrow>
     (let u = obs (at_hw st) in
        ob_xfer u = Some (w, a, n, p) \<and> ob_ifc u AND 0x4E = (if w then 0x4C else 0x4E)
        \<and> ob_xfr u = (if w then 1 else 0) OR (if at_gamestar st then 0x86 else 0x6)
        \<and> frame w a n buf m0 b0 (at_mem st) (ob_blk u) \<and> (\<not> ob_bad u \<longrightarrow> moved w a p buf m0 b0 (at_mem st) (ob_blk u)))"

lemma moving_calm: "calm st st' \<Longrightarrow> moving w a n buf m0 b0 p st \<Longrightarrow> moving w a n buf m0 b0 p st'"
  by (auto simp: moving_def calm_def later_def same_cfg_def Let_def)

lemma moving_in:
  assumes "moving False a n buf m0 b0 p st" "length d = k * 512" "p + k \<le> n * bps"
    and "ob_xfer v = Some (False, a, n, p + k)" "ob_ifc v = ob_ifc (obs (at_hw st))" "ob_blk v = ob_blk (obs (at_hw st))"
    and "\<not> ob_bad v \<longrightarrow> \<not> ob_bad (obs (at_hw st)) \<and> d = sectors (ob_blk (obs (at_hw st))) (a * bps + p) k"
  shows "frame False a n buf m0 b0 (store_mem (at_mem st) (buf + p * 512) d) (ob_blk v)
      \<and> (\<not> ob_bad v \<longrightarrow> moved False a (p + k) buf m0 b0 (store_mem (at_mem st) (buf + p * 512) d) (ob_blk v))"
proof -
  have "(p + k) * 512 \<le> n * bps * 512" using assms(3) by (rule mult_right_mono) simp
  then have le: "p * 512 + length d \<le> n * bps * 512" using assms(2) by simp
  have "load_mem (store_mem (at_mem st) (buf + p * 512) d) buf ((p + k) * 512) = load_mem (at_mem st) buf (p * 512) @ d"
    using assms(2) by (simp add: distrib_right load_mem_add load_mem_cong [of buf "p * 512" "store_mem (at_mem st) (buf + p * 512) d" "at_mem st"])
  then show ?thesis using assms le by (auto simp: moving_def frame_def moved_def Let_def sectors_add)
qed

lemma moving_out:
  assumes "moving True a n buf m0 b0 p st" "\<forall>j. j < a * bps \<or> (a + n) * bps \<le> j \<longrightarrow> b j = ob_blk (obs (at_hw st)) j"
    and "ob_blk v = b"
    and "\<not> ob_bad v \<longrightarrow> \<not> ob_bad (obs (at_hw st)) \<and> b = upd_sectors (ob_blk (obs (at_hw st))) (a * bps + p) k 512 (load_mem (at_mem st) (buf + p * 512) (k * 512))"
  shows "frame True a n buf m0 b0 (at_mem st) (ob_blk v) \<and> (\<not> ob_bad v \<longrightarrow> moved True a (p + k) buf m0 b0 (at_mem st) (ob_blk v))"
proof -
  have "upd_sectors (upd_sectors b0 (a * bps) p 512 (load_mem m0 buf (p * 512))) (a * bps + p) k 512 (load_mem m0 (buf + p * 512) (k * 512))
      = upd_sectors b0 (a * bps) (p + k) 512 (load_mem m0 buf ((p + k) * 512))"
    by (simp add: upd_sectors_add distrib_right load_mem_add)
  then show ?thesis using assms by (auto simp: moving_def frame_def moved_def Let_def)
qed

lemma pre_dma: "later ((obs h)\<lparr>ob_xfr := ob_xfr (obs h) OR 0x80\<rparr>) (obs (ata_pre_dma_cb port h))"
proof -
  obtain v h1 where i: "spd_in port SPD_R_XFR_CTRL h = (v, h1)" by (cases "spd_in port SPD_R_XFR_CTRL h") auto
  show ?thesis using spd_in_later [OF i] spd_in_xfr [OF i] spd_out_xfr [where h = h1 and v = "v OR 0x80"]
    by (auto simp: ata_pre_dma_cb_def i later_def)
qed

lemma post_dma: "later ((obs h)\<lparr>ob_xfr := ob_xfr (obs h) AND NOT 0x80\<rparr>) (obs (ata_post_dma_cb port h))"
proof -
  obtain v h1 where i: "spd_in port SPD_R_XFR_CTRL h = (v, h1)" by (cases "spd_in port SPD_R_XFR_CTRL h") auto
  show ?thesis using spd_in_later [OF i] spd_in_xfr [OF i] spd_out_xfr [where h = h1 and v = "v AND NOT 0x80"]
    by (auto simp: ata_post_dma_cb_def i later_def)
qed

text \<open>The transfer register around a transfer: the DMA bit is set for its duration, by the callbacks or for good.\<close>

definition opened :: "'h ata \<Rightarrow> 'h \<Rightarrow> 'h" where
  "opened st h = (if at_gamestar st then h else ata_pre_dma_cb port h)"

definition closed :: "'h ata \<Rightarrow> 'h \<Rightarrow> 'h" where
  "closed st h = (if at_gamestar st then h else ata_post_dma_cb port h)"

definition xfr_val :: "bool \<Rightarrow> bool \<Rightarrow> u16" where
  "xfr_val w g = (if w then 1 else 0) OR (if g then 0x86 else 0x6)"

lemma opened_later:
  assumes "ob_xfr (obs h) = xfr_val w (at_gamestar st)"
  shows "later ((obs h)\<lparr>ob_xfr := xfr_val w True\<rparr>) (obs (opened st h))"
  using assms pre_dma [of h] by (auto simp: opened_def xfr_val_def later_def split: if_splits)

lemma closed_later:
  assumes "ob_xfr (obs h) = xfr_val w True"
  shows "later ((obs h)\<lparr>ob_xfr := xfr_val w (at_gamestar st)\<rparr>) (obs (closed st h))"
  using assms post_dma [of h] by (auto simp: closed_def xfr_val_def later_def split: if_splits)

lemma chan_moves:
  assumes "moving w a n buf m0 b0 p st" "later ((obs (at_hw st))\<lparr>ob_xfr := xfr_val w True\<rparr>) (obs h)" "bcr_bytes bcr = k * 512"
    and "k \<le> ob_avail (obs (at_hw st))" "p + k \<le> n * bps"
    and c: "dma_chan port bcr (buf + p * 512) (if w then 1 else 0) (bcr_bytes bcr) (at_mem st) h = (m, h')"
  shows "ob_xfer (obs h') = Some (w, a, n, p + k) \<and> ob_ifc (obs h') = ob_ifc (obs (at_hw st)) \<and> ob_xfr (obs h') = xfr_val w True
      \<and> (ob_armed (obs (at_hw st)) \<longrightarrow> ob_armed (obs h')) \<and> ob_pat (obs h') \<le> ob_pat (obs (at_hw st))
      \<and> frame w a n buf m0 b0 m (ob_blk (obs h')) \<and> (\<not> ob_bad (obs h') \<longrightarrow> moved w a (p + k) buf m0 b0 m (ob_blk (obs h')))"
proof -
  have x: "ob_xfer (obs h) = Some (w, a, n, p)" and i: "ob_ifc (obs h) AND 0x4E = (if w then 0x4C else 0x4E)"
    using assms(1,2) by (auto simp: moving_def later_def Let_def)
  have path: "path_set w (obs h)" using i assms(2) by (auto simp: path_set_def xfr_val_def later_def)
  have av: "k \<le> ob_avail (obs h)" using assms(2,4) by (simp add: later_def)
  show ?thesis
  proof (cases w)
    case False
    then have f: "w = False" by simp
    obtain d where d: "dma_in port bcr h = (d, h')" "m = store_mem (at_mem st) (buf + p * 512) d"
      using c False by (auto simp: dma_chan_def split: prod.splits)
    have law: "length d = k * 512" "later ((obs h)\<lparr>ob_xfer := Some (False, a, n, p + k), ob_avail := 0\<rparr>) (obs h')"
      "\<not> ob_bad (obs h') \<longrightarrow> d = sectors (ob_blk (obs h)) (a * bps + p) k"
      using dma_in_law [OF d(1) x [unfolded f] path [unfolded f] assms(3) av assms(5)] False by simp_all
    have "frame False a n buf m0 b0 m (ob_blk (obs h')) \<and> (\<not> ob_bad (obs h') \<longrightarrow> moved False a (p + k) buf m0 b0 m (ob_blk (obs h')))"
      unfolding d(2) by (rule moving_in [where k = k]) (use assms(1,2,5) law False in \<open>auto simp: later_def\<close>)
    then show ?thesis using law assms(2) False by (auto simp: later_def)
  next
    case True
    then have f: "w = True" by simp
    let ?d = "load_mem (at_mem st) (buf + p * 512) (k * 512)"
    have e: "h' = dma_out port bcr ?d h" "m = at_mem st" using c True assms(3) by (auto simp: dma_chan_def)
    obtain b where b: "later ((obs h)\<lparr>ob_xfer := Some (True, a, n, p + k), ob_avail := 0, ob_blk := b\<rparr>) (obs h')"
      "\<forall>j. j < a * bps \<or> (a + n) * bps \<le> j \<longrightarrow> b j = ob_blk (obs h) j"
      "\<not> ob_bad (obs h') \<longrightarrow> b = upd_sectors (ob_blk (obs h)) (a * bps + p) k 512 ?d"
      using dma_out_law [OF x [unfolded f] path [unfolded f] assms(3) _ av assms(5), of ?d] e by auto
    have "frame True a n buf m0 b0 m (ob_blk (obs h')) \<and> (\<not> ob_bad (obs h') \<longrightarrow> moved True a (p + k) buf m0 b0 m (ob_blk (obs h')))"
      unfolding e(2) by (rule moving_out [where b = b]) (use assms(1,2) b True in \<open>auto simp: later_def\<close>)
    then show ?thesis using b assms(2) True by (auto simp: later_def)
  qed
qed

lemma dma_transfer:
  assumes "moving w a n buf m0 b0 p st" "bcr_bytes bcr = k * 512" "k \<le> ob_avail (obs (at_hw st))" "p + k \<le> n * bps"
    and t: "SpdDmaTransfer port (buf + p * 512) bcr (if w then 1 else 0) st = (res, st')"
  shows "at_cmd st' = at_cmd st \<and> at_evflg st' = at_evflg st \<and> same_cfg st st' \<and> (ob_armed (obs (at_hw st)) \<longrightarrow> ob_armed (obs (at_hw st')))
      \<and> ob_pat (obs (at_hw st')) \<le> ob_pat (obs (at_hw st))
      \<and> (if res < 0 then moving w a n buf m0 b0 p st' else moving w a n buf m0 b0 (p + k) st')"
proof -
  obtain r1 h1 where s: "k_sema port (at_hw st) = (r1, h1)" by (cases "k_sema port (at_hw st)") auto
  obtain v h2 where i: "spd_in port SPD_R_REV_1 h1 = (v, h2)" by (cases "spd_in port SPD_R_REV_1 h1") auto
  define h3 where "h3 = spd_out port SPD_R_DMA_CTRL (if v < 17 then 0x04 else 0x06) h2"
  obtain m h5 where c: "dma_chan port bcr (buf + p * 512) (if w then 1 else 0) (bcr_bytes bcr) (at_mem st) (opened st h3) = (m, h5)"
    by (cases "dma_chan port bcr (buf + p * 512) (if w then 1 else 0) (bcr_bytes bcr) (at_mem st) (opened st h3)") auto
  have l3: "later (obs (at_hw st)) (obs h3)"
    unfolding h3_def by (blast intro: later_trans sema_later [OF s] spd_in_later [OF i] spd_out_other insertI1 insertI2)
  show ?thesis
  proof (cases "r1 < 0")
    case True
    have "calm st st'" using t s True calm_hw [OF sema_later [OF s]] by (simp add: SpdDmaTransfer_def)
    then show ?thesis
      using t s True assms(1) moving_calm [OF \<open>calm st st'\<close>] sema_later [OF s]
      by (auto simp: SpdDmaTransfer_def set_ahw_def calm_def later_def)
  next
    case False
    have e: "res = 0" "st' = (set_ahw (k_signal port (closed st h5)) st)\<lparr>at_mem := m\<rparr>"
      using t s i False c by (auto simp: SpdDmaTransfer_def Let_def h3_def opened_def closed_def)
    have xv: "ob_xfr (obs (at_hw st)) = xfr_val w (at_gamestar st)" using assms(1) by (simp add: moving_def xfr_val_def Let_def)
    then have "ob_xfr (obs h3) = xfr_val w (at_gamestar st)" using l3 by (simp add: later_def)
    from opened_later [OF this] have "later ((obs (at_hw st))\<lparr>ob_xfr := xfr_val w True\<rparr>) (obs (opened st h3))" using l3 by (auto simp: later_def)
    note cm = chan_moves [OF assms(1) this assms(2-4) c]
    have "later ((obs h5)\<lparr>ob_xfr := xfr_val w (at_gamestar st)\<rparr>) (obs (k_signal port (closed st h5)))"
      using later_trans [OF closed_later signal_later] cm by blast
    then show ?thesis using cm e assms(1) by (auto simp: later_def moving_def set_ahw_def same_cfg_def xfr_val_def Let_def)
  qed
qed

end

lemma unat_and_1F: "unat (v AND 0x1F :: u16) \<le> 31"
proof -
  have "v AND 0x1F = take_bit 5 v" by (simp add: take_bit_eq_mask mask_eq_exp_minus_1)
  then have "unat (v AND 0x1F) = take_bit 5 (unat v)" by (simp add: unsigned_take_bit_eq)
  then show ?thesis using take_bit_nat_less_exp [of 5 "unat v"] by simp
qed

context ata_drive
begin

section \<open>The DMA loop\<close>

lemma poll_dbuf_later:
  "poll_dbuf port n h = (s, h') \<Longrightarrow> later (obs h) (obs h') \<and> unat s \<le> 31 \<and> unat s \<le> ob_avail (obs h')"
proof (induction n arbitrary: h)
  case (Suc n)
  obtain v h1 where i: "spd_in port SPD_R_DBUF h = (v, h1)" by (cases "spd_in port SPD_R_DBUF h") auto
  show ?case
  proof (cases "v AND 0x1F = 0")
    case True
    then have "poll_dbuf port n h1 = (s, h')" using Suc.prems i by simp
    from Suc.IH [OF this] show ?thesis using later_trans [OF spd_in_later [OF i]] by blast
  next
    case False
    then show ?thesis using Suc.prems i spd_in_later [OF i] spd_in_dbuf [OF i] unat_and_1F [of v] by auto
  qed
qed simp

lemma dma_error_later: "dma_error port h = (res, h') \<Longrightarrow> later (obs h) (obs h') \<and> res < 0"
proof -
  assume e: "dma_error port h = (res, h')"
  define h1 where "h1 = snd (ata_in port R_status h)"
  define h2 where "h2 = snd (sceAtaGetError port h1)"
  obtain v where v: "sceAtaGetError port h2 = (v, h')" "res < 0"
    using e by (auto simp: dma_error_def Let_def h1_def h2_def split: prod.splits if_splits)
  have "later (obs h1) (obs h2)" unfolding h2_def by (rule get_error_later [OF prod.collapse [symmetric]])
  then show ?thesis using v get_error_later [OF v(1)] snd_in_later [of h R_status] by (auto simp: h1_def intro: later_trans)
qed

lemma dma_round_cases:
  assumes "ob_armed (obs (at_hw st))" "at_evflg st = 0"
  obtains (move) s st' where "dma_round port st = Some (Transfer s st')" "calm st st'" "ob_armed (obs (at_hw st'))" "unat s \<le> 31"
      "unat s \<le> ob_avail (obs (at_hw st'))" "ob_pat (obs (at_hw st')) \<le> ob_pat (obs (at_hw st))"
      "s \<noteq> 0 \<or> ob_pat (obs (at_hw st')) < ob_pat (obs (at_hw st))"
    | (again) st' where "dma_round port st = Some (Again st')" "calm st st'" "ob_armed (obs (at_hw st'))"
      "ob_pat (obs (at_hw st')) < ob_pat (obs (at_hw st))"
    | (stop) res st' where "dma_round port st = Some (Stop res st')" "calm st st'" "res < 0"
proof -
  obtain s h1 where p: "poll_dbuf port 20 (at_hw st) = (s, h1)" by (cases "poll_dbuf port 20 (at_hw st)") auto
  note l1 = poll_dbuf_later [OF p]
  show ?thesis
  proof (cases "s = 0")
    case False
    show ?thesis
      by (rule move [of s "set_ahw h1 st"]) (use p False l1 assms(1) calm_hw [of st h1] in \<open>auto simp: dma_round_def set_ahw_def later_def\<close>)
  next
    case True
    define st2 where "st2 = set_ahw (SpdIntrEnable port (SPD_INTR_ATA port) h1) st"
    have l2: "later (obs (at_hw st)) (obs (at_hw st2))"
      using l1 SpdIntrEnable_later later_trans unfolding st2_def set_ahw_def by fastforce
    have c2: "calm st st2" unfolding st2_def using l2 by (intro calm_hw) (simp add: st2_def set_ahw_def)
    have "ob_armed (obs (at_hw st2))" "at_evflg st2 = 0" using l2 assms by (auto simp: later_def st2_def set_ahw_def)
    then obtain bits st3 where w: "wait_ev port st2 = Some (bits, st3)" "calm st2 st3"
      "bits AND ATA_EV_TIMEOUT = 0 \<Longrightarrow> ob_armed (obs (at_hw st3)) \<and> ob_pat (obs (at_hw st3)) < ob_pat (obs (at_hw st2))"
      by (rule wait_ev_armed) blast
    note c3 = calm_trans [OF c2 w(2)]
    show ?thesis
    proof (cases "bits AND ATA_EV_TIMEOUT = 0")
      case False
      show ?thesis by (rule stop [of ATA_RES_ERR_TIMEOUT st3]) (use p True w(1) False c3 in \<open>simp_all add: dma_round_def st2_def\<close>)
    next
      case t: True
      obtain v h4 where i: "spd_in port SPD_R_INTR_STAT (at_hw st3) = (v, h4)" by (cases "spd_in port SPD_R_INTR_STAT (at_hw st3)") auto
      obtain cv h5 where cv: "ata_in port R_control h4 = (cv, h5)" by (cases "ata_in port R_control h4") auto
      obtain r h6 where r: "dma_error port h5 = (r, h6)" by (cases "dma_error port h5") auto
      obtain dv h7 where dv: "spd_in port SPD_R_DBUF h4 = (dv, h7)" by (cases "spd_in port SPD_R_DBUF h4") auto
      have l5: "later (obs (at_hw st3)) (obs h5)" using later_trans [OF spd_in_later [OF i] in_later [OF cv]] .
      have l6: "later (obs (at_hw st3)) (obs h6)" using later_trans [OF l5] dma_error_later [OF r] by blast
      have l7: "later (obs (at_hw st3)) (obs h7)" using later_trans [OF spd_in_later [OF i] spd_in_later [OF dv]] .
      have arm: "ob_armed (obs (at_hw st3))" "ob_pat (obs (at_hw st3)) < ob_pat (obs (at_hw st))"
        using w(3) [OF t] l2 by (auto simp: later_def)
      consider "v AND 0x02 = 0" "cv AND 0x01 \<noteq> 0" | "v AND 0x02 = 0" "cv AND 0x01 = 0" | "v AND 0x02 \<noteq> 0" by blast
      then show ?thesis
      proof cases
        case 1
        show ?thesis
          by (rule stop [of r "set_ahw h6 st3"])
            (use p True w(1) t i cv r 1 dma_error_later [OF r] calm_trans [OF c3 calm_hw [OF l6]] in \<open>simp_all add: dma_round_def st2_def\<close>)
      next
        case 2
        show ?thesis
          by (rule again [of "set_ahw h5 st3"])
            (use p True w(1) t i cv 2 calm_trans [OF c3 calm_hw [OF l5]] arm l5 in \<open>simp_all add: dma_round_def st2_def set_ahw_def later_def\<close>)
      next
        case 3
        show ?thesis
          by (rule move [of "dv AND 0x1F" "set_ahw h7 st3"])
            (use p True w(1) t i dv 3 calm_trans [OF c3 calm_hw [OF l7]] arm l7 spd_in_dbuf [OF dv] unat_and_1F [of dv]
              in \<open>simp_all add: dma_round_def st2_def set_ahw_def later_def\<close>)
      qed
    qed
  qed
qed

lemma dma_complete_moves:
  assumes "moving w a n buf m0 b0 p st" "ob_armed (obs (at_hw st))" "at_evflg st = 0" "p + unat blkcount = n * bps"
  shows "\<exists>res st'. ata_dma_complete port (buf + p * 512) blkcount (if w then 1 else 0) st = Some (res, st') \<and> at_cmd st' = at_cmd st
      \<and> same_cfg st st' \<and> res \<le> 0 \<and> (\<exists>p'. moving w a n buf m0 b0 p' st')
      \<and> (res = 0 \<longrightarrow> moving w a n buf m0 b0 (n * bps) st' \<and> ob_armed (obs (at_hw st')) \<and> at_evflg st' = 0)"
  using assms
proof (induction "(unat blkcount, ob_pat (obs (at_hw st)))" arbitrary: blkcount p st rule: wf_induct_rule [OF wf_lex_prod [OF wf_less wf_less]])
  case 1
  note IH = 1(1) and m = 1(2) and arm = 1(3) and ev = 1(4) and sum = 1(5)
  show ?case
  proof (cases "blkcount = 0")
    case True
    then show ?thesis using m arm ev sum by (subst ata_dma_complete.simps) auto
  next
    case False
    show ?thesis
      using arm ev
    proof (cases rule: dma_round_cases)
      case (stop res st')
      then show ?thesis using m moving_calm [OF stop(2) m] False by (subst ata_dma_complete.simps) (auto simp: calm_def)
    next
      case (again st')
      have "\<exists>res s. ata_dma_complete port (buf + p * 512) blkcount (if w then 1 else 0) st' = Some (res, s) \<and> at_cmd s = at_cmd st'
          \<and> same_cfg st' s \<and> res \<le> 0 \<and> (\<exists>p'. moving w a n buf m0 b0 p' s)
          \<and> (res = 0 \<longrightarrow> moving w a n buf m0 b0 (n * bps) s \<and> ob_armed (obs (at_hw s)) \<and> at_evflg s = 0)"
        by (rule IH) (use again moving_calm [OF again(2) m] sum ev in \<open>auto simp: calm_def\<close>)
      then show ?thesis using again False by (subst ata_dma_complete.simps) (auto simp: calm_def intro: same_cfg_trans)
    next
      case (move s st')
      define count where "count = (if blkcount < ucast s then blkcount else ucast s)"
      have cnt: "unat count = min (unat blkcount) (unat s)" by (simp add: count_def word_less_nat_alt min_def)
      obtain res st2 where t: "SpdDmaTransfer port (buf + p * 512) (push_bit 9 (count * 512) OR 32) (if w then 1 else 0) st' = (res, st2)"
        by (cases "SpdDmaTransfer port (buf + p * 512) (push_bit 9 (count * 512) OR 32) (if w then 1 else 0) st'") auto
      have k: "unat count \<le> 31" "unat count \<le> ob_avail (obs (at_hw st'))" "p + unat count \<le> n * bps" using move cnt sum by auto
      note d = dma_transfer [OF moving_calm [OF move(2) m] bcr_blocks [OF k(1)] k(2,3) t]
      have step: "ata_dma_complete port (buf + p * 512) blkcount (if w then 1 else 0) st =
          (if res < 0 then Some (res, st2) else ata_dma_complete port (buf + p * 512 + unat (count * 512)) (blkcount - count) (if w then 1 else 0) st2)"
        by (subst ata_dma_complete.simps) (simp add: False move(1) t count_def [symmetric] Let_def)
      have cfg: "at_cmd st2 = at_cmd st" "same_cfg st st2" using d move(2) by (auto simp: calm_def intro: same_cfg_trans)
      show ?thesis
      proof (cases "res < 0")
        case True
        then show ?thesis using step d cfg by auto
      next
        case False
        have b: "buf + p * 512 + unat (count * 512) = buf + (p + unat count) * 512" 
        proof -
          have "unat (count * 512) = unat count * 512" using k(1) by (simp add: unat_word_ariths(2))
          then show ?thesis by simp
        qed
        have bl: "unat (blkcount - count) = unat blkcount - unat count" by (rule unat_sub_le) (simp add: word_le_nat_alt cnt)
        have dec: "((unat (blkcount - count), ob_pat (obs (at_hw st2))), unat blkcount, ob_pat (obs (at_hw st))) \<in> {(x, y). x < y} <*lex*> {(x, y). x < y}"
        proof (cases "s = 0")
          case True
          have "ob_pat (obs (at_hw st2)) < ob_pat (obs (at_hw st))" using d move(7) True by linarith
          moreover have "unat (blkcount - count) = unat blkcount" using bl cnt True by simp
          ultimately show ?thesis by simp
        next
          case f: False
          have "0 < unat s" "0 < unat blkcount" using f \<open>blkcount \<noteq> 0\<close> by (simp_all add: unat_gt_0)
          then have "unat (blkcount - count) < unat blkcount" using bl cnt by simp
          then show ?thesis by simp
        qed
        have "\<exists>res' s'. ata_dma_complete port (buf + (p + unat count) * 512) (blkcount - count) (if w then 1 else 0) st2 = Some (res', s') \<and> at_cmd s' = at_cmd st2
            \<and> same_cfg st2 s' \<and> res' \<le> 0 \<and> (\<exists>p'. moving w a n buf m0 b0 p' s')
            \<and> (res' = 0 \<longrightarrow> moving w a n buf m0 b0 (n * bps) s' \<and> ob_armed (obs (at_hw s')) \<and> at_evflg s' = 0)"
          by (rule IH [OF dec]) (use d False move sum ev bl cnt in \<open>auto simp: calm_def\<close>)
        then show ?thesis using step False b cfg by (auto intro: same_cfg_trans)
      qed
    qed
  qed
qed

section \<open>The result of a transfer\<close>

lemma poll_intr_later: "poll_intr port n h = (b, h') \<Longrightarrow> later (obs h) (obs h')"
proof (induction n arbitrary: h)
  case (Suc n)
  obtain v h1 where i: "spd_in port SPD_R_INTR_STAT h = (v, h1)" by (cases "spd_in port SPD_R_INTR_STAT h") auto
  show ?case using Suc.prems Suc.IH [of h1] i spd_in_later [OF i] later_trans by (auto split: if_splits)
qed simp

lemma dma_end_calm:
  assumes "ob_armed (obs (at_hw st))" "at_evflg st = 0"
  shows "\<exists>res st'. dma_end port st = Some (res, st') \<and> calm st st'"
proof -
  obtain b h1 where p: "poll_intr port 100 (at_hw st) = (b, h1)" by (cases "poll_intr port 100 (at_hw st)") auto
  note l1 = poll_intr_later [OF p]
  show ?thesis
  proof (cases b)
    case True
    then show ?thesis using p calm_hw [OF l1] by (simp add: dma_end_def)
  next
    case False
    define st2 where "st2 = set_ahw (SpdIntrEnable port (SPD_INTR_ATA0 port) h1) st"
    have l2: "later (obs (at_hw st)) (obs (at_hw st2))"
      using l1 SpdIntrEnable_later later_trans unfolding st2_def set_ahw_def by fastforce
    have c2: "calm st st2" unfolding st2_def using l2 by (intro calm_hw) (simp add: st2_def set_ahw_def)
    have "ob_armed (obs (at_hw st2))" "at_evflg st2 = 0" using l2 assms by (auto simp: later_def st2_def set_ahw_def)
    then obtain bits st3 where w: "wait_ev port st2 = Some (bits, st3)" "calm st2 st3" by (rule wait_ev_armed) blast
    define h4 where "h4 = snd (spd_in port SPD_R_INTR_MASK (snd (spd_in port SPD_R_INTR_STAT (snd (spd_in port SPD_R_DBUF (at_hw st3))))))"
    have "later (obs (at_hw st3)) (obs h4)" unfolding h4_def by (blast intro: later_trans snd_spd_in_later)
    then have "calm st (set_ahw h4 st3)" using calm_trans [OF calm_trans [OF c2 w(2)] calm_hw] by blast
    then show ?thesis using p False w calm_trans [OF c2 w(2)] by (auto simp: dma_end_def st2_def h4_def Let_def)
  qed
qed

lemma wait_status_later:
  assumes "wait_status port h = (res, h')"
  shows "later (obs h) (obs h') \<and> (res = 0 \<longrightarrow> moved_all bps (obs h) \<longrightarrow> \<not> ob_bad (obs h'))"
proof -
  obtain s h1 where i: "ata_in port R_status h = (s, h1)" by (cases "ata_in port R_status h") auto
  obtain r2 h2 where b: "(if s AND 0x80 \<noteq> 0 then ata_wait_busy port h1 else (0, h1)) = (r2, h2)"
    by (cases "if s AND 0x80 \<noteq> 0 then ata_wait_busy port h1 else (0, h1)") auto
  obtain v h3 where v: "ata_in port R_status h2 = (v, h3)" by (cases "ata_in port R_status h2") auto
  have l2: "later (obs h1) (obs h2)" using b wait_busy_later [of h1 r2 h2] by (auto split: if_splits)
  have l3: "later (obs h) (obs h3)" using later_trans [OF later_trans [OF in_later [OF i] l2] in_later [OF v]] .
  have idle: "ob_idle (obs h2)" if "r2 = 0" "moved_all bps (obs h)"
  proof (cases "s AND 0x80 = 0")
    case True
    then show ?thesis using in_rest [OF i _ True] that b by simp
  next
    case False
    then show ?thesis using b that wait_busy_idle [of h1 h2] moved_all_later [OF in_later [OF i]] by simp
  qed
  show ?thesis
  proof (cases "v AND 0x01 = 0")
    case True
    then have "res = r2" "h' = h3" using assms i b v by (auto simp: wait_status_def Let_def)
    then show ?thesis using l3 in_good [OF v idle True] by blast
  next
    case False
    define h4 where "h4 = snd (sceAtaGetError port h3)"
    obtain e where e: "sceAtaGetError port h4 = (e, h')" "res \<noteq> 0"
      using assms i b v False by (auto simp: wait_status_def Let_def h4_def split: prod.splits if_splits)
    have "later (obs h3) (obs h4)" unfolding h4_def by (rule get_error_later [OF prod.collapse [symmetric]])
    then show ?thesis using l3 e get_error_later [OF e(1)] by (auto intro: later_trans)
  qed
qed

lemma wait_finish_keeps:
  assumes "wait_finish port (r, st) = (res, st')"
  shows "res = r \<and> at_mem st' = at_mem st \<and> same_cfg st st' \<and> ob_blk (obs (at_hw st')) = ob_blk (obs (at_hw st))"
  using assms alarm_cancel [of "at_hw st"] SpdSetLED_later [of "k_cancel_alarm port (at_hw st)" "dev9_has_dvr_capability st" False]
  by (auto simp: wait_finish_def set_ahw_def later_def same_cfg_def)

text \<open>After a DMA command was accepted, \<open>sceAtaWaitResult\<close> returns, and when it reports success all blocks have moved.\<close>

lemma wait_result_dma:
  assumes "moving w a n buf m0 b0 0 st" "ob_armed (obs (at_hw st))" "at_evflg st = 0"
    and "cs_type (at_cmd st) = 4" "cs_buf (at_cmd st) = buf" "unat (cs_blkcount (at_cmd st)) = n * bps"
    and "cs_dir (at_cmd st) = (if w then 1 else 0)"
  shows "\<exists>res st'. sceAtaWaitResult port st = Some (res, st') \<and> same_cfg st st' \<and> frame w a n buf m0 b0 (at_mem st') (ob_blk (obs (at_hw st')))
      \<and> (res = 0 \<longrightarrow> moved w a (n * bps) buf m0 b0 (at_mem st') (ob_blk (obs (at_hw st'))))"
proof -
  obtain r1 st1 p' where c: "ata_dma_complete port buf (cs_blkcount (at_cmd st)) (if w then 1 else 0) st = Some (r1, st1)" "same_cfg st st1" "r1 \<le> 0"
    "moving w a n buf m0 b0 p' st1" "r1 = 0 \<longrightarrow> moving w a n buf m0 b0 (n * bps) st1 \<and> ob_armed (obs (at_hw st1)) \<and> at_evflg st1 = 0"
    using dma_complete_moves [OF assms(1,2,3), of "cs_blkcount (at_cmd st)"] assms(6) by auto
  obtain r2 st2 where d: "wait_dma port st = Some (r2, st2)" "calm st1 st2" "r2 = 0 \<longrightarrow> r1 = 0"
  proof (cases "r1 = 0")
    case True
    then obtain r2 st2 where "dma_end port st1 = Some (r2, st2)" "calm st1 st2" using dma_end_calm [of st1] c(5) by blast
    then show ?thesis using that [of r2 st2] c(1) True assms(5,7) by (simp add: wait_dma_def)
  next
    case False
    have "calm st1 st1" by (simp add: calm_def later_unarmed)
    then show ?thesis using that [of r1 st1] c(1,3) False assms(5,7) by (auto simp: wait_dma_def)
  qed
  obtain r3 h3 where ws: "wait_status port (at_hw st2) = (r3, h3)" by (cases "wait_status port (at_hw st2)") auto
  define x where "x = (if r2 \<noteq> 0 then (r2, st2) else (r3, set_ahw h3 st2))"
  obtain res st' where f: "wait_finish port x = (res, st')" by (cases "wait_finish port x") auto
  have e: "sceAtaWaitResult port st = Some (res, st')"
    using assms(4) d(1) f ws by (simp add: sceAtaWaitResult_def wait_checked_def x_def Let_def split: if_splits)
  note m2 = moving_calm [OF d(2) c(4)] and l3 = wait_status_later [OF ws]
  have k: "res = fst x" "at_mem st' = at_mem (snd x)" "same_cfg (snd x) st'" "ob_blk (obs (at_hw st')) = ob_blk (obs (at_hw (snd x)))"
    using wait_finish_keeps [of "fst x" "snd x" res st'] f by auto
  have xm: "at_mem (snd x) = at_mem st2" "ob_blk (obs (at_hw (snd x))) = ob_blk (obs (at_hw st2))" "same_cfg st2 (snd x)"
    using l3 by (simp_all add: x_def set_ahw_def later_def same_cfg_def)
  have cfg: "same_cfg st st'" using c(2) d(2) xm(3) k(3) by (auto simp: calm_def intro: same_cfg_trans)
  have fr: "frame w a n buf m0 b0 (at_mem st') (ob_blk (obs (at_hw st')))" using m2 k xm by (simp add: moving_def Let_def)
  have "moved w a (n * bps) buf m0 b0 (at_mem st') (ob_blk (obs (at_hw st')))" if "res = 0"
  proof -
    have z: "r2 = 0" "r3 = 0" using that k(1) by (auto simp: x_def split: if_splits)
    have m: "moving w a n buf m0 b0 (n * bps) st2" using c(5) d z moving_calm by blast
    then have "moved_all bps (obs (at_hw st2))" by (auto simp: moving_def moved_all_def Let_def)
    then have "\<not> ob_bad (obs (at_hw st2))" using l3 z by (auto simp: later_def)
    then show ?thesis using m k xm by (simp add: moving_def Let_def)
  qed
  then show ?thesis using e cfg fr by blast
qed

section \<open>One attempt\<close>

lemma set_dir_path:
  "later ((obs h)\<lparr>ob_ifc := (ob_ifc (obs h) AND 1) OR (if dir = 1 then 0x4C else 0x4E), ob_xfr := dir OR (if g then 0x86 else 0x6), ob_avail := 0\<rparr>)
     (obs (ata_set_dir port g dir h))"
proof -
  define h1 where "h1 = spd_out port SPD_R_DBUF 3 h"
  obtain v h2 where i: "spd_in port SPD_R_IF_CTRL h1 = (v, h2)" by (cases "spd_in port SPD_R_IF_CTRL h1") auto
  define h3 where "h3 = spd_out port SPD_R_IF_CTRL ((v AND 1) OR (if dir = 1 then 0x4C else 0x4E)) h2"
  have "ata_set_dir port g dir h = spd_out port SPD_R_XFR_CTRL (dir OR (if g then 0x86 else 0x6)) h3"
    by (simp add: ata_set_dir_def Let_def h1_def [symmetric] i h3_def)
  moreover have "later ((obs h)\<lparr>ob_avail := 0\<rparr>) (obs h1)" unfolding h1_def by (rule spd_out_dbuf)
  moreover note spd_in_later [OF i] spd_in_ifc [OF i]
  moreover have "later ((obs h2)\<lparr>ob_ifc := (v AND 1) OR (if dir = 1 then 0x4C else 0x4E)\<rparr>) (obs h3)" unfolding h3_def by (rule spd_out_ifc)
  moreover note spd_out_xfr [where h = h3 and v = "dir OR (if g then 0x86 else 0x6)"]
  ultimately show ?thesis by (auto simp: later_def)
qed

lemma ifc_dir: "((x AND 1) OR (if d then 0x4C else 0x4E) :: u16) AND 0x4E = (if d then 0x4C else 0x4E)"
proof -
  have "(x AND 1) AND (0x4E :: u16) = 0" by (rule bit_word_eqI) (auto simp: bit_simps)
  then show ?thesis by (simp add: and.commute [of _ "0x4E"] bit.conj_disj_distrib and.left_commute)
qed

end

end
