(* ===== verification/Ata_Store.thy ===== *)
theory Ata_Store
  imports Ata_Wait
begin

text \<open>
  From one command to a request: the attempts, the loop over the commands of a request, and the ATA driver as a block store.
\<close>

text \<open>What the driver must know about the device: the address width it may use.\<close>

definition ata_ready :: "u16 \<Rightarrow> bool \<Rightarrow> nat \<Rightarrow> 'h ata \<Rightarrow> bool" where
  "ata_ready dev lba48 nsec st \<longleftrightarrow> (let di = at_devinfo st ! unat dev in di_exists di \<longrightarrow>
     (if di_lba48 di then lba48 \<and> (at_dvrp st \<longrightarrow> unat (total_sectors di) + 256 \<le> 2 ^ 28) else nsec \<le> 2 ^ 28))"

context ata_drive
begin

lemma moving_start:
  assumes "ob_xfer (obs (at_hw st)) = Some (w, a, n, 0)" "ob_ifc (obs (at_hw st)) AND 0x4E = (if w then 0x4C else 0x4E)"
    and "ob_xfr (obs (at_hw st)) = (if w then 1 else 0) OR (if at_gamestar st then 0x86 else 0x6)"
  shows "moving w a n buf (at_mem st) (ob_blk (obs (at_hw st))) 0 st"
  using assms by (simp add: moving_def frame_def moved_def load_mem_def Let_def)

text \<open>The outcome of a transfer of \<open>n\<close> sectors from sector \<open>a\<close> between two states.\<close>

definition outcome :: "bool \<Rightarrow> nat \<Rightarrow> nat \<Rightarrow> nat \<Rightarrow> 'h ata \<Rightarrow> int \<Rightarrow> 'h ata \<Rightarrow> bool" where
  "outcome w a n buf st res st' \<longleftrightarrow> same_cfg st st'
     \<and> frame w a n buf (at_mem st) (ob_blk (obs (at_hw st))) (at_mem st') (ob_blk (obs (at_hw st')))
     \<and> (res = 0 \<longrightarrow> moved w a (n * bps) buf (at_mem st) (ob_blk (obs (at_hw st))) (at_mem st') (ob_blk (obs (at_hw st'))))"

lemma frame_refl [simp]: "frame w a n buf m b m b"
  by (simp add: frame_def)

text \<open>A request the loop may send as one command, and the number of blocks it counts for it.\<close>

definition sendable :: "bool \<Rightarrow> u64 \<Rightarrow> u32 \<Rightarrow> bool" where
  "sendable ext lba n \<longleftrightarrow> 0 < n \<and> unat n < 65536 \<and> unat lba + io_count ext n \<le> nsec \<and> (ext \<longrightarrow> lba48)
     \<and> (\<not> ext \<longrightarrow> unat lba + io_count ext n \<le> 2 ^ 28)"

definition counted :: "u32 option \<Rightarrow> bool" where
  "counted per \<longleftrightarrow> (case per of None \<Rightarrow> bps = 1 | Some p \<Rightarrow> unat p = bps \<and> bps * 65535 < 2 ^ 32)"

lemma io_len_count: "unat n < 65536 \<Longrightarrow> unat (io_len (io_setup ext device lba n dir)) = io_count ext n"
proof (cases ext)
  case False
  have "unat (min n 256) = min (unat n) 256" by (simp add: min_def word_le_nat_alt)
  then show ?thesis using False by (simp add: io_len_28 io_count_def)
qed (simp add: io_len_ext io_count_def word_less_nat_alt)

lemma blocks_counted:
  assumes "counted per" "unat n < 65536" "r = io_setup ext device lba n dir"
  shows "unat (case io_blocks per (io_len r) of None \<Rightarrow> ucast (io_len r) | Some b \<Rightarrow> b) = io_count ext n * bps"
proof -
  have l: "unat (io_len r) = io_count ext n" using io_len_count [OF assms(2)] assms(3) by simp
  have "io_count ext n \<le> 65535" using assms(2) by (simp add: io_count_def)
  then have "io_count ext n * bps \<le> 65535 * bps" by (rule mult_right_mono) simp
  moreover have "per = Some p \<Longrightarrow> 65535 * bps < 2 ^ 32" for p using assms(1) by (simp add: counted_def mult.commute)
  ultimately have "per = Some p \<Longrightarrow> io_count ext n * bps < 2 ^ 32" for p by (rule le_less_trans)
  then show ?thesis using assms(1) l by (auto simp: counted_def io_blocks_def unat_word_ariths split: option.splits)
qed

lemma io_try_moves:
  assumes s: "sendable ext lba n" and d: "dir = 0 \<or> dir = 1" and b: "counted per" and r: "r = io_setup ext dev lba n dir"
  shows "\<exists>again res st'. io_try port buf dir r (io_blocks per (io_len r)) st = Some (again, res, st') \<and> (again \<longrightarrow> res \<noteq> 0)
      \<and> outcome (dir = 1) (unat lba) (io_count ext n) buf st res st'"
proof -
  have lim: "unat lba < (if ext then 2 ^ 48 else 2 ^ 28)" and n: "0 < n" "unat n < 65536"
    using s nsec_bound by (auto simp: sendable_def io_count_def word_less_nat_alt)
  define st1 where "st1 = (if at_gamestar st then set_ahw (ata_set_dir port True dir (at_hw st)) st else st)"
  have l1: "later ((obs (at_hw st))\<lparr>ob_ifc := (ob_ifc (obs (at_hw st)) AND 1) OR (if dir = 1 then 0x4C else 0x4E), ob_xfr := dir OR 0x86, ob_avail := 0\<rparr>)
      (obs (at_hw st1))" if "at_gamestar st"
    using that set_dir_path [where h = "at_hw st" and dir = dir and g = True] by (simp add: st1_def set_ahw_def)
  have b1: "at_mem st1 = at_mem st" "same_cfg st st1" "ob_blk (obs (at_hw st1)) = ob_blk (obs (at_hw st))"
    using set_dir_path [where h = "at_hw st" and dir = dir and g = True] by (auto simp: st1_def set_ahw_def later_def same_cfg_def)
  obtain res2 st2 where e: "sceAtaExecCmd port buf (ucast (io_len r)) 0 (io_len r) (io_sector r) (io_lcyl r) (io_hcyl r) (io_select r) (io_command r) st1 = (res2, st2)"
    by (cases "sceAtaExecCmd port buf (ucast (io_len r)) 0 (io_len r) (io_sector r) (io_lcyl r) (io_hcyl r) (io_select r) (io_command r) st1") auto
  note x = exec_dma [OF _ d n(1) lim _ _ r e]
  have x: "at_mem st2 = at_mem st" "same_cfg st st2" "ob_blk (obs (at_hw st2)) = ob_blk (obs (at_hw st))"
    "ob_ifc (obs (at_hw st2)) = ob_ifc (obs (at_hw st1))" "ob_xfr (obs (at_hw st2)) = ob_xfr (obs (at_hw st1))"
    "res2 = 0 \<Longrightarrow> ob_xfer (obs (at_hw st2)) = Some (dir = 1, unat lba, io_count ext n, 0) \<and> ob_armed (obs (at_hw st2))
           \<and> at_evflg st2 = 0 \<and> cs_dir (at_cmd st2) = dir \<and> cs_type (at_cmd st2) = 4
           \<and> cs_blkcount (at_cmd st2) = ucast (io_len r) \<and> cs_buf (at_cmd st2) = buf"
    using x s b1 by (auto simp: sendable_def intro: same_cfg_trans)
  show ?thesis
  proof (cases "res2 = 0")
    case False
    then have "io_try port buf dir r (io_blocks per (io_len r)) st = Some (False, res2, st2)"
      using e by (simp add: io_try_def st1_def [symmetric] Let_def)
    then show ?thesis using False x by (intro exI [of _ False] exI [of _ res2] exI [of _ st2]) (simp add: outcome_def)
  next
    case True
    define st3 where "st3 = (case io_blocks per (io_len r) of None \<Rightarrow> st2 | Some b \<Rightarrow> st2\<lparr>at_cmd := (at_cmd st2)\<lparr>cs_blkcount := b\<rparr>\<rparr>)"
    define st4 where "st4 = (if at_gamestar st3 then st3 else set_ahw (ata_set_dir port False dir (at_hw st3)) st3)"
    have s3: "at_mem st3 = at_mem st2" "same_cfg st2 st3" "at_hw st3 = at_hw st2" "at_evflg st3 = at_evflg st2" "at_gamestar st3 = at_gamestar st"
      "unat (cs_blkcount (at_cmd st3)) = io_count ext n * bps" "cs_dir (at_cmd st3) = dir" "cs_type (at_cmd st3) = 4" "cs_buf (at_cmd st3) = buf"
      using blocks_counted [OF b n(2) r] x(2) x(6) [OF True] by (auto simp: st3_def same_cfg_def split: option.splits)
    have l4: "later ((obs (at_hw st3))\<lparr>ob_ifc := (ob_ifc (obs (at_hw st3)) AND 1) OR (if dir = 1 then 0x4C else 0x4E), ob_xfr := dir OR 0x6, ob_avail := 0\<rparr>)
        (obs (at_hw st4))" if "\<not> at_gamestar st"
      using that s3(5) set_dir_path [where h = "at_hw st3" and dir = dir and g = False] by (simp add: st4_def set_ahw_def)
    have s4: "at_mem st4 = at_mem st" "same_cfg st st4" "ob_blk (obs (at_hw st4)) = ob_blk (obs (at_hw st))" "at_gamestar st4 = at_gamestar st"
      "at_cmd st4 = at_cmd st3" "at_evflg st4 = 0" "ob_armed (obs (at_hw st4))" "ob_xfer (obs (at_hw st4)) = Some (dir = 1, unat lba, io_count ext n, 0)"
      using s3 x(1-3) x(6) [OF True] set_dir_path [where h = "at_hw st3" and dir = dir and g = False]
      by (auto simp: st4_def set_ahw_def later_def same_cfg_def)
    have path: "ob_ifc (obs (at_hw st4)) AND 0x4E = (if dir = 1 then 0x4C else 0x4E) \<and> ob_xfr (obs (at_hw st4)) = dir OR (if at_gamestar st then 0x86 else 0x6)"
    proof (cases "at_gamestar st")
      case True
      then have "st4 = st3" using s3(5) by (simp add: st4_def)
      then show ?thesis using True l1 x(4,5) s3(3) by (simp add: later_def ifc_dir)
    next
      case False
      then show ?thesis using l4 by (simp add: later_def ifc_dir)
    qed
    have dw: "dir = (if dir = 1 then 1 else 0)" using d by auto
    have mv: "moving (dir = 1) (unat lba) (io_count ext n) buf (at_mem st4) (ob_blk (obs (at_hw st4))) 0 st4"
      by (rule moving_start) (use s4 path dw in auto)
    obtain res st5 where w: "sceAtaWaitResult port st4 = Some (res, st5)" "same_cfg st4 st5"
      "frame (dir = 1) (unat lba) (io_count ext n) buf (at_mem st4) (ob_blk (obs (at_hw st4))) (at_mem st5) (ob_blk (obs (at_hw st5)))"
      "res = 0 \<longrightarrow> moved (dir = 1) (unat lba) (io_count ext n * bps) buf (at_mem st4) (ob_blk (obs (at_hw st4))) (at_mem st5) (ob_blk (obs (at_hw st5)))"
      using wait_result_dma [OF mv s4(7,6)] s4(5) s3(6-9) dw by auto
    obtain v h6 where i: "spd_in port SPD_R_IF_CTRL (at_hw st5) = (v, h6)" by (cases "spd_in port SPD_R_IF_CTRL (at_hw st5)") auto
    define st6 where "st6 = set_ahw (spd_out port SPD_R_IF_CTRL (v AND NOT (SPD_IF_DMA_ENABLE port)) h6) st5"
    have s6: "at_mem st6 = at_mem st5" "same_cfg st5 st6" "ob_blk (obs (at_hw st6)) = ob_blk (obs (at_hw st5))"
      using spd_in_later [OF i] spd_out_ifc [where h = h6 and v = "v AND NOT (SPD_IF_DMA_ENABLE port)"]
      by (auto simp: st6_def set_ahw_def later_def same_cfg_def)
    have "io_try port buf dir r (io_blocks per (io_len r)) st = Some (res = ATA_RES_ERR_ICRC, res, st6)"
      using e True w(1) i
      by (cases "at_gamestar st3") (simp_all add: io_try_def st1_def [symmetric] st3_def [symmetric] st4_def st6_def Let_def)
    moreover have "same_cfg st st6" using s4(2) w(2) s6(2) by (blast intro: same_cfg_trans)
    ultimately show ?thesis using w(3,4) s4(1,3) s6 by (simp add: outcome_def)
  qed
qed

text \<open>A device that is not there is not accessed.\<close>

lemma io_try_nodev:
  assumes "\<not> di_exists (at_devinfo st ! unat dev)" "r = io_setup ext dev lba n dir"
  shows "\<exists>st'. io_try port buf dir r blocks st = Some (False, ATA_RES_ERR_NODEV, st') \<and> same_cfg st st' \<and> at_mem st' = at_mem st
      \<and> ob_blk (obs (at_hw st')) = ob_blk (obs (at_hw st))"
proof -
  define st1 where "st1 = (if at_gamestar st then set_ahw (ata_set_dir port True dir (at_hw st)) st else st)"
  have b1: "at_mem st1 = at_mem st" "same_cfg st st1" "ob_blk (obs (at_hw st1)) = ob_blk (obs (at_hw st))" "at_devinfo st1 = at_devinfo st"
    using set_dir_path [where h = "at_hw st" and dir = dir and g = True] by (auto simp: st1_def set_ahw_def later_def same_cfg_def)
  have "drop_bit 4 (io_select r) AND 1 = dev" unfolding assms(2) by (rule io_select_dev [OF dev_bit])
  then have "sceAtaExecCmd port buf (ucast (io_len r)) 0 (io_len r) (io_sector r) (io_lcyl r) (io_hcyl r) (io_select r) (io_command r) st1
      = (ATA_RES_ERR_NODEV, st1\<lparr>at_evflg := 0\<rparr>)"
    using assms(1) b1(4) by (simp add: sceAtaExecCmd_def)
  then have "io_try port buf dir r blocks st = Some (False, ATA_RES_ERR_NODEV, st1\<lparr>at_evflg := 0\<rparr>)"
    by (simp add: io_try_def st1_def [symmetric] Let_def)
  then show ?thesis using b1 by (intro exI [of _ "st1\<lparr>at_evflg := 0\<rparr>"]) simp
qed

section \<open>A request\<close>

lemma outcome_retry:
  assumes "outcome w a n buf st res1 st1" "outcome w a n buf st1 res st'"
  shows "outcome w a n buf st res st'"
proof (cases w)
  case True
  have "upd_sectors (ob_blk (obs (at_hw st1))) (a * bps) (n * bps) 512 d = upd_sectors (ob_blk (obs (at_hw st))) (a * bps) (n * bps) 512 d" for d
    using assms(1) True by (intro ext) (auto simp: upd_sectors_def outcome_def frame_def distrib_right)
  then show ?thesis using assms True by (auto simp: outcome_def moved_def frame_def intro: same_cfg_trans)
qed (use assms in \<open>auto simp: outcome_def moved_def frame_def intro: same_cfg_trans\<close>)

lemma io_retry_moves:
  assumes s: "sendable ext lba n" and d: "dir = 0 \<or> dir = 1" and b: "counted per" and r: "r = io_setup ext dev lba n dir"
    and "0 < k \<or> res0 \<noteq> 0"
  shows "\<exists>res st'. io_retry port buf dir r (io_blocks per (io_len r)) k res0 st = Some (res, st')
      \<and> outcome (dir = 1) (unat lba) (io_count ext n) buf st res st'"
  using assms(5)
proof (induction k arbitrary: st res0)
  case 0
  then show ?case by (simp add: outcome_def)
next
  case (Suc k)
  obtain again res1 st1 where t: "io_try port buf dir r (io_blocks per (io_len r)) st = Some (again, res1, st1)" "again \<longrightarrow> res1 \<noteq> 0"
    "outcome (dir = 1) (unat lba) (io_count ext n) buf st res1 st1"
    using io_try_moves [OF s d b r, of buf st] by (elim exE conjE) (rule that)
  show ?case
  proof (cases again)
    case True
    then have "0 < k \<or> res1 \<noteq> 0" using t(2) by simp
    from Suc.IH [OF this, of st1] show ?thesis using t(1) True outcome_retry [OF t(3)] by auto
  next
    case False
    then show ?thesis using t by simp
  qed
qed

section \<open>The loop\<close>

lemma ata_ready_cfg: "ata_ready dev lba48 nsec st \<Longrightarrow> same_cfg st st' \<Longrightarrow> ata_ready dev lba48 nsec st'"
proof -
  have "unat dev < 2" using dev_bit by (simp add: word_less_nat_alt)
  then have "[no_device, no_device] ! unat dev = no_device" by (auto simp: less_2_cases_iff)
  then show "ata_ready dev lba48 nsec st \<Longrightarrow> same_cfg st st' \<Longrightarrow> ata_ready dev lba48 nsec st'" by (auto simp: ata_ready_def same_cfg_def no_device_def Let_def)
qed

lemma sendable_use:
  assumes "ata_ready dev lba48 nsec st" "di_exists (at_devinfo st ! unat dev)" "0 < n" "unat n < 65536" "unat lba + unat n \<le> nsec"
  shows "sendable (use_lba48 st dev lba) lba n"
proof -
  let ?di = "at_devinfo st ! unat dev" and ?e = "use_lba48 st dev lba"
  have c: "io_count ?e n \<le> unat n" "io_count False n \<le> 256" by (simp_all add: io_count_def)
  have "unat lba + io_count ?e n \<le> 2 ^ 28" if e: "\<not> ?e"
  proof (cases "di_lba48 ?di")
    case True
    then have "at_dvrp st" "lba < ucast (total_sectors ?di)" using e by (auto simp: use_lba48_def Let_def split: if_splits)
    then have "unat lba < unat (total_sectors ?di)" "unat (total_sectors ?di) + 256 \<le> 2 ^ 28"
      using assms(1,2) True by (auto simp: word_less_nat_alt ata_ready_def Let_def)
    then show ?thesis using c(2) e by simp
  next
    case False
    then have "nsec \<le> 2 ^ 28" using assms(1,2) by (simp add: ata_ready_def Let_def)
    then show ?thesis using c(1) assms(5) by linarith
  qed
  moreover have "?e \<longrightarrow> lba48" using assms(1,2) by (auto simp: use_lba48_def ata_ready_def Let_def split: if_splits)
  ultimately show ?thesis using assms(3-5) c(1) by (simp add: sendable_def)
qed

lemma frame_mono:
  assumes "frame w a c buf m0 b0 m b" "c \<le> n"
  shows "frame w a n buf m0 b0 m b"
proof -
  have 1: "(a + c) * bps \<le> (a + n) * bps" by (rule mult_right_mono) (use assms(2) in simp_all)
  have 2: "buf + c * bps * 512 \<le> buf + n * bps * 512" by (intro add_left_mono mult_right_mono) (use assms(2) in simp_all)
  show ?thesis using assms(1) unfolding frame_def by (auto dest: order_trans [OF 1] order_trans [OF 2])
qed

lemma outcome_seq:
  assumes "outcome w a c buf st 0 st1" "outcome w (a + c) k (buf + c * bps * 512) st1 res st'"
  shows "outcome w a (c + k) buf st res st'"
proof (cases w)
  case True
  have "upd_sectors (upd_sectors b (a * bps) (c * bps) 512 (load_mem m buf (c * bps * 512))) ((a + c) * bps) (k * bps) 512
        (load_mem m (buf + c * bps * 512) (k * bps * 512))
      = upd_sectors b (a * bps) ((c + k) * bps) 512 (load_mem m buf ((c + k) * bps * 512))" for b m
    by (simp add: upd_sectors_add distrib_right load_mem_add)
  then show ?thesis using assms True
    by (auto simp: outcome_def moved_def frame_def distrib_right intro: same_cfg_trans)
next
  case False
  have "load_mem (at_mem st') buf (c * bps * 512) = load_mem (at_mem st1) buf (c * bps * 512)"
    by (rule load_mem_cong) (use assms(2) False in \<open>simp add: outcome_def frame_def\<close>)
  then show ?thesis using assms False
    by (auto simp: outcome_def moved_def frame_def distrib_right load_mem_add sectors_add intro: same_cfg_trans)
qed

lemma io_loop_moves:
  assumes "ata_ready dev lba48 nsec st" "dir = 0 \<or> dir = 1" "counted per" "unat ssz = bps * 512" "unat n < 65536" "unat lba + unat n \<le> nsec"
  shows "\<exists>res st'. io_loop port dev per ssz dir buf lba n st = Some (res, st') \<and> outcome (dir = 1) (unat lba) (unat n) buf st res st'"
  using assms(1,5,6)
proof (induction "unat n" arbitrary: n lba buf st rule: less_induct)
  case less
  define r where "r = io_setup (use_lba48 st dev lba) dev lba n dir"
  show ?case
  proof (cases "n = 0")
    case True
    then show ?thesis by (subst io_loop.simps) (simp add: outcome_def moved_def load_mem_def)
  next
    case n: False
    show ?thesis
    proof (cases "di_exists (at_devinfo st ! unat dev)")
      case False
      obtain st' where "io_try port buf dir r (io_blocks per (io_len r)) st = Some (False, ATA_RES_ERR_NODEV, st')" "same_cfg st st'"
        "at_mem st' = at_mem st" "ob_blk (obs (at_hw st')) = ob_blk (obs (at_hw st))"
        using io_try_nodev [OF False r_def] by blast
      then show ?thesis using n by (subst io_loop.simps) (simp add: r_def [symmetric] numeral_3_eq_3 outcome_def Let_def)
    next
      case True
      have "0 < n" using n by (simp add: word_neq_0_conv)
      note s = sendable_use [OF less.prems(1) True this less.prems(2,3)]
      obtain res1 st1 where t: "io_retry port buf dir r (io_blocks per (io_len r)) 3 0 st = Some (res1, st1)"
        "outcome (dir = 1) (unat lba) (io_count (use_lba48 st dev lba) n) buf st res1 st1"
        using io_retry_moves [OF s assms(2,3) r_def, of 3 0 buf st] by auto
      define c where "c = io_count (use_lba48 st dev lba) n"
      have c: "unat (io_len r) = c" "0 < c" "c \<le> unat n"
        using io_len_count [OF less.prems(2)] \<open>0 < n\<close> by (auto simp: r_def c_def io_count_def word_less_nat_alt)
      have l: "unat (lba + ucast (io_len r)) = unat lba + c"
        using c less.prems(3) nsec_bound by (subst unat_add_lt) simp_all
      have m: "unat (n - ucast (io_len r)) = unat n - c" using c by (subst unat_sub_le) (simp_all add: word_le_nat_alt)
      have step: "io_loop port dev per ssz dir buf lba n st = (if res1 \<noteq> 0 then Some (res1, st1)
          else io_loop port dev per ssz dir (buf + c * bps * 512) (lba + ucast (io_len r)) (n - ucast (io_len r)) st1)"
        using n by (subst io_loop.simps) (simp add: r_def [symmetric] t(1) c(1) assms(4) Let_def mult.assoc)
      show ?thesis
      proof (cases "res1 = 0")
        case False
        have "outcome (dir = 1) (unat lba) (unat n) buf st res1 st1" using t(2) [folded c_def] False frame_mono [OF _ c(3)] by (simp add: outcome_def)
        then show ?thesis using step False by simp
      next
        case z: True
        have "ata_ready dev lba48 nsec st1" using ata_ready_cfg [OF less.prems(1)] t(2) by (simp add: outcome_def)
        moreover have "unat (n - ucast (io_len r)) < unat n" "unat (n - ucast (io_len r)) < 65536"
          "unat (lba + ucast (io_len r)) + unat (n - ucast (io_len r)) \<le> nsec"
          unfolding l m using c less.prems(2,3) by linarith+
        ultimately obtain res st' where
          i: "io_loop port dev per ssz dir (buf + c * bps * 512) (lba + ucast (io_len r)) (n - ucast (io_len r)) st1 = Some (res, st')"
          "outcome (dir = 1) (unat (lba + ucast (io_len r))) (unat (n - ucast (io_len r))) (buf + c * bps * 512) st1 res st'"
          using less.hyps [of "n - ucast (io_len r)" st1 "lba + ucast (io_len r)" "buf + c * bps * 512"] by blast
        from outcome_seq [OF t(2) [folded c_def, unfolded z] i(2) [unfolded l m]] show ?thesis using step z i(1) c(3) by simp
      qed
    qed
  qed
qed

end

section \<open>The disk\<close>

text \<open>A logical sector is \<open>bps\<close> blocks of 512 bytes.\<close>

definition ata_disk :: "nat \<Rightarrow> ata_obs \<Rightarrow> nat \<Rightarrow> bytes" where
  "ata_disk bps u k = sectors (ob_blk u) (k * bps) bps"

lemma sectors_group: "sectors (\<lambda>k. sectors b (k * bps) bps) a n = sectors b (a * bps) (n * bps)"
proof (induction n arbitrary: a)
  case (Suc n)
  have "sectors b (a * bps) (Suc n * bps) = sectors b (a * bps) bps @ sectors b (Suc a * bps) (n * bps)"
    using sectors_add [of b "a * bps" bps "n * bps"] by (simp add: add.commute)
  then show ?case using Suc.IH by (simp add: sectors_Suc)
qed simp

lemma upd_group:
  assumes "\<And>j. length (b j) = 512" "length d = n * bps * 512"
  shows "sectors (upd_sectors b (a * bps) (n * bps) 512 d) (k * bps) bps = upd_sectors (\<lambda>k. sectors b (k * bps) bps) a n (bps * 512) d k"
proof (cases "a \<le> k \<and> k < a + n")
  case True
  let ?f = "upd_sectors b (a * bps) (n * bps) 512 d"
  have len: "\<And>j. length (?f j) = 512" by (rule length_upd_sectors [OF assms(2,1)])
  have "(k - a) * bps + bps = Suc (k - a) * bps" by simp
  also have "\<dots> \<le> n * bps" using True by (intro mult_right_mono) auto
  finally have le: "(k - a) * bps + bps \<le> n * bps" .
  have "take (bps * 512) (drop ((k - a) * bps * 512) d) = sectors ?f (a * bps + (k - a) * bps) bps"
    using sectors_part [of ?f 512 "(k - a) * bps" bps "n * bps" "a * bps", OF len le] sectors_upd_same [OF assms(2), of b "a * bps"] by simp
  moreover have "a * bps + (k - a) * bps = k * bps" using True by (simp flip: distrib_right)
  ultimately show ?thesis using True by (simp add: upd_sectors_def mult.assoc)
next
  case False
  have "sectors (upd_sectors b (a * bps) (n * bps) 512 d) (k * bps) bps = sectors b (k * bps) bps"
  proof (rule sectors_cong)
    fix j assume j: "k * bps \<le> j" "j < k * bps + bps"
    show "upd_sectors b (a * bps) (n * bps) 512 d j = b j"
    proof (cases "k < a")
      case True
      then have "Suc k * bps \<le> a * bps" by (intro mult_right_mono) auto
      then show ?thesis using j by (intro upd_sectors_outside) simp
    next
      case f: False
      then have "(a + n) * bps \<le> k * bps" using False by (intro mult_right_mono) auto
      then show ?thesis using j by (intro upd_sectors_outside) (simp add: distrib_right)
    qed
  qed
  then show ?thesis using False by (auto simp: upd_sectors_def)
qed

lemma ata_ready_mem [simp]: "ata_ready dev lba48 nsec (st\<lparr>at_mem := m\<rparr>) = ata_ready dev lba48 nsec st"
  unfolding ata_ready_def by simp

context ata_drive
begin

lemma disk_length: "length (ata_disk bps (obs h) k) = bps * 512"
  unfolding ata_disk_def by (rule length_sectors) (rule blk_length)

lemma io_common_moves:
  assumes "ucast (devNr bd) = dev" "unat (sectorSize bd) = bps * 512" "bps * 65535 < 2 ^ 32"
    and "ata_ready dev lba48 nsec st" "dir = 0 \<or> dir = 1" "unat a + unat c \<le> nsec"
  shows "\<exists>res st'. ata_bd_io_common_2 port bd a buf c dir st = Some (res, st') \<and> outcome (dir = 1) (unat a) (unat c) buf st res st'"
proof -
  have c: "unat (ucast c :: u32) < 65536" "unat a + unat (ucast c :: u32) \<le> nsec" using assms(6) unat_lt_u16 [of c] by simp_all
  show ?thesis
  proof (cases "sectorSize bd = 512")
    case True
    then have b: "unat (512 :: u32) = bps * 512" using assms(2) by simp
    then have "counted None" unfolding counted_def by simp
    from io_loop_moves [OF assms(4,5) this b c, of buf] io64_loop_form show ?thesis
      using True assms(1) by (fastforce simp: ata_bd_io_common_2_def ata_device_sector_io64_def)
  next
    case False
    have d: "unat (sectorSize bd div 512) = bps" using assms(2) by (simp add: unat_div)
    then have nz: "sectorSize bd div 512 \<noteq> 0" using bps_pos by (metis unat_0 less_irrefl)
    have "counted (Some (sectorSize bd div 512))" using d assms(3) by (simp add: counted_def)
    from io_loop_moves [OF assms(4,5) this assms(2) c, of buf] bdm2_loop_form show ?thesis
      using False nz assms(1) by (fastforce simp: ata_bd_io_common_2_def ata_device_sector_io64_bdm_2_def)
  qed
qed

lemma read_result:
  assumes "ucast (devNr bd) = dev" "unat (sectorSize bd) = bps * 512" "bps * 65535 < 2 ^ 32"
    and "ata_ready dev lba48 nsec st" "unat a + unat c \<le> nsec"
  obtains res st' where "bd_read (ata_bd_ops port bd buf) st a c = (if res \<noteq> 0 then - EIO else int (unat c), load_mem (at_mem st') buf (unat c * (bps * 512)), st')"
    "outcome False (unat a) (unat c) buf st res st'"
  using io_common_moves [OF assms(1-4) _ assms(5), of 0 buf] assms(2)
  by (auto simp: ata_bd_ops_def ata_bd_read_def bd_result_def)

lemma write_result:
  assumes "ucast (devNr bd) = dev" "unat (sectorSize bd) = bps * 512" "bps * 65535 < 2 ^ 32"
    and "ata_ready dev lba48 nsec st" "unat a + unat c \<le> nsec"
  obtains res st' where "bd_write (ata_bd_ops port bd buf) st a d c = (if res \<noteq> 0 then - EIO else int (unat c), st')"
    "outcome True (unat a) (unat c) buf (st\<lparr>at_mem := store_mem (at_mem st) buf d\<rparr>) res st'"
proof -
  have "ata_ready dev lba48 nsec (st\<lparr>at_mem := store_mem (at_mem st) buf d\<rparr>)" using assms(4) by simp
  from io_common_moves [OF assms(1-3) this _ assms(5), of 1 buf] show ?thesis
    using that by (auto simp: ata_bd_ops_def ata_bd_write_def bd_result_def)
qed

text \<open>The driver over any drive that follows the contract is a block store.\<close>

lemma ata_block_store:
  assumes "ucast (devNr bd) = dev" "unat (sectorSize bd) = bps * 512" "bps * 65535 < 2 ^ 32"
  shows "block_store (ata_bd_ops port bd buf) (ata_ready dev lba48 nsec) (\<lambda>st. ata_disk bps (obs (at_hw st))) (bps * 512) nsec"
proof
  fix s s' :: "'h ata" and a :: u64 and c :: u16 and r :: int and d :: bytes
  assume inv: "ata_ready dev lba48 nsec s" and rng: "unat a + unat c \<le> nsec"
  {
    assume rd: "bd_read (ata_bd_ops port bd buf) s a c = (r, d, s')"
    obtain res where o: "r = (if res \<noteq> 0 then - EIO else int (unat c))" "d = load_mem (at_mem s') buf (unat c * (bps * 512))"
      "outcome False (unat a) (unat c) buf s res s'"
      using read_result [OF assms inv rng, of buf] rd by auto
    show "ata_ready dev lba48 nsec s' \<and> ata_disk bps (obs (at_hw s')) = ata_disk bps (obs (at_hw s))"
      using o(3) ata_ready_cfg [OF inv] by (auto simp: outcome_def frame_def ata_disk_def [abs_def])
    show "length d \<le> unat c * (bps * 512)" using o(2) by simp
  }
  {
    assume rd: "bd_read (ata_bd_ops port bd buf) s a c = (int (unat c), d, s')"
    obtain res where o: "int (unat c) = (if res \<noteq> 0 then - EIO else int (unat c))" "d = load_mem (at_mem s') buf (unat c * (bps * 512))"
      "outcome False (unat a) (unat c) buf s res s'"
      using read_result [OF assms inv rng, of buf] rd by auto
    have "res = 0" using o(1) by (auto split: if_splits)
    then show "d = sectors (ata_disk bps (obs (at_hw s))) (unat a) (unat c)"
      using o(2,3) by (simp add: outcome_def moved_def ata_disk_def [abs_def] sectors_group mult.assoc)
  }
  assume len: "length d = unat c * (bps * 512)"
  let ?s = "s\<lparr>at_mem := store_mem (at_mem s) buf d\<rparr>"
  {
    assume wr: "bd_write (ata_bd_ops port bd buf) s a d c = (r, s')"
    obtain res where o: "outcome True (unat a) (unat c) buf ?s res s'"
      using write_result [OF assms inv rng, of buf d] wr by auto
    show "ata_ready dev lba48 nsec s'"
      using o ata_ready_cfg [of ?s s'] inv by (simp add: outcome_def)
    show "ata_disk bps (obs (at_hw s')) k = ata_disk bps (obs (at_hw s)) k" if k: "k < unat a \<or> unat a + unat c \<le> k" for k
      unfolding ata_disk_def
    proof (rule sectors_cong)
      fix j assume j: "k * bps \<le> j" "j < k * bps + bps"
      have "j < unat a * bps \<or> (unat a + unat c) * bps \<le> j"
        using k
      proof
        assume "k < unat a"
        then have "Suc k * bps \<le> unat a * bps" by (intro mult_right_mono) auto
        then show ?thesis using j(2) by simp
      next
        assume "unat a + unat c \<le> k"
        then have "(unat a + unat c) * bps \<le> k * bps" by (intro mult_right_mono) auto
        from order_trans [OF this j(1)] show ?thesis ..
      qed
      then show "ob_blk (obs (at_hw s')) j = ob_blk (obs (at_hw s)) j" using o by (auto simp: outcome_def frame_def)
    qed
  }
  assume wr: "bd_write (ata_bd_ops port bd buf) s a d c = (int (unat c), s')"
  obtain res where o: "int (unat c) = (if res \<noteq> 0 then - EIO else int (unat c))" "outcome True (unat a) (unat c) buf ?s res s'"
    using write_result [OF assms inv rng, of buf d] wr by auto
  have "res = 0" using o(1) by (auto split: if_splits)
  then have "ob_blk (obs (at_hw s')) = upd_sectors (ob_blk (obs (at_hw s))) (unat a * bps) (unat c * bps) 512 d"
    using o(2) len by (simp add: outcome_def moved_def mult.assoc)
  then show "ata_disk bps (obs (at_hw s')) = upd_sectors (ata_disk bps (obs (at_hw s))) (unat a) (unat c) (bps * 512) d"
    using upd_group [of "ob_blk (obs (at_hw s))" d "unat c" bps "unat a"] len blk_length
    by (intro ext) (simp add: ata_disk_def [abs_def] mult.assoc)
qed (simp add: disk_length)

end

end
