(* ===== verification/Ata_Init.thy ===== *)
theory Ata_Init
  imports Ata_Io
begin

text \<open>
  Detection and start of the ATA driver (\<open>ata_device_probe\<close>, \<open>ata_init_devices\<close>, \<open>sceAtaInit\<close>, \<open>atad_probe\<close>, \<open>_start\<close> of
  \<open>ps2atad.c\<close>), its password commands, and the wait of the module that links it (\<open>bdm_hdd_wait_pops_on_mass0\<close> of \<open>usbd/usbd_usbd.c\<close>).
\<close>

section \<open>State\<close>

text \<open>The driver, the two block devices, the calls of \<open>bdm_connect_bd\<close> in order, and \<open>ata_devinfo_init\<close>.\<close>

record 'h atad =
  ad_ata :: "'h ata"
  g_ata_bd :: "block_device list"
  ad_connected :: "block_device list"
  ata_devinfo_init :: bool

definition set_dev :: "nat \<Rightarrow> (ata_devinfo \<Rightarrow> ata_devinfo) \<Rightarrow> 'h ata \<Rightarrow> 'h ata" where
  "set_dev i f st = st\<lparr>at_devinfo := (at_devinfo st)[i := f (at_devinfo st ! i)]\<rparr>"

abbreviation ad_dev :: "'h atad \<Rightarrow> nat \<Rightarrow> ata_devinfo" where
  "ad_dev s i \<equiv> at_devinfo (ad_ata s) ! i"

section \<open>Reading the identify data\<close>

definition ata_get_logical_sector_size_2 :: "(nat \<Rightarrow> u16) \<Rightarrow> u32" where
  "ata_get_logical_sector_size_2 identify_data =
     (let p = identify_data 106 in
      if p AND 0xC000 \<noteq> 0x4000 \<or> p AND 0x1000 = 0 then 512 else
      let w = (ucast (identify_data 117) OR push_bit 16 (ucast (identify_data 118)) :: u32) in
      if w < 256 \<or> w > 0xFFFFFFFF div 2 then 512 else
      let w = w * 2 in
      if w < 512 \<or> w mod 512 \<noteq> 0 then 512 else w)"

definition id_total28 :: "(nat \<Rightarrow> u16) \<Rightarrow> u32" where
  "id_total28 w = push_bit 16 (ucast (w 61)) OR ucast (w 60)"

definition id_total48 :: "(nat \<Rightarrow> u16) \<Rightarrow> u32" where
  "id_total48 w = (if w 102 \<noteq> 0 \<or> w 103 \<noteq> 0 then 0xFFFFFFFF else push_bit 16 (ucast (w 101)) OR ucast (w 100))"

definition id_total_bdm :: "(nat \<Rightarrow> u16) \<Rightarrow> u64" where
  "id_total_bdm w =
     (let t = (ucast (w 100) OR push_bit 16 (ucast (w 101)) OR push_bit 32 (ucast (w 102)) OR push_bit 48 (ucast (w 103)) :: u64) in
      if t = 0 \<or> t > 0x0000FFFFFFFFFFFF then ucast (id_total28 w) else t)"

definition id_udma :: "(nat \<Rightarrow> u16) \<Rightarrow> nat" where
  "id_udma w = (case find (\<lambda>j. bit (w 88) j) [4, 3, 2, 1, 0] of None \<Rightarrow> 4 | Some j \<Rightarrow> j)"

section \<open>Detection\<close>

definition ata_device_probe :: "'h ata_port \<Rightarrow> ata_devinfo \<Rightarrow> 'h \<Rightarrow> ata_devinfo \<times> 'h" where
  "ata_device_probe port di h =
     (let di = di\<lparr>di_exists := False, has_packet := 2\<rparr>; (c, h) = ata_in port R_control h in
      if c AND 0x88 \<noteq> 0 then (di, h) else
      let (nsector, h) = ata_in port R_nsector h; (sector, h) = ata_in port R_sector h;
          (lcyl, h) = ata_in port R_lcyl h; (hcyl, h) = ata_in port R_hcyl h; h = snd (ata_in port R_select h) in
      if nsector AND 0xFF \<noteq> 1 \<or> sector AND 0xFF \<noteq> 1 then (di, h) else
      let di = di\<lparr>di_exists := True, has_packet :=
                 (if lcyl AND 0xFF = 0 \<and> hcyl AND 0xFF = 0 then 0 else if lcyl AND 0xFF = 0x14 \<and> hcyl AND 0xFF = 0xEB then 1 else 2)\<rparr>;
          h = ata_out port R_hcyl 0xAA (ata_out port R_lcyl 0x55 h);
          (lcyl, h) = ata_in port R_lcyl h; (hcyl, h) = ata_in port R_hcyl h in
      (if lcyl AND 0xFF \<noteq> 0x55 \<or> hcyl AND 0xFF \<noteq> 0xAA then di\<lparr>di_exists := False\<rparr> else di, h))"

text \<open>The identify command of the loop of \<open>ata_init_devices\<close>.\<close>

definition identify_device :: "'h ata_port \<Rightarrow> nat \<Rightarrow> nat \<Rightarrow> 'h ata \<Rightarrow> 'h ata option" where
  "identify_device port param i st =
     (let p = has_packet (at_devinfo st ! i) in
      case (if p = 0 then ata_device_identify port (of_nat i) param st
            else if p = 1 then ata_device_pkt_identify port (of_nat i) param st else Some (0, st)) of
        None \<Rightarrow> None
      | Some (res, st) \<Rightarrow> Some (if p = 0 \<or> p = 1 then set_dev i (\<lambda>d. d\<lparr>di_exists := (res = 0)\<rparr>) st else st))"

text \<open>The three commands whose results are ignored.\<close>

definition tune_device :: "'h ata_port \<Rightarrow> nat \<Rightarrow> nat \<Rightarrow> 'h ata \<Rightarrow> 'h ata option" where
  "tune_device port i udmaMode st =
     (case ata_device_set_transfer_mode port (of_nat i) ATA_XFER_MODE_UDMA udmaMode st of
        None \<Rightarrow> None
      | Some (_, st) \<Rightarrow> (case ata_device_smart_enable port (of_nat i) st of
          None \<Rightarrow> None
        | Some (_, st) \<Rightarrow> map_option snd (sceAtaIdle port (of_nat i) 0xFF st)))"

text \<open>One turn of the loop of \<open>ata_init_devices\<close>; \<open>param\<close> is the address of \<open>ata_param\<close>.\<close>

definition init_device :: "'h ata_port \<Rightarrow> nat \<Rightarrow> nat \<Rightarrow> 'h atad \<Rightarrow> 'h atad option" where
  "init_device port param i s =
     (if \<not> di_exists (ad_dev s i) then Some s else
      case identify_device port param i (ad_ata s) of None \<Rightarrow> None | Some st \<Rightarrow>
      if \<not> di_exists (at_devinfo st ! i) \<or> has_packet (at_devinfo st ! i) \<noteq> 0 then Some (s\<lparr>ad_ata := st\<rparr>) else
      let w = (\<lambda>k. load_u16 (at_mem st) (param + 2 * k));
          st = set_dev i (\<lambda>d. d\<lparr>di_lba48 := bit (w 83) 10, security_status := ucast (w 128)\<rparr>) st;
          bd = (g_ata_bd s ! i)\<lparr>sectorSize := ata_get_logical_sector_size_2 w\<rparr>
      in case tune_device port i (id_udma w) st of None \<Rightarrow> None | Some st \<Rightarrow>
      let st = set_dev i (\<lambda>d. if di_lba48 d
                 then d\<lparr>total_sectors := (if at_dvrp st then id_total28 w else id_total48 w), total_sectors_lba48 := id_total48 w\<rparr>
                 else d\<lparr>total_sectors := id_total28 w, total_sectors_lba48 := id_total28 w\<rparr>) st;
          bd = bd\<lparr>sectorCount := (if di_lba48 (at_devinfo st ! i) then id_total_bdm w else ucast (id_total28 w))\<rparr>
      in Some (s\<lparr>ad_ata := st, g_ata_bd := (g_ata_bd s)[i := bd], ad_connected := ad_connected s @ [bd]\<rparr>))"

text \<open>The part before the loop: reset, and which of the two devices answer.\<close>

definition detect_devices :: "'h ata_port \<Rightarrow> 'h atad \<Rightarrow> int \<times> 'h atad" where
  "detect_devices port s =
     (let st = ad_ata s; (res, h) = sceAtaSoftReset port (at_hw st); st = set_ahw h st in
      if res \<noteq> 0 then (res, s\<lparr>ad_ata := st\<rparr>) else
      let (d0, h) = ata_device_probe port (at_devinfo st ! 0) (at_hw st); st = set_dev 0 (\<lambda>_. d0) (set_ahw h st) in
      if \<not> di_exists d0 then (ATA_RES_ERR_NODEV, s\<lparr>ad_ata := set_dev 1 (\<lambda>d. d\<lparr>di_exists := False\<rparr>) st\<rparr>) else
      let (res, h) = ata_device_select port 1 (at_hw st); st = set_ahw h st in
      if res \<noteq> 0 then (res, s\<lparr>ad_ata := st\<rparr>) else
      let (c, h) = ata_in port R_control (at_hw st);
          (d1, h) = (if c AND 0xFF \<noteq> 0 then ata_device_probe port (at_devinfo st ! 1) h else ((at_devinfo st ! 1)\<lparr>di_exists := False\<rparr>, h))
      in (0, s\<lparr>ad_ata := set_dev 1 (\<lambda>_. d1) (set_ahw (ata_pio_mode port h) st)\<rparr>))"

definition ata_init_devices :: "'h ata_port \<Rightarrow> nat \<Rightarrow> 'h atad \<Rightarrow> (int \<times> 'h atad) option" where
  "ata_init_devices port param s =
     (case detect_devices port s of (res, s) \<Rightarrow>
      if res \<noteq> 0 then Some (res, s) else
      case init_device port param 0 s of None \<Rightarrow> None | Some s \<Rightarrow>
      map_option (Pair 0) (init_device port param 1 s))"

definition clear_devinfo :: "'h atad \<Rightarrow> 'h atad" where
  "clear_devinfo s = s\<lparr>ad_ata := (ad_ata s)\<lparr>at_devinfo := [no_device, no_device]\<rparr>\<rparr>"

definition usable :: "ata_devinfo \<Rightarrow> bool" where
  "usable d \<longleftrightarrow> di_exists d \<and> has_packet d = 0"

text \<open>\<open>sceAtaInit\<close>, true when it does not return NULL.\<close>

definition sceAtaInit :: "'h ata_port \<Rightarrow> nat \<Rightarrow> 'h atad \<Rightarrow> (bool \<times> 'h atad) option" where
  "sceAtaInit port param s =
     (if ata_devinfo_init s then Some (True, s) else
      let s = clear_devinfo s; (res, h) = ata_bus_reset port (at_hw (ad_ata s)); s = s\<lparr>ad_ata := set_ahw h (ad_ata s)\<rparr> in
      if res \<noteq> 0 then Some (False, clear_devinfo s) else
      case ata_init_devices port param s of None \<Rightarrow> None | Some (res, s) \<Rightarrow>
      if res \<noteq> 0 \<or> (\<not> usable (ad_dev s 0) \<and> \<not> usable (ad_dev s 1)) then Some (False, clear_devinfo s)
      else Some (True, s\<lparr>ata_devinfo_init := True\<rparr>))"

definition atad_probe :: "'h ata_port \<Rightarrow> nat \<Rightarrow> 'h atad \<Rightarrow> (int \<times> 'h atad) option" where
  "atad_probe port param s = map_option (\<lambda>(ok, s). (if ok then 0 else - 1, s)) (sceAtaInit port param s)"

definition atad_get_probe_status :: "'h ata_port \<Rightarrow> 'h \<Rightarrow> int \<times> 'h" where
  "atad_get_probe_status port h =
     (case ata_in port R_control h of (v, h) \<Rightarrow>
        let status = v AND 0xFF in (if status = 0x00 \<or> status = 0xFF then - 1 else uint status, h))"

section \<open>Passwords\<close>

abbreviation (input) ATA_F_SEC_ENABLED :: u32 where "ATA_F_SEC_ENABLED \<equiv> 0x02"
abbreviation (input) ATA_F_SEC_LOCKED :: u32 where "ATA_F_SEC_LOCKED \<equiv> 0x04"
abbreviation (input) ATA_RES_ERR_LOCKED :: int where "ATA_RES_ERR_LOCKED \<equiv> - 509"

abbreviation sec_status :: "'h ata \<Rightarrow> u16 \<Rightarrow> u32" where
  "sec_status st device \<equiv> security_status (at_devinfo st ! unat device)"

definition ata_get_security_status :: "'h ata_port \<Rightarrow> u16 \<Rightarrow> nat \<Rightarrow> 'h ata \<Rightarrow> 'h ata option" where
  "ata_get_security_status port device param st =
     map_option (\<lambda>(res, st).
         if res = 0 then set_dev (unat device) (\<lambda>d. d\<lparr>security_status := ucast (load_u16 (at_mem st) (param + 2 * 128))\<rparr>) st else st)
       (ata_device_identify port device param st)"

text \<open>The block with the password, written to \<open>ata_param\<close> before the command; \<open>password\<close> is an address.\<close>

definition put_password :: "nat \<Rightarrow> nat \<Rightarrow> 'h ata \<Rightarrow> 'h ata" where
  "put_password param password st =
     (let m = store_mem (at_mem st) param (replicate 512 0) in st\<lparr>at_mem := store_mem m (param + 2) (load_mem m password 32)\<rparr>)"

text \<open>\<open>sce\<close> is the position of the sub-command in \<open>sec_ctrl_cmd_table\<close>.\<close>

definition security_command :: "'h ata_port \<Rightarrow> nat \<Rightarrow> u16 \<Rightarrow> nat \<Rightarrow> 'h ata \<Rightarrow> (int \<times> 'h ata) option" where
  "security_command port sce device buf = exec_wait port buf (ucast (sce_codes port ! sce)) 0 0 0 device ATA_C_SCE_SECURITY_CONTROL"

definition sceAtaSecuritySetPassword :: "'h ata_port \<Rightarrow> nat \<Rightarrow> u16 \<Rightarrow> nat \<Rightarrow> 'h ata \<Rightarrow> (int \<times> 'h ata) option" where
  "sceAtaSecuritySetPassword port param device password st =
     (if sec_status st device AND ATA_F_SEC_ENABLED \<noteq> 0 then Some (0, st) else
      case security_command port 4 device param (put_password param password st) of None \<Rightarrow> None | Some (res, st) \<Rightarrow>
      map_option (Pair res) (ata_get_security_status port device param st))"

definition sceAtaSecurityUnLock :: "'h ata_port \<Rightarrow> nat \<Rightarrow> u16 \<Rightarrow> nat \<Rightarrow> 'h ata \<Rightarrow> (int \<times> 'h ata) option" where
  "sceAtaSecurityUnLock port param device password st =
     (if sec_status st device AND ATA_F_SEC_LOCKED = 0 then Some (0, st) else
      case security_command port 5 device param (put_password param password st) of None \<Rightarrow> None | Some (res, st) \<Rightarrow>
      if res \<noteq> 0 then Some (res, st) else
      map_option (\<lambda>st. (if sec_status st device AND ATA_F_SEC_LOCKED \<noteq> 0 then ATA_RES_ERR_LOCKED else 0, st))
        (ata_get_security_status port device param st))"

text \<open>The last call passes NULL for the identify data: address 0.\<close>

definition sceAtaSecurityEraseUnit :: "'h ata_port \<Rightarrow> u16 \<Rightarrow> 'h ata \<Rightarrow> (int \<times> 'h ata) option" where
  "sceAtaSecurityEraseUnit port device st =
     (if sec_status st device AND ATA_F_SEC_ENABLED = 0 \<or> sec_status st device AND ATA_F_SEC_LOCKED = 0 then Some (0, st) else
      case security_command port 1 device 0 st of None \<Rightarrow> None | Some (res, st) \<Rightarrow>
      case (if res \<noteq> 0 then Some (res, st) else security_command port 2 device 0 st) of None \<Rightarrow> None | Some (res, st) \<Rightarrow>
      map_option (Pair res) (ata_get_security_status port device 0 st))"

section \<open>Start and shutdown\<close>

definition ata_bd_init :: "nat \<Rightarrow> block_device" where
  "ata_bd_init i = \<lparr>bd_name = Some ''ata'', devNr = of_nat i, parNr = 0, parId = 0, sectorSize = 512, sectorOffset = 0, sectorCount = 0\<rparr>"

abbreviation (input) MODULE_RESIDENT_END :: int where "MODULE_RESIDENT_END \<equiv> 0"
abbreviation (input) MODULE_NO_RESIDENT_END :: int where "MODULE_NO_RESIDENT_END \<equiv> 1"

text \<open>\<open>_start\<close>: \<open>evflg\<close> is the result of \<open>CreateEventFlag\<close>, \<open>registered\<close> that of \<open>RegisterLibraryEntries\<close>. The registration of the
  interrupt, DMA and power-off callbacks has no effect on this state.\<close>

definition atad_start :: "'h ata_port \<Rightarrow> nat \<Rightarrow> int \<Rightarrow> int \<Rightarrow> 'h atad \<Rightarrow> (int \<times> 'h atad) option" where
  "atad_start port param evflg registered s =
     (let h = at_hw (ad_ata s);
          put = (\<lambda>h s. s\<lparr>ad_ata := set_ahw h (ad_ata s)\<rparr>);
          (r3, h) = spd_in port SPD_R_REV_3 h in
      if r3 AND SPD_CAPS_ATA port = 0 then Some (MODULE_NO_RESIDENT_END, put h s) else
      let (r8, h) = spd_in port SPD_R_REV_8 h in
      if r8 AND 0x02 = 0 then Some (MODULE_NO_RESIDENT_END, put h s) else
      let (r3, h) = spd_in port SPD_R_REV_3 h; (r20, h) = spd_in port SPD_R_20 h;
          s = s\<lparr>ad_ata := (ad_ata s)\<lparr>at_hw := h, at_dvrp := (r3 AND SPD_CAPS_DVR port \<noteq> 0), at_gamestar := (r20 \<noteq> 1)\<rparr>\<rparr> in
      if evflg < 0 then Some (MODULE_NO_RESIDENT_END, s) else
      let s = s\<lparr>g_ata_bd := [ata_bd_init 0, ata_bd_init 1]\<rparr> in
      if registered \<noteq> 0 then Some (MODULE_NO_RESIDENT_END, s) else
      map_option (\<lambda>(_, s). (MODULE_RESIDENT_END, s)) (atad_probe port param s))"

definition ata_shutdown_cb :: "'h ata_port \<Rightarrow> 'h ata \<Rightarrow> 'h ata option" where
  "ata_shutdown_cb port st =
     (case (if di_exists (at_devinfo st ! 0) then map_option snd (ata_device_standby_immediate port 0 st) else Some st) of
        None \<Rightarrow> None
      | Some st \<Rightarrow> if di_exists (at_devinfo st ! 1) then map_option snd (ata_device_standby_immediate port 1 st) else Some st)"

section \<open>Waiting for the disk\<close>

record hdd_wait =
  ata_detected :: bool
  ready_samples :: nat
  probe_waited :: u32

definition hdd_wait_init :: hdd_wait where
  "hdd_wait_init = \<lparr>ata_detected = False, ready_samples = 0, probe_waited = 500000\<rparr>"

definition status_ready :: "int \<Rightarrow> bool" where
  "status_ready status \<longleftrightarrow> 0 \<le> status \<and> (word_of_int status :: u32) AND 0x80 = 0 \<and> (word_of_int status :: u32) AND 0x40 \<noteq> 0"

text \<open>The bookkeeping of one turn: count the sample; is a probe due; then its result and the delay counter.\<close>

definition hdd_sample :: "bool \<Rightarrow> hdd_wait \<Rightarrow> hdd_wait" where
  "hdd_sample ready w = w\<lparr>ready_samples := (if ready then ready_samples w + 1 else 0)\<rparr>"

definition hdd_due :: "hdd_wait \<Rightarrow> bool" where
  "hdd_due w \<longleftrightarrow> 2 \<le> ready_samples w \<and> 500000 \<le> probe_waited w"

definition hdd_probed :: "bool \<Rightarrow> hdd_wait \<Rightarrow> hdd_wait" where
  "hdd_probed ok w = w\<lparr>ata_detected := ok, ready_samples := 0, probe_waited := 0\<rparr>"

definition hdd_tick :: "hdd_wait \<Rightarrow> hdd_wait" where
  "hdd_tick w = (if \<not> ata_detected w \<and> probe_waited w < 500000 then w\<lparr>probe_waited := probe_waited w + 200000\<rparr> else w)"

text \<open>One turn of \<open>bdm_hdd_wait_pops_on_mass0\<close>, and the loop; \<open>fat_ready\<close> stands for \<open>bdm_is_fatfs_ready("ata")\<close>.\<close>

definition hdd_turn :: "'h ata_port \<Rightarrow> nat \<Rightarrow> hdd_wait \<times> 'h atad \<Rightarrow> (hdd_wait \<times> 'h atad) option" where
  "hdd_turn port param x =
     (case x of (w, s) \<Rightarrow>
      if ata_detected w then Some (w, s) else
      let (status, h) = atad_get_probe_status port (at_hw (ad_ata s)); s = s\<lparr>ad_ata := set_ahw h (ad_ata s)\<rparr>;
          w = hdd_sample (status_ready status) w in
      if hdd_due w then
        case atad_probe port param s of None \<Rightarrow> None | Some (res, s) \<Rightarrow> Some (hdd_tick (hdd_probed (res = 0) w), s)
      else Some (hdd_tick w, s))"

partial_function (option) bdm_hdd_wait_pops_on_mass0 :: "'h ata_port \<Rightarrow> nat \<Rightarrow> ('h \<Rightarrow> bool) \<Rightarrow> hdd_wait \<Rightarrow> 'h atad \<Rightarrow> 'h atad option" where
  "bdm_hdd_wait_pops_on_mass0 port param fat_ready w s =
     (if fat_ready (at_hw (ad_ata s)) then Some s else
      case hdd_turn port param (w, s) of
        None \<Rightarrow> None
      | Some (w, s) \<Rightarrow>
          bdm_hdd_wait_pops_on_mass0 port param fat_ready w (s\<lparr>ad_ata := set_ahw (k_delay port 200000 (at_hw (ad_ata s))) (ad_ata s)\<rparr>))"

declare bdm_hdd_wait_pops_on_mass0.simps [code]

section \<open>The table of devices through a command\<close>

text \<open>The expansion bay never reports a changed card (\<open>expbay_intr\<close> dispatches 0 only); then the commands leave the table alone.\<close>

definition no_card_irq :: "'h ata_port \<Rightarrow> bool" where
  "no_card_irq port \<longleftrightarrow> (\<forall>h. Irq_card \<notin> set (fst (k_wait port h)))"

lemma set_ahw_devinfo [simp]: "at_devinfo (set_ahw h st) = at_devinfo st" "at_dvrp (set_ahw h st) = at_dvrp st"
  by (simp_all add: set_ahw_def)

lemma exec_devinfo:
  "sceAtaExecCmd port buf blkcount feature nsector sector lcyl hcyl select command st = (res, st') \<Longrightarrow> at_devinfo st' = at_devinfo st"
  by (auto simp: sceAtaExecCmd_def exec_start_def Let_def split: prod.splits if_splits)

lemma wait_ev_devinfo:
  assumes "no_card_irq port" "wait_ev port st = Some (bits, st')"
  shows "at_devinfo st' = at_devinfo st"
proof -
  have f: "Irq_card \<notin> set qs \<Longrightarrow> at_devinfo (fold (run_irq port) qs s) = at_devinfo s" for qs s
    by (induction qs arbitrary: s) (auto simp: run_irq_def ata_intr_cb_def ata_alarm_cb_def split: ata_irq.splits)
  obtain qs h where w: "k_wait port (at_hw st) = (qs, h)" by (cases "k_wait port (at_hw st)") auto
  have "Irq_card \<notin> set qs" using assms(1) w unfolding no_card_irq_def by (metis fst_conv)
  from f [OF this, of "set_ahw h st"] show ?thesis using assms(2) w by (auto simp: wait_ev_def Let_def split: if_splits)
qed

lemma pio_devinfo:
  "at_devinfo (pio_out16 port n st) = at_devinfo st" "at_devinfo (pio_out8 port n st) = at_devinfo st" "at_devinfo (pio_in16 port n st) = at_devinfo st"
  by (induction n arbitrary: st) (auto simp: Let_def split: prod.splits)

lemma pio_transfer_devinfo: "ata_pio_transfer port st = (res, st') \<Longrightarrow> at_devinfo st' = at_devinfo st"
  by (auto simp: ata_pio_transfer_def pio_devinfo Let_def split: prod.splits if_splits)

lemma pio_loop_devinfo: "pio_loop port n st = (res, st') \<Longrightarrow> at_devinfo st' = at_devinfo st"
proof (induction n arbitrary: st)
  case 0
  then show ?case by (auto simp: pio_loop.simps Let_def)
next
  case (Suc n)
  then show ?case
    by (auto simp: pio_loop.simps [of port "Suc n"] Let_def split: prod.splits if_splits dest!: pio_transfer_devinfo)
qed

lemma pio_loop_snd: "at_devinfo (snd (pio_loop port n st)) = at_devinfo st"
  by (rule pio_loop_devinfo [OF prod.collapse [symmetric]])

lemma dma_devinfo: "SpdDmaTransfer port buf bcr dir st = (res, st') \<Longrightarrow> at_devinfo st' = at_devinfo st"
  by (auto simp: SpdDmaTransfer_def Let_def split: prod.splits if_splits)

lemma dma_round_devinfo:
  assumes "no_card_irq port"
  shows "dma_round port st = Some (Transfer n st') \<Longrightarrow> at_devinfo st' = at_devinfo st"
    "dma_round port st = Some (Again st') \<Longrightarrow> at_devinfo st' = at_devinfo st"
    "dma_round port st = Some (Stop res st') \<Longrightarrow> at_devinfo st' = at_devinfo st"
  by (auto simp: dma_round_def split: prod.splits if_splits option.splits dest: wait_ev_devinfo [OF assms])

lemma dma_complete_devinfo:
  assumes "no_card_irq port" "ata_dma_complete port buf blkcount dir st = Some (res, st')"
  shows "at_devinfo st' = at_devinfo st"
proof -
  have "no_card_irq port \<longrightarrow> at_devinfo (snd (res, st')) = at_devinfo st"
    by (rule ata_dma_complete.raw_induct [where P = "\<lambda>port buf blkcount dir st y. no_card_irq port \<longrightarrow> at_devinfo (snd y) = at_devinfo st", OF _ assms(2)])
      (auto simp: Let_def split: if_splits option.splits dma_next.splits prod.splits dest!: dma_devinfo dma_round_devinfo [rotated])
  then show ?thesis using assms(1) by simp
qed

lemma wait_result_devinfo:
  assumes "no_card_irq port" "sceAtaWaitResult port st = Some (res, st')"
  shows "at_devinfo st' = at_devinfo st"
proof -
  have c: "at_devinfo (snd (wait_checked port r)) = at_devinfo (snd r)" for r
    by (auto simp: wait_checked_def wait_finish_def split: prod.splits)
  have d: "at_devinfo (snd r) = at_devinfo st" if "wait_dma port st = Some r" for r
    using that by (cases r) (auto simp: wait_dma_def dma_end_def Let_def split: option.splits prod.splits if_splits
        dest!: dma_complete_devinfo [OF assms(1)] wait_ev_devinfo [OF assms(1)])
  have p: "at_devinfo (snd (wait_pio port st)) = at_devinfo st"
    by (auto simp: wait_pio_def pio_loop_snd Let_def split: prod.splits if_splits)
  have w: "\<And>bits s. wait_ev port st = Some (bits, s) \<Longrightarrow> at_devinfo s = at_devinfo st" by (rule wait_ev_devinfo [OF assms(1)])
  have "at_devinfo (snd x) = at_devinfo st" if "sceAtaWaitResult port st = Some x" for x
    using that by (auto simp: sceAtaWaitResult_def c p Let_def split: if_splits option.splits dest!: d w)
  from this [OF assms(2)] show ?thesis by simp
qed

lemma exec_wait_devinfo:
  "no_card_irq port \<Longrightarrow> exec_wait port buf feature nsector lcyl hcyl device command st = Some (res, st') \<Longrightarrow> at_devinfo st' = at_devinfo st"
  by (auto simp: exec_wait_def split: prod.splits if_splits dest!: exec_devinfo wait_result_devinfo)

section \<open>Connecting\<close>

lemma set_dev_sel:
  "at_devinfo (set_dev i f st) ! j = (if j = i \<and> i < length (at_devinfo st) then f (at_devinfo st ! i) else at_devinfo st ! j)"
  "length (at_devinfo (set_dev i f st)) = length (at_devinfo st)"
  by (auto simp: set_dev_def nth_list_update list_update_beyond)

lemma identify_devinfo:
  assumes "no_card_irq port" "identify_device port param i st = Some st'" "i < length (at_devinfo st)"
  shows "length (at_devinfo st') = length (at_devinfo st) \<and> (\<forall>j. j \<noteq> i \<longrightarrow> at_devinfo st' ! j = at_devinfo st ! j)
      \<and> has_packet (at_devinfo st' ! i) = has_packet (at_devinfo st ! i)"
  using assms(2,3)
  by (auto simp: identify_device_def ata_device_identify_def ata_device_pkt_identify_def set_dev_sel Let_def split: option.splits if_splits prod.splits
      dest!: exec_wait_devinfo [OF assms(1)])

lemma set_transfer_mode_devinfo:
  "no_card_irq port \<Longrightarrow> ata_device_set_transfer_mode port device ty mode st = Some (res, st') \<Longrightarrow> at_devinfo st' = at_devinfo st"
  by (auto simp: ata_device_set_transfer_mode_def split: option.splits prod.splits if_splits dest!: exec_wait_devinfo)

lemma tune_devinfo:
  assumes "no_card_irq port" "tune_device port i mode st = Some st'"
  shows "at_devinfo st' = at_devinfo st"
  using assms(2)
  by (auto simp: tune_device_def ata_device_smart_enable_def sceAtaIdle_def split: option.splits prod.splits
      dest!: set_transfer_mode_devinfo [OF assms(1)] exec_wait_devinfo [OF assms(1)])

lemma init_device_connects:
  assumes "no_card_irq port" "init_device port param i s = Some s'" "i < length (at_devinfo (ad_ata s))" "i < length (g_ata_bd s)"
  shows "length (at_devinfo (ad_ata s')) = length (at_devinfo (ad_ata s)) \<and> length (g_ata_bd s') = length (g_ata_bd s)
      \<and> (\<forall>j. j \<noteq> i \<longrightarrow> ad_dev s' j = ad_dev s j \<and> g_ata_bd s' ! j = g_ata_bd s ! j) \<and> ata_devinfo_init s' = ata_devinfo_init s
      \<and> ad_connected s' = ad_connected s @ (if usable (ad_dev s' i) then [g_ata_bd s' ! i] else [])"
proof (cases "di_exists (ad_dev s i)")
  case False
  then show ?thesis using assms(2) by (auto simp: init_device_def usable_def)
next
  case True
  then obtain st where st: "identify_device port param i (ad_ata s) = Some st" using assms(2) by (auto simp: init_device_def split: option.splits)
  note d = identify_devinfo [OF assms(1) st assms(3)]
  show ?thesis
  proof (cases "usable (at_devinfo st ! i)")
    case False
    then show ?thesis using assms(2) True st d by (auto simp: init_device_def usable_def)
  next
    case u: True
    define w where "w = (\<lambda>k. load_u16 (at_mem st) (param + 2 * k))"
    define st1 where "st1 = set_dev i (\<lambda>d. d\<lparr>di_lba48 := bit (w 83) 10, security_status := ucast (w 128)\<rparr>) st"
    obtain st2 where t: "tune_device port i (id_udma w) st1 = Some st2"
      using assms(2) True st u by (auto simp: init_device_def usable_def st1_def w_def Let_def split: option.splits)
    have e: "usable (ad_dev s' i) \<and> length (at_devinfo (ad_ata s')) = length (at_devinfo (ad_ata s)) \<and> (\<forall>j. j \<noteq> i \<longrightarrow> ad_dev s' j = ad_dev s j)"
      using assms(2,3) True st u t tune_devinfo [OF assms(1) t] d
      by (auto simp: init_device_def usable_def st1_def [symmetric] w_def [symmetric] Let_def set_dev_sel) (auto simp: st1_def set_dev_sel)
    show ?thesis using e assms(2,4) True st u t
      by (auto simp: init_device_def usable_def st1_def [symmetric] w_def [symmetric] Let_def)
  qed
qed

text \<open>The geometry of a connected disk, computed from the words its IDENTIFY command left in \<open>ata_param\<close>.\<close>

definition id_words :: "nat \<Rightarrow> 'h ata \<Rightarrow> nat \<Rightarrow> u16" where
  "id_words param st k = load_u16 (at_mem st) (param + 2 * k)"

lemma init_device_geometry:
  assumes "no_card_irq port" "init_device port param i s = Some s'" "i < length (at_devinfo (ad_ata s))" "i < length (g_ata_bd s)"
    and "usable (ad_dev s' i)"
  shows "\<exists>st. identify_device port param i (ad_ata s) = Some st
    \<and> g_ata_bd s' ! i = (g_ata_bd s ! i)\<lparr>sectorSize := ata_get_logical_sector_size_2 (id_words param st),
        sectorCount := (if bit (id_words param st 83) 10 then id_total_bdm (id_words param st) else ucast (id_total28 (id_words param st)))\<rparr>"
proof -
  have ex: "di_exists (ad_dev s i)" using assms(2,5) by (auto simp: init_device_def usable_def split: if_splits)
  then obtain st where st: "identify_device port param i (ad_ata s) = Some st" using assms(2) by (auto simp: init_device_def split: option.splits)
  note d = identify_devinfo [OF assms(1) st assms(3)]
  have u: "di_exists (at_devinfo st ! i) \<and> has_packet (at_devinfo st ! i) = 0"
    using assms(2,5) ex st by (auto simp: init_device_def usable_def split: if_splits)
  define w where "w = (\<lambda>k. load_u16 (at_mem st) (param + 2 * k))"
  define st1 where "st1 = set_dev i (\<lambda>d. d\<lparr>di_lba48 := bit (w 83) 10, security_status := ucast (w 128)\<rparr>) st"
  obtain st2 where t: "tune_device port i (id_udma w) st1 = Some st2"
    using assms(2) ex st u by (auto simp: init_device_def st1_def w_def Let_def split: option.splits)
  have "di_lba48 (at_devinfo st2 ! i) = bit (w 83) 10" "i < length (at_devinfo st2)"
    using tune_devinfo [OF assms(1) t] d assms(3) by (simp_all add: st1_def set_dev_sel)
  then have "g_ata_bd s' ! i = (g_ata_bd s ! i)\<lparr>sectorSize := ata_get_logical_sector_size_2 w,
      sectorCount := (if bit (w 83) 10 then id_total_bdm w else ucast (id_total28 w))\<rparr>"
    using assms(2,4) ex st u t by (auto simp: init_device_def st1_def [symmetric] w_def [symmetric] Let_def set_dev_sel)
  moreover have "w = id_words param st" by (simp add: w_def id_words_def fun_eq_iff)
  ultimately show ?thesis using st by blast
qed

text \<open>The state at the beginning of turn \<open>i\<close> of the loop over the devices, in a probe from the state \<open>s\<close>.\<close>

definition probe_turn :: "'h ata_port \<Rightarrow> nat \<Rightarrow> nat \<Rightarrow> 'h atad \<Rightarrow> 'h atad option" where
  "probe_turn port param i s =
     (let s = clear_devinfo s; h = snd (ata_bus_reset port (at_hw (ad_ata s)));
          s = snd (detect_devices port (s\<lparr>ad_ata := set_ahw h (ad_ata s)\<rparr>))
      in if i = 0 then Some s else init_device port param 0 s)"

definition geometry_read :: "'h ata_port \<Rightarrow> nat \<Rightarrow> nat \<Rightarrow> 'h atad \<Rightarrow> block_device \<Rightarrow> block_device \<Rightarrow> bool" where
  "geometry_read port param i a bd bd' \<longleftrightarrow> (\<exists>st. identify_device port param i (ad_ata a) = Some st
     \<and> bd' = bd\<lparr>sectorSize := ata_get_logical_sector_size_2 (id_words param st),
          sectorCount := (if bit (id_words param st 83) 10 then id_total_bdm (id_words param st) else ucast (id_total28 (id_words param st)))\<rparr>)"

lemma detect_keeps:
  assumes "detect_devices port s = (res, s')"
  shows "length (at_devinfo (ad_ata s')) = length (at_devinfo (ad_ata s))" "g_ata_bd s' = g_ata_bd s" "ad_connected s' = ad_connected s"
    "ata_devinfo_init s' = ata_devinfo_init s"
  using assms by (auto simp: detect_devices_def set_dev_sel Let_def split: prod.splits if_splits)

lemma init_devices_connects:
  assumes "no_card_irq port" "ata_init_devices port param s = Some (res, s')" "length (at_devinfo (ad_ata s)) = 2" "length (g_ata_bd s) = 2"
    and "t0 = snd (detect_devices port s)"
  shows "ata_devinfo_init s' = ata_devinfo_init s
      \<and> (if res = 0 then ad_connected s' = ad_connected s @ map ((!) (g_ata_bd s')) (filter (\<lambda>i. usable (ad_dev s' i)) [0, 1])
         else ad_connected s' = ad_connected s)
      \<and> (res = 0 \<longrightarrow> (usable (ad_dev s' 0) \<longrightarrow> geometry_read port param 0 t0 (g_ata_bd s ! 0) (g_ata_bd s' ! 0))
          \<and> (\<exists>t1. init_device port param 0 t0 = Some t1
               \<and> (usable (ad_dev s' 1) \<longrightarrow> geometry_read port param 1 t1 (g_ata_bd s ! 1) (g_ata_bd s' ! 1))))"
proof (cases "res = 0")
  case False
  then show ?thesis using assms(2) detect_keeps [of port s] by (auto simp: ata_init_devices_def split: prod.splits if_splits option.splits)
next
  case True
  obtain s1 s2 where s: "init_device port param 0 s1 = Some s2" "init_device port param 1 s2 = Some s'" "s1 = t0"
    "length (at_devinfo (ad_ata s1)) = 2" "length (g_ata_bd s1) = 2" "ad_connected s1 = ad_connected s" "ata_devinfo_init s1 = ata_devinfo_init s"
    "g_ata_bd s1 = g_ata_bd s"
    using assms True detect_keeps [of port s] by (auto simp: ata_init_devices_def split: prod.splits if_splits option.splits)
  have d0: "length (at_devinfo (ad_ata s2)) = 2" "length (g_ata_bd s2) = 2" "ata_devinfo_init s2 = ata_devinfo_init s1"
    "ad_connected s2 = ad_connected s1 @ (if usable (ad_dev s2 0) then [g_ata_bd s2 ! 0] else [])" "g_ata_bd s2 ! 1 = g_ata_bd s1 ! 1"
    using init_device_connects [OF assms(1) s(1)] s(4,5) by auto
  have d1: "ad_dev s' 0 = ad_dev s2 0" "g_ata_bd s' ! 0 = g_ata_bd s2 ! 0" "ata_devinfo_init s' = ata_devinfo_init s2"
    "ad_connected s' = ad_connected s2 @ (if usable (ad_dev s' 1) then [g_ata_bd s' ! 1] else [])"
    using init_device_connects [OF assms(1) s(2)] d0(1,2) by auto
  have "usable (ad_dev s' 0) \<longrightarrow> geometry_read port param 0 s1 (g_ata_bd s1 ! 0) (g_ata_bd s2 ! 0)"
    using init_device_geometry [OF assms(1) s(1)] s(4,5) d1(1) by (simp add: geometry_read_def)
  moreover have "usable (ad_dev s' 1) \<longrightarrow> geometry_read port param 1 s2 (g_ata_bd s2 ! 1) (g_ata_bd s' ! 1)"
    using init_device_geometry [OF assms(1) s(2)] d0(1,2) by (simp add: geometry_read_def)
  ultimately show ?thesis using True d0 d1 s by simp
qed

text \<open>Unlocking reports success only when the drive said, last, that it is not locked.\<close>

lemma unlock_sound: "sceAtaSecurityUnLock port param device password st = Some (0, st') \<Longrightarrow> sec_status st' device AND ATA_F_SEC_LOCKED = 0"
  by (auto simp: sceAtaSecurityUnLock_def split: if_splits option.splits)

lemma probe_outcome:
  assumes "no_card_irq port" "length (g_ata_bd s) = 2" "atad_probe port param s = Some (r, s')"
  shows "(ata_devinfo_init s \<longrightarrow> r = 0 \<and> s' = s)
      \<and> (r \<noteq> 0 \<longrightarrow> ad_connected s' = ad_connected s \<and> \<not> ata_devinfo_init s' \<and> at_devinfo (ad_ata s') = [no_device, no_device])
      \<and> (r = 0 \<and> \<not> ata_devinfo_init s \<longrightarrow> ata_devinfo_init s' \<and> filter (\<lambda>i. usable (ad_dev s' i)) [0, 1] \<noteq> []
           \<and> ad_connected s' = ad_connected s @ map ((!) (g_ata_bd s')) (filter (\<lambda>i. usable (ad_dev s' i)) [0, 1])
           \<and> (\<forall>i < 2. usable (ad_dev s' i) \<longrightarrow> (\<exists>a. probe_turn port param i s = Some a \<and> geometry_read port param i a (g_ata_bd s ! i) (g_ata_bd s' ! i))))"
proof (cases "ata_devinfo_init s")
  case True
  then show ?thesis using assms(3) by (auto simp: atad_probe_def sceAtaInit_def)
next
  case False
  obtain r1 h1 where b: "ata_bus_reset port (at_hw (ad_ata (clear_devinfo s))) = (r1, h1)" by (metis surj_pair)
  define s1 where "s1 = (clear_devinfo s)\<lparr>ad_ata := set_ahw h1 (ad_ata (clear_devinfo s))\<rparr>"
  have s1: "length (at_devinfo (ad_ata s1)) = 2" "length (g_ata_bd s1) = 2" "ad_connected s1 = ad_connected s" "ata_devinfo_init s1 = ata_devinfo_init s"
    "g_ata_bd s1 = g_ata_bd s"
    using assms(2) by (simp_all add: s1_def clear_devinfo_def)
  have cl: "ad_connected (clear_devinfo x) = ad_connected x" "ata_devinfo_init (clear_devinfo x) = ata_devinfo_init x"
    "at_devinfo (ad_ata (clear_devinfo x)) = [no_device, no_device]" for x :: "'a atad"
    by (simp_all add: clear_devinfo_def)
  show ?thesis
  proof (cases "r1 = 0")
    case r1: False
    then have "r \<noteq> 0" "s' = clear_devinfo s1" using assms(3) False b by (auto simp: atad_probe_def sceAtaInit_def s1_def Let_def)
    then show ?thesis using False s1 cl by simp
  next
    case True
    then obtain r2 s2 where i: "ata_init_devices port param s1 = Some (r2, s2)"
      using assms(3) False b by (auto simp: atad_probe_def sceAtaInit_def s1_def Let_def split: option.splits)
    note c = init_devices_connects [OF assms(1) i s1(1,2) refl]
    have pt: "probe_turn port param 0 s = Some (snd (detect_devices port s1))"
      "probe_turn port param (Suc 0) s = init_device port param 0 (snd (detect_devices port s1))"
      using b by (simp_all add: probe_turn_def s1_def Let_def)
    have two: "(\<forall>i < 2. P i) \<longleftrightarrow> P 0 \<and> P (Suc 0)" for P by (auto simp: less_2_cases_iff)
    have "(r, s') = (if r2 \<noteq> 0 \<or> (\<not> usable (ad_dev s2 0) \<and> \<not> usable (ad_dev s2 1)) then (- 1, clear_devinfo s2) else (0, s2\<lparr>ata_devinfo_init := True\<rparr>))"
      using assms(3) False b True i by (auto simp: atad_probe_def sceAtaInit_def s1_def Let_def)
    then show ?thesis using False c s1 cl [of s2] pt by (auto simp: two split: if_splits)
  qed
qed

section \<open>Probing returns\<close>

text \<open>Every command that waits for an interrupt has set its alarm, so a wait is ended by the drive or by the alarm.\<close>

definition waits_end :: "'h ata_port \<Rightarrow> bool" where
  "waits_end port \<longleftrightarrow> (\<forall>h. Irq_ata \<in> set (fst (k_wait port h)) \<or> Irq_alarm \<in> set (fst (k_wait port h)))"

lemma or_mask_nonzero: "(x :: u32) AND m \<noteq> 0 \<or> y AND m \<noteq> 0 \<Longrightarrow> (x OR y) AND m \<noteq> 0"
  by (auto simp: bit.conj_disj_distrib2 or_eq_0_iff)

lemma irq_events:
  "at_evflg st AND 3 \<noteq> 0 \<or> Irq_ata \<in> set qs \<or> Irq_alarm \<in> set qs \<Longrightarrow> at_evflg (fold (run_irq port) qs st) AND 3 \<noteq> 0"
proof (induction qs arbitrary: st)
  case (Cons q qs)
  have "at_evflg (run_irq port q st) AND 3 \<noteq> 0 \<or> Irq_ata \<in> set qs \<or> Irq_alarm \<in> set qs"
    using Cons.prems or_mask_nonzero [of "at_evflg st" 3 ATA_EV_COMPLETE] or_mask_nonzero [of "at_evflg st" 3 ATA_EV_TIMEOUT]
    by (cases q) (auto simp: run_irq_def ata_intr_cb_def ata_alarm_cb_def set_ahw_def)
  then show ?case using Cons.IH by simp
qed simp

lemma wait_ev_returns: "waits_end port \<Longrightarrow> wait_ev port st \<noteq> None"
proof -
  assume w: "waits_end port"
  obtain qs h where k: "k_wait port (at_hw st) = (qs, h)" by (cases "k_wait port (at_hw st)") auto
  have "Irq_ata \<in> set qs \<or> Irq_alarm \<in> set qs" using w k unfolding waits_end_def by (metis fst_conv)
  then show ?thesis using irq_events [of "set_ahw h st" qs port] by (simp add: wait_ev_def k Let_def)
qed

lemma wait_result_returns: "waits_end port \<Longrightarrow> cs_type (at_cmd st) \<noteq> 4 \<Longrightarrow> sceAtaWaitResult port st \<noteq> None"
  using wait_ev_returns [of port st] by (auto simp: sceAtaWaitResult_def Let_def split: option.splits)

lemma exec_wait_returns:
  assumes "waits_end port" "cmd_type port feature command AND 0x7F \<noteq> 4"
  shows "exec_wait port buf feature nsector lcyl hcyl device command st \<noteq> None"
proof -
  have "sceAtaWaitResult port st' \<noteq> None"
    if "sceAtaExecCmd port buf 1 feature nsector 0 lcyl hcyl (push_bit 4 device) command st = (0, st')" for st'
    by (rule wait_result_returns [OF assms(1)]) (simp add: exec_cmd_state(3) [OF that] assms(2))
  then show ?thesis by (auto simp: exec_wait_def simp del: not_None_eq split: prod.splits)
qed

lemma identify_returns: "waits_end port \<Longrightarrow> identify_device port param i st \<noteq> None"
proof -
  assume w: "waits_end port"
  have "ata_device_identify port (of_nat i) param st \<noteq> None" "ata_device_pkt_identify port (of_nat i) param st \<noteq> None"
    unfolding ata_device_identify_def ata_device_pkt_identify_def by (rule exec_wait_returns [OF w], simp add: cmd_type_def ata_cmd_table_def)+
  then show ?thesis by (auto simp: identify_device_def Let_def split: option.splits)
qed

lemma tune_returns: "waits_end port \<Longrightarrow> tune_device port i mode st \<noteq> None"
proof -
  assume w: "waits_end port"
  have 1: "ata_device_set_transfer_mode port d ty mode s \<noteq> None" for d ty s
    using exec_wait_returns [OF w, of 3 ATA_C_SET_FEATURES 0 "(ty OR of_nat mode) AND 0xFF" 0 0 d s]
    by (auto simp: ata_device_set_transfer_mode_def cmd_type_def ata_cmd_table_def split: option.splits)
  have 2: "ata_device_smart_enable port d s \<noteq> None" for d s
    unfolding ata_device_smart_enable_def by (rule exec_wait_returns [OF w]) (simp add: cmd_type_def smart_cmd_table_def)
  have 3: "sceAtaIdle port d p s \<noteq> None" for d p s
    unfolding sceAtaIdle_def by (rule exec_wait_returns [OF w]) (simp add: cmd_type_def ata_cmd_table_def)
  show ?thesis by (auto simp: tune_device_def 1 2 3 simp del: not_None_eq split: option.splits)
qed

lemma init_device_returns: "waits_end port \<Longrightarrow> init_device port param i s \<noteq> None"
  using identify_returns [of port param i "ad_ata s"]
  by (auto simp: init_device_def Let_def tune_returns simp del: not_None_eq split: option.splits)

lemma probe_returns:
  assumes "waits_end port"
  obtains r s' where "atad_probe port param s = Some (r, s')"
proof -
  have "ata_init_devices port param s \<noteq> None" for s
    by (auto simp: ata_init_devices_def Let_def init_device_returns [OF assms] simp del: not_None_eq split: option.splits prod.splits)
  then have "atad_probe port param s \<noteq> None"
    by (auto simp: atad_probe_def sceAtaInit_def Let_def simp del: not_None_eq split: option.splits prod.splits)
  then show ?thesis using that by auto
qed

text \<open>C18. Probing is safe to repeat: as long as no card is changed and every wait is ended by the drive or by its alarm, a probe
  returns; one that fails has connected no disk and leaves the driver as before its first probe; one that succeeds has
  connected exactly the disks it found usable, each once, and the block device of each has the sector size and the number of sectors
  that follow from the words its IDENTIFY command left in \<open>ata_param\<close>, in its turn of the loop; and a probe after that
  touches neither the hardware nor the block device manager.\<close>

theorem probe_connects_once:
  assumes "no_card_irq port" "waits_end port" "length (g_ata_bd s) = 2"
  shows "\<exists>r s'. atad_probe port param s = Some (r, s')
      \<and> (ata_devinfo_init s \<longrightarrow> r = 0 \<and> s' = s)
      \<and> (r \<noteq> 0 \<longrightarrow> ad_connected s' = ad_connected s \<and> \<not> ata_devinfo_init s' \<and> at_devinfo (ad_ata s') = [no_device, no_device])
      \<and> (r = 0 \<and> \<not> ata_devinfo_init s \<longrightarrow> ata_devinfo_init s' \<and> filter (\<lambda>i. usable (ad_dev s' i)) [0, 1] \<noteq> []
           \<and> ad_connected s' = ad_connected s @ map ((!) (g_ata_bd s')) (filter (\<lambda>i. usable (ad_dev s' i)) [0, 1])
           \<and> (\<forall>i < 2. usable (ad_dev s' i) \<longrightarrow>
                (\<exists>a st. probe_turn port param i s = Some a \<and> identify_device port param i (ad_ata a) = Some st
                   \<and> g_ata_bd s' ! i = (g_ata_bd s ! i)\<lparr>sectorSize := ata_get_logical_sector_size_2 (id_words param st),
                        sectorCount := (if bit (id_words param st 83) 10 then id_total_bdm (id_words param st)
                                        else ucast (id_total28 (id_words param st)))\<rparr>)))"
proof -
  obtain r s' where p: "atad_probe port param s = Some (r, s')" by (rule probe_returns [OF assms(2)])
  then show ?thesis using probe_outcome [OF assms(1,3) p] unfolding geometry_read_def by blast
qed

text \<open>A bay without a disk, for concrete runs: the status and every other register read as constants.\<close>

definition no_disk :: "u16 \<Rightarrow> u16 \<Rightarrow> unit ata_port" where
  "no_disk status v = \<lparr>
     ata_in = (\<lambda>r h. (if r = R_control then status else v, h)), ata_out = (\<lambda>r v h. h), spd_in = (\<lambda>s h. (0xFF, h)), spd_out = (\<lambda>s v h. h),
     k_delay = (\<lambda>t h. h), k_wait = (\<lambda>h. ([Irq_alarm], h)), k_set_alarm = (\<lambda>e h. (0, h)),
     k_cancel_alarm = (\<lambda>h. h), k_sema = (\<lambda>h. (0, h)), k_signal = (\<lambda>h. h),
     dma_in = (\<lambda>b h. (replicate (bcr_bytes b) 0, h)), dma_out = (\<lambda>b d h. h), sce_codes = replicate 8 0,
     SPD_INTR_ATA0 = 1, SPD_INTR_ATA = 3, SPD_IF_ATA_RESET = 0x80, SPD_IF_DMA_ENABLE = 4, SPD_CAPS_ATA = 2, SPD_CAPS_DVR = 0x20\<rparr>"

definition fresh_atad :: "'h \<Rightarrow> 'h atad" where
  "fresh_atad h = \<lparr>ad_ata = \<lparr>at_hw = h, at_mem = (\<lambda>_. 0), at_evflg = 0, at_cmd = \<lparr>cs_type = 0, cs_buf = 0, cs_blkcount = 0, cs_dir = 0\<rparr>,
       at_devinfo = [no_device, no_device], at_dvrp = False, at_gamestar = False, dev9_has_dvr_capability = False\<rparr>,
     g_ata_bd = [ata_bd_init 0, ata_bd_init 1], ad_connected = [], ata_devinfo_init = False\<rparr>"

lemma no_disk_sel [simp]:
  "ata_in (no_disk status v) r h = (if r = R_control then status else v, h)" "ata_out (no_disk status v) r x h = h"
  "spd_out (no_disk status v) sr x h = h" "k_delay (no_disk status v) t h = h"
  by (simp_all add: no_disk_def)

lemma no_disk_busy: "wait_busy_loop (no_disk status v) bits (Suc n) h = (if status AND bits = 0 then 0 else ATA_RES_ERR_TIMEOUT, h)"
proof (cases "status AND bits = 0")
  case False
  then have "wait_busy_loop (no_disk status v) bits k h = (ATA_RES_ERR_TIMEOUT, h)" for k by (induction k) (simp_all add: Let_def)
  then show ?thesis using False by simp
qed simp

lemma no_disk_waits [simp]:
  "ata_wait_busy (no_disk status v) h = (if status AND 0x80 = 0 then 0 else ATA_RES_ERR_TIMEOUT, h)"
  using no_disk_busy [of status v "0x80" 79 h] by (simp add: ata_wait_busy_def gen_ata_wait_busy_def)

text \<open>A floating bus times out; registers without the signature of a drive are not taken for one.\<close>

lemma no_disk_probe:
  "atad_probe (no_disk 0xFF 0xFF) 0 (fresh_atad ()) = Some (- 1, fresh_atad ())"
  "atad_probe (no_disk 0x50 0) 0 (fresh_atad ()) = Some (- 1, fresh_atad ())"
  by (simp_all add: atad_probe_def sceAtaInit_def ata_bus_reset_def Let_def fresh_atad_def clear_devinfo_def set_ahw_def
      ata_init_devices_def detect_devices_def sceAtaSoftReset_def ata_device_probe_def set_dev_def)

text \<open>A bay with one drive that answers the detection and the IDENTIFY command: the device register, the two
  registers the detection writes, and the position in the identify data \<open>idw\<close>.\<close>

record id_drive =
  dr_sel :: u16
  dr_lcyl :: u16
  dr_hcyl :: u16
  dr_pos :: nat

definition one_disk :: "(nat \<Rightarrow> u16) \<Rightarrow> id_drive ata_port" where
  "one_disk idw = \<lparr>
     ata_in = (\<lambda>r h. case r of R_control \<Rightarrow> (if dr_sel h AND 0x10 \<noteq> 0 then 0 else 0x50, h) | R_data \<Rightarrow> (idw (dr_pos h), h\<lparr>dr_pos := Suc (dr_pos h)\<rparr>)
        | R_nsector \<Rightarrow> (1, h) | R_sector \<Rightarrow> (1, h) | R_lcyl \<Rightarrow> (dr_lcyl h, h) | R_hcyl \<Rightarrow> (dr_hcyl h, h) | R_select \<Rightarrow> (dr_sel h, h)
        | R_command \<Rightarrow> (0x58, h) | R_feature \<Rightarrow> (0, h)),
     ata_out = (\<lambda>r v h. case r of R_control \<Rightarrow> if v = 6 then h\<lparr>dr_sel := 0, dr_lcyl := 0, dr_hcyl := 0\<rparr> else h
        | R_lcyl \<Rightarrow> h\<lparr>dr_lcyl := v\<rparr> | R_hcyl \<Rightarrow> h\<lparr>dr_hcyl := v\<rparr> | R_select \<Rightarrow> h\<lparr>dr_sel := v\<rparr> | R_command \<Rightarrow> h\<lparr>dr_pos := 0\<rparr> | _ \<Rightarrow> h),
     spd_in = (\<lambda>s h. (0, h)), spd_out = (\<lambda>s v h. h), k_delay = (\<lambda>t h. h), k_wait = (\<lambda>h. ([Irq_ata], h)), k_set_alarm = (\<lambda>e h. (0, h)),
     k_cancel_alarm = (\<lambda>h. h), k_sema = (\<lambda>h. (0, h)), k_signal = (\<lambda>h. h),
     dma_in = (\<lambda>b h. (replicate (bcr_bytes b) 0, h)), dma_out = (\<lambda>b d h. h), sce_codes = replicate 8 0,
     SPD_INTR_ATA0 = 1, SPD_INTR_ATA = 3, SPD_IF_ATA_RESET = 0x80, SPD_IF_DMA_ENABLE = 4, SPD_CAPS_ATA = 2, SPD_CAPS_DVR = 0x20\<rparr>"

lemma one_disk_in [simp]:
  "ata_in (one_disk idw) R_control h = (if dr_sel h AND 0x10 \<noteq> 0 then 0 else 0x50, h)"
  "ata_in (one_disk idw) R_data h = (idw (dr_pos h), h\<lparr>dr_pos := Suc (dr_pos h)\<rparr>)"
  "ata_in (one_disk idw) R_nsector h = (1, h)" "ata_in (one_disk idw) R_sector h = (1, h)"
  "ata_in (one_disk idw) R_lcyl h = (dr_lcyl h, h)" "ata_in (one_disk idw) R_hcyl h = (dr_hcyl h, h)"
  "ata_in (one_disk idw) R_select h = (dr_sel h, h)" "ata_in (one_disk idw) R_command h = (0x58, h)"
  by (simp_all add: one_disk_def)

lemma one_disk_out [simp]:
  "ata_out (one_disk idw) R_control v h = (if v = 6 then h\<lparr>dr_sel := 0, dr_lcyl := 0, dr_hcyl := 0\<rparr> else h)"
  "ata_out (one_disk idw) R_lcyl v h = h\<lparr>dr_lcyl := v\<rparr>" "ata_out (one_disk idw) R_hcyl v h = h\<lparr>dr_hcyl := v\<rparr>"
  "ata_out (one_disk idw) R_select v h = h\<lparr>dr_sel := v\<rparr>" "ata_out (one_disk idw) R_command v h = h\<lparr>dr_pos := 0\<rparr>"
  "ata_out (one_disk idw) R_feature v h = h" "ata_out (one_disk idw) R_nsector v h = h" "ata_out (one_disk idw) R_sector v h = h"
  "spd_out (one_disk idw) sr v h = h" "spd_in (one_disk idw) sr h = (0, h)" "k_delay (one_disk idw) t h = h" "k_cancel_alarm (one_disk idw) h = h"
  by (simp_all add: one_disk_def)

lemma one_disk_waits [simp]:
  "ata_wait_busy (one_disk idw) h = (0, h)" "ata_wait_bus_busy (one_disk idw) h = (0, h)"
proof -
  have "wait_busy_loop (one_disk idw) bits (Suc n) h = (0, h)" if "bits = 0x80 \<or> bits = 0x88" for n bits using that by auto
  from this [of "0x80" 79] this [of "0x88" 79]
  show "ata_wait_busy (one_disk idw) h = (0, h)" "ata_wait_bus_busy (one_disk idw) h = (0, h)"
    by (simp_all add: ata_wait_busy_def ata_wait_bus_busy_def gen_ata_wait_busy_def)
qed

lemma load_u16_stored:
  "load_u16 (store_mem m a [ucast v, ucast (drop_bit 8 v)]) a = v"
proof (rule bit_word_eqI)
  fix n assume "n < LENGTH(16)"
  then show "bit (load_u16 (store_mem m a [ucast v, ucast (drop_bit 8 v)]) a) n = bit v n"
    by (auto simp: load_u16_def store_mem_def bit_simps)
qed

lemma one_disk_data:
  "at_hw (pio_in16 (one_disk idw) n st) = (at_hw st)\<lparr>dr_pos := dr_pos (at_hw st) + n\<rparr>
   \<and> (\<forall>k < n. load_u16 (at_mem (pio_in16 (one_disk idw) n st)) (cs_buf (at_cmd st) + 2 * k) = idw (dr_pos (at_hw st) + k))
   \<and> (\<forall>a < cs_buf (at_cmd st). at_mem (pio_in16 (one_disk idw) n st) a = at_mem st a)"
proof (induction n arbitrary: st)
  case (Suc n)
  define b where "b = cs_buf (at_cmd st)"
  define v where "v = idw (dr_pos (at_hw st))"
  define st1 where "st1 = (set_ahw ((at_hw st)\<lparr>dr_pos := Suc (dr_pos (at_hw st))\<rparr>) st)
    \<lparr>at_mem := store_mem (at_mem st) b [ucast v, ucast (drop_bit 8 v)], at_cmd := (at_cmd st)\<lparr>cs_buf := b + 2\<rparr>\<rparr>"
  have e: "pio_in16 (one_disk idw) (Suc n) st = pio_in16 (one_disk idw) n st1"
    by (simp add: st1_def b_def v_def Let_def)
  have f: "at_hw st1 = (at_hw st)\<lparr>dr_pos := Suc (dr_pos (at_hw st))\<rparr>" "cs_buf (at_cmd st1) = b + 2"
    "at_mem st1 = store_mem (at_mem st) b [ucast v, ucast (drop_bit 8 v)]"
    by (simp_all add: st1_def set_ahw_def)
  let ?m = "at_mem (pio_in16 (one_disk idw) n st1)"
  have ih: "\<forall>k < n. load_u16 ?m (b + 2 + 2 * k) = idw (Suc (dr_pos (at_hw st)) + k)" "\<forall>a < b + 2. ?m a = at_mem st1 a"
    using Suc.IH [of st1] f by simp_all
  have "load_u16 ?m b = load_u16 (at_mem st1) b" using ih(2) by (simp add: load_u16_def)
  then have z: "load_u16 ?m b = v" using f(3) load_u16_stored by simp
  have "load_u16 ?m (b + 2 * k) = idw (dr_pos (at_hw st) + k)" if "k < Suc n" for k
    using that z ih(1) by (cases k) (auto simp: v_def)
  moreover have "?m a = at_mem st a" if "a < b" for a using that ih(2) f(3) by (simp add: store_mem_def)
  ultimately show ?case using Suc.IH [of st1] f e by (simp add: b_def)
qed simp

lemma one_disk_led [simp]: "SpdSetLED (one_disk idw) dvr ctl h = h"
  by (simp add: SpdSetLED_def)

lemma one_disk_exec:
  assumes "di_exists (at_devinfo st ! 0)"
  shows "\<exists>sx. sceAtaExecCmd (one_disk idw) param 1 0 0 0 0 0 0 ATA_C_IDENTIFY_DEVICE st = (0, sx)
    \<and> cs_type (at_cmd sx) = 2 \<and> cs_buf (at_cmd sx) = param \<and> cs_blkcount (at_cmd sx) = 1 \<and> dr_pos (at_hw sx) = 0 \<and> dr_sel (at_hw sx) = 0x40"
proof -
  obtain h where h: "ata_device_select (one_disk idw) 0 (at_hw st) = (0, h)" "dr_sel h AND 0x10 = 0"
  proof -
    have "drop_bit 4 (dr_sel (at_hw st)) AND 1 = 0 \<longleftrightarrow> dr_sel (at_hw st) AND 0x10 = 0"
      using bit_iff_and_push_bit_not_eq_0 [of "dr_sel (at_hw st)" 4] by (auto simp: and_one_eq bit_iff_odd_drop_bit mod_2_eq_odd)
    then show ?thesis using that by (cases "dr_sel (at_hw st) AND 0x10 = 0") (auto simp: ata_device_select_def Let_def)
  qed
  have "cmd_type (one_disk idw) 0 ATA_C_IDENTIFY_DEVICE = 2" by (simp add: cmd_type_def ata_cmd_table_def)
  then show ?thesis using assms h
    by (simp add: sceAtaExecCmd_def exec_start_def needs_no_ready_def send_task_file_def set_ahw_def Let_def)
qed

lemma one_disk_identify:
  assumes "di_exists (at_devinfo st ! 0)"
  shows "\<exists>st'. ata_device_identify (one_disk idw) 0 param st = Some (0, st') \<and> (\<forall>k < 256. id_words param st' k = idw k)"
proof -
  obtain sx where x: "sceAtaExecCmd (one_disk idw) param 1 0 0 0 0 0 0 ATA_C_IDENTIFY_DEVICE st = (0, sx)"
    "cs_type (at_cmd sx) = 2" "cs_buf (at_cmd sx) = param" "cs_blkcount (at_cmd sx) = 1" "dr_pos (at_hw sx) = 0" "dr_sel (at_hw sx) = 0x40"
    using one_disk_exec [OF assms] by blast
  define s1 where "s1 = sx\<lparr>at_cmd := (at_cmd sx)\<lparr>cs_blkcount := 0\<rparr>\<rparr>"
  define s2 where "s2 = pio_in16 (one_disk idw) 256 s1"
  note d = one_disk_data [of idw 256 s1, folded s2_def]
  have t: "ata_pio_transfer (one_disk idw) s1 = (0, s2)" using x(2) by (simp add: ata_pio_transfer_def s1_def s2_def set_ahw_def)
  define s3 where "s3 = s2\<lparr>at_cmd := (at_cmd s2)\<lparr>cs_blkcount := - 1\<rparr>\<rparr>"
  have "pio_loop (one_disk idw) 1 sx = (0, s3)"
    using t by (simp add: pio_loop.simps [of _ "Suc 0"] pio_loop.simps [of _ 0] Let_def s1_def [symmetric] s3_def set_ahw_def)
  then have "wait_pio (one_disk idw) sx = (0, s3)" using x(4) by (simp add: wait_pio_def Let_def set_ahw_def)
  then have "sceAtaWaitResult (one_disk idw) sx = Some (0, s3)"
    using x(2) by (simp add: sceAtaWaitResult_def wait_checked_def wait_status_def wait_finish_def set_ahw_def)
  then have "ata_device_identify (one_disk idw) 0 param st = Some (0, s3)" using x(1) by (simp add: ata_device_identify_def exec_wait_def)
  moreover have "id_words param s3 k = idw k" if "k < 256" for k
    using d that x(3,5) by (simp add: id_words_def s3_def s1_def)
  ultimately show ?thesis by blast
qed

text \<open>A 4K disk with 976773168 sectors.\<close>

definition demo_words :: "nat \<Rightarrow> u16" where
  "demo_words k = (if k = 60 then 0xFFFF else if k = 61 then 0x0FFF else if k = 83 then 0x0400 else if k = 100 then 0x6030
     else if k = 101 then 0x3A38 else if k = 106 then 0x5000 else if k = 117 then 0x0800 else 0)"

abbreviation demo_bay :: "id_drive ata_port" where "demo_bay \<equiv> one_disk demo_words"

abbreviation demo_atad :: "id_drive atad" where "demo_atad \<equiv> fresh_atad \<lparr>dr_sel = 0, dr_lcyl = 0, dr_hcyl = 0, dr_pos = 0\<rparr>"

lemma one_disk_reset [simp]: "ata_bus_reset (one_disk idw) h = (0, h)"
  by (simp add: ata_bus_reset_def Let_def)

lemma demo_bay_detect:
  "\<exists>s1. detect_devices demo_bay demo_atad = (0, s1) \<and> ad_dev s1 0 = no_device\<lparr>di_exists := True\<rparr>
     \<and> ad_dev s1 1 = no_device \<and> length (at_devinfo (ad_ata s1)) = 2"
  by (simp add: detect_devices_def sceAtaSoftReset_def ata_device_probe_def ata_device_select_def fresh_atad_def
      no_device_def set_dev_def set_ahw_def ata_pio_mode_def Let_def)

lemma demo_bay_probe: "\<exists>s'. atad_probe demo_bay 0 demo_atad = Some (0, s') \<and> usable (ad_dev s' 0) \<and> \<not> usable (ad_dev s' 1)"
proof -
  have nc: "no_card_irq demo_bay" and we: "waits_end demo_bay" by (simp_all add: no_card_irq_def waits_end_def one_disk_def)
  obtain s1 where s1: "detect_devices demo_bay demo_atad = (0, s1)" "ad_dev s1 0 = no_device\<lparr>di_exists := True\<rparr>"
     "ad_dev s1 1 = no_device" "length (at_devinfo (ad_ata s1)) = 2" using demo_bay_detect by blast
  obtain st where st: "ata_device_identify demo_bay 0 0 (ad_ata s1) = Some (0, st)"
    using one_disk_identify [of "ad_ata s1" demo_words 0] s1(2) by auto
  then have id: "identify_device demo_bay 0 0 (ad_ata s1) = Some (set_dev 0 (\<lambda>d. d\<lparr>di_exists := True\<rparr>) st)"
    using s1(2) by (simp add: identify_device_def no_device_def)
  obtain s2 where i: "init_device demo_bay 0 0 s1 = Some s2" using init_device_returns [OF we] by (metis not_None_eq)
  have dv: "at_devinfo st = at_devinfo (ad_ata s1)"
    using st exec_wait_devinfo [OF nc] by (auto simp: ata_device_identify_def)
  have l: "length (g_ata_bd s1) = 2" using detect_keeps(2) [OF s1(1)] by (simp add: fresh_atad_def)
  note c = init_device_connects [OF nc i]
  have u: "usable (ad_dev s2 0)"
    using i id s1(2) dv tune_devinfo [OF nc] s1(4)
    by (fastforce simp: init_device_def usable_def no_device_def set_dev_sel Let_def split: option.splits if_splits)
  have n1: "ad_dev s2 1 = no_device" using c s1(3,4) l by simp
  then have "init_device demo_bay 0 1 s2 = Some s2" by (simp add: init_device_def no_device_def)
  then have "ata_init_devices demo_bay 0 demo_atad = Some (0, s2)" using s1(1) i by (simp add: ata_init_devices_def)
  moreover have "(clear_devinfo demo_atad)\<lparr>ad_ata := set_ahw (at_hw (ad_ata demo_atad)) (ad_ata (clear_devinfo demo_atad))\<rparr> = demo_atad"
    by (simp add: clear_devinfo_def set_ahw_def fresh_atad_def)
  ultimately have "atad_probe demo_bay 0 demo_atad = Some (0, s2\<lparr>ata_devinfo_init := True\<rparr>)"
    using u by (simp add: atad_probe_def sceAtaInit_def Let_def clear_devinfo_def set_ahw_def fresh_atad_def)
  then show ?thesis using u n1 by (simp add: usable_def no_device_def)
qed

lemma demo_bay_words:
  assumes "probe_turn demo_bay 0 0 demo_atad = Some a" "identify_device demo_bay 0 0 (ad_ata a) = Some st" "k < 256"
  shows "id_words 0 st k = demo_words k"
proof -
  have "a = snd (detect_devices demo_bay demo_atad)"
    using assms(1) by (simp add: probe_turn_def Let_def clear_devinfo_def set_ahw_def fresh_atad_def)
  then have d: "ad_dev a 0 = no_device\<lparr>di_exists := True\<rparr>" using demo_bay_detect by auto
  then obtain st' where st': "ata_device_identify demo_bay 0 0 (ad_ata a) = Some (0, st')" "\<forall>k < 256. id_words 0 st' k = demo_words k"
    using one_disk_identify [of "ad_ata a" demo_words 0] by auto
  then have "st = set_dev 0 (\<lambda>d. d\<lparr>di_exists := True\<rparr>) st'" using assms(2) d by (simp add: identify_device_def no_device_def)
  then show ?thesis using st'(2) assms(3) by (simp add: id_words_def set_dev_def)
qed

theorem probe_connects_once_witness:
  "\<exists>s'. atad_probe demo_bay 0 demo_atad = Some (0, s') \<and> ad_connected s' = [(ata_bd_init 0)\<lparr>sectorSize := 4096, sectorCount := 976773168\<rparr>]"
proof -
  have "no_card_irq demo_bay" "waits_end demo_bay" by (simp_all add: no_card_irq_def waits_end_def one_disk_def)
  moreover have f: "length (g_ata_bd demo_atad) = 2" "\<not> ata_devinfo_init demo_atad" "ad_connected demo_atad = []" "g_ata_bd demo_atad ! 0 = ata_bd_init 0"
    by (simp_all add: fresh_atad_def)
  obtain s' where s': "atad_probe demo_bay 0 demo_atad = Some (0, s')" "usable (ad_dev s' 0)" "\<not> usable (ad_dev s' 1)"
    using demo_bay_probe by blast
  ultimately have c: "ad_connected s' = [g_ata_bd s' ! 0]"
    and all: "\<forall>i < 2. usable (ad_dev s' i) \<longrightarrow> (\<exists>a st. probe_turn demo_bay 0 i demo_atad = Some a \<and> identify_device demo_bay 0 i (ad_ata a) = Some st
      \<and> g_ata_bd s' ! i = (g_ata_bd demo_atad ! i)\<lparr>sectorSize := ata_get_logical_sector_size_2 (id_words 0 st),
          sectorCount := (if bit (id_words 0 st 83) 10 then id_total_bdm (id_words 0 st) else ucast (id_total28 (id_words 0 st)))\<rparr>)"
    using probe_connects_once [of demo_bay demo_atad 0] f(1-3) by simp_all
  from all [rule_format, OF zero_less_numeral s'(2), unfolded f(4)] obtain a st where a: "probe_turn demo_bay 0 0 demo_atad = Some a" "identify_device demo_bay 0 0 (ad_ata a) = Some st"
    and g: "g_ata_bd s' ! 0 = (ata_bd_init 0)\<lparr>sectorSize := ata_get_logical_sector_size_2 (id_words 0 st),
          sectorCount := (if bit (id_words 0 st 83) 10 then id_total_bdm (id_words 0 st) else ucast (id_total28 (id_words 0 st)))\<rparr>" by blast
  have "ata_get_logical_sector_size_2 (id_words 0 st) = 4096" "bit (id_words 0 st 83) 10" "id_total_bdm (id_words 0 st) = 976773168"
    by (simp_all add: demo_bay_words [OF a] demo_words_def ata_get_logical_sector_size_2_def id_total_bdm_def)
  then show ?thesis using s'(1) c g by simp
qed

section \<open>Geometry\<close>

lemma unat_pair: "unat (ucast (x :: u16) OR push_bit 16 (ucast (y :: u16)) :: u32) = unat x + unat y * 65536"
  using unat_or_field [of "ucast x" 16 "ucast y"] unat_lt_u16 [of x] unat_lt_u16 [of y] by (simp add: or.commute)

text \<open>C40. The geometry read from the identify data: whatever the drive reports, the sector size the block device gets is a positive
  multiple of 512, either 512 or exactly the reported size without overflow; and the number of sectors is below \<open>2 ^ 48\<close>, the
  largest address the driver can send.\<close>

theorem identify_geometry:
  "512 \<le> unat (ata_get_logical_sector_size_2 w) \<and> 512 dvd unat (ata_get_logical_sector_size_2 w)
     \<and> (unat (ata_get_logical_sector_size_2 w) = 512 \<or> unat (ata_get_logical_sector_size_2 w) = 2 * (unat (w 117) + unat (w 118) * 65536))
     \<and> unat (id_total_bdm w) < 2 ^ 48"
proof -
  define v :: u32 where "v = ucast (w 117) OR push_bit 16 (ucast (w 118))"
  have v: "unat v = unat (w 117) + unat (w 118) * 65536" unfolding v_def by (rule unat_pair)
  have z: "ata_get_logical_sector_size_2 w = 512 \<or> v \<le> 0x7FFFFFFF \<and> 512 \<le> v * 2 \<and> (v * 2) mod 512 = 0 \<and> ata_get_logical_sector_size_2 w = v * 2"
    by (auto simp: ata_get_logical_sector_size_2_def Let_def v_def not_less)
  from z have 1: "512 \<le> unat (ata_get_logical_sector_size_2 w) \<and> 512 dvd unat (ata_get_logical_sector_size_2 w)
     \<and> (unat (ata_get_logical_sector_size_2 w) = 512 \<or> unat (ata_get_logical_sector_size_2 w) = 2 * (unat (w 117) + unat (w 118) * 65536))"
  proof (elim disjE conjE)
    assume a: "v \<le> 0x7FFFFFFF" "512 \<le> v * 2" "(v * 2) mod 512 = 0" and e: "ata_get_logical_sector_size_2 w = v * 2"
    have "unat (v * 2) = 2 * unat v" using a(1) by (simp add: unat_word_ariths(2) word_le_nat_alt)
    moreover have "unat (v * 2) mod 512 = 0" using arg_cong [OF a(3), of unat] by (simp add: unat_mod)
    then have "512 dvd unat (v * 2)" by (rule mod_0_imp_dvd)
    moreover have "512 \<le> unat (v * 2)" using a(2) by (simp add: word_le_nat_alt)
    ultimately show ?thesis unfolding e v by blast
  qed simp
  have "unat (ucast (id_total28 w) :: u64) < 2 ^ 48" using unat_bound [of 32 "id_total28 w"] by simp
  moreover have "unat t < 2 ^ 48" if "\<not> t > 0x0000FFFFFFFFFFFF" for t :: u64
    using that by (simp add: word_less_nat_alt)
  ultimately have "unat (id_total_bdm w) < 2 ^ 48" by (auto simp: id_total_bdm_def Let_def)
  then show ?thesis using 1 by blast
qed

section \<open>Turns of the wait\<close>

text \<open>What a turn does when it only looks at the disk: one read of the alternate status register.\<close>

definition quiet :: "'h ata_port \<Rightarrow> 'h atad \<Rightarrow> 'h atad" where
  "quiet port s = s\<lparr>ad_ata := set_ahw (snd (ata_in port R_control (at_hw (ad_ata s)))) (ad_ata s)\<rparr>"

definition sample_ready :: "'h ata_port \<Rightarrow> 'h atad \<Rightarrow> bool" where
  "sample_ready port s = status_ready (fst (atad_get_probe_status port (at_hw (ad_ata s))))"

text \<open>A run of the loop. For every turn, from what it did: whether the status was good when it began, and whether it disturbed
  the disk or the driver, which is any change beyond that one read. The world may change between two turns.\<close>

inductive hdd_turns :: "'h ata_port \<Rightarrow> nat \<Rightarrow> hdd_wait \<times> 'h atad \<Rightarrow> (bool \<times> bool) list \<Rightarrow> hdd_wait \<times> 'h atad \<Rightarrow> bool" for port param x0 where
  start: "hdd_turns port param x0 [] x0"
| turn: "hdd_turns port param x0 evs (w, s) \<Longrightarrow> hdd_turn port param (w, s) = Some (w', s') \<Longrightarrow>
     s'' = s'\<lparr>ad_ata := set_ahw h (ad_ata s')\<rparr> \<Longrightarrow>
     hdd_turns port param x0 (evs @ [(sample_ready port s, s' \<noteq> s \<and> s' \<noteq> quiet port s)]) (w', s'')"

text \<open>The same run with the guard of the probe in place of its effect, for the proof.\<close>

inductive hdd_run :: "'h ata_port \<Rightarrow> nat \<Rightarrow> hdd_wait \<times> 'h atad \<Rightarrow> (bool \<times> bool) list \<Rightarrow> hdd_wait \<times> 'h atad \<Rightarrow> bool" for port param x0 where
  start: "hdd_run port param x0 [] x0"
| turn: "hdd_run port param x0 evs (w, s) \<Longrightarrow> hdd_turn port param (w, s) = Some (w', s') \<Longrightarrow>
     s'' = s'\<lparr>ad_ata := set_ahw h (ad_ata s')\<rparr> \<Longrightarrow>
     hdd_run port param x0 (evs @ [(sample_ready port s, \<not> ata_detected w \<and> hdd_due (hdd_sample (sample_ready port s) w))]) (w', s'')"

inductive_cases turns_snocE: "hdd_run port param x0 (evs @ [e]) x"

lemma hdd_turn_quiet:
  assumes "hdd_turn port param (w, s) = Some (w', s')" "s' \<noteq> s" "s' \<noteq> quiet port s"
  shows "\<not> ata_detected w \<and> hdd_due (hdd_sample (sample_ready port s) w)"
  using assms by (auto simp: hdd_turn_def quiet_def sample_ready_def atad_get_probe_status_def Let_def split: prod.splits if_splits)

lemma turns_run:
  "hdd_turns port param x0 evs x \<Longrightarrow>
     \<exists>evs'. hdd_run port param x0 evs' x \<and> list_all2 (\<lambda>(r, p) (r', p'). r = r' \<and> (p \<longrightarrow> p')) evs evs'"
proof (induction rule: hdd_turns.induct)
  case start
  show ?case using hdd_run.start by blast
next
  case (turn evs w s w' s' s'' h)
  from turn.IH obtain evs' where e: "hdd_run port param x0 evs' (w, s)" "list_all2 (\<lambda>(r, p) (r', p'). r = r' \<and> (p \<longrightarrow> p')) evs evs'" by blast
  have "list_all2 (\<lambda>(r, p) (r', p'). r = r' \<and> (p \<longrightarrow> p')) (evs @ [(sample_ready port s, s' \<noteq> s \<and> s' \<noteq> quiet port s)])
      (evs' @ [(sample_ready port s, \<not> ata_detected w \<and> hdd_due (hdd_sample (sample_ready port s) w))])"
    using e(2) hdd_turn_quiet [OF turn.hyps(2)] by (auto intro: list_all2_appendI)
  then show ?case using hdd_run.turn [OF e(1) turn.hyps(2,3)] by blast
qed

text \<open>The counters as functions of the events, the latest first.\<close>

fun samples_of :: "(bool \<times> bool) list \<Rightarrow> nat" where
  "samples_of [] = 0"
| "samples_of ((r, p) # es) = (if p \<or> \<not> r then 0 else Suc (samples_of es))"

fun waited_of :: "(bool \<times> bool) list \<Rightarrow> nat" where
  "waited_of [] = 500000"
| "waited_of ((r, p) # es) = (if p then 200000 else if waited_of es < 500000 then waited_of es + 200000 else waited_of es)"

lemma waited_bound: "waited_of es < 700000"
  by (induction es rule: waited_of.induct) auto

lemma hdd_turn_wait:
  assumes "hdd_turn port param (w, s) = Some (w', s')" "\<not> ata_detected w"
    and "due = hdd_due (hdd_sample (sample_ready port s) w)"
  shows "ready_samples w' = (if due \<or> \<not> sample_ready port s then 0 else Suc (ready_samples w))
      \<and> (\<not> ata_detected w' \<longrightarrow> probe_waited w' = (if due then 200000 else if probe_waited w < 500000 then probe_waited w + 200000 else probe_waited w))"
  using assms by (auto simp: hdd_turn_def sample_ready_def hdd_sample_def hdd_due_def hdd_probed_def hdd_tick_def Let_def split: prod.splits option.splits if_splits)

lemma hdd_turn_detected: "hdd_turn port param (w, s) = Some (w', s') \<Longrightarrow> ata_detected w \<Longrightarrow> ata_detected w'"
  by (simp add: hdd_turn_def)

lemma turns_counters:
  "hdd_run port param x0 evs x \<Longrightarrow> fst x0 = hdd_wait_init \<Longrightarrow> \<not> ata_detected (fst x) \<Longrightarrow>
     ready_samples (fst x) = samples_of (rev evs) \<and> unat (probe_waited (fst x)) = waited_of (rev evs)"
proof (induction rule: hdd_run.induct)
  case start
  then show ?case by (simp add: hdd_wait_init_def)
next
  case (turn evs w s w' s' s'' h)
  have d: "\<not> ata_detected w" using turn.hyps(2) turn.prems(2) hdd_turn_detected by fastforce
  with turn.IH turn.prems(1) have ih: "ready_samples w = samples_of (rev evs)" "unat (probe_waited w) = waited_of (rev evs)" by simp_all
  have "unat (probe_waited w + 200000) = unat (probe_waited w) + 200000"
    using waited_bound [of "rev evs"] ih(2) by (intro unat_add_lt [THEN trans]) simp_all
  then show ?case using hdd_turn_wait [OF turn.hyps(2) d refl] d ih turn.prems(2) by (auto simp: word_less_nat_alt)
qed

lemma waited_recent:
  assumes "500000 \<le> waited_of es"
  shows "\<not> (0 < length es \<and> snd (es ! 0)) \<and> \<not> (1 < length es \<and> snd (es ! 1))"
proof (cases es rule: waited_of.cases)
  case (2 r p es')
  then show ?thesis using assms by (cases es' rule: waited_of.cases) (auto split: if_splits)
qed simp

lemma turns_prefix:
  assumes "hdd_run port param x0 (evs @ es) x"
  shows "\<exists>y. hdd_run port param x0 evs y"
  using assms
proof (induction es arbitrary: x rule: rev_induct)
  case (snoc e es)
  then have "hdd_run port param x0 ((evs @ es) @ [e]) x" by simp
  then show ?case using snoc.IH by (elim turns_snocE) (auto dest: snoc.IH)
qed auto

lemma run_spacing:
  assumes "hdd_run port param (hdd_wait_init, s) evs x" "i < length evs" "snd (evs ! i)"
  shows "0 < i \<and> fst (evs ! i) \<and> fst (evs ! (i - 1)) \<and> (\<forall>j < i. snd (evs ! j) \<longrightarrow> j + 3 \<le> i)"
proof -
  have "evs = take (Suc i) evs @ drop (Suc i) evs" by simp
  then obtain y where y: "hdd_run port param (hdd_wait_init, s) (take (Suc i) evs) y" using turns_prefix assms(1) by metis
  let ?es = "take i evs"
  have "take (Suc i) evs = ?es @ [evs ! i]" using assms(2) by (simp add: take_Suc_conv_app_nth)
  with y obtain w s1 where t: "hdd_run port param (hdd_wait_init, s) ?es (w, s1)"
    "evs ! i = (sample_ready port s1, \<not> ata_detected w \<and> hdd_due (hdd_sample (sample_ready port s1) w))"
    by (auto elim: turns_snocE)
  then have d: "\<not> ata_detected w" "hdd_due (hdd_sample (sample_ready port s1) w)" using assms(3) by simp_all
  have c: "ready_samples w = samples_of (rev ?es)" "unat (probe_waited w) = waited_of (rev ?es)"
    using turns_counters [OF t(1)] d(1) by simp_all
  have r: "sample_ready port s1" "0 < samples_of (rev ?es)" "500000 \<le> waited_of (rev ?es)"
    using d(2) c by (auto simp: hdd_due_def hdd_sample_def word_le_nat_alt split: if_splits)
  obtain e es where es: "rev ?es = e # es" using r(2) by (cases "rev ?es") auto
  have len: "length (rev ?es) = i" using assms(2) by simp
  then have i: "0 < i" using es by simp
  have nth: "rev ?es ! k = evs ! (i - 1 - k)" if "k < i" for k using that assms(2) by (simp add: rev_nth)
  have "fst e" using r(2) es by (cases e) (auto split: if_splits)
  then have "fst (evs ! (i - 1))" using es nth [of 0] i by simp
  moreover have "j + 3 \<le> i" if "j < i" "snd (evs ! j)" for j
  proof (rule ccontr)
    assume "\<not> j + 3 \<le> i"
    then have "i - 1 - j = 0 \<or> i - 1 - j = 1" "i - 1 - j < i" using that(1) by linarith+
    moreover have "evs ! j = rev ?es ! (i - 1 - j)" using nth [of "i - 1 - j"] that(1) by simp
    ultimately show False using waited_recent [OF r(3)] that(2) len by (auto split: if_splits)
  qed
  ultimately show ?thesis using i r(1) t(2) by simp
qed

text \<open>C38. The wait for the disk never hammers a drive that is still starting up: a turn that does anything to the disk or to the
  driver beyond reading the alternate status register once begins with a good status, follows a turn that did so too, and
  comes at least three turns (600 ms) after the last such turn.\<close>

theorem hdd_probe_spacing:
  assumes "hdd_turns port param (hdd_wait_init, s) evs x" "i < length evs" "snd (evs ! i)"
  shows "0 < i \<and> fst (evs ! i) \<and> fst (evs ! (i - 1)) \<and> (\<forall>j < i. snd (evs ! j) \<longrightarrow> j + 3 \<le> i)"
proof -
  obtain evs' where e: "hdd_run port param (hdd_wait_init, s) evs' x" "list_all2 (\<lambda>(r, p) (r', p'). r = r' \<and> (p \<longrightarrow> p')) evs evs'"
    using turns_run [OF assms(1)] by blast
  have n: "fst (evs ! k) = fst (evs' ! k)" "snd (evs ! k) \<longrightarrow> snd (evs' ! k)" if "k < length evs" for k
    using list_all2_nthD [OF e(2) that] by (auto split: prod.splits)
  have "i < length evs'" "snd (evs' ! i)" using assms(2,3) n(2) list_all2_lengthD [OF e(2)] by auto
  from run_spacing [OF e(1) this] show ?thesis using n assms(2) by (auto simp: less_imp_diff_less)
qed

lemma demo_bay_turns: "\<exists>x. hdd_turns demo_bay 0 (hdd_wait_init, demo_atad) [(True, False), (True, True)] x"
proof -
  let ?x = "(hdd_wait_init, demo_atad)" and ?w = "hdd_wait_init\<lparr>ready_samples := 1\<rparr>"
  have g: "atad_get_probe_status demo_bay (at_hw (ad_ata demo_atad)) = (0x50, at_hw (ad_ata demo_atad))"
    by (simp add: atad_get_probe_status_def fresh_atad_def)
  then have r: "sample_ready demo_bay demo_atad" by (simp add: sample_ready_def status_ready_def)
  have f: "demo_atad\<lparr>ad_ata := set_ahw (at_hw (ad_ata demo_atad)) (ad_ata demo_atad)\<rparr> = demo_atad" by (simp add: fresh_atad_def set_ahw_def)
  then have q: "quiet demo_bay demo_atad = demo_atad" by (simp add: quiet_def)
  obtain s' where s': "atad_probe demo_bay 0 demo_atad = Some (0, s')" "usable (ad_dev s' 0)" using demo_bay_probe by blast
  have ne: "s' \<noteq> demo_atad" using s'(2) by (auto simp: usable_def fresh_atad_def no_device_def)
  have 1: "hdd_turn demo_bay 0 ?x = Some (?w, demo_atad)"
    using g f by (simp add: hdd_turn_def hdd_wait_init_def hdd_sample_def hdd_due_def hdd_tick_def status_ready_def)
  obtain w' where 2: "hdd_turn demo_bay 0 (?w, demo_atad) = Some (w', s')"
    using g f s'(1) by (simp add: hdd_turn_def hdd_wait_init_def hdd_sample_def hdd_due_def status_ready_def)
  note t1 = hdd_turns.turn [OF hdd_turns.start 1 f [symmetric]]
  note t2 = hdd_turns.turn [OF t1 2 refl]
  show ?thesis using t2 r q ne by auto
qed

theorem hdd_probe_spacing_witness:
  "\<exists>x. hdd_turns demo_bay 0 (hdd_wait_init, demo_atad) [(True, False), (True, True)] x
     \<and> 0 < (1 :: nat) \<and> fst ([(True, False), (True, True)] ! 0)"
proof -
  obtain x where x: "hdd_turns demo_bay 0 (hdd_wait_init, demo_atad) [(True, False), (True, True)] x" using demo_bay_turns by blast
  from hdd_probe_spacing [OF this, of 1] x show ?thesis by (intro exI [of _ x]) simp
qed

text \<open>The loop itself is such a run; it ends only when the target is ready.\<close>

lemma hdd_turns_trans:
  "hdd_turns port param y evs2 z \<Longrightarrow> hdd_turns port param x evs1 y \<Longrightarrow> hdd_turns port param x (evs1 @ evs2) z"
proof (induction rule: hdd_turns.induct)
  case (turn evs w s w' s' s'' h)
  show ?case unfolding append_assoc [symmetric] by (rule hdd_turns.turn [OF turn.IH [OF turn.prems] turn.hyps(2,3)])
qed simp

lemma hdd_wait_run:
  assumes "bdm_hdd_wait_pops_on_mass0 port param fat_ready w s = Some s'"
  shows "fat_ready (at_hw (ad_ata s')) \<and> (\<exists>evs w'. hdd_turns port param (w, s) evs (w', s'))"
proof (rule bdm_hdd_wait_pops_on_mass0.raw_induct [where P = "\<lambda>port param fat_ready w s s'. fat_ready (at_hw (ad_ata s'))
    \<and> (\<exists>evs w'. hdd_turns port param (w, s) evs (w', s'))", OF _ assms], goal_cases)
  case (1 f port param fat_ready w s s')
  show ?case
  proof (cases "fat_ready (at_hw (ad_ata s))")
    case True
    then show ?thesis using 1(2) hdd_turns.start [of port param "(w, s)"] by auto
  next
    case False
    then obtain w1 s1 where t: "hdd_turn port param (w, s) = Some (w1, s1)"
      and n: "f port param fat_ready w1 (s1\<lparr>ad_ata := set_ahw (k_delay port 200000 (at_hw (ad_ata s1))) (ad_ata s1)\<rparr>) = Some s'"
      using 1(2) by (auto split: option.splits)
    from 1(1) [OF n] hdd_turns_trans [OF _ hdd_turns.turn [OF hdd_turns.start t refl]] show ?thesis by blast
  qed
qed

end
