(* ===== verification/Ata_Sim.thy ===== *)
theory Ata_Sim
  imports Ata_Store Ata_Init
begin

text \<open>
  A simulated drive behind the SPEED chip that follows the contract of \<open>Ata_Drive\<close>, and the properties of the driver over every
  drive that does. The simulated hardware keeps the observation itself as its state.
\<close>

section \<open>The simulated drive\<close>

definition pad512 :: "bytes \<Rightarrow> bytes" where
  "pad512 b = take 512 (b @ replicate 512 0)"

lemma length_pad512 [simp]: "length (pad512 b) = 512"
  by (simp add: pad512_def)

lemma pad512_id [simp]: "length b = 512 \<Longrightarrow> pad512 b = b"
  by (simp add: pad512_def)

definition sim_obs :: "ata_obs \<Rightarrow> ata_obs" where
  "sim_obs h = h\<lparr>ob_blk := \<lambda>j. pad512 (ob_blk h j)\<rparr>"

lemma sim_obs_sel [simp]:
  "ob_tf (sim_obs h) = ob_tf h" "ob_xfer (sim_obs h) = ob_xfer h" "ob_idle (sim_obs h) = ob_idle h" "ob_bad (sim_obs h) = ob_bad h"
  "ob_armed (sim_obs h) = ob_armed h" "ob_avail (sim_obs h) = ob_avail h" "ob_pat (sim_obs h) = ob_pat h" "ob_ifc (sim_obs h) = ob_ifc h"
  "ob_xfr (sim_obs h) = ob_xfr h" "ob_blk (sim_obs h) j = pad512 (ob_blk h j)"
  by (simp_all add: sim_obs_def)

definition sim_finished :: "nat \<Rightarrow> ata_obs \<Rightarrow> bool" where
  "sim_finished bps h = (case ob_xfer h of None \<Rightarrow> False | Some (w, a, n, p) \<Rightarrow> p = n * bps)"

text \<open>The status: ready, with an error when one occurred; data requested while a transfer is under way.\<close>

definition sim_status :: "ata_obs \<Rightarrow> u16" where
  "sim_status h = (if ob_idle h then (if ob_bad h then 0x51 else 0x50) else 0x58)"

definition sim_in :: "nat \<Rightarrow> ata_reg \<Rightarrow> ata_obs \<Rightarrow> u16 \<times> ata_obs" where
  "sim_in bps r h = (case r of
       R_control \<Rightarrow> let h = h\<lparr>ob_idle := ob_idle h \<or> sim_finished bps h\<rparr> in (sim_status h, h)
     | R_command \<Rightarrow> let h = h\<lparr>ob_idle := ob_idle h \<or> sim_finished bps h\<rparr> in (sim_status h, h)
     | R_select \<Rightarrow> (ucast (tf_select (ob_tf h)), h)
     | _ \<Rightarrow> (0, h))"

definition sim_out :: "nat \<Rightarrow> ata_reg \<Rightarrow> u16 \<Rightarrow> ata_obs \<Rightarrow> ata_obs" where
  "sim_out nsec r v h = (case r of
       R_data \<Rightarrow> h
     | R_command \<Rightarrow>
         (case tf_request v (ob_tf h) of
            None \<Rightarrow> h
          | Some (w, a, n) \<Rightarrow> if ob_idle h \<and> a + n \<le> nsec then h\<lparr>ob_xfer := Some (w, a, n, 0), ob_idle := False, ob_bad := False, ob_avail := 0\<rparr> else h)
     | _ \<Rightarrow> h\<lparr>ob_tf := put_reg r v (ob_tf h)\<rparr>)"

definition sim_left :: "nat \<Rightarrow> ata_obs \<Rightarrow> nat" where
  "sim_left bps h = (case ob_xfer h of None \<Rightarrow> 0 | Some (w, a, n, p) \<Rightarrow> min 16 (n * bps - p))"

definition sim_spd_in :: "nat \<Rightarrow> spd_reg \<Rightarrow> ata_obs \<Rightarrow> u16 \<times> ata_obs" where
  "sim_spd_in bps s h = (case s of
       SPD_R_IF_CTRL \<Rightarrow> (ob_ifc h, h)
     | SPD_R_XFR_CTRL \<Rightarrow> (ob_xfr h, h)
     | SPD_R_DBUF \<Rightarrow> (of_nat (sim_left bps h), h\<lparr>ob_avail := max (ob_avail h) (sim_left bps h)\<rparr>)
     | SPD_R_INTR_STAT \<Rightarrow> (3, h)
     | _ \<Rightarrow> (0, h))"

definition sim_spd_out :: "spd_reg \<Rightarrow> u16 \<Rightarrow> ata_obs \<Rightarrow> ata_obs" where
  "sim_spd_out s v h = (case s of
       SPD_R_IF_CTRL \<Rightarrow> h\<lparr>ob_ifc := v\<rparr> | SPD_R_XFR_CTRL \<Rightarrow> h\<lparr>ob_xfr := v\<rparr> | SPD_R_DBUF \<Rightarrow> h\<lparr>ob_avail := 0\<rparr> | _ \<Rightarrow> h)"

definition sim_wait :: "ata_obs \<Rightarrow> ata_irq list \<times> ata_obs" where
  "sim_wait h = (if ob_pat h = 0 then ([Irq_alarm], h\<lparr>ob_armed := False\<rparr>) else ([Irq_ata], h\<lparr>ob_pat := ob_pat h - 1\<rparr>))"

text \<open>A transfer whose path is not set up for its direction goes wrong.\<close>

definition sim_dma_in :: "nat \<Rightarrow> u32 \<Rightarrow> ata_obs \<Rightarrow> bytes \<times> ata_obs" where
  "sim_dma_in bps bcr h =
     (let k = bcr_bytes bcr div 512 in
      case ob_xfer h of
        Some (False, a, n, p) \<Rightarrow>
          if path_set False h
          then (sectors (\<lambda>j. pad512 (ob_blk h j)) (a * bps + p) k, h\<lparr>ob_xfer := Some (False, a, n, p + k), ob_avail := 0\<rparr>)
          else (replicate (k * 512) 0, h\<lparr>ob_bad := True\<rparr>)
      | _ \<Rightarrow> (replicate (k * 512) 0, h))"

definition sim_dma_out :: "nat \<Rightarrow> u32 \<Rightarrow> bytes \<Rightarrow> ata_obs \<Rightarrow> ata_obs" where
  "sim_dma_out bps bcr d h =
     (let k = bcr_bytes bcr div 512 in
      case ob_xfer h of
        Some (True, a, n, p) \<Rightarrow>
          if path_set True h
          then h\<lparr>ob_xfer := Some (True, a, n, p + k), ob_avail := 0, ob_blk := upd_sectors (\<lambda>j. pad512 (ob_blk h j)) (a * bps + p) k 512 d\<rparr>
          else h\<lparr>ob_bad := True\<rparr>
      | _ \<Rightarrow> h)"

definition sim_ata_port :: "nat \<Rightarrow> nat \<Rightarrow> ata_obs ata_port" where
  "sim_ata_port bps nsec = \<lparr>
     ata_in = sim_in bps, ata_out = sim_out nsec, spd_in = sim_spd_in bps, spd_out = sim_spd_out,
     k_delay = (\<lambda>t h. h), k_wait = sim_wait, k_set_alarm = (\<lambda>e h. (0, h\<lparr>ob_armed := True, ob_pat := 1000\<rparr>)),
     k_cancel_alarm = (\<lambda>h. h\<lparr>ob_armed := False\<rparr>), k_sema = (\<lambda>h. (0, h)), k_signal = (\<lambda>h. h),
     dma_in = sim_dma_in bps, dma_out = sim_dma_out bps, sce_codes = replicate 8 0,
     SPD_INTR_ATA0 = 1, SPD_INTR_ATA = 3, SPD_IF_ATA_RESET = 0x80, SPD_IF_DMA_ENABLE = 4, SPD_CAPS_ATA = 2, SPD_CAPS_DVR = 0x20\<rparr>"

lemma sim_sel [simp]:
  "ata_in (sim_ata_port bps nsec) = sim_in bps" "ata_out (sim_ata_port bps nsec) = sim_out nsec" "spd_in (sim_ata_port bps nsec) = sim_spd_in bps"
  "spd_out (sim_ata_port bps nsec) = sim_spd_out" "k_delay (sim_ata_port bps nsec) t h = h" "k_wait (sim_ata_port bps nsec) = sim_wait"
  "k_set_alarm (sim_ata_port bps nsec) e h = (0, h\<lparr>ob_armed := True, ob_pat := 1000\<rparr>)" "k_cancel_alarm (sim_ata_port bps nsec) h = h\<lparr>ob_armed := False\<rparr>"
  "k_sema (sim_ata_port bps nsec) h = (0, h)" "k_signal (sim_ata_port bps nsec) h = h" "dma_in (sim_ata_port bps nsec) = sim_dma_in bps"
  "dma_out (sim_ata_port bps nsec) = sim_dma_out bps"
  by (simp_all add: sim_ata_port_def)

lemma sim_moved_all: "moved_all bps (sim_obs h) = sim_finished bps h"
  by (auto simp: moved_all_def sim_finished_def split: option.splits)

lemma sim_later: "later (sim_obs u) (sim_obs v) \<longleftrightarrow> ob_tf v = ob_tf u \<and> ob_xfer v = ob_xfer u \<and> ob_ifc v = ob_ifc u \<and> ob_xfr v = ob_xfr u
     \<and> (\<lambda>j. pad512 (ob_blk v j)) = (\<lambda>j. pad512 (ob_blk u j)) \<and> (ob_idle u \<longrightarrow> ob_idle v) \<and> (ob_bad u \<longrightarrow> ob_bad v) \<and> (ob_armed u \<longrightarrow> ob_armed v)
     \<and> ob_avail u \<le> ob_avail v \<and> ob_pat v \<le> ob_pat u"
  by (simp add: later_def sim_obs_def)

lemma sim_in_law: "sim_in bps r h = (v, h') \<Longrightarrow> later (sim_obs h) (sim_obs h')"
  by (cases r) (auto simp: sim_in_def sim_later Let_def)

lemma sim_spd_in_law: "sim_spd_in bps s h = (v, h') \<Longrightarrow> later (sim_obs h) (sim_obs h')"
  by (cases s) (auto simp: sim_spd_in_def sim_later)

lemma sim_left_bound: "unat (of_nat (sim_left bps h) AND 0x1F :: u16) \<le> sim_left bps h"
proof -
  have "sim_left bps h \<le> 16" by (auto simp: sim_left_def split: option.splits)
  then have "unat (of_nat (sim_left bps h) :: u16) = sim_left bps h" by (simp add: unsigned_of_nat take_bit_nat_eq_self)
  then show ?thesis by (metis word_and_le1 word_and_le2 word_le_nat_alt)
qed

lemma sim_dma_in_law:
  assumes "sim_dma_in bps bcr h = (d, h')" "ob_xfer h = Some (False, a, n, p)" "path_set False (sim_obs h)" "bcr_bytes bcr = k * 512"
  shows "length d = k * 512 \<and> later ((sim_obs h)\<lparr>ob_xfer := Some (False, a, n, p + k), ob_avail := 0\<rparr>) (sim_obs h')
      \<and> (\<not> ob_bad (sim_obs h') \<longrightarrow> d = sectors (ob_blk (sim_obs h)) (a * bps + p) k)"
proof -
  have e: "d = sectors (\<lambda>j. pad512 (ob_blk h j)) (a * bps + p) k" "h' = h\<lparr>ob_xfer := Some (False, a, n, p + k), ob_avail := 0\<rparr>"
    using assms by (auto simp: sim_dma_in_def path_set_def)
  have "length d = k * 512" unfolding e(1) by (rule length_sectors) simp
  then show ?thesis using e by (simp add: later_def sim_obs_def)
qed

lemma sim_dma_out_law:
  assumes "ob_xfer h = Some (True, a, n, p)" "path_set True (sim_obs h)" "bcr_bytes bcr = k * 512" "length d = k * 512" "p + k \<le> n * bps"
  shows "\<exists>b. later ((sim_obs h)\<lparr>ob_xfer := Some (True, a, n, p + k), ob_avail := 0, ob_blk := b\<rparr>) (sim_obs (sim_dma_out bps bcr d h))
      \<and> (\<forall>j. j < a * bps \<or> (a + n) * bps \<le> j \<longrightarrow> b j = ob_blk (sim_obs h) j)
      \<and> (\<not> ob_bad (sim_obs (sim_dma_out bps bcr d h)) \<longrightarrow> b = upd_sectors (ob_blk (sim_obs h)) (a * bps + p) k 512 d)"
proof -
  let ?b = "upd_sectors (\<lambda>j. pad512 (ob_blk h j)) (a * bps + p) k 512 d"
  have e: "sim_dma_out bps bcr d h = h\<lparr>ob_xfer := Some (True, a, n, p + k), ob_avail := 0, ob_blk := ?b\<rparr>"
    using assms by (simp add: sim_dma_out_def path_set_def)
  have "length (?b j) = 512" for j by (rule length_upd_sectors [OF assms(4)]) simp
  then have pad: "(\<lambda>j. pad512 (?b j)) = ?b" by simp
  have "?b j = pad512 (ob_blk h j)" if "j < a * bps \<or> (a + n) * bps \<le> j" for j
    by (rule upd_sectors_outside) (use that assms(5) in \<open>auto simp: distrib_right\<close>)
  then show ?thesis unfolding e using pad by (intro exI [of _ ?b]) (simp add: later_def sim_obs_def)
qed

lemma sim_ata_drive:
  assumes "0 < bps" "nsec \<le> 2 ^ 48" "dev < 2"
  shows "ata_drive (sim_ata_port bps nsec) sim_obs dev True bps nsec"
proof (unfold_locales, goal_cases)
  case (1 r h v h') then show ?case by (simp add: sim_in_law)
next
  case (2 h v h') then show ?case by (auto simp: sim_in_def sim_status_def Let_def split: if_splits)
next
  case (3 r h v h') then show ?case by (auto simp: sim_in_def sim_moved_all Let_def)
next
  case (4 h v h') then show ?case by (auto simp: sim_in_def sim_status_def Let_def split: if_splits)
next
  case (5 r v h) then show ?case by (cases r) (simp_all add: sim_out_def later_def sim_obs_def)
next
  case (6 h c w a n) then show ?case by (simp add: sim_out_def later_def sim_obs_def)
next
  case (7 s h v h') then show ?case by (simp add: sim_spd_in_law)
next
  case (10 h v h') then show ?case by (auto simp: sim_spd_in_def intro: order_trans [OF sim_left_bound])
next
  case (14 s h v) then show ?case by (auto simp: sim_spd_out_def)
next
  case (20 h qs h') then show ?case by (auto simp: sim_wait_def later_def sim_obs_def split: if_splits)
next
  case (21 h qs h') then show ?case by (auto simp: sim_wait_def split: if_splits)
next
  case (22 h qs h') then show ?case by (auto simp: sim_wait_def split: if_splits)
next
  case (23 bcr h d h' a n p k) then show ?case by (intro sim_dma_in_law) simp_all
next
  case (24 h a n p bcr k d) then show ?case unfolding sim_sel by (intro sim_dma_out_law) simp_all
qed (use assms in \<open>auto simp: sim_spd_in_def sim_spd_out_def later_def sim_obs_def\<close>)

section \<open>Concrete disks\<close>

text \<open>A disk of a million sectors of 512 bytes as device 0, and one of 4096-byte sectors as device 1.\<close>

interpretation drive512: ata_drive "sim_ata_port 1 1000000" sim_obs 0 True 1 1000000
  by (rule sim_ata_drive) simp_all

interpretation drive4k: ata_drive "sim_ata_port 8 125000" sim_obs 1 True 8 125000
  by (rule sim_ata_drive) simp_all

definition disk512 :: block_device where
  "disk512 = (ata_bd_init 0)\<lparr>sectorCount := 1000000\<rparr>"

definition disk4k :: block_device where
  "disk4k = (ata_bd_init 1)\<lparr>sectorSize := 4096, sectorCount := 125000\<rparr>"

definition demo_drive :: ata_obs where
  "demo_drive = \<lparr>ob_tf = \<lparr>tf_nsector = (1, 1), tf_sector = (1, 1), tf_lcyl = (0, 0), tf_hcyl = (0, 0), tf_select = 0\<rparr>,
     ob_xfer = None, ob_idle = True, ob_bad = False, ob_armed = False, ob_avail = 0, ob_pat = 0, ob_ifc = 0, ob_xfr = 0,
     ob_blk = (\<lambda>_. replicate 512 0)\<rparr>"

definition demo_dev :: ata_devinfo where
  "demo_dev = \<lparr>di_exists = True, has_packet = 0, total_sectors = 1000000, security_status = 0, di_lba48 = True, total_sectors_lba48 = 1000000\<rparr>"

definition demo_ata :: "ata_obs ata" where
  "demo_ata = \<lparr>at_hw = demo_drive, at_mem = (\<lambda>_. 7), at_evflg = 0, at_cmd = \<lparr>cs_type = 0, cs_buf = 0, cs_blkcount = 0, cs_dir = 0\<rparr>,
     at_devinfo = [demo_dev, demo_dev], at_dvrp = False, at_gamestar = False, dev9_has_dvr_capability = False\<rparr>"

lemma demo_ready: "ata_ready 0 True 1000000 demo_ata" "ata_ready 1 True 125000 demo_ata"
  by (simp_all add: ata_ready_def demo_ata_def demo_dev_def Let_def)

section \<open>Properties\<close>

text \<open>C5. The ATA driver keeps the contract of a block device over every drive that follows the ATA protocol, for sectors of 512 bytes
  and of any multiple of it, whatever errors, retries, interrupts and timeouts occur: a read that reports its count has stored the
  drive's sectors, a write that does has stored the data in exactly those sectors, and a failed one leaves all other sectors alone.\<close>

theorem ata_is_block_store:
  assumes "ata_drive port obs dev lba48 bps nsec" "ucast (devNr bd) = dev" "unat (sectorSize bd) = bps * 512" "bps * 65535 < 2 ^ 32"
  shows "block_store (ata_bd_ops port bd buf) (ata_ready dev lba48 nsec) (\<lambda>st. ata_disk bps (obs (at_hw st))) (bps * 512) nsec"
  by (rule ata_drive.ata_block_store [OF assms])

theorem ata_is_block_store_witness:
  "block_store (ata_bd_ops (sim_ata_port 8 125000) disk4k 0) (ata_ready 1 True 125000) (\<lambda>st. ata_disk 8 (sim_obs (at_hw st))) (8 * 512) 125000
     \<and> ata_ready 1 True 125000 demo_ata"
  using ata_is_block_store [OF drive4k.ata_drive_axioms, of disk4k 0] demo_ready by (simp add: disk4k_def ata_bd_init_def)

text \<open>C12. No request of the block device layer hangs: over every drive that follows the protocol, with the alarm as the only promise that
  an interrupt comes, reads and writes of the ATA driver return, and they return the count asked for or \<open>-EIO\<close>.\<close>

theorem ata_requests_return:
  assumes "ata_drive port obs dev lba48 bps nsec" "ucast (devNr bd) = dev" "unat (sectorSize bd) = bps * 512" "bps * 65535 < 2 ^ 32"
    and "ata_ready dev lba48 nsec st" "unat a + unat c \<le> nsec"
  shows "(\<exists>r st'. ata_bd_read port bd a buf c st = Some (r, st') \<and> (r = int (unat c) \<or> r = - EIO))
      \<and> (\<exists>r st'. ata_bd_write port bd a buf c st = Some (r, st') \<and> (r = int (unat c) \<or> r = - EIO))"
proof -
  obtain r1 st1 r2 st2 where "ata_bd_io_common_2 port bd a buf c 0 st = Some (r1, st1)" "ata_bd_io_common_2 port bd a buf c 1 st = Some (r2, st2)"
    using ata_drive.io_common_moves [OF assms(1-5) _ assms(6), of 0 buf] ata_drive.io_common_moves [OF assms(1-5) _ assms(6), of 1 buf] by auto
  then show ?thesis unfolding ata_bd_read_def ata_bd_write_def by (simp only: bd_result_Some) auto
qed

theorem ata_requests_return_witness:
  "\<exists>r st'. ata_bd_write (sim_ata_port 1 1000000) disk512 999999 0 1 demo_ata = Some (r, st') \<and> (r = 1 \<or> r = - EIO)"
  using ata_requests_return [OF drive512.ata_drive_axioms, of disk512 demo_ata 999999 1 0] demo_ready
  by (simp add: disk512_def ata_bd_init_def)

theorem task_file_roundtrip_witness:
  "\<exists>regs. tf_request (io_command (io_setup True 1 0x123456789ABC 65535 1)) (put_regs regs (ob_tf demo_drive)) = Some (True, 0x123456789ABC, 65535)"
  using task_file_roundtrip [of 1 1 65535 "0x123456789ABC" True "io_setup True 1 0x123456789ABC 65535 1" True "ob_tf demo_drive"]
  by (auto simp: io_count_def)

end
