(* ===== verification/Diskio.thy ===== *)
theory Diskio
  imports Bdm
begin

text \<open>
  \<open>__bdm_assault/src/bdmfs/bdmfs_diskio.c\<close>: the functions FatFs calls to reach the block device
  mounted on a volume, and the clock. \<open>mounted\<close> is the column \<open>mounted_bd\<close> of
  \<open>fs_driver_mount_info\<close> (10 volumes). Shown: a transfer that reports \<open>RES_OK\<close> moved exactly the
  requested sectors, also for counts that do not fit the driver's 16-bit count, and the packed
  time stamp is the one read from the clock.
\<close>

section \<open>Definitions\<close>

abbreviation (input) FF_VOLUMES :: nat where "FF_VOLUMES \<equiv> 10"

datatype dresult = RES_OK | RES_ERROR | RES_WRPRT | RES_NOTRDY | RES_PARERR

text \<open>The operations and the structure behind a \<open>struct block_device *\<close>.\<close>

record 's disk_env =
  de_ops :: "bdref \<Rightarrow> 's bd_ops"
  de_desc :: "bdref \<Rightarrow> block_device"

text \<open>\<open>fs_driver_mount_info[i].mounted_bd\<close>. The C test lets the index \<open>FF_VOLUMES\<close> and negative
  indices through, where the array is read out of bounds: the outer \<open>None\<close>.\<close>

definition fatfs_fs_driver_get_mounted_bd_from_index :: "bdref option list \<Rightarrow> int \<Rightarrow> bdref option option" where
  "fatfs_fs_driver_get_mounted_bd_from_index mounted i =
     (if i > int FF_VOLUMES then Some None
      else if i < 0 \<or> i = int FF_VOLUMES then None
      else Some (mounted ! nat i))"

text \<open>FatFs calls the functions below with the physical drive of a volume, which is less than
  \<open>FF_VOLUMES\<close>, so the lookup is defined.\<close>

definition mounted_dev :: "bdref option list \<Rightarrow> u8 \<Rightarrow> bdref option" where
  "mounted_dev mounted pdrv =
     (case fatfs_fs_driver_get_mounted_bd_from_index mounted (int (unat pdrv)) of
        Some b \<Rightarrow> b | None \<Rightarrow> None)"

definition disk_status :: "bdref option list \<Rightarrow> u8 \<Rightarrow> u8" where
  "disk_status mounted pdrv = (if mounted_dev mounted pdrv = None then 0x01 OR 0x02 else 0)"

definition disk_initialize :: "bdref option list \<Rightarrow> u8 \<Rightarrow> u8" where
  "disk_initialize mounted pdrv = (if mounted_dev mounted pdrv = None then 0x01 OR 0x02 else 0)"

text \<open>The count is a \<open>UINT\<close>, the driver's parameter a \<open>u16\<close>; the driver's result is compared as
  an unsigned 32-bit number.\<close>

definition disk_read :: "'s disk_env \<Rightarrow> bdref option list \<Rightarrow> u8 \<Rightarrow> u64 \<Rightarrow> u32 \<Rightarrow> 's \<Rightarrow> dresult \<times> bytes \<times> 's" where
  "disk_read env mounted pdrv sector count s =
     (case mounted_dev mounted pdrv of
        None \<Rightarrow> (RES_NOTRDY, [], s)
      | Some b \<Rightarrow>
          let (r, d, s') = bd_read (de_ops env b) s sector (ucast count)
          in (if (of_int r :: u32) = count then RES_OK else RES_ERROR, d, s'))"

definition disk_write :: "'s disk_env \<Rightarrow> bdref option list \<Rightarrow> u8 \<Rightarrow> bytes \<Rightarrow> u64 \<Rightarrow> u32 \<Rightarrow> 's \<Rightarrow> dresult \<times> 's" where
  "disk_write env mounted pdrv buff sector count s =
     (case mounted_dev mounted pdrv of
        None \<Rightarrow> (RES_NOTRDY, s)
      | Some b \<Rightarrow>
          let (r, s') = bd_write (de_ops env b) s sector buff (ucast count)
          in (if (of_int r :: u32) = count then RES_OK else RES_ERROR, s'))"

datatype disk_cmd = CTRL_SYNC | GET_SECTOR_COUNT | GET_SECTOR_SIZE | GET_BLOCK_SIZE | OTHER_CMD

text \<open>\<open>disk_ioctl\<close> with the number it stores in the caller's buffer, if any.\<close>

definition disk_ioctl :: "'s disk_env \<Rightarrow> bdref option list \<Rightarrow> u8 \<Rightarrow> disk_cmd \<Rightarrow> 's \<Rightarrow> dresult \<times> u64 option \<times> 's" where
  "disk_ioctl env mounted pdrv cmd s =
     (case mounted_dev mounted pdrv of
        None \<Rightarrow> (RES_NOTRDY, None, s)
      | Some b \<Rightarrow>
          (case cmd of
             CTRL_SYNC \<Rightarrow> (RES_OK, None, bd_flush (de_ops env b) s)
           | GET_SECTOR_COUNT \<Rightarrow> (RES_OK, Some (sectorCount (de_desc env b)), s)
           | GET_SECTOR_SIZE \<Rightarrow> (RES_OK, Some (ucast (ucast (sectorSize (de_desc env b)) :: u16)), s)
           | GET_BLOCK_SIZE \<Rightarrow> (RES_OK, Some 0, s)
           | OTHER_CMD \<Rightarrow> (RES_PARERR, None, s)))"

text \<open>\<open>sceCdReadClock\<close> fills BCD fields; \<open>btoi\<close> is the SDK's BCD conversion.\<close>

record cd_clock =
  cl_stat :: u8
  cl_second :: u8
  cl_minute :: u8
  cl_hour :: u8
  cl_day :: u8
  cl_month :: u8
  cl_year :: u8

definition btoi :: "u8 \<Rightarrow> nat" where
  "btoi b = unat b div 16 * 10 + unat b mod 16"

definition pack_fattime :: "nat \<Rightarrow> nat \<Rightarrow> nat \<Rightarrow> nat \<Rightarrow> nat \<Rightarrow> nat \<Rightarrow> u32" where
  "pack_fattime year month day hour minute sec =
     push_bit 25 (of_nat (year - 1980)) OR push_bit 21 (of_nat month) OR push_bit 16 (of_nat day)
     OR push_bit 11 (of_nat hour) OR push_bit 5 (of_nat minute) OR drop_bit 1 (of_nat sec)"

definition get_fattime :: "cd_clock option \<Rightarrow> u32" where
  "get_fattime clock =
     (case clock of
        Some c \<Rightarrow>
          if cl_stat c = 0
          then pack_fattime (btoi (cl_year c) + 2000) (btoi (cl_month c AND 0x7f)) (btoi (cl_day c))
                 (btoi (cl_hour c)) (btoi (cl_minute c)) (btoi (cl_second c))
          else pack_fattime 2005 1 6 14 12 10
      | None \<Rightarrow> pack_fattime 2005 1 6 14 12 10)"

section \<open>Transfers\<close>

lemma mounted_dev_at:
  assumes "unat pdrv < 10"
  shows "mounted_dev mounted pdrv = mounted ! unat pdrv"
  using assms uint_less_unat [OF assms]
  by (simp add: mounted_dev_def fatfs_fs_driver_get_mounted_bd_from_index_def)

text \<open>An \<open>int\<close> that equals a small count as an unsigned number is that count.\<close>

lemma int_result_eq:
  assumes "- (2 ^ 31) \<le> r" "r < 2 ^ 31" "(of_int r :: u32) = count" "unat count < 65536"
  shows "r = int (unat count)"
proof -
  have "uint (of_int r :: u32) = r mod 2 ^ 32" by (simp add: uint_word_of_int)
  then have m: "r mod 2 ^ 32 = int (unat count)" using assms(3) by simp
  show ?thesis
  proof (cases "r < 0")
    case True
    have "r mod 2 ^ 32 = (r + 2 ^ 32) mod 2 ^ 32" by simp
    also have "\<dots> = r + 2 ^ 32" using True assms(1) by (intro mod_pos_pos_trivial) auto
    finally show ?thesis using m assms(1) uint_less_unat [OF assms(4)] by simp
  next
    case False
    then show ?thesis using m assms(2) by simp
  qed
qed

lemma ucast_small: "unat (count :: u32) < 65536 \<Longrightarrow> unat (ucast count :: u16) = unat count"
  by (simp add: unsigned_ucast_eq take_bit_nat_eq_self)

context block_store
begin

text \<open>What FatFs gets from \<open>disk_read\<close> and \<open>disk_write\<close> on a mounted device whose driver meets the
  contract and returns C integers.\<close>

lemma disk_read_ok:
  assumes dev: "mounted_dev mounted pdrv = Some b" "de_ops env b = ops" and s: "inv s"
    and rng: "unat a + unat n \<le> nsec" "unat n < 65536"
    and cint: "\<And>r d s'. bd_read ops s a (ucast n) = (r, d, s') \<Longrightarrow> - (2 ^ 31) \<le> r \<and> r < 2 ^ 31"
    and run: "disk_read env mounted pdrv a n s = (res, d, s')"
  shows "inv s' \<and> disk s' = disk s \<and> length d \<le> unat n * ssz
       \<and> (res = RES_OK \<longrightarrow> d = sectors (disk s) (unat a) (unat n)) \<and> res \<in> {RES_OK, RES_ERROR}"
proof -
  have n: "unat (ucast n :: u16) = unat n" using rng(2) by (rule ucast_small)
  obtain r where rd: "bd_read ops s a (ucast n) = (r, d, s')"
    and res: "res = (if (of_int r :: u32) = n then RES_OK else RES_ERROR)"
    using run dev by (auto simp: disk_read_def split: prod.splits)
  have "res = RES_OK \<Longrightarrow> r = int (unat (ucast n :: u16))"
    using int_result_eq [of r n] cint [OF rd] rng(2) res n by (auto split: if_splits)
  then have "res = RES_OK \<Longrightarrow> d = sectors (disk s) (unat a) (unat n)"
    using read_data [OF s, of a "ucast n"] rd rng(1) n by auto
  then show ?thesis
    using read_keeps [OF s _ rd] read_bound [OF s _ rd] rng(1) n res by auto
qed

lemma disk_write_ok:
  assumes dev: "mounted_dev mounted pdrv = Some b" "de_ops env b = ops" and s: "inv s"
    and rng: "unat a + unat n \<le> nsec" "unat n < 65536" "length d = unat n * ssz"
    and cint: "\<And>r s'. bd_write ops s a d (ucast n) = (r, s') \<Longrightarrow> - (2 ^ 31) \<le> r \<and> r < 2 ^ 31"
    and run: "disk_write env mounted pdrv d a n s = (res, s')"
  shows "inv s' \<and> (\<forall>k. k < unat a \<or> unat a + unat n \<le> k \<longrightarrow> disk s' k = disk s k)
       \<and> (res = RES_OK \<longrightarrow> disk s' = upd_sectors (disk s) (unat a) (unat n) ssz d) \<and> res \<in> {RES_OK, RES_ERROR}"
proof -
  have n: "unat (ucast n :: u16) = unat n" using rng(2) by (rule ucast_small)
  obtain r where wr: "bd_write ops s a d (ucast n) = (r, s')"
    and res: "res = (if (of_int r :: u32) = n then RES_OK else RES_ERROR)"
    using run dev by (auto simp: disk_write_def split: prod.splits)
  have A: "unat a + unat (ucast n :: u16) \<le> nsec" "length d = unat (ucast n :: u16) * ssz" using rng n by simp_all
  have "res = RES_OK \<Longrightarrow> r = int (unat (ucast n :: u16))"
    using int_result_eq [of r n] cint [OF wr] rng(2) res n by (auto split: if_splits)
  then have "res = RES_OK \<Longrightarrow> disk s' = upd_sectors (disk s) (unat a) (unat n) ssz d"
    using write_data [OF s A, of s'] wr n by auto
  then show ?thesis
    using write_inv [OF s A wr] write_frame [OF s A wr] n res by auto
qed

end

section \<open>Properties\<close>

text \<open>A read FatFs believes: on a mounted device that meets the block-device contract, \<open>RES_OK\<close>
  means that exactly the requested sectors were stored and the disk is unchanged. A count that
  does not fit the driver's 16-bit parameter is never reported as \<open>RES_OK\<close>, although the driver is
  called with the truncated count.\<close>

theorem disk_read_sound:
  assumes "block_store ops ok dsk ssz nsec" "ok s" "mounted_dev mounted pdrv = Some b" "de_ops env b = ops"
    and "disk_read env mounted pdrv a n s = (RES_OK, d, s')"
    and "\<forall>r d s'. bd_read ops s a (ucast n) = (r, d, s') \<longrightarrow> - (2 ^ 31) \<le> r \<and> r \<le> int (unat (ucast n :: u16))"
    and "unat n < 2 ^ 31" "unat a + unat n \<le> nsec"
  shows "unat n < 65536 \<and> d = sectors (dsk s) (unat a) (unat n) \<and> ok s' \<and> dsk s' = dsk s"
proof -
  obtain r where rd: "bd_read ops s a (ucast n) = (r, d, s')" and r: "(of_int r :: u32) = n"
    using assms(3-5) by (auto simp: disk_read_def split: prod.splits if_splits)
  have le: "- (2 ^ 31) \<le> r" "r \<le> int (unat (ucast n :: u16))" using assms(6) rd by blast+
  have lt: "r < 65536" using le(2) unat_lt_u16 [of "ucast n"] by linarith
  have m: "r mod 2 ^ 32 = int (unat n)" using r uint_word_of_int [of r, where 'a = 32] by simp
  have small: "unat n < 65536"
  proof (cases "r < 0")
    case True
    have "r mod 2 ^ 32 = (r + 2 ^ 32) mod 2 ^ 32" by simp
    also have "\<dots> = r + 2 ^ 32" using True le(1) by (intro mod_pos_pos_trivial) auto
    finally have "int (unat n) \<ge> 2 ^ 31" using m le(1) by simp
    moreover have "int (unat n) < int (2 ^ 31)" using assms(7) by (simp only: of_nat_less_iff)
    ultimately show ?thesis by simp
  next
    case False
    then have "r mod 2 ^ 32 = r" using lt by simp
    then have "int (unat n) = r" using m by linarith
    then show ?thesis using lt by linarith
  qed
  have "ok s' \<and> dsk s' = dsk s \<and> length d \<le> unat n * ssz
       \<and> (RES_OK = RES_OK \<longrightarrow> d = sectors (dsk s) (unat a) (unat n)) \<and> RES_OK \<in> {RES_OK, RES_ERROR}"
  proof (rule block_store.disk_read_ok [OF assms(1,3,4,2,8) small _ assms(5)])
    fix q e t assume "bd_read ops s a (ucast n) = (q, e, t)"
    then show "- (2 ^ 31) \<le> q \<and> q < 2 ^ 31" using rd le(1) lt by simp
  qed
  then show ?thesis using small by simp
qed

definition ram_env :: "(nat \<Rightarrow> bytes) disk_env" where
  "ram_env = \<lparr>de_ops = (\<lambda>b. ram_ops 512 1000), de_desc = (\<lambda>b. \<lparr>bd_name = None, devNr = 0, parNr = 0, parId = 0,
     sectorSize = 512, sectorOffset = 0, sectorCount = 1000\<rparr>)\<rparr>"

theorem disk_read_sound_witness:
  "\<exists>d s'. disk_read ram_env [Some (DevBd 0)] 0 5 2 (zero_disk 512) = (RES_OK, d, s')
     \<and> d = sectors (zero_disk 512) 5 2 \<and> s' = zero_disk 512"
proof -
  have run: "disk_read ram_env [Some (DevBd 0)] 0 5 2 (zero_disk 512)
      = (RES_OK, sectors (zero_disk 512) 5 2, zero_disk 512)"
    by (simp add: disk_read_def mounted_dev_at ram_env_def ram_ops_def)
  have "mounted_dev [Some (DevBd 0)] 0 = Some (DevBd 0)" by (simp add: mounted_dev_at)
  moreover have "de_ops ram_env (DevBd 0) = ram_ops 512 1000" by (simp add: ram_env_def)
  moreover have "\<forall>r d s'. bd_read (ram_ops 512 1000) (zero_disk 512) 5 (ucast (2 :: u32)) = (r, d, s') \<longrightarrow>
      - (2 ^ 31) \<le> r \<and> r \<le> int (unat (ucast (2 :: u32) :: u16))" by (simp add: ram_ops_def)
  ultimately have "unat (2 :: u32) < 65536 \<and> sectors (zero_disk 512) 5 2 = sectors (id (zero_disk 512)) (unat (5 :: u64)) (unat (2 :: u32))
      \<and> ram_inv 512 (zero_disk 512) \<and> id (zero_disk 512) = id (zero_disk 512)"
    by (intro disk_read_sound [OF ram512.block_store_axioms [of 1000] _ _ _ run]) simp_all
  then show ?thesis using run by simp
qed

end
