(* ===== verification/Fs_Mount.thy ===== *)
theory Fs_Mount
  imports Diskio "HOL-Library.Monad_Syntax" "HOL-Library.Sublist"
begin

text \<open>
  The mount side of \<open>__bdm_assault/src/bdmfs/bdmfs_fs_driver.c\<close>: the table of mounted devices, the
  selection of the POPStarter volume for \<open>mass0\<close>, the target file name, the driver lock, and
  \<open>InitFS\<close>. FatFs, the kernel calls and the device drivers are the parameter \<open>'w fs_env\<close> (functions
  on a world \<open>'w\<close>). A result \<open>None\<close> means that the call does not return (the driver lock is taken, or
  the wait for the target file never ends) or leaves a table or buffer. Shown: the life cycle of
  \<open>mass0\<close> as an invariant of every sequence of calls, the exact effect of \<open>connect_bd\<close>, when its wait
  ends, and that building the target path stays inside its buffer.
\<close>

section \<open>State and environment\<close>

abbreviation (input) FR_OK_code :: int where "FR_OK_code \<equiv> 0"
abbreviation (input) AM_RDO :: u8 where "AM_RDO \<equiv> 0x01"
abbreviation (input) AM_DIR :: u8 where "AM_DIR \<equiv> 0x10"
abbreviation (input) FF_MAX_LFN :: nat where "FF_MAX_LFN \<equiv> 255"

record filinfo =
  fi_fsize :: u64
  fi_fdate :: u16
  fi_ftime :: u16
  fi_fattrib :: u8
  fi_fname :: string

text \<open>FatFs reaches the devices through the table of mounted devices, so its functions get it.\<close>

record 'w fs_env =
  f_mount :: "bdref option list \<Rightarrow> nat \<Rightarrow> 'w \<Rightarrow> int \<times> 'w"
  f_unmount :: "nat \<Rightarrow> 'w \<Rightarrow> 'w"
  f_stat :: "bdref option list \<Rightarrow> string \<Rightarrow> 'w \<Rightarrow> int \<times> filinfo \<times> 'w"
  memset_fatfs :: "nat \<Rightarrow> 'w \<Rightarrow> 'w"
  bd_desc :: "bdref \<Rightarrow> block_device"
  stop_dev :: "bdref \<Rightarrow> 'w \<Rightarrow> 'w"
  DelayThread :: "'w \<Rightarrow> 'w"
  CreateSema :: "'w \<Rightarrow> int \<times> 'w"
  DeleteSema :: "int \<Rightarrow> 'w \<Rightarrow> 'w"
  DelDrv :: "'w \<Rightarrow> 'w"
  AddDrv :: "'w \<Rightarrow> int \<times> 'w"

datatype popstarter_mount_state = POPSTARTER_UNSELECTED | POPSTARTER_VOLUME_LOCKED | POPSTARTER_VCD_READY

text \<open>The statics of the file. \<open>lock_free\<close> is the count of the lock's semaphore; the path buffer holds
  its 271 characters.\<close>

record 'w fs_driver =
  lock_id :: int
  lock_free :: bool
  mounted_bds :: "bdref option list"
  mount_state :: popstarter_mount_state
  vcd_path :: string
  probe_configured :: bool
  world :: 'w

abbreviation (input) POPSTARTER_VCD_PATH_MAX :: nat where "POPSTARTER_VCD_PATH_MAX \<equiv> FF_MAX_LFN + 16"
abbreviation (input) VCD_PREFIX :: string where "VCD_PREFIX \<equiv> ''0:/POPS/''"
abbreviation (input) VCD_SUFFIX :: string where "VCD_SUFFIX \<equiv> ''.VCD''"
abbreviation (input) ARG_SUFFIX :: string where "ARG_SUFFIX \<equiv> ''.ELF''"
abbreviation (input) POPSTARTER_DIR_PATH :: string where "POPSTARTER_DIR_PATH \<equiv> ''0:/POPS''"
abbreviation (input) POPSTARTER_PAK_PATH :: string where "POPSTARTER_PAK_PATH \<equiv> ''0:/POPS/POPS_IOX.PAK''"

section \<open>C strings in buffers\<close>

abbreviation (input) NUL :: char where "NUL \<equiv> CHR 0x00"

definition cstr :: "string \<Rightarrow> string" where
  "cstr buf = takeWhile (\<lambda>c. c \<noteq> NUL) buf"

text \<open>\<open>memcpy(buf + off, src, length src)\<close>, \<open>None\<close> past the end of the buffer.\<close>

definition buf_write :: "string \<Rightarrow> nat \<Rightarrow> string \<Rightarrow> string option" where
  "buf_write buf off src =
     (if off + length src \<le> length buf then Some (take off buf @ src @ drop (off + length src) buf) else None)"

section \<open>The lock\<close>

definition fs_lock :: "'w fs_driver \<Rightarrow> 'w fs_driver option" where
  "fs_lock d = (if lock_id d < 0 then Some d else if lock_free d then Some (d\<lparr>lock_free := False\<rparr>) else None)"

definition fs_unlock :: "'w fs_driver \<Rightarrow> 'w fs_driver" where
  "fs_unlock d = (if lock_id d < 0 then d else d\<lparr>lock_free := True\<rparr>)"

definition fs_init_lock :: "'w fs_env \<Rightarrow> 'w fs_driver \<Rightarrow> int \<times> 'w fs_driver" where
  "fs_init_lock env d =
     (let (i, w) = CreateSema env (world d); d1 = d\<lparr>lock_id := i, lock_free := True, world := w\<rparr>
      in if i < 0 then (- 1, d1) else (0, d1))"

definition fs_reset :: "'w fs_env \<Rightarrow> 'w fs_driver \<Rightarrow> 'w fs_driver" where
  "fs_reset env d =
     (let d1 = (if lock_id d \<ge> 0 then d\<lparr>world := DeleteSema env (lock_id d) (world d)\<rparr> else d)
      in snd (fs_init_lock env d1))"

section \<open>The target file\<close>

definition popstarter_vcd_suffix_matches :: "string \<Rightarrow> bool" where
  "popstarter_vcd_suffix_matches sfx \<longleftrightarrow> sfx ! 0 = CHR ''.''
     \<and> (sfx ! 1 = CHR ''V'' \<or> sfx ! 1 = CHR ''v'')
     \<and> (sfx ! 2 = CHR ''C'' \<or> sfx ! 2 = CHR ''c'')
     \<and> (sfx ! 3 = CHR ''D'' \<or> sfx ! 3 = CHR ''d'')"

text \<open>\<open>path\<close> is the argument string, \<open>None\<close> for a null pointer.\<close>

definition bdm_set_popstarter_vcd_path :: "string option \<Rightarrow> 'w fs_driver \<Rightarrow> (int \<times> 'w fs_driver) option" where
  "bdm_set_popstarter_vcd_path path d =
     (if lock_id d \<ge> 0 then Some (- 1, d)
      else let d1 = d\<lparr>vcd_path := (vcd_path d)[0 := NUL]\<rparr>
           in case path of
                None \<Rightarrow> Some (0, d1\<lparr>probe_configured := True\<rparr>)
              | Some p \<Rightarrow>
                  if length p \<le> length VCD_PREFIX + length VCD_SUFFIX \<or> length p \<ge> POPSTARTER_VCD_PATH_MAX
                  then Some (- 1, d1)
                  else if take (length VCD_PREFIX) p \<noteq> VCD_PREFIX then Some (- 1, d1)
                  else if \<not> popstarter_vcd_suffix_matches (drop (length p - length VCD_SUFFIX) p) then Some (- 1, d1)
                  else do {
                    buf \<leftarrow> buf_write (vcd_path d1) 0 (p @ [NUL]);
                    Some (0, d1\<lparr>vcd_path := buf, probe_configured := True\<rparr>)
                  })"

text \<open>The length of the optional launch prefix of an argument.\<close>

definition arg_prefix_length :: "string \<Rightarrow> nat" where
  "arg_prefix_length arg =
     (if length arg \<ge> 3 \<and> take 3 arg = ''XX.'' then 3
      else if length arg \<ge> 3 \<and> take 3 arg = ''SB.'' then 3 else 0)"

definition store_vcd_path :: "string \<Rightarrow> string \<Rightarrow> string option" where
  "store_vcd_path buf name = do {
     b1 \<leftarrow> buf_write buf 0 VCD_PREFIX;
     b2 \<leftarrow> buf_write b1 (length VCD_PREFIX) name;
     buf_write b2 (length VCD_PREFIX + length name) (VCD_SUFFIX @ [NUL])
   }"

text \<open>The loop over the arguments (\<open>None\<close> elements are null pointers).\<close>

fun scan_args :: "string option list \<Rightarrow> 'w fs_driver \<Rightarrow> (int \<times> 'w fs_driver) option" where
  "scan_args [] d = Some (- 1, d)"
| "scan_args (None # args) d = scan_args args d"
| "scan_args (Some arg # args) d =
     (let arg_length = length arg; suffix_length = length ARG_SUFFIX; plen = arg_prefix_length arg;
          name_length = arg_length - plen - suffix_length
      in if arg_length \<le> suffix_length then scan_args args d
         else if drop (arg_length - suffix_length) arg \<noteq> ARG_SUFFIX then scan_args args d
         else if arg_length \<le> plen + suffix_length then scan_args args d
         else if name_length + length VCD_SUFFIX > FF_MAX_LFN then scan_args args d
         else do {
           buf \<leftarrow> store_vcd_path (vcd_path d) (take name_length (drop plen arg));
           Some (0, d\<lparr>vcd_path := buf\<rparr>)
         })"

definition bdm_set_popstarter_vcd :: "string option list option \<Rightarrow> 'w fs_driver \<Rightarrow> (int \<times> 'w fs_driver) option" where
  "bdm_set_popstarter_vcd argv d = do {
     d1 \<leftarrow> fs_lock d;
     if probe_configured d1 then Some (0, fs_unlock d1)
     else case argv of
            None \<Rightarrow> Some (- 1, fs_unlock d1)
          | Some args \<Rightarrow>
              if args = [] then Some (- 1, fs_unlock d1)
              else do {
                (r, d2) \<leftarrow> scan_args args (d1\<lparr>vcd_path := (vcd_path d1)[0 := NUL]\<rparr>);
                Some (r, fs_unlock d2)
              }
   }"

section \<open>Mounting\<close>

definition fatfs_fs_driver_initialize_all_mount_info :: "'w fs_env \<Rightarrow> 'w fs_driver \<Rightarrow> 'w fs_driver" where
  "fatfs_fs_driver_initialize_all_mount_info env d =
     d\<lparr>world := fold (memset_fatfs env) [0..<FF_VOLUMES] (world d),
       mounted_bds := replicate FF_VOLUMES None, mount_state := POPSTARTER_UNSELECTED\<rparr>"

definition fatfs_fs_driver_find_mount_info_index_from_block_device :: "bdref \<Rightarrow> 'w fs_driver \<Rightarrow> nat option" where
  "fatfs_fs_driver_find_mount_info_index_from_block_device bd d = first_index (\<lambda>b. b = Some bd) (mounted_bds d)"

definition fatfs_fs_driver_has_popstarter_directory :: "'w fs_env \<Rightarrow> 'w fs_driver \<Rightarrow> bool \<times> 'w fs_driver" where
  "fatfs_fs_driver_has_popstarter_directory env d =
     (let (r, info, w) = f_stat env (mounted_bds d) POPSTARTER_DIR_PATH (world d)
      in (r = FR_OK_code \<and> fi_fattrib info AND AM_DIR \<noteq> 0, d\<lparr>world := w\<rparr>))"

definition fatfs_fs_driver_check_popstarter_file :: "'w fs_env \<Rightarrow> 'w fs_driver \<Rightarrow> bool \<times> 'w fs_driver" where
  "fatfs_fs_driver_check_popstarter_file env d =
     (let path = (if vcd_path d ! 0 \<noteq> NUL then cstr (vcd_path d) else POPSTARTER_PAK_PATH);
          (r, info, w) = f_stat env (mounted_bds d) path (world d)
      in (r = FR_OK_code \<and> fi_fattrib info AND AM_DIR = 0, d\<lparr>world := w\<rparr>))"

partial_function (option) fatfs_fs_driver_wait_popstarter_file :: "'w fs_env \<Rightarrow> 'w fs_driver \<Rightarrow> 'w fs_driver option" where
  "fatfs_fs_driver_wait_popstarter_file env d =
     (let (ready, d1) = fatfs_fs_driver_check_popstarter_file env d
      in if ready then Some d1
         else fatfs_fs_driver_wait_popstarter_file env (d1\<lparr>world := DelayThread env (world d1)\<rparr>))"

definition bdm_is_fatfs_ready :: "'w fs_env \<Rightarrow> string option \<Rightarrow> 'w fs_driver \<Rightarrow> (bool \<times> 'w fs_driver) option" where
  "bdm_is_fatfs_ready env device_name d =
     (case device_name of
        None \<Rightarrow> Some (False, d)
      | Some n \<Rightarrow> do {
          d1 \<leftarrow> fs_lock d;
          Some ((case mounted_bds d1 ! 0 of
                   None \<Rightarrow> False
                 | Some b \<Rightarrow> bd_name (bd_desc env b) = Some n \<and> mount_state d1 = POPSTARTER_VCD_READY), fs_unlock d1)
        })"

definition bdm_is_usb_fatfs_ready :: "'w fs_env \<Rightarrow> 'w fs_driver \<Rightarrow> (bool \<times> 'w fs_driver) option" where
  "bdm_is_usb_fatfs_ready env d = bdm_is_fatfs_ready env (Some ''usb'') d"

definition fatfs_fs_driver_mount_bd :: "'w fs_env \<Rightarrow> nat \<Rightarrow> bdref \<Rightarrow> 'w fs_driver \<Rightarrow> int \<times> 'w fs_driver" where
  "fatfs_fs_driver_mount_bd env i bd d =
     (let d1 = (if i = 0 then d\<lparr>mount_state := POPSTARTER_UNSELECTED\<rparr> else d);
          d2 = d1\<lparr>mounted_bds := (mounted_bds d1)[i := Some bd]\<rparr>;
          (ret, w) = f_mount env (mounted_bds d2) i (world d2);
          d3 = d2\<lparr>world := w\<rparr>
      in (ret, if ret \<noteq> FR_OK_code then d3\<lparr>mounted_bds := (mounted_bds d3)[i := None]\<rparr> else d3))"

definition fatfs_fs_driver_unmount_bd :: "'w fs_env \<Rightarrow> nat \<Rightarrow> 'w fs_driver \<Rightarrow> 'w fs_driver" where
  "fatfs_fs_driver_unmount_bd env i d =
     (let d1 = d\<lparr>world := f_unmount env i (world d), mounted_bds := (mounted_bds d)[i := None]\<rparr>
      in if i = 0 then d1\<lparr>mount_state := POPSTARTER_UNSELECTED\<rparr> else d1)"

definition fatfs_fs_driver_stop_single_bd :: "'w fs_env \<Rightarrow> int \<Rightarrow> 'w fs_driver \<Rightarrow> 'w fs_driver option" where
  "fatfs_fs_driver_stop_single_bd env i d = do {
     m \<leftarrow> fatfs_fs_driver_get_mounted_bd_from_index (mounted_bds d) i;
     Some (case m of
             None \<Rightarrow> d
           | Some b \<Rightarrow> let d1 = fatfs_fs_driver_unmount_bd env (nat i) d in d1\<lparr>world := stop_dev env b (world d1)\<rparr>)
   }"

definition fatfs_fs_driver_stop_all_bd :: "'w fs_env \<Rightarrow> 'w fs_driver \<Rightarrow> 'w fs_driver option" where
  "fatfs_fs_driver_stop_all_bd env d =
     for_each (\<lambda>i. fatfs_fs_driver_stop_single_bd env (int i)) [0..<FF_VOLUMES] d"

definition connect_bd :: "'w fs_env \<Rightarrow> bdref \<Rightarrow> 'w fs_driver \<Rightarrow> (int \<times> 'w fs_driver) option" where
  "connect_bd env bd d =
     (if bd_name (bd_desc env bd) = Some ''ata'' \<and> parNr (bd_desc env bd) = 0 then Some (- 1, d)
      else do {
        d1 \<leftarrow> fs_lock d;
        m \<leftarrow> fatfs_fs_driver_get_mounted_bd_from_index (mounted_bds d1) 0;
        if m = None
        then let (ret, d2) = fatfs_fs_driver_mount_bd env 0 bd d1
             in if ret = FR_OK_code
                then let (dir, d3) = fatfs_fs_driver_has_popstarter_directory env d2
                     in if dir
                        then do {
                          d4 \<leftarrow> fatfs_fs_driver_wait_popstarter_file env (d3\<lparr>mount_state := POPSTARTER_VOLUME_LOCKED\<rparr>);
                          Some (0, fs_unlock (d4\<lparr>mount_state := POPSTARTER_VCD_READY\<rparr>))
                        }
                        else Some (- 1, fs_unlock (fatfs_fs_driver_unmount_bd env 0 d3))
                else Some (- 1, fs_unlock d2)
        else Some (- 1, fs_unlock d1)
      })"

definition disconnect_bd :: "'w fs_env \<Rightarrow> bdref \<Rightarrow> 'w fs_driver \<Rightarrow> 'w fs_driver option" where
  "disconnect_bd env bd d = do {
     d1 \<leftarrow> fs_lock d;
     Some (fs_unlock (case fatfs_fs_driver_find_mount_info_index_from_block_device bd d1 of
             None \<Rightarrow> d1
           | Some i \<Rightarrow> fatfs_fs_driver_unmount_bd env i d1))
   }"

definition InitFS :: "'w fs_env \<Rightarrow> 'w fs_driver \<Rightarrow> int \<times> 'w fs_driver" where
  "InitFS env d =
     (let d1 = fatfs_fs_driver_initialize_all_mount_info env (fs_reset env d);
          (r, w) = AddDrv env (DelDrv env (world d1))
      in (if r = 0 then 0 else - 1, d1\<lparr>world := w\<rparr>))"

text \<open>\<open>fs_devctl\<close>, as written: the two stop commands run each other's function.\<close>

datatype devctl_cmd = USBMASS_DEVCTL_STOP_UNIT | USBMASS_DEVCTL_STOP_ALL | DEVCTL_OTHER

definition fs_devctl :: "'w fs_env \<Rightarrow> int \<Rightarrow> devctl_cmd \<Rightarrow> 'w fs_driver \<Rightarrow> (int \<times> 'w fs_driver) option" where
  "fs_devctl env unit cmd d = do {
     d1 \<leftarrow> fs_lock d;
     case cmd of
       USBMASS_DEVCTL_STOP_UNIT \<Rightarrow> do { d2 \<leftarrow> fatfs_fs_driver_stop_all_bd env d1; Some (FR_OK_code, fs_unlock d2) }
     | USBMASS_DEVCTL_STOP_ALL \<Rightarrow> do { d2 \<leftarrow> fatfs_fs_driver_stop_single_bd env unit d1; Some (FR_OK_code, fs_unlock d2) }
     | DEVCTL_OTHER \<Rightarrow> Some (- ENXIO, fs_unlock d1)
   }"

section \<open>The path buffer\<close>

lemma buf_write_ok: "off + length src \<le> length buf \<Longrightarrow>
    buf_write buf off src = Some (take off buf @ src @ drop (off + length src) buf)"
  by (simp add: buf_write_def)

lemma cstr_stored: "NUL \<notin> set p \<Longrightarrow> cstr (p @ NUL # rest) = p"
  unfolding cstr_def by (subst takeWhile_append2) auto

lemma string_lengths: "length ARG_SUFFIX = 4" "length VCD_SUFFIX = 4" "length VCD_PREFIX = 8"
  by simp_all

lemma store_vcd_path_ok:
  assumes "length buf = POPSTARTER_VCD_PATH_MAX" "length name + length VCD_SUFFIX \<le> FF_MAX_LFN"
  shows "store_vcd_path buf name = Some (VCD_PREFIX @ name @ VCD_SUFFIX @ NUL # drop (13 + length name) buf)"
  using assms by (simp add: store_vcd_path_def buf_write_def)

text \<open>The game name in a launcher argument, in terms of prefixes and suffixes of strings.\<close>

definition arg_name :: "string \<Rightarrow> string option" where
  "arg_name arg =
     (if suffix ARG_SUFFIX arg
      then let base = take (length arg - 4) arg;
               name = (if prefix ''XX.'' arg \<or> prefix ''SB.'' arg then drop 3 base else base)
           in if name \<noteq> [] \<and> length name + 4 \<le> FF_MAX_LFN then Some name else None
      else None)"

fun first_name :: "string option list \<Rightarrow> string option" where
  "first_name [] = None"
| "first_name (None # args) = first_name args"
| "first_name (Some arg # args) = (case arg_name arg of Some n \<Rightarrow> Some n | None \<Rightarrow> first_name args)"

lemma prefix_take: "length p \<le> length xs \<Longrightarrow> prefix p xs \<longleftrightarrow> take (length p) xs = p"
  by (metis append_eq_conv_conj append_take_drop_id prefixE prefixI)

lemma prefix3: "length p = 3 \<Longrightarrow> prefix p arg \<longleftrightarrow> 3 \<le> length arg \<and> take 3 arg = p"
  using prefix_take [of p arg] prefix_length_le [of p arg] by auto

lemma suffix4: "length p = 4 \<Longrightarrow> suffix p arg \<longleftrightarrow> 4 \<le> length arg \<and> drop (length arg - 4) arg = p"
proof -
  assume p: "length p = 4"
  have "suffix p arg" if "drop (length arg - 4) arg = p" using that suffix_drop [of "length arg - 4" arg] by simp
  moreover have "4 \<le> length arg \<and> drop (length arg - 4) arg = p" if "suffix p arg"
    using that p by (auto simp: suffix_def)
  ultimately show ?thesis by blast
qed

lemma prefix_length_cases: "arg_prefix_length arg = (if prefix ''XX.'' arg \<or> prefix ''SB.'' arg then 3 else 0)"
  by (simp add: arg_prefix_length_def prefix3)

lemma scan_arg_cases:
  "scan_args (Some arg # args) d = (case arg_name arg of
     None \<Rightarrow> scan_args args d
   | Some n \<Rightarrow> Option.bind (store_vcd_path (vcd_path d) n) (\<lambda>buf. Some (0, d\<lparr>vcd_path := buf\<rparr>)))"
proof -
  let ?p = "arg_prefix_length arg" and ?n = "length arg"
  define name where "name = drop ?p (take (?n - 4) arg)"
  have nm: "take (?n - ?p - 4) (drop ?p arg) = name" by (simp add: name_def drop_take add.commute)
  have len: "length name = ?n - ?p - 4" by (simp add: name_def)
  have "arg_name arg = (if 4 \<le> ?n \<and> drop (?n - 4) arg = ARG_SUFFIX \<and> ?p + 4 < ?n \<and> length name + 4 \<le> FF_MAX_LFN
      then Some name else None)"
    using len by (auto simp: arg_name_def suffix4 Let_def name_def prefix_length_cases)
  then show ?thesis unfolding scan_args.simps Let_def string_lengths nm using len by auto
qed

lemma scan_args_first:
  assumes "length (vcd_path d) = POPSTARTER_VCD_PATH_MAX"
  shows "scan_args args d = (case first_name args of
     None \<Rightarrow> Some (- 1, d)
   | Some n \<Rightarrow> Some (0, d\<lparr>vcd_path := VCD_PREFIX @ n @ VCD_SUFFIX @ NUL # drop (13 + length n) (vcd_path d)\<rparr>))"
proof (induction args)
  case (Cons a args)
  show ?case
  proof (cases a)
    case (Some arg)
    have "length n + 4 \<le> FF_MAX_LFN" if "arg_name arg = Some n" for n
      using that by (auto simp: arg_name_def Let_def split: if_splits)
    then show ?thesis unfolding Some scan_arg_cases using Cons.IH store_vcd_path_ok [OF assms]
      by (auto split: option.splits)
  qed (simp add: Cons.IH)
qed simp

section \<open>The life cycle of mass0\<close>

text \<open>Between two calls: the lock is free, only volume 0 is ever mounted, and the state is ready exactly
  when it is.\<close>

definition mount_inv :: "'w fs_driver \<Rightarrow> bool" where
  "mount_inv d \<longleftrightarrow> length (mounted_bds d) = FF_VOLUMES \<and> length (vcd_path d) = POPSTARTER_VCD_PATH_MAX
     \<and> (\<forall>i. 0 < i \<and> i < FF_VOLUMES \<longrightarrow> mounted_bds d ! i = None) \<and> (lock_id d \<ge> 0 \<longrightarrow> lock_free d)
     \<and> mount_state d = (if mounted_bds d ! 0 = None then POPSTARTER_UNSELECTED else POPSTARTER_VCD_READY)"

text \<open>The driver after \<open>n\<close> unsuccessful polls of the target file, and the outcome of the next poll.\<close>

fun polls :: "'w fs_env \<Rightarrow> nat \<Rightarrow> 'w fs_driver \<Rightarrow> 'w fs_driver" where
  "polls env 0 d = d"
| "polls env (Suc n) d =
     (let d1 = snd (fatfs_fs_driver_check_popstarter_file env d) in polls env n (d1\<lparr>world := DelayThread env (world d1)\<rparr>))"

definition target_at :: "'w fs_env \<Rightarrow> 'w fs_driver \<Rightarrow> nat \<Rightarrow> bool" where
  "target_at env d n = fst (fatfs_fs_driver_check_popstarter_file env (polls env n d))"

lemma check_world: "\<exists>w. snd (fatfs_fs_driver_check_popstarter_file env d) = d\<lparr>world := w\<rparr>"
  by (auto simp: fatfs_fs_driver_check_popstarter_file_def Let_def split: prod.split)

lemma wait_step:
  "fatfs_fs_driver_wait_popstarter_file env d =
     (if target_at env d 0 then Some (snd (fatfs_fs_driver_check_popstarter_file env d))
      else fatfs_fs_driver_wait_popstarter_file env (polls env 1 d))"
  by (subst fatfs_fs_driver_wait_popstarter_file.simps) (simp add: target_at_def split: prod.split)

lemma target_at_shift: "target_at env (polls env 1 d) n = target_at env d (Suc n)"
  by (simp add: target_at_def Let_def)

lemma wait_when_ready:
  "target_at env d n \<Longrightarrow> \<exists>w. fatfs_fs_driver_wait_popstarter_file env d = Some (d\<lparr>world := w\<rparr>)"
proof (induction n arbitrary: d)
  case 0
  then show ?case using check_world [of env d] by (subst wait_step) auto
next
  case (Suc n)
  show ?case
  proof (cases "target_at env d 0")
    case False
    obtain w where w: "polls env 1 d = d\<lparr>world := w\<rparr>" using check_world [of env d] by (auto simp: Let_def)
    obtain w' where "fatfs_fs_driver_wait_popstarter_file env (polls env 1 d) = Some ((polls env 1 d)\<lparr>world := w'\<rparr>)"
      using Suc target_at_shift by blast
    then show ?thesis using False w by (subst wait_step) auto
  qed (use check_world [of env d] in \<open>subst wait_step, auto\<close>)
qed

lemma wait_returns:
  assumes "fatfs_fs_driver_wait_popstarter_file env d = Some d'"
  shows "\<exists>n. target_at env d n"
proof (rule fatfs_fs_driver_wait_popstarter_file.raw_induct [where P = "\<lambda>env d r. \<exists>n. target_at env d n", OF _ assms])
  fix f env and d :: "'a fs_driver" and r
  assume IH: "\<And>env d r. f env d = Some r \<Longrightarrow> \<exists>n. target_at env d n"
    and run: "(let (ready, d1) = fatfs_fs_driver_check_popstarter_file env d
      in if ready then Some d1 else f env (d1\<lparr>world := DelayThread env (world d1)\<rparr>)) = Some r"
  show "\<exists>n. target_at env d n"
  proof (cases "target_at env d 0")
    case False
    then have "f env (polls env 1 d) = Some r"
      using run by (simp add: target_at_def split: prod.splits)
    then show ?thesis using IH target_at_shift by blast
  qed blast
qed

text \<open>\<open>connect_bd\<close> on a driver between two calls, branch by branch.\<close>

lemma lock_unlock:
  assumes "mount_inv d"
  shows "fs_lock d = Some (d\<lparr>lock_free := lock_free d \<and> lock_id d < 0\<rparr>)"
    "fs_unlock (d\<lparr>lock_free := lock_free d \<and> lock_id d < 0\<rparr>) = d"
  using assms by (auto simp: fs_lock_def fs_unlock_def mount_inv_def)

lemma mounted_at_0: "mount_inv d \<Longrightarrow> fatfs_fs_driver_get_mounted_bd_from_index (mounted_bds d) 0 = Some (mounted_bds d ! 0)"
  by (simp add: fatfs_fs_driver_get_mounted_bd_from_index_def)

definition locked :: "'w fs_driver \<Rightarrow> 'w fs_driver" where
  "locked d = d\<lparr>lock_free := lock_free d \<and> lock_id d < 0\<rparr>"

text \<open>The driver while it waits for the target file on the candidate \<open>bd\<close>.\<close>

definition waiting :: "bdref \<Rightarrow> 'w \<Rightarrow> 'w fs_driver \<Rightarrow> 'w fs_driver" where
  "waiting bd w d = (locked d)\<lparr>mounted_bds := (mounted_bds d)[0 := Some bd], mount_state := POPSTARTER_VOLUME_LOCKED, world := w\<rparr>"

definition whole_ata :: "'w fs_env \<Rightarrow> bdref \<Rightarrow> bool" where
  "whole_ata env bd \<longleftrightarrow> bd_name (bd_desc env bd) = Some ''ata'' \<and> parNr (bd_desc env bd) = 0"

lemma mounted_free: "mount_inv d \<Longrightarrow> mounted_bds d ! 0 = None \<Longrightarrow> (mounted_bds d)[0 := None] = mounted_bds d"
  by (metis list_update_id)

lemma connect_spec:
  assumes iv: "mount_inv d" and n: "\<not> whole_ata env bd" "mounted_bds d ! 0 = None"
    and m: "f_mount env ((mounted_bds d)[0 := Some bd]) 0 (world d) = (ret, w1)"
    and st: "f_stat env ((mounted_bds d)[0 := Some bd]) POPSTARTER_DIR_PATH w1 = (r, info, w2)"
  shows "connect_bd env bd d =
     (if ret \<noteq> 0 then Some (- 1, d\<lparr>world := w1\<rparr>)
      else if r = 0 \<and> fi_fattrib info AND AM_DIR \<noteq> 0
      then Option.bind (fatfs_fs_driver_wait_popstarter_file env (waiting bd w2 d))
             (\<lambda>d4. Some (0, fs_unlock (d4\<lparr>mount_state := POPSTARTER_VCD_READY\<rparr>)))
      else Some (- 1, d\<lparr>world := f_unmount env 0 w2\<rparr>))"
proof -
  have d1: "fs_lock d = Some (locked d)" using lock_unlock [OF iv] by (simp add: locked_def)
  have fld: "mounted_bds (locked d) = mounted_bds d" "world (locked d) = world d" "mount_state d = POPSTARTER_UNSELECTED"
    using iv n(2) by (simp_all add: locked_def mount_inv_def)
  have un: "fs_unlock ((locked d)\<lparr>mount_state := POPSTARTER_UNSELECTED, mounted_bds := mounted_bds d, world := w\<rparr>) = d\<lparr>world := w\<rparr>" for w
    using iv fld(3) by (auto simp: locked_def fs_unlock_def mount_inv_def)
  have z: "\<not> (bd_name (bd_desc env bd) = Some ''ata'' \<and> parNr (bd_desc env bd) = 0)" using n(1) by (simp add: whole_ata_def)
  let ?d2 = "(locked d)\<lparr>mount_state := POPSTARTER_UNSELECTED, mounted_bds := (mounted_bds d)[0 := Some bd], world := w1\<rparr>"
  have mb: "fatfs_fs_driver_mount_bd env 0 bd (locked d) =
      (ret, if ret \<noteq> 0 then (locked d)\<lparr>mount_state := POPSTARTER_UNSELECTED, mounted_bds := mounted_bds d, world := w1\<rparr> else ?d2)"
    using m fld mounted_free [OF iv n(2)] by (simp add: fatfs_fs_driver_mount_bd_def)
  have dir: "fatfs_fs_driver_has_popstarter_directory env ?d2 = (r = 0 \<and> fi_fattrib info AND AM_DIR \<noteq> 0, ?d2\<lparr>world := w2\<rparr>)"
    using st by (simp add: fatfs_fs_driver_has_popstarter_directory_def)
  have um: "fatfs_fs_driver_unmount_bd env 0 (?d2\<lparr>world := w2\<rparr>)
      = (locked d)\<lparr>mount_state := POPSTARTER_UNSELECTED, mounted_bds := mounted_bds d, world := f_unmount env 0 w2\<rparr>"
    using mounted_free [OF iv n(2)] by (simp add: fatfs_fs_driver_unmount_bd_def)
  have wt: "?d2\<lparr>world := w2, mount_state := POPSTARTER_VOLUME_LOCKED\<rparr> = waiting bd w2 d" by (simp add: waiting_def)
  show ?thesis unfolding connect_bd_def if_not_P [OF z] d1
    using mounted_at_0 [OF iv] fld(1) n(2) mb dir um un wt
    by (simp add: Option.bind_def cong: if_cong)
qed

lemma waiting_returns:
  assumes "mount_inv d"
  shows "Option.bind (fatfs_fs_driver_wait_popstarter_file env (waiting bd w d))
      (\<lambda>d4. Some (0 :: int, fs_unlock (d4\<lparr>mount_state := POPSTARTER_VCD_READY\<rparr>))) =
     (if \<exists>n. target_at env (waiting bd w d) n
      then map_option (\<lambda>d4. (0, d\<lparr>mounted_bds := (mounted_bds d)[0 := Some bd], mount_state := POPSTARTER_VCD_READY, world := world d4\<rparr>))
             (fatfs_fs_driver_wait_popstarter_file env (waiting bd w d))
      else None)"
proof (cases "\<exists>n. target_at env (waiting bd w d) n")
  case True
  then obtain w' where w': "fatfs_fs_driver_wait_popstarter_file env (waiting bd w d) = Some ((waiting bd w d)\<lparr>world := w'\<rparr>)"
    using wait_when_ready by blast
  then show ?thesis using True assms by (auto simp: waiting_def locked_def fs_unlock_def mount_inv_def)
next
  case False
  then have "fatfs_fs_driver_wait_popstarter_file env (waiting bd w d) = None"
    using wait_returns by (metis option.exhaust)
  then show ?thesis using False by simp
qed

text \<open>What every call keeps.\<close>

lemma unmount_inv: "mount_inv d \<Longrightarrow> i < FF_VOLUMES \<Longrightarrow> mount_inv (fatfs_fs_driver_unmount_bd env i d)"
  by (cases "i = 0") (auto simp: mount_inv_def fatfs_fs_driver_unmount_bd_def nth_list_update)

lemma mount_inv_world: "mount_inv (d\<lparr>world := w\<rparr>) = mount_inv d"
  by (simp add: mount_inv_def)

text \<open>The operations that run under the lock do so on a driver whose lock is taken.\<close>

lemma locked_fields [simp]:
  "mounted_bds (locked d) = mounted_bds d" "mount_state (locked d) = mount_state d" "vcd_path (locked d) = vcd_path d"
  "probe_configured (locked d) = probe_configured d" "world (locked d) = world d" "lock_id (locked d) = lock_id d"
  by (simp_all add: locked_def)

lemma with_lock:
  assumes "mount_inv d"
  shows "fs_lock d = Some (locked d)" "fs_unlock (locked d) = d"
    "fatfs_fs_driver_unmount_bd env i (locked d) = locked (fatfs_fs_driver_unmount_bd env i d)"
  using lock_unlock [OF assms] by (simp_all add: locked_def fatfs_fs_driver_unmount_bd_def Let_def)

lemma locked_world: "(locked d)\<lparr>world := w\<rparr> = locked (d\<lparr>world := w\<rparr>)"
  by (simp add: locked_def)

lemma stop_single_locked:
  assumes "mount_inv d" "0 \<le> i" "i < int FF_VOLUMES"
  shows "\<exists>d'. fatfs_fs_driver_stop_single_bd env i (locked d) = Some (locked d') \<and> mount_inv d'
    \<and> mounted_bds d' = (mounted_bds d)[nat i := None]"
proof -
  have get: "fatfs_fs_driver_get_mounted_bd_from_index (mounted_bds d) i = Some (mounted_bds d ! nat i)"
    using assms by (simp add: fatfs_fs_driver_get_mounted_bd_from_index_def)
  have ni: "nat i < FF_VOLUMES" "nat i < length (mounted_bds d)" using assms by (auto simp: mount_inv_def)
  show ?thesis
  proof (cases "mounted_bds d ! nat i")
    case None
    then have "(mounted_bds d)[nat i := None] = mounted_bds d" by (metis list_update_id)
    then show ?thesis using None get assms(1) by (auto simp: fatfs_fs_driver_stop_single_bd_def)
  next
    case (Some b)
    let ?d1 = "fatfs_fs_driver_unmount_bd env (nat i) d"
    have "fatfs_fs_driver_stop_single_bd env i (locked d) = Some (locked (?d1\<lparr>world := stop_dev env b (world ?d1)\<rparr>))"
      using Some get with_lock(3) [OF assms(1)] by (simp add: fatfs_fs_driver_stop_single_bd_def Let_def locked_world)
    moreover have "mounted_bds ?d1 = (mounted_bds d)[nat i := None]" by (simp add: fatfs_fs_driver_unmount_bd_def Let_def)
    ultimately show ?thesis using unmount_inv [OF assms(1) ni(1)] by (auto simp: mount_inv_world)
  qed
qed

lemma stop_all_locked:
  assumes "mount_inv d"
  shows "\<exists>d'. fatfs_fs_driver_stop_all_bd env (locked d) = Some (locked d') \<and> mount_inv d'
    \<and> (\<forall>i < FF_VOLUMES. mounted_bds d' ! i = None)"
proof -
  let ?I = "\<lambda>d'. \<exists>e. d' = locked e \<and> mount_inv e"
  let ?step = "\<lambda>i. fatfs_fs_driver_stop_single_bd env (int i)"
  have step: "\<exists>e'. ?step i (locked e) = Some (locked e') \<and> mount_inv e' \<and> mounted_bds e' = (mounted_bds e)[i := None]"
    if "mount_inv e" "i < FF_VOLUMES" for i e using stop_single_locked [OF that(1), of "int i" env] that(2) by simp
  obtain f where f: "for_each ?step [0..<FF_VOLUMES] (locked d) = Some f" "?I f"
    using for_each_returns [of "[0..<FF_VOLUMES]" ?I ?step "locked d"] step assms by fastforce
  let ?R = "\<lambda>a b. \<forall>i. mounted_bds a ! i = None \<longrightarrow> mounted_bds b ! i = None"
  have "\<forall>i \<in> set [0..<FF_VOLUMES]. mounted_bds f ! i = None"
  proof (rule for_each_all [OF f(1), where R = ?R and I = ?I])
    fix i a b assume i: "i \<in> set [0..<FF_VOLUMES]" and a: "?I a" and run: "?step i a = Some b"
    from a obtain e where e: "a = locked e" "mount_inv e" by blast
    from step [OF e(2)] i obtain e' where e': "b = locked e'" "mount_inv e'" "mounted_bds e' = (mounted_bds e)[i := None]"
      using run e(1) by fastforce
    have "i < length (mounted_bds e)" using e(2) i by (simp add: mount_inv_def)
    moreover have "mounted_bds b ! j = None" if "mounted_bds a ! j = None" for j
      using that e e' by (cases "j = i"; cases "i < length (mounted_bds e)") (simp_all add: nth_list_update list_update_beyond)
    ultimately show "?R a b \<and> ?I b \<and> mounted_bds b ! i = None" using e e' by auto
  qed (use assms in auto)
  then show ?thesis using f by (auto simp: fatfs_fs_driver_stop_all_bd_def)
qed

section \<open>Sequences of calls\<close>

text \<open>The calls that reach the mounted volumes, and what other modules do to the rest of the world.\<close>

inductive fs_step :: "'w fs_env \<Rightarrow> 'w fs_driver \<Rightarrow> 'w fs_driver \<Rightarrow> bool" for env where
  step_connect: "connect_bd env bd d = Some (r, d') \<Longrightarrow> fs_step env d d'"
| step_disconnect: "disconnect_bd env bd d = Some d' \<Longrightarrow> fs_step env d d'"
| step_devctl: "fs_devctl env unit cmd d = Some (r, d') \<Longrightarrow> 0 \<le> unit \<and> unit < int FF_VOLUMES \<Longrightarrow> fs_step env d d'"
| step_ready: "bdm_is_fatfs_ready env n d = Some (b, d') \<Longrightarrow> fs_step env d d'"
| step_args: "bdm_set_popstarter_vcd argv d = Some (r, d') \<Longrightarrow> fs_step env d d'"
| step_path: "bdm_set_popstarter_vcd_path path d = Some (r, d') \<Longrightarrow> fs_step env d d'"
| step_world: "fs_step env d (d\<lparr>world := w\<rparr>)"

lemma connect_inv:
  assumes "mount_inv d" "connect_bd env bd d = Some (r, d')"
  shows "mount_inv d' \<and> (r = 0 \<longrightarrow> mounted_bds d' ! 0 = Some bd) \<and> (r \<noteq> 0 \<longrightarrow> r = - 1 \<and> mounted_bds d' = mounted_bds d)"
proof (cases "whole_ata env bd \<or> mounted_bds d ! 0 \<noteq> None")
  case True
  then have "connect_bd env bd d = Some (- 1, d)"
    using mounted_at_0 [OF assms(1)] with_lock(1,2) [OF assms(1)]
    by (auto simp: connect_bd_def whole_ata_def)
  then show ?thesis using assms by simp
next
  case False
  obtain ret w1 where m: "f_mount env ((mounted_bds d)[0 := Some bd]) 0 (world d) = (ret, w1)" by (cases rule: prod.exhaust)
  obtain q info w2 where st: "f_stat env ((mounted_bds d)[0 := Some bd]) POPSTARTER_DIR_PATH w1 = (q, info, w2)"
    by (cases rule: prod_cases3)
  have len: "0 < length (mounted_bds d)" using assms(1) by (simp add: mount_inv_def)
  have up: "mount_inv (d\<lparr>mounted_bds := (mounted_bds d)[0 := Some bd], mount_state := POPSTARTER_VCD_READY, world := w\<rparr>)" for w
    using assms(1) len by (auto simp: mount_inv_def nth_list_update)
  have sp: "connect_bd env bd d =
     (if ret \<noteq> 0 then Some (- 1, d\<lparr>world := w1\<rparr>)
      else if q = 0 \<and> fi_fattrib info AND AM_DIR \<noteq> 0
      then (if \<exists>n. target_at env (waiting bd w2 d) n
        then map_option (\<lambda>d4. (0, d\<lparr>mounted_bds := (mounted_bds d)[0 := Some bd], mount_state := POPSTARTER_VCD_READY, world := world d4\<rparr>))
             (fatfs_fs_driver_wait_popstarter_file env (waiting bd w2 d))
        else None)
      else Some (- 1, d\<lparr>world := f_unmount env 0 w2\<rparr>))"
    using connect_spec [OF assms(1) _ _ m st] False waiting_returns [OF assms(1), of env bd w2] by simp
  show ?thesis using assms sp up len by (auto simp: mount_inv_world split: if_splits)
qed

lemma disconnect_inv:
  assumes "mount_inv d"
  shows "\<exists>d'. disconnect_bd env bd d = Some d' \<and> mount_inv d' \<and> Some bd \<notin> set (mounted_bds d')
     \<and> (Some bd \<notin> set (mounted_bds d) \<longrightarrow> d' = d)"
proof (cases "first_index (\<lambda>b. b = Some bd) (mounted_bds d)")
  case None
  have "Some bd \<notin> set (mounted_bds d)" using None by (auto simp: first_index_None)
  moreover have "disconnect_bd env bd d = Some d" using None with_lock(1,2) [OF assms]
    by (simp add: disconnect_bd_def fatfs_fs_driver_find_mount_info_index_from_block_device_def)
  ultimately show ?thesis using assms by simp
next
  case (Some i)
  then have i: "i < length (mounted_bds d)" "mounted_bds d ! i = Some bd" by (simp_all add: first_index_Some)
  have iv: "length (mounted_bds d) = FF_VOLUMES" "\<And>j. 0 < j \<Longrightarrow> j < FF_VOLUMES \<Longrightarrow> mounted_bds d ! j = None"
    using assms by (simp_all add: mount_inv_def)
  have i0: "i = 0" using i iv by (cases "i = 0") auto
  have "disconnect_bd env bd d = Some (fatfs_fs_driver_unmount_bd env 0 d)"
    using Some i0 with_lock [OF assms] with_lock(2) [OF unmount_inv [OF assms]]
    by (simp add: disconnect_bd_def fatfs_fs_driver_find_mount_info_index_from_block_device_def)
  moreover have "Some bd \<notin> set (mounted_bds (fatfs_fs_driver_unmount_bd env 0 d))"
    using iv by (auto simp: fatfs_fs_driver_unmount_bd_def in_set_conv_nth nth_list_update Let_def split: if_splits)
  moreover have "Some bd \<in> set (mounted_bds d)" using i by (metis nth_mem)
  ultimately show ?thesis using unmount_inv [OF assms, of 0] by auto
qed

lemma devctl_inv:
  assumes "mount_inv d" "0 \<le> unit" "unit < int FF_VOLUMES"
  shows "\<exists>r d'. fs_devctl env unit cmd d = Some (r, d') \<and> mount_inv d'"
proof (cases cmd)
  case USBMASS_DEVCTL_STOP_UNIT
  obtain d' where d': "fatfs_fs_driver_stop_all_bd env (locked d) = Some (locked d')" "mount_inv d'"
    using stop_all_locked [OF assms(1)] by blast
  then show ?thesis using USBMASS_DEVCTL_STOP_UNIT with_lock(1) [OF assms(1)] with_lock(2) [OF d'(2)]
    by (simp add: fs_devctl_def)
next
  case USBMASS_DEVCTL_STOP_ALL
  obtain d' where d': "fatfs_fs_driver_stop_single_bd env unit (locked d) = Some (locked d')" "mount_inv d'"
    using stop_single_locked [OF assms] by blast
  then show ?thesis using USBMASS_DEVCTL_STOP_ALL with_lock(1) [OF assms(1)] with_lock(2) [OF d'(2)]
    by (simp add: fs_devctl_def)
qed (use with_lock [OF assms(1)] assms(1) in \<open>simp add: fs_devctl_def\<close>)

lemma ready_inv:
  assumes "mount_inv d"
  shows "bdm_is_fatfs_ready env (Some n) d =
    Some (\<exists>b. mounted_bds d ! 0 = Some b \<and> bd_name (bd_desc env b) = Some n, d)"
  using with_lock [OF assms] assms by (auto simp: bdm_is_fatfs_ready_def mount_inv_def split: option.splits)

lemma mount_inv_path: "mount_inv d \<Longrightarrow> length p = POPSTARTER_VCD_PATH_MAX \<Longrightarrow> mount_inv (d\<lparr>vcd_path := p\<rparr>)"
  by (simp add: mount_inv_def)

lemma set_path_inv:
  assumes "mount_inv d"
  shows "\<exists>r d'. bdm_set_popstarter_vcd_path path d = Some (r, d') \<and> mount_inv d'"
proof -
  have len: "length (vcd_path d) = POPSTARTER_VCD_PATH_MAX" using assms by (simp add: mount_inv_def)
  have d1: "mount_inv (d\<lparr>vcd_path := (vcd_path d)[0 := NUL]\<rparr>)" using assms by (simp add: mount_inv_def)
  show ?thesis
  proof (cases "lock_id d \<ge> 0")
    case True
    then show ?thesis using assms by (simp add: bdm_set_popstarter_vcd_path_def)
  next
    case False
    then show ?thesis using d1 len assms
      by (cases path) (auto simp: bdm_set_popstarter_vcd_path_def Let_def buf_write_def mount_inv_def)
  qed
qed

text \<open>\<open>bdm_set_popstarter_vcd\<close> against the reference \<open>first_name\<close>.\<close>

lemma set_vcd_first:
  assumes "mount_inv d" "\<not> probe_configured d" "args \<noteq> []"
  shows "bdm_set_popstarter_vcd (Some args) d = Some (case first_name args of
     None \<Rightarrow> (- 1, d\<lparr>vcd_path := (vcd_path d)[0 := NUL]\<rparr>)
   | Some n \<Rightarrow> (0, d\<lparr>vcd_path := VCD_PREFIX @ n @ VCD_SUFFIX @ NUL # drop (13 + length n) (vcd_path d)\<rparr>))"
proof -
  have len: "length (vcd_path d) = POPSTARTER_VCD_PATH_MAX" using assms by (simp add: mount_inv_def)
  have un: "fs_unlock ((locked d)\<lparr>vcd_path := p\<rparr>) = d\<lparr>vcd_path := p\<rparr>" for p
    using assms(1) by (auto simp: locked_def fs_unlock_def mount_inv_def)
  have "drop (13 + length n) ((vcd_path d)[0 := NUL]) = drop (13 + length n) (vcd_path d)" for n :: string
    by (simp add: drop_update_cancel)
  then show ?thesis using with_lock(1) [OF assms(1)] assms(2,3) un len
      scan_args_first [of "(locked d)\<lparr>vcd_path := (vcd_path d)[0 := NUL]\<rparr>" args]
    by (simp add: bdm_set_popstarter_vcd_def split: option.split)
qed

lemma first_name_bound: "first_name args = Some n \<Longrightarrow> length n + 4 \<le> FF_MAX_LFN"
proof (induction args rule: first_name.induct)
  case (3 arg args)
  then show ?case by (auto simp: arg_name_def Let_def split: option.splits if_splits)
qed simp_all

lemma set_vcd_inv:
  assumes "mount_inv d"
  shows "\<exists>r d'. bdm_set_popstarter_vcd argv d = Some (r, d') \<and> mount_inv d'"
proof (cases "probe_configured d \<or> argv = None \<or> argv = Some []")
  case True
  then show ?thesis using with_lock(1,2) [OF assms] assms by (auto simp: bdm_set_popstarter_vcd_def)
next
  case False
  then obtain args where a: "argv = Some args" "args \<noteq> []" by auto
  have len: "length (vcd_path d) = POPSTARTER_VCD_PATH_MAX" using assms by (simp add: mount_inv_def)
  have run: "bdm_set_popstarter_vcd argv d = Some (case first_name args of
     None \<Rightarrow> (- 1, d\<lparr>vcd_path := (vcd_path d)[0 := NUL]\<rparr>)
   | Some n \<Rightarrow> (0, d\<lparr>vcd_path := VCD_PREFIX @ n @ VCD_SUFFIX @ NUL # drop (13 + length n) (vcd_path d)\<rparr>))"
    using set_vcd_first [OF assms _ a(2)] False a(1) by simp
  show ?thesis
  proof (cases "first_name args")
    case (Some n)
    have "length (VCD_PREFIX @ n @ VCD_SUFFIX @ NUL # drop (13 + length n) (vcd_path d)) = POPSTARTER_VCD_PATH_MAX"
      using len first_name_bound [OF Some] by simp
    from mount_inv_path [OF assms this] show ?thesis unfolding run using Some by simp
  qed (use run mount_inv_path [OF assms, of "(vcd_path d)[0 := NUL]"] len in simp)
qed

lemma fs_step_inv:
  assumes "fs_step env d d'" "mount_inv d"
  shows "mount_inv d'"
  using assms
proof (cases rule: fs_step.cases)
  case (step_connect bd r)
  then show ?thesis using connect_inv [OF assms(2) step_connect] by blast
next
  case (step_disconnect bd)
  then show ?thesis using disconnect_inv [OF assms(2), of env bd] by auto
next
  case (step_devctl unit cmd r)
  then show ?thesis using devctl_inv [OF assms(2), of unit env cmd] by auto
next
  case (step_ready n b)
  then show ?thesis using ready_inv [OF assms(2), of env] assms(2) by (cases n) (auto simp: bdm_is_fatfs_ready_def)
next
  case (step_args argv r)
  then show ?thesis using set_vcd_inv [OF assms(2), of argv] by auto
next
  case (step_path path r)
  then show ?thesis using set_path_inv [OF assms(2), of path] by auto
qed (use assms(2) in \<open>simp add: mount_inv_world\<close>)

lemma init_inv:
  assumes "length (vcd_path d0) = POPSTARTER_VCD_PATH_MAX"
  shows "mount_inv (snd (InitFS env d0))"
  using assms by (auto simp: InitFS_def fs_reset_def fs_init_lock_def fatfs_fs_driver_initialize_all_mount_info_def
      mount_inv_def Let_def split: prod.split)

section \<open>Properties\<close>

text \<open>C15. The life cycle of \<open>mass0\<close>: after \<open>InitFS\<close>, in every state reached by any sequence of connects,
  disconnects, stop commands, queries and path changes (with arbitrary activity of other modules in
  between), the driver lock is free again, only volume 0 can be mounted, it is mounted exactly when
  the state is ready, and \<open>bdm_is_fatfs_ready\<close> answers yes exactly for the name of the mounted device.\<close>

theorem mount_lifecycle:
  assumes "length (vcd_path d0) = POPSTARTER_VCD_PATH_MAX" "InitFS env d0 = (r, d)" "(fs_step env)\<^sup>*\<^sup>* d d'"
  shows "mount_inv d' \<and> bdm_is_fatfs_ready env (Some n) d' =
    Some (\<exists>b. mounted_bds d' ! 0 = Some b \<and> bd_name (bd_desc env b) = Some n, d')"
proof -
  have "mount_inv d" using init_inv [OF assms(1), of env] assms(2) by simp
  with assms(3) have "mount_inv d'" by (induction rule: rtranclp_induct) (auto intro: fs_step_inv)
  then show ?thesis using ready_inv by blast
qed

text \<open>A world with one volume: \<open>f_mount\<close> succeeds, \<open>0:/POPS\<close> is a directory, and the world counts the
  polls until the target file appears at the third.\<close>

definition demo_env :: "nat fs_env" where
  "demo_env = \<lparr>f_mount = (\<lambda>m i w. (0, w)), f_unmount = (\<lambda>i w. w),
     f_stat = (\<lambda>m p w. let info = \<lparr>fi_fsize = 0, fi_fdate = 0, fi_ftime = 0, fi_fattrib = (if p = ''0:/POPS'' then 0x10 else 0), fi_fname = p\<rparr>
                        in if p = ''0:/POPS'' then (0, info, w) else (if w < 2 then 4 else 0, info, w + 1)),
     memset_fatfs = (\<lambda>i w. w),
     bd_desc = (\<lambda>b. \<lparr>bd_name = Some ''usb'', devNr = 0, parNr = 1, parId = 0, sectorSize = 512, sectorOffset = 0, sectorCount = 1000\<rparr>),
     stop_dev = (\<lambda>b w. w), DelayThread = (\<lambda>w. w), CreateSema = (\<lambda>w. (7, w)), DeleteSema = (\<lambda>i w. w),
     DelDrv = (\<lambda>w. w), AddDrv = (\<lambda>w. (0, w))\<rparr>"

definition demo_driver :: "nat fs_driver" where
  "demo_driver = \<lparr>lock_id = - 1, lock_free = False, mounted_bds = [], mount_state = POPSTARTER_UNSELECTED,
     vcd_path = replicate 271 NUL, probe_configured = False, world = 0\<rparr>"

lemma demo_env_sel:
  "f_mount demo_env m i w = (0, w)" "f_unmount demo_env i w = w" "memset_fatfs demo_env i w = w" "DelayThread demo_env w = w"
  "CreateSema demo_env w = (7, w)" "DelDrv demo_env w = w" "AddDrv demo_env w = (0, w)"
  "bd_name (bd_desc demo_env b) = Some ''usb''" "stop_dev demo_env b w = w"
  "f_stat demo_env m p w = (let info = \<lparr>fi_fsize = 0, fi_fdate = 0, fi_ftime = 0, fi_fattrib = (if p = ''0:/POPS'' then 0x10 else 0), fi_fname = p\<rparr>
      in if p = ''0:/POPS'' then (0, info, w) else (if w < 2 then 4 else 0, info, w + 1))"
  by (simp_all add: demo_env_def)

definition demo_ready :: "bool \<Rightarrow> popstarter_mount_state \<Rightarrow> bdref option \<Rightarrow> nat \<Rightarrow> nat fs_driver" where
  "demo_ready free st b k = \<lparr>lock_id = 7, lock_free = free, mounted_bds = b # replicate 9 None, mount_state = st,
     vcd_path = replicate 271 NUL, probe_configured = False, world = k\<rparr>"

lemma demo_init: "InitFS demo_env demo_driver = (0, demo_ready True POPSTARTER_UNSELECTED None 0)"
proof -
  have f: "fold (memset_fatfs demo_env) xs v = v" for xs v by (induction xs) (auto simp: demo_env_sel)
  have "replicate 10 (None :: bdref option) = None # replicate 9 None" by (simp add: numeral_eq_Suc)
  then show ?thesis
    by (simp add: InitFS_def fs_reset_def fs_init_lock_def fatfs_fs_driver_initialize_all_mount_info_def demo_env_sel demo_driver_def f
      demo_ready_def del: upt_rec_numeral)
qed

lemma demo_connect: "connect_bd demo_env (DevBd 0) (demo_ready True POPSTARTER_UNSELECTED None 0)
    = Some (0, demo_ready True POPSTARTER_VCD_READY (Some (DevBd 0)) 3)"
proof -
  have w: "fatfs_fs_driver_wait_popstarter_file demo_env (demo_ready f st b k) =
      (if k < 2 then fatfs_fs_driver_wait_popstarter_file demo_env (demo_ready f st b (k + 1)) else Some (demo_ready f st b (k + 1)))" for f st b k
    by (subst fatfs_fs_driver_wait_popstarter_file.simps)
       (simp add: fatfs_fs_driver_check_popstarter_file_def demo_env_sel demo_ready_def Let_def)
  let ?w = "demo_ready False POPSTARTER_VOLUME_LOCKED (Some (DevBd 0))"
  have "fatfs_fs_driver_wait_popstarter_file demo_env (?w 0) = Some (?w 3)"
    using w [of False POPSTARTER_VOLUME_LOCKED "Some (DevBd 0)"] by (simp add: numeral_eq_Suc)
  then show ?thesis unfolding connect_bd_def
    by (simp add: fs_lock_def fatfs_fs_driver_get_mounted_bd_from_index_def fatfs_fs_driver_mount_bd_def fs_unlock_def
      fatfs_fs_driver_has_popstarter_directory_def demo_env_sel demo_ready_def)
qed

theorem mount_lifecycle_witness:
  "\<exists>d'. (fs_step demo_env)\<^sup>*\<^sup>* (snd (InitFS demo_env demo_driver)) d' \<and> mount_inv d'
     \<and> bdm_is_fatfs_ready demo_env (Some ''usb'') d' = Some (True, d')"
proof -
  let ?d' = "demo_ready True POPSTARTER_VCD_READY (Some (DevBd 0)) 3"
  have st: "(fs_step demo_env)\<^sup>*\<^sup>* (demo_ready True POPSTARTER_UNSELECTED None 0) ?d'"
    using step_connect [OF demo_connect] by blast
  have l: "length (vcd_path demo_driver) = POPSTARTER_VCD_PATH_MAX" by (simp add: demo_driver_def)
  show ?thesis using mount_lifecycle [OF l demo_init st, of "''usb''"] st unfolding demo_init snd_conv
    by (intro exI [of _ ?d']) (simp add: demo_env_sel demo_ready_def)
qed

text \<open>\<open>connect_bd\<close> on a driver between two calls. A whole ATA disk and any device while \<open>mass0\<close> is
  taken are refused without effect. Otherwise the candidate is mounted; if that fails, or it has no
  POPS directory, it is refused and nothing stays mounted. If it has one, the call returns exactly when some
  poll finds the target file, and then the device is \<open>mass0\<close> and the state is ready.\<close>

theorem connect_bd_mounts:
  assumes "mount_inv d"
    and "f_mount env ((mounted_bds d)[0 := Some bd]) 0 (world d) = (ret, w1)"
    and "f_stat env ((mounted_bds d)[0 := Some bd]) POPSTARTER_DIR_PATH w1 = (q, info, w2)"
  shows "if whole_ata env bd \<or> mounted_bds d ! 0 \<noteq> None then connect_bd env bd d = Some (- 1, d)
     else if ret \<noteq> 0 then connect_bd env bd d = Some (- 1, d\<lparr>world := w1\<rparr>)
     else if q \<noteq> 0 \<or> fi_fattrib info AND AM_DIR = 0 then connect_bd env bd d = Some (- 1, d\<lparr>world := f_unmount env 0 w2\<rparr>)
     else if \<exists>n. target_at env (waiting bd w2 d) n
     then \<exists>w. connect_bd env bd d = Some (0, d\<lparr>mounted_bds := (mounted_bds d)[0 := Some bd], mount_state := POPSTARTER_VCD_READY, world := w\<rparr>)
     else connect_bd env bd d = None"
proof (cases "whole_ata env bd \<or> mounted_bds d ! 0 \<noteq> None")
  case True
  then show ?thesis using mounted_at_0 [OF assms(1)] with_lock(1,2) [OF assms(1)]
    by (auto simp: connect_bd_def whole_ata_def)
next
  case False
  note sp = connect_spec [OF assms(1) _ _ assms(2,3)] waiting_returns [OF assms(1), of env bd w2]
  show ?thesis
  proof (cases "\<exists>n. target_at env (waiting bd w2 d) n")
    case True
    then obtain w' where "fatfs_fs_driver_wait_popstarter_file env (waiting bd w2 d) = Some ((waiting bd w2 d)\<lparr>world := w'\<rparr>)"
      using wait_when_ready by blast
    then show ?thesis using sp False True by auto
  qed (use sp False in auto)
qed

theorem connect_bd_mounts_witness:
  "\<exists>w. connect_bd demo_env (DevBd 0) (demo_ready True POPSTARTER_UNSELECTED None 0) =
     Some (0, demo_ready True POPSTARTER_VCD_READY (Some (DevBd 0)) w)"
proof -
  let ?d = "demo_ready True POPSTARTER_UNSELECTED None 0"
  have iv: "mount_inv ?d" using init_inv [of demo_driver demo_env] demo_init by (simp add: demo_driver_def)
  have m: "f_mount demo_env ((mounted_bds ?d)[0 := Some (DevBd 0)]) 0 (world ?d) = (0, 0)" by (simp add: demo_env_sel demo_ready_def)
  have st: "f_stat demo_env ((mounted_bds ?d)[0 := Some (DevBd 0)]) POPSTARTER_DIR_PATH 0
      = (0, \<lparr>fi_fsize = 0, fi_fdate = 0, fi_ftime = 0, fi_fattrib = 0x10, fi_fname = ''0:/POPS''\<rparr>, 0)" by (simp add: demo_env_sel)
  have "target_at demo_env (waiting (DevBd 0) 0 ?d) 2"
    by (simp add: target_at_def numeral_2_eq_2 fatfs_fs_driver_check_popstarter_file_def demo_env_sel waiting_def demo_ready_def locked_def Let_def)
  then have t: "\<exists>n. target_at demo_env (waiting (DevBd 0) 0 ?d) n" by blast
  have e: "\<not> (whole_ata demo_env (DevBd 0) \<or> mounted_bds ?d ! 0 \<noteq> None)" by (simp add: whole_ata_def demo_env_sel demo_ready_def)
  have dir: "\<not> ((0 :: int) \<noteq> 0 \<or> fi_fattrib \<lparr>fi_fsize = 0, fi_fdate = 0, fi_ftime = 0, fi_fattrib = 0x10, fi_fname = ''0:/POPS''\<rparr> AND AM_DIR = 0)"
    by simp
  have up: "?d\<lparr>mounted_bds := (mounted_bds ?d)[0 := Some (DevBd 0)], mount_state := POPSTARTER_VCD_READY, world := w\<rparr>
      = demo_ready True POPSTARTER_VCD_READY (Some (DevBd 0)) w" for w by (simp add: demo_ready_def)
  show ?thesis using connect_bd_mounts [OF iv m st, unfolded if_not_P [OF e] if_not_P [OF dir] if_P [OF t] up] by simp
qed

text \<open>Choosing the game from the launcher arguments agrees with the reference \<open>first_name\<close>: the call
  returns, never writes outside the 271-byte buffer, and on success the path is
  \<open>0:/POPS/<name>.VCD\<close> for the first argument that ends in \<open>.ELF\<close>, without an \<open>XX.\<close> or \<open>SB.\<close> prefix, whose name is
  neither empty nor too long; otherwise the path is empty.\<close>

theorem set_vcd_equiv:
  assumes "mount_inv d" "\<not> probe_configured d" "args \<noteq> []" "\<forall>a \<in> set args. \<forall>s. a = Some s \<longrightarrow> NUL \<notin> set s"
  shows "\<exists>d'. bdm_set_popstarter_vcd (Some args) d = Some (if first_name args = None then - 1 else 0, d')
     \<and> cstr (vcd_path d') = (case first_name args of None \<Rightarrow> [] | Some n \<Rightarrow> VCD_PREFIX @ n @ VCD_SUFFIX)
     \<and> length (vcd_path d') = POPSTARTER_VCD_PATH_MAX \<and> mount_inv d' \<and> mounted_bds d' = mounted_bds d"
proof (cases "first_name args")
  case None
  obtain x xs where "vcd_path d = x # xs" using assms(1) by (cases "vcd_path d") (auto simp: mount_inv_def)
  then have "cstr ((vcd_path d)[0 := NUL]) = []" by (simp add: cstr_def)
  then show ?thesis using set_vcd_first [OF assms(1-3)] None assms(1) by (auto simp: mount_inv_def)
next
  case (Some n)
  let ?p = "VCD_PREFIX @ n @ VCD_SUFFIX @ NUL # drop (13 + length n) (vcd_path d)"
  have "NUL \<notin> set n" using Some assms(4)
  proof (induction args rule: first_name.induct)
    case (3 arg args)
    have "NUL \<notin> set m" if "arg_name arg = Some m" for m
      using that "3.prems"(2) by (auto simp: arg_name_def Let_def split: if_splits dest: in_set_dropD in_set_takeD)
    then show ?case using 3 by (auto split: option.splits)
  qed simp_all
  then have "cstr ?p = VCD_PREFIX @ n @ VCD_SUFFIX" using cstr_stored [of "VCD_PREFIX @ n @ VCD_SUFFIX"] by simp
  moreover have l: "length ?p = POPSTARTER_VCD_PATH_MAX" using first_name_bound [OF Some] assms(1) by (simp add: mount_inv_def)
  ultimately show ?thesis using set_vcd_first [OF assms(1-3)] Some mount_inv_path [OF assms(1) l]
    by (intro exI [of _ "d\<lparr>vcd_path := ?p\<rparr>"]) simp
qed

theorem set_vcd_equiv_witness:
  "\<exists>d'. bdm_set_popstarter_vcd (Some [Some ''mass:/A'', Some ''XX.Game.ELF'']) (demo_ready True POPSTARTER_UNSELECTED None 0) = Some (0, d')
     \<and> cstr (vcd_path d') = ''0:/POPS/Game.VCD''"
proof -
  let ?d = "demo_ready True POPSTARTER_UNSELECTED None 0" and ?args = "[Some ''mass:/A'', Some ''XX.Game.ELF'']"
  have iv: "mount_inv ?d" using init_inv [of demo_driver demo_env] demo_init by (simp add: demo_driver_def)
  have fn: "first_name ?args = Some ''Game''" by (simp add: arg_name_def suffix4 prefix3)
  show ?thesis using set_vcd_equiv [OF iv, of ?args] fn by (auto simp: demo_ready_def)
qed

end
