(* ===== verification/Fat_Access.thy ===== *)
theory Fat_Access
  imports Diskio
begin

text \<open>
  The part of FatFs (\<open>__bdm_assault/src/bdmfs/bdmfs_ff.c\<close>) the driver calls directly or through
  \<open>get_fat\<close>: little-endian loads and stores, the one-sector window with its write-back, cluster
  addressing, reading and changing entries of the allocation table (FAT12, FAT16, FAT32, exFAT)
  and the cluster link map of fast seek. Shown: \<open>get_fat\<close> returns the entry stored on the disk (or
  a disk error) and changes nothing, \<open>put_fat\<close> followed by \<open>get_fat\<close> returns the value put,
  \<open>clst2sect\<close> is injective inside the data area, and \<open>clmt_clust\<close> finds the cluster of a file
  offset.
\<close>

section \<open>Structures\<close>

datatype fs_type = FS_NONE | FS_FAT12 | FS_FAT16 | FS_FAT32 | FS_EXFAT

record fatfs =
  fs_type :: fs_type
  pdrv :: u8
  n_fats :: u8
  wflag :: bool
  csize :: u16
  ssize :: u16
  n_fatent :: u32
  fsize :: u32
  fatbase :: u64
  database :: u64
  winsect :: u64
  win :: bytes

record ffobjid =
  ob_stat :: u8
  ob_sclust :: u32
  ob_objsize :: u64
  ob_n_cont :: u32
  ob_n_frag :: u32

datatype fresult = FR_OK | FR_DISK_ERR | FR_INT_ERR

section \<open>Loads and stores\<close>

definition ld_word :: "bytes \<Rightarrow> nat \<Rightarrow> u16" where
  "ld_word p k = push_bit 8 (ucast (p ! (k + 1))) OR ucast (p ! k)"

definition ld_dword :: "bytes \<Rightarrow> nat \<Rightarrow> u32" where
  "ld_dword p k =
     (let rv = ucast (p ! (k + 3)); rv = push_bit 8 rv OR ucast (p ! (k + 2));
          rv = push_bit 8 rv OR ucast (p ! (k + 1)) in push_bit 8 rv OR ucast (p ! k))"

definition st_word :: "bytes \<Rightarrow> nat \<Rightarrow> u16 \<Rightarrow> bytes" where
  "st_word p k val = p[k := ucast val, k + 1 := ucast (drop_bit 8 val)]"

definition st_dword :: "bytes \<Rightarrow> nat \<Rightarrow> u32 \<Rightarrow> bytes" where
  "st_dword p k val = p[k := ucast val, k + 1 := ucast (drop_bit 8 val),
     k + 2 := ucast (drop_bit 16 val), k + 3 := ucast (drop_bit 24 val)]"

section \<open>The window\<close>

definition sync_window :: "'s disk_env \<Rightarrow> bdref option list \<Rightarrow> fatfs \<Rightarrow> 's \<Rightarrow> fresult \<times> fatfs \<times> 's" where
  "sync_window env mounted fs s =
     (if wflag fs
      then let (r, s1) = disk_write env mounted (pdrv fs) (take (unat (ssize fs)) (win fs)) (winsect fs) 1 s
           in if r = RES_OK
              then let fs1 = fs\<lparr>wflag := False\<rparr>;
                       s2 = (if winsect fs - fatbase fs < ucast (fsize fs) \<and> n_fats fs = 2
                             then snd (disk_write env mounted (pdrv fs) (take (unat (ssize fs)) (win fs))
                                         (winsect fs + ucast (fsize fs)) 1 s1)
                             else s1)
                   in (FR_OK, fs1, s2)
              else (FR_DISK_ERR, fs, s1)
      else (FR_OK, fs, s))"

definition move_window :: "'s disk_env \<Rightarrow> bdref option list \<Rightarrow> fatfs \<Rightarrow> u64 \<Rightarrow> 's \<Rightarrow> fresult \<times> fatfs \<times> 's" where
  "move_window env mounted fs sect s =
     (if sect \<noteq> winsect fs
      then let (res, fs1, s1) = sync_window env mounted fs s
           in if res = FR_OK
              then let (r, d, s2) = disk_read env mounted (pdrv fs1) sect 1 s1;
                       fs2 = fs1\<lparr>win := overlay (win fs1) d\<rparr>
                   in if r \<noteq> RES_OK then (FR_DISK_ERR, fs2\<lparr>winsect := - 1\<rparr>, s2)
                      else (FR_OK, fs2\<lparr>winsect := sect\<rparr>, s2)
              else (res, fs1, s1)
      else (FR_OK, fs, s))"

section \<open>Clusters and the allocation table\<close>

definition clst2sect :: "fatfs \<Rightarrow> u32 \<Rightarrow> u64" where
  "clst2sect fs clst =
     (let c = clst - 2 in if c \<ge> n_fatent fs - 2 then 0 else database fs + ucast (csize fs) * ucast c)"

text \<open>One window access of \<open>get_fat\<close>: the value \<open>f\<close> of the window at the sector, or the default.\<close>

definition with_window :: "'s disk_env \<Rightarrow> bdref option list \<Rightarrow> fatfs \<Rightarrow> u64 \<Rightarrow> 's \<Rightarrow> 'r \<Rightarrow>
    (fatfs \<Rightarrow> 's \<Rightarrow> 'r \<times> fatfs \<times> 's) \<Rightarrow> 'r \<times> fatfs \<times> 's" where
  "with_window env mounted fs sect s err k =
     (let (res, fs1, s1) = move_window env mounted fs sect s
      in if res \<noteq> FR_OK then (err, fs1, s1) else k fs1 s1)"

definition get_fat12 :: "'s disk_env \<Rightarrow> bdref option list \<Rightarrow> fatfs \<Rightarrow> u32 \<Rightarrow> 's \<Rightarrow> u32 \<times> fatfs \<times> 's" where
  "get_fat12 env mounted fs clst s =
     (let bc = clst + clst div 2; ss = ucast (ssize fs)
      in with_window env mounted fs (fatbase fs + ucast (bc div ss)) s 0xffffffff
           (\<lambda>fs1 s1. let wc = ucast (win fs1 ! unat (bc mod ss)) :: u32; bc = bc + 1
             in with_window env mounted fs1 (fatbase fs1 + ucast (bc div ss)) s1 0xffffffff
                  (\<lambda>fs2 s2. let wc = wc OR push_bit 8 (ucast (win fs2 ! unat (bc mod ss)))
                     in (if bit clst 0 then drop_bit 4 wc else wc AND 0xfff, fs2, s2))))"

definition get_fat :: "'s disk_env \<Rightarrow> bdref option list \<Rightarrow> fatfs \<Rightarrow> ffobjid \<Rightarrow> u32 \<Rightarrow> 's \<Rightarrow> u32 \<times> fatfs \<times> 's" where
  "get_fat env mounted fs obj clst s =
     (let ss = ucast (ssize fs) :: u32
      in if clst < 2 \<or> clst \<ge> n_fatent fs then (1, fs, s)
         else case fs_type fs of
           FS_FAT12 \<Rightarrow> get_fat12 env mounted fs clst s
         | FS_FAT16 \<Rightarrow>
             with_window env mounted fs (fatbase fs + ucast (clst div (ss div 2))) s 0xffffffff
               (\<lambda>fs1 s1. (ucast (ld_word (win fs1) (unat (clst * 2 mod ss))), fs1, s1))
         | FS_FAT32 \<Rightarrow>
             with_window env mounted fs (fatbase fs + ucast (clst div (ss div 4))) s 0xffffffff
               (\<lambda>fs1 s1. (ld_dword (win fs1) (unat (clst * 4 mod ss)) AND 0x0fffffff, fs1, s1))
         | FS_EXFAT \<Rightarrow>
             if (ob_objsize obj \<noteq> 0 \<and> ob_sclust obj \<noteq> 0) \<or> ob_stat obj = 0
             then let cofs = clst - ob_sclust obj;
                      clen = ucast ((ob_objsize obj - 1) div ucast (ssize fs) div ucast (csize fs)) :: u32
                  in if ob_stat obj = 2 \<and> cofs \<le> clen
                     then (if cofs = clen then 0x7fffffff else clst + 1, fs, s)
                     else if ob_stat obj = 3 \<and> cofs < ob_n_cont obj then (clst + 1, fs, s)
                     else if ob_stat obj \<noteq> 2
                     then (if ob_n_frag obj \<noteq> 0 then (0x7fffffff, fs, s)
                           else with_window env mounted fs (fatbase fs + ucast (clst div (ss div 4))) s 0xffffffff
                                  (\<lambda>fs1 s1. (ld_dword (win fs1) (unat (clst * 4 mod ss)) AND 0x7fffffff, fs1, s1)))
                     else (1, fs, s)
             else (1, fs, s)
         | FS_NONE \<Rightarrow> (1, fs, s))"

definition put_fat12 :: "'s disk_env \<Rightarrow> bdref option list \<Rightarrow> fatfs \<Rightarrow> u32 \<Rightarrow> u32 \<Rightarrow> 's \<Rightarrow> fresult \<times> fatfs \<times> 's" where
  "put_fat12 env mounted fs clst val s =
     (let bc = clst + clst div 2; ss = ucast (ssize fs); odd = bit clst 0;
          (res, fs1, s1) = move_window env mounted fs (fatbase fs + ucast (bc div ss)) s
      in if res \<noteq> FR_OK then (res, fs1, s1)
         else let k = unat (bc mod ss); p = win fs1 ! k;
                  fs2 = fs1\<lparr>win := (win fs1)[k := if odd then (p AND 0x0f) OR push_bit 4 (ucast val) else ucast val],
                            wflag := True\<rparr>;
                  bc' = bc + 1;
                  (res, fs3, s3) = move_window env mounted fs2 (fatbase fs2 + ucast (bc' div ss)) s1
              in if res \<noteq> FR_OK then (res, fs3, s3)
                 else let k = unat (bc' mod ss); p = win fs3 ! k
                      in (FR_OK, fs3\<lparr>win := (win fs3)[k := if odd then ucast (drop_bit 4 val)
                                              else (p AND 0xf0) OR (ucast (drop_bit 8 val) AND 0x0f)],
                                     wflag := True\<rparr>, s3))"

definition put_fat :: "'s disk_env \<Rightarrow> bdref option list \<Rightarrow> fatfs \<Rightarrow> u32 \<Rightarrow> u32 \<Rightarrow> 's \<Rightarrow> fresult \<times> fatfs \<times> 's" where
  "put_fat env mounted fs clst val s =
     (let ss = ucast (ssize fs) :: u32;
          put32 = (\<lambda>upd. let (res, fs1, s1) = move_window env mounted fs (fatbase fs + ucast (clst div (ss div 4))) s;
                              k = unat (clst * 4 mod ss)
                          in if res \<noteq> FR_OK then (res, fs1, s1)
                             else (FR_OK, fs1\<lparr>win := st_dword (win fs1) k (upd (ld_dword (win fs1) k)), wflag := True\<rparr>, s1))
      in if clst < 2 \<or> clst \<ge> n_fatent fs then (FR_INT_ERR, fs, s)
         else case fs_type fs of
           FS_FAT12 \<Rightarrow> put_fat12 env mounted fs clst val s
         | FS_FAT16 \<Rightarrow>
             let (res, fs1, s1) = move_window env mounted fs (fatbase fs + ucast (clst div (ss div 2))) s
             in if res \<noteq> FR_OK then (res, fs1, s1)
                else (FR_OK, fs1\<lparr>win := st_word (win fs1) (unat (clst * 2 mod ss)) (ucast val), wflag := True\<rparr>, s1)
         | FS_FAT32 \<Rightarrow> put32 (\<lambda>old. (val AND 0x0fffffff) OR (old AND 0xf0000000))
         | FS_EXFAT \<Rightarrow> put32 (\<lambda>old. val)
         | FS_NONE \<Rightarrow> (FR_INT_ERR, fs, s))"

text \<open>\<open>clmt_clust\<close>: \<open>tbl\<close> is the table after its first item. A table without terminator is read
  past its end (\<open>None\<close>).\<close>

fun clmt_search :: "u32 list \<Rightarrow> u32 \<Rightarrow> u32 option" where
  "clmt_search (ncl # rest) cl =
     (if ncl = 0 then Some 0
      else case rest of
             [] \<Rightarrow> None
           | start # tbl \<Rightarrow> if cl < ncl then Some (cl + start) else clmt_search tbl (cl - ncl))"
| "clmt_search [] cl = None"

definition clmt_clust :: "fatfs \<Rightarrow> u32 list \<Rightarrow> u64 \<Rightarrow> u32 option" where
  "clmt_clust fs cltbl ofs =
     clmt_search (tl cltbl) (ucast (ofs div ucast (ssize fs) div ucast (csize fs)))"

section \<open>Little-endian values\<close>

lemma or_shift8: "push_bit 8 (x :: 'a::len word) OR ucast (b :: u8) = push_bit 8 x + ucast b"
  by (rule disjunctive_add_eq_or [symmetric]) (auto simp: bit_eq_iff bit_simps dest: bit_imp_le_length)

lemma unat_shift8:
  assumes "unat (x :: 'a::len word) * 256 + 255 < 2 ^ LENGTH('a)" "8 \<le> LENGTH('a)"
  shows "unat (push_bit 8 x OR ucast (b :: u8)) = unat x * 256 + unat b"
proof -
  have b: "unat (ucast b :: 'a word) = unat b" using assms(2) by (intro unat_ucast_up) simp
  have "unat b < 256" using unat_bound [of 8 b] by simp
  moreover have p: "unat (push_bit 8 x) = unat x * 256"
    unfolding unsigned_push_bit_eq using assms(1) by (simp add: push_bit_eq_mult take_bit_nat_eq_self)
  ultimately show ?thesis using assms(1) b unfolding or_shift8 by (subst unat_add_lt) simp_all
qed

lemma unat_ld_word: "unat (ld_word p k) = unat (p ! k) + 256 * unat (p ! (k + 1))"
proof -
  have "unat (ucast (p ! (k + 1)) :: u16) = unat (p ! (k + 1))" by (rule unat_ucast_up) simp
  then show ?thesis using unat_lt_u8 [of "p ! (k + 1)"]
    by (simp add: ld_word_def unat_shift8)
qed

lemma unat_ld_dword: "unat (ld_dword p k) = unat (p ! k) + 256 * unat (p ! (k + 1))
    + 65536 * unat (p ! (k + 2)) + 16777216 * unat (p ! (k + 3))"
proof -
  let ?a = "ucast (p ! (k + 3)) :: u32"
  let ?b = "push_bit 8 ?a OR ucast (p ! (k + 2))"
  let ?c = "push_bit 8 ?b OR ucast (p ! (k + 1))"
  note lt = unat_lt_u8 [of "p ! k"] unat_lt_u8 [of "p ! (k + 1)"] unat_lt_u8 [of "p ! (k + 2)"] unat_lt_u8 [of "p ! (k + 3)"]
  have a: "unat ?a = unat (p ! (k + 3))" by (rule unat_ucast_up) simp
  have b: "unat ?b = unat (p ! (k + 3)) * 256 + unat (p ! (k + 2))"
    using a lt by (subst unat_shift8) simp_all
  have c: "unat ?c = (unat (p ! (k + 3)) * 256 + unat (p ! (k + 2))) * 256 + unat (p ! (k + 1))"
    using b lt by (subst unat_shift8) simp_all
  have "unat (push_bit 8 ?c OR ucast (p ! k))
      = ((unat (p ! (k + 3)) * 256 + unat (p ! (k + 2))) * 256 + unat (p ! (k + 1))) * 256 + unat (p ! k)"
    using c lt by (subst unat_shift8) simp_all
  then show ?thesis by (simp add: ld_dword_def Let_def)
qed

lemma unat_and_28: "unat ((x :: u32) AND 0x0fffffff) = unat x mod 2 ^ 28"
  using unat_and_mask [of x 28] by (simp add: mask_eq_exp_minus_1)

lemma unat_and_12: "unat ((x :: u32) AND 0xfff) = unat x mod 4096"
  using unat_and_mask [of x 12] by (simp add: mask_eq_exp_minus_1)

section \<open>The table on the disk\<close>

text \<open>Byte \<open>k\<close> of the first FAT, the entry of cluster \<open>c\<close> and the byte after it.\<close>

definition fat_byte :: "fatfs \<Rightarrow> (nat \<Rightarrow> bytes) \<Rightarrow> nat \<Rightarrow> nat" where
  "fat_byte fs dsk k = unat (dsk (unat (fatbase fs) + k div unat (ssize fs)) ! (k mod unat (ssize fs)))"

definition fat_bits :: "fatfs \<Rightarrow> nat" where
  "fat_bits fs = (case fs_type fs of FS_FAT12 \<Rightarrow> 12 | FS_FAT16 \<Rightarrow> 16 | FS_FAT32 \<Rightarrow> 28 | _ \<Rightarrow> 31)"

definition fat_value :: "fatfs \<Rightarrow> (nat \<Rightarrow> bytes) \<Rightarrow> nat \<Rightarrow> nat" where
  "fat_value fs dsk c =
     (case fs_type fs of
        FS_FAT12 \<Rightarrow> (let w = fat_byte fs dsk (c + c div 2) + 256 * fat_byte fs dsk (c + c div 2 + 1)
                     in if odd c then w div 16 else w mod 4096)
      | FS_FAT16 \<Rightarrow> fat_byte fs dsk (2 * c) + 256 * fat_byte fs dsk (2 * c + 1)
      | _ \<Rightarrow> (fat_byte fs dsk (4 * c) + 256 * fat_byte fs dsk (4 * c + 1) + 65536 * fat_byte fs dsk (4 * c + 2)
              + 16777216 * fat_byte fs dsk (4 * c + 3)) mod 2 ^ fat_bits fs)"

definition fat_end :: "fatfs \<Rightarrow> nat \<Rightarrow> nat" where
  "fat_end fs c = (case fs_type fs of FS_FAT12 \<Rightarrow> c + c div 2 + 2 | FS_FAT16 \<Rightarrow> 2 * c + 2 | _ \<Rightarrow> 4 * c + 4)"

definition sector_sizes :: "nat set" where
  "sector_sizes = {512, 1024, 2048, 4096}"

text \<open>The geometry \<open>mount_volume\<close> establishes: a supported sector size, a window of at least one
  sector, the FATs inside the device and a FAT with room for every cluster.\<close>

definition geometry_ok :: "nat \<Rightarrow> fatfs \<Rightarrow> bool" where
  "geometry_ok nsec fs \<longleftrightarrow> unat (ssize fs) \<in> sector_sizes \<and> unat (ssize fs) \<le> length (win fs)
     \<and> unat (fatbase fs) + (if n_fats fs = 2 then 2 else 1) * unat (fsize fs) \<le> nsec
     \<and> n_fatent fs \<le> 0x7fffffff \<and> (\<forall>c < unat (n_fatent fs). fat_end fs c \<le> unat (fsize fs) * unat (ssize fs))"

text \<open>\<open>fs'\<close> is \<open>fs\<close> with another window.\<close>

definition same_volume :: "fatfs \<Rightarrow> fatfs \<Rightarrow> bool" where
  "same_volume fs fs' \<longleftrightarrow> (\<exists>w x f. fs' = fs\<lparr>win := w, winsect := x, wflag := f\<rparr>)"

text \<open>Two disks with the same first FAT.\<close>

definition fat_same :: "fatfs \<Rightarrow> (nat \<Rightarrow> bytes) \<Rightarrow> (nat \<Rightarrow> bytes) \<Rightarrow> bool" where
  "fat_same fs d d' \<longleftrightarrow> (\<forall>k. unat (fatbase fs) \<le> k \<and> k < unat (fatbase fs) + unat (fsize fs) \<longrightarrow> d' k = d k)"

lemma same_volume_refl [simp]: "same_volume fs fs"
  unfolding same_volume_def by (intro exI [of _ "win fs"] exI [of _ "winsect fs"] exI [of _ "wflag fs"]) simp

lemma same_volume_trans: "same_volume a b \<Longrightarrow> same_volume b c \<Longrightarrow> same_volume a c"
  unfolding same_volume_def by force

lemma same_volume_fields:
  assumes "same_volume fs fs'"
  shows "fs_type fs' = fs_type fs" "pdrv fs' = pdrv fs" "n_fats fs' = n_fats fs"
    "csize fs' = csize fs" "ssize fs' = ssize fs" "n_fatent fs' = n_fatent fs" "fsize fs' = fsize fs"
    "fatbase fs' = fatbase fs" "database fs' = database fs"
  using assms by (auto simp: same_volume_def)

lemma same_volume_fat:
  assumes "same_volume fs fs'"
  shows "fat_byte fs' = fat_byte fs" "fat_value fs' = fat_value fs" "fat_end fs' = fat_end fs"
    "fat_same fs' = fat_same fs" "fat_bits fs' = fat_bits fs"
  using same_volume_fields [OF assms]
  by (simp_all add: fun_eq_iff fat_byte_def fat_value_def fat_end_def fat_same_def fat_bits_def cong: fs_type.case_cong)

lemma fat_same_refl [simp]: "fat_same fs d d"
  by (simp add: fat_same_def)

lemma fat_same_trans: "fat_same fs a b \<Longrightarrow> fat_same fs b c \<Longrightarrow> fat_same fs a c"
  by (simp add: fat_same_def)

lemma fat_same_byte:
  assumes "fat_same fs d d'" "k < unat (fsize fs) * unat (ssize fs)"
  shows "fat_byte fs d' k = fat_byte fs d k"
proof -
  have "k div unat (ssize fs) < unat (fsize fs)" using assms(2) by (rule less_mult_imp_div_less)
  then show ?thesis using assms(1) by (simp add: fat_same_def fat_byte_def)
qed

text \<open>An entry depends on its bytes.\<close>

lemma fat_value_cong:
  assumes "fat_end fs c \<le> m" "\<And>k. k < m \<Longrightarrow> fat_byte fs d' k = fat_byte fs d k"
  shows "fat_value fs d' c = fat_value fs d c"
  using assms by (cases "fs_type fs") (simp_all add: fat_value_def fat_end_def Let_def)

lemma fat_same_value:
  assumes "fat_same fs d d'" "fat_end fs c \<le> unat (fsize fs) * unat (ssize fs)"
  shows "fat_value fs d' c = fat_value fs d c"
  using fat_value_cong [OF assms(2)] fat_same_byte [OF assms(1)] by blast

text \<open>Addresses inside a table of entries of \<open>e\<close> bytes, \<open>e\<close> dividing the sector.\<close>

lemma entry_address:
  fixes e q c j ss :: nat
  assumes "ss = e * q" "0 < e" "0 < q" "j < e"
  shows "(e * c + j) div ss = c div q" "(e * c + j) mod ss = e * c mod ss + j" "e * c mod ss + j < ss"
proof -
  have m: "e * c mod ss = e * (c mod q)" unfolding assms(1) by (rule mult_mod_right [symmetric])
  have "c = q * (c div q) + c mod q" by simp
  then have "e * c + j = e * (q * (c div q) + c mod q) + j" by presburger
  then have eq: "e * c + j = ss * (c div q) + (e * (c mod q) + j)"
    unfolding assms(1) by (simp only: distrib_left mult.assoc add.assoc)
  have "e * (c mod q) + j < e * (c mod q) + e" using assms(4) by simp
  also have "\<dots> = e * (c mod q + 1)" by simp
  also have "\<dots> \<le> e * q" using assms(3) by (intro mult_le_mono2) (simp add: Suc_leI)
  finally have lt: "e * (c mod q) + j < ss" unfolding assms(1) .
  show "(e * c + j) div ss = c div q" unfolding eq using lt by simp
  show "(e * c + j) mod ss = e * c mod ss + j" unfolding eq m using lt by simp
  show "e * c mod ss + j < ss" unfolding m by (rule lt)
qed

lemma sector_size_facts:
  assumes "n \<in> sector_sizes"
  shows "512 \<le> n" "n \<le> 4096" "n dvd 2 ^ 32" "even n" "4 dvd n"
  using assms by (auto simp: sector_sizes_def)

text \<open>Sector and window position of byte \<open>j\<close> of an entry of 2 or 4 bytes. The product \<open>clst * e\<close> may
  wrap: the sector size divides \<open>2 ^ 32\<close>.\<close>

lemma entry_pos:
  fixes e clst :: u32
  assumes e: "e = 2 \<or> e = 4" and g: "geometry_ok nsec fs" and n: "nsec < 2 ^ 64"
    and j: "j < unat e" and fit: "unat e * unat clst + unat e \<le> unat (fsize fs) * unat (ssize fs)"
  shows "unat (fatbase fs + ucast (clst div (ucast (ssize fs) div e)))
      = unat (fatbase fs) + (unat e * unat clst + j) div unat (ssize fs)"
    "unat (clst * e mod ucast (ssize fs)) + j = (unat e * unat clst + j) mod unat (ssize fs)"
    "(unat e * unat clst + j) < unat (fsize fs) * unat (ssize fs)"
proof -
  let ?e = "unat e" and ?c = "unat clst" and ?s = "unat (ssize fs)"
  have ssz: "?s \<in> sector_sizes" using g by (simp add: geometry_ok_def)
  note sz = sector_size_facts [OF this]
  define q where "q = ?s div ?e"
  have e': "?e = 2 \<or> ?e = 4" using e by auto
  have sq: "?s = ?e * q" "0 < ?e" "0 < q" using e' sz by (auto simp: q_def)
  have dv: "unat (clst div (ucast (ssize fs) div e)) = ?c div q" by (simp add: unat_div_distrib q_def)
  note addr = entry_address [OF sq(1,2,3) j, of ?c]
  show lt: "?e * ?c + j < unat (fsize fs) * ?s" using fit j by linarith
  then have "(?e * ?c + j) div ?s < unat (fsize fs)" by (rule less_mult_imp_div_less)
  moreover have "unat (fatbase fs) + unat (fsize fs) \<le> nsec"
    using g by (auto simp: geometry_ok_def split: if_splits)
  ultimately show "unat (fatbase fs + ucast (clst div (ucast (ssize fs) div e)))
      = unat (fatbase fs) + (?e * ?c + j) div ?s"
    unfolding addr(1) using n dv by (subst unat_add_lt) simp_all
  have "unat (clst * e mod ucast (ssize fs)) = ?c * ?e mod 2 ^ 32 mod ?s"
    by (simp add: unat_mod_distrib unat_word_ariths)
  also have "\<dots> = ?e * ?c mod ?s" using sz(3) by (simp only: mod_mod_cancel mult.commute)
  finally show "unat (clst * e mod ucast (ssize fs)) + j = (?e * ?c + j) mod ?s" using addr(2) by simp
qed

text \<open>The same for the bytes of FAT12.\<close>

lemma byte_pos:
  fixes bc :: u32
  assumes g: "geometry_ok nsec fs" and n: "nsec < 2 ^ 64" and fit: "unat bc < unat (fsize fs) * unat (ssize fs)"
  shows "unat (fatbase fs + ucast (bc div ucast (ssize fs))) = unat (fatbase fs) + unat bc div unat (ssize fs)"
    "unat (bc mod ucast (ssize fs)) = unat bc mod unat (ssize fs)"
proof -
  have dv: "unat (bc div ucast (ssize fs)) = unat bc div unat (ssize fs)" by (simp add: unat_div_distrib)
  have "unat bc div unat (ssize fs) < unat (fsize fs)" using fit by (rule less_mult_imp_div_less)
  moreover have "unat (fatbase fs) + unat (fsize fs) \<le> nsec"
    using g by (auto simp: geometry_ok_def split: if_splits)
  ultimately show "unat (fatbase fs + ucast (bc div ucast (ssize fs))) = unat (fatbase fs) + unat bc div unat (ssize fs)"
    using n dv by (subst unat_add_lt) simp_all
qed (simp add: unat_mod_distrib)

text \<open>The test \<open>winsect - fatbase < fsize\<close> of \<open>sync_window\<close> on unsigned numbers.\<close>

lemma fat_sector_range:
  assumes "x - base < (ucast (n :: u32) :: u64)" "unat base + unat n < 2 ^ 64"
  shows "unat base \<le> unat x \<and> unat x < unat base + unat n"
proof -
  have lt: "unat (x - base) < unat n" using assms(1) by (simp add: word_less_nat_alt)
  have "unat ((x - base) + base) = unat (x - base) + unat base"
    using lt assms(2) by (subst unat_add_lt) simp_all
  then show ?thesis using lt by simp
qed

section \<open>A volume on a block store\<close>

text \<open>The disk as FatFs sees it through a window with pending changes, and the invariant of the
  window on a device with the invariant \<open>ok\<close>, the contents \<open>dsk\<close> and \<open>nsec\<close> sectors of \<open>ssz\<close> bytes.\<close>

definition window_view :: "('s \<Rightarrow> nat \<Rightarrow> bytes) \<Rightarrow> nat \<Rightarrow> fatfs \<Rightarrow> 's \<Rightarrow> nat \<Rightarrow> bytes" where
  "window_view dsk ssz fs s =
     (if wflag fs then (dsk s)(unat (winsect fs) := take ssz (win fs)) else dsk s)"

definition window_ok :: "('s \<Rightarrow> bool) \<Rightarrow> ('s \<Rightarrow> nat \<Rightarrow> bytes) \<Rightarrow> nat \<Rightarrow> nat \<Rightarrow> bdref option list \<Rightarrow> bdref \<Rightarrow>
    fatfs \<Rightarrow> 's \<Rightarrow> bool" where
  "window_ok ok dsk ssz nsec mounted b fs s \<longleftrightarrow>
     ok s \<and> mounted_dev mounted (pdrv fs) = Some b \<and> unat (ssize fs) = ssz \<and> geometry_ok nsec fs
     \<and> (if wflag fs then unat (winsect fs) < nsec
        else winsect fs = - 1 \<or> (unat (winsect fs) < nsec \<and> take ssz (win fs) = dsk s (unat (winsect fs))))"

text \<open>The device FatFs works on: it meets the block-device contract, returns C integers and has a
  sector size FatFs supports.\<close>

locale fat_device = block_store ops inv disk ssz nsec
  for ops :: "'s bd_ops" and inv disk ssz nsec +
  fixes env :: "'s disk_env" and mounted :: "bdref option list" and b :: bdref
  assumes dev_ops: "de_ops env b = ops"
    and int_read: "inv s \<Longrightarrow> bd_read ops s a c = (r, d, s') \<Longrightarrow> - (2 ^ 31) \<le> r \<and> r < 2 ^ 31"
    and int_write: "inv s \<Longrightarrow> bd_write ops s a d c = (r, s') \<Longrightarrow> - (2 ^ 31) \<le> r \<and> r < 2 ^ 31"
    and nsec_bound: "nsec < 2 ^ 64 - 1"
begin

abbreviation view :: "fatfs \<Rightarrow> 's \<Rightarrow> nat \<Rightarrow> bytes" where
  "view \<equiv> window_view disk ssz"

abbreviation coherent :: "fatfs \<Rightarrow> 's \<Rightarrow> bool" where
  "coherent \<equiv> window_ok inv disk ssz nsec mounted b"

text \<open>An access keeps the volume, the invariant and the first FAT.\<close>

definition keeps :: "fatfs \<Rightarrow> 's \<Rightarrow> fatfs \<Rightarrow> 's \<Rightarrow> bool" where
  "keeps fs s fs' s' \<longleftrightarrow> coherent fs' s' \<and> same_volume fs fs' \<and> fat_same fs (view fs s) (view fs' s')"

lemma keeps_refl: "coherent fs s \<Longrightarrow> keeps fs s fs s"
  by (simp add: keeps_def)

lemma keeps_trans: "keeps fs s fs1 s1 \<Longrightarrow> keeps fs1 s1 fs2 s2 \<Longrightarrow> keeps fs s fs2 s2"
  unfolding keeps_def by (metis fat_same_trans same_volume_trans same_volume_fat(4))

lemma coherentD:
  assumes "coherent fs s"
  shows "inv s" "mounted_dev mounted (pdrv fs) = Some b" "unat (ssize fs) = ssz" "geometry_ok nsec fs"
    "ssz \<le> length (win fs)" "wflag fs \<Longrightarrow> unat (winsect fs) < nsec"
  using assms by (auto simp: window_ok_def geometry_ok_def)

lemma coherent_ssz: "coherent fs s \<Longrightarrow> unat (ssize fs) = ssz \<and> 512 \<le> ssz"
  using sector_size_facts(1) [of "unat (ssize fs)"] by (auto simp: window_ok_def geometry_ok_def)

lemma window_write:
  assumes "coherent fs s" "unat sect < nsec"
    and "disk_write env mounted (pdrv fs) (take (unat (ssize fs)) (win fs)) sect 1 s = (r, s')"
  shows "inv s'" "\<And>k. k \<noteq> unat sect \<Longrightarrow> disk s' k = disk s k"
    "r = RES_OK \<Longrightarrow> disk s' = (disk s)(unat sect := take ssz (win fs))"
proof -
  note c = coherentD [OF assms(1)]
  have ok: "inv s' \<and> (\<forall>k. k < unat sect \<or> unat sect + unat (1 :: u32) \<le> k \<longrightarrow> disk s' k = disk s k)
      \<and> (r = RES_OK \<longrightarrow> disk s' = upd_sectors (disk s) (unat sect) (unat (1 :: u32)) ssz (take (unat (ssize fs)) (win fs)))
      \<and> r \<in> {RES_OK, RES_ERROR}"
    using assms(2) c by (intro disk_write_ok [OF c(2) dev_ops c(1) _ _ _ int_write [OF c(1)] assms(3)]) auto
  then show "inv s'" by simp
  show "disk s' k = disk s k" if "k \<noteq> unat sect" for k
  proof -
    have "k < unat sect \<or> unat sect + unat (1 :: u32) \<le> k" using that by simp linarith
    then show ?thesis using ok by blast
  qed
  have "upd_sectors f a (Suc 0) ssz (take ssz w) = f(a := take ssz w)" for f :: "nat \<Rightarrow> bytes" and a w
    by (rule ext) (auto simp: upd_sectors_def)
  then show "r = RES_OK \<Longrightarrow> disk s' = (disk s)(unat sect := take ssz (win fs))" using ok c(3) by simp
qed

lemma geometry_cong: "same_volume fs fs' \<Longrightarrow> unat (ssize fs) \<le> length (win fs') \<Longrightarrow> geometry_ok nsec fs \<Longrightarrow> geometry_ok nsec fs'"
  using same_volume_fields [of fs fs'] same_volume_fat [of fs fs'] by (simp add: geometry_ok_def)

lemma sync_window_keeps:
  assumes co: "coherent fs s" and run: "sync_window env mounted fs s = (res, fs', s')"
  shows "keeps fs s fs' s' \<and> win fs' = win fs \<and> winsect fs' = winsect fs \<and> (res = FR_OK \<longrightarrow> \<not> wflag fs')"
proof (cases "wflag fs")
  case True
  note c = coherentD [OF co]
  obtain r s1 where w1: "disk_write env mounted (pdrv fs) (take (unat (ssize fs)) (win fs)) (winsect fs) 1 s = (r, s1)"
    by (cases rule: prod.exhaust)
  note W = window_write [OF co c(6) [OF True] w1]
  show ?thesis
  proof (cases "r = RES_OK")
    case False
    have "view fs s1 = view fs s" using True W(2) by (auto simp: window_view_def)
    then show ?thesis using run True w1 False co W(1) by (auto simp: sync_window_def keeps_def window_ok_def)
  next
    case ok: True
    let ?mir = "winsect fs - fatbase fs < ucast (fsize fs) \<and> n_fats fs = 2"
    let ?fs1 = "fs\<lparr>wflag := False\<rparr>"
    have sv: "same_volume fs ?fs1" unfolding same_volume_def
      by (intro exI [of _ "win fs"] exI [of _ "winsect fs"] exI [of _ False]) simp
    have g1: "geometry_ok nsec ?fs1" using geometry_cong [OF sv] c by simp
    have co1: "coherent ?fs1 s1" using co W(1) W(3) [OF ok] True g1 by (simp add: window_ok_def)
    have v1: "view ?fs1 s1 = view fs s" using W(3) [OF ok] True by (simp add: window_view_def)
    show ?thesis
    proof (cases ?mir)
      case False
      then have "(res, fs', s') = (FR_OK, ?fs1, s1)" using run True w1 ok by (auto simp: sync_window_def)
      then show ?thesis using co1 v1 sv by (simp add: keeps_def)
    next
      case mir: True
      let ?m = "winsect fs + ucast (fsize fs)"
      obtain r2 s2 where w: "disk_write env mounted (pdrv fs) (take (unat (ssize fs)) (win fs)) ?m 1 s1 = (r2, s2)"
        by (cases rule: prod.exhaust)
      then have w2: "disk_write env mounted (pdrv ?fs1) (take (unat (ssize ?fs1)) (win ?fs1)) ?m 1 s1 = (r2, s2)" by simp
      have area: "unat (fatbase fs) + 2 * unat (fsize fs) \<le> nsec" using c(4) mir by (simp add: geometry_ok_def)
      have infat: "unat (fatbase fs) \<le> unat (winsect fs) \<and> unat (winsect fs) < unat (fatbase fs) + unat (fsize fs)"
        using fat_sector_range [of "winsect fs" "fatbase fs" "fsize fs"] mir area c(6) [OF True] nsec_bound by simp
      have um: "unat ?m = unat (winsect fs) + unat (fsize fs)"
        using infat area nsec_bound by (subst unat_add_lt) simp_all
      have mn: "unat ?m < nsec" using um infat area by simp
      note W2 = window_write [OF co1 mn w2]
      have eq: "(res, fs', s') = (FR_OK, ?fs1, s2)" using run True w1 w ok mir by (simp add: sync_window_def)
      have "disk s2 (unat (winsect fs)) = disk s1 (unat (winsect fs))" using W2(2) um infat by simp
      then have "coherent ?fs1 s2" using co1 W2(1) by (auto simp: window_ok_def)
      moreover have "fat_same fs (view fs s) (view ?fs1 s2)"
        unfolding v1 [symmetric] using W2(2) um infat by (simp add: fat_same_def window_view_def)
      ultimately show ?thesis using eq sv by (simp add: keeps_def)
    qed
  qed
qed (use co run in \<open>auto simp: sync_window_def keeps_refl\<close>)

text \<open>The window holds the sector \<open>sect\<close> of the disk FatFs sees.\<close>

definition window_at :: "fatfs \<Rightarrow> 's \<Rightarrow> nat \<Rightarrow> bool" where
  "window_at fs s sect \<longleftrightarrow> coherent fs s \<and> unat (winsect fs) = sect \<and> sect < nsec \<and> take ssz (win fs) = view fs s sect"

lemma move_window_keeps:
  assumes co: "coherent fs s" and sect: "unat sect < nsec" and run: "move_window env mounted fs sect s = (res, fs', s')"
  shows "keeps fs s fs' s' \<and> (res = FR_OK \<longrightarrow> window_at fs' s' (unat sect))"
proof (cases "sect = winsect fs")
  case True
  moreover have "winsect fs \<noteq> - 1"
  proof
    assume "winsect fs = - 1"
    then show False using True sect nsec_bound unat_max_u64 by simp
  qed
  ultimately show ?thesis using assms
    by (auto simp: move_window_def keeps_refl window_at_def) (auto simp: window_ok_def window_view_def)
next
  case False
  obtain r0 fs1 s1 where sy: "sync_window env mounted fs s = (r0, fs1, s1)" by (cases rule: prod_cases3)
  note S = sync_window_keeps [OF co sy]
  show ?thesis
  proof (cases "r0 = FR_OK")
    case True
    obtain r d s2 where rd: "disk_read env mounted (pdrv fs1) sect 1 s1 = (r, d, s2)" by (cases rule: prod_cases3)
    have co1: "coherent fs1 s1" and nw: "\<not> wflag fs1" using S True by (simp_all add: keeps_def)
    note c = coherentD [OF co1]
    have ok: "inv s2 \<and> disk s2 = disk s1 \<and> length d \<le> ssz \<and> (r = RES_OK \<longrightarrow> d = disk s1 (unat sect))"
      using disk_read_ok [OF c(2) dev_ops c(1) _ _ int_read [OF c(1)] rd] sect by auto
    let ?x = "if r = RES_OK then sect else - 1"
    have res: "res = (if r = RES_OK then FR_OK else FR_DISK_ERR)" "s' = s2"
      "fs' = fs1\<lparr>win := overlay (win fs1) d, winsect := ?x\<rparr>"
      using run False sy rd True by (auto simp: move_window_def Let_def split: if_splits)
    have sv: "same_volume fs1 fs'" unfolding res same_volume_def
      by (intro exI [of _ "overlay (win fs1) d"] exI [of _ ?x] exI [of _ "wflag fs1"]) simp
    have g: "geometry_ok nsec fs'" using ok c by (intro geometry_cong [OF sv _ c(4)]) (simp add: res)
    have tk: "r = RES_OK \<Longrightarrow> take ssz (overlay (win fs1) d) = disk s1 (unat sect)"
      using ok disk_len [OF c(1), of "unat sect"] by simp
    have co': "coherent fs' s'" using c ok tk sect nw g res by (simp add: window_ok_def)
    have "view fs' s' = view fs1 s1" using nw ok by (simp add: window_view_def res)
    then have "keeps fs1 s1 fs' s'" using co' sv by (simp add: keeps_def)
    moreover have "res = FR_OK \<Longrightarrow> window_at fs' s' (unat sect)"
      using co' tk sect nw ok by (auto simp: window_at_def window_view_def res split: if_splits)
    ultimately show ?thesis using S keeps_trans by blast
  qed (use run False sy S in \<open>auto simp: move_window_def\<close>)
qed

lemma with_window_keeps:
  assumes "coherent fs s" "unat sect < nsec" "with_window env mounted fs sect s err k = (v, fs', s')"
  obtains fs1 s1 where "keeps fs s fs1 s1"
      "v = err \<and> fs' = fs1 \<and> s' = s1 \<or> window_at fs1 s1 (unat sect) \<and> k fs1 s1 = (v, fs', s')"
proof -
  obtain res fs1 s1 where mw: "move_window env mounted fs sect s = (res, fs1, s1)" by (cases rule: prod_cases3)
  then show ?thesis using move_window_keeps [OF assms(1,2) mw] assms(3) that [of fs1 s1]
    by (auto simp: with_window_def split: if_splits)
qed

text \<open>Reading and changing a byte of the first FAT through the window.\<close>

lemma window_peek:
  assumes "window_at fs s (unat (fatbase fs) + k div unat (ssize fs))"
  shows "unat (win fs ! (k mod unat (ssize fs))) = fat_byte fs (view fs s) k"
proof -
  have co: "coherent fs s" using assms by (simp add: window_at_def)
  have "unat (ssize fs) = ssz" "0 < ssz" using coherent_ssz [OF co] by simp_all
  moreover have "win fs ! (k mod ssz) = take ssz (win fs) ! (k mod ssz)" using calculation(2) by simp
  moreover have "take ssz (win fs) = view fs s (unat (fatbase fs) + k div unat (ssize fs))"
    using assms by (simp add: window_at_def)
  ultimately show ?thesis unfolding fat_byte_def by metis
qed

definition poke :: "fatfs \<Rightarrow> nat \<Rightarrow> u8 \<Rightarrow> fatfs" where
  "poke fs k v = fs\<lparr>win := (win fs)[k := v], wflag := True\<rparr>"

lemma window_poke:
  assumes at: "window_at fs s (unat (fatbase fs) + p div unat (ssize fs))" and k: "k = p mod unat (ssize fs)"
  shows "window_at (poke fs k v) s (unat (fatbase fs) + p div unat (ssize fs))"
    "same_volume fs (poke fs k v)"
    "fat_byte fs (view (poke fs k v) s) x = (if x = p then unat v else fat_byte fs (view fs s) x)"
proof -
  let ?sect = "unat (fatbase fs) + p div unat (ssize fs)"
  have co: "coherent fs s" and at': "unat (winsect fs) = ?sect" "?sect < nsec" "take ssz (win fs) = view fs s ?sect"
    using at by (simp_all add: window_at_def)
  note c = coherentD [OF co]
  have kl: "k < ssz" using coherent_ssz [OF co] k by simp
  show sv: "same_volume fs (poke fs k v)" unfolding same_volume_def poke_def
    by (intro exI [of _ "(win fs)[k := v]"] exI [of _ "winsect fs"] exI [of _ True]) simp
  have vw: "view (poke fs k v) s = (view fs s)(?sect := (take ssz (win fs))[k := v])"
    using at'(1) by (auto simp: window_view_def poke_def take_update_swap)
  have "geometry_ok nsec (poke fs k v)" using c by (intro geometry_cong [OF sv _ c(4)]) (simp add: poke_def)
  then have "coherent (poke fs k v) s" using c at' by (simp add: window_ok_def poke_def)
  then show "window_at (poke fs k v) s ?sect" unfolding window_at_def vw using at' by (simp add: poke_def take_update_swap)
  show "fat_byte fs (view (poke fs k v) s) x = (if x = p then unat v else fat_byte fs (view fs s) x)"
  proof (cases "x div ssz = p div ssz")
    case False
    then show ?thesis unfolding vw by (auto simp: fat_byte_def c(3))
  next
    case True
    have "x = p \<longleftrightarrow> x mod ssz = k" using True k c(3) by (metis div_mult_mod_eq)
    moreover have "k < length (take ssz (win fs))" using kl c(5) by simp
    ultimately show ?thesis unfolding vw fat_byte_def using True k c(3) at'(3) by (auto simp: nth_list_update)
  qed
qed

lemma nsec64: "nsec < 2 ^ 64"
  using nsec_bound by simp

lemma fat_sect_lt:
  assumes "coherent fs s" "p < unat (fsize fs) * unat (ssize fs)"
  shows "unat (fatbase fs) + p div unat (ssize fs) < nsec"
proof -
  have "p div unat (ssize fs) < unat (fsize fs)" using assms(2) by (rule less_mult_imp_div_less)
  then show ?thesis using coherentD(4) [OF assms(1)] by (auto simp: geometry_ok_def split: if_splits)
qed

lemma peek_through:
  assumes kp: "keeps fs s fs1 s1" and at: "window_at fs1 s1 (unat (fatbase fs) + p div unat (ssize fs))"
    and fit: "p < unat (fsize fs) * unat (ssize fs)"
  shows "unat (win fs1 ! (p mod unat (ssize fs))) = fat_byte fs (view fs s) p"
proof -
  have sv: "same_volume fs fs1" and sm: "fat_same fs (view fs s) (view fs1 s1)" using kp by (simp_all add: keeps_def)
  note eq = same_volume_fields [OF sv] same_volume_fat [OF sv]
  have "unat (win fs1 ! (p mod unat (ssize fs1))) = fat_byte fs1 (view fs1 s1) p"
    using at eq by (intro window_peek) simp
  then show ?thesis using eq fat_same_byte [OF sm fit] by simp
qed

lemma entry_peek:
  fixes e clst :: u32
  assumes co: "coherent fs s" and e: "e = 2 \<or> e = 4"
    and fit: "unat e * unat clst + unat e \<le> unat (fsize fs) * unat (ssize fs)"
  defines "sect \<equiv> fatbase fs + ucast (clst div (ucast (ssize fs) div e))"
    and "k \<equiv> unat (clst * e mod ucast (ssize fs))"
  shows "unat sect < nsec"
    "keeps fs s fs1 s1 \<Longrightarrow> window_at fs1 s1 (unat sect) \<Longrightarrow> j < unat e \<Longrightarrow>
       unat (win fs1 ! (k + j)) = fat_byte fs (view fs s) (unat e * unat clst + j)"
proof -
  note E = entry_pos [OF e coherentD(4) [OF co] nsec64 _ fit]
  have "0 < unat e" using e by auto
  then show "unat sect < nsec" unfolding sect_def E(1) [OF \<open>0 < unat e\<close>]
    by (intro fat_sect_lt [OF co] E(3))
  assume kp: "keeps fs s fs1 s1" and at: "window_at fs1 s1 (unat sect)" and j: "j < unat e"
  then show "unat (win fs1 ! (k + j)) = fat_byte fs (view fs s) (unat e * unat clst + j)"
    unfolding k_def E(2) [OF j] by (intro peek_through [OF kp _ E(3) [OF j]]) (simp only: sect_def E(1) [OF j])
qed

lemma unat_or_8: "unat (ucast (x :: u8) OR push_bit 8 (ucast (y :: u8)) :: u32) = unat x + 256 * unat y"
proof -
  have "unat (ucast y :: u32) = unat y" by (rule unat_ucast_up) simp
  then show ?thesis using unat_shift8 [of "ucast y :: u32" x] unat_lt_u8 [of y] by (simp add: or.commute)
qed

lemma odd_cluster: "bit (clst :: u32) 0 \<longleftrightarrow> odd (unat clst)"
proof -
  have "bit (unat clst) 0 = bit clst 0" by (simp only: bit_unsigned_iff) simp
  then show ?thesis by (simp add: bit_0)
qed

text \<open>The byte numbers of a FAT12 entry.\<close>

lemma fat12_bytes:
  fixes clst :: u32
  assumes "fs_type fs = FS_FAT12" "coherent fs s" "clst < n_fatent fs"
  shows "unat (clst + clst div 2) = unat clst + unat clst div 2" "unat (clst + clst div 2 + 1) = unat clst + unat clst div 2 + 1"
    "unat clst + unat clst div 2 + 1 < unat (fsize fs) * unat (ssize fs)"
proof -
  have "n_fatent fs \<le> 0x7fffffff" using coherentD(4) [OF assms(2)] by (simp add: geometry_ok_def)
  then have "clst < 0x7fffffff" using assms(3) by (rule less_le_trans [rotated])
  then have c: "unat clst < 0x7fffffff" by (simp add: word_less_nat_alt)
  show u: "unat (clst + clst div 2) = unat clst + unat clst div 2"
    using c by (subst unat_add_lt) (simp_all add: unat_div_distrib)
  show "unat (clst + clst div 2 + 1) = unat clst + unat clst div 2 + 1"
    using c u by (subst unat_add_lt) simp_all
  have "unat clst < unat (n_fatent fs)" using assms(3) by (simp add: word_less_nat_alt)
  then have "fat_end fs (unat clst) \<le> unat (fsize fs) * unat (ssize fs)"
    using coherentD(4) [OF assms(2)] by (simp add: geometry_ok_def)
  then show "unat clst + unat clst div 2 + 1 < unat (fsize fs) * unat (ssize fs)" using assms(1) by (simp add: fat_end_def)
qed

lemma get_fat12_ok:
  assumes co: "coherent fs s" and ty: "fs_type fs = FS_FAT12" and c: "clst < n_fatent fs"
    and run: "get_fat12 env mounted fs clst s = (v, fs', s')"
  shows "keeps fs s fs' s' \<and> (v = 0xffffffff \<or> unat v = fat_value fs (view fs s) (unat clst))"
proof -
  define bc where "bc = clst + clst div 2"
  let ?c = "unat clst" and ?ss = "ucast (ssize fs) :: u32"
  note U = fat12_bytes [OF ty co c, folded bc_def]
  have f0: "unat bc < unat (fsize fs) * unat (ssize fs)" and f1: "unat (bc + 1) < unat (fsize fs) * unat (ssize fs)"
    using U by simp_all
  note P0 = byte_pos [OF coherentD(4) [OF co] nsec64 f0] and P1 = byte_pos [OF coherentD(4) [OF co] nsec64 f1]
  have l0: "unat (fatbase fs + ucast (bc div ?ss)) < nsec" unfolding P0(1) by (rule fat_sect_lt [OF co f0])
  have l1: "unat (fatbase fs + ucast ((bc + 1) div ?ss)) < nsec" unfolding P1(1) by (rule fat_sect_lt [OF co f1])
  let ?k2 = "\<lambda>fs1 fs2 s2. let wc = (ucast (win fs1 ! unat (bc mod ?ss)) :: u32)
        OR push_bit 8 (ucast (win fs2 ! unat ((bc + 1) mod ?ss)))
      in (if bit clst 0 then drop_bit 4 wc else wc AND 0xfff, fs2, s2)"
  let ?k1 = "\<lambda>fs1 s1. with_window env mounted fs1 (fatbase fs1 + ucast ((bc + 1) div ?ss)) s1 0xffffffff (?k2 fs1)"
  have "with_window env mounted fs (fatbase fs + ucast (bc div ?ss)) s 0xffffffff ?k1 = (v, fs', s')"
    using run by (simp add: get_fat12_def bc_def Let_def)
  from with_window_keeps [OF co l0 this]
  obtain fs1 s1 where 1: "keeps fs s fs1 s1" "v = 0xffffffff \<and> fs' = fs1 \<and> s' = s1 \<or>
      window_at fs1 s1 (unat (fatbase fs + ucast (bc div ?ss))) \<and> ?k1 fs1 s1 = (v, fs', s')" by blast
  have fb: "fatbase fs1 = fatbase fs" and co1: "coherent fs1 s1"
    using 1(1) same_volume_fields by (auto simp: keeps_def)
  show ?thesis
  proof (cases "v = 0xffffffff \<and> fs' = fs1 \<and> s' = s1")
    case False
    then have at1: "window_at fs1 s1 (unat (fatbase fs + ucast (bc div ?ss)))"
      and run1: "with_window env mounted fs1 (fatbase fs + ucast ((bc + 1) div ?ss)) s1 0xffffffff (?k2 fs1) = (v, fs', s')"
      using 1(2) fb by auto
    from with_window_keeps [OF co1 l1 run1]
    obtain fs2 s2 where 2: "keeps fs1 s1 fs2 s2" "v = 0xffffffff \<and> fs' = fs2 \<and> s' = s2 \<or>
        window_at fs2 s2 (unat (fatbase fs + ucast ((bc + 1) div ?ss))) \<and> ?k2 fs1 fs2 s2 = (v, fs', s')" by blast
    have kp: "keeps fs s fs2 s2" using keeps_trans [OF 1(1) 2(1)] .
    show ?thesis
    proof (cases "v = 0xffffffff \<and> fs' = fs2 \<and> s' = s2")
      case False
      then have at2: "window_at fs2 s2 (unat (fatbase fs + ucast ((bc + 1) div ?ss)))"
        and run2: "?k2 fs1 fs2 s2 = (v, fs', s')" using 2(2) by blast+
      have b0: "unat (win fs1 ! unat (bc mod ?ss)) = fat_byte fs (view fs s) (?c + ?c div 2)"
        using peek_through [OF 1(1) at1 [unfolded P0(1)] f0] P0(2) U(1) by simp
      have b1: "unat (win fs2 ! unat ((bc + 1) mod ?ss)) = fat_byte fs (view fs s) (?c + ?c div 2 + 1)"
        using peek_through [OF kp at2 [unfolded P1(1)] f1] P1(2) U(2) by simp
      define wc :: u32 where "wc = ucast (win fs1 ! unat (bc mod ?ss)) OR push_bit 8 (ucast (win fs2 ! unat ((bc + 1) mod ?ss)))"
      have wc: "unat wc = fat_byte fs (view fs s) (?c + ?c div 2) + 256 * fat_byte fs (view fs s) (?c + ?c div 2 + 1)"
        unfolding wc_def unat_or_8 b0 b1 ..
      have "v = (if bit clst 0 then drop_bit 4 wc else wc AND 0xfff)"
        using run2 unfolding wc_def [symmetric] Let_def by simp
      then have "unat v = fat_value fs (view fs s) ?c"
        using wc ty odd_cluster [of clst] by (simp add: Let_def fat_value_def unat_drop_bit unat_and_12)
      then show ?thesis using run2 kp by (auto simp: Let_def)
    qed (use kp in auto)
  qed (use 1 in auto)
qed

text \<open>Entries of 2 and 4 bytes.\<close>

lemma fat_entry_fits:
  assumes "coherent fs s" "clst < n_fatent fs"
  shows "fat_end fs (unat clst) \<le> unat (fsize fs) * unat (ssize fs)"
  using coherentD(4) [OF assms(1)] assms(2) by (simp add: geometry_ok_def word_less_nat_alt)

lemma get_word_ok:
  assumes co: "coherent fs s" and ty: "fs_type fs = FS_FAT16" and c: "clst < n_fatent fs"
    and run: "with_window env mounted fs (fatbase fs + ucast (clst div (ucast (ssize fs) div 2))) s 0xffffffff
       (\<lambda>fs1 s1. (ucast (ld_word (win fs1) (unat (clst * 2 mod ucast (ssize fs)))), fs1, s1)) = (v :: u32, fs', s')"
  shows "keeps fs s fs' s' \<and> (v = 0xffffffff \<or> unat v = fat_value fs (view fs s) (unat clst))"
proof -
  have fit: "unat (2 :: u32) * unat clst + unat (2 :: u32) \<le> unat (fsize fs) * unat (ssize fs)"
    using fat_entry_fits [OF co c] ty by (simp add: fat_end_def)
  note E = entry_peek [where e = 2, OF co _ fit]
  from with_window_keeps [OF co E(1) run] obtain fs1 s1 where kp: "keeps fs s fs1 s1"
    and or: "v = 0xffffffff \<and> fs' = fs1 \<and> s' = s1 \<or>
      window_at fs1 s1 (unat (fatbase fs + ucast (clst div (ucast (ssize fs) div 2)))) \<and>
      (ucast (ld_word (win fs1) (unat (clst * 2 mod ucast (ssize fs)))), fs1, s1) = (v, fs', s')" by auto
  then show ?thesis using E(2) [OF _ kp, of 0] E(2) [OF _ kp, of 1] ty
    by (auto simp: unat_ld_word fat_value_def)
qed

lemma get_dword_ok:
  assumes co: "coherent fs s" and ty: "fs_type fs \<in> {FS_FAT32, FS_EXFAT}" and c: "clst < n_fatent fs"
    and m: "m = mask (fat_bits fs)"
    and run: "with_window env mounted fs (fatbase fs + ucast (clst div (ucast (ssize fs) div 4))) s 0xffffffff
       (\<lambda>fs1 s1. (ld_dword (win fs1) (unat (clst * 4 mod ucast (ssize fs))) AND m, fs1, s1)) = (v, fs', s')"
  shows "keeps fs s fs' s' \<and> (v = 0xffffffff \<or> unat v = fat_value fs (view fs s) (unat clst))"
proof -
  have fit: "unat (4 :: u32) * unat clst + unat (4 :: u32) \<le> unat (fsize fs) * unat (ssize fs)"
    using fat_entry_fits [OF co c] ty by (auto simp: fat_end_def)
  note E = entry_peek [where e = 4, OF co _ fit]
  from with_window_keeps [OF co E(1) run] obtain fs1 s1 where kp: "keeps fs s fs1 s1"
    and or: "v = 0xffffffff \<and> fs' = fs1 \<and> s' = s1 \<or>
      window_at fs1 s1 (unat (fatbase fs + ucast (clst div (ucast (ssize fs) div 4)))) \<and>
      (ld_dword (win fs1) (unat (clst * 4 mod ucast (ssize fs))) AND m, fs1, s1) = (v, fs', s')" by auto
  then show ?thesis using E(2) [OF _ kp, of 0] E(2) [OF _ kp, of 1] E(2) [OF _ kp, of 2] E(2) [OF _ kp, of 3] ty
    by (auto simp: unat_ld_dword fat_value_def m unat_and_mask)
qed

lemma get_fat_ok:
  assumes co: "coherent fs s" and c: "2 \<le> clst" "clst < n_fatent fs" and ty: "fs_type fs \<noteq> FS_NONE"
    and chain: "fs_type fs = FS_EXFAT \<Longrightarrow> ob_stat obj = 0 \<and> ob_n_frag obj = 0"
    and run: "get_fat env mounted fs obj clst s = (v, fs', s')"
  shows "keeps fs s fs' s' \<and> (v = 0xffffffff \<or> unat v = fat_value fs (view fs s) (unat clst))"
proof -
  have nc: "\<not> (clst < 2 \<or> clst \<ge> n_fatent fs)" using c by auto
  note run' = run [unfolded get_fat_def Let_def if_not_P [OF nc]]
  show ?thesis
  proof (cases "fs_type fs")
    case FS_FAT12
    then show ?thesis using get_fat12_ok [OF co _ c(2)] run' by simp
  next
    case FS_FAT16
    then show ?thesis using get_word_ok [OF co _ c(2)] run' by simp
  next
    case FS_FAT32
    then show ?thesis using get_dword_ok [OF co _ c(2), of "0x0fffffff"] run'
      by (simp add: fat_bits_def mask_eq_exp_minus_1)
  next
    case FS_EXFAT
    then show ?thesis using get_dword_ok [OF co _ c(2), of "0x7fffffff"] run' chain
      by (simp add: fat_bits_def mask_eq_exp_minus_1)
  qed (use ty in simp)
qed

text \<open>A change of some bytes of the first FAT.\<close>

definition puts :: "fatfs \<Rightarrow> 's \<Rightarrow> (nat \<rightharpoonup> nat) \<Rightarrow> fatfs \<Rightarrow> 's \<Rightarrow> bool" where
  "puts fs s m fs' s' \<longleftrightarrow> coherent fs' s' \<and> same_volume fs fs' \<and>
     (\<forall>k < unat (fsize fs) * unat (ssize fs). fat_byte fs (view fs' s') k =
        (case m k of None \<Rightarrow> fat_byte fs (view fs s) k | Some v \<Rightarrow> v))"

lemma keeps_puts: "keeps fs s fs' s' \<Longrightarrow> puts fs s Map.empty fs' s'"
  using fat_same_byte by (auto simp: keeps_def puts_def)

lemma puts_trans: "puts fs s m fs1 s1 \<Longrightarrow> puts fs1 s1 n fs2 s2 \<Longrightarrow> puts fs s (m ++ n) fs2 s2"
  unfolding puts_def using same_volume_trans [of fs fs1 fs2] same_volume_fields [of fs fs1] same_volume_fat [of fs fs1]
  by (auto simp: map_add_def split: option.splits)

text \<open>Changing a byte through a window that holds its sector.\<close>

lemma poke_puts:
  assumes "puts fs s m fs1 s1" and at: "window_at fs1 s1 (unat (fatbase fs) + p div unat (ssize fs))"
    and "k = p mod unat (ssize fs)"
  shows "puts fs s (m(p \<mapsto> unat v)) (poke fs1 k v) s1"
    "window_at (poke fs1 k v) s1 (unat (fatbase fs) + p div unat (ssize fs))"
proof -
  have sv: "same_volume fs fs1" using assms(1) by (simp add: puts_def)
  note eq = same_volume_fields [OF sv] same_volume_fat [OF sv]
  have at1: "window_at fs1 s1 (unat (fatbase fs1) + p div unat (ssize fs1))" using at eq by simp
  have k1: "k = p mod unat (ssize fs1)" using assms(3) eq by simp
  note P = window_poke [OF at1 k1, of v]
  show "window_at (poke fs1 k v) s1 (unat (fatbase fs) + p div unat (ssize fs))" using P(1) eq by simp
  have "puts fs1 s1 [p \<mapsto> unat v] (poke fs1 k v) s1"
    using P by (simp add: puts_def window_at_def)
  from puts_trans [OF assms(1) this] show "puts fs s (m(p \<mapsto> unat v)) (poke fs1 k v) s1" by simp
qed

text \<open>The bytes of an entry of 2 or 4 bytes.\<close>

lemma entry_puts:
  fixes e clst :: u32
  assumes co: "coherent fs s" and e: "e = 2 \<or> e = 4"
    and fit: "unat e * unat clst + unat e \<le> unat (fsize fs) * unat (ssize fs)" and j: "j < unat e"
    and at: "window_at fs1 s1 (unat (fatbase fs + ucast (clst div (ucast (ssize fs) div e))))"
    and pu: "puts fs s m fs1 s1"
  shows "puts fs s (m(unat e * unat clst + j \<mapsto> unat v)) (poke fs1 (unat (clst * e mod ucast (ssize fs)) + j) v) s1"
    "window_at (poke fs1 (unat (clst * e mod ucast (ssize fs)) + j) v) s1
       (unat (fatbase fs + ucast (clst div (ucast (ssize fs) div e))))"
proof -
  note E = entry_pos [OF e coherentD(4) [OF co] nsec64 j fit]
  note P = poke_puts [OF pu at [unfolded E(1)] E(2), of v]
  show "puts fs s (m(unat e * unat clst + j \<mapsto> unat v)) (poke fs1 (unat (clst * e mod ucast (ssize fs)) + j) v) s1"
    by (rule P(1))
  show "window_at (poke fs1 (unat (clst * e mod ucast (ssize fs)) + j) v) s1
       (unat (fatbase fs + ucast (clst div (ucast (ssize fs) div e))))"
    unfolding E(1) by (rule P(2))
qed

lemma poke_st_word: "fs\<lparr>win := st_word (win fs) k v, wflag := True\<rparr> = poke (poke fs (k + 0) (ucast v)) (k + 1) (ucast (drop_bit 8 v))"
  by (simp add: poke_def st_word_def)

lemma poke_st_dword: "fs\<lparr>win := st_dword (win fs) k v, wflag := True\<rparr>
   = poke (poke (poke (poke fs (k + 0) (ucast v)) (k + 1) (ucast (drop_bit 8 v))) (k + 2) (ucast (drop_bit 16 v))) (k + 3) (ucast (drop_bit 24 v))"
  by (simp add: poke_def st_dword_def)

lemma put_word_ok:
  assumes co: "coherent fs s" and fit: "2 * unat (clst :: u32) + 2 \<le> unat (fsize fs) * unat (ssize fs)"
    and at: "window_at fs1 s1 (unat (fatbase fs + ucast (clst div (ucast (ssize fs) div 2))))" and kp: "keeps fs s fs1 s1"
  shows "puts fs s [2 * unat clst \<mapsto> unat (ucast v :: u8), 2 * unat clst + 1 \<mapsto> unat (ucast (drop_bit 8 v) :: u8)]
     (fs1\<lparr>win := st_word (win fs1) (unat (clst * 2 mod ucast (ssize fs))) v, wflag := True\<rparr>) s1"
proof -
  let ?k = "unat (clst * 2 mod ucast (ssize fs))"
  have f: "unat (2 :: u32) * unat clst + unat (2 :: u32) \<le> unat (fsize fs) * unat (ssize fs)" using fit by simp
  note P = entry_puts [where e = 2 and fs = fs and s = s and clst = clst, OF co _ f]
  have j: "0 < unat (2 :: u32)" "1 < unat (2 :: u32)" by simp_all
  note A = P [OF _ j(1) at keeps_puts [OF kp], of "ucast v"]
  note B = P [OF _ j(2) A(2) A(1), of "ucast (drop_bit 8 v)"]
  show ?thesis unfolding poke_st_word using B(1) by simp
qed

lemma put_dword_ok:
  assumes co: "coherent fs s" and fit: "4 * unat (clst :: u32) + 4 \<le> unat (fsize fs) * unat (ssize fs)"
    and at: "window_at fs1 s1 (unat (fatbase fs + ucast (clst div (ucast (ssize fs) div 4))))" and kp: "keeps fs s fs1 s1"
  shows "puts fs s [4 * unat clst \<mapsto> unat (ucast v :: u8), 4 * unat clst + 1 \<mapsto> unat (ucast (drop_bit 8 v) :: u8),
       4 * unat clst + 2 \<mapsto> unat (ucast (drop_bit 16 v) :: u8), 4 * unat clst + 3 \<mapsto> unat (ucast (drop_bit 24 v) :: u8)]
     (fs1\<lparr>win := st_dword (win fs1) (unat (clst * 4 mod ucast (ssize fs))) v, wflag := True\<rparr>) s1"
proof -
  let ?k = "unat (clst * 4 mod ucast (ssize fs))"
  have f: "unat (4 :: u32) * unat clst + unat (4 :: u32) \<le> unat (fsize fs) * unat (ssize fs)" using fit by simp
  note P = entry_puts [where e = 4 and fs = fs and s = s and clst = clst, OF co _ f]
  have j: "0 < unat (4 :: u32)" "1 < unat (4 :: u32)" "2 < unat (4 :: u32)" "3 < unat (4 :: u32)" by simp_all
  note A = P [OF _ j(1) at keeps_puts [OF kp], of "ucast v"]
  note B = P [OF _ j(2) A(2) A(1), of "ucast (drop_bit 8 v)"]
  note C = P [OF _ j(3) B(2) B(1), of "ucast (drop_bit 16 v)"]
  note D = P [OF _ j(4) C(2) C(1), of "ucast (drop_bit 24 v)"]
  show ?thesis unfolding poke_st_dword using D(1) by simp
qed

end

text \<open>The bytes stored and the number they encode.\<close>

declare unat_byte [simp]

lemma bytes_word: "x mod 256 + 256 * (x div 256 mod 256) = (x :: nat) mod 65536"
  using mod_mult2_eq [of x 256 256] by simp

lemma bytes_dword:
  "x mod 256 + 256 * (x div 256 mod 256) + 65536 * (x div 65536 mod 256) + 16777216 * (x div 16777216 mod 256)
     = (x :: nat) mod 4294967296"
  using mod_mult2_eq [of x 256 16777216] mod_mult2_eq [of "x div 256" 256 65536] mod_mult2_eq [of "x div 65536" 256 256]
  by (simp add: div_mult2_eq [symmetric])

lemma unat_merge_low: "unat (((val :: u32) AND 0x0fffffff) OR (old AND 0xf0000000)) mod 2 ^ 28 = unat val mod 2 ^ 28"
proof -
  have m: "(0x0fffffff :: u32) = mask 28" "(0xf0000000 :: u32) = NOT (mask 28)" by (simp_all add: mask_eq_exp_minus_1)
  have "((val AND mask 28) OR (old AND NOT (mask 28))) AND mask 28 = val AND mask 28"
    by (rule bit_eqI) (auto simp: bit_simps)
  then show ?thesis unfolding m by (metis unat_and_mask)
qed

lemma unat_high_nibble: "unat (push_bit 4 x :: u8) = 16 * (unat x mod 16)"
proof -
  have "unat (push_bit 4 x) = unat x * 16 mod (16 * 16)"
    by (simp add: push_bit_eq_mult unat_word_ariths)
  also have "\<dots> = 16 * (unat x mod 16)" by (simp only: mult_mod_right mult.commute)
  finally show ?thesis .
qed

lemma unat_nibbles: "unat ((x AND mask 4) OR push_bit 4 (y :: u8)) = unat x mod 16 + 16 * (unat y mod 16)"
proof -
  have "(x AND mask 4) OR push_bit 4 y = (x AND mask 4) + push_bit 4 y"
    by (rule disjunctive_add_eq_or [symmetric]) (auto simp: bit_eq_iff bit_simps)
  moreover have "unat (x AND mask 4) = unat x mod 16" using unat_and_mask [of x 4] by simp
  moreover have "unat x mod 16 < 16" "unat y mod 16 < 16" by simp_all
  ultimately show ?thesis by (simp only:) (subst unat_add_lt; simp add: unat_high_nibble)
qed

lemma fat12_nibbles:
  "unat (((p :: u8) AND 0x0f) OR push_bit 4 (ucast (val :: u32))) = unat p mod 16 + 16 * (unat val mod 16)"
  "unat (((p :: u8) AND 0xf0) OR (ucast (drop_bit 8 (val :: u32)) AND 0x0f)) = unat p div 16 * 16 + unat val div 256 mod 16"
proof -
  have m: "(0x0f :: u8) = mask 4" "(0xf0 :: u8) = NOT (mask 4)" by (simp_all add: mask_eq_exp_minus_1)
  have mm: "unat val mod 256 mod 16 = unat val mod 16" "unat (drop_bit 8 val) mod 256 mod 16 = unat val div 256 mod 16"
    by (simp_all add: mod_mod_cancel unat_drop_bit)
  show "unat (((p :: u8) AND 0x0f) OR push_bit 4 (ucast (val :: u32))) = unat p mod 16 + 16 * (unat val mod 16)"
    unfolding m unat_nibbles using mm(1) by simp
  have hi: "p AND NOT (mask 4) = push_bit 4 (drop_bit 4 p)" by (rule bit_eqI) (auto simp: bit_simps)
  have "unat p div 16 mod 16 = unat p div 16" using unat_lt_u8 [of p] by (intro mod_less) linarith
  then show "unat (((p :: u8) AND 0xf0) OR (ucast (drop_bit 8 (val :: u32)) AND 0x0f)) = unat p div 16 * 16 + unat val div 256 mod 16"
    unfolding m hi or.commute [of "push_bit 4 (drop_bit 4 p)"] unat_nibbles using mm(2) by (simp add: unat_drop_bit)
qed

lemma fat12_odd: "(x mod 16 + 16 * (v mod 16) + 256 * (v div 16 mod 256)) div 16 = (v :: nat) mod 4096"
proof -
  have "x mod 16 + 16 * (v mod 16) + 256 * (v div 16 mod 256) = x mod 16 + 16 * (v mod 16 + 16 * (v div 16 mod 256))" by simp
  also have "\<dots> div 16 = v mod 16 + 16 * (v div 16 mod 256)" by simp
  also have "\<dots> = v mod 4096" using mod_mult2_eq [of v 16 256] by simp
  finally show ?thesis .
qed

lemma share_low:
  assumes "y mod 16 = (z :: nat) mod 16"
  shows "(x + 256 * y) mod 4096 = (x + 256 * z) mod 4096"
proof -
  have "256 * y mod 4096 = 256 * z mod 4096" using assms mult_mod_right [of 256 y 16] mult_mod_right [of 256 z 16] by simp
  then show ?thesis by (rule mod_add_cong [OF refl])
qed

lemma share_high:
  assumes "y div 16 = (z :: nat) div 16"
  shows "(y + 256 * x) div 16 = (z + 256 * x) div 16"
proof -
  have "(w + 256 * x) div 16 = w div 16 + 16 * x" for w :: nat using div_mult_self2 [of 16 w "16 * x"] by simp
  then show ?thesis using assms by simp
qed

lemma keep_high: "(y div 16 * 16 + v mod 16) div 16 = (y :: nat) div 16"
  by simp

lemma value12:
  "fs_type fs = FS_FAT12 \<Longrightarrow> fat_value fs d x =
     (if odd x then (fat_byte fs d (x + x div 2) + 256 * fat_byte fs d (x + x div 2 + 1)) div 16
      else (fat_byte fs d (x + x div 2) + 256 * fat_byte fs d (x + x div 2 + 1)) mod 4096)"
  by (simp add: fat_value_def Let_def)

lemma fat12_even: "(v mod 256 + 256 * (y div 16 * 16 + v div 256 mod 16)) mod 4096 = (v :: nat) mod 4096"
proof -
  have e: "v mod 4096 = v mod 256 + 256 * (v div 256 mod 16)" using mod_mult2_eq [of v 256 16] by simp
  have "v mod 256 + 256 * (y div 16 * 16 + v div 256 mod 16) = v mod 4096 + 4096 * (y div 16)" unfolding e by simp
  then show ?thesis by (simp only: mod_mult_self2 mod_mod_trivial)
qed

context fat_device
begin

text \<open>What a completed or failed \<open>put_fat\<close> does to the table.\<close>

definition entry_put :: "fatfs \<Rightarrow> 's \<Rightarrow> u32 \<Rightarrow> u32 \<Rightarrow> fresult \<Rightarrow> fatfs \<Rightarrow> 's \<Rightarrow> bool" where
  "entry_put fs s clst val res fs' s' \<longleftrightarrow> coherent fs' s' \<and> same_volume fs fs'
     \<and> (res = FR_OK \<longrightarrow> fat_value fs (view fs' s') (unat clst) = unat val mod 2 ^ fat_bits fs)
     \<and> (\<forall>c < unat (n_fatent fs). c \<noteq> unat clst \<longrightarrow> fat_value fs (view fs' s') c = fat_value fs (view fs s) c)"

lemma keeps_value:
  assumes "coherent fs s" "keeps fs s fs' s'" "c < unat (n_fatent fs)"
  shows "fat_value fs (view fs' s') c = fat_value fs (view fs s) c"
  using assms coherentD(4) [OF assms(1)] by (intro fat_same_value) (simp_all add: keeps_def geometry_ok_def)

lemma put_failed: "coherent fs s \<Longrightarrow> keeps fs s fs' s' \<Longrightarrow> res \<noteq> FR_OK \<Longrightarrow> entry_put fs s clst val res fs' s'"
  by (simp add: entry_put_def keeps_value) (simp add: keeps_def)

lemma puts_byte:
  assumes "puts fs s m fs' s'" "k < unat (fsize fs) * unat (ssize fs)"
  shows "fat_byte fs (view fs' s') k = (case m k of None \<Rightarrow> fat_byte fs (view fs s) k | Some v \<Rightarrow> v)"
  using assms by (simp add: puts_def)

lemma put16_entry:
  assumes ty: "fs_type fs = FS_FAT16" and co: "coherent fs s" and c: "clst < n_fatent fs"
    and pu: "puts fs s [2 * unat clst \<mapsto> unat (ucast v :: u8), 2 * unat clst + 1 \<mapsto> unat (ucast (drop_bit 8 v) :: u8)] fs' s'"
    and v: "v = (ucast val :: u16)"
  shows "entry_put fs s clst val FR_OK fs' s'"
proof -
  have fits: "2 * x + 1 < unat (fsize fs) * unat (ssize fs)" if "x < unat (n_fatent fs)" for x
    using coherentD(4) [OF co] that ty by (fastforce simp: geometry_ok_def fat_end_def)
  have cl: "unat clst < unat (n_fatent fs)" using c by (simp add: word_less_nat_alt)
  note B = puts_byte [OF pu]
  have "fat_value fs (view fs' s') (unat clst) = unat v"
    using B [OF fits [OF cl]] B [of "2 * unat clst"] fits [OF cl] unat_lt_u16 [of v] bytes_word [of "unat v"]
    by (simp add: fat_value_def ty unat_drop_bit)
  moreover have "unat v = unat val mod 2 ^ 16" unfolding v by (simp add: unsigned_ucast_eq take_bit_eq_mod)
  moreover have "fat_value fs (view fs' s') x = fat_value fs (view fs s) x" if "x < unat (n_fatent fs)" "x \<noteq> unat clst" for x
  proof -
    have "2 * x \<noteq> 2 * unat clst + 1" "2 * x + 1 \<noteq> 2 * unat clst" by presburger+
    then show ?thesis using B [OF fits [OF that(1)]] B [of "2 * x"] fits [OF that(1)] that(2)
      by (simp add: fat_value_def ty)
  qed
  ultimately show ?thesis using pu ty by (simp add: entry_put_def puts_def fat_bits_def)
qed

lemma dword_value:
  "fs_type fs \<in> {FS_FAT32, FS_EXFAT} \<Longrightarrow> fat_value fs d c = (fat_byte fs d (4 * c + 0) + 256 * fat_byte fs d (4 * c + 1)
     + 65536 * fat_byte fs d (4 * c + 2) + 16777216 * fat_byte fs d (4 * c + 3)) mod 2 ^ fat_bits fs"
  by (auto simp: fat_value_def)

lemma put32_entry:
  assumes ty: "fs_type fs \<in> {FS_FAT32, FS_EXFAT}" and co: "coherent fs s" and c: "clst < n_fatent fs"
    and pu: "puts fs s [4 * unat clst \<mapsto> unat (ucast v :: u8), 4 * unat clst + 1 \<mapsto> unat (ucast (drop_bit 8 v) :: u8),
       4 * unat clst + 2 \<mapsto> unat (ucast (drop_bit 16 v) :: u8), 4 * unat clst + 3 \<mapsto> unat (ucast (drop_bit 24 v) :: u8)] fs' s'"
    and v: "unat (v :: u32) mod 2 ^ fat_bits fs = unat val mod 2 ^ fat_bits fs"
  shows "entry_put fs s clst val FR_OK fs' s'"
proof -
  have fits: "4 * x + 3 < unat (fsize fs) * unat (ssize fs)" if "x < unat (n_fatent fs)" for x
    using coherentD(4) [OF co] that ty by (fastforce simp: geometry_ok_def fat_end_def)
  have cl: "unat clst < unat (n_fatent fs)" using c by (simp add: word_less_nat_alt)
  note B = puts_byte [OF pu]
  have B4: "fat_byte fs (view fs' s') (4 * x + j) = (if x = unat clst then unat v div 256 ^ j mod 256 else fat_byte fs (view fs s) (4 * x + j))"
    if "x < unat (n_fatent fs)" "j \<in> {0, 1, 2, 3}" for x j
  proof (cases "x = unat clst")
    case False
    then have "4 * x + j \<noteq> 4 * unat clst + i" if "i < 4" for i using \<open>j \<in> {0, 1, 2, 3}\<close> that by auto
    from this [of 0] this [of 1] this [of 2] this [of 3] show ?thesis
      using False B [of "4 * x + j"] fits [OF that(1)] that(2) by auto
  next
    case True
    then show ?thesis using that(2) B [of "4 * unat clst + j"] fits [OF that(1)] by (auto simp: unat_drop_bit)
  qed
  have "unat v < 4294967296" using unat_bound [of 32 v] by simp
  then have "unat v mod 4294967296 = unat v" by (rule mod_less)
  then have sum: "unat v div 256 ^ 0 mod 256 + 256 * (unat v div 256 ^ 1 mod 256) + 65536 * (unat v div 256 ^ 2 mod 256)
      + 16777216 * (unat v div 256 ^ 3 mod 256) = unat v" using bytes_dword [of "unat v"] by simp
  have J: "(0 :: nat) \<in> {0, 1, 2, 3}" "(1 :: nat) \<in> {0, 1, 2, 3}" "(2 :: nat) \<in> {0, 1, 2, 3}" "(3 :: nat) \<in> {0, 1, 2, 3}"
    by simp_all
  have val: "fat_value fs (view fs' s') (unat clst) = unat v mod 2 ^ fat_bits fs"
    by (simp only: dword_value [OF ty] B4 [OF cl J(1)] B4 [OF cl J(2)] B4 [OF cl J(3)] B4 [OF cl J(4)] sum simp_thms if_True)
  have "fat_value fs (view fs' s') x = fat_value fs (view fs s) x" if "x < unat (n_fatent fs)" "x \<noteq> unat clst" for x
    using that(2) by (simp only: dword_value [OF ty] B4 [OF that(1) J(1)] B4 [OF that(1) J(2)] B4 [OF that(1) J(3)]
      B4 [OF that(1) J(4)] if_False)
  then show ?thesis using pu val v by (simp add: entry_put_def puts_def)
qed

text \<open>FAT12 entries share bytes with their neighbours.\<close>

lemma put12_entry:
  assumes ty: "fs_type fs = FS_FAT12" and co: "coherent fs s" and c: "clst < n_fatent fs"
    and pu: "puts fs s m fs' s'" and bc: "bc = unat clst + unat clst div 2"
    and old: "o0 = fat_byte fs (view fs s) bc" "o1 = fat_byte fs (view fs s) (bc + 1)"
    and b0: "b0 = (if odd (unat clst) then o0 mod 16 + 16 * (unat val mod 16) else unat val mod 256)"
    and b1: "b1 = (if odd (unat clst) then unat val div 16 mod 256 else o1 div 16 * 16 + unat val div 256 mod 16)"
    and m: "m = [bc \<mapsto> b0] \<and> res \<noteq> FR_OK \<or> m = [bc \<mapsto> b0, bc + 1 \<mapsto> b1]"
  shows "entry_put fs s clst val res fs' s'"
proof -
  have fits: "x + x div 2 + 1 < unat (fsize fs) * unat (ssize fs)" if "x < unat (n_fatent fs)" for x
    using coherentD(4) [OF co] that ty by (fastforce simp: geometry_ok_def fat_end_def)
  have cl: "unat clst < unat (n_fatent fs)" using c by (simp add: word_less_nat_alt)
  note B = puts_byte [OF pu]
  have lt: "fat_byte fs d k < 256" for d k using unat_lt_u8 by (simp add: fat_byte_def)
  have "fat_value fs (view fs' s') (unat clst) = unat val mod 4096" if "res = FR_OK"
  proof -
    have n: "fat_byte fs (view fs' s') bc = b0" "fat_byte fs (view fs' s') (bc + 1) = b1"
      using B [of bc] B [of "bc + 1"] fits [OF cl] m that bc by auto
    have "fat_value fs (view fs' s') (unat clst) = (if odd (unat clst) then (b0 + 256 * b1) div 16 else (b0 + 256 * b1) mod 4096)"
      unfolding fat_value_def ty Let_def bc [symmetric] n by simp
    then show ?thesis unfolding b0 b1 using fat12_odd [of o0 "unat val"] fat12_even [of "unat val" o1] by presburger
  qed
  moreover have "fat_value fs (view fs' s') x = fat_value fs (view fs s) x" if x: "x < unat (n_fatent fs)" "x \<noteq> unat clst" for x
  proof -
    let ?p = "x + x div 2"
    have n: "fat_byte fs (view fs' s') k = (if k = bc then b0 else if k = bc + 1 \<and> m \<noteq> [bc \<mapsto> b0] then b1 else fat_byte fs (view fs s) k)"
      if "k \<in> {?p, ?p + 1}" for k using B [of k] fits [OF x(1)] that m by auto
    consider "odd (unat clst)" "x + 1 = unat clst" "?p + 1 = bc" | "even (unat clst)" "x = unat clst + 1" "?p = bc + 1"
      | "?p \<notin> {bc, bc + 1}" "?p + 1 \<notin> {bc, bc + 1}"
      unfolding bc using x(2) by (cases "even x"; cases "even (unat clst)") (fastforce elim!: evenE oddE)+
    then show ?thesis
    proof cases
      case 1
      have e0: "fat_byte fs (view fs' s') ?p = fat_byte fs (view fs s) ?p" using n [of ?p] 1(3) by auto
      have "fat_byte fs (view fs' s') (?p + 1) = b0" using n [of "?p + 1"] 1(3) by auto
      then have e1: "fat_byte fs (view fs' s') (?p + 1) mod 16 = fat_byte fs (view fs s) (?p + 1) mod 16"
        using b0 1(1,3) old(1) by simp
      have "\<not> odd x" using 1(1,2) by presburger
      then show ?thesis by (simp only: value12 [OF ty] e0 share_low [OF e1] if_False)
    next
      case 2
      have e0: "fat_byte fs (view fs' s') (?p + 1) = fat_byte fs (view fs s) (?p + 1)" using n [of "?p + 1"] 2(3) by auto
      have "fat_byte fs (view fs' s') ?p = b1 \<or> fat_byte fs (view fs' s') ?p = o1" using n [of ?p] 2(3) old(2) by auto
      moreover have no: "\<not> odd (unat clst)" using 2(1) by simp
      moreover have "b1 div 16 = o1 div 16" unfolding b1 if_not_P [OF no] by (rule keep_high)
      ultimately have "fat_byte fs (view fs' s') ?p div 16 = o1 div 16" by metis
      then have e1: "fat_byte fs (view fs' s') ?p div 16 = fat_byte fs (view fs s) ?p div 16" using old(2) 2(3) by simp
      have "odd x" using 2(1,2) by simp
      then show ?thesis by (simp only: value12 [OF ty] e0 share_high [OF e1] if_True not_False_eq_True)
    next
      case 3
      then show ?thesis using n [of ?p] n [of "?p + 1"] by (simp add: fat_value_def ty)
    qed
  qed
  ultimately show ?thesis using pu ty by (simp add: entry_put_def puts_def fat_bits_def)
qed

lemma put_fat12_ok:
  assumes co: "coherent fs s" and ty: "fs_type fs = FS_FAT12" and c: "clst < n_fatent fs"
    and run: "put_fat12 env mounted fs clst val s = (res, fs', s')"
  shows "entry_put fs s clst val res fs' s'"
proof -
  define bc where "bc = clst + clst div 2"
  let ?ss = "ucast (ssize fs) :: u32" and ?b = "unat clst + unat clst div 2"
  note U = fat12_bytes [OF ty co c, folded bc_def]
  have f0: "unat bc < unat (fsize fs) * unat (ssize fs)" and f1: "unat (bc + 1) < unat (fsize fs) * unat (ssize fs)"
    using U by simp_all
  note P0 = byte_pos [OF coherentD(4) [OF co] nsec64 f0] and P1 = byte_pos [OF coherentD(4) [OF co] nsec64 f1]
  have l0: "unat (fatbase fs + ucast (bc div ?ss)) < nsec" unfolding P0(1) by (rule fat_sect_lt [OF co f0])
  have l1: "unat (fatbase fs + ucast ((bc + 1) div ?ss)) < nsec" unfolding P1(1) by (rule fat_sect_lt [OF co f1])
  obtain r1 fs1 s1 where m1: "move_window env mounted fs (fatbase fs + ucast (bc div ?ss)) s = (r1, fs1, s1)"
    by (cases rule: prod_cases3)
  note M1 = move_window_keeps [OF co l0 m1]
  show ?thesis
  proof (cases "r1 = FR_OK")
    case False
    then have "res = r1" "fs' = fs1" "s' = s1" using run m1 by (auto simp: put_fat12_def bc_def Let_def)
    then show ?thesis using put_failed [OF co] M1 False by blast
  next
    case True
    let ?k0 = "unat (bc mod ?ss)" and ?k1 = "unat ((bc + 1) mod ?ss)"
    define v0 where "v0 = (if bit clst 0 then (win fs1 ! ?k0 AND 0x0f) OR push_bit 4 (ucast val) else ucast val)"
    define b0 where "b0 = unat v0"
    have at1: "window_at fs1 s1 (unat (fatbase fs) + unat bc div unat (ssize fs))" using M1 True P0(1) by simp
    note Q = poke_puts [OF keeps_puts at1 P0(2), of s v0]
    have pk: "puts fs s [?b \<mapsto> b0] (poke fs1 ?k0 v0) s1" using Q(1) M1 U(1) by (simp add: b0_def)
    have co2: "coherent (poke fs1 ?k0 v0) s1" and fb: "fatbase (poke fs1 ?k0 v0) = fatbase fs"
      using pk same_volume_fields by (auto simp: puts_def)
    obtain r3 fs3 s3 where m2: "move_window env mounted (poke fs1 ?k0 v0) (fatbase fs + ucast ((bc + 1) div ?ss)) s1 = (r3, fs3, s3)"
      by (cases rule: prod_cases3)
    note M2 = move_window_keeps [OF co2 l1 m2]
    have pk3: "puts fs s [?b \<mapsto> b0] fs3 s3" using puts_trans [OF pk keeps_puts] M2 by auto
    define v1 where "v1 = (if bit clst 0 then ucast (drop_bit 4 val) else (win fs3 ! ?k1 AND 0xf0) OR (ucast (drop_bit 8 val) AND 0x0f))"
    have res: "(res, fs', s') = (if r3 \<noteq> FR_OK then (r3, fs3, s3) else (FR_OK, poke fs3 ?k1 v1, s3))"
      using run m1 m2 True fb unfolding v0_def v1_def poke_def bc_def
      by (cases "bit clst 0"; cases "r3 = FR_OK") (simp_all add: put_fat12_def Let_def)
    let ?o0 = "fat_byte fs (view fs s) ?b" and ?o1 = "fat_byte fs (view fs s) (?b + 1)"
    have w0: "unat (win fs1 ! ?k0) = ?o0" using peek_through [OF _ at1 f0] M1 P0(2) U(1) by simp
    have b0: "b0 = (if odd (unat clst) then ?o0 mod 16 + 16 * (unat val mod 16) else unat val mod 256)"
      by (simp add: b0_def v0_def odd_cluster fat12_nibbles w0)
    note E = put12_entry [OF ty co c _ refl refl refl b0 refl]
    show ?thesis
    proof (cases "r3 = FR_OK")
      case False
      then show ?thesis using res E [OF pk3] by simp
    next
      case True
      have at3: "window_at fs3 s3 (unat (fatbase fs) + unat (bc + 1) div unat (ssize fs))" using M2 True P1(1) by simp
      have "puts fs s [?b \<mapsto> b0, ?b + 1 \<mapsto> unat v1] (poke fs3 ?k1 v1) s3"
        using poke_puts(1) [OF pk3 at3 P1(2), of v1] U(2) by simp
      moreover have w1: "unat (win fs3 ! ?k1) = ?o1"
      proof -
        have sv: "same_volume fs fs3" using pk3 by (simp add: puts_def)
        note eq = same_volume_fields [OF sv] same_volume_fat [OF sv]
        have "unat (win fs3 ! ?k1) = fat_byte fs3 (view fs3 s3) (unat (bc + 1))"
          using window_peek [of fs3 s3 "unat (bc + 1)"] at3 eq P1(2) by simp
        also have "\<dots> = ?o1" using puts_byte [OF pk3 f1] U(2) eq by simp
        finally show ?thesis .
      qed
      moreover have "unat v1 = (if odd (unat clst) then unat val div 16 mod 256 else ?o1 div 16 * 16 + unat val div 256 mod 16)"
        by (simp add: v1_def odd_cluster fat12_nibbles w1 unat_drop_bit)
      ultimately show ?thesis using E [where res = FR_OK] res True by simp
    qed
  qed
qed

lemma put_fat_ok:
  assumes co: "coherent fs s" and c: "2 \<le> clst" "clst < n_fatent fs" and ty: "fs_type fs \<noteq> FS_NONE"
    and run: "put_fat env mounted fs clst val s = (res, fs', s')"
  shows "entry_put fs s clst val res fs' s'"
proof -
  have nc: "\<not> (clst < 2 \<or> clst \<ge> n_fatent fs)" using c by auto
  note run' = run [unfolded put_fat_def Let_def if_not_P [OF nc]]
  note fits = fat_entry_fits [OF co c(2)]
  have dword: "entry_put fs s clst val res fs' s'"
    if ty4: "fs_type fs \<in> {FS_FAT32, FS_EXFAT}"
      and up: "\<And>old. unat (upd old) mod 2 ^ fat_bits fs = unat val mod 2 ^ fat_bits fs"
      and r: "(let (res, fs1, s1) = move_window env mounted fs (fatbase fs + ucast (clst div (ucast (ssize fs) div 4))) s
         in if res \<noteq> FR_OK then (res, fs1, s1)
            else (FR_OK, fs1\<lparr>win := st_dword (win fs1) (unat (clst * 4 mod ucast (ssize fs)))
                   (upd (ld_dword (win fs1) (unat (clst * 4 mod ucast (ssize fs))))), wflag := True\<rparr>, s1)) = (res, fs', s')" for upd
  proof -
    have fit: "4 * unat clst + 4 \<le> unat (fsize fs) * unat (ssize fs)" using fits ty4 by (auto simp: fat_end_def)
    have f4: "unat (4 :: u32) * unat clst + unat (4 :: u32) \<le> unat (fsize fs) * unat (ssize fs)" using fit by simp
    obtain r1 fs1 s1 where m: "move_window env mounted fs (fatbase fs + ucast (clst div (ucast (ssize fs) div 4))) s = (r1, fs1, s1)"
      by (cases rule: prod_cases3)
    note M = move_window_keeps [OF co entry_peek(1) [OF co _ f4] m]
    show ?thesis
    proof (cases "r1 = FR_OK")
      case True
      then have at: "window_at fs1 s1 (unat (fatbase fs + ucast (clst div (ucast (ssize fs) div 4))))" and kp: "keeps fs s fs1 s1"
        using M by simp_all
      show ?thesis using put32_entry [OF ty4 co c(2) put_dword_ok [OF co fit at kp] up] r m True by auto
    qed (use M r m put_failed [OF co] in auto)
  qed
  show ?thesis
  proof (cases "fs_type fs")
    case FS_FAT12
    then show ?thesis using put_fat12_ok [OF co _ c(2)] run' by simp
  next
    case FS_FAT16
    then have fit: "2 * unat clst + 2 \<le> unat (fsize fs) * unat (ssize fs)" using fits by (simp add: fat_end_def)
    have f2: "unat (2 :: u32) * unat clst + unat (2 :: u32) \<le> unat (fsize fs) * unat (ssize fs)" using fit by simp
    obtain r1 fs1 s1 where m: "move_window env mounted fs (fatbase fs + ucast (clst div (ucast (ssize fs) div 2))) s = (r1, fs1, s1)"
      by (cases rule: prod_cases3)
    note M = move_window_keeps [OF co entry_peek(1) [OF co _ f2] m]
    show ?thesis
    proof (cases "r1 = FR_OK")
      case True
      then have at: "window_at fs1 s1 (unat (fatbase fs + ucast (clst div (ucast (ssize fs) div 2))))" and kp: "keeps fs s fs1 s1"
        using M by simp_all
      show ?thesis using put16_entry [OF FS_FAT16 co c(2) put_word_ok [OF co fit at kp] refl] run' FS_FAT16 m True by auto
    qed (use M run' FS_FAT16 m put_failed [OF co] in auto)
  next
    case FS_FAT32
    show ?thesis by (rule dword [where upd = "\<lambda>old. (val AND 0x0fffffff) OR (old AND 0xf0000000)"])
        (use FS_FAT32 run' unat_merge_low in \<open>auto simp: fat_bits_def Let_def\<close>)
  next
    case FS_EXFAT
    show ?thesis by (rule dword [where upd = "\<lambda>old. val"]) (use FS_EXFAT run' in \<open>auto simp: Let_def\<close>)
  qed (use ty in simp)
qed

end

lemma ram_fat_device: "fat_device (ram_ops 512 1000) (ram_inv 512) id 512 1000 ram_env (DevBd 0)"
proof (intro fat_device.intro fat_device_axioms.intro)
  have lt: "uint (c :: u16) < 65536" "- 2147483648 \<le> uint c" for c
    using uint_less_unat [OF unat_lt_u16] order_trans [OF _ uint_ge_0, of "- 2147483648"] by simp_all
  fix s s' :: "nat \<Rightarrow> bytes" and a c d r
  show "- (2 ^ 31) \<le> r \<and> r < 2 ^ 31" if "bd_read (ram_ops 512 1000) s a c = (r, d, s')"
    using that lt [of c] by (auto simp: ram_ops_def split: if_splits)
  show "- (2 ^ 31) \<le> r \<and> r < 2 ^ 31" if "bd_write (ram_ops 512 1000) s a d c = (r, s')"
    using that lt [of c] by (auto simp: ram_ops_def split: if_splits)
qed (use ram512.block_store_axioms in \<open>simp_all add: ram_env_def\<close>)

interpretation ram_fat: fat_device "ram_ops 512 1000" "ram_inv 512" id 512 1000 ram_env "[Some (DevBd 0)]" "DevBd 0"
  by (rule ram_fat_device)

section \<open>Cluster addresses\<close>

lemma clst2sect_value:
  assumes "2 \<le> clst" "clst < n_fatent fs"
    and "unat (database fs) + unat (csize fs) * (unat (n_fatent fs) - 2) < 2 ^ 64"
  shows "unat (clst2sect fs clst) = unat (database fs) + unat (csize fs) * (unat clst - 2)"
proof -
  have u: "unat (clst - 2) = unat clst - 2" using assms(1) by (subst unat_sub_le) simp_all
  have n2: "2 \<le> n_fatent fs" using assms by (meson order.strict_trans1 less_imp_le)
  have un: "unat (n_fatent fs - 2) = unat (n_fatent fs) - 2" using n2 by (subst unat_sub_le) simp_all
  have lt: "unat clst < unat (n_fatent fs)" using assms(2) by (simp add: word_less_nat_alt)
  have ge: "2 \<le> unat clst" using assms(1) by (simp add: word_le_nat_alt)
  have nn: "\<not> n_fatent fs - 2 \<le> clst - 2" unfolding word_le_nat_alt u un using lt ge by linarith
  have "unat (csize fs) * (unat clst - 2) \<le> unat (csize fs) * (unat (n_fatent fs) - 2)"
    using lt by (intro mult_le_mono2) simp
  then have b: "unat (database fs) + unat (csize fs) * (unat clst - 2) < 2 ^ 64" using assms(3) by linarith
  then have "unat (ucast (csize fs) * ucast (clst - 2) :: u64) = unat (csize fs) * (unat clst - 2)"
    using u by (subst unat_mult_lem [THEN iffD1]) simp_all
  then show ?thesis using nn b by (simp add: clst2sect_def Let_def unat_add_lt)
qed

section \<open>The cluster link map\<close>

text \<open>The clusters of a file stored in the fragments \<open>(count, first cluster)\<close>, and its link map.\<close>

definition frag_clusters :: "(u32 \<times> u32) list \<Rightarrow> u32 list" where
  "frag_clusters fr = concat (map (\<lambda>(n, c). map (\<lambda>j. of_nat j + c) [0..<unat n]) fr)"

definition link_map :: "(u32 \<times> u32) list \<Rightarrow> u32 list" where
  "link_map fr = concat (map (\<lambda>(n, c). [n, c]) fr) @ [0]"

lemma clmt_search_link_map:
  assumes "\<forall>(n, c) \<in> set fr. n \<noteq> 0"
  shows "clmt_search (link_map fr) cl =
     Some (if unat cl < length (frag_clusters fr) then frag_clusters fr ! unat cl else 0)"
  using assms
proof (induction fr arbitrary: cl)
  case (Cons f fr)
  obtain n c where f: "f = (n, c)" by (cases f)
  show ?case
  proof (cases "cl < n")
    case True
    then have "unat cl < unat n" by (simp add: word_less_nat_alt)
    then show ?thesis using True Cons.prems
      by (simp add: f link_map_def frag_clusters_def nth_append)
  next
    case False
    then have le: "n \<le> cl" by simp
    then have u: "unat (cl - n) = unat cl - unat n" "unat n \<le> unat cl"
      by (simp_all add: unat_sub_le word_le_nat_alt)
    have "clmt_search (link_map (f # fr)) cl = clmt_search (link_map fr) (cl - n)"
      using False Cons.prems by (simp add: f link_map_def)
    also have "\<dots> = Some (if unat (cl - n) < length (frag_clusters fr) then frag_clusters fr ! unat (cl - n) else 0)"
      using Cons.prems by (intro Cons.IH) auto
    finally show ?thesis using u by (auto simp: f frag_clusters_def nth_append)
  qed
qed (simp add: link_map_def frag_clusters_def)

section \<open>Properties\<close>

text \<open>C30. \<open>get_fat\<close> on any device that meets the block-device contract, with or without pending changes in
  the window: the result is a disk error or the entry of the cluster in the table FatFs has
  written so far, no entry changes, and the window invariant is kept.\<close>

theorem get_fat_correct:
  assumes "fat_device ops ok dsk ssz nsec env b" "window_ok ok dsk ssz nsec mounted b fs s"
    and "2 \<le> clst" "clst < n_fatent fs" "fs_type fs \<noteq> FS_NONE"
    and "fs_type fs = FS_EXFAT \<Longrightarrow> ob_stat obj = 0 \<and> ob_n_frag obj = 0"
    and "get_fat env mounted fs obj clst s = (v, fs', s')"
  shows "(v = 0xffffffff \<or> unat v = fat_value fs (window_view dsk ssz fs s) (unat clst))
    \<and> window_ok ok dsk ssz nsec mounted b fs' s'
    \<and> (\<forall>c < unat (n_fatent fs). fat_value fs (window_view dsk ssz fs' s') c = fat_value fs (window_view dsk ssz fs s) c)"
proof -
  have kp: "fat_device.keeps ok dsk ssz nsec mounted b fs s fs' s'"
    and v: "v = 0xffffffff \<or> unat v = fat_value fs (window_view dsk ssz fs s) (unat clst)"
    using fat_device.get_fat_ok [OF assms] by simp_all
  have "window_ok ok dsk ssz nsec mounted b fs' s'" using kp fat_device.keeps_def [OF assms(1)] by blast
  then show ?thesis using v fat_device.keeps_value [OF assms(1,2) kp] by blast
qed

text \<open>A FAT16 volume of 510 clusters on the memory disk.\<close>

definition small_volume :: fatfs where
  "small_volume = \<lparr>fs_type = FS_FAT16, pdrv = 0, n_fats = 2, wflag = False, csize = 1, ssize = 512, n_fatent = 512,
     fsize = 2, fatbase = 1, database = 8, winsect = - 1, win = replicate 512 0\<rparr>"

definition plain_object :: ffobjid where
  "plain_object = \<lparr>ob_stat = 0, ob_sclust = 0, ob_objsize = 0, ob_n_cont = 0, ob_n_frag = 0\<rparr>"

lemma small_volume_ok: "window_ok (ram_inv 512) id 512 1000 [Some (DevBd 0)] (DevBd 0) small_volume (zero_disk 512)"
  by (simp add: window_ok_def small_volume_def mounted_dev_at geometry_ok_def sector_sizes_def fat_end_def)

theorem get_fat_correct_witness:
  "\<exists>v fs' s'. get_fat ram_env [Some (DevBd 0)] small_volume plain_object 5 (zero_disk 512) = (v, fs', s')
     \<and> (v = 0xffffffff \<or> unat v = fat_value small_volume (zero_disk 512) 5)"
proof -
  obtain v fs' s' where run: "get_fat ram_env [Some (DevBd 0)] small_volume plain_object 5 (zero_disk 512) = (v, fs', s')"
    by (cases rule: prod_cases3)
  have ty: "fs_type small_volume \<noteq> FS_NONE" "fs_type small_volume = FS_EXFAT \<Longrightarrow> ob_stat plain_object = 0 \<and> ob_n_frag plain_object = 0"
    "(5 :: u32) < n_fatent small_volume" "\<not> wflag small_volume" by (simp_all add: small_volume_def)
  show ?thesis using get_fat_correct [OF ram_fat_device small_volume_ok _ ty(3,1,2) run] run ty(4)
    by (simp add: window_view_def)
qed

text \<open>C9. Round trip of the allocation table: after a successful \<open>put_fat\<close> every later \<open>get_fat\<close> returns
  the value put for that cluster (cut to the width of an entry) and the old value for every other
  cluster, or a disk error, also for FAT12 entries that share a byte or straddle two sectors and
  while the change is still only in the window.\<close>

theorem put_fat_get_fat:
  assumes "fat_device ops ok dsk ssz nsec env b" "window_ok ok dsk ssz nsec mounted b fs s"
    and "2 \<le> clst" "clst < n_fatent fs" "2 \<le> c" "c < n_fatent fs" "fs_type fs \<noteq> FS_NONE"
    and "fs_type fs = FS_EXFAT \<Longrightarrow> ob_stat obj = 0 \<and> ob_n_frag obj = 0"
    and "put_fat env mounted fs clst val s = (FR_OK, fs1, s1)"
    and "get_fat env mounted fs1 obj c s1 = (v, fs2, s2)"
  shows "v = 0xffffffff \<or> unat v = (if c = clst then unat val mod 2 ^ fat_bits fs
                                 else fat_value fs (window_view dsk ssz fs s) (unat c))"
proof -
  have put: "window_ok ok dsk ssz nsec mounted b fs1 s1" "same_volume fs fs1"
    "fat_value fs (window_view dsk ssz fs1 s1) (unat clst) = unat val mod 2 ^ fat_bits fs"
    "\<forall>x < unat (n_fatent fs). x \<noteq> unat clst \<longrightarrow>
       fat_value fs (window_view dsk ssz fs1 s1) x = fat_value fs (window_view dsk ssz fs s) x"
    using fat_device.put_fat_ok [OF assms(1,2,3,4,7,9)] fat_device.entry_put_def [OF assms(1)] by simp_all
  note eq = same_volume_fields [OF put(2)] same_volume_fat [OF put(2)]
  have "v = 0xffffffff \<or> unat v = fat_value fs1 (window_view dsk ssz fs1 s1) (unat c)"
    using fat_device.get_fat_ok [OF assms(1) put(1) assms(5) _ _ _ assms(10)] assms(6,7,8) eq by simp
  moreover have "c \<noteq> clst \<Longrightarrow> unat c \<noteq> unat clst" using unsigned_word_eqI by blast
  moreover have "unat c < unat (n_fatent fs)" using assms(6) by (simp add: word_less_nat_alt)
  ultimately show ?thesis using put(3,4) eq by auto
qed

theorem put_fat_get_fat_witness:
  "\<exists>fs1 s1 v fs2 s2. put_fat ram_env [Some (DevBd 0)] small_volume 5 0x10007 (zero_disk 512) = (FR_OK, fs1, s1)
     \<and> get_fat ram_env [Some (DevBd 0)] fs1 plain_object 5 s1 = (v, fs2, s2) \<and> (v = 0xffffffff \<or> unat v = 7)"
proof -
  obtain r fs1 s1 where run: "put_fat ram_env [Some (DevBd 0)] small_volume 5 0x10007 (zero_disk 512) = (r, fs1, s1)"
    by (cases rule: prod_cases3)
  then have "r = FR_OK"
    by (simp add: put_fat_def small_volume_def move_window_def sync_window_def disk_read_def mounted_dev_at ram_env_def ram_ops_def)
  note run1 = run [unfolded this]
  obtain v fs2 s2 where run2: "get_fat ram_env [Some (DevBd 0)] fs1 plain_object 5 s1 = (v, fs2, s2)" by (cases rule: prod_cases3)
  have ty: "fs_type small_volume \<noteq> FS_NONE" "fs_type small_volume = FS_EXFAT \<Longrightarrow> ob_stat plain_object = 0 \<and> ob_n_frag plain_object = 0"
    "(5 :: u32) < n_fatent small_volume" "fat_bits small_volume = 16" by (simp_all add: small_volume_def fat_bits_def)
  have "v = 0xffffffff \<or> unat v = 7"
    using put_fat_get_fat [OF ram_fat_device small_volume_ok _ ty(3) _ ty(3,1,2) run1 run2] ty(4) by simp
  then show ?thesis using run1 run2 by blast
qed

text \<open>Fast seek: with the link map of a file stored in fragments of at least one cluster,
  \<open>clmt_clust\<close> returns, for a byte offset, the cluster that holds that byte in the file's cluster
  chain, and 0 past the last cluster.\<close>

theorem clmt_clust_correct:
  assumes "\<forall>(n, c) \<in> set fr. n \<noteq> 0" "cltbl = n0 # link_map fr"
    and "i = unat ofs div unat (ssize fs) div unat (csize fs)" "i < 2 ^ 32"
  shows "clmt_clust fs cltbl ofs = Some (if i < length (frag_clusters fr) then frag_clusters fr ! i else 0)"
proof -
  have "unat (ucast (ofs div ucast (ssize fs) div ucast (csize fs)) :: u32) = i mod 2 ^ 32"
    by (simp add: unsigned_ucast_eq take_bit_eq_mod unat_div_distrib assms(3))
  then show ?thesis using clmt_search_link_map [OF assms(1)] assms(2,4) by (simp add: clmt_clust_def)
qed

theorem clmt_clust_correct_witness:
  "clmt_clust (small_volume\<lparr>csize := 2\<rparr>) [6, 2, 10, 3, 40, 0] 2048 = Some 40"
proof -
  have f: "frag_clusters [(2, 10), (3, 40)] = [10, 11, 40, 41, 42]" by (simp add: frag_clusters_def upt_rec)
  have t: "[6, 2, 10, 3, 40, 0] = 6 # link_map [(2, 10), (3, 40)]" by (simp add: link_map_def)
  have i: "2 = unat (2048 :: u64) div unat (ssize (small_volume\<lparr>csize := 2\<rparr>)) div unat (csize (small_volume\<lparr>csize := 2\<rparr>))"
    by (simp add: small_volume_def)
  have "\<forall>(n, c) \<in> set [(2 :: u32, 10 :: u32), (3, 40)]. n \<noteq> 0" by simp
  from clmt_clust_correct [OF this t i] show ?thesis by (simp add: f)
qed

text \<open>Cluster addressing: \<open>clst2sect\<close> returns 0 exactly for the numbers outside the volume (when the
  data area does not start at sector 0), and distinct valid clusters have disjoint runs of sectors
  inside the data area.\<close>

theorem clst2sect_disjoint:
  assumes "2 \<le> n_fatent fs" "0 < unat (database fs)"
    and "unat (database fs) + unat (csize fs) * (unat (n_fatent fs) - 2) < 2 ^ 64"
  shows "(clst2sect fs c = 0 \<longleftrightarrow> c < 2 \<or> n_fatent fs \<le> c)
    \<and> (clst2sect fs c \<noteq> 0 \<longrightarrow> unat (database fs) \<le> unat (clst2sect fs c)
         \<and> unat (clst2sect fs c) + unat (csize fs) \<le> unat (database fs) + unat (csize fs) * (unat (n_fatent fs) - 2))
    \<and> (clst2sect fs c \<noteq> 0 \<longrightarrow> clst2sect fs d \<noteq> 0 \<longrightarrow> c < d \<longrightarrow>
         unat (clst2sect fs c) + unat (csize fs) \<le> unat (clst2sect fs d))"
proof -
  have n2: "unat (n_fatent fs - 2) = unat (n_fatent fs) - 2" using assms(1) by (subst unat_sub_le) simp_all
  have zero: "clst2sect fs x = 0 \<longleftrightarrow> x < 2 \<or> n_fatent fs \<le> x" for x
  proof (cases "2 \<le> x \<and> x < n_fatent fs")
    case True
    then have "unat (clst2sect fs x) \<noteq> 0" using clst2sect_value [OF _ _ assms(3), of x] assms(2) by simp
    then show ?thesis using True by (metis leD unat_0)
  next
    case False
    have "n_fatent fs - 2 \<le> x - 2"
    proof (cases "2 \<le> x")
      case True
      then have "unat (x - 2) = unat x - 2" by (subst unat_sub_le) simp_all
      moreover have "unat (n_fatent fs) \<le> unat x" using True False by (simp add: word_le_nat_alt word_less_nat_alt)
      ultimately show ?thesis unfolding word_le_nat_alt n2 by simp
    next
      case less: False
      then have "unat x < 2" by (simp add: word_le_nat_alt)
      then have "unat x = unat (0 :: u32) \<or> unat x = unat (1 :: u32)" by auto
      then have "x = 0 \<or> x = 1" using unsigned_word_eqI by blast
      moreover have "unat (0 - 2 :: u32) = 0xfffffffe" "unat (1 - 2 :: u32) = 0xffffffff"
        by (simp, simp add: unsigned_minus_1_eq_mask mask_eq_exp_minus_1)
      ultimately have "0xfffffffe \<le> unat (x - 2)" by auto
      moreover have "unat (n_fatent fs) < 2 ^ 32" by (rule unat_bound) simp
      ultimately show ?thesis unfolding word_le_nat_alt n2 by simp
    qed
    then show ?thesis using False by (auto simp: clst2sect_def)
  qed
  have step: "unat (csize fs) * (unat x - 2) + unat (csize fs) \<le> unat (csize fs) * (y - 2)" if "2 \<le> x" "unat x < y" for x :: u32 and y
  proof -
    have "Suc (unat x - 2) \<le> y - 2" using that by (simp add: word_le_nat_alt)
    then have "unat (csize fs) * Suc (unat x - 2) \<le> unat (csize fs) * (y - 2)" by (rule mult_le_mono2)
    then show ?thesis by simp
  qed
  show ?thesis using zero clst2sect_value [OF _ _ assms(3), of c] clst2sect_value [OF _ _ assms(3), of d]
      step [of c "unat (n_fatent fs)"] step [of c "unat d"]
    by (auto simp: not_le not_less word_less_nat_alt [symmetric])
qed

theorem clst2sect_disjoint_witness:
  "unat (clst2sect small_volume 7) + 1 \<le> unat (clst2sect small_volume 9)"
  using clst2sect_disjoint [of small_volume 7 9] by (simp add: small_volume_def clst2sect_def)

end
