(* ===== verification/Frag_List.thy ===== *)
theory Frag_List
  imports Fat_Access Bd_Defrag
begin

text \<open>
  \<open>get_frag_list\<close> of \<open>__bdm_assault/src/bdmfs/bdmfs_fs_driver.c\<close>: the list of sector runs of an open
  file, which a game loader later passes to \<open>bd_defrag_read\<close>. \<open>bd_fragment_t\<close> is declared outside the
  repository: its size \<open>fsz\<close> and the width \<open>fw\<close> of its count field are parameters. Shown: the function
  returns \<open>-EIO\<close>, or the number of runs of the file's cluster chain; the runs stored (as many as fit
  the caller's buffer) cover the chain's clusters in order; and reading the whole list through
  \<open>bd_defrag_read\<close> returns the file's clusters.
\<close>

section \<open>Definitions\<close>

text \<open>Storing one run: the fields of the element of \<open>fragments\<close>.\<close>

definition frag_entry :: "nat \<Rightarrow> fatfs \<Rightarrow> u64 \<Rightarrow> u32 \<Rightarrow> u32 \<Rightarrow> bd_fragment" where
  "frag_entry fw fs off cluster_start cluster_current =
     \<lparr>f_sector = clst2sect fs cluster_start + off,
      f_count = take_bit fw (clst2sect fs cluster_current - clst2sect fs cluster_start + ucast (csize fs))\<rparr>"

text \<open>The elements of \<open>fragments\<close> are stored in order from 0, so the buffer is a list \<open>out\<close>.\<close>

definition frag_emit :: "nat \<Rightarrow> fatfs \<Rightarrow> u64 \<Rightarrow> nat \<Rightarrow> nat \<Rightarrow> u32 \<Rightarrow> u32 \<Rightarrow> bd_fragment list \<Rightarrow> bd_fragment list" where
  "frag_emit fw fs off max_fragments fragment_count cluster_start cluster_current out =
     (if fragment_count < max_fragments then out @ [frag_entry fw fs off cluster_start cluster_current] else out)"

fun frag_loop :: "'s disk_env \<Rightarrow> bdref option list \<Rightarrow> nat \<Rightarrow> ffobjid \<Rightarrow> u64 \<Rightarrow> nat \<Rightarrow> nat \<Rightarrow>
    u32 \<Rightarrow> u32 \<Rightarrow> nat \<Rightarrow> bd_fragment list \<Rightarrow> fatfs \<Rightarrow> 's \<Rightarrow> int \<times> bd_fragment list \<times> fatfs \<times> 's" where
  "frag_loop env mounted fw obj off max_fragments clusters_remaining cluster_start cluster_current fragment_count out fs s =
     (let (cluster_next, fs1, s1) = get_fat env mounted fs obj cluster_current s
      in if clusters_remaining > 1
         then if cluster_next = 0xffffffff \<or> cluster_next < 2 \<or> cluster_next \<ge> n_fatent fs1 then (- EIO, out, fs1, s1)
              else if cluster_next \<noteq> cluster_current + 1
              then frag_loop env mounted fw obj off max_fragments (clusters_remaining - 1) cluster_next cluster_next
                     (fragment_count + 1)
                     (frag_emit fw fs1 off max_fragments fragment_count cluster_start cluster_current out) fs1 s1
              else frag_loop env mounted fw obj off max_fragments (clusters_remaining - 1) cluster_start cluster_next
                     fragment_count out fs1 s1
         else if cluster_next = 0xffffffff \<or> cluster_next < n_fatent fs1 then (- EIO, out, fs1, s1)
         else (int fragment_count + 1,
               frag_emit fw fs1 off max_fragments fragment_count cluster_start cluster_current out, fs1, s1))"

declare frag_loop.simps [simp del]

text \<open>\<open>rdata\<close> is the length in bytes of the caller's buffer, \<open>None\<close> for a null pointer.\<close>

definition get_frag_list :: "'s disk_env \<Rightarrow> bdref option list \<Rightarrow> nat \<Rightarrow> nat \<Rightarrow> fatfs \<Rightarrow> ffobjid \<Rightarrow> nat option \<Rightarrow> 's \<Rightarrow>
    int \<times> bd_fragment list \<times> fatfs \<times> 's" where
  "get_frag_list env mounted fsz fw fs obj rdata s =
     (let max_fragments = (case rdata of None \<Rightarrow> 0 | Some rdatalen \<Rightarrow> rdatalen div fsz)
      in case mounted_dev mounted (pdrv fs) of
           None \<Rightarrow> (- ENXIO, [], fs, s)
         | Some b \<Rightarrow>
             if ob_objsize obj = 0 then (0, [], fs, s)
             else let bd = de_desc env b;
                      cluster_size = ucast (csize fs) * ucast (sectorSize bd) :: u64;
                      cluster_count = (ob_objsize obj - 1) div cluster_size + 1
                  in if n_fatent fs < 3 \<or> cluster_count = 0 \<or> cluster_count > ucast (n_fatent fs - 2)
                        \<or> ob_sclust obj < 2 \<or> ob_sclust obj \<ge> n_fatent fs
                     then (- EIO, [], fs, s)
                     else frag_loop env mounted fw obj (sectorOffset bd) max_fragments
                            (unat (ucast cluster_count :: u32)) (ob_sclust obj) (ob_sclust obj) 0 [] fs s)"

section \<open>The cluster chain of a file\<close>

text \<open>The successor of a cluster of the file \<open>obj\<close>: the table entry, except in an exFAT file that is
  recorded as contiguous (\<open>stat\<close> 2), which has no entries in the table.\<close>

definition chain_next :: "fatfs \<Rightarrow> ffobjid \<Rightarrow> (nat \<Rightarrow> bytes) \<Rightarrow> u32 \<Rightarrow> nat" where
  "chain_next fs obj dsk c =
     (if fs_type fs = FS_EXFAT \<and> ob_stat obj = 2
      then let clen = ucast ((ob_objsize obj - 1) div ucast (ssize fs) div ucast (csize fs)) :: u32
           in if c - ob_sclust obj < clen then unat (c + 1) else if c - ob_sclust obj = clen then 0x7fffffff else 1
      else fat_value fs dsk (unat c))"

text \<open>\<open>cl\<close> are clusters of the volume, each the successor of the one before, and the last one is
  followed by an end mark.\<close>

fun is_chain :: "(u32 \<Rightarrow> nat) \<Rightarrow> u32 \<Rightarrow> u32 list \<Rightarrow> bool" where
  "is_chain nx n [] = False"
| "is_chain nx n [c] = (2 \<le> c \<and> c < n \<and> nx c \<ge> unat n)"
| "is_chain nx n (c # c' # cl) = (2 \<le> c \<and> c < n \<and> nx c = unat c' \<and> is_chain nx n (c' # cl))"

text \<open>The fragments \<open>F\<close> place the sectors of the clusters \<open>cl\<close> at their sectors of the whole disk.\<close>

definition covers :: "fatfs \<Rightarrow> u64 \<Rightarrow> bd_fragment list \<Rightarrow> u32 list \<Rightarrow> bool" where
  "covers fs off F cl \<longleftrightarrow> file_size F = length cl * unat (csize fs) \<and>
     (\<forall>i < length cl. \<forall>j < unat (csize fs).
        frag_lba F (i * unat (csize fs) + j) = Some (unat (clst2sect fs (cl ! i)) + unat off + j))"

lemma frag_lba_append: "frag_lba (F @ G) k = (if k < file_size F then frag_lba F k else frag_lba G (k - file_size F))"
  by (induction F k rule: frag_lba.induct) (auto simp: less_diff_conv2)

lemma file_size_append [simp]: "file_size (F @ G) = file_size F + file_size G"
  by (induction F) auto

lemma covers_append:
  assumes "covers fs off F xs" "covers fs off G ys"
  shows "covers fs off (F @ G) (xs @ ys)"
proof -
  let ?n = "unat (csize fs)"
  have "frag_lba (F @ G) (i * ?n + j) = Some (unat (clst2sect fs ((xs @ ys) ! i)) + unat off + j)"
    if "i < length xs + length ys" "j < ?n" for i j
  proof (cases "i < length xs")
    case True
    then have "Suc i * ?n \<le> length xs * ?n" by (intro mult_le_mono1) simp
    then have "i * ?n + j < file_size F" using that(2) assms(1) by (simp add: covers_def)
    then show ?thesis using True that(2) assms(1) by (simp add: covers_def frag_lba_append nth_append)
  next
    case False
    then obtain m where m: "i = length xs + m" by (metis le_add_diff_inverse not_less)
    then have "i * ?n + j = file_size F + (m * ?n + j)" using assms(1) by (simp add: covers_def add_mult_distrib)
    then show ?thesis using m that assms(2) by (simp add: covers_def frag_lba_append nth_append)
  qed
  then show ?thesis using assms by (simp add: covers_def add_mult_distrib)
qed

text \<open>The data area of the volume lies inside a disk of \<open>nsec\<close> sectors, and the sectors of all clusters
  fit the count field.\<close>

definition data_ok :: "nat \<Rightarrow> nat \<Rightarrow> fatfs \<Rightarrow> u64 \<Rightarrow> bool" where
  "data_ok nsec fw fs off \<longleftrightarrow> unat off + unat (database fs) + unat (csize fs) * (unat (n_fatent fs) - 2) \<le> nsec
     \<and> nsec + 65536 \<le> 2 ^ 64 \<and> unat (csize fs) * (unat (n_fatent fs) - 2) < 2 ^ fw"

definition run_clusters :: "u32 \<Rightarrow> u32 \<Rightarrow> u32 list" where
  "run_clusters a z = map (\<lambda>j. a + of_nat j) [0..<Suc (unat z - unat a)]"

lemma length_run [simp]: "length (run_clusters a z) = Suc (unat z - unat a)"
  by (simp add: run_clusters_def)

lemma unat_run:
  assumes "(a :: u32) \<le> z" "j \<le> unat z - unat a"
  shows "unat (a + of_nat j) = unat a + j"
proof -
  have "unat a \<le> unat z" using assms(1) by (simp add: word_le_nat_alt)
  moreover have "unat z < 2 ^ 32" by (rule unat_bound) simp
  ultimately have "unat a + j < 2 ^ 32" using assms(2) by linarith
  moreover have "unat (of_nat j :: u32) = j" using calculation by (simp add: unat_of_nat)
  ultimately show ?thesis by (subst unat_add_lt) simp_all
qed

lemma run_clusters_single: "run_clusters a a = [a]"
  by (simp add: run_clusters_def)

lemma run_clusters_snoc:
  assumes "a \<le> z" "z + 1 \<noteq> 0"
  shows "run_clusters a (z + 1) = run_clusters a z @ [z + 1]"
proof -
  have u: "unat (z + 1) = unat z + 1" using assms(2) by (metis Suc_eq_plus1 unatSuc add.commute)
  have "unat a \<le> unat z" using assms(1) by (simp add: word_le_nat_alt)
  then have "a + of_nat (Suc (unat z - unat a)) = z + 1" by (simp add: of_nat_diff)
  then show ?thesis using u \<open>unat a \<le> unat z\<close> by (simp add: run_clusters_def Suc_diff_le)
qed

lemma data_ok_64: "data_ok nsec fw fs off \<Longrightarrow> unat (database fs) + unat (csize fs) * (unat (n_fatent fs) - 2) < 2 ^ 64"
  by (simp add: data_ok_def)

lemma covers_run:
  assumes d: "data_ok nsec fw fs off" and c: "2 \<le> a" "a \<le> z" "z < n_fatent fs"
  shows "covers fs off [frag_entry fw fs off a z] (run_clusters a z)"
    "unat (f_sector (frag_entry fw fs off a z)) + unat (f_count (frag_entry fw fs off a z)) \<le> nsec"
proof -
  let ?n = "unat (csize fs)" and ?l = "unat z - unat a"
  have le: "unat a \<le> unat z" "2 \<le> unat a" "unat z < unat (n_fatent fs)"
    using c by (simp_all add: word_le_nat_alt word_less_nat_alt)
  have val: "unat (clst2sect fs x) = unat (database fs) + ?n * (unat x - 2)" if "a \<le> x" "x \<le> z" for x
    using that c by (intro clst2sect_value data_ok_64 [OF d]) auto
  have split: "?n * (unat z - 2) = ?n * (unat a - 2) + ?n * ?l"
    using le by (simp flip: add_mult_distrib2)
  have top: "?n * (unat z - 2) + ?n \<le> ?n * (unat (n_fatent fs) - 2)"
  proof -
    have "Suc (unat z - 2) \<le> unat (n_fatent fs) - 2" using le by linarith
    then have "?n * Suc (unat z - 2) \<le> ?n * (unat (n_fatent fs) - 2)" by (rule mult_le_mono2)
    then show ?thesis by simp
  qed
  have sec: "unat (clst2sect fs a + off) = unat (database fs) + ?n * (unat a - 2) + unat off"
    using val [of a] c(2) split top d by (subst unat_add_lt) (auto simp: data_ok_def)
  have "clst2sect fs a \<le> clst2sect fs z" using val [of a] val [of z] c(2) split by (simp add: word_le_nat_alt)
  then have "unat (clst2sect fs z - clst2sect fs a) = ?n * ?l"
    using val [of a] val [of z] c(2) split by (simp add: unat_sub_le)
  then have cnt: "unat (clst2sect fs z - clst2sect fs a + ucast (csize fs)) = ?n * Suc ?l"
    using split top d by (subst unat_add_lt) (auto simp: data_ok_def)
  have lt: "?n * Suc ?l < 2 ^ fw" using split top d by (simp add: data_ok_def)
  have f: "unat (f_sector (frag_entry fw fs off a z)) = unat (database fs) + ?n * (unat a - 2) + unat off"
    "unat (f_count (frag_entry fw fs off a z)) = ?n * Suc ?l"
    unfolding frag_entry_def using sec cnt lt by (simp_all add: unsigned_take_bit_eq take_bit_nat_eq_self del: mult_Suc_right)
  have lba: "frag_lba [frag_entry fw fs off a z] (i * ?n + j) = Some (unat (clst2sect fs (run_clusters a z ! i)) + unat off + j)"
    if i: "i < Suc ?l" and j: "j < ?n" for i j
  proof -
    have ij: "i * ?n + j < ?n * Suc ?l"
    proof -
      have "i * ?n + j < Suc i * ?n" using j by simp
      also have "\<dots> \<le> Suc ?l * ?n" using i by (intro mult_le_mono1) simp
      finally show ?thesis by (simp only: mult.commute)
    qed
    have ui: "unat (a + of_nat i) = unat a + i" using unat_run [OF c(2)] i by simp
    then have "a \<le> a + of_nat i" "a + of_nat i \<le> z" using i le by (simp_all add: word_le_nat_alt)
    from val [OF this] have "unat (clst2sect fs (run_clusters a z ! i)) = unat (database fs) + ?n * (unat a - 2) + i * ?n"
      using ui le i by (simp add: run_clusters_def nth_append add_mult_distrib2 [symmetric] del: upt_Suc)
        (simp flip: add_mult_distrib2 add: mult.commute [of i])
    then show ?thesis using ij f by (simp del: mult_Suc_right)
  qed
  show "covers fs off [frag_entry fw fs off a z] (run_clusters a z)"
    using lba f(2) by (simp add: covers_def mult.commute del: mult_Suc_right)
  show "unat (f_sector (frag_entry fw fs off a z)) + unat (f_count (frag_entry fw fs off a z)) \<le> nsec"
    using f split top d by (simp add: data_ok_def)
qed

section \<open>The loop\<close>

text \<open>The objects \<open>get_fat\<close> can follow: on exFAT a file with a chain in the table or a contiguous one.\<close>

definition file_ok :: "fatfs \<Rightarrow> ffobjid \<Rightarrow> bool" where
  "file_ok fs obj \<longleftrightarrow> fs_type fs \<noteq> FS_NONE \<and> ob_objsize obj \<noteq> 0 \<and> ob_sclust obj \<noteq> 0
     \<and> (fs_type fs = FS_EXFAT \<longrightarrow> ob_stat obj = 2 \<or> ob_stat obj = 0 \<and> ob_n_frag obj = 0)"

lemma is_chain_cong:
  assumes "\<And>c. c < n \<Longrightarrow> nx c = nx' c"
  shows "is_chain nx n cl = is_chain nx' n cl"
  using assms by (induction nx n cl rule: is_chain.induct) auto

lemma same_volume_frags:
  assumes "same_volume fs fs'"
  shows "clst2sect fs' = clst2sect fs" "frag_entry fw fs' = frag_entry fw fs" "covers fs' = covers fs"
    "data_ok nsec fw fs' = data_ok nsec fw fs" "file_ok fs' = file_ok fs"
proof -
  note eq = same_volume_fields [OF assms]
  show c: "clst2sect fs' = clst2sect fs" by (intro ext) (simp only: clst2sect_def eq)
  show "frag_entry fw fs' = frag_entry fw fs" "covers fs' = covers fs"
    "data_ok nsec fw fs' = data_ok nsec fw fs" "file_ok fs' = file_ok fs"
    by (simp_all add: fun_eq_iff frag_entry_def covers_def data_ok_def file_ok_def eq c)
qed

context fat_device
begin

lemma keeps_next:
  assumes "coherent fs s" "keeps fs s fs' s'" "c < n_fatent fs"
  shows "chain_next fs' obj (view fs' s') c = chain_next fs obj (view fs s) c"
proof -
  have sv: "same_volume fs fs'" using assms(2) by (simp add: keeps_def)
  have "unat c < unat (n_fatent fs)" using assms(3) by (simp add: word_less_nat_alt)
  then show ?thesis using keeps_value [OF assms(1,2)] same_volume_fields [OF sv] same_volume_fat [OF sv]
    by (simp add: chain_next_def)
qed

lemma get_fat_next:
  assumes co: "coherent fs s" and c: "2 \<le> clst" "clst < n_fatent fs" and f: "file_ok fs obj"
    and run: "get_fat env mounted fs obj clst s = (v, fs', s')"
  shows "keeps fs s fs' s' \<and> (v = 0xffffffff \<or> unat v = chain_next fs obj (view fs s) clst)"
proof (cases "fs_type fs = FS_EXFAT \<and> ob_stat obj = 2")
  case True
  have nc: "\<not> (clst < 2 \<or> clst \<ge> n_fatent fs)" using c by auto
  note run' = run [unfolded get_fat_def Let_def if_not_P [OF nc]]
  show ?thesis using run' True f keeps_refl [OF co]
    by (auto simp: chain_next_def file_ok_def Let_def split: if_splits)
next
  case False
  then show ?thesis using get_fat_ok [OF co c _ _ run] f by (auto simp: file_ok_def chain_next_def)
qed

text \<open>What the loop returns: a disk or chain error, or the runs \<open>G\<close> of the rest of the chain.\<close>

definition rest_listed :: "nat \<Rightarrow> nat \<Rightarrow> ffobjid \<Rightarrow> u64 \<Rightarrow> nat \<Rightarrow> nat \<Rightarrow> u32 \<Rightarrow> u32 \<Rightarrow> nat \<Rightarrow> bd_fragment list \<Rightarrow> fatfs \<Rightarrow> 's \<Rightarrow>
    int \<Rightarrow> bd_fragment list \<Rightarrow> bool" where
  "rest_listed big fw obj off mx n a z fc out fs s r out' \<longleftrightarrow>
     (\<exists>G cl. r = int fc + int (length G) \<and> out' = out @ take (mx - fc) G \<and> covers fs off G (run_clusters a z @ cl)
        \<and> length cl = n - 1 \<and> is_chain (chain_next fs obj (view fs s)) (n_fatent fs) (z # cl)
        \<and> (\<forall>g \<in> set G. unat (f_sector g) + unat (f_count g) \<le> big))"

lemma frag_loop_ok:
  assumes "coherent fs s" "2 \<le> a" "a \<le> z" "z < n_fatent fs" "1 \<le> n" "data_ok big fw fs off" "file_ok fs obj"
    and "frag_loop env mounted fw obj off mx n a z fc out fs s = (r, out', fs', s')"
  shows "keeps fs s fs' s' \<and> (r = - EIO \<or> rest_listed big fw obj off mx n a z fc out fs s r out')"
  using assms
proof (induction n arbitrary: a z fc out fs s)
  case (Suc n)
  obtain v fs1 s1 where gf: "get_fat env mounted fs obj z s = (v, fs1, s1)" by (cases rule: prod_cases3)
  have z2: "2 \<le> z" using Suc.prems(2,3) by (rule order_trans)
  have kp: "keeps fs s fs1 s1" and v: "v = 0xffffffff \<or> unat v = chain_next fs obj (view fs s) z"
    using get_fat_next [OF Suc.prems(1) z2 Suc.prems(4,7) gf] by simp_all
  then have co1: "coherent fs1 s1" and sv: "same_volume fs fs1" by (simp_all add: keeps_def)
  note eq = same_volume_fields [OF sv] same_volume_frags [OF sv]
  note run = Suc.prems(8) [unfolded frag_loop.simps [of _ _ _ _ _ _ "Suc n"] gf Let_def prod.case eq]
  have emit: "frag_emit fw fs1 off mx fc a z out = out @ take (mx - fc) [frag_entry fw fs off a z]"
    by (simp add: frag_emit_def eq take_Cons')
  note R = covers_run [OF Suc.prems(6,2,3,4)]
  show ?case
  proof (cases "n = 0")
    case True
    then show ?thesis using run kp v emit R z2 Suc.prems(4)
      by (auto simp: rest_listed_def word_less_nat_alt intro!: exI [of _ "[frag_entry fw fs off a z]"] split: if_splits)
  next
    case n: False
    show ?thesis
    proof (cases "v = 0xffffffff \<or> v < 2 \<or> v \<ge> n_fatent fs")
      case True
      then show ?thesis using run n kp by auto
    next
      case False
      then have v2: "2 \<le> v" "v < n_fatent fs" and nx: "chain_next fs obj (view fs s) z = unat v" using v by auto
      have chain: "is_chain (chain_next fs1 obj (view fs1 s1)) (n_fatent fs) cl = is_chain (chain_next fs obj (view fs s)) (n_fatent fs) cl" for cl
        by (rule is_chain_cong) (rule keeps_next [OF Suc.prems(1) kp])
      show ?thesis
      proof (cases "v = z + 1")
        case True
        have nz: "z + 1 \<noteq> 0" using True v2 by auto
        then have "unat (z + 1) = unat z + 1" by (metis Suc_eq_plus1 unatSuc add.commute)
        then have az: "a \<le> z + 1" using Suc.prems(3) by (simp add: word_le_nat_alt)
        have "frag_loop env mounted fw obj off mx n a v fc out fs1 s1 = (r, out', fs', s')"
          using run n False True by simp
        then have IH: "keeps fs1 s1 fs' s' \<and> (r = - EIO \<or> rest_listed big fw obj off mx n a v fc out fs1 s1 r out')"
          using Suc.prems n v2 True az eq by (intro Suc.IH [OF co1]) auto
        moreover have "rest_listed big fw obj off mx (Suc n) a z fc out fs s r out'"
          if rl: "rest_listed big fw obj off mx n a v fc out fs1 s1 r out'"
        proof -
          obtain G cl where G: "r = int fc + int (length G)" "out' = out @ take (mx - fc) G"
            "covers fs off G (run_clusters a v @ cl)" "length cl = n - 1" "\<forall>g \<in> set G. unat (f_sector g) + unat (f_count g) \<le> big"
            and ch: "is_chain (chain_next fs obj (view fs s)) (n_fatent fs) (v # cl)"
            using rl unfolding rest_listed_def chain eq by blast
          have "run_clusters a v @ cl = run_clusters a z @ (v # cl)"
            using run_clusters_snoc [OF Suc.prems(3) nz] True by simp
          moreover have "is_chain (chain_next fs obj (view fs s)) (n_fatent fs) (z # v # cl)"
            using ch nx z2 Suc.prems(4) by simp
          ultimately show ?thesis unfolding rest_listed_def using G n
            by (intro exI [of _ G] exI [of _ "v # cl"]) simp
        qed
        ultimately show ?thesis using keeps_trans [OF kp] by blast
      next
        case new: False
        have "frag_loop env mounted fw obj off mx n v v (fc + 1) (out @ take (mx - fc) [frag_entry fw fs off a z]) fs1 s1 = (r, out', fs', s')"
          using run n False new emit by simp
        then have IH: "keeps fs1 s1 fs' s' \<and> (r = - EIO \<or>
            rest_listed big fw obj off mx n v v (fc + 1) (out @ take (mx - fc) [frag_entry fw fs off a z]) fs1 s1 r out')"
          using Suc.prems n v2 eq by (intro Suc.IH [OF co1]) auto
        moreover have "rest_listed big fw obj off mx (Suc n) a z fc out fs s r out'"
          if rl: "rest_listed big fw obj off mx n v v (fc + 1) (out @ take (mx - fc) [frag_entry fw fs off a z]) fs1 s1 r out'"
        proof -
          obtain G cl where G: "r = int (fc + 1) + int (length G)" "out' = (out @ take (mx - fc) [frag_entry fw fs off a z]) @ take (mx - (fc + 1)) G"
            "covers fs off G (run_clusters v v @ cl)" "length cl = n - 1" "\<forall>g \<in> set G. unat (f_sector g) + unat (f_count g) \<le> big"
            and ch: "is_chain (chain_next fs obj (view fs s)) (n_fatent fs) (v # cl)"
            using rl unfolding rest_listed_def chain eq by blast
          let ?G = "frag_entry fw fs off a z # G"
          have "out' = out @ take (mx - fc) ?G" using G(2) by (auto simp: take_Cons')
          moreover have "covers fs off ?G (run_clusters a z @ (v # cl))"
            using covers_append [OF R(1) G(3)] by (simp add: run_clusters_single)
          moreover have "is_chain (chain_next fs obj (view fs s)) (n_fatent fs) (z # v # cl)"
            using ch nx z2 Suc.prems(4) by simp
          ultimately show ?thesis unfolding rest_listed_def using G(1,4,5) n R(2)
            by (intro exI [of _ ?G] exI [of _ "v # cl"]) simp
        qed
        ultimately show ?thesis using keeps_trans [OF kp] by blast
      qed
    qed
  qed
qed simp

end

section \<open>Properties\<close>

text \<open>\<open>get_frag_list\<close> lists the file: it returns \<open>-EIO\<close>, 0 for an empty file, or the number of runs of
  the file's cluster chain. In the last case the file has as many clusters as its size needs, they
  form a chain of the table from the first cluster to an end mark, the runs \<open>F\<close> place the sectors of
  these clusters in order on the whole disk (partition offset included), and the buffer holds as
  many runs as fit. It returns for every table, cyclic ones included, and changes nothing.\<close>

theorem frag_list_correct:
  assumes "fat_device ops ok dsk ssz nsec env b" "window_ok ok dsk ssz nsec mounted b fs s"
    and "ob_objsize obj \<noteq> 0 \<Longrightarrow> ob_sclust obj \<noteq> 0 \<Longrightarrow> file_ok fs obj"
    and "data_ok big fw fs (sectorOffset (de_desc env b))" "unat (sectorSize (de_desc env b)) = ssz"
    and "get_frag_list env mounted fsz fw fs obj rdata s = (r, out, fs', s')"
  shows "window_ok ok dsk ssz nsec mounted b fs' s' \<and>
    (r = - EIO \<or> r = 0 \<and> ob_objsize obj = 0 \<or>
     (\<exists>F cl. r = int (length F) \<and> out = take (case rdata of None \<Rightarrow> 0 | Some n \<Rightarrow> n div fsz) F
        \<and> length cl = unat ((ob_objsize obj - 1) div (ucast (csize fs) * ucast (sectorSize (de_desc env b))) + 1)
        \<and> hd cl = ob_sclust obj \<and> is_chain (chain_next fs obj (window_view dsk ssz fs s)) (n_fatent fs) cl
        \<and> covers fs (sectorOffset (de_desc env b)) F cl \<and> frags_ok big F))"
proof -
  let ?bd = "de_desc env b" and ?mx = "case rdata of None \<Rightarrow> 0 | Some n \<Rightarrow> n div fsz"
  define cc where "cc = (ob_objsize obj - 1) div (ucast (csize fs) * ucast (sectorSize ?bd)) + 1"
  let ?bad = "n_fatent fs < 3 \<or> cc = 0 \<or> cc > ucast (n_fatent fs - 2) \<or> ob_sclust obj < 2 \<or> ob_sclust obj \<ge> n_fatent fs"
  have md: "mounted_dev mounted (pdrv fs) = Some b" using assms(2) by (simp add: window_ok_def)
  note run = assms(6) [unfolded get_frag_list_def Let_def md option.case cc_def [symmetric]]
  show ?thesis
  proof (cases "ob_objsize obj = 0 \<or> ?bad")
    case True
    then show ?thesis using run assms(2) by (auto split: if_splits)
  next
    case False
    let ?n = "unat (ucast cc :: u32)"
    have sc: "2 \<le> ob_sclust obj" "ob_sclust obj < n_fatent fs" using False by auto
    have n3: "2 \<le> n_fatent fs" using sc by (rule order_trans [OF _ less_imp_le])
    have ccle: "unat cc \<le> unat (n_fatent fs) - 2"
    proof -
      have "cc \<le> ucast (n_fatent fs - 2)" using False by auto
      then show ?thesis using unat_sub_le [OF n3] by (simp add: word_le_nat_alt)
    qed
    have "unat (n_fatent fs) < 2 ^ 32" by (rule unat_bound) simp
    then have n: "?n = unat cc" using ccle by (simp add: unsigned_ucast_eq take_bit_nat_eq_self)
    have n1: "1 \<le> ?n" using False n by (simp add: Suc_le_eq unat_gt_0)
    have "ob_sclust obj \<noteq> 0" using sc(1) by auto
    then have fo: "file_ok fs obj" using assms(3) False by blast
    have "frag_loop env mounted fw obj (sectorOffset ?bd) ?mx ?n (ob_sclust obj) (ob_sclust obj) 0 [] fs s = (r, out, fs', s')"
      using run False by (simp split: if_splits)
    note L = fat_device.frag_loop_ok [OF assms(1,2) sc(1) order_refl sc(2) n1 assms(4) fo this]
    have w: "window_ok ok dsk ssz nsec mounted b fs' s'" using L fat_device.keeps_def [OF assms(1)] by blast
    show ?thesis
    proof (cases "r = - EIO")
      case False
      then obtain G cl where G: "r = int (length G)" "out = take ?mx G" "covers fs (sectorOffset ?bd) G (ob_sclust obj # cl)"
        "length cl = ?n - 1" "is_chain (chain_next fs obj (window_view dsk ssz fs s)) (n_fatent fs) (ob_sclust obj # cl)"
        "\<forall>g \<in> set G. unat (f_sector g) + unat (f_count g) \<le> big"
        using L unfolding fat_device.rest_listed_def [OF assms(1)] run_clusters_single by auto
      have len: "length (ob_sclust obj # cl) = unat cc" using G(4) n n1 by simp
      have "file_size G = unat cc * unat (csize fs)" using G(3) unfolding covers_def len by blast
      also have "\<dots> \<le> unat (csize fs) * (unat (n_fatent fs) - 2)" using ccle by (simp add: mult.commute)
      finally have "frags_ok big G" using G(6) assms(4) by (auto simp: frags_ok_def data_ok_def)
      then show ?thesis using w G(1-3,5) len unfolding cc_def
        by (intro conjI disjI2 exI [of _ G] exI [of _ "ob_sclust obj # cl"]) simp_all
    qed (use w in simp)
  qed
qed

text \<open>A file of three clusters, 5, 6 and 9, of one sector each, on the memory disk.\<close>

definition chain_disk :: "nat \<Rightarrow> bytes" where
  "chain_disk = (zero_disk 512)(1 := (replicate 512 0)[10 := 6, 12 := 9, 18 := 0xff, 19 := 0xff])"

definition chain_file :: ffobjid where
  "chain_file = \<lparr>ob_stat = 0, ob_sclust = 5, ob_objsize = 1500, ob_n_cont = 0, ob_n_frag = 0\<rparr>"

lemma chain_disk_run: "\<exists>fs' s'. get_frag_list ram_env [Some (DevBd 0)] 12 32 small_volume chain_file (Some 48) chain_disk
   = (2, [\<lparr>f_sector = 11, f_count = 2\<rparr>, \<lparr>f_sector = 15, f_count = 1\<rparr>], fs', s')"
  by (simp add: get_frag_list_def chain_file_def small_volume_def mounted_dev_at ram_env_def frag_loop.simps get_fat_def
    with_window_def move_window_def sync_window_def disk_read_def ram_ops_def chain_disk_def overlay_def ld_word_def nth_append
    frag_emit_def frag_entry_def clst2sect_def)

lemma chain_disk_ok: "window_ok (ram_inv 512) id 512 1000 [Some (DevBd 0)] (DevBd 0) small_volume chain_disk"
  using small_volume_ok by (simp add: window_ok_def chain_disk_def ram_inv_def small_volume_def)

lemma chain_file_ok: "file_ok small_volume chain_file" "data_ok 1000 32 small_volume (sectorOffset (de_desc ram_env (DevBd 0)))"
    "unat (sectorSize (de_desc ram_env (DevBd 0))) = 512"
  by (simp_all add: file_ok_def small_volume_def chain_file_def data_ok_def ram_env_def)

theorem frag_list_correct_witness:
  "\<exists>r out fs' s' F cl. get_frag_list ram_env [Some (DevBd 0)] 12 32 small_volume chain_file (Some 48) chain_disk = (r, out, fs', s')
     \<and> r = 2 \<and> length F = 2 \<and> out = take 4 F \<and> length cl = 3 \<and> hd cl = 5 \<and> covers small_volume 0 F cl"
proof -
  obtain out fs' s' where run: "get_frag_list ram_env [Some (DevBd 0)] 12 32 small_volume chain_file (Some 48) chain_disk = (2, out, fs', s')"
    using chain_disk_run by blast
  have d: "sectorOffset (de_desc ram_env (DevBd 0)) = 0" "sectorSize (de_desc ram_env (DevBd 0)) = 512"
    "ob_objsize chain_file = 1500" "ob_sclust chain_file = 5" "csize small_volume = 1"
    by (simp_all add: ram_env_def chain_file_def small_volume_def)
  show ?thesis using frag_list_correct [OF ram_fat_device chain_disk_ok chain_file_ok(1,2,3) run] run
    unfolding d by fastforce
qed

text \<open>C13. From the file system to the raw disk: when the caller's buffer was large enough, a read of
  the listed runs with \<open>bd_defrag_read\<close> on the whole disk that succeeds returns the sectors of the
  file's clusters, in file order.\<close>

theorem frag_list_defrag:
  assumes "fat_device ops ok dsk ssz nsec env b" "window_ok ok dsk ssz nsec mounted b fs s"
    and "ob_objsize obj \<noteq> 0 \<Longrightarrow> ob_sclust obj \<noteq> 0 \<Longrightarrow> file_ok fs obj"
    and "data_ok big fw fs (sectorOffset (de_desc env b))" "unat (sectorSize (de_desc env b)) = ssz" "csize fs \<noteq> 0"
    and "get_frag_list env mounted fsz fw fs obj (Some len) s = (r, out, fs', s')" "0 < r" "r \<le> int (len div fsz)"
    and "block_store ops2 ok2 dsk2 ssz big" "ok2 t" "bd_defrag_read ops2 out t a k = (int (unat k), d, t')" "k \<noteq> 0"
  shows "\<exists>cl. hd cl = ob_sclust obj \<and> is_chain (chain_next fs obj (window_view dsk ssz fs s)) (n_fatent fs) cl
    \<and> unat a + unat k \<le> length cl * unat (csize fs)
    \<and> d = sectors (\<lambda>i. dsk2 t (unat (clst2sect fs (cl ! (i div unat (csize fs)))) + unat (sectorOffset (de_desc env b))
                               + i mod unat (csize fs))) (unat a) (unat k)"
proof -
  let ?off = "sectorOffset (de_desc env b)" and ?cs = "unat (csize fs)"
  have pos: "0 < ?cs" using assms(6) by (simp add: unat_gt_0)
  obtain F cl where F: "r = int (length F)" "out = take (len div fsz) F" "hd cl = ob_sclust obj"
      "is_chain (chain_next fs obj (window_view dsk ssz fs s)) (n_fatent fs) cl" "covers fs ?off F cl" "frags_ok big F"
    using frag_list_correct [OF assms(1-5,7)] assms(8) by auto
  have out: "out = F" using F(1,2) assms(9) by simp
  have rd: "unat a + unat k \<le> file_size F" "d = sectors (file_sec F (dsk2 t)) (unat a) (unat k)"
    using block_store.defrag_read [OF assms(10,11) F(6) assms(12) [unfolded out]] assms(13) by simp_all
  have sz: "file_size F = length cl * ?cs" using F(5) by (simp add: covers_def)
  have "file_sec F (dsk2 t) i = dsk2 t (unat (clst2sect fs (cl ! (i div ?cs))) + unat ?off + i mod ?cs)"
    if "i < unat a + unat k" for i
  proof -
    have "i < length cl * ?cs" using that rd(1) sz by linarith
    then have "i div ?cs < length cl" by (rule less_mult_imp_div_less)
    then have "frag_lba F (i div ?cs * ?cs + i mod ?cs) = Some (unat (clst2sect fs (cl ! (i div ?cs))) + unat ?off + i mod ?cs)"
      using F(5) pos by (simp only: covers_def mod_less_divisor)
    then show ?thesis by (simp add: file_sec_def)
  qed
  then have "d = sectors (\<lambda>i. dsk2 t (unat (clst2sect fs (cl ! (i div ?cs))) + unat ?off + i mod ?cs)) (unat a) (unat k)"
    unfolding rd(2) by (intro sectors_cong) simp
  then show ?thesis using F(3,4) rd(1) sz by auto
qed

theorem frag_list_defrag_witness:
  "\<exists>cl d t'. bd_defrag_read (ram_ops 512 1000) [\<lparr>f_sector = 11, f_count = 2\<rparr>, \<lparr>f_sector = 15, f_count = 1\<rparr>] chain_disk 1 2 = (2, d, t')
     \<and> hd cl = 5 \<and> 3 \<le> length cl
     \<and> d = sectors (\<lambda>i. chain_disk (unat (clst2sect small_volume (cl ! i)))) 1 2"
proof -
  let ?F = "[\<lparr>f_sector = 11, f_count = 2\<rparr>, \<lparr>f_sector = 15, f_count = 1\<rparr>]"
  obtain fs' s' where run: "get_frag_list ram_env [Some (DevBd 0)] 12 32 small_volume chain_file (Some 48) chain_disk = (2, ?F, fs', s')"
    using chain_disk_run by blast
  have inv: "ram_inv 512 chain_disk" using chain_disk_ok by (simp add: window_ok_def)
  have fo: "frags_ok 1000 ?F" by (simp add: frags_ok_def)
  obtain d t' where rd: "bd_defrag_read (ram_ops 512 1000) ?F chain_disk 1 2 = (int (unat (2 :: u16)), d, t')"
    using ram512.defrag_read_loop_succeeds [OF inv fo, of 1 2 "[]"]
    by (cases "defrag_read_loop (ram_ops 512 1000) ?F chain_disk 1 2 []") (simp add: bd_defrag_read_def)
  have e: "csize small_volume \<noteq> 0" "(0 :: int) < 2" "(2 :: int) \<le> int (48 div 12)" "(2 :: u16) \<noteq> 0"
    "unat (csize small_volume) = 1" "sectorOffset (de_desc ram_env (DevBd 0)) = 0" "ob_sclust chain_file = 5"
    by (simp_all add: small_volume_def ram_env_def chain_file_def)
  from frag_list_defrag [OF ram_fat_device chain_disk_ok chain_file_ok(1,2,3) e(1) run e(2,3) ram512.block_store_axioms inv rd e(4)]
  obtain cl where "hd cl = ob_sclust chain_file" "unat (1 :: u64) + unat (2 :: u16) \<le> length cl * unat (csize small_volume)"
    "d = sectors (\<lambda>i. id chain_disk (unat (clst2sect small_volume (cl ! (i div unat (csize small_volume))))
       + unat (sectorOffset (de_desc ram_env (DevBd 0))) + i mod unat (csize small_volume))) (unat (1 :: u64)) (unat (2 :: u16))"
    by blast
  then show ?thesis using rd unfolding e(5,6,7) by (intro exI [of _ cl] exI [of _ d] exI [of _ t']) simp
qed

end
