(* ===== verification/Fs_Files.thy ===== *)
theory Fs_Files
  imports Fs_Mount Frag_List
begin

text \<open>
  The file operations \<open>iomanX\<close> calls in \<open>__bdm_assault/src/bdmfs/bdmfs_fs_driver.c\<close>: the tables of file
  and directory objects, opening with a fast-seek link map (static or on the heap), closing, seeking,
  reading, writing, directories, \<open>getstat\<close>, \<open>ioctl2\<close> and renaming. The FatFs functions are the parameter
  \<open>'w ff_env\<close>; the heap is part of the state. Shown: every sequence of calls keeps the tables and the
  heap consistent (each heap block belongs to exactly one open file, none leaks and none is
  freed twice), and the time stamp of \<open>getstat\<close> is the one FatFs stored except for the seconds.
\<close>

section \<open>State and environment\<close>

abbreviation (input) MAX_FILES :: nat where "MAX_FILES \<equiv> 128"
abbreviation (input) MAX_DIRS :: nat where "MAX_DIRS \<equiv> 16"
abbreviation (input) FATFS_CLMT_STATIC_ITEMS :: u32 where "FATFS_CLMT_STATIC_ITEMS \<equiv> 4"
abbreviation (input) FATFS_CLMT_MAX_ITEMS :: u32 where "FATFS_CLMT_MAX_ITEMS \<equiv> 4096"
abbreviation (input) FR_NOT_ENOUGH_CORE :: int where "FR_NOT_ENOUGH_CORE \<equiv> 17"

abbreviation (input) FA_READ :: u8 where "FA_READ \<equiv> 0x01"
abbreviation (input) FA_WRITE :: u8 where "FA_WRITE \<equiv> 0x02"
abbreviation (input) FA_CREATE_ALWAYS :: u8 where "FA_CREATE_ALWAYS \<equiv> 0x08"
abbreviation (input) FA_OPEN_ALWAYS :: u8 where "FA_OPEN_ALWAYS \<equiv> 0x10"
abbreviation (input) FA_OPEN_APPEND :: u8 where "FA_OPEN_APPEND \<equiv> 0x30"

text \<open>Where \<open>file->cltbl\<close> points: nowhere, to the slot's row of \<open>fil_clmt\<close>, or to a heap block.\<close>

datatype cltbl_ptr = NoTable | StaticTable | HeapTable nat

text \<open>A file object: \<open>fl_open\<close> is \<open>obj.fs != NULL\<close>, \<open>fl_vol\<close> the volume it points to.\<close>

record fil =
  fl_open :: bool
  fl_vol :: nat
  fl_obj :: ffobjid
  fl_fptr :: u64
  fl_cltbl :: cltbl_ptr

record dirobj =
  dj_open :: bool
  dj_pos :: nat

record 'w ff_env =
  ff_fs :: "'w fs_env"
  ff_open :: "bdref option list \<Rightarrow> string \<Rightarrow> u8 \<Rightarrow> fil \<Rightarrow> 'w \<Rightarrow> int \<times> fil \<times> 'w"
  ff_close :: "bdref option list \<Rightarrow> fil \<Rightarrow> 'w \<Rightarrow> int \<times> fil \<times> 'w"
  ff_lseek :: "bdref option list \<Rightarrow> fil \<Rightarrow> u64 \<Rightarrow> 'w \<Rightarrow> int \<times> fil \<times> 'w"
  ff_linkmap :: "bdref option list \<Rightarrow> fil \<Rightarrow> u32 \<Rightarrow> 'w \<Rightarrow> int \<times> u32 \<times> fil \<times> 'w"
  ff_read :: "bdref option list \<Rightarrow> fil \<Rightarrow> u32 \<Rightarrow> 'w \<Rightarrow> int \<times> bytes \<times> u32 \<times> fil \<times> 'w"
  ff_write :: "bdref option list \<Rightarrow> fil \<Rightarrow> bytes \<Rightarrow> u32 \<Rightarrow> 'w \<Rightarrow> int \<times> u32 \<times> fil \<times> 'w"
  ff_unlink :: "bdref option list \<Rightarrow> string \<Rightarrow> 'w \<Rightarrow> int \<times> 'w"
  ff_mkdir :: "bdref option list \<Rightarrow> string \<Rightarrow> 'w \<Rightarrow> int \<times> 'w"
  ff_rename :: "bdref option list \<Rightarrow> string \<Rightarrow> string \<Rightarrow> 'w \<Rightarrow> int \<times> 'w"
  ff_opendir :: "bdref option list \<Rightarrow> string \<Rightarrow> dirobj \<Rightarrow> 'w \<Rightarrow> int \<times> dirobj \<times> 'w"
  ff_closedir :: "bdref option list \<Rightarrow> dirobj \<Rightarrow> 'w \<Rightarrow> int \<times> dirobj \<times> 'w"
  ff_readdir :: "bdref option list \<Rightarrow> dirobj \<Rightarrow> 'w \<Rightarrow> int \<times> filinfo \<times> dirobj \<times> 'w"
  mem_ok :: "u32 \<Rightarrow> 'w \<Rightarrow> bool"
  vol :: "'w \<Rightarrow> nat \<Rightarrow> fatfs"
  set_vol :: "nat \<Rightarrow> fatfs \<Rightarrow> 'w \<Rightarrow> 'w"
  devices :: "'w disk_env"

text \<open>The statics of the file part; \<open>live\<close> are the heap blocks not yet freed.\<close>

record 'w fs_state =
  drv :: "'w fs_driver"
  fils :: "fil list"
  dyn_clmt :: "nat option list"
  dirs :: "dirobj list"
  next_block :: nat
  live :: "nat set"

text \<open>An \<open>iop_file_t\<close>: \<open>fd_priv\<close> is the index of the object \<open>privdata\<close> points to.\<close>

record iop_file =
  fd_unit :: int
  fd_priv :: "nat option"

record open_flags =
  o_rdonly :: bool
  o_wronly :: bool
  o_creat :: bool
  o_trunc :: bool
  o_append :: bool

section \<open>Helpers\<close>

definition fs_lock_state :: "'w fs_state \<Rightarrow> 'w fs_state option" where
  "fs_lock_state s = map_option (\<lambda>d. s\<lparr>drv := d\<rparr>) (fs_lock (drv s))"

definition fs_unlock_state :: "'w fs_state \<Rightarrow> 'w fs_state" where
  "fs_unlock_state s = s\<lparr>drv := fs_unlock (drv s)\<rparr>"

definition set_world :: "'w \<Rightarrow> 'w fs_state \<Rightarrow> 'w fs_state" where
  "set_world w s = s\<lparr>drv := (drv s)\<lparr>world := w\<rparr>\<rparr>"

definition put_fil :: "nat \<Rightarrow> fil \<Rightarrow> 'w fs_state \<Rightarrow> 'w fs_state" where
  "put_fil i f s = s\<lparr>fils := (fils s)[i := f]\<rparr>"

definition fs_malloc :: "'w ff_env \<Rightarrow> u32 \<Rightarrow> 'w fs_state \<Rightarrow> nat option \<times> 'w fs_state" where
  "fs_malloc env sz s =
     (if mem_ok env sz (world (drv s))
      then (Some (next_block s), s\<lparr>next_block := next_block s + 1, live := insert (next_block s) (live s)\<rparr>)
      else (None, s))"

definition fs_free :: "nat \<Rightarrow> 'w fs_state \<Rightarrow> 'w fs_state" where
  "fs_free a s = s\<lparr>live := live s - {a}\<rparr>"

text \<open>The path with the volume number of the unit in front.\<close>

definition modified_name :: "int \<Rightarrow> string \<Rightarrow> string" where
  "modified_name unit name =
     (if unit \<noteq> 0 then char_of (nat ((48 + unit) mod 256)) # '':/'' @ name else name)"

definition fs_find_free_fil_structure :: "'w fs_state \<Rightarrow> nat option" where
  "fs_find_free_fil_structure s = first_index (\<lambda>f. \<not> fl_open f) (fils s)"

definition fs_find_free_dir_structure :: "'w fs_state \<Rightarrow> nat option" where
  "fs_find_free_dir_structure s = first_index (\<lambda>f. \<not> dj_open f) (dirs s)"

section \<open>Opening and closing\<close>

definition open_mode :: "open_flags \<Rightarrow> u8" where
  "open_mode fl =
     (let m = 0; m = (if o_rdonly fl then m OR FA_READ else m);
          m = (if o_wronly fl then m OR FA_WRITE else m);
          m = (if o_creat fl then m OR FA_OPEN_ALWAYS else m);
          m = (if o_trunc fl then m OR FA_CREATE_ALWAYS else m)
      in if o_append fl then m OR FA_OPEN_APPEND else m)"

text \<open>The link map of a file opened for reading, first in the static row, then on the heap.\<close>

definition make_linkmap :: "'w ff_env \<Rightarrow> nat \<Rightarrow> 'w fs_state \<Rightarrow> int \<times> 'w fs_state" where
  "make_linkmap env i s =
     (let (r1, required, f1, w1) = ff_linkmap env (mounted_bds (drv s)) ((fils s ! i)\<lparr>fl_cltbl := StaticTable\<rparr>)
            FATFS_CLMT_STATIC_ITEMS (world (drv s));
          s1 = set_world w1 (put_fil i f1 s)
      in if r1 = FR_NOT_ENOUGH_CORE
         then let s2 = put_fil i ((fils s1 ! i)\<lparr>fl_cltbl := NoTable\<rparr>) s1
              in if required \<le> FATFS_CLMT_MAX_ITEMS
                 then case fs_malloc env (required * 4) s2 of
                        (None, s3) \<Rightarrow> (r1, s3)
                      | (Some a, s3) \<Rightarrow>
                          let (r2, n2, f2, w2) = ff_linkmap env (mounted_bds (drv s3)) ((fils s3 ! i)\<lparr>fl_cltbl := HeapTable a\<rparr>)
                                required (world (drv s3));
                              s4 = set_world w2 (put_fil i f2 s3)
                          in if r2 = FR_OK_code then (r2, s4\<lparr>dyn_clmt := (dyn_clmt s4)[i := Some a]\<rparr>)
                             else (r2, fs_free a (put_fil i ((fils s4 ! i)\<lparr>fl_cltbl := NoTable\<rparr>) s4))
                 else (r1, s2)
         else (r1, s1))"

definition fs_open :: "'w ff_env \<Rightarrow> iop_file \<Rightarrow> string \<Rightarrow> open_flags \<Rightarrow> 'w fs_state \<Rightarrow> (int \<times> iop_file \<times> 'w fs_state) option" where
  "fs_open env fd name fl s = do {
     s1 \<leftarrow> fs_lock_state s;
     case fs_find_free_fil_structure s1 of
       None \<Rightarrow> Some (- EMFILE, fd\<lparr>fd_priv := None\<rparr>, fs_unlock_state s1)
     | Some i \<Rightarrow>
         let f_mode = open_mode fl;
             (ret, f, w) = ff_open env (mounted_bds (drv s1)) (modified_name (fd_unit fd) name) f_mode (fils s1 ! i) (world (drv s1));
             s2 = set_world w (put_fil i f s1)
         in if ret \<noteq> FR_OK_code then Some (- ret, fd\<lparr>fd_priv := None\<rparr>, fs_unlock_state s2)
            else if f_mode AND FA_READ \<noteq> 0 \<and> f_mode AND FA_WRITE = 0
            then let (map_result, s3) = make_linkmap env i s2
                 in if map_result = FR_NOT_ENOUGH_CORE
                    then Some (1, fd\<lparr>fd_priv := Some i\<rparr>, fs_unlock_state (put_fil i ((fils s3 ! i)\<lparr>fl_cltbl := NoTable\<rparr>) s3))
                    else if map_result \<noteq> FR_OK_code
                    then let s4 = put_fil i ((fils s3 ! i)\<lparr>fl_cltbl := NoTable\<rparr>) s3;
                             (r, f5, w5) = ff_close env (mounted_bds (drv s4)) (fils s4 ! i) (world (drv s4))
                         in Some (- map_result, fd\<lparr>fd_priv := None\<rparr>, fs_unlock_state (set_world w5 (put_fil i f5 s4)))
                    else Some (1, fd\<lparr>fd_priv := Some i\<rparr>, fs_unlock_state s3)
            else Some (1, fd\<lparr>fd_priv := Some i\<rparr>, fs_unlock_state s2)
   }"

definition fs_close :: "'w ff_env \<Rightarrow> iop_file \<Rightarrow> 'w fs_state \<Rightarrow> (int \<times> iop_file \<times> 'w fs_state) option" where
  "fs_close env fd s = do {
     s1 \<leftarrow> fs_lock_state s;
     Some (case fd_priv fd of
             None \<Rightarrow> (- FR_OK_code, fd, fs_unlock_state s1)
           | Some i \<Rightarrow>
               let (ret, f, w) = ff_close env (mounted_bds (drv s1)) (fils s1 ! i) (world (drv s1));
                   s2 = set_world w (put_fil i f s1);
                   s3 = (case dyn_clmt s2 ! i of
                           None \<Rightarrow> s2
                         | Some a \<Rightarrow> (fs_free a (put_fil i ((fils s2 ! i)\<lparr>fl_cltbl := NoTable\<rparr>) s2))\<lparr>dyn_clmt := (dyn_clmt s2)[i := None]\<rparr>)
               in (- ret, fd\<lparr>fd_priv := None\<rparr>, fs_unlock_state s3))
   }"

section \<open>Reading, writing, seeking\<close>

datatype whence = SEEK_SET | SEEK_CUR | SEEK_END | SEEK_OTHER

definition fs_lseek64 :: "'w ff_env \<Rightarrow> iop_file \<Rightarrow> int \<Rightarrow> whence \<Rightarrow> 'w fs_state \<Rightarrow> (int \<times> 'w fs_state) option" where
  "fs_lseek64 env fd offset wh s =
     (case fd_priv fd of
        None \<Rightarrow> Some (- ENOENT, s)
      | Some i \<Rightarrow> do {
          s1 \<leftarrow> fs_lock_state s;
          let file = fils s1 ! i;
              off = (case wh of SEEK_CUR \<Rightarrow> of_int offset + fl_fptr file
                     | SEEK_END \<Rightarrow> ob_objsize (fl_obj file) + of_int offset | _ \<Rightarrow> of_int offset);
              (res, f, w) = ff_lseek env (mounted_bds (drv s1)) file off (world (drv s1));
              s2 = fs_unlock_state (set_world w (put_fil i f s1))
          in Some (if res = FR_OK_code then sint (fl_fptr (fils s2 ! i)) else - res, s2)
        })"

definition fs_lseek :: "'w ff_env \<Rightarrow> iop_file \<Rightarrow> int \<Rightarrow> whence \<Rightarrow> 'w fs_state \<Rightarrow> (int \<times> 'w fs_state) option" where
  "fs_lseek env fd offset wh s = map_option (\<lambda>(r, s'). (wrap32 r, s')) (fs_lseek64 env fd offset wh s)"

definition fs_write :: "'w ff_env \<Rightarrow> iop_file \<Rightarrow> bytes \<Rightarrow> int \<Rightarrow> 'w fs_state \<Rightarrow> (int \<times> 'w fs_state) option" where
  "fs_write env fd buffer sz s =
     (case fd_priv fd of
        None \<Rightarrow> Some (- ENOENT, s)
      | Some i \<Rightarrow> do {
          s1 \<leftarrow> fs_lock_state s;
          let (ret, bw, f, w) = ff_write env (mounted_bds (drv s1)) (fils s1 ! i) buffer (of_int sz) (world (drv s1))
          in Some (if ret = FR_OK_code then sint bw else 0, fs_unlock_state (set_world w (put_fil i f s1)))
        })"

text \<open>The data stored in the caller's buffer is part of the result.\<close>

definition fs_read :: "'w ff_env \<Rightarrow> iop_file \<Rightarrow> int \<Rightarrow> 'w fs_state \<Rightarrow> (int \<times> bytes \<times> 'w fs_state) option" where
  "fs_read env fd sz s =
     (case fd_priv fd of
        None \<Rightarrow> Some (- ENOENT, [], s)
      | Some i \<Rightarrow> do {
          s1 \<leftarrow> fs_lock_state s;
          let (ret, data, br, f, w) = ff_read env (mounted_bds (drv s1)) (fils s1 ! i) (of_int sz) (world (drv s1))
          in Some (if ret = FR_OK_code then sint br else 0, data, fs_unlock_state (set_world w (put_fil i f s1)))
        })"

definition fs_remove :: "'w ff_env \<Rightarrow> iop_file \<Rightarrow> string \<Rightarrow> 'w fs_state \<Rightarrow> (int \<times> 'w fs_state) option" where
  "fs_remove env fd name s = do {
     s1 \<leftarrow> fs_lock_state s;
     let (ret, w) = ff_unlink env (mounted_bds (drv s1)) (modified_name (fd_unit fd) name) (world (drv s1))
     in Some (- ret, fs_unlock_state (set_world w s1))
   }"

definition fs_mkdir :: "'w ff_env \<Rightarrow> iop_file \<Rightarrow> string \<Rightarrow> 'w fs_state \<Rightarrow> (int \<times> 'w fs_state) option" where
  "fs_mkdir env fd name s = do {
     s1 \<leftarrow> fs_lock_state s;
     let (ret, w) = ff_mkdir env (mounted_bds (drv s1)) (modified_name (fd_unit fd) name) (world (drv s1))
     in Some (- ret, fs_unlock_state (set_world w s1))
   }"

definition fs_rename :: "'w ff_env \<Rightarrow> iop_file \<Rightarrow> string \<Rightarrow> string \<Rightarrow> 'w fs_state \<Rightarrow> (int \<times> 'w fs_state) option" where
  "fs_rename env fd path newpath s =
     (let p = modified_name (fd_unit fd) path; q = modified_name (fd_unit fd) newpath
      in if p = q then Some (0, s)
         else do {
           s1 \<leftarrow> fs_lock_state s;
           let (ret, w) = ff_rename env (mounted_bds (drv s1)) p q (world (drv s1))
           in Some (- ret, fs_unlock_state (set_world w s1))
         })"

section \<open>Directories and file information\<close>

definition fs_dopen :: "'w ff_env \<Rightarrow> iop_file \<Rightarrow> string \<Rightarrow> 'w fs_state \<Rightarrow> (int \<times> iop_file \<times> 'w fs_state) option" where
  "fs_dopen env fd name s = do {
     s1 \<leftarrow> fs_lock_state s;
     case fs_find_free_dir_structure s1 of
       None \<Rightarrow> Some (- EMFILE, fd\<lparr>fd_priv := None\<rparr>, fs_unlock_state s1)
     | Some i \<Rightarrow>
         let (ret, dj, w) = ff_opendir env (mounted_bds (drv s1)) (modified_name (fd_unit fd) name) (dirs s1 ! i) (world (drv s1));
             s2 = set_world w (s1\<lparr>dirs := (dirs s1)[i := dj]\<rparr>)
         in Some (if ret \<noteq> FR_OK_code then (- ret, fd\<lparr>fd_priv := None\<rparr>, fs_unlock_state s2)
                  else (ret, fd\<lparr>fd_priv := Some i\<rparr>, fs_unlock_state s2))
   }"

definition fs_dclose :: "'w ff_env \<Rightarrow> iop_file \<Rightarrow> 'w fs_state \<Rightarrow> (int \<times> iop_file \<times> 'w fs_state) option" where
  "fs_dclose env fd s = do {
     s1 \<leftarrow> fs_lock_state s;
     Some (case fd_priv fd of
             None \<Rightarrow> (- ENOENT, fd, fs_unlock_state s1)
           | Some i \<Rightarrow>
               let (ret, dj, w) = ff_closedir env (mounted_bds (drv s1)) (dirs s1 ! i) (world (drv s1))
               in (- ret, fd\<lparr>fd_priv := None\<rparr>, fs_unlock_state (set_world w (s1\<lparr>dirs := (dirs s1)[i := dj]\<rparr>))))
   }"

text \<open>The mode bits of the SDK as flags.\<close>

datatype mode_flag = FIO_S_IROTH | FIO_S_IWOTH | FIO_S_IXOTH | FIO_S_IFDIR | FIO_S_IFREG

record iox_stat =
  st_mode :: "mode_flag list"
  st_attr :: u32
  st_size :: u32
  st_hisize :: u32
  st_ctime :: bytes
  st_atime :: bytes
  st_mtime :: bytes

definition stat_time :: "u16 \<Rightarrow> u16 \<Rightarrow> bytes" where
  "stat_time fdate ftime =
     (let year = drop_bit 9 fdate + 1980
      in [0, ucast (push_bit 1 (ucast ftime :: u32) AND 31), ucast (drop_bit 5 ftime AND 63), ucast (drop_bit 11 ftime),
          ucast (fdate AND 31), ucast (drop_bit 5 fdate AND 15), ucast (year AND 0xff), ucast (drop_bit 8 year AND 0xff)])"

definition fileInfoToStat :: "filinfo \<Rightarrow> iox_stat" where
  "fileInfoToStat fno =
     (let stime = stat_time (fi_fdate fno) (fi_ftime fno)
      in \<lparr>st_mode = [FIO_S_IROTH, FIO_S_IXOTH] @ (if fi_fattrib fno AND AM_DIR \<noteq> 0 then [FIO_S_IFDIR] else [FIO_S_IFREG])
                    @ (if fi_fattrib fno AND AM_RDO = 0 then [FIO_S_IWOTH] else []),
          st_attr = 511, st_size = ucast (fi_fsize fno), st_hisize = ucast (drop_bit 32 (fi_fsize fno)),
          st_ctime = stime, st_atime = stime, st_mtime = stime\<rparr>)"

text \<open>The entry stored in the caller's \<open>iox_dirent_t\<close>, if any.\<close>

definition fs_dread :: "'w ff_env \<Rightarrow> iop_file \<Rightarrow> 'w fs_state \<Rightarrow> (int \<times> (string \<times> iox_stat) option \<times> 'w fs_state) option" where
  "fs_dread env fd s =
     (case fd_priv fd of
        None \<Rightarrow> Some (- ENOENT, None, s)
      | Some i \<Rightarrow> do {
          s1 \<leftarrow> fs_lock_state s;
          let (ret, fno, dj, w) = ff_readdir env (mounted_bds (drv s1)) (dirs s1 ! i) (world (drv s1));
              s2 = fs_unlock_state (set_world w (s1\<lparr>dirs := (dirs s1)[i := dj]\<rparr>))
          in Some (if ret = FR_OK_code \<and> fi_fname fno \<noteq> []
                   then (1, Some (take 255 (fi_fname fno), fileInfoToStat fno), s2) else (0, None, s2))
        })"

definition fs_getstat :: "'w ff_env \<Rightarrow> iop_file \<Rightarrow> string \<Rightarrow> 'w fs_state \<Rightarrow> (int \<times> iox_stat option \<times> 'w fs_state) option" where
  "fs_getstat env fd name s =
     (let name_no_leading_slash = dropWhile (\<lambda>c. c = CHR ''/'') name
      in if name_no_leading_slash = [] \<or> name_no_leading_slash = ''.''
         then do {
           m \<leftarrow> fatfs_fs_driver_get_mounted_bd_from_index (mounted_bds (drv s)) (fd_unit fd);
           Some (if m = None then (- ENXIO, None, s)
                 else (0, Some \<lparr>st_mode = [FIO_S_IROTH, FIO_S_IWOTH, FIO_S_IXOTH, FIO_S_IFDIR], st_attr = 0, st_size = 0, st_hisize = 0,
                                st_ctime = replicate 8 0, st_atime = replicate 8 0, st_mtime = replicate 8 0\<rparr>, s))
         }
         else do {
           s1 \<leftarrow> fs_lock_state s;
           let (ret, fno, w) = f_stat (ff_fs env) (mounted_bds (drv s1)) (modified_name (fd_unit fd) name) (world (drv s1));
               s2 = fs_unlock_state (set_world w s1)
           in Some (if ret = FR_OK_code then (ret, Some (fileInfoToStat fno), s2) else (- ret, None, s2))
         })"

section \<open>ioctl2\<close>

datatype ioctl_cmd = USBMASS_IOCTL_RENAME | USBMASS_IOCTL_GET_CLUSTER | USBMASS_IOCTL_GET_LBA | USBMASS_IOCTL_GET_DRIVERNAME
  | USBMASS_IOCTL_CHECK_CHAIN | USBMASS_IOCTL_GET_FRAGLIST | USBMASS_IOCTL_GET_DEVICE_NUMBER | IOCTL_OTHER

text \<open>What is stored in the caller's buffer.\<close>

datatype ioctl_out = NoOut | OutU64 u64 | OutU32 u32 | OutName string | OutFrags "bd_fragment list"

text \<open>The first four bytes of a device name (its terminator included) as an \<open>int\<close>; the read leaves the
  string when it is shorter.\<close>

definition name_int :: "string \<Rightarrow> int option" where
  "name_int n = (if length n < 3 then None
     else Some (sint (le32 (map (\<lambda>c. of_char c) (n @ [CHR 0x00])) 0)))"

text \<open>\<open>get_frag_list\<close> on the file \<open>i\<close>, with the volume and the disk written back.\<close>

definition frag_list_of :: "'w ff_env \<Rightarrow> nat \<Rightarrow> nat \<Rightarrow> nat \<Rightarrow> nat option \<Rightarrow> 'w fs_state \<Rightarrow> int \<times> bd_fragment list \<times> 'w fs_state" where
  "frag_list_of env fsz fw i rdata s =
     (let file = fils s ! i;
          (r, out, fs', w) = get_frag_list (devices env) (mounted_bds (drv s)) fsz fw (vol env (world (drv s)) (fl_vol file))
            (fl_obj file) rdata (world (drv s))
      in (r, out, set_world (set_vol env (fl_vol file) fs' w) s))"

definition fs_ioctl2 :: "'w ff_env \<Rightarrow> nat \<Rightarrow> nat \<Rightarrow> iop_file \<Rightarrow> ioctl_cmd \<Rightarrow> nat option \<Rightarrow> 'w fs_state \<Rightarrow>
    (int \<times> ioctl_out \<times> 'w fs_state) option" where
  "fs_ioctl2 env fsz fw fd cmd rdata s =
     (case fd_priv fd of
        None \<Rightarrow> Some (- ENXIO, NoOut, s)
      | Some i \<Rightarrow> do {
          s1 \<leftarrow> fs_lock_state s;
          let file = fils s1 ! i; fs = vol env (world (drv s1)) (fl_vol file);
              bd = mounted_dev (mounted_bds (drv s1)) (pdrv fs)
          in (case cmd of
                USBMASS_IOCTL_RENAME \<Rightarrow> Some (- ENOENT, NoOut, fs_unlock_state s1)
              | USBMASS_IOCTL_GET_CLUSTER \<Rightarrow> Some (sint (ob_sclust (fl_obj file)), NoOut, fs_unlock_state s1)
              | USBMASS_IOCTL_GET_LBA \<Rightarrow>
                  (case rdata of
                     Some len \<Rightarrow>
                       if len < 8 then Some (- EINVAL, NoOut, fs_unlock_state s1)
                       else (case bd of
                               None \<Rightarrow> None
                             | Some b \<Rightarrow> Some (0, OutU64 (clst2sect fs (ob_sclust (fl_obj file)) + sectorOffset (de_desc (devices env) b)),
                                              fs_unlock_state s1))
                   | None \<Rightarrow> Some (- EINVAL, NoOut, fs_unlock_state s1))
              | USBMASS_IOCTL_GET_DRIVERNAME \<Rightarrow> do {
                  m \<leftarrow> fatfs_fs_driver_get_mounted_bd_from_index (mounted_bds (drv s1)) (fd_unit fd);
                  (case m of
                     None \<Rightarrow> if rdata = None then Some (- ENXIO, NoOut, fs_unlock_state s1) else None
                   | Some b \<Rightarrow> do {
                       n \<leftarrow> bd_name (de_desc (devices env) b);
                       ret \<leftarrow> name_int n;
                       Some (ret, case rdata of None \<Rightarrow> NoOut | Some len \<Rightarrow> OutName (take len n), fs_unlock_state s1)
                     })
                }
              | USBMASS_IOCTL_CHECK_CHAIN \<Rightarrow>
                  let (ret, out, s2) = frag_list_of env fsz fw i None s1
                  in Some (if ret \<ge> 0 then (if ret = 1 then 1 else 0) else ret, NoOut, fs_unlock_state s2)
              | USBMASS_IOCTL_GET_FRAGLIST \<Rightarrow>
                  let (ret, out, s2) = frag_list_of env fsz fw i rdata s1
                  in Some (ret, OutFrags out, fs_unlock_state s2)
              | USBMASS_IOCTL_GET_DEVICE_NUMBER \<Rightarrow>
                  Some (case rdata of
                          Some len \<Rightarrow>
                            if len < 4 then (- EINVAL, NoOut, fs_unlock_state s1)
                            else (case bd of
                                    None \<Rightarrow> (- ENXIO, NoOut, fs_unlock_state s1)
                                  | Some b \<Rightarrow> (0, OutU32 (devNr (de_desc (devices env) b)), fs_unlock_state s1))
                        | None \<Rightarrow> (- EINVAL, NoOut, fs_unlock_state s1))
              | IOCTL_OTHER \<Rightarrow> Some (0, NoOut, fs_unlock_state s1))
        })"

definition fs_ioctl :: "'w ff_env \<Rightarrow> nat \<Rightarrow> nat \<Rightarrow> iop_file \<Rightarrow> ioctl_cmd \<Rightarrow> 'w fs_state \<Rightarrow> (int \<times> ioctl_out \<times> 'w fs_state) option" where
  "fs_ioctl env fsz fw fd cmd s = fs_ioctl2 env fsz fw fd cmd None s"

section \<open>The heap and the tables\<close>

text \<open>What the code relies on in FatFs: \<open>f_open\<close> validates the object on success and invalidates it
  on failure, and clears \<open>cltbl\<close>; a successful \<open>f_close\<close> invalidates the object; nothing else touches these two fields.\<close>

definition ff_laws :: "'w ff_env \<Rightarrow> bool" where
  "ff_laws env \<longleftrightarrow>
     (\<forall>m p md f w r f' w'. ff_open env m p md f w = (r, f', w') \<longrightarrow>
        (if r = 0 then fl_open f' \<and> fl_cltbl f' = NoTable else \<not> fl_open f' \<and> fl_cltbl f' \<in> {fl_cltbl f, NoTable}))
   \<and> (\<forall>m f w r f' w'. ff_close env m f w = (r, f', w') \<longrightarrow> fl_cltbl f' = fl_cltbl f \<and> (r = 0 \<longrightarrow> \<not> fl_open f') \<and> (fl_open f' \<longrightarrow> fl_open f))
   \<and> (\<forall>m f x w r f' w'. ff_lseek env m f x w = (r, f', w') \<longrightarrow> fl_cltbl f' = fl_cltbl f \<and> fl_open f' = fl_open f)
   \<and> (\<forall>m f x w r n f' w'. ff_linkmap env m f x w = (r, n, f', w') \<longrightarrow> fl_cltbl f' = fl_cltbl f \<and> fl_open f' = fl_open f)
   \<and> (\<forall>m f x w r d n f' w'. ff_read env m f x w = (r, d, n, f', w') \<longrightarrow> fl_cltbl f' = fl_cltbl f \<and> fl_open f' = fl_open f)
   \<and> (\<forall>m f d x w r n f' w'. ff_write env m f d x w = (r, n, f', w') \<longrightarrow> fl_cltbl f' = fl_cltbl f \<and> fl_open f' = fl_open f)"

lemma ff_law_open:
  assumes "ff_laws env" "ff_open env m p md f w = (r, f', w')"
  shows "if r = 0 then fl_open f' \<and> fl_cltbl f' = NoTable else \<not> fl_open f' \<and> fl_cltbl f' \<in> {fl_cltbl f, NoTable}"
  using assms(1) [unfolded ff_laws_def, THEN conjunct1, rule_format, OF assms(2)] .

lemma ff_law_close:
  assumes "ff_laws env" "ff_close env m f w = (r, f', w')"
  shows "fl_cltbl f' = fl_cltbl f \<and> (r = 0 \<longrightarrow> \<not> fl_open f') \<and> (fl_open f' \<longrightarrow> fl_open f)"
  using assms(1) [unfolded ff_laws_def, THEN conjunct2, THEN conjunct1, rule_format, OF assms(2)] .

lemma ff_law_keep:
  assumes "ff_laws env"
  shows "ff_lseek env m f x w = (r, f', w') \<Longrightarrow> fl_cltbl f' = fl_cltbl f \<and> fl_open f' = fl_open f"
    "ff_linkmap env m f y w = (r, n, f', w') \<Longrightarrow> fl_cltbl f' = fl_cltbl f \<and> fl_open f' = fl_open f"
    "ff_read env m f y w = (r, d, n, f', w') \<Longrightarrow> fl_cltbl f' = fl_cltbl f \<and> fl_open f' = fl_open f"
    "ff_write env m f d y w = (r, n, f', w') \<Longrightarrow> fl_cltbl f' = fl_cltbl f \<and> fl_open f' = fl_open f"
proof -
  note L = assms [unfolded ff_laws_def, THEN conjunct2, THEN conjunct2]
  show "ff_lseek env m f x w = (r, f', w') \<Longrightarrow> fl_cltbl f' = fl_cltbl f \<and> fl_open f' = fl_open f"
    by (rule L [THEN conjunct1, rule_format])
  show "ff_linkmap env m f y w = (r, n, f', w') \<Longrightarrow> fl_cltbl f' = fl_cltbl f \<and> fl_open f' = fl_open f"
    by (rule L [THEN conjunct2, THEN conjunct1, rule_format])
  show "ff_read env m f y w = (r, d, n, f', w') \<Longrightarrow> fl_cltbl f' = fl_cltbl f \<and> fl_open f' = fl_open f"
    by (rule L [THEN conjunct2, THEN conjunct2, THEN conjunct1, rule_format])
  show "ff_write env m f d y w = (r, n, f', w') \<Longrightarrow> fl_cltbl f' = fl_cltbl f \<and> fl_open f' = fl_open f"
    by (rule L [THEN conjunct2, THEN conjunct2, THEN conjunct2, rule_format])
qed

text \<open>Every heap block is the link map of exactly one slot; a free slot has none, and a file that uses a
  heap table uses the one recorded for its slot.\<close>

definition clmt_tables_ok :: "nat option list \<Rightarrow> nat set \<Rightarrow> nat \<Rightarrow> bool" where
  "clmt_tables_ok D L n \<longleftrightarrow> length D = MAX_FILES \<and> L = {a. Some a \<in> set D} \<and> (\<forall>a \<in> L. a < n)
     \<and> (\<forall>i < MAX_FILES. \<forall>j < MAX_FILES. D ! i = D ! j \<longrightarrow> D ! i \<noteq> None \<longrightarrow> i = j)"

definition fil_slot_ok :: "fil \<Rightarrow> nat option \<Rightarrow> bool" where
  "fil_slot_ok f t \<longleftrightarrow> (\<not> fl_open f \<longrightarrow> t = None) \<and> (\<forall>a. fl_cltbl f = HeapTable a \<longrightarrow> t = Some a)"

definition heap_ok :: "'w fs_state \<Rightarrow> bool" where
  "heap_ok s \<longleftrightarrow> clmt_tables_ok (dyn_clmt s) (live s) (next_block s) \<and> length (fils s) = MAX_FILES
     \<and> (\<forall>i < MAX_FILES. fil_slot_ok (fils s ! i) (dyn_clmt s ! i))"

text \<open>The driver part after a call: the lock is free again and only the world may have changed.\<close>

definition drv_same :: "'w fs_state \<Rightarrow> 'w fs_state \<Rightarrow> bool" where
  "drv_same s s' \<longleftrightarrow> (drv s')\<lparr>world := world (drv s)\<rparr> = drv s"

lemma tables_mono: "clmt_tables_ok D L n \<Longrightarrow> n \<le> m \<Longrightarrow> clmt_tables_ok D L m"
  unfolding clmt_tables_ok_def by (meson less_le_trans)

lemma tables_alloc:
  assumes t: "clmt_tables_ok D L n" and i: "i < MAX_FILES" "D ! i = None"
  shows "clmt_tables_ok (D[i := Some n]) (insert n L) (n + 1)"
proof -
  have len: "length D = MAX_FILES" and L: "\<And>a. a \<in> L \<longleftrightarrow> Some a \<in> set D" and lt: "\<And>a. a \<in> L \<Longrightarrow> a < n"
    and inj: "\<And>j k. j < MAX_FILES \<Longrightarrow> k < MAX_FILES \<Longrightarrow> D ! j = D ! k \<Longrightarrow> D ! j \<noteq> None \<Longrightarrow> j = k"
    using t by (auto simp: clmt_tables_ok_def)
  have fresh: "D ! j \<noteq> Some n" if "j < MAX_FILES" for j
    using that L [of n] lt [of n] len nth_mem [of j D] by (metis less_irrefl)
  have "Some x \<in> set (D[i := Some n]) \<longleftrightarrow> x \<in> insert n L" for x
  proof
    assume "Some x \<in> set (D[i := Some n])"
    then show "x \<in> insert n L" using L set_update_subset_insert [of D i "Some n"] by auto
  next
    assume "x \<in> insert n L"
    then consider "x = n" | j where "j < MAX_FILES" "D ! j = Some x" using L [of x] len by (auto simp: in_set_conv_nth)
    then show "Some x \<in> set (D[i := Some n])"
    proof cases
      case 2
      then have "j \<noteq> i" using i by auto
      then show ?thesis using 2 len by (metis length_list_update nth_list_update_neq nth_mem)
    qed (use i len in \<open>simp add: set_update_memI\<close>)
  qed
  moreover have "j = k" if "j < MAX_FILES" "k < MAX_FILES" "D[i := Some n] ! j = D[i := Some n] ! k" "D[i := Some n] ! j \<noteq> None" for j k
    using that inj [of j k] fresh [of j] fresh [of k] i len by (cases "j = i"; cases "k = i") (simp_all add: nth_list_update)
  moreover have "a < n + 1" if "a \<in> insert n L" for a using that lt [of a] by auto
  ultimately show ?thesis using len by (auto simp: clmt_tables_ok_def)
qed

lemma tables_free:
  assumes t: "clmt_tables_ok D L n" and i: "i < MAX_FILES" "D ! i = Some a"
  shows "clmt_tables_ok (D[i := None]) (L - {a}) n"
proof -
  have len: "length D = MAX_FILES" and L: "\<And>a. a \<in> L \<longleftrightarrow> Some a \<in> set D" and lt: "\<And>a. a \<in> L \<Longrightarrow> a < n"
    and inj: "\<And>j k. j < MAX_FILES \<Longrightarrow> k < MAX_FILES \<Longrightarrow> D ! j = D ! k \<Longrightarrow> D ! j \<noteq> None \<Longrightarrow> j = k"
    using t by (auto simp: clmt_tables_ok_def)
  have "Some x \<in> set (D[i := None]) \<longleftrightarrow> x \<in> L - {a}" for x
  proof
    assume "Some x \<in> set (D[i := None])"
    then obtain j where j: "j < MAX_FILES" "D[i := None] ! j = Some x" using len by (auto simp: in_set_conv_nth)
    then have "j \<noteq> i" "D ! j = Some x" using i len by (auto simp: nth_list_update split: if_splits)
    then show "x \<in> L - {a}" using L [of x] inj [of j i] j i len nth_mem [of j D] by auto
  next
    assume x: "x \<in> L - {a}"
    then obtain j where j: "j < MAX_FILES" "D ! j = Some x" using L [of x] len by (auto simp: in_set_conv_nth)
    moreover have "j \<noteq> i" using x j i by auto
    ultimately obtain j where "j < MAX_FILES" "D ! j = Some x" "j \<noteq> i" by blast
    then show "Some x \<in> set (D[i := None])" using len by (metis length_list_update nth_list_update_neq nth_mem)
  qed
  moreover have "j = k" if "j < MAX_FILES" "k < MAX_FILES" "D[i := None] ! j = D[i := None] ! k" "D[i := None] ! j \<noteq> None" for j k
    using that inj [of j k] i len by (cases "j = i"; cases "k = i") (simp_all add: nth_list_update)
  ultimately show ?thesis using len lt by (auto simp: clmt_tables_ok_def)
qed

lemma heap_congs [simp]:
  "heap_ok (set_world w s) = heap_ok s" "heap_ok (fs_unlock_state s) = heap_ok s" "heap_ok (s\<lparr>drv := d\<rparr>) = heap_ok s"
  "heap_ok (s\<lparr>dirs := ds\<rparr>) = heap_ok s"
  by (simp_all add: heap_ok_def set_world_def fs_unlock_state_def)

lemma state_fields [simp]:
  "fils (set_world w s) = fils s" "dyn_clmt (set_world w s) = dyn_clmt s" "live (set_world w s) = live s"
  "next_block (set_world w s) = next_block s" "dirs (set_world w s) = dirs s"
  "fils (put_fil i f s) = (fils s)[i := f]" "dyn_clmt (put_fil i f s) = dyn_clmt s" "live (put_fil i f s) = live s"
  "next_block (put_fil i f s) = next_block s" "drv (put_fil i f s) = drv s" "dirs (put_fil i f s) = dirs s"
  "fils (fs_free a s) = fils s" "dyn_clmt (fs_free a s) = dyn_clmt s" "drv (fs_free a s) = drv s"
  "live (fs_free a s) = live s - {a}" "next_block (fs_free a s) = next_block s" "dirs (fs_free a s) = dirs s"
  by (simp_all add: set_world_def put_fil_def fs_free_def)

lemma drv_chain [simp]:
  "drv_same s (set_world w s') = drv_same s s'" "drv_same s (put_fil i f s') = drv_same s s'" "drv_same s s"
  "drv_same s (fs_free a s') = drv_same s s'" "drv_same s (s'\<lparr>dyn_clmt := x\<rparr>) = drv_same s s'" "drv_same s (s'\<lparr>dirs := y\<rparr>) = drv_same s s'"
  "drv_same s (s'\<lparr>next_block := n, live := l\<rparr>) = drv_same s s'"
  by (simp_all add: drv_same_def set_world_def)

lemma heap_put: "heap_ok s \<Longrightarrow> i < MAX_FILES \<Longrightarrow> fil_slot_ok f (dyn_clmt s ! i) \<Longrightarrow> heap_ok (put_fil i f s)"
  by (simp add: heap_ok_def nth_list_update)

lemma heap_keep:
  assumes "heap_ok s" "i < MAX_FILES" "fl_open f = fl_open (fils s ! i)" "fl_cltbl f = fl_cltbl (fils s ! i)"
  shows "heap_ok (put_fil i f s)"
  using assms by (intro heap_put) (simp_all add: heap_ok_def fil_slot_ok_def)

lemma locked_call:
  assumes "mount_inv (drv s)"
  shows "fs_lock_state s = Some (s\<lparr>drv := locked (drv s)\<rparr>)"
    "drv_same (s\<lparr>drv := locked (drv s)\<rparr>) s' \<Longrightarrow> drv_same s (fs_unlock_state s')"
proof -
  show "fs_lock_state s = Some (s\<lparr>drv := locked (drv s)\<rparr>)" using with_lock(1) [OF assms] by (simp add: fs_lock_state_def)
  assume "drv_same (s\<lparr>drv := locked (drv s)\<rparr>) s'"
  then have e: "(drv s')\<lparr>world := world (drv s)\<rparr> = locked (drv s)" by (simp add: drv_same_def)
  have "(fs_unlock (drv s'))\<lparr>world := world (drv s)\<rparr> = fs_unlock ((drv s')\<lparr>world := world (drv s)\<rparr>)"
    by (simp add: fs_unlock_def)
  then show "drv_same s (fs_unlock_state s')" unfolding e with_lock(2) [OF assms] by (simp add: drv_same_def fs_unlock_state_def)
qed

lemma drv_same_inv: "drv_same s s' \<Longrightarrow> mount_inv (drv s) \<Longrightarrow> mount_inv (drv s')"
  unfolding drv_same_def by (metis mount_inv_world)

text \<open>The link map of a freshly opened file.\<close>

lemma make_linkmap_ok:
  assumes L: "ff_laws env" and h: "heap_ok s" and i: "i < MAX_FILES" and op: "fl_open (fils s ! i)" and no: "dyn_clmt s ! i = None"
    and run: "make_linkmap env i s = (r, s')"
  shows "heap_ok s' \<and> drv_same s s' \<and> fl_open (fils s' ! i) \<and> (r \<noteq> 0 \<longrightarrow> dyn_clmt s' ! i = None)"
proof -
  have len: "i < length (fils s)" "i < length (dyn_clmt s)" using h i by (auto simp: heap_ok_def clmt_tables_ok_def)
  obtain r1 q f1 w1 where m1: "ff_linkmap env (mounted_bds (drv s)) ((fils s ! i)\<lparr>fl_cltbl := StaticTable\<rparr>) FATFS_CLMT_STATIC_ITEMS
      (world (drv s)) = (r1, q, f1, w1)" by (cases rule: prod_cases4)
  have f1: "fl_cltbl f1 = StaticTable" "fl_open f1" using ff_law_keep(2) [OF L m1] op by simp_all
  define s1 where "s1 = set_world w1 (put_fil i f1 s)"
  define s2 where "s2 = put_fil i ((fils s1 ! i)\<lparr>fl_cltbl := NoTable\<rparr>) s1"
  have h1: "heap_ok s1" using heap_put [OF h i] f1 by (simp add: fil_slot_ok_def s1_def)
  have h2: "heap_ok s2" unfolding s2_def using h1 len f1 i by (intro heap_put) (simp_all add: fil_slot_ok_def s1_def)
  have op2: "fl_open (fils s2 ! i)" "dyn_clmt s2 = dyn_clmt s" "live s2 = live s" "next_block s2 = next_block s" "drv_same s s1" "drv_same s s2"
    "\<And>j. fils s2 ! j = (if j = i then f1\<lparr>fl_cltbl := NoTable\<rparr> else fils s ! j)" "length (fils s2) = length (fils s)" "dyn_clmt s1 = dyn_clmt s" "fl_open (fils s1 ! i)"
    using len f1 by (simp_all add: s1_def s2_def)
  note run' = run [unfolded make_linkmap_def m1 Let_def prod.case, folded s1_def, folded s2_def]
  show ?thesis
  proof (cases "r1 = FR_NOT_ENOUGH_CORE \<and> q \<le> FATFS_CLMT_MAX_ITEMS \<and> mem_ok env (q * 4) (world (drv s2))")
    case False
    then have "s' = s1 \<or> s' = s2" using run' by (auto simp: fs_malloc_def split: if_splits)
    then show ?thesis using h1 h2 op2 no by auto
  next
    case True
    let ?a = "next_block s"
    define s3 where "s3 = s2\<lparr>next_block := ?a + 1, live := insert ?a (live s)\<rparr>"
    have ml: "fs_malloc env (q * 4) s2 = (Some ?a, s3)" using True op2 by (simp add: fs_malloc_def s3_def)
    obtain r2 n2 f2 w2 where m2: "ff_linkmap env (mounted_bds (drv s3)) ((fils s3 ! i)\<lparr>fl_cltbl := HeapTable ?a\<rparr>) q (world (drv s3)) = (r2, n2, f2, w2)"
      by (cases rule: prod_cases4)
    have f2: "fl_cltbl f2 = HeapTable ?a" "fl_open f2" using ff_law_keep(2) [OF L m2] op2(1) by (simp_all add: s3_def)
    define s4 where "s4 = set_world w2 (put_fil i f2 s3)"
    have e4: "dyn_clmt s4 = dyn_clmt s" "live s4 = insert ?a (live s)" "next_block s4 = ?a + 1" "drv_same s s4" "fils s4 = (fils s2)[i := f2]"
      using op2 by (simp_all add: s4_def s3_def)
    have res: "(r, s') = (if r2 = 0 then (r2, s4\<lparr>dyn_clmt := (dyn_clmt s4)[i := Some ?a]\<rparr>)
        else (r2, fs_free ?a (put_fil i ((fils s4 ! i)\<lparr>fl_cltbl := NoTable\<rparr>) s4)))"
      using run' True unfolding ml prod.case option.case m2 s4_def [symmetric] by (simp split: if_splits)
    have t: "clmt_tables_ok (dyn_clmt s) (live s) ?a" and sl: "\<And>j. j < MAX_FILES \<Longrightarrow> fil_slot_ok (fils s ! j) (dyn_clmt s ! j)"
      and len2: "length (fils s2) = MAX_FILES" using h op2 by (simp_all add: heap_ok_def)
    have fresh: "?a \<notin> live s" using t by (auto simp: clmt_tables_ok_def)
    show ?thesis
    proof (cases "r2 = 0")
      case ok: True
      then have s': "s' = s4\<lparr>dyn_clmt := (dyn_clmt s4)[i := Some ?a]\<rparr>" "r = 0" using res by simp_all
      have "fil_slot_ok ((fils s2)[i := f2] ! j) ((dyn_clmt s)[i := Some ?a] ! j)" if "j < MAX_FILES" for j
        using sl [OF that] f2 len op2(7,8) by (simp add: nth_list_update fil_slot_ok_def)
      then have "heap_ok s'" using s'(1) tables_alloc [OF t i no] len2 e4 by (simp add: heap_ok_def)
      then show ?thesis using s' e4 f2 len op2(8) by simp
    next
      case False
      then have s': "s' = fs_free ?a (put_fil i ((fils s4 ! i)\<lparr>fl_cltbl := NoTable\<rparr>) s4)" using res by simp
      have "clmt_tables_ok (dyn_clmt s) (live s) (?a + 1)" using tables_mono [OF t] by simp
      moreover have "fil_slot_ok ((fils s2)[i := f2\<lparr>fl_cltbl := NoTable\<rparr>] ! j) (dyn_clmt s ! j)" if "j < MAX_FILES" for j
        using sl [OF that] f2 len no op2(7,8) by (simp add: nth_list_update fil_slot_ok_def)
      ultimately have "heap_ok s'" using s' fresh e4 len2 i by (simp add: heap_ok_def)
      then show ?thesis using s' e4 f2 len no op2(8) by simp
    qed
  qed
qed

text \<open>What every call keeps.\<close>

definition files_inv :: "'w fs_state \<Rightarrow> bool" where
  "files_inv s \<longleftrightarrow> heap_ok s \<and> length (dirs s) = MAX_DIRS \<and> mount_inv (drv s)"

lemma dirs_unlock [simp]: "dirs (fs_unlock_state s) = dirs s" "fils (fs_unlock_state s) = fils s" "dyn_clmt (fs_unlock_state s) = dyn_clmt s"
  by (simp_all add: fs_unlock_state_def)

lemma files_invI:
  assumes "files_inv s" "heap_ok s'" "length (dirs s') = length (dirs s)" "drv_same (s\<lparr>drv := locked (drv s)\<rparr>) s'"
  shows "files_inv (fs_unlock_state s')"
  using assms drv_same_inv [OF locked_call(2)] by (auto simp: files_inv_def)

lemma make_linkmap_dirs: "make_linkmap env i s = (r, s') \<Longrightarrow> dirs s' = dirs s"
  by (auto simp: make_linkmap_def Let_def fs_malloc_def split: prod.splits if_splits)

lemma fs_open_inv:
  assumes L: "ff_laws env" and iv: "files_inv s"
  shows "\<exists>r fd' s'. fs_open env fd name fl s = Some (r, fd', s') \<and> files_inv s' \<and>
    (\<forall>i. fd_priv fd' = Some i \<longrightarrow> r = 1 \<and> i < MAX_FILES \<and> \<not> fl_open (fils s ! i) \<and> fl_open (fils s' ! i))"
proof -
  define s1 where "s1 = s\<lparr>drv := locked (drv s)\<rparr>"
  have lk: "fs_lock_state s = Some s1" using locked_call(1) [of s] iv by (simp add: files_inv_def s1_def)
  have h1: "heap_ok s1" and e1: "fils s1 = fils s" "dyn_clmt s1 = dyn_clmt s" "dirs s1 = dirs s"
    using iv by (simp_all add: files_inv_def s1_def)
  note fin = files_invI [OF iv, folded s1_def]
  show ?thesis
  proof (cases "fs_find_free_fil_structure s1")
    case None
    then show ?thesis using lk h1 e1 by (simp add: fs_open_def fin)
  next
    case (Some i)
    then have i: "i < MAX_FILES" "\<not> fl_open (fils s ! i)"
      using h1 e1 by (auto simp: fs_find_free_fil_structure_def first_index_Some heap_ok_def)
    have sl: "fil_slot_ok (fils s1 ! i) (dyn_clmt s1 ! i)" using h1 i(1) by (simp add: heap_ok_def)
    then have none: "dyn_clmt s1 ! i = None" using i(2) e1 by (simp add: fil_slot_ok_def)
    have len: "i < length (fils s1)" using h1 i(1) by (simp add: heap_ok_def)
    let ?m = "open_mode fl"
    obtain ret f w where op: "ff_open env (mounted_bds (drv s1)) (modified_name (fd_unit fd) name) ?m (fils s1 ! i) (world (drv s1)) = (ret, f, w)"
      by (cases rule: prod_cases3)
    note fo = ff_law_open [OF L op]
    define s2 where "s2 = set_world w (put_fil i f s1)"
    have e2: "dyn_clmt s2 = dyn_clmt s1" "fils s2 = (fils s1)[i := f]" "dirs s2 = dirs s1" "drv_same s1 s2" by (simp_all add: s2_def)
    have "fil_slot_ok f (dyn_clmt s1 ! i)" using fo sl none by (auto simp: fil_slot_ok_def split: if_splits)
    then have h2: "heap_ok s2" unfolding s2_def using heap_put [OF h1 i(1)] by simp
    show ?thesis
    proof (cases "ret = 0 \<and> ?m AND FA_READ \<noteq> 0 \<and> ?m AND FA_WRITE = 0")
      case False
      then have "fs_open env fd name fl s = Some (if ret \<noteq> 0 then - ret else 1,
          fd\<lparr>fd_priv := if ret \<noteq> 0 then None else Some i\<rparr>, fs_unlock_state s2)"
        by (auto simp: fs_open_def lk Some op s2_def [symmetric] Let_def)
      then show ?thesis using fin [OF h2] e1 e2 i fo len by simp
    next
      case True
      have f: "fl_open f" using fo True by simp
      obtain mr s3 where mk: "make_linkmap env i s2 = (mr, s3)" by (cases rule: prod.exhaust)
      have h3: "heap_ok s3" "drv_same s2 s3" "fl_open (fils s3 ! i)" "mr \<noteq> 0 \<longrightarrow> dyn_clmt s3 ! i = None"
        using make_linkmap_ok [OF L h2 i(1) _ _ mk] f e2 none len by auto
      have d3: "drv_same s1 s3" using h3(2) e2(4) by (simp add: drv_same_def) (metis fs_driver.unfold_congs(7) fs_driver.surjective fs_driver.update_convs(7))
      have len3: "i < length (fils s3)" "dirs s3 = dirs s" using h3(1) i(1) make_linkmap_dirs [OF mk] e1 e2 by (simp_all add: heap_ok_def)
      define s4 where "s4 = put_fil i ((fils s3 ! i)\<lparr>fl_cltbl := NoTable\<rparr>) s3"
      have h4: "heap_ok s4" if "mr \<noteq> 0"
        unfolding s4_def using h3 that by (intro heap_put [OF h3(1) i(1)]) (simp add: fil_slot_ok_def)
      have e4: "fl_open (fils s4 ! i)" "fl_cltbl (fils s4 ! i) = NoTable" "drv_same s1 s4" "dyn_clmt s4 = dyn_clmt s3" "dirs s4 = dirs s"
        using len3 h3(3) d3 by (simp_all add: s4_def)
      obtain r5 f5 w5 where cl: "ff_close env (mounted_bds (drv s4)) (fils s4 ! i) (world (drv s4)) = (r5, f5, w5)"
        by (cases rule: prod_cases3)
      have run: "fs_open env fd name fl s =
          (if mr = 17 then Some (1, fd\<lparr>fd_priv := Some i\<rparr>, fs_unlock_state s4)
           else if mr \<noteq> 0 then Some (- mr, fd\<lparr>fd_priv := None\<rparr>, fs_unlock_state (set_world w5 (put_fil i f5 s4)))
           else Some (1, fd\<lparr>fd_priv := Some i\<rparr>, fs_unlock_state s3))"
        using True by (simp add: fs_open_def lk Some op s2_def [symmetric] Let_def mk s4_def [symmetric] cl)
      show ?thesis
      proof (cases "mr = 0 \<or> mr = 17")
        case True
        then show ?thesis using run fin [OF h3(1) _ d3] fin [OF h4 _ e4(3)] len3 e4 h3(3) i by (auto split: if_splits)
      next
        case False
        have "fil_slot_ok f5 (dyn_clmt s4 ! i)" using ff_law_close [OF L cl] e4 h3(4) False by (simp add: fil_slot_ok_def)
        then have "heap_ok (set_world w5 (put_fil i f5 s4))" using heap_put [OF h4 i(1)] False by simp
        from fin [OF this] show ?thesis using run False e4 by simp
      qed
    qed
  qed
qed

lemma fs_close_inv:
  assumes L: "ff_laws env" and iv: "files_inv s" and fd: "\<And>i. fd_priv fd = Some i \<Longrightarrow> i < MAX_FILES"
  shows "\<exists>r fd' s'. fs_close env fd s = Some (r, fd', s') \<and> files_inv s' \<and> fd_priv fd' = None
    \<and> (\<forall>i. fd_priv fd = Some i \<longrightarrow> dyn_clmt s' ! i = None \<and> live s' = live s - set_option (dyn_clmt s ! i) \<and> (r = 0 \<longrightarrow> \<not> fl_open (fils s' ! i)))"
proof -
  define s1 where "s1 = s\<lparr>drv := locked (drv s)\<rparr>"
  have lk: "fs_lock_state s = Some s1" using locked_call(1) [of s] iv by (simp add: files_inv_def s1_def)
  have h1: "heap_ok s1" and e1: "fils s1 = fils s" "dyn_clmt s1 = dyn_clmt s" "dirs s1 = dirs s" "live s1 = live s"
    using iv by (simp_all add: files_inv_def s1_def)
  note fin = files_invI [OF iv, folded s1_def]
  show ?thesis
  proof (cases "fd_priv fd")
    case None
    then show ?thesis using lk fin [OF h1] e1 by (simp add: fs_close_def)
  next
    case (Some i)
    have i: "i < MAX_FILES" using fd Some by simp
    have sl: "fil_slot_ok (fils s1 ! i) (dyn_clmt s1 ! i)" and t: "clmt_tables_ok (dyn_clmt s1) (live s1) (next_block s1)"
      and len: "i < length (fils s1)" "i < length (dyn_clmt s1)" using h1 i by (simp_all add: heap_ok_def clmt_tables_ok_def)
    obtain ret f w where cl: "ff_close env (mounted_bds (drv s1)) (fils s1 ! i) (world (drv s1)) = (ret, f, w)"
      by (cases rule: prod_cases3)
    note fc = ff_law_close [OF L cl]
    define s2 where "s2 = set_world w (put_fil i f s1)"
    have e2: "dyn_clmt s2 = dyn_clmt s1" "fils s2 = (fils s1)[i := f]" "dirs s2 = dirs s1" "live s2 = live s1" "next_block s2 = next_block s1" "drv_same s1 s2"
      by (simp_all add: s2_def)
    show ?thesis
    proof (cases "dyn_clmt s1 ! i")
      case None
      have "fil_slot_ok f (dyn_clmt s1 ! i)" using fc sl None by (auto simp: fil_slot_ok_def)
      then have "heap_ok s2" unfolding s2_def using heap_put [OF h1 i] by simp
      from fin [OF this] show ?thesis using Some lk cl e1 e2 None fc len
        by (simp add: fs_close_def Let_def s2_def [symmetric]) (simp add: fs_unlock_state_def)
    next
      case (Some a)
      define s3 where "s3 = (fs_free a (put_fil i ((fils s2 ! i)\<lparr>fl_cltbl := NoTable\<rparr>) s2))\<lparr>dyn_clmt := (dyn_clmt s2)[i := None]\<rparr>"
      have e3: "fils s3 = (fils s2)[i := (fils s2 ! i)\<lparr>fl_cltbl := NoTable\<rparr>]" "dyn_clmt s3 = (dyn_clmt s1)[i := None]" "live s3 = live s1 - {a}"
          "next_block s3 = next_block s1" "dirs s3 = dirs s1" "drv_same s1 s3"
        using e2 by (simp_all add: s3_def)
      have "fil_slot_ok (fils s3 ! j) (dyn_clmt s3 ! j)" if "j < MAX_FILES" for j
        using h1 that len e2 e3 by (auto simp: heap_ok_def fil_slot_ok_def nth_list_update)
      then have "heap_ok s3" using tables_free [OF t i Some] e2 e3 h1 by (simp add: heap_ok_def)
      moreover have "fs_close env fd s = Some (- ret, fd\<lparr>fd_priv := None\<rparr>, fs_unlock_state s3)"
        using \<open>fd_priv fd = Some i\<close> Some by (simp add: fs_close_def lk cl s2_def [symmetric] s3_def e2 Let_def)
      ultimately show ?thesis using fin [of s3] \<open>fd_priv fd = Some i\<close> e1 e2 e3 Some fc len
        by (simp add: fs_unlock_state_def)
    qed
  qed
qed

text \<open>Calls that leave the tables alone, and calls that update one file without opening or closing it.\<close>

lemma world_call_inv: "files_inv s \<Longrightarrow> fs_lock_state s = Some s1 \<Longrightarrow> files_inv (fs_unlock_state (set_world w s1)) \<and> files_inv (fs_unlock_state s1)"
proof -
  assume iv: "files_inv s" and lk: "fs_lock_state s = Some s1"
  have s1: "s1 = s\<lparr>drv := locked (drv s)\<rparr>" using lk locked_call(1) [of s] iv by (simp add: files_inv_def)
  have "heap_ok s1" using iv by (simp add: s1 files_inv_def)
  then show ?thesis using files_invI [OF iv, of "set_world w s1"] files_invI [OF iv, of s1] by (simp add: s1)
qed

lemma file_call_inv:
  assumes iv: "files_inv s" and lk: "fs_lock_state s = Some s1" and i: "i < MAX_FILES"
    and f: "fl_cltbl f = fl_cltbl (fils s1 ! i)" "fl_open f = fl_open (fils s1 ! i)"
  shows "files_inv (fs_unlock_state (set_world w (put_fil i f s1)))"
proof -
  have s1: "s1 = s\<lparr>drv := locked (drv s)\<rparr>" using lk locked_call(1) [of s] iv by (simp add: files_inv_def)
  have "heap_ok s1" using iv by (simp add: s1 files_inv_def)
  then have "heap_ok (set_world w (put_fil i f s1))" using heap_keep [OF _ i] f by simp
  from files_invI [OF iv this] show ?thesis by (simp add: s1)
qed

lemma dir_call_inv:
  assumes iv: "files_inv s" and lk: "fs_lock_state s = Some s1"
  shows "files_inv (fs_unlock_state (set_world w (s1\<lparr>dirs := (dirs s1)[i := dj]\<rparr>)))"
proof -
  have s1: "s1 = s\<lparr>drv := locked (drv s)\<rparr>" using lk locked_call(1) [of s] iv by (simp add: files_inv_def)
  have "heap_ok (set_world w (s1\<lparr>dirs := (dirs s1)[i := dj]\<rparr>))" using iv by (simp add: s1 files_inv_def)
  from files_invI [OF iv this] show ?thesis by (simp add: s1)
qed

section \<open>Sequences of file calls\<close>

definition fd_ok :: "iop_file \<Rightarrow> bool" where
  "fd_ok fd \<longleftrightarrow> (\<forall>i. fd_priv fd = Some i \<longrightarrow> i < MAX_FILES)"

inductive file_step :: "'w ff_env \<Rightarrow> 'w fs_state \<Rightarrow> 'w fs_state \<Rightarrow> bool" for env where
  open_step: "fs_open env fd name fl s = Some (r, fd', s') \<Longrightarrow> file_step env s s'"
| close_step: "fs_close env fd s = Some (r, fd', s') \<Longrightarrow> fd_ok fd \<Longrightarrow> file_step env s s'"
| lseek_step: "fs_lseek64 env fd off wh s = Some (x, s') \<Longrightarrow> fd_ok fd \<Longrightarrow> file_step env s s'"
| read_step: "fs_read env fd n s = Some (r, d, s') \<Longrightarrow> fd_ok fd \<Longrightarrow> file_step env s s'"
| write_step: "fs_write env fd d n s = Some (r, s') \<Longrightarrow> fd_ok fd \<Longrightarrow> file_step env s s'"
| remove_step: "fs_remove env fd name s = Some (r, s') \<Longrightarrow> file_step env s s'"
| mkdir_step: "fs_mkdir env fd name s = Some (r, s') \<Longrightarrow> file_step env s s'"
| rename_step: "fs_rename env fd p q s = Some (r, s') \<Longrightarrow> file_step env s s'"
| dopen_step: "fs_dopen env fd name s = Some (r, fd', s') \<Longrightarrow> file_step env s s'"
| dclose_step: "fs_dclose env fd s = Some (r, fd', s') \<Longrightarrow> file_step env s s'"
| dread_step: "fs_dread env fd s = Some (r, e, s') \<Longrightarrow> file_step env s s'"
| getstat_step: "fs_getstat env fd name s = Some (r, st, s') \<Longrightarrow> file_step env s s'"
| ioctl_step: "fs_ioctl2 env fsz fw fd cmd rd s = Some (r, out, s') \<Longrightarrow> file_step env s s'"
| mount_step: "fs_step (ff_fs env) (drv s) d \<Longrightarrow> file_step env s (s\<lparr>drv := d\<rparr>)"

lemma frag_list_of_state: "frag_list_of env fsz fw i rd s = (r, out, s') \<Longrightarrow> \<exists>w. s' = set_world w s"
  by (auto simp: frag_list_of_def Let_def split: prod.splits)

lemma ioctl_inv:
  assumes iv: "files_inv s" and run: "fs_ioctl2 env fsz fw fd cmd rd s = Some (r, out, s')"
  shows "files_inv s'"
proof (cases "fd_priv fd")
  case (Some i)
  obtain s1 where lk: "fs_lock_state s = Some s1" using locked_call(1) [of s] iv by (simp add: files_inv_def)
  obtain r1 o1 t1 where f1: "frag_list_of env fsz fw i None s1 = (r1, o1, t1)" by (cases rule: prod_cases3)
  obtain r2 o2 t2 where f2: "frag_list_of env fsz fw i rd s1 = (r2, o2, t2)" by (cases rule: prod_cases3)
  obtain w1 w2 where w: "t1 = set_world w1 s1" "t2 = set_world w2 s1" using frag_list_of_state [OF f1] frag_list_of_state [OF f2] by blast
  have "\<exists>w. s' = fs_unlock_state (set_world w s1) \<or> s' = fs_unlock_state s1"
    using run Some lk f1 f2 w unfolding fs_ioctl2_def
    by (cases cmd) (auto simp: Let_def bind_eq_Some_conv split: option.splits if_splits)
  then show ?thesis using world_call_inv [OF iv lk] by auto
qed (use assms in \<open>simp add: fs_ioctl2_def\<close>)

lemma file_step_inv:
  assumes L: "ff_laws env" and st: "file_step env s s'" and iv: "files_inv s"
  shows "files_inv s'"
proof -
  obtain s1 where lk: "fs_lock_state s = Some s1" using locked_call(1) [of s] iv by (simp add: files_inv_def)
  note W = world_call_inv [OF iv lk] and D = dir_call_inv [OF iv lk] and F = file_call_inv [OF iv lk]
  from st show ?thesis
  proof (cases rule: file_step.cases)
    case (open_step fd name fl r fd')
    then show ?thesis using fs_open_inv [OF L iv, of fd name fl] by auto
  next
    case (close_step fd r fd')
    then show ?thesis using fs_close_inv [OF L iv, of fd] by (auto simp: fd_ok_def)
  next
    case (lseek_step fd off wh x)
    then show ?thesis using iv lk F ff_law_keep(1) [OF L]
      by (auto simp: fs_lseek64_def fd_ok_def Let_def split: option.splits prod.splits)
  next
    case (read_step fd n r d)
    then show ?thesis using iv lk F ff_law_keep(3) [OF L]
      by (auto simp: fs_read_def fd_ok_def Let_def split: option.splits prod.splits)
  next
    case (write_step fd d n r)
    then show ?thesis using iv lk F ff_law_keep(4) [OF L]
      by (auto simp: fs_write_def fd_ok_def Let_def split: option.splits prod.splits)
  next
    case (remove_step fd name r)
    then show ?thesis using lk W by (auto simp: fs_remove_def split: prod.splits)
  next
    case (mkdir_step fd name r)
    then show ?thesis using lk W by (auto simp: fs_mkdir_def split: prod.splits)
  next
    case (rename_step fd p q r)
    then show ?thesis using iv lk W by (auto simp: fs_rename_def Let_def split: prod.splits if_splits)
  next
    case (dopen_step fd name r fd')
    then show ?thesis using lk W D by (auto simp: fs_dopen_def Let_def split: option.splits prod.splits if_splits)
  next
    case (dclose_step fd r fd')
    then show ?thesis using lk W D by (auto simp: fs_dclose_def Let_def split: option.splits prod.splits if_splits)
  next
    case (dread_step fd r e)
    then show ?thesis using iv lk D by (auto simp: fs_dread_def Let_def split: option.splits prod.splits if_splits)
  next
    case (getstat_step fd name r st)
    then show ?thesis using iv lk W by (auto simp: fs_getstat_def Let_def bind_eq_Some_conv split: option.splits prod.splits if_splits)
  next
    case (ioctl_step fsz fw fd cmd rd r out)
    then show ?thesis using ioctl_inv [OF iv] by blast
  next
    case (mount_step d)
    then show ?thesis using iv fs_step_inv by (auto simp: files_inv_def)
  qed
qed

section \<open>Time stamps\<close>

lemma unat_small: "n < 2 ^ 32 \<Longrightarrow> unat (of_nat n :: u32) = n"
  by (simp add: unat_of_nat)

lemma pack_parts:
  assumes "year < 128" "month < 16" "day < 32" "hour < 32" "minute < 64" "sec < 64"
  shows "unat (pack_fattime (1980 + year) month day hour minute sec) =
    year * 2 ^ 25 + (month * 2 ^ 21 + (day * 2 ^ 16 + (hour * 2 ^ 11 + (minute * 2 ^ 5 + sec div 2))))"
proof -
  have u: "unat (of_nat year :: u32) = year" "unat (of_nat month :: u32) = month" "unat (of_nat day :: u32) = day"
    "unat (of_nat hour :: u32) = hour" "unat (of_nat minute :: u32) = minute" "unat (of_nat sec :: u32) = sec"
    using assms by (simp_all add: unat_small)
  have g6: "unat (drop_bit 1 (of_nat sec :: u32)) = sec div 2" using u(6) by (simp add: unat_drop_bit)
  have b6: "sec div 2 < 2 ^ 5" using assms by simp
  let ?g5 = "push_bit 5 (of_nat minute) OR drop_bit 1 (of_nat sec) :: u32"
  have g5: "unat ?g5 = minute * 2 ^ 5 + sec div 2" using unat_or_field [of "drop_bit 1 (of_nat sec)" 5 "of_nat minute"] g6 u b6 assms by simp
  let ?g4 = "push_bit 11 (of_nat hour) OR ?g5"
  have g4: "unat ?g4 = hour * 2 ^ 11 + (minute * 2 ^ 5 + sec div 2)" using unat_or_field [of ?g5 11 "of_nat hour"] g5 u b6 assms by simp
  let ?g3 = "push_bit 16 (of_nat day) OR ?g4"
  have g3: "unat ?g3 = day * 2 ^ 16 + (hour * 2 ^ 11 + (minute * 2 ^ 5 + sec div 2))" using unat_or_field [of ?g4 16 "of_nat day"] g4 u b6 assms by simp
  let ?g2 = "push_bit 21 (of_nat month) OR ?g3"
  have g2: "unat ?g2 = month * 2 ^ 21 + (day * 2 ^ 16 + (hour * 2 ^ 11 + (minute * 2 ^ 5 + sec div 2)))"
    using unat_or_field [of ?g3 21 "of_nat month"] g3 u b6 assms by simp
  have "pack_fattime (1980 + year) month day hour minute sec = push_bit 25 (of_nat year) OR ?g2"
    by (simp add: pack_fattime_def or.assoc)
  then show ?thesis using unat_or_field [of ?g2 25 "of_nat year"] g2 u b6 assms by simp
qed

text \<open>The numbers \<open>fileInfoToStat\<close> extracts from the two halves of the stamp.\<close>

lemma stat_fields:
  fixes t :: u32
  assumes "unat t = y * 2 ^ 25 + (mo * 2 ^ 21 + (da * 2 ^ 16 + (ho * 2 ^ 11 + (mi * 2 ^ 5 + h))))"
    "y < 128" "mo < 16" "da < 32" "ho < 32" "mi < 64" "h < 32"
  shows "map unat (stat_time (ucast (drop_bit 16 t)) (ucast t))
    = [0, 2 * h mod 32, mi, ho, da, mo, (1980 + y) mod 256, (1980 + y) div 256]"
proof -
  define D where "D = y * 512 + mo * 32 + da"
  define T where "T = ho * 2048 + mi * 32 + h"
  have t: "unat t = D * 65536 + T" using assms(1) by (simp add: D_def T_def)
  have lt: "T < 65536" "D < 65536" using assms by (simp_all add: D_def T_def)
  have d: "unat (ucast (drop_bit 16 t) :: u16) = D" and ti: "unat (ucast t :: u16) = T"
    using t lt by (simp_all add: unsigned_ucast_eq take_bit_eq_mod unat_drop_bit)
  define F G where FG: "F = (ucast (drop_bit 16 t) :: u16)" "G = (ucast t :: u16)"
  have F: "unat F = D" and G: "unat G = T" using d ti by (simp_all add: FG)
  have m: "(31 :: u32) = mask 5" "(31 :: u16) = mask 5" "(63 :: u16) = mask 6" "(15 :: u16) = mask 4" "(255 :: u16) = mask 8"
    by (simp_all add: mask_eq_exp_minus_1)
  have g2: "unat (push_bit 1 (ucast G :: u32)) = 2 * T"
    using G lt unfolding unsigned_push_bit_eq by (simp add: push_bit_eq_mult take_bit_nat_eq_self)
  have year: "unat (drop_bit 9 F + 1980) = 1980 + y"
    using F assms by (subst unat_add_lt) (simp_all add: unat_drop_bit D_def)
  have a1: "2 * T mod 32 = 2 * h mod 32"
  proof -
    have "2 * T = 2 * h + 32 * (ho * 128 + mi * 2)" by (simp add: T_def)
    then show ?thesis by (metis mod_mult_self2)
  qed
  have td: "T = h + 32 * (mi + 64 * ho)" "D = da + 32 * (mo + 16 * y)" by (simp_all add: T_def D_def)
  have "T div 32 = mi + 64 * ho" "D div 32 = mo + 16 * y" unfolding td using assms by simp_all
  then have a2: "T div 32 mod 64 = mi" "T div 2048 = ho" "D div 32 mod 16 = mo"
    using assms by (simp_all add: T_def)
  have a3: "D mod 32 = da" unfolding td(2) using assms(4) by (simp only: mod_mult_self2 mod_less)
  have "map unat (stat_time F G) = [0, 2 * h mod 32, mi, ho, da, mo, (1980 + y) mod 256, (1980 + y) div 256]"
    unfolding stat_time_def m Let_def list.map unat_byte unat_and_mask g2 year unat_drop_bit F G
    using a1 a2 a3 assms by simp
  then show ?thesis unfolding FG .
qed

section \<open>Properties\<close>

text \<open>C14. Heap and table safety of the file calls: from a consistent state, every sequence of opens (with
  link maps that stay static, move to the heap, fail to build or do not fit in memory), closes, other file
  calls and mounts keeps it. Every live heap block is the link map of exactly one slot, whose file is open, a file
  never uses a block that was freed, and the driver lock is free after each call; so when all files are
  closed, no block is left.\<close>

theorem files_heap_safe:
  assumes "ff_laws env" "files_inv s" "(file_step env)\<^sup>*\<^sup>* s s'"
  shows "files_inv s'
    \<and> (\<forall>a \<in> live s'. \<exists>!i. i < MAX_FILES \<and> dyn_clmt s' ! i = Some a \<and> fl_open (fils s' ! i))
    \<and> (\<forall>i < MAX_FILES. \<forall>a. fl_cltbl (fils s' ! i) = HeapTable a \<longrightarrow> a \<in> live s')
    \<and> ((\<forall>i < MAX_FILES. \<not> fl_open (fils s' ! i)) \<longrightarrow> live s' = {})"
proof -
  have iv: "files_inv s'" using assms(3,2) by (induction rule: rtranclp_induct) (auto intro: file_step_inv [OF assms(1)])
  then have sl: "\<And>i. i < MAX_FILES \<Longrightarrow> fil_slot_ok (fils s' ! i) (dyn_clmt s' ! i)"
    and t: "clmt_tables_ok (dyn_clmt s') (live s') (next_block s')" by (simp_all add: files_inv_def heap_ok_def)
  have len: "length (dyn_clmt s') = MAX_FILES" and L: "\<And>a. a \<in> live s' \<longleftrightarrow> Some a \<in> set (dyn_clmt s')"
    and inj: "\<And>j k. j < MAX_FILES \<Longrightarrow> k < MAX_FILES \<Longrightarrow> dyn_clmt s' ! j = dyn_clmt s' ! k \<Longrightarrow> dyn_clmt s' ! j \<noteq> None \<Longrightarrow> j = k"
    using t by (auto simp: clmt_tables_ok_def)
  have ex: "\<exists>!i. i < MAX_FILES \<and> dyn_clmt s' ! i = Some a \<and> fl_open (fils s' ! i)" if a: "a \<in> live s'" for a
  proof -
    obtain i where i: "i < MAX_FILES" "dyn_clmt s' ! i = Some a" using a L [of a] len by (auto simp: in_set_conv_nth)
    have "fl_open (fils s' ! i)" using sl [OF i(1)] i(2) by (auto simp: fil_slot_ok_def)
    then show ?thesis using i inj by (intro ex1I [of _ i]) auto
  qed
  moreover have "a \<in> live s'" if "i < MAX_FILES" "fl_cltbl (fils s' ! i) = HeapTable a" for i a
    using sl [OF that(1)] that(2) L [of a] len that(1) nth_mem [of i "dyn_clmt s'"] by (auto simp: fil_slot_ok_def)
  ultimately show ?thesis using iv by blast
qed

text \<open>A FatFs that opens every file, whose link maps never fit the static row.\<close>

definition demo_ff :: "nat ff_env" where
  "demo_ff = \<lparr>ff_fs = demo_env, ff_open = (\<lambda>m p md f w. (0, f\<lparr>fl_open := True, fl_cltbl := NoTable\<rparr>, w)),
     ff_close = (\<lambda>m f w. (0, f\<lparr>fl_open := False\<rparr>, w)), ff_lseek = (\<lambda>m f x w. (0, f, w)),
     ff_linkmap = (\<lambda>m f x w. if x = 4 then (17, 8, f, w) else (0, x, f, w)),
     ff_read = (\<lambda>m f x w. (0, [], 0, f, w)), ff_write = (\<lambda>m f d x w. (0, 0, f, w)),
     ff_unlink = (\<lambda>m p w. (0, w)), ff_mkdir = (\<lambda>m p w. (0, w)), ff_rename = (\<lambda>m p q w. (0, w)),
     ff_opendir = (\<lambda>m p d w. (0, d, w)), ff_closedir = (\<lambda>m d w. (0, d, w)),
     ff_readdir = (\<lambda>m d w. (0, \<lparr>fi_fsize = 0, fi_fdate = 0, fi_ftime = 0, fi_fattrib = 0, fi_fname = []\<rparr>, d, w)),
     mem_ok = (\<lambda>n w. True), vol = (\<lambda>w i. small_volume), set_vol = (\<lambda>i f w. w),
     devices = \<lparr>de_ops = (\<lambda>b. \<lparr>bd_read = (\<lambda>s a c. (- EIO, [], s)), bd_write = (\<lambda>s a d c. (- EIO, s)), bd_flush = id, bd_stop = (\<lambda>s. (0, s))\<rparr>),
                de_desc = bd_desc demo_env\<rparr>\<rparr>"

definition demo_files :: "nat fs_state" where
  "demo_files = \<lparr>drv = demo_ready True POPSTARTER_UNSELECTED None 0,
     fils = replicate 128 \<lparr>fl_open = False, fl_vol = 0, fl_obj = plain_object, fl_fptr = 0, fl_cltbl = NoTable\<rparr>,
     dyn_clmt = replicate 128 None, dirs = replicate 16 \<lparr>dj_open = False, dj_pos = 0\<rparr>, next_block = 0, live = {}\<rparr>"

theorem files_heap_safe_witness:
  "\<exists>r fd' s'. fs_open demo_ff \<lparr>fd_unit = 0, fd_priv = None\<rparr> ''a'' \<lparr>o_rdonly = True, o_wronly = False, o_creat = False, o_trunc = False, o_append = False\<rparr> demo_files
       = Some (r, fd', s') \<and> files_inv s' \<and> (\<forall>a \<in> live s'. \<exists>!i. i < 128 \<and> dyn_clmt s' ! i = Some a \<and> fl_open (fils s' ! i))"
proof -
  have L: "ff_laws demo_ff" unfolding ff_laws_def by (auto simp: demo_ff_def split: if_splits)
  have "mount_inv (demo_ready True POPSTARTER_UNSELECTED None 0)"
    using init_inv [of demo_driver demo_env] demo_init by (simp add: demo_driver_def)
  then have iv: "files_inv demo_files"
    by (simp add: files_inv_def demo_files_def heap_ok_def clmt_tables_ok_def fil_slot_ok_def)
  obtain r fd' s' where run: "fs_open demo_ff \<lparr>fd_unit = 0, fd_priv = None\<rparr> ''a''
      \<lparr>o_rdonly = True, o_wronly = False, o_creat = False, o_trunc = False, o_append = False\<rparr> demo_files = Some (r, fd', s')"
    using fs_open_inv [OF L iv] by blast
  have "(file_step demo_ff)\<^sup>*\<^sup>* demo_files s'" using open_step [OF run] by blast
  from files_heap_safe [OF L iv this] show ?thesis using run by blast
qed

text \<open>Round trip of time stamps: from the stamp \<open>get_fattime\<close> packs, which FatFs stores as two halves,
  \<open>fileInfoToStat\<close> recovers year, month, day, hour and minute. Of the seconds it keeps the even
  number only modulo 32, so stamps with 32 to 59 seconds come out wrong.\<close>

theorem stat_time_roundtrip:
  assumes "year < 128" "month < 16" "day < 32" "hour < 32" "minute < 64" "sec < 64"
    and "t = pack_fattime (1980 + year) month day hour minute sec"
  shows "map unat (stat_time (ucast (drop_bit 16 t)) (ucast t))
    = [0, 2 * (sec div 2) mod 32, minute, hour, day, month, (1980 + year) mod 256, (1980 + year) div 256]"
  using stat_fields [OF _ assms(1-5), of t "sec div 2"] pack_parts [OF assms(1-6)] assms(6,7) by simp

theorem stat_time_roundtrip_witness:
  "map unat (stat_time (ucast (drop_bit 16 (pack_fattime 2024 5 17 23 59 50))) (ucast (pack_fattime 2024 5 17 23 59 50)))
     = [0, 18, 59, 23, 17, 5, 232, 7]"
  using stat_time_roundtrip [of 44 5 17 23 59 50 "pack_fattime 2024 5 17 23 59 50"] by simp

end
