(* ===== verification/Fat_Chain.thy ===== *)
theory Fat_Chain
  imports Frag_List
begin

text \<open>
  Allocation of clusters in \<open>__bdm_assault/src/bdmfs/bdmfs_ff.c\<close>: the exFAT bitmap (\<open>find_bitmap\<close>,
  \<open>change_bitmap\<close>), the deferred links of exFAT fragments, \<open>remove_chain\<close>, \<open>create_chain\<close> and \<open>sync_fs\<close>.
  Shown for the FAT12, FAT16 and FAT32 volumes, on every device that meets the block-device
  contract: removing a chain returns for every table, cyclic ones included, and frees exactly the
  clusters of the chain; creating or stretching takes a cluster that was free, links it and
  changes no other entry, and reports a full volume only if the table or the free count says so. The
  exFAT branches are translated, with the bitmap's loops; no property of them is stated.
\<close>

section \<open>The volume\<close>

text \<open>The fields of \<open>FATFS\<close> that allocation uses besides those of \<^typ>\<open>fatfs\<close>.\<close>

record fat_vol =
  fv :: fatfs
  last_clst :: u32
  free_clst :: u32
  fsi_flag :: u8
  volbase :: u64
  bitbase :: u64

definition vget_fat :: "'s disk_env \<Rightarrow> bdref option list \<Rightarrow> fat_vol \<Rightarrow> ffobjid \<Rightarrow> u32 \<Rightarrow> 's \<Rightarrow> u32 \<times> fat_vol \<times> 's" where
  "vget_fat env m vol obj clst s = (let (v, fs', s') = get_fat env m (fv vol) obj clst s in (v, vol\<lparr>fv := fs'\<rparr>, s'))"

definition vput_fat :: "'s disk_env \<Rightarrow> bdref option list \<Rightarrow> fat_vol \<Rightarrow> u32 \<Rightarrow> u32 \<Rightarrow> 's \<Rightarrow> fresult \<times> fat_vol \<times> 's" where
  "vput_fat env m vol clst val s = (let (r, fs', s') = put_fat env m (fv vol) clst val s in (r, vol\<lparr>fv := fs'\<rparr>, s'))"

definition vmove_window :: "'s disk_env \<Rightarrow> bdref option list \<Rightarrow> fat_vol \<Rightarrow> u64 \<Rightarrow> 's \<Rightarrow> fresult \<times> fat_vol \<times> 's" where
  "vmove_window env m vol sect s = (let (r, fs', s') = move_window env m (fv vol) sect s in (r, vol\<lparr>fv := fs'\<rparr>, s'))"

lemma unat_dec: "x \<noteq> 0 \<Longrightarrow> unat (x - 1) < unat (x :: 'a::len word)"
  using unat_minus_one [of x] unat_gt_0 [of x] by simp

lemma unat_dec2: "x \<noteq> 1 \<Longrightarrow> unat (x - 2) < unat (x - 1 :: 'a::len word)"
  using unat_dec [of "x - 1"] by (simp add: diff_diff_eq)

section \<open>exFAT: the bitmap and deferred links\<close>

text \<open>One bit per call: the loops over bits, bytes and sectors of \<open>find_bitmap\<close>.\<close>

partial_function (option) find_bits :: "'s disk_env \<Rightarrow> bdref option list \<Rightarrow> u32 \<Rightarrow> u32 \<Rightarrow> fat_vol \<Rightarrow> u32 \<Rightarrow> u32 \<Rightarrow> u32 \<Rightarrow>
    nat \<Rightarrow> u8 \<Rightarrow> 's \<Rightarrow> (u32 \<times> fat_vol \<times> 's) option" where
  "find_bits env m clst ncl vol val scl ctr i bm s =
     (let ss = unat (ssize (fv vol));
          bv = win (fv vol) ! i AND bm;
          (val, bm, i) = (if val + 1 \<ge> n_fatent (fv vol) - 2 then (0, 0, ss) else (val + 1, push_bit 1 bm, i))
      in if bv = 0 \<and> ctr + 1 = ncl then Some (scl + 2, vol, s)
         else let (scl, ctr) = (if bv = 0 then (scl, ctr + 1) else (val, 0))
              in if val = clst then Some (0, vol, s)
                 else if bm \<noteq> 0 then find_bits env m clst ncl vol val scl ctr i bm s
                 else if i + 1 < ss then find_bits env m clst ncl vol val scl ctr (i + 1) 1 s
                 else let (res, vol, s) = vmove_window env m vol (bitbase vol + ucast (val div 8 div ucast (ssize (fv vol)))) s
                      in if res \<noteq> FR_OK then Some (0xFFFFFFFF, vol, s)
                         else find_bits env m clst ncl vol val scl ctr (unat (val div 8 mod ucast (ssize (fv vol))))
                                (push_bit (unat (val mod 8)) 1) s)"

definition find_bitmap :: "'s disk_env \<Rightarrow> bdref option list \<Rightarrow> fat_vol \<Rightarrow> u32 \<Rightarrow> u32 \<Rightarrow> 's \<Rightarrow> (u32 \<times> fat_vol \<times> 's) option" where
  "find_bitmap env m vol clst ncl s =
     (let clst = (if clst - 2 \<ge> n_fatent (fv vol) - 2 then 0 else clst - 2);
          (res, vol, s) = vmove_window env m vol (bitbase vol + ucast (clst div 8 div ucast (ssize (fv vol)))) s
      in if res \<noteq> FR_OK then Some (0xFFFFFFFF, vol, s)
         else find_bits env m clst ncl vol clst clst 0 (unat (clst div 8 mod ucast (ssize (fv vol)))) (push_bit (unat (clst mod 8)) 1) s)"

text \<open>\<open>change_bitmap\<close> flips \<open>ncl\<close> bits that must all have the other value; \<open>sect\<close> is the next sector.\<close>

function change_bits :: "'s disk_env \<Rightarrow> bdref option list \<Rightarrow> bool \<Rightarrow> u32 \<Rightarrow> fat_vol \<Rightarrow> u64 \<Rightarrow> nat \<Rightarrow> u8 \<Rightarrow> 's \<Rightarrow> fresult \<times> fat_vol \<times> 's" where
  "change_bits env m bv ncl vol sect i bm s =
     (if bv = (win (fv vol) ! i AND bm \<noteq> 0) then (FR_INT_ERR, vol, s)
      else let vol = vol\<lparr>fv := (fv vol)\<lparr>win := (win (fv vol))[i := win (fv vol) ! i XOR bm], wflag := True\<rparr>\<rparr>
           in if ncl - 1 = 0 then (FR_OK, vol, s)
              else if push_bit 1 bm \<noteq> 0 then change_bits env m bv (ncl - 1) vol sect i (push_bit 1 bm) s
              else if i + 1 < unat (ssize (fv vol)) then change_bits env m bv (ncl - 1) vol sect (i + 1) 1 s
              else let (res, vol, s) = vmove_window env m vol sect s
                   in if res \<noteq> FR_OK then (FR_DISK_ERR, vol, s) else change_bits env m bv (ncl - 1) vol (sect + 1) 0 1 s)"
  by pat_completeness auto
termination
  by (relation "measure (\<lambda>(env, m, bv, ncl, vol, sect, i, bm, s). unat (ncl - 1))") (auto simp: unat_dec2)

declare change_bits.simps [simp del]

definition change_bitmap :: "'s disk_env \<Rightarrow> bdref option list \<Rightarrow> fat_vol \<Rightarrow> u32 \<Rightarrow> u32 \<Rightarrow> bool \<Rightarrow> 's \<Rightarrow> fresult \<times> fat_vol \<times> 's" where
  "change_bitmap env m vol clst ncl bv s =
     (let clst = clst - 2; ss = ucast (ssize (fv vol)); sect = bitbase vol + ucast (clst div 8 div ss);
          (res, vol, s) = vmove_window env m vol sect s
      in if res \<noteq> FR_OK then (FR_DISK_ERR, vol, s)
         else change_bits env m bv ncl vol (sect + 1) (unat (clst div 8 mod ss)) (push_bit (unat (clst mod 8)) 1) s)"

fun first_links :: "'s disk_env \<Rightarrow> bdref option list \<Rightarrow> nat \<Rightarrow> u32 \<Rightarrow> fat_vol \<Rightarrow> 's \<Rightarrow> fresult \<times> fat_vol \<times> 's" where
  "first_links env m 0 cl vol s = (FR_OK, vol, s)"
| "first_links env m (Suc n) cl vol s =
     (let (res, vol, s) = vput_fat env m vol cl (cl + 1) s in if res \<noteq> FR_OK then (res, vol, s) else first_links env m n (cl + 1) vol s)"

definition fill_first_frag :: "'s disk_env \<Rightarrow> bdref option list \<Rightarrow> ffobjid \<Rightarrow> fat_vol \<Rightarrow> 's \<Rightarrow> fresult \<times> ffobjid \<times> fat_vol \<times> 's" where
  "fill_first_frag env m obj vol s =
     (if ob_stat obj = 3
      then let (res, vol, s) = first_links env m (unat (ob_n_cont obj)) (ob_sclust obj) vol s
           in if res \<noteq> FR_OK then (res, obj, vol, s) else (FR_OK, obj\<lparr>ob_stat := 0\<rparr>, vol, s)
      else (FR_OK, obj, vol, s))"

function fill_last_frag :: "'s disk_env \<Rightarrow> bdref option list \<Rightarrow> ffobjid \<Rightarrow> u32 \<Rightarrow> u32 \<Rightarrow> fat_vol \<Rightarrow> 's \<Rightarrow> fresult \<times> ffobjid \<times> fat_vol \<times> 's" where
  "fill_last_frag env m obj lcl term vol s =
     (if ob_n_frag obj > 0
      then let (res, vol, s) = vput_fat env m vol (lcl - ob_n_frag obj + 1) (if ob_n_frag obj > 1 then lcl - ob_n_frag obj + 2 else term) s
           in if res \<noteq> FR_OK then (res, obj, vol, s) else fill_last_frag env m (obj\<lparr>ob_n_frag := ob_n_frag obj - 1\<rparr>) lcl term vol s
      else (FR_OK, obj, vol, s))"
  by pat_completeness auto
termination
  by (relation "measure (\<lambda>(env, m, obj, lcl, term, vol, s). unat (ob_n_frag obj))") (auto simp: unat_dec word_gt_0)

declare fill_last_frag.simps [simp del]

section \<open>Removing a chain\<close>

definition count_freed :: "fat_vol \<Rightarrow> fat_vol" where
  "count_freed vol =
     (if free_clst vol < n_fatent (fv vol) - 2 then vol\<lparr>free_clst := free_clst vol + 1, fsi_flag := fsi_flag vol OR 1\<rparr> else vol)"

text \<open>The loop: \<open>FR_OK\<close> when it is left, else the early return. \<open>scl\<close> and \<open>ecl\<close> delimit the contiguous block.\<close>

partial_function (option) remove_loop :: "'s disk_env \<Rightarrow> bdref option list \<Rightarrow> ffobjid \<Rightarrow> fat_vol \<Rightarrow> u32 \<Rightarrow> u32 \<Rightarrow> u32 \<Rightarrow> 's \<Rightarrow>
    (fresult \<times> fat_vol \<times> 's) option" where
  "remove_loop env m obj vol clst scl ecl s =
     (let (nxt, vol, s) = vget_fat env m vol obj clst s
      in if nxt = 0 then Some (FR_OK, vol, s)
         else if nxt = 1 then Some (FR_INT_ERR, vol, s)
         else if nxt = 0xFFFFFFFF then Some (FR_DISK_ERR, vol, s)
         else let (res, vol, s) = (if fs_type (fv vol) \<noteq> FS_EXFAT then vput_fat env m vol clst 0 s else (FR_OK, vol, s))
              in if res \<noteq> FR_OK then Some (res, vol, s)
                 else let vol = count_freed vol;
                          (res, scl, ecl, vol, s) =
                            (if ecl + 1 = nxt then (FR_OK, scl, nxt, vol, s)
                             else if fs_type (fv vol) = FS_EXFAT
                             then let (res, vol, s) = change_bitmap env m vol scl (ecl - scl + 1) False s in (res, nxt, nxt, vol, s)
                             else (FR_OK, nxt, nxt, vol, s))
                      in if res \<noteq> FR_OK then Some (res, vol, s)
                         else if nxt < n_fatent (fv vol) then remove_loop env m obj vol nxt scl ecl s
                         else Some (FR_OK, vol, s))"

text \<open>exFAT: is the rest of the chain contiguous from \<open>clst\<close> to \<open>pclst\<close>? \<open>Inl\<close> is an early return.\<close>

partial_function (option) contiguous_loop :: "'s disk_env \<Rightarrow> bdref option list \<Rightarrow> ffobjid \<Rightarrow> u32 \<Rightarrow> fat_vol \<Rightarrow> u32 \<Rightarrow> 's \<Rightarrow>
    ((fresult + u32) \<times> fat_vol \<times> 's) option" where
  "contiguous_loop env m obj pclst vol clst s =
     (if clst = pclst then Some (Inr clst, vol, s)
      else let (nxt, vol, s) = vget_fat env m vol obj clst s
           in if nxt < 2 then Some (Inl FR_INT_ERR, vol, s)
              else if nxt = 0xFFFFFFFF then Some (Inl FR_DISK_ERR, vol, s)
              else if nxt \<noteq> clst + 1 then Some (Inr clst, vol, s)
              else contiguous_loop env m obj pclst vol (clst + 1) s)"

definition remove_post :: "'s disk_env \<Rightarrow> bdref option list \<Rightarrow> ffobjid \<Rightarrow> u32 \<Rightarrow> fat_vol \<Rightarrow> 's \<Rightarrow> (fresult \<times> ffobjid \<times> fat_vol \<times> 's) option" where
  "remove_post env m obj pclst vol s =
     (if fs_type (fv vol) \<noteq> FS_EXFAT then Some (FR_OK, obj, vol, s)
      else if pclst = 0 then Some (FR_OK, obj\<lparr>ob_stat := 0\<rparr>, vol, s)
      else if ob_stat obj = 0
      then map_option (\<lambda>(r, vol, s). case r of Inl e \<Rightarrow> (e, obj, vol, s)
               | Inr clst \<Rightarrow> (FR_OK, if clst = pclst then obj\<lparr>ob_stat := 2\<rparr> else obj, vol, s))
             (contiguous_loop env m obj pclst vol (ob_sclust obj) s)
      else Some (FR_OK, if ob_stat obj = 3 \<and> pclst \<ge> ob_sclust obj \<and> pclst \<le> ob_sclust obj + ob_n_cont obj
                        then obj\<lparr>ob_stat := 2\<rparr> else obj, vol, s))"

definition remove_chain :: "'s disk_env \<Rightarrow> bdref option list \<Rightarrow> ffobjid \<Rightarrow> fat_vol \<Rightarrow> u32 \<Rightarrow> u32 \<Rightarrow> 's \<Rightarrow>
    (fresult \<times> ffobjid \<times> fat_vol \<times> 's) option" where
  "remove_chain env m obj vol clst pclst s =
     (if clst < 2 \<or> clst \<ge> n_fatent (fv vol) then Some (FR_INT_ERR, obj, vol, s)
      else let (res, vol, s) = (if pclst \<noteq> 0 \<and> (fs_type (fv vol) \<noteq> FS_EXFAT \<or> ob_stat obj \<noteq> 2)
                                then vput_fat env m vol pclst 0xFFFFFFFF s else (FR_OK, vol, s))
           in if res \<noteq> FR_OK then Some (res, obj, vol, s)
              else case remove_loop env m obj vol clst clst clst s of
                     None \<Rightarrow> None
                   | Some (res, vol, s) \<Rightarrow> if res \<noteq> FR_OK then Some (res, obj, vol, s) else remove_post env m obj pclst vol s)"

section \<open>Creating and stretching a chain\<close>

text \<open>The search on FAT volumes: \<open>Inl\<close> is an early return, \<open>Inr\<close> the free cluster.\<close>

partial_function (option) find_free :: "'s disk_env \<Rightarrow> bdref option list \<Rightarrow> ffobjid \<Rightarrow> u32 \<Rightarrow> fat_vol \<Rightarrow> u32 \<Rightarrow> 's \<Rightarrow>
    ((u32 + u32) \<times> fat_vol \<times> 's) option" where
  "find_free env m obj scl vol ncl s =
     (let wrap = ncl + 1 \<ge> n_fatent (fv vol); ncl = (if wrap then 2 else ncl + 1)
      in if wrap \<and> ncl > scl then Some (Inl 0, vol, s)
         else let (cs, vol, s) = vget_fat env m vol obj ncl s
              in if cs = 0 then Some (Inr ncl, vol, s)
                 else if cs = 1 \<or> cs = 0xFFFFFFFF then Some (Inl cs, vol, s)
                 else if ncl = scl then Some (Inl 0, vol, s)
                 else find_free env m obj scl vol ncl s)"

text \<open>The FAT branch of \<open>create_chain\<close> up to the marking of the new cluster.\<close>

definition find_next :: "'s disk_env \<Rightarrow> bdref option list \<Rightarrow> ffobjid \<Rightarrow> u32 \<Rightarrow> u32 \<Rightarrow> fat_vol \<Rightarrow> 's \<Rightarrow>
    ((u32 + u32) \<times> fat_vol \<times> 's) option" where
  "find_next env m obj clst scl vol s =
     (if scl = clst
      then let ncl = (if scl + 1 \<ge> n_fatent (fv vol) then 2 else scl + 1);
               (cs, vol, s) = vget_fat env m vol obj ncl s
           in if cs = 1 \<or> cs = 0xFFFFFFFF then Some (Inl cs, vol, s)
              else if cs \<noteq> 0
              then let cs = last_clst vol; scl = (if cs \<ge> 2 \<and> cs < n_fatent (fv vol) then cs else scl)
                   in find_free env m obj scl vol scl s
              else Some (Inr ncl, vol, s)
      else find_free env m obj scl vol scl s)"

definition alloc_fat :: "'s disk_env \<Rightarrow> bdref option list \<Rightarrow> ffobjid \<Rightarrow> u32 \<Rightarrow> u32 \<Rightarrow> fat_vol \<Rightarrow> 's \<Rightarrow>
    ((u32 + fresult \<times> u32) \<times> ffobjid \<times> fat_vol \<times> 's) option" where
  "alloc_fat env m obj clst scl vol s =
     map_option (\<lambda>(x, vol, s). case x of
         Inl e \<Rightarrow> (Inl e, obj, vol, s)
       | Inr ncl \<Rightarrow>
           let (res, vol, s) = vput_fat env m vol ncl 0xFFFFFFFF s;
               (res, vol, s) = (if res = FR_OK \<and> clst \<noteq> 0 then vput_fat env m vol clst ncl s else (res, vol, s))
           in (Inr (res, ncl), obj, vol, s))
       (find_next env m obj clst scl vol s)"

text \<open>The exFAT branch of \<open>create_chain\<close>.\<close>

definition alloc_exfat :: "'s disk_env \<Rightarrow> bdref option list \<Rightarrow> ffobjid \<Rightarrow> u32 \<Rightarrow> u32 \<Rightarrow> fat_vol \<Rightarrow> 's \<Rightarrow>
    ((u32 + fresult \<times> u32) \<times> ffobjid \<times> fat_vol \<times> 's) option" where
  "alloc_exfat env m obj clst scl vol s =
     (case find_bitmap env m vol scl 1 s of
        None \<Rightarrow> None
      | Some (ncl, vol, s) \<Rightarrow>
          if ncl = 0 \<or> ncl = 0xFFFFFFFF then Some (Inl ncl, obj, vol, s)
          else let (res, vol, s) = change_bitmap env m vol ncl 1 True s
               in if res = FR_INT_ERR then Some (Inl 1, obj, vol, s)
                  else if res = FR_DISK_ERR then Some (Inl 0xFFFFFFFF, obj, vol, s)
                  else let obj = (if clst = 0 then obj\<lparr>ob_stat := 2\<rparr>
                                  else if ob_stat obj = 2 \<and> ncl \<noteq> scl + 1 then obj\<lparr>ob_n_cont := scl - ob_sclust obj, ob_stat := 3\<rparr>
                                  else obj)
                       in if ob_stat obj \<noteq> 2
                          then if ncl = clst + 1
                               then Some (Inr (res, ncl), obj\<lparr>ob_n_frag := if ob_n_frag obj \<noteq> 0 then ob_n_frag obj + 1 else 2\<rparr>, vol, s)
                               else let obj = (if ob_n_frag obj = 0 then obj\<lparr>ob_n_frag := 1\<rparr> else obj);
                                        (res, obj, vol, s) = fill_last_frag env m obj clst ncl vol s
                                    in Some (Inr (res, ncl), if res = FR_OK then obj\<lparr>ob_n_frag := 1\<rparr> else obj, vol, s)
                          else Some (Inr (res, ncl), obj, vol, s))"

definition create_done :: "fresult \<Rightarrow> u32 \<Rightarrow> fat_vol \<Rightarrow> u32 \<times> fat_vol" where
  "create_done res ncl vol =
     (if res = FR_OK
      then (ncl, vol\<lparr>last_clst := ncl, free_clst := (if free_clst vol \<le> n_fatent (fv vol) - 2 then free_clst vol - 1 else free_clst vol),
                     fsi_flag := fsi_flag vol OR 1\<rparr>)
      else (if res = FR_DISK_ERR then 0xFFFFFFFF else 1, vol))"

definition create_chain :: "'s disk_env \<Rightarrow> bdref option list \<Rightarrow> ffobjid \<Rightarrow> fat_vol \<Rightarrow> u32 \<Rightarrow> 's \<Rightarrow>
    (u32 \<times> ffobjid \<times> fat_vol \<times> 's) option" where
  "create_chain env m obj vol clst s =
     (let (stop, scl, vol, s) =
            (if clst = 0
             then (None, if last_clst vol = 0 \<or> last_clst vol \<ge> n_fatent (fv vol) then 1 else last_clst vol, vol, s)
             else let (cs, vol, s) = vget_fat env m vol obj clst s
                  in (if cs < 2 then Some 1 else if cs = 0xFFFFFFFF then Some cs
                      else if cs < n_fatent (fv vol) then Some cs else None, clst, vol, s))
      in case stop of
           Some r \<Rightarrow> Some (r, obj, vol, s)
         | None \<Rightarrow>
             if free_clst vol = 0 then Some (0, obj, vol, s)
             else map_option (\<lambda>(x, obj, vol, s). case x of
                      Inl r \<Rightarrow> (r, obj, vol, s)
                    | Inr (res, ncl) \<Rightarrow> (let (r, vol) = create_done res ncl vol in (r, obj, vol, s)))
                    ((if fs_type (fv vol) = FS_EXFAT then alloc_exfat else alloc_fat) env m obj clst scl vol s))"

section \<open>Synchronising\<close>

text \<open>\<open>sync_fs\<close> builds the FSInfo sector in the window; the result of writing it is not looked at.\<close>

definition fsinfo :: "fat_vol \<Rightarrow> bytes \<Rightarrow> bytes" where
  "fsinfo vol w =
     (let w = replicate (length w) 0; w = st_word w 510 0xAA55; w = st_dword w 0 0x41615252; w = st_dword w 484 0x61417272;
          w = st_dword w 488 (free_clst vol) in st_dword w 492 (last_clst vol))"

definition sync_fs :: "'s disk_env \<Rightarrow> bdref option list \<Rightarrow> fat_vol \<Rightarrow> 's \<Rightarrow> fresult \<times> fat_vol \<times> 's" where
  "sync_fs env m vol s =
     (let (res, fs1, s1) = sync_window env m (fv vol) s; vol1 = vol\<lparr>fv := fs1\<rparr>
      in if res \<noteq> FR_OK then (res, vol1, s1)
         else let (vol2, s2) =
                    (if fs_type fs1 = FS_FAT32 \<and> fsi_flag vol1 = 1
                     then let fs2 = fs1\<lparr>win := fsinfo vol1 (win fs1), winsect := volbase vol1 + 1\<rparr>
                          in (vol1\<lparr>fv := fs2, fsi_flag := 0\<rparr>,
                              snd (disk_write env m (pdrv fs2) (take (unat (ssize fs2)) (win fs2)) (winsect fs2) 1 s1))
                     else (vol1, s1));
                  (r, _, s3) = disk_ioctl env m (pdrv (fv vol2)) CTRL_SYNC s2
              in (if r \<noteq> RES_OK then FR_DISK_ERR else FR_OK, vol2, s3))"

section \<open>Chains\<close>

lemma chain_range: "is_chain nx n cl \<Longrightarrow> c \<in> set cl \<Longrightarrow> 2 \<le> c \<and> c < n"
  by (induction nx n cl rule: is_chain.induct) auto

lemma chain_last: "is_chain nx n cl \<Longrightarrow> unat n \<le> nx (last cl)"
  by (induction nx n cl rule: is_chain.induct) auto

lemma chain_pos: "is_chain nx n cl \<Longrightarrow> c \<in> set cl \<Longrightarrow> nx c \<noteq> 0"
proof (induction nx n cl rule: is_chain.induct)
  case (3 nx n x y cl)
  then have "2 \<le> y" using chain_range [of nx n "y # cl" y] by simp
  then show ?case using 3 by (auto simp: word_le_nat_alt)
qed (auto simp: word_le_nat_alt word_less_nat_alt)

lemma chain_suffix: "is_chain nx n (xs @ c # ys) \<Longrightarrow> is_chain nx n (c # ys)"
proof (induction xs)
  case (Cons x xs)
  then show ?case by (cases xs) auto
qed simp

lemma chain_unique: "is_chain nx n (c # a) \<Longrightarrow> is_chain nx n (c # b) \<Longrightarrow> a = b"
proof (induction a arbitrary: c b)
  case Nil
  show ?case
  proof (cases b)
    case (Cons d b')
    then have "unat d < unat n" using Nil.prems(2) chain_range [of nx n "c # b" d] by (simp add: word_less_nat_alt)
    then show ?thesis using Nil.prems Cons by simp
  qed simp
next
  case (Cons d a)
  have d: "nx c = unat d" "unat d < unat n" "is_chain nx n (d # a)"
    using Cons.prems(1) chain_range [of nx n "d # a" d] by (auto simp: word_less_nat_alt)
  show ?case
  proof (cases b)
    case (Cons e b')
    then have "nx c = unat e" "is_chain nx n (e # b')" using \<open>is_chain nx n (c # b)\<close> by auto
    moreover have "d = e" using calculation(1) d(1) unsigned_word_eqI by metis
    ultimately show ?thesis using Cons.IH [of d b'] d(3) \<open>b = e # b'\<close> by simp
  qed (use Cons.prems(2) d in simp)
qed

lemma chain_distinct: "is_chain nx n cl \<Longrightarrow> distinct cl"
proof (induction cl)
  case (Cons c cl)
  have "c \<notin> set cl"
  proof
    assume "c \<in> set cl"
    then obtain xs ys where e: "cl = xs @ c # ys" by (meson split_list)
    then have "is_chain nx n (c # ys)" using chain_suffix [of nx n "c # xs" c ys] Cons.prems by simp
    then show False using chain_unique [OF Cons.prems] e by force
  qed
  moreover have "distinct cl" using Cons by (cases cl) simp_all
  ultimately show ?case by simp
qed simp

lemma chain_cong:
  assumes "\<And>c. c \<in> set cl \<Longrightarrow> nx c = nx' c"
  shows "is_chain nx n cl = is_chain nx' n cl"
  using assms by (induction nx n cl rule: is_chain.induct) auto

lemma chain_snoc:
  assumes "is_chain nx n (cl @ [c])" "2 \<le> d" "d < n" "d \<notin> set (cl @ [c])"
    and "nx' c = unat d" "unat n \<le> nx' d" "\<And>x. x \<in> set cl \<Longrightarrow> nx' x = nx x"
  shows "is_chain nx' n (cl @ [c, d])"
  using assms
proof (induction cl)
  case (Cons x cl)
  then show ?case by (cases cl) auto
qed simp

text \<open>The free count after \<open>k\<close> clusters were freed; \<open>m\<close> is the number of clusters.\<close>

definition freed :: "nat \<Rightarrow> nat \<Rightarrow> nat \<Rightarrow> nat" where
  "freed m k f = (if f < m then min m (f + k) else f)"

lemma freed_Suc: "freed m (Suc k) f = freed m k (freed m 1 f)"
  by (auto simp: freed_def)

lemma count_freed_sel [simp]:
  "fv (count_freed vol) = fv vol" "last_clst (count_freed vol) = last_clst vol" "volbase (count_freed vol) = volbase vol"
  "bitbase (count_freed vol) = bitbase vol"
  by (simp_all add: count_freed_def)

lemma count_freed_count: "unat (free_clst (count_freed vol)) = freed (unat (n_fatent (fv vol) - 2)) 1 (unat (free_clst vol))"
proof (cases "free_clst vol < n_fatent (fv vol) - 2")
  case True
  then have lt: "unat (free_clst vol) < unat (n_fatent (fv vol) - 2)" by (simp add: word_less_nat_alt)
  then have "unat (free_clst vol + 1) = unat (free_clst vol) + 1"
    using unat_bound [of 32 "n_fatent (fv vol) - 2"] by (subst unat_add_lt) simp_all
  then show ?thesis using True lt by (simp add: count_freed_def freed_def)
next
  case False
  then have "\<not> unat (free_clst vol) < unat (n_fatent (fv vol) - 2)" by (simp add: word_less_nat_alt)
  then show ?thesis using False by (simp add: count_freed_def freed_def)
qed

text \<open>The clusters still to look at after \<open>ncl\<close>, and how many rounds that takes.\<close>

definition ahead :: "nat \<Rightarrow> nat \<Rightarrow> nat \<Rightarrow> nat set" where
  "ahead n scl ncl = {c. 2 \<le> c \<and> c < n \<and> (if ncl < scl then ncl < c \<and> c \<le> scl else ncl < c \<or> c \<le> scl)}"

definition rounds :: "nat \<Rightarrow> nat \<Rightarrow> nat \<Rightarrow> nat" where
  "rounds n scl ncl = (if ncl < scl then scl - ncl else n - ncl + scl)"

definition clusters :: "fat_vol \<Rightarrow> nat set" where
  "clusters vol = {2..<unat (n_fatent (fv vol))}"

lemma ahead_all: "1 \<le> scl \<Longrightarrow> ahead n scl scl = {2..<n}"
  by (auto simp: ahead_def)

context fat_device
begin

section \<open>Removing a chain, on FAT volumes\<close>

definition tab :: "fat_vol \<Rightarrow> 's \<Rightarrow> nat \<Rightarrow> nat" where
  "tab vol s = fat_value (fv vol) (view (fv vol) s)"

definition fat_ok :: "fat_vol \<Rightarrow> 's \<Rightarrow> bool" where
  "fat_ok vol s \<longleftrightarrow> coherent (fv vol) s \<and> fs_type (fv vol) \<in> {FS_FAT12, FS_FAT16, FS_FAT32}"

text \<open>What an operation on the table may do: another window, the entries outside \<open>A\<close> unchanged.\<close>

definition only :: "nat set \<Rightarrow> fat_vol \<Rightarrow> 's \<Rightarrow> fat_vol \<Rightarrow> 's \<Rightarrow> bool" where
  "only A vol s vol' s' \<longleftrightarrow> fat_ok vol' s' \<and> same_volume (fv vol) (fv vol')
     \<and> (\<forall>x < unat (n_fatent (fv vol)). x \<notin> A \<longrightarrow> tab vol' s' x = tab vol s x)"

lemma only_n: "only A vol s vol' s' \<Longrightarrow> n_fatent (fv vol') = n_fatent (fv vol) \<and> fat_bits (fv vol') = fat_bits (fv vol)"
  using same_volume_fields(6) same_volume_fat(5) by (auto simp: only_def)

lemma only_refl: "fat_ok vol s \<Longrightarrow> only A vol s vol s"
  by (simp add: only_def)

lemma only_trans:
  assumes "only A vol s vol1 s1" "only B vol1 s1 vol2 s2"
  shows "only (A \<union> B) vol s vol2 s2"
  using assms only_n [OF assms(1)] unfolding only_def by (auto intro: same_volume_trans)

lemma only_mono: "only A vol s vol' s' \<Longrightarrow> A \<subseteq> B \<Longrightarrow> only B vol s vol' s'"
  by (auto simp: only_def)

lemma only_cong: "only A vol s vol1 s1 \<Longrightarrow> fv vol2 = fv vol1 \<Longrightarrow> only A vol s vol2 s1"
  by (auto simp: only_def fat_ok_def tab_def)

lemma tab_cong: "fv vol = fv vol' \<Longrightarrow> tab vol s = tab vol' s"
  by (simp add: tab_def)

lemma vget_ok:
  assumes "fat_ok vol s" "2 \<le> c" "c < n_fatent (fv vol)" "vget_fat env mounted vol obj c s = (v, vol', s')"
  shows "only {} vol s vol' s'" "v = 0xffffffff \<or> unat v = tab vol s (unat c)" "vol' = vol\<lparr>fv := fv vol'\<rparr>"
proof -
  obtain fs' where g: "get_fat env mounted (fv vol) obj c s = (v, fs', s')" and e: "vol' = vol\<lparr>fv := fs'\<rparr>"
    using assms(4) by (auto simp: vget_fat_def split: prod.splits)
  have co: "coherent (fv vol) s" and ty: "fs_type (fv vol) \<noteq> FS_NONE" "fs_type (fv vol) = FS_EXFAT \<Longrightarrow> ob_stat obj = 0 \<and> ob_n_frag obj = 0"
    using assms(1) by (auto simp: fat_ok_def)
  note k = get_fat_ok [OF co assms(2,3) ty g]
  have sv: "same_volume (fv vol) fs'" "coherent fs' s'" using k by (simp_all add: keeps_def)
  show "only {} vol s vol' s'"
    using sv assms(1) keeps_value [OF co] k same_volume_fields(1) [OF sv(1)] same_volume_fat(2) [OF sv(1)]
    by (simp add: only_def fat_ok_def tab_def e)
  show "v = 0xffffffff \<or> unat v = tab vol s (unat c)" using k by (simp add: tab_def)
  show "vol' = vol\<lparr>fv := fv vol'\<rparr>" using e by simp
qed

lemma vput_ok:
  assumes "fat_ok vol s" "2 \<le> c" "c < n_fatent (fv vol)" "vput_fat env mounted vol c val s = (r, vol', s')"
  shows "only {unat c} vol s vol' s'" "r = FR_OK \<Longrightarrow> tab vol' s' (unat c) = unat val mod 2 ^ fat_bits (fv vol)" "vol' = vol\<lparr>fv := fv vol'\<rparr>"
proof -
  obtain fs' where g: "put_fat env mounted (fv vol) c val s = (r, fs', s')" and e: "vol' = vol\<lparr>fv := fs'\<rparr>"
    using assms(4) by (auto simp: vput_fat_def split: prod.splits)
  have co: "coherent (fv vol) s" and ty: "fs_type (fv vol) \<noteq> FS_NONE" using assms(1) by (auto simp: fat_ok_def)
  note k = put_fat_ok [OF co assms(2,3) ty g, unfolded entry_put_def]
  have sv: "same_volume (fv vol) fs'" using k by simp
  show "only {unat c} vol s vol' s'"
    using k assms(1) same_volume_fields(1) [OF sv] same_volume_fat(2) [OF sv] by (auto simp: only_def fat_ok_def tab_def e)
  show "r = FR_OK \<Longrightarrow> tab vol' s' (unat c) = unat val mod 2 ^ fat_bits (fv vol)"
    using k same_volume_fat(2) [OF sv] by (simp add: tab_def e)
  show "vol' = vol\<lparr>fv := fv vol'\<rparr>" using e by simp
qed

text \<open>One round of the loop.\<close>

lemma remove_round:
  assumes ok: "fat_ok vol s" and c: "2 \<le> clst" "clst < n_fatent (fv vol)"
  obtains r vol1 s1 where "remove_loop env mounted obj vol clst scl ecl s = Some (r, vol1, s1)" "only {unat clst} vol s vol1 s1"
      "r = FR_OK \<Longrightarrow> tab vol1 s1 (unat clst) = 0"
      "r = FR_OK \<Longrightarrow> tab vol s (unat clst) = 0 \<or> unat (n_fatent (fv vol)) \<le> tab vol s (unat clst)"
      "r = FR_OK \<Longrightarrow> tab vol s (unat clst) \<noteq> 0 \<Longrightarrow> unat (free_clst vol1) = freed (unat (n_fatent (fv vol) - 2)) 1 (unat (free_clst vol))"
    | nxt vol1 s1 scl' where "2 \<le> nxt" "nxt < n_fatent (fv vol)" "tab vol s (unat clst) = unat nxt"
      "remove_loop env mounted obj vol clst scl ecl s = remove_loop env mounted obj vol1 nxt scl' nxt s1"
      "only {unat clst} vol s vol1 s1" "tab vol1 s1 (unat clst) = 0"
      "unat (free_clst vol1) = freed (unat (n_fatent (fv vol) - 2)) 1 (unat (free_clst vol))"
proof -
  let ?n = "n_fatent (fv vol)"
  obtain nxt va sa where g: "vget_fat env mounted vol obj clst s = (nxt, va, sa)" by (metis prod_cases3)
  note G = vget_ok [OF ok c g]
  have ca: "fat_ok va sa" "n_fatent (fv va) = ?n" "fs_type (fv va) \<noteq> FS_EXFAT"
    using G(1) only_n [OF G(1)] by (auto simp: only_def fat_ok_def)
  obtain res vb sb where p: "vput_fat env mounted va clst 0 sa = (res, vb, sb)" by (metis prod_cases3)
  have c': "clst < n_fatent (fv va)" using c ca by simp
  note P = vput_ok [OF ca(1) c(1) c' p]
  have nb: "n_fatent (fv vb) = ?n" "fs_type (fv vb) \<noteq> FS_EXFAT" using only_n [OF P(1)] ca(2) P(1) by (auto simp: only_def fat_ok_def)
  have o: "only {unat clst} vol s vb sb" using only_trans [OF G(1) P(1)] by simp
  have oa: "only {unat clst} vol s va sa" using only_mono [OF G(1)] by simp
  have f: "free_clst va = free_clst vol" "free_clst vb = free_clst vol" by (subst G(3), simp) (subst P(3), subst G(3), simp)
  have cf: "unat (free_clst (count_freed vb)) = freed (unat (?n - 2)) 1 (unat (free_clst vol))"
    using count_freed_count [of vb] nb f by simp
  have run: "remove_loop env mounted obj vol clst scl ecl s =
      (if nxt = 0 then Some (FR_OK, va, sa) else if nxt = 1 then Some (FR_INT_ERR, va, sa)
       else if nxt = 0xFFFFFFFF then Some (FR_DISK_ERR, va, sa)
       else if res \<noteq> FR_OK then Some (res, vb, sb)
       else if nxt < ?n then remove_loop env mounted obj (count_freed vb) nxt (if ecl + 1 = nxt then scl else nxt) nxt sb
       else Some (FR_OK, count_freed vb, sb))"
    by (subst remove_loop.simps) (simp add: g p ca(3) nb)
  note ob = only_cong [OF o, of "count_freed vb"]
  have tb: "res = FR_OK \<Longrightarrow> tab (count_freed vb) sb (unat clst) = 0" using P(2) by (simp add: tab_cong [of "count_freed vb" vb])
  consider "nxt = 0" | "nxt \<noteq> 0" "nxt \<in> {1, 0xFFFFFFFF} \<or> res \<noteq> FR_OK"
    | "nxt \<noteq> 0" "nxt \<noteq> 1" "nxt \<noteq> 0xFFFFFFFF" "res = FR_OK" by blast
  then show ?thesis
  proof cases
    case 1
    then have "tab vol s (unat clst) = 0" using G(2) by auto
    moreover have "tab va sa (unat clst) = tab vol s (unat clst)" using G(1) c(2) by (simp add: only_def word_less_nat_alt)
    ultimately show ?thesis using that(1) [OF _ oa] run 1 by simp
  next
    case 2
    then have "\<exists>r0 v0 s0. remove_loop env mounted obj vol clst scl ecl s = Some (r0, v0, s0) \<and> r0 \<noteq> FR_OK \<and> only {unat clst} vol s v0 s0"
      using run oa o by (cases "nxt = 1"; cases "nxt = 0xFFFFFFFF") auto
    then show ?thesis using that(1) by blast
  next
    case 3
    then have t: "tab vol s (unat clst) = unat nxt" using G(2) by simp
    show ?thesis
    proof (cases "nxt < ?n")
      case True
      have "unat nxt \<noteq> 0" "unat nxt \<noteq> 1" using 3(1,2) by (metis unat_eq_zero, metis unat_1 unsigned_word_eqI)
      then have "2 \<le> nxt" by (simp add: word_le_nat_alt)
      then show ?thesis using that(2) [OF _ True t _ ob] run 3 True tb cf by simp
    next
      case False
      then have "unat ?n \<le> tab vol s (unat clst)" using t by (simp add: word_less_nat_alt)
      then show ?thesis using that(1) [of FR_OK, OF _ ob] run 3 False tb cf by simp
    qed
  qed
qed

text \<open>The loop returns for every table: each round clears an entry that was not clear.\<close>

definition used :: "fat_vol \<Rightarrow> 's \<Rightarrow> nat set" where
  "used vol s = {x. x < unat (n_fatent (fv vol)) \<and> tab vol s x \<noteq> 0}"

lemma remove_returns:
  assumes "fat_ok vol s" "2 \<le> clst" "clst < n_fatent (fv vol)"
  shows "\<exists>r vol' s'. remove_loop env mounted obj vol clst scl ecl s = Some (r, vol', s') \<and> only UNIV vol s vol' s'"
  using assms
proof (induction "card (used vol s)" arbitrary: vol s clst scl ecl rule: less_induct)
  case less
  show ?case
  proof (rule remove_round [OF less.prems, of obj scl ecl])
    fix nxt vol1 s1 scl'
    assume k: "2 \<le> nxt" "nxt < n_fatent (fv vol)" "tab vol s (unat clst) = unat nxt"
      "remove_loop env mounted obj vol clst scl ecl s = remove_loop env mounted obj vol1 nxt scl' nxt s1"
      "only {unat clst} vol s vol1 s1" "tab vol1 s1 (unat clst) = 0"
    have n: "n_fatent (fv vol1) = n_fatent (fv vol)" using only_n [OF k(5)] by simp
    have "unat clst \<in> used vol s" using less.prems(3) k(1,3) by (simp add: used_def word_less_nat_alt word_le_nat_alt)
    moreover have "used vol1 s1 \<subseteq> used vol s - {unat clst}" using k(5,6) n by (auto simp: used_def only_def)
    ultimately have "used vol1 s1 \<subset> used vol s" by blast
    then have "card (used vol1 s1) < card (used vol s)" by (intro psubset_card_mono) (auto simp: used_def)
    moreover have "fat_ok vol1 s1" using k(5) by (simp add: only_def)
    ultimately obtain r vol' s' where "remove_loop env mounted obj vol1 nxt scl' nxt s1 = Some (r, vol', s')" "only UNIV vol1 s1 vol' s'"
      using less.hyps [of vol1 s1 nxt scl' nxt] k n by auto
    then show ?thesis using k(4) only_trans [OF k(5)] by fastforce
  qed (blast intro: only_mono)
qed

lemma remove_frees:
  assumes "fat_ok vol s" "is_chain (\<lambda>c. tab vol s (unat c)) (n_fatent (fv vol)) (clst # cl)"
    and "remove_loop env mounted obj vol clst scl ecl s = Some (r, vol', s')"
  shows "only (unat ` set (clst # cl)) vol s vol' s'
     \<and> (r = FR_OK \<longrightarrow> (\<forall>c \<in> set (clst # cl). tab vol' s' (unat c) = 0)
          \<and> unat (free_clst vol') = freed (unat (n_fatent (fv vol) - 2)) (length (clst # cl)) (unat (free_clst vol)))"
  using assms
proof (induction cl arbitrary: clst vol s scl ecl)
  case Nil
  have c: "2 \<le> clst" "clst < n_fatent (fv vol)" "unat (n_fatent (fv vol)) \<le> tab vol s (unat clst)" using Nil.prems(2) by simp_all
  show ?case
  proof (rule remove_round [OF Nil.prems(1) c(1,2), of obj scl ecl])
    fix nxt vol1 s1 scl'
    assume "nxt < n_fatent (fv vol)" "tab vol s (unat clst) = unat nxt"
    then show ?thesis using c(3) by (simp add: word_less_nat_alt)
  next
    fix r1 vol1 s1
    assume "remove_loop env mounted obj vol clst scl ecl s = Some (r1, vol1, s1)" "only {unat clst} vol s vol1 s1"
      "r1 = FR_OK \<Longrightarrow> tab vol1 s1 (unat clst) = 0"
      "r1 = FR_OK \<Longrightarrow> tab vol s (unat clst) \<noteq> 0 \<Longrightarrow> unat (free_clst vol1) = freed (unat (n_fatent (fv vol) - 2)) 1 (unat (free_clst vol))"
    moreover have "tab vol s (unat clst) \<noteq> 0" using c by (auto simp: word_less_nat_alt word_le_nat_alt)
    ultimately show ?thesis using Nil.prems(3) by simp
  qed
next
  case (Cons d cl)
  have c: "2 \<le> clst" "clst < n_fatent (fv vol)" "tab vol s (unat clst) = unat d"
    and dn: "2 \<le> d" "d < n_fatent (fv vol)" and ch: "is_chain (\<lambda>c. tab vol s (unat c)) (n_fatent (fv vol)) (d # cl)"
    using Cons.prems(2) chain_range [of _ "n_fatent (fv vol)" "clst # d # cl" d] by auto
  have nin: "clst \<notin> set (d # cl)" using chain_distinct [OF Cons.prems(2)] by simp
  show ?case
  proof (rule remove_round [OF Cons.prems(1) c(1,2), of obj scl ecl])
    fix nxt vol1 s1 scl'
    assume k: "tab vol s (unat clst) = unat nxt"
      "remove_loop env mounted obj vol clst scl ecl s = remove_loop env mounted obj vol1 nxt scl' nxt s1"
      "only {unat clst} vol s vol1 s1" "tab vol1 s1 (unat clst) = 0"
      "unat (free_clst vol1) = freed (unat (n_fatent (fv vol) - 2)) 1 (unat (free_clst vol))"
    have nd: "nxt = d" using k(1) c(3) unsigned_word_eqI by metis
    have n: "n_fatent (fv vol1) = n_fatent (fv vol)" using only_n [OF k(3)] by simp
    have same: "tab vol1 s1 (unat x) = tab vol s (unat x)" if "x \<in> set (d # cl)" for x
    proof -
      have "unat x < unat (n_fatent (fv vol))" using chain_range [OF ch that] by (simp add: word_less_nat_alt)
      moreover have "unat x \<noteq> unat clst" using nin that unsigned_word_eqI by metis
      ultimately show ?thesis using k(3) by (simp add: only_def)
    qed
    have "is_chain (\<lambda>c. tab vol1 s1 (unat c)) (n_fatent (fv vol1)) (d # cl)"
      using ch chain_cong [of "d # cl" "\<lambda>c. tab vol1 s1 (unat c)" "\<lambda>c. tab vol s (unat c)"] same n by simp
    moreover have "fat_ok vol1 s1" using k(3) by (simp add: only_def)
    ultimately have IH: "only (unat ` set (d # cl)) vol1 s1 vol' s'
      \<and> (r = FR_OK \<longrightarrow> (\<forall>c \<in> set (d # cl). tab vol' s' (unat c) = 0)
          \<and> unat (free_clst vol') = freed (unat (n_fatent (fv vol1) - 2)) (length (d # cl)) (unat (free_clst vol1)))"
      using Cons.IH [of vol1 s1 d scl' nxt] Cons.prems(3) k(2) nd by simp
    have "only (unat ` set (clst # d # cl)) vol s vol' s'" using only_trans [OF k(3)] IH by (auto intro: only_mono)
    moreover have "tab vol' s' (unat clst) = tab vol1 s1 (unat clst)"
    proof -
      have "unat clst \<notin> unat ` set (d # cl)" using nin unsigned_word_eqI by blast
      moreover have "unat clst < unat (n_fatent (fv vol1))" using c(2) n by (simp add: word_less_nat_alt)
      ultimately show ?thesis using IH unfolding only_def by blast
    qed
    ultimately show ?thesis using IH k(4,5) n freed_Suc [of "unat (n_fatent (fv vol) - 2)" "length (d # cl)"] by simp
  next
    fix r1 vol1 s1
    assume "remove_loop env mounted obj vol clst scl ecl s = Some (r1, vol1, s1)" "only {unat clst} vol s vol1 s1"
      "r1 = FR_OK \<Longrightarrow> tab vol s (unat clst) = 0 \<or> unat (n_fatent (fv vol)) \<le> tab vol s (unat clst)"
    then show ?thesis using Cons.prems(3) c(3) dn by (auto simp: word_less_nat_alt word_le_nat_alt intro: only_mono)
  qed
qed

section \<open>Creating and stretching, on FAT volumes\<close>

text \<open>A search ends with a free cluster, or with an error, or with 0 if none of \<open>A\<close> is free.\<close>

definition searched :: "nat set \<Rightarrow> fat_vol \<Rightarrow> 's \<Rightarrow> ((u32 + u32) \<times> fat_vol \<times> 's) option \<Rightarrow> bool" where
  "searched A vol s y \<longleftrightarrow> (\<exists>x vol' s'. y = Some (x, vol', s') \<and> only {} vol s vol' s' \<and> vol' = vol\<lparr>fv := fv vol'\<rparr>
     \<and> (case x of Inr c \<Rightarrow> 2 \<le> c \<and> c < n_fatent (fv vol) \<and> tab vol s (unat c) = 0
        | Inl e \<Rightarrow> e \<in> {0, 1, 0xFFFFFFFF} \<and> (e = 0 \<longrightarrow> (\<forall>c \<in> A. tab vol s c \<noteq> 0))))"

lemma searched_after:
  assumes o: "only {} vol s vol1 s1" "vol1 = vol\<lparr>fv := fv vol1\<rparr>" and y: "searched B vol1 s1 y"
    and A: "\<And>c. c \<in> A \<Longrightarrow> c < unat (n_fatent (fv vol)) \<and> (c \<in> B \<or> tab vol s c \<noteq> 0)"
  shows "searched A vol s y"
proof -
  obtain x vol' s' where k: "y = Some (x, vol', s')" "only {} vol1 s1 vol' s'" "vol' = vol1\<lparr>fv := fv vol'\<rparr>"
    "case x of Inr c \<Rightarrow> 2 \<le> c \<and> c < n_fatent (fv vol1) \<and> tab vol1 s1 (unat c) = 0
        | Inl e \<Rightarrow> e \<in> {0, 1, 0xFFFFFFFF} \<and> (e = 0 \<longrightarrow> (\<forall>c \<in> B. tab vol1 s1 c \<noteq> 0))"
    using y unfolding searched_def by blast
  have n: "n_fatent (fv vol1) = n_fatent (fv vol)" using only_n [OF o(1)] by simp
  have same: "tab vol1 s1 c = tab vol s c" if "c < unat (n_fatent (fv vol))" for c using o(1) that by (simp add: only_def)
  have "vol' = vol\<lparr>fv := fv vol'\<rparr>" using k(3) by (subst (asm) o(2)) simp
  moreover have "only {} vol s vol' s'" using only_trans [OF o(1) k(2)] by simp
  moreover have "case x of Inr c \<Rightarrow> 2 \<le> c \<and> c < n_fatent (fv vol) \<and> tab vol s (unat c) = 0
        | Inl e \<Rightarrow> e \<in> {0, 1, 0xFFFFFFFF} \<and> (e = 0 \<longrightarrow> (\<forall>c \<in> A. tab vol s c \<noteq> 0))"
  proof (cases x)
    case (Inl e)
    then show ?thesis using k(4) same A unfolding Inl sum.case by metis
  next
    case (Inr c)
    then show ?thesis using k(4) n same [of "unat c"] by (simp add: word_less_nat_alt)
  qed
  ultimately show ?thesis using k(1) unfolding searched_def by blast
qed

lemma fat_ok_n: "fat_ok vol s \<Longrightarrow> unat (n_fatent (fv vol)) < 2 ^ 31"
  using coherentD(4) [of "fv vol" s] by (auto simp: fat_ok_def geometry_ok_def word_le_nat_alt)

lemma find_free_ok:
  assumes "fat_ok vol s" "1 \<le> unat scl" "1 \<le> unat ncl" "unat scl < unat (n_fatent (fv vol)) \<or> scl = 1"
    and "unat ncl < unat (n_fatent (fv vol)) \<or> ncl = 1"
  shows "searched (ahead (unat (n_fatent (fv vol))) (unat scl) (unat ncl)) vol s (find_free env mounted obj scl vol ncl s)"
  using assms
proof (induction "rounds (unat (n_fatent (fv vol))) (unat scl) (unat ncl)" arbitrary: vol s ncl rule: less_induct)
  case less
  let ?n = "unat (n_fatent (fv vol))"
  note prems = less.prems
  have n: "?n < 2 ^ 31" by (rule fat_ok_n [OF prems(1)])
  have u: "unat (ncl + 1) = unat ncl + 1" using prems(5) n by (subst unat_add_lt) auto
  define wrap where "wrap \<longleftrightarrow> n_fatent (fv vol) \<le> ncl + 1"
  have wr: "wrap \<longleftrightarrow> ?n \<le> unat ncl + 1" unfolding wrap_def word_le_nat_alt u ..
  define k where "k = (if wrap then 2 else ncl + 1)"
  have uk: "unat k = (if wrap then 2 else unat ncl + 1)" by (simp add: k_def u)
  show ?case
  proof (cases "wrap \<and> k > scl")
    case True
    then have "unat scl < 2" using uk by (auto simp: word_less_nat_alt)
    then have "ahead ?n (unat scl) (unat ncl) = {}" using True wr prems(2,3) by (auto simp: ahead_def)
    moreover have "find_free env mounted obj scl vol ncl s = Some (Inl 0, vol, s)"
      using True unfolding k_def wrap_def by (subst find_free.simps) (auto simp: Let_def)
    ultimately show ?thesis using only_refl [OF prems(1)] by (simp add: searched_def)
  next
    case False
    have k2: "2 \<le> k" using uk prems(3) by (simp add: word_le_nat_alt)
    have kn: "k < n_fatent (fv vol)"
    proof (cases wrap)
      case True
      then have "\<not> k > scl" using False by simp
      then have "2 \<le> unat scl" using uk True by (simp add: word_less_nat_alt)
      then have "2 < ?n" using prems(4) by auto
      then show ?thesis using uk True by (simp add: word_less_nat_alt)
    qed (use uk wr in \<open>simp add: word_less_nat_alt\<close>)
    have nwrap: "wrap \<Longrightarrow> 2 \<le> unat scl" using False uk by (auto simp: word_less_nat_alt not_less)
    obtain cs v1 s1 where g: "vget_fat env mounted vol obj k s = (cs, v1, s1)" by (metis prod_cases3)
    note G = vget_ok [OF prems(1) k2 kn g]
    have n1: "n_fatent (fv v1) = n_fatent (fv vol)" using only_n [OF G(1)] by simp
    have run: "find_free env mounted obj scl vol ncl s =
        (if cs = 0 then Some (Inr k, v1, s1) else if cs = 1 \<or> cs = 0xFFFFFFFF then Some (Inl cs, v1, s1)
         else if k = scl then Some (Inl 0, v1, s1) else find_free env mounted obj scl v1 k s1)"
      using False g unfolding k_def wrap_def by (subst find_free.simps) (simp add: Let_def)
    have step: "c = unat k \<or> k \<noteq> scl \<and> c \<in> ahead ?n (unat scl) (unat k)" if "c \<in> ahead ?n (unat scl) (unat ncl)" for c
    proof -
      have "k = scl \<longleftrightarrow> unat k = unat scl" by (simp add: word_unat_eq_iff)
      then show ?thesis using that uk wr prems(2,3) nwrap by (cases wrap) (auto simp: ahead_def split: if_splits)
    qed
    consider "cs = 0" | "cs \<noteq> 0" "cs = 1 \<or> cs = 0xFFFFFFFF" | "cs \<noteq> 0" "cs \<noteq> 1" "cs \<noteq> 0xFFFFFFFF" by blast
    then show ?thesis
    proof cases
      case 1
      then have "tab vol s (unat k) = 0" using G(2) by auto
      then show ?thesis using run 1 G(1,3) k2 kn by (simp add: searched_def)
    next
      case 2
      then show ?thesis using run G(1,3) by (auto simp: searched_def)
    next
      case 3
      have t: "tab vol s (unat k) \<noteq> 0" using G(2) 3 by (metis unat_eq_zero)
      have inn: "c < ?n" if "c \<in> ahead ?n (unat scl) (unat ncl)" for c using that by (simp add: ahead_def)
      show ?thesis
      proof (cases "k = scl")
        case True
        have "find_free env mounted obj scl vol ncl s = Some (Inl 0, v1, s1)" using run 3 True by simp
        then show ?thesis using G(1,3) step t True by (auto simp: searched_def)
      next
        case False
        then have uks: "unat k \<noteq> unat scl" by (simp add: word_unat_eq_iff)
        have "rounds (unat (n_fatent (fv v1))) (unat scl) (unat k) < rounds ?n (unat scl) (unat ncl)"
          using uk wr nwrap prems(4,5) n1 kn uks by (cases wrap) (auto simp: rounds_def word_less_nat_alt split: if_splits)
        then have "searched (ahead ?n (unat scl) (unat k)) v1 s1 (find_free env mounted obj scl v1 k s1)"
          using less.hyps [of v1 k s1] G(1) n1 prems(2,4) k2 kn by (simp add: only_def word_less_nat_alt word_le_nat_alt)
        then have "searched (ahead ?n (unat scl) (unat ncl)) vol s (find_free env mounted obj scl v1 k s1)"
          by (rule searched_after [OF G(1,3)]) (use step t inn in blast)
        then show ?thesis using run 3 False by simp
      qed
    qed
  qed
qed

lemma find_next_ok:
  assumes ok: "fat_ok vol s" and scl: "1 \<le> unat scl" "unat scl < unat (n_fatent (fv vol)) \<or> scl = 1"
    and cl: "scl = clst \<Longrightarrow> 2 \<le> clst"
  shows "searched (clusters vol) vol s (find_next env mounted obj clst scl vol s)"
proof (cases "scl = clst")
  case True
  let ?n = "unat (n_fatent (fv vol))"
  have c: "2 \<le> unat scl" "unat scl < ?n" using scl cl True by (auto simp: word_le_nat_alt)
  define k where "k = (if n_fatent (fv vol) \<le> scl + 1 then 2 else scl + 1)"
  have u: "unat (scl + 1) = unat scl + 1" using c fat_ok_n [OF ok] by (subst unat_add_lt) auto
  have k: "2 \<le> k" "k < n_fatent (fv vol)" using c u by (auto simp: k_def word_le_nat_alt word_less_nat_alt)
  obtain cs v1 s1 where g: "vget_fat env mounted vol obj k s = (cs, v1, s1)" by (metis prod_cases3)
  note G = vget_ok [OF ok k g]
  have n1: "n_fatent (fv v1) = n_fatent (fv vol)" and ok1: "fat_ok v1 s1" using only_n [OF G(1)] G(1) by (simp_all add: only_def)
  define scl' where "scl' = (if 2 \<le> last_clst v1 \<and> last_clst v1 < n_fatent (fv v1) then last_clst v1 else scl)"
  have sc': "1 \<le> unat scl'" "unat scl' < unat (n_fatent (fv v1))" using c n1 by (auto simp: scl'_def word_le_nat_alt word_less_nat_alt)
  have run: "find_next env mounted obj clst scl vol s = (if cs = 1 \<or> cs = 0xFFFFFFFF then Some (Inl cs, v1, s1)
      else if cs \<noteq> 0 then find_free env mounted obj scl' v1 scl' s1 else Some (Inr k, v1, s1))"
    using True g unfolding find_next_def k_def scl'_def by (simp add: Let_def)
  have "searched (clusters v1) v1 s1 (find_free env mounted obj scl' v1 scl' s1)"
    using find_free_ok [OF ok1 sc'(1,1)] sc' ahead_all [OF sc'(1)] by (simp add: clusters_def)
  then have "searched (clusters vol) vol s (find_free env mounted obj scl' v1 scl' s1)"
    by (rule searched_after [OF G(1,3)]) (simp add: clusters_def n1)
  moreover have "cs = 0 \<Longrightarrow> tab vol s (unat k) = 0" using G(2) by auto
  ultimately show ?thesis using run G(1,3) k by (auto simp: searched_def)
next
  case False
  then show ?thesis using find_free_ok [OF ok scl(1,1,2,2), of obj] ahead_all [OF scl(1)] by (simp add: find_next_def clusters_def)
qed

text \<open>The outcome of an allocation after \<open>clst\<close> (0: a new chain).\<close>

definition created :: "fat_vol \<Rightarrow> 's \<Rightarrow> u32 \<Rightarrow> u32 \<Rightarrow> fat_vol \<Rightarrow> 's \<Rightarrow> bool" where
  "created vol s clst r vol' s' \<longleftrightarrow> fat_ok vol' s' \<and> same_volume (fv vol) (fv vol')
     \<and> (\<forall>x < unat (n_fatent (fv vol)). x \<noteq> unat clst \<and> tab vol s x \<noteq> 0 \<longrightarrow> tab vol' s' x = tab vol s x)
     \<and> (r = 0 \<longrightarrow> free_clst vol = 0 \<or> (\<forall>x \<in> clusters vol. tab vol s x \<noteq> 0))
     \<and> (r \<notin> {0, 1, 0xFFFFFFFF} \<longrightarrow> 2 \<le> r \<and> r < n_fatent (fv vol) \<and>
          (clst \<noteq> 0 \<and> tab vol s (unat clst) = unat r \<and> only {} vol s vol' s'
           \<or> tab vol s (unat r) = 0 \<and> (clst \<noteq> 0 \<longrightarrow> unat (n_fatent (fv vol)) \<le> tab vol s (unat clst) \<and> tab vol' s' (unat clst) = unat r)
             \<and> tab vol' s' (unat r) = 2 ^ fat_bits (fv vol) - 1 \<and> only {unat r, unat clst} vol s vol' s' \<and> last_clst vol' = r))"

lemma alloc_marks:
  assumes ok: "fat_ok vol s" and c: "2 \<le> c" "c < n_fatent (fv vol)" "tab vol s (unat c) = 0"
    and cl: "clst = 0 \<or> 2 \<le> clst \<and> clst < n_fatent (fv vol) \<and> unat (n_fatent (fv vol)) \<le> tab vol s (unat clst)"
    and bits: "unat (n_fatent (fv vol)) < 2 ^ fat_bits (fv vol)"
    and p: "vput_fat env mounted vol c 0xFFFFFFFF s = (r1, v1, s1)"
    and q: "(if r1 = FR_OK \<and> clst \<noteq> 0 then vput_fat env mounted v1 clst c s1 else (r1, v1, s1)) = (r2, v2, s2)"
    and d: "create_done r2 c v2 = (r, vol')"
  shows "created vol s clst r vol' s2"
proof -
  let ?n = "unat (n_fatent (fv vol))"
  note P = vput_ok [OF ok c(1,2) p]
  have n1: "n_fatent (fv v1) = n_fatent (fv vol)" "fat_bits (fv v1) = fat_bits (fv vol)" and ok1: "fat_ok v1 s1"
    using only_n [OF P(1)] P(1) by (simp_all add: only_def)
  have b31: "fat_bits (fv vol) \<le> 31" using ok by (auto simp: fat_ok_def fat_bits_def)
  have e: "unat (0xFFFFFFFF :: u32) mod 2 ^ fat_bits (fv vol) = 2 ^ fat_bits (fv vol) - 1"
    using ok by (auto simp: fat_ok_def fat_bits_def)
  have uc: "unat c < ?n" using c by (simp add: word_less_nat_alt)
  have ne: "clst \<noteq> 0 \<Longrightarrow> unat clst \<noteq> unat c" using cl c uc by (auto simp: word_less_nat_alt)
  have o: "only {unat c, unat clst} vol s v2 s2 \<and> (r2 = FR_OK \<longrightarrow> tab v2 s2 (unat c) = 2 ^ fat_bits (fv vol) - 1
      \<and> (clst \<noteq> 0 \<longrightarrow> tab v2 s2 (unat clst) = unat c))"
  proof (cases "r1 = FR_OK \<and> clst \<noteq> 0")
    case True
    then have q': "vput_fat env mounted v1 clst c s1 = (r2, v2, s2)" and c2: "2 \<le> clst" "clst < n_fatent (fv v1)" using q cl n1 by auto
    note Q = vput_ok [OF ok1 c2 q']
    have "tab v2 s2 (unat c) = tab v1 s1 (unat c)" using Q(1) uc n1 ne True by (simp add: only_def)
    moreover have "unat c mod 2 ^ fat_bits (fv vol) = unat c" using uc bits by simp
    moreover have "only {unat c, unat clst} vol s v2 s2" using only_trans [OF P(1) Q(1)] by (rule only_mono) auto
    ultimately show ?thesis using P(2) Q(2) True e n1 by simp
  next
    case False
    then have "r2 = r1" "v2 = v1" "s2 = s1" using q by auto
    then show ?thesis using False P(1,2) e only_mono [OF P(1)] by auto
  qed
  have fvd: "fv vol' = fv v2" and rr: "r = (if r2 = FR_OK then c else if r2 = FR_DISK_ERR then 0xFFFFFFFF else 1)"
    "r2 = FR_OK \<Longrightarrow> last_clst vol' = c" using d by (auto simp: create_done_def split: if_splits)
  have o': "only {unat c, unat clst} vol s vol' s2" using only_cong [OF _ fvd] o by blast
  have t: "tab vol' s2 = tab v2 s2" by (rule tab_cong) (fact fvd)
  have c0: "c \<noteq> 0" using c(1) by auto
  have "tab vol' s2 x = tab vol s x" if "x < ?n" "x \<noteq> unat clst" "tab vol s x \<noteq> 0" for x
    using that o' c(3) by (auto simp: only_def)
  moreover have "r \<notin> {0, 1, 0xFFFFFFFF} \<Longrightarrow> r = c \<and> r2 = FR_OK" using rr by (auto split: if_splits)
  moreover have "r \<noteq> 0" using rr c0 by auto
  ultimately show ?thesis using o o' c cl rr(2) unfolding created_def t by (auto simp: only_def)
qed

lemma created_after:
  assumes "only {} vol s vol1 s1" "vol1 = vol\<lparr>fv := fv vol1\<rparr>" "created vol1 s1 clst r vol' s'"
    and "clst = 0 \<or> clst < n_fatent (fv vol)"
  shows "created vol s clst r vol' s'"
proof -
  have n: "n_fatent (fv vol1) = n_fatent (fv vol)" "fat_bits (fv vol1) = fat_bits (fv vol)" using only_n [OF assms(1)] by simp_all
  have same: "tab vol1 s1 x = tab vol s x" if "x < unat (n_fatent (fv vol))" for x using assms(1) that by (simp add: only_def)
  have sv: "same_volume (fv vol) (fv vol1)" using assms(1) by (simp add: only_def)
  have fr: "free_clst vol1 = free_clst vol" by (subst assms(2)) simp
  have "clusters vol1 = clusters vol" by (simp add: clusters_def n)
  moreover have "only A vol s vol' s'" if "only A vol1 s1 vol' s'" for A using only_trans [OF assms(1) that] by simp
  moreover have "r < n_fatent (fv vol) \<Longrightarrow> tab vol1 s1 (unat r) = tab vol s (unat r)" using same by (simp add: word_less_nat_alt)
  moreover have "clst \<noteq> 0 \<Longrightarrow> tab vol1 s1 (unat clst) = tab vol s (unat clst)" using same assms(4) by (auto simp: word_less_nat_alt)
  ultimately show ?thesis using assms(3) same same_volume_trans [OF sv] unfolding created_def n fr
    by (auto simp: clusters_def)
qed

lemma alloc_ok:
  assumes ok: "fat_ok vol s" and scl: "1 \<le> unat scl" "unat scl < unat (n_fatent (fv vol)) \<or> scl = 1" "scl = clst \<Longrightarrow> 2 \<le> clst"
    and cl: "clst = 0 \<or> 2 \<le> clst \<and> clst < n_fatent (fv vol) \<and> unat (n_fatent (fv vol)) \<le> tab vol s (unat clst)"
    and bits: "unat (n_fatent (fv vol)) < 2 ^ fat_bits (fv vol)"
  shows "\<exists>r vol' s'. map_option (\<lambda>(x, obj, vol, s). case x of
                      Inl r \<Rightarrow> (r, obj, vol, s)
                    | Inr (res, ncl) \<Rightarrow> (let (r, vol) = create_done res ncl vol in (r, obj, vol, s)))
                    (alloc_fat env mounted obj clst scl vol s) = Some (r, obj, vol', s') \<and> created vol s clst r vol' s'"
proof -
  from find_next_ok [OF ok scl, of obj] obtain x v s1 where f: "find_next env mounted obj clst scl vol s = Some (x, v, s1)"
    and o: "only {} vol s v s1" "v = vol\<lparr>fv := fv v\<rparr>"
    and x: "case x of Inr c \<Rightarrow> 2 \<le> c \<and> c < n_fatent (fv vol) \<and> tab vol s (unat c) = 0
        | Inl e \<Rightarrow> e \<in> {0, 1, 0xFFFFFFFF} \<and> (e = 0 \<longrightarrow> (\<forall>c \<in> clusters vol. tab vol s c \<noteq> 0))"
    unfolding searched_def by blast
  have n: "n_fatent (fv v) = n_fatent (fv vol)" "fat_bits (fv v) = fat_bits (fv vol)" using only_n [OF o(1)] by simp_all
  have same: "tab v s1 y = tab vol s y" if "y < unat (n_fatent (fv vol))" for y using o(1) that by (simp add: only_def)
  show ?thesis
  proof (cases x)
    case (Inl e)
    have "created vol s clst e v s1" using x o(1) Inl by (auto simp: created_def only_def)
    then show ?thesis using f Inl by (simp add: alloc_fat_def)
  next
    case (Inr c)
    obtain r1 v1 t1 where p: "vput_fat env mounted v c 0xFFFFFFFF s1 = (r1, v1, t1)" by (metis prod_cases3)
    obtain r2 v2 t2 where q: "(if r1 = FR_OK \<and> clst \<noteq> 0 then vput_fat env mounted v1 clst c t1 else (r1, v1, t1)) = (r2, v2, t2)" by (metis prod_cases3)
    obtain r vol' where d: "create_done r2 c v2 = (r, vol')" by (metis surj_pair)
    have c: "2 \<le> c" "c < n_fatent (fv v)" "tab v s1 (unat c) = 0" using x Inr n same [of "unat c"] by (simp_all add: word_less_nat_alt)
    have cl': "clst = 0 \<or> 2 \<le> clst \<and> clst < n_fatent (fv v) \<and> unat (n_fatent (fv v)) \<le> tab v s1 (unat clst)"
      using cl n same [of "unat clst"] by (auto simp: word_less_nat_alt)
    have okv: "fat_ok v s1" using o(1) by (simp add: only_def)
    have "created v s1 clst r vol' t2" by (rule alloc_marks [OF okv c cl' _ p q d]) (simp add: n bits)
    then have "created vol s clst r vol' t2" by (rule created_after [OF o]) (use cl in blast)
    moreover have "map_option (\<lambda>(x, obj, vol, s). case x of
                      Inl r \<Rightarrow> (r, obj, vol, s)
                    | Inr (res, ncl) \<Rightarrow> (let (r, vol) = create_done res ncl vol in (r, obj, vol, s)))
                    (alloc_fat env mounted obj clst scl vol s) = Some (r, obj, vol', t2)"
      using f Inr p q d by (simp add: alloc_fat_def)
    ultimately show ?thesis by blast
  qed
qed

lemma create_ok:
  assumes ok: "fat_ok vol s" and cl: "clst = 0 \<or> 2 \<le> clst \<and> clst < n_fatent (fv vol)"
    and bits: "unat (n_fatent (fv vol)) < 2 ^ fat_bits (fv vol)"
  shows "\<exists>r vol' s'. create_chain env mounted obj vol clst s = Some (r, obj, vol', s') \<and> created vol s clst r vol' s'"
proof (cases "clst = 0")
  case True
  define scl where "scl = (if last_clst vol = 0 \<or> last_clst vol \<ge> n_fatent (fv vol) then 1 else last_clst vol)"
  have nx: "fs_type (fv vol) \<noteq> FS_EXFAT" using ok by (auto simp: fat_ok_def)
  have sc: "1 \<le> unat scl" "unat scl < unat (n_fatent (fv vol)) \<or> scl = 1"
    by (auto simp: scl_def word_less_nat_alt word_le_nat_alt unat_gt_0 Suc_le_eq)
  have s0: "scl = clst \<Longrightarrow> 2 \<le> clst" using sc(1) True by auto
  note A = alloc_ok [OF ok sc s0 _ bits, of obj]
  show ?thesis
  proof (cases "free_clst vol = 0")
    case z: True
    then have "create_chain env mounted obj vol clst s = Some (0, obj, vol, s)" using True by (simp add: create_chain_def)
    moreover have "created vol s clst 0 vol s" using z ok by (simp add: created_def)
    ultimately show ?thesis by blast
  next
    case False
    then show ?thesis using A True nx unfolding create_chain_def scl_def by simp
  qed
next
  case False
  then have c: "2 \<le> clst" "clst < n_fatent (fv vol)" using cl by auto
  obtain cs v1 s1 where g: "vget_fat env mounted vol obj clst s = (cs, v1, s1)" by (metis prod_cases3)
  note G = vget_ok [OF ok c g]
  have n1: "n_fatent (fv v1) = n_fatent (fv vol)" "fat_bits (fv v1) = fat_bits (fv vol)" and ok1: "fat_ok v1 s1"
    using only_n [OF G(1)] G(1) by (simp_all add: only_def)
  have nx: "fs_type (fv v1) \<noteq> FS_EXFAT" using ok1 by (auto simp: fat_ok_def)
  have u: "unat clst < unat (n_fatent (fv vol))" "2 \<le> unat clst" using c by (simp_all add: word_less_nat_alt word_le_nat_alt)
  have stay: "created vol s clst r v1 s1" if "r = 1 \<or> r = 0xFFFFFFFF \<or> r = 0 \<and> free_clst vol = 0
      \<or> 2 \<le> r \<and> r < n_fatent (fv vol) \<and> tab vol s (unat clst) = unat r" for r
    using that G(1) False by (auto simp: created_def only_def)
  have fr: "free_clst v1 = free_clst vol" by (subst G(3)) simp
  consider "cs < 2" | "cs = 0xFFFFFFFF" | "2 \<le> cs" "cs < n_fatent (fv vol)" "cs \<noteq> 0xFFFFFFFF"
    | "2 \<le> cs" "n_fatent (fv vol) \<le> cs" "cs \<noteq> 0xFFFFFFFF" by force
  then show ?thesis
  proof cases
    case 1
    then show ?thesis using stay [of 1] g False by (simp add: create_chain_def)
  next
    case 2
    then show ?thesis using stay [of "0xFFFFFFFF"] g False by (simp add: create_chain_def)
  next
    case 3
    then have "tab vol s (unat clst) = unat cs" using G(2) by auto
    then show ?thesis using stay [of cs] g False 3 n1 by (auto simp: create_chain_def)
  next
    case 4
    then have t: "unat (n_fatent (fv vol)) \<le> tab vol s (unat clst)" using G(2) by (auto simp: word_le_nat_alt)
    have t1: "tab v1 s1 (unat clst) = tab vol s (unat clst)" using G(1) u by (simp add: only_def)
    have stop: "(if cs < 2 then Some 1 else if cs = 0xFFFFFFFF then Some cs else if cs < n_fatent (fv v1) then Some cs else None) = None"
      using 4 n1 by (simp add: not_less [symmetric] leD)
    show ?thesis
    proof (cases "free_clst vol = 0")
      case True
      then show ?thesis using stay [of 0] g False stop fr by (simp add: create_chain_def)
    next
      case fz: False
      have "\<exists>r vol' s'. map_option (\<lambda>(x, obj, vol, s). case x of
                      Inl r \<Rightarrow> (r, obj, vol, s)
                    | Inr (res, ncl) \<Rightarrow> (let (r, vol) = create_done res ncl vol in (r, obj, vol, s)))
                    (alloc_fat env mounted obj clst clst v1 s1) = Some (r, obj, vol', s') \<and> created v1 s1 clst r vol' s'"
        by (rule alloc_ok [OF ok1]) (use u n1 c t t1 bits in auto)
      then obtain r vol' s' where "map_option (\<lambda>(x, obj, vol, s). case x of
                      Inl r \<Rightarrow> (r, obj, vol, s)
                    | Inr (res, ncl) \<Rightarrow> (let (r, vol) = create_done res ncl vol in (r, obj, vol, s)))
                    (alloc_fat env mounted obj clst clst v1 s1) = Some (r, obj, vol', s')" "created v1 s1 clst r vol' s'" by blast
      moreover have "created vol s clst r vol' s'" using created_after [OF G(1,3) calculation(2)] c by blast
      moreover have "create_chain env mounted obj vol clst s = map_option (\<lambda>(x, obj, vol, s). case x of
                      Inl r \<Rightarrow> (r, obj, vol, s)
                    | Inr (res, ncl) \<Rightarrow> (let (r, vol) = create_done res ncl vol in (r, obj, vol, s)))
                    (alloc_fat env mounted obj clst clst v1 s1)"
        using g False stop fr fz nx by (simp add: create_chain_def)
      ultimately show ?thesis by metis
    qed
  qed
qed

text \<open>The whole of \<open>remove_chain\<close>.\<close>

lemma remove_ok:
  assumes ok: "fat_ok vol s" and ch: "is_chain (\<lambda>c. tab vol s (unat c)) (n_fatent (fv vol)) (clst # cl)"
    and pc: "pclst = 0 \<or> 2 \<le> pclst \<and> pclst < n_fatent (fv vol) \<and> pclst \<notin> set (clst # cl)"
  shows "\<exists>r vol' s'. remove_chain env mounted obj vol clst pclst s = Some (r, obj, vol', s')
     \<and> only (insert (unat pclst) (unat ` set (clst # cl))) vol s vol' s'
     \<and> (r = FR_OK \<longrightarrow> (\<forall>c \<in> set (clst # cl). tab vol' s' (unat c) = 0)
          \<and> (pclst \<noteq> 0 \<longrightarrow> tab vol' s' (unat pclst) = 2 ^ fat_bits (fv vol) - 1)
          \<and> unat (free_clst vol') = freed (unat (n_fatent (fv vol) - 2)) (length (clst # cl)) (unat (free_clst vol)))"
proof -
  have c: "2 \<le> clst" "clst < n_fatent (fv vol)" using chain_range [OF ch] by simp_all
  have nx: "fs_type (fv vol) \<noteq> FS_EXFAT" using ok by (auto simp: fat_ok_def)
  define st where "st = (if pclst \<noteq> 0 then vput_fat env mounted vol pclst 0xFFFFFFFF s else (FR_OK, vol, s))"
  obtain r1 v1 s1 where p: "st = (r1, v1, s1)" by (metis prod_cases3)
  have e: "unat (0xFFFFFFFF :: u32) mod 2 ^ fat_bits (fv vol) = 2 ^ fat_bits (fv vol) - 1"
    using ok by (auto simp: fat_ok_def fat_bits_def)
  have P: "only {unat pclst} vol s v1 s1 \<and> (r1 = FR_OK \<and> pclst \<noteq> 0 \<longrightarrow> tab v1 s1 (unat pclst) = 2 ^ fat_bits (fv vol) - 1)
      \<and> free_clst v1 = free_clst vol"
  proof (cases "pclst = 0")
    case False
    then have q: "vput_fat env mounted vol pclst 0xFFFFFFFF s = (r1, v1, s1)" and b: "2 \<le> pclst" "pclst < n_fatent (fv vol)"
      using p pc by (auto simp: st_def)
    note Q = vput_ok [OF ok b q]
    have "free_clst v1 = free_clst vol" by (subst Q(3)) simp
    then show ?thesis using Q(1,2) e by simp
  qed (use p only_refl [OF ok] in \<open>simp add: st_def\<close>)
  have n1: "n_fatent (fv v1) = n_fatent (fv vol)" "fat_ok v1 s1" using only_n [OF P [THEN conjunct1]] P [THEN conjunct1] by (simp_all add: only_def)
  have np: "unat x \<noteq> unat pclst" if "x \<in> set (clst # cl)" for x
    using that pc chain_range [OF ch that] by (auto simp: word_unat_eq_iff [symmetric])
  have t1: "tab v1 s1 (unat x) = tab vol s (unat x)" if "x \<in> set (clst # cl)" for x
    using P np [OF that] chain_range [OF ch that] by (simp add: only_def word_less_nat_alt)
  have ch1: "is_chain (\<lambda>c. tab v1 s1 (unat c)) (n_fatent (fv v1)) (clst # cl)"
    unfolding n1(1) using ch chain_cong [of "clst # cl" "\<lambda>c. tab v1 s1 (unat c)", OF t1] by blast
  obtain r2 v2 s2 where lp: "remove_loop env mounted obj v1 clst clst clst s1 = Some (r2, v2, s2)"
    using remove_returns [OF n1(2) c(1), of obj clst clst] c(2) n1(1) by metis
  note L = remove_frees [OF n1(2) ch1 lp]
  have ex: "fs_type (fv v2) \<noteq> FS_EXFAT" using L by (auto simp: only_def fat_ok_def)
  have st': "(if pclst \<noteq> 0 \<and> (fs_type (fv vol) \<noteq> FS_EXFAT \<or> ob_stat obj \<noteq> 2) then vput_fat env mounted vol pclst 0xFFFFFFFF s
      else (FR_OK, vol, s)) = (r1, v1, s1)" using nx p by (simp add: st_def)
  have inr: "\<not> (clst < 2 \<or> clst \<ge> n_fatent (fv vol))" using c by (simp add: not_less not_le)
  have run: "remove_chain env mounted obj vol clst pclst s = Some (if r1 \<noteq> FR_OK then (r1, obj, v1, s1) else (r2, obj, v2, s2))"
    unfolding remove_chain_def if_not_P [OF inr] st' Let_def prod.case using lp ex by (simp add: remove_post_def)
  show ?thesis
  proof (cases "r1 = FR_OK")
    case False
    have "only (insert (unat pclst) (unat ` set (clst # cl))) vol s v1 s1" using P by (auto intro: only_mono)
    then show ?thesis using run False by auto
  next
    case True
    have o: "only (insert (unat pclst) (unat ` set (clst # cl))) vol s v2 s2"
      using only_trans [of "{unat pclst}" vol s v1 s1] P L by (auto intro: only_mono)
    moreover have "tab v2 s2 (unat pclst) = tab v1 s1 (unat pclst)" if "pclst \<noteq> 0"
    proof -
      have "unat pclst \<notin> unat ` set (clst # cl)" using np by fastforce
      moreover have "unat pclst < unat (n_fatent (fv v1))" using pc that n1 by (simp add: word_less_nat_alt)
      ultimately show ?thesis using L unfolding only_def by blast
    qed
    ultimately show ?thesis using run True P L n1(1) by (intro exI [of _ r2] exI [of _ v2] exI [of _ s2]) simp
  qed
qed

lemma created_extends:
  assumes cr: "created vol s clst r vol' s'" and r: "r \<notin> {0, 1, 0xFFFFFFFF}"
    and ch: "if clst = 0 then cl = [] else is_chain (\<lambda>c. tab vol s (unat c)) (n_fatent (fv vol)) cl \<and> last cl = clst"
    and bits: "unat (n_fatent (fv vol)) < 2 ^ fat_bits (fv vol)"
  shows "is_chain (\<lambda>c. tab vol' s' (unat c)) (n_fatent (fv vol)) (cl @ [r]) \<and> tab vol s (unat r) = 0"
proof -
  let ?n = "n_fatent (fv vol)"
  note last = chain_last [of "\<lambda>c. tab vol s (unat c)" ?n cl] and pos = chain_pos [of "\<lambda>c. tab vol s (unat c)" ?n cl]
  note C = cr [unfolded created_def]
  have r2: "2 \<le> r" "r < ?n" using C r by auto
  have new: "tab vol s (unat r) = 0" "clst \<noteq> 0 \<longrightarrow> tab vol' s' (unat clst) = unat r" "tab vol' s' (unat r) = 2 ^ fat_bits (fv vol) - 1"
    "\<And>x. x < unat ?n \<Longrightarrow> x \<noteq> unat clst \<Longrightarrow> tab vol s x \<noteq> 0 \<Longrightarrow> tab vol' s' x = tab vol s x"
    using C r last ch r2(2) by (auto simp: word_less_nat_alt split: if_splits)
  have eoc: "unat ?n \<le> tab vol' s' (unat r)" using new(3) bits by simp
  show ?thesis
  proof (cases "clst = 0")
    case True
    then show ?thesis using ch r2 new(1) eoc by simp
  next
    case False
    then have chn: "is_chain (\<lambda>c. tab vol s (unat c)) ?n cl" "last cl = clst" using ch by auto
    then obtain ds where d: "cl = ds @ [clst]" by (metis is_chain.simps(1) append_butlast_last_id)
    have "is_chain (\<lambda>c. tab vol' s' (unat c)) ?n (ds @ [clst, r])"
    proof (rule chain_snoc [where nx = "\<lambda>c. tab vol s (unat c)"])
      show "is_chain (\<lambda>c. tab vol s (unat c)) ?n (ds @ [clst])" using chn d by simp
      show "r \<notin> set (ds @ [clst])" using pos [OF chn(1)] new(1) d by metis
      show "tab vol' s' (unat x) = tab vol s (unat x)" if "x \<in> set ds" for x
      proof -
        have "x \<noteq> clst" using chain_distinct [OF chn(1)] d that by auto
        then show ?thesis using new(4) [of "unat x"] pos [OF chn(1), of x] chain_range [OF chn(1), of x] d that
          by (simp add: word_less_nat_alt word_unat_eq_iff [symmetric])
      qed
    qed (use new(2) False r2 eoc in simp_all)
    then show ?thesis using d new(1) by simp
  qed
qed

end

section \<open>Properties\<close>


definition chain_vol :: fat_vol where
  "chain_vol = \<lparr>fv = small_volume, last_clst = 9, free_clst = 507, fsi_flag = 0, volbase = 0, bitbase = 0\<rparr>"

lemma chain_vol_ok:
  "window_ok (ram_inv 512) id 512 1000 [Some (DevBd 0)] (DevBd 0) (fv chain_vol) chain_disk"
  "fs_type (fv chain_vol) \<in> {FS_FAT12, FS_FAT16, FS_FAT32}" "unat (n_fatent (fv chain_vol)) < 2 ^ fat_bits (fv chain_vol)"
  "is_chain (\<lambda>c. fat_value (fv chain_vol) (window_view id 512 (fv chain_vol) chain_disk) (unat c)) (n_fatent (fv chain_vol)) [5, 6, 9]"
  using chain_disk_ok by (simp_all add: chain_vol_def small_volume_def fat_bits_def fat_value_def fat_byte_def window_view_def chain_disk_def)


text \<open>C34. \<open>remove_chain\<close> cannot hang: on a FAT12, FAT16 or FAT32 volume it returns for every start cluster and
  whatever the table holds, cyclic or crossing chains included, because every round clears an
  entry that was in use. A start outside the volume is refused without any change.\<close>

theorem remove_chain_returns:
  assumes "fat_device ops ok dsk ssz nsec env b" "window_ok ok dsk ssz nsec mounted b (fv vol) s"
    and "fs_type (fv vol) \<in> {FS_FAT12, FS_FAT16, FS_FAT32}"
    and "pclst = 0 \<or> 2 \<le> pclst \<and> pclst < n_fatent (fv vol)"
  shows "(\<exists>y. remove_chain env mounted obj vol clst pclst s = Some y)
     \<and> (clst < 2 \<or> n_fatent (fv vol) \<le> clst \<longrightarrow> remove_chain env mounted obj vol clst pclst s = Some (FR_INT_ERR, obj, vol, s))"
proof (cases "clst < 2 \<or> n_fatent (fv vol) \<le> clst")
  case False
  note defs = fat_device.only_def [OF assms(1)] fat_device.fat_ok_def [OF assms(1)]
  have ok: "fat_device.fat_ok ok dsk ssz nsec mounted b vol s" using assms(2,3) unfolding defs by blast
  have nx: "fs_type (fv vol) \<noteq> FS_EXFAT" using assms(3) by auto
  define st where "st = (if pclst \<noteq> 0 then vput_fat env mounted vol pclst 0xFFFFFFFF s else (FR_OK, vol, s))"
  obtain r1 v1 s1 where p: "st = (r1, v1, s1)" by (metis prod_cases3)
  have o: "fat_device.only ok dsk ssz nsec mounted b {unat pclst} vol s v1 s1"
  proof (cases "pclst = 0")
    case True
    then show ?thesis using p fat_device.only_refl [OF assms(1) ok] by (simp add: st_def)
  next
    case False
    then show ?thesis using p fat_device.vput_ok(1) [OF assms(1) ok, of pclst] assms(4) by (simp add: st_def)
  qed
  have n1: "n_fatent (fv v1) = n_fatent (fv vol)" "fat_device.fat_ok ok dsk ssz nsec mounted b v1 s1"
    using fat_device.only_n [OF assms(1) o] o unfolding fat_device.only_def [OF assms(1)] by simp_all
  have c: "2 \<le> clst" "clst < n_fatent (fv v1)" using False n1(1) by (simp_all add: not_less not_le)
  obtain r2 v2 s2 where lp: "remove_loop env mounted obj v1 clst clst clst s1 = Some (r2, v2, s2)"
    and o2: "fat_device.only ok dsk ssz nsec mounted b UNIV v1 s1 v2 s2"
    using fat_device.remove_returns [OF assms(1) n1(2) c, of obj clst clst] by blast
  have "fs_type (fv v2) \<noteq> FS_EXFAT" using o2 unfolding defs by auto
  moreover have st': "(if pclst \<noteq> 0 \<and> (fs_type (fv vol) \<noteq> FS_EXFAT \<or> ob_stat obj \<noteq> 2) then vput_fat env mounted vol pclst 0xFFFFFFFF s
      else (FR_OK, vol, s)) = (r1, v1, s1)" using nx p by (simp add: st_def)
  ultimately have "remove_post env mounted obj pclst v2 s2 = Some (FR_OK, obj, v2, s2)" by (simp add: remove_post_def)
  then show ?thesis using False lp unfolding remove_chain_def if_not_P [OF False] st' Let_def prod.case by simp
qed (simp add: remove_chain_def)

theorem remove_chain_returns_witness:
  "\<exists>y. remove_chain ram_env [Some (DevBd 0)] plain_object chain_vol 6 5 chain_disk = Some y"
proof -
  have p: "(5 :: u32) = 0 \<or> 2 \<le> (5 :: u32) \<and> 5 < n_fatent (fv chain_vol)" by (simp add: chain_vol_def small_volume_def)
  show ?thesis using remove_chain_returns [OF ram_fat_device chain_vol_ok(1,2) p, of plain_object 6] by blast
qed

text \<open>C10. Allocating a cluster. On a FAT12, FAT16 or FAT32 volume, over every device that meets the contract,
  \<open>create_chain\<close> returns. Given the last cluster of a chain (or 0 for a new one), a result other than 0, 1 and
  0xFFFFFFFF is a cluster that was free and now ends the chain; the result 0 (volume full) means that the free count
  was 0 or no entry of the table is free; and whatever the result, no used entry other than that of the
  chain's last cluster changes, so no other file is touched.\<close>

theorem create_chain_extends:
  assumes "fat_device ops ok dsk ssz nsec env b" "window_ok ok dsk ssz nsec mounted b (fv vol) s"
    and "fs_type (fv vol) \<in> {FS_FAT12, FS_FAT16, FS_FAT32}" "unat (n_fatent (fv vol)) < 2 ^ fat_bits (fv vol)"
    and "if clst = 0 then cl = []
         else is_chain (\<lambda>c. fat_value (fv vol) (window_view dsk ssz (fv vol) s) (unat c)) (n_fatent (fv vol)) cl \<and> last cl = clst"
  shows "\<exists>r vol' s'. create_chain env mounted obj vol clst s = Some (r, obj, vol', s')
     \<and> window_ok ok dsk ssz nsec mounted b (fv vol') s' \<and> same_volume (fv vol) (fv vol')
     \<and> (\<forall>x < unat (n_fatent (fv vol)). x \<noteq> unat clst \<and> fat_value (fv vol) (window_view dsk ssz (fv vol) s) x \<noteq> 0 \<longrightarrow>
          fat_value (fv vol') (window_view dsk ssz (fv vol') s') x = fat_value (fv vol) (window_view dsk ssz (fv vol) s) x)
     \<and> (r \<notin> {0, 1, 0xFFFFFFFF} \<longrightarrow> fat_value (fv vol) (window_view dsk ssz (fv vol) s) (unat r) = 0
          \<and> is_chain (\<lambda>c. fat_value (fv vol') (window_view dsk ssz (fv vol') s') (unat c)) (n_fatent (fv vol)) (cl @ [r]))
     \<and> (r = 0 \<longrightarrow> free_clst vol = 0
          \<or> (\<forall>x \<in> {2..<unat (n_fatent (fv vol))}. fat_value (fv vol) (window_view dsk ssz (fv vol) s) x \<noteq> 0))"
proof -
  note defs = fat_device.tab_def [OF assms(1)] fat_device.fat_ok_def [OF assms(1)]
  have ok: "fat_device.fat_ok ok dsk ssz nsec mounted b vol s" using assms(2,3) unfolding defs by blast
  have cl: "clst = 0 \<or> 2 \<le> clst \<and> clst < n_fatent (fv vol)"
    using assms(5) chain_range [of _ "n_fatent (fv vol)" cl clst] by (metis is_chain.simps(1) last_in_set)
  from fat_device.create_ok [OF assms(1) ok cl assms(4), of obj] obtain r vol' s' where
    run: "create_chain env mounted obj vol clst s = Some (r, obj, vol', s')"
    and cr: "fat_device.created ok dsk ssz nsec mounted b vol s clst r vol' s'" by blast
  note C = cr [unfolded fat_device.created_def [OF assms(1)] defs clusters_def]
  have "r \<notin> {0, 1, 0xFFFFFFFF} \<Longrightarrow> fat_value (fv vol) (window_view dsk ssz (fv vol) s) (unat r) = 0
          \<and> is_chain (\<lambda>c. fat_value (fv vol') (window_view dsk ssz (fv vol') s') (unat c)) (n_fatent (fv vol)) (cl @ [r])"
    using fat_device.created_extends [OF assms(1) cr _ _ assms(4), unfolded defs] assms(5) by blast
  then show ?thesis using run C by blast
qed

theorem create_chain_extends_witness:
  "\<exists>r vol' s'. create_chain ram_env [Some (DevBd 0)] plain_object chain_vol 9 chain_disk = Some (r, plain_object, vol', s')
     \<and> (r \<notin> {0, 1, 0xFFFFFFFF} \<longrightarrow> is_chain (\<lambda>c. fat_value (fv vol') (window_view id 512 (fv vol') s') (unat c)) 512 ([5, 6, 9] @ [r]))"
proof -
  have n: "n_fatent (fv chain_vol) = 512" by (simp add: chain_vol_def small_volume_def)
  have c: "if (9 :: u32) = 0 then [5, 6, 9] = []
      else is_chain (\<lambda>c. fat_value (fv chain_vol) (window_view id 512 (fv chain_vol) chain_disk) (unat c)) (n_fatent (fv chain_vol)) [5, 6, 9]
        \<and> last [5, 6, 9] = (9 :: u32)" using chain_vol_ok(4) by simp
  show ?thesis using create_chain_extends [OF ram_fat_device chain_vol_ok(1,2,3) c, of plain_object] unfolding n by blast
qed

end
