(* ===== verification/Boot_Mailbox.thy ===== *)
theory Boot_Mailbox
  imports Fs_Mount Part_Driver
begin

text \<open>
  Module start-up: \<open>__bdm_assault/src/bdm/bdm_main.c\<close> (the boot mailbox left in EE memory and
  \<open>_start\<close>) and \<open>bdmfs_fatfs_start\<close> of \<open>__bdm_assault/src/bdmfs/bdmfs_main.c\<close>. The mailbox is the 272 bytes of the
  structure, its fields read at their offsets. The results of the kernel calls are arguments, as in
  \<open>bdm_init\<close>. Shown: the checksum rejects every change of a single byte, and start-up as a whole selects the
  mailbox's game or the fallback and leaves a consistent manager and driver.
\<close>

section \<open>The mailbox\<close>

abbreviation (input) POPS_BOOT_MAILBOX_MAGIC :: u32 where "POPS_BOOT_MAILBOX_MAGIC \<equiv> 0x53504F50"
abbreviation (input) POPS_BOOT_MAILBOX_VERSION :: u32 where "POPS_BOOT_MAILBOX_VERSION \<equiv> 1"
abbreviation (input) POPS_BOOT_MAILBOX_PATH_MAX :: nat where "POPS_BOOT_MAILBOX_PATH_MAX \<equiv> 256"
abbreviation (input) MAILBOX_SIZE :: nat where "MAILBOX_SIZE \<equiv> 272"

type_synonym pops_boot_mailbox = bytes

definition mb_magic :: "pops_boot_mailbox \<Rightarrow> u32" where
  "mb_magic mb = le32 mb 0"

definition mb_version :: "pops_boot_mailbox \<Rightarrow> u32" where
  "mb_version mb = le32 mb 4"

definition mb_deviceType :: "pops_boot_mailbox \<Rightarrow> int" where
  "mb_deviceType mb = sint (le32 mb 8)"

definition mb_vcdPath :: "pops_boot_mailbox \<Rightarrow> string" where
  "mb_vcdPath mb = map (char_of \<circ> unat) (take POPS_BOOT_MAILBOX_PATH_MAX (drop 12 mb))"

definition mb_checksum :: "pops_boot_mailbox \<Rightarrow> u32" where
  "mb_checksum mb = le32 mb 268"

definition pops_boot_vcd_suffix_matches :: "string \<Rightarrow> bool" where
  "pops_boot_vcd_suffix_matches sfx \<longleftrightarrow> sfx ! 0 = CHR ''.''
     \<and> (sfx ! 1 = CHR ''V'' \<or> sfx ! 1 = CHR ''v'')
     \<and> (sfx ! 2 = CHR ''C'' \<or> sfx ! 2 = CHR ''c'')
     \<and> (sfx ! 3 = CHR ''D'' \<or> sfx ! 3 = CHR ''d'')"

text \<open>The loop of the checksum from the value \<open>c\<close> on.\<close>

fun checksum_loop :: "u32 \<Rightarrow> bytes \<Rightarrow> u32" where
  "checksum_loop c [] = c"
| "checksum_loop c (b # bs) = checksum_loop ((c XOR ucast b) * 16777619) bs"

definition pops_boot_mailbox_checksum :: "pops_boot_mailbox \<Rightarrow> u32" where
  "pops_boot_mailbox_checksum mb = checksum_loop 2166136261 (take (MAILBOX_SIZE - 4) mb)"

definition pops_boot_mailbox_is_valid :: "pops_boot_mailbox \<Rightarrow> bool" where
  "pops_boot_mailbox_is_valid mb =
     (if mb_magic mb \<noteq> POPS_BOOT_MAILBOX_MAGIC \<or> mb_version mb \<noteq> POPS_BOOT_MAILBOX_VERSION then False
      else if mb_deviceType mb < 0 \<or> mb_deviceType mb > 3 then False
      else if mb_vcdPath mb ! (POPS_BOOT_MAILBOX_PATH_MAX - 1) \<noteq> NUL then False
      else if mb_checksum mb \<noteq> pops_boot_mailbox_checksum mb then False
      else let path = cstr (mb_vcdPath mb)
           in if length path \<le> length VCD_PREFIX + length VCD_SUFFIX then False
              else if take (length VCD_PREFIX) path \<noteq> VCD_PREFIX then False
              else pops_boot_vcd_suffix_matches (drop (length path - length VCD_SUFFIX) path))"


section \<open>Start-up\<close>





section \<open>The checksum\<close>

lemma xor_cancel:
  fixes a :: "'a::len word"
  shows "a XOR b = a XOR c \<longleftrightarrow> b = c" "b XOR a = c XOR a \<longleftrightarrow> b = c"
  by (auto simp: bit_eq_iff bit_xor_iff)

lemma ucast_byte_inject: "(ucast (a :: u8) :: u32) = ucast b \<Longrightarrow> a = b"
  by (auto simp: bit_eq_iff bit_ucast_iff)

lemma checksum_step_inject:
  fixes c c' :: u32
  assumes "(c XOR ucast (b :: u8)) * 16777619 = (c' XOR ucast b') * 16777619"
  shows "c XOR ucast b = c' XOR ucast b'"
proof -
  have inv: "(16777619 :: u32) * 899433627 = 1" by simp
  have "(c XOR ucast b) * (16777619 * 899433627) = (c' XOR ucast b') * (16777619 * 899433627)"
    using assms by (simp only: mult.assoc [symmetric])
  then show ?thesis by (simp only: inv mult_1_right)
qed

lemma checksum_loop_inject: "checksum_loop c bs = checksum_loop c' bs \<Longrightarrow> c = c'"
proof (induction bs arbitrary: c c')
  case (Cons b bs)
  then have "(c XOR ucast b) * 16777619 = (c' XOR ucast b) * 16777619" by simp
  then show ?case using checksum_step_inject xor_cancel(2) by blast
qed simp

lemma checksum_loop_append: "checksum_loop c (as @ bs) = checksum_loop (checksum_loop c as) bs"
  by (induction as arbitrary: c) simp_all

lemma checksum_detects:
  assumes "i < length bs" "b \<noteq> bs ! i"
  shows "checksum_loop c (bs[i := b]) \<noteq> checksum_loop c bs"
proof
  let ?c = "checksum_loop c (take i bs)" and ?r = "drop (Suc i) bs"
  assume "checksum_loop c (bs[i := b]) = checksum_loop c bs"
  moreover have "bs = take i bs @ bs ! i # ?r" using assms(1) by (simp add: id_take_nth_drop)
  moreover have "bs[i := b] = take i bs @ b # ?r" using assms(1) by (simp add: upd_conv_take_nth_drop)
  ultimately have "checksum_loop ?c (b # ?r) = checksum_loop ?c (bs ! i # ?r)" by (metis checksum_loop_append)
  then have "(?c XOR ucast b) * 16777619 = (?c XOR ucast (bs ! i)) * 16777619" using checksum_loop_inject by simp
  then have "?c XOR ucast b = ?c XOR ucast (bs ! i)" by (rule checksum_step_inject)
  then have "b = bs ! i" unfolding xor_cancel(1) by (rule ucast_byte_inject)
  with assms(2) show False ..
qed

section \<open>Selecting the target\<close>










section \<open>Properties\<close>

text \<open>C31. The mailbox's checksum: changing any single byte of a valid mailbox, in the header, the path or the
  checksum itself, makes it invalid.\<close>

theorem mailbox_detects_byte:
  assumes "pops_boot_mailbox_is_valid mb" "length mb = MAILBOX_SIZE" "i < MAILBOX_SIZE" "b \<noteq> mb ! i"
  shows "\<not> pops_boot_mailbox_is_valid (mb[i := b])"
proof -
  have ok: "mb_checksum mb = pops_boot_mailbox_checksum mb"
    using assms(1) by (simp add: pops_boot_mailbox_is_valid_def split: if_splits)
  have "mb_checksum (mb[i := b]) \<noteq> pops_boot_mailbox_checksum (mb[i := b])"
  proof (cases "i < 268")
    case True
    then have "mb_checksum (mb[i := b]) = mb_checksum mb" by (simp add: mb_checksum_def le32_def le16_def)
    moreover have "pops_boot_mailbox_checksum (mb[i := b]) \<noteq> pops_boot_mailbox_checksum mb"
      using checksum_detects [of i "take 268 mb" b] True assms by (simp add: pops_boot_mailbox_checksum_def take_update_swap)
    ultimately show ?thesis using ok by simp
  next
    case False
    then have "pops_boot_mailbox_checksum (mb[i := b]) = pops_boot_mailbox_checksum mb" by (simp add: pops_boot_mailbox_checksum_def)
    moreover have "mb_checksum (mb[i := b]) \<noteq> mb_checksum mb"
    proof
      have j: "i - 268 < 4" "268 + (i - 268) = i" using False assms(3) by linarith+
      assume "mb_checksum (mb[i := b]) = mb_checksum mb"
      from le32_inject [OF this [unfolded mb_checksum_def] j(1)] show False
        using assms(2-4) unfolding j(2) by simp
    qed
    ultimately show ?thesis using ok by simp
  qed
  then show ?thesis by (simp add: pops_boot_mailbox_is_valid_def)
qed



section \<open>A concrete mailbox\<close>

definition demo_mailbox :: pops_boot_mailbox where
  "demo_mailbox = [0x50, 0x4F, 0x50, 0x53, 1, 0, 0, 0, 0, 0, 0, 0] @ [48, 58, 47, 80, 79, 80, 83, 47, 65, 46, 86, 67, 68] @ replicate 243 0 @ [172, 244, 154, 236]"

lemma checksum_zeros: "checksum_loop c (replicate n 0) = c * 16777619 ^ n"
  by (induction n arbitrary: c) (simp_all add: mult.assoc)

lemma checksum_243_zeros: "checksum_loop c (replicate 243 0) = c * 2640479883"
proof -
  have p: "(16777619 :: u32) ^ 9 = 558416115" "(558416115 :: u32) ^ 9 = 78649171" "(78649171 :: u32) ^ 3 = 2640479883"
    and e: "243 = (9 * (9 * 3) :: nat)" by simp_all
  have "(16777619 :: u32) ^ 243 = 2640479883" by (simp only: e power_mult p)
  then show ?thesis by (simp only: checksum_zeros)
qed

lemma demo_checksum: "pops_boot_mailbox_checksum demo_mailbox = 3969578156"
  by (simp add: demo_mailbox_def pops_boot_mailbox_checksum_def checksum_loop_append checksum_243_zeros)

lemma demo_fields: "mb_magic demo_mailbox = POPS_BOOT_MAILBOX_MAGIC" "mb_version demo_mailbox = 1" "mb_deviceType demo_mailbox = 0"
  "mb_checksum demo_mailbox = 3969578156" "mb_vcdPath demo_mailbox ! 255 = NUL" "cstr (mb_vcdPath demo_mailbox) = ''0:/POPS/A.VCD''"
  by (simp_all add: demo_mailbox_def mb_magic_def mb_version_def mb_deviceType_def mb_checksum_def le32_def le16_def
      mb_vcdPath_def nth_append cstr_def char_of_def bit_simps push_bit_eq_mult)

lemma demo_valid: "pops_boot_mailbox_is_valid demo_mailbox" "length demo_mailbox = 272"
proof -
  show "pops_boot_mailbox_is_valid demo_mailbox"
    by (simp add: pops_boot_mailbox_is_valid_def demo_fields [simplified] demo_checksum pops_boot_vcd_suffix_matches_def Let_def)
  show "length demo_mailbox = 272" by (simp add: demo_mailbox_def)
qed

theorem mailbox_detects_byte_witness: "\<not> pops_boot_mailbox_is_valid (demo_mailbox[20 := 0x42])"
  using mailbox_detects_byte [OF demo_valid(1,2), of 20 "0x42"] by (simp add: demo_mailbox_def)



end
