(* ===== verification/Spec2Isabelle.thy ===== *)
theory Spec2Isabelle
  imports Bd_Defrag Part_Driver Usb_Mass Sd_Sim Ata_Sim Fs_Files Fat_Chain Boot_Mailbox
begin

text \<open>
  BDM Assault: the block-device stack of a PlayStation 2 launcher, from a USB stick, an
  SD card in a memory-card slot or an ATA disk to the files of its FAT volume.

  \<^bold>\<open>The parts and how they interact.\<close> A whole disk is a \<open>struct block_device\<close> (\<open>bdm/bdm.h\<close>): a record of
  geometry and four function pointers. The USB module provides one per stick: \<open>usbmass_bd_usb_mass.c\<close> moves command
  blocks, data and status over bulk pipes, \<open>usbmass_bd_scsi.c\<close> turns sector transfers into SCSI commands. The SD
  card module (\<open>__mx4sio_assault\<close>) provides one for a card on the serial port SIO2: \<open>mx4sio.c\<close> moves bytes and handles the
  completion interrupts of the DMA channel, \<open>spi_sdcard_driver.c\<close> speaks the card's protocol. The disk
  module (\<open>__bdmhdd_assault\<close>) provides one per ATA drive: \<open>ps2atad.c\<close> sends commands and moves the data with the services of
  \<open>ps2dev9.c\<close>, and \<open>usbd/usbd_usbd.c\<close> waits for the disk when the module starts. The
  manager \<open>bdm_bdm.c\<close> keeps a table of devices and of file-system drivers, puts a read cache (\<open>bd_cache.c\<close>) in
  front of whole disks and offers every device to every driver from its thread. The first drivers are the partition
  scanners (\<open>bdm_part_driver*.c\<close>), which connect one block device per partition, a window on the disk. The last one
  is the FAT driver \<open>bdmfs_fs_driver.c\<close>, which mounts one volume for FatFs (\<open>bdmfs_ff.c\<close>), reaches the device
  through \<open>bdmfs_diskio.c\<close>, serves the file calls and hands out fragment lists of files, through which
  \<open>bd_defrag.c\<close> reads and writes a file without the file system. \<open>bdm_main.c\<close> starts the module and takes the game
  to run from a mailbox left in memory by the launcher.

  \<^bold>\<open>Theories.\<close>
  \<^item> \<open>Bdm_Prelude\<close>: bytes, little- and big-endian numbers, array slices, words, named collections.
  \<^item> \<open>Block_Device\<close>: the record \<open>block_device\<close>, the operations record \<open>bd_ops\<close> over a state type and the locale
    \<open>block_store\<close>: the contract of a block device over an abstract disk (sector number to bytes). Successful reads
    return the disk, successful writes store the data, failures touch at most the addressed sectors.
  \<^item> \<open>Bd_Cache\<close>: \<open>bd_cache.c\<close>. The cached device is again a block store on the same disk; which block a miss replaces.
  \<^item> \<open>Bd_Defrag\<close>: \<open>bd_defrag.c\<close> over any block store: the file's sectors in order, write then read.
  \<^item> \<open>Scsi\<close>: \<open>usbmass_bd_scsi.c\<close> over any target that obeys READ and WRITE (locale \<open>scsi_target\<close>): a block store.
  \<^item> \<open>Usb_Bulk\<close>: the transport of \<open>usbmass_bd_usb_mass.c\<close> over any device that follows the bulk-only protocol
    (locale \<open>bulk_target\<close>, a phase machine of the device): the transport is a SCSI target.
  \<^item> \<open>Usb_Mass\<close>: the table of devices, hot plugging and the update thread; an inductive step relation with its
    invariant on pipes and semaphores.
  \<^item> \<open>Sd_Codec\<close>: the check sums and the bit reversal of the SD card driver against their specifications.
  \<^item> \<open>Sd_Bus\<close>: its byte transfers and commands, and the contract of a card in SPI mode (locale \<open>sd_card\<close>): a phase machine
    over the bytes on the wire.
  \<^item> \<open>Sd_Card\<close>: initialisation, card registers, recovery.
  \<^item> \<open>Sd_Dma\<close>: block transfers: the interrupt handlers, the thread beside them, the requests. The hardware says before each
    access of the thread how many interrupts are taken, so what holds for every hardware holds for every interleaving.
  \<^item> \<open>Sd_Read\<close>, \<open>Sd_Write\<close>: both directions under the contract, up to: the driver is a block store.
  \<^item> \<open>Sd_Return\<close>: reading returns without any assumption on the hardware.
  \<^item> \<open>Sd_Detect\<close>: card detection and what the manager is told.
  \<^item> \<open>Sd_Sim\<close>: a simulated card that meets the contract, and the properties of the driver.
  \<^item> \<open>Ata_Command\<close>: the registers of the drive and of the SPEED chip, commands, programmed and DMA transfers, waiting for the
    result, resets.
  \<^item> \<open>Ata_Io\<close>: requests as sequences of commands with their retries, and the block device; the two transfer functions agree.
  \<^item> \<open>Ata_Task\<close>: what the registers of a request mean to a drive, by the ATA standard.
  \<^item> \<open>Ata_Drive\<close>: the contract of a drive (locale \<open>ata_drive\<close>) over an observation of the hardware, with a relation \<open>later\<close> for what
    may change by itself between two accesses; issuing a command.
  \<^item> \<open>Ata_Wait\<close>: moving the data and waiting, with an arbitrary number of interrupts before the alarm; both loops return.
  \<^item> \<open>Ata_Store\<close>: from one command to a request: the driver is a block store.
  \<^item> \<open>Ata_Init\<close>: detection, identify data, start, passwords and the wait for the disk, as a relation on its turns.
  \<^item> \<open>Ata_Sim\<close>: a simulated drive that meets the contract, and the properties of the driver.
  \<^item> \<open>Bdm\<close>: the manager \<open>bdm_bdm.c\<close>, every exported call, the thread and start-up.
  \<^item> \<open>Part_Driver\<close>: the scanners and partition devices, and the manager with them registered: the invariant of all
    reachable states, the effect of disconnecting a disk, the two scanners from the bytes of the tables.
  \<^item> \<open>Diskio\<close>: \<open>bdmfs_diskio.c\<close>.
  \<^item> \<open>Fat_Access\<close>: the window of FatFs, \<open>get_fat\<close>, \<open>put_fat\<close>, \<open>clst2sect\<close>, \<open>clmt_clust\<close> over any device with the
    contract of \<open>diskio.c\<close> (locale \<open>fat_device\<close>).
  \<^item> \<open>Fat_Chain\<close>: cluster allocation and release, the exFAT bitmap, \<open>sync_fs\<close>.
  \<^item> \<open>Frag_List\<close>: \<open>get_frag_list\<close> and its composition with \<open>bd_defrag_read\<close>.
  \<^item> \<open>Fs_Mount\<close>: mounting, the target path, devctl and registration of \<open>bdmfs_fs_driver.c\<close>.
  \<^item> \<open>Fs_Files\<close>: its file and directory handlers, with the heap of link maps.
  \<^item> \<open>Boot_Mailbox\<close>: the mailbox and \<open>_start\<close>, on top of all of the above.
  \<^item> this theory: the whole stack of a volume as one device, from FatFs to the driver of the disk (locale \<open>whole_disk\<close>),
    for a USB stick down to the bulk pipes, for an SD card down to the bytes of the serial port and for an ATA disk down to
    the registers.

  \<^bold>\<open>How state and effects are modelled.\<close> C structures are records, tables of structures are lists of fixed length,
  function pointers are fields of operation records, integers are words of their width wherever the code computes
  with them, results are the C result with the new state. Loops are structural recursions where a counter bounds
  them (retry counters, tables, lengths) and \<open>partial_function (option)\<close> where the code has no bound of its own:
  the SCSI ready wait, the chunk loops (no progress when \<open>max_sectors\<close> is 0), the partition disconnect recursion,
  the chain walks of \<open>remove_chain\<close> and \<open>get_frag_list\<close>, the event loop of an SD card read, the DMA loop and the request
  loop of the ATA driver, the wait for the disk. Returning is stated and proved for all of them but two: the SCSI ready wait, which
  in the code runs as long as the stick answers that it is not ready, and the wait for the disk, which is meant to run until a disk
  is mounted and whose property is about its turns. No property assumes that a loop ends; where the model has no
  value because the C code would leave a buffer or follow a null pointer (USB descriptors), the property says so. No fuel is used
  as a substitute for a loop.

  \<^bold>\<open>Parameters.\<close> Code outside the repository, or taken as an interface, is an argument of the definitions: the
  transfers of the USB host stack (\<open>usb_host\<close>), the registers of the serial port (\<open>sio2_port\<close>), the registers, the DMA
  channel and the waits of the disk (\<open>ata_port\<close>), the creation of kernel objects (threads, semaphores, event flags),
  the clock, the FatFs calls \<open>f_*\<close> in the file-system driver, the memory of the mailbox. What is relied on is an
  explicit hypothesis or the assumptions of a locale, and every locale is interpreted on the model's definitions.

  \<^bold>\<open>Not modelled.\<close> The directory and name layers of FatFs and its code-page tables (third-party; the part of the
  library that decides where data goes, table access and allocation, is modelled). The USB host stack \<open>usbd\<close>, except
  the descriptor search: its state is a schedule shared with OHCI hardware. The DEV9 driver, except
  the services the ATA driver calls: card detection, set-up of the bus and the Ethernet chip and the interrupt dispatcher are
  register sequences without a contract of their own. \<open>_start\<close> of the disk module. The hook of the SD card module into
  \<open>sio2man\<close> and its module start, which patch and walk the loader's structures. The SMB module with its TCP/IP stacks, a separate program. The second copies of the modules
  (\<open>bdm\<close>, \<open>usbd\<close>, \<open>usbmass_bd\<close>, \<open>bdmfs_fatfs\<close> and the copies inside \<open>__bdmhdd_assault\<close>). Timing, and preemption
  inside a handler that holds its lock or runs with interrupts off.
\<close>

section \<open>The storage stack of a volume\<close>

text \<open>A partition as FatFs reaches it: \<open>part_read\<close> on the cached whole disk, the cache on the disk's own operations. The
  state is the cache with the state of the disk.\<close>

definition volume_ops :: "'s bd_ops \<Rightarrow> block_device \<Rightarrow> block_device \<Rightarrow> (bd_cache \<times> 's) bd_ops" where
  "volume_ops ops bd pbd = part_ops (Some (bdc_ops ops bd)) pbd"

text \<open>Every layer returns the count, 0 or a small error code.\<close>

definition small_result :: "int \<Rightarrow> bool" where
  "small_result r \<longleftrightarrow> - 5 \<le> r \<and> r < 65536"

lemma small_count [simp]: "small_result (uint (c :: u16))"
proof -
  have "uint c < 65536" using unat_lt_u16 [of c] by (simp add: uint_less_unat)
  then show ?thesis using unsigned_greater_eq [of c, where ?'a = int] unfolding small_result_def by linarith
qed

lemma small_codes [simp]: "small_result 0" "small_result (- 5)"
  by (simp_all add: small_result_def)

lemma cached_small:
  assumes "\<And>s a c r d s'. bd_read ops s a c = (r, d, s') \<Longrightarrow> small_result r"
    and "bdc_read ops bd cs a c = (r, d, cs')"
  shows "small_result r"
proof -
  have "small_result r" if "bdc_miss ops bd x s a c = (r, d, cs')" for x s
  proof -
    define m where "m = (if 8 > sectorCount bd - a then ucast (sectorCount bd - a) else 8 :: u16)"
    obtain q e t where rd: "bd_read ops s a m = (q, e, t)" by (metis prod_cases3)
    have "r = q \<or> r = - EIO \<or> r = int (unat c)"
      using that rd unfolding bdc_miss_def m_def [symmetric] by (auto simp: Let_def split: prod.splits if_splits)
    then show ?thesis using assms(1) [OF rd] by auto
  qed
  moreover have "small_result r" if "(let (r, d, s') = bd_read ops s a c in (r, d, x, s')) = (r, d, cs')" for s x
    using that assms(1) by (auto split: prod.splits)
  ultimately show ?thesis
    using assms(2) unfolding bdc_read_def by (auto split: prod.splits if_splits option.splits)
qed

text \<open>What a driver of whole disks promises to the layers above: the contract of a block device on the geometry it announced,
  and results that fit the manager's \<open>int\<close>. \<open>pbd\<close> is a partition inside the disk.\<close>

locale whole_disk = block_store ops inv disk ssz nsec
  for ops :: "'s bd_ops" and inv :: "'s \<Rightarrow> bool" and disk :: "'s \<Rightarrow> nat \<Rightarrow> bytes" and ssz :: nat and nsec :: nat +
  fixes bd :: block_device and pbd :: block_device
  assumes geometry: "ssz = unat (sectorSize bd)" "nsec = unat (sectorCount bd)" "nsec + 8 \<le> 2 ^ 64"
    and window: "unat (sectorOffset pbd) + unat (sectorCount pbd) \<le> nsec"
    and small_read: "bd_read ops s a c = (r, d, s') \<Longrightarrow> small_result r"
    and small_write: "bd_write ops s a d c = (r, s') \<Longrightarrow> small_result r"
begin

lemma volume_small:
  "bd_read (volume_ops ops bd pbd) s a c = (r, d, s') \<Longrightarrow> small_result r"
  "bd_write (volume_ops ops bd pbd) s a d c = (r, s') \<Longrightarrow> small_result r"
proof -
  show "bd_read (volume_ops ops bd pbd) s a c = (r, d, s') \<Longrightarrow> small_result r"
    unfolding volume_ops_def part_ops_def part_read_def bdc_ops_def
    by (rule cached_small [of ops bd s "a + sectorOffset pbd" c r d s']) (auto dest: small_read)
  show "bd_write (volume_ops ops bd pbd) s a d c = (r, s') \<Longrightarrow> small_result r"
    using small_write by (auto simp: volume_ops_def part_ops_def part_write_def bdc_ops_def bdc_write_def split: prod.splits)
qed

text \<open>The layers' refinements compose: the volume meets the contract FatFs relies on, on its window of the disk.\<close>

lemma cached_disk: "block_store (bdc_ops ops bd) (cached_inv inv disk bd) (\<lambda>cs. disk (snd cs)) ssz nsec"
proof -
  have "block_store ops inv disk (unat (sectorSize bd)) (unat (sectorCount bd))" using block_store_axioms geometry by simp
  then show ?thesis unfolding geometry(1,2) using block_store.cached_store [OF _ refl refl] geometry(2,3) by blast
qed

lemma volume_fat_device:
  assumes "de_ops env b = volume_ops ops bd pbd"
  shows "fat_device (volume_ops ops bd pbd) (cached_inv inv disk bd) (\<lambda>cs k. disk (snd cs) (k + unat (sectorOffset pbd))) ssz
    (unat (sectorCount pbd)) env b"
proof -
  have lt: "nsec < 2 ^ 64" using geometry(3) by linarith
  note cached_disk
  then have "block_store (volume_ops ops bd pbd) (cached_inv inv disk bd)
      (\<lambda>cs k. disk (snd cs) (k + unat (sectorOffset pbd))) ssz (unat (sectorCount pbd))"
    unfolding volume_ops_def using block_store.part_store [OF _ window lt] by blast
  then show ?thesis
  proof (rule fat_device.intro, intro fat_device_axioms.intro)
    show "unat (sectorCount pbd) < 2 ^ 64 - 1" using geometry(3) window by linarith
    show "- (2 ^ 31) \<le> r \<and> r < 2 ^ 31" if "bd_read (volume_ops ops bd pbd) s a c = (r, d, s')" for s a c r d s'
      using volume_small(1) [OF that] by (simp add: small_result_def)
    show "- (2 ^ 31) \<le> r \<and> r < 2 ^ 31" if "bd_write (volume_ops ops bd pbd) s a d c = (r, s')" for s a c r d s'
      using volume_small(2) [OF that] by (simp add: small_result_def)
  qed (simp add: assms)
qed

lemma volume_write_read:
  assumes "de_ops env b = volume_ops ops bd pbd" "mounted_dev mounted pd = Some b" "cached_inv inv disk bd s"
    and "unat a + unat n \<le> unat (sectorCount pbd)" "unat n < 65536" "length d = unat n * ssz"
    and "disk_write env mounted pd d a n s = (res, s1)" "disk_read env mounted pd a n s1 = (res', d', s2)"
  shows "cached_inv inv disk bd s2
     \<and> (\<forall>k. k < unat (sectorOffset pbd) \<or> unat (sectorOffset pbd) + unat (sectorCount pbd) \<le> k \<longrightarrow> disk (snd s2) k = disk (snd s) k)
     \<and> (res' = RES_OK \<longrightarrow> d' = sectors (disk (snd s2)) (unat (sectorOffset pbd) + unat a) (unat n))
     \<and> (res = RES_OK \<longrightarrow> sectors (disk (snd s2)) (unat (sectorOffset pbd) + unat a) (unat n) = d \<and> (res' = RES_OK \<longrightarrow> d' = d))"
proof -
  let ?ok = "cached_inv inv disk bd" and ?D = "\<lambda>cs. disk (snd cs)" and ?off = "unat (sectorOffset pbd)"
  note store = fat_device.axioms(1) [OF volume_fat_device [OF assms(1)]] and small = volume_small [unfolded small_result_def]
  have n: "unat (ucast n :: u16) = unat n" by (rule ucast_small) (fact assms(5))
  have off: "unat (a + sectorOffset pbd) = unat a + ?off" using geometry(3) window assms(4) by (intro unat_add_lt) simp
  have w: "?ok s1" "\<forall>k. k < unat a \<or> unat a + unat n \<le> k \<longrightarrow> ?D s1 (k + ?off) = ?D s (k + ?off)"
    "res = RES_OK \<Longrightarrow> (\<lambda>k. ?D s1 (k + ?off)) = upd_sectors (\<lambda>k. ?D s (k + ?off)) (unat a) (unat n) ssz d"
    using block_store.disk_write_ok [OF store assms(2,1,3,4,5,6) _ assms(7)] small(2) by fastforce+
  have r: "?ok s2" "(\<lambda>k. ?D s2 (k + ?off)) = (\<lambda>k. ?D s1 (k + ?off))"
    "res' = RES_OK \<Longrightarrow> d' = sectors (\<lambda>k. ?D s1 (k + ?off)) (unat a) (unat n)"
    using block_store.disk_read_ok [OF store assms(2,1) w(1) assms(4,5) _ assms(8)] small(1) by fastforce+
  have below: "?D s1 k = ?D s k" "?D s2 k = ?D s1 k" if "k < ?off" for k
  proof -
    have rng: "unat (a + sectorOffset pbd) + unat (ucast n :: u16) \<le> nsec" using window assms(4) off n by simp
    have l: "length d = unat (ucast n :: u16) * ssz" using assms(6) n by simp
    obtain x where "bd_write (bdc_ops ops bd) s (a + sectorOffset pbd) d (ucast n) = (x, s1)"
      using assms(7,2) by (auto simp: disk_write_def assms(1) volume_ops_def part_ops_def part_write_def split: prod.splits)
    then show "?D s1 k = ?D s k" using block_store.write_frame [OF cached_disk assms(3) rng l] that off by simp
    obtain y e where "bd_read (bdc_ops ops bd) s1 (a + sectorOffset pbd) (ucast n) = (y, e, s2)"
      using assms(8,2) by (auto simp: disk_read_def assms(1) volume_ops_def part_ops_def part_read_def split: prod.splits)
    then show "?D s2 k = ?D s1 k" using block_store.read_keeps [OF cached_disk w(1) rng] by metis
  qed
  have same: "sectors (?D s2) (?off + unat a) (unat n) = sectors (\<lambda>k. ?D s1 (k + ?off)) (unat a) (unat n)"
    using fun_cong [OF r(2)] by (intro sectors_shift) (metis add.assoc add.commute)
  have out: "?D s2 k = ?D s k" if "k < ?off \<or> ?off + unat (sectorCount pbd) \<le> k" for k
  proof (cases "k < ?off")
    case False
    then have "unat a + unat n \<le> k - ?off" "k = (k - ?off) + ?off" using that assms(4) by linarith+
    then show ?thesis using w(2) fun_cong [OF r(2), of "k - ?off"] by metis
  qed (simp add: below)
  show ?thesis using r w(3) same out sectors_upd_same [OF assms(6)] by simp
qed

end

section \<open>A volume on a USB stick\<close>

definition usb_volume_ops :: "'u usb_host \<Rightarrow> u8 \<Rightarrow> block_device \<Rightarrow> block_device \<Rightarrow> (bd_cache \<times> 'u usb_transport) bd_ops" where
  "usb_volume_ops host lun bd pbd = volume_ops (scsi_bd_ops (usb_scsi host lun) bd) bd pbd"

definition usb_volume_ok :: "int \<Rightarrow> int \<Rightarrow> int \<Rightarrow> int \<Rightarrow> ('u \<Rightarrow> bool) \<Rightarrow> ('u \<Rightarrow> phase) \<Rightarrow> ('u \<Rightarrow> nat \<Rightarrow> bytes) \<Rightarrow> block_device \<Rightarrow>
    bd_cache \<times> 'u usb_transport \<Rightarrow> bool" where
  "usb_volume_ok ctl epI epO iface dok phase disk bd =
     cached_inv (bulk_target.tp_ok ctl epI epO iface dok phase) (\<lambda>st. disk (tp_host st)) bd"

lemma scsi_small:
  "bd_read (scsi_bd_ops (usb_scsi host lun) bd) u a c = (r, d, u') \<Longrightarrow> small_result r"
  "bd_write (scsi_bd_ops (usb_scsi host lun) bd) u a d c = (r, u') \<Longrightarrow> small_result r"
proof -
  have m: "0 < max_sectors (usb_scsi host lun)" by (simp add: usb_scsi_def)
  obtain x where x: "scsi_read_loop (usb_scsi host lun) bd u a c [] = Some x" using scsi_read_loop_returns [OF m] by blast
  obtain y where y: "scsi_write_loop (usb_scsi host lun) bd u a c d = Some y" using scsi_write_loop_returns [OF m] by blast
  show "bd_read (scsi_bd_ops (usb_scsi host lun) bd) u a c = (r, d, u') \<Longrightarrow> small_result r"
    using x by (auto simp: scsi_bd_ops_def scsi_read_def split: prod.splits if_splits)
  show "bd_write (scsi_bd_ops (usb_scsi host lun) bd) u a d c = (r, u') \<Longrightarrow> small_result r"
    using y by (auto simp: scsi_bd_ops_def scsi_write_def split: prod.splits if_splits)
qed

lemma usb_whole_disk:
  assumes "bulk_target host ctl epI epO iface dok disk phase ssz nsec"
    and "ssz = unat (sectorSize bd)" "nsec = unat (sectorCount bd)" "ssz * 65535 < 2 ^ 32" "nsec + 8 \<le> 2 ^ 64"
    and "unat (sectorOffset pbd) + unat (sectorCount pbd) \<le> nsec"
  shows "whole_disk (scsi_bd_ops (usb_scsi host lun) bd) (bulk_target.tp_ok ctl epI epO iface dok phase) (\<lambda>st. disk (tp_host st)) ssz nsec bd pbd"
proof -
  have "nsec < 2 ^ 64" using assms(5) by linarith
  then have "block_store (scsi_bd_ops (usb_scsi host lun) bd) (bulk_target.tp_ok ctl epI epO iface dok phase) (\<lambda>st. disk (tp_host st)) ssz nsec"
    by (rule scsi_target.scsi_store [OF bulk_target.usb_scsi_target [OF assms(1,2,4)]])
  then show ?thesis by (intro whole_disk.intro whole_disk_axioms.intro assms(2,3,5,6)) (auto dest: scsi_small)
qed

definition stick_vol :: block_device where
  "stick_vol = (stick_bd 40)\<lparr>sectorOffset := 50, parNr := 1\<rparr>"

definition stick_env :: "(bd_cache \<times> stick usb_transport) disk_env" where
  "stick_env = \<lparr>de_ops = \<lambda>b. usb_volume_ops (stick_host 100) 0 (stick_bd 100) stick_vol, de_desc = \<lambda>b. stick_vol\<rparr>"

interpretation stick_whole: whole_disk "scsi_bd_ops (usb_scsi (stick_host 100) 0) (stick_bd 100)"
  "bulk_target.tp_ok 1 2 3 0 (\<lambda>u. ram_inv 512 (sk_disk u)) sk_phase" "\<lambda>st. sk_disk (tp_host st)" 512 100 "stick_bd 100" stick_vol
  by (rule usb_whole_disk [OF stick_target]) (simp_all add: stick_bd_def stick_vol_def)

interpretation stick_fat: fat_device "usb_volume_ops (stick_host 100) 0 (stick_bd 100) stick_vol"
  "usb_volume_ok 1 2 3 0 (\<lambda>u. ram_inv 512 (sk_disk u)) sk_phase sk_disk (stick_bd 100)"
  "\<lambda>cs k. sk_disk (tp_host (snd cs)) (k + unat (sectorOffset stick_vol))" 512 "unat (sectorCount stick_vol)"
  stick_env "[Some (DevBd 0)]" "DevBd 0"
  unfolding usb_volume_ops_def usb_volume_ok_def
  by (rule stick_whole.volume_fat_device) (simp add: stick_env_def usb_volume_ops_def)

text \<open>The state just after the disk was connected: an empty cache over the transport.\<close>

definition stick_state :: "bd_cache \<times> stick usb_transport" where
  "stick_state = (snd (the (snd (bd_cache_create True (Some (replicate 32 (replicate 4096 0))) (Some (stick_bd 100))))), demo_tp)"

lemma stick_state_ok: "usb_volume_ok 1 2 3 0 (\<lambda>u. ram_inv 512 (sk_disk u)) sk_phase sk_disk (stick_bd 100) stick_state"
proof -
  have "bulk_target.tp_ok 1 2 3 0 (\<lambda>u. ram_inv 512 (sk_disk u)) sk_phase demo_tp"
    using demo_tp_sel by (simp add: bulk_target.tp_ok_def [OF stick_target] bulk_target.our_dev_def [OF stick_target])
  moreover have "cache_inv (stick_bd 100) (sk_disk (tp_host demo_tp)) (fst stick_state)"
    by (rule cache_create_inv(1) [of True "replicate 32 (replicate 4096 0)" "stick_bd 100" "[Alloc_cbd, Alloc_c]"])
      (simp_all add: stick_state_def bd_cache_create_def stick_bd_def)
  ultimately show ?thesis by (simp add: usb_volume_ok_def cached_inv_def stick_state_def)
qed

text \<open>C1. The storage stack as a whole, from FatFs down to the USB device: for every device that follows the
  bulk-only protocol, a write that \<open>disk_write\<close> confirms on a mounted partition has put exactly its data
  on the device's sectors behind the partition's offset, through partition, cache, SCSI layer and
  transport; a confirmed read returns the sectors the device holds, so what was written is read
  back; and, confirmed or not, no sector outside the partition changes and the stack stays consistent.\<close>

theorem usb_volume_write_read:
  assumes "bulk_target host ctl epI epO iface dok disk phase ssz nsec"
    and "ssz = unat (sectorSize bd)" "nsec = unat (sectorCount bd)" "ssz * 65535 < 2 ^ 32" "nsec + 8 \<le> 2 ^ 64"
    and "unat (sectorOffset pbd) + unat (sectorCount pbd) \<le> nsec"
    and "de_ops env b = usb_volume_ops host lun bd pbd" "mounted_dev mounted pd = Some b"
    and "usb_volume_ok ctl epI epO iface dok phase disk bd s"
    and "unat a + unat n \<le> unat (sectorCount pbd)" "unat n < 65536" "length d = unat n * ssz"
    and "disk_write env mounted pd d a n s = (res, s1)" "disk_read env mounted pd a n s1 = (res', d', s2)"
  shows "usb_volume_ok ctl epI epO iface dok phase disk bd s2
     \<and> (\<forall>k. k < unat (sectorOffset pbd) \<or> unat (sectorOffset pbd) + unat (sectorCount pbd) \<le> k \<longrightarrow>
          disk (tp_host (snd s2)) k = disk (tp_host (snd s)) k)
     \<and> (res' = RES_OK \<longrightarrow> d' = sectors (disk (tp_host (snd s2))) (unat (sectorOffset pbd) + unat a) (unat n))
     \<and> (res = RES_OK \<longrightarrow> sectors (disk (tp_host (snd s2))) (unat (sectorOffset pbd) + unat a) (unat n) = d
          \<and> (res' = RES_OK \<longrightarrow> d' = d))"
  using whole_disk.volume_write_read [OF usb_whole_disk [OF assms(1-6), of lun] assms(7) [unfolded usb_volume_ops_def] assms(8)
    assms(9) [unfolded usb_volume_ok_def] assms(10-14)]
  unfolding usb_volume_ok_def .

theorem usb_volume_write_read_witness:
  "\<exists>res s1 res' d' s2. disk_write stick_env [Some (DevBd 0)] 0 (replicate 1024 7) 3 2 stick_state = (res, s1)
     \<and> disk_read stick_env [Some (DevBd 0)] 0 3 2 s1 = (res', d', s2)
     \<and> sk_disk (tp_host (snd s2)) 49 = zero_disk 512 49 \<and> (res = RES_OK \<and> res' = RES_OK \<longrightarrow> d' = replicate 1024 7)"
proof -
  obtain res s1 where w: "disk_write stick_env [Some (DevBd 0)] 0 (replicate 1024 7) 3 2 stick_state = (res, s1)" by (metis surj_pair)
  obtain res' d' s2 where r: "disk_read stick_env [Some (DevBd 0)] 0 3 2 s1 = (res', d', s2)" by (metis prod_cases3)
  have e: "unat (sectorOffset stick_vol) = 50" "unat (sectorCount stick_vol) = 40" by (simp_all add: stick_vol_def stick_bd_def)
  have z: "sk_disk (tp_host (snd stick_state)) = zero_disk 512" using demo_tp_sel(8) by (simp add: stick_state_def)
  note t = usb_volume_write_read [OF stick_target _ _ _ _ _ _ _ stick_state_ok _ _ _ w r, where pbd = stick_vol and b = "DevBd 0" and lun = 0, unfolded e z]
  have "mounted_dev [Some (DevBd 0)] 0 = Some (DevBd 0)" by (simp add: mounted_dev_at)
  then have "sk_disk (tp_host (snd s2)) 49 = zero_disk 512 49 \<and> (res = RES_OK \<and> res' = RES_OK \<longrightarrow> d' = replicate 1024 7)"
    using t by (simp add: stick_bd_def stick_env_def)
  then show ?thesis using w r by blast
qed

section \<open>A volume on an SD card\<close>

definition sd_volume_ops :: "'h sio2_port \<Rightarrow> (nat \<Rightarrow> bytes) \<Rightarrow> block_device \<Rightarrow> block_device \<Rightarrow> (bd_cache \<times> 'h sd_req) bd_ops" where
  "sd_volume_ops port fill bd pbd = volume_ops (sd_bd_ops port fill) bd pbd"

definition sd_volume_ok :: "('h \<Rightarrow> sd_phase) \<Rightarrow> ('h \<Rightarrow> nat \<Rightarrow> bytes) \<Rightarrow> bool \<Rightarrow> block_device \<Rightarrow> bd_cache \<times> 'h sd_req \<Rightarrow> bool" where
  "sd_volume_ok phase disk hc bd = cached_inv (sd_idle phase hc) (\<lambda>st. disk (rq_hw st)) bd"

lemma sd_small:
  "bd_read (sd_bd_ops port fill) st a c = (r, d, st') \<Longrightarrow> small_result r"
  "bd_write (sd_bd_ops port fill) st a d c = (r, st') \<Longrightarrow> small_result r"
proof -
  show "bd_read (sd_bd_ops port fill) st a c = (r, d, st') \<Longrightarrow> small_result r"
    using read_request_returns [of port st a "fill (unat c * 512)" c] by (auto simp: sd_bd_ops_def)
  show "bd_write (sd_bd_ops port fill) st a d c = (r, st') \<Longrightarrow> small_result r"
    using write_request_result [of port st a d c] by (auto simp: sd_bd_ops_def split: prod.splits)
qed

lemma sd_whole_disk:
  assumes "sd_card port phase disk hc tm" "\<And>k. length (fill k) = k"
    and "sectorSize bd = 512" "unat (sectorCount bd) \<le> sd_blocks hc"
    and "unat (sectorOffset pbd) + unat (sectorCount pbd) \<le> unat (sectorCount bd)"
  shows "whole_disk (sd_bd_ops port fill) (sd_idle phase hc) (\<lambda>st. disk (rq_hw st)) 512 (unat (sectorCount bd)) bd pbd"
proof -
  have "unat (sectorCount bd) + 8 \<le> 2 ^ 64" using assms(4) by (simp add: sd_blocks_def split: if_splits)
  then show ?thesis using assms(3,5)
    by (intro whole_disk.intro whole_disk_axioms.intro sd_card.sd_block_store [OF assms(1,4,2)]) (auto dest: sd_small)
qed

definition card_bd :: block_device where "card_bd = sd_bd (demo_card Ready)"

definition card_vol :: block_device where
  "card_vol = card_bd\<lparr>sectorOffset := 2048, sectorCount := 4096, parNr := 1\<rparr>"

abbreviation zero_fill :: "nat \<Rightarrow> bytes" where "zero_fill \<equiv> \<lambda>k. replicate k 0"

definition card_env :: "(bd_cache \<times> sim_card sd_req) disk_env" where
  "card_env = \<lparr>de_ops = \<lambda>b. sd_volume_ops demo_port zero_fill card_bd card_vol, de_desc = \<lambda>b. card_vol\<rparr>"

interpretation card_whole: whole_disk "sd_bd_ops demo_port zero_fill" "sd_idle sim_phase True" "\<lambda>st. sim_disk (rq_hw st)" 512
    "unat (sectorCount card_bd)" card_bd card_vol
  by (rule sd_whole_disk [OF sim.sd_card_axioms]) (simp_all add: card_bd_def card_vol_def demo_card_def sd_blocks_def)

interpretation card_fat: fat_device "sd_volume_ops demo_port zero_fill card_bd card_vol" "sd_volume_ok sim_phase sim_disk True card_bd"
    "\<lambda>cs k. sim_disk (rq_hw (snd cs)) (k + unat (sectorOffset card_vol))" 512 "unat (sectorCount card_vol)"
    card_env "[Some (DevBd 0)]" "DevBd 0"
  unfolding sd_volume_ops_def sd_volume_ok_def
  by (rule card_whole.volume_fat_device) (simp add: card_env_def sd_volume_ops_def)

definition card_state :: "bd_cache \<times> sim_card sd_req" where
  "card_state = (snd (the (snd (bd_cache_create True (Some (replicate 32 (replicate 4096 0))) (Some card_bd)))), demo_req 0 Ready)"

lemma card_state_ok: "sd_volume_ok sim_phase sim_disk True card_bd card_state"
proof -
  have "cache_inv card_bd (sim_disk (rq_hw (demo_req 0 Ready))) (fst card_state)"
    by (rule cache_create_inv(1) [of True "replicate 32 (replicate 4096 0)" card_bd "[Alloc_cbd, Alloc_c]"])
      (simp_all add: card_state_def bd_cache_create_def card_bd_def demo_card_def)
  then show ?thesis using demo_idle by (simp add: sd_volume_ok_def cached_inv_def card_state_def)
qed

text \<open>C2. The same stack on an SD card, from FatFs down to the bytes on the serial port: for every card that follows the SD
  specification, under every interleaving of the driver's thread with its interrupts, a confirmed write
  has put exactly its data on the card's blocks behind the partition's offset, a confirmed read returns what the
  card holds, and no block outside the partition changes.\<close>

theorem sd_volume_write_read:
  assumes "sd_card port phase disk hc tm" "\<forall>k. length (fill k) = k"
    and "sectorSize bd = 512" "unat (sectorCount bd) \<le> sd_blocks hc"
    and "unat (sectorOffset pbd) + unat (sectorCount pbd) \<le> unat (sectorCount bd)"
    and "de_ops env b = sd_volume_ops port fill bd pbd" "mounted_dev mounted pd = Some b"
    and "sd_volume_ok phase disk hc bd s"
    and "unat a + unat n \<le> unat (sectorCount pbd)" "unat n < 65536" "length d = unat n * 512"
    and "disk_write env mounted pd d a n s = (res, s1)" "disk_read env mounted pd a n s1 = (res', d', s2)"
  shows "sd_volume_ok phase disk hc bd s2
     \<and> (\<forall>k. k < unat (sectorOffset pbd) \<or> unat (sectorOffset pbd) + unat (sectorCount pbd) \<le> k \<longrightarrow>
          disk (rq_hw (snd s2)) k = disk (rq_hw (snd s)) k)
     \<and> (res' = RES_OK \<longrightarrow> d' = sectors (disk (rq_hw (snd s2))) (unat (sectorOffset pbd) + unat a) (unat n))
     \<and> (res = RES_OK \<longrightarrow> sectors (disk (rq_hw (snd s2))) (unat (sectorOffset pbd) + unat a) (unat n) = d
          \<and> (res' = RES_OK \<longrightarrow> d' = d))"
  using whole_disk.volume_write_read [OF sd_whole_disk [OF assms(1) assms(2) [rule_format] assms(3-5)]
    assms(6) [unfolded sd_volume_ops_def] assms(7) assms(8) [unfolded sd_volume_ok_def] assms(9-13)]
  unfolding sd_volume_ok_def .

theorem sd_volume_write_read_witness:
  "\<exists>res s1 res' d' s2. disk_write card_env [Some (DevBd 0)] 0 (replicate 1024 7) 3 2 card_state = (res, s1)
     \<and> disk_read card_env [Some (DevBd 0)] 0 3 2 s1 = (res', d', s2)
     \<and> sim_disk (rq_hw (snd s2)) 2047 = replicate 512 0xFF \<and> (res = RES_OK \<and> res' = RES_OK \<longrightarrow> d' = replicate 1024 7)"
proof -
  obtain res s1 where w: "disk_write card_env [Some (DevBd 0)] 0 (replicate 1024 7) 3 2 card_state = (res, s1)" by (metis surj_pair)
  obtain res' d' s2 where r: "disk_read card_env [Some (DevBd 0)] 0 3 2 s1 = (res', d', s2)" by (metis prod_cases3)
  have e: "unat (sectorOffset card_vol) = 2048" "unat (sectorCount card_vol) = 4096" "unat (sectorCount card_bd) = 15523840" "sectorSize card_bd = 512"
    by (simp_all add: card_vol_def card_bd_def demo_card_def)
  have z: "sim_disk (rq_hw (snd card_state)) 2047 = replicate 512 0xFF" by (simp add: card_state_def)
  have m: "mounted_dev [Some (DevBd 0)] 0 = Some (DevBd 0)" by (simp add: mounted_dev_at)
  have c: "sd_card demo_port sim_phase sim_disk True sim_times" by (rule sim.sd_card_axioms)
  note t = sd_volume_write_read [OF c _ _ _ _ _ m card_state_ok _ _ _ w r, where fill = zero_fill and pbd = card_vol, unfolded e]
  have "sim_disk (rq_hw (snd s2)) 2047 = replicate 512 0xFF \<and> (res = RES_OK \<and> res' = RES_OK \<longrightarrow> d' = replicate 1024 7)"
    using t z by (simp add: card_env_def sd_blocks_def)
  then show ?thesis using w r by blast
qed

section \<open>A volume on an ATA disk\<close>

definition ata_volume_ops :: "'h ata_port \<Rightarrow> nat \<Rightarrow> block_device \<Rightarrow> block_device \<Rightarrow> (bd_cache \<times> 'h ata) bd_ops" where
  "ata_volume_ops port buf bd pbd = volume_ops (ata_bd_ops port bd buf) bd pbd"

definition ata_volume_ok :: "('h \<Rightarrow> ata_obs) \<Rightarrow> u16 \<Rightarrow> bool \<Rightarrow> nat \<Rightarrow> block_device \<Rightarrow> bd_cache \<times> 'h ata \<Rightarrow> bool" where
  "ata_volume_ok obs dev lba48 bps bd =
     cached_inv (ata_ready dev lba48 (unat (sectorCount bd))) (\<lambda>st. ata_disk bps (obs (at_hw st))) bd"

lemma ata_small:
  "bd_read (ata_bd_ops port bd buf) st a c = (r, d, st') \<Longrightarrow> small_result r"
  "bd_write (ata_bd_ops port bd buf) st a d c = (r, st') \<Longrightarrow> small_result r"
proof -
  have *: "small_result r" if "bd_result c x = Some (r, s)" for x and s :: "'a ata"
    using that by (cases x) (auto simp: bd_result_def split: if_splits)
  show "bd_read (ata_bd_ops port bd buf) st a c = (r, d, st') \<Longrightarrow> small_result r"
    by (auto simp: ata_bd_ops_def ata_bd_read_def dest: * split: option.splits)
  show "bd_write (ata_bd_ops port bd buf) st a d c = (r, st') \<Longrightarrow> small_result r"
    by (auto simp: ata_bd_ops_def ata_bd_write_def dest: * split: option.splits)
qed

lemma ata_whole_disk:
  assumes "ata_drive port obs dev lba48 bps (unat (sectorCount bd))" "ucast (devNr bd) = dev"
    and "unat (sectorSize bd) = bps * 512" "bps * 65535 < 2 ^ 32"
    and "unat (sectorOffset pbd) + unat (sectorCount pbd) \<le> unat (sectorCount bd)"
  shows "whole_disk (ata_bd_ops port bd buf) (ata_ready dev lba48 (unat (sectorCount bd))) (\<lambda>st. ata_disk bps (obs (at_hw st)))
    (bps * 512) (unat (sectorCount bd)) bd pbd"
proof -
  have "unat (sectorCount bd) + 8 \<le> 2 ^ 64" using ata_drive.nsec_bound [OF assms(1)] by simp
  then show ?thesis using assms(3,5)
    by (intro whole_disk.intro whole_disk_axioms.intro ata_drive.ata_block_store [OF assms(1-4)]) (auto dest: ata_small)
qed

definition disk_vol :: block_device where
  "disk_vol = disk4k\<lparr>sectorOffset := 256, sectorCount := 100000, parNr := 1\<rparr>"

definition hdd_env :: "(bd_cache \<times> ata_obs ata) disk_env" where
  "hdd_env = \<lparr>de_ops = \<lambda>b. ata_volume_ops (sim_ata_port 8 125000) 0 disk4k disk_vol, de_desc = \<lambda>b. disk_vol\<rparr>"

lemma disk_sel: "unat (sectorCount disk4k) = 125000" "unat (sectorSize disk4k) = 4096" "ucast (devNr disk4k) = (1 :: u16)"
  "unat (sectorOffset disk_vol) = 256" "unat (sectorCount disk_vol) = 100000"
  by (simp_all add: disk4k_def disk_vol_def ata_bd_init_def)

lemma disk_drive: "ata_drive (sim_ata_port 8 125000) sim_obs 1 True 8 (unat (sectorCount disk4k))"
  using drive4k.ata_drive_axioms by (simp add: disk_sel)

interpretation hdd_whole: whole_disk "ata_bd_ops (sim_ata_port 8 125000) disk4k 0" "ata_ready 1 True (unat (sectorCount disk4k))"
    "\<lambda>st. ata_disk 8 (sim_obs (at_hw st))" "8 * 512" "unat (sectorCount disk4k)" disk4k disk_vol
  by (rule ata_whole_disk [OF disk_drive]) (simp_all add: disk_sel)

interpretation hdd_fat: fat_device "ata_volume_ops (sim_ata_port 8 125000) 0 disk4k disk_vol" "ata_volume_ok sim_obs 1 True 8 disk4k"
    "\<lambda>cs k. ata_disk 8 (sim_obs (at_hw (snd cs))) (k + unat (sectorOffset disk_vol))" "8 * 512" "unat (sectorCount disk_vol)"
    hdd_env "[Some (DevBd 0)]" "DevBd 0"
  unfolding ata_volume_ops_def ata_volume_ok_def
  by (rule hdd_whole.volume_fat_device) (simp add: hdd_env_def ata_volume_ops_def)

definition hdd_state :: "bd_cache \<times> ata_obs ata" where
  "hdd_state = (snd (the (snd (bd_cache_create True (Some (replicate 32 (replicate 4096 0))) (Some disk4k)))), demo_ata)"

lemma hdd_state_ok: "ata_volume_ok sim_obs 1 True 8 disk4k hdd_state"
proof -
  have "cache_inv disk4k (ata_disk 8 (sim_obs (at_hw demo_ata))) (fst hdd_state)"
    by (rule cache_create_inv(1) [of True "replicate 32 (replicate 4096 0)" disk4k "[Alloc_cbd, Alloc_c]"])
      (simp_all add: hdd_state_def bd_cache_create_def disk4k_def ata_bd_init_def)
  then show ?thesis using demo_ready(2) by (simp add: ata_volume_ok_def cached_inv_def hdd_state_def disk_sel)
qed

text \<open>C3. The same stack on an ATA disk, from FatFs down to the registers of the SPEED chip: for every drive that follows the ATA
  protocol, with sectors of 512 bytes or a multiple of it and whatever interrupts, errors and timeouts come, a confirmed
  write has put exactly its data on the drive's sectors behind the partition's offset, a confirmed read returns what the
  drive holds, and no sector outside the partition changes.\<close>

theorem ata_volume_write_read:
  assumes "ata_drive port obs dev lba48 bps (unat (sectorCount bd))" "ucast (devNr bd) = dev"
    and "unat (sectorSize bd) = bps * 512" "bps * 65535 < 2 ^ 32"
    and "unat (sectorOffset pbd) + unat (sectorCount pbd) \<le> unat (sectorCount bd)"
    and "de_ops env b = ata_volume_ops port buf bd pbd" "mounted_dev mounted pd = Some b"
    and "ata_volume_ok obs dev lba48 bps bd s"
    and "unat a + unat n \<le> unat (sectorCount pbd)" "unat n < 65536" "length d = unat n * (bps * 512)"
    and "disk_write env mounted pd d a n s = (res, s1)" "disk_read env mounted pd a n s1 = (res', d', s2)"
  shows "ata_volume_ok obs dev lba48 bps bd s2
     \<and> (\<forall>k. k < unat (sectorOffset pbd) \<or> unat (sectorOffset pbd) + unat (sectorCount pbd) \<le> k \<longrightarrow>
          ata_disk bps (obs (at_hw (snd s2))) k = ata_disk bps (obs (at_hw (snd s))) k)
     \<and> (res' = RES_OK \<longrightarrow> d' = sectors (ata_disk bps (obs (at_hw (snd s2)))) (unat (sectorOffset pbd) + unat a) (unat n))
     \<and> (res = RES_OK \<longrightarrow> sectors (ata_disk bps (obs (at_hw (snd s2)))) (unat (sectorOffset pbd) + unat a) (unat n) = d
          \<and> (res' = RES_OK \<longrightarrow> d' = d))"
  using whole_disk.volume_write_read [OF ata_whole_disk [OF assms(1-5), of buf] assms(6) [unfolded ata_volume_ops_def] assms(7)
    assms(8) [unfolded ata_volume_ok_def] assms(9-13)]
  unfolding ata_volume_ok_def .

theorem ata_volume_write_read_witness:
  "\<exists>res s1 res' d' s2. disk_write hdd_env [Some (DevBd 0)] 0 (replicate 8192 7) 3 2 hdd_state = (res, s1)
     \<and> disk_read hdd_env [Some (DevBd 0)] 0 3 2 s1 = (res', d', s2)
     \<and> ata_disk 8 (sim_obs (at_hw (snd s2))) 255 = ata_disk 8 (sim_obs demo_drive) 255 \<and> (res = RES_OK \<and> res' = RES_OK \<longrightarrow> d' = replicate 8192 7)"
proof -
  obtain res s1 where w: "disk_write hdd_env [Some (DevBd 0)] 0 (replicate 8192 7) 3 2 hdd_state = (res, s1)" by (metis surj_pair)
  obtain res' d' s2 where r: "disk_read hdd_env [Some (DevBd 0)] 0 3 2 s1 = (res', d', s2)" by (metis prod_cases3)
  have z: "at_hw (snd hdd_state) = demo_drive" by (simp add: hdd_state_def demo_ata_def)
  have m: "mounted_dev [Some (DevBd 0)] 0 = Some (DevBd 0)" by (simp add: mounted_dev_at)
  note t = ata_volume_write_read [OF disk_drive _ _ _ _ _ m hdd_state_ok _ _ _ w r, where buf = 0 and pbd = disk_vol, unfolded disk_sel z]
  have "ata_disk 8 (sim_obs (at_hw (snd s2))) 255 = ata_disk 8 (sim_obs demo_drive) 255 \<and> (res = RES_OK \<and> res' = RES_OK \<longrightarrow> d' = replicate 8192 7)"
    using t by (simp add: hdd_env_def)
  then show ?thesis using w r by blast
qed

end
